(* ===== verification/Deravel_Prelude.thy ===== *)
theory Deravel_Prelude
  imports Main "HOL-Library.Word" "HOL-Library.Monad_Syntax" "HOL-Library.Code_Target_Nat"
begin

text \<open>
  Shared vocabulary of the Deravel OS development.

  The kernel and its programs are built with Cargo's \<open>dev\<close> profile
  (\<open>src/Cargo.toml\<close> only changes its \<open>opt-level\<close>), so overflow checks and debug assertions
  are on and a panic aborts: \<open>usize\<close> values are \<^typ>\<open>nat\<close> with checked operations, and a
  computation that may panic has an \<^typ>\<open>'a option\<close> result in which \<^const>\<open>None\<close> is the
  panic.  A Rust \<open>Result\<close> below it is a sum type with the error on the left, and values that
  the code inspects bit by bit are words of the code's width.
\<close>

unbundle bit_operations_syntax

subsection \<open>Types\<close>

type_synonym u8 = "8 word"
type_synonym u16 = "16 word"
type_synonym u32 = "32 word"
type_synonym u64 = "64 word"
type_synonym usize = nat

text \<open>A panicking computation: \<^const>\<open>None\<close> is the abort.\<close>

type_synonym 'a run = "'a option"

subsection \<open>Assertions and checked arithmetic\<close>

named_theorems run_simps \<open>equations for computations that may panic\<close>

definition ensure :: "bool \<Rightarrow> unit run" where
  "ensure b = (if b then Some () else None)"

abbreviation usize_end :: nat where
  "usize_end \<equiv> 18446744073709551616"

definition uadd :: "usize \<Rightarrow> usize \<Rightarrow> usize run" where
  "uadd a b = (if a + b < usize_end then Some (a + b) else None)"

definition usub :: "usize \<Rightarrow> usize \<Rightarrow> usize run" where
  "usub a b = (if b \<le> a then Some (a - b) else None)"

definition umul :: "usize \<Rightarrow> usize \<Rightarrow> usize run" where
  "umul a b = (if a * b < usize_end then Some (a * b) else None)"

definition udiv :: "usize \<Rightarrow> usize \<Rightarrow> usize run" where
  "udiv a b = (if b = 0 then None else Some (a div b))"

definition urem :: "usize \<Rightarrow> usize \<Rightarrow> usize run" where
  "urem a b = (if b = 0 then None else Some (a mod b))"

text \<open>\<open>usize::is_multiple_of\<close>: with a zero divisor only zero is a multiple.\<close>

definition is_multiple_of :: "usize \<Rightarrow> usize \<Rightarrow> bool" where
  "is_multiple_of a b \<longleftrightarrow> (if b = 0 then a = 0 else a mod b = 0)"

definition next_multiple_of :: "usize \<Rightarrow> usize \<Rightarrow> usize run" where
  "next_multiple_of a b = do {
     r \<leftarrow> urem a b;
     if r = 0 then Some a else uadd a (b - r) }"

definition div_ceil :: "usize \<Rightarrow> usize \<Rightarrow> usize run" where
  "div_ceil a b = do {
     q \<leftarrow> udiv a b;
     if a mod b = 0 then Some q else uadd q 1 }"

text \<open>\<open>usize::next_power_of_two\<close>, by the number of bits of the predecessor.\<close>

fun bit_count :: "nat \<Rightarrow> nat" where
  "bit_count n = (if n = 0 then 0 else Suc (bit_count (n div 2)))"

declare bit_count.simps [simp del]

definition next_power_of_two :: "usize \<Rightarrow> usize run" where
  "next_power_of_two n =
     (if n \<le> 1 then Some 1
      else let p = 2 ^ bit_count (n - 1) in if p < usize_end then Some p else None)"

definition is_power_of_two :: "nat \<Rightarrow> bool" where
  "is_power_of_two n \<longleftrightarrow> n \<noteq> 0 \<and> (n = 1 \<or> n = 2 ^ bit_count (n - 1))"

subsection \<open>Reading a computation that returned\<close>

lemma ensure_Some [simp]: "ensure b = Some u \<longleftrightarrow> b"
  by (auto simp: ensure_def)

lemma ensure_True [simp]: "ensure True = Some ()"
  by (simp add: ensure_def)

lemma ensure_False [simp]: "ensure False = None"
  by (simp add: ensure_def)

lemma ensure_None [simp]: "ensure b = None \<longleftrightarrow> \<not> b"
  by (auto simp: ensure_def)

lemma bind_ensure [simp]: "(ensure b \<bind> f) = (if b then f () else None)"
  by (simp add: ensure_def)

lemma uadd_Some [simp]: "uadd a b = Some c \<longleftrightarrow> a + b < usize_end \<and> c = a + b"
  by (auto simp: uadd_def)

lemma usub_Some [simp]: "usub a b = Some c \<longleftrightarrow> b \<le> a \<and> c = a - b"
  by (auto simp: usub_def)

lemma umul_Some [simp]: "umul a b = Some c \<longleftrightarrow> a * b < usize_end \<and> c = a * b"
  by (auto simp: umul_def)

lemma udiv_Some [simp]: "udiv a b = Some c \<longleftrightarrow> b \<noteq> 0 \<and> c = a div b"
  by (auto simp: udiv_def)

lemma urem_Some [simp]: "urem a b = Some c \<longleftrightarrow> b \<noteq> 0 \<and> c = a mod b"
  by (auto simp: urem_def)

lemma uadd_ok [simp]: "a + b < usize_end \<Longrightarrow> uadd a b = Some (a + b)"
  by (simp add: uadd_def)

lemma usub_ok [simp]: "b \<le> a \<Longrightarrow> usub a b = Some (a - b)"
  by (simp add: usub_def)

lemma umul_ok [simp]: "a * b < usize_end \<Longrightarrow> umul a b = Some (a * b)"
  by (simp add: umul_def)

lemma udiv_ok [simp]: "b \<noteq> 0 \<Longrightarrow> udiv a b = Some (a div b)"
  by (simp add: udiv_def)

lemma urem_ok [simp]: "b \<noteq> 0 \<Longrightarrow> urem a b = Some (a mod b)"
  by (simp add: urem_def)

lemmas run_Some = bind_eq_Some_conv

text \<open>The same for case distinctions: the branch that was taken.\<close>

lemma case_sum_Some:
  "(case x of Inl a \<Rightarrow> f a | Inr b \<Rightarrow> g b) = Some y \<longleftrightarrow>
     (\<exists>a. x = Inl a \<and> f a = Some y) \<or> (\<exists>b. x = Inr b \<and> g b = Some y)"
  by (cases x) auto

lemma case_option_Some:
  "(case x of None \<Rightarrow> f | Some b \<Rightarrow> g b) = Some y \<longleftrightarrow> (x = None \<and> f = Some y) \<or> (\<exists>b. x = Some b \<and> g b = Some y)"
  by (cases x) auto

lemma case_list_Some:
  "(case x of [] \<Rightarrow> f | b # bs \<Rightarrow> g b bs) = Some y \<longleftrightarrow> (x = [] \<and> f = Some y) \<or> (\<exists>b bs. x = b # bs \<and> g b bs = Some y)"
  by (cases x) auto

lemma if_Some: "(if b then x else z) = Some y \<longleftrightarrow> (b \<and> x = Some y) \<or> (\<not> b \<and> z = Some y)"
  by simp

lemmas run_cases = bind_eq_Some_conv case_sum_Some case_option_Some case_list_Some if_Some

lemma is_multiple_of_dvd [simp]: "is_multiple_of a b \<longleftrightarrow> b dvd a"
  by (auto simp: is_multiple_of_def)

lemma bit_count_0 [simp]: "bit_count 0 = 0"
  by (simp add: bit_count.simps)

lemma bit_count_upper: "n < 2 ^ bit_count n"
proof (induction n rule: bit_count.induct)
  case (1 n)
  show ?case
  proof (cases "n = 0")
    case False
    with 1 have "n div 2 < 2 ^ bit_count (n div 2)" by simp
    then have "n < 2 * 2 ^ bit_count (n div 2)" by linarith
    with False show ?thesis by (simp add: bit_count.simps [of n])
  qed simp
qed

lemma bit_count_lower: "n \<noteq> 0 \<Longrightarrow> 2 ^ bit_count n \<le> 2 * n"
proof (induction n rule: bit_count.induct)
  case (1 n)
  show ?case
  proof (cases "n div 2 = 0")
    case True
    with 1 show ?thesis by (simp add: bit_count.simps [of n])
  next
    case False
    with 1 have "2 ^ bit_count (n div 2) \<le> 2 * (n div 2)" by simp
    with 1 show ?thesis by (simp add: bit_count.simps [of n])
  qed
qed

lemma next_power_of_two_Some:
  assumes "next_power_of_two n = Some p"
  shows "\<exists>k. p = 2 ^ k \<and> n \<le> p \<and> (0 < n \<longrightarrow> p < 2 * n)"
proof (cases "n \<le> 1")
  case True
  with assms have "p = 2 ^ 0" and "n \<le> p" and "0 < n \<longrightarrow> p < 2 * n"
    by (auto simp: next_power_of_two_def)
  then show ?thesis by blast
next
  case False
  with assms have p: "p = 2 ^ bit_count (n - 1)"
    by (auto simp: next_power_of_two_def Let_def split: if_splits)
  moreover have "n \<le> p" using bit_count_upper [of "n - 1"] p False by linarith
  moreover have "p < 2 * n" using bit_count_lower [of "n - 1"] p False by linarith
  ultimately show ?thesis by blast
qed

lemma bit_count_power_pred: "bit_count (2 ^ k - 1) = k"
proof (induction k)
  case (Suc k)
  have "(2 ^ Suc k - 1) div 2 = (2 ^ k - 1 :: nat)"
    by (simp add: div_eq_dividend_iff)
  moreover have "(2::nat) ^ Suc k - 1 \<noteq> 0"
  proof -
    have "(1::nat) \<le> 2 ^ k" by simp
    then have "(2::nat) \<le> 2 ^ Suc k" unfolding power_Suc by linarith
    then show ?thesis by linarith
  qed
  ultimately show ?case
    using Suc bit_count.simps [of "2 ^ Suc k - 1"] by simp
qed simp

lemma is_power_of_two_iff: "is_power_of_two n \<longleftrightarrow> (\<exists>k. n = 2 ^ k)"
proof
  assume "is_power_of_two n"
  then show "\<exists>k. n = 2 ^ k"
    unfolding is_power_of_two_def using power_0 [of "2::nat"] by metis
next
  assume "\<exists>k. n = 2 ^ k"
  then obtain k where "n = 2 ^ k" ..
  then show "is_power_of_two n"
    using bit_count_power_pred [of k] by (simp add: is_power_of_two_def)
qed

lemma next_multiple_of_spec:
  assumes "next_multiple_of a b = Some m"
  shows "a \<le> m \<and> b dvd m \<and> m < a + b"
proof (cases "a mod b = 0")
  case True
  with assms show ?thesis
    by (auto simp: next_multiple_of_def run_Some)
next
  case False
  with assms have b: "b \<noteq> 0" and m: "m = a + (b - a mod b)"
    by (auto simp: next_multiple_of_def run_Some)
  have "a mod b \<le> a" "a mod b < b" using b by auto
  with m have "m = (a - a mod b) + b" by linarith
  moreover have "b dvd a - a mod b"
    by (simp add: minus_mod_eq_mult_div)
  ultimately have "b dvd m" by (metis dvd_add dvd_refl)
  with m \<open>a mod b < b\<close> False show ?thesis by linarith
qed

lemma next_multiple_of_id: "b \<noteq> 0 \<Longrightarrow> b dvd a \<Longrightarrow> next_multiple_of a b = Some a"
  by (auto simp: next_multiple_of_def urem_def)

lemma dvd_step_le:
  assumes "d dvd p" "d dvd q" "p < (q::nat)"
  shows "p + d \<le> q"
proof -
  obtain a b where ab: "p = d * a" "q = d * b" using assms by (auto elim!: dvdE)
  with assms(3) have "Suc a \<le> b" by (simp add: Suc_leI)
  then have "d * Suc a \<le> d * b" by (rule mult_le_mono2)
  with ab show ?thesis by simp
qed

lemma pred_div_less:
  assumes "d dvd m" "0 < (m :: nat)"
  shows "(m - 1) div d < m div d"
proof -
  obtain k where k: "m = d * k" using assms(1) by blast
  have "m - 1 < k * d" using assms(2) k by (simp add: mult.commute)
  then have "(m - 1) div d < k" by (rule less_mult_imp_div_less)
  with k assms(2) show ?thesis by simp
qed

lemma last_div_same:
  assumes "d dvd a" "0 < (d :: nat)"
  shows "(a + d - 1) div d = a div d"
proof -
  obtain k where k: "a = d * k" using assms(1) by blast
  have "a + d - 1 = (d - 1) + d * k" using k assms(2) by simp
  moreover have "((d - 1) + d * k) div d = (d - 1) div d + k"
    using assms(2) by (subst div_mult_self2) simp_all
  moreover have "(d - 1) div d = 0" using assms(2) by simp
  ultimately show ?thesis using k assms(2) by simp
qed

end
