(* ===== verification/Heap.thy ===== *)
theory Heap
  imports Deravel_Prelude "HOL-Library.Disjoint_Sets"
begin

text \<open>
  What the allocators share (\<open>kernel/src/heap\<close>): layouts, allocation errors, usage statistics,
  the contract of an allocator that hands out address ranges, and the bump allocator of the
  early heap and of the PCI windows (\<open>kernel/src/heap/bump.rs\<close>).
\<close>

subsection \<open>Layouts\<close>

text \<open>\<open>core::alloc::Layout\<close>: a size and a power-of-two alignment.\<close>

record layout =
  lay_size :: usize
  lay_align :: usize

definition layout_from_size_align :: "usize \<Rightarrow> usize \<Rightarrow> layout run" where
  "layout_from_size_align sz al =
     (if is_power_of_two al \<and> sz + (al - 1) < usize_end div 2
      then Some \<lparr>lay_size = sz, lay_align = al\<rparr> else None)"

definition layout_ok :: "layout \<Rightarrow> bool" where
  "layout_ok l \<longleftrightarrow> is_power_of_two (lay_align l) \<and> lay_size l + (lay_align l - 1) < usize_end div 2"

definition PAGE_SIZE :: usize where
  "PAGE_SIZE = 4096"

text \<open>\<open>granularity.rs\<close>: every request is widened to a page.\<close>

definition page_granular :: "layout \<Rightarrow> layout run" where
  "page_granular l =
     layout_from_size_align (max (lay_size l) PAGE_SIZE) (max (lay_align l) PAGE_SIZE)"

datatype alloc_error = AllocError

record heap_stats =
  alloc_bytes :: usize
  free_bytes :: usize

lemma layout_from_size_align_Some [simp]:
  "layout_from_size_align sz al = Some l \<longleftrightarrow>
     layout_ok l \<and> lay_size l = sz \<and> lay_align l = al"
  by (cases l) (auto simp: layout_from_size_align_def layout_ok_def)

lemma layout_align_pos: "layout_ok l \<Longrightarrow> 0 < lay_align l"
  by (auto simp: layout_ok_def is_power_of_two_def)

subsection \<open>The contract of an allocator\<close>

text \<open>
  \<open>free h\<close> are the addresses an allocator may still hand out.  A successful allocation takes a
  range of the requested size out of them, and a failed one leaves them alone: the law that
  makes ranges handed out one after the other disjoint.
\<close>

locale range_allocator =
  fixes alloc :: "'h \<Rightarrow> layout \<Rightarrow> ('h \<times> (alloc_error + usize)) run"
    and invar :: "'h \<Rightarrow> bool"
    and free :: "'h \<Rightarrow> usize set"
  assumes alloc_invar: "invar h \<Longrightarrow> layout_ok l \<Longrightarrow> alloc h l = Some (h', r) \<Longrightarrow> invar h'"
    and alloc_Inl: "invar h \<Longrightarrow> layout_ok l \<Longrightarrow> alloc h l = Some (h', Inl e) \<Longrightarrow> free h' = free h"
    and alloc_Inr: "invar h \<Longrightarrow> layout_ok l \<Longrightarrow> alloc h l = Some (h', Inr p) \<Longrightarrow>
      {p..<p + lay_size l} \<subseteq> free h \<and> free h' \<subseteq> free h - {p..<p + lay_size l}"
begin

text \<open>A run of requests, collecting the ranges that were handed out.\<close>

fun alloc_all :: "'h \<Rightarrow> layout list \<Rightarrow> ('h \<times> usize set list) run" where
  "alloc_all h [] = Some (h, [])"
| "alloc_all h (l # ls) = do {
     (h', r) \<leftarrow> alloc h l;
     (h'', rs) \<leftarrow> alloc_all h' ls;
     Some (h'', case r of Inl _ \<Rightarrow> rs | Inr p \<Rightarrow> {p..<p + lay_size l} # rs) }"

lemma alloc_shrinks:
  assumes "invar h" "layout_ok l" "alloc h l = Some (h', r)"
  shows "free h' \<subseteq> free h"
  using assms alloc_Inl alloc_Inr by (cases r) blast+

lemma alloc_all_inside:
  "invar h \<Longrightarrow> list_all layout_ok ls \<Longrightarrow> alloc_all h ls = Some (h', rs) \<Longrightarrow> \<Union>(set rs) \<subseteq> free h"
proof (induction ls arbitrary: h rs)
  case (Cons l ls)
  from Cons.prems obtain h1 r rs1 where
    step: "alloc h l = Some (h1, r)" and rest: "alloc_all h1 ls = Some (h', rs1)" and
    rs: "rs = (case r of Inl _ \<Rightarrow> rs1 | Inr p \<Rightarrow> {p..<p + lay_size l} # rs1)"
    by (auto simp: run_Some)
  have ok: "layout_ok l" using Cons.prems by simp
  have "\<Union>(set rs1) \<subseteq> free h1"
    using Cons.IH [OF alloc_invar [OF Cons.prems(1) ok step]] Cons.prems rest by simp
  moreover have "free h1 \<subseteq> free h" using alloc_shrinks Cons.prems(1) ok step by blast
  ultimately show ?case
    using rs alloc_Inr [OF Cons.prems(1) ok] step by (cases r) auto
qed simp

lemma alloc_all_disjoint:
  "invar h \<Longrightarrow> list_all layout_ok ls \<Longrightarrow> alloc_all h ls = Some (h', rs) \<Longrightarrow>
   sorted_wrt (\<lambda>a b. a \<inter> b = {}) rs"
proof (induction ls arbitrary: h rs)
  case (Cons l ls)
  from Cons.prems obtain h1 r rs1 where
    step: "alloc h l = Some (h1, r)" and rest: "alloc_all h1 ls = Some (h', rs1)" and
    rs: "rs = (case r of Inl _ \<Rightarrow> rs1 | Inr p \<Rightarrow> {p..<p + lay_size l} # rs1)"
    by (auto simp: run_Some)
  have ok: "layout_ok l" and oks: "list_all layout_ok ls" using Cons.prems by simp_all
  have inv1: "invar h1" by (rule alloc_invar [OF Cons.prems(1) ok step])
  have tl: "sorted_wrt (\<lambda>a b. a \<inter> b = {}) rs1" by (rule Cons.IH [OF inv1 oks rest])
  have inside: "\<Union>(set rs1) \<subseteq> free h1" by (rule alloc_all_inside [OF inv1 oks rest])
  show ?case
    using rs tl inside alloc_Inr [OF Cons.prems(1) ok] step by (cases r) fastforce+
qed simp

end

subsection \<open>Allocators that take memory back\<close>

text \<open>
  \<open>held h\<close> are the allocations that have not been returned, each as its address and the size the
  allocator remembers for it (\<open>need\<close> of its layout), and \<open>extent\<close> is what an allocation occupies,
  which may be more than was asked for.  The laws are those of exact accounting: what one
  operation takes from \<open>free\<close> the other gives back.
\<close>

datatype heap_op = Request layout | Release usize layout

locale freeing_allocator = range_allocator alloc invar free
  for alloc :: "'h \<Rightarrow> layout \<Rightarrow> ('h \<times> (alloc_error + usize)) run"
    and invar :: "'h \<Rightarrow> bool"
    and free :: "'h \<Rightarrow> usize set" +
  fixes dealloc :: "'h \<Rightarrow> usize \<Rightarrow> layout \<Rightarrow> 'h run"
    and held :: "'h \<Rightarrow> (usize \<times> usize) set"
    and need :: "layout \<Rightarrow> usize"
    and extent :: "usize \<times> usize \<Rightarrow> usize set"
  assumes alloc_total: "invar h \<Longrightarrow> layout_ok l \<Longrightarrow> \<exists>h' r. alloc h l = Some (h', r)"
    and alloc_fail_held: "invar h \<Longrightarrow> layout_ok l \<Longrightarrow> alloc h l = Some (h', Inl e) \<Longrightarrow> held h' = held h"
    and alloc_takes: "invar h \<Longrightarrow> layout_ok l \<Longrightarrow> alloc h l = Some (h', Inr p) \<Longrightarrow>
      held h' = insert (p, need l) (held h) \<and> extent (p, need l) \<subseteq> free h \<and>
      free h' = free h - extent (p, need l)"
    and dealloc_returns: "invar h \<Longrightarrow> layout_ok l \<Longrightarrow> (p, need l) \<in> held h \<Longrightarrow>
      \<exists>h'. dealloc h p l = Some h' \<and> invar h' \<and> held h' = held h - {(p, need l)} \<and>
        free h' = free h \<union> extent (p, need l)"
begin

text \<open>A run of requests and releases; a release is legal when what it returns is held.\<close>

fun serve :: "'h \<Rightarrow> heap_op list \<Rightarrow> 'h run" where
  "serve h [] = Some h"
| "serve h (Request l # ops) = do { (h', r) \<leftarrow> alloc h l; serve h' ops }"
| "serve h (Release p l # ops) = do { h' \<leftarrow> dealloc h p l; serve h' ops }"

fun legal :: "'h \<Rightarrow> heap_op list \<Rightarrow> bool" where
  "legal h [] = True"
| "legal h (Request l # ops) \<longleftrightarrow> layout_ok l \<and>
     (case alloc h l of None \<Rightarrow> True | Some (h', r) \<Rightarrow> legal h' ops)"
| "legal h (Release p l # ops) \<longleftrightarrow> layout_ok l \<and> (p, need l) \<in> held h \<and>
     (case dealloc h p l of None \<Rightarrow> True | Some h' \<Rightarrow> legal h' ops)"

definition tidy :: "'h \<Rightarrow> bool" where
  "tidy h \<longleftrightarrow> invar h \<and> disjoint_family_on extent (held h) \<and> free h \<inter> \<Union>(extent ` held h) = {}"

definition owned :: "'h \<Rightarrow> usize set" where
  "owned h = free h \<union> \<Union>(extent ` held h)"

lemma tidy_request:
  assumes t: "tidy h" and l: "layout_ok l" and a: "alloc h l = Some (h', r)"
  shows "tidy h' \<and> owned h' = owned h"
proof (cases r)
  case (Inl e)
  have inv: "invar h" using t by (simp add: tidy_def)
  have "free h' = free h" "held h' = held h"
    using alloc_Inl [OF inv l] alloc_fail_held [OF inv l] a Inl by blast+
  with t alloc_invar [OF inv l a] show ?thesis by (simp add: tidy_def owned_def)
next
  case (Inr p)
  have inv: "invar h" and dis: "disjoint_family_on extent (held h)"
    and apart: "free h \<inter> \<Union>(extent ` held h) = {}" using t by (auto simp: tidy_def)
  note h' = alloc_takes [OF inv l a [unfolded Inr]]
  have "disjoint_family_on extent (insert (p, need l) (held h))"
    using dis apart h' unfolding disjoint_family_on_def by blast
  moreover have "free h' \<inter> \<Union>(extent ` held h') = {}" using h' apart by auto
  moreover have "owned h' = owned h" unfolding owned_def using h' by auto
  ultimately show ?thesis using h' alloc_invar [OF inv l a] by (simp add: tidy_def)
qed

lemma tidy_release:
  assumes t: "tidy h" and l: "layout_ok l" and p: "(p, need l) \<in> held h"
  shows "\<exists>h'. dealloc h p l = Some h' \<and> tidy h' \<and> owned h' = owned h"
proof -
  have inv: "invar h" and dis: "disjoint_family_on extent (held h)"
    and apart: "free h \<inter> \<Union>(extent ` held h) = {}" using t by (auto simp: tidy_def)
  obtain h' where h': "dealloc h p l = Some h'" "invar h'" "held h' = held h - {(p, need l)}"
    "free h' = free h \<union> extent (p, need l)" using dealloc_returns [OF inv l p] by blast
  have "extent (p, need l) \<inter> extent x = {}" if "x \<in> held h'" for x
    using dis p that h'(3) unfolding disjoint_family_on_def by blast
  then have "free h' \<inter> \<Union>(extent ` held h') = {}" using apart h'(3,4) by blast
  moreover have "disjoint_family_on extent (held h')"
    using dis h'(3) unfolding disjoint_family_on_def by blast
  moreover have "owned h' = owned h" unfolding owned_def using h'(3,4) p by blast
  ultimately show ?thesis using h'(1,2) by (auto simp: tidy_def)
qed

lemma serve_legal:
  "tidy h \<Longrightarrow> legal h ops \<Longrightarrow> \<exists>h'. serve h ops = Some h' \<and> tidy h' \<and> owned h' = owned h"
proof (induction ops arbitrary: h)
  case (Cons op ops)
  show ?case
  proof (cases op)
    case (Request l)
    then obtain h1 r where a: "alloc h l = Some (h1, r)"
      using Cons.prems alloc_total [of h l] by (auto simp: tidy_def)
    with Request Cons.prems Cons.IH [of h1] tidy_request [OF _ _ a] show ?thesis by simp
  next
    case (Release p l)
    then obtain h1 where "dealloc h p l = Some h1" "tidy h1" "owned h1 = owned h"
      using Cons.prems tidy_release [of h l p] by auto
    with Release Cons.prems Cons.IH [of h1] show ?thesis by simp
  qed
qed simp

end

subsection \<open>The bump allocator\<close>

record bump_allocator =
  bump_start :: usize
  bump_end :: usize
  allocated_bytes :: usize

definition bump_new :: "usize \<Rightarrow> usize \<Rightarrow> bump_allocator" where
  "bump_new s e = \<lparr>bump_start = s, bump_end = e, allocated_bytes = 0\<rparr>"

definition bump_alloc ::
  "bump_allocator \<Rightarrow> layout \<Rightarrow> (bump_allocator \<times> (alloc_error + usize)) run" where
  "bump_alloc b l = do {
     pointer \<leftarrow> next_multiple_of (bump_start b) (lay_align l);
     new_start \<leftarrow> uadd pointer (lay_size l);
     if new_start > bump_end b then Some (b, Inl AllocError)
     else do {
       a \<leftarrow> uadd (allocated_bytes b) (lay_size l);
       Some (b\<lparr>bump_start := new_start, allocated_bytes := a\<rparr>, Inr pointer) } }"

definition bump_stats :: "bump_allocator \<Rightarrow> heap_stats run" where
  "bump_stats b = do {
     f \<leftarrow> usub (bump_end b) (bump_start b);
     Some \<lparr>alloc_bytes = allocated_bytes b, free_bytes = f\<rparr> }"

definition bump_free :: "bump_allocator \<Rightarrow> usize set" where
  "bump_free b = {bump_start b..<bump_end b}"

lemma bump_alloc_cases:
  assumes "bump_alloc b l = Some (b', r)"
  obtains (full) "b' = b" "r = Inl AllocError"
  | (fits) p where "r = Inr p" "bump_start b \<le> p" "lay_align l dvd p"
      "p + lay_size l \<le> bump_end b" "bump_start b' = p + lay_size l" "bump_end b' = bump_end b"
      "allocated_bytes b' = allocated_bytes b + lay_size l"
  using assms by (auto simp: bump_alloc_def run_Some dest: next_multiple_of_spec split: if_splits)

interpretation bump_ra: range_allocator bump_alloc "\<lambda>_. True" bump_free
proof unfold_locales
  fix h l h' p
  assume "bump_alloc h l = Some (h', Inr p)"
  then show "{p..<p + lay_size l} \<subseteq> bump_free h \<and> bump_free h' \<subseteq> bump_free h - {p..<p + lay_size l}"
    by (cases rule: bump_alloc_cases) (auto simp: bump_free_def)
next
  fix h l h' e
  assume "bump_alloc h l = Some (h', Inl e)"
  then show "bump_free h' = bump_free h"
    by (cases rule: bump_alloc_cases) auto
qed simp

end
