(* ===== verification/Memory_Layout.thy ===== *)
theory Memory_Layout
  imports Heap
begin

text \<open>
  The address space (\<open>types/src/align.rs\<close>, \<open>types/src/memory.rs\<close>) and the direct mapping of
  physical memory into its upper half (\<open>kernel/src/page.rs\<close>, \<open>kernel/src/util/address.rs\<close>).
  Virtual addresses have 39 bits; the hardware wants bit 38 copied into the bits above it, which
  is what \<open>sign_extend\<close> does.
\<close>

subsection \<open>Constants\<close>

definition CACHE_LINE_SIZE :: usize where
  "CACHE_LINE_SIZE = 64"

definition PAGE_TABLE_ENTRY_COUNT :: usize where
  "PAGE_TABLE_ENTRY_COUNT = PAGE_SIZE div 8"

definition LEVEL_1_PAGE_SIZE :: usize where
  "LEVEL_1_PAGE_SIZE = PAGE_TABLE_ENTRY_COUNT * PAGE_SIZE"

definition LEVEL_2_PAGE_SIZE :: usize where
  "LEVEL_2_PAGE_SIZE = PAGE_TABLE_ENTRY_COUNT * LEVEL_1_PAGE_SIZE"

type_synonym 'a range = "'a \<times> 'a"

definition in_range :: "usize range \<Rightarrow> usize \<Rightarrow> bool" where
  "in_range r a \<longleftrightarrow> fst r \<le> a \<and> a < snd r"

definition VIRTUAL_ADDRESSES :: "usize range" where
  "VIRTUAL_ADDRESSES = (0, PAGE_TABLE_ENTRY_COUNT * LEVEL_2_PAGE_SIZE)"

definition DIRECT_MAPPING :: "usize range" where
  "DIRECT_MAPPING = (snd VIRTUAL_ADDRESSES div 2, snd VIRTUAL_ADDRESSES)"

definition PHYSICAL_ADDRESSES :: "usize range" where
  "PHYSICAL_ADDRESSES = (0, snd VIRTUAL_ADDRESSES div 2)"

definition USER_INPUTS :: "usize range" where
  "USER_INPUTS = (0x1000, 0x2000)"

definition USER_STACK_REGION :: "usize range" where
  "USER_STACK_REGION = (0x2000, 0x10000)"

definition USER_STACK_GUARD :: "usize range" where
  "USER_STACK_GUARD = (fst USER_STACK_REGION, fst USER_STACK_REGION + PAGE_SIZE)"

definition USER_STACK :: "usize range" where
  "USER_STACK = (snd USER_STACK_GUARD, snd USER_STACK_REGION)"

definition USER_ELF :: "usize range" where
  "USER_ELF = (0x1000000, 0x2000000)"

definition USER_CAPABILITIES :: "usize range" where
  "USER_CAPABILITIES = (0x2000000, 0x4000000)"

definition USER_HEAP :: "usize range" where
  "USER_HEAP = (0x4000000, fst DIRECT_MAPPING)"

lemma page_size [simp]: "PAGE_SIZE = 4096"
  by (simp add: PAGE_SIZE_def)

lemma entry_count [simp]: "PAGE_TABLE_ENTRY_COUNT = 512"
  by (simp add: PAGE_TABLE_ENTRY_COUNT_def)

lemma level_page_sizes [simp]:
  "LEVEL_1_PAGE_SIZE = 2097152" "LEVEL_2_PAGE_SIZE = 1073741824"
  by (simp_all add: LEVEL_1_PAGE_SIZE_def LEVEL_2_PAGE_SIZE_def)

lemma address_ranges [simp]:
  "VIRTUAL_ADDRESSES = (0, 549755813888)" "DIRECT_MAPPING = (274877906944, 549755813888)"
  "PHYSICAL_ADDRESSES = (0, 274877906944)" "USER_HEAP = (0x4000000, 274877906944)"
  by (simp_all add: VIRTUAL_ADDRESSES_def DIRECT_MAPPING_def PHYSICAL_ADDRESSES_def USER_HEAP_def)

text \<open>The user's regions, from the lowest to the highest.\<close>

definition user_regions :: "usize range list" where
  "user_regions = [USER_INPUTS, USER_STACK_GUARD, USER_STACK, USER_ELF, USER_CAPABILITIES, USER_HEAP]"

subsection \<open>The direct mapping\<close>

definition sign_extend :: "usize \<Rightarrow> usize run" where
  "sign_extend addr = do {
     t \<leftarrow> usub (push_bit 1 (addr AND drop_bit 1 (snd VIRTUAL_ADDRESSES))) 1;
     Some (unat (NOT (word_of_nat t) OR (word_of_nat addr :: u64))) }"

definition sign_unextend :: "usize \<Rightarrow> usize" where
  "sign_unextend addr = addr AND (snd VIRTUAL_ADDRESSES - 1)"

definition phys_to_virt :: "usize \<Rightarrow> usize run" where
  "phys_to_virt phys = do {
     ensure (phys < snd PHYSICAL_ADDRESSES);
     a \<leftarrow> uadd phys (fst DIRECT_MAPPING);
     sign_extend a }"

definition virt_to_phys :: "usize \<Rightarrow> usize run" where
  "virt_to_phys virt = do {
     ensure (virt \<ge> fst DIRECT_MAPPING);
     let virt = sign_unextend virt;
     ensure (in_range DIRECT_MAPPING virt);
     usub virt (fst DIRECT_MAPPING) }"

definition upper_half :: usize where
  "upper_half = usize_end - 274877906944"

lemma sign_unextend_mod: "sign_unextend addr = addr mod 549755813888"
proof -
  have "sign_unextend addr = take_bit 39 addr"
    by (simp add: sign_unextend_def take_bit_eq_mask mask_eq_exp_minus_1)
  then show ?thesis by (simp add: take_bit_eq_mod)
qed

lemma and_exp_bit: "bit (a :: nat) n \<Longrightarrow> a AND 2 ^ n = 2 ^ n"
  by (rule bit_eqI) (auto simp: bit_and_iff bit_exp_iff)

lemma fill_upper:
  fixes w :: u64
  assumes "unat w < 549755813888"
  shows "unat (NOT 549755813887 OR w) = 18446743523953737728 + unat w"
proof -
  have "unat (take_bit 39 w) = unat w"
    unfolding unsigned_take_bit_eq using assms by (simp add: take_bit_nat_eq_self)
  then have "w AND mask 39 = w" by (simp add: take_bit_eq_mask word_unat_eq_iff)
  moreover have "NOT (549755813887 :: u64) = NOT (mask 39)" by (simp add: mask_eq_exp_minus_1)
  ultimately have "NOT (549755813887 :: u64) AND w = 0"
    by (metis and.assoc and.commute and_zero_eq bit.conj_cancel_right)
  then have "NOT (549755813887 :: u64) OR w = NOT (549755813887 :: u64) + w"
    by (rule disjunctive_add_eq_or [symmetric])
  moreover have "NOT (549755813887 :: u64) = 18446743523953737728" by simp
  ultimately have "unat (NOT (549755813887 :: u64) OR w) = unat (18446743523953737728 + w :: u64)"
    by (simp only:)
  also have "\<dots> = 18446743523953737728 + unat w"
    using assms by (simp add: unat_word_ariths)
  finally show ?thesis .
qed

lemma sign_extend_upper:
  assumes "p < 274877906944"
  shows "sign_extend (p + 274877906944) = Some (p + upper_half)"
proof -
  let ?a = "p + 274877906944"
  have "?a div 2 ^ 38 = 1" using assms by simp
  then have "bit ?a 38" by (simp add: bit_iff_odd)
  then have "?a AND 274877906944 = 274877906944" using and_exp_bit [of ?a 38] by simp
  then have t: "usub (push_bit 1 (?a AND drop_bit 1 (snd VIRTUAL_ADDRESSES))) 1 = Some 549755813887"
    by (simp add: drop_bit_eq_div push_bit_eq_mult)
  have "unat (word_of_nat ?a :: u64) = ?a" unfolding unat_of_nat using assms by simp
  then have "unat (NOT 549755813887 OR (word_of_nat ?a :: u64)) = p + upper_half"
    using fill_upper [of "word_of_nat ?a"] assms unfolding upper_half_def by simp
  then show ?thesis using t unfolding sign_extend_def by simp
qed

lemma phys_to_virt_eq:
  "phys_to_virt p = (if p < 274877906944 then Some (p + upper_half) else None)"
  using sign_extend_upper [of p] by (simp add: phys_to_virt_def)

lemma virt_to_phys_upper:
  assumes "p < 274877906944"
  shows "virt_to_phys (p + upper_half) = Some p"
proof -
  have "p + upper_half = (p + 274877906944) + 549755813888 * 33554431"
    by (simp add: upper_half_def)
  then have "(p + upper_half) mod 549755813888 = (p + 274877906944) mod 549755813888"
    by (metis mod_mult_self2)
  also have "\<dots> = p + 274877906944" using assms by simp
  finally show ?thesis
    using assms by (simp add: virt_to_phys_def sign_unextend_mod in_range_def upper_half_def Let_def)
qed

end
