(* ===== verification/Ring_Buffer.thy ===== *)
theory Ring_Buffer
  imports Memory_Layout
begin

text \<open>
  The ring buffer that streams are made of (\<open>types/src/ring_buffer.rs\<close>): free-running indices of
  what has been read and written, over an array in shared memory.  It is specified as a bounded
  queue, first for whole operations and then for the atomic loads and stores of a writer and a
  reader that run at the same time.
\<close>

subsection \<open>The contract of a bounded queue\<close>

datatype 'a queue_op = Push 'a | Poll

text \<open>The abstract queue: a list with a capacity; pushing to a full one is a panic.\<close>

fun list_queue :: "nat \<Rightarrow> 'a list \<Rightarrow> 'a queue_op list \<Rightarrow> ('a list \<times> 'a option list) run" where
  "list_queue cap xs [] = Some (xs, [])"
| "list_queue cap xs (Push x # ops) =
     (if length xs < cap then list_queue cap (xs @ [x]) ops else None)"
| "list_queue cap xs (Poll # ops) = do {
     (ys, out) \<leftarrow> list_queue cap (tl xs) ops;
     Some (ys, (case xs of [] \<Rightarrow> None | x # _ \<Rightarrow> Some x) # out) }"

fun pushes :: "'a queue_op list \<Rightarrow> nat" where
  "pushes [] = 0"
| "pushes (Push _ # ops) = Suc (pushes ops)"
| "pushes (Poll # ops) = pushes ops"

text \<open>\<open>invar n q\<close>: the representation is sound and has indices left for \<open>n\<close> more elements.\<close>

locale bounded_queue =
  fixes push :: "'q \<Rightarrow> 'a \<Rightarrow> 'q run"
    and poll :: "'q \<Rightarrow> ('q \<times> 'a option) run"
    and contents :: "'q \<Rightarrow> 'a list"
    and capacity :: "'q \<Rightarrow> nat"
    and invar :: "nat \<Rightarrow> 'q \<Rightarrow> bool"
  assumes push_full: "invar (Suc n) q \<Longrightarrow> \<not> length (contents q) < capacity q \<Longrightarrow> push q x = None"
    and push_room: "invar (Suc n) q \<Longrightarrow> length (contents q) < capacity q \<Longrightarrow>
      \<exists>q'. push q x = Some q' \<and> invar n q' \<and> contents q' = contents q @ [x] \<and> capacity q' = capacity q"
    and poll_next: "invar n q \<Longrightarrow> \<exists>q'. poll q =
        Some (q', case contents q of [] \<Rightarrow> None | x # _ \<Rightarrow> Some x) \<and>
      invar n q' \<and> contents q' = tl (contents q) \<and> capacity q' = capacity q"
begin

fun run_ops :: "'q \<Rightarrow> 'a queue_op list \<Rightarrow> ('q \<times> 'a option list) run" where
  "run_ops q [] = Some (q, [])"
| "run_ops q (Push x # ops) = do { q \<leftarrow> push q x; run_ops q ops }"
| "run_ops q (Poll # ops) = do {
     (q, r) \<leftarrow> poll q;
     (q, out) \<leftarrow> run_ops q ops;
     Some (q, r # out) }"

lemma run_ops_list:
  "invar n q \<Longrightarrow> pushes ops \<le> n \<Longrightarrow>
   map_option (\<lambda>(q, out). (contents q, out)) (run_ops q ops) = list_queue (capacity q) (contents q) ops"
proof (induction ops arbitrary: q n rule: pushes.induct)
  case (2 x ops)
  then obtain m where m: "n = Suc m" "pushes ops \<le> m" by (cases n) auto
  show ?case
  proof (cases "length (contents q) < capacity q")
    case True
    with push_room [of m q x] 2 m obtain q' where "push q x = Some q'" "invar m q'"
      "contents q' = contents q @ [x]" "capacity q' = capacity q" by auto
    with 2(1) [of m q'] m True show ?thesis by simp
  qed (use push_full [of m q x] 2 m in simp)
next
  case (3 ops)
  with poll_next [of n q] obtain q' where
    "poll q = Some (q', case contents q of [] \<Rightarrow> None | x # _ \<Rightarrow> Some x)"
    "invar n q'" "contents q' = tl (contents q)" "capacity q' = capacity q" by auto
  moreover from this 3(1) [of n q'] 3(3)
  have "list_queue (capacity q) (tl (contents q)) ops =
      map_option (\<lambda>(q, out). (contents q, out)) (run_ops q' ops)" by simp
  ultimately show ?case by (cases "run_ops q' ops") auto
qed simp

end

subsection \<open>The ring\<close>

record 'a ring =
  ring_read :: usize
  ring_written :: usize
  ring_data :: "'a list"

text \<open>
  The element type enters through its size, its alignment and its default value.  The storage
  comes from the global allocator: a layout that is not one is a panic, and so would be its
  exhaustion, which is not modelled here.
\<close>

definition ring_new_in :: "'a \<Rightarrow> usize \<Rightarrow> 'a ring run" where
  "ring_new_in default_value element_count = do {
     ensure (element_count > 0);
     Some \<lparr>ring_read = 0, ring_written = 0, ring_data = replicate element_count default_value\<rparr> }"

definition ring_new :: "usize \<Rightarrow> usize \<Rightarrow> 'a \<Rightarrow> usize \<Rightarrow> 'a ring run" where
  "ring_new size_of align_of default_value element_count = do {
     ensure (element_count > 0);
     ensure (align_of \<le> 2 * CACHE_LINE_SIZE);
     n \<leftarrow> umul element_count size_of;
     total_size \<leftarrow> uadd (2 * CACHE_LINE_SIZE) n;
     _ \<leftarrow> layout_from_size_align total_size PAGE_SIZE;
     ring_new_in default_value element_count }"

definition ring_new_single_page :: "usize \<Rightarrow> usize \<Rightarrow> 'a \<Rightarrow> 'a ring run" where
  "ring_new_single_page size_of align_of default_value = do {
     n \<leftarrow> udiv (PAGE_SIZE - 2 * CACHE_LINE_SIZE) size_of;
     ring_new size_of align_of default_value n }"

text \<open>\<open>new_in_single_page\<close> is given a page as a slice of bytes; its length must be a page.\<close>

definition ring_new_in_single_page :: "usize \<Rightarrow> 'a \<Rightarrow> usize \<Rightarrow> 'a ring run" where
  "ring_new_in_single_page size_of default_value page_len = do {
     ensure (page_len = PAGE_SIZE);
     n \<leftarrow> udiv (PAGE_SIZE - 2 * CACHE_LINE_SIZE) size_of;
     ring_new_in default_value n }"

definition ring_push :: "'a ring \<Rightarrow> 'a \<Rightarrow> 'a ring run" where
  "ring_push r value = do {
     let written = ring_written r;
     let read = ring_read r;
     limit \<leftarrow> uadd read (length (ring_data r));
     ensure (written < limit);
     i \<leftarrow> urem written (length (ring_data r));
     written' \<leftarrow> uadd written 1;
     Some (r\<lparr>ring_data := (ring_data r)[i := value], ring_written := written'\<rparr>) }"

definition ring_poll :: "'a ring \<Rightarrow> ('a ring \<times> 'a option) run" where
  "ring_poll r = do {
     let read = ring_read r;
     let written = ring_written r;
     if written \<le> read then Some (r, None)
     else do {
       i \<leftarrow> urem read (length (ring_data r));
       let element = ring_data r ! i;
       read' \<leftarrow> uadd read 1;
       Some (r\<lparr>ring_read := read'\<rparr>, Some element) } }"

text \<open>
  The length half of the fat pointer of a ring, in elements, and of the untyped ring, in bytes.
\<close>

definition ring_untype :: "usize \<Rightarrow> usize \<Rightarrow> usize run" where
  "ring_untype size_of element_count = umul element_count size_of"

definition ring_cast :: "usize \<Rightarrow> usize \<Rightarrow> usize run" where
  "ring_cast size_of byte_count = udiv byte_count size_of"

subsection \<open>The ring as a queue\<close>

definition ring_contents :: "'a ring \<Rightarrow> 'a list" where
  "ring_contents r = map (\<lambda>i. ring_data r ! (i mod length (ring_data r))) [ring_read r..<ring_written r]"

abbreviation ring_capacity :: "'a ring \<Rightarrow> nat" where
  "ring_capacity r \<equiv> length (ring_data r)"

definition ring_invar :: "nat \<Rightarrow> 'a ring \<Rightarrow> bool" where
  "ring_invar n r \<longleftrightarrow> 0 < ring_capacity r \<and> ring_read r \<le> ring_written r \<and>
     ring_written r \<le> ring_read r + ring_capacity r \<and>
     ring_written r + ring_capacity r + n < usize_end"

lemma mod_window_neq:
  assumes "a \<le> i" "i < w" "w < a + (n :: nat)"
  shows "i mod n \<noteq> w mod n"
proof
  assume "i mod n = w mod n"
  then have "n dvd w - i" using assms by (simp add: mod_eq_dvd_iff_nat [symmetric])
  moreover have "0 < w - i" "w - i < n" using assms by linarith+
  ultimately show False using nat_dvd_not_less by blast
qed

lemma contents_write:
  assumes "ring_written r < ring_read r + ring_capacity r" "ring_read r \<le> ring_written r"
    and "0 < ring_capacity r"
  shows "ring_contents (r\<lparr>ring_data := (ring_data r)[ring_written r mod ring_capacity r := x],
      ring_written := Suc (ring_written r)\<rparr>) = ring_contents r @ [x]"
proof -
  have "(ring_data r)[ring_written r mod ring_capacity r := x] ! (i mod ring_capacity r) =
      ring_data r ! (i mod ring_capacity r)" if "ring_read r \<le> i" "i < ring_written r" for i
    using mod_window_neq [OF that assms(1)] by simp
  with assms show ?thesis by (simp add: ring_contents_def)
qed

lemma contents_read:
  assumes "ring_read r < ring_written r"
  shows "ring_contents r = ring_data r ! (ring_read r mod ring_capacity r) #
    ring_contents (r\<lparr>ring_read := Suc (ring_read r)\<rparr>)"
  using assms by (simp add: ring_contents_def upt_conv_Cons)

interpretation ring_queue: bounded_queue ring_push ring_poll ring_contents ring_capacity ring_invar
proof unfold_locales
  fix n and q :: "'a ring" and x
  assume "ring_invar (Suc n) q" "\<not> length (ring_contents q) < ring_capacity q"
  then show "ring_push q x = None" by (auto simp: ring_push_def ring_invar_def ring_contents_def Let_def)
next
  fix n and q :: "'a ring" and x
  assume "ring_invar (Suc n) q" "length (ring_contents q) < ring_capacity q"
  then show "\<exists>q'. ring_push q x = Some q' \<and> ring_invar n q' \<and>
      ring_contents q' = ring_contents q @ [x] \<and> ring_capacity q' = ring_capacity q"
    using contents_write [of q x]
    by (auto simp: ring_push_def ring_invar_def ring_contents_def [of q] Let_def)
next
  fix n and q :: "'a ring"
  assume inv: "ring_invar n q"
  show "\<exists>q'. ring_poll q = Some (q', case ring_contents q of [] \<Rightarrow> None | x # _ \<Rightarrow> Some x) \<and>
      ring_invar n q' \<and> ring_contents q' = tl (ring_contents q) \<and> ring_capacity q' = ring_capacity q"
  proof (cases "ring_read q < ring_written q")
    case True
    with inv contents_read [OF True] show ?thesis by (auto simp: ring_poll_def ring_invar_def Let_def)
  next
    case False
    with inv show ?thesis by (simp add: ring_poll_def ring_contents_def)
  qed
qed

lemma ring_new_invar:
  assumes "ring_new size_of align_of d n = Some r" "k + n < usize_end"
  shows "ring_invar k r" "ring_contents r = []" "ring_capacity r = n"
  using assms by (auto simp: ring_new_def ring_new_in_def run_Some ring_invar_def ring_contents_def split: if_splits)

subsection \<open>A writer and a reader at the same time\<close>

text \<open>
  One process pushes and another polls.  Each atomic load, each access to an element and each
  atomic store of the two functions is a step of its own, and the steps of the two sides
  interleave freely; a local variable is part of the program counter.  The release stores and
  acquire loads of the code are what lets the interleavings stand for its executions.  The ghost
  fields record what has been sent and what polling has returned.
\<close>

datatype 'a writer_pc =
    WIdle
  | WWritten 'a usize
  | WLoaded 'a usize usize
  | WElement 'a usize

datatype 'a reader_pc =
    RIdle
  | RRead usize
  | RLoaded usize usize
  | RElement usize 'a

record 'a stream_state =
  shared :: "'a ring"
  writer :: "'a writer_pc"
  reader :: "'a reader_pc"
  sent :: "'a list"
  received :: "'a list"

inductive ring_step :: "'a stream_state \<Rightarrow> 'a stream_state \<Rightarrow> bool" where
  load_written: "writer s = WIdle \<Longrightarrow>
    ring_step s (s\<lparr>writer := WWritten v (ring_written (shared s))\<rparr>)"
| load_read: "writer s = WWritten v w \<Longrightarrow>
    ring_step s (s\<lparr>writer := WLoaded v w (ring_read (shared s))\<rparr>)"
| write_element: "writer s = WLoaded v w r \<Longrightarrow> uadd r (ring_capacity (shared s)) = Some limit \<Longrightarrow>
    w < limit \<Longrightarrow> urem w (ring_capacity (shared s)) = Some i \<Longrightarrow>
    ring_step s (s\<lparr>writer := WElement v w,
      shared := (shared s)\<lparr>ring_data := (ring_data (shared s))[i := v]\<rparr>\<rparr>)"
| store_written: "writer s = WElement v w \<Longrightarrow> uadd w 1 = Some w' \<Longrightarrow>
    ring_step s (s\<lparr>writer := WIdle, shared := (shared s)\<lparr>ring_written := w'\<rparr>, sent := sent s @ [v]\<rparr>)"
| poll_read: "reader s = RIdle \<Longrightarrow>
    ring_step s (s\<lparr>reader := RRead (ring_read (shared s))\<rparr>)"
| poll_written: "reader s = RRead r \<Longrightarrow>
    ring_step s (s\<lparr>reader := RLoaded r (ring_written (shared s))\<rparr>)"
| poll_empty: "reader s = RLoaded r w \<Longrightarrow> w \<le> r \<Longrightarrow> ring_step s (s\<lparr>reader := RIdle\<rparr>)"
| poll_element: "reader s = RLoaded r w \<Longrightarrow> \<not> w \<le> r \<Longrightarrow> urem r (ring_capacity (shared s)) = Some i \<Longrightarrow>
    ring_step s (s\<lparr>reader := RElement r (ring_data (shared s) ! i)\<rparr>)"
| store_read: "reader s = RElement r x \<Longrightarrow> uadd r 1 = Some r' \<Longrightarrow>
    ring_step s (s\<lparr>reader := RIdle, shared := (shared s)\<lparr>ring_read := r'\<rparr>, received := received s @ [x]\<rparr>)"

inductive_cases ring_stepE: "ring_step s t"

definition stream_start :: "'a ring \<Rightarrow> 'a stream_state" where
  "stream_start r = \<lparr>shared = r, writer = WIdle, reader = RIdle, sent = [], received = []\<rparr>"

definition writer_ok :: "'a ring \<Rightarrow> 'a writer_pc \<Rightarrow> bool" where
  "writer_ok r pc \<longleftrightarrow> (case pc of
      WIdle \<Rightarrow> True
    | WWritten v w \<Rightarrow> w = ring_written r
    | WLoaded v w rd \<Rightarrow> w = ring_written r \<and> rd \<le> ring_read r
    | WElement v w \<Rightarrow> w = ring_written r \<and> w < ring_read r + ring_capacity r \<and>
        ring_data r ! (w mod ring_capacity r) = v)"

definition reader_ok :: "'a ring \<Rightarrow> 'a reader_pc \<Rightarrow> bool" where
  "reader_ok r pc \<longleftrightarrow> (case pc of
      RIdle \<Rightarrow> True
    | RRead rd \<Rightarrow> rd = ring_read r
    | RLoaded rd w \<Rightarrow> rd = ring_read r \<and> w \<le> ring_written r
    | RElement rd x \<Rightarrow> rd = ring_read r \<and> rd < ring_written r \<and> x = ring_data r ! (rd mod ring_capacity r))"

definition stream_inv :: "'a stream_state \<Rightarrow> bool" where
  "stream_inv s \<longleftrightarrow> (let r = shared s in
     0 < ring_capacity r \<and> ring_read r \<le> ring_written r \<and> ring_written r \<le> ring_read r + ring_capacity r \<and>
     writer_ok r (writer s) \<and> reader_ok r (reader s) \<and> sent s = received s @ ring_contents r)"

lemma contents_cong:
  assumes "ring_read r' = ring_read r" "ring_written r' = ring_written r" "ring_capacity r' = ring_capacity r"
    and "\<And>i. ring_read r \<le> i \<Longrightarrow> i < ring_written r \<Longrightarrow>
      ring_data r' ! (i mod ring_capacity r) = ring_data r ! (i mod ring_capacity r)"
  shows "ring_contents r' = ring_contents r"
  using assms by (auto simp: ring_contents_def)

lemma stream_inv_step:
  assumes step: "ring_step s t" and inv: "stream_inv s"
  shows "stream_inv t"
  using step
proof cases
  case (write_element v w r limit i)
  let ?r = "shared s"
  let ?r' = "?r\<lparr>ring_data := (ring_data ?r)[i := v]\<rparr>"
  have w: "w = ring_written ?r" "i = w mod ring_capacity ?r" and room: "w < ring_read ?r + ring_capacity ?r"
    and cap: "0 < ring_capacity ?r"
    using write_element inv by (auto simp: stream_inv_def writer_ok_def Let_def)
  have keep: "ring_data ?r' ! (j mod ring_capacity ?r) = ring_data ?r ! (j mod ring_capacity ?r)"
    if "ring_read ?r \<le> j" "j < ring_written ?r" for j
    using mod_window_neq [OF that, of "ring_capacity ?r"] w room by simp
  have "ring_contents ?r' = ring_contents ?r" by (rule contents_cong) (use keep in simp_all)
  moreover have "reader_ok ?r' (reader s)"
    using inv keep [of "ring_read ?r"]
    by (auto simp: stream_inv_def reader_ok_def Let_def split: reader_pc.splits)
  ultimately show ?thesis
    using inv write_element w room cap by (auto simp: stream_inv_def writer_ok_def Let_def)
next
  case (store_written v w w')
  let ?r = "shared s"
  have w: "w = ring_written ?r" "w < ring_read ?r + ring_capacity ?r" "0 < ring_capacity ?r"
    "ring_read ?r \<le> ring_written ?r" and v: "ring_data ?r ! (w mod ring_capacity ?r) = v"
    and w': "w' = Suc w"
    using store_written inv by (auto simp: stream_inv_def writer_ok_def Let_def)
  have "(ring_data ?r)[w mod ring_capacity ?r := v] = ring_data ?r" using v by (metis list_update_id)
  then have "ring_contents (?r\<lparr>ring_written := w'\<rparr>) = ring_contents ?r @ [v]"
    using contents_write [of ?r v] w w' by (simp add: ring_contents_def)
  then show ?thesis using inv store_written w w'
    by (auto simp: stream_inv_def writer_ok_def reader_ok_def Let_def split: reader_pc.splits)
next
  case (store_read r x r')
  let ?r = "shared s"
  have rd: "r = ring_read ?r" "r < ring_written ?r" "x = ring_data ?r ! (r mod ring_capacity ?r)" "r' = Suc r"
    using store_read inv by (auto simp: stream_inv_def reader_ok_def Let_def)
  have "ring_contents ?r = x # ring_contents (?r\<lparr>ring_read := r'\<rparr>)"
    using contents_read [of ?r] rd by simp
  then show ?thesis using inv store_read rd
    by (auto simp: stream_inv_def writer_ok_def reader_ok_def Let_def split: writer_pc.splits)
qed (use inv in \<open>auto simp: stream_inv_def writer_ok_def reader_ok_def Let_def\<close>)

lemma stream_inv_reach: "ring_step\<^sup>*\<^sup>* s t \<Longrightarrow> stream_inv s \<Longrightarrow> stream_inv t"
  by (induction rule: rtranclp_induct) (auto intro: stream_inv_step)

lemma stream_inv_start: "ring_new size_of align_of d n = Some r \<Longrightarrow> stream_inv (stream_start r)"
  by (auto simp: ring_new_def ring_new_in_def run_Some stream_inv_def stream_start_def writer_ok_def
    reader_ok_def ring_contents_def split: if_splits)

text \<open>Undisturbed, the steps of the writer are \<open>ring_push\<close> and those of the reader \<open>ring_poll\<close>.\<close>

lemma push_steps:
  assumes "writer s = WIdle" "ring_push (shared s) v = Some r'"
  shows "ring_step\<^sup>*\<^sup>* s (s\<lparr>shared := r', sent := sent s @ [v]\<rparr>)"
proof -
  let ?r = "shared s" and ?w = "ring_written (shared s)"
  obtain limit where limit: "uadd (ring_read ?r) (ring_capacity ?r) = Some limit" "?w < limit"
    and i: "urem ?w (ring_capacity ?r) = Some (?w mod ring_capacity ?r)" and w': "uadd ?w 1 = Some (Suc ?w)"
    and r': "r' = ?r\<lparr>ring_data := (ring_data ?r)[?w mod ring_capacity ?r := v], ring_written := Suc ?w\<rparr>"
    using assms(2) by (auto simp: ring_push_def run_Some Let_def split: if_splits)
  let ?s1 = "s\<lparr>writer := WWritten v ?w\<rparr>"
  let ?s2 = "?s1\<lparr>writer := WLoaded v ?w (ring_read ?r)\<rparr>"
  let ?s3 = "?s2\<lparr>writer := WElement v ?w,
    shared := ?r\<lparr>ring_data := (ring_data ?r)[?w mod ring_capacity ?r := v]\<rparr>\<rparr>"
  let ?s4 = "?s3\<lparr>writer := WIdle, shared := (shared ?s3)\<lparr>ring_written := Suc ?w\<rparr>, sent := sent ?s3 @ [v]\<rparr>"
  have a: "ring_step s ?s1" using assms(1) by (rule load_written)
  have b: "ring_step ?s1 ?s2" using load_read [of ?s1 v ?w] by simp
  have c: "ring_step ?s2 ?s3" using write_element [of ?s2 v ?w "ring_read ?r" limit] limit i by simp
  have d: "ring_step ?s3 ?s4" by (rule store_written) (use w' in simp_all)
  have "?s4 = s\<lparr>shared := r', sent := sent s @ [v]\<rparr>" using assms(1) r' by (cases s) simp
  with a b c d show ?thesis
    by (metis (no_types, lifting) rtranclp.rtrancl_into_rtrancl rtranclp.rtrancl_refl)
qed

lemma poll_steps:
  assumes "reader s = RIdle" "ring_poll (shared s) = Some (r', Some x)"
  shows "ring_step\<^sup>*\<^sup>* s (s\<lparr>shared := r', received := received s @ [x]\<rparr>)"
proof -
  let ?r = "shared s" and ?rd = "ring_read (shared s)"
  have lt: "\<not> ring_written ?r \<le> ?rd" and i: "urem ?rd (ring_capacity ?r) = Some (?rd mod ring_capacity ?r)"
    and rd': "uadd ?rd 1 = Some (Suc ?rd)" and r': "r' = ?r\<lparr>ring_read := Suc ?rd\<rparr>"
    and x: "x = ring_data ?r ! (?rd mod ring_capacity ?r)"
    using assms(2) by (auto simp: ring_poll_def run_Some Let_def split: if_splits)
  let ?s1 = "s\<lparr>reader := RRead ?rd\<rparr>"
  let ?s2 = "?s1\<lparr>reader := RLoaded ?rd (ring_written ?r)\<rparr>"
  let ?s3 = "?s2\<lparr>reader := RElement ?rd x\<rparr>"
  let ?s4 = "?s3\<lparr>reader := RIdle, shared := (shared ?s3)\<lparr>ring_read := Suc ?rd\<rparr>, received := received ?s3 @ [x]\<rparr>"
  have a: "ring_step s ?s1" using assms(1) by (rule poll_read)
  have b: "ring_step ?s1 ?s2" using poll_written [of ?s1 ?rd] by simp
  have c: "ring_step ?s2 ?s3" using poll_element [of ?s2 ?rd "ring_written ?r"] lt i x by simp
  have d: "ring_step ?s3 ?s4" by (rule store_read) (use rd' in simp_all)
  have "?s4 = s\<lparr>shared := r', received := received s @ [x]\<rparr>" using assms(1) r' by (cases s) simp
  with a b c d show ?thesis
    by (metis (no_types, lifting) rtranclp.rtrancl_into_rtrancl rtranclp.rtrancl_refl)
qed

subsection \<open>Properties\<close>

text \<open>
  C9: used by one side at a time, the ring is a bounded FIFO queue.  A sequence of pushes and
  polls on a new ring returns what a list with that capacity returns, poll by poll, ends with the
  same contents, and panics exactly where the list overflows its capacity.
\<close>

theorem ring_buffer_is_queue:
  assumes "ring_new size_of align_of d n = Some r" "pushes ops + n < usize_end"
  shows "map_option (\<lambda>(q, out). (ring_contents q, out)) (ring_queue.run_ops r ops) = list_queue n [] ops"
  using ring_queue.run_ops_list [OF ring_new_invar(1) [OF assms], of ops] ring_new_invar(2,3) [OF assms]
  by simp

theorem ring_buffer_is_queue_witness:
  "map_option (\<lambda>(q, out). (ring_contents q, out))
     (ring_queue.run_ops \<lparr>ring_read = 0, ring_written = 0, ring_data = [0, 0]\<rparr>
        [Push (7 :: nat), Push 8, Poll, Push 9, Poll, Poll, Poll]) =
   Some ([], [Some 7, Some 8, Some 9, None])"
proof -
  have "ring_new 8 8 (0 :: nat) 2 = Some \<lparr>ring_read = 0, ring_written = 0, ring_data = [0, 0]\<rparr>"
    by code_simp
  from ring_buffer_is_queue [OF this, of "[Push 7, Push 8, Poll, Push 9, Poll, Poll, Poll]"]
  show ?thesis by simp
qed

text \<open>
  C10: nothing is lost, duplicated or reordered between processes.  However the loads and stores
  of a writer and a reader interleave, at every moment what the reader has received followed by
  what is in the ring is exactly what the writer has sent, and the ring never holds more than
  its capacity.
\<close>

theorem ring_buffer_interleaved:
  assumes "ring_new size_of align_of d n = Some r" "ring_step\<^sup>*\<^sup>* (stream_start r) s"
  shows "sent s = received s @ ring_contents (shared s) \<and> length (ring_contents (shared s)) \<le> ring_capacity (shared s)"
  using stream_inv_reach [OF assms(2) stream_inv_start [OF assms(1)]]
  by (auto simp: stream_inv_def ring_contents_def Let_def)

theorem ring_buffer_interleaved_witness:
  "\<exists>s. ring_step\<^sup>*\<^sup>* (stream_start \<lparr>ring_read = 0, ring_written = 0, ring_data = [0 :: nat]\<rparr>) s \<and>
     sent s = [7] \<and> received s @ ring_contents (shared s) = [7]"
proof -
  let ?r = "\<lparr>ring_read = 0, ring_written = 0, ring_data = [0 :: nat]\<rparr>"
  have new: "ring_new 8 8 (0 :: nat) 1 = Some ?r" by code_simp
  have "ring_push ?r 7 = Some \<lparr>ring_read = 0, ring_written = 1, ring_data = [7]\<rparr>"
    by code_simp
  with push_steps [of "stream_start ?r" 7]
  have "ring_step\<^sup>*\<^sup>* (stream_start ?r) ((stream_start ?r)\<lparr>shared := \<lparr>ring_read = 0, ring_written = 1,
      ring_data = [7]\<rparr>, sent := [7]\<rparr>)" by (simp add: stream_start_def)
  with ring_buffer_interleaved [OF new this] show ?thesis by fastforce
qed

text \<open>
  A ring keeps its length through \<open>untype\<close> and \<open>cast\<close>: the element count recovered from the
  byte count is the original one whenever the elements have a size.
\<close>

theorem ring_untype_cast:
  assumes "0 < size_of" "ring_untype size_of n = Some b"
  shows "ring_cast size_of b = Some n"
  using assms by (auto simp: ring_untype_def ring_cast_def)

theorem ring_untype_cast_witness: "ring_cast 24 240 = Some 10"
  using ring_untype_cast [of 24 10 240] by (simp add: ring_untype_def)

end
