(* ===== verification/Buddy.thy ===== *)
theory Buddy
  imports Heap
begin

text \<open>
  The buddy allocator (\<open>kernel/src/heap/buddy.rs\<close>), which backs the kernel heap and every
  process's heap addresses.  A node covers a power of two; its size is not stored but passed
  down, and its two children exist once it has been split.
\<close>

subsection \<open>Nodes\<close>

datatype node =
  Node (max_available: usize) (allocated: usize) (children: "(node \<times> node) option")

definition get_children :: "(node \<times> node) option \<Rightarrow> usize \<Rightarrow> node \<times> node" where
  "get_children cs node_size =
     (case cs of
        Some c \<Rightarrow> c
      | None \<Rightarrow> (Node (node_size div 2) 0 None, Node (node_size div 2) 0 None))"

fun update :: "node \<Rightarrow> usize \<Rightarrow> node" where
  "update (Node m a None) node_size = Node m a None"
| "update (Node m a (Some (left, right))) node_size =
     (if max_available left = node_size div 2 \<and> max_available right = node_size div 2
      then Node node_size a (Some (left, right))
      else Node (max (max_available left) (max_available right)) a (Some (left, right)))"

text \<open>
  The recursions go to half the node size.  A request that reaches node size zero would recurse
  for ever, which exhausts the kernel stack: that case is the abort \<^const>\<open>None\<close>.
\<close>

function node_new :: "usize \<Rightarrow> usize \<Rightarrow> node run" where
  "node_new sz node_size =
     (if sz = 0 then Some (Node 0 0 None)
      else if sz = node_size then Some (Node node_size 0 None)
      else if \<not> sz < node_size then None
      else do {
        let left_size = min (node_size div 2) sz;
        let right_size = sz - node_size div 2;
        l \<leftarrow> node_new left_size (node_size div 2);
        r \<leftarrow> node_new right_size (node_size div 2);
        Some (update (Node 0 0 (Some (l, r))) node_size) })"
  by pat_completeness auto
termination by (relation "measure snd") auto

function node_alloc :: "node \<Rightarrow> usize \<Rightarrow> usize \<Rightarrow> (node \<times> (alloc_error + usize)) run" where
  "node_alloc n req_size node_size =
     (if req_size > max_available n then Some (n, Inl AllocError)
      else if req_size > node_size div 2 then do {
        ensure (max_available n = node_size);
        Some (Node 0 req_size (children n), Inr 0) }
      else if node_size = 0 then None
      else
        let (left, right) = get_children (children n) node_size in
        if (max_available left \<ge> req_size \<and> max_available left \<le> max_available right)
           \<or> max_available right < req_size
        then do {
          ensure (max_available left \<ge> req_size);
          (left, res) \<leftarrow> node_alloc left req_size (node_size div 2);
          let n' = Node (max_available n) (allocated n) (Some (left, right));
          case res of
            Inl e \<Rightarrow> Some (n', Inl e)
          | Inr ptr \<Rightarrow> Some (update n' node_size, Inr ptr) }
        else do {
          ensure (max_available right \<ge> req_size);
          (right, res) \<leftarrow> node_alloc right req_size (node_size div 2);
          let n' = Node (max_available n) (allocated n) (Some (left, right));
          case res of
            Inl e \<Rightarrow> Some (n', Inl e)
          | Inr ptr \<Rightarrow> do {
              ptr \<leftarrow> uadd ptr (node_size div 2);
              Some (update n' node_size, Inr ptr) } })"
  by pat_completeness auto
termination by (relation "measure (\<lambda>(n, r, s). s)") auto

function node_dealloc :: "node \<Rightarrow> usize \<Rightarrow> usize \<Rightarrow> usize \<Rightarrow> node run" where
  "node_dealloc n ptr req_size node_size =
     (if ptr = 0 \<and> req_size > node_size div 2 then do {
        ensure (max_available n = 0);
        ensure (allocated n = req_size);
        Some (Node node_size 0 (children n)) }
      else if node_size = 0 then None
      else do {
        (left, right) \<leftarrow> children n;
        (left, right) \<leftarrow>
          (if ptr < node_size div 2 then do {
             left \<leftarrow> node_dealloc left ptr req_size (node_size div 2);
             Some (left, right) }
           else do {
             right \<leftarrow> node_dealloc right (ptr - node_size div 2) req_size (node_size div 2);
             Some (left, right) });
        Some (update (Node (max_available n) (allocated n) (Some (left, right))) node_size) })"
  by pat_completeness auto
termination by (relation "measure (\<lambda>(n, p, r, s). s)") auto

function node_reserve_range :: "node \<Rightarrow> usize \<Rightarrow> usize \<Rightarrow> usize \<Rightarrow> node run" where
  "node_reserve_range n start end' node_size =
     (if start = 0 \<and> end' = node_size then do {
        ensure (max_available n = node_size);
        Some (Node 0 (allocated n) (children n)) }
      else if node_size = 0 then None
      else do {
        let half = node_size div 2;
        let (left, right) = get_children (children n) node_size;
        left \<leftarrow> (if start < half then node_reserve_range left start (min end' half) half
                 else Some left);
        right \<leftarrow> (if end' > half
                  then node_reserve_range right (max start half - half) (end' - half) half
                  else Some right);
        Some (update (Node (max_available n) (allocated n) (Some (left, right))) node_size) })"
  by pat_completeness auto
termination by (relation "measure (\<lambda>(n, a, b, s). s)") auto

declare node_new.simps [simp del] node_alloc.simps [simp del] node_dealloc.simps [simp del]
  node_reserve_range.simps [simp del]

fun node_stats :: "node \<Rightarrow> heap_stats run" where
  "node_stats (Node m a cs) =
     (if a \<noteq> 0 then Some \<lparr>alloc_bytes = a, free_bytes = 0\<rparr>
      else case cs of
        Some (l, r) \<Rightarrow> do {
          left \<leftarrow> node_stats l;
          right \<leftarrow> node_stats r;
          al \<leftarrow> uadd (alloc_bytes left) (alloc_bytes right);
          fr \<leftarrow> uadd (free_bytes left) (free_bytes right);
          Some \<lparr>alloc_bytes = al, free_bytes = fr\<rparr> }
      | None \<Rightarrow> Some \<lparr>alloc_bytes = 0, free_bytes = m\<rparr>)"

subsection \<open>The allocator\<close>

record buddy_allocator =
  buddy_root :: node
  root_node_size :: usize
  range_start :: usize
  range_end :: usize

definition buddy_new :: "usize \<Rightarrow> usize \<Rightarrow> buddy_allocator run" where
  "buddy_new s e = do {
     sz \<leftarrow> usub e s;
     node_size \<leftarrow> next_power_of_two sz;
     root \<leftarrow> node_new sz node_size;
     Some \<lparr>buddy_root = root, root_node_size = node_size, range_start = s, range_end = e\<rparr> }"

definition buddy_alloc ::
  "buddy_allocator \<Rightarrow> layout \<Rightarrow> (buddy_allocator \<times> (alloc_error + usize)) run" where
  "buddy_alloc b l = do {
     let req_size = max (lay_size l) (lay_align l);
     (root, res) \<leftarrow> node_alloc (buddy_root b) req_size (root_node_size b);
     let b = b\<lparr>buddy_root := root\<rparr>;
     case res of
       Inl e \<Rightarrow> Some (b, Inl e)
     | Inr unoffset_ptr \<Rightarrow> do {
         ptr \<leftarrow> uadd (range_start b) unoffset_ptr;
         ensure (ptr \<ge> range_start b);
         e \<leftarrow> uadd ptr req_size;
         ensure (e \<le> range_end b);
         Some (b, Inr ptr) } }"

definition buddy_dealloc :: "buddy_allocator \<Rightarrow> usize \<Rightarrow> layout \<Rightarrow> buddy_allocator run" where
  "buddy_dealloc b ptr l = do {
     let req_size = max (lay_size l) (lay_align l);
     off \<leftarrow> usub ptr (range_start b);
     root \<leftarrow> node_dealloc (buddy_root b) off req_size (root_node_size b);
     Some (b\<lparr>buddy_root := root\<rparr>) }"

definition buddy_reserve_range :: "buddy_allocator \<Rightarrow> usize \<Rightarrow> usize \<Rightarrow> buddy_allocator run" where
  "buddy_reserve_range b s e = do {
     ensure (s \<ge> range_start b);
     ensure (e \<le> range_end b);
     s' \<leftarrow> usub s (range_start b);
     e' \<leftarrow> usub e (range_start b);
     root \<leftarrow> node_reserve_range (buddy_root b) s' e' (root_node_size b);
     Some (b\<lparr>buddy_root := root\<rparr>) }"

definition buddy_stats :: "buddy_allocator \<Rightarrow> heap_stats run" where
  "buddy_stats b = node_stats (buddy_root b)"

end
