(* ===== verification/Buddy_Correct.thy ===== *)
theory Buddy_Correct
  imports Buddy
begin

text \<open>
  The buddy allocator against its abstraction: the set of offsets that are still available and
  the set of live allocations.  The well-formedness of a node says that its \<open>max_available\<close> is
  exactly what its children make of it.
\<close>

subsection \<open>Block sizes\<close>

definition block_size :: "nat \<Rightarrow> nat" where
  "block_size r = (if r \<le> 1 then 1 else 2 ^ bit_count (r - 1))"

lemma block_size_eq:
  assumes "2 ^ k div 2 < r" "r \<le> 2 ^ k"
  shows "block_size r = 2 ^ k"
proof (cases "r \<le> 1")
  case True
  with assms have "(2::nat) ^ k < 2" by linarith
  then have "k = 0" using power_increasing [of 1 k "2::nat"] by (cases k) auto
  with True show ?thesis by (simp add: block_size_def)
next
  case False
  let ?b = "bit_count (r - 1)"
  obtain j where k: "k = Suc j"
    using assms False by (cases k) auto
  have "(2::nat) ^ ?b \<le> 2 * (r - 1)" using bit_count_lower [of "r - 1"] False by simp
  then have "(2::nat) ^ ?b < 2 ^ Suc k" using assms(2) False by simp
  then have up: "?b \<le> k" using power_less_imp_less_exp [of "2::nat" ?b "Suc k"] by simp
  have "r - 1 < 2 ^ ?b" by (rule bit_count_upper)
  moreover have "2 ^ j \<le> r - 1" using assms(1) k by simp
  ultimately have "(2::nat) ^ j < 2 ^ ?b" by linarith
  then have "j < ?b" using power_less_imp_less_exp [of "2::nat" j ?b] by simp
  with up k have "?b = k" by simp
  with False show ?thesis by (simp add: block_size_def)
qed

lemma block_size_ge: "r \<le> block_size r"
  using bit_count_upper [of "r - 1"] by (auto simp: block_size_def)

lemma block_size_pos [simp]: "0 < block_size r"
  by (simp add: block_size_def)

lemma block_size_power: "\<exists>i. block_size r = 2 ^ i"
  unfolding block_size_def using power_0 by metis

lemma block_size_dvd: "block_size r \<le> 2 ^ j \<Longrightarrow> block_size r dvd 2 ^ j"
proof -
  obtain i where "block_size r = 2 ^ i" using block_size_power by blast
  then show "block_size r \<le> 2 ^ j \<Longrightarrow> block_size r dvd 2 ^ j"
    by (simp add: le_imp_power_dvd)
qed

subsection \<open>Well-formed nodes, what they offer and what they have handed out\<close>

definition merged :: "nat \<Rightarrow> node \<Rightarrow> node \<Rightarrow> nat" where
  "merged j l r = (if max_available l = 2 ^ j \<and> max_available r = 2 ^ j then 2 ^ Suc j
                   else max (max_available l) (max_available r))"

fun wf_node :: "nat \<Rightarrow> node \<Rightarrow> bool" where
  "wf_node 0 (Node m a cs) \<longleftrightarrow> cs = None \<and> (m = 1 \<and> a = 0 \<or> m = 0 \<and> a \<le> 1)"
| "wf_node (Suc j) (Node m a None) \<longleftrightarrow>
     m = 2 ^ Suc j \<and> a = 0 \<or> m = 0 \<and> (a = 0 \<or> 2 ^ j < a \<and> a \<le> 2 ^ Suc j)"
| "wf_node (Suc j) (Node m a (Some (l, r))) \<longleftrightarrow> wf_node j l \<and> wf_node j r \<and>
     (m = 0 \<and> (a = 0 \<or> 2 ^ j < a \<and> a \<le> 2 ^ Suc j) \<and>
        max_available l = 2 ^ j \<and> max_available r = 2 ^ j
      \<or> a = 0 \<and> m = merged j l r)"

abbreviation up :: "nat \<Rightarrow> nat set \<Rightarrow> nat set" where
  "up j S \<equiv> (\<lambda>x. 2 ^ j + x) ` S"

abbreviation up2 :: "nat \<Rightarrow> (nat \<times> nat) set \<Rightarrow> (nat \<times> nat) set" where
  "up2 j S \<equiv> (\<lambda>(p, a). (2 ^ j + p, a)) ` S"

fun avail :: "nat \<Rightarrow> node \<Rightarrow> nat set" where
  "avail 0 (Node m a cs) = (if m = 0 then {} else {0})"
| "avail (Suc j) (Node m a None) = (if m = 0 then {} else {0..<2 ^ Suc j})"
| "avail (Suc j) (Node m a (Some (l, r))) = (if m = 0 then {} else avail j l \<union> up j (avail j r))"

fun live :: "nat \<Rightarrow> node \<Rightarrow> (nat \<times> nat) set" where
  "live 0 (Node m a cs) = (if a = 0 then {} else {(0, a)})"
| "live (Suc j) (Node m a None) = (if a = 0 then {} else {(0, a)})"
| "live (Suc j) (Node m a (Some (l, r))) =
     (if a = 0 then live j l \<union> up2 j (live j r) else {(0, a)})"

definition block :: "nat \<times> nat \<Rightarrow> nat set" where
  "block b = {fst b..<fst b + block_size (snd b)}"

lemma up_interval: "up j {a..<b} = {2 ^ j + a..<2 ^ j + b}"
  by (simp add: add.commute)

lemma up_halves: "{0..<2 ^ j} \<union> up j {0..<2 ^ j} = {0..<2 ^ Suc j}"
  by (auto simp: up_interval)

lemma mem_up: "x \<in> up j S \<longleftrightarrow> 2 ^ j \<le> x \<and> x - 2 ^ j \<in> S"
  by (auto simp: image_iff intro: bexI [of _ "x - 2 ^ j"])

lemma mem_up2: "(p, a) \<in> up2 j S \<longleftrightarrow> 2 ^ j \<le> p \<and> (p - 2 ^ j, a) \<in> S"
  by (auto simp: image_iff intro: bexI [of _ "(p - 2 ^ j, a)"])

lemma wf_max_le: "wf_node k n \<Longrightarrow> max_available n \<le> 2 ^ k"
proof (induction k n rule: wf_node.induct)
  case (3 j m a l r)
  then show ?case by (auto simp: merged_def)
qed auto

lemma merged_full:
  assumes "wf_node j l" "wf_node j r" "merged j l r = 2 ^ Suc j"
  shows "max_available l = 2 ^ j" "max_available r = 2 ^ j"
proof -
  have "max (max_available l) (max_available r) \<le> 2 ^ j"
    using wf_max_le [OF assms(1)] wf_max_le [OF assms(2)] by simp
  moreover have "(2::nat) ^ j < 2 ^ Suc j" by simp
  ultimately show "max_available l = 2 ^ j" "max_available r = 2 ^ j"
    using assms(3) unfolding merged_def by (metis leD)+
qed

lemma wf_full: "wf_node k n \<Longrightarrow> max_available n = 2 ^ k \<Longrightarrow>
  avail k n = {0..<2 ^ k} \<and> live k n = {} \<and> allocated n = 0"
proof (induction k n rule: wf_node.induct)
  case (3 j m a l r)
  then have l: "wf_node j l" and r: "wf_node j r" and a: "a = 0" and m: "m = merged j l r"
    and m2: "m = 2 ^ Suc j" by auto
  have "max_available l = 2 ^ j" "max_available r = 2 ^ j"
    using merged_full [OF l r] m m2 by simp_all
  with 3 a m2 l r show ?case using up_halves [of j] by auto
qed auto

text \<open>A node that is free as a whole can be taken as a whole.\<close>

lemma wf_take:
  assumes wf: "wf_node k n" and full: "max_available n = 2 ^ k"
    and a: "a = 0 \<or> 2 ^ k div 2 < a \<and> a \<le> 2 ^ k"
  shows "wf_node k (Node 0 a (children n))" "avail k (Node 0 a (children n)) = {}"
    "live k (Node 0 a (children n)) = (if a = 0 then {} else {(0, a)})"
proof -
  obtain m a0 cs where n: "n = Node m a0 cs" by (cases n)
  have "wf_node k (Node 0 a cs) \<and> avail k (Node 0 a cs) = {} \<and>
    live k (Node 0 a cs) = (if a = 0 then {} else {(0, a)})"
  proof (cases k)
    case 0
    with n wf a show ?thesis by auto
  next
    case (Suc j)
    show ?thesis
    proof (cases cs)
      case None
      with a Suc show ?thesis by simp
    next
      case (Some c)
      obtain l r where c: "c = (l, r)" by (cases c)
      have k: "wf_node j l" "wf_node j r" "merged j l r = 2 ^ Suc j"
        using wf full n Suc Some c by auto
      note f = merged_full [OF k]
      show ?thesis
        using a Suc Some c k f wf_full [OF k(1) f(1)] wf_full [OF k(2) f(2)] by simp
    qed
  qed
  then show "wf_node k (Node 0 a (children n))" "avail k (Node 0 a (children n)) = {}"
    "live k (Node 0 a (children n)) = (if a = 0 then {} else {(0, a)})"
    by (simp_all add: n)
qed

lemma wf_empty: "wf_node k n \<Longrightarrow> max_available n = 0 \<Longrightarrow> avail k n = {}"
  by (induction k n rule: wf_node.induct) auto

lemma avail_bound: "wf_node k n \<Longrightarrow> avail k n \<subseteq> {0..<2 ^ k}"
proof (induction k n rule: wf_node.induct)
  case (3 j m a l r)
  then have "avail j l \<subseteq> {0..<2 ^ j}" "avail j r \<subseteq> {0..<2 ^ j}" by auto
  then have "avail j l \<union> up j (avail j r) \<subseteq> {0..<2 ^ Suc j}"
    unfolding up_halves [symmetric] by blast
  then show ?case by auto
qed (auto split: if_splits)

lemma live_bound:
  "wf_node k n \<Longrightarrow> (p, a) \<in> live k n \<Longrightarrow>
     0 < a \<and> a \<le> 2 ^ k \<and> p + block_size a \<le> 2 ^ k \<and> block_size a dvd p"
proof (induction k n arbitrary: p rule: wf_node.induct)
  case (1 m a' cs)
  then show ?case by (auto simp: block_size_def split: if_splits)
next
  case (2 j m a')
  then show ?case using block_size_eq [of "Suc j" a'] by (auto split: if_splits)
next
  case (3 j m a' l r)
  show ?case
  proof (cases "a' = 0")
    case False
    with 3 show ?thesis using block_size_eq [of "Suc j" a'] by auto
  next
    case True
    with 3 consider "(p, a) \<in> live j l" | "2 ^ j \<le> p" "(p - 2 ^ j, a) \<in> live j r"
      by (auto simp: mem_up2 simp del: image_eqI)
    then show ?thesis
    proof cases
      case 1
      with 3 have "0 < a \<and> a \<le> 2 ^ j \<and> p + block_size a \<le> 2 ^ j \<and> block_size a dvd p" by simp
      then show ?thesis by auto
    next
      case 2
      have "wf_node j r" using "3.prems" by simp
      from "3.IH"(2) [OF this 2(2)]
      have *: "0 < a" "a \<le> 2 ^ j" "p - 2 ^ j + block_size a \<le> 2 ^ j" "block_size a dvd p - 2 ^ j"
        by simp_all
      have "block_size a dvd 2 ^ j" using *(3) by (intro block_size_dvd) simp
      with *(4) 2(1) have "block_size a dvd p" by (metis dvd_diffD)
      with * 2(1) show ?thesis by auto
    qed
  qed
qed


lemma live_fst_bound: "wf_node k n \<Longrightarrow> (p, a) \<in> live k n \<Longrightarrow> p < 2 ^ k"
  using live_bound [of k n p a] block_size_pos [of a] by linarith

lemma block_up: "block (2 ^ j + p, a) = up j (block (p, a))"
  by (simp add: block_def add_ac)

lemma up_disjoint: "S \<subseteq> {0..<2 ^ j} \<Longrightarrow> S \<inter> up j T = {}"
  by (auto simp: mem_up)

lemma up_Int [simp]: "up j S \<inter> up j T = up j (S \<inter> T)"
  by (auto simp: mem_up)

lemma live_block_bound: "wf_node k n \<Longrightarrow> b \<in> live k n \<Longrightarrow> block b \<subseteq> {0..<2 ^ k}"
  using live_bound [of k n "fst b" "snd b"] by (auto simp: block_def)

lemma live_not_avail: "wf_node k n \<Longrightarrow> b \<in> live k n \<Longrightarrow> block b \<inter> avail k n = {}"
proof (induction k n arbitrary: b rule: wf_node.induct)
  case (3 j m a l r)
  show ?case
  proof (cases "m = 0 \<or> a \<noteq> 0")
    case True
    with 3 show ?thesis by (auto simp: merged_def)
  next
    case False
    obtain p c where b: "b = (p, c)" by (cases b)
    have wf: "wf_node j l" "wf_node j r" using "3.prems" by auto
    note lb = live_block_bound [OF wf(1)] and rb = avail_bound [OF wf(2)] avail_bound [OF wf(1)]
    from 3 False b consider "(p, c) \<in> live j l" | q where "p = 2 ^ j + q" "(q, c) \<in> live j r"
      by auto
    then show ?thesis
    proof cases
      case 1
      then have "block b \<inter> up j (avail j r) = {}" using lb up_disjoint b by blast
      with "3.IH"(1) [OF wf(1) 1] False b show ?thesis by auto
    next
      case 2
      then have "avail j l \<inter> block b = {}"
        using rb(2) up_disjoint b block_up by metis
      with "3.IH"(2) [OF wf(2) 2(2)] False b 2(1) show ?thesis
        by (simp add: block_up Int_Un_distrib Int_commute)
    qed
  qed
qed (auto split: if_splits)

lemma live_disjoint:
  "wf_node k n \<Longrightarrow> b \<in> live k n \<Longrightarrow> c \<in> live k n \<Longrightarrow> b \<noteq> c \<Longrightarrow> block b \<inter> block c = {}"
proof (induction k n arbitrary: b c rule: wf_node.induct)
  case (3 j m a l r)
  show ?case
  proof (cases "a = 0")
    case False
    with 3 show ?thesis by simp
  next
    case True
    have wf: "wf_node j l" "wf_node j r" using "3.prems" by auto
    have cross: "block x \<inter> up j (block y) = {}" if "x \<in> live j l" for x y
      using live_block_bound [OF wf(1) that] by (rule up_disjoint)
    have un: "live (Suc j) (Node m a (Some (l, r))) = live j l \<union> up2 j (live j r)"
      using True by simp
    have mem: "x \<in> live j l \<or> (\<exists>q d. x = (2 ^ j + q, d) \<and> (q, d) \<in> live j r)"
      if "x \<in> live (Suc j) (Node m a (Some (l, r)))" for x
      using that unfolding un by auto
    from mem [OF "3.prems"(2)] mem [OF "3.prems"(3)] consider
      "b \<in> live j l" "c \<in> live j l"
    | q d where "b \<in> live j l" "c = (2 ^ j + q, d)" "(q, d) \<in> live j r"
    | q d where "c \<in> live j l" "b = (2 ^ j + q, d)" "(q, d) \<in> live j r"
    | q d q' d' where "b = (2 ^ j + q, d)" "c = (2 ^ j + q', d')" "(q, d) \<in> live j r" "(q', d') \<in> live j r"
      by blast
    then show ?thesis
    proof cases
      case 1
      then show ?thesis using "3.IH"(1) wf "3.prems"(4) by blast
    next
      case 2
      then show ?thesis by (simp only: block_up cross)
    next
      case 3
      then show ?thesis by (metis block_up cross Int_commute)
    next
      case 4
      then have "(q, d) \<noteq> (q', d')" using "3.prems"(4) by auto
      then have "block (q, d) \<inter> block (q', d') = {}" using "3.IH"(2) wf 4 by blast
      then show ?thesis unfolding 4 block_up up_Int by simp
    qed
  qed
qed (auto split: if_splits)

lemma block_last: "p + 2 ^ i - 1 \<in> {p..<p + 2 ^ i :: nat}"
proof -
  have "(1::nat) \<le> 2 ^ i" by simp
  then show ?thesis unfolding atLeastLessThan_iff by linarith
qed

text \<open>\<open>max_available\<close> is the size of the largest aligned block that is still free.\<close>

lemma max_available_complete:
  "wf_node k n \<Longrightarrow> 2 ^ i dvd p \<Longrightarrow> {p..<p + 2 ^ i} \<subseteq> avail k n \<Longrightarrow> 2 ^ i \<le> max_available n"
proof (induction k n arbitrary: i p rule: wf_node.induct)
  case (1 m a cs)
  have "p \<in> avail 0 (Node m a cs)" by (rule subsetD [OF "1.prems"(3)]) simp
  then have "p = 0" "m = 1" using "1.prems"(1) by (auto split: if_splits)
  moreover have "i = 0"
  proof (rule ccontr)
    assume "i \<noteq> 0"
    then have "(1::nat) < 2 ^ i" using one_less_power [of "2::nat" i] by simp
    then have "p + 1 \<in> {p..<p + 2 ^ i}" by simp
    from subsetD [OF "1.prems"(3) this] \<open>p = 0\<close> show False by (simp split: if_splits)
  qed
  ultimately show ?case by simp
next
  case (2 j m a)
  have p: "p \<in> avail (Suc j) (Node m a None)" by (rule subsetD [OF "2.prems"(3)]) simp
  then have m: "m = 2 ^ Suc j" using "2.prems"(1) by (auto split: if_splits)
  have "p + 2 ^ i - 1 \<in> avail (Suc j) (Node m a None)"
    by (rule subsetD [OF "2.prems"(3) block_last])
  then have "p + 2 ^ i - 1 < 2 ^ Suc j" using m by (simp split: if_splits)
  then have "2 ^ i \<le> (2::nat) ^ Suc j" by linarith
  with m show ?case by simp
next
  case (3 j m a l r)
  have "p \<in> avail (Suc j) (Node m a (Some (l, r)))" by (rule subsetD [OF "3.prems"(3)]) simp
  then have m0: "m \<noteq> 0" by (auto split: if_splits)
  with "3.prems" have wf: "wf_node j l" "wf_node j r" and m: "m = merged j l r"
    and sub: "{p..<p + 2 ^ i} \<subseteq> avail j l \<union> up j (avail j r)" by auto
  have al: "avail j l \<subseteq> {0..<2 ^ j}" and ar: "avail j r \<subseteq> {0..<2 ^ j}"
    using avail_bound wf by auto
  have last: "p + 2 ^ i \<le> 2 ^ Suc j"
  proof -
    have "p + 2 ^ i - 1 \<in> {p..<p + 2 ^ i}" by (rule block_last)
    then have "p + 2 ^ i - 1 \<in> avail (Suc j) (Node m a (Some (l, r)))" using "3.prems"(3) by blast
    then show ?thesis using avail_bound [OF "3.prems"(1)] by auto
  qed
  show ?case
  proof (cases "i \<le> j")
    case True
    then have dj: "(2::nat) ^ i dvd 2 ^ j" by (simp add: le_imp_power_dvd)
    show ?thesis
    proof (cases "2 ^ j \<le> p")
      case True
      have "{p - 2 ^ j..<p - 2 ^ j + 2 ^ i} \<subseteq> avail j r"
      proof
        fix x assume "x \<in> {p - 2 ^ j..<p - 2 ^ j + 2 ^ i}"
        then have "2 ^ j + x \<in> {p..<p + 2 ^ i}"
          using True unfolding atLeastLessThan_iff by linarith
        then have "2 ^ j + x \<in> avail j l \<union> up j (avail j r)" using sub by blast
        then show "x \<in> avail j r" using al by (auto simp: mem_up)
      qed
      moreover have "2 ^ i dvd p - 2 ^ j" using "3.prems"(2) dj by (simp add: dvd_diff_nat)
      ultimately have "2 ^ i \<le> max_available r" using "3.IH"(2) wf by blast
      then show ?thesis using m wf_max_le [OF wf(1)] wf_max_le [OF wf(2)]
        by (auto simp: merged_def)
    next
      case False
      then have "p + 2 ^ i \<le> 2 ^ j"
        using dj "3.prems"(2) by (intro dvd_step_le) auto
      have "{p..<p + 2 ^ i} \<subseteq> avail j l"
        using sub \<open>p + 2 ^ i \<le> 2 ^ j\<close> by (auto simp: mem_up)
      then have "2 ^ i \<le> max_available l" using "3.IH"(1) wf "3.prems"(2) by blast
      then show ?thesis using m wf_max_le [OF wf(1)] wf_max_le [OF wf(2)]
        by (auto simp: merged_def)
    qed
  next
    case False
    then have "(2::nat) ^ Suc j \<le> 2 ^ i" by (intro power_increasing) auto
    then have p0: "p = 0" and i: "(2::nat) ^ i = 2 ^ Suc j" using last by linarith+
    have whole: "x \<in> avail j l \<union> up j (avail j r)" if "x < 2 ^ Suc j" for x
      by (rule subsetD [OF sub [unfolded p0 i]]) (use that in simp)
    have "{0..<2 ^ j} \<subseteq> avail j l"
    proof
      fix x :: nat assume "x \<in> {0..<2 ^ j}"
      then show "x \<in> avail j l" using whole [of x] by (auto simp: mem_up)
    qed
    then have "2 ^ j \<le> max_available l" using "3.IH"(1) [OF wf(1), of j 0] by simp
    moreover have "{0..<2 ^ j} \<subseteq> avail j r"
    proof
      fix x :: nat assume "x \<in> {0..<2 ^ j}"
      then show "x \<in> avail j r" using whole [of "2 ^ j + x"] al by (auto simp: mem_up)
    qed
    then have "2 ^ j \<le> max_available r" using "3.IH"(2) [OF wf(2), of j 0] by simp
    ultimately have "max_available l = 2 ^ j" "max_available r = 2 ^ j"
      using wf_max_le [OF wf(1)] wf_max_le [OF wf(2)] by auto
    then show ?thesis using m i by (simp add: merged_def)
  qed
qed


subsection \<open>The operations on nodes\<close>

text \<open>What \<open>get_children\<close> gives for a node that still offers something.\<close>

lemma get_children_wf:
  assumes wf: "wf_node (Suc j) n" and m: "max_available n \<noteq> 0"
    and kids: "get_children (children n) (2 ^ Suc j) = (l, r)"
  shows "wf_node j l" "wf_node j r" "max_available n = merged j l r" "allocated n = 0"
    "avail (Suc j) n = avail j l \<union> up j (avail j r)" "live (Suc j) n = live j l \<union> up2 j (live j r)"
proof -
  obtain m' a cs where n: "n = Node m' a cs" by (cases n)
  have free: "wf_node j (Node (2 ^ j) 0 None)" "avail j (Node (2 ^ j) 0 None) = {0..<2 ^ j}"
    "live j (Node (2 ^ j) 0 None) = {}"
    by (cases j; simp)+
  have goal: "wf_node j l \<and> wf_node j r \<and> max_available n = merged j l r \<and> allocated n = 0 \<and>
    avail (Suc j) n = avail j l \<union> up j (avail j r) \<and> live (Suc j) n = live j l \<union> up2 j (live j r)"
  proof (cases cs)
    case None
    then have "l = Node (2 ^ j) 0 None" "r = Node (2 ^ j) 0 None" "m' = 2 ^ Suc j" "a = 0"
      using kids n wf m by (auto simp: get_children_def)
    with free n None show ?thesis using up_halves [of j] by (simp add: merged_def)
  next
    case (Some c)
    then have "c = (l, r)" using kids n by (simp add: get_children_def)
    with n Some wf m show ?thesis by auto
  qed
  then show "wf_node j l" "wf_node j r" "max_available n = merged j l r" "allocated n = 0"
    "avail (Suc j) n = avail j l \<union> up j (avail j r)" "live (Suc j) n = live j l \<union> up2 j (live j r)"
    by blast+
qed

lemma update_wf:
  assumes "wf_node j l" "wf_node j r"
  shows "wf_node (Suc j) (update (Node m 0 (Some (l, r))) (2 ^ Suc j))"
    "avail (Suc j) (update (Node m 0 (Some (l, r))) (2 ^ Suc j)) = avail j l \<union> up j (avail j r)"
    "live (Suc j) (update (Node m 0 (Some (l, r))) (2 ^ Suc j)) = live j l \<union> up2 j (live j r)"
  using assms wf_empty [of j l] wf_empty [of j r] by (auto simp: merged_def max_def split: if_splits)

lemma merged_ge:
  assumes "wf_node j l" "wf_node j r" "q \<le> merged j l r" "q \<le> 2 ^ j"
  shows "q \<le> max_available l \<or> q \<le> max_available r"
  using assms by (auto simp: merged_def split: if_splits)

lemma node_alloc_fail: "max_available n < q \<Longrightarrow> node_alloc n q s = Some (n, Inl AllocError)"
  by (subst node_alloc.simps) simp

lemma node_alloc_full:
  "wf_node k n \<Longrightarrow> q \<le> max_available n \<Longrightarrow> 2 ^ k div 2 < q \<Longrightarrow>
   node_alloc n q (2 ^ k) = Some (Node 0 q (children n), Inr 0) \<and> max_available n = 2 ^ k"
proof -
  assume wf: "wf_node k n" and q: "q \<le> max_available n" "2 ^ k div 2 < q"
  have "max_available n = 2 ^ k"
  proof (cases k)
    case 0
    with wf q show ?thesis by (cases n) auto
  next
    case (Suc j)
    obtain l r where kids: "get_children (children n) (2 ^ Suc j) = (l, r)" by fastforce
    have "max_available n \<noteq> 0" using q by linarith
    from get_children_wf [OF wf [unfolded Suc] this kids] Suc q wf_max_le [of j l] wf_max_le [of j r]
    show ?thesis by (auto simp: merged_def split: if_splits)
  qed
  with q show ?thesis by (subst node_alloc.simps) simp
qed

text \<open>The specification of one allocation.\<close>

definition alloc_spec :: "nat \<Rightarrow> node \<Rightarrow> nat \<Rightarrow> node \<Rightarrow> nat \<Rightarrow> bool" where
  "alloc_spec k n q n' p \<longleftrightarrow> wf_node k n' \<and> p + block_size q \<le> 2 ^ k \<and> block_size q dvd p \<and>
     block (p, q) \<subseteq> avail k n \<and> avail k n' = avail k n - block (p, q) \<and>
     live k n' = insert (p, q) (live k n)"

lemma alloc_spec_left:
  assumes "wf_node j l" "wf_node j r" "alloc_spec j l q l' p"
    and n: "avail (Suc j) n = avail j l \<union> up j (avail j r)" "live (Suc j) n = live j l \<union> up2 j (live j r)"
  shows "alloc_spec (Suc j) n q (update (Node m 0 (Some (l', r))) (2 ^ Suc j)) p"
proof -
  have wf': "wf_node j l'" using assms by (simp add: alloc_spec_def)
  have "block (p, q) \<inter> up j (avail j r) = {}"
    using assms avail_bound [OF assms(1)] by (intro up_disjoint) (auto simp: alloc_spec_def)
  then show ?thesis
    using assms(3) n update_wf [OF wf' assms(2), of m] unfolding alloc_spec_def by auto
qed

lemma alloc_spec_right:
  assumes "wf_node j l" "wf_node j r" "alloc_spec j r q r' p"
    and n: "avail (Suc j) n = avail j l \<union> up j (avail j r)" "live (Suc j) n = live j l \<union> up2 j (live j r)"
  shows "alloc_spec (Suc j) n q (update (Node m 0 (Some (l, r'))) (2 ^ Suc j)) (p + 2 ^ j)"
proof -
  have wf': "wf_node j r'" using assms by (simp add: alloc_spec_def)
  have bl: "block (p + 2 ^ j, q) = up j (block (p, q))"
    using block_up [of j p q] by (simp add: add.commute)
  have "avail j l \<inter> up j (block (p, q)) = {}" by (rule up_disjoint [OF avail_bound [OF assms(1)]])
  moreover have "up j (avail j r - block (p, q)) = up j (avail j r) - up j (block (p, q))"
    by (auto simp: mem_up)
  moreover have "block_size q dvd 2 ^ j"
    using assms(3) by (intro block_size_dvd) (simp add: alloc_spec_def)
  moreover have "up2 j (insert (p, q) (live j r)) = insert (p + 2 ^ j, q) (up2 j (live j r))"
    by (simp add: add.commute)
  ultimately show ?thesis
    using assms(3) n update_wf [OF assms(1) wf', of m] unfolding alloc_spec_def bl by auto
qed

lemma node_alloc_spec:
  assumes "k < 64" "wf_node k n" "0 < q" "q \<le> max_available n"
  shows "\<exists>n' p. node_alloc n q (2 ^ k) = Some (n', Inr p) \<and> alloc_spec k n q n' p"
  using assms
proof (induction k arbitrary: n)
  case 0
  then have "max_available n = 1" "q = 1" using wf_max_le [of 0 n] by auto
  with 0 have "n = Node 1 0 None" by (cases n) auto
  with 0 \<open>q = 1\<close> show ?case
    by (subst node_alloc.simps) (simp add: alloc_spec_def block_def block_size_def)
next
  case (Suc j)
  have m: "max_available n \<noteq> 0" using Suc.prems by simp
  show ?case
  proof (cases "2 ^ j < q")
    case True
    with node_alloc_full [OF Suc.prems(2) Suc.prems(4)]
    have res: "node_alloc n q (2 ^ Suc j) = Some (Node 0 q (children n), Inr 0)"
      and full: "max_available n = 2 ^ Suc j" by auto
    have bq: "block_size q = 2 ^ Suc j"
      using True Suc.prems(4) full by (intro block_size_eq) auto
    have "block (0, q) = {0..<2 ^ Suc j}" using bq by (simp add: block_def)
    moreover have "q = 0 \<or> 2 ^ Suc j div 2 < q \<and> q \<le> 2 ^ Suc j"
      using True Suc.prems(4) full by simp
    note wf_take [OF Suc.prems(2) full this]
    ultimately have "alloc_spec (Suc j) n q (Node 0 q (children n)) 0"
      using wf_full [OF Suc.prems(2) full] Suc.prems(3) bq by (simp add: alloc_spec_def)
    with res show ?thesis by blast
  next
    case False
    obtain l r where kids: "get_children (children n) (2 ^ Suc j) = (l, r)" by fastforce
    note ch = get_children_wf [OF Suc.prems(2) m kids]
    have or: "q \<le> max_available l \<or> q \<le> max_available r"
      using merged_ge [OF ch(1,2)] Suc.prems(4) ch(3) False by simp
    have ovf: "(2::nat) ^ Suc j < usize_end"
      using power_strict_increasing [of "Suc j" 64 "2::nat"] Suc.prems(1) by simp
    show ?thesis
    proof (cases "(max_available l \<ge> q \<and> max_available l \<le> max_available r) \<or> max_available r < q")
      case True
      then have "q \<le> max_available l" using or by auto
      then obtain l' p where l': "node_alloc l q (2 ^ j) = Some (l', Inr p)" "alloc_spec j l q l' p"
        using Suc.IH [of l] Suc.prems ch(1) by auto
      have "node_alloc n q (2 ^ Suc j) =
          Some (update (Node (max_available n) 0 (Some (l', r))) (2 ^ Suc j), Inr p)"
        using True \<open>q \<le> max_available l\<close> False Suc.prems(4) kids l'(1) ch(4)
        by (subst node_alloc.simps) (simp add: Let_def)
      with alloc_spec_left [OF ch(1,2) l'(2) ch(5,6)] show ?thesis by blast
    next
      case notleft: False
      then have "q \<le> max_available r" by auto
      then obtain r' p where r': "node_alloc r q (2 ^ j) = Some (r', Inr p)" "alloc_spec j r q r' p"
        using Suc.IH [of r] Suc.prems ch(2) by auto
      have "p + 2 ^ j \<le> 2 ^ Suc j" using r'(2) by (simp add: alloc_spec_def)
      then have "p + 2 ^ j < usize_end" using ovf by linarith
      then have "node_alloc n q (2 ^ Suc j) =
          Some (update (Node (max_available n) 0 (Some (l, r'))) (2 ^ Suc j), Inr (p + 2 ^ j))"
        using notleft \<open>q \<le> max_available r\<close> False Suc.prems(4) kids r'(1) ch(4)
        by (subst node_alloc.simps) (auto simp: Let_def simp del: update.simps)
      with alloc_spec_right [OF ch(1,2) r'(2) ch(5,6)] show ?thesis by blast
    qed
  qed
qed


text \<open>The specification of one deallocation.\<close>

definition dealloc_spec :: "nat \<Rightarrow> node \<Rightarrow> nat \<Rightarrow> nat \<Rightarrow> node \<Rightarrow> bool" where
  "dealloc_spec k n p q n' \<longleftrightarrow> wf_node k n' \<and> avail k n' = avail k n \<union> block (p, q) \<and>
     live k n' = live k n - {(p, q)}"

lemma dealloc_spec_whole:
  assumes wf: "wf_node k n" and "allocated n \<noteq> 0" "live k n = {(p, q)}" "p = 0" "allocated n = q"
    "2 ^ k div 2 < q"
  shows "max_available n = 0 \<and> dealloc_spec k n p q (Node (2 ^ k) 0 (children n))"
proof -
  obtain m a cs where n: "n = Node m a cs" by (cases n)
  have "q \<le> 2 ^ k" using live_bound [OF wf, of p q] assms by simp
  then have bq: "block (p, q) = {0..<2 ^ k}"
    using assms(4,6) block_size_eq [of k q] by (simp add: block_def)
  show ?thesis
  proof (cases k)
    case 0
    then have "cs = None" "m = 0" using wf assms(2) n by auto
    with 0 n have "Node (2 ^ k) 0 (children n) = Node 1 0 None" "max_available n = 0"
      "avail k n = {}" by simp_all
    with 0 show ?thesis unfolding dealloc_spec_def bq assms(3) by simp
  next
    case (Suc j)
    have a: "a \<noteq> 0" using assms(2) n by simp
    show ?thesis
    proof (cases cs)
      case None
      with wf n Suc a have "m = 0" by simp
      moreover from None n Suc have "wf_node k (Node (2 ^ k) 0 (children n))"
        "avail k (Node (2 ^ k) 0 (children n)) = {0..<2 ^ k}"
        "live k (Node (2 ^ k) 0 (children n)) = {}" by simp_all
      moreover have "avail k n = {}" using \<open>m = 0\<close> None n Suc by simp
      ultimately show ?thesis unfolding dealloc_spec_def bq assms(3) using n by simp
    next
      case (Some c)
      obtain l r where c: "c = (l, r)" by (cases c)
      have k: "wf_node j l" "wf_node j r" "max_available l = 2 ^ j" "max_available r = 2 ^ j" "m = 0"
        using wf n Suc Some c a by simp_all
      have wf': "wf_node k (Node (2 ^ k) 0 (children n))"
        using k n Some c Suc by (simp add: merged_def)
      have "avail k n = {}" using k n Some c Suc by simp
      with wf_full [OF wf'] wf' k(5) n show ?thesis
        unfolding dealloc_spec_def bq assms(3) by simp
    qed
  qed
qed

lemma node_dealloc_spec:
  assumes "wf_node k n" "(p, q) \<in> live k n"
  shows "\<exists>n'. node_dealloc n p q (2 ^ k) = Some n' \<and> dealloc_spec k n p q n'"
  using assms
proof (induction k arbitrary: n p)
  case 0
  obtain m a cs where n: "n = Node m a cs" by (cases n)
  with 0 have "p = 0" "q = a" "a \<noteq> 0" by (auto split: if_splits)
  with dealloc_spec_whole [OF "0.prems"(1), of p q] n 0 show ?case
    by (subst node_dealloc.simps) auto
next
  case (Suc j)
  obtain m a cs where n: "n = Node m a cs" by (cases n)
  show ?case
  proof (cases "a = 0")
    case False
    then have pq: "p = 0" "q = a" "live (Suc j) n = {(p, q)}" using Suc.prems n by (cases cs; auto)+
    have "2 ^ j < q" using Suc.prems(1) n False pq by (cases cs) (auto simp: merged_def)
    with dealloc_spec_whole [OF Suc.prems(1), of p q] n False pq show ?thesis
      by (subst node_dealloc.simps) auto
  next
    case True
    with Suc.prems n obtain l r where cs: "cs = Some (l, r)" by (cases cs) auto
    have wf: "wf_node j l" "wf_node j r" using Suc.prems n cs by auto
    have ni: "live (Suc j) n = live j l \<union> up2 j (live j r)" using n cs True by simp
    have m: "m = 0 \<or> m = merged j l r" using Suc.prems n cs True by auto
    have ne: "live j l \<union> up2 j (live j r) \<noteq> {}" using Suc.prems ni by auto
    have mm: "m = merged j l r"
      using m Suc.prems n cs True ne wf_full [OF wf(1)] wf_full [OF wf(2)] by auto
    have av: "avail (Suc j) n = avail j l \<union> up j (avail j r)"
      using n cs mm wf_empty [OF wf(1)] wf_empty [OF wf(2)] by (auto simp: merged_def max_def split: if_splits)
    from Suc.prems(2) ni consider
      (left) "(p, q) \<in> live j l" | (right) "2 ^ j \<le> p" "(p - 2 ^ j, q) \<in> live j r"
      by (auto simp: mem_up2 simp del: image_eqI)
    then show ?thesis
    proof cases
      case left
      have q: "\<not> 2 ^ j < q" "p < 2 ^ j" using live_bound [OF wf(1) left] live_fst_bound [OF wf(1) left] by auto
      obtain l' where l': "node_dealloc l p q (2 ^ j) = Some l'" "dealloc_spec j l p q l'"
        using Suc.IH [OF wf(1) left] by blast
      have "node_dealloc n p q (2 ^ Suc j) = Some (update (Node m 0 (Some (l', r))) (2 ^ Suc j))"
        using q l'(1) n cs True by (subst node_dealloc.simps) (simp del: update.simps)
      moreover have "(p, q) \<notin> up2 j (live j r)" using q by (auto simp: mem_up2)
      ultimately show ?thesis
        using l'(2) ni av update_wf [of j l' r m] wf(2) by (auto simp: dealloc_spec_def)
    next
      case right
      let ?p = "p - 2 ^ j"
      have q: "\<not> 2 ^ j < q" using live_bound [OF wf(2) right(2)] by auto
      obtain r' where r': "node_dealloc r ?p q (2 ^ j) = Some r'" "dealloc_spec j r ?p q r'"
        using Suc.IH [OF wf(2) right(2)] by blast
      have "node_dealloc n p q (2 ^ Suc j) = Some (update (Node m 0 (Some (l, r'))) (2 ^ Suc j))"
        using q right(1) r'(1) n cs True by (subst node_dealloc.simps) (simp del: update.simps)
      moreover have "block (p, q) = up j (block (?p, q))" using block_up [of j ?p q] right(1) by simp
      moreover have "(p, q) \<notin> live j l"
        using live_fst_bound [OF wf(1), of p q] right(1) by auto
      moreover have "up2 j (live j r - {(?p, q)}) = up2 j (live j r) - {(p, q)}"
        using right(1) by (auto simp: mem_up2)
      ultimately show ?thesis
        using r'(2) ni av update_wf [of j l r' m] wf(1) by (auto simp: dealloc_spec_def)
    qed
  qed
qed

text \<open>Reserving a range that is still available takes exactly that range out.\<close>

definition reserve_spec :: "nat \<Rightarrow> node \<Rightarrow> nat \<Rightarrow> nat \<Rightarrow> node \<Rightarrow> bool" where
  "reserve_spec k n s e n' \<longleftrightarrow> wf_node k n' \<and> avail k n' = avail k n - {s..<e} \<and> live k n' = live k n"

lemma node_reserve_spec:
  assumes "wf_node k n" "s < e" "{s..<e} \<subseteq> avail k n"
  shows "\<exists>n'. node_reserve_range n s e (2 ^ k) = Some n' \<and> reserve_spec k n s e n'"
  using assms
proof (induction k arbitrary: n s e)
  case 0
  have "{s..<e} \<subseteq> {0..<1}" using avail_bound [OF "0.prems"(1)] "0.prems"(3) by simp
  from atLeastLessThan_subset_iff [OF this] have "e \<le> 1" using "0.prems"(2) by linarith
  then have "s = 0" "e = 1" using "0.prems"(2) by auto
  with 0 show ?case
    by (cases n; subst node_reserve_range.simps)
      (auto simp: reserve_spec_def split: if_splits)
next
  case (Suc j)
  have se: "e \<le> 2 ^ Suc j"
    using avail_bound [OF Suc.prems(1)] Suc.prems(2,3) by (meson atLeastLessThan_subset_iff
      le_trans not_le order.trans)
  have "avail (Suc j) n \<noteq> {}" using Suc.prems(2,3) by fastforce
  then have m: "max_available n \<noteq> 0" using wf_empty [OF Suc.prems(1)] by blast
  obtain l r where kids: "get_children (children n) (2 ^ Suc j) = (l, r)" by fastforce
  note ch = get_children_wf [OF Suc.prems(1) m kids]
  show ?case
  proof (cases "s = 0 \<and> e = 2 ^ Suc j")
    case True
    have "(2::nat) ^ Suc j \<le> max_available n"
      using max_available_complete [OF Suc.prems(1), of "Suc j" 0] Suc.prems(3) True by simp
    then have full: "max_available n = 2 ^ Suc j" using wf_max_le [OF Suc.prems(1)] by simp
    have "node_reserve_range n s e (2 ^ Suc j) = Some (Node 0 0 (children n))"
      using full True ch(4) by (subst node_reserve_range.simps) simp
    with wf_take [OF Suc.prems(1) full, of 0] wf_full [OF Suc.prems(1) full] True show ?thesis
      by (simp add: reserve_spec_def)
  next
    case False
    have al: "avail j l \<subseteq> {0..<2 ^ j}" by (rule avail_bound [OF ch(1)])
    have ar: "avail j r \<subseteq> {0..<2 ^ j}" by (rule avail_bound [OF ch(2)])
    have sub: "x \<in> avail j l \<union> up j (avail j r)" if "s \<le> x" "x < e" for x
      using Suc.prems(3) that ch(5) by auto
    define l' where "l' = (if s < 2 ^ j then the (node_reserve_range l s (min e (2 ^ j)) (2 ^ j)) else l)"
    define r' where "r' = (if e > 2 ^ j
      then the (node_reserve_range r (max s (2 ^ j) - 2 ^ j) (e - 2 ^ j) (2 ^ j)) else r)"
    have left: "wf_node j l'" "avail j l' = avail j l - {s..<e}" "live j l' = live j l"
      "(if s < 2 ^ j then node_reserve_range l s (min e (2 ^ j)) (2 ^ j) else Some l) = Some l'"
    proof -
      have "{s..<min e (2 ^ j)} \<subseteq> avail j l"
      proof
        fix x assume "x \<in> {s..<min e (2 ^ j)}"
        then show "x \<in> avail j l" using sub [of x] by (auto simp: mem_up)
      qed
      moreover have "avail j l - {s..<min e (2 ^ j)} = avail j l - {s..<e}" using al by auto
      moreover have "\<not> s < 2 ^ j \<Longrightarrow> avail j l - {s..<e} = avail j l" using al by auto
      ultimately show "wf_node j l'" "avail j l' = avail j l - {s..<e}" "live j l' = live j l"
        "(if s < 2 ^ j then node_reserve_range l s (min e (2 ^ j)) (2 ^ j) else Some l) = Some l'"
        using Suc.IH [OF ch(1), of s "min e (2 ^ j)"] ch(1) Suc.prems(2)
        by (auto simp: l'_def reserve_spec_def)
    qed
    have right: "wf_node j r'" "up j (avail j r') = up j (avail j r) - {s..<e}" "live j r' = live j r"
      "(if e > 2 ^ j then node_reserve_range r (max s (2 ^ j) - 2 ^ j) (e - 2 ^ j) (2 ^ j)
        else Some r) = Some r'"
    proof -
      have "{max s (2 ^ j) - 2 ^ j..<e - 2 ^ j} \<subseteq> avail j r"
      proof
        fix x assume "x \<in> {max s (2 ^ j) - 2 ^ j..<e - 2 ^ j}"
        then have "2 ^ j + x \<in> avail j l \<union> up j (avail j r)" by (intro sub) auto
        then show "x \<in> avail j r" using al by (auto simp: mem_up)
      qed
      moreover have "up j (avail j r - {max s (2 ^ j) - 2 ^ j..<e - 2 ^ j}) = up j (avail j r) - {s..<e}"
        by (auto simp: mem_up)
      moreover have "\<not> e > 2 ^ j \<Longrightarrow> up j (avail j r) - {s..<e} = up j (avail j r)"
        by (auto simp: mem_up)
      moreover have "2 ^ j < e \<Longrightarrow> max s (2 ^ j) - 2 ^ j < e - 2 ^ j" using Suc.prems(2) by auto
      ultimately have ih: "\<exists>n'. node_reserve_range r (max s (2 ^ j) - 2 ^ j) (e - 2 ^ j) (2 ^ j) = Some n' \<and>
          wf_node j n' \<and> up j (avail j n') = up j (avail j r) - {s..<e} \<and> live j n' = live j r"
        if "2 ^ j < e"
        using Suc.IH [OF ch(2), of "max s (2 ^ j) - 2 ^ j" "e - 2 ^ j"] that
        unfolding reserve_spec_def by metis
      have same: "up j (avail j r) - {s..<e} = up j (avail j r)" if "\<not> 2 ^ j < e"
        using that by (auto simp: mem_up)
      show "wf_node j r'" using ih ch(2) unfolding r'_def by (cases "2 ^ j < e") auto
      show "up j (avail j r') = up j (avail j r) - {s..<e}"
        using ih same unfolding r'_def by (cases "2 ^ j < e") auto
      show "live j r' = live j r" using ih unfolding r'_def by (cases "2 ^ j < e") auto
      show "(if e > 2 ^ j then node_reserve_range r (max s (2 ^ j) - 2 ^ j) (e - 2 ^ j) (2 ^ j)
          else Some r) = Some r'"
        using ih unfolding r'_def by (cases "2 ^ j < e") auto
    qed
    have "node_reserve_range n s e (2 ^ Suc j) =
        Some (update (Node (max_available n) 0 (Some (l', r'))) (2 ^ Suc j))"
      using False kids left(4) right(4) ch(4)
      by (subst node_reserve_range.simps) (auto simp add: Let_def simp del: update.simps)
    moreover have "reserve_spec (Suc j) n s e (update (Node (max_available n) 0 (Some (l', r'))) (2 ^ Suc j))"
      using update_wf [OF left(1) right(1), of "max_available n"] left right ch(5,6)
      by (auto simp: reserve_spec_def)
    ultimately show ?thesis by blast
  qed
qed

text \<open>A new tree offers exactly the first \<open>sz\<close> offsets.\<close>

lemma node_new_spec:
  "sz \<le> 2 ^ k \<Longrightarrow> \<exists>n. node_new sz (2 ^ k) = Some n \<and> wf_node k n \<and> avail k n = {0..<sz} \<and> live k n = {}"
proof (induction k arbitrary: sz)
  case 0
  then have "sz = 0 \<or> sz = 1" by auto
  then show ?case by (subst node_new.simps) auto
next
  case (Suc j)
  show ?case
  proof (cases "sz = 0 \<or> sz = 2 ^ Suc j")
    case True
    then show ?thesis by (subst node_new.simps) auto
  next
    case False
    obtain l where l: "node_new (min (2 ^ j) sz) (2 ^ j) = Some l" "wf_node j l"
      "avail j l = {0..<min (2 ^ j) sz}" "live j l = {}"
      using Suc.IH [of "min (2 ^ j) sz"] by auto
    obtain r where r: "node_new (sz - 2 ^ j) (2 ^ j) = Some r" "wf_node j r"
      "avail j r = {0..<sz - 2 ^ j}" "live j r = {}"
    proof -
      have "sz - 2 ^ j \<le> 2 ^ j" using Suc.prems unfolding power_Suc by linarith
      from Suc.IH [OF this] that show thesis by blast
    qed
    have "node_new sz (2 ^ Suc j) = Some (update (Node 0 0 (Some (l, r))) (2 ^ Suc j))"
      using False Suc.prems l(1) r(1) by (subst node_new.simps) (auto simp: Let_def simp del: update.simps)
    moreover have "{0..<min (2 ^ j) sz} \<union> up j {0..<sz - 2 ^ j} = {0..<sz}"
      by (auto simp: mem_up)
    ultimately show ?thesis using update_wf [OF l(2) r(2), of 0] l r by auto
  qed
qed


subsection \<open>The allocator over a range of addresses\<close>

definition shift_by :: "nat \<Rightarrow> nat set \<Rightarrow> nat set" where
  "shift_by o0 S = (\<lambda>x. o0 + x) ` S"

definition buddy_level :: "buddy_allocator \<Rightarrow> nat" where
  "buddy_level b = bit_count (root_node_size b - 1)"

definition buddy_free :: "buddy_allocator \<Rightarrow> usize set" where
  "buddy_free b = shift_by (range_start b) (avail (buddy_level b) (buddy_root b))"

definition buddy_live :: "buddy_allocator \<Rightarrow> (usize \<times> usize) set" where
  "buddy_live b = (\<lambda>(p, q). (range_start b + p, q)) ` live (buddy_level b) (buddy_root b)"

definition buddy_invar :: "buddy_allocator \<Rightarrow> bool" where
  "buddy_invar b \<longleftrightarrow> buddy_level b < 64 \<and> root_node_size b = 2 ^ buddy_level b \<and>
     wf_node (buddy_level b) (buddy_root b) \<and>
     range_start b \<le> range_end b \<and> range_end b < usize_end \<and>
     avail (buddy_level b) (buddy_root b) \<union> \<Union>(block ` live (buddy_level b) (buddy_root b))
       \<subseteq> {0..<range_end b - range_start b}"

lemma buddy_level_pow: "root_node_size b = 2 ^ k \<Longrightarrow> buddy_level b = k"
  by (simp add: buddy_level_def bit_count_power_pred [simplified])

text \<open>The request an allocation makes of the tree.\<close>

definition request :: "layout \<Rightarrow> nat" where
  "request l = max (lay_size l) (lay_align l)"

lemma request_pos: "layout_ok l \<Longrightarrow> 0 < request l"
  using layout_align_pos by (fastforce simp: request_def)

lemma shift_by_block:
  "block (a + p, q) = shift_by a (block (p, q))"
  by (simp add: block_def shift_by_def add_ac)

lemma shift_by_Diff: "shift_by a (S - T) = shift_by a S - shift_by a T"
  by (auto simp: shift_by_def)

lemma shift_by_Un: "shift_by a (S \<union> T) = shift_by a S \<union> shift_by a T"
  by (auto simp: shift_by_def)

lemma shift_by_mono: "S \<subseteq> T \<Longrightarrow> shift_by a S \<subseteq> shift_by a T"
  by (auto simp: shift_by_def)

lemma buddy_alloc_ok:
  assumes inv: "buddy_invar b" and l: "layout_ok l" and fits: "request l \<le> max_available (buddy_root b)"
  shows "\<exists>b' p. buddy_alloc b l = Some (b', Inr p) \<and> buddy_invar b' \<and>
    block (p, request l) \<subseteq> buddy_free b \<and> block_size (request l) dvd p - range_start b \<and>
    buddy_free b' = buddy_free b - block (p, request l) \<and>
    buddy_live b' = insert (p, request l) (buddy_live b) \<and>
    range_start b' = range_start b \<and> range_start b \<le> p"
proof -
  let ?k = "buddy_level b" and ?q = "request l"
  obtain n' p where n': "node_alloc (buddy_root b) ?q (2 ^ ?k) = Some (n', Inr p)"
      "alloc_spec ?k (buddy_root b) ?q n' p"
    using node_alloc_spec [of ?k "buddy_root b" ?q] inv request_pos [OF l] fits
    by (auto simp: buddy_invar_def)
  have sub: "block (p, ?q) \<subseteq> {0..<range_end b - range_start b}"
    using n'(2) inv by (auto simp: alloc_spec_def buddy_invar_def)
  have "p + (block_size ?q - 1) \<in> block (p, ?q)" by (simp add: block_def)
  then have "p + (block_size ?q - 1) < range_end b - range_start b" using sub by auto
  then have pe: "range_start b + p + ?q \<le> range_end b"
    using block_size_ge [of ?q] block_size_pos [of ?q] by linarith
  let ?b = "b\<lparr>buddy_root := n'\<rparr>"
  have res: "buddy_alloc b l = Some (?b, Inr (range_start b + p))"
    using n'(1) inv pe by (simp add: buddy_alloc_def buddy_invar_def request_def Let_def)
  have lev: "buddy_level ?b = ?k" by (simp add: buddy_level_def)
  have "buddy_invar ?b"
    using inv n'(2) sub by (auto simp: buddy_invar_def lev alloc_spec_def)
  moreover have "buddy_free ?b = buddy_free b - block (range_start b + p, ?q)"
    using n'(2) by (simp add: buddy_free_def lev alloc_spec_def shift_by_Diff shift_by_block)
  moreover have "block (range_start b + p, ?q) \<subseteq> buddy_free b"
    using n'(2) by (simp add: buddy_free_def alloc_spec_def shift_by_block shift_by_mono)
  moreover have "buddy_live ?b = insert (range_start b + p, ?q) (buddy_live b)"
    using n'(2) by (simp add: buddy_live_def lev alloc_spec_def)
  moreover have "block_size ?q dvd p" using n'(2) by (simp add: alloc_spec_def)
  ultimately show ?thesis using res by auto
qed

lemma buddy_alloc_fail:
  "max_available (buddy_root b) < request l \<Longrightarrow> buddy_alloc b l = Some (b, Inl AllocError)"
  by (simp add: buddy_alloc_def request_def node_alloc_fail Let_def)

lemma buddy_alloc_cases:
  assumes "buddy_invar b" "layout_ok l" "buddy_alloc b l = Some (b', r)"
  obtains (full) "b' = b" "r = Inl AllocError" "max_available (buddy_root b) < request l"
  | (fits) p where "r = Inr p" "buddy_invar b'" "block (p, request l) \<subseteq> buddy_free b"
      "block_size (request l) dvd p - range_start b"
      "buddy_free b' = buddy_free b - block (p, request l)"
      "buddy_live b' = insert (p, request l) (buddy_live b)"
      "range_start b' = range_start b" "range_start b \<le> p"
  using assms buddy_alloc_fail [of b l] buddy_alloc_ok [of b l]
  by (cases "request l \<le> max_available (buddy_root b)") fastforce+

lemma lay_block: "{p..<p + lay_size l} \<subseteq> block (p, request l)"
  using block_size_ge [of "request l"] by (auto simp: block_def request_def)

interpretation buddy_ra: range_allocator buddy_alloc buddy_invar buddy_free
proof unfold_locales
  fix h l h' r
  assume a: "buddy_invar h" "layout_ok l" "buddy_alloc h l = Some (h', r)"
  from a show "buddy_invar h'" by (cases rule: buddy_alloc_cases) (use a(1) in auto)
next
  fix h l h' e
  assume a: "buddy_invar h" "layout_ok l" "buddy_alloc h l = Some (h', Inl e)"
  show "buddy_free h' = buddy_free h" using a by (cases rule: buddy_alloc_cases) auto
next
  fix h l h' p
  assume a: "buddy_invar h" "layout_ok l" "buddy_alloc h l = Some (h', Inr p)"
  show "{p..<p + lay_size l} \<subseteq> buddy_free h \<and> buddy_free h' \<subseteq> buddy_free h - {p..<p + lay_size l}"
    using a by (cases rule: buddy_alloc_cases) (use lay_block [of p l] in auto)
qed

lemma buddy_dealloc_ok:
  assumes inv: "buddy_invar b" and live: "(p, request l) \<in> buddy_live b"
  shows "\<exists>b'. buddy_dealloc b p l = Some b' \<and> buddy_invar b' \<and>
    buddy_free b' = buddy_free b \<union> block (p, request l) \<and>
    buddy_live b' = buddy_live b - {(p, request l)} \<and> range_start b' = range_start b"
proof -
  let ?k = "buddy_level b" and ?q = "request l"
  obtain p0 where p: "p = range_start b + p0" "(p0, ?q) \<in> live ?k (buddy_root b)"
    using live by (auto simp: buddy_live_def)
  obtain n' where n': "node_dealloc (buddy_root b) p0 ?q (2 ^ ?k) = Some n'"
      "dealloc_spec ?k (buddy_root b) p0 ?q n'"
    using node_dealloc_spec [of ?k "buddy_root b" p0 ?q] inv p by (auto simp: buddy_invar_def)
  let ?b = "b\<lparr>buddy_root := n'\<rparr>"
  have lev: "buddy_level ?b = ?k" by (simp add: buddy_level_def)
  have res: "buddy_dealloc b p l = Some ?b"
    using n'(1) inv p by (simp add: buddy_dealloc_def buddy_invar_def request_def Let_def)
  have "block (p0, ?q) \<subseteq> \<Union>(block ` live ?k (buddy_root b))" using p by blast
  then have "buddy_invar ?b"
    using inv n'(2) by (auto simp: buddy_invar_def lev dealloc_spec_def)
  moreover have "buddy_free ?b = buddy_free b \<union> block (p, ?q)"
    using n'(2) p by (simp add: buddy_free_def lev dealloc_spec_def shift_by_Un shift_by_block)
  moreover have "buddy_live ?b = buddy_live b - {(p, ?q)}"
    using n'(2) p(1) by (auto simp: buddy_live_def lev dealloc_spec_def)
  ultimately show ?thesis using res by auto
qed

lemma buddy_live_disjoint:
  assumes "buddy_invar b" "x \<in> buddy_live b" "y \<in> buddy_live b" "x \<noteq> y"
  shows "block x \<inter> block y = {}"
proof -
  obtain p q p' q' where xy: "x = (range_start b + p, q)" "y = (range_start b + p', q')"
    "(p, q) \<in> live (buddy_level b) (buddy_root b)" "(p', q') \<in> live (buddy_level b) (buddy_root b)"
    using assms(2,3) by (auto simp: buddy_live_def)
  have "(p, q) \<noteq> (p', q')" using assms(4) xy by auto
  moreover have "wf_node (buddy_level b) (buddy_root b)" using assms(1) by (simp add: buddy_invar_def)
  ultimately have "block (p, q) \<inter> block (p', q') = {}" using live_disjoint xy(3,4) by blast
  then show ?thesis unfolding xy shift_by_block by (auto simp: shift_by_def)
qed

lemma buddy_live_bound:
  assumes "buddy_invar b" "x \<in> buddy_live b" "w \<in> block x"
  shows "range_start b \<le> w \<and> w < range_end b"
proof -
  obtain p q where x: "x = (range_start b + p, q)" "(p, q) \<in> live (buddy_level b) (buddy_root b)"
    using assms(2) by (auto simp: buddy_live_def)
  then obtain v where v: "w = range_start b + v" "v \<in> block (p, q)"
    using assms(3) unfolding x(1) shift_by_block by (auto simp: shift_by_def)
  have "block (p, q) \<subseteq> {0..<range_end b - range_start b}"
    using assms(1) x(2) by (auto simp: buddy_invar_def)
  then have "v < range_end b - range_start b" using v(2) by auto
  with v(1) show ?thesis by simp
qed

lemma buddy_live_not_free:
  assumes "buddy_invar b" "x \<in> buddy_live b"
  shows "block x \<inter> buddy_free b = {}"
proof -
  obtain p q where x: "x = (range_start b + p, q)" "(p, q) \<in> live (buddy_level b) (buddy_root b)"
    using assms(2) by (auto simp: buddy_live_def)
  have "block (p, q) \<inter> avail (buddy_level b) (buddy_root b) = {}"
    using live_not_avail x(2) assms(1) by (auto simp: buddy_invar_def)
  then show ?thesis unfolding x(1) shift_by_block buddy_free_def by (auto simp: shift_by_def)
qed

lemma buddy_new_ok:
  assumes "s \<le> e" "e < usize_end" "e - s \<le> 2 ^ 63"
  shows "\<exists>b. buddy_new s e = Some b \<and> buddy_invar b \<and> buddy_free b = {s..<e} \<and> buddy_live b = {} \<and>
    range_start b = s \<and> range_end b = e"
proof -
  let ?n = "e - s"
  have "\<exists>k. next_power_of_two ?n = Some (2 ^ k) \<and> ?n \<le> 2 ^ k \<and> k < 64"
  proof (cases "?n \<le> 1")
    case True
    then show ?thesis by (intro exI [of _ 0]) (simp add: next_power_of_two_def)
  next
    case False
    let ?k = "bit_count (?n - 1)"
    have "(2::nat) ^ ?k \<le> 2 * (?n - 1)" using False by (intro bit_count_lower) simp
    then have "(2::nat) ^ ?k < 2 ^ 64" using assms(3) False by simp
    moreover from this have "?k < 64" by (rule power_less_imp_less_exp [rotated]) simp
    moreover have "?n \<le> 2 ^ ?k" using bit_count_upper [of "?n - 1"] by linarith
    ultimately show ?thesis using False
      by (intro exI [of _ ?k]) (simp add: next_power_of_two_def Let_def)
  qed
  then obtain k where k: "next_power_of_two ?n = Some (2 ^ k)" "?n \<le> 2 ^ k" "k < 64" by blast
  obtain n where n: "node_new ?n (2 ^ k) = Some n" "wf_node k n" "avail k n = {0..<?n}" "live k n = {}"
    using node_new_spec [OF k(2)] by blast
  let ?b = "\<lparr>buddy_root = n, root_node_size = 2 ^ k, range_start = s, range_end = e\<rparr>"
  have lev: "buddy_level ?b = k" by (rule buddy_level_pow) simp
  have "buddy_new s e = Some ?b" using assms k n by (simp add: buddy_new_def)
  moreover have "buddy_invar ?b" using assms k n by (simp add: buddy_invar_def lev)
  moreover have "buddy_free ?b = {s..<e}"
    using assms n by (simp add: buddy_free_def lev shift_by_def)
  moreover have "buddy_live ?b = {}" using n by (simp add: buddy_live_def lev)
  ultimately show ?thesis by auto
qed

end
