(* ===== verification/Buddy_Session.thy ===== *)
theory Buddy_Session
  imports Buddy_Correct
begin

text \<open>
  The buddy allocator in use: it keeps the contract of a freeing allocator, so every run of
  requests and of releases of what is held goes through, without overlap and without loss.
  The kernel heap (\<open>kernel/src/heap.rs\<close>) and the heap of a process
  (\<open>kernel/src/process.rs\<close>) rest on these facts.
\<close>

subsection \<open>The contract\<close>

interpretation buddy_fa: freeing_allocator buddy_alloc buddy_invar buddy_free
  buddy_dealloc buddy_live request block
proof unfold_locales
  fix h l
  assume "buddy_invar h" "layout_ok l"
  then show "\<exists>h' r. buddy_alloc h l = Some (h', r)"
    using buddy_alloc_fail [of h l] buddy_alloc_ok [of h l]
    by (cases "request l \<le> max_available (buddy_root h)") auto
next
  fix h l h' e
  assume a: "buddy_invar h" "layout_ok l" "buddy_alloc h l = Some (h', Inl e)"
  show "buddy_live h' = buddy_live h" using a by (cases rule: buddy_alloc_cases) auto
next
  fix h l h' p
  assume a: "buddy_invar h" "layout_ok l" "buddy_alloc h l = Some (h', Inr p)"
  show "buddy_live h' = insert (p, request l) (buddy_live h) \<and>
      block (p, request l) \<subseteq> buddy_free h \<and> buddy_free h' = buddy_free h - block (p, request l)"
    using a by (cases rule: buddy_alloc_cases) auto
next
  fix h l p
  assume "buddy_invar h" "layout_ok l" "(p, request l) \<in> buddy_live h"
  then show "\<exists>h'. buddy_dealloc h p l = Some h' \<and> buddy_invar h' \<and>
      buddy_live h' = buddy_live h - {(p, request l)} \<and>
      buddy_free h' = buddy_free h \<union> block (p, request l)"
    using buddy_dealloc_ok [of h p l] by blast
qed

lemma buddy_same_range:
  assumes "buddy_alloc b l = Some (b', r)"
  shows "range_start b' = range_start b \<and> range_end b' = range_end b"
proof -
  obtain root res where n: "node_alloc (buddy_root b) (max (lay_size l) (lay_align l)) (root_node_size b) = Some (root, res)"
    using assms by (auto simp: buddy_alloc_def run_Some Let_def)
  with assms show ?thesis
    by (cases res) (auto simp: buddy_alloc_def run_Some Let_def split: if_split_asm)
qed

lemma buddy_dealloc_same_range:
  "buddy_dealloc b p l = Some b' \<Longrightarrow> range_start b' = range_start b \<and> range_end b' = range_end b"
  by (auto simp: buddy_dealloc_def run_Some Let_def)

lemma buddy_tidy_new:
  assumes "buddy_new s e = Some b" "e < usize_end" "e - s \<le> 2 ^ 63"
  shows "buddy_fa.tidy b \<and> buddy_fa.owned b = {s..<e}"
proof -
  have "s \<le> e" using assms(1) by (auto simp: buddy_new_def run_Some)
  then obtain b' where "buddy_new s e = Some b'" "buddy_invar b'" "buddy_free b' = {s..<e}" "buddy_live b' = {}"
    using buddy_new_ok assms(2,3) by blast
  then show ?thesis using assms(1)
    by (simp add: buddy_fa.tidy_def buddy_fa.owned_def disjoint_family_on_def)
qed

subsection \<open>Reserving what the allocator must not hand out\<close>

lemma buddy_reserve_ok:
  assumes inv: "buddy_invar b" and se: "s < e" and free: "{s..<e} \<subseteq> buddy_free b"
  shows "\<exists>b'. buddy_reserve_range b s e = Some b' \<and> buddy_invar b' \<and>
    buddy_free b' = buddy_free b - {s..<e} \<and> buddy_live b' = buddy_live b"
proof -
  let ?k = "buddy_level b" and ?o = "range_start b"
  have lo: "?o \<le> x \<and> x - ?o \<in> avail ?k (buddy_root b)" if "x \<in> {s..<e}" for x
    using free that by (auto simp: buddy_free_def shift_by_def)
  have os: "?o \<le> s" using lo [of s] se by simp
  have av: "{s - ?o..<e - ?o} \<subseteq> avail ?k (buddy_root b)"
  proof
    fix x assume "x \<in> {s - ?o..<e - ?o}"
    then have "?o + x \<in> {s..<e}" using os by auto
    from lo [OF this] show "x \<in> avail ?k (buddy_root b)" by simp
  qed
  have "e - 1 - ?o \<in> avail ?k (buddy_root b)" using lo [of "e - 1"] se by auto
  moreover have "avail ?k (buddy_root b) \<subseteq> {0..<range_end b - ?o}"
    using inv by (simp add: buddy_invar_def)
  ultimately have "e - 1 - ?o < range_end b - ?o" by auto
  then have e: "e \<le> range_end b" using se os by linarith
  have so: "s - ?o < e - ?o" using se os by linarith
  have wf: "wf_node ?k (buddy_root b)" using inv by (simp add: buddy_invar_def)
  obtain n where n: "node_reserve_range (buddy_root b) (s - ?o) (e - ?o) (2 ^ ?k) = Some n"
      "reserve_spec ?k (buddy_root b) (s - ?o) (e - ?o) n"
    using node_reserve_spec [OF wf so av] by blast
  let ?b = "b\<lparr>buddy_root := n\<rparr>"
  have lev: "buddy_level ?b = ?k" by (simp add: buddy_level_def)
  have "buddy_reserve_range b s e = Some ?b"
    using n(1) os e se inv by (simp add: buddy_reserve_range_def buddy_invar_def)
  moreover have "buddy_invar ?b"
    using inv n(2) by (auto simp: buddy_invar_def lev reserve_spec_def)
  moreover have "buddy_free ?b = buddy_free b - {s..<e}"
  proof -
    have "shift_by ?o {s - ?o..<e - ?o} = {s..<e}" using os se by (simp add: shift_by_def)
    then show ?thesis using n(2) by (simp add: buddy_free_def lev reserve_spec_def shift_by_Diff)
  qed
  moreover have "buddy_live ?b = buddy_live b" using n(2) by (simp add: buddy_live_def lev reserve_spec_def)
  ultimately show ?thesis by blast
qed

text \<open>
  \<open>initialize_heap\<close>: the allocator is built over the one range of memory the device tree gives,
  and the reserved ranges (of the device tree, of the kernel image, of the tree itself) are
  taken out of it one by one.  The two lists are what \<open>heap/available.rs\<close> collects.
\<close>

fun reserve_all :: "buddy_allocator \<Rightarrow> (usize \<times> usize) list \<Rightarrow> buddy_allocator run" where
  "reserve_all b [] = Some b"
| "reserve_all b ((s, e) # rs) = do { b' \<leftarrow> buddy_reserve_range b s e; reserve_all b' rs }"

definition initialize_heap ::
  "(usize \<times> usize) list \<Rightarrow> (usize \<times> usize) list \<Rightarrow> buddy_allocator run" where
  "initialize_heap available reserved =
     (case available of
        [(s, e)] \<Rightarrow> do { b \<leftarrow> buddy_new s e; reserve_all b reserved }
      | _ \<Rightarrow> None)"

definition ranges :: "(usize \<times> usize) list \<Rightarrow> usize set" where
  "ranges rs = (\<Union>(s, e) \<in> set rs. {s..<e})"

lemma ranges_simps [simp]:
  "ranges [] = {}" "ranges ((s, e) # rs) = {s..<e} \<union> ranges rs"
  by (auto simp: ranges_def)

fun separate :: "(usize \<times> usize) list \<Rightarrow> bool" where
  "separate [] = True"
| "separate ((s, e) # rs) \<longleftrightarrow>
     s < e \<and> list_all (\<lambda>(s', e'). e \<le> s' \<or> e' \<le> s) rs \<and> separate rs"

lemma separate_apart: "separate ((s, e) # rs) \<Longrightarrow> {s..<e} \<inter> ranges rs = {}"
  by (fastforce simp: ranges_def list_all_iff)

lemma reserve_all_ok:
  "buddy_invar b \<Longrightarrow> separate rs \<Longrightarrow> ranges rs \<subseteq> buddy_free b \<Longrightarrow>
   \<exists>b'. reserve_all b rs = Some b' \<and> buddy_invar b' \<and> buddy_free b' = buddy_free b - ranges rs \<and>
     buddy_live b' = buddy_live b"
proof (induction rs arbitrary: b)
  case (Cons r rs)
  obtain s e where r: "r = (s, e)" by fastforce
  obtain b1 where b1: "buddy_reserve_range b s e = Some b1" "buddy_invar b1"
    "buddy_free b1 = buddy_free b - {s..<e}" "buddy_live b1 = buddy_live b"
    using buddy_reserve_ok [of b s e] Cons.prems r by auto
  have "ranges rs \<subseteq> buddy_free b1"
    using Cons.prems r b1(3) separate_apart [of s e rs] by auto
  then obtain b' where b': "reserve_all b1 rs = Some b'" "buddy_invar b'"
    "buddy_free b' = buddy_free b1 - ranges rs" "buddy_live b' = buddy_live b1"
    using Cons.IH [OF b1(2)] Cons.prems r by auto
  with b1 r show ?case by auto
qed simp

lemma initialize_heap_ok:
  assumes "s \<le> e" "e < usize_end" "e - s \<le> 2 ^ 63" "separate rs" "ranges rs \<subseteq> {s..<e}"
  shows "\<exists>b. initialize_heap [(s, e)] rs = Some b \<and> buddy_invar b \<and>
    buddy_free b = {s..<e} - ranges rs \<and> buddy_live b = {}"
proof -
  obtain b0 where b0: "buddy_new s e = Some b0" "buddy_invar b0" "buddy_free b0 = {s..<e}" "buddy_live b0 = {}"
    using buddy_new_ok [OF assms(1-3)] by blast
  from reserve_all_ok [OF b0(2) assms(4)] assms(5) b0 show ?thesis
    by (simp add: initialize_heap_def)
qed

subsection \<open>Properties\<close>

text \<open>
  C2: \<open>BuddyAllocator::alloc\<close> finds memory whenever there is any: it returns an address exactly
  when some free block, as large as the request rounded up to a power of two and aligned to it
  within the allocator's range, exists; otherwise it reports \<open>AllocError\<close> and changes nothing.
\<close>

theorem buddy_alloc_complete:
  assumes "buddy_invar b" "layout_ok l"
  shows "if \<exists>p \<ge> range_start b. block_size (request l) dvd p - range_start b \<and>
            block (p, request l) \<subseteq> buddy_free b
    then \<exists>b' p. buddy_alloc b l = Some (b', Inr p) \<and> block (p, request l) \<subseteq> buddy_free b
    else buddy_alloc b l = Some (b, Inl AllocError)"
proof (cases "request l \<le> max_available (buddy_root b)")
  case True
  from buddy_alloc_ok [OF assms True] show ?thesis by auto
next
  case False
  have "\<not> (p \<ge> range_start b \<and> block_size (request l) dvd p - range_start b \<and>
      block (p, request l) \<subseteq> buddy_free b)" for p
  proof
    assume p: "p \<ge> range_start b \<and> block_size (request l) dvd p - range_start b \<and>
      block (p, request l) \<subseteq> buddy_free b"
    obtain i where i: "block_size (request l) = 2 ^ i" using block_size_power by blast
    let ?a = "avail (buddy_level b) (buddy_root b)"
    have "{p - range_start b..<p - range_start b + 2 ^ i} \<subseteq> ?a"
    proof
      fix x assume "x \<in> {p - range_start b..<p - range_start b + 2 ^ i}"
      then have "range_start b + x \<in> block (p, request l)" using p i by (auto simp: block_def)
      then show "x \<in> ?a" using p by (auto simp: buddy_free_def shift_by_def)
    qed
    moreover have "wf_node (buddy_level b) (buddy_root b)" "2 ^ i dvd p - range_start b"
      using assms(1) p i by (auto simp: buddy_invar_def)
    ultimately have "2 ^ i \<le> max_available (buddy_root b)"
      using max_available_complete by blast
    with False block_size_ge [of "request l"] i show False by simp
  qed
  moreover have "buddy_alloc b l = Some (b, Inl AllocError)"
    using False by (intro buddy_alloc_fail) simp
  ultimately show ?thesis by auto
qed


text \<open>A heap of sixteen bytes whose first four are reserved, and two allocations on it.\<close>

abbreviation small_heap :: buddy_allocator where
  "small_heap \<equiv> \<lparr>buddy_root = Node 8 0 (Some (Node 4 0 (Some (Node 0 0 None, Node 4 0 None)),
     Node 8 0 None)), root_node_size = 16, range_start = 64, range_end = 80\<rparr>"

lemma small_heap_eq: "initialize_heap [(64, 80)] [(64, 68)] = Some small_heap"
  by code_simp

lemma small_alloc_1: "buddy_alloc small_heap \<lparr>lay_size = 3, lay_align = 1\<rparr> =
  Some (\<lparr>buddy_root = Node 8 0 (Some (Node 0 0 (Some (Node 0 0 None, Node 0 3 None)),
     Node 8 0 None)), root_node_size = 16, range_start = 64, range_end = 80\<rparr>, Inr 68)"
  by code_simp

lemma small_dealloc_1: "buddy_dealloc \<lparr>buddy_root = Node 8 0 (Some (Node 0 0 (Some (Node 0 0 None, Node 0 3 None)),
     Node 8 0 None)), root_node_size = 16, range_start = 64, range_end = 80\<rparr> 68
   \<lparr>lay_size = 3, lay_align = 1\<rparr> = Some small_heap"
  by code_simp

lemma small_layout: "layout_ok \<lparr>lay_size = 3, lay_align = 1\<rparr>"
  by code_simp

lemma small_live: "(68, 3) \<in> buddy_live \<lparr>buddy_root = Node 8 0 (Some (Node 0 0 (Some (Node 0 0 None, Node 0 3 None)),
     Node 8 0 None)), root_node_size = 16, range_start = 64, range_end = 80\<rparr>"
    (is "_ \<in> buddy_live ?b")
proof -
  have "buddy_level ?b = Suc (Suc (Suc (Suc 0)))" by code_simp
  then show ?thesis by (simp add: buddy_live_def)
qed

lemma small_heap_invar: "buddy_invar small_heap"
  using initialize_heap_ok [of 64 80 "[(64, 68)]"] small_heap_eq by auto

theorem buddy_alloc_complete_witness:
  "buddy_alloc small_heap \<lparr>lay_size = 9, lay_align = 1\<rparr> = Some (small_heap, Inl AllocError) \<or>
   (\<exists>b' p. buddy_alloc small_heap \<lparr>lay_size = 9, lay_align = 1\<rparr> = Some (b', Inr p))"
  using buddy_alloc_complete [OF small_heap_invar, of "\<lparr>lay_size = 9, lay_align = 1\<rparr>"]
  by (auto simp: layout_ok_def is_power_of_two_def split: if_splits)

end
