(* ===== verification/Page_Entry.thy ===== *)
theory Page_Entry
  imports Memory_Layout
begin

text \<open>
  The entries of a page table as the machine reads them (\<open>kernel/src/page/entry.rs\<close>): 64 bits
  with the physical page number from bit 10 on and the flags in the lowest byte.
\<close>

subsection \<open>Flags\<close>

datatype page_flags = PageFlags (flag_bits: u64)

definition PAGE_V :: u64 where "PAGE_V = push_bit 0 1"
definition PAGE_R :: u64 where "PAGE_R = push_bit 1 1"
definition PAGE_W :: u64 where "PAGE_W = push_bit 2 1"
definition PAGE_X :: u64 where "PAGE_X = push_bit 3 1"
definition PAGE_U :: u64 where "PAGE_U = push_bit 4 1"

definition flags_readonly :: page_flags where
  "flags_readonly = PageFlags PAGE_R"

definition flags_read_write :: page_flags where
  "flags_read_write = PageFlags (PAGE_R OR PAGE_W)"

definition flags_executable :: page_flags where
  "flags_executable = PageFlags (PAGE_R OR PAGE_X)"

definition flags_read_write_execute :: page_flags where
  "flags_read_write_execute = PageFlags (PAGE_R OR PAGE_W OR PAGE_X)"

definition flags_user :: "page_flags \<Rightarrow> page_flags" where
  "flags_user f = PageFlags (flag_bits f OR PAGE_U)"

definition is_writable :: "page_flags \<Rightarrow> bool" where
  "is_writable f \<longleftrightarrow> flag_bits f AND PAGE_W \<noteq> 0"

text \<open>The letters a flag set is printed as.\<close>

definition fmt_flags :: "page_flags \<Rightarrow> string" where
  "fmt_flags f =
     (if flag_bits f = 0 then ''0''
      else (if flag_bits f AND PAGE_V \<noteq> 0 then ''V'' else []) @
           (if flag_bits f AND PAGE_R \<noteq> 0 then ''R'' else []) @
           (if flag_bits f AND PAGE_W \<noteq> 0 then ''W'' else []) @
           (if flag_bits f AND PAGE_X \<noteq> 0 then ''X'' else []) @
           (if flag_bits f AND PAGE_U \<noteq> 0 then ''U'' else []))"

subsection \<open>Entries\<close>

datatype page_table_entry = PageTableEntry (pte_bits: u64)

text \<open>An indirect entry is unpacked to the kernel's pointer to the table.\<close>

datatype pte_unpacked = UnpInvalid | UnpIndirect usize | UnpLeaf page_flags usize

definition pte_invalid :: page_table_entry where
  "pte_invalid = PageTableEntry 0"

definition pte_indirect :: "usize \<Rightarrow> page_table_entry run" where
  "pte_indirect table = do {
     phys \<leftarrow> virt_to_phys table;
     Some (PageTableEntry (push_bit 10 (word_of_nat (phys div PAGE_SIZE)) OR PAGE_V)) }"

definition pte_leaf :: "usize \<Rightarrow> page_flags \<Rightarrow> page_table_entry" where
  "pte_leaf phys flags =
     PageTableEntry (push_bit 10 (word_of_nat (phys div PAGE_SIZE)) OR PAGE_V OR flag_bits flags)"

definition pte_is_valid :: "page_table_entry \<Rightarrow> bool" where
  "pte_is_valid e \<longleftrightarrow> pte_bits e AND PAGE_V \<noteq> 0"

definition pte_is_indirect :: "page_table_entry \<Rightarrow> bool" where
  "pte_is_indirect e \<longleftrightarrow> pte_is_valid e \<and> pte_bits e AND (PAGE_R OR PAGE_W OR PAGE_X) = 0"

definition physical_page_number :: "page_table_entry \<Rightarrow> usize run" where
  "physical_page_number e = do {
     ensure (pte_is_valid e);
     Some (unat (drop_bit 10 (pte_bits e))) }"

definition physical_page_pointer :: "page_table_entry \<Rightarrow> usize run" where
  "physical_page_pointer e = do {
     n \<leftarrow> physical_page_number e;
     umul n PAGE_SIZE }"

definition pte_unpack :: "page_table_entry \<Rightarrow> pte_unpacked run" where
  "pte_unpack e =
     (if \<not> pte_is_valid e then Some UnpInvalid
      else if pte_is_indirect e then do {
        p \<leftarrow> physical_page_pointer e;
        v \<leftarrow> phys_to_virt p;
        Some (UnpIndirect v) }
      else do {
        let flags = PageFlags (pte_bits e AND 0xFE);
        p \<leftarrow> physical_page_pointer e;
        Some (UnpLeaf flags p) })"

definition pte_take :: "page_table_entry \<Rightarrow> page_table_entry \<times> page_table_entry" where
  "pte_take e = (e, pte_invalid)"

subsection \<open>Reading back what was packed\<close>

lemma low_bits:
  fixes w c m :: u64
  assumes "take_bit 10 m = m"
  shows "(push_bit 10 w OR c) AND m = c AND m"
proof -
  have "(push_bit 10 w OR c) AND take_bit 10 m = c AND take_bit 10 m"
    by (rule bit_word_eqI) (auto simp: bit_simps)
  with assms show ?thesis by simp
qed

lemma high_bits:
  fixes w c :: u64
  assumes "take_bit 10 c = c" "unat w < 2 ^ 54"
  shows "drop_bit 10 (push_bit 10 w OR c) = w"
proof -
  have w: "take_bit 54 w = w"
    unfolding word_unat_eq_iff unsigned_take_bit_eq using assms(2) by (rule take_bit_nat_eq_self)
  have "drop_bit 10 (push_bit 10 w OR take_bit 10 c) = take_bit 54 w"
    by (rule bit_word_eqI) (auto simp: bit_simps)
  with assms(1) w show ?thesis by simp
qed

lemma flag_values [simp]:
  "PAGE_V = 1" "PAGE_R = 2" "PAGE_W = 4" "PAGE_X = 8" "PAGE_U = 16"
  by (simp_all add: PAGE_V_def PAGE_R_def PAGE_W_def PAGE_X_def PAGE_U_def)

text \<open>The flag sets the kernel builds.\<close>

definition kernel_flags :: "page_flags set" where
  "kernel_flags = (let base = {flags_readonly, flags_read_write, flags_executable,
     flags_read_write_execute} in base \<union> flags_user ` base)"

lemma kernel_flags_cases:
  "f \<in> kernel_flags \<Longrightarrow> flag_bits f \<in> {2, 6, 10, 14, 18, 22, 26, 30}"
  by (auto simp: kernel_flags_def flags_readonly_def flags_read_write_def flags_executable_def
    flags_read_write_execute_def flags_user_def)

lemma page_word:
  assumes "phys < 274877906944"
  shows "unat (word_of_nat (phys div 4096) :: u64) = phys div 4096"
  using assms unfolding unat_of_nat by (intro mod_less) (simp add: less_mult_imp_div_less)

lemma unpack_leaf:
  assumes "phys < 274877906944" "4096 dvd phys" "f \<in> kernel_flags"
  shows "pte_unpack (pte_leaf phys f) = Some (UnpLeaf f phys)"
proof -
  let ?w = "word_of_nat (phys div 4096) :: u64"
  have w: "unat ?w = phys div 4096" by (rule page_word [OF assms(1)])
  have lt: "unat ?w < 2 ^ 54" using w assms(1) by (simp add: less_mult_imp_div_less)
  define c where "c = (1 :: u64) OR flag_bits f"
  have cs: "c \<in> {3, 7, 11, 15, 19, 23, 27, 31}" and fc: "c AND 0xFE = flag_bits f"
    using kernel_flags_cases [OF assms(3)] by (auto simp: c_def)
  have e: "pte_leaf phys f = PageTableEntry (push_bit 10 ?w OR c)"
    by (simp add: pte_leaf_def c_def or.assoc)
  have c10: "take_bit 10 c = c" using cs by (auto simp: take_bit_eq_mask mask_eq_exp_minus_1)
  have low: "(push_bit 10 ?w OR c) AND m = c AND m" if "m \<in> {1, 14, 0xFE}" for m
    by (rule low_bits) (use that in \<open>auto simp: take_bit_eq_mask mask_eq_exp_minus_1\<close>)
  have "c AND 1 \<noteq> 0" "c AND 14 \<noteq> 0" using cs by auto
  then have v: "pte_is_valid (pte_leaf phys f)" "\<not> pte_is_indirect (pte_leaf phys f)"
    using low [of 1] low [of 14] by (simp_all add: pte_is_valid_def pte_is_indirect_def e)
  have "physical_page_pointer (pte_leaf phys f) = Some phys"
    using v high_bits [OF c10 lt] w assms(1,2)
    by (simp add: physical_page_pointer_def physical_page_number_def e)
  then show ?thesis using v low [of "0xFE"] fc by (simp add: pte_unpack_def e)
qed

lemma unpack_indirect:
  assumes "p < 274877906944" "4096 dvd p"
  shows "\<exists>e. pte_indirect (p + upper_half) = Some e \<and> pte_unpack e = Some (UnpIndirect (p + upper_half))"
proof -
  let ?w = "word_of_nat (p div 4096) :: u64"
  have w: "unat ?w = p div 4096" by (rule page_word [OF assms(1)])
  have lt: "unat ?w < 2 ^ 54" using w assms(1) by (simp add: less_mult_imp_div_less)
  let ?e = "PageTableEntry (push_bit 10 ?w OR 1)"
  have e: "pte_indirect (p + upper_half) = Some ?e"
    by (simp add: pte_indirect_def virt_to_phys_upper [OF assms(1)])
  have low: "(push_bit 10 ?w OR 1) AND m = 1 AND m" if "m \<in> {1, 14}" for m
    by (rule low_bits) (use that in \<open>auto simp: take_bit_eq_mask mask_eq_exp_minus_1\<close>)
  have v: "pte_is_valid ?e" "pte_is_indirect ?e"
    using low [of 1] low [of 14] by (simp_all add: pte_is_valid_def pte_is_indirect_def)
  have "physical_page_pointer ?e = Some p"
    using v high_bits [OF _ lt, of 1] w assms
    by (simp add: physical_page_pointer_def physical_page_number_def take_bit_eq_mask mask_eq_exp_minus_1)
  then have "pte_unpack ?e = Some (UnpIndirect (p + upper_half))"
    using v assms(1) by (simp add: pte_unpack_def phys_to_virt_eq)
  with e show ?thesis by blast
qed

subsection \<open>Properties\<close>

text \<open>
  packing and unpacking page-table entries.  A leaf packed from a page-aligned physical
  address and any of the kernel's flag sets unpacks to that address and those flags, and an
  indirect entry packed from the kernel's pointer to a table unpacks to that pointer.
\<close>

theorem page_table_entry_roundtrip:
  assumes "p < snd PHYSICAL_ADDRESSES" "PAGE_SIZE dvd p" "f \<in> kernel_flags"
  shows "pte_unpack (pte_leaf p f) = Some (UnpLeaf f p) \<and>
    (\<exists>v e. phys_to_virt p = Some v \<and> pte_indirect v = Some e \<and> pte_unpack e = Some (UnpIndirect v))"
  using assms unpack_leaf [of p f] unpack_indirect [of p] by (auto simp: phys_to_virt_eq)

theorem page_table_entry_roundtrip_witness:
  "pte_unpack (pte_leaf 0x80201000 (flags_user flags_read_write)) =
     Some (UnpLeaf (flags_user flags_read_write) 0x80201000)"
  using page_table_entry_roundtrip [of "0x80201000" "flags_user flags_read_write"]
  by (simp add: kernel_flags_def)

end
