(* ===== verification/Page_Table.thy ===== *)
theory Page_Table
  imports Page_Entry
begin

text \<open>
  Page tables (\<open>kernel/src/page/table.rs\<close>).  A table owns the tables its indirect entries point to
  (the code boxes them and frees them when the entry is dropped), so a page table is a tree whose
  entries are those \<open>pte_unpack\<close> reads: a table is a list of 512 entries.  A panic of the code is
  \<^const>\<open>None\<close>; the level is 2 at the root, and going below level 0 is the panic of \<open>level - 1\<close>.
\<close>

subsection \<open>Tables\<close>

datatype pt_entry = Invalid | Indirect "pt_entry list" | Leaf page_flags usize

type_synonym page_table = "pt_entry list"

definition table_new :: page_table where
  "table_new = replicate PAGE_TABLE_ENTRY_COUNT Invalid"

definition entry_is_valid :: "pt_entry \<Rightarrow> bool" where
  "entry_is_valid e \<longleftrightarrow> e \<noteq> Invalid"

definition LEVEL_PAGE_SIZES :: "usize list" where
  "LEVEL_PAGE_SIZES = [PAGE_SIZE, LEVEL_1_PAGE_SIZE, LEVEL_2_PAGE_SIZE]"

definition level_page_size :: "usize \<Rightarrow> usize run" where
  "level_page_size level =
     (if level < length LEVEL_PAGE_SIZES then Some (LEVEL_PAGE_SIZES ! level) else None)"

definition vpn_segment :: "usize \<Rightarrow> usize \<Rightarrow> usize" where
  "vpn_segment virt level = drop_bit (12 + 9 * level) virt AND (push_bit 9 1 - 1)"

definition is_empty_range :: "usize range \<Rightarrow> bool" where
  "is_empty_range r \<longleftrightarrow> \<not> fst r < snd r"

definition align_by :: "usize range \<Rightarrow> usize \<Rightarrow> (usize range \<times> usize range \<times> usize range) run" where
  "align_by r align = do {
     aligned_start \<leftarrow> next_multiple_of (fst r) align;
     if aligned_start \<ge> snd r then Some ((fst r, snd r), (0, 0), (snd r, snd r))
     else do {
       let unaligned_prefix = (fst r, aligned_start);
       aligned_end \<leftarrow> next_multiple_of (snd r) align;
       aligned_end \<leftarrow> (if aligned_end > snd r then usub aligned_end align else Some aligned_end);
       let aligned = (aligned_start, aligned_end);
       let unaligned_suffix = (aligned_end, snd r);
       Some (unaligned_prefix, aligned, unaligned_suffix) } }"

text \<open>The addresses of \<open>range.step_by(step)\<close>.\<close>

definition step_by :: "usize range \<Rightarrow> usize \<Rightarrow> usize list" where
  "step_by r step =
     map (\<lambda>i. fst r + i * step) [0..<(snd r - fst r + (step - 1)) div step]"

text \<open>A loop over a list whose body may panic.\<close>

fun for_each :: "('a \<Rightarrow> 's \<Rightarrow> 's run) \<Rightarrow> 'a list \<Rightarrow> 's \<Rightarrow> 's run" where
  "for_each f [] s = Some s"
| "for_each f (x # xs) s = do { s \<leftarrow> f x s; for_each f xs s }"

subsection \<open>Single entries\<close>

definition map_leaf :: "page_table \<Rightarrow> usize \<Rightarrow> usize \<Rightarrow> page_flags \<Rightarrow> usize \<Rightarrow> page_table run" where
  "map_leaf t virt phys flags level = do {
     let i = vpn_segment virt level;
     ensure (i < length t);
     ensure (\<not> entry_is_valid (t ! i));
     Some (t[i := Leaf flags phys]) }"

definition unmap_leaf :: "page_table \<Rightarrow> usize \<Rightarrow> usize \<Rightarrow> usize \<Rightarrow> page_table run" where
  "unmap_leaf t virt phys level = do {
     let i = vpn_segment virt level;
     ensure (i < length t);
     case t ! i of
       Leaf _ phys_ptr \<Rightarrow> do {
         ensure (phys_ptr = phys);
         Some (t[i := Invalid]) }
     | _ \<Rightarrow> None }"

definition unwrap_indirect :: "page_table \<Rightarrow> usize \<Rightarrow> usize \<Rightarrow> page_table run" where
  "unwrap_indirect t virt level = do {
     let i = vpn_segment virt level;
     ensure (i < length t);
     case t ! i of Indirect table \<Rightarrow> Some table | _ \<Rightarrow> None }"

text \<open>
  \<open>map_indirect\<close> makes sure there is a table and returns a reference to it: the table with the
  entry in place, and the indirect table.
\<close>

definition map_indirect :: "page_table \<Rightarrow> usize \<Rightarrow> usize \<Rightarrow> (page_table \<times> page_table) run" where
  "map_indirect t virt level = do {
     let i = vpn_segment virt level;
     ensure (i < length t);
     t \<leftarrow> (case t ! i of
             Invalid \<Rightarrow> Some (t[i := Indirect table_new])
           | Indirect _ \<Rightarrow> Some t
           | Leaf _ _ \<Rightarrow> None);
     indirect \<leftarrow> unwrap_indirect t virt level;
     Some (t, indirect) }"

text \<open>Writing through such a reference.\<close>

definition set_indirect :: "page_table \<Rightarrow> usize \<Rightarrow> usize \<Rightarrow> page_table \<Rightarrow> page_table" where
  "set_indirect t virt level table = t[vpn_segment virt level := Indirect table]"

definition is_completely_unmapped :: "page_table \<Rightarrow> bool" where
  "is_completely_unmapped t \<longleftrightarrow> \<not> list_ex entry_is_valid t"

definition unmap_entry :: "page_table \<Rightarrow> usize \<Rightarrow> usize \<Rightarrow> page_table" where
  "unmap_entry t virt level = t[vpn_segment virt level := Invalid]"

definition check_unmap_indirect :: "page_table \<Rightarrow> usize \<Rightarrow> usize \<Rightarrow> page_table run" where
  "check_unmap_indirect t virt level = do {
     indirect \<leftarrow> unwrap_indirect t virt level;
     if is_completely_unmapped indirect then Some (unmap_entry t virt level) else Some t }"

subsection \<open>Ranges\<close>

text \<open>
  \<open>map_impl level\<close> and \<open>unmap_impl level\<close>, by recursion on the level; \<open>below\<close> is the recursive
  call one level down, which panics when there is none.
\<close>

definition map_below ::
  "(page_table \<Rightarrow> usize \<Rightarrow> usize \<Rightarrow> usize \<Rightarrow> page_flags \<Rightarrow> page_table run) \<Rightarrow>
   usize \<Rightarrow> page_flags \<Rightarrow> usize \<Rightarrow> usize \<Rightarrow> usize \<Rightarrow> page_table \<Rightarrow> page_table run" where
  "map_below below level flags virt phys sz t = do {
     (t, indirect) \<leftarrow> map_indirect t virt level;
     indirect \<leftarrow> below indirect virt phys sz flags;
     Some (set_indirect t virt level indirect) }"

definition map_level ::
  "(page_table \<Rightarrow> usize \<Rightarrow> usize \<Rightarrow> usize \<Rightarrow> page_flags \<Rightarrow> page_table run) \<Rightarrow>
   usize \<Rightarrow> page_table \<Rightarrow> usize \<Rightarrow> usize \<Rightarrow> usize \<Rightarrow> page_flags \<Rightarrow> page_table run" where
  "map_level below level t virt phys sz flags = do {
     leaf_size \<leftarrow> level_page_size level;
     virt_end \<leftarrow> uadd virt sz;
     (prefix, aligned, suffix) \<leftarrow> align_by (virt, virt_end) leaf_size;
     t \<leftarrow> (if \<not> is_empty_range prefix
           then map_below below level flags (fst prefix) (phys + (fst prefix - virt))
                  (snd prefix - fst prefix) t
           else Some t);
     t \<leftarrow> (if \<not> is_empty_range aligned \<and> \<not> is_multiple_of (phys + (fst aligned - virt)) leaf_size
           then for_each (\<lambda>v. map_below below level flags v (phys + (v - virt)) leaf_size)
                  (step_by aligned leaf_size) t
           else for_each (\<lambda>v t. map_leaf t v (phys + (v - virt)) flags level)
                  (step_by aligned leaf_size) t);
     if \<not> is_empty_range suffix
     then map_below below level flags (fst suffix) (phys + (fst suffix - virt))
            (snd suffix - fst suffix) t
     else Some t }"

primrec map_impl ::
  "usize \<Rightarrow> page_table \<Rightarrow> usize \<Rightarrow> usize \<Rightarrow> usize \<Rightarrow> page_flags \<Rightarrow> page_table run" where
  "map_impl 0 = map_level (\<lambda>_ _ _ _ _. None) 0"
| "map_impl (Suc level) = map_level (map_impl level) (Suc level)"

definition unmap_below ::
  "(page_table \<Rightarrow> usize \<Rightarrow> usize \<Rightarrow> usize \<Rightarrow> page_table run) \<Rightarrow>
   usize \<Rightarrow> usize \<Rightarrow> usize \<Rightarrow> usize \<Rightarrow> page_table \<Rightarrow> page_table run" where
  "unmap_below below level virt phys sz t = do {
     indirect \<leftarrow> unwrap_indirect t virt level;
     indirect \<leftarrow> below indirect virt phys sz;
     check_unmap_indirect (set_indirect t virt level indirect) virt level }"

definition unmap_level ::
  "(page_table \<Rightarrow> usize \<Rightarrow> usize \<Rightarrow> usize \<Rightarrow> page_table run) \<Rightarrow>
   usize \<Rightarrow> page_table \<Rightarrow> usize \<Rightarrow> usize \<Rightarrow> usize \<Rightarrow> page_table run" where
  "unmap_level below level t virt phys sz = do {
     leaf_size \<leftarrow> level_page_size level;
     virt_end \<leftarrow> uadd virt sz;
     (prefix, aligned, suffix) \<leftarrow> align_by (virt, virt_end) leaf_size;
     t \<leftarrow> (if \<not> is_empty_range prefix
           then unmap_below below level (fst prefix) (phys + (fst prefix - virt))
                  (snd prefix - fst prefix) t
           else Some t);
     t \<leftarrow> (if \<not> is_empty_range aligned \<and> \<not> is_multiple_of (phys + (fst aligned - virt)) leaf_size
           then for_each (\<lambda>v. unmap_below below level v (phys + (v - virt)) leaf_size)
                  (step_by aligned leaf_size) t
           else for_each (\<lambda>v t. unmap_leaf t v (phys + (v - virt)) level)
                  (step_by aligned leaf_size) t);
     if \<not> is_empty_range suffix
     then unmap_below below level (fst suffix) (phys + (fst suffix - virt))
            (snd suffix - fst suffix) t
     else Some t }"

primrec unmap_impl ::
  "usize \<Rightarrow> page_table \<Rightarrow> usize \<Rightarrow> usize \<Rightarrow> usize \<Rightarrow> page_table run" where
  "unmap_impl 0 = unmap_level (\<lambda>_ _ _ _. None) 0"
| "unmap_impl (Suc level) = unmap_level (unmap_impl level) (Suc level)"

definition check_mapping :: "usize \<Rightarrow> usize \<Rightarrow> usize \<Rightarrow> unit run" where
  "check_mapping virt phys sz = do {
     ensure (is_multiple_of virt PAGE_SIZE);
     ensure (virt < snd VIRTUAL_ADDRESSES);
     virt_end \<leftarrow> uadd virt sz;
     ensure (virt_end \<le> snd VIRTUAL_ADDRESSES);
     ensure (is_multiple_of phys PAGE_SIZE);
     ensure (phys < snd PHYSICAL_ADDRESSES);
     phys_end \<leftarrow> uadd phys sz;
     ensure (phys_end \<le> snd PHYSICAL_ADDRESSES);
     ensure (is_multiple_of sz PAGE_SIZE) }"

definition table_map ::
  "page_table \<Rightarrow> usize \<Rightarrow> usize \<Rightarrow> usize \<Rightarrow> page_flags \<Rightarrow> page_table run" where
  "table_map t virt phys sz flags = do {
     check_mapping virt phys sz;
     map_impl 2 t virt phys sz flags }"

definition table_unmap :: "page_table \<Rightarrow> usize \<Rightarrow> usize \<Rightarrow> usize \<Rightarrow> page_table run" where
  "table_unmap t virt phys sz = do {
     check_mapping virt phys sz;
     unmap_impl 2 t virt phys sz }"

primrec is_mapped_impl :: "usize \<Rightarrow> page_table \<Rightarrow> usize \<Rightarrow> bool run" where
  "is_mapped_impl 0 = (\<lambda>t virt. do {
     let i = vpn_segment virt 0;
     ensure (i < length t);
     case t ! i of Invalid \<Rightarrow> Some False | Indirect _ \<Rightarrow> None | Leaf _ _ \<Rightarrow> Some True })"
| "is_mapped_impl (Suc level) = (\<lambda>t virt. do {
     let i = vpn_segment virt (Suc level);
     ensure (i < length t);
     case t ! i of
       Invalid \<Rightarrow> Some False
     | Indirect indirect \<Rightarrow> is_mapped_impl level indirect virt
     | Leaf _ _ \<Rightarrow> Some True })"

definition is_mapped :: "page_table \<Rightarrow> usize \<Rightarrow> bool run" where
  "is_mapped t virt = is_mapped_impl 2 t virt"

text \<open>\<open>map_hh_direct_mapping\<close> (\<open>kernel/src/page.rs\<close>): all of physical memory, in the upper half.\<close>

definition map_hh_direct_mapping :: "page_table \<Rightarrow> page_table run" where
  "map_hh_direct_mapping table = do {
     let virt = fst DIRECT_MAPPING;
     sz \<leftarrow> usub (snd DIRECT_MAPPING) (fst DIRECT_MAPPING);
     table_map table virt 0 sz flags_read_write_execute }"

end
