(* ===== verification/Page_Table_Correct.thy ===== *)
theory Page_Table_Correct
  imports Page_Table
begin

text \<open>
  Page tables against the translation the hardware makes of them (Sv39): \<open>translate\<close> walks the
  tree, and mapping, unmapping and \<open>is_mapped\<close> are specified by what the walk finds.  A range is
  cut into pieces that each lie in one entry of the table; every operation is a loop over the
  pieces, so its correctness is that of single entries.
\<close>

subsection \<open>Levels and indices\<close>

definition psize :: "nat \<Rightarrow> usize" where
  "psize l = 4096 * 512 ^ l"

lemma psize_pos [simp]: "0 < psize l"
  by (simp add: psize_def)

lemma psize_Suc: "psize (Suc l) = psize l * 512"
  by (simp add: psize_def)

lemma psize_0 [simp]: "psize 0 = 4096"
  by (simp add: psize_def)

lemma psize_dvd: "4096 dvd psize l"
  by (simp add: psize_def)

lemma level_page_size_eq: "l < 3 \<Longrightarrow> level_page_size l = Some (psize l)"
  by (auto simp: level_page_size_def LEVEL_PAGE_SIZES_def psize_def less_Suc_eq numeral_3_eq_3)

lemma psize_pow: "psize l = 2 ^ (12 + 9 * l)"
  by (simp add: psize_def power_add power_mult)

lemma vpn_segment_eq: "vpn_segment v l = v div psize l mod 512"
proof -
  have "vpn_segment v l = take_bit 9 (drop_bit (12 + 9 * l) v)"
    by (simp add: vpn_segment_def take_bit_eq_mask mask_eq_exp_minus_1 push_bit_eq_mult)
  then show ?thesis by (simp add: take_bit_eq_mod drop_bit_eq_div psize_pow)
qed

lemma vpn_less [simp]: "vpn_segment v l < 512"
  by (simp add: vpn_segment_eq)

lemma div_psize_Suc: "v div psize (Suc l) = v div psize l div 512"
  by (simp add: psize_Suc div_mult2_eq)

lemma same_slot:
  assumes "v div psize (Suc l) = w div psize (Suc l)"
  shows "vpn_segment v l = vpn_segment w l \<longleftrightarrow> v div psize l = w div psize l"
  using assms unfolding vpn_segment_eq div_psize_Suc by (metis div_mult_mod_eq)

subsection \<open>The hardware's walk\<close>

primrec translate :: "nat \<Rightarrow> page_table \<Rightarrow> usize \<Rightarrow> (page_flags \<times> usize) option" where
  "translate 0 = (\<lambda>t v. case t ! vpn_segment v 0 of
     Leaf f p \<Rightarrow> Some (f, p + v mod psize 0) | _ \<Rightarrow> None)"
| "translate (Suc l) = (\<lambda>t v. case t ! vpn_segment v (Suc l) of
     Leaf f p \<Rightarrow> Some (f, p + v mod psize (Suc l))
   | Indirect t' \<Rightarrow> translate l t' v
   | Invalid \<Rightarrow> None)"

definition etr :: "nat \<Rightarrow> pt_entry \<Rightarrow> usize \<Rightarrow> (page_flags \<times> usize) option" where
  "etr l e v = (case e of
     Leaf f p \<Rightarrow> Some (f, p + v mod psize l)
   | Indirect t \<Rightarrow> (case l of 0 \<Rightarrow> None | Suc k \<Rightarrow> translate k t v)
   | Invalid \<Rightarrow> None)"

lemma etr_simps [simp]:
  "etr l Invalid v = None" "etr l (Leaf f p) v = Some (f, p + v mod psize l)"
  "etr (Suc k) (Indirect t) v = translate k t v"
  by (simp_all add: etr_def)

lemma translate_etr: "translate l t v = etr l (t ! vpn_segment v l) v"
  by (cases l) (auto simp: etr_def split: pt_entry.split)

text \<open>
  Tables have 512 entries at every level, leaves are as aligned as the hardware demands, and no
  entry points to an empty table.
\<close>

primrec wf_table :: "nat \<Rightarrow> page_table \<Rightarrow> bool" where
  "wf_table 0 = (\<lambda>t. length t = 512 \<and> (\<forall>e \<in> set t.
     case e of Invalid \<Rightarrow> True | Indirect _ \<Rightarrow> False | Leaf f p \<Rightarrow> psize 0 dvd p))"
| "wf_table (Suc l) = (\<lambda>t. length t = 512 \<and> (\<forall>e \<in> set t.
     case e of
       Invalid \<Rightarrow> True
     | Indirect t' \<Rightarrow> wf_table l t' \<and> \<not> is_completely_unmapped t'
     | Leaf f p \<Rightarrow> psize (Suc l) dvd p))"

definition wf_entry :: "nat \<Rightarrow> pt_entry \<Rightarrow> bool" where
  "wf_entry l e = (case e of
     Invalid \<Rightarrow> True
   | Indirect t \<Rightarrow> (case l of 0 \<Rightarrow> False | Suc k \<Rightarrow> wf_table k t \<and> \<not> is_completely_unmapped t)
   | Leaf f p \<Rightarrow> psize l dvd p)"

lemma wf_entry_simps [simp]:
  "wf_entry l Invalid" "wf_entry l (Leaf f p) \<longleftrightarrow> psize l dvd p"
  "wf_entry 0 (Indirect t) \<longleftrightarrow> False"
  "wf_entry (Suc k) (Indirect t) \<longleftrightarrow> wf_table k t \<and> \<not> is_completely_unmapped t"
  by (simp_all add: wf_entry_def)

lemma wf_table_entries: "wf_table l t \<longleftrightarrow> length t = 512 \<and> (\<forall>i < 512. wf_entry l (t ! i))"
proof -
  have "wf_table l t \<longleftrightarrow> length t = 512 \<and> (\<forall>e \<in> set t. wf_entry l e)"
    by (cases l) (auto simp: wf_entry_def split: pt_entry.splits)
  then show ?thesis by (simp add: all_set_conv_all_nth cong: conj_cong)
qed

lemma wf_length: "wf_table l t \<Longrightarrow> length t = 512"
  by (simp add: wf_table_entries)

lemma unmapped_entries:
  "length t = 512 \<Longrightarrow> is_completely_unmapped t \<longleftrightarrow> (\<forall>i < 512. t ! i = Invalid)"
  by (auto simp: is_completely_unmapped_def entry_is_valid_def list_ex_iff in_set_conv_nth Ball_def)

lemma new_table:
  "wf_table l table_new" "is_completely_unmapped table_new" "translate l table_new v = None"
  by (simp_all add: wf_table_entries unmapped_entries table_new_def translate_etr)

text \<open>A table that is not empty maps some address, wherever it is placed.\<close>

lemma nonempty_mapped:
  assumes "wf_table l t" "\<not> is_completely_unmapped t" "psize (Suc l) dvd base"
  shows "\<exists>w. w div psize (Suc l) = base div psize (Suc l) \<and> translate l t w \<noteq> None"
  using assms
proof (induction l arbitrary: t base)
  case (0 t base)
  from "0.prems" obtain j where j: "j < 512" "t ! j \<noteq> Invalid"
    by (auto simp: unmapped_entries wf_length)
  obtain b where b: "base = psize (Suc 0) * b" using "0.prems"(3) by blast
  let ?w = "base + j * psize 0"
  have "vpn_segment ?w 0 = j" using b j by (simp add: vpn_segment_eq psize_Suc div_mult2_eq)
  moreover have "?w div psize (Suc 0) = base div psize (Suc 0)" using b j by (simp add: psize_Suc)
  moreover have "wf_entry 0 (t ! j)" using "0.prems"(1) j(1) unfolding wf_table_entries by blast
  ultimately show ?case using j(2)
    by (intro exI [of _ ?w]) (cases "t ! j"; simp add: translate_etr del: translate.simps)
next
  case (Suc l t base)
  from Suc.prems obtain j where j: "j < 512" "t ! j \<noteq> Invalid"
    by (auto simp: unmapped_entries wf_length)
  obtain b where b: "base = psize (Suc (Suc l)) * b" using Suc.prems(3) by blast
  let ?w = "base + j * psize (Suc l)"
  have wf: "wf_entry (Suc l) (t ! j)" using Suc.prems(1) j(1) unfolding wf_table_entries by blast
  have up: "x div psize (Suc (Suc l)) = base div psize (Suc (Suc l)) \<and> vpn_segment x (Suc l) = j"
    if "x div psize (Suc l) = ?w div psize (Suc l)" for x
  proof -
    have "?w div psize (Suc l) = 512 * b + j" using b by (simp add: psize_Suc [of "Suc l"] mult.assoc)
    with that have x: "x div psize (Suc l) = 512 * b + j" by simp
    have "x div psize (Suc (Suc l)) = b" unfolding div_psize_Suc [of x "Suc l"] x using j(1) by simp
    moreover have "base div psize (Suc (Suc l)) = b" using b by simp
    moreover have "vpn_segment x (Suc l) = j" unfolding vpn_segment_eq x using j(1) by simp
    ultimately show ?thesis by simp
  qed
  show ?case
  proof (cases "t ! j")
    case (Leaf f p)
    with up [of ?w] show ?thesis
      by (intro exI [of _ ?w]) (simp add: translate_etr del: translate.simps)
  next
    case (Indirect t')
    then have "wf_table l t'" "\<not> is_completely_unmapped t'" using wf by simp_all
    moreover have "psize (Suc l) dvd ?w" using b by (simp add: psize_Suc [of "Suc l"])
    ultimately obtain w where "w div psize (Suc l) = ?w div psize (Suc l)" "translate l t' w \<noteq> None"
      using Suc.IH by blast
    with up [of w] Indirect show ?thesis
      by (intro exI [of _ w]) (simp add: translate_etr [of "Suc l"] del: translate.simps)
  qed (use j in simp)
qed

subsection \<open>Cutting a range into pieces\<close>

text \<open>
  \<open>tiles A s e ps\<close>: the pieces \<open>ps\<close> (address and length) cover \<open>[s, e)\<close> in order, each inside
  one slot of \<open>A\<close> bytes, and consecutive pieces are in different slots.
\<close>

fun tiles :: "usize \<Rightarrow> usize \<Rightarrow> usize \<Rightarrow> (usize \<times> usize) list \<Rightarrow> bool" where
  "tiles A s e [] \<longleftrightarrow> s = e"
| "tiles A s e ((v, n) # ps) \<longleftrightarrow> v = s \<and> 0 < n \<and> s div A = (s + n - 1) div A \<and>
     (ps \<noteq> [] \<longrightarrow> A dvd s + n) \<and> tiles A (s + n) e ps"

lemma tiles_le: "tiles A s e ps \<Longrightarrow> s \<le> e"
  by (induction A s e ps rule: tiles.induct) auto

lemma tiles_append:
  "tiles A s m ps \<Longrightarrow> tiles A m e qs \<Longrightarrow> A dvd m \<or> ps = [] \<or> qs = [] \<Longrightarrow> tiles A s e (ps @ qs)"
proof (induction A s m ps rule: tiles.induct)
  case (2 A s m v n ps)
  then show ?case by (cases "ps = []") auto
qed simp

lemma tiles_inside:
  "tiles A s e ps \<Longrightarrow> (v, n) \<in> set ps \<Longrightarrow> s \<le> v \<and> v + n \<le> e \<and> 0 < n \<and> v div A = (v + n - 1) div A"
proof (induction A s e ps rule: tiles.induct)
  case (2 A s e v' n' ps)
  then show ?case using tiles_le [of A "s + n'" e ps] by auto
qed simp

lemma tiles_cover: "tiles A s e ps \<Longrightarrow> s \<le> w \<Longrightarrow> w < e \<Longrightarrow> \<exists>(v, n) \<in> set ps. v \<le> w \<and> w < v + n"
proof (induction A s e ps rule: tiles.induct)
  case (2 A s e v n ps)
  then show ?case by (cases "w < s + n") auto
qed simp

lemma tiles_slots:
  "tiles A s e ps \<Longrightarrow> 0 < A \<Longrightarrow> sorted_wrt (<) (map (\<lambda>(v, n). v div A) ps)"
proof (induction A s e ps rule: tiles.induct)
  case (2 A s e v n ps)
  have "s div A < v' div A" if "(v', n') \<in> set ps" for v' n'
  proof -
    have "A dvd s + n" "s + n \<le> v'" using 2 that tiles_inside [of A "s + n" e ps] by auto
    then have "(s + n) div A \<le> v' div A" by (simp add: div_le_mono)
    moreover have "(s + n - 1) div A < (s + n) div A"
      using \<open>A dvd s + n\<close> "2.prems"(1) by (intro pred_div_less) simp_all
    moreover have "v = s" "s div A = (s + n - 1) div A" using "2.prems"(1) by simp_all
    ultimately show ?thesis by simp
  qed
  with 2 show ?case by auto
qed simp

lemma tiles_steps:
  "A dvd a \<Longrightarrow> 0 < A \<Longrightarrow> tiles A a (a + k * A) (map (\<lambda>i. (a + i * A, A)) [0..<k])"
proof (induction k)
  case (Suc k)
  have "(a + k * A) div A = (a + k * A + A - 1) div A"
    by (rule last_div_same [symmetric]) (use Suc.prems in simp_all)
  then have "tiles A (a + k * A) (a + Suc k * A) [(a + k * A, A)]"
    using Suc.prems by (simp add: add.commute add.left_commute)
  with tiles_append [OF Suc.IH [OF Suc.prems]] Suc.prems show ?case by simp
qed simp

text \<open>\<open>align_by\<close> cuts a range this way.\<close>

lemma next_multiple_value:
  assumes "0 < A" "s + A < usize_end"
  shows "next_multiple_of s A = Some (if A dvd s then s else (s div A + 1) * A)"
proof (cases "A dvd s")
  case False
  have lt: "s mod A < A" using assms(1) by simp
  then have "s + (A - s mod A) < usize_end" using assms(2) by linarith
  moreover have "s + (A - s mod A) = (s div A + 1) * A"
    using lt div_mult_mod_eq [of s A] unfolding add_mult_distrib by linarith
  ultimately show ?thesis
    using False assms(1) by (simp add: next_multiple_of_def mod_eq_0_iff_dvd)
qed (use assms in \<open>simp add: next_multiple_of_id\<close>)

definition range_piece :: "usize range \<Rightarrow> (usize \<times> usize) list" where
  "range_piece r = (if is_empty_range r then [] else [(fst r, snd r - fst r)])"

lemma step_by_eq:
  "0 < A \<Longrightarrow> step_by (a, a + k * A) A = map (\<lambda>i. a + i * A) [0..<k]"
  using last_div_same [of A "k * A"] by (simp add: step_by_def)

lemma step_by_empty: "step_by (0, 0) A = []"
  by (cases A) (simp_all add: step_by_def)

lemma align_by_tiles:
  assumes "0 < A" "s < e" "e + A < usize_end"
  shows "\<exists>pre al suf. align_by (s, e) A = Some (pre, al, suf) \<and>
    tiles A s e (range_piece pre @ map (\<lambda>v. (v, A)) (step_by al A) @ range_piece suf) \<and>
    (\<forall>x \<in> set (range_piece pre @ range_piece suf). snd x < A \<or> \<not> A dvd fst x) \<and>
    (\<forall>v \<in> set (step_by al A). A dvd v \<and> A dvd v - fst al \<and> fst al \<le> v \<and> s \<le> fst al) \<and>
    (is_empty_range al \<longrightarrow> step_by al A = [])"
proof -
  define a1 where "a1 = (if A dvd s then s else (s div A + 1) * A)"
  have n1: "next_multiple_of s A = Some a1"
    using next_multiple_value [OF assms(1), of s] assms unfolding a1_def by simp
  have d1: "A dvd a1" and le1: "s \<le> a1" and lt1: "a1 < s + A"
    using next_multiple_of_spec [OF n1] by auto
  have slot1: "s div A = (m - 1) div A" if "s < m" "m \<le> a1" for m
  proof -
    have nd: "\<not> A dvd s" using that by (auto simp: a1_def)
    have "m - 1 < (s div A + 1) * A" using that nd unfolding a1_def by simp
    then have "(m - 1) div A < s div A + 1" by (rule less_mult_imp_div_less)
    moreover have "s div A \<le> (m - 1) div A" using that(1) by (intro div_le_mono) simp
    ultimately show ?thesis by simp
  qed
  show ?thesis
  proof (cases "e \<le> a1")
    case True
    then have "align_by (s, e) A = Some ((s, e), (0, 0), (e, e))" using n1 by (simp add: align_by_def)
    moreover have "\<not> A dvd s" using True assms(2) by (auto simp: a1_def)
    moreover have "tiles A s e [(s, e - s)]" using True assms(2) slot1 [of e] by simp
    ultimately show ?thesis using assms(2)
      by (simp add: range_piece_def is_empty_range_def step_by_empty)
  next
    case False
    then have a1e: "a1 < e" by simp
    define b where "b = (if A dvd e then e else (e div A + 1) * A)"
    have n2: "next_multiple_of e A = Some b"
      using next_multiple_value [OF assms(1,3)] unfolding b_def .
    have d2: "A dvd b" and le2: "e \<le> b" and lt2: "b < e + A"
      using next_multiple_of_spec [OF n2] by auto
    define a2 where "a2 = (if b > e then b - A else b)"
    have bA: "e < b \<Longrightarrow> A \<le> b" using d2 dvd_imp_le by fastforce
    have sub: "(if e < b then usub b A else Some b) = Some a2" using bA by (simp add: a2_def)
    have al: "align_by (s, e) A = Some ((s, a1), (a1, a2), (a2, e))"
      using n1 n2 sub a1e by (simp add: align_by_def)
    have d3: "A dvd a2" using d2 bA by (auto simp: a2_def)
    have le3: "a2 \<le> e" "e < a2 + A" using le2 lt2 bA assms(1) by (auto simp: a2_def)
    have "\<not> a2 < a1"
    proof
      assume "a2 < a1"
      from dvd_step_le [OF d3 d1 this] show False using le3 a1e by linarith
    qed
    then obtain k where k: "a2 = a1 + k * A"
      using d1 d3 by (metis dvd_def dvd_diff_nat le_add_diff_inverse mult.commute not_less)
    have steps: "step_by (a1, a2) A = map (\<lambda>i. a1 + i * A) [0..<k]"
      unfolding k by (rule step_by_eq [OF assms(1)])
    have t1: "tiles A s a1 (range_piece (s, a1))"
      using slot1 [of a1] le1 by (simp add: range_piece_def is_empty_range_def)
    have t2: "tiles A a1 a2 (map (\<lambda>v. (v, A)) (step_by (a1, a2) A))"
      unfolding steps using tiles_steps [OF d1 assms(1), of k] k by (simp add: comp_def)
    have "a2 div A = (e - 1) div A" if "a2 < e"
    proof -
      have "e - 1 < (a2 div A + 1) * A" using le3(2) d3 by auto
      then have "(e - 1) div A < a2 div A + 1" by (rule less_mult_imp_div_less)
      moreover have "a2 div A \<le> (e - 1) div A" using that by (intro div_le_mono) simp
      ultimately show ?thesis by simp
    qed
    then have t3: "tiles A a2 e (range_piece (a2, e))"
      using le3 by (simp add: range_piece_def is_empty_range_def)
    have "tiles A s e (range_piece (s, a1) @ map (\<lambda>v. (v, A)) (step_by (a1, a2) A) @ range_piece (a2, e))"
      by (intro tiles_append [OF t1] tiles_append [OF t2 t3]) (use d1 d3 in simp_all)
    moreover have "snd x < A \<or> \<not> A dvd fst x"
      if "x \<in> set (range_piece (s, a1) @ range_piece (a2, e))" for x
    proof -
      have "x = (s, a1 - s) \<and> s < a1 \<or> x = (a2, e - a2) \<and> a2 < e"
        using that by (auto simp: range_piece_def is_empty_range_def split: if_splits)
      then show ?thesis using lt1 le3 by auto
    qed
    moreover have "A dvd v \<and> A dvd v - a1 \<and> a1 \<le> v \<and> s \<le> a1" if "v \<in> set (step_by (a1, a2) A)" for v
      using that d1 le1 unfolding steps by auto
    moreover have "step_by (a1, a2) A = []" if "is_empty_range (a1, a2)"
      using that k assms(1) unfolding steps by (simp add: is_empty_range_def)
    ultimately show ?thesis using al by auto
  qed
qed

subsection \<open>One entry at a time\<close>

definition slot_step :: "(pt_entry \<Rightarrow> pt_entry run) \<Rightarrow> nat \<Rightarrow> page_table \<Rightarrow> page_table run" where
  "slot_step g i t = do { ensure (i < length t); e \<leftarrow> g (t ! i); Some (t[i := e]) }"

definition map_slot ::
  "(page_table \<Rightarrow> usize \<Rightarrow> usize \<Rightarrow> usize \<Rightarrow> page_flags \<Rightarrow> page_table run) \<Rightarrow>
   usize \<Rightarrow> page_flags \<Rightarrow> usize \<Rightarrow> usize \<Rightarrow> usize \<Rightarrow> pt_entry \<Rightarrow> pt_entry run" where
  "map_slot below l fl v p n e =
     (if n = psize l \<and> psize l dvd v \<and> psize l dvd p then (if e = Invalid then Some (Leaf fl p) else None)
      else do {
        t \<leftarrow> (case e of Invalid \<Rightarrow> Some table_new | Indirect t \<Rightarrow> Some t | Leaf _ _ \<Rightarrow> None);
        t \<leftarrow> below t v p n fl;
        Some (Indirect t) })"

definition unmap_slot ::
  "(page_table \<Rightarrow> usize \<Rightarrow> usize \<Rightarrow> usize \<Rightarrow> page_table run) \<Rightarrow>
   usize \<Rightarrow> usize \<Rightarrow> usize \<Rightarrow> usize \<Rightarrow> pt_entry \<Rightarrow> pt_entry run" where
  "unmap_slot below l v p n e =
     (if n = psize l \<and> psize l dvd v \<and> psize l dvd p then (if \<exists>f. e = Leaf f p then Some Invalid else None)
      else do {
        t \<leftarrow> (case e of Indirect t \<Rightarrow> Some t | _ \<Rightarrow> None);
        t \<leftarrow> below t v p n;
        Some (if is_completely_unmapped t then Invalid else Indirect t) })"

lemma map_leaf_slot:
  "psize l dvd v \<Longrightarrow> psize l dvd p \<Longrightarrow>
   map_leaf t v p fl l = slot_step (map_slot below l fl v p (psize l)) (vpn_segment v l) t"
  by (auto simp: map_leaf_def slot_step_def map_slot_def entry_is_valid_def Let_def)

lemma map_below_slot:
  "\<not> (n = psize l \<and> psize l dvd v \<and> psize l dvd p) \<Longrightarrow>
   map_below below l fl v p n t = slot_step (map_slot below l fl v p n) (vpn_segment v l) t"
  by (cases "t ! vpn_segment v l")
    (auto simp: map_below_def map_indirect_def unwrap_indirect_def set_indirect_def slot_step_def
      map_slot_def Let_def)

lemma unmap_leaf_slot:
  "psize l dvd v \<Longrightarrow> psize l dvd p \<Longrightarrow>
   unmap_leaf t v p l = slot_step (unmap_slot below l v p (psize l)) (vpn_segment v l) t"
  by (cases "t ! vpn_segment v l") (auto simp: unmap_leaf_def slot_step_def unmap_slot_def Let_def)

lemma unmap_below_slot:
  assumes "\<not> (n = psize l \<and> psize l dvd v \<and> psize l dvd p)"
  shows "unmap_below below l v p n t = slot_step (unmap_slot below l v p n) (vpn_segment v l) t"
proof (cases "t ! vpn_segment v l")
  case (Indirect t')
  then show ?thesis using assms
    by (cases "below t' v p n")
      (auto simp: unmap_below_def check_unmap_indirect_def unwrap_indirect_def set_indirect_def
        unmap_entry_def slot_step_def unmap_slot_def Let_def)
qed (use assms in \<open>auto simp: unmap_below_def unwrap_indirect_def slot_step_def unmap_slot_def Let_def\<close>)

lemma for_each_Nil_bind [simp]: "x \<bind> for_each f [] = x"
  by (cases x) simp_all

lemma for_each_append: "for_each f (xs @ ys) s = for_each f xs s \<bind> for_each f ys"
  by (induction xs arbitrary: s) (simp_all cong: Option.bind_cong)

lemma for_each_map: "for_each f (map h xs) s = for_each (\<lambda>x. f (h x)) xs s"
  by (induction xs arbitrary: s) (simp_all cong: Option.bind_cong)

lemma for_each_cong: "(\<And>x t. x \<in> set xs \<Longrightarrow> f x t = g x t) \<Longrightarrow> for_each f xs s = for_each g xs s"
  by (induction xs arbitrary: s) (simp_all cong: Option.bind_cong)

text \<open>A loop over different slots does to each what it does to it alone.\<close>

lemma for_each_slots:
  assumes "distinct (map ix ps)" "\<forall>x \<in> set ps. ix x < length t"
  shows "case for_each (\<lambda>x. slot_step (g x) (ix x)) ps t of
      None \<Rightarrow> \<exists>x \<in> set ps. g x (t ! ix x) = None
    | Some t' \<Rightarrow> length t' = length t \<and> (\<forall>x \<in> set ps. g x (t ! ix x) = Some (t' ! ix x)) \<and>
        (\<forall>j. j \<notin> ix ` set ps \<longrightarrow> t' ! j = t ! j)"
  using assms
proof (induction ps arbitrary: t)
  case (Cons x ps)
  show ?case
  proof (cases "g x (t ! ix x)")
    case None
    with Cons.prems show ?thesis by (simp add: slot_step_def)
  next
    case (Some e)
    let ?t = "t[ix x := e]"
    have step: "for_each (\<lambda>x. slot_step (g x) (ix x)) (x # ps) t =
        for_each (\<lambda>x. slot_step (g x) (ix x)) ps ?t"
      using Some Cons.prems by (simp add: slot_step_def)
    have same: "?t ! ix y = t ! ix y" if "y \<in> set ps" for y
      using Cons.prems that by (intro nth_list_update_neq) auto
    have ih: "case for_each (\<lambda>x. slot_step (g x) (ix x)) ps ?t of
      None \<Rightarrow> \<exists>x \<in> set ps. g x (?t ! ix x) = None
    | Some t' \<Rightarrow> length t' = length ?t \<and> (\<forall>x \<in> set ps. g x (?t ! ix x) = Some (t' ! ix x)) \<and>
        (\<forall>j. j \<notin> ix ` set ps \<longrightarrow> t' ! j = ?t ! j)"
      using Cons.prems by (intro Cons.IH) simp_all
    show ?thesis
    proof (cases "for_each (\<lambda>x. slot_step (g x) (ix x)) ps ?t")
      case None
      with ih same step show ?thesis by auto
    next
      case (Some t')
      with ih have t': "length t' = length t" "\<forall>y \<in> set ps. g y (t ! ix y) = Some (t' ! ix y)"
        "\<forall>j. j \<notin> ix ` set ps \<longrightarrow> t' ! j = ?t ! j" using same by auto
      have "ix x \<notin> ix ` set ps" using Cons.prems(1) by auto
      with t'(3) have "t' ! ix x = ?t ! ix x" by blast
      with Cons.prems(2) have "t' ! ix x = e" by simp
      with t' Some step \<open>g x (t ! ix x) = Some e\<close> show ?thesis by auto
    qed
  qed
qed simp

lemma for_each_slots_to:
  assumes "distinct (map ix ps)" "\<forall>x \<in> set ps. ix x < length t" "length t' = length t"
    and "\<forall>x \<in> set ps. g x (t ! ix x) = Some (t' ! ix x)" "\<forall>j. j \<notin> ix ` set ps \<longrightarrow> t' ! j = t ! j"
  shows "for_each (\<lambda>x. slot_step (g x) (ix x)) ps t = Some t'"
proof (cases "for_each (\<lambda>x. slot_step (g x) (ix x)) ps t")
  case None
  with for_each_slots [OF assms(1,2), of g] assms(4) show ?thesis by auto
next
  case (Some u)
  with for_each_slots [OF assms(1,2), of g]
  have u: "length u = length t" "\<forall>x \<in> set ps. g x (t ! ix x) = Some (u ! ix x)"
    "\<forall>j. j \<notin> ix ` set ps \<longrightarrow> u ! j = t ! j" by auto
  have "u ! j = t' ! j" for j
    using u(2,3) assms(4,5) by (cases "j \<in> ix ` set ps") auto
  with u(1) assms(3) have "u = t'" by (intro nth_equalityI) simp_all
  with Some show ?thesis by simp
qed

subsection \<open>The loops are loops over pieces\<close>

abbreviation map_piece ::
  "(page_table \<Rightarrow> usize \<Rightarrow> usize \<Rightarrow> usize \<Rightarrow> page_flags \<Rightarrow> page_table run) \<Rightarrow>
   usize \<Rightarrow> page_flags \<Rightarrow> usize \<Rightarrow> usize \<Rightarrow> usize \<times> usize \<Rightarrow> page_table \<Rightarrow> page_table run" where
  "map_piece below l fl virt phys x \<equiv>
     slot_step (map_slot below l fl (fst x) (phys + (fst x - virt)) (snd x)) (vpn_segment (fst x) l)"

abbreviation unmap_piece ::
  "(page_table \<Rightarrow> usize \<Rightarrow> usize \<Rightarrow> usize \<Rightarrow> page_table run) \<Rightarrow>
   usize \<Rightarrow> usize \<Rightarrow> usize \<Rightarrow> usize \<times> usize \<Rightarrow> page_table \<Rightarrow> page_table run" where
  "unmap_piece below l virt phys x \<equiv>
     slot_step (unmap_slot below l (fst x) (phys + (fst x - virt)) (snd x)) (vpn_segment (fst x) l)"

lemma level_loops:
  assumes l: "l < 3" and n: "0 < n" and bound: "virt + n + psize l < usize_end"
  shows "\<exists>ps. tiles (psize l) virt (virt + n) ps \<and>
    (\<forall>below t fl. map_level below l t virt phys n fl = for_each (map_piece below l fl virt phys) ps t) \<and>
    (\<forall>below t. unmap_level below l t virt phys n = for_each (unmap_piece below l virt phys) ps t)"
proof -
  let ?A = "psize l"
  obtain pre al suf where al: "align_by (virt, virt + n) ?A = Some (pre, al, suf)"
    and tiles: "tiles ?A virt (virt + n)
      (range_piece pre @ map (\<lambda>v. (v, ?A)) (step_by al ?A) @ range_piece suf)"
    and part: "\<forall>x \<in> set (range_piece pre @ range_piece suf). snd x < ?A \<or> \<not> ?A dvd fst x"
    and steps: "\<forall>v \<in> set (step_by al ?A). ?A dvd v \<and> ?A dvd v - fst al \<and> fst al \<le> v \<and> virt \<le> fst al"
    and none: "is_empty_range al \<longrightarrow> step_by al ?A = []"
    using align_by_tiles [of ?A virt "virt + n"] n bound by auto
  have dvd: "?A dvd phys + (v - virt) \<longleftrightarrow> ?A dvd phys + (fst al - virt)"
    if "v \<in> set (step_by al ?A)" for v
  proof -
    have "phys + (v - virt) = (phys + (fst al - virt)) + (v - fst al)" using steps that by auto
    then show ?thesis using steps that by (metis dvd_add_left_iff)
  qed
  have m1: "(if \<not> is_empty_range r then map_below below l fl (fst r) (phys + (fst r - virt))
      (snd r - fst r) t else Some t) = for_each (map_piece below l fl virt phys) (range_piece r) t"
    if "r \<in> {pre, suf}" for r below fl t
  proof (cases "is_empty_range r")
    case False
    then have "snd r - fst r < ?A \<or> \<not> ?A dvd fst r"
      using part that by (auto simp: range_piece_def split: if_splits)
    then show ?thesis using False
      by (subst map_below_slot) (auto simp: range_piece_def)
  qed (simp add: range_piece_def)
  have u1: "(if \<not> is_empty_range r then unmap_below below l (fst r) (phys + (fst r - virt))
      (snd r - fst r) t else Some t) = for_each (unmap_piece below l virt phys) (range_piece r) t"
    if "r \<in> {pre, suf}" for r below t
  proof (cases "is_empty_range r")
    case False
    then have "snd r - fst r < ?A \<or> \<not> ?A dvd fst r"
      using part that by (auto simp: range_piece_def split: if_splits)
    then show ?thesis using False
      by (subst unmap_below_slot) (auto simp: range_piece_def)
  qed (simp add: range_piece_def)
  have m2: "(if \<not> is_empty_range al \<and> \<not> is_multiple_of (phys + (fst al - virt)) ?A
      then for_each (\<lambda>v. map_below below l fl v (phys + (v - virt)) ?A) (step_by al ?A) t
      else for_each (\<lambda>v t. map_leaf t v (phys + (v - virt)) fl l) (step_by al ?A) t) =
    for_each (map_piece below l fl virt phys) (map (\<lambda>v. (v, ?A)) (step_by al ?A)) t" for below fl t
  proof (cases "?A dvd phys + (fst al - virt)")
    case True
    have "for_each (\<lambda>v t. map_leaf t v (phys + (v - virt)) fl l) (step_by al ?A) t =
        for_each (\<lambda>v. map_piece below l fl virt phys (v, ?A)) (step_by al ?A) t"
      by (rule for_each_cong) (use steps dvd True in \<open>simp add: map_leaf_slot\<close>)
    with True show ?thesis by (simp add: for_each_map)
  next
    case False
    have "for_each (\<lambda>v. map_below below l fl v (phys + (v - virt)) ?A) (step_by al ?A) t =
        for_each (\<lambda>v. map_piece below l fl virt phys (v, ?A)) (step_by al ?A) t"
      by (rule for_each_cong) (use steps dvd False in \<open>simp add: map_below_slot\<close>)
    with False none show ?thesis by (cases "is_empty_range al") (simp_all add: for_each_map)
  qed
  have u2: "(if \<not> is_empty_range al \<and> \<not> is_multiple_of (phys + (fst al - virt)) ?A
      then for_each (\<lambda>v. unmap_below below l v (phys + (v - virt)) ?A) (step_by al ?A) t
      else for_each (\<lambda>v t. unmap_leaf t v (phys + (v - virt)) l) (step_by al ?A) t) =
    for_each (unmap_piece below l virt phys) (map (\<lambda>v. (v, ?A)) (step_by al ?A)) t" for below t
  proof (cases "?A dvd phys + (fst al - virt)")
    case True
    have "for_each (\<lambda>v t. unmap_leaf t v (phys + (v - virt)) l) (step_by al ?A) t =
        for_each (\<lambda>v. unmap_piece below l virt phys (v, ?A)) (step_by al ?A) t"
      by (rule for_each_cong) (use steps dvd True in \<open>simp add: unmap_leaf_slot\<close>)
    with True show ?thesis by (simp add: for_each_map)
  next
    case False
    have "for_each (\<lambda>v. unmap_below below l v (phys + (v - virt)) ?A) (step_by al ?A) t =
        for_each (\<lambda>v. unmap_piece below l virt phys (v, ?A)) (step_by al ?A) t"
      by (rule for_each_cong) (use steps dvd False in \<open>simp add: unmap_below_slot\<close>)
    with False none show ?thesis by (cases "is_empty_range al") (simp_all add: for_each_map)
  qed
  let ?ps = "range_piece pre @ map (\<lambda>v. (v, ?A)) (step_by al ?A) @ range_piece suf"
  have end_ok: "uadd virt n = Some (virt + n)" using bound by simp
  have "map_level below l t virt phys n fl = for_each (map_piece below l fl virt phys) ?ps t" for below t fl
    unfolding map_level_def level_page_size_eq [OF l] end_ok al Option.bind.simps case_prod_conv
      m1 [OF insertI1] m1 [OF insertI2, OF singletonI] m2
    by (simp add: for_each_append cong: Option.bind_cong)
  moreover have "unmap_level below l t virt phys n = for_each (unmap_piece below l virt phys) ?ps t" for below t
    unfolding unmap_level_def level_page_size_eq [OF l] end_ok al Option.bind.simps case_prod_conv
      u1 [OF insertI1] u1 [OF insertI2, OF singletonI] u2
    by (simp add: for_each_append cong: Option.bind_cong)
  ultimately show ?thesis using tiles by blast
qed

subsection \<open>Mapping a range, and taking it back\<close>

text \<open>What mapping a range does to a translation \<open>tr\<close>.\<close>

definition remap :: "page_flags \<Rightarrow> usize \<Rightarrow> usize \<Rightarrow> usize \<Rightarrow>
    (page_flags \<times> usize) option \<Rightarrow> usize \<Rightarrow> (page_flags \<times> usize) option" where
  "remap fl v p n old w = (if v \<le> w \<and> w < v + n then Some (fl, p + (w - v)) else old)"

abbreviation below_map :: "nat \<Rightarrow> page_table \<Rightarrow> usize \<Rightarrow> usize \<Rightarrow> usize \<Rightarrow> page_flags \<Rightarrow> page_table run" where
  "below_map l \<equiv> (case l of 0 \<Rightarrow> \<lambda>_ _ _ _ _. None | Suc k \<Rightarrow> map_impl k)"

abbreviation below_unmap :: "nat \<Rightarrow> page_table \<Rightarrow> usize \<Rightarrow> usize \<Rightarrow> usize \<Rightarrow> page_table run" where
  "below_unmap l \<equiv> (case l of 0 \<Rightarrow> \<lambda>_ _ _ _. None | Suc k \<Rightarrow> unmap_impl k)"

definition slot_ok :: "nat \<Rightarrow> page_flags \<Rightarrow> usize \<Rightarrow> usize \<Rightarrow> usize \<Rightarrow> pt_entry \<Rightarrow> bool" where
  "slot_ok l fl v p n e \<longleftrightarrow> (case map_slot (below_map l) l fl v p n e of
      None \<Rightarrow> \<exists>w. v \<le> w \<and> w < v + n \<and> etr l e w \<noteq> None
    | Some e' \<Rightarrow> (\<forall>w. v \<le> w \<and> w < v + n \<longrightarrow> etr l e w = None) \<and> wf_entry l e' \<and> e' \<noteq> Invalid \<and>
        (\<forall>w. w div psize l = v div psize l \<longrightarrow> etr l e' w = remap fl v p n (etr l e w) w) \<and>
        unmap_slot (below_unmap l) l v p n e' = Some e)"

definition range_ok :: "nat \<Rightarrow> page_table \<Rightarrow> usize \<Rightarrow> usize \<Rightarrow> usize \<Rightarrow> page_flags \<Rightarrow> bool" where
  "range_ok l t v p n fl \<longleftrightarrow> (case map_impl l t v p n fl of
      None \<Rightarrow> \<exists>w. v \<le> w \<and> w < v + n \<and> translate l t w \<noteq> None
    | Some t' \<Rightarrow> (\<forall>w. v \<le> w \<and> w < v + n \<longrightarrow> translate l t w = None) \<and> wf_table l t' \<and>
        \<not> is_completely_unmapped t' \<and>
        (\<forall>w. w div psize (Suc l) = v div psize (Suc l) \<longrightarrow>
          translate l t' w = remap fl v p n (translate l t w) w) \<and>
        unmap_impl l t' v p n = Some t)"

text \<open>A piece that fills its slot and is aligned as the slot is becomes a leaf.\<close>

lemma slot_ok_leaf:
  assumes wf: "wf_entry l e" and v: "psize l dvd v" and p: "psize l dvd p"
  shows "slot_ok l fl v p (psize l) e"
proof (cases e)
  case Invalid
  have "p + w mod psize l = p + (w - v) \<and> v \<le> w \<and> w < v + psize l"
    if "w div psize l = v div psize l" for w
  proof -
    obtain k where k: "v = psize l * k" using v by blast
    then have "w div psize l = k" using that by simp
    then have "w = v + w mod psize l" using k by (metis mult_div_mod_eq)
    moreover have "w mod psize l < psize l" by simp
    ultimately show ?thesis by linarith
  qed
  then show ?thesis using Invalid assms by (simp add: slot_ok_def map_slot_def unmap_slot_def remap_def)
next
  case (Leaf f q)
  then show ?thesis using assms by (auto simp: slot_ok_def map_slot_def intro!: exI [of _ v])
next
  case (Indirect t)
  with wf obtain k where k: "l = Suc k" "wf_table k t" "\<not> is_completely_unmapped t"
    by (cases l) auto
  obtain w where w: "w div psize (Suc k) = v div psize (Suc k)" "translate k t w \<noteq> None"
    using nonempty_mapped [OF k(2,3)] v k(1) by blast
  obtain m where m: "v = psize l * m" using v by blast
  have "w div psize l = m" using w(1) m k(1) by simp
  then have "w = v + w mod psize l" using m by (metis mult_div_mod_eq)
  moreover have "w mod psize l < psize l" by simp
  ultimately have "v \<le> w" "w < v + psize l" by linarith+
  with w(2) Indirect assms k(1) show ?thesis
    by (auto simp: slot_ok_def map_slot_def intro!: exI [of _ w])
qed

text \<open>Any other piece goes one level down.\<close>

lemma slot_ok_below:
  assumes wf: "wf_entry (Suc k) e" and n: "0 < n"
    and part: "\<not> (n = psize (Suc k) \<and> psize (Suc k) dvd v \<and> psize (Suc k) dvd p)"
    and inside: "v div psize (Suc k) = (v + n - 1) div psize (Suc k)"
    and below: "\<And>t. wf_table k t \<Longrightarrow> range_ok k t v p n fl"
  shows "slot_ok (Suc k) fl v p n e"
proof -
  have same: "w div psize (Suc k) = v div psize (Suc k)" if "v \<le> w" "w < v + n" for w
  proof -
    have "v div psize (Suc k) \<le> w div psize (Suc k)" using that(1) by (rule div_le_mono)
    moreover have "w div psize (Suc k) \<le> (v + n - 1) div psize (Suc k)" using that(2) by (intro div_le_mono) simp
    ultimately show ?thesis using inside by simp
  qed
  have sub: "slot_ok (Suc k) fl v p n e"
    if tr: "\<And>w. etr (Suc k) e w = translate k t w" and t: "wf_table k t"
      and e: "e = Invalid \<and> t = table_new \<or> e = Indirect t \<and> \<not> is_completely_unmapped t" for t
  proof -
    have map: "map_slot (map_impl k) (Suc k) fl v p n e =
        map_option Indirect (map_impl k t v p n fl)"
      using e part by (auto simp: map_slot_def map_conv_bind_option comp_def)
    show ?thesis
    proof (cases "map_impl k t v p n fl")
      case None
      with below [OF t] tr map show ?thesis by (auto simp: slot_ok_def range_ok_def)
    next
      case (Some t')
      have r: "\<forall>w. v \<le> w \<and> w < v + n \<longrightarrow> translate k t w = None" "wf_table k t'"
        "\<not> is_completely_unmapped t'" "\<forall>w. w div psize (Suc k) = v div psize (Suc k) \<longrightarrow>
          translate k t' w = remap fl v p n (translate k t w) w"
        "unmap_impl k t' v p n = Some t"
        using below [OF t] Some by (auto simp: range_ok_def)
      have "unmap_slot (unmap_impl k) (Suc k) v p n (Indirect t') = Some e"
        using part r(5) e by (auto simp: unmap_slot_def new_table(2))
      with r tr map Some show ?thesis by (simp add: slot_ok_def)
    qed
  qed
  show ?thesis
  proof (cases e)
    case Invalid
    then show ?thesis by (intro sub [of table_new]) (simp_all add: new_table)
  next
    case (Indirect t)
    then show ?thesis using wf by (intro sub [of t]) simp_all
  next
    case (Leaf f q)
    then have "map_slot (map_impl k) (Suc k) fl v p n e = None" using part by (simp add: map_slot_def)
    then show ?thesis using Leaf n by (auto simp: slot_ok_def intro!: exI [of _ v])
  qed
qed

lemma whole_page:
  assumes "4096 dvd a" "4096 dvd m" "0 < m" "a div 4096 = (a + m - 1) div (4096 :: nat)"
  shows "m = 4096"
proof -
  obtain i j where ij: "a = 4096 * i" "m = 4096 * j" using assms(1,2) by (auto elim!: dvdE)
  show ?thesis
  proof (rule ccontr)
    assume "m \<noteq> 4096"
    with ij assms(3) have "2 \<le> j" by (cases j) auto
    then have "a + m - 1 \<ge> 4096 * (i + 1)" using ij by simp
    then have "(4096 * (i + 1)) div 4096 \<le> (a + m - 1) div 4096" by (rule div_le_mono)
    then show False using assms(4) ij by simp
  qed
qed

text \<open>
  Pieces of page-aligned ranges are page-aligned, so nothing goes below level 0.  The pieces
  carry the alignment along as a further invariant.
\<close>

lemma tiles_dvd:
  "tiles A s e ps \<Longrightarrow> 4096 dvd A \<Longrightarrow> 4096 dvd s \<Longrightarrow> 4096 dvd e \<Longrightarrow> (v, n) \<in> set ps \<Longrightarrow>
   4096 dvd v \<and> 4096 dvd (n :: nat)"
proof (induction A s e ps rule: tiles.induct)
  case (2 A s e v' n' ps)
  have "4096 dvd n'"
  proof (cases "ps = []")
    case True
    then show ?thesis using 2 by (metis dvd_add_right_iff tiles.simps)
  next
    case False
    then have "4096 dvd s + n'" using 2 by (metis dvd_trans tiles.simps(2))
    then show ?thesis using 2 by (metis dvd_add_right_iff)
  qed
  with 2 show ?case by auto
qed simp

lemma between_div:
  "(a :: nat) \<le> w \<Longrightarrow> w < b \<Longrightarrow> a div d = (b - 1) div d \<Longrightarrow> w div d = a div d"
  by (metis Suc_pred' div_le_mono le_antisym less_Suc_eq_le not_less_zero gr0I)

lemma map_impl_level: "map_impl l = map_level (below_map l) l"
  by (cases l) simp_all

lemma unmap_impl_level: "unmap_impl l = unmap_level (below_unmap l) l"
  by (cases l) simp_all

lemma range_ok_pieces:
  assumes l: "l < 3" and wf: "wf_table l t" and n: "0 < n" and bound: "v + n + psize l < usize_end"
    and page: "v div psize (Suc l) = (v + n - 1) div psize (Suc l)"
    and slots: "\<And>a m e. wf_entry l e \<Longrightarrow> 0 < m \<Longrightarrow> v \<le> a \<Longrightarrow> a + m \<le> v + n \<Longrightarrow>
      a div psize l = (a + m - 1) div psize l \<Longrightarrow> 4096 dvd a \<Longrightarrow> 4096 dvd m \<Longrightarrow>
      slot_ok l fl a (p + (a - v)) m e"
    and aligned: "4096 dvd v" "4096 dvd n"
  shows "range_ok l t v p n fl"
proof -
  let ?A = "psize l" and ?P = "psize (Suc l)"
  obtain ps where tl: "tiles ?A v (v + n) ps"
    and m: "\<And>t. map_impl l t v p n fl = for_each (map_piece (below_map l) l fl v p) ps t"
    and u: "\<And>t. unmap_impl l t v p n = for_each (unmap_piece (below_unmap l) l v p) ps t"
    using level_loops [OF l n bound] unfolding map_impl_level [of l] unmap_impl_level [of l] by blast
  define ix where "ix x = vpn_segment (fst x) l" for x :: "usize \<times> usize"
  define g where "g x = map_slot (below_map l) l fl (fst x) (p + (fst x - v)) (snd x)" for x
  define h where "h x = unmap_slot (below_unmap l) l (fst x) (p + (fst x - v)) (snd x)" for x
  have inside: "v \<le> fst x \<and> fst x + snd x \<le> v + n \<and> 0 < snd x \<and>
      fst x div ?A = (fst x + snd x - 1) div ?A" if "x \<in> set ps" for x
    using tiles_inside [OF tl, of "fst x" "snd x"] that by simp
  have samep: "w div ?P = v div ?P" if "v \<le> w" "w < v + n" for w
    by (rule between_div [OF that page])
  have ixp: "fst x div ?P = v div ?P" if "x \<in> set ps" for x
    using inside [OF that] by (intro samep) simp_all
  have inp: "w div ?A = fst x div ?A \<and> vpn_segment w l = ix x \<and> v \<le> w \<and> w < v + n"
    if "x \<in> set ps" "fst x \<le> w" "w < fst x + snd x" for w x
  proof -
    have a: "w div ?A = fst x div ?A" using inside [OF that(1)] by (intro between_div [OF that(2,3)]) simp
    have r: "v \<le> w" "w < v + n" using inside [OF that(1)] that(2,3) by auto
    have "w div ?P = fst x div ?P" unfolding ixp [OF that(1)] by (rule samep [OF r])
    from same_slot [OF this] a r show ?thesis by (simp add: ix_def)
  qed
  have dist_div: "distinct (map (\<lambda>x. fst x div ?A) ps)"
    using tiles_slots [OF tl] by (simp add: case_prod_unfold strict_sorted_iff)
  have inj: "ix x = ix y \<longleftrightarrow> fst x div ?A = fst y div ?A" if "x \<in> set ps" "y \<in> set ps" for x y
    using ixp [OF that(1)] ixp [OF that(2)] unfolding ix_def by (intro same_slot) simp
  have dist: "distinct (map ix ps)"
    using dist_div inj by (auto simp: distinct_map inj_on_def)
  have ixlen: "\<forall>x \<in> set ps. ix x < length t" by (simp add: wf_length [OF wf] ix_def)
  have wfe: "wf_entry l (t ! ix x)" for x
    using wf by (simp add: wf_table_entries ix_def)
  have ok: "slot_ok l fl (fst x) (p + (fst x - v)) (snd x) (t ! ix x)" if "x \<in> set ps" for x
    using inside [OF that] tiles_dvd [OF tl psize_dvd, of "fst x" "snd x"] aligned that
    by (intro slots wfe) simp_all
  note loop = for_each_slots [OF dist ixlen, of g]
  have mt: "map_impl l t v p n fl = for_each (\<lambda>x. slot_step (g x) (ix x)) ps t"
    unfolding m g_def ix_def ..
  show ?thesis
  proof (cases "map_impl l t v p n fl")
    case None
    then obtain x where x: "x \<in> set ps" "g x (t ! ix x) = None" using loop mt by auto
    then obtain w where w: "fst x \<le> w" "w < fst x + snd x" "etr l (t ! ix x) w \<noteq> None"
      using ok [OF x(1)] by (auto simp: slot_ok_def g_def)
    with inp [OF x(1) w(1,2)] None show ?thesis
      by (auto simp: range_ok_def translate_etr [of l t w])
  next
    case (Some t')
    then have t': "length t' = length t" "\<And>x. x \<in> set ps \<Longrightarrow> g x (t ! ix x) = Some (t' ! ix x)"
      "\<And>j. j \<notin> ix ` set ps \<Longrightarrow> t' ! j = t ! j" using loop mt by auto
    have slot: "(\<forall>w. fst x \<le> w \<and> w < fst x + snd x \<longrightarrow> etr l (t ! ix x) w = None) \<and>
        wf_entry l (t' ! ix x) \<and> t' ! ix x \<noteq> Invalid \<and>
        (\<forall>w. w div ?A = fst x div ?A \<longrightarrow>
          etr l (t' ! ix x) w = remap fl (fst x) (p + (fst x - v)) (snd x) (etr l (t ! ix x) w) w) \<and>
        h x (t' ! ix x) = Some (t ! ix x)" if "x \<in> set ps" for x
      using ok [OF that] t'(2) [OF that] by (simp add: slot_ok_def g_def h_def)
    have free: "translate l t w = None" if vw: "v \<le> w" "w < v + n" for w
    proof -
      obtain x where x: "x \<in> set ps" "fst x \<le> w" "w < fst x + snd x"
        using tiles_cover [OF tl vw] by auto
      with slot [OF x(1)] inp [OF x] show ?thesis by (simp add: translate_etr [of l t w])
    qed
    have "wf_entry l (t' ! i)" if "i < 512" for i
      using slot t'(3) [of i] wf that by (cases "i \<in> ix ` set ps") (auto simp: wf_table_entries)
    then have wf': "wf_table l t'" using t'(1) wf by (simp add: wf_table_entries)
    have "ps \<noteq> []" using tl n by auto
    then obtain x0 where x0: "x0 \<in> set ps" by (cases ps) auto
    have "\<not> is_completely_unmapped t'"
      using slot [OF x0] unmapped_entries [OF wf_length [OF wf']] vpn_less
      by (auto simp: ix_def)
    moreover have "translate l t' w = remap fl v p n (translate l t w) w" if w: "w div ?P = v div ?P" for w
    proof (cases "vpn_segment w l \<in> ix ` set ps")
      case True
      then obtain x where x: "x \<in> set ps" "vpn_segment w l = ix x" by auto
      have wx: "w div ?A = fst x div ?A"
        using x(2) ixp [OF x(1)] w unfolding ix_def by (metis same_slot)
      have "v \<le> w \<and> w < v + n \<longleftrightarrow> fst x \<le> w \<and> w < fst x + snd x"
      proof
        assume "v \<le> w \<and> w < v + n"
        then obtain y where y: "y \<in> set ps" "fst y \<le> w" "w < fst y + snd y"
          using tiles_cover [OF tl, of w] by auto
        then have "fst y div ?A = fst x div ?A" using inp [OF y] wx by simp
        then have "y = x" using dist_div x(1) y(1) by (auto simp: distinct_map inj_on_def)
        with y show "fst x \<le> w \<and> w < fst x + snd x" by simp
      qed (use inside [OF x(1)] in auto)
      moreover have "p + (fst x - v) + (w - fst x) = p + (w - v)" if "fst x \<le> w"
        using inside [OF x(1)] that by simp
      ultimately show ?thesis
        using slot [OF x(1)] wx x(2) by (auto simp: translate_etr remap_def)
    next
      case False
      have "\<not> (v \<le> w \<and> w < v + n)"
      proof
        assume "v \<le> w \<and> w < v + n"
        then obtain y where y: "y \<in> set ps" "fst y \<le> w" "w < fst y + snd y"
          using tiles_cover [OF tl, of w] by auto
        with inp [OF y] False show False by auto
      qed
      then show ?thesis using t'(3) [OF False] by (auto simp: translate_etr remap_def)
    qed
    moreover have "unmap_impl l t' v p n = Some t"
    proof -
      have "for_each (\<lambda>x. slot_step (h x) (ix x)) ps t' = Some t"
        by (rule for_each_slots_to [OF dist]) (use ixlen t' slot in auto)
      then show ?thesis unfolding u h_def ix_def .
    qed
    ultimately show ?thesis using free wf' Some by (auto simp: range_ok_def)
  qed
qed

lemma range_ok_all:
  assumes "l < 3" "wf_table l t" "0 < n" "v + n \<le> 549755813888"
    and "v div psize (Suc l) = (v + n - 1) div psize (Suc l)"
    and "4096 dvd v" "4096 dvd n" "4096 dvd p"
  shows "range_ok l t v p n fl"
  using assms
proof (induction l arbitrary: t v n p)
  case 0
  show ?case
  proof (rule range_ok_pieces [OF "0.prems"(1,2,3) _ "0.prems"(5) _ "0.prems"(6,7)])
    show "v + n + psize 0 < usize_end" using "0.prems"(4) by simp
    fix a m e
    assume e: "wf_entry 0 e" and m: "0 < m" "4096 dvd a" "4096 dvd m" "v \<le> a"
      "a div psize 0 = (a + m - 1) div psize 0"
    have "m = 4096" using whole_page [of a m] m by simp
    moreover have "4096 dvd p + (a - v)" using "0.prems"(6,8) m by simp
    ultimately show "slot_ok 0 fl a (p + (a - v)) m e"
      using slot_ok_leaf [OF e, of a "p + (a - v)"] m by simp
  qed
next
  case (Suc k)
  show ?case
  proof (rule range_ok_pieces [OF Suc.prems(1,2,3) _ Suc.prems(5) _ Suc.prems(6,7)])
    have "k = 0 \<or> k = 1" using Suc.prems(1) by auto
    then have "psize (Suc k) \<le> psize 2" by (auto simp: psize_def)
    then show "v + n + psize (Suc k) < usize_end" using Suc.prems(4) by (simp add: psize_def)
    fix a m e
    assume e: "wf_entry (Suc k) e" and m: "0 < m" "4096 dvd a" "4096 dvd m" "v \<le> a" "a + m \<le> v + n"
      and slot: "a div psize (Suc k) = (a + m - 1) div psize (Suc k)"
    have p: "4096 dvd p + (a - v)" using Suc.prems(6,8) m by simp
    show "slot_ok (Suc k) fl a (p + (a - v)) m e"
    proof (cases "m = psize (Suc k) \<and> psize (Suc k) dvd a \<and> psize (Suc k) dvd p + (a - v)")
      case True
      then show ?thesis using slot_ok_leaf [OF e] by simp
    next
      case False
      show ?thesis
      proof (rule slot_ok_below [OF e m(1) False slot])
        fix t assume "wf_table k t"
        then show "range_ok k t a (p + (a - v)) m fl"
          using Suc.IH [of t m a "p + (a - v)"] Suc.prems(1,4) m p slot by simp
      qed
    qed
  qed
qed

lemma check_mapping_Some:
  "check_mapping virt phys sz = Some u \<longleftrightarrow>
     4096 dvd virt \<and> virt < 549755813888 \<and> virt + sz \<le> 549755813888 \<and>
     4096 dvd phys \<and> phys < 274877906944 \<and> phys + sz \<le> 274877906944 \<and> 4096 dvd sz"
  by (auto simp: check_mapping_def run_Some)

lemma table_map_cases:
  assumes wf: "wf_table 2 t" and sz: "0 < sz" and chk: "check_mapping virt phys sz = Some ()"
  shows "range_ok 2 t virt phys sz fl"
proof (rule range_ok_all)
  have "virt + sz \<le> 549755813888" using chk by (simp add: check_mapping_Some)
  then show "virt div psize (Suc 2) = (virt + sz - 1) div psize (Suc 2)"
    using sz by (simp add: psize_def)
qed (use assms in \<open>simp_all add: check_mapping_Some\<close>)

lemma root_page: "w < 549755813888 \<Longrightarrow> w div psize (Suc 2) = 0"
  by (simp add: psize_def)

lemma table_map_Some:
  assumes wf: "wf_table 2 t" and sz: "0 < sz" and m: "table_map t virt phys sz fl = Some t'"
  shows "(\<forall>w. virt \<le> w \<and> w < virt + sz \<longrightarrow> translate 2 t w = None) \<and> wf_table 2 t' \<and>
    (\<forall>w < snd VIRTUAL_ADDRESSES. translate 2 t' w = remap fl virt phys sz (translate 2 t w) w) \<and>
    table_unmap t' virt phys sz = Some t"
proof -
  have chk: "check_mapping virt phys sz = Some ()" and "map_impl 2 t virt phys sz fl = Some t'"
    using m by (auto simp: table_map_def run_Some)
  with table_map_cases [OF wf sz chk, of fl]
  have r: "\<forall>w. virt \<le> w \<and> w < virt + sz \<longrightarrow> translate 2 t w = None" "wf_table 2 t'"
    "\<forall>w. w div psize (Suc 2) = virt div psize (Suc 2) \<longrightarrow>
      translate 2 t' w = remap fl virt phys sz (translate 2 t w) w"
    "unmap_impl 2 t' virt phys sz = Some t" unfolding range_ok_def by auto
  have "virt < 549755813888" using chk by (simp add: check_mapping_Some)
  then have "\<forall>w < snd VIRTUAL_ADDRESSES. translate 2 t' w = remap fl virt phys sz (translate 2 t w) w"
    using r(3) root_page by simp
  with r show ?thesis by (simp add: table_unmap_def chk)
qed

lemma table_map_None:
  assumes wf: "wf_table 2 t" and sz: "0 < sz" and chk: "check_mapping virt phys sz = Some ()"
    and free: "\<forall>w. virt \<le> w \<and> w < virt + sz \<longrightarrow> translate 2 t w = None"
  shows "\<exists>t'. table_map t virt phys sz fl = Some t'"
proof -
  have "map_impl 2 t virt phys sz fl \<noteq> None"
  proof
    assume "map_impl 2 t virt phys sz fl = None"
    then obtain w where w: "virt \<le> w" "w < virt + sz" "translate 2 t w \<noteq> None"
      using table_map_cases [OF wf sz chk, of fl] unfolding range_ok_def by auto
    with free [rule_format, of w] show False by simp
  qed
  then show ?thesis by (simp add: table_map_def chk)
qed

lemma is_mapped_impl_translate:
  "wf_table l t \<Longrightarrow> is_mapped_impl l t v = Some (translate l t v \<noteq> None)"
proof (induction l arbitrary: t)
  case 0
  then have "wf_entry 0 (t ! vpn_segment v 0)" "length t = 512" by (simp_all add: wf_table_entries del: wf_table.simps)
  then show ?case by (cases "t ! vpn_segment v 0") (auto simp: Let_def)
next
  case (Suc l)
  then have "wf_entry (Suc l) (t ! vpn_segment v (Suc l))" "length t = 512"
    by (simp_all add: wf_table_entries del: wf_table.simps)
  then show ?case using Suc.IH by (cases "t ! vpn_segment v (Suc l)") (auto simp: Let_def)
qed

subsection \<open>Properties\<close>

text \<open>
  C3: \<open>PageTable::map\<close> maps exactly the range it is given.  On a well-formed table it succeeds
  exactly when its arguments pass the checks and no address of the range is mapped; then the
  hardware's walk translates every address of the range to the physical address at the same
  offset with the given flags, whatever mix of pages, megapages and gigapages was used, every
  other address translates as before, and the table stays well-formed (its superpages aligned,
  none of its tables empty).
\<close>

theorem page_table_map_spec:
  assumes "wf_table 2 t" "0 < sz"
  shows "case table_map t virt phys sz fl of
      None \<Rightarrow> check_mapping virt phys sz = None \<or>
        (\<exists>w. virt \<le> w \<and> w < virt + sz \<and> translate 2 t w \<noteq> None)
    | Some t' \<Rightarrow> check_mapping virt phys sz = Some () \<and>
        (\<forall>w. virt \<le> w \<and> w < virt + sz \<longrightarrow> translate 2 t w = None) \<and> wf_table 2 t' \<and>
        (\<forall>w < snd VIRTUAL_ADDRESSES. translate 2 t' w =
          (if virt \<le> w \<and> w < virt + sz then Some (fl, phys + (w - virt)) else translate 2 t w))"
proof (cases "table_map t virt phys sz fl")
  case None
  have "\<exists>w. virt \<le> w \<and> w < virt + sz \<and> translate 2 t w \<noteq> None"
    if chk: "check_mapping virt phys sz = Some ()"
  proof (rule ccontr)
    assume "\<not> ?thesis"
    then have "\<forall>w. virt \<le> w \<and> w < virt + sz \<longrightarrow> translate 2 t w = None"
      by (simp del: not_None_eq add: imp_conjL)
    from table_map_None [OF assms chk this, of fl] None show False by simp
  qed
  with None show ?thesis by (cases "check_mapping virt phys sz") simp_all
next
  case (Some t')
  then have "check_mapping virt phys sz = Some ()" by (auto simp: table_map_def run_Some)
  with Some table_map_Some [OF assms Some] show ?thesis by (auto simp: remap_def)
qed

theorem page_table_map_spec_witness:
  "\<exists>t'. table_map table_new 0x1000 0x80200000 0x3000 (flags_user flags_readonly) = Some t' \<and>
     translate 2 t' 0x2010 = Some (flags_user flags_readonly, 0x80201010)"
  using page_table_map_spec [OF new_table(1), of "0x3000" "0x1000" "0x80200000" "flags_user flags_readonly"]
  by (auto simp: check_mapping_def new_table(3) split: option.splits)

text \<open>
  C4: \<open>PageTable::unmap\<close> undoes \<open>PageTable::map\<close>.  Unmapping what was just mapped, with the same
  arguments, never panics and gives back the very table there was before, the indirect tables
  that mapping had to add included.
\<close>

theorem page_table_unmap_map:
  assumes "wf_table 2 t" "0 < sz" "table_map t virt phys sz fl = Some t'"
  shows "table_unmap t' virt phys sz = Some t"
  using table_map_Some [OF assms] by blast

theorem page_table_unmap_map_witness:
  "\<exists>t'. table_map table_new 0x1000 0x80200000 0x3000 flags_executable = Some t' \<and>
     table_unmap t' 0x1000 0x80200000 0x3000 = Some table_new"
proof -
  obtain t' where "table_map table_new 0x1000 0x80200000 0x3000 flags_executable = Some t'"
    using table_map_None [OF new_table(1), of "0x3000" "0x1000" "0x80200000"]
    by (auto simp: check_mapping_def new_table(3))
  with page_table_unmap_map [OF new_table(1) _ this] show ?thesis by simp
qed

text \<open>
  the direct mapping is the inverse of the kernel's address arithmetic.  In a table whose
  upper half is free \<open>map_hh_direct_mapping\<close> succeeds, and then every physical address is
  reachable at the virtual address \<open>phys_to_virt\<close> computes: the walk of its low 39 bits gives the
  physical address back, and so does \<open>virt_to_phys\<close>.
\<close>

theorem direct_mapping_translates:
  assumes "wf_table 2 t" "\<forall>w. fst DIRECT_MAPPING \<le> w \<and> w < snd DIRECT_MAPPING \<longrightarrow> translate 2 t w = None"
  shows "\<exists>t'. map_hh_direct_mapping t = Some t' \<and>
    (\<forall>p < snd PHYSICAL_ADDRESSES. \<exists>v. phys_to_virt p = Some v \<and> virt_to_phys v = Some p \<and>
       translate 2 t' (sign_unextend v) = Some (flags_read_write_execute, p))"
proof -
  have chk: "check_mapping 274877906944 0 274877906944 = Some ()"
    by (simp add: check_mapping_def)
  obtain t' where t': "table_map t 274877906944 0 274877906944 flags_read_write_execute = Some t'"
    using table_map_None [OF assms(1) _ chk] assms(2) by auto
  have "sign_unextend (p + upper_half) = p + 274877906944" if "p < 274877906944" for p
    using virt_to_phys_upper [OF that] unfolding virt_to_phys_def by (auto simp: Let_def split: if_splits)
  with table_map_Some [OF assms(1) _ t'] t' show ?thesis
    by (simp add: map_hh_direct_mapping_def phys_to_virt_eq virt_to_phys_upper remap_def)
qed

theorem direct_mapping_translates_witness:
  "\<exists>t'. map_hh_direct_mapping table_new = Some t' \<and>
     (\<exists>v. phys_to_virt 0x80200000 = Some v \<and>
       translate 2 t' (sign_unextend v) = Some (flags_read_write_execute, 0x80200000))"
proof -
  obtain t' where "map_hh_direct_mapping table_new = Some t'"
    and "\<forall>p < snd PHYSICAL_ADDRESSES. \<exists>v. phys_to_virt p = Some v \<and> virt_to_phys v = Some p \<and>
       translate 2 t' (sign_unextend v) = Some (flags_read_write_execute, p)"
    using direct_mapping_translates [OF new_table(1)] new_table(3) by blast
  moreover have "2149580800 < snd PHYSICAL_ADDRESSES" by simp
  ultimately show ?thesis by blast
qed

end
