(* ===== verification/Page_Table_Commute.thy ===== *)
theory Page_Table_Commute
  imports Page_Table_Correct
begin

text \<open>
  Mappings of different ranges commute, so a range can be unmapped whatever has been mapped
  after it: the table is the one that the other mappings alone would have made.
\<close>

lemma range_pieces:
  assumes l: "l < 3" and n: "0 < n" and bound: "v + n \<le> 549755813888"
    and page: "v div psize (Suc l) = (v + n - 1) div psize (Suc l)"
  shows "\<exists>ps. distinct (map (\<lambda>x. vpn_segment (fst x) l) ps) \<and>
    (\<forall>x \<in> set ps. v \<le> fst x \<and> fst x + snd x \<le> v + n \<and> 0 < snd x \<and>
       fst x div psize l = (fst x + snd x - 1) div psize l) \<and>
    (\<forall>t fl. map_impl l t v p n fl = for_each (map_piece (below_map l) l fl v p) ps t)"
proof -
  have "psize l \<le> psize 2" using l by (auto simp: psize_def less_Suc_eq numeral_3_eq_3)
  then have b: "v + n + psize l < usize_end" using bound by (simp add: psize_def)
  obtain ps where tl: "tiles (psize l) v (v + n) ps"
    and m: "\<forall>t fl. map_impl l t v p n fl = for_each (map_piece (below_map l) l fl v p) ps t"
    using level_loops [OF l n b, of p] unfolding map_impl_level [of l] by blast
  have inside: "v \<le> fst x \<and> fst x + snd x \<le> v + n \<and> 0 < snd x \<and>
      fst x div psize l = (fst x + snd x - 1) div psize l" if "x \<in> set ps" for x
    using tiles_inside [OF tl, of "fst x" "snd x"] that by simp
  have ixp: "fst x div psize (Suc l) = v div psize (Suc l)" if "x \<in> set ps" for x
    using inside [OF that] by (intro between_div [OF _ _ page]) auto
  have "distinct (map (\<lambda>x. fst x div psize l) ps)"
    using tiles_slots [OF tl] by (simp add: case_prod_unfold strict_sorted_iff)
  moreover have "vpn_segment (fst x) l = vpn_segment (fst y) l \<longleftrightarrow> fst x div psize l = fst y div psize l"
    if "x \<in> set ps" "y \<in> set ps" for x y
    using ixp [OF that(1)] ixp [OF that(2)] by (intro same_slot) simp
  ultimately have "distinct (map (\<lambda>x. vpn_segment (fst x) l) ps)"
    by (auto simp: distinct_map inj_on_def)
  with m inside show ?thesis by blast
qed

lemma map_slot_below:
  assumes "map_slot (map_impl k) (Suc k) fl v p n e = Some e'" "e' = Indirect t'"
  shows "\<exists>t. (e = Invalid \<and> t = table_new \<or> e = Indirect t) \<and> map_impl k t v p n fl = Some t'"
  using assms by (cases e) (auto simp: map_slot_def run_Some split: if_splits)

text \<open>Two pieces in one slot: both are mapped a level down, where the claim is the same.\<close>

lemma slot_commute:
  assumes below: "\<And>t tA tAB tB tBA. wf_table k t \<Longrightarrow> map_impl k t v p n fl = Some tA \<Longrightarrow>
      map_impl k tA w q m gl = Some tAB \<Longrightarrow> map_impl k t w q m gl = Some tB \<Longrightarrow>
      map_impl k tB v p n fl = Some tBA \<Longrightarrow> tAB = tBA"
    and wf: "wf_entry (Suc k) e"
    and steps: "map_slot (map_impl k) (Suc k) fl v p n e = Some eA"
      "map_slot (map_impl k) (Suc k) gl w q m eA = Some eAB"
      "map_slot (map_impl k) (Suc k) gl w q m e = Some eB"
      "map_slot (map_impl k) (Suc k) fl v p n eB = Some eBA"
  shows "eAB = eBA"
proof -
  have indirect: "\<exists>t. x = Indirect t" if "map_slot (map_impl k) (Suc k) fl v p n y = Some x"
    "map_slot (map_impl k) (Suc k) gl w q m x = Some z" for x y z fl v p n gl w q m
  proof (cases x)
    case Invalid
    with that(1) show ?thesis by (auto simp: map_slot_def run_Some split: if_splits)
  qed (use that in \<open>auto simp: map_slot_def split: if_splits\<close>)
  obtain tA where tA: "eA = Indirect tA" using indirect [OF steps(1,2)] by blast
  obtain tB where tB: "eB = Indirect tB" using indirect [OF steps(3,4)] by blast
  obtain t where t: "e = Invalid \<and> t = table_new \<or> e = Indirect t" "map_impl k t v p n fl = Some tA"
    using map_slot_below [OF steps(1) tA] by blast
  obtain t' where t': "e = Invalid \<and> t' = table_new \<or> e = Indirect t'" "map_impl k t' w q m gl = Some tB"
    using map_slot_below [OF steps(3) tB] by blast
  have same: "t' = t" using t(1) t'(1) by auto
  have wt: "wf_table k t" using t(1) wf by (auto simp: new_table(1))
  have notleaf: "\<not> (n = psize (Suc k) \<and> psize (Suc k) dvd v \<and> psize (Suc k) dvd p)"
    "\<not> (m = psize (Suc k) \<and> psize (Suc k) dvd w \<and> psize (Suc k) dvd q)"
    using steps(1,3) tA tB by (auto simp: map_slot_def split: if_splits)
  obtain tAB where tAB: "eAB = Indirect tAB" "map_impl k tA w q m gl = Some tAB"
    using steps(2) tA notleaf by (auto simp: map_slot_def run_Some)
  obtain tBA where tBA: "eBA = Indirect tBA" "map_impl k tB v p n fl = Some tBA"
    using steps(4) tB notleaf by (auto simp: map_slot_def run_Some)
  have "tAB = tBA" using below [OF wt t(2) tAB(2)] t'(2) tBA(2) same by blast
  with tAB tBA show ?thesis by simp
qed

lemma for_each_slots_Some:
  assumes "distinct (map ix ps)" "\<forall>x \<in> set ps. ix x < length t"
    and "for_each (\<lambda>x. slot_step (g x) (ix x)) ps t = Some t'"
  shows "length t' = length t" "(\<exists>x \<in> set ps. ix x = j \<and> g x (t ! j) = Some (t' ! j)) \<or> (j \<notin> ix ` set ps \<and> t' ! j = t ! j)"
proof -
  have r: "length t' = length t" "\<forall>x \<in> set ps. g x (t ! ix x) = Some (t' ! ix x)"
    "\<forall>j. j \<notin> ix ` set ps \<longrightarrow> t' ! j = t ! j"
    using for_each_slots [OF assms(1,2), of g] assms(3) by auto
  show "length t' = length t" by (rule r(1))
  show "(\<exists>x \<in> set ps. ix x = j \<and> g x (t ! j) = Some (t' ! j)) \<or> (j \<notin> ix ` set ps \<and> t' ! j = t ! j)"
    using r(2,3) by (cases "j \<in> ix ` set ps") auto
qed

lemma distinct_index:
  "distinct (map f xs) \<Longrightarrow> x \<in> set xs \<Longrightarrow> y \<in> set xs \<Longrightarrow> f x = f y \<Longrightarrow> x = y"
  by (auto simp: distinct_map inj_on_def)

lemma map_commute_level:
  assumes l: "l < 3" and wf: "wf_table l t"
    and A: "0 < n" "v + n \<le> 549755813888" "v div psize (Suc l) = (v + n - 1) div psize (Suc l)"
    and B: "0 < m" "w + m \<le> 549755813888" "w div psize (Suc l) = (w + m - 1) div psize (Suc l)"
    and maps: "map_impl l t v p n fl = Some tA" "map_impl l tA w q m gl = Some tAB"
      "map_impl l t w q m gl = Some tB" "map_impl l tB v p n fl = Some tBA"
    and slots: "\<And>a j b i e eA eAB eB eBA. wf_entry l e \<Longrightarrow>
      0 < j \<Longrightarrow> a + j \<le> v + n \<Longrightarrow> a div psize l = (a + j - 1) div psize l \<Longrightarrow>
      0 < i \<Longrightarrow> b + i \<le> w + m \<Longrightarrow> b div psize l = (b + i - 1) div psize l \<Longrightarrow>
      map_slot (below_map l) l fl a (p + (a - v)) j e = Some eA \<Longrightarrow>
      map_slot (below_map l) l gl b (q + (b - w)) i eA = Some eAB \<Longrightarrow>
      map_slot (below_map l) l gl b (q + (b - w)) i e = Some eB \<Longrightarrow>
      map_slot (below_map l) l fl a (p + (a - v)) j eB = Some eBA \<Longrightarrow> eAB = eBA"
  shows "tAB = tBA"
proof -
  define ix where "ix x = vpn_segment (fst x) l" for x :: "usize \<times> usize"
  define f where "f x = map_slot (below_map l) l fl (fst x) (p + (fst x - v)) (snd x)" for x
  define g where "g x = map_slot (below_map l) l gl (fst x) (q + (fst x - w)) (snd x)" for x
  obtain ps where dp: "distinct (map ix ps)" and ip: "\<forall>x \<in> set ps. fst x + snd x \<le> v + n \<and> 0 < snd x \<and>
       fst x div psize l = (fst x + snd x - 1) div psize l"
    and mp: "\<And>t. map_impl l t v p n fl = for_each (\<lambda>x. slot_step (f x) (ix x)) ps t"
    using range_pieces [OF l A, of p] unfolding ix_def f_def by auto
  obtain qs where dq: "distinct (map ix qs)" and iq: "\<forall>x \<in> set qs. fst x + snd x \<le> w + m \<and> 0 < snd x \<and>
       fst x div psize l = (fst x + snd x - 1) div psize l"
    and mq: "\<And>t. map_impl l t w q m gl = for_each (\<lambda>x. slot_step (g x) (ix x)) qs t"
    using range_pieces [OF l B, of q] unfolding ix_def g_def by auto
  have len: "length t = 512" by (rule wf_length [OF wf])
  have lt: "\<forall>x \<in> set xs. ix x < length s" if "length s = 512" for xs s using that by (simp add: ix_def)
  note sA = for_each_slots_Some [OF dp lt [OF len] maps(1) [unfolded mp]]
  have lenA: "length tA = 512" using sA(1) len by simp
  note sAB = for_each_slots_Some [OF dq lt [OF lenA] maps(2) [unfolded mq]]
  note sB = for_each_slots_Some [OF dq lt [OF len] maps(3) [unfolded mq]]
  have lenB: "length tB = 512" using sB(1) len by simp
  note sBA = for_each_slots_Some [OF dp lt [OF lenB] maps(4) [unfolded mp]]
  show ?thesis
  proof (rule nth_equalityI)
    show "length tAB = length tBA" using sAB(1) sBA(1) lenA lenB by simp
    fix j assume "j < length tAB"
    then have wfj: "wf_entry l (t ! j)" using sAB(1) lenA wf by (simp add: wf_table_entries)
    show "tAB ! j = tBA ! j"
    proof (cases "j \<in> ix ` set ps")
      case noA: False
      then have "tA ! j = t ! j" "tBA ! j = tB ! j" using sA(2) [of j] sBA(2) [of j] by auto
      then show ?thesis
      proof (cases "j \<in> ix ` set qs")
        case True
        then obtain y where "y \<in> set qs" "ix y = j" by auto
        with sAB(2) [of j] sB(2) [of j] \<open>tA ! j = t ! j\<close> \<open>tBA ! j = tB ! j\<close> True
        show ?thesis using distinct_index [OF dq] by (metis option.inject)
      qed (use sAB(2) [of j] sB(2) [of j] in auto)
    next
      case True
      then obtain x where x: "x \<in> set ps" "ix x = j" by auto
      have fA: "f x (t ! j) = Some (tA ! j)" and fBA: "f x (tB ! j) = Some (tBA ! j)"
        using sA(2) [of j] sBA(2) [of j] x distinct_index [OF dp x(1)] by (metis imageI)+
      show ?thesis
      proof (cases "j \<in> ix ` set qs")
        case False
        then have "tAB ! j = tA ! j" "tB ! j = t ! j" using sAB(2) [of j] sB(2) [of j] by auto
        with fA fBA show ?thesis by simp
      next
        case True
        then obtain y where y: "y \<in> set qs" "ix y = j" by auto
        have gAB: "g y (tA ! j) = Some (tAB ! j)" and gB: "g y (t ! j) = Some (tB ! j)"
          using sAB(2) [of j] sB(2) [of j] y distinct_index [OF dq y(1)] by (metis imageI)+
        show ?thesis
          by (rule slots [OF wfj, where a = "fst x" and j = "snd x" and b = "fst y" and i = "snd y"])
            (use ip iq x y fA fBA gAB gB in \<open>auto simp: f_def g_def\<close>)
      qed
    qed
  qed
qed

lemma map_commute:
  assumes "l < 3" "wf_table l t" "0 < n" "v + n \<le> 549755813888"
    "v div psize (Suc l) = (v + n - 1) div psize (Suc l)"
    "0 < m" "w + m \<le> 549755813888" "w div psize (Suc l) = (w + m - 1) div psize (Suc l)"
    and "map_impl l t v p n fl = Some tA" "map_impl l tA w q m gl = Some tAB"
      "map_impl l t w q m gl = Some tB" "map_impl l tB v p n fl = Some tBA"
  shows "tAB = tBA"
  using assms
proof (induction l arbitrary: t v p n w q m tA tAB tB tBA)
  case 0
  show ?case
    by (rule map_commute_level [OF 0]) (auto simp: map_slot_def split: if_splits)
next
  case (Suc k)
  show ?case
  proof (rule map_commute_level [OF Suc.prems])
    fix a j b i e eA eAB eB eBA
    assume e: "wf_entry (Suc k) e"
      and a: "0 < j" "a + j \<le> v + n" "a div psize (Suc k) = (a + j - 1) div psize (Suc k)"
      and b: "0 < i" "b + i \<le> w + m" "b div psize (Suc k) = (b + i - 1) div psize (Suc k)"
      and "map_slot (below_map (Suc k)) (Suc k) fl a (p + (a - v)) j e = Some eA"
      "map_slot (below_map (Suc k)) (Suc k) gl b (q + (b - w)) i eA = Some eAB"
      "map_slot (below_map (Suc k)) (Suc k) gl b (q + (b - w)) i e = Some eB"
      "map_slot (below_map (Suc k)) (Suc k) fl a (p + (a - v)) j eB = Some eBA"
    then have s: "map_slot (map_impl k) (Suc k) fl a (p + (a - v)) j e = Some eA"
      "map_slot (map_impl k) (Suc k) gl b (q + (b - w)) i eA = Some eAB"
      "map_slot (map_impl k) (Suc k) gl b (q + (b - w)) i e = Some eB"
      "map_slot (map_impl k) (Suc k) fl a (p + (a - v)) j eB = Some eBA" by simp_all
    have k: "k < 3" using Suc.prems(1) by simp
    have ab: "a + j \<le> 549755813888" "b + i \<le> 549755813888" using a(2) b(2) Suc.prems(4,7) by simp_all
    show "eAB = eBA"
      by (rule slot_commute [OF Suc.IH [OF k _ a(1) ab(1) a(3) b(1) ab(2) b(3)] e s])
  qed
qed

text \<open>At the root.\<close>

lemma table_map_map_impl:
  assumes "table_map t v p n fl = Some t'"
  shows "check_mapping v p n = Some ()" "map_impl 2 t v p n fl = Some t'" "v + n \<le> 549755813888"
    "4096 dvd v" "4096 dvd n"
proof -
  show c: "check_mapping v p n = Some ()" "map_impl 2 t v p n fl = Some t'"
    using assms by (auto simp: table_map_def run_Some)
  show "v + n \<le> 549755813888" "4096 dvd v" "4096 dvd n" using c(1) by (simp_all add: check_mapping_Some)
qed

lemma table_unmap_later:
  assumes wf: "wf_table 2 t" and n: "0 < n" and m: "0 < m"
    and A: "table_map t v p n fl = Some tA" and B: "table_map tA w q m gl = Some tAB"
  shows "\<exists>tB. table_map t w q m gl = Some tB \<and> table_map tB v p n fl = Some tAB \<and>
    table_unmap tAB v p n = Some tB"
proof -
  note sA = table_map_Some [OF wf n A]
  note sB = table_map_Some [OF conjunct1 [OF conjunct2 [OF sA]] m B]
  note cA = table_map_map_impl [OF A] and cB = table_map_map_impl [OF B]
  have freeB: "\<forall>x. w \<le> x \<and> x < w + m \<longrightarrow> translate 2 t x = None"
  proof (intro allI impI)
    fix x assume x: "w \<le> x \<and> x < w + m"
    then have "translate 2 tA x = None" using sB by blast
    moreover have "x < 549755813888" using x cB(3) by simp
    ultimately show "translate 2 t x = None"
      using sA by (cases "translate 2 t x") (auto simp: remap_def split: if_splits)
  qed
  obtain tB where tB: "table_map t w q m gl = Some tB" using table_map_None [OF wf m cB(1) freeB] by blast
  note stB = table_map_Some [OF wf m tB]
  have wfB: "wf_table 2 tB" using stB by blast
  have freeA: "\<forall>x. v \<le> x \<and> x < v + n \<longrightarrow> translate 2 tB x = None"
  proof (intro allI impI)
    fix x assume x: "v \<le> x \<and> x < v + n"
    have lt: "x < 549755813888" using x cA(3) by simp
    have "translate 2 tA x = Some (fl, p + (x - v))" using sA x lt by (simp add: remap_def)
    then have "\<not> (w \<le> x \<and> x < w + m)" using sB by auto
    moreover have "translate 2 t x = None" using sA x by blast
    ultimately show "translate 2 tB x = None" using stB lt by (simp add: remap_def)
  qed
  obtain tBA where tBA: "table_map tB v p n fl = Some tBA" using table_map_None [OF wfB n cA(1) freeA] by blast
  have page: "x div psize (Suc 2) = (x + k - 1) div psize (Suc 2)" if "x + k \<le> 549755813888" "0 < k" for x k
    using that by (simp add: psize_def)
  have "tAB = tBA"
    by (rule map_commute [OF _ wf n cA(3) page [OF cA(3) n] m cB(3) page [OF cB(3) m] cA(2) cB(2)
      table_map_map_impl(2) [OF tB] table_map_map_impl(2) [OF tBA]]) simp
  moreover have "table_unmap tBA v p n = Some tB" using table_map_Some [OF wfB n tBA] by blast
  ultimately show ?thesis using tB tBA by auto
qed

end
