(* ===== verification/Capability.thy ===== *)
theory Capability
  imports Memory_Layout
begin

text \<open>
  Capabilities (\<open>types/src/capability\<close>, \<open>types/src/actor.rs\<close>, \<open>types/src/process_id.rs\<close>,
  \<open>kernel/src/capability.rs\<close>, \<open>kernel-api/src/capability.rs\<close>).  A capability is the address of a
  certificate.  Every actor has a page of certificates that it alone writes; a certificate
  grants its own capability to an actor or forwards another one.  The kernel follows the
  forwardings of a claimed capability back to where it was granted.
\<close>

subsection \<open>Actors\<close>

definition MAX_PROCESSES :: usize where
  "MAX_PROCESSES = 8"

datatype process_id = ProcessId (as_u16: u16)

definition process_id_new :: "u16 \<Rightarrow> process_id run" where
  "process_id_new i = do {
     ensure (unat i \<le> MAX_PROCESSES);
     ensure (i \<noteq> 0);
     Some (ProcessId i) }"

definition pid_ok :: "process_id \<Rightarrow> bool" where
  "pid_ok p \<longleftrightarrow> process_id_new (as_u16 p) = Some p"

datatype actor = Userspace process_id | Kernel

definition unwrap_user :: "actor \<Rightarrow> process_id run" where
  "unwrap_user a = (case a of Userspace pid \<Rightarrow> Some pid | Kernel \<Rightarrow> None)"

fun actor_ok :: "actor \<Rightarrow> bool" where
  "actor_ok (Userspace p) = pid_ok p"
| "actor_ok Kernel = True"

subsection \<open>Capabilities as addresses\<close>

definition CAPABILITIES_PER_PAGE :: usize where
  "CAPABILITIES_PER_PAGE = PAGE_SIZE div 8"

definition actor_offset :: "actor \<Rightarrow> usize" where
  "actor_offset a = (case a of Userspace pid \<Rightarrow> unat (as_u16 pid) | Kernel \<Rightarrow> 0)"

text \<open>The address of an actor's page of certificates: an array of \<open>MAX_PROCESSES + 1\<close> pages.\<close>

definition get_capability_certificate_page :: "actor \<Rightarrow> usize run" where
  "get_capability_certificate_page a = do {
     let offset = actor_offset a;
     ensure (offset < MAX_PROCESSES + 1);
     Some (fst USER_CAPABILITIES + offset * PAGE_SIZE) }"

definition PROCESS_COUNT :: usize where
  "PROCESS_COUNT = 8"

text \<open>
  Of the pages of that array every page table maps the first \<open>PROCESS_COUNT\<close>
  (\<open>map_capability_memory\<close>); any access to the last one is a page fault.
\<close>

definition certificates_mapped :: "actor \<Rightarrow> bool" where
  "certificates_mapped a \<longleftrightarrow> actor_offset a < PROCESS_COUNT"

datatype raw_capability = RawCapability (as_usize: usize)

datatype invalid_capability_error = InvalidCapabilityError

definition is_ptr_valid :: "usize \<Rightarrow> bool" where
  "is_ptr_valid maybe_cap \<longleftrightarrow> in_range USER_CAPABILITIES maybe_cap \<and> maybe_cap mod 8 = 0"

definition raw_new :: "actor \<Rightarrow> usize \<Rightarrow> raw_capability run" where
  "raw_new certifier local_index = do {
     ensure (local_index < PAGE_SIZE div 8);
     page \<leftarrow> get_capability_certificate_page certifier;
     Some (RawCapability (page + local_index * 8)) }"

definition raw_from_ref :: "usize \<Rightarrow> raw_capability run" where
  "raw_from_ref ptr = do { ensure (is_ptr_valid ptr); Some (RawCapability ptr) }"

definition raw_try_from :: "usize \<Rightarrow> invalid_capability_error + raw_capability" where
  "raw_try_from ptr =
     (if \<not> is_ptr_valid ptr then Inl InvalidCapabilityError else Inr (RawCapability ptr))"

definition certifier :: "raw_capability \<Rightarrow> actor run" where
  "certifier c = do {
     off \<leftarrow> usub (as_usize c) (fst USER_CAPABILITIES);
     let page_index = off div PAGE_SIZE;
     if page_index = 0 then Some Kernel
     else do {
       pid \<leftarrow> process_id_new (word_of_nat page_index);
       Some (Userspace pid) } }"

definition local_index :: "raw_capability \<Rightarrow> usize" where
  "local_index c = as_usize c mod PAGE_SIZE div 8"

text \<open>\<open>Deserialize\<close> and \<open>Serialize\<close>: a capability travels as its address.\<close>

definition raw_deserialize :: "usize \<Rightarrow> raw_capability run" where
  "raw_deserialize n = (case raw_try_from n of Inl _ \<Rightarrow> None | Inr c \<Rightarrow> Some c)"

definition raw_serialize :: "raw_capability \<Rightarrow> usize" where
  "raw_serialize c = as_usize c"

subsection \<open>Certificates\<close>

record certificate_value =
  cert_grantee :: u32
  cert_payload :: u32

datatype certificate = Granted actor | Forwarded actor raw_capability

text \<open>The two halves of the 64-bit word a certificate is stored as.\<close>

definition value_to_bits :: "certificate_value \<Rightarrow> u64" where
  "value_to_bits v = ucast (cert_grantee v) OR push_bit 32 (ucast (cert_payload v))"

definition value_of_bits :: "u64 \<Rightarrow> certificate_value" where
  "value_of_bits w = \<lparr>cert_grantee = ucast w, cert_payload = ucast (drop_bit 32 w)\<rparr>"

definition value_empty :: certificate_value where
  "value_empty = \<lparr>cert_grantee = - 1, cert_payload = 0\<rparr>"

definition actor_word :: "actor \<Rightarrow> u32" where
  "actor_word a = (case a of Userspace pid \<Rightarrow> ucast (as_u16 pid) | Kernel \<Rightarrow> 0)"

definition value_granted :: "actor \<Rightarrow> certificate_value" where
  "value_granted grantee = \<lparr>cert_grantee = actor_word grantee, cert_payload = 0\<rparr>"

definition value_forwarded :: "actor \<Rightarrow> raw_capability \<Rightarrow> certificate_value" where
  "value_forwarded forwardee c =
     \<lparr>cert_grantee = actor_word forwardee, cert_payload = word_of_nat (as_usize c)\<rparr>"

definition recipient_of :: "u32 \<Rightarrow> actor run" where
  "recipient_of g =
     (if g = 0 then Some Kernel
      else do { pid \<leftarrow> process_id_new (ucast g); Some (Userspace pid) })"

definition value_unpack :: "certificate_value \<Rightarrow> certificate run" where
  "value_unpack v = do {
     recipient \<leftarrow> recipient_of (cert_grantee v);
     if cert_payload v = 0 then Some (Granted recipient)
     else case raw_try_from (unat (cert_payload v)) of
       Inl _ \<Rightarrow> None
     | Inr inner \<Rightarrow> Some (Forwarded recipient inner) }"

definition replace_recipient :: "certificate_value \<Rightarrow> actor \<Rightarrow> certificate_value run" where
  "replace_recipient v recipient = do {
     c \<leftarrow> value_unpack v;
     case c of
       Granted _ \<Rightarrow> Some (value_granted recipient)
     | Forwarded _ inner \<Rightarrow> Some (value_forwarded recipient inner) }"

text \<open>All the pages of certificates: page, index within it, stored word.\<close>

type_synonym certificates = "usize \<Rightarrow> usize \<Rightarrow> u64"

definition cert_load :: "certificates \<Rightarrow> usize \<Rightarrow> usize \<Rightarrow> certificate_value" where
  "cert_load certs page i = value_of_bits (certs page i)"

definition cert_store :: "certificates \<Rightarrow> usize \<Rightarrow> usize \<Rightarrow> certificate_value \<Rightarrow> certificates" where
  "cert_store certs page i v = certs(page := (certs page)(i := value_to_bits v))"

text \<open>The certificate that a capability points to.\<close>

definition read_certificate :: "certificates \<Rightarrow> raw_capability \<Rightarrow> (actor \<times> certificate) run" where
  "read_certificate certs c = do {
     who \<leftarrow> certifier c;
     _ \<leftarrow> get_capability_certificate_page who;
     ensure (certificates_mapped who);
     cert \<leftarrow> value_unpack (cert_load certs (actor_offset who) (local_index c));
     Some (who, cert) }"

subsection \<open>Validation\<close>

datatype capability_error = CapabilityError raw_capability process_id

text \<open>How a call ends when it ends: by returning, or in a panic.\<close>

datatype 'a ending = Returned 'a | Panicked

text \<open>
  One turn of the loop: a result, or the capability and the claimer to go on with.  The loop
  itself may go on for ever, which is \<^const>\<open>None\<close> of \<open>validate_loop\<close>.
\<close>

definition validate_turn ::
  "certificates \<Rightarrow> raw_capability \<Rightarrow> actor \<Rightarrow> (bool + raw_capability \<times> actor) run" where
  "validate_turn certs capability claimer = do {
     (who, cert) \<leftarrow> read_certificate certs capability;
     case cert of
       Granted grantee \<Rightarrow> Some (Inl (grantee = claimer))
     | Forwarded forwardee inner \<Rightarrow>
         if forwardee = claimer then Some (Inr (inner, who)) else Some (Inl False) }"

partial_function (option) validate_loop ::
  "certificates \<Rightarrow> raw_capability \<Rightarrow> process_id \<Rightarrow> raw_capability \<Rightarrow> actor \<Rightarrow>
     (capability_error + raw_capability) ending option" where
  "validate_loop certs self orig_claimer capability claimer =
     (case validate_turn certs capability claimer of
        None \<Rightarrow> Some Panicked
      | Some (Inl ok) \<Rightarrow>
          Some (Returned (if ok then Inr capability else Inl (CapabilityError self orig_claimer)))
      | Some (Inr (inner, who)) \<Rightarrow> validate_loop certs self orig_claimer inner who)"

definition validate ::
  "certificates \<Rightarrow> raw_capability \<Rightarrow> process_id \<Rightarrow> (capability_error + raw_capability) ending option" where
  "validate certs self orig_claimer =
     validate_loop certs self orig_claimer self (Userspace orig_claimer)"

subsection \<open>The kernel's own capabilities\<close>

text \<open>The handlers are the kernel's drivers: a parameter of the state.\<close>

record 'h kernel_caps =
  kc_pages :: certificates
  kc_allocated :: u64
  kc_handlers :: "usize \<Rightarrow> 'h option"

definition reserve_kernel_capability :: "'h kernel_caps \<Rightarrow> 'h \<Rightarrow> ('h kernel_caps \<times> raw_capability) run" where
  "reserve_kernel_capability k handler = do {
     let i = unat (kc_allocated k);
     let k = k\<lparr>kc_allocated := kc_allocated k + 1\<rparr>;
     ensure (i < PAGE_SIZE div 8);
     let k = k\<lparr>kc_handlers := (kc_handlers k)(i := Some handler)\<rparr>;
     cap \<leftarrow> raw_new Kernel i;
     Some (k, cap) }"

definition grant_kernel_capability ::
  "'h kernel_caps \<Rightarrow> process_id \<Rightarrow> 'h \<Rightarrow> ('h kernel_caps \<times> raw_capability) run" where
  "grant_kernel_capability k grantee handler = do {
     (k, cap) \<leftarrow> reserve_kernel_capability k handler;
     let k = k\<lparr>kc_pages := cert_store (kc_pages k) 0 (local_index cap) (value_granted (Userspace grantee))\<rparr>;
     Some (k, cap) }"

definition get_handler :: "'h kernel_caps \<Rightarrow> usize \<Rightarrow> 'h run" where
  "get_handler k i = do { ensure (i < PAGE_SIZE div 8); kc_handlers k i }"

text \<open>\<open>capability_certificate\<close>: where the kernel finds the certificate in its own mapping.\<close>

definition capability_certificate :: "raw_capability \<Rightarrow> (usize \<times> usize) run" where
  "capability_certificate cap = do {
     who \<leftarrow> certifier cap;
     ensure (actor_offset who < MAX_PROCESSES + 1);
     Some (actor_offset who, local_index cap) }"

subsection \<open>A process's capabilities\<close>

record user_caps =
  uc_pid :: process_id
  uc_allocated :: u64

definition user_caps_start :: "process_id \<Rightarrow> user_caps" where
  "user_caps_start pid = \<lparr>uc_pid = pid, uc_allocated = 1\<rparr>"

definition allocate_certificate :: "user_caps \<Rightarrow> (user_caps \<times> usize \<times> usize) run" where
  "allocate_certificate u = do {
     let index = unat (uc_allocated u);
     let u = u\<lparr>uc_allocated := uc_allocated u + 1\<rparr>;
     ensure (index < 4096 div 8);
     page \<leftarrow> get_capability_certificate_page (Userspace (uc_pid u));
     Some (u, page, index) }"

definition grant_unhandled ::
  "user_caps \<Rightarrow> certificates \<Rightarrow> actor \<Rightarrow> (user_caps \<times> certificates \<times> raw_capability) run" where
  "grant_unhandled u certs grantee = do {
     (u, page, index) \<leftarrow> allocate_certificate u;
     ensure (certificates_mapped (Userspace (uc_pid u)));
     let certs = cert_store certs (actor_offset (Userspace (uc_pid u))) index (value_granted grantee);
     cap \<leftarrow> raw_from_ref (page + index * 8);
     Some (u, certs, cap) }"

definition forward ::
  "user_caps \<Rightarrow> certificates \<Rightarrow> raw_capability \<Rightarrow> actor \<Rightarrow> (user_caps \<times> certificates \<times> raw_capability) run" where
  "forward u certs cap forwardee = do {
     (u, page, index) \<leftarrow> allocate_certificate u;
     ensure (certificates_mapped (Userspace (uc_pid u)));
     let certs = cert_store certs (actor_offset (Userspace (uc_pid u))) index (value_forwarded forwardee cap);
     forwarded \<leftarrow> raw_from_ref (page + index * 8);
     Some (u, certs, forwarded) }"

end
