(* ===== verification/Capability_Correct.thy ===== *)
theory Capability_Correct
  imports Capability
begin

text \<open>
  What capabilities promise: addresses and certificates are read back as they were written,
  validation follows exactly the chain of certificates, a granted or forwarded capability is
  accepted from the one it was given to, and a process cannot make up authority by writing to
  its own page.
\<close>

subsection \<open>Addresses\<close>

lemma max_processes [simp]: "MAX_PROCESSES = 8"
  by (simp add: MAX_PROCESSES_def)

lemma pid_ok_iff: "pid_ok p \<longleftrightarrow> 0 < unat (as_u16 p) \<and> unat (as_u16 p) \<le> 8"
  by (cases p) (auto simp: pid_ok_def process_id_new_def unat_gt_0)

lemma actor_offset_bound: "actor_ok a \<Longrightarrow> actor_offset a \<le> 8"
  by (cases a) (auto simp: actor_offset_def pid_ok_iff)

text \<open>The processes that there can be: the certificates of index 8 are mapped nowhere.\<close>

definition pid_runs :: "process_id \<Rightarrow> bool" where
  "pid_runs p \<longleftrightarrow> pid_ok p \<and> certificates_mapped (Userspace p)"

lemma pid_runs_ok: "pid_runs p \<Longrightarrow> pid_ok p"
  by (simp add: pid_runs_def)

lemma kernel_mapped [simp]: "certificates_mapped Kernel"
  by (simp add: certificates_mapped_def actor_offset_def PROCESS_COUNT_def)

lemma user_mapped: "certificates_mapped (Userspace p) \<longleftrightarrow> unat (as_u16 p) < 8"
  by (simp add: certificates_mapped_def actor_offset_def PROCESS_COUNT_def)

lemma actor_offset_inj: "actor_ok a \<Longrightarrow> actor_ok b \<Longrightarrow> actor_offset a = actor_offset b \<longleftrightarrow> a = b"
  by (cases a; cases b)
    (auto simp: actor_offset_def pid_ok_iff process_id.expand word_unat_eq_iff)

lemma caps_start [simp]: "USER_CAPABILITIES = (33554432, 67108864)"
  by (simp add: USER_CAPABILITIES_def)

definition cap_at :: "actor \<Rightarrow> usize \<Rightarrow> raw_capability" where
  "cap_at a i = RawCapability (33554432 + actor_offset a * 4096 + i * 8)"

lemma raw_new_eq: "actor_ok a \<Longrightarrow> i < 512 \<Longrightarrow> raw_new a i = Some (cap_at a i)"
  using actor_offset_bound [of a]
  by (simp add: raw_new_def get_capability_certificate_page_def cap_at_def Let_def)

lemma cap_at_page: "i < 512 \<Longrightarrow> (as_usize (cap_at a i) - 33554432) div 4096 = actor_offset a"
  by (simp add: cap_at_def)

lemma certifier_cap_at:
  assumes "actor_ok a" "i < 512"
  shows "certifier (cap_at a i) = Some a"
proof -
  have off: "usub (as_usize (cap_at a i)) 33554432 = Some (as_usize (cap_at a i) - 33554432)"
    by (simp add: cap_at_def)
  show ?thesis
  proof (cases a)
    case Kernel
    then show ?thesis using off cap_at_page [OF assms(2), of a]
      by (simp add: certifier_def actor_offset_def)
  next
    case (Userspace p)
    then have p: "pid_ok p" using assms(1) by simp
    then have "unat (as_u16 p) \<noteq> 0" by (simp add: pid_ok_iff)
    moreover have "process_id_new (word_of_nat (unat (as_u16 p))) = Some p"
      using p by (simp add: pid_ok_def)
    ultimately show ?thesis using off cap_at_page [OF assms(2), of a] Userspace
      by (simp add: certifier_def actor_offset_def)
  qed
qed

lemma local_index_cap_at: "i < 512 \<Longrightarrow> local_index (cap_at a i) = i"
proof -
  assume "i < 512"
  moreover have "as_usize (cap_at a i) = i * 8 + (8192 + actor_offset a) * 4096" by (simp add: cap_at_def)
  then have "as_usize (cap_at a i) mod 4096 = (i * 8) mod 4096" by (metis mod_mult_self1)
  ultimately show ?thesis by (simp add: local_index_def)
qed

lemma cap_at_valid:
  assumes "actor_ok a" "i < 512"
  shows "is_ptr_valid (as_usize (cap_at a i))"
proof -
  have "as_usize (cap_at a i) = 8 * (4194304 + actor_offset a * 512 + i)" by (simp add: cap_at_def)
  then have "as_usize (cap_at a i) mod 8 = 0" by simp
  then show ?thesis using assms actor_offset_bound [OF assms(1)]
    by (simp add: is_ptr_valid_def in_range_def cap_at_def)
qed

lemma certifier_Some:
  assumes "certifier c = Some a" "is_ptr_valid (as_usize c)"
  shows "actor_ok a" "c = cap_at a (local_index c)" "local_index c < 512"
proof -
  let ?x = "as_usize c - 33554432"
  have c: "33554432 \<le> as_usize c" "as_usize c mod 8 = 0"
    using assms(2) by (auto simp: is_ptr_valid_def in_range_def)
  have lt: "?x < 33554432" using assms(2) by (auto simp: is_ptr_valid_def in_range_def)
  then have small: "unat (word_of_nat (?x div 4096) :: u16) = ?x div 4096"
    unfolding unat_of_nat by (intro mod_less) (simp add: less_mult_imp_div_less)
  have oo: "actor_offset a = ?x div 4096 \<and> actor_ok a"
  proof (cases "?x div 4096 = 0")
    case True
    then have "a = Kernel" using assms(1) c by (simp add: certifier_def)
    with True show ?thesis by (simp add: actor_offset_def)
  next
    case False
    then obtain p where p: "process_id_new (word_of_nat (?x div 4096)) = Some p" "a = Userspace p"
      using assms(1) c by (auto simp: certifier_def run_Some)
    then have "p = ProcessId (word_of_nat (?x div 4096))"
      by (simp add: process_id_new_def split: if_splits)
    with p small show ?thesis by (simp add: actor_offset_def pid_ok_def)
  qed
  then have off: "actor_offset a = ?x div 4096" and ok: "actor_ok a" by simp_all
  show "actor_ok a" by (rule ok)
  show "local_index c < 512" by (simp add: local_index_def less_mult_imp_div_less)
  have m: "as_usize c mod 4096 = ?x mod 4096"
  proof -
    have "as_usize c = ?x + 8192 * 4096" using c by simp
    then show ?thesis by (metis mod_mult_self1)
  qed
  have "?x mod 8 = 0" using c by (simp add: mod_eq_0_iff_dvd dvd_diff_nat)
  then have "8 dvd ?x mod 4096" by (simp add: mod_eq_0_iff_dvd dvd_mod_iff)
  then have "?x mod 4096 div 8 * 8 = ?x mod 4096" by simp
  then have "as_usize c = 33554432 + actor_offset a * 4096 + local_index c * 8"
    using c m off div_mult_mod_eq [of ?x 4096] by (simp add: local_index_def)
  then show "c = cap_at a (local_index c)" by (simp add: cap_at_def raw_capability.expand)
qed

subsection \<open>Certificates\<close>

lemma value_bits_roundtrip: "value_of_bits (value_to_bits v) = v"
proof -
  have "ucast (ucast (cert_grantee v) OR push_bit 32 (ucast (cert_payload v)) :: u64) = cert_grantee v"
    by (rule bit_word_eqI) (auto simp: bit_simps)
  moreover have "ucast (drop_bit 32 (ucast (cert_grantee v) OR push_bit 32 (ucast (cert_payload v))) :: u64) =
      cert_payload v"
    by (rule bit_word_eqI) (auto simp: bit_simps dest: bit_imp_le_length)
  ultimately show ?thesis by (simp add: value_of_bits_def value_to_bits_def)
qed

lemma cert_load_store [simp]:
  "cert_load (cert_store certs p i v) q j = (if p = q \<and> i = j then v else cert_load certs q j)"
  by (simp add: cert_load_def cert_store_def value_bits_roundtrip)

lemma ucast_u16_u32 [simp]: "ucast (ucast (w :: u16) :: u32) = w"
  by (rule bit_word_eqI) (auto simp: bit_simps)

lemma recipient_unpack:
  assumes "actor_ok a"
  shows "recipient_of (actor_word a) = Some a"
proof (cases a)
  case (Userspace p)
  then have p: "pid_ok p" using assms by simp
  then have "actor_word a \<noteq> 0"
    unfolding Userspace by (auto simp: actor_word_def pid_ok_iff) (metis ucast_0 ucast_u16_u32 unat_0 less_irrefl)
  with p Userspace show ?thesis by (simp add: recipient_of_def actor_word_def pid_ok_def)
qed (simp add: recipient_of_def actor_word_def)

lemma unpack_granted: "actor_ok a \<Longrightarrow> value_unpack (value_granted a) = Some (Granted a)"
  using recipient_unpack [of a] by (simp add: value_unpack_def value_granted_def)

lemma unpack_forwarded:
  assumes "actor_ok a" "is_ptr_valid (as_usize c)"
  shows "value_unpack (value_forwarded a c) = Some (Forwarded a c)"
proof -
  have "unat (word_of_nat (as_usize c) :: u32) = as_usize c"
    unfolding unat_of_nat using assms(2) by (intro mod_less) (simp add: is_ptr_valid_def in_range_def)
  moreover from this have "(word_of_nat (as_usize c) :: u32) \<noteq> 0"
    using assms(2) by (auto simp: is_ptr_valid_def in_range_def)
  ultimately show ?thesis
    using recipient_unpack [OF assms(1)] assms(2)
    by (simp add: value_unpack_def value_forwarded_def raw_try_from_def)
qed

lemma unpack_inner_valid:
  "value_unpack v = Some (Forwarded a c) \<Longrightarrow> is_ptr_valid (as_usize c)"
  by (auto simp: value_unpack_def run_Some raw_try_from_def split: if_splits sum.splits)

lemma unpack_recipient_ok:
  "value_unpack v = Some (Granted a) \<Longrightarrow> actor_ok a"
  "value_unpack v = Some (Forwarded a c) \<Longrightarrow> actor_ok a"
  by (auto simp: value_unpack_def run_Some recipient_of_def pid_ok_def process_id_new_def
    split: if_splits sum.splits)

subsection \<open>The chain of certificates\<close>

lemma read_certificate_Some:
  "read_certificate certs c = Some (who, x) \<longleftrightarrow> certifier c = Some who \<and>
     get_capability_certificate_page who \<noteq> None \<and> certificates_mapped who \<and>
     value_unpack (cert_load certs (actor_offset who) (local_index c)) = Some x"
  by (auto simp: read_certificate_def run_Some split: if_splits)

text \<open>\<open>entitles certs a c root\<close>: what \<open>a\<close> claims with \<open>c\<close> goes back to the grant at \<open>root\<close>.\<close>

inductive entitles :: "certificates \<Rightarrow> actor \<Rightarrow> raw_capability \<Rightarrow> raw_capability \<Rightarrow> bool" for certs where
  granted: "read_certificate certs c = Some (who, Granted a) \<Longrightarrow> entitles certs a c c"
| forwarded: "read_certificate certs c = Some (who, Forwarded a inner) \<Longrightarrow>
    entitles certs who inner root \<Longrightarrow> entitles certs a c root"

lemma validate_turn_Inl:
  assumes "validate_turn certs c a = Some (Inl True)"
  shows "\<exists>who. read_certificate certs c = Some (who, Granted a)"
proof (cases "read_certificate certs c")
  case (Some r)
  then obtain who cert where "read_certificate certs c = Some (who, cert)" by (cases r) auto
  with assms show ?thesis by (cases cert) (auto simp: validate_turn_def split: if_split_asm)
qed (use assms in \<open>simp add: validate_turn_def\<close>)

lemma validate_turn_Inr:
  assumes "validate_turn certs c a = Some (Inr (inner, who))"
  shows "read_certificate certs c = Some (who, Forwarded a inner)"
proof (cases "read_certificate certs c")
  case (Some r)
  then obtain who' cert where "read_certificate certs c = Some (who', cert)" by (cases r) auto
  with assms show ?thesis by (cases cert) (auto simp: validate_turn_def split: if_split_asm)
qed (use assms in \<open>simp add: validate_turn_def\<close>)

lemma loop_entitles:
  "validate_loop certs self orig c a = Some (Returned (Inr root)) \<longleftrightarrow> entitles certs a c root"
proof
  have "y = Returned (Inr root) \<longrightarrow> entitles certs a c root"
    if "validate_loop certs self orig c a = Some y" for y
  proof (rule validate_loop.raw_induct [OF _ that,
        of "\<lambda>certs self orig c a y. y = Returned (Inr root) \<longrightarrow> entitles certs a c root"])
    fix loop certs self orig c a y
    assume 1: "\<And>certs self orig c a y. loop certs self orig c a = Some y \<Longrightarrow>
        y = Returned (Inr root) \<longrightarrow> entitles certs a c root"
      "(case validate_turn certs c a of
        None \<Rightarrow> Some Panicked
      | Some (Inl ok) \<Rightarrow> Some (Returned (if ok then Inr c else Inl (CapabilityError self orig)))
      | Some (Inr (inner, who)) \<Rightarrow> loop certs self orig inner who) = Some y"
    show "y = Returned (Inr root) \<longrightarrow> entitles certs a c root"
    proof
      assume y: "y = Returned (Inr root)"
      obtain r where r: "validate_turn certs c a = Some r"
        using 1(2) y by (cases "validate_turn certs c a") auto
      show "entitles certs a c root"
      proof (cases r)
        case (Inl ok)
        with 1(2) y r have ok: "ok" "c = root" by (auto split: if_splits)
        then have "validate_turn certs c a = Some (Inl True)" using Inl r by simp
        from validate_turn_Inl [OF this] ok(2) show ?thesis by (auto intro: entitles.granted)
      next
        case (Inr t)
        then obtain inner who where t: "r = Inr (inner, who)" by (cases t) auto
        with 1 y r have "entitles certs who inner root" by auto
        moreover have "read_certificate certs c = Some (who, Forwarded a inner)"
          using r t by (intro validate_turn_Inr) simp
        ultimately show ?thesis by (rule entitles.forwarded [rotated])
      qed
    qed
  qed
  then show "validate_loop certs self orig c a = Some (Returned (Inr root)) \<Longrightarrow> entitles certs a c root"
    by blast
next
  show "entitles certs a c root \<Longrightarrow> validate_loop certs self orig c a = Some (Returned (Inr root))"
    by (induction rule: entitles.induct)
      (subst validate_loop.simps, simp add: validate_turn_def)+
qed

lemma validate_entitles:
  "validate certs c p = Some (Returned (Inr root)) \<longleftrightarrow> entitles certs (Userspace p) c root"
  by (simp add: validate_def loop_entitles)

lemma read_certificate_at:
  assumes "actor_ok a" "i < 512" "certificates_mapped a"
  shows "read_certificate certs (cap_at a i) =
    map_option (Pair a) (value_unpack (cert_load certs (actor_offset a) i))"
  using assms actor_offset_bound [OF assms(1)]
  by (simp add: read_certificate_def certifier_cap_at local_index_cap_at get_capability_certificate_page_def
      Let_def map_conv_bind_option comp_def)

lemma read_certificate_certifier: "read_certificate certs c = Some (who, x) \<Longrightarrow> certifier c = Some who"
  by (auto simp: read_certificate_Some)

lemma certifier_actor_ok: "certifier c = Some a \<Longrightarrow> actor_ok a"
  by (auto simp: certifier_def run_Some Let_def pid_ok_def process_id_new_def split: if_splits)

lemma read_certificate_elsewhere:
  assumes "certifier c = Some who" "actor_ok b" "who \<noteq> b"
    and "\<And>page. page \<noteq> actor_offset b \<Longrightarrow> certs' page = certs page"
  shows "read_certificate certs' c = read_certificate certs c"
proof -
  have "actor_offset who \<noteq> actor_offset b"
    using actor_offset_inj [OF certifier_actor_ok [OF assms(1)] assms(2)] assms(3) by simp
  then have "certs' (actor_offset who) = certs (actor_offset who)" by (rule assms(4))
  with assms(1) show ?thesis by (simp add: read_certificate_def cert_load_def)
qed

text \<open>
  However a process rewrites its own page, the grants of others that it can reach are those it
  could reach before: follow the chain from where it leaves that page for the last time.
\<close>

lemma entitles_own_page:
  assumes "entitles certs' a c root" "actor_ok p" "certifier root \<noteq> Some p"
    and same: "\<And>page. page \<noteq> actor_offset p \<Longrightarrow> certs' page = certs page"
  shows "entitles certs a c root \<or> (\<exists>c0. entitles certs p c0 root)"
  using assms(1,3)
proof (induction rule: entitles.induct)
  case (granted c who a)
  then have "who \<noteq> p" using read_certificate_certifier [OF granted(1)] by auto
  then have "read_certificate certs' c = read_certificate certs c"
    using read_certificate_elsewhere [OF read_certificate_certifier [OF granted(1)] assms(2)] same by blast
  with granted(1) show ?case by (auto intro: entitles.granted)
next
  case (forwarded c who a inner root)
  show ?case
  proof (cases "who = p")
    case True
    with forwarded show ?thesis by blast
  next
    case False
    then have "read_certificate certs' c = read_certificate certs c"
      using read_certificate_elsewhere [OF read_certificate_certifier [OF forwarded(1)] assms(2)] same by blast
    with forwarded show ?thesis by (metis entitles.forwarded)
  qed
qed

subsection \<open>Granting and forwarding\<close>

lemma grant_kernel_entitles:
  assumes "grant_kernel_capability k g h = Some (k', cap)" "pid_ok g"
  shows "entitles (kc_pages k') (Userspace g) cap cap \<and> get_handler k' (local_index cap) = Some h \<and>
    certifier cap = Some Kernel"
proof -
  let ?i = "unat (kc_allocated k)"
  have i: "?i < 512" and cap: "cap = cap_at Kernel ?i"
    and k': "kc_pages k' = cert_store (kc_pages k) 0 ?i (value_granted (Userspace g))"
      "kc_handlers k' = (kc_handlers k)(?i := Some h)"
    using assms(1) raw_new_eq [of Kernel ?i] local_index_cap_at [of ?i Kernel]
    by (auto simp: grant_kernel_capability_def reserve_kernel_capability_def run_Some Let_def split: if_splits)
  have "read_certificate (kc_pages k') cap = Some (Kernel, Granted (Userspace g))"
    using i assms(2) unfolding cap k'(1)
    by (simp add: read_certificate_at unpack_granted actor_offset_def [of Kernel])
  then show ?thesis using i k'(2) cap
    by (auto simp: get_handler_def local_index_cap_at certifier_cap_at intro: entitles.granted)
qed

text \<open>A slot that has not been written holds a zero word: a grant to the kernel.\<close>

lemma unpack_zero: "value_unpack (value_of_bits 0) = Some (Granted Kernel)"
  by (simp add: value_of_bits_def value_unpack_def recipient_of_def)

definition kernel_only_grants :: "certificates \<Rightarrow> bool" where
  "kernel_only_grants certs \<longleftrightarrow> (\<forall>c a inner. read_certificate certs c \<noteq> Some (Kernel, Forwarded a inner))"

lemma entitles_fresh_slot:
  assumes "entitles certs a c root" "a \<noteq> Kernel" "kernel_only_grants certs"
    and slot: "certs page i = 0" and bound: "i < 512"
  shows "entitles (cert_store certs page i v) a c root"
  using assms(1,2)
proof (induction rule: entitles.induct)
  case (granted c who a)
  have "\<not> (actor_offset who = page \<and> local_index c = i)"
    using granted slot by (auto simp: read_certificate_Some cert_load_def unpack_zero)
  then have "read_certificate (cert_store certs page i v) c = read_certificate certs c"
    using read_certificate_certifier [OF granted(1)] by (auto simp: read_certificate_def)
  with granted(1) show ?case by (auto intro: entitles.granted)
next
  case (forwarded c who a inner root)
  have "\<not> (actor_offset who = page \<and> local_index c = i)"
    using forwarded(1) slot by (auto simp: read_certificate_Some cert_load_def unpack_zero)
  then have "read_certificate (cert_store certs page i v) c = read_certificate certs c"
    using read_certificate_certifier [OF forwarded(1)] by (auto simp: read_certificate_def)
  moreover have "who \<noteq> Kernel" using forwarded(1) assms(3) by (auto simp: kernel_only_grants_def)
  ultimately show ?case using forwarded by (metis entitles.forwarded)
qed

lemma user_slot:
  assumes "allocate_certificate u = Some (u', page, i)"
  shows "i < 512" "page + i * 8 = as_usize (cap_at (Userspace (uc_pid u)) i)" "uc_pid u' = uc_pid u"
    "i = unat (uc_allocated u)"
  using assms by (auto simp: allocate_certificate_def get_capability_certificate_page_def cap_at_def run_Some
      Let_def split: if_splits)

lemma forward_entitles:
  assumes fwd: "forward u certs cap q = Some (u', certs', f)"
    and p: "pid_ok (uc_pid u)" and q: "actor_ok q" and cap: "is_ptr_valid (as_usize cap)"
    and ent: "entitles certs (Userspace (uc_pid u)) cap root" and kernel: "kernel_only_grants certs"
    and fresh: "certs (actor_offset (Userspace (uc_pid u))) (unat (uc_allocated u)) = 0"
  shows "entitles certs' q f root \<and> entitles certs' (Userspace (uc_pid u)) cap root"
proof -
  let ?p = "Userspace (uc_pid u)" and ?i = "unat (uc_allocated u)"
  obtain page i where alloc: "allocate_certificate u = Some (u', page, i)"
    and c1: "certs' = cert_store certs (actor_offset (Userspace (uc_pid u'))) i (value_forwarded q cap)"
    and f: "f = RawCapability (page + i * 8)" and mapped: "certificates_mapped (Userspace (uc_pid u'))"
    using fwd by (auto simp: forward_def run_Some raw_from_ref_def Let_def split: if_split_asm)
  have i: "i = ?i" by (rule user_slot(4) [OF alloc])
  note slot = user_slot(1,2) [OF alloc, unfolded i]
  have certs': "certs' = cert_store certs (actor_offset ?p) ?i (value_forwarded q cap)"
    using c1 user_slot(3) [OF alloc] i by simp
  have f: "f = cap_at ?p ?i" using f slot(2) i by (simp add: raw_capability.expand)
  have same: "entitles certs' ?p cap root"
    unfolding certs' by (rule entitles_fresh_slot [OF ent _ kernel fresh slot(1)]) simp
  have "read_certificate certs' f = Some (?p, Forwarded q cap)"
    unfolding f certs' using p slot(1) unpack_forwarded [OF q cap] mapped user_slot(3) [OF alloc]
    by (simp add: read_certificate_at)
  with same show ?thesis by (auto intro: entitles.forwarded)
qed

lemma grant_unhandled_entitles:
  assumes g: "grant_unhandled u certs q = Some (u', certs', cap)" and p: "pid_ok (uc_pid u)" and q: "actor_ok q"
  shows "entitles certs' q cap cap \<and> certifier cap = Some (Userspace (uc_pid u))"
proof -
  let ?p = "Userspace (uc_pid u)" and ?i = "unat (uc_allocated u)"
  obtain page i where alloc: "allocate_certificate u = Some (u', page, i)"
    and c1: "certs' = cert_store certs (actor_offset (Userspace (uc_pid u'))) i (value_granted q)"
    and c: "cap = RawCapability (page + i * 8)" and mapped: "certificates_mapped (Userspace (uc_pid u'))"
    using g by (auto simp: grant_unhandled_def run_Some raw_from_ref_def Let_def split: if_split_asm)
  have i: "i = ?i" by (rule user_slot(4) [OF alloc])
  note slot = user_slot(1,2) [OF alloc, unfolded i]
  have certs': "certs' = cert_store certs (actor_offset ?p) ?i (value_granted q)"
    using c1 user_slot(3) [OF alloc] i by simp
  have c: "cap = cap_at ?p ?i" using c slot(2) i by (simp add: raw_capability.expand)
  have "read_certificate certs' cap = Some (?p, Granted q)"
    unfolding c certs' using p slot(1) unpack_granted [OF q] mapped user_slot(3) [OF alloc]
    by (simp add: read_certificate_at)
  then show ?thesis using c p slot(1) by (auto simp: certifier_cap_at intro: entitles.granted)
qed

subsection \<open>When validation does not come back\<close>

text \<open>A certificate that its owner forwards to itself: the kernel follows it for ever.\<close>

lemma self_forward_loops:
  assumes "read_certificate certs c = Some (Userspace p, Forwarded (Userspace p) c)"
  shows "validate certs c p = None"
proof -
  have turn: "validate_turn certs c (Userspace p) = Some (Inr (c, Userspace p))"
    using assms by (simp add: validate_turn_def)
  have "\<not> (certs' = certs \<and> c' = c \<and> a = Userspace p)"
    if "validate_loop certs' self orig c' a = Some y" for certs' self orig c' a y
  proof (rule validate_loop.raw_induct [OF _ that,
        of "\<lambda>certs' self orig c' a y. \<not> (certs' = certs \<and> c' = c \<and> a = Userspace p)"])
    fix loop certs' self orig c' a y
    assume ih: "\<And>certs' self orig c' a y. loop certs' self orig c' a = Some y \<Longrightarrow>
        \<not> (certs' = certs \<and> c' = c \<and> a = Userspace p)"
      and body: "(case validate_turn certs' c' a of
        None \<Rightarrow> Some Panicked
      | Some (Inl ok) \<Rightarrow> Some (Returned (if ok then Inr c' else Inl (CapabilityError self orig)))
      | Some (Inr (inner, who)) \<Rightarrow> loop certs' self orig inner who) = Some y"
    show "\<not> (certs' = certs \<and> c' = c \<and> a = Userspace p)"
    proof
      assume "certs' = certs \<and> c' = c \<and> a = Userspace p"
      with body turn have "loop certs self orig c (Userspace p) = Some y" by simp
      from ih [OF this] show False by simp
    qed
  qed
  then show ?thesis unfolding validate_def by (metis not_None_eq)
qed

subsection \<open>Properties\<close>

text \<open>
  capabilities and certificates survive packing.  A capability made for a certifier and an
  index is a valid pointer from which both are read back, it survives serialization, and a
  certificate stored in a slot as a 64-bit word is unpacked to the grant or forwarding it was
  made from.
\<close>

theorem capability_packing:
  assumes "actor_ok a" "i < 512" "actor_ok b"
  shows "\<exists>c. raw_new a i = Some c \<and> certifier c = Some a \<and> local_index c = i \<and>
    raw_deserialize (raw_serialize c) = Some c \<and>
    value_unpack (cert_load (cert_store certs p j (value_granted b)) p j) = Some (Granted b) \<and>
    value_unpack (cert_load (cert_store certs p j (value_forwarded b c)) p j) = Some (Forwarded b c)"
  using raw_new_eq [OF assms(1,2)] certifier_cap_at [OF assms(1,2)] local_index_cap_at [OF assms(2)]
    cap_at_valid [OF assms(1,2)] unpack_granted [OF assms(3)] unpack_forwarded [OF assms(3), of "cap_at a i"]
  by (simp add: raw_deserialize_def raw_serialize_def raw_try_from_def)

theorem capability_packing_witness:
  "\<exists>c. raw_new (Userspace (ProcessId 3)) 17 = Some c \<and> certifier c = Some (Userspace (ProcessId 3)) \<and> local_index c = 17"
  using capability_packing [of "Userspace (ProcessId 3)" 17 Kernel] by (auto simp: pid_ok_iff)

text \<open>
  C7: \<open>RawCapability::validate\<close> accepts exactly the capabilities that a chain of certificates
  entitles the claimer to: the certificate grants it to the claimer, or it forwards another
  capability to the claimer that the forwarder is entitled to in turn; the result is the
  capability at the end of the chain.
\<close>

theorem validate_follows_chain:
  "validate certs c p = Some (Returned (Inr root)) \<longleftrightarrow> entitles certs (Userspace p) c root"
  by (rule validate_entitles)

text \<open>
  C6: no process can forge authority.  Let process \<open>p\<close> replace its own page of certificates by
  anything at all: every capability not certified by \<open>p\<close> itself that the kernel then accepts from
  \<open>p\<close> is one that some capability already gave \<open>p\<close> access to before.
\<close>

theorem no_forged_authority:
  assumes "pid_ok p" "\<And>page. page \<noteq> actor_offset (Userspace p) \<Longrightarrow> certs' page = certs page"
    and "validate certs' c p = Some (Returned (Inr root))" "certifier root \<noteq> Some (Userspace p)"
  shows "\<exists>c0. validate certs c0 p = Some (Returned (Inr root))"
proof -
  have "actor_ok (Userspace p)" using assms(1) by simp
  moreover have "entitles certs' (Userspace p) c root" using assms(3) by (simp add: validate_entitles)
  ultimately show ?thesis
    using entitles_own_page [of certs' "Userspace p" c root "Userspace p" certs] assms(2,4)
    by (auto simp: validate_entitles)
qed

abbreviation demo_certs :: certificates where
  "demo_certs \<equiv> cert_store (\<lambda>_ _. 0) 0 5 (value_granted (Userspace (ProcessId 2)))"

abbreviation kernel_cap :: raw_capability where
  "kernel_cap \<equiv> cap_at Kernel 5"

lemma demo_entitles: "entitles (cert_store demo_certs 2 1 v) (Userspace (ProcessId 2)) kernel_cap kernel_cap"
  by (rule entitles.granted [of _ _ Kernel])
    (simp add: read_certificate_at unpack_granted pid_ok_iff actor_offset_def)

theorem no_forged_authority_witness:
  "\<exists>c0. validate demo_certs c0 (ProcessId 2) = Some (Returned (Inr kernel_cap))"
proof -
  let ?certs' = "cert_store demo_certs 2 1 (value_forwarded (Userspace (ProcessId 1)) kernel_cap)"
  have "validate ?certs' kernel_cap (ProcessId 2) = Some (Returned (Inr kernel_cap))"
    by (simp only: validate_entitles demo_entitles)
  then show ?thesis
    using no_forged_authority [of "ProcessId 2" ?certs' demo_certs kernel_cap kernel_cap]
    by (simp add: pid_ok_iff certifier_cap_at actor_offset_def cert_store_def)
qed

text \<open>
  C8: what is given is accepted.  A capability the kernel grants to a process is accepted from
  it and leads to the handler it was granted for; and when a process that is entitled to a
  capability forwards it through a fresh slot, the kernel accepts the forwarded one from the
  recipient for the same grant, and still accepts the original from the forwarder.
\<close>

theorem granted_and_forwarded:
  assumes "grant_kernel_capability k p h = Some (k', cap)" "pid_ok p" "kernel_only_grants (kc_pages k')"
    and "forward u (kc_pages k') cap (Userspace q) = Some (u', certs', fwd)" "uc_pid u = p" "pid_ok q"
    and "kc_pages k' (unat (as_u16 p)) (unat (uc_allocated u)) = 0"
  shows "validate (kc_pages k') cap p = Some (Returned (Inr cap)) \<and> get_handler k' (local_index cap) = Some h \<and>
    validate certs' fwd q = Some (Returned (Inr cap)) \<and> validate certs' cap p = Some (Returned (Inr cap))"
proof -
  note g = grant_kernel_entitles [OF assms(1,2)]
  have "is_ptr_valid (as_usize cap)"
    using assms(4) by (auto simp: forward_def raw_from_ref_def)
      (use assms(1) raw_new_eq [of Kernel] cap_at_valid [of Kernel] in
        \<open>auto simp: grant_kernel_capability_def reserve_kernel_capability_def run_Some Let_def split: if_splits\<close>)
  then show ?thesis
    using forward_entitles [OF assms(4), of cap] assms g
    by (simp add: validate_entitles actor_offset_def)
qed

lemma demo_kernel_grants: "kernel_only_grants demo_certs"
  by (auto simp: kernel_only_grants_def read_certificate_Some actor_offset_def unpack_granted pid_ok_iff
      cert_load_def unpack_zero cert_store_def value_bits_roundtrip)

theorem granted_and_forwarded_witness:
  "\<exists>k' u' certs' fwd.
     grant_kernel_capability \<lparr>kc_pages = (\<lambda>_ _. 0), kc_allocated = 5, kc_handlers = (\<lambda>_. None)\<rparr>
       (ProcessId 2) ''disk'' = Some (k', kernel_cap) \<and>
     forward (user_caps_start (ProcessId 2)) (kc_pages k') kernel_cap (Userspace (ProcessId 3)) = Some (u', certs', fwd) \<and>
     validate certs' fwd (ProcessId 3) = Some (Returned (Inr kernel_cap))"
proof -
  let ?k = "\<lparr>kc_pages = (\<lambda>_ _. 0 :: u64), kc_allocated = 5, kc_handlers = (\<lambda>_. None)\<rparr>"
  obtain k' where g: "grant_kernel_capability ?k (ProcessId 2) ''disk'' = Some (k', kernel_cap)"
    "kc_pages k' = demo_certs"
    by (simp add: grant_kernel_capability_def reserve_kernel_capability_def raw_new_eq local_index_cap_at)
  obtain u' certs' fwd where f: "forward (user_caps_start (ProcessId 2)) (kc_pages k') kernel_cap
      (Userspace (ProcessId 3)) = Some (u', certs', fwd)"
    by (simp add: forward_def user_caps_start_def allocate_certificate_def Let_def actor_offset_def
        get_capability_certificate_page_def raw_from_ref_def is_ptr_valid_def in_range_def user_mapped)
  have zero: "kc_pages k' 2 1 = 0" by (simp add: g(2) cert_store_def)
  show ?thesis
    using g f granted_and_forwarded [OF g(1) _ _ f] zero demo_kernel_grants
    by (auto simp: pid_ok_iff user_caps_start_def)
qed

text \<open>
  C11: a process can hang the kernel.  A certificate that a process forwards to itself, naming
  itself, in its page of certificates, sends \<open>validate\<close> round for ever when the process claims it.
\<close>

theorem validate_self_forward_hangs:
  assumes "pid_runs p" "i < 512" "c = cap_at (Userspace p) i"
  shows "validate (cert_store certs (actor_offset (Userspace p)) i (value_forwarded (Userspace p) c)) c p = None"
proof (rule self_forward_loops)
  show "read_certificate (cert_store certs (actor_offset (Userspace p)) i (value_forwarded (Userspace p) c)) c =
      Some (Userspace p, Forwarded (Userspace p) c)"
    using assms cap_at_valid [of "Userspace p" i] by (simp add: read_certificate_at unpack_forwarded pid_runs_def)
qed

theorem validate_self_forward_hangs_witness:
  "validate (cert_store (\<lambda>_ _. 0) 1 7 (value_forwarded (Userspace (ProcessId 1)) (cap_at (Userspace (ProcessId 1)) 7)))
     (cap_at (Userspace (ProcessId 1)) 7) (ProcessId 1) = None"
  using validate_self_forward_hangs [of "ProcessId 1" 7 _ "\<lambda>_ _. 0"]
  by (simp add: pid_runs_def user_mapped pid_ok_iff actor_offset_def)

text \<open>
  And it can make the kernel panic.  The pointer check accepts any aligned address of the
  capability region, but beyond the ninth page there is no certifier: validating such a
  capability is a panic, whatever the certificates say.
\<close>

theorem validate_panics:
  assumes "is_ptr_valid (as_usize c)" "33554432 + 9 * 4096 \<le> as_usize c"
  shows "validate certs c p = Some Panicked"
proof -
  let ?x = "as_usize c - 33554432"
  have "?x < 33554432" using assms(1) by (auto simp: is_ptr_valid_def in_range_def)
  then have small: "unat (word_of_nat (?x div 4096) :: u16) = ?x div 4096"
    unfolding unat_of_nat by (intro mod_less) (simp add: less_mult_imp_div_less)
  have "9 * 4096 div 4096 \<le> ?x div 4096" using assms(2) by (intro div_le_mono) simp
  then have "process_id_new (word_of_nat (?x div 4096)) = None" "?x div 4096 \<noteq> 0"
    using small by (auto simp: process_id_new_def)
  then have "certifier c = None" using assms(2) by (simp add: certifier_def)
  then show ?thesis
    by (simp add: validate_def validate_loop.simps validate_turn_def read_certificate_def)
qed

theorem validate_panics_witness: "validate (\<lambda>_ _. 0) (RawCapability 0x2009000) (ProcessId 1) = Some Panicked"
  using validate_panics [of "RawCapability 0x2009000"] by (simp add: is_ptr_valid_def in_range_def)

end
