(* ===== verification/Process.thy ===== *)
theory Process
  imports Buddy_Session Page_Table_Commute Capability_Correct
begin

text \<open>
  Processes (\<open>kernel/src/process.rs\<close>, \<open>kernel/src/user.rs\<close>, \<open>kernel/src/util/untyped_box.rs\<close>):
  a process's registers, its page table, the heap of addresses it may use, the memory that backs
  it, its messages, and the kernel's access to its memory.  The objects behind a process's
  demand-paged mappings are a parameter, the type variable \<open>'v\<close>.
\<close>

subsection \<open>Registers and pointers\<close>

datatype reg = RA | SP | GP | TP | T0 | T1 | T2 | S0 | S1 | A0 | A1 | A2 | A3 | A4 | A5 | A6 | A7
  | S2 | S3 | S4 | S5 | S6 | S7 | S8 | S9 | S10 | S11 | T3 | T4 | T5 | T6

type_synonym registers = "reg \<Rightarrow> usize"

datatype user_ptr_invalid = UserPtrInvalid

datatype user_slice_too_small = UserSliceTooSmall

datatype user_syscall_error =
    ErrAlloc alloc_error
  | ErrTryReserve
  | ErrInvalidCapability invalid_capability_error
  | ErrInvalidPointer user_ptr_invalid
  | ErrInvalidSyscallNumber
  | ErrSliceTooSmall user_slice_too_small

text \<open>\<open>UserPtr<u8>\<close> and \<open>UserPtr<[u8]>\<close>.  Bytes are aligned anywhere; the null pointer is rejected.\<close>

datatype user_ptr = UserPtr (ptr_addr: usize)

record user_slice =
  us_ptr :: usize
  us_len :: usize

definition check_ptr :: "usize \<Rightarrow> usize \<Rightarrow> user_ptr_invalid + unit" where
  "check_ptr align_of ptr =
     (if ptr AND push_bit 63 1 \<noteq> 0 then Inl UserPtrInvalid
      else if ptr mod align_of \<noteq> 0 then Inl UserPtrInvalid
      else Inr ())"

definition user_from_ptr :: "usize \<Rightarrow> user_ptr_invalid + user_ptr" where
  "user_from_ptr ptr =
     (case check_ptr 1 ptr of
        Inl e \<Rightarrow> Inl e
      | Inr _ \<Rightarrow> if ptr = 0 then Inl UserPtrInvalid else Inr (UserPtr ptr))"

definition user_from_slice :: "usize \<Rightarrow> usize \<Rightarrow> user_ptr_invalid + user_slice" where
  "user_from_slice ptr len =
     (if ptr AND push_bit 63 1 \<noteq> 0 then Inl UserPtrInvalid
      else if ptr mod 1 \<noteq> 0 then Inl UserPtrInvalid
      else if ptr = 0 then Inl UserPtrInvalid
      else Inr \<lparr>us_ptr = ptr, us_len = len\<rparr>)"

subsection \<open>The process\<close>

text \<open>\<open>UntypedBox\<close>: memory of the kernel heap, with the layout it was allocated with.\<close>

record untyped_box =
  ub_ptr :: usize
  ub_layout :: layout

definition byte_size :: "untyped_box \<Rightarrow> usize" where
  "byte_size b = lay_size (ub_layout b)"

record message =
  msg_cap :: raw_capability
  msg_method :: usize
  msg_args :: "u8 list"
  msg_sender :: process_id

datatype process_state =
    Runnable
  | Finished
  | WaitingForReply actor user_slice
  | WaitingForStreamMap actor
  | ReadyReply "u8 list" user_slice
  | ReadyStreamMap raw_capability usize

type_synonym 'v vmm = "(usize \<times> usize) \<times> 'v"

record 'v process =
  p_id :: process_id
  p_name :: string
  p_state :: process_state
  p_registers :: registers
  p_pc :: usize
  p_page_table :: page_table
  p_heap :: buddy_allocator
  p_messages :: "message list"
  p_currently_serving :: "process_id option"
  p_allocated :: "(usize \<times> untyped_box) list"
  p_virtual_memory_mappings :: "'v vmm list"

definition process_alloc_at :: "'v process \<Rightarrow> usize \<Rightarrow> untyped_box \<Rightarrow> page_flags \<Rightarrow> 'v process run" where
  "process_alloc_at p virt backing flags = do {
     let sz = lay_size (ub_layout backing);
     phys \<leftarrow> virt_to_phys (ub_ptr backing);
     table \<leftarrow> table_map (p_page_table p) virt phys sz flags;
     Some (p\<lparr>p_page_table := table, p_allocated := p_allocated p @ [(virt, backing)]\<rparr>) }"

definition process_alloc ::
  "'v process \<Rightarrow> untyped_box \<Rightarrow> page_flags \<Rightarrow> ('v process \<times> (alloc_error + usize)) run" where
  "process_alloc p backing flags = do {
     (heap, r) \<leftarrow> buddy_alloc (p_heap p) (ub_layout backing);
     let p = p\<lparr>p_heap := heap\<rparr>;
     case r of
       Inl e \<Rightarrow> Some (p, Inl e)
     | Inr virt \<Rightarrow> do {
         p \<leftarrow> process_alloc_at p virt backing flags;
         Some (p, Inr virt) } }"

text \<open>The index of the first allocation at an address, and \<open>Vec::swap_remove\<close>.\<close>

fun find_allocated :: "(usize \<times> untyped_box) list \<Rightarrow> usize \<Rightarrow> usize option" where
  "find_allocated [] ptr = None"
| "find_allocated ((virt, b) # xs) ptr =
     (if virt = ptr then Some 0 else map_option Suc (find_allocated xs ptr))"

definition swap_remove :: "'a list \<Rightarrow> usize \<Rightarrow> ('a list \<times> 'a) run" where
  "swap_remove xs i =
     (if i < length xs then Some (butlast (xs[i := last xs]), xs ! i) else None)"

definition process_dealloc :: "'v process \<Rightarrow> usize \<Rightarrow> ('v process \<times> (unit + unit)) run" where
  "process_dealloc p ptr =
     (case find_allocated (p_allocated p) ptr of
        None \<Rightarrow> Some (p, Inl ())
      | Some slot \<Rightarrow> do {
          (rest, (virt, backing)) \<leftarrow> swap_remove (p_allocated p) slot;
          phys \<leftarrow> virt_to_phys (ub_ptr backing);
          table \<leftarrow> table_unmap (p_page_table p) virt phys (byte_size backing);
          heap \<leftarrow> buddy_dealloc (p_heap p) virt (ub_layout backing);
          Some (p\<lparr>p_allocated := rest, p_page_table := table, p_heap := heap\<rparr>, Inr ()) })"

subsection \<open>The regions of a new process\<close>

text \<open>
  The pages of certificates start at the physical address \<open>base\<close>: the pages before the
  process's own and those after it are mapped read-only, its own is writable.
\<close>

definition map_capability_memory :: "page_table \<Rightarrow> usize \<Rightarrow> process_id \<Rightarrow> page_table run" where
  "map_capability_memory table base pid = do {
     let n = unat (as_u16 pid);
     let pre_v = fst USER_CAPABILITIES;
     let pre_p = base;
     let own_v = pre_v + n * PAGE_SIZE;
     let own_p = pre_p + n * PAGE_SIZE;
     let suf_v = own_v + PAGE_SIZE;
     let suf_p = own_p + PAGE_SIZE;
     suf_l \<leftarrow> usub PROCESS_COUNT n;
     suf_l \<leftarrow> usub suf_l 1;
     table \<leftarrow> table_map table pre_v pre_p (n * PAGE_SIZE) (flags_user flags_readonly);
     table \<leftarrow> table_map table own_v own_p PAGE_SIZE (flags_user flags_read_write);
     table_map table suf_v suf_p (suf_l * PAGE_SIZE) (flags_user flags_readonly) }"

text \<open>
  The inputs and the stack live in memory of the kernel heap, which the caller passes; the size
  of \<open>ProcessInputs<T>\<close> is that of the box.
\<close>

definition map_inputs_memory :: "'v process \<Rightarrow> untyped_box \<Rightarrow> 'v process run" where
  "map_inputs_memory p inputs = do {
     sz \<leftarrow> usub (snd USER_INPUTS) (fst USER_INPUTS);
     ensure (byte_size inputs \<le> sz);
     process_alloc_at p (fst USER_INPUTS) inputs (flags_user flags_readonly) }"

definition map_user_stack :: "'v process \<Rightarrow> usize \<Rightarrow> 'v process run" where
  "map_user_stack p stack_ptr = do {
     stack_size \<leftarrow> usub (snd USER_STACK) (fst USER_STACK);
     pages \<leftarrow> layout_from_size_align stack_size 1;
     process_alloc_at p (fst USER_STACK) \<lparr>ub_ptr = stack_ptr, ub_layout = pages\<rparr>
       (flags_user flags_read_write) }"

subsection \<open>Memory\<close>

text \<open>
  Physical memory as bytes.  The pages of certificates are part of it: they are kept as words,
  and the nine pages from \<open>cap_base\<close> on show those words byte by byte.
\<close>

record memory =
  mem_bytes :: "usize \<Rightarrow> u8"
  mem_certs :: certificates
  cap_base :: usize

definition in_cap_pages :: "memory \<Rightarrow> usize \<Rightarrow> bool" where
  "in_cap_pages m a \<longleftrightarrow> cap_base m \<le> a \<and> a < cap_base m + (MAX_PROCESSES + 1) * PAGE_SIZE"

definition word_byte :: "u64 \<Rightarrow> usize \<Rightarrow> u8" where
  "word_byte w i = ucast (drop_bit (8 * i) w)"

definition set_word_byte :: "u64 \<Rightarrow> usize \<Rightarrow> u8 \<Rightarrow> u64" where
  "set_word_byte w i b = (w AND NOT (push_bit (8 * i) 0xFF)) OR push_bit (8 * i) (ucast b)"

definition phys_read :: "memory \<Rightarrow> usize \<Rightarrow> u8" where
  "phys_read m a =
     (if in_cap_pages m a
      then let off = a - cap_base m in
        word_byte (mem_certs m (off div PAGE_SIZE) (off mod PAGE_SIZE div 8)) (off mod 8)
      else mem_bytes m a)"

definition phys_write :: "memory \<Rightarrow> usize \<Rightarrow> u8 \<Rightarrow> memory" where
  "phys_write m a b =
     (if in_cap_pages m a
      then let off = a - cap_base m; page = off div PAGE_SIZE; i = off mod PAGE_SIZE div 8 in
        m\<lparr>mem_certs := (mem_certs m)(page := (mem_certs m page)(i := set_word_byte (mem_certs m page i) (off mod 8) b))\<rparr>
      else m\<lparr>mem_bytes := (mem_bytes m)(a := b)\<rparr>)"

text \<open>
  The kernel reads and writes a user's memory through the page table that is active, which is
  the user's: an address whose upper bits are not a copy of bit 38, one that is not mapped for
  users, or one that is not mapped for the access, is a page fault in the kernel, and that is a
  panic.
\<close>

definition user_addr :: "page_table \<Rightarrow> u64 \<Rightarrow> usize \<Rightarrow> usize run" where
  "user_addr t access a =
     (if a < snd PHYSICAL_ADDRESSES then
        case translate 2 t a of
          None \<Rightarrow> None
        | Some (f, phys) \<Rightarrow>
            if flag_bits f AND PAGE_U \<noteq> 0 \<and> flag_bits f AND access \<noteq> 0 then Some phys else None
      else None)"

fun user_read :: "page_table \<Rightarrow> memory \<Rightarrow> usize \<Rightarrow> usize \<Rightarrow> u8 list run" where
  "user_read t m a 0 = Some []"
| "user_read t m a (Suc n) = do {
     phys \<leftarrow> user_addr t PAGE_R a;
     bs \<leftarrow> user_read t m (a + 1) n;
     Some (phys_read m phys # bs) }"

fun user_write :: "page_table \<Rightarrow> memory \<Rightarrow> usize \<Rightarrow> u8 list \<Rightarrow> memory run" where
  "user_write t m a [] = Some m"
| "user_write t m a (b # bs) = do {
     phys \<leftarrow> user_addr t PAGE_W a;
     user_write t (phys_write m phys b) (a + 1) bs }"

definition copy_to_kernel :: "page_table \<Rightarrow> memory \<Rightarrow> user_slice \<Rightarrow> u8 list run" where
  "copy_to_kernel t m s = user_read t m (us_ptr s) (us_len s)"

definition write_to_user ::
  "page_table \<Rightarrow> memory \<Rightarrow> user_slice \<Rightarrow> u8 list \<Rightarrow> (memory \<times> (user_slice_too_small + unit)) run" where
  "write_to_user t m s data =
     (if us_len s < length data then Some (m, Inl UserSliceTooSmall)
      else do {
        m \<leftarrow> user_write t m (us_ptr s) data;
        Some (m, Inr ()) })"

subsection \<open>Creation\<close>

text \<open>\<open>load\<close> stands for loading the program's file, which \<open>Elf\<close> models.\<close>

definition create_process ::
  "('v process \<Rightarrow> memory \<Rightarrow> ('v process \<times> memory) run) \<Rightarrow> process_id \<Rightarrow> string \<Rightarrow> untyped_box \<Rightarrow> usize \<Rightarrow>
   memory \<Rightarrow> ('v process \<times> memory) run" where
  "create_process load pid name inputs stack_ptr m = do {
     heap \<leftarrow> buddy_new (fst USER_HEAP) (snd USER_HEAP);
     let p = \<lparr>p_id = pid, p_name = name, p_state = Runnable,
              p_registers = (\<lambda>_. 0)(SP := snd USER_STACK), p_pc = 0,
              p_page_table = table_new, p_heap = heap, p_messages = [],
              p_currently_serving = None, p_allocated = [], p_virtual_memory_mappings = []\<rparr>;
     table \<leftarrow> map_hh_direct_mapping (p_page_table p);
     (p, m) \<leftarrow> load (p\<lparr>p_page_table := table\<rparr>) m;
     table \<leftarrow> map_capability_memory (p_page_table p) (cap_base m) (p_id p);
     p \<leftarrow> map_inputs_memory (p\<lparr>p_page_table := table\<rparr>) inputs;
     p \<leftarrow> map_user_stack p stack_ptr;
     Some (p, m) }"

end
