(* ===== verification/Elf.thy ===== *)
theory Elf
  imports Process
begin

text \<open>
  Loading a program (\<open>kernel/src/elf.rs\<close>).  The file is parsed by the \<open>elf\<close> crate, which is not
  part of the repository: its results (the header, the program headers and the bytes of a
  segment with their address) are a parameter.  So are the addresses at which the kernel heap
  places the pages of the writable segments, one per segment.
\<close>

subsection \<open>The parsed file\<close>

datatype elf_class = ELF32 | ELF64

record program_header =
  p_type :: u32
  p_flags :: u32
  p_offset :: u64
  p_vaddr :: u64
  p_filesz :: u64
  p_memsz :: u64
  p_align :: u64

record elf_file =
  ef_class :: elf_class
  ef_little_endian :: bool
  ef_version :: u32
  ef_osabi :: u8
  ef_abiversion :: u8
  ef_type :: u16
  ef_machine :: u16
  ef_entry :: u64
  ef_segments :: "program_header list option"
  ef_segment_data :: "program_header \<Rightarrow> (usize \<times> u8 list) option"
  ef_bytes :: "u8 list"

definition PT_LOAD :: u32 where "PT_LOAD = 1"
definition PF_X :: u32 where "PF_X = 1"
definition PF_W :: u32 where "PF_W = 2"
definition PF_R :: u32 where "PF_R = 4"
definition ET_EXEC :: u16 where "ET_EXEC = 2"
definition EM_RISCV :: u16 where "EM_RISCV = 243"

subsection \<open>Loading\<close>

definition paging_flags :: "program_header \<Rightarrow> page_flags run" where
  "paging_flags segment = do {
     let readable = p_flags segment AND PF_R \<noteq> 0;
     let writable = p_flags segment AND PF_W \<noteq> 0;
     let executable = p_flags segment AND PF_X \<noteq> 0;
     ensure readable;
     ensure (\<not> (writable \<and> executable));
     Some (if writable then flags_user flags_read_write
           else if executable then flags_user flags_executable
           else flags_user flags_readonly) }"

definition slice_bytes :: "'a list \<Rightarrow> usize \<Rightarrow> usize \<Rightarrow> 'a list run" where
  "slice_bytes xs a b = (if a \<le> b \<and> b \<le> length xs then Some (take (b - a) (drop a xs)) else None)"

definition elf_data_is_zero_padded :: "program_header \<Rightarrow> u8 list \<Rightarrow> bool run" where
  "elf_data_is_zero_padded segment elf_bytes = do {
     let file_segment_start = unat (p_offset segment);
     file_segment_fake_end \<leftarrow> uadd file_segment_start (unat (p_filesz segment));
     e \<leftarrow> uadd file_segment_start (unat (p_memsz segment));
     file_segment_real_end \<leftarrow> next_multiple_of e PAGE_SIZE;
     padding \<leftarrow> slice_bytes elf_bytes file_segment_fake_end file_segment_real_end;
     Some (list_all (\<lambda>b. b = 0) padding) }"

text \<open>Writing a buffer to physical memory.\<close>

fun phys_write_all :: "memory \<Rightarrow> usize \<Rightarrow> u8 list \<Rightarrow> memory" where
  "phys_write_all m a [] = m"
| "phys_write_all m a (b # bs) = phys_write_all (phys_write m a b) (a + 1) bs"

definition check_segment :: "program_header \<Rightarrow> unit run" where
  "check_segment segment = do {
     ensure (is_multiple_of (unat (p_vaddr segment)) PAGE_SIZE);
     ensure (unat (p_vaddr segment) \<ge> fst USER_ELF);
     ensure (p_filesz segment \<le> p_memsz segment);
     sz \<leftarrow> usub (snd USER_ELF) (fst USER_ELF);
     ensure (unat (p_memsz segment) \<le> sz);
     e \<leftarrow> uadd (unat (p_vaddr segment)) (unat (p_memsz segment));
     ensure (e \<le> snd USER_ELF);
     ensure (unat (p_align segment) = PAGE_SIZE) }"

text \<open>One turn of the loop over the program headers; \<open>ptr\<close> is where its pages are, if it needs any.\<close>

definition load_segment ::
  "elf_file \<Rightarrow> program_header \<Rightarrow> usize \<Rightarrow> 'v process \<Rightarrow> memory \<Rightarrow> ('v process \<times> memory) run" where
  "load_segment elf segment ptr p m =
     (if p_type segment \<noteq> PT_LOAD then Some (p, m)
      else do {
        check_segment segment;
        (data_ptr, data) \<leftarrow> ef_segment_data elf segment;
        flags \<leftarrow> paging_flags segment;
        if is_writable flags then do {
          sz \<leftarrow> next_multiple_of (unat (p_memsz segment)) PAGE_SIZE;
          ensure (unat (p_filesz segment) \<le> sz);
          ensure (length data = unat (p_filesz segment));
          phys \<leftarrow> virt_to_phys ptr;
          let m = phys_write_all m phys (data @ replicate (sz - length data) 0);
          l \<leftarrow> layout_from_size_align sz 1;
          p \<leftarrow> process_alloc_at p (unat (p_vaddr segment)) \<lparr>ub_ptr = ptr, ub_layout = l\<rparr> flags;
          Some (p, m) }
        else do {
          ensure (is_multiple_of data_ptr PAGE_SIZE);
          padded \<leftarrow> elf_data_is_zero_padded segment (ef_bytes elf);
          ensure padded;
          phys \<leftarrow> virt_to_phys data_ptr;
          sz \<leftarrow> next_multiple_of (length data) PAGE_SIZE;
          table \<leftarrow> table_map (p_page_table p) (unat (p_vaddr segment)) phys sz flags;
          Some (p\<lparr>p_page_table := table\<rparr>, m) } })"

fun load_segments ::
  "elf_file \<Rightarrow> (program_header \<times> usize) list \<Rightarrow> 'v process \<Rightarrow> memory \<Rightarrow> ('v process \<times> memory) run" where
  "load_segments elf [] p m = Some (p, m)"
| "load_segments elf ((segment, ptr) # rest) p m = do {
     (p, m) \<leftarrow> load_segment elf segment ptr p m;
     load_segments elf rest p m }"

definition load_elf ::
  "elf_file option \<Rightarrow> usize list \<Rightarrow> 'v process \<Rightarrow> memory \<Rightarrow> ('v process \<times> memory) run" where
  "load_elf parsed ptrs p m = do {
     elf \<leftarrow> parsed;
     ensure (ef_class elf = ELF64);
     ensure (ef_little_endian elf);
     ensure (ef_version elf = 1);
     ensure (ef_osabi elf = 0);
     ensure (ef_abiversion elf = 0);
     ensure (ef_type elf = ET_EXEC);
     ensure (ef_machine elf = EM_RISCV);
     segments \<leftarrow> ef_segments elf;
     (p, m) \<leftarrow> load_segments elf (zip segments ptrs) p m;
     Some (p\<lparr>p_pc := unat (ef_entry elf)\<rparr>, m) }"

end
