(* ===== verification/Process_Correct.thy ===== *)
theory Process_Correct
  imports Elf "HOL-Library.Multiset"
begin

text \<open>
  What a process may rely on: its page table is made of the ranges that were mapped for it, in
  any order; allocating finds free addresses and maps them, freeing gives back exactly what was
  allocated; no page is writable and executable; and of the pages of certificates it can write
  its own only.
\<close>

subsection \<open>Tables made of mappings\<close>

type_synonym mapping = "usize \<times> usize \<times> usize \<times> page_flags"

fun apply_maps :: "page_table \<Rightarrow> mapping list \<Rightarrow> page_table run" where
  "apply_maps t [] = Some t"
| "apply_maps t ((v, p, n, fl) # ms) = do { t \<leftarrow> table_map t v p n fl; apply_maps t ms }"

definition sized :: "mapping list \<Rightarrow> bool" where
  "sized ms \<longleftrightarrow> list_all (\<lambda>(v, p, n, fl). 0 < n) ms"

lemma sized_simps [simp]:
  "sized []" "sized ((v, p, n, fl) # ms) \<longleftrightarrow> 0 < n \<and> sized ms" "sized (xs @ ys) \<longleftrightarrow> sized xs \<and> sized ys"
  by (auto simp: sized_def)

lemma apply_maps_append: "apply_maps t (xs @ ys) = apply_maps t xs \<bind> (\<lambda>t. apply_maps t ys)"
proof (induction xs arbitrary: t)
  case (Cons x xs)
  then show ?case by (cases x) (simp cong: Option.bind_cong)
qed simp

lemma apply_maps_wf: "wf_table 2 t \<Longrightarrow> sized ms \<Longrightarrow> apply_maps t ms = Some t' \<Longrightarrow> wf_table 2 t'"
proof (induction ms arbitrary: t)
  case (Cons m ms)
  obtain v p n fl where m: "m = (v, p, n, fl)" by (cases m)
  with Cons.prems obtain t1 where "table_map t v p n fl = Some t1" "apply_maps t1 ms = Some t'"
    by (auto simp: run_Some)
  with Cons table_map_Some [of t n v p fl t1] m show ?case by auto
qed simp

lemma apply_maps_swap:
  assumes "wf_table 2 t" "sized [a, b]" "apply_maps t (a # b # ms) = Some t'"
  shows "apply_maps t (b # a # ms) = Some t'"
proof -
  obtain v p n fl w q m gl where ab: "a = (v, p, n, fl)" "b = (w, q, m, gl)" by (cases a; cases b)
  with assms obtain tA tAB where "table_map t v p n fl = Some tA" "table_map tA w q m gl = Some tAB"
    "apply_maps tAB ms = Some t'" by (auto simp: run_Some)
  with table_unmap_later [of t n m v p fl tA w q gl tAB] assms ab show ?thesis by auto
qed

lemma apply_maps_move:
  "wf_table 2 t \<Longrightarrow> sized (x # ys) \<Longrightarrow> apply_maps t (x # ys @ zs) = Some t' \<Longrightarrow> apply_maps t (ys @ x # zs) = Some t'"
proof (induction ys arbitrary: t)
  case (Cons y ys)
  obtain w q m gl where y: "y = (w, q, m, gl)" by (cases y)
  obtain v p n fl where x: "x = (v, p, n, fl)" by (cases x)
  have s: "sized [x, y]" "sized (x # ys)" "0 < m" using Cons.prems(2) x y by simp_all
  have "apply_maps t (y # x # ys @ zs) = Some t'"
    using apply_maps_swap [OF Cons.prems(1) s(1)] Cons.prems(3) by simp
  then obtain t1 where t1: "table_map t w q m gl = Some t1" "apply_maps t1 (x # ys @ zs) = Some t'"
    using y by (auto simp: run_Some)
  have "wf_table 2 t1" using table_map_Some [OF Cons.prems(1) s(3) t1(1)] by blast
  from Cons.IH [OF this s(2) t1(2)] t1(1) y show ?case by simp
qed simp

lemma apply_maps_perm:
  "wf_table 2 t \<Longrightarrow> sized xs \<Longrightarrow> mset xs = mset ys \<Longrightarrow> apply_maps t xs = Some t' \<Longrightarrow> apply_maps t ys = Some t'"
proof (induction xs arbitrary: t ys)
  case (Cons x xs)
  obtain v p n fl where x: "x = (v, p, n, fl)" by (cases x)
  have "x \<in> set ys" using Cons.prems(3) by (metis list.set_intros(1) mset_eq_setD)
  then obtain as bs where ys: "ys = as @ x # bs" by (meson split_list)
  then have ms: "mset xs = mset (as @ bs)" using Cons.prems(3) by simp
  then have "set (as @ bs) = set xs" by (metis mset_eq_setD)
  then have "sized (as @ bs)" using Cons.prems(2) x unfolding sized_def list_all_iff by auto
  then have sx: "sized (x # as)" using Cons.prems(2) x by simp
  obtain t1 where t1: "table_map t v p n fl = Some t1" "apply_maps t1 xs = Some t'"
    using Cons.prems(4) x by (auto simp: run_Some)
  have "wf_table 2 t1" using table_map_Some [OF Cons.prems(1) _ t1(1)] Cons.prems(2) x by simp
  from Cons.IH [OF this _ ms t1(2)] Cons.prems(2) x t1(1)
  have "apply_maps t (x # as @ bs) = Some t'" by simp
  from apply_maps_move [OF Cons.prems(1) sx this] ys show ?case by simp
qed simp

text \<open>What such a table translates to: the range that holds the address, if there is one.\<close>

definition covers :: "mapping \<Rightarrow> usize \<Rightarrow> bool" where
  "covers m w \<longleftrightarrow> (case m of (v, p, n, fl) \<Rightarrow> v \<le> w \<and> w < v + n)"

definition target :: "mapping \<Rightarrow> usize \<Rightarrow> page_flags \<times> usize" where
  "target m w = (case m of (v, p, n, fl) \<Rightarrow> (fl, p + (w - v)))"

lemma apply_maps_translate:
  assumes "wf_table 2 t" "sized ms" "apply_maps t ms = Some t'" "w < 549755813888"
  shows "translate 2 t' w = (case find (\<lambda>m. covers m w) ms of
      None \<Rightarrow> translate 2 t w | Some m \<Rightarrow> Some (target m w)) \<and>
    (\<forall>m \<in> set ms. covers m w \<longrightarrow> translate 2 t w = None)"
  using assms
proof (induction ms arbitrary: t)
  case (Cons x ms)
  obtain v p n fl where x: "x = (v, p, n, fl)" by (cases x)
  obtain t1 where t1: "table_map t v p n fl = Some t1" "apply_maps t1 ms = Some t'"
    using Cons.prems(3) x by (auto simp: run_Some)
  have n: "0 < n" "sized ms" using Cons.prems(2) x by simp_all
  note s = table_map_Some [OF Cons.prems(1) n(1) t1(1)]
  have wf: "wf_table 2 t1" using s by blast
  note ih = Cons.IH [OF wf n(2) t1(2) Cons.prems(4)]
  have tr: "translate 2 t1 w = (if v \<le> w \<and> w < v + n then Some (fl, p + (w - v)) else translate 2 t w)"
    using s Cons.prems(4) by (simp add: remap_def)
  show ?case
  proof (cases "covers x w")
    case True
    then have vw: "v \<le> w \<and> w < v + n" using x by (simp add: covers_def)
    then have "translate 2 t w = None" using s by blast
    moreover have none: "\<not> covers m w" if "m \<in> set ms" for m using ih that tr vw by auto
    then have "find (\<lambda>m. covers m w) ms = None" by (simp add: find_None_iff)
    ultimately show ?thesis using ih tr vw True x by (auto simp: target_def)
  next
    case False
    then have "translate 2 t1 w = translate 2 t w" using x tr by (auto simp: covers_def)
    from ih [unfolded this] False show ?thesis by auto
  qed
qed simp

subsection \<open>The process's memory\<close>

definition backing_ok :: "untyped_box \<Rightarrow> bool" where
  "backing_ok b \<longleftrightarrow> layout_ok (ub_layout b) \<and> 0 < byte_size b \<and> 4096 dvd byte_size b \<and>
     (\<exists>phys. virt_to_phys (ub_ptr b) = Some phys \<and> 4096 dvd phys \<and> phys + byte_size b \<le> 274877906944)"

definition box_map :: "(usize \<times> untyped_box) \<times> page_flags \<Rightarrow> mapping" where
  "box_map = (\<lambda>((virt, b), fl). (virt, the (virt_to_phys (ub_ptr b)), byte_size b, fl))"

text \<open>
  The page table is made of the mappings of the process's allocations and of others (the direct
  mapping, the program, the certificates, shared memory); the heap offers addresses that are not
  mapped, and has handed out those of the allocations in its range.
\<close>

definition in_heap :: "usize \<times> untyped_box \<Rightarrow> bool" where
  "in_heap x \<longleftrightarrow> 0x4000000 \<le> fst x"

definition heap_boxes :: "'v process \<Rightarrow> (usize \<times> untyped_box) list" where
  "heap_boxes p = filter in_heap (p_allocated p)"

definition proc_maps :: "'v process \<Rightarrow> page_flags list \<Rightarrow> mapping list \<Rightarrow> bool" where
  "proc_maps p fls others \<longleftrightarrow> length fls = length (p_allocated p) \<and> sized others \<and>
     apply_maps table_new (others @ map box_map (zip (p_allocated p) fls)) = Some (p_page_table p)"

text \<open>
  The block an allocation occupies may be larger than the memory behind it: the rest of the
  block is not mapped.
\<close>

definition box_inv :: "'v process \<Rightarrow> usize \<times> untyped_box \<Rightarrow> bool" where
  "box_inv p x \<longleftrightarrow> (fst x, request (ub_layout (snd x))) \<in> buddy_live (p_heap p) \<and>
     (\<forall>w \<in> block (fst x, request (ub_layout (snd x))).
        fst x + byte_size (snd x) \<le> w \<longrightarrow> translate 2 (p_page_table p) w = None)"

definition proc_inv :: "'v process \<Rightarrow> bool" where
  "proc_inv p \<longleftrightarrow> (\<exists>fls others. proc_maps p fls others) \<and>
     (\<forall>x \<in> set (p_allocated p). backing_ok (snd x)) \<and>
     buddy_invar (p_heap p) \<and> range_start (p_heap p) = 0x4000000 \<and> range_end (p_heap p) = 274877906944 \<and>
     (\<forall>w \<in> buddy_free (p_heap p). translate 2 (p_page_table p) w = None) \<and>
     distinct (map fst (heap_boxes p)) \<and> (\<forall>x \<in> set (heap_boxes p). box_inv p x)"

lemma sized_boxes:
  "\<forall>x \<in> set xs. backing_ok (snd x) \<Longrightarrow> sized (map box_map (zip xs fls))"
  by (auto simp: sized_def list_all_iff box_map_def backing_ok_def dest!: set_zip_leftD)

lemma proc_inv_wf:
  assumes "proc_inv p"
  shows "wf_table 2 (p_page_table p)"
proof -
  obtain fls others where m: "sized others"
    "apply_maps table_new (others @ map box_map (zip (p_allocated p) fls)) = Some (p_page_table p)"
    using assms by (auto simp: proc_inv_def proc_maps_def)
  have "sized (others @ map box_map (zip (p_allocated p) fls))"
    using assms m(1) sized_boxes [of "p_allocated p" fls] by (simp add: proc_inv_def)
  from apply_maps_wf [OF new_table(1) this m(2)] show ?thesis .
qed

lemma buddy_free_bound:
  assumes "buddy_invar h" "w \<in> buddy_free h"
  shows "range_start h \<le> w \<and> w < range_end h"
proof -
  obtain o0 where "w = range_start h + o0" "o0 \<in> avail (buddy_level h) (buddy_root h)"
    using assms(2) by (auto simp: buddy_free_def shift_by_def)
  moreover have "avail (buddy_level h) (buddy_root h) \<subseteq> {0..<range_end h - range_start h}"
    using assms(1) by (simp add: buddy_invar_def)
  ultimately show ?thesis by force
qed

lemma block_size_mono_page:
  assumes "4096 \<le> r"
  shows "4096 dvd block_size r"
proof -
  obtain i where i: "block_size r = 2 ^ i" using block_size_power by blast
  have "(2::nat) ^ 12 \<le> 2 ^ i" using block_size_ge [of r] assms i by simp
  then have "12 \<le> i" by (rule power_le_imp_le_exp [rotated]) simp
  then have "(2::nat) ^ 12 dvd 2 ^ i" by (rule le_imp_power_dvd)
  with i show ?thesis by simp
qed

lemma process_alloc_ok:
  assumes inv: "proc_inv p" and b: "backing_ok b"
  shows "process_alloc p b fl = Some (p, Inl AllocError) \<or>
    (\<exists>p' virt phys. process_alloc p b fl = Some (p', Inr virt) \<and> proc_inv p' \<and>
      virt_to_phys (ub_ptr b) = Some phys \<and>
      table_map (p_page_table p) virt phys (byte_size b) fl = Some (p_page_table p') \<and>
      p_allocated p' = p_allocated p @ [(virt, b)] \<and> 0x4000000 \<le> virt \<and> virt + byte_size b \<le> 274877906944 \<and>
      (virt, request (ub_layout b)) \<notin> buddy_live (p_heap p) \<and>
      buddy_free (p_heap p') = buddy_free (p_heap p) - block (virt, request (ub_layout b)) \<and>
      buddy_live (p_heap p') = insert (virt, request (ub_layout b)) (buddy_live (p_heap p)))"
proof -
  let ?l = "ub_layout b" and ?h = "p_heap p"
  have h: "buddy_invar ?h" "range_start ?h = 0x4000000" "range_end ?h = 274877906944"
    and free: "\<forall>w \<in> buddy_free ?h. translate 2 (p_page_table p) w = None"
    using inv by (auto simp: proc_inv_def)
  have l: "layout_ok ?l" "0 < byte_size b" "4096 dvd byte_size b" using b by (auto simp: backing_ok_def)
  obtain phys where phys: "virt_to_phys (ub_ptr b) = Some phys" "4096 dvd phys" "phys + byte_size b \<le> 274877906944"
    using b by (auto simp: backing_ok_def)
  show ?thesis
  proof (cases "request ?l \<le> max_available (buddy_root ?h)")
    case False
    then have "buddy_alloc ?h ?l = Some (?h, Inl AllocError)" by (intro buddy_alloc_fail) simp
    then show ?thesis by (simp add: process_alloc_def)
  next
    case True
    obtain h' virt where a: "buddy_alloc ?h ?l = Some (h', Inr virt)" "buddy_invar h'"
      "block (virt, request ?l) \<subseteq> buddy_free ?h" "block_size (request ?l) dvd virt - range_start ?h"
      "buddy_free h' = buddy_free ?h - block (virt, request ?l)"
      "buddy_live h' = insert (virt, request ?l) (buddy_live ?h)"
      "range_start h' = range_start ?h" "range_start ?h \<le> virt"
      using buddy_alloc_ok [OF h(1) l(1) True] by blast
    have e': "range_end h' = range_end ?h"
      using buddy_same_range [OF a(1)] by simp
    have "4096 \<le> byte_size b" using l(2,3) by (simp add: dvd_imp_le)
    then have r: "4096 \<le> request ?l" "byte_size b \<le> request ?l" by (simp_all add: request_def byte_size_def)
    have "4096 dvd virt - 0x4000000" using dvd_trans [OF block_size_mono_page [OF r(1)]] a(4) h(2) by simp
    then have "4096 dvd (virt - 0x4000000) + 0x4000000" by (rule dvd_add) simp
    then have v: "4096 dvd virt" using a(8) h(2) by simp
    have sub: "w \<in> block (virt, request ?l)" if "virt \<le> w" "w < virt + byte_size b" for w
      using that r(2) block_size_ge [of "request ?l"] by (simp add: block_def)
    have "virt + byte_size b - 1 \<in> buddy_free ?h"
      using sub [of "virt + byte_size b - 1"] a(3) l(2) by (auto simp: subset_iff)
    then have vb: "virt + byte_size b \<le> 274877906944"
      using buddy_free_bound [OF h(1)] h(3) l(2) by fastforce
    have chk: "check_mapping virt phys (byte_size b) = Some ()"
      using v vb phys(2,3) l(2,3) by (simp add: check_mapping_Some)
    have unmapped: "\<forall>w. virt \<le> w \<and> w < virt + byte_size b \<longrightarrow> translate 2 (p_page_table p) w = None"
      using sub a(3) free by blast
    obtain t where t: "table_map (p_page_table p) virt phys (byte_size b) fl = Some t"
      using table_map_None [OF proc_inv_wf [OF inv] l(2) chk unmapped] by blast
    note st = table_map_Some [OF proc_inv_wf [OF inv] l(2) t]
    let ?p = "p\<lparr>p_heap := h', p_page_table := t, p_allocated := p_allocated p @ [(virt, b)]\<rparr>"
    have res: "process_alloc p b fl = Some (?p, Inr virt)"
      using a(1) phys(1) t by (simp add: process_alloc_def process_alloc_at_def byte_size_def)
    have free': "\<forall>w \<in> buddy_free h'. translate 2 t w = None"
    proof
      fix w assume w: "w \<in> buddy_free h'"
      then have "w \<in> buddy_free ?h" "\<not> (virt \<le> w \<and> w < virt + byte_size b)" using a(5) sub by auto
      moreover from this have "w < 549755813888" using buddy_free_bound [OF h(1)] h(3) by fastforce
      ultimately show "translate 2 t w = None" using st free by (auto simp: remap_def)
    qed
    obtain fls others where m: "length fls = length (p_allocated p)" "sized others"
      "apply_maps table_new (others @ map box_map (zip (p_allocated p) fls)) = Some (p_page_table p)"
      using inv by (auto simp: proc_inv_def proc_maps_def)
    have "apply_maps table_new ((others @ map box_map (zip (p_allocated p) fls)) @ [(virt, phys, byte_size b, fl)]) = Some t"
      using m(3) t by (simp only: apply_maps_append) simp
    then have "proc_maps ?p (fls @ [fl]) others"
      using m(1,2) phys(1) by (simp add: proc_maps_def box_map_def)
    moreover have old: "virt \<notin> block y" if "y \<in> buddy_live ?h" for y
    proof -
      have "virt \<in> block (virt, request ?l)" by (simp add: block_def)
      then show ?thesis using buddy_live_not_free [OF h(1) that] a(3) by blast
    qed
    moreover have "distinct (map fst (heap_boxes ?p))"
    proof -
      have "virt \<noteq> fst x" if "x \<in> set (heap_boxes p)" for x
      proof -
        have "(fst x, request (ub_layout (snd x))) \<in> buddy_live ?h"
          using inv that by (simp add: proc_inv_def box_inv_def)
        from old [OF this] show ?thesis by (auto simp: block_def)
      qed
      then show ?thesis using inv by (auto simp: heap_boxes_def proc_inv_def)
    qed
    moreover have "box_inv ?p x" if x: "x \<in> set (heap_boxes ?p)" for x
    proof (cases "x = (virt, b)")
      case True
      have "translate 2 t w = None" if "w \<in> block (virt, request ?l)" "virt + byte_size b \<le> w" for w
      proof -
        have "w \<in> buddy_free ?h" using that(1) a(3) by blast
        moreover from this have "w < 549755813888" using buddy_free_bound [OF h(1)] h(3) by fastforce
        ultimately show ?thesis using st free that(2) by (auto simp: remap_def)
      qed
      with True a(6) show ?thesis by (simp add: box_inv_def)
    next
      case False
      then have "x \<in> set (heap_boxes p)" using x by (auto simp: heap_boxes_def split: if_splits)
      then have o: "box_inv p x" using inv by (simp add: proc_inv_def)
      have "translate 2 t w = None" if w: "w \<in> block (fst x, request (ub_layout (snd x)))"
        "fst x + byte_size (snd x) \<le> w" for w
      proof -
        have "translate 2 (p_page_table p) w = None" using o w by (simp add: box_inv_def)
        moreover have "w \<notin> block (virt, request ?l)"
          using buddy_live_not_free [OF h(1)] o w(1) a(3) unfolding box_inv_def by blast
        moreover have "w < 549755813888"
          using buddy_live_bound [OF h(1)] o w(1) h(3) unfolding box_inv_def by fastforce
        ultimately show ?thesis using st sub by (auto simp: remap_def)
      qed
      with o a(6) show ?thesis by (simp add: box_inv_def)
    qed
    ultimately have "proc_inv ?p"
      using inv b a(2,7) e' h free' unfolding proc_inv_def by auto
    moreover have "(virt, request ?l) \<notin> buddy_live ?h" using old by (fastforce simp: block_def)
    ultimately show ?thesis using res phys(1) t a(5,6,8) h(2) vb by (intro disjI2 exI [of _ ?p]) auto
  qed
qed

lemma find_allocated_Some:
  "find_allocated xs ptr = Some i \<Longrightarrow> i < length xs \<and> fst (xs ! i) = ptr"
  by (induction xs ptr arbitrary: i rule: find_allocated.induct) (auto split: if_splits)

lemma find_allocated_in: "ptr \<in> fst ` set xs \<Longrightarrow> \<exists>i. find_allocated xs ptr = Some i"
  by (induction xs ptr rule: find_allocated.induct) auto

lemma mset_butlast_last: "ys \<noteq> [] \<Longrightarrow> mset ys = add_mset (last ys) (mset (butlast ys))"
  by (induction ys rule: rev_induct) auto

lemma swap_remove_Some:
  assumes "i < length xs"
  shows "\<exists>rest. swap_remove xs i = Some (rest, xs ! i) \<and> mset xs = add_mset (xs ! i) (mset rest)"
proof -
  have ne: "xs \<noteq> []" using assms by auto
  have "mset (xs[i := last xs]) = add_mset (last xs) (mset xs - {#xs ! i#})"
    using assms by (rule mset_update)
  moreover have "xs[i := last xs] \<noteq> []" using ne by simp
  then have "mset (xs[i := last xs]) = add_mset (last (xs[i := last xs])) (mset (butlast (xs[i := last xs])))"
    by (rule mset_butlast_last)
  moreover have "last (xs[i := last xs]) = last xs"
    using ne by (cases "i = length xs - 1") (auto simp: last_list_update)
  ultimately have "mset xs - {#xs ! i#} = mset (butlast (xs[i := last xs]))" by simp
  moreover have "xs ! i \<in># mset xs" using assms by simp
  ultimately have "mset xs = add_mset (xs ! i) (mset (butlast (xs[i := last xs])))"
    by (metis insert_DiffM)
  then show ?thesis using assms by (simp add: swap_remove_def)
qed

lemma swap_remove_map:
  "swap_remove xs i = Some (rest, x) \<Longrightarrow> swap_remove (map f xs) i = Some (map f rest, f x)"
  by (cases "xs = []") (auto simp: swap_remove_def map_butlast map_update last_map split: if_splits)

end
