(* ===== verification/Process_Created.thy ===== *)
theory Process_Created
  imports Process_Memory
begin

text \<open>
  New processes: what \<open>create_process\<close> builds satisfies the invariant of the process's memory, no
  page of it is both writable and executable, and the only page of certificates it can write is
  its own.
\<close>

subsection \<open>What the steps of the creation map\<close>

lemma align_by_empty:
  assumes "align_by (virt, virt) s = Some (a, b, c)"
  shows "\<not> fst a < snd a" "b = (0, 0)" "\<not> fst c < snd c"
  using assms by (auto simp: align_by_def run_Some next_multiple_of_def split: if_splits)

lemma map_level_zero:
  assumes "map_level below level t virt phys 0 fl = Some t'"
  shows "t' = t"
proof -
  obtain s a b c where al: "level_page_size level = Some s" "align_by (virt, virt) s = Some (a, b, c)"
    and rest: "(if \<not> is_empty_range a then map_below below level fl (fst a) (phys + (fst a - virt)) (snd a - fst a) t
        else Some t) \<bind> (\<lambda>t. (if \<not> is_empty_range b \<and> \<not> is_multiple_of (phys + (fst b - virt)) s
         then for_each (\<lambda>v. map_below below level fl v (phys + (v - virt)) s) (step_by b s) t
         else for_each (\<lambda>v t. map_leaf t v (phys + (v - virt)) fl level) (step_by b s) t) \<bind>
        (\<lambda>t. if \<not> is_empty_range c then map_below below level fl (fst c) (phys + (fst c - virt)) (snd c - fst c) t
          else Some t)) = Some t'"
    using assms by (auto simp: map_level_def run_Some)
  have s: "0 < s" using al(1)
    by (auto simp: level_page_size_def LEVEL_PAGE_SIZES_def nth_Cons split: if_splits nat.splits)
  note e = align_by_empty [OF al(2)]
  have "step_by b s = []" using e(2) s by (simp add: step_by_def)
  with rest e show ?thesis by (simp add: is_empty_range_def)
qed

lemma table_map_zero: "table_map t virt phys 0 fl = Some t' \<Longrightarrow> t' = t"
  using map_level_zero [of "below_map 2" 2 t virt phys fl t']
  by (auto simp: table_map_def run_Some map_impl_level)

definition nonempty :: "mapping list \<Rightarrow> mapping list" where
  "nonempty ms = filter (\<lambda>(v, p, n, fl). 0 < n) ms"

lemma nonempty_append [simp]: "nonempty (xs @ ys) = nonempty xs @ nonempty ys"
  by (simp add: nonempty_def)

lemma nonempty_subset: "set (nonempty ms) \<subseteq> set ms"
  by (auto simp: nonempty_def)

lemma sized_nonempty: "sized (nonempty ms)"
  by (auto simp: sized_def nonempty_def list_all_iff)

lemma nonempty_sized: "sized ms \<Longrightarrow> nonempty ms = ms"
  by (auto simp: sized_def nonempty_def list_all_iff intro: filter_True)

lemma apply_maps_nonempty: "apply_maps t ms = Some t' \<Longrightarrow> apply_maps t (nonempty ms) = Some t'"
proof (induction ms arbitrary: t)
  case (Cons m ms)
  obtain v p n fl where m: "m = (v, p, n, fl)" by (cases m)
  with Cons.prems obtain t1 where t1: "table_map t v p n fl = Some t1" "apply_maps t1 ms = Some t'"
    by (auto simp: run_Some)
  have "apply_maps t1 (nonempty ms) = Some t'" using Cons.IH t1(2) by blast
  with m t1(1) table_map_zero [of t v p fl t1] show ?case by (cases "n = 0") (auto simp: nonempty_def)
qed (simp add: nonempty_def)

text \<open>
  A process that has grown by mappings: some of them for boxes it keeps in its list of
  allocations, with the flags they were mapped with.
\<close>

definition grown :: "'v process \<Rightarrow> mapping list \<Rightarrow> ((usize \<times> untyped_box) \<times> page_flags) list \<Rightarrow> 'v process \<Rightarrow> bool" where
  "grown p ms bs p' \<longleftrightarrow>
     (\<exists>all. apply_maps (p_page_table p) all = Some (p_page_table p') \<and> mset all = mset (ms @ map box_map bs)) \<and>
     p_allocated p' = p_allocated p @ map fst bs \<and> p_heap p' = p_heap p \<and> p_id p' = p_id p"

lemma grown_refl: "grown p [] [] p"
  by (auto simp: grown_def)

lemma grown_trans:
  assumes "grown p ms bs p1" "grown p1 ms' bs' p2"
  shows "grown p (ms @ ms') (bs @ bs') p2"
proof -
  obtain a1 a2 where "apply_maps (p_page_table p) a1 = Some (p_page_table p1)" "mset a1 = mset (ms @ map box_map bs)"
    "apply_maps (p_page_table p1) a2 = Some (p_page_table p2)" "mset a2 = mset (ms' @ map box_map bs')"
    using assms by (auto simp: grown_def)
  then have "apply_maps (p_page_table p) (a1 @ a2) = Some (p_page_table p2)"
    "mset (a1 @ a2) = mset ((ms @ ms') @ map box_map (bs @ bs'))" by (simp_all add: apply_maps_append)
  with assms show ?thesis unfolding grown_def by auto
qed

lemma grown_map:
  "table_map (p_page_table p) v ph n fl = Some t \<Longrightarrow> grown p [(v, ph, n, fl)] [] (p\<lparr>p_page_table := t\<rparr>)"
  by (auto simp: grown_def intro!: exI [of _ "[(v, ph, n, fl)]"])

lemma grown_alloc_at:
  "process_alloc_at p v b fl = Some p' \<Longrightarrow> grown p [] [((v, b), fl)] p'"
  by (auto simp: grown_def process_alloc_at_def run_Some box_map_def byte_size_def
      intro!: exI [of _ "[box_map ((v, b), fl)]"])

lemma grown_update [simp]:
  "grown p ms bs (p'\<lparr>p_pc := x\<rparr>) \<longleftrightarrow> grown p ms bs p'" "grown p ms bs (p'\<lparr>p_registers := r\<rparr>) \<longleftrightarrow> grown p ms bs p'"
  by (simp_all add: grown_def)

subsection \<open>The program\<close>

text \<open>
  What loading relies on: the parser returns as many bytes of a segment as its header says, and
  no segment that is loaded is empty.
\<close>

definition elf_sane :: "elf_file \<Rightarrow> bool" where
  "elf_sane elf \<longleftrightarrow> (\<forall>s a d. ef_segment_data elf s = Some (a, d) \<longrightarrow> length d = unat (p_filesz s))"

definition user_flags :: "page_flags list" where
  "user_flags = [flags_user flags_readonly, flags_user flags_read_write, flags_user flags_executable]"

definition program_map :: "mapping \<Rightarrow> bool" where
  "program_map m \<longleftrightarrow> (case m of (v, p, n, fl) \<Rightarrow>
     0x1000000 \<le> v \<and> v + n \<le> 0x2000000 \<and> fl \<in> {flags_user flags_readonly, flags_user flags_executable})"

definition program_box :: "(usize \<times> untyped_box) \<times> page_flags \<Rightarrow> bool" where
  "program_box x \<longleftrightarrow> (case x of ((v, b), fl) \<Rightarrow>
     0x1000000 \<le> v \<and> v + byte_size b \<le> 0x2000000 \<and> fl = flags_user flags_read_write)"

lemma next_multiple_page:
  assumes "next_multiple_of n PAGE_SIZE = Some m" "n \<le> k" "4096 dvd k"
  shows "m \<le> k"
proof -
  obtain q where k: "k = 4096 * q" using assms(3) by (auto simp: dvd_def)
  show ?thesis
  proof (cases "n mod 4096 = 0")
    case True
    with assms(1,2) show ?thesis by (simp add: next_multiple_of_def run_Some urem_def PAGE_SIZE_def)
  next
    case False
    then have m: "m = n + (4096 - n mod 4096)"
      using assms(1) by (auto simp: next_multiple_of_def run_Some urem_def PAGE_SIZE_def)
    have "n \<noteq> 4096 * q" using False by auto
    then have "n < 4096 * q" using assms(2) k by simp
    then have "n div 4096 < q" by (simp add: less_mult_imp_div_less)
    then have "4096 * (n div 4096) + 4096 \<le> k" using k by simp
    moreover have "n = 4096 * (n div 4096) + n mod 4096" "n mod 4096 < 4096" by simp_all
    ultimately show ?thesis using m by linarith
  qed
qed

lemma paging_flags_cases:
  "paging_flags s = Some fl \<Longrightarrow> fl \<in> set user_flags"
  "paging_flags s = Some fl \<Longrightarrow> is_writable fl \<longleftrightarrow> fl = flags_user flags_read_write"
  by (auto simp: paging_flags_def Let_def run_Some user_flags_def is_writable_def flags_user_def flags_readonly_def
      flags_read_write_def flags_executable_def PAGE_W_def PAGE_R_def PAGE_X_def PAGE_U_def split: if_splits)

lemma phys_write_base [simp]: "cap_base (phys_write m a b) = cap_base m"
  by (simp add: phys_write_def Let_def)

lemma phys_write_all_base [simp]: "cap_base (phys_write_all m a bs) = cap_base m"
  by (induction m a bs rule: phys_write_all.induct) simp_all

lemma check_segment_Some:
  "check_segment s = Some u \<longleftrightarrow>
     4096 dvd unat (p_vaddr s) \<and> 0x1000000 \<le> unat (p_vaddr s) \<and> p_filesz s \<le> p_memsz s \<and>
     unat (p_memsz s) \<le> 0x1000000 \<and> unat (p_vaddr s) + unat (p_memsz s) \<le> 0x2000000 \<and> unat (p_align s) = 4096"
  by (auto simp: check_segment_def run_Some is_multiple_of_def USER_ELF_def PAGE_SIZE_def dvd_eq_mod_eq_0)

lemma padded_segment:
  assumes "check_segment s = Some u" "n \<le> unat (p_memsz s)" "next_multiple_of n PAGE_SIZE = Some m"
  shows "unat (p_vaddr s) + m \<le> 0x2000000"
proof -
  note c = assms(1) [unfolded check_segment_Some]
  have "4096 dvd 0x2000000 - unat (p_vaddr s)" using c by (intro dvd_diff_nat) simp_all
  moreover have "n \<le> 0x2000000 - unat (p_vaddr s)" using c assms(2) by linarith
  ultimately have "m \<le> 0x2000000 - unat (p_vaddr s)" using next_multiple_page [OF assms(3)] by blast
  then show ?thesis using c by linarith
qed

lemma load_segment_grown:
  assumes "elf_sane elf" "load_segment elf s ptr p m = Some (p', m')"
  shows "\<exists>ms bs. grown p ms bs p' \<and> list_all program_map ms \<and> list_all program_box bs \<and> cap_base m' = cap_base m"
proof (cases "p_type s \<noteq> PT_LOAD")
  case True
  with assms(2) have "p' = p" "m' = m" by (simp_all add: load_segment_def)
  with grown_refl [of p] show ?thesis by (intro exI [of _ "[]"]) simp
next
  case False
  then obtain dp data fl where c: "check_segment s = Some ()" and d: "ef_segment_data elf s = Some (dp, data)"
    and fl: "paging_flags s = Some fl" using assms(2) by (auto simp: load_segment_def run_Some)
  show ?thesis
  proof (cases "is_writable fl")
    case True
    with False assms(2) c d fl obtain sz l where sz: "next_multiple_of (unat (p_memsz s)) PAGE_SIZE = Some sz"
        "layout_from_size_align sz 1 = Some l"
      and p': "process_alloc_at p (unat (p_vaddr s)) \<lparr>ub_ptr = ptr, ub_layout = l\<rparr> fl = Some p'"
      and m': "cap_base m' = cap_base m" by (auto simp: load_segment_def run_Some split: if_splits)
    have "lay_size l = sz" using sz(2) by simp
    then have "list_all program_box [((unat (p_vaddr s), \<lparr>ub_ptr = ptr, ub_layout = l\<rparr>), fl)]"
      using padded_segment [OF c _ sz(1)] c True paging_flags_cases [OF fl]
      by (simp add: program_box_def byte_size_def check_segment_Some)
    with grown_alloc_at [OF p'] m' show ?thesis by (intro exI [of _ "[]"] exI conjI) auto
  next
    case ro: False
    with False assms(2) c d fl obtain phys sz t where sz: "next_multiple_of (length data) PAGE_SIZE = Some sz"
      and t: "table_map (p_page_table p) (unat (p_vaddr s)) phys sz fl = Some t" "p' = p\<lparr>p_page_table := t\<rparr>" "m' = m"
      by (auto simp: load_segment_def run_Some split: if_splits)
    have "length data \<le> unat (p_memsz s)"
      using assms(1) d c by (auto simp: elf_sane_def check_segment_Some word_le_nat_alt)
    then have "list_all program_map [(unat (p_vaddr s), phys, sz, fl)]"
      using padded_segment [OF c _ sz] c ro paging_flags_cases [OF fl]
      by (auto simp: program_map_def check_segment_Some user_flags_def)
    with grown_map [OF t(1)] t show ?thesis by (intro exI [of _ "[]"] exI conjI) auto
  qed
qed

lemma load_segments_grown:
  "elf_sane elf \<Longrightarrow> load_segments elf ss p m = Some (p', m') \<Longrightarrow>
   \<exists>ms bs. grown p ms bs p' \<and> list_all program_map ms \<and> list_all program_box bs \<and> cap_base m' = cap_base m"
proof (induction elf ss p m rule: load_segments.induct)
  case (1 elf p m)
  then show ?case using grown_refl [of p] by (intro exI [of _ "[]"]) simp
next
  case (2 elf s ptr rest p m)
  then obtain p1 m1 where s1: "load_segment elf s ptr p m = Some (p1, m1)" "load_segments elf rest p1 m1 = Some (p', m')"
    by (auto simp: run_Some)
  obtain ms bs where a: "grown p ms bs p1" "list_all program_map ms" "list_all program_box bs" "cap_base m1 = cap_base m"
    using load_segment_grown [OF 2(2) s1(1)] by blast
  obtain ms' bs' where b: "grown p1 ms' bs' p'" "list_all program_map ms'" "list_all program_box bs'" "cap_base m' = cap_base m1"
    using 2(1) [OF s1(1) refl 2(2) s1(2)] by blast
  from grown_trans [OF a(1) b(1)] a b show ?case by (intro exI [of _ "ms @ ms'"] exI [of _ "bs @ bs'"]) simp
qed

lemma load_elf_grown:
  assumes "\<forall>elf. parsed = Some elf \<longrightarrow> elf_sane elf" "load_elf parsed ptrs p m = Some (p', m')"
  shows "\<exists>ms bs. grown p ms bs p' \<and> list_all program_map ms \<and> list_all program_box bs \<and> cap_base m' = cap_base m"
proof -
  obtain elf segments p1 where e: "parsed = Some elf" "load_segments elf (zip segments ptrs) p m = Some (p1, m')"
    "p' = p1\<lparr>p_pc := unat (ef_entry elf)\<rparr>" using assms(2) by (auto simp: load_elf_def run_Some split: if_splits)
  obtain ms bs where "grown p ms bs p1" "list_all program_map ms" "list_all program_box bs" "cap_base m' = cap_base m"
    using load_segments_grown [OF _ e(2)] assms(1) e(1) by blast
  with e(3) show ?thesis by (intro exI [of _ ms] exI [of _ bs]) simp
qed

subsection \<open>The whole process\<close>

text \<open>The regions of every process: its pages of certificates, and the two boxes of the kernel.\<close>

definition certificate_maps :: "usize \<Rightarrow> usize \<Rightarrow> mapping list" where
  "certificate_maps base n =
     [(0x2000000, base, n * 4096, flags_user flags_readonly),
      (0x2000000 + n * 4096, base + n * 4096, 4096, flags_user flags_read_write),
      (0x2000000 + n * 4096 + 4096, base + n * 4096 + 4096, (7 - n) * 4096, flags_user flags_readonly)]"

definition direct_map :: mapping where
  "direct_map = (274877906944, 0, 274877906944, flags_read_write_execute)"

definition fixed_boxes :: "untyped_box \<Rightarrow> untyped_box \<Rightarrow> ((usize \<times> untyped_box) \<times> page_flags) list" where
  "fixed_boxes inputs stack =
     [((0x1000, inputs), flags_user flags_readonly), ((0x3000, stack), flags_user flags_read_write)]"

lemma user_regions:
  "fst USER_INPUTS = 0x1000" "snd USER_INPUTS = 0x2000" "fst USER_STACK = 0x3000" "snd USER_STACK = 0x10000"
  by (simp_all add: USER_INPUTS_def USER_STACK_def USER_STACK_GUARD_def USER_STACK_REGION_def PAGE_SIZE_def)

lemma map_capability_memory_Some:
  assumes "map_capability_memory t base pid = Some t'"
  shows "unat (as_u16 pid) \<le> 7 \<and> apply_maps t (certificate_maps base (unat (as_u16 pid))) = Some t'"
proof -
  have "8 - n - 1 = 7 - (n::nat)" for n by simp
  with assms show ?thesis
    by (auto simp: map_capability_memory_def certificate_maps_def run_Some Let_def PROCESS_COUNT_def
        USER_CAPABILITIES_def PAGE_SIZE_def)
qed

lemma create_process_grown:
  assumes "\<forall>elf. parsed = Some elf \<longrightarrow> elf_sane elf"
    and "create_process (load_elf parsed ptrs) pid name inputs stack_ptr m = Some (p, m')"
  shows "\<exists>(p0 :: 'v process) ms bs stack. p_page_table p0 = table_new \<and>
    buddy_new (fst USER_HEAP) (snd USER_HEAP) = Some (p_heap p0) \<and> p_allocated p0 = [] \<and>
    grown p0 (direct_map # ms @ certificate_maps (cap_base m) (unat (as_u16 pid))) (bs @ fixed_boxes inputs stack) p \<and>
    list_all program_map ms \<and> list_all program_box bs \<and> cap_base m' = cap_base m \<and> p_id p0 = pid \<and>
    unat (as_u16 pid) \<le> 7 \<and> byte_size inputs \<le> 0x1000 \<and> byte_size stack = 0xd000"
proof -
  obtain heap where h: "buddy_new (fst USER_HEAP) (snd USER_HEAP) = Some heap"
    using assms(2) by (auto simp: create_process_def run_Some)
  let ?p0 = "\<lparr>p_id = pid, p_name = name, p_state = Runnable,
              p_registers = (\<lambda>_. 0)(SP := snd USER_STACK), p_pc = 0,
              p_page_table = table_new, p_heap = heap, p_messages = [],
              p_currently_serving = None, p_allocated = [], p_virtual_memory_mappings = []\<rparr> :: 'v process"
  obtain t1 p1 t2 p2 l where
    t1: "map_hh_direct_mapping table_new = Some t1" and
    p1: "load_elf parsed ptrs (?p0\<lparr>p_page_table := t1\<rparr>) m = Some (p1, m')" and
    t2: "map_capability_memory (p_page_table p1) (cap_base m') (p_id p1) = Some t2" and
    p2: "process_alloc_at (p1\<lparr>p_page_table := t2\<rparr>) 0x1000 inputs (flags_user flags_readonly) = Some p2" and
    sz: "byte_size inputs \<le> 0x1000" and l: "layout_from_size_align 0xd000 1 = Some l" and
    p: "process_alloc_at p2 0x3000 \<lparr>ub_ptr = stack_ptr, ub_layout = l\<rparr> (flags_user flags_read_write) = Some p"
    using assms(2) h
    by (auto simp: create_process_def run_Some map_inputs_memory_def map_user_stack_def Let_def user_regions split: if_splits)
  let ?stack = "\<lparr>ub_ptr = stack_ptr, ub_layout = l\<rparr>"
  have g1: "grown ?p0 [direct_map] [] (?p0\<lparr>p_page_table := t1\<rparr>)"
    unfolding direct_map_def by (rule grown_map) (use t1 in \<open>simp add: map_hh_direct_mapping_def run_Some\<close>)
  obtain ms bs where g2: "grown (?p0\<lparr>p_page_table := t1\<rparr>) ms bs p1"
    "list_all program_map ms" "list_all program_box bs" "cap_base m' = cap_base m"
    using load_elf_grown [OF assms(1) p1] by blast
  have pid: "p_id p1 = pid" using g2(1) by (simp add: grown_def)
  have g3: "grown p1 (certificate_maps (cap_base m) (unat (as_u16 pid))) [] (p1\<lparr>p_page_table := t2\<rparr>)"
    using map_capability_memory_Some [OF t2] pid g2(4) by (auto simp: grown_def)
  have g: "grown ?p0 (((([direct_map] @ ms) @ certificate_maps (cap_base m) (unat (as_u16 pid))) @ []) @ [])
     (((([] @ bs) @ []) @ [((0x1000, inputs), flags_user flags_readonly)]) @ [((0x3000, ?stack), flags_user flags_read_write)]) p"
    by (intro grown_trans [OF grown_trans [OF grown_trans [OF grown_trans [OF g1 g2(1)] g3] grown_alloc_at [OF p2]]
          grown_alloc_at [OF p]])
  then have "grown ?p0 (direct_map # ms @ certificate_maps (cap_base m) (unat (as_u16 pid))) (bs @ fixed_boxes inputs ?stack) p"
    by (simp add: fixed_boxes_def)
  moreover have "byte_size ?stack = 0xd000" using l by (simp add: byte_size_def)
  ultimately show ?thesis
    using h g2 sz map_capability_memory_Some [OF t2] pid
    by (intro exI [of _ ?p0] exI [of _ ms] exI [of _ bs] exI [of _ ?stack]) simp
qed

lemma maps_lookup:
  assumes "sized all" "apply_maps table_new all = Some t" "w < 549755813888"
  shows "translate 2 t w = Some x \<longleftrightarrow> (\<exists>m \<in> set all. covers m w \<and> target m w = x)"
proof
  assume "translate 2 t w = Some x"
  then obtain m where "find (\<lambda>m. covers m w) all = Some m" "target m w = x"
    using apply_maps_translate [OF new_table(1) assms] new_table(3) by (auto split: option.splits)
  then show "\<exists>m \<in> set all. covers m w \<and> target m w = x" by (auto simp: find_Some_iff)
next
  assume "\<exists>m \<in> set all. covers m w \<and> target m w = x"
  then obtain m where m: "m \<in> set all" "covers m w" "target m w = x" by blast
  then obtain as bs where "all = as @ m # bs" by (meson split_list)
  then have ms: "mset all = mset ((as @ bs) @ [m])" by simp
  obtain v p n fl where v: "m = (v, p, n, fl)" by (cases m)
  from apply_maps_perm [OF new_table(1) assms(1) ms assms(2)]
  have "apply_maps table_new ((as @ bs) @ [(v, p, n, fl)]) = Some t" using v by simp
  then obtain t1 where t1: "apply_maps table_new (as @ bs) = Some t1" "table_map t1 v p n fl = Some t"
    unfolding apply_maps_append [of _ "as @ bs"] by (auto simp: run_Some)
  have s: "sized (as @ bs)" "0 < n"
    using assms(1) m(1) v mset_eq_setD [OF ms] by (auto simp: sized_def list_all_iff)
  from table_map_Some [OF apply_maps_wf [OF new_table(1) s(1) t1(1)] s(2) t1(2)] m v assms(3)
  show "translate 2 t w = Some x" by (simp add: remap_def covers_def target_def)
qed

lemma grown_table:
  assumes "p_page_table p0 = table_new" "grown p0 ms bs p" "\<forall>x \<in> set bs. backing_ok (snd (fst x))"
  shows "sized (nonempty ms @ map box_map bs) \<and> apply_maps table_new (nonempty ms @ map box_map bs) = Some (p_page_table p)"
proof -
  have sb: "sized (map box_map bs)"
    using assms(3) by (auto simp: sized_def list_all_iff box_map_def backing_ok_def)
  then have s: "sized (nonempty ms @ map box_map bs)" using sized_nonempty by simp
  obtain all where all: "apply_maps table_new all = Some (p_page_table p)" "mset all = mset (ms @ map box_map bs)"
    using assms(1,2) by (auto simp: grown_def)
  have "mset (nonempty all) = mset (nonempty (ms @ map box_map bs))"
    using all(2) by (simp only: nonempty_def mset_filter)
  then have ms: "mset (nonempty all) = mset (nonempty ms @ map box_map bs)"
    using nonempty_sized [OF sb] by simp
  from apply_maps_perm [OF new_table(1) sized_nonempty ms apply_maps_nonempty [OF all(1)]] s show ?thesis by blast
qed

definition outside_heap :: "mapping \<Rightarrow> bool" where
  "outside_heap m \<longleftrightarrow> (case m of (v, p, n, fl) \<Rightarrow> v + n \<le> 0x4000000 \<or> 274877906944 \<le> v)"

lemma outside_heap_covers: "outside_heap m \<Longrightarrow> covers m w \<Longrightarrow> 0x4000000 \<le> w \<Longrightarrow> w < 274877906944 \<Longrightarrow> False"
  by (cases m) (auto simp: outside_heap_def covers_def)

lemma created_maps_outside:
  assumes "list_all program_map ms" "n \<le> 7" "m \<in> set (direct_map # ms @ certificate_maps base n)"
  shows "outside_heap m"
  using assms by (auto simp: direct_map_def certificate_maps_def outside_heap_def program_map_def list_all_iff)

lemma created_proc_inv:
  assumes p0: "p_page_table p0 = table_new" "buddy_new (fst USER_HEAP) (snd USER_HEAP) = Some (p_heap p0)" "p_allocated p0 = []"
    and g: "grown p0 (direct_map # ms @ certificate_maps base n) bs p"
    and ms: "list_all program_map ms" "n \<le> 7"
    and bs: "\<forall>x \<in> set bs. fst (fst x) + byte_size (snd (fst x)) \<le> 0x4000000 \<and> backing_ok (snd (fst x))"
  shows "proc_inv p"
proof -
  let ?ms = "direct_map # ms @ certificate_maps base n"
  have gt: "sized (nonempty ?ms @ map box_map bs)" "apply_maps table_new (nonempty ?ms @ map box_map bs) = Some (p_page_table p)"
    using grown_table [OF p0(1) g] bs by auto
  have al: "p_allocated p = map fst bs" "p_heap p = p_heap p0" using g p0(3) by (auto simp: grown_def)
  have "proc_maps p (map snd bs) (nonempty ?ms)"
    using gt al by (simp add: proc_maps_def zip_map_fst_snd)
  moreover have h: "buddy_invar (p_heap p)" "range_start (p_heap p) = 0x4000000" "range_end (p_heap p) = 274877906944"
    using buddy_new_ok [of "0x4000000" "274877906944"] p0(2) al(2) by auto
  moreover have "translate 2 (p_page_table p) w = None" if "w \<in> buddy_free (p_heap p)" for w
  proof (rule ccontr)
    assume "translate 2 (p_page_table p) w \<noteq> None"
    then obtain x where x: "translate 2 (p_page_table p) w = Some x" by blast
    have w: "0x4000000 \<le> w" "w < 274877906944" using buddy_free_bound [OF h(1) that] h by auto
    then have "w < 549755813888" by simp
    from maps_lookup [OF gt this, of x] x obtain m where m: "m \<in> set (nonempty ?ms @ map box_map bs)" "covers m w" by blast
    have "outside_heap m"
    proof (cases "m \<in> set ?ms")
      case True
      then show ?thesis by (rule created_maps_outside [OF ms])
    next
      case False
      then have "m \<in> box_map ` set bs" using m(1) nonempty_subset [of ?ms] by auto
      then show ?thesis using bs by (auto simp: outside_heap_def box_map_def)
    qed
    from outside_heap_covers [OF this m(2) w] show False .
  qed
  moreover have "heap_boxes p = []"
  proof -
    have "\<not> in_heap (fst x)" if "x \<in> set bs" for x
      using bs that by (fastforce simp: in_heap_def backing_ok_def)
    then show ?thesis using al(1) by (auto simp: heap_boxes_def filter_empty_conv)
  qed
  moreover have "\<forall>x \<in> set (p_allocated p). backing_ok (snd x)" using al(1) bs by auto
  ultimately show ?thesis unfolding proc_inv_def by auto
qed

definition outside_certificates :: "usize \<Rightarrow> untyped_box \<Rightarrow> bool" where
  "outside_certificates base b \<longleftrightarrow> (\<forall>phys. virt_to_phys (ub_ptr b) = Some phys \<longrightarrow>
     phys + byte_size b \<le> base \<or> base + (MAX_PROCESSES + 1) * PAGE_SIZE \<le> phys)"

abbreviation user_can :: "page_flags \<Rightarrow> u64 \<Rightarrow> bool" where
  "user_can f access \<equiv> flag_bits f AND PAGE_U \<noteq> 0 \<and> flag_bits f AND access \<noteq> 0"

lemma user_can_flags:
  "\<not> user_can flags_read_write_execute a"
  "\<not> user_can (flags_user flags_readonly) PAGE_W" "\<not> user_can (flags_user flags_readonly) PAGE_X"
  "\<not> user_can (flags_user flags_executable) PAGE_W" "\<not> user_can (flags_user flags_read_write) PAGE_X"
  "user_can (flags_user flags_read_write) PAGE_W" "user_can (flags_user flags_read_write) PAGE_R"
  "user_can (flags_user flags_readonly) PAGE_R"
  by (simp_all add: flags_user_def flags_readonly_def flags_read_write_def flags_executable_def
      flags_read_write_execute_def PAGE_W_def PAGE_R_def PAGE_X_def PAGE_U_def)

lemma created_map_isolated:
  assumes ms: "list_all program_map ms" "n \<le> 7"
    and bs: "\<forall>x \<in> set bs. snd x \<in> {flags_user flags_readonly, flags_user flags_read_write} \<and>
      backing_ok (snd (fst x)) \<and> outside_certificates base (snd (fst x))"
    and m: "m \<in> set (direct_map # ms @ certificate_maps base n @ map box_map bs)"
      "covers m w" "target m w = (f, ph)"
  shows "\<not> (user_can f PAGE_W \<and> user_can f PAGE_X)"
    "user_can f PAGE_W \<Longrightarrow> base \<le> ph \<Longrightarrow> ph < base + (MAX_PROCESSES + 1) * PAGE_SIZE \<Longrightarrow> (ph - base) div PAGE_SIZE = n"
proof -
  consider "m = direct_map" | "m \<in> set ms" | "m \<in> set (certificate_maps base n)" | x where "x \<in> set bs" "m = box_map x"
    using m(1) by auto
  then have "\<not> (user_can f PAGE_W \<and> user_can f PAGE_X) \<and>
    (user_can f PAGE_W \<longrightarrow> base \<le> ph \<longrightarrow> ph < base + (MAX_PROCESSES + 1) * PAGE_SIZE \<longrightarrow> (ph - base) div PAGE_SIZE = n)"
  proof cases
    case 1
    then have "f = flags_read_write_execute" using m(3) by (simp add: direct_map_def target_def)
    then show ?thesis using user_can_flags(1) by blast
  next
    case 2
    then have "f \<in> {flags_user flags_readonly, flags_user flags_executable}"
      using m(3) ms(1) by (cases m) (auto simp: program_map_def target_def list_all_iff)
    then show ?thesis using user_can_flags by blast
  next
    case 3
    then consider "f = flags_user flags_readonly" | "f = flags_user flags_read_write" "m = (0x2000000 + n * 4096, base + n * 4096, 4096, f)"
      using m(3) by (auto simp: certificate_maps_def target_def)
    then show ?thesis
    proof cases
      case 1
      then show ?thesis using user_can_flags by blast
    next
      case 2
      then have "ph = base + n * 4096 + (w - (0x2000000 + n * 4096))" "w - (0x2000000 + n * 4096) < 4096"
        using m(2,3) by (auto simp: covers_def target_def)
      then have "(ph - base) div PAGE_SIZE = n" by (simp add: PAGE_SIZE_def)
      with 2(1) user_can_flags show ?thesis by blast
    qed
  next
    case 4
    obtain v b fl where x: "x = ((v, b), fl)" by (cases x) auto
    have b: "fl \<in> {flags_user flags_readonly, flags_user flags_read_write}" "outside_certificates base b" "backing_ok b"
      using bs 4(1) x by auto
    from b(3) obtain phys where phys: "virt_to_phys (ub_ptr b) = Some phys" by (auto simp: backing_ok_def)
    have "f = fl" "ph = phys + (w - v)" "w - v < byte_size b"
      using m(2,3) 4(2) x phys by (auto simp: box_map_def covers_def target_def)
    moreover have "phys + byte_size b \<le> base \<or> base + (MAX_PROCESSES + 1) * PAGE_SIZE \<le> phys"
      using b(2) phys by (simp add: outside_certificates_def)
    ultimately show ?thesis using b(1) user_can_flags by auto
  qed
  then show "\<not> (user_can f PAGE_W \<and> user_can f PAGE_X)"
    "user_can f PAGE_W \<Longrightarrow> base \<le> ph \<Longrightarrow> ph < base + (MAX_PROCESSES + 1) * PAGE_SIZE \<Longrightarrow> (ph - base) div PAGE_SIZE = n"
    by blast+
qed

text \<open>What a process sees of the pages of certificates, each of the three mappings in turn.\<close>

lemma certificate_lookup:
  assumes lk: "\<And>m. m \<in> set (certificate_maps base n) \<Longrightarrow> covers m (0x2000000 + k) \<Longrightarrow>
      translate 2 t (0x2000000 + k) = Some (target m (0x2000000 + k))"
    and "n \<le> 7" "k < 8 * 4096"
  shows "\<exists>f. translate 2 t (0x2000000 + k) = Some (f, base + k) \<and>
    user_can f PAGE_R \<and> (user_can f PAGE_W \<longleftrightarrow> k div 4096 = n)"
proof -
  let ?pre = "(0x2000000, base, n * 4096, flags_user flags_readonly) :: mapping"
  let ?own = "(0x2000000 + n * 4096, base + n * 4096, 4096, flags_user flags_read_write) :: mapping"
  let ?suf = "(0x2000000 + n * 4096 + 4096, base + n * 4096 + 4096, (7 - n) * 4096, flags_user flags_readonly) :: mapping"
  consider "k div 4096 < n" | "k div 4096 = n" | "n < k div 4096" by linarith
  then show ?thesis
  proof cases
    case 1
    then have "k < n * 4096" by (simp add: div_less_iff_less_mult)
    then have "translate 2 t (0x2000000 + k) = Some (flags_user flags_readonly, base + k)"
      using lk [of ?pre] by (simp add: certificate_maps_def covers_def target_def)
    with 1 user_can_flags show ?thesis by auto
  next
    case 2
    then have "n * 4096 \<le> k" "k < n * 4096 + 4096" by (auto simp: div_nat_eqI dividend_less_times_div)
    then have "translate 2 t (0x2000000 + k) = Some (flags_user flags_read_write, base + k)"
      using lk [of ?own] by (simp add: certificate_maps_def covers_def target_def)
    with 2 user_can_flags show ?thesis by auto
  next
    case 3
    then have "n * 4096 + 4096 \<le> k" using less_eq_div_iff_mult_less_eq [of 4096 "n + 1" k] by simp
    then have "translate 2 t (0x2000000 + k) = Some (flags_user flags_readonly, base + k)"
      using lk [of ?suf] assms(2,3) by (simp add: certificate_maps_def covers_def target_def)
    with 3 user_can_flags show ?thesis by auto
  qed
qed

text \<open>
  C13: a new process is isolated.  If the kernel's heap gives it memory that does not overlap the
  pages of certificates, then its memory is consistent, no page it can use is writable and
  executable at once, the only certificates it can write are those of its own page, and it can
  indeed write them, and read those of every other process.
\<close>

theorem created_process_isolated:
  assumes "\<forall>elf. parsed = Some elf \<longrightarrow> elf_sane elf"
    and "create_process (load_elf parsed ptrs) pid name inputs stack_ptr m = Some (p, m')"
    and "\<forall>x \<in> set (p_allocated p). backing_ok (snd x) \<and> outside_certificates (cap_base m) (snd x)"
  shows "proc_inv p \<and>
    (\<forall>w < snd VIRTUAL_ADDRESSES. \<forall>f ph. translate 2 (p_page_table p) w = Some (f, ph) \<longrightarrow>
       \<not> (user_can f PAGE_W \<and> user_can f PAGE_X) \<and>
       (user_can f PAGE_W \<and> in_cap_pages m' ph \<longrightarrow> (ph - cap_base m') div PAGE_SIZE = unat (as_u16 pid))) \<and>
    (\<forall>k < 8 * PAGE_SIZE. \<exists>f. translate 2 (p_page_table p) (fst USER_CAPABILITIES + k) = Some (f, cap_base m' + k) \<and>
       user_can f PAGE_R \<and> (user_can f PAGE_W \<longleftrightarrow> k div PAGE_SIZE = unat (as_u16 pid)))"
proof -
  let ?n = "unat (as_u16 pid)" and ?base = "cap_base m"
  obtain p0 :: "'a process" and ms bs stack where
    p0: "p_page_table p0 = table_new" "buddy_new (fst USER_HEAP) (snd USER_HEAP) = Some (p_heap p0)" "p_allocated p0 = []" and
    g: "grown p0 (direct_map # ms @ certificate_maps ?base ?n) (bs @ fixed_boxes inputs stack) p" and
    ms: "list_all program_map ms" "list_all program_box bs" "cap_base m' = cap_base m" "?n \<le> 7" and
    sz: "byte_size inputs \<le> 0x1000" "byte_size stack = 0xd000"
    using create_process_grown [OF assms(1,2)] by blast
  let ?ms = "direct_map # ms @ certificate_maps ?base ?n" and ?bs = "bs @ fixed_boxes inputs stack"
  have al: "p_allocated p = map fst ?bs" using g p0(3) by (simp add: grown_def)
  then have ok: "\<forall>x \<in> set ?bs. backing_ok (snd (fst x)) \<and> outside_certificates ?base (snd (fst x))"
    using assms(3) by (simp only: set_map ball_simps)
  have fl: "\<forall>x \<in> set ?bs. snd x \<in> {flags_user flags_readonly, flags_user flags_read_write}"
    using ms(2) by (auto simp: fixed_boxes_def program_box_def list_all_iff)
  have low: "\<forall>x \<in> set ?bs. fst (fst x) + byte_size (snd (fst x)) \<le> 0x4000000"
    using ms(2) sz by (auto simp: fixed_boxes_def program_box_def list_all_iff)
  have inv: "proc_inv p" by (rule created_proc_inv [OF p0 g ms(1,4)]) (use ok low in auto)
  have gt: "sized (nonempty ?ms @ map box_map ?bs)" "apply_maps table_new (nonempty ?ms @ map box_map ?bs) = Some (p_page_table p)"
    using grown_table [OF p0(1) g] ok by auto
  have "\<not> (user_can f PAGE_W \<and> user_can f PAGE_X) \<and>
       (user_can f PAGE_W \<and> in_cap_pages m' ph \<longrightarrow> (ph - cap_base m') div PAGE_SIZE = ?n)"
    if w: "w < 549755813888" and tr: "translate 2 (p_page_table p) w = Some (f, ph)" for w f ph
  proof -
    obtain m where m: "m \<in> set (nonempty ?ms @ map box_map ?bs)" "covers m w" "target m w = (f, ph)"
      using maps_lookup [OF gt w, of "(f, ph)"] tr by blast
    have "m \<in> set (direct_map # ms @ certificate_maps ?base ?n @ map box_map ?bs)"
      using m(1) nonempty_subset [of ?ms] by auto
    note i = created_map_isolated [OF ms(1,4) _ this m(2,3)]
    have "\<forall>x \<in> set ?bs. snd x \<in> {flags_user flags_readonly, flags_user flags_read_write} \<and>
        backing_ok (snd (fst x)) \<and> outside_certificates ?base (snd (fst x))" using ok fl by blast
    from i [OF this] show ?thesis unfolding in_cap_pages_def ms(3) by blast
  qed
  moreover have "\<exists>f. translate 2 (p_page_table p) (0x2000000 + k) = Some (f, cap_base m' + k) \<and>
       user_can f PAGE_R \<and> (user_can f PAGE_W \<longleftrightarrow> k div 4096 = ?n)" if k: "k < 8 * 4096" for k
    unfolding ms(3)
  proof (rule certificate_lookup [OF _ ms(4) k])
    have w: "0x2000000 + k < 549755813888" using k by simp
    fix m assume m: "m \<in> set (certificate_maps ?base ?n)" "covers m (0x2000000 + k)"
    then have "m \<in> set (nonempty ?ms)" by (cases m) (auto simp: nonempty_def covers_def)
    then show "translate 2 (p_page_table p) (0x2000000 + k) = Some (target m (0x2000000 + k))"
      using maps_lookup [OF gt w] m(2) by auto
  qed
  ultimately show ?thesis using inv by (simp add: USER_CAPABILITIES_def PAGE_SIZE_def)
qed

subsection \<open>Requests the kernel does not survive\<close>

text \<open>
  \<open>ProcessId\<close> admits eight processes besides the kernel, but the eighth has no room: the length of
  the pages after its own is negative.
\<close>

lemma eighth_process_panics: "map_capability_memory t base (ProcessId 8) = None"
  by (simp add: map_capability_memory_def PROCESS_COUNT_def usub_def)

subsection \<open>A process\<close>

definition disjoint_maps :: "mapping \<Rightarrow> mapping \<Rightarrow> bool" where
  "disjoint_maps x y \<longleftrightarrow> (case x of (v, p, n, fl) \<Rightarrow> case y of (v', p', n', fl') \<Rightarrow> v + n \<le> v' \<or> v' + n' \<le> v)"

definition mappable :: "mapping \<Rightarrow> bool" where
  "mappable m \<longleftrightarrow> (case m of (v, p, n, fl) \<Rightarrow> 0 < n \<and> check_mapping v p n = Some ())"

lemma apply_maps_disjoint:
  "wf_table 2 t \<Longrightarrow> list_all mappable ms \<Longrightarrow> sorted_wrt disjoint_maps ms \<Longrightarrow>
   \<forall>m \<in> set ms. \<forall>w. covers m w \<longrightarrow> translate 2 t w = None \<Longrightarrow> \<exists>t'. apply_maps t ms = Some t'"
proof (induction ms arbitrary: t)
  case (Cons m ms)
  obtain v p n fl where m: "m = (v, p, n, fl)" by (cases m)
  have n: "0 < n" "check_mapping v p n = Some ()" using Cons.prems(2) m by (simp_all add: mappable_def)
  have "\<forall>w. v \<le> w \<and> w < v + n \<longrightarrow> translate 2 t w = None" using Cons.prems(4) m by (simp add: covers_def)
  then obtain t1 where t1: "table_map t v p n fl = Some t1" using table_map_None [OF Cons.prems(1) n] by blast
  note st = table_map_Some [OF Cons.prems(1) n(1) t1]
  have "translate 2 t1 w = None" if x: "x \<in> set ms" "covers x w" for x w
  proof -
    obtain v' p' n' fl' where x': "x = (v', p', n', fl')" by (cases x)
    then have "check_mapping v' p' n' = Some ()" using Cons.prems(2) x(1) by (auto simp: list_all_iff mappable_def)
    then have "w < 549755813888" using x(2) x' by (auto simp: check_mapping_Some covers_def)
    moreover have "disjoint_maps m x" using Cons.prems(3) x(1) by simp
    then have "\<not> (v \<le> w \<and> w < v + n)" using x(2) x' m by (auto simp: disjoint_maps_def covers_def)
    ultimately show ?thesis using st Cons.prems(4) x by (auto simp: remap_def)
  qed
  then obtain t' where "apply_maps t1 ms = Some t'" using Cons.IH [of t1] Cons.prems(2,3) st by auto
  with m t1 show ?case by simp
qed simp

definition example_elf :: elf_file where
  "example_elf = \<lparr>ef_class = ELF64, ef_little_endian = True, ef_version = 1, ef_osabi = 0, ef_abiversion = 0,
     ef_type = ET_EXEC, ef_machine = EM_RISCV, ef_entry = 0x1000000,
     ef_segments = Some [\<lparr>p_type = 6, p_flags = PF_R, p_offset = 64, p_vaddr = 0x1000040, p_filesz = 0x188,
       p_memsz = 0x188, p_align = 8\<rparr>],
     ef_segment_data = (\<lambda>s. None), ef_bytes = []\<rparr>"

definition example_memory :: memory where
  "example_memory = \<lparr>mem_bytes = (\<lambda>_. 0), mem_certs = (\<lambda>_ _. 0), cap_base = 0x80200000\<rparr>"

definition example_inputs :: untyped_box where
  "example_inputs = \<lparr>ub_ptr = 0x80400000 + upper_half, ub_layout = \<lparr>lay_size = 0x1000, lay_align = 8\<rparr>\<rparr>"

definition example_stack :: untyped_box where
  "example_stack = \<lparr>ub_ptr = 0x80500000 + upper_half, ub_layout = \<lparr>lay_size = 0xd000, lay_align = 1\<rparr>\<rparr>"

lemma example_ptrs:
  "virt_to_phys (ub_ptr example_inputs) = Some 0x80400000" "virt_to_phys (ub_ptr example_stack) = Some 0x80500000"
  "byte_size example_inputs = 0x1000" "byte_size example_stack = 0xd000"
  using virt_to_phys_upper [of "0x80400000"] virt_to_phys_upper [of "0x80500000"]
  by (simp_all add: example_inputs_def example_stack_def byte_size_def)

definition example_maps :: "mapping list" where
  "example_maps = direct_map # certificate_maps 0x80200000 3 @
     [(0x1000, 0x80400000, 0x1000, flags_user flags_readonly), (0x3000, 0x80500000, 0xd000, flags_user flags_read_write)]"

lemma example_maps_apply: "\<exists>t. apply_maps table_new example_maps = Some t"
proof (rule apply_maps_disjoint [OF new_table(1)])
  show "list_all mappable example_maps"
    by (simp add: example_maps_def direct_map_def certificate_maps_def mappable_def check_mapping_Some)
  show "sorted_wrt disjoint_maps example_maps"
    by (simp add: example_maps_def direct_map_def certificate_maps_def disjoint_maps_def)
qed (simp add: new_table)

lemma example_creation:
  "\<exists>p m'. create_process (load_elf (Some example_elf) [0]) (ProcessId 3) ''shell'' example_inputs (ub_ptr example_stack) example_memory
     = Some (p :: unit process, m') \<and> p_allocated p = [(0x1000, example_inputs), (0x3000, example_stack)]"
proof -
  obtain heap where h: "buddy_new (fst USER_HEAP) (snd USER_HEAP) = Some heap"
    using buddy_new_ok [of "fst USER_HEAP" "snd USER_HEAP"] by auto
  obtain t1 t2 t5 where t: "table_map table_new 274877906944 0 274877906944 flags_read_write_execute = Some t1"
    "apply_maps t1 (certificate_maps 0x80200000 3) = Some t2"
    "table_map t2 0x1000 0x80400000 0x1000 (flags_user flags_readonly) = Some t5"
    "\<exists>t6. table_map t5 0x3000 0x80500000 0xd000 (flags_user flags_read_write) = Some t6"
    using example_maps_apply by (auto simp: example_maps_def direct_map_def apply_maps_append run_Some)
  have c: "map_capability_memory t1 0x80200000 (ProcessId 3) = Some t2"
    using t(2) by (auto simp: map_capability_memory_def certificate_maps_def PROCESS_COUNT_def
        USER_CAPABILITIES_def PAGE_SIZE_def run_Some usub_def)
  have d: "map_hh_direct_mapping table_new = Some t1" using t(1) by (simp add: map_hh_direct_mapping_def)
  have e: "load_elf (Some example_elf) [0] q m = Some (q\<lparr>p_pc := 0x1000000\<rparr>, m)" for q :: "unit process" and m
    by (simp add: load_elf_def example_elf_def load_segment_def PT_LOAD_def)
  have st: "\<lparr>ub_ptr = ub_ptr example_stack, ub_layout = \<lparr>lay_size = 53248, lay_align = Suc 0\<rparr>\<rparr> = example_stack"
    by (simp add: example_stack_def)
  have l: "layout_from_size_align 53248 (Suc 0) = Some \<lparr>lay_size = 53248, lay_align = Suc 0\<rparr>"
    unfolding layout_from_size_align_def by (simp add: is_power_of_two_def)
  have sz: "lay_size (ub_layout example_inputs) = 0x1000"
    by (simp add: example_inputs_def)
  show ?thesis
    using h c d e sz t(3,4) example_ptrs
    by (auto simp: create_process_def map_inputs_memory_def map_user_stack_def process_alloc_at_def user_regions
        usub_def example_memory_def st l simp del: layout_from_size_align_Some)
qed

theorem created_process_isolated_witness:
  "\<exists>p m'. create_process (load_elf (Some example_elf) [0]) (ProcessId 3) ''shell'' example_inputs (ub_ptr example_stack) example_memory
     = Some (p :: unit process, m') \<and> proc_inv p \<and>
     (\<exists>f. translate 2 (p_page_table p) 0x2003008 = Some (f, cap_base m' + 0x3008) \<and> user_can f PAGE_W)"
proof -
  obtain p :: "unit process" and m' where p: "create_process (load_elf (Some example_elf) [0]) (ProcessId 3) ''shell'' example_inputs
      (ub_ptr example_stack) example_memory = Some (p, m')"
    and al: "p_allocated p = [(0x1000, example_inputs), (0x3000, example_stack)]" using example_creation by blast
  have sane: "\<forall>elf. Some example_elf = Some elf \<longrightarrow> elf_sane elf" by (simp add: elf_sane_def example_elf_def)
  have "layout_ok (ub_layout example_inputs)" "layout_ok (ub_layout example_stack)"
    by (simp_all add: example_inputs_def example_stack_def layout_ok_def is_power_of_two_def bit_count.simps)
  then have "\<forall>x \<in> set (p_allocated p). backing_ok (snd x) \<and> outside_certificates (cap_base example_memory) (snd x)"
    using al example_ptrs by (simp add: backing_ok_def outside_certificates_def example_memory_def MAX_PROCESSES_def PAGE_SIZE_def)
  from created_process_isolated [OF sane p this]
  have r: "proc_inv p" "\<forall>k < 8 * PAGE_SIZE. \<exists>f. translate 2 (p_page_table p) (fst USER_CAPABILITIES + k) = Some (f, cap_base m' + k) \<and>
       user_can f PAGE_R \<and> (user_can f PAGE_W \<longleftrightarrow> k div PAGE_SIZE = unat (as_u16 (ProcessId 3)))" by blast+
  have "(0x3008 :: nat) < 8 * PAGE_SIZE" "fst USER_CAPABILITIES + 0x3008 = 0x2003008" "0x3008 div PAGE_SIZE = unat (as_u16 (ProcessId 3))"
    by (simp_all add: PAGE_SIZE_def USER_CAPABILITIES_def)
  with r(2) [rule_format, of "0x3008"] p r(1) show ?thesis by auto
qed

end
