(* ===== verification/User_Memory.thy ===== *)
theory User_Memory
  imports Process_Created
begin

text \<open>
  The kernel's access to user memory (\<open>kernel/src/user.rs\<close>): what is written is read back, nothing
  else changes, and a process that has the kernel write for it (a reply into its result buffer)
  gains no authority by it.
\<close>

subsection \<open>Bytes of words\<close>

lemma byte_mask: "(0xFF :: u64) = mask 8"
  by (simp add: mask_eq_exp_minus_1)

lemma bit_word_byte: "bit (word_byte w j) n \<longleftrightarrow> n < 8 \<and> bit w (8 * j + n)"
  by (auto simp: word_byte_def bit_simps)

lemma bit_set_word_byte:
  assumes "i < 8" "k < 64"
  shows "bit (set_word_byte w i b) k \<longleftrightarrow> (if 8 * i \<le> k \<and> k < 8 * i + 8 then bit b (k - 8 * i) else bit w k)"
proof (cases "8 * i \<le> k \<and> k < 8 * i + 8")
  case True
  then show ?thesis using assms by (auto simp: set_word_byte_def byte_mask bit_simps)
next
  case False
  then have "k < 8 * i \<or> \<not> bit b (k - 8 * i)" using bit_imp_le_length [of b "k - 8 * i"] by auto
  then show ?thesis using False assms by (auto simp: set_word_byte_def byte_mask bit_simps)
qed

lemma word_byte_set:
  assumes "i < 8" "j < 8"
  shows "word_byte (set_word_byte w i b) j = (if i = j then b else word_byte w j)"
proof (rule bit_word_eqI)
  fix n assume "n < LENGTH(8)"
  then have n: "n < 8" by simp
  then have "8 * i \<le> 8 * j + n \<and> 8 * j + n < 8 * i + 8 \<longleftrightarrow> i = j" by auto
  with n assms show "bit (word_byte (set_word_byte w i b) j) n = bit (if i = j then b else word_byte w j) n"
    by (auto simp: bit_word_byte bit_set_word_byte)
qed

lemma set_cert_byte:
  assumes "k < 8" "k' < 8"
  shows "word_byte ((f(p := (f p)(i := set_word_byte (f p i) k b))) p' i') k' =
    (if p' = p \<and> i' = i \<and> k' = k then b else word_byte (f p' i') k')"
  using assms by (auto simp: word_byte_set)

lemma phys_cap_page:
  assumes "in_cap_pages m a"
  shows "phys_read m a = word_byte (mem_certs m ((a - cap_base m) div 4096) ((a - cap_base m) mod 4096 div 8)) ((a - cap_base m) mod 8)"
    "phys_write m a b = m\<lparr>mem_certs := (let f = mem_certs m; p = (a - cap_base m) div 4096; i = (a - cap_base m) mod 4096 div 8 in
       f(p := (f p)(i := set_word_byte (f p i) ((a - cap_base m) mod 8) b)))\<rparr>"
  using assms by (simp_all add: phys_read_def phys_write_def Let_def PAGE_SIZE_def)

lemma read_write_byte:
  "phys_read (phys_write m a b) c = (if c = a then b else phys_read m c)"
proof (cases "in_cap_pages m a \<and> in_cap_pages m c")
  case True
  let ?x = "a - cap_base m" and ?y = "c - cap_base m"
  have "c = a \<longleftrightarrow> ?y = ?x" using True by (auto simp: in_cap_pages_def)
  moreover have "?y = ?x \<longleftrightarrow> ?y div 4096 = ?x div 4096 \<and> ?y mod 4096 div 8 = ?x mod 4096 div 8 \<and> ?y mod 8 = ?x mod 8"
  proof
    assume h: "?y div 4096 = ?x div 4096 \<and> ?y mod 4096 div 8 = ?x mod 4096 div 8 \<and> ?y mod 8 = ?x mod 8"
    have e: "z = z div 4096 * 4096 + (z mod 4096 div 8 * 8 + z mod 8)" for z :: nat
    proof -
      have "z mod 4096 mod 8 = z mod 8" by (rule mod_mod_cancel) simp
      then have "z mod 4096 div 8 * 8 + z mod 8 = z mod 4096" by (metis div_mult_mod_eq)
      then show ?thesis by simp
    qed
    show "?y = ?x" using h by (metis e)
  qed simp
  ultimately have e: "c = a \<longleftrightarrow> ?y div 4096 = ?x div 4096 \<and> ?y mod 4096 div 8 = ?x mod 4096 div 8 \<and> ?y mod 8 = ?x mod 8"
    by blast
  have "in_cap_pages (phys_write m a b) c" using True by (simp add: in_cap_pages_def)
  from phys_cap_page(1) [OF this]
  have "phys_read (phys_write m a b) c = word_byte (mem_certs (phys_write m a b) (?y div 4096) (?y mod 4096 div 8)) (?y mod 8)"
    by simp
  also have "mem_certs (phys_write m a b) = (mem_certs m)(?x div 4096 := (mem_certs m (?x div 4096))
      (?x mod 4096 div 8 := set_word_byte (mem_certs m (?x div 4096) (?x mod 4096 div 8)) (?x mod 8) b))"
    using phys_cap_page(2) [of m a b] True by (simp add: Let_def)
  also have "word_byte (\<dots> (?y div 4096) (?y mod 4096 div 8)) (?y mod 8) = (if c = a then b else phys_read m c)"
    unfolding e by (subst set_cert_byte) (use phys_cap_page(1) [of m c] True in simp_all)
  finally show ?thesis .
next
  case False
  have same: "in_cap_pages (m\<lparr>mem_certs := x\<rparr>) c = in_cap_pages m c" "in_cap_pages (m\<lparr>mem_bytes := y\<rparr>) c = in_cap_pages m c" for x y
    by (simp_all add: in_cap_pages_def)
  show ?thesis
  proof (cases "in_cap_pages m a")
    case True
    with False have "c \<noteq> a" "\<not> in_cap_pages m c" by auto
    then show ?thesis unfolding phys_cap_page(2) [OF True] phys_read_def same by simp
  next
    case a: False
    then have w: "phys_write m a b = m\<lparr>mem_bytes := (mem_bytes m)(a := b)\<rparr>" by (simp add: phys_write_def)
    show ?thesis
    proof (cases "in_cap_pages m c")
      case True
      with a have "c \<noteq> a" by auto
      with True show ?thesis unfolding w phys_read_def same by simp
    next
      case False
      then show ?thesis unfolding w phys_read_def same by simp
    qed
  qed
qed

subsection \<open>Copying\<close>

lemma user_write_frame:
  assumes "user_write t m a bs = Some m'"
    and "\<And>w. a \<le> w \<Longrightarrow> w < a + length bs \<Longrightarrow> user_addr t PAGE_W w \<noteq> Some c"
  shows "phys_read m' c = phys_read m c"
  using assms
proof (induction t m a bs rule: user_write.induct)
  case (2 t m a b bs)
  then obtain ph where ph: "user_addr t PAGE_W a = Some ph" "user_write t (phys_write m ph b) (a + 1) bs = Some m'"
    by (auto simp: run_Some)
  have "ph \<noteq> c" using 2(3) [of a] ph(1) by auto
  moreover have "phys_read m' c = phys_read (phys_write m ph b) c"
    by (rule 2(1) [OF ph]) (use 2(3) in auto)
  ultimately show ?case by (simp add: read_write_byte)
qed simp

lemma user_write_base: "user_write t m a bs = Some m' \<Longrightarrow> cap_base m' = cap_base m"
  by (induction t m a bs rule: user_write.induct) (auto simp: run_Some)

text \<open>Different user addresses of a range that lie at different physical ones.\<close>

definition distinct_pages :: "page_table \<Rightarrow> usize \<Rightarrow> usize \<Rightarrow> bool" where
  "distinct_pages t a n \<longleftrightarrow> (\<forall>v w. a \<le> v \<longrightarrow> v < a + n \<longrightarrow> a \<le> w \<longrightarrow> w < a + n \<longrightarrow> v \<noteq> w \<longrightarrow>
     user_addr t PAGE_W v = None \<or> user_addr t PAGE_W v \<noteq> user_addr t PAGE_W w)"

definition writable_readable :: "page_table \<Rightarrow> bool" where
  "writable_readable t \<longleftrightarrow> (\<forall>a ph. user_addr t PAGE_W a = Some ph \<longrightarrow> user_addr t PAGE_R a = Some ph)"

lemma user_write_read:
  assumes "user_write t m a bs = Some m'" "distinct_pages t a (length bs)" "writable_readable t"
  shows "user_read t m' a (length bs) = Some bs"
  using assms
proof (induction t m a bs rule: user_write.induct)
  case (2 t m a b bs)
  then obtain ph where ph: "user_addr t PAGE_W a = Some ph" "user_write t (phys_write m ph b) (a + 1) bs = Some m'"
    by (auto simp: run_Some)
  have "distinct_pages t (a + 1) (length bs)" using 2(3) by (auto simp: distinct_pages_def)
  then have "user_read t m' (a + 1) (length bs) = Some bs" using 2(1) [OF ph] 2(4) by blast
  moreover have "user_addr t PAGE_W w \<noteq> Some ph" if "a + 1 \<le> w" "w < a + 1 + length bs" for w
    using 2(3) ph(1) that unfolding distinct_pages_def by (metis (no_types) Suc_eq_plus1 Suc_le_eq add.commute add_Suc_right
      length_Cons less_add_Suc1 less_imp_le_nat nat_less_le option.distinct(1) plus_1_eq_Suc le_refl)
  then have "phys_read m' ph = b" using user_write_frame [OF ph(2)] by (auto simp: read_write_byte)
  moreover have "user_addr t PAGE_R a = Some ph" using ph(1) 2(4) by (simp add: writable_readable_def)
  ultimately show ?case by simp
qed simp

text \<open>
  what the kernel writes into a user's buffer it reads back, and nothing else changes.  If the
  pages of the buffer are mapped to different physical pages and pages that can be written can be
  read, then a reply that \<open>write_to_user\<close> has stored is returned by \<open>copy_to_kernel\<close>, and every
  physical byte the user cannot write at an address of the buffer keeps its value; a reply
  longer than the buffer is refused and memory stays as it was.
\<close>

theorem user_copy_roundtrip:
  assumes "write_to_user t m s data = Some (m', r)"
  shows "if us_len s < length data then r = Inl UserSliceTooSmall \<and> m' = m
    else r = Inr () \<and>
      (distinct_pages t (us_ptr s) (length data) \<and> writable_readable t \<longrightarrow>
        copy_to_kernel t m' (s\<lparr>us_len := length data\<rparr>) = Some data) \<and>
      (\<forall>c. (\<forall>w. us_ptr s \<le> w \<and> w < us_ptr s + us_len s \<longrightarrow> user_addr t PAGE_W w \<noteq> Some c) \<longrightarrow>
        phys_read m' c = phys_read m c)"
proof (cases "us_len s < length data")
  case True
  with assms show ?thesis by (simp add: write_to_user_def)
next
  case False
  then have w: "user_write t m (us_ptr s) data = Some m'" "r = Inr ()"
    using assms by (auto simp: write_to_user_def run_Some)
  have "copy_to_kernel t m' (s\<lparr>us_len := length data\<rparr>) = Some data"
    if "distinct_pages t (us_ptr s) (length data)" "writable_readable t"
    using user_write_read [OF w(1) that] by (simp add: copy_to_kernel_def)
  moreover have "phys_read m' c = phys_read m c"
    if "\<forall>w. us_ptr s \<le> w \<and> w < us_ptr s + us_len s \<longrightarrow> user_addr t PAGE_W w \<noteq> Some c" for c
    by (rule user_write_frame [OF w(1)]) (use that False in auto)
  ultimately show ?thesis using False w(2) by simp
qed

text \<open>A table with one page a user may write.\<close>

lemma one_page:
  "\<exists>t. table_map table_new 0x3000 0x80500000 0x1000 (flags_user flags_read_write) = Some t \<and>
    (\<forall>access \<in> {PAGE_R, PAGE_W}. \<forall>a. user_addr t access a = (if 0x3000 \<le> a \<and> a < 0x4000 then Some (0x80500000 + (a - 0x3000)) else None))"
proof -
  have "check_mapping 0x3000 0x80500000 0x1000 = Some ()" by (simp add: check_mapping_Some)
  then obtain t where t: "table_map table_new 0x3000 0x80500000 0x1000 (flags_user flags_read_write) = Some t"
    using table_map_None [OF new_table(1), of "0x1000" "0x3000" "0x80500000" "flags_user flags_read_write"] new_table(3) by auto
  have "translate 2 t a = (if 0x3000 \<le> a \<and> a < 0x4000 then Some (flags_user flags_read_write, 0x80500000 + (a - 0x3000)) else None)"
    if "a < 274877906944" for a
    using table_map_Some [OF new_table(1) _ t] new_table(3) that by (simp add: remap_def)
  then have "user_addr t access a = (if 0x3000 \<le> a \<and> a < 0x4000 then Some (0x80500000 + (a - 0x3000)) else None)"
    if "access \<in> {PAGE_R, PAGE_W}" for access a
    using that user_can_flags by (auto simp: user_addr_def)
  with t show ?thesis by blast
qed

theorem user_copy_roundtrip_witness:
  "\<exists>t m'. table_map table_new 0x3000 0x80500000 0x1000 (flags_user flags_read_write) = Some t \<and>
     write_to_user t example_memory \<lparr>us_ptr = 0x3010, us_len = 8\<rparr> [4, 2] = Some (m', Inr ()) \<and>
     copy_to_kernel t m' \<lparr>us_ptr = 0x3010, us_len = 2\<rparr> = Some [4, 2]"
proof -
  obtain t where t: "table_map table_new 0x3000 0x80500000 0x1000 (flags_user flags_read_write) = Some t"
    and u: "\<forall>access \<in> {PAGE_R, PAGE_W}. \<forall>a. user_addr t access a = (if 0x3000 \<le> a \<and> a < 0x4000 then Some (0x80500000 + (a - 0x3000)) else None)"
    using one_page by blast
  obtain m' where m': "write_to_user t example_memory \<lparr>us_ptr = 0x3010, us_len = 8\<rparr> [4, 2] = Some (m', Inr ())"
    using u by (simp add: write_to_user_def)
  moreover have "distinct_pages t 0x3010 2" "writable_readable t"
    using u by (auto simp: distinct_pages_def writable_readable_def)
  ultimately have "copy_to_kernel t m' \<lparr>us_ptr = 0x3010, us_len = 2\<rparr> = Some [4, 2]"
    using user_copy_roundtrip [OF m'] by (simp add: eval_nat_numeral)
  with t m' show ?thesis by blast
qed

text \<open>The certificates of a page are what the bytes of that page say.\<close>

lemma word_byte_eqI:
  assumes "\<And>j. j < 8 \<Longrightarrow> word_byte v j = word_byte w j"
  shows "v = w"
proof (rule bit_word_eqI)
  fix n assume "n < LENGTH(64)"
  then have "n div 8 < 8" "n mod 8 < 8" "8 * (n div 8) + n mod 8 = n" by simp_all
  then show "bit v n = bit w n"
    using assms [of "n div 8"] bit_word_byte [of v "n div 8" "n mod 8"] bit_word_byte [of w "n div 8" "n mod 8"] by simp
qed

lemma certificate_address:
  fixes page i j :: nat
  assumes "i < 512" "j < 8"
  shows "(page * 4096 + (i * 8 + j)) div 4096 = page" "(page * 4096 + (i * 8 + j)) mod 4096 div 8 = i"
    "(page * 4096 + (i * 8 + j)) mod 8 = j"
proof -
  have ij: "i * 8 + j < 4096" using assms by simp
  then show "(page * 4096 + (i * 8 + j)) div 4096 = page" by (simp only: div_mult_self3 div_less)
  have "(page * 4096 + (i * 8 + j)) mod 4096 = i * 8 + j" using ij by (simp only: mod_mult_self3 mod_less)
  then show "(page * 4096 + (i * 8 + j)) mod 4096 div 8 = i" using assms(2) by simp
  have "page * 4096 + (i * 8 + j) = 8 * (page * 512 + i) + j" by simp
  then show "(page * 4096 + (i * 8 + j)) mod 8 = j" using assms(2) by (simp only: mod_mult_self4 mod_less)
qed

lemma certificate_bytes:
  assumes "page \<le> MAX_PROCESSES" "i < 512" "j < 8"
  shows "phys_read m (cap_base m + (page * 4096 + (i * 8 + j))) = word_byte (mem_certs m page i) j"
proof -
  have "i * 8 + j < 4096" using assms by simp
  then have "in_cap_pages m (cap_base m + (page * 4096 + (i * 8 + j)))"
    using assms(1) by (simp add: in_cap_pages_def MAX_PROCESSES_def PAGE_SIZE_def)
  from phys_cap_page(1) [OF this, unfolded add_diff_cancel_left' certificate_address [OF assms(2,3)]] show ?thesis .
qed

text \<open>
  The words outside the nine pages are not memory: writing does not reach them.
\<close>

lemma phys_write_far:
  assumes "\<not> (page \<le> MAX_PROCESSES \<and> i < 512)"
  shows "mem_certs (phys_write m a b) page i = mem_certs m page i"
proof (cases "in_cap_pages m a")
  case True
  then have "(a - cap_base m) div 4096 \<le> MAX_PROCESSES"
    by (auto simp: in_cap_pages_def PAGE_SIZE_def MAX_PROCESSES_def)
  moreover have "(a - cap_base m) mod 4096 div 8 < 512" by (simp add: less_mult_imp_div_less)
  ultimately show ?thesis using assms phys_cap_page(2) [OF True, of b] by (auto simp: Let_def)
qed (simp add: phys_write_def)

lemma user_write_far:
  "user_write t m a bs = Some m' \<Longrightarrow> \<not> (page \<le> MAX_PROCESSES \<and> i < 512) \<Longrightarrow>
   mem_certs m' page i = mem_certs m page i"
  by (induction t m a bs rule: user_write.induct) (auto simp: run_Some phys_write_far)

text \<open>A table through which a user can write, of all certificates, only those of one page.\<close>

definition writes_only_page :: "page_table \<Rightarrow> memory \<Rightarrow> usize \<Rightarrow> bool" where
  "writes_only_page t m n \<longleftrightarrow> (\<forall>w ph. user_addr t PAGE_W w = Some ph \<longrightarrow> in_cap_pages m ph \<longrightarrow>
     (ph - cap_base m) div PAGE_SIZE = n)"

lemma user_write_certs:
  assumes "user_write t m a bs = Some m'" "writes_only_page t m n" "page \<noteq> n"
  shows "mem_certs m' page = mem_certs m page"
proof
  fix i show "mem_certs m' page i = mem_certs m page i"
  proof (cases "page \<le> MAX_PROCESSES \<and> i < 512")
    case True
    then have i: "page \<le> MAX_PROCESSES" "i < 512" by auto
    show ?thesis
    proof (rule word_byte_eqI)
      fix j :: nat assume j: "j < 8"
      let ?c = "cap_base m + (page * 4096 + (i * 8 + j))"
      have "i * 8 + j < 4096" using i j by simp
      then have "in_cap_pages m ?c" using i by (simp add: in_cap_pages_def MAX_PROCESSES_def PAGE_SIZE_def)
      moreover have "(?c - cap_base m) div PAGE_SIZE = page"
        unfolding add_diff_cancel_left' PAGE_SIZE_def by (rule certificate_address(1) [OF i(2) j])
      ultimately have "user_addr t PAGE_W w \<noteq> Some ?c" for w
        using assms(2,3) unfolding writes_only_page_def by metis
      then have e: "phys_read m' ?c = phys_read m ?c" by (intro user_write_frame [OF assms(1)]) blast
      note b = certificate_bytes [OF i j, of m] certificate_bytes [OF i j, of m', unfolded user_write_base [OF assms(1)]]
      show "word_byte (mem_certs m' page i) j = word_byte (mem_certs m page i) j"
        unfolding b [symmetric] by (rule e)
    qed
  next
    case False
    with user_write_far [OF assms(1)] show ?thesis by blast
  qed
qed

lemma user_addr_Some:
  "user_addr t access a = Some ph \<longleftrightarrow>
     a < 274877906944 \<and> (\<exists>f. translate 2 t a = Some (f, ph) \<and> user_can f access)"
  by (auto simp: user_addr_def split: option.splits)

lemma created_writes_only:
  assumes "\<And>w f ph. w < snd VIRTUAL_ADDRESSES \<Longrightarrow> translate 2 t w = Some (f, ph) \<Longrightarrow>
       user_can f PAGE_W \<Longrightarrow> in_cap_pages m ph \<Longrightarrow> (ph - cap_base m) div PAGE_SIZE = n"
  shows "writes_only_page t m n"
  unfolding writes_only_page_def
proof (intro allI impI)
  fix w ph assume u: "user_addr t PAGE_W w = Some ph" and c: "in_cap_pages m ph"
  then obtain f where f: "w < 274877906944" "translate 2 t w = Some (f, ph)" "user_can f PAGE_W"
    by (auto simp: user_addr_Some)
  have "w < snd VIRTUAL_ADDRESSES" using f(1) by simp
  from assms [OF this f(2,3) c] show "(ph - cap_base m) div PAGE_SIZE = n" .
qed

text \<open>
  C14: having the kernel write gains a process no authority.  Whatever the kernel is made to write
  into a buffer of a process whose table lets it write only its own page of certificates, a
  capability certified by anyone else that is accepted from the process afterwards stands for
  one that some capability already stood for before.
\<close>

theorem user_write_forges_nothing:
  assumes "writes_only_page t m (unat (as_u16 pid))" "pid_ok pid" "write_to_user t m s data = Some (m', r)"
    and "validate (mem_certs m') c pid = Some (Returned (Inr root))" "certifier root \<noteq> Some (Userspace pid)"
  shows "\<exists>c0. validate (mem_certs m) c0 pid = Some (Returned (Inr root))"
proof -
  have "mem_certs m' page = mem_certs m page" if "page \<noteq> actor_offset (Userspace pid)" for page
  proof (cases "us_len s < length data")
    case True
    with assms(3) show ?thesis by (simp add: write_to_user_def)
  next
    case False
    then have "user_write t m (us_ptr s) data = Some m'" using assms(3) by (auto simp: write_to_user_def run_Some)
    from user_write_certs [OF this assms(1)] that show ?thesis by (simp add: actor_offset_def)
  qed
  moreover have "entitles (mem_certs m') (Userspace pid) c root" using assms(4) by (simp add: validate_entitles)
  ultimately show ?thesis
    using entitles_own_page [of "mem_certs m'" "Userspace pid" c root "Userspace pid" "mem_certs m"] assms(2,5)
    by (auto simp: validate_entitles)
qed

theorem user_write_forges_nothing_witness:
  "\<exists>t m' c0. table_map table_new 0x3000 0x80500000 0x1000 (flags_user flags_read_write) = Some t \<and>
     write_to_user t (example_memory\<lparr>mem_certs := demo_certs\<rparr>) \<lparr>us_ptr = 0x3010, us_len = 8\<rparr> [4, 2] = Some (m', Inr ()) \<and>
     validate demo_certs c0 (ProcessId 2) = Some (Returned (Inr kernel_cap))"
proof -
  obtain t where t: "table_map table_new 0x3000 0x80500000 0x1000 (flags_user flags_read_write) = Some t"
    and u: "\<forall>access \<in> {PAGE_R, PAGE_W}. \<forall>a. user_addr t access a = (if 0x3000 \<le> a \<and> a < 0x4000 then Some (0x80500000 + (a - 0x3000)) else None)"
    using one_page by blast
  let ?m = "example_memory\<lparr>mem_certs := demo_certs\<rparr>"
  obtain m' where m': "write_to_user t ?m \<lparr>us_ptr = 0x3010, us_len = 8\<rparr> [4, 2] = Some (m', Inr ())"
    using u by (simp add: write_to_user_def)
  have away: "writes_only_page t ?m n" for n
    using u by (auto simp: writes_only_page_def in_cap_pages_def example_memory_def MAX_PROCESSES_def PAGE_SIZE_def)
  have "user_write t ?m 0x3010 [4, 2] = Some m'" using m' by (auto simp: write_to_user_def run_Some)
  from user_write_certs [OF this away [of 10]] user_write_certs [OF this away [of 11]]
  have "mem_certs m' page = demo_certs page" for page by (cases "page = 10") auto
  then have same: "mem_certs m' = demo_certs" by blast
  have "entitles demo_certs (Userspace (ProcessId 2)) kernel_cap kernel_cap"
    by (rule entitles.granted [of _ _ Kernel])
      (simp add: read_certificate_at unpack_granted pid_ok_iff actor_offset_def)
  then have "validate (mem_certs m') kernel_cap (ProcessId 2) = Some (Returned (Inr kernel_cap))"
    by (simp only: same validate_entitles)
  from user_write_forges_nothing [OF away _ m' this]
  have "\<exists>c0. validate demo_certs c0 (ProcessId 2) = Some (Returned (Inr kernel_cap))"
    by (simp add: pid_ok_iff certifier_cap_at)
  with t m' show ?thesis by blast
qed

end
