(* ===== verification/Sync.thy ===== *)
theory Sync
  imports Deravel_Prelude
begin

text \<open>
  The kernel's mutex (\<open>kernel/src/sync.rs\<close>) and the table of interrupt handlers
  (\<open>kernel/src/interrupt.rs\<close>).  There is one hart: a mutex that is found locked is locked by the
  same thread of control, and waiting for it would last for ever, so \<open>lock\<close> panics.  A guard is
  the locked mutex's value; dropping it stores the value and unlocks.
\<close>

subsection \<open>Mutexes\<close>

record 'a mutex =
  mx_locked :: bool
  mx_value :: 'a

definition mutex_new :: "'a \<Rightarrow> 'a mutex" where
  "mutex_new v = \<lparr>mx_locked = False, mx_value = v\<rparr>"

definition mutex_lock :: "'a mutex \<Rightarrow> ('a mutex \<times> 'a) run" where
  "mutex_lock m = (if mx_locked m then None else Some (m\<lparr>mx_locked := True\<rparr>, mx_value m))"

definition mutex_try_lock :: "'a mutex \<Rightarrow> 'a mutex \<times> 'a option" where
  "mutex_try_lock m = (if mx_locked m then (m, None) else (m\<lparr>mx_locked := True\<rparr>, Some (mx_value m)))"

definition mutex_unlock :: "'a mutex \<Rightarrow> 'a \<Rightarrow> 'a mutex" where
  "mutex_unlock m v = m\<lparr>mx_locked := False, mx_value := v\<rparr>"

definition mutex_lock_if_some :: "'a option mutex \<Rightarrow> ('a option mutex \<times> 'a option) run" where
  "mutex_lock_if_some m = do {
     (m, v) \<leftarrow> mutex_lock m;
     case v of
       Some x \<Rightarrow> Some (m, Some x)
     | None \<Rightarrow> Some (mutex_unlock m None, None) }"

subsection \<open>Interrupt handlers\<close>

definition MAX_INTERRUPT_HANDLERS :: usize where
  "MAX_INTERRUPT_HANDLERS = 16"

record 'i interrupt_entry =
  ie_plic_number :: u32
  ie_handler :: 'i

record 'i interrupts =
  in_allocated :: usize
  in_table :: "'i interrupt_entry option mutex list"

definition interrupts_new :: "'i interrupts" where
  "interrupts_new = \<lparr>in_allocated = 0, in_table = replicate MAX_INTERRUPT_HANDLERS (mutex_new None)\<rparr>"

definition register_interrupt :: "'i interrupts \<Rightarrow> u32 \<Rightarrow> 'i \<Rightarrow> 'i interrupts run" where
  "register_interrupt t plic_number handler = do {
     let index = in_allocated t;
     let t = t\<lparr>in_allocated := (index + 1) mod usize_end\<rparr>;
     ensure (index < MAX_INTERRUPT_HANDLERS);
     ensure (index < length (in_table t));
     (m, _) \<leftarrow> mutex_lock (in_table t ! index);
     let m = mutex_unlock m (Some \<lparr>ie_plic_number = plic_number, ie_handler = handler\<rparr>);
     Some (t\<lparr>in_table := (in_table t)[index := m]\<rparr>) }"

text \<open>The loop of the trap handler: the handlers that an interrupt calls, in order.\<close>

fun interrupt_handlers :: "'i interrupt_entry option mutex list \<Rightarrow> u32 \<Rightarrow> 'i list run" where
  "interrupt_handlers [] irq = Some []"
| "interrupt_handlers (m # ms) irq = do {
     (m, entry) \<leftarrow> mutex_lock m;
     hs \<leftarrow> interrupt_handlers ms irq;
     Some (case entry of
             Some ie \<Rightarrow> if ie_plic_number ie = irq then ie_handler ie # hs else hs
           | None \<Rightarrow> hs) }"

subsection \<open>What they are for\<close>

lemma mutex_lock_twice: "mutex_lock m = Some (m', v) \<Longrightarrow> mutex_lock m' = None"
  by (auto simp: mutex_lock_def split: if_splits)

lemma mutex_unlock_lock: "mutex_lock (mutex_unlock m v) = Some (m\<lparr>mx_locked := True, mx_value := v\<rparr>, v)"
  by (simp add: mutex_lock_def mutex_unlock_def)

lemma mutex_lock_if_some_Some:
  "mutex_lock_if_some m = Some (m', r) \<longleftrightarrow> \<not> mx_locked m \<and> r = mx_value m \<and>
     m' = (if r = None then m\<lparr>mx_locked := False, mx_value := None\<rparr> else m\<lparr>mx_locked := True\<rparr>)"
  by (auto simp: mutex_lock_if_some_def mutex_lock_def mutex_unlock_def split: option.splits)

end
