(* ===== verification/Kernel_State.thy ===== *)
theory Kernel_State
  imports User_Memory Sync
begin

text \<open>
  The state the system calls and the scheduler work on: the table of processes, each behind its
  mutex (\<open>kernel/src/process.rs\<close>), the handlers of the kernel's capabilities
  (\<open>kernel/src/capability.rs\<close>), shared and demand-paged memory (\<open>kernel/src/shared_memory.rs\<close>,
  \<open>kernel/src/virtual_memory.rs\<close>) and the context of the current user (\<open>kernel/src/stack.rs\<close>).
\<close>

subsection \<open>Handlers\<close>

text \<open>
  The handlers that live in the kernel proper; the servers of devices are a parameter \<open>'d\<close>, and so
  are the programs that can be spawned and the loaders of demand-paged memory (numbers).
\<close>

datatype 'd handler = HShared untyped_box | HVirtual nat | HSpawner nat | HDevice 'd

record vm_mapping =
  vm_loader :: nat
  vm_size :: usize
  vm_backed :: "(usize \<times> usize) list"

text \<open>
  What the handlers can reach: memory, the handlers themselves, the demand-paged mappings (by
  their number), and the answers the kernel's page allocator is going to give: an address, or a
  failure.
\<close>

record 'd store =
  st_memory :: memory
  st_allocated :: u64
  st_handlers :: "usize \<Rightarrow> 'd handler option"
  st_vms :: "vm_mapping mutex list"
  st_pages :: "usize option list"

record 'd kernel =
  k_slots :: "nat process option mutex list"
  k_reserved :: u16
  k_store :: "'d store"
  k_log :: "(nat \<times> string \<times> process_id \<times> u8 list) list"

record user_ctx =
  ctx_registers :: registers
  ctx_pid :: "process_id option"
  ctx_sepc :: usize

record program =
  prog_name :: string
  prog_elf :: "elf_file option"

text \<open>
  Code outside the repository, and the devices: the servers of devices (a stream is the address of
  a ring buffer, its size and the size of its data), the loaders of pages, the serialisation of
  capabilities and the reading of a number off the front of a message by the \<open>postcard\<close> crate, and
  the programs.
\<close>

record 'd env =
  e_device_call :: "'d \<Rightarrow> usize \<Rightarrow> u8 list \<Rightarrow> process_id \<Rightarrow> 'd store \<Rightarrow> (u8 list \<times> 'd store) run"
  e_device_stream :: "'d \<Rightarrow> usize \<Rightarrow> (usize \<times> usize \<times> usize) run"
  e_load_page :: "nat \<Rightarrow> usize \<Rightarrow> 'd store \<Rightarrow> (usize \<times> 'd store) run"
  e_program :: "nat \<Rightarrow> program"
  e_spawn_args :: "nat \<Rightarrow> u8 list \<Rightarrow> raw_capability list option"
  e_encode_cap :: "raw_capability \<Rightarrow> u8 list option"
  e_decode_usize :: "u8 list \<Rightarrow> (usize \<times> u8 list) option"

subsection \<open>The kernel's capabilities\<close>

definition store_caps :: "'d store \<Rightarrow> 'd handler kernel_caps" where
  "store_caps st = \<lparr>kc_pages = mem_certs (st_memory st), kc_allocated = st_allocated st, kc_handlers = st_handlers st\<rparr>"

definition set_store_caps :: "'d store \<Rightarrow> 'd handler kernel_caps \<Rightarrow> 'd store" where
  "set_store_caps st c = st\<lparr>st_memory := (st_memory st)\<lparr>mem_certs := kc_pages c\<rparr>,
     st_allocated := kc_allocated c, st_handlers := kc_handlers c\<rparr>"

definition store_grant :: "'d store \<Rightarrow> process_id \<Rightarrow> 'd handler \<Rightarrow> ('d store \<times> raw_capability) run" where
  "store_grant st grantee handler = do {
     (c, cap) \<leftarrow> grant_kernel_capability (store_caps st) grantee handler;
     Some (set_store_caps st c, cap) }"

definition store_handler :: "'d store \<Rightarrow> usize \<Rightarrow> 'd handler run" where
  "store_handler st i = get_handler (store_caps st) i"

subsection \<open>Pages of the kernel heap\<close>

text \<open>
  A boxed slice of \<open>sz\<close> zeroes from the page allocator.  No memory is asked for when it is empty:
  its address is then the dangling pointer 1, which is the alignment of its elements.
\<close>

definition take_pages :: "'d store \<Rightarrow> usize \<Rightarrow> ('d store \<times> usize option) run" where
  "take_pages st sz =
     (if sz = 0 then Some (st, Some 1)
      else case st_pages st of
        [] \<Rightarrow> None
      | None # rest \<Rightarrow> Some (st\<lparr>st_pages := rest\<rparr>, None)
      | Some ptr # rest \<Rightarrow> do {
          phys \<leftarrow> virt_to_phys ptr;
          Some (st\<lparr>st_pages := rest, st_memory := phys_write_all (st_memory st) phys (replicate sz 0)\<rparr>, Some ptr) })"

subsection \<open>Shared memory\<close>

definition shared_memory_size :: "'d store \<Rightarrow> 'd handler \<Rightarrow> usize run" where
  "shared_memory_size st h = (case h of
       HShared b \<Rightarrow> Some (byte_size b)
     | HVirtual i \<Rightarrow> if i < length (st_vms st) then Some (vm_size (mx_value (st_vms st ! i))) else None
     | HSpawner _ \<Rightarrow> None
     | HDevice _ \<Rightarrow> None)"

definition map_backed_page :: "usize \<Rightarrow> usize \<times> usize \<Rightarrow> page_table \<Rightarrow> page_table run" where
  "map_backed_page virt page t = do {
     virt \<leftarrow> uadd virt (PAGE_SIZE * fst page);
     phys \<leftarrow> virt_to_phys (snd page);
     table_map t virt phys PAGE_SIZE (flags_user flags_readonly) }"

text \<open>The handlers of \<open>SharedMemory\<close> and of \<open>VirtualMemoryMapping\<close>.\<close>

definition backing_map :: "untyped_box \<Rightarrow> usize \<Rightarrow> page_table \<Rightarrow> page_table run" where
  "backing_map b virt table = do {
     phys \<leftarrow> virt_to_phys (ub_ptr b);
     table_map table virt phys (byte_size b) (flags_user flags_read_write) }"

definition vm_map ::
  "'d store \<Rightarrow> nat \<Rightarrow> usize \<Rightarrow> page_table \<Rightarrow> nat vmm list \<Rightarrow> (page_table \<times> nat vmm list) run" where
  "vm_map st i virt table vmms = do {
     ensure (i < length (st_vms st));
     (_, vm) \<leftarrow> mutex_lock (st_vms st ! i);
     table \<leftarrow> for_each (map_backed_page virt) (vm_backed vm) table;
     virt_end \<leftarrow> uadd virt (vm_size vm);
     Some (table, vmms @ [((virt, virt_end), i)]) }"

definition shared_memory_map ::
  "'d store \<Rightarrow> 'd handler \<Rightarrow> usize \<Rightarrow> page_table \<Rightarrow> nat vmm list \<Rightarrow> (page_table \<times> nat vmm list) run" where
  "shared_memory_map st h virt table vmms = (case h of
       HShared b \<Rightarrow> do {
         table \<leftarrow> backing_map b virt table;
         Some (table, vmms) }
     | HVirtual i \<Rightarrow> vm_map st i virt table vmms
     | HSpawner _ \<Rightarrow> None
     | HDevice _ \<Rightarrow> None)"

definition vm_new :: "nat \<Rightarrow> usize \<Rightarrow> vm_mapping run" where
  "vm_new loader sz = do {
     ensure (is_multiple_of sz PAGE_SIZE);
     Some \<lparr>vm_loader = loader, vm_size = sz, vm_backed = []\<rparr> }"

text \<open>\<open>VirtualMemoryRawMapping::load_page\<close>.\<close>

definition vm_load_page ::
  "'d env \<Rightarrow> 'd store \<Rightarrow> nat \<Rightarrow> usize \<Rightarrow> usize \<Rightarrow> page_table \<Rightarrow> ('d store \<times> page_table) run" where
  "vm_load_page env st i virt_base page_index table = do {
     ensure (i < length (st_vms st));
     virt \<leftarrow> uadd virt_base (PAGE_SIZE * page_index);
     (page, st) \<leftarrow> e_load_page env (vm_loader (mx_value (st_vms st ! i))) page_index st;
     ensure (i < length (st_vms st));
     phys \<leftarrow> virt_to_phys page;
     table \<leftarrow> table_map table virt phys PAGE_SIZE (flags_user flags_readonly);
     (m, vm) \<leftarrow> mutex_lock (st_vms st ! i);
     let m = mutex_unlock m (vm\<lparr>vm_backed := vm_backed vm @ [(page_index, page)]\<rparr>);
     Some (st\<lparr>st_vms := (st_vms st)[i := m]\<rparr>, table) }"

subsection \<open>The table of processes\<close>

definition slot_index :: "process_id \<Rightarrow> usize" where
  "slot_index pid = unat (as_u16 pid)"

text \<open>
  Locking the mutex of a process: a panic if it is locked already or if there is no such slot, and
  nothing if there is no process.  The guard is the process; dropping it stores the process.
\<close>

definition lock_slot :: "'d kernel \<Rightarrow> usize \<Rightarrow> ('d kernel \<times> nat process option) run" where
  "lock_slot k i = do {
     ensure (i < length (k_slots k));
     (m, r) \<leftarrow> mutex_lock_if_some (k_slots k ! i);
     Some (k\<lparr>k_slots := (k_slots k)[i := m]\<rparr>, r) }"

definition drop_slot :: "'d kernel \<Rightarrow> usize \<Rightarrow> nat process option \<Rightarrow> 'd kernel" where
  "drop_slot k i r = k\<lparr>k_slots := (k_slots k)[i := mutex_unlock (k_slots k ! i) r]\<rparr>"

definition get_process :: "'d kernel \<Rightarrow> process_id \<Rightarrow> ('d kernel \<times> nat process option) run" where
  "get_process k pid = lock_slot k (slot_index pid)"

text \<open>\<open>*PROCESSES[i].lock() = v\<close>.\<close>

definition set_slot :: "'d kernel \<Rightarrow> usize \<Rightarrow> nat process option \<Rightarrow> 'd kernel run" where
  "set_slot k i v = do {
     ensure (i < length (k_slots k));
     (m, _) \<leftarrow> mutex_lock (k_slots k ! i);
     Some (k\<lparr>k_slots := (k_slots k)[i := mutex_unlock m v]\<rparr>) }"

definition reserve_process :: "'d kernel \<Rightarrow> ('d kernel \<times> process_id \<times> raw_capability) run" where
  "reserve_process k = do {
     let before = k_reserved k;
     let k = k\<lparr>k_reserved := before + 1\<rparr>;
     ensure (unat before + 1 < 2 ^ 16);
     pid \<leftarrow> process_id_new (before + 1);
     export \<leftarrow> raw_new (Userspace pid) 0;
     Some (k, pid, export) }"

definition ctx_user :: "user_ctx \<Rightarrow> process_id run" where
  "ctx_user u = ctx_pid u"

text \<open>\<open>UserStoredCtx::process\<close>: the guard of the current process.\<close>

definition user_process :: "'d kernel \<Rightarrow> user_ctx \<Rightarrow> ('d kernel \<times> nat process) run" where
  "user_process k u = do {
     pid \<leftarrow> ctx_user u;
     (k, r) \<leftarrow> get_process k pid;
     p \<leftarrow> r;
     Some (k, p) }"

definition drop_user :: "'d kernel \<Rightarrow> user_ctx \<Rightarrow> nat process \<Rightarrow> 'd kernel" where
  "drop_user k u p = (case ctx_pid u of Some pid \<Rightarrow> drop_slot k (slot_index pid) (Some p) | None \<Rightarrow> k)"

text \<open>\<open>kill_manual\<close>.\<close>

definition kill_manual :: "'d kernel \<Rightarrow> user_ctx \<Rightarrow> 'd kernel run" where
  "kill_manual k u = do {
     (k, p) \<leftarrow> user_process k u;
     Some (drop_user k u (p\<lparr>p_state := Finished\<rparr>)) }"

subsection \<open>Spawning\<close>

text \<open>The kernel's own access to a certificate.\<close>

definition store_certificate :: "'d store \<Rightarrow> raw_capability \<Rightarrow> certificate_value \<Rightarrow> 'd store run" where
  "store_certificate st cap v = do {
     (page, i) \<leftarrow> capability_certificate cap;
     Some (st\<lparr>st_memory := (st_memory st)\<lparr>mem_certs := cert_store (mem_certs (st_memory st)) page i v\<rparr>\<rparr>) }"

definition load_certificate :: "'d store \<Rightarrow> raw_capability \<Rightarrow> certificate_value run" where
  "load_certificate st cap = do {
     (page, i) \<leftarrow> capability_certificate cap;
     Some (cert_load (mem_certs (st_memory st)) page i) }"

text \<open>One capability among the arguments of a spawned process.\<close>

definition hand_over :: "process_id \<Rightarrow> process_id \<Rightarrow> raw_capability \<Rightarrow> 'd store \<Rightarrow> 'd store run" where
  "hand_over sender child cap st = do {
     who \<leftarrow> certifier cap;
     ensure (who = Userspace sender);
     before \<leftarrow> load_certificate st cap;
     after \<leftarrow> replace_recipient before (Userspace child);
     store_certificate st cap after }"

text \<open>
  The memory of a new process comes from the page allocator: one box per segment of the file (an
  answer is taken for each), one for the inputs (one page: \<open>ProcessInputs\<close> is aligned to a page and
  smaller than one), one for the stack.
\<close>

definition inputs_box :: "usize \<Rightarrow> untyped_box" where
  "inputs_box ptr = \<lparr>ub_ptr = ptr, ub_layout = \<lparr>lay_size = 4096, lay_align = 4096\<rparr>\<rparr>"

fun take_answers :: "nat \<Rightarrow> usize option list \<Rightarrow> (usize list \<times> usize option list) run" where
  "take_answers 0 as = Some ([], as)"
| "take_answers (Suc n) as = (case as of
       Some ptr # as \<Rightarrow> do { (ptrs, as) \<leftarrow> take_answers n as; Some (ptr # ptrs, as) }
     | _ \<Rightarrow> None)"

definition spawn_process :: "'d env \<Rightarrow> 'd kernel \<Rightarrow> nat \<Rightarrow> process_id \<Rightarrow> 'd kernel run" where
  "spawn_process env k prog pid = do {
     let st = k_store k;
     let program = e_program env prog;
     let n = (case prog_elf program of None \<Rightarrow> 0 | Some elf \<Rightarrow> (case ef_segments elf of None \<Rightarrow> 0 | Some ss \<Rightarrow> length ss));
     (ptrs, as) \<leftarrow> take_answers (n + 2) (st_pages st);
     (p, m) \<leftarrow> create_process (load_elf (prog_elf program) (take n ptrs)) pid (prog_name program)
       (inputs_box (ptrs ! n)) (ptrs ! (n + 1)) (st_memory st);
     let st = st\<lparr>st_memory := m, st_pages := as\<rparr>;
     set_slot (k\<lparr>k_store := st\<rparr>) (slot_index pid) (Some p) }"

text \<open>\<open>ProcessReservation::spawn\<close>, with which the kernel starts the first processes.\<close>

definition spawn :: "'d env \<Rightarrow> 'd kernel \<Rightarrow> nat \<Rightarrow> process_id \<Rightarrow> raw_capability list \<Rightarrow> 'd kernel run" where
  "spawn env k prog pid caps = do {
     st \<leftarrow> for_each (\<lambda>cap st. store_certificate st cap (value_granted (Userspace pid))) caps (k_store k);
     spawn_process env (k\<lparr>k_store := st\<rparr>) prog pid }"

text \<open>The spawner of a program (\<open>kernel/src/process/spawner.rs\<close>).\<close>

definition spawner_call :: "'d env \<Rightarrow> 'd kernel \<Rightarrow> nat \<Rightarrow> u8 list \<Rightarrow> process_id \<Rightarrow> ('d kernel \<times> u8 list) run" where
  "spawner_call env k prog args sender = do {
     (k, pid, export) \<leftarrow> reserve_process k;
     st \<leftarrow> store_certificate (k_store k) export (value_granted (Userspace sender));
     caps \<leftarrow> e_spawn_args env prog args;
     st \<leftarrow> for_each (hand_over sender pid) caps st;
     k \<leftarrow> spawn_process env (k\<lparr>k_store := st\<rparr>) prog pid;
     buf \<leftarrow> e_encode_cap env export;
     ensure (length buf \<le> 4096);
     Some (k, buf) }"

subsection \<open>Calling a handler\<close>

definition call_method ::
  "'d env \<Rightarrow> 'd kernel \<Rightarrow> 'd handler \<Rightarrow> usize \<Rightarrow> u8 list \<Rightarrow> process_id \<Rightarrow> ('d kernel \<times> u8 list) run" where
  "call_method env k h meth args sender = (case h of
       HShared _ \<Rightarrow> None
     | HVirtual _ \<Rightarrow> None
     | HSpawner prog \<Rightarrow> spawner_call env k prog args sender
     | HDevice d \<Rightarrow> do {
         (result, st) \<leftarrow> e_device_call env d meth args sender (k_store k);
         Some (k\<lparr>k_store := st\<rparr>, result) })"

definition map_stream :: "'d env \<Rightarrow> 'd handler \<Rightarrow> usize \<Rightarrow> (usize \<times> usize \<times> usize) run" where
  "map_stream env h stream = (case h of
       HShared _ \<Rightarrow> None | HVirtual _ \<Rightarrow> None | HSpawner _ \<Rightarrow> None
     | HDevice d \<Rightarrow> e_device_stream env d stream)"

end
