(* ===== verification/Syscall.thy ===== *)
theory Syscall
  imports Kernel_State
begin

text \<open>
  The system calls (\<open>kernel/src/syscall.rs\<close>).  A call returns to the user with a result, or with an
  error that kills the process, or it gives up the processor; a panic of the kernel is
  \<^const>\<open>None\<close>.
\<close>

subsection \<open>Results\<close>

datatype syscall_action = UserErr user_syscall_error | Yield

text \<open>The macro \<open>kill!\<close> with the guard of the current process in hand: the guard is dropped.\<close>

definition kill :: "'d kernel \<Rightarrow> user_ctx \<Rightarrow> nat process \<Rightarrow> ('d kernel \<times> (syscall_action + 'a)) run" where
  "kill k u p = Some (drop_user k u (p\<lparr>p_state := Finished\<rparr>), Inl Yield)"

text \<open>And without it: the process is locked first.\<close>

definition kill_user :: "'d kernel \<Rightarrow> user_ctx \<Rightarrow> ('d kernel \<times> (syscall_action + 'a)) run" where
  "kill_user k u = do { (k, p) \<leftarrow> user_process k u; kill k u p }"

text \<open>
  Validation in the kernel: one that panics, or never ends, does not return.
\<close>

definition validated :: "'d kernel \<Rightarrow> raw_capability \<Rightarrow> process_id \<Rightarrow> (capability_error + raw_capability) run" where
  "validated k cap pid = (case validate (mem_certs (st_memory (k_store k))) cap pid of
       Some (Returned r) \<Rightarrow> Some r
     | _ \<Rightarrow> None)"

definition set_memory :: "'d kernel \<Rightarrow> memory \<Rightarrow> 'd kernel" where
  "set_memory k m = k\<lparr>k_store := (k_store k)\<lparr>st_memory := m\<rparr>\<rparr>"

abbreviation k_memory :: "'d kernel \<Rightarrow> memory" where
  "k_memory k \<equiv> st_memory (k_store k)"

text \<open>The user's memory is reached through the table of the current process, which is active.\<close>

definition user_table :: "'d kernel \<Rightarrow> user_ctx \<Rightarrow> page_table run" where
  "user_table k u = do {
     pid \<leftarrow> ctx_pid u;
     ensure (slot_index pid < length (k_slots k));
     p \<leftarrow> mx_value (k_slots k ! slot_index pid);
     Some (p_page_table p) }"

subsection \<open>Processes\<close>

definition sys_exit :: "'d kernel \<Rightarrow> user_ctx \<Rightarrow> ('d kernel \<times> (syscall_action + unit)) run" where
  "sys_exit k u = do {
     (k, p) \<leftarrow> user_process k u;
     Some (drop_user k u (p\<lparr>p_state := Finished\<rparr>), Inl Yield) }"

definition sys_yield :: "'d kernel \<Rightarrow> user_ctx \<Rightarrow> ('d kernel \<times> (syscall_action + unit)) run" where
  "sys_yield k u = Some (k, Inl Yield)"

subsection \<open>Messages\<close>

definition sys_ipc_call ::
  "'d env \<Rightarrow> 'd kernel \<Rightarrow> user_ctx \<Rightarrow> raw_capability \<Rightarrow> usize \<Rightarrow> user_slice \<Rightarrow> user_slice \<Rightarrow>
     ('d kernel \<times> (syscall_action + usize)) run" where
  "sys_ipc_call env k u cap meth args_buffer result_buffer = do {
     (k, p) \<leftarrow> user_process k u;
     v \<leftarrow> validated k cap (p_id p);
     case v of
       Inl _ \<Rightarrow> kill k u p
     | Inr cap \<Rightarrow> do {
         who \<leftarrow> certifier cap;
         case who of
           Userspace dest_pid \<Rightarrow> do {
             (k, dest) \<leftarrow> get_process k dest_pid;
             case dest of
               None \<Rightarrow> kill k u p
             | Some dest \<Rightarrow> do {
                 let p = p\<lparr>p_state := WaitingForReply (Userspace dest_pid) result_buffer\<rparr>;
                 args \<leftarrow> copy_to_kernel (p_page_table p) (k_memory k) args_buffer;
                 sender \<leftarrow> ctx_user u;
                 let msg = \<lparr>msg_cap = cap, msg_method = meth, msg_args = args, msg_sender = sender\<rparr>;
                 let dest = dest\<lparr>p_messages := p_messages dest @ [msg]\<rparr>;
                 Some (drop_user (drop_slot k (slot_index dest_pid) (Some dest)) u p, Inl Yield) } }
         | Kernel \<Rightarrow> do {
             let k = drop_user k u p;
             handler \<leftarrow> store_handler (k_store k) (local_index cap);
             args \<leftarrow> copy_to_kernel (p_page_table p) (k_memory k) args_buffer;
             sender \<leftarrow> ctx_user u;
             (k, result) \<leftarrow> call_method env k handler meth args sender;
             table \<leftarrow> user_table k u;
             (m, w) \<leftarrow> write_to_user table (k_memory k) result_buffer result;
             case w of
               Inl _ \<Rightarrow> kill_user k u
             | Inr _ \<Rightarrow> Some (set_memory k m, Inr (length result)) } } }"

definition sys_ipc_receive ::
  "'d kernel \<Rightarrow> user_ctx \<Rightarrow> user_slice \<Rightarrow>
     ('d kernel \<times> (syscall_action + raw_capability option \<times> usize \<times> usize \<times> process_id option)) run" where
  "sys_ipc_receive k u args = do {
     (k, p) \<leftarrow> user_process k u;
     if p_currently_serving p \<noteq> None then kill k u p
     else case p_messages p of
       [] \<Rightarrow> Some (drop_user k u p, Inr (None, 0, 0, None))
     | msg # rest \<Rightarrow> do {
         let p = p\<lparr>p_messages := rest\<rparr>;
         (m, w) \<leftarrow> write_to_user (p_page_table p) (k_memory k) args (msg_args msg);
         case w of
           Inl _ \<Rightarrow> kill k u p
         | Inr _ \<Rightarrow> do {
             let p = p\<lparr>p_currently_serving := Some (msg_sender msg)\<rparr>;
             Some (drop_user (set_memory k m) u p,
               Inr (Some (msg_cap msg), msg_method msg, length (msg_args msg), Some (msg_sender msg))) } } }"

text \<open>
  Reading a capability and a size: a message too short or malformed is an error, but a number that is
  no capability is a panic of \<open>Deserialize\<close>.
\<close>

definition decode_stream :: "'d env \<Rightarrow> u8 list \<Rightarrow> (raw_capability \<times> usize) option run" where
  "decode_stream env bytes =
     (case e_decode_usize env bytes of
        None \<Rightarrow> Some None
      | Some (address, rest) \<Rightarrow> do {
          stream \<leftarrow> raw_deserialize address;
          case e_decode_usize env rest of
            None \<Rightarrow> Some None
          | Some (declared_size, _) \<Rightarrow> Some (Some (stream, declared_size)) })"

text \<open>
  The reply to a request for a stream is a capability to shared memory of the kernel, which is
  checked on behalf of the caller.  \<open>kill\<close> drops the guard of the current process; the caller's
  guard is dropped as well.
\<close>

definition sys_ipc_reply ::
  "'d env \<Rightarrow> 'd kernel \<Rightarrow> user_ctx \<Rightarrow> user_slice \<Rightarrow> ('d kernel \<times> (syscall_action + unit)) run" where
  "sys_ipc_reply env k u result = do {
     (k, p) \<leftarrow> user_process k u;
     case p_currently_serving p of
       None \<Rightarrow> kill k u p
     | Some caller_pid \<Rightarrow> do {
         let p = p\<lparr>p_currently_serving := None\<rparr>;
         (k, caller) \<leftarrow> get_process k caller_pid;
         caller \<leftarrow> caller;
         let killed = kill (drop_slot k (slot_index caller_pid) (Some caller)) u p;
         case p_state caller of
           WaitingForReply from result_buffer \<Rightarrow>
             if from \<noteq> Userspace (p_id p) then killed
             else do {
               reply \<leftarrow> copy_to_kernel (p_page_table p) (k_memory k) result;
               let caller = caller\<lparr>p_state := ReadyReply reply result_buffer\<rparr>;
               Some (drop_user (drop_slot k (slot_index caller_pid) (Some caller)) u p, Inr ()) }
         | WaitingForStreamMap from \<Rightarrow>
             if from \<noteq> Userspace (p_id p) then killed
             else do {
               reply \<leftarrow> copy_to_kernel (p_page_table p) (k_memory k) result;
               decoded \<leftarrow> decode_stream env reply;
               case decoded of
                 None \<Rightarrow> killed
               | Some (stream, declared_size) \<Rightarrow> do {
                   v \<leftarrow> validated k stream (p_id caller);
                   case v of
                     Inl _ \<Rightarrow> killed
                   | Inr ring \<Rightarrow> do {
                       who \<leftarrow> certifier ring;
                       if who \<noteq> Kernel then killed
                       else do {
                         handler \<leftarrow> store_handler (k_store k) (local_index ring);
                         len \<leftarrow> shared_memory_size (k_store k) handler;
                         if \<not> is_multiple_of len PAGE_SIZE then killed
                         else do {
                           need \<leftarrow> uadd (2 * CACHE_LINE_SIZE) declared_size;
                           if len < need then killed
                           else do {
                             let caller = caller\<lparr>p_state := ReadyStreamMap ring declared_size\<rparr>;
                             Some (drop_user (drop_slot k (slot_index caller_pid) (Some caller)) u p, Inr ()) } } } } } }
         | _ \<Rightarrow> None } }"

definition sys_ipc_stream ::
  "'d env \<Rightarrow> 'd kernel \<Rightarrow> user_ctx \<Rightarrow> raw_capability \<Rightarrow> usize \<Rightarrow>
     ('d kernel \<times> (syscall_action + usize \<times> usize)) run" where
  "sys_ipc_stream env k u cap stream = do {
     (k, p) \<leftarrow> user_process k u;
     v \<leftarrow> validated k cap (p_id p);
     case v of
       Inl _ \<Rightarrow> kill k u p
     | Inr cap \<Rightarrow> do {
         who \<leftarrow> certifier cap;
         case who of
           Userspace original_pid \<Rightarrow> do {
             let p = p\<lparr>p_state := WaitingForStreamMap (Userspace original_pid)\<rparr>;
             (k, dest) \<leftarrow> get_process k original_pid;
             dest \<leftarrow> dest;
             meth \<leftarrow> uadd 1000 stream;
             sender \<leftarrow> ctx_user u;
             let msg = \<lparr>msg_cap = cap, msg_method = meth, msg_args = [], msg_sender = sender\<rparr>;
             let dest = dest\<lparr>p_messages := p_messages dest @ [msg]\<rparr>;
             Some (drop_user (drop_slot k (slot_index original_pid) (Some dest)) u p, Inl Yield) }
         | Kernel \<Rightarrow> do {
             handler \<leftarrow> store_handler (k_store k) (local_index cap);
             (ring_ptr, ring_size, data_len) \<leftarrow> map_stream env handler stream;
             l \<leftarrow> layout_from_size_align ring_size PAGE_SIZE;
             (heap, r) \<leftarrow> buddy_alloc (p_heap p) l;
             let p = p\<lparr>p_heap := heap\<rparr>;
             case r of
               Inl e \<Rightarrow> Some (drop_user k u p, Inl (UserErr (ErrAlloc e)))
             | Inr virt \<Rightarrow> do {
                 phys \<leftarrow> virt_to_phys ring_ptr;
                 table \<leftarrow> table_map (p_page_table p) virt phys PAGE_SIZE (flags_user flags_read_write);
                 Some (drop_user k u (p\<lparr>p_page_table := table\<rparr>), Inr (virt, data_len)) } } } }"

subsection \<open>Memory\<close>

text \<open>
  A vector longer than \<open>isize::MAX\<close> bytes cannot be: \<open>try_with_capacity_in\<close> returns an error, and
  \<open>with_capacity_in\<close> panics; so they do when the allocator fails.
\<close>

definition byte_box :: "usize \<Rightarrow> usize \<Rightarrow> untyped_box" where
  "byte_box ptr sz = \<lparr>ub_ptr = ptr, ub_layout = \<lparr>lay_size = sz, lay_align = 1\<rparr>\<rparr>"

definition sys_alloc :: "'d kernel \<Rightarrow> user_ctx \<Rightarrow> usize \<Rightarrow> ('d kernel \<times> (syscall_action + usize)) run" where
  "sys_alloc k u sz = do {
     sz \<leftarrow> next_multiple_of sz PAGE_SIZE;
     if sz \<ge> usize_end div 2 then Some (k, Inl (UserErr ErrTryReserve))
     else do {
       (st, r) \<leftarrow> take_pages (k_store k) sz;
       let k = k\<lparr>k_store := st\<rparr>;
       case r of
         None \<Rightarrow> Some (k, Inl (UserErr ErrTryReserve))
       | Some ptr \<Rightarrow> do {
           (k, p) \<leftarrow> user_process k u;
           (p, v) \<leftarrow> process_alloc p (byte_box ptr sz) (flags_user flags_read_write);
           let k = drop_user k u p;
           Some (k, case v of Inl e \<Rightarrow> Inl (UserErr (ErrAlloc e)) | Inr virt \<Rightarrow> Inr virt) } } }"

definition sys_alloc_shared ::
  "'d kernel \<Rightarrow> user_ctx \<Rightarrow> usize \<Rightarrow> ('d kernel \<times> (syscall_action + usize \<times> raw_capability)) run" where
  "sys_alloc_shared k u sz = do {
     sz \<leftarrow> next_multiple_of sz PAGE_SIZE;
     ensure (sz < usize_end div 2);
     (st, r) \<leftarrow> take_pages (k_store k) sz;
     ptr \<leftarrow> r;
     (k, p) \<leftarrow> user_process (k\<lparr>k_store := st\<rparr>) u;
     let pages = byte_box ptr sz;
     (p, v) \<leftarrow> process_alloc p pages (flags_user flags_read_write);
     let k = drop_user k u p;
     case v of
       Inl e \<Rightarrow> Some (k, Inl (UserErr (ErrAlloc e)))
     | Inr virt \<Rightarrow> do {
         pid \<leftarrow> ctx_user u;
         (st, cap) \<leftarrow> store_grant (k_store k) pid (HShared pages);
         Some (k\<lparr>k_store := st\<rparr>, Inr (virt, cap)) } }"

definition sys_map_shared ::
  "'d kernel \<Rightarrow> user_ctx \<Rightarrow> raw_capability \<Rightarrow> ('d kernel \<times> (syscall_action + usize \<times> usize)) run" where
  "sys_map_shared k u cap = do {
     (k, p) \<leftarrow> user_process k u;
     v \<leftarrow> validated k cap (p_id p);
     case v of
       Inl _ \<Rightarrow> kill k u p
     | Inr cap \<Rightarrow> do {
         who \<leftarrow> certifier cap;
         if who \<noteq> Kernel then kill k u p
         else do {
           handler \<leftarrow> store_handler (k_store k) (local_index cap);
           len \<leftarrow> shared_memory_size (k_store k) handler;
           padded \<leftarrow> next_multiple_of len PAGE_SIZE;
           l \<leftarrow> layout_from_size_align padded PAGE_SIZE;
           (heap, r) \<leftarrow> buddy_alloc (p_heap p) l;
           let p = p\<lparr>p_heap := heap\<rparr>;
           case r of
             Inl e \<Rightarrow> Some (drop_user k u p, Inl (UserErr (ErrAlloc e)))
           | Inr virt \<Rightarrow> do {
               (table, vmms) \<leftarrow> shared_memory_map (k_store k) handler virt (p_page_table p) (p_virtual_memory_mappings p);
               let p = p\<lparr>p_page_table := table, p_virtual_memory_mappings := vmms\<rparr>;
               Some (drop_user k u p, Inr (virt, len)) } } } }"

definition sys_free :: "'d kernel \<Rightarrow> user_ctx \<Rightarrow> user_ptr \<Rightarrow> ('d kernel \<times> (syscall_action + unit)) run" where
  "sys_free k u ptr = do {
     (k, p) \<leftarrow> user_process k u;
     (p, r) \<leftarrow> process_dealloc p (ptr_addr ptr);
     case r of
       Inl _ \<Rightarrow> kill k u p
     | Inr _ \<Rightarrow> Some (drop_user k u p, Inr ()) }"

subsection \<open>Messages for the log\<close>

text \<open>Whether bytes are well-formed UTF-8: \<open>String::from_utf8\<close>.\<close>

definition utf8_cont :: "u8 \<Rightarrow> bool" where
  "utf8_cont b \<longleftrightarrow> 0x80 \<le> b \<and> b \<le> 0xBF"

fun utf8_ok :: "u8 list \<Rightarrow> bool" where
  "utf8_ok [] = True"
| "utf8_ok (b # bs) =
     (if b \<le> 0x7F then utf8_ok bs
      else if 0xC2 \<le> b \<and> b \<le> 0xDF then (case bs of c # bs \<Rightarrow> utf8_cont c \<and> utf8_ok bs | _ \<Rightarrow> False)
      else if 0xE0 \<le> b \<and> b \<le> 0xEF then (case bs of
          c # d # bs \<Rightarrow> utf8_cont c \<and> utf8_cont d \<and> (b = 0xE0 \<longrightarrow> 0xA0 \<le> c) \<and> (b = 0xED \<longrightarrow> c \<le> 0x9F) \<and> utf8_ok bs
        | _ \<Rightarrow> False)
      else if 0xF0 \<le> b \<and> b \<le> 0xF4 then (case bs of
          c # d # e # bs \<Rightarrow> utf8_cont c \<and> utf8_cont d \<and> utf8_cont e \<and> (b = 0xF0 \<longrightarrow> 0x90 \<le> c) \<and>
            (b = 0xF4 \<longrightarrow> c \<le> 0x8F) \<and> utf8_ok bs
        | _ \<Rightarrow> False)
      else False)"

text \<open>The log keeps the level, the name of the process with its number, and the text.\<close>

definition sys_log :: "'d kernel \<Rightarrow> user_ctx \<Rightarrow> user_slice \<Rightarrow> u64 \<Rightarrow> ('d kernel \<times> (syscall_action + unit)) run" where
  "sys_log k u msg level = do {
     table \<leftarrow> user_table k u;
     text \<leftarrow> copy_to_kernel table (k_memory k) msg;
     if \<not> utf8_ok text then kill_user k u
     else if level > 4 then kill_user k u
     else do {
       (k, p) \<leftarrow> user_process k u;
       let k = k\<lparr>k_log := k_log k @ [(unat level, p_name p, p_id p, text)]\<rparr>;
       Some (drop_user k u p, Inr ()) } }"

end
