(* ===== verification/Scheduler.thy ===== *)
theory Scheduler
  imports Syscall
begin

text \<open>
  The scheduler (\<open>kernel/src/process.rs\<close>), the dispatch of system calls (generated by
  \<open>kernel/build.rs\<close> from \<open>interfaces.drvli\<close>) and the trap handler (\<open>kernel/src/main.rs\<close>).
\<close>

subsection \<open>Choosing a process\<close>

definition is_ready :: "process_state \<Rightarrow> bool" where
  "is_ready s \<longleftrightarrow> (case s of Runnable \<Rightarrow> True | ReadyReply _ _ \<Rightarrow> True | ReadyStreamMap _ _ \<Rightarrow> True | _ \<Rightarrow> False)"

definition waits_for :: "process_state \<Rightarrow> actor option" where
  "waits_for s = (case s of WaitingForReply from _ \<Rightarrow> Some from | WaitingForStreamMap from \<Rightarrow> Some from | _ \<Rightarrow> None)"

text \<open>The slot of the process that is waited for is locked while its state is looked at.\<close>

definition inspect_can_progress :: "'d kernel \<Rightarrow> nat process \<Rightarrow> nat process run" where
  "inspect_can_progress k p = (case waits_for (p_state p) of
       Some (Userspace from) \<Rightarrow> do {
         (_, r) \<leftarrow> get_process k from;
         Some (case r of
             None \<Rightarrow> p\<lparr>p_state := Finished\<rparr>
           | Some q \<Rightarrow> if p_state q = Finished then p\<lparr>p_state := Finished\<rparr> else p) }
     | _ \<Rightarrow> Some p)"

text \<open>One turn of the scan: the guard of a process that can run, or the kernel to go on with.\<close>

definition scan_slot :: "'d kernel \<Rightarrow> usize \<Rightarrow> ('d kernel \<times> nat process option) run" where
  "scan_slot k i = do {
     (k, r) \<leftarrow> lock_slot k i;
     case r of
       None \<Rightarrow> Some (k, None)
     | Some p \<Rightarrow> do {
         p \<leftarrow> inspect_can_progress k p;
         if is_ready (p_state p) then Some (k, Some p)
         else if p_state p = Finished then do {
           k \<leftarrow> set_slot (drop_slot k i (Some p)) i None;
           Some (k, None) }
         else Some (drop_slot k i (Some p), None) } }"

fun scan_slots :: "'d kernel \<Rightarrow> usize list \<Rightarrow> ('d kernel \<times> (usize \<times> nat process) option) run" where
  "scan_slots k [] = Some (k, None)"
| "scan_slots k (i # is) = do {
     (k, r) \<leftarrow> scan_slot k i;
     case r of
       Some p \<Rightarrow> Some (k, Some (i, p))
     | None \<Rightarrow> scan_slots k is }"

definition scan_order :: "process_id option \<Rightarrow> usize list" where
  "scan_order pid =
     (let scan_start = (case pid of Some pid \<Rightarrow> unat (as_u16 pid) + 1 | None \<Rightarrow> 0)
      in map (\<lambda>scan_offset. (scan_start + scan_offset) mod PROCESS_COUNT) [0..<PROCESS_COUNT])"

definition find_runnable_process :: "'d kernel \<Rightarrow> user_ctx \<Rightarrow> ('d kernel \<times> (usize \<times> nat process) option) run" where
  "find_runnable_process k u = scan_slots k (scan_order (ctx_pid u))"

subsection \<open>Resuming it\<close>

definition set_userspace_process :: "nat process \<Rightarrow> user_ctx \<Rightarrow> user_ctx" where
  "set_userspace_process p u = u\<lparr>ctx_sepc := p_pc p, ctx_pid := Some (p_id p)\<rparr>"

text \<open>
  What the process gets before it runs on; an error kills it.  The guard is that of slot \<open>i\<close>.
\<close>

definition resume_process ::
  "'d env \<Rightarrow> 'd kernel \<Rightarrow> usize \<Rightarrow> nat process \<Rightarrow> user_ctx \<Rightarrow> ('d kernel \<times> user_ctx \<times> (user_syscall_error + unit)) run" where
  "resume_process env k i next u = do {
     let u = set_userspace_process next u;
     let run = (\<lambda>k next. (drop_slot k i (Some next), u\<lparr>ctx_registers := p_registers next\<rparr>, Inr ()));
     case p_state next of
       Runnable \<Rightarrow> Some (run k next)
     | ReadyReply reply result_buffer \<Rightarrow> do {
         (m, w) \<leftarrow> write_to_user (p_page_table next) (k_memory k) result_buffer reply;
         case w of
           Inl e \<Rightarrow> Some (drop_slot k i (Some next), u, Inl (ErrSliceTooSmall e))
         | Inr _ \<Rightarrow> Some (run (set_memory k m)
             (next\<lparr>p_registers := (p_registers next)(A0 := length reply), p_state := Runnable\<rparr>)) }
     | ReadyStreamMap ring declared_size \<Rightarrow> do {
         handler \<leftarrow> store_handler (k_store k) (local_index ring);
         len \<leftarrow> shared_memory_size (k_store k) handler;
         l \<leftarrow> layout_from_size_align len PAGE_SIZE;
         (heap, r) \<leftarrow> buddy_alloc (p_heap next) l;
         case r of
           Inl _ \<Rightarrow> None
         | Inr virt \<Rightarrow> do {
             (table, vmms) \<leftarrow> shared_memory_map (k_store k) handler virt (p_page_table next) (p_virtual_memory_mappings next);
             Some (run k (next\<lparr>p_heap := heap, p_page_table := table, p_virtual_memory_mappings := vmms,
               p_registers := (p_registers next)(A0 := virt, A1 := declared_size), p_state := Runnable\<rparr>)) } }
     | _ \<Rightarrow> None }"

text \<open>
  \<open>schedule_userspace\<close>: the machine shuts down, or a process runs.  Each turn but the last kills a
  process, so the number of slots bounds the turns; \<open>fuel\<close> is that bound, and running out of it
  is a result of its own.
\<close>

datatype 'd scheduled = Shutdown "'d kernel" | Resumed "'d kernel" user_ctx | OutOfFuel

fun schedule_userspace :: "nat \<Rightarrow> 'd env \<Rightarrow> 'd kernel \<Rightarrow> user_ctx \<Rightarrow> 'd scheduled run" where
  "schedule_userspace 0 env k u = Some OutOfFuel"
| "schedule_userspace (Suc fuel) env k u = do {
     (k, r) \<leftarrow> find_runnable_process k u;
     case r of
       None \<Rightarrow> Some (Shutdown k)
     | Some (i, next) \<Rightarrow> do {
         (k, u, e) \<leftarrow> resume_process env k i next u;
         case e of
           Inr _ \<Rightarrow> Some (Resumed k u)
         | Inl _ \<Rightarrow> do {
             k \<leftarrow> kill_manual k u;
             schedule_userspace fuel env k u } } }"

definition schedule_fuel :: nat where
  "schedule_fuel = 9"

subsection \<open>Dispatch\<close>

text \<open>
  What the generated \<open>dispatch_syscall\<close> does: the number is in \<open>a6\<close>, the arguments are in \<open>a0\<close> to
  \<open>a5\<close> (a slice takes two registers) and are checked in order, the results go to \<open>a0\<close> to \<open>a3\<close>.
\<close>

definition reg_capability :: "registers \<Rightarrow> reg \<Rightarrow> user_syscall_error + raw_capability" where
  "reg_capability r x = (case raw_try_from (r x) of
       Inl e \<Rightarrow> Inl (ErrInvalidCapability e)
     | Inr c \<Rightarrow> Inr c)"

definition reg_slice :: "registers \<Rightarrow> reg \<Rightarrow> reg \<Rightarrow> user_syscall_error + user_slice" where
  "reg_slice r x y = (case user_from_slice (r x) (r y) of
       Inl e \<Rightarrow> Inl (ErrInvalidPointer e)
     | Inr s \<Rightarrow> Inr s)"

definition reg_ptr :: "registers \<Rightarrow> reg \<Rightarrow> user_syscall_error + user_ptr" where
  "reg_ptr r x = (case user_from_ptr (r x) of
       Inl e \<Rightarrow> Inl (ErrInvalidPointer e)
     | Inr s \<Rightarrow> Inr s)"

text \<open>The operator \<open>?\<close> on an argument.\<close>

definition with_arg ::
  "'d kernel \<Rightarrow> (user_syscall_error + 'a) \<Rightarrow> ('a \<Rightarrow> ('d kernel \<times> (syscall_action + 'b)) run) \<Rightarrow>
     ('d kernel \<times> (syscall_action + 'b)) run" where
  "with_arg k arg f = (case arg of Inl e \<Rightarrow> Some (k, Inl (UserErr e)) | Inr x \<Rightarrow> f x)"

text \<open>Storing the result of a call, if it returned one.\<close>

definition with_result ::
  "('d kernel \<times> (syscall_action + 'a)) run \<Rightarrow> ('a \<Rightarrow> registers \<Rightarrow> registers) \<Rightarrow> registers \<Rightarrow>
     ('d kernel \<times> registers \<times> (syscall_action + unit)) run" where
  "with_result call put r = do {
     (k, res) \<leftarrow> call;
     Some (case res of Inl a \<Rightarrow> (k, r, Inl a) | Inr x \<Rightarrow> (k, put x r, Inr ())) }"

definition capability_reg :: "raw_capability option \<Rightarrow> usize" where
  "capability_reg c = (case c of None \<Rightarrow> 0 | Some c \<Rightarrow> as_usize c)"

definition pid_reg :: "process_id option \<Rightarrow> usize" where
  "pid_reg p = (case p of None \<Rightarrow> 0 | Some p \<Rightarrow> unat (as_u16 p))"

definition dispatch_syscall ::
  "'d env \<Rightarrow> 'd kernel \<Rightarrow> user_ctx \<Rightarrow> ('d kernel \<times> registers \<times> (syscall_action + unit)) run" where
  "dispatch_syscall env k u = (let r = ctx_registers u in
     if r A6 = 0 then with_result (sys_exit k u) (\<lambda>_ r. r) r
     else if r A6 = 1 then
       with_result (with_arg k (reg_capability r A0) (\<lambda>cap. with_arg k (reg_slice r A2 A3) (\<lambda>args.
         with_arg k (reg_slice r A4 A5) (\<lambda>result. sys_ipc_call env k u cap (r A1) args result))))
         (\<lambda>n r. r(A0 := n)) r
     else if r A6 = 2 then
       with_result (with_arg k (reg_slice r A0 A1) (\<lambda>args. sys_ipc_receive k u args))
         (\<lambda>(cap, meth, n, sender) r. r(A0 := capability_reg cap, A1 := meth, A2 := n, A3 := pid_reg sender)) r
     else if r A6 = 3 then
       with_result (with_arg k (reg_slice r A0 A1) (\<lambda>result. sys_ipc_reply env k u result)) (\<lambda>_ r. r) r
     else if r A6 = 4 then
       with_result (with_arg k (reg_capability r A0) (\<lambda>cap. sys_ipc_stream env k u cap (r A1)))
         (\<lambda>(ptr, n) r. r(A0 := ptr, A1 := n)) r
     else if r A6 = 5 then with_result (sys_alloc k u (r A0)) (\<lambda>ptr r. r(A0 := ptr)) r
     else if r A6 = 6 then
       with_result (sys_alloc_shared k u (r A0)) (\<lambda>(ptr, cap) r. r(A0 := ptr, A1 := as_usize cap)) r
     else if r A6 = 7 then
       with_result (with_arg k (reg_capability r A0) (\<lambda>cap. sys_map_shared k u cap))
         (\<lambda>(ptr, n) r. r(A0 := ptr, A1 := n)) r
     else if r A6 = 8 then
       with_result (with_arg k (reg_ptr r A0) (\<lambda>ptr. sys_free k u ptr)) (\<lambda>_ r. r) r
     else if r A6 = 9 then with_result (sys_yield k u) (\<lambda>_ r. r) r
     else if r A6 = 10 then
       with_result (with_arg k (reg_slice r A0 A1) (\<lambda>msg. sys_log k u msg (word_of_nat (r A2)))) (\<lambda>_ r. r) r
     else Some (k, r, Inl (UserErr ErrInvalidSyscallNumber)))"

subsection \<open>Traps\<close>

datatype trap = UserEnvCall | SupervisorTimer | SupervisorExternal u32 | PageFault usize | OtherTrap

text \<open>
  \<open>kill!\<close> without a guard in hand locks the process again.  In \<open>handle_page_fault\<close> the guard \<open>proc\<close>
  is still alive in the branch for an address that nothing is mapped at.
\<close>

definition page_fault_mapping :: "nat process \<Rightarrow> usize \<Rightarrow> nat vmm option run" where
  "page_fault_mapping p stval = foldr (\<lambda>vmm rest.
     if in_range (fst vmm) stval then do {
       mapped \<leftarrow> is_mapped (p_page_table p) stval;
       if \<not> mapped then Some (Some vmm) else rest }
     else rest) (p_virtual_memory_mappings p) (Some None)"

definition handle_page_fault ::
  "'d env \<Rightarrow> 'd kernel \<Rightarrow> user_ctx \<Rightarrow> usize \<Rightarrow> ('d kernel \<times> (syscall_action + unit)) run" where
  "handle_page_fault env k u stval =
     (if in_range USER_STACK_GUARD stval then kill_user k u
      else do {
        (k, p) \<leftarrow> user_process k u;
        vmm \<leftarrow> page_fault_mapping p stval;
        case vmm of
          None \<Rightarrow> kill_user k u
        | Some ((s, e), i) \<Rightarrow> do {
            let page_index = (stval - s) div PAGE_SIZE;
            (st, table) \<leftarrow> vm_load_page env (k_store k) i s page_index (p_page_table p);
            Some (drop_user (k\<lparr>k_store := st\<rparr>) u (p\<lparr>p_page_table := table\<rparr>), Inr ()) } })"

text \<open>
  The trap handler proper.  What an external interrupt runs are the registered handlers of devices,
  which do not touch the processes: \<open>irq\<close> is their effect on what the handlers reach.
\<close>

definition on_user_trap_impl ::
  "'d env \<Rightarrow> (u32 \<Rightarrow> 'd store \<Rightarrow> 'd store run) \<Rightarrow> 'd kernel \<Rightarrow> user_ctx \<Rightarrow> trap \<Rightarrow>
     ('d kernel \<times> user_ctx \<times> (syscall_action + unit)) run" where
  "on_user_trap_impl env irq k u t = (let user_pc = ctx_sepc u in
     case t of
       UserEnvCall \<Rightarrow> do {
         (k, r, res) \<leftarrow> dispatch_syscall env k u;
         let u = u\<lparr>ctx_registers := r\<rparr>;
         case res of
           Inr _ \<Rightarrow> do { pc \<leftarrow> uadd user_pc 4; Some (k, u\<lparr>ctx_sepc := pc\<rparr>, Inr ()) }
         | Inl (UserErr e) \<Rightarrow> Some (k, u, Inl (UserErr e))
         | Inl Yield \<Rightarrow> do {
             (k, p) \<leftarrow> user_process k u;
             pc \<leftarrow> uadd user_pc 4;
             Some (drop_user k u (p\<lparr>p_pc := pc\<rparr>), u, Inl Yield) } }
     | SupervisorTimer \<Rightarrow> Some (k, u, Inr ())
     | SupervisorExternal n \<Rightarrow> do {
         st \<leftarrow> irq n (k_store k);
         Some (k\<lparr>k_store := st\<rparr>, u, Inr ()) }
     | PageFault stval \<Rightarrow> do {
         (k, res) \<leftarrow> handle_page_fault env k u stval;
         Some (k, u, res) }
     | OtherTrap \<Rightarrow> None)"

definition on_user_trap ::
  "'d env \<Rightarrow> (u32 \<Rightarrow> 'd store \<Rightarrow> 'd store run) \<Rightarrow> 'd kernel \<Rightarrow> user_ctx \<Rightarrow> trap \<Rightarrow> 'd scheduled run" where
  "on_user_trap env irq k u t = do {
     (k, u, res) \<leftarrow> on_user_trap_impl env irq k u t;
     case res of
       Inr _ \<Rightarrow> Some (Resumed k u)
     | Inl (UserErr e) \<Rightarrow> do {
         k \<leftarrow> kill_manual k u;
         schedule_userspace schedule_fuel env k u }
     | Inl Yield \<Rightarrow> do {
         (k, p) \<leftarrow> user_process k u;
         schedule_userspace schedule_fuel env (drop_user k u (p\<lparr>p_registers := ctx_registers u\<rparr>)) u } }"

end
