(* ===== verification/Kernel_Correct.thy ===== *)
theory Kernel_Correct
  imports Scheduler
begin

text \<open>
  What holds of the kernel's processes whatever their programs do: the mutexes are free whenever a
  user runs, every message and every request being served comes from a process that waits for
  exactly this server, and the scheduler is fair.
\<close>

subsection \<open>Processes and locks\<close>

definition procs :: "'d kernel \<Rightarrow> usize \<Rightarrow> nat process option" where
  "procs k i = (if i < length (k_slots k) then mx_value (k_slots k ! i) else None)"

definition locks :: "'d kernel \<Rightarrow> usize set" where
  "locks k = {i. i < length (k_slots k) \<and> mx_locked (k_slots k ! i)}"

definition slots :: "'d kernel \<Rightarrow> usize" where
  "slots k = length (k_slots k)"

lemma lock_slot_Some:
  assumes "lock_slot k i = Some (k', r)"
  shows "i < slots k" "i \<notin> locks k" "r = procs k i" "procs k' = procs k"
    "locks k' = (if r = None then locks k else insert i (locks k))" "slots k' = slots k"
    "k_store k' = k_store k" "k_reserved k' = k_reserved k"
  using assms
  by (auto simp: lock_slot_def run_Some mutex_lock_if_some_Some procs_def locks_def slots_def nth_list_update fun_eq_iff
      split: if_splits)

lemma lock_slot_free:
  assumes "i < slots k" "i \<notin> locks k"
  shows "\<exists>k'. lock_slot k i = Some (k', procs k i)"
  using assms by (auto simp: lock_slot_def mutex_lock_if_some_def mutex_lock_def procs_def locks_def slots_def
      split: option.splits)

lemma lock_slot_locked: "i \<in> locks k \<Longrightarrow> lock_slot k i = None"
  by (auto simp: lock_slot_def mutex_lock_if_some_def mutex_lock_def locks_def)

lemma drop_slot_simps [simp]:
  "slots (drop_slot k i r) = slots k" "k_store (drop_slot k i r) = k_store k"
  "k_reserved (drop_slot k i r) = k_reserved k" "k_log (drop_slot k i r) = k_log k"
  "i < slots k \<Longrightarrow> procs (drop_slot k i r) = (procs k)(i := r)"
  "locks (drop_slot k i r) = locks k - {i}"
  by (cases "i < length (k_slots k)";
      auto simp: drop_slot_def slots_def procs_def locks_def mutex_unlock_def nth_list_update list_update_beyond fun_eq_iff
        split: if_splits)+

lemma kernel_update_simps [simp]:
  "slots (k\<lparr>k_store := st\<rparr>) = slots k" "procs (k\<lparr>k_store := st\<rparr>) = procs k" "locks (k\<lparr>k_store := st\<rparr>) = locks k"
  "slots (k\<lparr>k_log := l\<rparr>) = slots k" "procs (k\<lparr>k_log := l\<rparr>) = procs k" "locks (k\<lparr>k_log := l\<rparr>) = locks k"
  "slots (k\<lparr>k_reserved := n\<rparr>) = slots k" "procs (k\<lparr>k_reserved := n\<rparr>) = procs k" "locks (k\<lparr>k_reserved := n\<rparr>) = locks k"
  "slots (set_memory k m) = slots k" "procs (set_memory k m) = procs k" "locks (set_memory k m) = locks k"
  "k_reserved (set_memory k m) = k_reserved k"
  by (simp_all add: slots_def procs_def locks_def set_memory_def fun_eq_iff)

lemma set_slot_Some:
  assumes "set_slot k i v = Some k'"
  shows "i < slots k" "i \<notin> locks k" "procs k' = (procs k)(i := v)" "locks k' = locks k" "slots k' = slots k"
    "k_store k' = k_store k" "k_reserved k' = k_reserved k"
  using assms by (auto simp: set_slot_def run_Some mutex_lock_def mutex_unlock_def procs_def locks_def slots_def
      nth_list_update fun_eq_iff split: if_splits)

lemma user_process_Some:
  assumes "user_process k u = Some (k', p)"
  shows "\<exists>pid. ctx_pid u = Some pid \<and> slot_index pid < slots k \<and> slot_index pid \<notin> locks k \<and>
    procs k (slot_index pid) = Some p \<and> procs k' = procs k \<and> locks k' = insert (slot_index pid) (locks k) \<and>
    slots k' = slots k \<and> k_store k' = k_store k \<and> k_reserved k' = k_reserved k"
proof -
  obtain pid r where "ctx_pid u = Some pid" "lock_slot k (slot_index pid) = Some (k', r)" "r = Some p"
    using assms by (auto simp: user_process_def ctx_user_def get_process_def run_Some)
  then show ?thesis using lock_slot_Some [of k "slot_index pid" k' r] by auto
qed

subsection \<open>The invariant\<close>

text \<open>The senders a process owes a reply: those of its messages and the one it serves.\<close>

definition clients :: "'v process \<Rightarrow> process_id list" where
  "clients p = map msg_sender (p_messages p) @ (case p_currently_serving p of None \<Rightarrow> [] | Some c \<Rightarrow> [c])"

definition waiting_on :: "(usize \<Rightarrow> nat process option) \<Rightarrow> process_id \<Rightarrow> process_id \<Rightarrow> bool" where
  "waiting_on ps c server \<longleftrightarrow> (\<exists>p. ps (slot_index c) = Some p \<and> waits_for (p_state p) = Some (Userspace server))"

text \<open>
  Every process is in the slot of its number, which has been reserved, and none waits for itself; a
  process that has not finished owes a reply only to processes that wait for it, and to each of
  them once.
\<close>

definition procs_inv :: "u16 \<Rightarrow> (usize \<Rightarrow> nat process option) \<Rightarrow> bool" where
  "procs_inv reserved ps \<longleftrightarrow> (\<forall>i p. ps i = Some p \<longrightarrow>
     slot_index (p_id p) = i \<and> 0 < i \<and> i < PROCESS_COUNT \<and> i \<le> unat reserved \<and>
     (\<forall>s. waits_for (p_state p) = Some (Userspace s) \<longrightarrow> slot_index s < PROCESS_COUNT \<and> slot_index s \<noteq> i) \<and>
     (p_state p \<noteq> Finished \<longrightarrow>
       distinct (clients p) \<and> (\<forall>c \<in> set (clients p). waiting_on ps c (p_id p))))"

definition kernel_inv :: "'d kernel \<Rightarrow> bool" where
  "kernel_inv k \<longleftrightarrow> slots k = PROCESS_COUNT \<and> locks k = {} \<and> procs_inv (k_reserved k) (procs k)"

text \<open>The process that runs is one that may.\<close>

definition user_runs :: "'d kernel \<Rightarrow> user_ctx \<Rightarrow> bool" where
  "user_runs k u \<longleftrightarrow> (\<exists>pid p. ctx_pid u = Some pid \<and> procs k (slot_index pid) = Some p \<and> p_state p = Runnable \<and> p_id p = pid)"

lemma waits_for_simps [simp]:
  "waits_for Runnable = None" "waits_for Finished = None" "waits_for (WaitingForReply a b) = Some a"
  "waits_for (WaitingForStreamMap a) = Some a" "waits_for (ReadyReply x b) = None" "waits_for (ReadyStreamMap r n) = None"
  by (simp_all add: waits_for_def)

lemma slot_index_inj [simp]: "slot_index a = slot_index b \<longleftrightarrow> a = b"
  by (cases a; cases b) (auto simp: slot_index_def word_unat_eq_iff)

text \<open>
  What one process can become without touching the others' claims: one that does not wait stays
  so or finishes, and owes no more than before.
\<close>

lemma procs_inv_update:
  assumes "procs_inv n ps" "ps i = Some p" "p_id q = p_id p"
    and "waits_for (p_state q) = waits_for (p_state p)"
    and "p_state q \<noteq> Finished \<Longrightarrow> p_state p \<noteq> Finished \<and> set (clients q) \<subseteq> set (clients p) \<and> distinct (clients q)"
  shows "procs_inv n (ps(i := Some q))"
  unfolding procs_inv_def
proof (intro allI impI)
  fix j r assume j: "(ps(i := Some q)) j = Some r"
  have keep: "waiting_on (ps(i := Some q)) c s" if w: "waiting_on ps c s" for c s
  proof (cases "slot_index c = i")
    case True
    then have "waits_for (p_state p) = Some (Userspace s)" using w assms(2) by (auto simp: waiting_on_def)
    with True assms(4) show ?thesis by (auto simp: waiting_on_def)
  next
    case False
    with w show ?thesis by (auto simp: waiting_on_def)
  qed
  show "slot_index (p_id r) = j \<and> 0 < j \<and> j < PROCESS_COUNT \<and> j \<le> unat n \<and>
      (\<forall>s. waits_for (p_state r) = Some (Userspace s) \<longrightarrow> slot_index s < PROCESS_COUNT \<and> slot_index s \<noteq> j) \<and>
      (p_state r \<noteq> Finished \<longrightarrow> distinct (clients r) \<and> (\<forall>c \<in> set (clients r). waiting_on (ps(i := Some q)) c (p_id r)))"
  proof (cases "j = i")
    case True
    then have r: "r = q" using j by simp
    have p: "slot_index (p_id p) = i \<and> 0 < i \<and> i < PROCESS_COUNT \<and> i \<le> unat n \<and>
        (\<forall>s. waits_for (p_state p) = Some (Userspace s) \<longrightarrow> slot_index s < PROCESS_COUNT \<and> slot_index s \<noteq> i) \<and> (p_state p \<noteq> Finished \<longrightarrow>
        distinct (clients p) \<and> (\<forall>c \<in> set (clients p). waiting_on ps c (p_id p)))"
      using assms(1,2) unfolding procs_inv_def by blast
    have "p_state q \<noteq> Finished \<Longrightarrow> distinct (clients q) \<and> (\<forall>c \<in> set (clients q). waiting_on (ps(i := Some q)) c (p_id q))"
      using p assms(3,5) keep by auto
    with p show ?thesis using True r assms(3,4) by (simp del: fun_upd_apply)
  next
    case False
    then have "ps j = Some r" using j by simp
    with assms(1) keep show ?thesis unfolding procs_inv_def by blast
  qed
qed

lemma clients_update [simp]:
  "clients (p\<lparr>p_state := s\<rparr>) = clients p" "clients (p\<lparr>p_page_table := t\<rparr>) = clients p"
  "clients (p\<lparr>p_heap := h\<rparr>) = clients p" "clients (p\<lparr>p_allocated := al\<rparr>) = clients p"
  "clients (p\<lparr>p_virtual_memory_mappings := v\<rparr>) = clients p" "clients (p\<lparr>p_registers := r\<rparr>) = clients p"
  "clients (p\<lparr>p_pc := pc\<rparr>) = clients p"
  by (simp_all add: clients_def)

text \<open>A process that runs is nobody's client.\<close>

lemma runnable_no_client:
  assumes "procs_inv n ps" "ps i = Some p" "waits_for (p_state p) = None" "ps j = Some q" "p_state q \<noteq> Finished"
  shows "p_id p \<notin> set (clients q)"
proof
  assume c: "p_id p \<in> set (clients q)"
  have "slot_index (p_id p) = i" using assms(1,2) unfolding procs_inv_def by blast
  moreover have "waiting_on ps (p_id p) (p_id q)" using assms(1,4,5) c unfolding procs_inv_def by blast
  ultimately show False using assms(2,3) by (auto simp: waiting_on_def)
qed

lemma procs_inv_id: "procs_inv n ps \<Longrightarrow> ps i = Some p \<Longrightarrow> slot_index (p_id p) = i"
  unfolding procs_inv_def by blast

lemma procs_inv_send:
  assumes inv: "procs_inv n ps" and p: "ps i = Some p" "waits_for (p_state p) = None" and q: "ps j = Some q" "i \<noteq> j"
    and p': "p_id p' = p_id p" "clients p' = clients p" "waits_for (p_state p') = Some (Userspace (p_id q))"
      "p_state p \<noteq> Finished"
    and q': "p_id q' = p_id q" "p_state q' = p_state q" "set (clients q') = insert (p_id p) (set (clients q))"
      "distinct (clients q) \<Longrightarrow> p_id p \<notin> set (clients q) \<Longrightarrow> distinct (clients q')"
  shows "procs_inv n (ps(j := Some q', i := Some p'))"
  unfolding procs_inv_def
proof (intro allI impI)
  let ?ps = "ps(j := Some q', i := Some p')"
  fix l r assume l: "?ps l = Some r"
  have pi: "slot_index (p_id p) = i" "slot_index (p_id q) = j" using procs_inv_id [OF inv] p(1) q(1) by blast+
  have keep: "waiting_on ?ps c s" if w: "waiting_on ps c s" for c s
  proof -
    have "slot_index c \<noteq> i" using w p by (auto simp: waiting_on_def)
    with w q q'(2) show ?thesis by (cases "slot_index c = j") (auto simp: waiting_on_def)
  qed
  have old: "0 < m \<and> m < PROCESS_COUNT \<and> m \<le> unat n \<and>
      (\<forall>s. waits_for (p_state x) = Some (Userspace s) \<longrightarrow> slot_index s < PROCESS_COUNT \<and> slot_index s \<noteq> m) \<and> (p_state x \<noteq> Finished \<longrightarrow> distinct (clients x) \<and>
      (\<forall>c \<in> set (clients x). waiting_on ps c (p_id x)))" if "ps m = Some x" for m x
    using inv that unfolding procs_inv_def by blast
  show "slot_index (p_id r) = l \<and> 0 < l \<and> l < PROCESS_COUNT \<and> l \<le> unat n \<and>
      (\<forall>s. waits_for (p_state r) = Some (Userspace s) \<longrightarrow> slot_index s < PROCESS_COUNT \<and> slot_index s \<noteq> l) \<and>
      (p_state r \<noteq> Finished \<longrightarrow> distinct (clients r) \<and> (\<forall>c \<in> set (clients r). waiting_on ?ps c (p_id r)))"
  proof -
    consider "l = i" "r = p'" | "l = j" "r = q'" "l \<noteq> i" | "l \<noteq> i" "l \<noteq> j" "ps l = Some r"
      using l by (auto split: if_splits)
    then show ?thesis
    proof cases
      case 1
      have cl: "\<forall>c \<in> set (clients p). waiting_on ?ps c (p_id p)" using old [OF p(1)] p'(4) keep by blast
      have "\<forall>s. waits_for (p_state p') = Some (Userspace s) \<longrightarrow> slot_index s < PROCESS_COUNT \<and> slot_index s \<noteq> i"
        using p'(3) old [OF q(1)] pi q(2) by (auto simp del: slot_index_inj)
      with 1 pi p' old [OF p(1)] cl show ?thesis by (simp del: fun_upd_apply)
    next
      case 2
      have new: "waiting_on ?ps (p_id p) (p_id q)" using pi p'(3) by (simp add: waiting_on_def)
      have nc: "p_state q \<noteq> Finished \<Longrightarrow> p_id p \<notin> set (clients q)"
        using runnable_no_client [OF inv p q(1)] by blast
      show ?thesis using 2 pi q' old [OF q(1)] keep new nc by auto
    next
      case 3
      with procs_inv_id [OF inv 3(3)] old [OF 3(3)] keep show ?thesis by auto
    qed
  qed
qed

lemma procs_inv_reply:
  assumes inv: "procs_inv n ps" and p: "ps i = Some p" "waits_for (p_state p) = None" "p_state p \<noteq> Finished"
    and q: "ps j = Some q" "i \<noteq> j" "p_id q \<in> set (clients p)"
    and p': "p_id p' = p_id p" "p_state p' = p_state p" "distinct (clients p')" "set (clients p') = set (clients p) - {p_id q}"
    and q': "p_id q' = p_id q" "clients q' = clients q" "waits_for (p_state q') = None" "p_state q \<noteq> Finished"
  shows "procs_inv n (ps(j := Some q', i := Some p'))"
  unfolding procs_inv_def
proof (intro allI impI)
  let ?ps = "ps(j := Some q', i := Some p')"
  fix l r assume l: "?ps l = Some r"
  have pi: "slot_index (p_id p) = i" "slot_index (p_id q) = j" using procs_inv_id [OF inv] p(1) q(1) by blast+
  have old: "0 < m \<and> m < PROCESS_COUNT \<and> m \<le> unat n \<and>
      (\<forall>s. waits_for (p_state x) = Some (Userspace s) \<longrightarrow> slot_index s < PROCESS_COUNT \<and> slot_index s \<noteq> m) \<and> (p_state x \<noteq> Finished \<longrightarrow> distinct (clients x) \<and>
      (\<forall>c \<in> set (clients x). waiting_on ps c (p_id x)))" if "ps m = Some x" for m x
    using inv that unfolding procs_inv_def by blast
  have "waiting_on ps (p_id q) (p_id p)" using old [OF p(1)] p(3) q(3) by blast
  then have mine: "waits_for (p_state q) = Some (Userspace (p_id p))" using pi q(1) by (simp add: waiting_on_def)
  have keep: "waiting_on ?ps c s" if w: "waiting_on ps c s" "c \<noteq> p_id q" for c s
  proof -
    have "slot_index c \<noteq> i" using w(1) p by (auto simp: waiting_on_def)
    moreover have "slot_index c \<noteq> j" using w(2) pi(2) slot_index_inj by metis
    ultimately show ?thesis using w(1) by (simp add: waiting_on_def)
  qed
  have other: "p_id q \<notin> set (clients x)" if x: "ps m = Some x" "m \<noteq> i" "p_state x \<noteq> Finished" for m x
  proof
    assume "p_id q \<in> set (clients x)"
    then have "waiting_on ps (p_id q) (p_id x)" using old [OF x(1)] x(3) by blast
    then have "p_id x = p_id p" using mine pi q(1) by (simp add: waiting_on_def)
    then show False using procs_inv_id [OF inv x(1)] pi(1) x(2) by simp
  qed
  show "slot_index (p_id r) = l \<and> 0 < l \<and> l < PROCESS_COUNT \<and> l \<le> unat n \<and>
      (\<forall>s. waits_for (p_state r) = Some (Userspace s) \<longrightarrow> slot_index s < PROCESS_COUNT \<and> slot_index s \<noteq> l) \<and>
      (p_state r \<noteq> Finished \<longrightarrow> distinct (clients r) \<and> (\<forall>c \<in> set (clients r). waiting_on ?ps c (p_id r)))"
  proof -
    consider "l = i" "r = p'" | "l = j" "r = q'" "l \<noteq> i" | "l \<noteq> i" "l \<noteq> j" "ps l = Some r"
      using l by (auto split: if_splits)
    then show ?thesis
    proof cases
      case 1
      with pi p' old [OF p(1)] p(3) keep show ?thesis by auto
    next
      case 2
      with pi q' old [OF q(1)] keep other [OF q(1)] q(2) show ?thesis by auto
    next
      case 3
      have "c \<noteq> p_id q" if "p_state r \<noteq> Finished" "c \<in> set (clients r)" for c
        using other [OF 3(3,1)] that by blast
      with 3 procs_inv_id [OF inv 3(3)] old [OF 3(3)] keep show ?thesis by auto
    qed
  qed
qed

lemma procs_inv_new:
  assumes inv: "procs_inv n ps" and p: "slot_index (p_id p) = i" "0 < i" "i = unat n'" "unat n' = unat n + 1" "clients p = []"
      "i < PROCESS_COUNT" "waits_for (p_state p) = None"
  shows "procs_inv n' (ps(i := Some p))"
  unfolding procs_inv_def
proof (intro allI impI)
  fix l r assume l: "(ps(i := Some p)) l = Some r"
  have "ps i = None"
  proof (rule ccontr)
    assume "ps i \<noteq> None"
    then obtain x where "ps i = Some x" by blast
    then have "i \<le> unat n" using inv unfolding procs_inv_def by blast
    with p show False by simp
  qed
  then have keep: "waiting_on (ps(i := Some p)) c s" if "waiting_on ps c s" for c s
    using that by (auto simp: waiting_on_def)
  show "slot_index (p_id r) = l \<and> 0 < l \<and> l < PROCESS_COUNT \<and> l \<le> unat n' \<and>
      (\<forall>s. waits_for (p_state r) = Some (Userspace s) \<longrightarrow> slot_index s < PROCESS_COUNT \<and> slot_index s \<noteq> l) \<and>
      (p_state r \<noteq> Finished \<longrightarrow> distinct (clients r) \<and> (\<forall>c \<in> set (clients r). waiting_on (ps(i := Some p)) c (p_id r)))"
  proof (cases "l = i")
    case True
    with l p show ?thesis by simp
  next
    case False
    then have "ps l = Some r" using l by simp
    with inv keep p(4) show ?thesis unfolding procs_inv_def by fastforce
  qed
qed

lemma procs_inv_finish:
  assumes inv: "procs_inv n ps" and p: "ps i = Some p" "waits_for (p_state p) = Some (Userspace s)"
    and s: "\<And>q. ps (slot_index s) = Some q \<Longrightarrow> p_state q = Finished"
  shows "procs_inv n (ps(i := Some (p\<lparr>p_state := Finished\<rparr>)))"
  unfolding procs_inv_def
proof (intro allI impI)
  let ?ps = "ps(i := Some (p\<lparr>p_state := Finished\<rparr>))"
  fix l r assume l: "?ps l = Some r"
  show "slot_index (p_id r) = l \<and> 0 < l \<and> l < PROCESS_COUNT \<and> l \<le> unat n \<and>
      (\<forall>s. waits_for (p_state r) = Some (Userspace s) \<longrightarrow> slot_index s < PROCESS_COUNT \<and> slot_index s \<noteq> l) \<and>
      (p_state r \<noteq> Finished \<longrightarrow> distinct (clients r) \<and> (\<forall>c \<in> set (clients r). waiting_on ?ps c (p_id r)))"
  proof (cases "l = i")
    case True
    with l inv p(1) show ?thesis unfolding procs_inv_def by auto
  next
    case False
    then have r: "ps l = Some r" using l by simp
    have "slot_index c \<noteq> i" if "p_state r \<noteq> Finished" "waiting_on ps c (p_id r)" for c
    proof
      assume "slot_index c = i"
      then have "s = p_id r" using that(2) p by (simp add: waiting_on_def)
      then have "ps (slot_index s) = Some r" using procs_inv_id [OF inv r] r by simp
      from s [OF this] that(1) show False by simp
    qed
    then have "waiting_on ?ps c (p_id r)" if "p_state r \<noteq> Finished" "waiting_on ps c (p_id r)" for c
      using that by (simp add: waiting_on_def)
    with inv r show ?thesis unfolding procs_inv_def by blast
  qed
qed

lemma procs_inv_remove:
  assumes inv: "procs_inv n ps" and p: "ps i = Some p" "p_state p = Finished"
  shows "procs_inv n (ps(i := None))"
  unfolding procs_inv_def
proof (intro allI impI)
  fix l r assume l: "(ps(i := None)) l = Some r"
  have "waiting_on (ps(i := None)) c s" if "waiting_on ps c s" for c s
    using that p by (cases "slot_index c = i") (auto simp: waiting_on_def)
  with inv l show "slot_index (p_id r) = l \<and> 0 < l \<and> l < PROCESS_COUNT \<and> l \<le> unat n \<and>
      (\<forall>s. waits_for (p_state r) = Some (Userspace s) \<longrightarrow> slot_index s < PROCESS_COUNT \<and> slot_index s \<noteq> l) \<and>
      (p_state r \<noteq> Finished \<longrightarrow> distinct (clients r) \<and> (\<forall>c \<in> set (clients r). waiting_on (ps(i := None)) c (p_id r)))"
    unfolding procs_inv_def by (auto split: if_splits)
qed

subsection \<open>The scan\<close>

text \<open>A kernel with free mutexes, or one with the mutex of a process that was found.\<close>

definition locked_at :: "'d kernel \<Rightarrow> usize set \<Rightarrow> bool" where
  "locked_at k l \<longleftrightarrow> slots k = PROCESS_COUNT \<and> locks k = l \<and> procs_inv (k_reserved k) (procs k)"

lemma inspect_can_progress_Some:
  assumes "inspect_can_progress k p = Some p'" "procs_inv n (procs k)" "procs k i = Some p"
  shows "p' = p \<or> (p' = p\<lparr>p_state := Finished\<rparr> \<and> procs_inv n ((procs k)(i := Some p')))"
proof (cases "\<exists>s. waits_for (p_state p) = Some (Userspace s)")
  case True
  then obtain s where s: "waits_for (p_state p) = Some (Userspace s)" by blast
  then obtain k1 r where r: "lock_slot k (slot_index s) = Some (k1, r)"
    and p': "p' = (case r of None \<Rightarrow> p\<lparr>p_state := Finished\<rparr>
           | Some q \<Rightarrow> if p_state q = Finished then p\<lparr>p_state := Finished\<rparr> else p)"
    using assms(1) by (auto simp: inspect_can_progress_def get_process_def run_Some)
  show ?thesis
  proof (cases "p' = p")
    case False
    then have "p' = p\<lparr>p_state := Finished\<rparr>" "\<And>q. procs k (slot_index s) = Some q \<Longrightarrow> p_state q = Finished"
      using p' lock_slot_Some(3) [OF r] by (auto split: option.splits if_splits)
    with procs_inv_finish [OF assms(2,3) s] show ?thesis by blast
  qed simp
next
  case False
  with assms(1) show ?thesis by (auto simp: inspect_can_progress_def split: option.splits actor.splits)
qed

lemma is_ready_simps [simp]:
  "is_ready Runnable" "is_ready (ReadyReply a b)" "is_ready (ReadyStreamMap c n)"
  "\<not> is_ready Finished" "\<not> is_ready (WaitingForReply w b)" "\<not> is_ready (WaitingForStreamMap w)"
  by (simp_all add: is_ready_def)

lemma is_ready_waits: "is_ready s \<Longrightarrow> waits_for s = None \<and> s \<noteq> Finished"
  by (cases s) simp_all

lemma scan_slot_Some:
  assumes k: "locked_at k {}" and sc: "scan_slot k i = Some (k', r)"
  shows "case r of
      None \<Rightarrow> locked_at k' {} \<and> (\<forall>p. procs k i = Some p \<longrightarrow> \<not> is_ready (p_state p))
    | Some p \<Rightarrow> locked_at k' {i} \<and> procs k' = procs k \<and> procs k i = Some p \<and> is_ready (p_state p)"
    "\<And>j. j \<noteq> i \<Longrightarrow> procs k' j = procs k j" "k_store k' = k_store k"
proof -
  obtain k1 r1 where l: "lock_slot k i = Some (k1, r1)" using sc by (auto simp: scan_slot_def run_Some)
  note ls = lock_slot_Some [OF l]
  have inv: "procs_inv (k_reserved k) (procs k)" "slots k = PROCESS_COUNT" "locks k = {}" using k by (auto simp: locked_at_def)
  have "(case r of
      None \<Rightarrow> locked_at k' {} \<and> (\<forall>p. procs k i = Some p \<longrightarrow> \<not> is_ready (p_state p))
    | Some p \<Rightarrow> locked_at k' {i} \<and> procs k' = procs k \<and> procs k i = Some p \<and> is_ready (p_state p)) \<and>
    (\<forall>j. j \<noteq> i \<longrightarrow> procs k' j = procs k j) \<and> k_store k' = k_store k"
  proof (cases r1)
    case None
    then have "r = None" "k' = k1" using sc l by (auto simp: scan_slot_def)
    with None ls inv show ?thesis by (auto simp: locked_at_def)
  next
    case (Some p)
    then obtain p1 where p1: "inspect_can_progress k1 p = Some p1" using sc l by (auto simp: scan_slot_def run_Some)
    have pk: "procs k i = Some p" using ls(3) Some by simp
    then have pi: "procs k1 i = Some p" using ls(4) by simp
    have ins: "p1 = p \<or> (p1 = p\<lparr>p_state := Finished\<rparr> \<and> procs_inv (k_reserved k) ((procs k)(i := Some p1)))"
      using inspect_can_progress_Some [OF p1 _ pi] inv(1) ls by auto
    show ?thesis
    proof (cases "is_ready (p_state p1)")
      case True
      then have "p1 = p" using ins by auto
      moreover have "r = Some p1" "k' = k1" using sc l Some p1 True by (auto simp: scan_slot_def)
      ultimately show ?thesis using True ls(4,5,6,7,8) inv pk Some by (simp add: locked_at_def)
    next
      case False
      let ?k2 = "drop_slot k1 i (Some p1)"
      have upd: "procs_inv (k_reserved k) ((procs k)(i := Some p1))"
        using ins inv(1) pi ls by (auto simp: fun_upd_idem)
      have nr: "\<forall>p. procs k i = Some p \<longrightarrow> \<not> is_ready (p_state p) \<or> p1 \<noteq> p" using False by auto
      have notready: "\<not> is_ready (p_state p)"
      proof
        assume rd: "is_ready (p_state p)"
        then have "waits_for (p_state p) = None" using is_ready_waits by blast
        then have "p1 = p" using p1 by (simp add: inspect_can_progress_def)
        with False rd show False by simp
      qed
      show ?thesis
      proof (cases "p_state p1 = Finished")
        case True
        then obtain k3 where k3: "set_slot ?k2 i None = Some k3" "r = None" "k' = k3"
          using sc l Some p1 False by (auto simp: scan_slot_def run_Some)
        note s3 = set_slot_Some [OF k3(1)]
        have "procs k3 = (procs k)(i := None)" using s3(3) ls by simp
        moreover have "procs_inv (k_reserved k) ((procs k)(i := None))"
          using procs_inv_remove [OF upd, of i p1] True by simp
        ultimately show ?thesis using k3 s3 ls inv notready pi by (auto simp: locked_at_def)
      next
        case nf: False
        then have "r = None" "k' = ?k2" using sc l Some p1 False by (auto simp: scan_slot_def)
        then show ?thesis using upd ls inv notready pi Some by (auto simp: locked_at_def)
      qed
    qed
  qed
  then show "case r of
      None \<Rightarrow> locked_at k' {} \<and> (\<forall>p. procs k i = Some p \<longrightarrow> \<not> is_ready (p_state p))
    | Some p \<Rightarrow> locked_at k' {i} \<and> procs k' = procs k \<and> procs k i = Some p \<and> is_ready (p_state p)"
    "\<And>j. j \<noteq> i \<Longrightarrow> procs k' j = procs k j" "k_store k' = k_store k" by blast+
qed

lemma scan_slots_Some:
  assumes "locked_at k {}" "distinct is" "scan_slots k is = Some (k', r)"
  shows "k_store k' = k_store k \<and> (\<forall>j. j \<notin> set is \<longrightarrow> procs k' j = procs k j) \<and>
    (case r of
      None \<Rightarrow> locked_at k' {} \<and> (\<forall>i \<in> set is. \<forall>p. procs k i = Some p \<longrightarrow> \<not> is_ready (p_state p))
    | Some (i, p) \<Rightarrow> locked_at k' {i} \<and> procs k i = Some p \<and> procs k' i = Some p \<and> is_ready (p_state p) \<and>
        (\<exists>before after. is = before @ i # after \<and>
          (\<forall>j \<in> set before. \<forall>q. procs k j = Some q \<longrightarrow> \<not> is_ready (p_state q))))"
  using assms
proof (induction "is" arbitrary: k)
  case (Cons i "is")
  obtain k1 r1 where sc: "scan_slot k i = Some (k1, r1)"
    and rest: "(case r1 of Some p \<Rightarrow> Some (k1, Some (i, p)) | None \<Rightarrow> scan_slots k1 is) = Some (k', r)"
    using Cons.prems(3) by (auto simp: run_Some)
  note s = scan_slot_Some [OF Cons.prems(1) sc]
  show ?case
  proof (cases r1)
    case None
    then have sl: "scan_slots k1 is = Some (k', r)" and l1: "locked_at k1 {}" using rest s(1) by simp_all
    have ih: "k_store k' = k_store k1 \<and> (\<forall>j. j \<notin> set is \<longrightarrow> procs k' j = procs k1 j) \<and>
      (case r of
        None \<Rightarrow> locked_at k' {} \<and> (\<forall>i \<in> set is. \<forall>p. procs k1 i = Some p \<longrightarrow> \<not> is_ready (p_state p))
      | Some (i, p) \<Rightarrow> locked_at k' {i} \<and> procs k1 i = Some p \<and> procs k' i = Some p \<and> is_ready (p_state p) \<and>
        (\<exists>before after. is = before @ i # after \<and>
          (\<forall>j \<in> set before. \<forall>q. procs k1 j = Some q \<longrightarrow> \<not> is_ready (p_state q))))"
      by (rule Cons.IH [OF l1 _ sl]) (use Cons.prems(2) in simp)
    have nr: "\<forall>p. procs k i = Some p \<longrightarrow> \<not> is_ready (p_state p)" using s(1) None by simp
    have same: "procs k1 j = procs k j" if "j \<in> set is" for j using s(2) [of j] Cons.prems(2) that by auto
    show ?thesis
    proof (cases r)
      case None
      with ih nr same s(2,3) show ?thesis by auto
    next
      case (Some x)
      obtain j p where x: "x = (j, p)" by (cases x)
      then obtain before after where ba: "is = before @ j # after" "\<forall>j \<in> set before. \<forall>q. procs k1 j = Some q \<longrightarrow> \<not> is_ready (p_state q)"
        and j: "locked_at k' {j}" "procs k1 j = Some p" "procs k' j = Some p" "is_ready (p_state p)"
        using ih Some by auto
      have "\<forall>l \<in> set (i # before). \<forall>q. procs k l = Some q \<longrightarrow> \<not> is_ready (p_state q)"
        using nr ba same by auto
      moreover have "i # is = (i # before) @ j # after" using ba(1) by simp
      ultimately have ex: "\<exists>before after. i # is = before @ j # after \<and>
          (\<forall>l \<in> set before. \<forall>q. procs k l = Some q \<longrightarrow> \<not> is_ready (p_state q))" by blast
      have "procs k j = Some p" using same [of j] ba(1) j(2) by simp
      moreover have "procs k' l = procs k l" if "l \<notin> set (i # is)" for l
        using ih s(2) [of l] that by auto
      moreover have "k_store k' = k_store k" using ih s(3) by simp
      ultimately show ?thesis unfolding Some x by (simp only: option.case prod.case j ex) blast
    qed
  next
    case (Some p)
    then have "r = Some (i, p)" "k' = k1" using rest by simp_all
    moreover have "\<exists>before after. i # is = before @ i # after \<and>
        (\<forall>j \<in> set before. \<forall>q. procs k j = Some q \<longrightarrow> \<not> is_ready (p_state q))"
      by (intro exI [of _ "[]"] exI [of _ "is"]) simp
    ultimately show ?thesis using s Some by auto
  qed
qed simp

text \<open>The scan finishes processes, it starts none.\<close>

definition unfinished :: "'d kernel \<Rightarrow> usize set" where
  "unfinished k = {i. \<exists>p. procs k i = Some p \<and> p_state p \<noteq> Finished}"

lemma unfinished_bound: "unfinished k \<subseteq> {..<slots k}"
  by (auto simp: unfinished_def procs_def slots_def split: if_splits)

lemma card_unfinished: "card (unfinished k) \<le> slots k"
  using card_mono [OF _ unfinished_bound [of k]] by simp

lemma inspect_unfinished: "inspect_can_progress k p = Some p' \<Longrightarrow> p' = p \<or> p_state p' = Finished"
  by (auto simp: inspect_can_progress_def run_Some split: option.splits actor.splits if_splits)

lemma scan_slot_unfinished:
  assumes "scan_slot k i = Some (k', r)"
  shows "unfinished k' \<subseteq> unfinished k"
proof -
  obtain k1 r1 where l: "lock_slot k i = Some (k1, r1)" using assms by (auto simp: scan_slot_def run_Some)
  note ls = lock_slot_Some [OF l]
  show ?thesis
  proof (cases r1)
    case None
    with assms l ls show ?thesis by (simp add: scan_slot_def unfinished_def)
  next
    case (Some p)
    then obtain p1 where p1: "inspect_can_progress k1 p = Some p1" using assms l by (auto simp: scan_slot_def run_Some)
    have pk: "procs k i = Some p" using ls(3) Some by simp
    have upd: "procs (drop_slot k1 i (Some p1)) = (procs k)(i := Some p1)" using ls by simp
    show ?thesis
    proof (cases "is_ready (p_state p1)")
      case True
      with assms l Some p1 ls show ?thesis by (simp add: scan_slot_def unfinished_def)
    next
      case False
      show ?thesis
      proof (cases "p_state p1 = Finished")
        case True
        with assms l Some p1 False obtain k3 where "set_slot (drop_slot k1 i (Some p1)) i None = Some k3" "k' = k3"
          by (auto simp: scan_slot_def run_Some)
        with set_slot_Some(3) upd have "procs k' = (procs k)(i := None)" by fastforce
        then show ?thesis by (auto simp: unfinished_def split: if_splits)
      next
        case nf: False
        with assms l Some p1 False have "k' = drop_slot k1 i (Some p1)" by (simp add: scan_slot_def)
        moreover have "p1 = p" using inspect_unfinished [OF p1] nf by blast
        ultimately show ?thesis using upd pk by (auto simp: unfinished_def split: if_splits)
      qed
    qed
  qed
qed

lemma scan_slots_unfinished: "scan_slots k is = Some (k', r) \<Longrightarrow> unfinished k' \<subseteq> unfinished k"
proof (induction "is" arbitrary: k)
  case (Cons i "is")
  then obtain k1 r1 where sc: "scan_slot k i = Some (k1, r1)"
    and rest: "(case r1 of Some p \<Rightarrow> Some (k1, Some (i, p)) | None \<Rightarrow> scan_slots k1 is) = Some (k', r)"
    by (auto simp: run_Some)
  with scan_slot_unfinished [OF sc] Cons.IH [of k1] show ?case by (cases r1) auto
qed simp

subsection \<open>Resuming and scheduling\<close>

lemma resume_process_ok:
  assumes k: "locked_at k {i}" "procs k i = Some p" "is_ready (p_state p)"
    and r: "resume_process env k i p u = Some (k', u', e)"
  shows "locked_at k' {} \<and> ctx_pid u' = Some (p_id p) \<and>
    (case e of Inl _ \<Rightarrow> procs k' = procs k
      | Inr _ \<Rightarrow> \<exists>q. procs k' = (procs k)(i := Some q) \<and> p_id q = p_id p \<and> p_state q = Runnable)"
proof -
  have inv: "procs_inv (k_reserved k) (procs k)" "slots k = PROCESS_COUNT" "locks k = {i}" using k(1) by (auto simp: locked_at_def)
  have i: "i < slots k" using k(2) by (auto simp: procs_def slots_def split: if_splits)
  have w: "waits_for (p_state p) = None" "p_state p \<noteq> Finished" using k(3) is_ready_waits by blast+
  have dist: "distinct (clients p)" using inv(1) k(2) w(2) unfolding procs_inv_def by blast
  have upd: "procs_inv (k_reserved k) ((procs k)(i := Some q))"
    if "p_id q = p_id p" "p_state q = Runnable" "clients q = clients p" for q
    by (rule procs_inv_update [OF inv(1) k(2)]) (use that w dist in auto)
  have run: "locked_at (drop_slot k2 i (Some q)) {} \<and>
      (\<exists>q'. procs (drop_slot k2 i (Some q)) = (procs k)(i := Some q') \<and> p_id q' = p_id p \<and> p_state q' = Runnable)"
    if "p_id q = p_id p" "p_state q = Runnable" "clients q = clients p" "procs k2 = procs k" "slots k2 = slots k"
      "locks k2 = locks k" "k_reserved k2 = k_reserved k" for q k2
    using that upd [OF that(1-3)] inv i by (auto simp: locked_at_def)
  have same: "(procs k)(i := Some p) = procs k" using k(2) by (simp add: fun_upd_idem)
  have mem: "procs (set_memory k m) = procs k" "slots (set_memory k m) = slots k" "locks (set_memory k m) = locks k"
    "k_reserved (set_memory k m) = k_reserved k" for m by simp_all
  show ?thesis
  proof (cases "p_state p")
    case Runnable
    with r have e: "k' = drop_slot k i (Some p)" "e = Inr ()" "ctx_pid u' = Some (p_id p)"
      by (auto simp: resume_process_def set_userspace_process_def)
    with run [of p k] Runnable show ?thesis by simp
  next
    case (ReadyReply reply buf)
    with r obtain m w where mw: "write_to_user (p_page_table p) (k_memory k) buf reply = Some (m, w)"
      by (auto simp: resume_process_def run_Some Let_def)
    show ?thesis
    proof (cases w)
      case (Inl x)
      with r ReadyReply mw have "k' = drop_slot k i (Some p)" "e = Inl (ErrSliceTooSmall x)" "ctx_pid u' = Some (p_id p)"
        by (auto simp: resume_process_def set_userspace_process_def Let_def)
      with inv i same show ?thesis by (simp add: locked_at_def)
    next
      case (Inr x)
      let ?q = "p\<lparr>p_registers := (p_registers p)(A0 := length reply), p_state := Runnable\<rparr>"
      from Inr r ReadyReply mw have "k' = drop_slot (set_memory k m) i (Some ?q)" "e = Inr ()" "ctx_pid u' = Some (p_id p)"
        by (auto simp: resume_process_def set_userspace_process_def Let_def)
      with run [of ?q "set_memory k m"] show ?thesis by simp
    qed
  next
    case (ReadyStreamMap ring n)
    with r obtain handler len l h a where
      st: "store_handler (k_store k) (local_index ring) = Some handler" "shared_memory_size (k_store k) handler = Some len"
        "layout_from_size_align len PAGE_SIZE = Some l" "buddy_alloc (p_heap p) l = Some (h, a)"
      by (auto simp: resume_process_def run_Some Let_def simp del: layout_from_size_align_Some)
    with r ReadyStreamMap obtain virt where "a = Inr virt"
      by (cases a) (auto simp: resume_process_def Let_def simp del: layout_from_size_align_Some)
    with r ReadyStreamMap st obtain t v m where "k' = drop_slot k i (Some (p\<lparr>p_heap := h, p_page_table := t, p_virtual_memory_mappings := v,
        p_registers := m, p_state := Runnable\<rparr>))" "e = Inr ()" "ctx_pid u' = Some (p_id p)"
      by (auto simp: resume_process_def set_userspace_process_def run_Some Let_def simp del: layout_from_size_align_Some)
    with run [of "p\<lparr>p_heap := h, p_page_table := t, p_virtual_memory_mappings := v, p_registers := m, p_state := Runnable\<rparr>" k]
    show ?thesis by simp
  qed (use k(3) in simp_all)
qed

lemma kill_manual_ok:
  assumes k: "locked_at k {}" "kill_manual k u = Some k'"
    and w: "\<forall>pid p. ctx_pid u = Some pid \<longrightarrow> procs k (slot_index pid) = Some p \<longrightarrow> waits_for (p_state p) = None"
  shows "locked_at k' {} \<and> (\<exists>pid p. ctx_pid u = Some pid \<and> procs k (slot_index pid) = Some p \<and>
    procs k' = (procs k)(slot_index pid := Some (p\<lparr>p_state := Finished\<rparr>)))"
proof -
  obtain k1 p where u: "user_process k u = Some (k1, p)" "k' = drop_user k1 u (p\<lparr>p_state := Finished\<rparr>)"
    using k(2) by (auto simp: kill_manual_def run_Some)
  obtain pid where pid: "ctx_pid u = Some pid" "slot_index pid < slots k" "procs k (slot_index pid) = Some p"
    "procs k1 = procs k" "locks k1 = insert (slot_index pid) (locks k)" "slots k1 = slots k" "k_reserved k1 = k_reserved k"
    using user_process_Some [OF u(1)] by blast
  have inv: "procs_inv (k_reserved k) (procs k)" using k(1) by (simp add: locked_at_def)
  have "procs_inv (k_reserved k) ((procs k)(slot_index pid := Some (p\<lparr>p_state := Finished\<rparr>)))"
    by (rule procs_inv_update [OF inv pid(3)]) (use w pid(1,3) in auto)
  with pid u(2) k(1) show ?thesis by (auto simp: drop_user_def locked_at_def)
qed

lemma mod_shift_inj:
  fixes s x y n :: nat
  assumes "(s + x) mod n = (s + y) mod n" "x < n" "y < n"
  shows "x = y"
proof -
  have "s + x = n * ((s + x) div n) + (s + y) mod n" "s + y = n * ((s + y) div n) + (s + y) mod n"
    using mult_div_mod_eq [of n "s + x"] mult_div_mod_eq [of n "s + y"] assms(1) by simp_all
  then have e: "x + n * ((s + y) div n) = y + n * ((s + x) div n)" by linarith
  have "\<not> a < b" if "x + n * b = y + n * a" "y < n" for a b x y :: nat
  proof
    assume "a < b"
    then have "n * Suc a \<le> n * b" by (intro mult_le_mono2) simp
    with that show False by simp
  qed
  from this [OF e assms(3)] this [OF e [symmetric] assms(2)] have "(s + x) div n = (s + y) div n" by linarith
  with e show ?thesis by simp
qed

lemma scan_order_distinct: "distinct (scan_order pid)"
proof -
  have "inj_on (\<lambda>k. (s + k) mod PROCESS_COUNT) {0..<PROCESS_COUNT}" for s
    by (rule inj_onI) (auto intro: mod_shift_inj)
  then show ?thesis unfolding scan_order_def Let_def distinct_map by simp
qed

lemma scan_order_all: "set (scan_order pid) = {..<PROCESS_COUNT}"
proof -
  have "set (scan_order pid) \<subseteq> {..<PROCESS_COUNT}" by (auto simp: scan_order_def PROCESS_COUNT_def Let_def)
  moreover have "card (set (scan_order pid)) = card {..<PROCESS_COUNT}"
    using distinct_card [OF scan_order_distinct [of pid]] by (simp add: scan_order_def)
  ultimately show ?thesis by (intro card_subset_eq) simp_all
qed

text \<open>One turn of the scheduler.\<close>

lemma schedule_turn:
  assumes k: "locked_at k {}" and f: "find_runnable_process k u = Some (k1, Some (i, p))"
    and r: "resume_process env k1 i p u = Some (k2, u2, e)"
  shows "locked_at k2 {}" "ctx_pid u2 = Some (p_id p)" "slot_index (p_id p) = i"
    "case e of Inl _ \<Rightarrow> procs k2 i = Some p \<and> is_ready (p_state p) \<and> unfinished k2 \<subseteq> unfinished k
      | Inr _ \<Rightarrow> \<exists>q. procs k2 i = Some q \<and> p_id q = p_id p \<and> p_state q = Runnable"
proof -
  have sc: "scan_slots k (scan_order (ctx_pid u)) = Some (k1, Some (i, p))" using f by (simp add: find_runnable_process_def)
  have s: "locked_at k1 {i}" "procs k1 i = Some p" "is_ready (p_state p)"
    using scan_slots_Some [OF k scan_order_distinct sc] by auto
  note ok = resume_process_ok [OF s r]
  show "locked_at k2 {}" "ctx_pid u2 = Some (p_id p)" using ok by blast+
  show "slot_index (p_id p) = i" using procs_inv_id [of _ "procs k1"] s(1,2) by (auto simp: locked_at_def)
  show "case e of Inl _ \<Rightarrow> procs k2 i = Some p \<and> is_ready (p_state p) \<and> unfinished k2 \<subseteq> unfinished k
      | Inr _ \<Rightarrow> \<exists>q. procs k2 i = Some q \<and> p_id q = p_id p \<and> p_state q = Runnable"
    using ok s scan_slots_unfinished [OF sc] by (auto simp: unfinished_def split: sum.splits)
qed

lemma schedule_ok:
  assumes "locked_at k {}" "schedule_userspace fuel env k u = Some (Resumed k' u')"
  shows "locked_at k' {} \<and> user_runs k' u'"
  using assms
proof (induction fuel env k u rule: schedule_userspace.induct)
  case (2 fuel env k u)
  obtain k1 i p where f: "find_runnable_process k u = Some (k1, Some (i, p))"
    using 2(3) by (auto simp: run_Some split: option.splits)
  then obtain k2 u2 e where r: "resume_process env k1 i p u = Some (k2, u2, e)"
    using 2(3) by (auto simp: run_Some split: option.splits)
  note t = schedule_turn [OF 2(2) f r]
  show ?case
  proof (cases e)
    case (Inr x)
    with 2(3) f r have "k' = k2" "u' = u2" by auto
    with t Inr show ?thesis by (auto simp: user_runs_def)
  next
    case (Inl x)
    then obtain k3 where k3: "kill_manual k2 u2 = Some k3" "schedule_userspace fuel env k3 u2 = Some (Resumed k' u')"
      using 2(3) f r by (auto simp: run_Some)
    have w: "\<forall>pid q. ctx_pid u2 = Some pid \<longrightarrow> procs k2 (slot_index pid) = Some q \<longrightarrow> waits_for (p_state q) = None"
      using t Inl is_ready_waits by auto
    have "locked_at k3 {}" using kill_manual_ok [OF t(1) k3(1) w] by blast
    from 2(1) [OF f refl refl refl r refl refl Inl k3(1) this k3(2)] show ?thesis by simp
  qed
qed simp

lemma schedule_enough:
  assumes "locked_at k {}" "card (unfinished k) < fuel"
  shows "schedule_userspace fuel env k u \<noteq> Some OutOfFuel"
  using assms
proof (induction fuel env k u rule: schedule_userspace.induct)
  case (2 fuel env k u)
  show ?case
  proof
    assume out: "schedule_userspace (Suc fuel) env k u = Some OutOfFuel"
    then obtain k1 i p where f: "find_runnable_process k u = Some (k1, Some (i, p))"
      by (auto simp: run_Some split: option.splits)
    then obtain k2 u2 e where re: "resume_process env k1 i p u = Some (k2, u2, e)"
      using out by (auto simp: run_Some)
    then obtain x where "e = Inl x" using out f by (cases e) auto
    then have r: "resume_process env k1 i p u = Some (k2, u2, Inl x)" using re by simp
    then obtain k3 where k3: "kill_manual k2 u2 = Some k3" "schedule_userspace fuel env k3 u2 = Some OutOfFuel"
      using out f by (auto simp: run_Some)
    note t = schedule_turn [OF 2(2) f r]
    have w: "\<forall>pid q. ctx_pid u2 = Some pid \<longrightarrow> procs k2 (slot_index pid) = Some q \<longrightarrow> waits_for (p_state q) = None"
      using t is_ready_waits by auto
    have ok: "locked_at k3 {} \<and> procs k3 = (procs k2)(i := Some (p\<lparr>p_state := Finished\<rparr>))"
      using kill_manual_ok [OF t(1) k3(1) w] t(2,3,4) by auto
    have "unfinished k3 \<subseteq> unfinished k2 - {i}" using ok by (auto simp: unfinished_def split: if_splits)
    moreover have "i \<in> unfinished k2" using t(4) is_ready_waits by (auto simp: unfinished_def)
    moreover have fin: "finite (unfinished k)" using finite_subset [OF unfinished_bound] by simp
    moreover have "unfinished k2 \<subseteq> unfinished k" using t(4) by simp
    ultimately have "unfinished k3 \<subset> unfinished k" by blast
    then have "card (unfinished k3) < card (unfinished k)" using psubset_card_mono [OF fin] by blast
    then have "card (unfinished k3) < fuel" using 2(3) by simp
    with 2(1) [OF f refl refl refl r refl refl refl k3(1)] ok k3(2) show False by blast
  qed
qed simp

end
