(* ===== verification/Kernel_Safe.thy ===== *)
theory Kernel_Safe
  imports Kernel_Correct
begin

text \<open>
  The invariant of the kernel is kept by every system call, every trap and every choice of the
  scheduler, whatever the users do in between.
\<close>

subsection \<open>Inside a system call\<close>

text \<open>The guard \<open>p\<close> of the current process is held: the state \<open>k\<close> of the kernel under the call.\<close>

definition in_call :: "user_ctx \<Rightarrow> process_id \<Rightarrow> nat process \<Rightarrow> 'd kernel \<Rightarrow> bool" where
  "in_call u pid p k \<longleftrightarrow> locked_at k {slot_index pid} \<and> ctx_pid u = Some pid \<and> procs k (slot_index pid) = Some p \<and>
     p_state p = Runnable \<and> p_id p = pid"

text \<open>What a call leaves behind.\<close>

definition call_ok :: "'d kernel \<Rightarrow> user_ctx \<Rightarrow> (syscall_action + 'a) \<Rightarrow> bool" where
  "call_ok k u res \<longleftrightarrow> locked_at k {} \<and>
     (\<exists>pid p. ctx_pid u = Some pid \<and> procs k (slot_index pid) = Some p \<and> p_id p = pid \<and>
       (res \<noteq> Inl Yield \<longrightarrow> p_state p = Runnable))"

lemma kernel_inv_locked: "kernel_inv k \<longleftrightarrow> locked_at k {}"
  by (simp add: kernel_inv_def locked_at_def)

lemma in_call_start:
  assumes "locked_at k {}" "user_runs k u" "user_process k u = Some (k1, p)"
  shows "in_call u (p_id p) p k1 \<and> k_store k1 = k_store k \<and> procs k1 = procs k"
  using user_process_Some [OF assms(3)] assms(1,2) by (auto simp: in_call_def locked_at_def user_runs_def)

lemma in_call_bound: "in_call u pid p k \<Longrightarrow> slot_index pid < slots k"
  by (auto simp: in_call_def procs_def slots_def split: if_splits)

lemma drop_user_eq: "in_call u pid p k \<Longrightarrow> drop_user k2 u q = drop_slot k2 (slot_index pid) (Some q)"
  by (simp add: in_call_def drop_user_def)

text \<open>A kernel that differs in memory, handlers or log only.\<close>

definition same_procs :: "'d kernel \<Rightarrow> 'd kernel \<Rightarrow> bool" where
  "same_procs k k2 \<longleftrightarrow> procs k2 = procs k \<and> locks k2 = locks k \<and> slots k2 = slots k \<and> k_reserved k2 = k_reserved k"

lemma same_procs_simps [simp]:
  "same_procs k k" "same_procs k (k\<lparr>k_store := st\<rparr>)" "same_procs k (k\<lparr>k_log := l\<rparr>)" "same_procs k (set_memory k m)"
  by (simp_all add: same_procs_def)

lemma in_call_same: "in_call u pid p k \<Longrightarrow> same_procs k k2 \<Longrightarrow> in_call u pid p k2"
  by (simp add: in_call_def same_procs_def locked_at_def)

lemma locked_same: "locked_at k l \<Longrightarrow> same_procs k k2 \<Longrightarrow> locked_at k2 l"
  by (simp add: same_procs_def locked_at_def)

lemma runs_same: "user_runs k u \<Longrightarrow> same_procs k k2 \<Longrightarrow> user_runs k2 u"
  by (simp add: user_runs_def same_procs_def)

lemma in_call_drop:
  assumes c: "in_call u pid p k" and q: "p_id q = pid" "p_state q = Runnable \<or> p_state q = Finished"
    "set (clients q) \<subseteq> set (clients p)" "distinct (clients p) \<Longrightarrow> distinct (clients q)"
  shows "locked_at (drop_user k u q) {} \<and> procs (drop_user k u q) = (procs k)(slot_index pid := Some q)"
proof -
  have inv: "procs_inv (k_reserved k) (procs k)" "slots k = PROCESS_COUNT" "locks k = {slot_index pid}"
    and p: "procs k (slot_index pid) = Some p" "p_state p = Runnable" "p_id p = pid"
    using c by (auto simp: in_call_def locked_at_def)
  have "distinct (clients p)" using inv(1) p unfolding procs_inv_def by fastforce
  then have "procs_inv (k_reserved k) ((procs k)(slot_index pid := Some q))"
    by (intro procs_inv_update [OF inv(1) p(1)]) (use p q in auto)
  then show ?thesis using inv in_call_bound [OF c] drop_user_eq [OF c, of k q] by (simp add: locked_at_def)
qed

lemma in_call_finish:
  assumes "in_call u pid p k" "p_id q = pid" "p_state q = Runnable \<or> (p_state q = Finished \<and> res = Inl Yield)"
    "set (clients q) \<subseteq> set (clients p)" "distinct (clients p) \<Longrightarrow> distinct (clients q)"
  shows "call_ok (drop_user k u q) u res"
  using in_call_drop [OF assms(1,2) _ assms(4,5)] assms by (auto simp: call_ok_def in_call_def)

lemma kill_ok:
  assumes "in_call u pid p k" "p_id q = pid" "set (clients q) \<subseteq> set (clients p)" "distinct (clients p) \<Longrightarrow> distinct (clients q)"
    and "kill k u q = Some (k', res)"
  shows "call_ok k' u res"
  using in_call_finish [OF assms(1), of "q\<lparr>p_state := Finished\<rparr>" res] assms by (auto simp: kill_def)

lemma kill_user_ok:
  assumes "locked_at k {}" "user_runs k u" "kill_user k u = Some (k', res)"
  shows "call_ok k' u res"
proof -
  obtain k1 p where u: "user_process k u = Some (k1, p)" "kill k1 u p = Some (k', res)"
    using assms(3) by (auto simp: kill_user_def run_Some)
  have "in_call u (p_id p) p k1" using in_call_start [OF assms(1,2) u(1)] by blast
  from kill_ok [OF this _ _ _ u(2)] show ?thesis by simp
qed

lemma call_ok_error: "locked_at k {} \<Longrightarrow> user_runs k u \<Longrightarrow> call_ok k u res"
  by (auto simp: call_ok_def user_runs_def)

subsection \<open>One call at a time\<close>

lemma sys_exit_ok:
  assumes "locked_at k {}" "user_runs k u" "sys_exit k u = Some (k', res)"
  shows "call_ok k' u res"
proof -
  obtain k1 p where u: "user_process k u = Some (k1, p)" "k' = drop_user k1 u (p\<lparr>p_state := Finished\<rparr>)" "res = Inl Yield"
    using assms(3) by (auto simp: sys_exit_def run_Some)
  have "in_call u (p_id p) p k1" using in_call_start [OF assms(1,2) u(1)] by blast
  from in_call_finish [OF this, of "p\<lparr>p_state := Finished\<rparr>" res] u show ?thesis by simp
qed

lemma process_alloc_at_same:
  "process_alloc_at p v b fl = Some q \<Longrightarrow> p_id q = p_id p \<and> p_state q = p_state p \<and> clients q = clients p"
  by (auto simp: process_alloc_at_def run_Some)

lemma process_alloc_same:
  "process_alloc p b fl = Some (q, r) \<Longrightarrow> p_id q = p_id p \<and> p_state q = p_state p \<and> clients q = clients p"
  by (auto simp: process_alloc_def run_cases Let_def dest!: process_alloc_at_same)

lemma process_dealloc_same:
  "process_dealloc p ptr = Some (q, r) \<Longrightarrow> p_id q = p_id p \<and> p_state q = p_state p \<and> clients q = clients p"
  by (auto simp: process_dealloc_def run_cases)

text \<open>The current process changed by an operation that leaves its messages alone.\<close>

lemma call_ok_same:
  assumes "in_call u pid p k" "p_id q = p_id p" "p_state q = p_state p" "clients q = clients p"
  shows "call_ok (drop_user k u q) u res"
  by (rule in_call_finish [OF assms(1)]) (use assms in \<open>auto simp: in_call_def\<close>)

lemma start_store:
  assumes "locked_at k {}" "user_runs k u"
  shows "locked_at (k\<lparr>k_store := st\<rparr>) {}" "user_runs (k\<lparr>k_store := st\<rparr>) u"
  using locked_same [OF assms(1), of "k\<lparr>k_store := st\<rparr>"] runs_same [OF assms(2), of "k\<lparr>k_store := st\<rparr>"] by simp_all

lemma call_ok_store: "call_ok k u res \<Longrightarrow> call_ok (k\<lparr>k_store := st\<rparr>) u res"
  by (auto simp: call_ok_def locked_at_def)

lemma call_ok_res: "call_ok k u (Inr x :: syscall_action + 'a) \<Longrightarrow> call_ok k u (res :: syscall_action + 'b)"
  by (auto simp: call_ok_def)

lemma sys_alloc_ok:
  assumes "locked_at k {}" "user_runs k u" "sys_alloc k u n = Some (k', res)"
  shows "call_ok k' u res"
proof -
  consider (same) "k' = k" | (none) st where "k' = k\<lparr>k_store := st\<rparr>"
    | (some) st k1 p b q v where "user_process (k\<lparr>k_store := st\<rparr>) u = Some (k1, p)"
        "process_alloc p b (flags_user flags_read_write) = Some (q, v)" "k' = drop_user k1 u q"
    using assms(3) by (fastforce simp: sys_alloc_def run_cases Let_def)
  then show ?thesis
  proof cases
    case same
    with assms(1,2) show ?thesis by (auto intro: call_ok_error)
  next
    case none
    with start_store [OF assms(1,2)] show ?thesis by (auto intro: call_ok_error)
  next
    case some
    have "in_call u (p_id p) p k1" using in_call_start [OF start_store [OF assms(1,2)] some(1)] by blast
    from call_ok_same [OF this, of q res] process_alloc_same [OF some(2)] some(3) show ?thesis by simp
  qed
qed

lemma sys_alloc_shared_ok:
  assumes "locked_at k {}" "user_runs k u" "sys_alloc_shared k u n = Some (k', res)"
  shows "call_ok k' u res"
proof -
  obtain st k1 p b q v where s: "user_process (k\<lparr>k_store := st\<rparr>) u = Some (k1, p)"
        "process_alloc p b (flags_user flags_read_write) = Some (q, v)"
        "k' = drop_user k1 u q \<or> (\<exists>st. k' = (drop_user k1 u q)\<lparr>k_store := st\<rparr>)"
    using assms(3) by (fastforce simp: sys_alloc_shared_def run_cases Let_def)
  have "in_call u (p_id p) p k1" using in_call_start [OF start_store [OF assms(1,2)] s(1)] by blast
  from call_ok_same [OF this, of q res] process_alloc_same [OF s(2)] s(3) call_ok_store [of "drop_user k1 u q" u res]
  show ?thesis by auto
qed

lemma sys_free_ok:
  assumes "locked_at k {}" "user_runs k u" "sys_free k u ptr = Some (k', res)"
  shows "call_ok k' u res"
proof -
  obtain k1 p q r where u: "user_process k u = Some (k1, p)" and d: "process_dealloc p (ptr_addr ptr) = Some (q, r)"
    and r: "kill k1 u q = Some (k', res) \<or> k' = drop_user k1 u q"
    using assms(3) by (auto simp: sys_free_def run_cases)
  have c: "in_call u (p_id p) p k1" using in_call_start [OF assms(1,2) u] by blast
  note s = process_dealloc_same [OF d]
  from r show ?thesis
  proof
    assume "kill k1 u q = Some (k', res)"
    from kill_ok [OF c _ _ _ this] s show ?thesis by simp
  next
    assume "k' = drop_user k1 u q"
    with call_ok_same [OF c, of q res] s show ?thesis by simp
  qed
qed

lemma sys_log_ok:
  assumes "locked_at k {}" "user_runs k u" "sys_log k u msg level = Some (k', res)"
  shows "call_ok k' u res"
proof -
  consider "kill_user k u = Some (k', res)"
    | k1 p l where "user_process k u = Some (k1, p)" "k' = drop_user (k1\<lparr>k_log := l\<rparr>) u p"
    using assms(3) by (auto simp: sys_log_def run_cases Let_def)
  then show ?thesis
  proof cases
    case 1
    then show ?thesis by (rule kill_user_ok [OF assms(1,2)])
  next
    case 2
    have c: "in_call u (p_id p) p k1" using in_call_start [OF assms(1,2) 2(1)] by blast
    have "in_call u (p_id p) p (k1\<lparr>k_log := l\<rparr>)" by (rule in_call_same [OF c]) simp
    from call_ok_same [OF this, of p res] 2(2) show ?thesis by simp
  qed
qed

lemma sys_map_shared_ok:
  assumes "locked_at k {}" "user_runs k u" "sys_map_shared k u cap = Some (k', res)"
  shows "call_ok k' u res"
proof -
  obtain k1 p where u: "user_process k u = Some (k1, p)" using assms(3) by (auto simp: sys_map_shared_def run_Some)
  have c: "in_call u (p_id p) p k1" using in_call_start [OF assms(1,2) u] by blast
  consider "kill k1 u p = Some (k', res)"
    | h where "k' = drop_user k1 u (p\<lparr>p_heap := h\<rparr>)"
    | h t v where "k' = drop_user k1 u (p\<lparr>p_heap := h, p_page_table := t, p_virtual_memory_mappings := v\<rparr>)"
    using assms(3) u by (fastforce simp: sys_map_shared_def run_cases Let_def)
  then show ?thesis
  proof cases
    case 1
    from kill_ok [OF c _ _ _ 1] c show ?thesis by (simp add: in_call_def)
  next
    case 2
    with call_ok_same [OF c, of "p\<lparr>p_heap := h\<rparr>" res] show ?thesis by simp
  next
    case 3
    with call_ok_same [OF c, of "p\<lparr>p_heap := h, p_page_table := t, p_virtual_memory_mappings := v\<rparr>" res] show ?thesis by simp
  qed
qed

text \<open>Messages: the clients of the process are the same, or one less.\<close>

lemma clients_receive:
  "p_messages p = m # rest \<Longrightarrow> p_currently_serving p = None \<Longrightarrow>
   set (clients (p\<lparr>p_messages := rest, p_currently_serving := Some (msg_sender m)\<rparr>)) = set (clients p) \<and>
   (distinct (clients (p\<lparr>p_messages := rest, p_currently_serving := Some (msg_sender m)\<rparr>)) \<longleftrightarrow> distinct (clients p))"
  "p_messages p = m # rest \<Longrightarrow> set (clients (p\<lparr>p_messages := rest\<rparr>)) \<subseteq> set (clients p) \<and>
   (distinct (clients p) \<longrightarrow> distinct (clients (p\<lparr>p_messages := rest\<rparr>)))"
  by (auto simp: clients_def split: option.splits)

lemma sys_ipc_receive_ok:
  assumes "locked_at k {}" "user_runs k u" "sys_ipc_receive k u args = Some (k', res)"
  shows "call_ok k' u res"
proof -
  obtain k1 p where u: "user_process k u = Some (k1, p)" using assms(3) by (auto simp: sys_ipc_receive_def run_Some)
  have c: "in_call u (p_id p) p k1" using in_call_start [OF assms(1,2) u] by blast
  consider "kill k1 u p = Some (k', res)" | "k' = drop_user k1 u p"
    | msg rest where "p_messages p = msg # rest" "p_currently_serving p = None" "kill k1 u (p\<lparr>p_messages := rest\<rparr>) = Some (k', res)"
    | msg rest m where "p_messages p = msg # rest" "p_currently_serving p = None"
        "k' = drop_user (set_memory k1 m) u (p\<lparr>p_messages := rest, p_currently_serving := Some (msg_sender msg)\<rparr>)"
    using assms(3) u by (auto simp: sys_ipc_receive_def run_cases Let_def)
  then show ?thesis
  proof cases
    case 1
    from kill_ok [OF c _ _ _ 1] show ?thesis by simp
  next
    case 2
    with call_ok_same [OF c, of p res] show ?thesis by simp
  next
    case 3
    from kill_ok [OF c _ _ _ 3(3)] clients_receive(2) [OF 3(1)] show ?thesis by simp
  next
    case 4
    have "in_call u (p_id p) p (set_memory k1 m)" by (rule in_call_same [OF c]) simp
    from in_call_finish [OF this, of "p\<lparr>p_messages := rest, p_currently_serving := Some (msg_sender msg)\<rparr>" res]
      clients_receive(1) [OF 4(1,2)] c 4(3) show ?thesis by (simp add: in_call_def)
  qed
qed

subsection \<open>Calls that involve two processes\<close>

lemma case_actor_Some:
  "(case x of Userspace p \<Rightarrow> f p | Kernel \<Rightarrow> g) = Some y \<longleftrightarrow> (\<exists>p. x = Userspace p \<and> f p = Some y) \<or> (x = Kernel \<and> g = Some y)"
  by (cases x) auto

lemma two_guards:
  assumes c: "in_call u pid p k1" and d: "get_process k1 dpid = Some (k2, Some d)"
  shows "locks k2 = {slot_index pid, slot_index dpid}" "slot_index pid \<noteq> slot_index dpid" "procs k2 = procs k1"
    "slots k2 = PROCESS_COUNT" "procs k1 (slot_index dpid) = Some d" "p_id d = dpid"
    "procs_inv (k_reserved k2) (procs k2)" "slot_index dpid < slots k2" "slot_index pid < slots k2" "k_store k2 = k_store k1"
proof -
  note l = lock_slot_Some [OF d [unfolded get_process_def]]
  have inv: "procs_inv (k_reserved k1) (procs k1)" "slots k1 = PROCESS_COUNT" "locks k1 = {slot_index pid}"
    using c by (auto simp: in_call_def locked_at_def)
  show dk: "procs k1 (slot_index dpid) = Some d" using l(3) by simp
  show "p_id d = dpid" using procs_inv_id [OF inv(1) dk] by simp
  show "slot_index pid < slots k2" using in_call_bound [OF c] l(6) by simp
  show "locks k2 = {slot_index pid, slot_index dpid}" "slot_index pid \<noteq> slot_index dpid"
    using l(2,5) inv(3) by (auto simp del: slot_index_inj)
  show "procs k2 = procs k1" "slots k2 = PROCESS_COUNT" "procs_inv (k_reserved k2) (procs k2)"
    "slot_index dpid < slots k2" "k_store k2 = k_store k1"
    using l inv by simp_all
qed

lemma drop_two:
  assumes c: "in_call u pid p k1" and d: "get_process k1 dpid = Some (k2, Some d)"
  shows "procs (drop_user (drop_slot k2 (slot_index dpid) (Some d')) u p') =
      (procs k1)(slot_index dpid := Some d', slot_index pid := Some p')"
    "locks (drop_user (drop_slot k2 (slot_index dpid) (Some d')) u p') = {}"
    "slots (drop_user (drop_slot k2 (slot_index dpid) (Some d')) u p') = PROCESS_COUNT"
    "k_reserved (drop_user (drop_slot k2 (slot_index dpid) (Some d')) u p') = k_reserved k2"
  using two_guards [OF c d] c by (auto simp: drop_user_def in_call_def)

lemma send_ok:
  assumes c: "in_call u pid p k1" and d: "get_process k1 dpid = Some (k2, Some d)"
    and w: "waits_for s = Some (Userspace dpid)" and m: "msg_sender msg = pid"
  shows "call_ok (drop_user (drop_slot k2 (slot_index dpid) (Some (d\<lparr>p_messages := p_messages d @ [msg]\<rparr>))) u (p\<lparr>p_state := s\<rparr>)) u
    (Inl Yield)"
proof -
  note g = two_guards [OF c d]
  let ?d = "d\<lparr>p_messages := p_messages d @ [msg]\<rparr>" and ?p = "p\<lparr>p_state := s\<rparr>"
  have p: "procs k1 (slot_index pid) = Some p" "p_state p = Runnable" "p_id p = pid" "ctx_pid u = Some pid"
    using c by (auto simp: in_call_def)
  have cl: "set (clients ?d) = insert pid (set (clients d))" "distinct (clients ?d) \<longleftrightarrow> pid \<notin> set (clients d) \<and> distinct (clients d)"
    using m by (auto simp: clients_def split: option.splits)
  have inv: "procs_inv (k_reserved k2) (procs k1)" using g(3,7) by simp
  have "procs_inv (k_reserved k2) ((procs k1)(slot_index dpid := Some ?d, slot_index pid := Some ?p))"
    by (rule procs_inv_send [OF inv p(1) _ g(5,2)]) (use p w cl g(6) in auto)
  with drop_two [OF c d] p show ?thesis by (simp add: call_ok_def locked_at_def)
qed

lemma reply_ok:
  assumes c: "in_call u pid p k1" and d: "get_process k1 dpid = Some (k2, Some d)"
    and s: "p_currently_serving p = Some dpid" "waits_for s = None" "p_state d \<noteq> Finished"
  shows "call_ok (drop_user (drop_slot k2 (slot_index dpid) (Some (d\<lparr>p_state := s\<rparr>))) u (p\<lparr>p_currently_serving := None\<rparr>)) u res"
proof -
  note g = two_guards [OF c d]
  let ?d = "d\<lparr>p_state := s\<rparr>" and ?p = "p\<lparr>p_currently_serving := None\<rparr>"
  have p: "procs k1 (slot_index pid) = Some p" "p_state p = Runnable" "p_id p = pid" "ctx_pid u = Some pid"
    using c by (auto simp: in_call_def)
  have inv: "procs_inv (k_reserved k2) (procs k1)" using g(3,7) by simp
  then have dist: "distinct (clients p)" using p unfolding procs_inv_def by fastforce
  have cl: "dpid \<in> set (clients p)" "distinct (clients ?p)" "set (clients ?p) = set (clients p) - {dpid}"
    using dist s(1) by (auto simp: clients_def)
  have "procs_inv (k_reserved k2) ((procs k1)(slot_index dpid := Some ?d, slot_index pid := Some ?p))"
    by (rule procs_inv_reply [OF inv p(1) _ _ g(5,2)]) (use p s cl g(6) in auto)
  with drop_two [OF c d] p show ?thesis by (simp add: call_ok_def locked_at_def)
qed

text \<open>Killed with the guard of another process in hand, which is dropped unchanged.\<close>

lemma kill_two:
  assumes c: "in_call u pid p k1" and d: "get_process k1 dpid = Some (k2, Some d)"
    and q: "p_id q = pid" "set (clients q) \<subseteq> set (clients p)" "distinct (clients p) \<Longrightarrow> distinct (clients q)"
    and k: "kill (drop_slot k2 (slot_index dpid) (Some d)) u q = Some (k', res)"
  shows "call_ok k' u res"
proof -
  note g = two_guards [OF c d]
  have "(procs k1)(slot_index dpid := Some d) = procs k1" using g(5) by (simp add: fun_upd_idem)
  then have "in_call u pid p (drop_slot k2 (slot_index dpid) (Some d))"
    using c g by (auto simp: in_call_def locked_at_def)
  from kill_ok [OF this q k] show ?thesis .
qed

lemma sys_ipc_stream_ok:
  assumes "locked_at k {}" "user_runs k u" "sys_ipc_stream env k u cap stream = Some (k', res)"
  shows "call_ok k' u res"
proof -
  obtain k1 p where u: "user_process k u = Some (k1, p)" using assms(3) by (auto simp: sys_ipc_stream_def run_Some)
  have c: "in_call u (p_id p) p k1" using in_call_start [OF assms(1,2) u] by blast
  then have pid: "ctx_pid u = Some (p_id p)" by (simp add: in_call_def)
  obtain v where v: "validated k1 cap (p_id p) = Some v" using assms(3) u by (auto simp: sys_ipc_stream_def run_Some)
  show ?thesis
  proof (cases v)
    case (Inl x)
    then have "kill k1 u p = Some (k', res)" using assms(3) u v by (simp add: sys_ipc_stream_def)
    from kill_ok [OF c _ _ _ this] show ?thesis by simp
  next
    case (Inr root)
    then obtain who where who: "certifier root = Some who" using assms(3) u v by (auto simp: sys_ipc_stream_def run_Some)
    show ?thesis
    proof (cases who)
      case (Userspace dpid)
      let ?m = "\<lparr>msg_cap = root, msg_method = 1000 + stream, msg_args = [], msg_sender = p_id p\<rparr>"
      obtain k2 d where d: "get_process k1 dpid = Some (k2, Some d)" "res = Inl Yield"
        "k' = drop_user (drop_slot k2 (slot_index dpid) (Some (d\<lparr>p_messages := p_messages d @ [?m]\<rparr>))) u
           (p\<lparr>p_state := WaitingForStreamMap (Userspace dpid)\<rparr>)"
        using assms(3) u v Inr who Userspace pid by (auto simp: sys_ipc_stream_def run_Some Let_def ctx_user_def)
      from send_ok [OF c d(1), of "WaitingForStreamMap (Userspace dpid)" ?m] d(2,3) show ?thesis by simp
    next
      case Kernel
      then obtain q where "k' = drop_user k1 u q" "p_id q = p_id p \<and> p_state q = p_state p \<and> clients q = clients p"
        using assms(3) u v Inr who by (auto simp: sys_ipc_stream_def run_cases Let_def)
      with call_ok_same [OF c, of q res] show ?thesis by simp
    qed
  qed
qed

lemma sys_ipc_reply_ok:
  assumes "locked_at k {}" "user_runs k u" "sys_ipc_reply env k u result = Some (k', res)"
  shows "call_ok k' u res"
proof -
  obtain k1 p where u: "user_process k u = Some (k1, p)" using assms(3) by (auto simp: sys_ipc_reply_def run_Some)
  have c: "in_call u (p_id p) p k1" using in_call_start [OF assms(1,2) u] by blast
  show ?thesis
  proof (cases "p_currently_serving p")
    case None
    then have "kill k1 u p = Some (k', res)" using assms(3) u by (simp add: sys_ipc_reply_def)
    from kill_ok [OF c _ _ _ this] show ?thesis by simp
  next
    case (Some dpid)
    let ?p = "p\<lparr>p_currently_serving := None\<rparr>"
    obtain k2 d where d: "get_process k1 dpid = Some (k2, Some d)"
      using assms(3) u Some by (auto simp: sys_ipc_reply_def run_Some Let_def)
    have cl: "set (clients ?p) \<subseteq> set (clients p)" "distinct (clients p) \<Longrightarrow> distinct (clients ?p)"
      by (auto simp: clients_def)
    consider "kill (drop_slot k2 (slot_index dpid) (Some d)) u ?p = Some (k', res)"
      | s where "k' = drop_user (drop_slot k2 (slot_index dpid) (Some (d\<lparr>p_state := s\<rparr>))) u ?p"
         "waits_for s = None" "p_state d \<noteq> Finished"
      using assms(3) u Some d
      by (auto simp: sys_ipc_reply_def run_cases Let_def split: process_state.split_asm)
    then show ?thesis
    proof cases
      case 1
      from kill_two [OF c d _ cl 1] show ?thesis by simp
    next
      case 2
      from reply_ok [OF c d Some 2(2,3), of res] 2(1) show ?thesis by simp
    qed
  qed
qed

lemma load_segments_same:
  "load_segments elf ss p m = Some (q, m') \<Longrightarrow> p_id q = p_id p \<and> p_state q = p_state p \<and> clients q = clients p"
proof (induction elf ss p m rule: load_segments.induct)
  case (2 elf s ptr rest p m)
  then obtain p1 m1 where s1: "load_segment elf s ptr p m = Some (p1, m1)" "load_segments elf rest p1 m1 = Some (q, m')"
    by (auto simp: run_Some)
  have "p_id p1 = p_id p \<and> p_state p1 = p_state p \<and> clients p1 = clients p"
    using s1(1) by (auto simp: load_segment_def run_cases Let_def dest!: process_alloc_at_same)
  with 2(1) [OF s1(1) refl s1(2)] show ?case by simp
qed simp

lemma create_process_fresh:
  assumes "create_process (load_elf parsed ptrs) pid name inputs stack m = Some (p, m')"
  shows "p_id p = pid \<and> p_state p = Runnable \<and> clients p = []"
proof -
  obtain q p1 p3 m1 t2 where q: "p_id q = pid" "p_state q = Runnable" "clients q = []"
      and l: "load_elf parsed ptrs q m = Some (p1, m1)"
      and p3: "map_inputs_memory (p1\<lparr>p_page_table := t2\<rparr>) inputs = Some p3" "map_user_stack p3 stack = Some p"
  proof -
    obtain heap t p1 m1 t2 p3 where a: "buddy_new (fst USER_HEAP) (snd USER_HEAP) = Some heap"
      and b: "load_elf parsed ptrs \<lparr>p_id = pid, p_name = name, p_state = Runnable,
              p_registers = (\<lambda>_. 0)(SP := snd USER_STACK), p_pc = 0,
              p_page_table = t, p_heap = heap, p_messages = [],
              p_currently_serving = None, p_allocated = [], p_virtual_memory_mappings = []\<rparr> m = Some (p1, m1)"
      and c: "map_inputs_memory (p1\<lparr>p_page_table := t2\<rparr>) inputs = Some p3" "map_user_stack p3 stack = Some p"
      using assms by (auto simp: create_process_def run_Some)
    show ?thesis by (rule that [OF _ _ _ b c]) (simp_all add: clients_def)
  qed
  obtain ef ss p0 where "load_segments ef ss q m = Some (p0, m1)" "p1 = p0\<lparr>p_pc := unat (ef_entry ef)\<rparr>"
    using l by (auto simp: load_elf_def run_cases)
  then have "p_id p1 = pid \<and> p_state p1 = Runnable \<and> clients p1 = []"
    using load_segments_same [of ef ss q m p0 m1] q by simp
  then show ?thesis using p3
    by (auto simp: map_inputs_memory_def map_user_stack_def run_cases dest!: process_alloc_at_same)
qed

lemma spawn_process_ok:
  assumes k: "locked_at k {}" "user_runs k u" "k_reserved k' = k_reserved k + 1" "unat (k_reserved k) + 1 < 2 ^ 16"
    and same: "procs k' = procs k" "locks k' = locks k" "slots k' = slots k" "pid = ProcessId (k_reserved k')"
    and sp: "spawn_process env k' prog pid = Some k2"
  shows "locked_at k2 {} \<and> user_runs k2 u"
proof -
  obtain st p where s: "set_slot (k'\<lparr>k_store := st\<rparr>) (slot_index pid) (Some p) = Some k2"
    and p: "p_id p = pid" "p_state p = Runnable" "clients p = []"
    using sp create_process_fresh by (fastforce simp: spawn_process_def run_Some Let_def)
  note ss = set_slot_Some [OF s]
  have n: "unat (k_reserved k') = unat (k_reserved k) + 1"
    unfolding k(3) using k(4) by (simp add: unat_word_ariths)
  have i: "slot_index pid = unat (k_reserved k')" using same(4) by (simp add: slot_index_def)
  have inv: "procs_inv (k_reserved k) (procs k)" "slots k = PROCESS_COUNT" "locks k = {}" using k(1) by (auto simp: locked_at_def)
  have "procs_inv (k_reserved k') ((procs k)(slot_index pid := Some p))"
    by (rule procs_inv_new [OF inv(1)]) (use p i n ss(1) same(3) inv(2) in simp_all)
  then have "locked_at k2 {}" using ss same inv by (simp add: locked_at_def)
  moreover have "user_runs k2 u"
  proof -
    obtain upid q where uq: "ctx_pid u = Some upid" "procs k (slot_index upid) = Some q" "p_state q = Runnable" "p_id q = upid"
      using k(2) by (auto simp: user_runs_def)
    then have "slot_index upid \<le> unat (k_reserved k)" using inv(1) unfolding procs_inv_def by blast
    then have "slot_index upid \<noteq> slot_index pid" using i n by linarith
    then show ?thesis using uq ss(3) same(1) by (auto simp: user_runs_def)
  qed
  ultimately show ?thesis ..
qed

lemma call_method_ok:
  assumes k: "locked_at k {}" "user_runs k u" and c: "call_method env k h meth args sender = Some (k', r)"
  shows "locked_at k' {} \<and> user_runs k' u"
proof (cases h)
  case (HSpawner prog)
  then have "spawner_call env k prog args sender = Some (k', r)" using c by (simp add: call_method_def)
  then obtain k1 pid export st where r: "reserve_process k = Some (k1, pid, export)"
    and s: "spawn_process env (k1\<lparr>k_store := st\<rparr>) prog pid = Some k'"
    by (auto simp: spawner_call_def run_cases)
  then have e: "k1 = k\<lparr>k_reserved := k_reserved k + 1\<rparr>" "unat (k_reserved k) + 1 < 2 ^ 16" "pid = ProcessId (k_reserved k + 1)"
    by (auto simp: reserve_process_def run_cases process_id_new_def Let_def)
  show ?thesis by (rule spawn_process_ok [OF k _ e(2) _ _ _ _ s]) (simp_all add: e)
next
  case (HDevice d)
  then obtain st where "k' = k\<lparr>k_store := st\<rparr>" using c by (auto simp: call_method_def run_Some)
  with start_store [OF k] show ?thesis by simp
qed (use c in \<open>simp_all add: call_method_def\<close>)

lemma sys_ipc_call_ok:
  assumes "locked_at k {}" "user_runs k u" "sys_ipc_call env k u cap meth args_buffer result_buffer = Some (k', res)"
  shows "call_ok k' u res"
proof -
  note def = sys_ipc_call_def [of env k u cap meth args_buffer result_buffer]
  obtain k1 p where u: "user_process k u = Some (k1, p)" using assms(3) by (auto simp: def run_Some)
  have c: "in_call u (p_id p) p k1" using in_call_start [OF assms(1,2) u] by blast
  then have pid: "ctx_pid u = Some (p_id p)" by (simp add: in_call_def)
  obtain v where v: "validated k1 cap (p_id p) = Some v" using assms(3) u by (auto simp: def run_Some)
  show ?thesis
  proof (cases v)
    case (Inl x)
    then have "kill k1 u p = Some (k', res)" using assms(3) u v by (simp add: def)
    from kill_ok [OF c _ _ _ this] show ?thesis by simp
  next
    case (Inr root)
    then obtain who where who: "certifier root = Some who" using assms(3) u v by (auto simp: def run_Some)
    show ?thesis
    proof (cases who)
      case (Userspace dpid)
      then obtain k2 r where d: "get_process k1 dpid = Some (k2, r)"
        using assms(3) u v Inr who by (auto simp: def run_Some)
      show ?thesis
      proof (cases r)
        case None
        have "kill k2 u p = Some (k', res)" using assms(3) u v Inr who Userspace d None by (simp add: def)
        moreover have "same_procs k1 k2"
          using lock_slot_Some [OF d [unfolded get_process_def]] None by (simp add: same_procs_def)
        ultimately show ?thesis using kill_ok [OF in_call_same [OF c], of k2 p k' res] by simp
      next
        case (Some dest)
        obtain args where a: "res = Inl Yield"
          "k' = drop_user (drop_slot k2 (slot_index dpid) (Some (dest\<lparr>p_messages := p_messages dest @
             [\<lparr>msg_cap = root, msg_method = meth, msg_args = args, msg_sender = p_id p\<rparr>]\<rparr>))) u
             (p\<lparr>p_state := WaitingForReply (Userspace dpid) result_buffer\<rparr>)"
          using assms(3) u v Inr who Userspace d Some pid by (auto simp: def run_Some Let_def ctx_user_def)
        from d Some have d': "get_process k1 dpid = Some (k2, Some dest)" by simp
        from send_ok [OF c d', of "WaitingForReply (Userspace dpid) result_buffer"
            "\<lparr>msg_cap = root, msg_method = meth, msg_args = args, msg_sender = p_id p\<rparr>"] a
        show ?thesis by simp
      qed
    next
      case Kernel
      let ?k2 = "drop_user k1 u p"
      obtain handler args k3 result m w where h: "call_method env ?k2 handler meth args (p_id p) = Some (k3, result)"
        and rest: "kill_user k3 u = Some (k', res) \<or> k' = set_memory k3 m"
        using assms(3) u v Inr who Kernel pid by (fastforce simp: def run_cases Let_def ctx_user_def)
      have "locked_at ?k2 {} \<and> procs ?k2 = (procs k1)(slot_index (p_id p) := Some p)"
        by (rule in_call_drop [OF c]) (use c in \<open>auto simp: in_call_def\<close>)
      then have k2: "locked_at ?k2 {}" "user_runs ?k2 u" using c by (auto simp: user_runs_def in_call_def)
      note k3 = call_method_ok [OF k2 h]
      from rest show ?thesis
      proof
        assume "kill_user k3 u = Some (k', res)"
        with k3 show ?thesis using kill_user_ok by blast
      next
        assume "k' = set_memory k3 m"
        with k3 locked_same [of k3 "{}" k'] runs_same [of k3 u k'] show ?thesis by (auto intro: call_ok_error)
      qed
    qed
  qed
qed

subsection \<open>Traps\<close>

lemma with_arg_ok:
  assumes "with_arg k arg f = Some (k', res)" "locked_at k {}" "user_runs k u"
    and "\<And>x. f x = Some (k', res) \<Longrightarrow> call_ok k' u res"
  shows "call_ok k' u res"
  using assms by (cases arg) (auto simp: with_arg_def intro: call_ok_error)

lemma with_result_ok:
  assumes "with_result call put r = Some (k', r', res)" "\<And>k' x. call = Some (k', x) \<Longrightarrow> call_ok k' u x"
  shows "call_ok k' u res"
proof -
  obtain k0 x where x: "call = Some (k0, x)" using assms(1) by (auto simp: with_result_def run_Some)
  then have "k' = k0" "res = (case x of Inl a \<Rightarrow> Inl a | Inr _ \<Rightarrow> Inr ())"
    using assms(1) by (cases x; simp add: with_result_def)+
  with assms(2) [OF x] show ?thesis by (cases x) (auto simp: call_ok_def)
qed

lemma sys_yield_ok: "locked_at k {} \<Longrightarrow> user_runs k u \<Longrightarrow> sys_yield k u = Some (k', res) \<Longrightarrow> call_ok k' u res"
  by (auto simp: sys_yield_def intro: call_ok_error)

lemma dispatch_syscall_ok:
  assumes k: "locked_at k {}" "user_runs k u" and d: "dispatch_syscall env k u = Some (k', r', res)"
  shows "call_ok k' u res"
proof (cases "ctx_registers u A6 \<in> {0, 1, 2, 3, 4, 5, 6, 7, 8, 9, 10}")
  case False
  with d have "k' = k" by (simp add: dispatch_syscall_def)
  with k show ?thesis by (auto intro: call_ok_error)
next
  case True
  with d show ?thesis
    by (auto simp: dispatch_syscall_def Let_def if_Some
      elim!: with_result_ok with_arg_ok [OF _ k]
      intro: sys_exit_ok [OF k] sys_ipc_call_ok [OF k] sys_ipc_receive_ok [OF k] sys_ipc_reply_ok [OF k]
        sys_ipc_stream_ok [OF k] sys_alloc_ok [OF k] sys_alloc_shared_ok [OF k] sys_map_shared_ok [OF k]
        sys_free_ok [OF k] sys_yield_ok [OF k] sys_log_ok [OF k])
qed

lemma handle_page_fault_ok:
  assumes k: "locked_at k {}" "user_runs k u" and h: "handle_page_fault env k u stval = Some (k', res)"
  shows "call_ok k' u res"
proof (cases "in_range USER_STACK_GUARD stval")
  case True
  with h kill_user_ok [OF k, of k' res] show ?thesis by (simp add: handle_page_fault_def)
next
  case False
  then obtain k1 p vmm where u: "user_process k u = Some (k1, p)" and m: "page_fault_mapping p stval = Some vmm"
    using h by (auto simp: handle_page_fault_def run_Some)
  have c: "in_call u (p_id p) p k1" using in_call_start [OF k u] by blast
  show ?thesis
  proof (cases vmm)
    case None
    have "user_process k1 u = None"
      using c lock_slot_locked [of "slot_index (p_id p)" k1]
      by (simp add: in_call_def locked_at_def user_process_def ctx_user_def get_process_def)
    with h False u m None show ?thesis by (simp add: handle_page_fault_def kill_user_def)
  next
    case (Some v)
    then obtain st t where k': "k' = drop_user (k1\<lparr>k_store := st\<rparr>) u (p\<lparr>p_page_table := t\<rparr>)"
      using h False u m by (cases v) (auto simp: handle_page_fault_def run_Some)
    have "in_call u (p_id p) p (k1\<lparr>k_store := st\<rparr>)" by (rule in_call_same [OF c]) simp
    from call_ok_same [OF this, of "p\<lparr>p_page_table := t\<rparr>" res] k' show ?thesis by simp
  qed
qed

lemma on_user_trap_impl_ok:
  assumes k: "locked_at k {}" "user_runs k u" and t: "on_user_trap_impl env irq k u t = Some (k', u', res)"
  shows "call_ok k' u' res" "ctx_pid u' = ctx_pid u"
proof -
  have "call_ok k' u' res \<and> ctx_pid u' = ctx_pid u"
  proof (cases t)
    case UserEnvCall
    then obtain k1 r res1 where d: "dispatch_syscall env k u = Some (k1, r, res1)"
      using t by (auto simp: on_user_trap_impl_def run_Some Let_def)
    note ok = dispatch_syscall_ok [OF k d]
    consider "res1 = Inr ()" | e where "res1 = Inl (UserErr e)" | "res1 = Inl Yield"
      by (cases res1) (auto intro: syscall_action.exhaust)
    then show ?thesis
    proof cases
      case 1
      with t UserEnvCall d have "k' = k1" "res = Inr ()" "ctx_pid u' = ctx_pid u"
        by (auto simp: on_user_trap_impl_def run_Some Let_def)
      with ok 1 show ?thesis by (auto simp: call_ok_def)
    next
      case 2
      with t UserEnvCall d have "k' = k1" "res = Inl (UserErr e)" "ctx_pid u' = ctx_pid u"
        by (auto simp: on_user_trap_impl_def run_Some Let_def)
      with ok 2 show ?thesis by (auto simp: call_ok_def)
    next
      case 3
      let ?u = "u\<lparr>ctx_registers := r\<rparr>"
      from 3 t UserEnvCall d obtain k2 p pc where u: "user_process k1 ?u = Some (k2, p)" and e: "k' = drop_user k2 ?u (p\<lparr>p_pc := pc\<rparr>)"
        "res = Inl Yield" "u' = ?u"
        by (auto simp: on_user_trap_impl_def run_Some Let_def)
      obtain pid where pid: "ctx_pid u = Some pid" "procs k1 (slot_index pid) = Some p" "procs k2 = procs k1"
        "locks k2 = insert (slot_index pid) (locks k1)" "slots k2 = slots k1" "k_reserved k2 = k_reserved k1" "slot_index pid < slots k1"
        using user_process_Some [OF u] by auto
      have l1: "locked_at k1 {}" and pp: "p_id p = pid" using ok pid(1,2) by (auto simp: call_ok_def)
      have inv: "procs_inv (k_reserved k1) (procs k1)" using l1 by (simp add: locked_at_def)
      have "procs_inv (k_reserved k1) ((procs k1)(slot_index pid := Some (p\<lparr>p_pc := pc\<rparr>)))"
        by (rule procs_inv_update [OF inv pid(2)]) (use inv pid(2) in \<open>auto simp: procs_inv_def\<close>)
      with l1 pid pp e show ?thesis
        by (auto simp: call_ok_def locked_at_def drop_user_def)
    qed
  next
    case (SupervisorExternal n)
    with t obtain st where "k' = k\<lparr>k_store := st\<rparr>" "u' = u" by (auto simp: on_user_trap_impl_def run_Some Let_def)
    with start_store [OF k] show ?thesis by (auto intro: call_ok_error)
  next
    case (PageFault stval)
    with t have "handle_page_fault env k u stval = Some (k', res)" "u' = u"
      by (auto simp: on_user_trap_impl_def run_Some Let_def)
    with handle_page_fault_ok [OF k] show ?thesis by blast
  qed (use t k in \<open>auto simp: on_user_trap_impl_def intro: call_ok_error\<close>)
  then show "call_ok k' u' res" "ctx_pid u' = ctx_pid u" by blast+
qed

lemma on_user_trap_ok:
  assumes k: "locked_at k {}" "user_runs k u" and t: "on_user_trap env irq k u t = Some (Resumed k' u')"
  shows "locked_at k' {} \<and> user_runs k' u'"
proof -
  obtain k1 u1 res where i: "on_user_trap_impl env irq k u t = Some (k1, u1, res)"
    using t by (auto simp: on_user_trap_def run_Some)
  note ok = on_user_trap_impl_ok [OF k i]
  obtain pid p where p: "ctx_pid u1 = Some pid" "procs k1 (slot_index pid) = Some p" "p_id p = pid"
    "res \<noteq> Inl Yield \<longrightarrow> p_state p = Runnable" and l1: "locked_at k1 {}" using ok by (auto simp: call_ok_def)
  consider "res = Inr ()" | e where "res = Inl (UserErr e)" | "res = Inl Yield"
    by (cases res) (auto intro: syscall_action.exhaust)
  then show ?thesis
  proof cases
    case 1
    with t i have "k' = k1" "u' = u1" by (auto simp: on_user_trap_def)
    with 1 p l1 show ?thesis by (auto simp: user_runs_def)
  next
    case 2
    with t i obtain k2 where k2: "kill_manual k1 u1 = Some k2" "schedule_userspace schedule_fuel env k2 u1 = Some (Resumed k' u')"
      by (auto simp: on_user_trap_def run_Some)
    have w: "\<forall>pid q. ctx_pid u1 = Some pid \<longrightarrow> procs k1 (slot_index pid) = Some q \<longrightarrow> waits_for (p_state q) = None"
      using p 2 by auto
    have "locked_at k2 {}" using kill_manual_ok [OF l1 k2(1) w] by blast
    from schedule_ok [OF this k2(2)] show ?thesis .
  next
    case 3
    with t i obtain k2 q where q: "user_process k1 u1 = Some (k2, q)"
      and sch: "schedule_userspace schedule_fuel env (drop_user k2 u1 (q\<lparr>p_registers := ctx_registers u1\<rparr>)) u1 = Some (Resumed k' u')"
      by (auto simp: on_user_trap_def run_Some)
    have u: "slot_index pid < slots k1" "q = p" "procs k2 = procs k1"
      "locks k2 = insert (slot_index pid) (locks k1)" "slots k2 = slots k1" "k_reserved k2 = k_reserved k1"
      using user_process_Some [OF q] p(1,2) by auto
    have inv: "procs_inv (k_reserved k1) (procs k1)" using l1 by (simp add: locked_at_def)
    have "procs_inv (k_reserved k1) ((procs k1)(slot_index pid := Some (p\<lparr>p_registers := ctx_registers u1\<rparr>)))"
      by (rule procs_inv_update [OF inv p(2)]) (use inv p(2) in \<open>auto simp: procs_inv_def\<close>)
    then have "locked_at (drop_user k2 u1 (q\<lparr>p_registers := ctx_registers u1\<rparr>)) {}"
      using l1 p(1) u by (simp add: locked_at_def drop_user_def)
    from schedule_ok [OF this sch] show ?thesis .
  qed
qed

subsection \<open>The machine\<close>

text \<open>
  A user runs: it changes its registers and the memory its table lets it write.  Or it traps, and
  the kernel lets a user run again.
\<close>

inductive machine_step ::
  "'d env \<Rightarrow> (u32 \<Rightarrow> 'd store \<Rightarrow> 'd store run) \<Rightarrow> 'd kernel \<times> user_ctx \<Rightarrow> 'd kernel \<times> user_ctx \<Rightarrow> bool"
  for env irq where
  user_code: "user_table k u = Some table \<Longrightarrow> user_write table (k_memory k) a bs = Some m \<Longrightarrow>
    machine_step env irq (k, u) (set_memory k m, u\<lparr>ctx_registers := r, ctx_sepc := pc\<rparr>)"
| trapped: "on_user_trap env irq k u t = Some (Resumed k' u') \<Longrightarrow> machine_step env irq (k, u) (k', u')"

lemma machine_steps_ok:
  assumes "(machine_step env irq)\<^sup>*\<^sup>* s s'" "locked_at (fst s) {}" "user_runs (fst s) (snd s)"
  shows "locked_at (fst s') {} \<and> user_runs (fst s') (snd s')"
  using assms
proof (induction rule: rtranclp_induct)
  case (step s1 s2)
  then have ok: "locked_at (fst s1) {}" "user_runs (fst s1) (snd s1)" by blast+
  from step(2) show ?case
  proof (cases rule: machine_step.cases)
    case (user_code k u table a bs m r pc)
    with ok have k: "locked_at k {}" "user_runs k u" by simp_all
    from locked_same [OF k(1), of "set_memory k m"] runs_same [OF k(2), of "set_memory k m"] user_code(2)
    show ?thesis by (simp add: user_runs_def)
  next
    case (trapped k u t k' u')
    with ok on_user_trap_ok [of k u env irq t k' u'] show ?thesis by simp
  qed
qed simp

text \<open>
  C15: the invariant of the kernel.  However users compute, trap and are scheduled, whenever a user
  runs no mutex of a process is held, the user is a runnable process in the slot of its number,
  and every process that owes a reply owes it to a process that waits for exactly this process,
  and owes each only one.
\<close>

theorem kernel_invariant:
  assumes "kernel_inv k" "user_runs k u" "(machine_step env irq)\<^sup>*\<^sup>* (k, u) (k', u')"
  shows "kernel_inv k' \<and> user_runs k' u' \<and>
    (\<forall>i p c. procs k' i = Some p \<longrightarrow> p_state p \<noteq> Finished \<longrightarrow> c \<in> set (clients p) \<longrightarrow>
       (\<exists>q. procs k' (slot_index c) = Some q \<and> waits_for (p_state q) = Some (Userspace (p_id p)) \<and>
         (\<forall>j r. procs k' j = Some r \<longrightarrow> p_state r \<noteq> Finished \<longrightarrow> c \<in> set (clients r) \<longrightarrow> j = i)))"
proof -
  have "locked_at k' {}" "user_runs k' u'"
    using machine_steps_ok [OF assms(3)] assms(1,2) by (simp_all add: kernel_inv_locked)
  moreover from this(1) have inv: "procs_inv (k_reserved k') (procs k')" by (simp add: locked_at_def)
  have "\<exists>q. procs k' (slot_index c) = Some q \<and> waits_for (p_state q) = Some (Userspace (p_id p)) \<and>
      (\<forall>j r. procs k' j = Some r \<longrightarrow> p_state r \<noteq> Finished \<longrightarrow> c \<in> set (clients r) \<longrightarrow> j = i)"
    if p: "procs k' i = Some p" "p_state p \<noteq> Finished" "c \<in> set (clients p)" for i p c
  proof -
    have w: "waiting_on (procs k') c (p_id r)" if "procs k' j = Some r" "p_state r \<noteq> Finished" "c \<in> set (clients r)" for j r
      using inv that unfolding procs_inv_def by blast
    from w [OF p] obtain q where q: "procs k' (slot_index c) = Some q" "waits_for (p_state q) = Some (Userspace (p_id p))"
      by (auto simp: waiting_on_def)
    have "j = i" if r: "procs k' j = Some r" "p_state r \<noteq> Finished" "c \<in> set (clients r)" for j r
      using w [OF r] q procs_inv_id [OF inv p(1)] procs_inv_id [OF inv r(1)] by (auto simp: waiting_on_def)
    with q show ?thesis by blast
  qed
  ultimately show ?thesis unfolding kernel_inv_locked by blast
qed

end
