(* ===== verification/Kernel_Properties.thy ===== *)
theory Kernel_Properties
  imports Kernel_Safe
begin

text \<open>
  The theorems about the kernel's scheduler, messages and traps, and small kernels they apply to.
\<close>

subsection \<open>A small kernel\<close>

text \<open>
  Three processes: the first runs, the second waits for the third, which serves it.  Their memory
  is not looked at, so their page tables are empty.
\<close>

definition demo_process :: "nat \<Rightarrow> nat process" where
  "demo_process n = \<lparr>p_id = ProcessId (word_of_nat n), p_name = ''demo'', p_state = Runnable, p_registers = (\<lambda>_. 0), p_pc = 0x1000000,
     p_page_table = [], p_heap = \<lparr>buddy_root = Node 0 0 None, root_node_size = 0, range_start = 0, range_end = 0\<rparr>,
     p_messages = [], p_currently_serving = None, p_allocated = [], p_virtual_memory_mappings = []\<rparr>"

definition demo_store :: "unit store" where
  "demo_store = \<lparr>st_memory = example_memory, st_allocated = 0, st_handlers = (\<lambda>_. None), st_vms = [], st_pages = []\<rparr>"

definition demo_buffer :: user_slice where
  "demo_buffer = \<lparr>us_ptr = 0x1000, us_len = 0\<rparr>"

definition demo_kernel :: "unit kernel" where
  "demo_kernel = \<lparr>k_slots = map mutex_new
       [None, Some (demo_process 1),
        Some ((demo_process 2)\<lparr>p_state := WaitingForReply (Userspace (ProcessId 3)) demo_buffer\<rparr>),
        Some ((demo_process 3)\<lparr>p_currently_serving := Some (ProcessId 2)\<rparr>), None, None, None, None],
     k_reserved = 3, k_store = demo_store, k_log = []\<rparr>"

definition demo_user :: user_ctx where
  "demo_user = \<lparr>ctx_registers = (\<lambda>_. 0), ctx_pid = Some (ProcessId 1), ctx_sepc = 0x1000000\<rparr>"

lemma demo_procs:
  "procs demo_kernel i = (if i = 1 then Some (demo_process 1)
     else if i = 2 then Some ((demo_process 2)\<lparr>p_state := WaitingForReply (Userspace (ProcessId 3)) demo_buffer\<rparr>)
     else if i = 3 then Some ((demo_process 3)\<lparr>p_currently_serving := Some (ProcessId 2)\<rparr>) else None)"
  by (auto simp: procs_def demo_kernel_def mutex_new_def nth_Cons' less_Suc_eq numeral_eq_Suc)

lemma demo_kernel_inv: "kernel_inv demo_kernel"
proof -
  have "locks demo_kernel = {}"
    by (auto simp: locks_def demo_kernel_def mutex_new_def nth_Cons' less_Suc_eq numeral_eq_Suc)
  moreover have "procs_inv 3 (procs demo_kernel)"
    by (auto simp: procs_inv_def demo_procs demo_process_def slot_index_def PROCESS_COUNT_def clients_def waiting_on_def)
  ultimately show ?thesis
    by (simp add: kernel_inv_def slots_def PROCESS_COUNT_def) (simp add: demo_kernel_def)
qed

lemma demo_user_runs: "user_runs demo_kernel demo_user"
  by (simp add: user_runs_def demo_user_def demo_procs slot_index_def) (simp add: demo_process_def)

subsection \<open>The scheduler\<close>

text \<open>How far after the current process a slot is in the scan.\<close>

definition scan_distance :: "user_ctx \<Rightarrow> usize \<Rightarrow> usize" where
  "scan_distance u i =
     (let s = (case ctx_pid u of Some pid \<Rightarrow> slot_index pid + 1 | None \<Rightarrow> 0) mod PROCESS_COUNT
      in (i + PROCESS_COUNT - s) mod PROCESS_COUNT)"

lemma mod_distance:
  fixes s i n :: nat
  assumes "i < n"
  shows "(s + (i + n - s mod n) mod n) mod n = i" "(i + n - s mod n) mod n < n"
proof -
  have sm: "s mod n < n" using assms by simp
  have "(s + (i + n - s mod n) mod n) mod n = (s mod n + (i + n - s mod n)) mod n"
    by (simp add: mod_add_left_eq mod_add_right_eq)
  also have "s mod n + (i + n - s mod n) = i + n" using sm by simp
  finally show "(s + (i + n - s mod n) mod n) mod n = i" using assms by simp
  show "(i + n - s mod n) mod n < n" using assms by simp
qed

lemma scan_order_nth:
  assumes "i < PROCESS_COUNT"
  shows "scan_distance u i < length (scan_order (ctx_pid u)) \<and> scan_order (ctx_pid u) ! scan_distance u i = i"
proof -
  define s where "s = (case ctx_pid u of Some pid \<Rightarrow> slot_index pid + 1 | None \<Rightarrow> 0)"
  have o: "scan_order (ctx_pid u) = map (\<lambda>k. (s + k) mod PROCESS_COUNT) [0..<PROCESS_COUNT]"
    by (simp add: scan_order_def s_def slot_index_def Let_def split: option.splits)
  have d: "scan_distance u i = (i + PROCESS_COUNT - s mod PROCESS_COUNT) mod PROCESS_COUNT"
    by (simp add: scan_distance_def s_def Let_def)
  show ?thesis unfolding o d using mod_distance [OF assms, of s] by simp
qed

lemma scan_before:
  assumes "scan_order (ctx_pid u) = before @ i # after" "j < PROCESS_COUNT" "scan_distance u j < scan_distance u i"
    "i < PROCESS_COUNT"
  shows "j \<in> set before"
proof -
  have d: "distinct (scan_order (ctx_pid u))" by (rule scan_order_distinct)
  have "scan_order (ctx_pid u) ! length before = i" using assms(1) by (simp add: nth_append)
  moreover have "length before < length (scan_order (ctx_pid u))" using assms(1) by simp
  ultimately have "scan_distance u i = length before"
    using scan_order_nth [OF assms(4), of u] d nth_eq_iff_index_eq by metis
  then have "scan_order (ctx_pid u) ! scan_distance u j = before ! scan_distance u j"
    using assms(1,3) by (simp add: nth_append)
  with scan_order_nth [OF assms(2), of u] assms(3) \<open>scan_distance u i = length before\<close> show ?thesis
    by (metis nth_mem)
qed

lemma inspect_returns:
  assumes "procs_inv n (procs k)" "procs k i = Some p" "slots k = PROCESS_COUNT" "locks k \<subseteq> {i}"
  shows "\<exists>p'. inspect_can_progress k p = Some p'"
proof (cases "\<exists>s. waits_for (p_state p) = Some (Userspace s)")
  case True
  then obtain s where s: "waits_for (p_state p) = Some (Userspace s)" by blast
  then have "slot_index s < PROCESS_COUNT \<and> slot_index s \<noteq> i" using assms(1,2) unfolding procs_inv_def by blast
  then have "slot_index s < slots k" "slot_index s \<notin> locks k" using assms(3,4) by auto
  from lock_slot_free [OF this] s show ?thesis by (auto simp: inspect_can_progress_def get_process_def)
qed (auto simp: inspect_can_progress_def split: option.splits actor.splits)

lemma scan_slot_returns:
  assumes "locked_at k {}" "i < PROCESS_COUNT"
  shows "scan_slot k i \<noteq> None"
proof -
  have inv: "procs_inv (k_reserved k) (procs k)" "slots k = PROCESS_COUNT" "locks k = {}" using assms(1) by (auto simp: locked_at_def)
  then obtain k1 where l: "lock_slot k i = Some (k1, procs k i)" using lock_slot_free [of i k] assms(2) by auto
  note ls = lock_slot_Some [OF l]
  show ?thesis
  proof (cases "procs k i")
    case None
    with l show ?thesis by (simp add: scan_slot_def)
  next
    case (Some p)
    then obtain p1 where p1: "inspect_can_progress k1 p = Some p1"
      using inspect_returns [of "k_reserved k" k1 i p] inv ls by auto
    have "\<exists>k'. set_slot (drop_slot k1 i (Some p1)) i None = Some k'"
      using ls(1,6) by (auto simp: set_slot_def mutex_lock_def drop_slot_def mutex_unlock_def slots_def)
    with l Some p1 show ?thesis by (auto simp: scan_slot_def)
  qed
qed

lemma scan_slots_returns: "locked_at k {} \<Longrightarrow> set is \<subseteq> {..<PROCESS_COUNT} \<Longrightarrow> scan_slots k is \<noteq> None"
proof (induction "is" arbitrary: k)
  case (Cons i "is")
  then obtain k1 r where sc: "scan_slot k i = Some (k1, r)" using scan_slot_returns [of k i] by auto
  show ?case
  proof (cases r)
    case None
    then have "locked_at k1 {}" using scan_slot_Some(1) [OF Cons.prems(1) sc] by simp
    with Cons sc None show ?thesis by auto
  next
    case (Some p)
    with sc show ?thesis by simp
  qed
qed simp

lemma scheduler_first:
  assumes "kernel_inv k" "find_runnable_process k u = Some (k', Some (i, p))"
    and q: "procs k j = Some q" "is_ready (p_state q)"
  shows "scan_distance u i \<le> scan_distance u j"
proof (rule ccontr)
  have k: "locked_at k {}" using assms by (simp add: kernel_inv_locked)
  have sl: "i < PROCESS_COUNT" if "procs k i = Some p" for i p
    using that assms unfolding kernel_inv_def procs_inv_def by blast
  have r: "scan_slots k (scan_order (ctx_pid u)) = Some (k', Some (i, p))" using assms(2) by (simp add: find_runnable_process_def)
  obtain before after where l: "procs k i = Some p"
    and o: "scan_order (ctx_pid u) = before @ i # after" "\<forall>j \<in> set before. \<forall>q. procs k j = Some q \<longrightarrow> \<not> is_ready (p_state q)"
    using scan_slots_Some [OF k scan_order_distinct r] by auto
  assume "\<not> scan_distance u i \<le> scan_distance u j"
  then have "j \<in> set before" using scan_before [OF o(1) sl [OF q(1)] _ sl [OF l]] by simp
  with o(2) q show False by blast
qed

text \<open>
  what the scheduler chooses.  The scan returns.  It finds no process only when none is ready,
  and then the machine may shut down; otherwise it finds the ready process that comes first after
  the current one in the order of slots, wrapping around, with nothing locked but its mutex.
\<close>

theorem scheduler_picks_next:
  assumes "kernel_inv k"
  shows "\<exists>k' r. find_runnable_process k u = Some (k', r) \<and> procs_inv (k_reserved k') (procs k') \<and>
    (case r of
       None \<Rightarrow> locks k' = {} \<and> (\<forall>i p. procs k i = Some p \<longrightarrow> \<not> is_ready (p_state p))
     | Some (i, p) \<Rightarrow> locks k' = {i} \<and> procs k i = Some p \<and> is_ready (p_state p) \<and>
         (\<forall>j q. procs k j = Some q \<longrightarrow> is_ready (p_state q) \<longrightarrow> scan_distance u i \<le> scan_distance u j))"
proof -
  have k: "locked_at k {}" using assms by (simp add: kernel_inv_locked)
  have sl: "i < PROCESS_COUNT" if "procs k i = Some p" for i p
    using that assms unfolding kernel_inv_def procs_inv_def by blast
  obtain k' r where r: "scan_slots k (scan_order (ctx_pid u)) = Some (k', r)"
    using scan_slots_returns [OF k, of "scan_order (ctx_pid u)"] scan_order_all by fastforce
  note s = scan_slots_Some [OF k scan_order_distinct r, unfolded scan_order_all]
  show ?thesis
  proof (cases r)
    case None
    then have "locked_at k' {}" "\<forall>i \<in> {..<PROCESS_COUNT}. \<forall>p. procs k i = Some p \<longrightarrow> \<not> is_ready (p_state p)"
      using s by auto
    with None r sl show ?thesis
      by (intro exI [of _ k'] exI [of _ r]) (auto simp: find_runnable_process_def locked_at_def)
  next
    case (Some x)
    obtain i p where x: "x = (i, p)" by (cases x)
    then have l: "locked_at k' {i}" "procs k i = Some p" "is_ready (p_state p)" using s Some by auto
    have f: "find_runnable_process k u = Some (k', Some (i, p))" using r Some x by (simp add: find_runnable_process_def)
    from scheduler_first [OF assms f] l Some x f show ?thesis
      by (intro exI [of _ k'] exI [of _ r]) (auto simp: locked_at_def)
  qed
qed

lemma demo_ready:
  "procs demo_kernel i = Some p \<and> is_ready (p_state p) \<longleftrightarrow> (i = 1 \<and> p = demo_process 1) \<or>
     (i = 3 \<and> p = (demo_process 3)\<lparr>p_currently_serving := Some (ProcessId 2)\<rparr>)"
  by (auto simp: demo_procs is_ready_def demo_process_def)

lemma demo_distance: "scan_distance demo_user 3 = 1" "scan_distance demo_user 1 = 7"
  by (simp_all add: scan_distance_def demo_user_def slot_index_def PROCESS_COUNT_def)

theorem scheduler_picks_next_witness:
  "\<exists>k' p. find_runnable_process demo_kernel demo_user = Some (k', Some (3, p)) \<and> is_ready (p_state p)"
proof -
  obtain k' r where r: "find_runnable_process demo_kernel demo_user = Some (k', r)"
    and c: "case r of None \<Rightarrow> locks k' = {} \<and> (\<forall>i p. procs demo_kernel i = Some p \<longrightarrow> \<not> is_ready (p_state p))
      | Some (i, p) \<Rightarrow> locks k' = {i} \<and> procs demo_kernel i = Some p \<and> is_ready (p_state p) \<and>
          (\<forall>j q. procs demo_kernel j = Some q \<longrightarrow> is_ready (p_state q) \<longrightarrow> scan_distance demo_user i \<le> scan_distance demo_user j)"
    using scheduler_picks_next [OF demo_kernel_inv, of demo_user] by blast
  have three: "procs demo_kernel 3 = Some ((demo_process 3)\<lparr>p_currently_serving := Some (ProcessId 2)\<rparr>)"
    and ready: "is_ready (p_state ((demo_process 3)\<lparr>p_currently_serving := Some (ProcessId 2)\<rparr>))"
    using demo_ready by blast+
  with c obtain i p where "r = Some (i, p)" "procs demo_kernel i = Some p" "is_ready (p_state p)"
    "scan_distance demo_user i \<le> scan_distance demo_user 3"
    by (cases r) fastforce+
  moreover from this have "i = 3" using demo_ready [of i p] demo_distance by fastforce
  ultimately show ?thesis using r by blast
qed

text \<open>The process that is chosen is further back than it was by all that was passed over, and one.\<close>

lemma scan_distance_less: "scan_distance u i < PROCESS_COUNT"
  by (simp add: scan_distance_def Let_def PROCESS_COUNT_def)

lemma distance_advances:
  assumes "i < PROCESS_COUNT" "j < PROCESS_COUNT" "i \<noteq> j" "scan_distance u i \<le> scan_distance u j"
    and u': "ctx_pid u' = Some pid" "slot_index pid = i"
  shows "scan_distance u' j < scan_distance u j"
proof -
  define s where "s = (case ctx_pid u of Some pid \<Rightarrow> slot_index pid + 1 | None \<Rightarrow> 0)"
  have d: "scan_distance u x = (x + PROCESS_COUNT - s mod PROCESS_COUNT) mod PROCESS_COUNT" for x
    by (simp add: scan_distance_def s_def Let_def)
  let ?a = "scan_distance u i" and ?b = "scan_distance u j"
  have i: "(s + ?a) mod PROCESS_COUNT = i" and j: "(s + ?b) mod PROCESS_COUNT = j"
    unfolding d using mod_distance(1) assms(1,2) by blast+
  have ab: "?a < ?b" using assms(3,4) i j by (metis nat_less_le)
  have e: "scan_distance u' j = (j + PROCESS_COUNT - (i + 1) mod PROCESS_COUNT) mod PROCESS_COUNT"
    using u' by (simp add: scan_distance_def Let_def)
  have "(i + 1 + scan_distance u' j) mod PROCESS_COUNT = j"
    unfolding e using mod_distance(1) [OF assms(2), of "i + 1"] by simp
  moreover have "(i + 1 + (?b - ?a - 1)) mod PROCESS_COUNT = j"
  proof -
    have "(i + 1 + (?b - ?a - 1)) mod PROCESS_COUNT = ((s + ?a) mod PROCESS_COUNT + (1 + (?b - ?a - 1))) mod PROCESS_COUNT"
      by (simp only: i add.assoc)
    also have "\<dots> = (s + ?a + (1 + (?b - ?a - 1))) mod PROCESS_COUNT"
      by (rule mod_add_left_eq)
    also have "s + ?a + (1 + (?b - ?a - 1)) = s + ?b" using ab by simp
    finally show ?thesis using j by simp
  qed
  ultimately have "scan_distance u' j = ?b - ?a - 1"
    using mod_shift_inj [of "i + 1" "scan_distance u' j" PROCESS_COUNT "?b - ?a - 1"]
      scan_distance_less [of u' j] scan_distance_less [of u j] by simp
  with ab show ?thesis by simp
qed

lemma scan_slots_ready:
  "locked_at k {} \<Longrightarrow> procs k j = Some q \<Longrightarrow> is_ready (p_state q) \<Longrightarrow> scan_slots k is = Some (k', r) \<Longrightarrow> procs k' j = Some q"
proof (induction "is" arbitrary: k)
  case (Cons i "is")
  obtain k1 r1 where sc: "scan_slot k i = Some (k1, r1)"
    and rest: "(case r1 of Some p \<Rightarrow> Some (k1, Some (i, p)) | None \<Rightarrow> scan_slots k1 is) = Some (k', r)"
    using Cons.prems(4) by (auto simp: run_Some)
  note s = scan_slot_Some [OF Cons.prems(1) sc]
  have q: "procs k1 j = Some q"
    using s(1) s(2) [of j] Cons.prems(2,3) by (cases r1; cases "j = i") auto
  show ?case
  proof (cases r1)
    case None
    with Cons.IH [of k1] s(1) q Cons.prems(3) rest show ?thesis by simp
  next
    case (Some p)
    with rest q show ?thesis by simp
  qed
qed simp

lemma resume_unfinished:
  assumes "locked_at k {i}" "procs k i = Some p" "is_ready (p_state p)" "resume_process env k i p u = Some (k', u', e)"
  shows "unfinished k' \<subseteq> unfinished k" "\<And>j. j \<noteq> i \<Longrightarrow> procs k' j = procs k j"
proof -
  note ok = resume_process_ok [OF assms]
  have "i \<in> unfinished k" using assms(2,3) is_ready_waits by (auto simp: unfinished_def)
  then show "unfinished k' \<subseteq> unfinished k"
    using ok by (cases e) (auto simp: unfinished_def split: if_splits)
  show "procs k' j = procs k j" if "j \<noteq> i" for j
    using ok that by (cases e) auto
qed

lemma schedule_fair_turn:
  assumes "locked_at k {}" "schedule_userspace fuel env k u = Some (Resumed k' u')"
  shows "unfinished k' \<subseteq> unfinished k \<and>
    (\<forall>j q. procs k j = Some q \<longrightarrow> is_ready (p_state q) \<longrightarrow>
      ctx_pid u' = Some (p_id q) \<or> j \<notin> unfinished k' \<or> (procs k' j = Some q \<and> scan_distance u' j < scan_distance u j))"
  using assms
proof (induction fuel env k u rule: schedule_userspace.induct)
  case (2 fuel env k u)
  obtain k1 i p where f: "find_runnable_process k u = Some (k1, Some (i, p))"
    using 2(3) by (auto simp: run_Some split: option.splits)
  then obtain k2 u2 e where r: "resume_process env k1 i p u = Some (k2, u2, e)"
    using 2(3) by (auto simp: run_Some split: option.splits)
  have sc: "scan_slots k (scan_order (ctx_pid u)) = Some (k1, Some (i, p))" using f by (simp add: find_runnable_process_def)
  note s = scan_slots_Some [OF 2(2) scan_order_distinct sc]
  have s1: "locked_at k1 {i}" "procs k1 i = Some p" "is_ready (p_state p)" "procs k i = Some p" using s by auto
  note ru = resume_unfinished [OF s1(1-3) r]
  note t = schedule_turn [OF 2(2) f r]
  have sl: "j < PROCESS_COUNT" if "procs k j = Some q" for j q
    using that 2(2) unfolding locked_at_def procs_inv_def by blast
  have un: "unfinished k2 \<subseteq> unfinished k" using ru(1) scan_slots_unfinished [OF sc] by blast
  have keep: "procs k2 j = Some q" if "procs k j = Some q" "is_ready (p_state q)" "j \<noteq> i" for j q
    using scan_slots_ready [OF 2(2) that(1,2) sc] ru(2) [OF that(3)] by simp
  have closer: "scan_distance u2 j < scan_distance u j" if q: "procs k j = Some q" "is_ready (p_state q)" "j \<noteq> i" for j q
  proof -
    have "kernel_inv k" using 2(2) by (simp add: kernel_inv_locked)
    then have le: "scan_distance u i \<le> scan_distance u j" using scheduler_first f q by blast
    show ?thesis by (rule distance_advances [OF sl [OF s1(4)] sl [OF q(1)] _ le t(2,3)]) (use q(3) in simp)
  qed
  show ?case
  proof (cases e)
    case (Inr x)
    with 2(3) f r have "k' = k2" "u' = u2" by auto
    with un keep closer t(2) s1(4) show ?thesis by (metis option.inject)
  next
    case (Inl x)
    then obtain k3 where k3: "kill_manual k2 u2 = Some k3" "schedule_userspace fuel env k3 u2 = Some (Resumed k' u')"
      using 2(3) f r by (auto simp: run_Some)
    have w: "\<forall>pid q. ctx_pid u2 = Some pid \<longrightarrow> procs k2 (slot_index pid) = Some q \<longrightarrow> waits_for (p_state q) = None"
      using t Inl is_ready_waits by auto
    have l3: "locked_at k3 {}" and p3: "procs k3 = (procs k2)(i := Some (p\<lparr>p_state := Finished\<rparr>))"
      using kill_manual_ok [OF t(1) k3(1) w] t(2,3,4) Inl by auto
    note ih = 2(1) [OF f refl refl refl r refl refl Inl k3(1) l3 k3(2)]
    have un3: "unfinished k3 \<subseteq> unfinished k2 - {i}" using p3 by (auto simp: unfinished_def split: if_splits)
    have "ctx_pid u' = Some (p_id q) \<or> j \<notin> unfinished k' \<or> (procs k' j = Some q \<and> scan_distance u' j < scan_distance u j)"
      if q: "procs k j = Some q" "is_ready (p_state q)" for j q
    proof (cases "j = i")
      case True
      with ih un3 show ?thesis by blast
    next
      case False
      have "procs k3 j = Some q" using p3 False keep [OF q False] by simp
      with ih q(2) closer [OF q False] show ?thesis by (meson less_trans)
    qed
    moreover have "unfinished k' \<subseteq> unfinished k" using ih un un3 by blast
    ultimately show ?thesis by blast
  qed
qed simp

text \<open>
  C16: no process starves.  When the scheduler lets a process run, every other process that was
  ready is still ready and strictly closer to its turn (which at most seven processes precede), or
  it was killed because a reply did not fit its buffer.  And the scheduler does let one run or
  shuts down: it never runs out of the bound on its turns.
\<close>

theorem scheduler_fair:
  assumes "kernel_inv k"
  shows "schedule_userspace schedule_fuel env k u \<noteq> Some OutOfFuel \<and>
    (\<forall>k' u'. schedule_userspace schedule_fuel env k u = Some (Resumed k' u') \<longrightarrow>
      kernel_inv k' \<and> user_runs k' u' \<and>
      (\<forall>j q. procs k j = Some q \<longrightarrow> is_ready (p_state q) \<longrightarrow>
        ctx_pid u' = Some (p_id q) \<or> j \<notin> unfinished k' \<or>
        (procs k' j = Some q \<and> scan_distance u' j < scan_distance u j \<and> scan_distance u j < PROCESS_COUNT)))"
proof -
  have k: "locked_at k {}" using assms by (simp add: kernel_inv_locked)
  have "card (unfinished k) < schedule_fuel"
    using card_unfinished [of k] assms by (simp add: kernel_inv_def schedule_fuel_def PROCESS_COUNT_def)
  from schedule_enough [OF k this] schedule_ok [OF k] schedule_fair_turn [OF k] show ?thesis
    unfolding kernel_inv_locked using scan_distance_less [of u] by blast
qed

text \<open>Process 1 yields, and process 3 runs.\<close>

definition demo_env :: "unit env" where
  "demo_env = \<lparr>e_device_call = (\<lambda>_ _ _ _ _. None), e_device_stream = (\<lambda>_ _. None), e_load_page = (\<lambda>_ _ _. None),
     e_program = (\<lambda>_. \<lparr>prog_name = ''demo'', prog_elf = None\<rparr>), e_spawn_args = (\<lambda>_ _. None),
     e_encode_cap = (\<lambda>_. None), e_decode_usize = (\<lambda>_. None)\<rparr>"

definition yielding_user :: user_ctx where
  "yielding_user = demo_user\<lparr>ctx_registers := (\<lambda>_. 0)(A6 := 9)\<rparr>"

lemma yielding_user_runs: "user_runs demo_kernel yielding_user"
  using demo_user_runs by (simp add: user_runs_def yielding_user_def)

lemma demo_yields:
  "case on_user_trap demo_env (\<lambda>_ st. Some st) demo_kernel yielding_user UserEnvCall of
     Some (Resumed k' u') \<Rightarrow> ctx_pid u' = Some (ProcessId 3) | _ \<Rightarrow> False"
  by code_simp

theorem kernel_invariant_witness:
  "\<exists>k' u'. (machine_step demo_env (\<lambda>_ st. Some st))\<^sup>*\<^sup>* (demo_kernel, yielding_user) (k', u') \<and>
     ctx_pid u' = Some (ProcessId 3) \<and> kernel_inv k' \<and> user_runs k' u'"
proof -
  obtain k' u' where t: "on_user_trap demo_env (\<lambda>_ st. Some st) demo_kernel yielding_user UserEnvCall = Some (Resumed k' u')"
    and u: "ctx_pid u' = Some (ProcessId 3)" using demo_yields by (auto split: option.splits scheduled.splits)
  have r: "(machine_step demo_env (\<lambda>_ st. Some st))\<^sup>*\<^sup>* (demo_kernel, yielding_user) (k', u')"
    using t by (blast intro: trapped)
  show ?thesis using kernel_invariant [OF demo_kernel_inv yielding_user_runs r] r u by blast
qed

theorem scheduler_fair_witness:
  "schedule_userspace schedule_fuel demo_env demo_kernel demo_user \<noteq> Some OutOfFuel"
  using scheduler_fair [OF demo_kernel_inv, of demo_env demo_user] by blast

end
