(* ===== verification/Kernel_Messages.thy ===== *)
theory Kernel_Messages
  imports Kernel_Properties
begin

text \<open>
  Messages: what a system call does to the queues of the processes, who can be sent a message, and
  a call, its service and its reply from end to end.
\<close>

subsection \<open>What a call does to the queues\<close>

text \<open>No queue changes.\<close>

definition quiet :: "'d kernel \<Rightarrow> 'd kernel \<Rightarrow> bool" where
  "quiet k k' \<longleftrightarrow> (\<forall>j q q'. procs k j = Some q \<longrightarrow> procs k' j = Some q' \<longrightarrow> p_messages q' = p_messages q)"

text \<open>
  What one call of the process \<open>sender\<close> can do to the queue of \<open>q\<close>: nothing, take the oldest
  message of its own queue, or append one message, for which the sender holds a capability that
  goes back to a grant by \<open>q\<close> itself.
\<close>

definition delivery :: "certificates \<Rightarrow> process_id \<Rightarrow> nat process \<Rightarrow> nat process \<Rightarrow> bool" where
  "delivery certs sender q q' \<longleftrightarrow>
     p_messages q' = p_messages q \<or>
     (p_id q = sender \<and> (\<exists>m. p_messages q = m # p_messages q')) \<or>
     (\<exists>msg c. p_messages q' = p_messages q @ [msg] \<and> msg_sender msg = sender \<and>
        entitles certs (Userspace sender) c (msg_cap msg) \<and> certifier (msg_cap msg) = Some (Userspace (p_id q)))"

definition delivers :: "'d kernel \<Rightarrow> process_id \<Rightarrow> 'd kernel \<Rightarrow> bool" where
  "delivers k sender k' \<longleftrightarrow> (\<forall>j q q'. procs k j = Some q \<longrightarrow> procs k' j = Some q' \<longrightarrow>
     delivery (mem_certs (k_memory k)) sender q q')"

lemma quiet_delivers: "quiet k k' \<Longrightarrow> delivers k pid k'"
  by (auto simp: quiet_def delivers_def delivery_def)

lemma quiet_same: "procs k' = procs k \<Longrightarrow> quiet k k'"
  by (simp add: quiet_def)

lemma quiet_own:
  "procs k' = (procs k)(i := Some q) \<Longrightarrow> procs k i = Some p \<Longrightarrow> p_messages q = p_messages p \<Longrightarrow> quiet k k'"
  by (simp add: quiet_def)

lemma quiet_trans_procs: "quiet k1 k' \<Longrightarrow> procs k1 = procs k \<Longrightarrow> quiet k k'"
  by (simp add: quiet_def)

lemma quiet_drop:
  assumes "in_call u pid p k1" "same_procs k1 k2" "p_messages q = p_messages p"
  shows "quiet k1 (drop_user k2 u q)"
proof -
  have "slot_index pid < slots k2" using assms(1,2) in_call_bound by (auto simp: same_procs_def)
  then show ?thesis
    using assms drop_user_eq [OF assms(1), of k2 q]
    by (intro quiet_own [where i = "slot_index pid" and q = q and p = p]) (auto simp: in_call_def same_procs_def)
qed

lemma quiet_kill:
  assumes "in_call u pid p k1" "kill k1 u q = Some (k', res)" "p_messages q = p_messages p"
  shows "quiet k1 k'"
  using quiet_drop [OF assms(1), of k1 "q\<lparr>p_state := Finished\<rparr>"] assms(2,3) by (auto simp: kill_def)

lemma quiet_kill_user:
  assumes "locked_at k {}" "user_runs k u" "kill_user k u = Some (k', res)"
  shows "quiet k k'"
proof -
  obtain k1 p where u: "user_process k u = Some (k1, p)" "kill k1 u p = Some (k', res)"
    using assms(3) by (auto simp: kill_user_def run_Some)
  note c = in_call_start [OF assms(1,2) u(1)]
  from c quiet_kill [of u "p_id p" p k1 p, OF _ u(2) refl] show ?thesis by (auto intro: quiet_trans_procs)
qed

lemma process_alloc_messages: "process_alloc p b fl = Some (q, r) \<Longrightarrow> p_messages q = p_messages p"
  by (auto simp: process_alloc_def process_alloc_at_def run_cases Let_def)

lemma process_dealloc_messages: "process_dealloc p ptr = Some (q, r) \<Longrightarrow> p_messages q = p_messages p"
  by (auto simp: process_dealloc_def run_cases)

lemma quiet_trans_same: "quiet k k1 \<Longrightarrow> procs k' = procs k1 \<Longrightarrow> quiet k k'"
  by (simp add: quiet_def)

lemma quiet_then_kill:
  assumes "quiet k k1" "locked_at k1 {}" "user_runs k1 u" "kill_user k1 u = Some (k', res)"
  shows "quiet k k'"
proof -
  obtain k2 p where u: "user_process k1 u = Some (k2, p)" "k' = drop_user k2 u (p\<lparr>p_state := Finished\<rparr>)"
    using assms(4) by (auto simp: kill_user_def kill_def run_Some)
  note c = in_call_start [OF assms(2,3) u(1)]
  then have "procs k' = (procs k1)(slot_index (p_id p) := Some (p\<lparr>p_state := Finished\<rparr>))" "procs k1 (slot_index (p_id p)) = Some p"
    using u(2) in_call_bound [of u "p_id p" p k2] by (auto simp: drop_user_def in_call_def)
  with assms(1) show ?thesis unfolding quiet_def by simp
qed

subsection \<open>The calls that leave the queues alone\<close>

text \<open>A call in its shape: the current process is locked, changed in other fields, and unlocked.\<close>

lemma quiet_call:
  assumes k: "locked_at k {}" "user_runs k u" and u: "user_process (k\<lparr>k_store := st\<rparr>) u = Some (k1, p)"
    and k2: "same_procs k1 k2" "p_messages q = p_messages p"
  shows "quiet k (drop_user k2 u q)"
proof -
  note c = in_call_start [OF start_store [OF k] u]
  from c quiet_drop [of u "p_id p" p k1 k2 q, OF _ k2] show ?thesis by (auto intro: quiet_trans_procs)
qed

lemma quiet_exit: "locked_at k {} \<Longrightarrow> user_runs k u \<Longrightarrow> sys_exit k u = Some (k', res) \<Longrightarrow> quiet k k'"
  using quiet_call [where st = "k_store k" and k = k] by (fastforce simp: sys_exit_def run_Some)

lemma quiet_alloc:
  assumes "locked_at k {}" "user_runs k u" "sys_alloc k u n = Some (k', res)"
  shows "quiet k k'"
proof -
  consider (same) "procs k' = procs k"
    | (some) st k1 p b q v where "user_process (k\<lparr>k_store := st\<rparr>) u = Some (k1, p)"
        "process_alloc p b (flags_user flags_read_write) = Some (q, v)" "k' = drop_user k1 u q"
    using assms(3) by (fastforce simp: sys_alloc_def run_cases Let_def)
  then show ?thesis
  proof cases
    case some
    with quiet_call [OF assms(1,2) some(1), of k1 q] process_alloc_messages [OF some(2)] show ?thesis by simp
  qed (simp add: quiet_same)
qed

lemma quiet_alloc_shared:
  assumes "locked_at k {}" "user_runs k u" "sys_alloc_shared k u n = Some (k', res)"
  shows "quiet k k'"
proof -
  obtain st k1 p b q v where s: "user_process (k\<lparr>k_store := st\<rparr>) u = Some (k1, p)"
        "process_alloc p b (flags_user flags_read_write) = Some (q, v)" "procs k' = procs (drop_user k1 u q)"
    using assms(3) by (fastforce simp: sys_alloc_shared_def run_cases Let_def)
  from quiet_call [OF assms(1,2) s(1), of k1 q] process_alloc_messages [OF s(2)] s(3)
  show ?thesis by (simp add: quiet_def)
qed

lemma quiet_free:
  assumes "locked_at k {}" "user_runs k u" "sys_free k u ptr = Some (k', res)"
  shows "quiet k k'"
proof -
  obtain k1 p q r where u: "user_process (k\<lparr>k_store := k_store k\<rparr>) u = Some (k1, p)" and d: "process_dealloc p (ptr_addr ptr) = Some (q, r)"
    and r: "k' = drop_user k1 u (q\<lparr>p_state := Finished\<rparr>) \<or> k' = drop_user k1 u q"
    using assms(3) by (auto simp: sys_free_def run_cases kill_def)
  from quiet_call [OF assms(1,2) u, of k1] process_dealloc_messages [OF d] r show ?thesis by fastforce
qed

lemma quiet_log:
  assumes "locked_at k {}" "user_runs k u" "sys_log k u msg level = Some (k', res)"
  shows "quiet k k'"
proof -
  consider "kill_user k u = Some (k', res)"
    | k1 p l where "user_process (k\<lparr>k_store := k_store k\<rparr>) u = Some (k1, p)" "k' = drop_user (k1\<lparr>k_log := l\<rparr>) u p"
    using assms(3) by (auto simp: sys_log_def run_cases Let_def)
  then show ?thesis
  proof cases
    case 1
    then show ?thesis by (rule quiet_kill_user [OF assms(1,2)])
  next
    case (2 k1 p l)
    with quiet_call [OF assms(1,2) 2(1), of "k1\<lparr>k_log := l\<rparr>" p] show ?thesis by simp
  qed
qed

lemma quiet_map_shared:
  assumes "locked_at k {}" "user_runs k u" "sys_map_shared k u cap = Some (k', res)"
  shows "quiet k k'"
proof -
  obtain k1 p where u: "user_process (k\<lparr>k_store := k_store k\<rparr>) u = Some (k1, p)"
    using assms(3) by (auto simp: sys_map_shared_def run_Some)
  then obtain q where "k' = drop_user k1 u q" "p_messages q = p_messages p"
    using assms(3) by (auto simp: sys_map_shared_def run_cases Let_def kill_def)
  with quiet_call [OF assms(1,2) u, of k1 q] show ?thesis by simp
qed

subsection \<open>The calls that send and receive\<close>

lemma validated_entitles:
  assumes "validated k cap pid = Some (Inr root)"
  shows "entitles (mem_certs (k_memory k)) (Userspace pid) cap root"
  using assms by (auto simp: validated_def validate_def loop_entitles split: option.splits ending.splits)

lemma delivers_own:
  assumes "procs k' = (procs k)(i := Some q)" "procs k i = Some p" "delivery (mem_certs (k_memory k)) pid p q"
  shows "delivers k pid k'"
  using assms by (auto simp: delivers_def) (auto simp: delivery_def)

lemma delivers_receive:
  assumes k: "locked_at k {}" "user_runs k u" and r: "sys_ipc_receive k u args = Some (k', res)" and pid: "ctx_pid u = Some pid"
  shows "delivers k pid k'"
proof -
  obtain k1 p where u: "user_process k u = Some (k1, p)" using r by (auto simp: sys_ipc_receive_def run_Some)
  note c = in_call_start [OF k u]
  then have pp: "p_id p = pid" "procs k (slot_index pid) = Some p" using pid by (auto simp: in_call_def)
  obtain k2 q where k2: "k' = drop_user k2 u q" "same_procs k1 k2"
    and q: "p_messages q = p_messages p \<or> (\<exists>m. p_messages p = m # p_messages q)"
  proof -
    consider "kill k1 u p = Some (k', res)" | "k' = drop_user k1 u p"
      | msg rest where "p_messages p = msg # rest" "kill k1 u (p\<lparr>p_messages := rest\<rparr>) = Some (k', res)"
      | msg rest m where "p_messages p = msg # rest"
          "k' = drop_user (set_memory k1 m) u (p\<lparr>p_messages := rest, p_currently_serving := Some (msg_sender msg)\<rparr>)"
      using r u by (auto simp: sys_ipc_receive_def run_cases Let_def)
    then show ?thesis
      by cases (use that [of k1 "p\<lparr>p_state := Finished\<rparr>"] that [of k1 p] in \<open>auto simp: kill_def intro!: that\<close>)
  qed
  have "slot_index pid < slots k2" using c k2(2) pp in_call_bound by (auto simp: same_procs_def)
  then have "procs k' = (procs k)(slot_index pid := Some q)"
    using k2 c pid by (simp add: drop_user_def same_procs_def)
  from delivers_own [OF this pp(2)] q pp(1) show ?thesis by (auto simp: delivery_def)
qed

text \<open>Two processes: the current one keeps its queue, the other gets at most one message more.\<close>

lemma delivers_two:
  assumes c: "in_call u pid p k1" and d: "get_process k1 dpid = Some (k2, Some d)"
    and q: "p_messages p' = p_messages p" "delivery (mem_certs (k_memory k)) pid d d'" and k: "procs k1 = procs k"
  shows "delivers k pid (drop_user (drop_slot k2 (slot_index dpid) (Some d')) u p')"
  unfolding delivers_def
proof (intro allI impI)
  note g = two_guards [OF c d]
  fix j r r' assume r: "procs k j = Some r" "procs (drop_user (drop_slot k2 (slot_index dpid) (Some d')) u p') j = Some r'"
  consider "j = slot_index pid" "r = p" "r' = p'" | "j = slot_index dpid" "r = d" "r' = d'" | "r' = r"
    using r drop_two(1) [OF c d, of d' p'] g(5) c k by (auto simp: in_call_def split: if_splits)
  then show "delivery (mem_certs (k_memory k)) pid r r'"
    by cases (use q in \<open>auto simp: delivery_def\<close>)
qed

lemma delivers_kill:
  assumes "in_call u pid p k1" "kill k1 u q = Some (k', res)" "p_messages q = p_messages p" "procs k1 = procs k"
  shows "delivers k pid k'"
  using quiet_kill [OF assms(1-3)] assms(4) by (blast intro: quiet_delivers quiet_trans_procs)

lemma delivers_reply:
  assumes k: "locked_at k {}" "user_runs k u" and r: "sys_ipc_reply env k u result = Some (k', res)" and pid: "ctx_pid u = Some pid"
  shows "delivers k pid k'"
proof -
  obtain k1 p where u: "user_process k u = Some (k1, p)" using r by (auto simp: sys_ipc_reply_def run_Some)
  note s = in_call_start [OF k u]
  then have c: "in_call u pid p k1" using pid by (auto simp: in_call_def)
  show ?thesis
  proof (cases "p_currently_serving p")
    case None
    then have "kill k1 u p = Some (k', res)" using r u by (simp add: sys_ipc_reply_def)
    from delivers_kill [OF c this] s show ?thesis by simp
  next
    case (Some dpid)
    let ?p = "p\<lparr>p_currently_serving := None\<rparr>"
    obtain k2 d where d: "get_process k1 dpid = Some (k2, Some d)"
      using r u Some by (auto simp: sys_ipc_reply_def run_Some Let_def)
    obtain p' d' where e: "k' = drop_user (drop_slot k2 (slot_index dpid) (Some d')) u p'"
      and m: "p_messages p' = p_messages p" "p_messages d' = p_messages d"
    proof -
      consider "kill (drop_slot k2 (slot_index dpid) (Some d)) u ?p = Some (k', res)"
        | st where "k' = drop_user (drop_slot k2 (slot_index dpid) (Some (d\<lparr>p_state := st\<rparr>))) u ?p"
        using r u Some d
        by (auto simp: sys_ipc_reply_def run_cases Let_def split: process_state.split_asm)
      then show ?thesis
        by cases (use that in \<open>auto simp: kill_def\<close>)
    qed
    have "delivery (mem_certs (k_memory k)) pid d d'" using m(2) by (simp add: delivery_def)
    from delivers_two [OF c d m(1) this] s e show ?thesis by simp
  qed
qed

lemma delivers_stream:
  assumes k: "locked_at k {}" "user_runs k u" and r: "sys_ipc_stream env k u cap stream = Some (k', res)" and pid: "ctx_pid u = Some pid"
  shows "delivers k pid k'"
proof -
  obtain k1 p where u: "user_process k u = Some (k1, p)" using r by (auto simp: sys_ipc_stream_def run_Some)
  note s = in_call_start [OF k u]
  then have c: "in_call u pid p k1" and pp: "p_id p = pid" using pid by (auto simp: in_call_def)
  obtain v where v: "validated k1 cap pid = Some v" using r u pp by (auto simp: sys_ipc_stream_def run_Some)
  show ?thesis
  proof (cases v)
    case (Inl x)
    then have "kill k1 u p = Some (k', res)" using r u v pp by (simp add: sys_ipc_stream_def)
    from delivers_kill [OF c this] s show ?thesis by simp
  next
    case (Inr root)
    then obtain who where who: "certifier root = Some who" using r u v pp by (auto simp: sys_ipc_stream_def run_Some)
    show ?thesis
    proof (cases who)
      case (Userspace dpid)
      let ?m = "\<lparr>msg_cap = root, msg_method = 1000 + stream, msg_args = [], msg_sender = pid\<rparr>"
      obtain k2 d where d: "get_process k1 dpid = Some (k2, Some d)"
        "k' = drop_user (drop_slot k2 (slot_index dpid) (Some (d\<lparr>p_messages := p_messages d @ [?m]\<rparr>))) u
           (p\<lparr>p_state := WaitingForStreamMap (Userspace dpid)\<rparr>)"
        using r u v Inr who Userspace pid pp by (auto simp: sys_ipc_stream_def run_Some Let_def ctx_user_def)
      have "entitles (mem_certs (k_memory k)) (Userspace pid) cap root" using validated_entitles v Inr s by fastforce
      then have "delivery (mem_certs (k_memory k)) pid d (d\<lparr>p_messages := p_messages d @ [?m]\<rparr>)"
        using who Userspace two_guards(6) [OF c d(1)] by (auto simp: delivery_def)
      from delivers_two [OF c d(1) _ this] s d(2) show ?thesis by simp
    next
      case Kernel
      then obtain q where "k' = drop_user k1 u q" "p_messages q = p_messages p"
        using r u v Inr who pp by (auto simp: sys_ipc_stream_def run_cases Let_def)
      with quiet_drop [OF c, of k1 q] s show ?thesis by (auto intro: quiet_delivers quiet_trans_procs)
    qed
  qed
qed

lemma quiet_method:
  assumes k: "locked_at k {}" "user_runs k u" and c: "call_method env k h meth args sender = Some (k', r)"
  shows "quiet k k'"
proof (cases h)
  case (HSpawner prog)
  then have "spawner_call env k prog args sender = Some (k', r)" using c by (simp add: call_method_def)
  then obtain k1 pid export st where r: "reserve_process k = Some (k1, pid, export)"
    and s: "spawn_process env (k1\<lparr>k_store := st\<rparr>) prog pid = Some k'"
    by (auto simp: spawner_call_def run_cases)
  then have e: "k1 = k\<lparr>k_reserved := k_reserved k + 1\<rparr>" "unat (k_reserved k) + 1 < 2 ^ 16" "pid = ProcessId (k_reserved k + 1)"
    by (auto simp: reserve_process_def run_cases process_id_new_def Let_def)
  obtain k2 p where s: "set_slot k2 (slot_index pid) (Some p) = Some k'" "procs k2 = procs k"
    using s e(1) by (fastforce simp: spawn_process_def run_Some Let_def)
  have "slot_index pid = unat (k_reserved k) + 1"
    using e(2,3) by (simp add: slot_index_def unat_word_ariths)
  then have "procs k (slot_index pid) = None"
    using k(1) unfolding locked_at_def procs_inv_def by (cases "procs k (slot_index pid)") fastforce+
  with s(2) set_slot_Some(3) [OF s(1)] show ?thesis by (simp add: quiet_def)
next
  case (HDevice d)
  then obtain st where "k' = k\<lparr>k_store := st\<rparr>" using c by (auto simp: call_method_def run_Some)
  then show ?thesis by (simp add: quiet_same)
qed (use c in \<open>simp_all add: call_method_def\<close>)

lemma delivers_call:
  assumes k: "locked_at k {}" "user_runs k u" and pid: "ctx_pid u = Some pid"
    and r: "sys_ipc_call env k u cap meth args_buffer result_buffer = Some (k', res)"
  shows "delivers k pid k'"
proof -
  note def = sys_ipc_call_def [of env k u cap meth args_buffer result_buffer]
  obtain k1 p where u: "user_process k u = Some (k1, p)" using r by (auto simp: def run_Some)
  note s = in_call_start [OF k u]
  then have c: "in_call u pid p k1" and pp: "p_id p = pid" using pid by (auto simp: in_call_def)
  obtain v where v: "validated k1 cap pid = Some v" using r u pp by (auto simp: def run_Some)
  show ?thesis
  proof (cases v)
    case (Inl x)
    then have "kill k1 u p = Some (k', res)" using r u v pp by (simp add: def)
    from delivers_kill [OF c this] s show ?thesis by simp
  next
    case (Inr root)
    then obtain who where who: "certifier root = Some who" using r u v pp by (auto simp: def run_Some)
    show ?thesis
    proof (cases who)
      case (Userspace dpid)
      then obtain k2 g where d: "get_process k1 dpid = Some (k2, g)"
        using r u v Inr who pp by (auto simp: def run_Some)
      show ?thesis
      proof (cases g)
        case None
        have "kill k2 u p = Some (k', res)" using r u v Inr who Userspace d None pp by (simp add: def)
        moreover have "same_procs k1 k2"
          using lock_slot_Some [OF d [unfolded get_process_def]] None by (simp add: same_procs_def)
        ultimately show ?thesis using delivers_kill [OF in_call_same [OF c], of k2 p k' res k] s by (simp add: same_procs_def)
      next
        case (Some dest)
        let ?m = "\<lambda>args. \<lparr>msg_cap = root, msg_method = meth, msg_args = args, msg_sender = pid\<rparr>"
        obtain args where a:
          "k' = drop_user (drop_slot k2 (slot_index dpid) (Some (dest\<lparr>p_messages := p_messages dest @ [?m args]\<rparr>))) u
             (p\<lparr>p_state := WaitingForReply (Userspace dpid) result_buffer\<rparr>)"
          using r u v Inr who Userspace d Some pid pp by (auto simp: def run_Some Let_def ctx_user_def)
        from d Some have d': "get_process k1 dpid = Some (k2, Some dest)" by simp
        have "entitles (mem_certs (k_memory k)) (Userspace pid) cap root" using validated_entitles v Inr s by fastforce
        then have "delivery (mem_certs (k_memory k)) pid dest (dest\<lparr>p_messages := p_messages dest @ [?m args]\<rparr>)"
          using who Userspace two_guards(6) [OF c d'] by (auto simp: delivery_def)
        from delivers_two [OF c d' _ this] s a show ?thesis by simp
      qed
    next
      case Kernel
      let ?k2 = "drop_user k1 u p"
      obtain handler args k3 result m w where h: "call_method env ?k2 handler meth args pid = Some (k3, result)"
        and rest: "kill_user k3 u = Some (k', res) \<or> k' = set_memory k3 m"
        using r u v Inr who Kernel pid pp by (fastforce simp: def run_cases Let_def ctx_user_def)
      have p2: "locked_at ?k2 {} \<and> procs ?k2 = (procs k1)(slot_index pid := Some p)"
        by (rule in_call_drop [OF c]) (use c in \<open>auto simp: in_call_def\<close>)
      then have k2: "locked_at ?k2 {}" "user_runs ?k2 u" using c by (auto simp: user_runs_def in_call_def)
      have pk: "procs ?k2 = procs k" using p2 c s by (auto simp: in_call_def fun_upd_idem)
      note k3 = call_method_ok [OF k2 h]
      have "quiet k k3" using quiet_method [OF k2 h] pk by (rule quiet_trans_procs)
      with rest k3 have "quiet k k'" by (auto intro: quiet_then_kill quiet_trans_same)
      then show ?thesis by (rule quiet_delivers)
    qed
  qed
qed

subsection \<open>Nobody is sent a message without a capability\<close>

lemma with_result_inv:
  assumes "with_result call put r = Some (k', r', res)"
  shows "\<exists>x. call = Some (k', x)"
proof -
  obtain k0 x where x: "call = Some (k0, x)" using assms by (auto simp: with_result_def run_Some)
  then have "k' = k0" using assms by (cases x; simp add: with_result_def)
  with x show ?thesis by blast
qed

lemma with_arg_inv:
  assumes "with_arg k arg f = Some (k', res)"
  shows "k' = k \<or> (\<exists>x. f x = Some (k', res))"
  using assms by (cases arg) (auto simp: with_arg_def)

text \<open>
  C17: whatever system call a process makes, with whatever arguments, the message queue of every
  process stays as it is, or loses its oldest message to its owner, or gains one message whose
  sender is the caller and whose capability the caller holds: it goes back, along certificates, to
  a grant of the receiver itself.
\<close>

theorem message_needs_capability:
  assumes "kernel_inv k" "user_runs k u" "ctx_pid u = Some sender" "dispatch_syscall env k u = Some (k', r', res)"
    and "procs k j = Some q" "procs k' j = Some q'"
  shows "p_messages q' = p_messages q \<or>
    (p_id q = sender \<and> (\<exists>m. p_messages q = m # p_messages q')) \<or>
    (\<exists>msg c. p_messages q' = p_messages q @ [msg] \<and> msg_sender msg = sender \<and>
       entitles (mem_certs (k_memory k)) (Userspace sender) c (msg_cap msg) \<and>
       certifier (msg_cap msg) = Some (Userspace (p_id q)))"
proof -
  have k: "locked_at k {}" "user_runs k u" using assms(1,2) by (simp_all add: kernel_inv_locked)
  have same: "delivers k sender k" by (simp add: quiet_delivers quiet_same)
  note quiet = quiet_exit [OF k] quiet_alloc [OF k] quiet_alloc_shared [OF k] quiet_free [OF k] quiet_log [OF k] quiet_map_shared [OF k]
  note cases = quiet [THEN quiet_delivers] delivers_call [OF k assms(3)] delivers_receive [OF k _ assms(3)]
    delivers_reply [OF k _ assms(3)] delivers_stream [OF k _ assms(3)]
  have "delivers k sender k'"
  proof (cases "ctx_registers u A6 \<in> {0, 1, 2, 3, 4, 5, 6, 7, 8, 9, 10}")
    case False
    with assms(4) same show ?thesis by (auto simp: dispatch_syscall_def)
  next
    case True
    with assms(4) same show ?thesis
      by (auto simp: dispatch_syscall_def Let_def if_Some sys_yield_def dest!: with_result_inv with_arg_inv intro: cases)
  qed
  with assms(5,6) show ?thesis by (auto simp: delivers_def delivery_def)
qed

subsection \<open>A call, its service and its reply\<close>

lemma procs_bound: "procs k i = Some p \<Longrightarrow> i < slots k"
  by (auto simp: procs_def slots_def split: if_splits)

lemma user_process_free:
  assumes "locks k = {}" "ctx_pid u = Some pid" "procs k (slot_index pid) = Some p"
  shows "\<exists>k1. user_process k u = Some (k1, p) \<and> procs k1 = procs k \<and> locks k1 = {slot_index pid} \<and> slots k1 = slots k \<and>
    k_store k1 = k_store k \<and> k_reserved k1 = k_reserved k"
proof -
  obtain k1 where l: "lock_slot k (slot_index pid) = Some (k1, Some p)"
    using lock_slot_free [OF procs_bound [OF assms(3)]] assms(1,3) by auto
  then have "user_process k u = Some (k1, p)"
    using assms(2) by (simp add: user_process_def ctx_user_def get_process_def)
  then show ?thesis using user_process_Some [of k u k1 p] assms(1,2) by auto
qed

lemma get_process_free:
  assumes "slot_index d \<notin> locks k" "procs k (slot_index d) = Some q"
  shows "\<exists>k1. get_process k d = Some (k1, Some q) \<and> procs k1 = procs k \<and> locks k1 = insert (slot_index d) (locks k) \<and>
    slots k1 = slots k \<and> k_store k1 = k_store k \<and> k_reserved k1 = k_reserved k"
proof -
  obtain k1 where l: "lock_slot k (slot_index d) = Some (k1, Some q)"
    using lock_slot_free [OF procs_bound [OF assms(2)] assms(1)] assms(2) by auto
  with lock_slot_Some [OF l] show ?thesis by (auto simp: get_process_def)
qed

text \<open>The two processes' new values in the kernel, and nothing locked.\<close>

definition at_rest :: "'d kernel \<Rightarrow> (usize \<Rightarrow> nat process option) \<Rightarrow> 'd store \<Rightarrow> 'd kernel \<Rightarrow> bool" where
  "at_rest k ps st k' \<longleftrightarrow> procs k' = ps \<and> locks k' = {} \<and> slots k' = slots k \<and> k_store k' = st \<and> k_reserved k' = k_reserved k"

lemma drop_both:
  assumes "procs k2 = procs k" "locks k2 = {slot_index d, slot_index c}" "slots k2 = slots k" "k_store k2 = k_store k"
    "k_reserved k2 = k_reserved k" "slot_index c < slots k" "slot_index d < slots k" "ctx_pid u = Some c"
  shows "at_rest k ((procs k)(slot_index d := Some q, slot_index c := Some p)) (k_store k)
    (drop_user (drop_slot k2 (slot_index d) (Some q)) u p)"
  using assms by (auto simp: at_rest_def drop_user_def)

lemma ipc_call_sends:
  assumes k: "locks k = {}" "ctx_pid u = Some c" "procs k (slot_index c) = Some p" "p_id p = c"
    and v: "validate (mem_certs (k_memory k)) cap c = Some (Returned (Inr root))" "certifier root = Some (Userspace d)"
    and d: "procs k (slot_index d) = Some q" "d \<noteq> c"
    and a: "copy_to_kernel (p_page_table p) (k_memory k) args = Some bytes"
  shows "\<exists>k'. sys_ipc_call env k u cap meth args buf = Some (k', Inl Yield) \<and>
    at_rest k ((procs k)
      (slot_index d := Some (q\<lparr>p_messages := p_messages q @
          [\<lparr>msg_cap = root, msg_method = meth, msg_args = bytes, msg_sender = c\<rparr>]\<rparr>),
       slot_index c := Some (p\<lparr>p_state := WaitingForReply (Userspace d) buf\<rparr>))) (k_store k) k'"
proof -
  obtain k1 where u: "user_process k u = Some (k1, p)" and k1: "procs k1 = procs k" "locks k1 = {slot_index c}"
    "slots k1 = slots k" "k_store k1 = k_store k" "k_reserved k1 = k_reserved k"
    using user_process_free [OF k(1-3)] by blast
  obtain k2 where g: "get_process k1 d = Some (k2, Some q)" and k2: "procs k2 = procs k" "locks k2 = {slot_index d, slot_index c}"
    "slots k2 = slots k" "k_store k2 = k_store k" "k_reserved k2 = k_reserved k"
    using get_process_free [of d k1 q] k1 d by auto
  have "validated k1 cap c = Some (Inr root)" using v(1) k1(4) by (simp add: validated_def)
  then show ?thesis
    using drop_both [OF k2 procs_bound [OF k(3)] procs_bound [OF d(1)] k(2)] u g v(2) a k k2(4)
    by (simp add: sys_ipc_call_def Let_def ctx_user_def)
qed

lemma ipc_receive_takes:
  assumes k: "locks k = {}" "ctx_pid u = Some d" "procs k (slot_index d) = Some q"
    and m: "p_currently_serving q = None" "p_messages q = msg # rest"
    and w: "write_to_user (p_page_table q) (k_memory k) buf (msg_args msg) = Some (m1, Inr x)"
  shows "\<exists>k'. sys_ipc_receive k u buf =
      Some (k', Inr (Some (msg_cap msg), msg_method msg, length (msg_args msg), Some (msg_sender msg))) \<and>
    at_rest k ((procs k)(slot_index d := Some (q\<lparr>p_messages := rest, p_currently_serving := Some (msg_sender msg)\<rparr>)))
      ((k_store k)\<lparr>st_memory := m1\<rparr>) k'"
proof -
  obtain k1 where u: "user_process k u = Some (k1, q)" and k1: "procs k1 = procs k" "locks k1 = {slot_index d}"
    "slots k1 = slots k" "k_store k1 = k_store k" "k_reserved k1 = k_reserved k"
    using user_process_free [OF k] by blast
  then show ?thesis
    using m w procs_bound [OF k(3)] k(2)
    by (simp add: sys_ipc_receive_def at_rest_def drop_user_def Let_def) (simp add: set_memory_def)
qed

lemma ipc_reply_answers:
  assumes k: "locks k = {}" "ctx_pid u = Some d" "procs k (slot_index d) = Some q" "p_id q = d"
    and m: "p_currently_serving q = Some c" "procs k (slot_index c) = Some p" "c \<noteq> d"
    and s: "p_state p = WaitingForReply (Userspace d) buf"
    and a: "copy_to_kernel (p_page_table q) (k_memory k) out = Some reply"
  shows "\<exists>k'. sys_ipc_reply env k u out = Some (k', Inr ()) \<and>
    at_rest k ((procs k)(slot_index c := Some (p\<lparr>p_state := ReadyReply reply buf\<rparr>),
      slot_index d := Some (q\<lparr>p_currently_serving := None\<rparr>))) (k_store k) k'"
proof -
  obtain k1 where u: "user_process k u = Some (k1, q)" and k1: "procs k1 = procs k" "locks k1 = {slot_index d}"
    "slots k1 = slots k" "k_store k1 = k_store k" "k_reserved k1 = k_reserved k"
    using user_process_free [OF k(1-3)] by blast
  obtain k2 where g: "get_process k1 c = Some (k2, Some p)" and k2: "procs k2 = procs k" "locks k2 = {slot_index c, slot_index d}"
    "slots k2 = slots k" "k_store k2 = k_store k" "k_reserved k2 = k_reserved k"
    using get_process_free [of c k1 p] k1 m by auto
  show ?thesis
    using drop_both [OF k2 procs_bound [OF k(3)] procs_bound [OF m(2)] k(2)] u g a k m s k2(4)
    by (simp add: sys_ipc_reply_def Let_def)
qed

lemma resume_replied:
  assumes "procs k i = Some p" "locks k = {}" "p_state p = ReadyReply reply buf"
    and w: "write_to_user (p_page_table p) (k_memory k) buf reply = Some (m', Inr x)"
  shows "\<exists>k1. lock_slot k i = Some (k1, Some p) \<and> (\<forall>u. \<exists>k2 u2. resume_process env k1 i p u = Some (k2, u2, Inr ()) \<and>
    at_rest k ((procs k)(i := Some (p\<lparr>p_registers := (p_registers p)(A0 := length reply), p_state := Runnable\<rparr>)))
      ((k_store k)\<lparr>st_memory := m'\<rparr>) k2 \<and>
    ctx_pid u2 = Some (p_id p) \<and> ctx_sepc u2 = p_pc p \<and> ctx_registers u2 = (p_registers p)(A0 := length reply))"
proof -
  obtain k1 where l: "lock_slot k i = Some (k1, Some p)"
    using lock_slot_free [OF procs_bound [OF assms(1)]] assms(1,2) by auto
  note ls = lock_slot_Some [OF l]
  have "at_rest k ((procs k)(i := Some q)) ((k_store k)\<lparr>st_memory := m'\<rparr>) (drop_slot (set_memory k1 m') i (Some q))" for q
    using ls assms(2) by (simp add: at_rest_def) (simp add: set_memory_def)
  then show ?thesis using l w assms(3) ls(7)
    by (simp add: resume_process_def set_userspace_process_def Let_def)
qed

text \<open>
  C18: a call, end to end.  A process \<open>c\<close> calls a capability that goes back to the idle process
  \<open>d\<close>.  When \<open>d\<close> receives, it gets the method, the bytes of the arguments in its buffer, the
  capability it once granted and the number of the caller.  Whatever the memory is when \<open>d\<close>
  replies, the bytes of its reply are what \<open>c\<close> finds in the buffer it named, with their number in
  \<open>a0\<close>, when the scheduler next resumes it where it called; and the two processes are left as they
  were before, every mutex free.
\<close>

theorem ipc_round_trip:
  fixes k :: "'d kernel"
  assumes "kernel_inv k" "ctx_pid client = Some c" "ctx_pid server = Some d" "c \<noteq> d"
    and "procs k (slot_index c) = Some p" "p_state p = Runnable"
    and "procs k (slot_index d) = Some q" "p_messages q = []" "p_currently_serving q = None"
    and "validate (mem_certs (k_memory k)) cap c = Some (Returned (Inr root))" "certifier root = Some (Userspace d)"
    and "copy_to_kernel (p_page_table p) (k_memory k) args = Some bytes"
    and "write_to_user (p_page_table q) (k_memory k) inbox bytes = Some (m1, Inr ())"
    and "copy_to_kernel (p_page_table q) m2 outbox = Some reply"
    and "write_to_user (p_page_table p) m2 buf reply = Some (m3, Inr ())"
  shows "\<exists>k1 k2 k3 k4 p4. sys_ipc_call env k client cap meth args buf = Some (k1, Inl Yield) \<and>
    sys_ipc_receive k1 server inbox = Some (k2, Inr (Some root, meth, length bytes, Some c)) \<and> k_memory k2 = m1 \<and>
    sys_ipc_reply env (set_memory k2 m2) server outbox = Some (k3, Inr ()) \<and>
    lock_slot k3 (slot_index c) = Some (k4, Some p4) \<and>
    (\<forall>u. \<exists>k5 u5. resume_process env k4 (slot_index c) p4 u = Some (k5, u5, Inr ()) \<and>
      ctx_pid u5 = Some c \<and> ctx_sepc u5 = p_pc p \<and> ctx_registers u5 = (p_registers p)(A0 := length reply) \<and>
      k_memory k5 = m3 \<and> locks k5 = {} \<and>
      procs k5 = (procs k)(slot_index c := Some (p\<lparr>p_registers := (p_registers p)(A0 := length reply)\<rparr>)))"
proof -
  have l: "locks k = {}" and id: "p_id p = c" "p_id q = d"
    using assms(1,5,7) unfolding kernel_inv_def procs_inv_def by (auto simp flip: slot_index_inj)
  let ?msg = "\<lparr>msg_cap = root, msg_method = meth, msg_args = bytes, msg_sender = c\<rparr>"
  obtain k1 where c1: "sys_ipc_call env k client cap meth args buf = Some (k1, Inl Yield)" and k1: "at_rest k ((procs k)
      (slot_index d := Some (q\<lparr>p_messages := [?msg]\<rparr>), slot_index c := Some (p\<lparr>p_state := WaitingForReply (Userspace d) buf\<rparr>)))
      (k_store k) k1"
    using ipc_call_sends [OF l assms(2,5) id(1) assms(10,11,7) _ assms(12), of env meth buf] assms(4,8) by auto
  have n: "slot_index c \<noteq> slot_index d" using assms(4) by simp
  obtain k2 where c2: "sys_ipc_receive k1 server inbox = Some (k2, Inr (Some root, meth, length bytes, Some c))"
    and k2: "at_rest k1 ((procs k1)(slot_index d := Some (q\<lparr>p_messages := [], p_currently_serving := Some c\<rparr>)))
      ((k_store k)\<lparr>st_memory := m1\<rparr>) k2"
    using ipc_receive_takes [of k1 server d "q\<lparr>p_messages := [?msg]\<rparr>" ?msg "[]" inbox m1 "()"] k1 n assms(3,9,13)
    by (auto simp: at_rest_def)
  let ?p = "p\<lparr>p_state := WaitingForReply (Userspace d) buf\<rparr>" and ?q = "q\<lparr>p_messages := [], p_currently_serving := Some c\<rparr>"
  obtain k3 where c3: "sys_ipc_reply env (set_memory k2 m2) server outbox = Some (k3, Inr ())"
    and k3: "at_rest (set_memory k2 m2) ((procs k2)(slot_index c := Some (?p\<lparr>p_state := ReadyReply reply buf\<rparr>),
        slot_index d := Some (?q\<lparr>p_currently_serving := None\<rparr>))) (k_store (set_memory k2 m2)) k3"
    using ipc_reply_answers [of "set_memory k2 m2" server d ?q c ?p buf outbox reply env] k1 k2 n assms(3,4,14) id
    by (auto simp: at_rest_def set_memory_def)
  have mem3: "k_memory k3 = m2" using k3 by (simp add: at_rest_def set_memory_def)
  have p3: "procs k3 = (procs k)(slot_index c := Some (p\<lparr>p_state := ReadyReply reply buf\<rparr>))"
    using k1 k2 k3 n assms(7,8,9) by (auto simp: at_rest_def fun_eq_iff)
  obtain k4 where c4: "lock_slot k3 (slot_index c) = Some (k4, Some (p\<lparr>p_state := ReadyReply reply buf\<rparr>))"
    and r: "\<forall>u. \<exists>k5 u5. resume_process env k4 (slot_index c) (p\<lparr>p_state := ReadyReply reply buf\<rparr>) u = Some (k5, u5, Inr ()) \<and>
      at_rest k3 ((procs k3)(slot_index c := Some (p\<lparr>p_registers := (p_registers p)(A0 := length reply), p_state := Runnable\<rparr>)))
        ((k_store k3)\<lparr>st_memory := m3\<rparr>) k5 \<and>
      ctx_pid u5 = Some c \<and> ctx_sepc u5 = p_pc p \<and> ctx_registers u5 = (p_registers p)(A0 := length reply)"
    using resume_replied [of k3 "slot_index c" "p\<lparr>p_state := ReadyReply reply buf\<rparr>" reply buf m3 "()" env] p3 k3 mem3 assms(15) id
    by (auto simp: at_rest_def)
  have "p\<lparr>p_registers := (p_registers p)(A0 := length reply), p_state := Runnable\<rparr> = p\<lparr>p_registers := (p_registers p)(A0 := length reply)\<rparr>"
    using assms(6) by simp
  with r p3 have "\<exists>k5 u5. resume_process env k4 (slot_index c) (p\<lparr>p_state := ReadyReply reply buf\<rparr>) u = Some (k5, u5, Inr ()) \<and>
      ctx_pid u5 = Some c \<and> ctx_sepc u5 = p_pc p \<and> ctx_registers u5 = (p_registers p)(A0 := length reply) \<and>
      k_memory k5 = m3 \<and> locks k5 = {} \<and>
      procs k5 = (procs k)(slot_index c := Some (p\<lparr>p_registers := (p_registers p)(A0 := length reply)\<rparr>))" for u
    by (elim allE [where x = u]) (auto simp: at_rest_def)
  with c1 c2 c3 c4 k2 show ?thesis by (auto simp: at_rest_def)
qed

subsection \<open>Where a process can stop the kernel\<close>

text \<open>The mutex of the current process is locked, so it cannot be locked again.\<close>

lemma user_process_held:
  assumes "in_call u pid p k"
  shows "user_process k u = None" "get_process k pid = None"
  using assms lock_slot_locked [of "slot_index pid" k]
  by (simp_all add: in_call_def locked_at_def user_process_def ctx_user_def get_process_def)

text \<open>
  C19: a process that touches an address where nothing is mapped, outside of the guard of its
  stack, is not killed as it should be: the handler of page faults still holds the process when it
  locks it again to kill it, and the kernel panics.  (For the stack's guard it kills the process.)
\<close>

theorem forbidden_access_panics:
  assumes "kernel_inv k" "user_runs k u" "ctx_pid u = Some pid" "procs k (slot_index pid) = Some p"
    and "\<forall>vmm \<in> set (p_virtual_memory_mappings p). \<not> in_range (fst vmm) stval"
  shows "if in_range USER_STACK_GUARD stval
    then \<exists>k'. handle_page_fault env k u stval = Some (k', Inl Yield) \<and> procs k' = (procs k)(slot_index pid := Some (p\<lparr>p_state := Finished\<rparr>))
    else on_user_trap env irq k u (PageFault stval) = None"
proof -
  have k: "locked_at k {}" using assms(1) by (simp add: kernel_inv_locked)
  obtain k1 where u: "user_process k u = Some (k1, p)"
    using user_process_free [of k u pid p] assms by (auto simp: kernel_inv_def)
  have s: "in_call u pid p k1 \<and> k_store k1 = k_store k \<and> procs k1 = procs k"
    using in_call_start [OF k assms(2) u] assms(3) by (auto simp: in_call_def)
  have "procs (drop_user k1 u (p\<lparr>p_state := Finished\<rparr>)) = (procs k)(slot_index pid := Some (p\<lparr>p_state := Finished\<rparr>))"
    using s in_call_bound [of u pid p k1] assms(3) by (simp add: drop_user_def)
  moreover have "foldr (\<lambda>vmm rest. if in_range (fst vmm) stval then do { mapped \<leftarrow> is_mapped (p_page_table p) stval;
       if \<not> mapped then Some (Some vmm) else rest } else rest) vs (Some None) = Some None"
    if "\<forall>vmm \<in> set vs. \<not> in_range (fst vmm) stval" for vs :: "nat vmm list"
    using that by (induction vs) auto
  then have "page_fault_mapping p stval = Some None" using assms(5) by (simp add: page_fault_mapping_def)
  ultimately show ?thesis
    using u user_process_held(1) [of u pid p k1] s
    by (auto simp: handle_page_fault_def kill_user_def kill_def on_user_trap_def on_user_trap_impl_def)
qed

text \<open>
  A process that calls a capability it certified itself, or opens a stream of one, stops the kernel
  in the same way.
\<close>

lemma call_to_itself_panics:
  assumes "kernel_inv k" "user_runs k u" "ctx_pid u = Some pid"
    and "validate (mem_certs (k_memory k)) cap pid = Some (Returned (Inr root))" "certifier root = Some (Userspace pid)"
  shows "sys_ipc_call env k u cap meth args buf = None" "sys_ipc_stream env k u cap stream = None"
proof -
  have k: "locked_at k {}" using assms(1) by (simp add: kernel_inv_locked)
  obtain p where p: "procs k (slot_index pid) = Some p" "p_id p = pid" using assms(2,3) by (auto simp: user_runs_def)
  obtain k1 where u: "user_process k u = Some (k1, p)"
    using user_process_free [of k u pid p] assms p by (auto simp: kernel_inv_def)
  have s: "in_call u pid p k1 \<and> k_store k1 = k_store k"
    using in_call_start [OF k assms(2) u] p by auto
  have "validated k1 cap pid = Some (Inr root)" using s assms(4) by (simp add: validated_def)
  then show "sys_ipc_call env k u cap meth args buf = None" "sys_ipc_stream env k u cap stream = None"
    using u s user_process_held(2) [of u pid p k1] assms(5) p(2) by (simp_all add: sys_ipc_call_def sys_ipc_stream_def Let_def)
qed

subsection \<open>Examples\<close>

text \<open>Process 1 holds a capability that process 3 granted it, and calls method 7 of it.\<close>

definition served_cap :: raw_capability where
  "served_cap = RawCapability (fst USER_CAPABILITIES + 3 * PAGE_SIZE)"

definition served_certs :: certificates where
  "served_certs = cert_store (\<lambda>_ _. 0) 3 0 (value_granted (Userspace (ProcessId 1)))"

definition served_kernel :: "unit kernel" where
  "served_kernel = demo_kernel\<lparr>k_store := demo_store\<lparr>st_memory := example_memory\<lparr>mem_certs := served_certs\<rparr>\<rparr>\<rparr>"

definition calling_user :: user_ctx where
  "calling_user = demo_user\<lparr>ctx_registers := (\<lambda>_. 0)(A6 := 1, A0 := as_usize served_cap, A1 := 7, A2 := 1, A4 := 1)\<rparr>"

lemma served_kernel_inv: "kernel_inv served_kernel" "user_runs served_kernel calling_user" "ctx_pid calling_user = Some (ProcessId 1)"
  using demo_kernel_inv demo_user_runs
  by (simp_all add: served_kernel_def kernel_inv_def user_runs_def calling_user_def demo_user_def)

lemma served_valid: "validate served_certs served_cap (ProcessId 1) = Some (Returned (Inr served_cap))"
proof -
  have "read_certificate served_certs served_cap = Some (Userspace (ProcessId 3), Granted (Userspace (ProcessId 1)))"
    by code_simp
  then show ?thesis unfolding validate_def loop_entitles by (rule entitles.granted)
qed

lemma served_certifier: "certifier served_cap = Some (Userspace (ProcessId 3))"
  by code_simp

lemma served_sends:
  "\<exists>k' r'. dispatch_syscall demo_env served_kernel calling_user = Some (k', r', Inl Yield) \<and> procs k' 3 =
     Some ((demo_process 3)\<lparr>p_currently_serving := Some (ProcessId 2),
       p_messages := [\<lparr>msg_cap = served_cap, msg_method = 7, msg_args = [], msg_sender = ProcessId 1\<rparr>]\<rparr>)"
proof -
  let ?q = "(demo_process 3)\<lparr>p_currently_serving := Some (ProcessId 2)\<rparr>"
  have k: "locks served_kernel = {}" "procs served_kernel (slot_index (ProcessId 1)) = Some (demo_process 1)"
    "p_id (demo_process 1) = ProcessId 1" "procs served_kernel (slot_index (ProcessId 3)) = Some ?q"
    "mem_certs (k_memory served_kernel) = served_certs"
    using served_kernel_inv(1) by (simp_all add: kernel_inv_def served_kernel_def demo_procs slot_index_def demo_process_def)
  have a: "copy_to_kernel (p_page_table (demo_process 1)) (k_memory served_kernel) \<lparr>us_ptr = 1, us_len = 0\<rparr> = Some []"
    by (simp add: copy_to_kernel_def)
  obtain k' where c: "sys_ipc_call demo_env served_kernel calling_user served_cap 7 \<lparr>us_ptr = 1, us_len = 0\<rparr>
      \<lparr>us_ptr = 1, us_len = 0\<rparr> = Some (k', Inl Yield)"
    and k': "procs k' 3 = Some (?q\<lparr>p_messages := [\<lparr>msg_cap = served_cap, msg_method = 7, msg_args = [], msg_sender = ProcessId 1\<rparr>]\<rparr>)"
    using ipc_call_sends [OF k(1) served_kernel_inv(3) k(2,3) _ served_certifier k(4) _ a, of served_cap demo_env 7 "\<lparr>us_ptr = 1, us_len = 0\<rparr>"]
      served_valid k(5) by (auto simp: at_rest_def slot_index_def demo_process_def)
  have r: "reg_capability (ctx_registers calling_user) A0 = Inr served_cap"
    "reg_slice (ctx_registers calling_user) A2 A3 = Inr \<lparr>us_ptr = 1, us_len = 0\<rparr>"
    "reg_slice (ctx_registers calling_user) A4 A5 = Inr \<lparr>us_ptr = 1, us_len = 0\<rparr>"
    by code_simp+
  have "dispatch_syscall demo_env served_kernel calling_user = Some (k', ctx_registers calling_user, Inl Yield)"
    using c r by (simp add: dispatch_syscall_def with_result_def with_arg_def calling_user_def)
  with k' show ?thesis by auto
qed

theorem message_needs_capability_witness:
  "\<exists>k' r' res q' c. dispatch_syscall demo_env served_kernel calling_user = Some (k', r', res) \<and> procs k' 3 = Some q' \<and>
     p_messages q' = [\<lparr>msg_cap = served_cap, msg_method = 7, msg_args = [], msg_sender = ProcessId 1\<rparr>] \<and>
     entitles served_certs (Userspace (ProcessId 1)) c served_cap"
proof -
  obtain k' r' res q' where d: "dispatch_syscall demo_env served_kernel calling_user = Some (k', r', res)"
    and q': "procs k' 3 = Some q'" "p_messages q' = [\<lparr>msg_cap = served_cap, msg_method = 7, msg_args = [], msg_sender = ProcessId 1\<rparr>]"
    using served_sends by fastforce
  have q: "procs served_kernel 3 = Some ((demo_process 3)\<lparr>p_currently_serving := Some (ProcessId 2)\<rparr>)"
    by (simp add: served_kernel_def demo_procs)
  show ?thesis
    using message_needs_capability [OF served_kernel_inv d q q'(1)] d q'
    by (auto simp: demo_process_def served_kernel_def)
qed

text \<open>Two processes that share one page: the third echoes what the first sends it.\<close>

definition talking_kernel :: "page_table \<Rightarrow> unit kernel" where
  "talking_kernel t = \<lparr>k_slots = map mutex_new
       [None, Some ((demo_process 1)\<lparr>p_page_table := t\<rparr>), None, Some ((demo_process 3)\<lparr>p_page_table := t\<rparr>), None, None, None, None],
     k_reserved = 3, k_store = demo_store\<lparr>st_memory := example_memory\<lparr>mem_certs := served_certs\<rparr>\<rparr>, k_log = []\<rparr>"

lemma talking_procs:
  "procs (talking_kernel t) i = (if i = 1 then Some ((demo_process 1)\<lparr>p_page_table := t\<rparr>)
     else if i = 3 then Some ((demo_process 3)\<lparr>p_page_table := t\<rparr>) else None)"
  by (auto simp: procs_def talking_kernel_def mutex_new_def nth_Cons' less_Suc_eq numeral_eq_Suc)

lemma talking_kernel_inv: "kernel_inv (talking_kernel t)"
proof -
  have "locks (talking_kernel t) = {}"
    by (auto simp: locks_def talking_kernel_def mutex_new_def nth_Cons' less_Suc_eq numeral_eq_Suc)
  moreover have "procs_inv 3 (procs (talking_kernel t))"
    by (auto simp: procs_inv_def talking_procs demo_process_def slot_index_def PROCESS_COUNT_def clients_def)
  ultimately show ?thesis
    by (simp add: kernel_inv_def slots_def PROCESS_COUNT_def) (simp add: talking_kernel_def)
qed

definition serving_user :: user_ctx where
  "serving_user = demo_user\<lparr>ctx_pid := Some (ProcessId 3)\<rparr>"

lemma one_byte:
  assumes "\<forall>access \<in> {PAGE_R, PAGE_W}. \<forall>a. user_addr t access a = (if 0x3000 \<le> a \<and> a < 0x4000 then Some (0x80500000 + (a - 0x3000)) else None)"
    and "0x3000 \<le> a" "a < 0x4000" "0 < n"
  shows "\<exists>b. copy_to_kernel t m \<lparr>us_ptr = a, us_len = 1\<rparr> = Some [b]"
    "\<exists>m'. write_to_user t m \<lparr>us_ptr = a, us_len = n\<rparr> [b] = Some (m', Inr ())"
  using assms by (simp_all add: copy_to_kernel_def write_to_user_def)

theorem ipc_round_trip_witness:
  "\<exists>t b r m1 k1 k2 k3. sys_ipc_call demo_env (talking_kernel t) demo_user served_cap 7 \<lparr>us_ptr = 0x3000, us_len = 1\<rparr>
      \<lparr>us_ptr = 0x3020, us_len = 8\<rparr> = Some (k1, Inl Yield) \<and>
    sys_ipc_receive k1 serving_user \<lparr>us_ptr = 0x3010, us_len = 4\<rparr> = Some (k2, Inr (Some served_cap, 7, 1, Some (ProcessId 1))) \<and>
    sys_ipc_reply demo_env (set_memory k2 m1) serving_user \<lparr>us_ptr = 0x3010, us_len = 1\<rparr> = Some (k3, Inr ()) \<and>
    copy_to_kernel t m1 \<lparr>us_ptr = 0x3010, us_len = 1\<rparr> = Some [r] \<and> k_memory k2 = m1 \<and>
    write_to_user t (k_memory (talking_kernel t)) \<lparr>us_ptr = 0x3010, us_len = 4\<rparr> [b] = Some (m1, Inr ())"
proof -
  obtain t where u: "\<forall>access \<in> {PAGE_R, PAGE_W}. \<forall>a. user_addr t access a =
      (if 0x3000 \<le> a \<and> a < 0x4000 then Some (0x80500000 + (a - 0x3000)) else None)"
    using one_page by blast
  let ?k = "talking_kernel t" and ?p = "(demo_process 1)\<lparr>p_page_table := t\<rparr>" and ?q = "(demo_process 3)\<lparr>p_page_table := t\<rparr>"
  obtain b where b: "copy_to_kernel (p_page_table ?p) (k_memory ?k) \<lparr>us_ptr = 0x3000, us_len = 1\<rparr> = Some [b]"
    using one_byte(1) [OF u, of "0x3000" 1 "k_memory ?k"] by auto
  obtain m1 where m1: "write_to_user (p_page_table ?q) (k_memory ?k) \<lparr>us_ptr = 0x3010, us_len = 4\<rparr> [b] = Some (m1, Inr ())"
    using one_byte(2) [OF u, of "0x3010" 4 "k_memory ?k" b] by auto
  obtain r where r: "copy_to_kernel (p_page_table ?q) m1 \<lparr>us_ptr = 0x3010, us_len = 1\<rparr> = Some [r]"
    using one_byte(1) [OF u, of "0x3010" 1 m1] by auto
  obtain m3 where m3: "write_to_user (p_page_table ?p) m1 \<lparr>us_ptr = 0x3020, us_len = 8\<rparr> [r] = Some (m3, Inr ())"
    using one_byte(2) [OF u, of "0x3020" 8 m1 r] by auto
  have c: "ctx_pid demo_user = Some (ProcessId 1)" "ctx_pid serving_user = Some (ProcessId 3)" "ProcessId 1 \<noteq> ProcessId 3"
    by (simp_all add: demo_user_def serving_user_def)
  have p: "procs ?k (slot_index (ProcessId 1)) = Some ?p" "p_state ?p = Runnable" "procs ?k (slot_index (ProcessId 3)) = Some ?q"
    "p_messages ?q = []" "p_currently_serving ?q = None"
    by (simp_all add: talking_procs slot_index_def demo_process_def)
  have v: "validate (mem_certs (k_memory ?k)) served_cap (ProcessId 1) = Some (Returned (Inr served_cap))"
    using served_valid by (simp add: talking_kernel_def demo_store_def)
  from ipc_round_trip [OF talking_kernel_inv c p v served_certifier b m1 r m3, of demo_env 7] r m1
  show ?thesis by fastforce
qed

theorem forbidden_access_panics_witness:
  "on_user_trap demo_env (\<lambda>_ st. Some st) demo_kernel demo_user (PageFault 0x50000000) = None"
proof -
  have p: "ctx_pid demo_user = Some (ProcessId 1)" "procs demo_kernel (slot_index (ProcessId 1)) = Some (demo_process 1)"
    "\<forall>vmm \<in> set (p_virtual_memory_mappings (demo_process 1)). \<not> in_range (fst vmm) 0x50000000"
    by (simp_all add: demo_user_def demo_procs slot_index_def demo_process_def)
  have "\<not> in_range USER_STACK_GUARD 0x50000000" by code_simp
  with forbidden_access_panics [OF demo_kernel_inv demo_user_runs p, of demo_env "\<lambda>_ st. Some st"] show ?thesis by simp
qed

end
