(* ===== verification/Drvli.thy ===== *)
theory Drvli
  imports Deravel_Prelude
begin

text \<open>
  The interface language (\<open>codegen/src/lib.rs\<close> and \<open>codegen/src/parse.rs\<close>): from the file
  \<open>interfaces.drvli\<close>, the build scripts generate the system calls and the stubs of messages on both
  sides.  Strings are lists of ASCII characters; a panic of a build script is \<^const>\<open>None\<close>.
\<close>

subsection \<open>Text\<close>

definition strip_prefix :: "string \<Rightarrow> string \<Rightarrow> string option" where
  "strip_prefix prefix s = (if take (length prefix) s = prefix then Some (drop (length prefix) s) else None)"

definition strip_suffix_char :: "char \<Rightarrow> string \<Rightarrow> string" where
  "strip_suffix_char c s = (if s \<noteq> [] \<and> last s = c then butlast s else s)"

definition split_once :: "char \<Rightarrow> string \<Rightarrow> (string \<times> string) option" where
  "split_once c s = (case dropWhile (\<lambda>x. x \<noteq> c) s of
       [] \<Rightarrow> None
     | _ # rest \<Rightarrow> Some (takeWhile (\<lambda>x. x \<noteq> c) s, rest))"

abbreviation newline :: char where
  "newline \<equiv> CHR 0x0A"

text \<open>\<open>str::lines\<close>: the text after the last newline is a line if it is not empty.\<close>

function text_lines :: "string \<Rightarrow> string list" where
  "text_lines s =
     (if s = [] then []
      else case split_once newline s of
        None \<Rightarrow> [s]
      | Some (line, rest) \<Rightarrow> strip_suffix_char (CHR 0x0D) line # text_lines rest)"
  by auto
termination
proof (relation "measure length")
  fix s line :: string and x rest
  assume "s \<noteq> []" "split_once newline s = Some x" "(line, rest) = x"
  then have "length rest < length (dropWhile (\<lambda>x. x \<noteq> newline) s)"
    by (auto simp: split_once_def split: list.splits)
  also have "\<dots> \<le> length s" by (rule length_dropWhile_le)
  finally show "(rest, s) \<in> measure length" by simp
qed simp

declare text_lines.simps [simp del]

text \<open>\<open>split(", ")\<close>.\<close>

function split_commas :: "string \<Rightarrow> string list" where
  "split_commas [] = [[]]"
| "split_commas (c # cs) =
     (if c = CHR '','' \<and> cs \<noteq> [] \<and> hd cs = CHR '' '' then [] # split_commas (tl cs)
      else case split_commas cs of
        [] \<Rightarrow> [[c]]
      | x # xs \<Rightarrow> (c # x) # xs)"
  by pat_completeness auto
termination by (relation "measure length") auto

definition is_blank :: "char \<Rightarrow> bool" where
  "is_blank c \<longleftrightarrow> c \<in> {CHR '' '', CHR 0x09, CHR 0x0A, CHR 0x0B, CHR 0x0C, CHR 0x0D}"

definition trim :: "string \<Rightarrow> string" where
  "trim s = rev (dropWhile is_blank (rev (dropWhile is_blank s)))"

subsection \<open>Types\<close>

datatype dtype =
    TArray dtype | TBytes | TConstArray dtype | TConstPtr dtype | TI8 | TI16 | TI32 | TI64 | TIsize | TNever
  | TOption dtype | TProcessId | TProcessSpawner string | TPtr dtype | TSharedMemory | TStruct string | TText
  | TTuple "dtype list" | TTypedCapability string | TU8 | TU16 | TU32 | TU64 | TUnknown string
  | TUntypedCapability | TUntypedPointer | TUsize

text \<open>The commas at which a type splits into shorter ones.\<close>

lemma split_commas_nonempty [simp]: "split_commas s \<noteq> []"
  by (induction s rule: split_commas.induct) (auto split: list.splits)

lemma split_commas_le: "x \<in> set (split_commas s) \<Longrightarrow> length x \<le> length s"
proof (induction s arbitrary: x rule: split_commas.induct)
  case (2 c cs)
  show ?case
  proof (cases "c = CHR '','' \<and> cs \<noteq> [] \<and> hd cs = CHR '' ''")
    case True
    then have "x = [] \<or> x \<in> set (split_commas (tl cs))" using 2(3) by auto
    then show ?thesis using 2(1) [OF True, of x] by auto
  next
    case False
    obtain y ys where y: "split_commas cs = y # ys" by (cases "split_commas cs") auto
    have l: "length z \<le> length cs" if "z \<in> set (split_commas cs)" for z using 2(2) [OF False that] .
    from y False 2(3) have "x = c # y \<or> x \<in> set ys" by auto
    then show ?thesis using l [of y] l [of x] y by auto
  qed
qed simp

lemma split_commas_shorter:
  "length (split_commas s) \<ge> 2 \<Longrightarrow> x \<in> set (split_commas s) \<Longrightarrow> length x < length s"
proof (induction s arbitrary: x rule: split_commas.induct)
  case (2 c cs)
  show ?case
  proof (cases "c = CHR '','' \<and> cs \<noteq> [] \<and> hd cs = CHR '' ''")
    case True
    then have "x = [] \<or> x \<in> set (split_commas (tl cs))" using 2(4) by auto
    then show ?thesis using split_commas_le [of x "tl cs"] True by (auto simp: less_Suc_eq_le)
  next
    case False
    obtain y ys where y: "split_commas cs = y # ys" by (cases "split_commas cs") auto
    have l: "length z < length cs" if "z \<in> set (split_commas cs)" for z
      using 2(2) [OF False _ that] 2(3) y False by simp
    from y False 2(4) have "x = c # y \<or> x \<in> set ys" by auto
    then show ?thesis using l [of y] l [of x] y by auto
  qed
qed simp

lemma strip_prefix_Some: "strip_prefix p s = Some t \<longleftrightarrow> s = p @ t"
  by (auto simp: strip_prefix_def) (metis append_take_drop_id)

text \<open>
  A comma that no blank follows does not split the text, and the function calls itself on the same
  text for ever: its stack overflows, which aborts the build.
\<close>

function parse_type :: "string \<Rightarrow> dtype run" where
  "parse_type src =
     (if CHR '','' \<in> set src then
        (if length (split_commas src) < 2 then None
         else do { ts \<leftarrow> those (map parse_type (split_commas src)); Some (TTuple ts) })
      else case strip_prefix ''array '' src of Some inner \<Rightarrow> do { t \<leftarrow> parse_type inner; Some (TArray t) } | None \<Rightarrow>
      (case strip_prefix ''const_array '' src of Some inner \<Rightarrow> do { t \<leftarrow> parse_type inner; Some (TConstArray t) } | None \<Rightarrow>
      (case strip_prefix ''const_ptr '' src of Some inner \<Rightarrow> do { t \<leftarrow> parse_type inner; Some (TConstPtr t) } | None \<Rightarrow>
      (case strip_prefix ''option '' src of Some inner \<Rightarrow> do { t \<leftarrow> parse_type inner; Some (TOption t) } | None \<Rightarrow>
      (case strip_prefix ''process_spawner '' src of Some interface \<Rightarrow> Some (TProcessSpawner interface) | None \<Rightarrow>
      (case strip_prefix ''ptr '' src of Some inner \<Rightarrow> do { t \<leftarrow> parse_type inner; Some (TPtr t) } | None \<Rightarrow>
      Some (if src = ''bytes'' then TBytes
        else if src = ''capability'' then TUntypedCapability
        else if src = ''i8'' then TI8
        else if src = ''i16'' then TI16
        else if src = ''i32'' then TI32
        else if src = ''i64'' then TI64
        else if src = ''isize'' then TIsize
        else if src = ''never'' then TNever
        else if src = ''pid'' then TProcessId
        else if src = ''ptr'' then TUntypedPointer
        else if src = ''shared_memory'' then TSharedMemory
        else if src = ''text'' then TText
        else if src = ''u8'' then TU8
        else if src = ''u16'' then TU16
        else if src = ''u32'' then TU32
        else if src = ''u64'' then TU64
        else if src = ''usize'' then TUsize
        else TUnknown src)))))))"
  by auto
termination by (relation "measure length") (auto simp: strip_prefix_Some split_commas_shorter)

declare parse_type.simps [simp del]

subsection \<open>Declarations\<close>

record struct_decl =
  st_name :: string
  st_members :: "(string \<times> dtype) list"

record method_decl =
  me_name :: string
  me_args :: "(string \<times> dtype) list"
  me_return :: "dtype option"

record stream_decl =
  sr_name :: string
  sr_type :: dtype

datatype interface_details = App "(string \<times> dtype) list" "string option" | Plain

record interface_decl =
  if_name :: string
  if_methods :: "method_decl list"
  if_streams :: "stream_decl list"
  if_details :: interface_details

record syscall_decl =
  sy_name :: string
  sy_args :: "(string \<times> dtype) list"
  sy_return :: "dtype option"

record drvli =
  dr_interfaces :: "interface_decl list"
  dr_structs :: "struct_decl list"
  dr_syscalls :: "syscall_decl list"

subsection \<open>Parsing declarations\<close>

definition parse_arg :: "string \<Rightarrow> (string \<times> dtype) run" where
  "parse_arg arg = do {
     (arg_name, arg_type) \<leftarrow> split_once (CHR '' '') arg;
     t \<leftarrow> parse_type arg_type;
     Some (arg_name, t) }"

definition parse_args :: "string \<Rightarrow> (string \<times> dtype) list run" where
  "parse_args args = those (map parse_arg (filter (\<lambda>arg. arg \<noteq> []) (split_commas args)))"

definition parse_return :: "string \<Rightarrow> dtype option run" where
  "parse_return line = (case strip_prefix '' '' line of
       None \<Rightarrow> Some None
     | Some src \<Rightarrow> do { t \<leftarrow> parse_type src; Some (Some t) })"

definition parse_method :: "string \<Rightarrow> method_decl run" where
  "parse_method line = do {
     (name, line) \<leftarrow> split_once (CHR ''('') line;
     (method_args, line) \<leftarrow> split_once (CHR '')'') line;
     args \<leftarrow> parse_args method_args;
     return_type \<leftarrow> parse_return line;
     Some \<lparr>me_name = name, me_args = args, me_return = return_type\<rparr> }"

definition parse_stream :: "string \<Rightarrow> stream_decl run" where
  "parse_stream line = do {
     (name, src) \<leftarrow> split_once (CHR '' '') line;
     t \<leftarrow> parse_type src;
     Some \<lparr>sr_name = name, sr_type = t\<rparr> }"

definition parse_syscall :: "string \<Rightarrow> syscall_decl run" where
  "parse_syscall line = do {
     (name, line) \<leftarrow> split_once (CHR ''('') line;
     (args, return_type) \<leftarrow> split_once (CHR '')'') line;
     args \<leftarrow> parse_args args;
     return_type \<leftarrow> parse_return return_type;
     Some \<lparr>sy_name = name, sy_args = args, sy_return = return_type\<rparr> }"

text \<open>
  The loop of \<open>parse_interface\<close>: the indented lines, and the lines that are left.  The line that
  ends the loop is taken from the lines too, whatever it says.
\<close>

fun parse_body :: "string list \<Rightarrow> (method_decl list \<times> stream_decl list \<times> string list) run" where
  "parse_body [] = Some ([], [], [])"
| "parse_body (line # lines) = (case strip_prefix ''    '' line of
       None \<Rightarrow> Some ([], [], lines)
     | Some line \<Rightarrow>
         (case strip_prefix ''func '' line of
            Some line \<Rightarrow> do {
              m \<leftarrow> parse_method line;
              (methods, streams, rest) \<leftarrow> parse_body lines;
              Some (m # methods, streams, rest) }
          | None \<Rightarrow>
              (case strip_prefix ''stream '' line of
                 Some line \<Rightarrow> do {
                   s \<leftarrow> parse_stream line;
                   (methods, streams, rest) \<leftarrow> parse_body lines;
                   Some (methods, s # streams, rest) }
               | None \<Rightarrow> parse_body lines)))"

definition parse_interface :: "string \<Rightarrow> string list \<Rightarrow> interface_details \<Rightarrow> (interface_decl \<times> string list) run" where
  "parse_interface name lines details = do {
     (methods, streams, rest) \<leftarrow> parse_body lines;
     Some (\<lparr>if_name = name, if_methods = methods, if_streams = streams, if_details = details\<rparr>, rest) }"

text \<open>The members of a \<open>struct\<close>: here the line that ends the loop is only peeked at.\<close>

fun parse_members :: "string list \<Rightarrow> ((string \<times> dtype) list \<times> string list) run" where
  "parse_members [] = Some ([], [])"
| "parse_members (line # lines) = (case strip_prefix ''    '' line of
       None \<Rightarrow> Some ([], line # lines)
     | Some member \<Rightarrow> do {
         (member_name, member_type) \<leftarrow> split_once (CHR '' '') member;
         t \<leftarrow> parse_type member_type;
         (members, rest) \<leftarrow> parse_members lines;
         Some ((member_name, t) # members, rest) })"

text \<open>The head of an \<open>app\<close>: its name, its arguments, and what it implements.\<close>

definition parse_app :: "string \<Rightarrow> (string \<times> interface_details) run" where
  "parse_app line = do {
     let name = takeWhile (\<lambda>c. c \<noteq> CHR ''('' \<and> c \<noteq> CHR '' '') line;
     let line = drop (length name) line;
     (args, line) \<leftarrow> (case strip_prefix ''('' line of
         Some line \<Rightarrow> do {
           (args, line) \<leftarrow> split_once (CHR '')'') line;
           args \<leftarrow> parse_args args;
           Some (args, line) }
       | None \<Rightarrow> Some ([], line));
     let line = trim line;
     Some (name, App args (strip_prefix ''implements '' line)) }"

lemma parse_body_shorter: "parse_body lines = Some (ms, ss, rest) \<Longrightarrow> length rest \<le> length lines"
  by (induction lines arbitrary: ms ss rest) (fastforce simp: run_cases split: option.splits)+

lemma parse_members_shorter: "parse_members lines = Some (ms, rest) \<Longrightarrow> length rest \<le> length lines"
  by (induction lines arbitrary: ms rest) (fastforce simp: run_cases split: option.splits)+

text \<open>The main loop.\<close>

function parse_items :: "string list \<Rightarrow> drvli run" where
  "parse_items [] = Some \<lparr>dr_interfaces = [], dr_structs = [], dr_syscalls = []\<rparr>"
| "parse_items (line # lines) =
     (case strip_prefix ''struct '' line of
        Some name \<Rightarrow>
          (case parse_members lines of
             None \<Rightarrow> None
           | Some (members, rest) \<Rightarrow> do {
               d \<leftarrow> parse_items rest;
               Some (d\<lparr>dr_structs := \<lparr>st_name = name, st_members = members\<rparr> # dr_structs d\<rparr>) })
      | None \<Rightarrow>
     (case strip_prefix ''app '' line of
        Some line \<Rightarrow>
          (case parse_app line of
             None \<Rightarrow> None
           | Some (name, details) \<Rightarrow>
               (case parse_interface name lines details of
                  None \<Rightarrow> None
                | Some (i, rest) \<Rightarrow> do {
                    d \<leftarrow> parse_items rest;
                    Some (d\<lparr>dr_interfaces := i # dr_interfaces d\<rparr>) }))
      | None \<Rightarrow>
     (case strip_prefix ''interface '' line of
        Some name \<Rightarrow>
          (case parse_interface name lines Plain of
             None \<Rightarrow> None
           | Some (i, rest) \<Rightarrow> do {
               d \<leftarrow> parse_items rest;
               Some (d\<lparr>dr_interfaces := i # dr_interfaces d\<rparr>) })
      | None \<Rightarrow>
     (case strip_prefix ''syscall '' line of
        Some line \<Rightarrow> do {
          s \<leftarrow> parse_syscall line;
          d \<leftarrow> parse_items lines;
          Some (d\<lparr>dr_syscalls := s # dr_syscalls d\<rparr>) }
      | None \<Rightarrow> parse_items lines))))"
  by pat_completeness auto
termination
  by (relation "measure length")
    (auto simp: parse_interface_def bind_eq_Some_conv less_Suc_eq_le dest!: parse_body_shorter parse_members_shorter)

subsection \<open>Resolving names\<close>

fun fix_type :: "string list \<Rightarrow> string list \<Rightarrow> dtype \<Rightarrow> dtype run" where
  "fix_type interfaces structs (TArray t) = do { t \<leftarrow> fix_type interfaces structs t; Some (TArray t) }"
| "fix_type interfaces structs (TConstArray t) = do { t \<leftarrow> fix_type interfaces structs t; Some (TConstArray t) }"
| "fix_type interfaces structs (TConstPtr t) = do { t \<leftarrow> fix_type interfaces structs t; Some (TConstPtr t) }"
| "fix_type interfaces structs (TOption t) = do { t \<leftarrow> fix_type interfaces structs t; Some (TOption t) }"
| "fix_type interfaces structs (TPtr t) = do { t \<leftarrow> fix_type interfaces structs t; Some (TPtr t) }"
| "fix_type interfaces structs (TTuple ts) = do { ts \<leftarrow> those (map (fix_type interfaces structs) ts); Some (TTuple ts) }"
| "fix_type interfaces structs (TUnknown name) =
     (if name \<in> set structs then Some (TStruct name)
      else if name \<in> set interfaces then Some (TTypedCapability name)
      else None)"
| "fix_type interfaces structs t = Some t"

definition fix_args :: "string list \<Rightarrow> string list \<Rightarrow> (string \<times> dtype) list \<Rightarrow> (string \<times> dtype) list run" where
  "fix_args interfaces structs args =
     those (map (\<lambda>(name, t). do { t \<leftarrow> fix_type interfaces structs t; Some (name, t) }) args)"

definition fix_return :: "string list \<Rightarrow> string list \<Rightarrow> dtype option \<Rightarrow> dtype option run" where
  "fix_return interfaces structs r = (case r of
       None \<Rightarrow> Some None
     | Some t \<Rightarrow> do { t \<leftarrow> fix_type interfaces structs t; Some (Some t) })"

definition fix_method :: "string list \<Rightarrow> string list \<Rightarrow> method_decl \<Rightarrow> method_decl run" where
  "fix_method interfaces structs m = do {
     args \<leftarrow> fix_args interfaces structs (me_args m);
     return_type \<leftarrow> fix_return interfaces structs (me_return m);
     Some (m\<lparr>me_args := args, me_return := return_type\<rparr>) }"

definition fix_stream :: "string list \<Rightarrow> string list \<Rightarrow> stream_decl \<Rightarrow> stream_decl run" where
  "fix_stream interfaces structs s = do {
     t \<leftarrow> fix_type interfaces structs (sr_type s);
     Some (s\<lparr>sr_type := t\<rparr>) }"

definition fix_details :: "string list \<Rightarrow> string list \<Rightarrow> interface_details \<Rightarrow> interface_details run" where
  "fix_details interfaces structs d = (case d of
       App args implements \<Rightarrow> do { args \<leftarrow> fix_args interfaces structs args; Some (App args implements) }
     | Plain \<Rightarrow> Some Plain)"

definition fix_interface :: "string list \<Rightarrow> string list \<Rightarrow> interface_decl \<Rightarrow> interface_decl run" where
  "fix_interface interfaces structs i = do {
     methods \<leftarrow> those (map (fix_method interfaces structs) (if_methods i));
     streams \<leftarrow> those (map (fix_stream interfaces structs) (if_streams i));
     details \<leftarrow> fix_details interfaces structs (if_details i);
     Some (i\<lparr>if_methods := methods, if_streams := streams, if_details := details\<rparr>) }"

definition fix_struct :: "string list \<Rightarrow> string list \<Rightarrow> struct_decl \<Rightarrow> struct_decl run" where
  "fix_struct interfaces structs s = do {
     members \<leftarrow> fix_args interfaces structs (st_members s);
     Some (s\<lparr>st_members := members\<rparr>) }"

definition fix_syscall :: "string list \<Rightarrow> string list \<Rightarrow> syscall_decl \<Rightarrow> syscall_decl run" where
  "fix_syscall interfaces structs s = do {
     args \<leftarrow> fix_args interfaces structs (sy_args s);
     return_type \<leftarrow> fix_return interfaces structs (sy_return s);
     Some (s\<lparr>sy_args := args, sy_return := return_type\<rparr>) }"

definition fix_drvli :: "string list \<Rightarrow> string list \<Rightarrow> drvli \<Rightarrow> drvli run" where
  "fix_drvli interfaces structs d = do {
     is \<leftarrow> those (map (fix_interface interfaces structs) (dr_interfaces d));
     ss \<leftarrow> those (map (fix_struct interfaces structs) (dr_structs d));
     cs \<leftarrow> those (map (fix_syscall interfaces structs) (dr_syscalls d));
     Some \<lparr>dr_interfaces = is, dr_structs = ss, dr_syscalls = cs\<rparr> }"

definition parse_drvli :: "string \<Rightarrow> drvli run" where
  "parse_drvli src = do {
     d \<leftarrow> parse_items (text_lines src);
     fix_drvli (map if_name (dr_interfaces d)) (map st_name (dr_structs d)) d }"

subsection \<open>Names in the generated code\<close>

definition rust_escape_name :: "string \<Rightarrow> string" where
  "rust_escape_name name =
     (if name = ''type'' then ''type_'' else if name = ''yield'' then ''yield_'' else name)"

fun split_char :: "char \<Rightarrow> string \<Rightarrow> string list" where
  "split_char c [] = [[]]"
| "split_char c (x # xs) =
     (if x = c then [] # split_char c xs
      else case split_char c xs of
        [] \<Rightarrow> [[x]]
      | y # ys \<Rightarrow> (x # y) # ys)"

definition to_ascii_uppercase :: "char \<Rightarrow> char" where
  "to_ascii_uppercase c =
     (let n = of_char c :: nat in if 97 \<le> n \<and> n \<le> 122 then char_of (n - 32) else c)"

text \<open>An empty segment has no first byte: the index is out of range.\<close>

fun camel_segments :: "string list \<Rightarrow> string run" where
  "camel_segments [] = Some []"
| "camel_segments ([] # rest) = None"
| "camel_segments ((c # cs) # rest) = do {
     camel \<leftarrow> camel_segments rest;
     Some (to_ascii_uppercase c # cs @ camel) }"

definition camel_case :: "string \<Rightarrow> string run" where
  "camel_case name = camel_segments (split_char (CHR ''_'') name)"

subsection \<open>Types in the generated code\<close>

datatype rust_ctx = CtxArg | CtxMember | CtxNormalRet | CtxGrantableRet | CtxSyscallArg | CtxSyscallKernelArg | CtxSyscallRet | CtxStream

definition is_ret :: "rust_ctx \<Rightarrow> bool" where
  "is_ret ctx \<longleftrightarrow> ctx = CtxNormalRet \<or> ctx = CtxGrantableRet"

fun rust_type :: "dtype \<Rightarrow> rust_ctx \<Rightarrow> string run" where
  "rust_type (TArray t) ctx =
     (if ctx = CtxSyscallKernelArg then do { s \<leftarrow> rust_type t ctx; Some (''UserPtr<['' @ s @ '']>'') } else None)"
| "rust_type (TConstArray t) ctx =
     (if ctx = CtxSyscallKernelArg then do { s \<leftarrow> rust_type t ctx; Some (''UserPtr<['' @ s @ '']>'') } else None)"
| "rust_type TBytes ctx = (if ctx = CtxArg then Some ''&[u8]'' else if is_ret ctx then Some ''Vec<u8>'' else None)"
| "rust_type (TConstPtr t) ctx = do { s \<leftarrow> rust_type t ctx; Some (''*const '' @ s) }"
| "rust_type TI8 ctx = Some ''i8''"
| "rust_type TI16 ctx = Some ''i16''"
| "rust_type TI32 ctx = Some ''i32''"
| "rust_type TI64 ctx = Some ''i64''"
| "rust_type TIsize ctx = Some ''isize''"
| "rust_type TNever ctx = Some ''!''"
| "rust_type (TOption t) ctx = do { s \<leftarrow> rust_type t ctx; Some (''Option<'' @ s @ ''>'') }"
| "rust_type (TPtr t) ctx =
     (if ctx = CtxSyscallKernelArg then do { s \<leftarrow> rust_type t ctx; Some (''UserPtr<'' @ s @ ''>'') }
      else do { s \<leftarrow> rust_type t ctx; Some (''*mut '' @ s) })"
| "rust_type TProcessId ctx = (if ctx = CtxSyscallRet then Some ''ProcessId'' else None)"
| "rust_type (TProcessSpawner name) ctx = do { s \<leftarrow> camel_case name; Some (''Capability<'' @ s @ ''Spawner>'') }"
| "rust_type TSharedMemory ctx = Some ''Capability<SharedMemory>''"
| "rust_type (TStruct name) ctx = camel_case name"
| "rust_type (TTypedCapability name) ctx = do { s \<leftarrow> camel_case name; Some (''Capability<'' @ s @ ''>'') }"
| "rust_type TText ctx = (if ctx = CtxArg then Some ''&str'' else if is_ret ctx then Some ''String'' else None)"
| "rust_type TU8 ctx = Some ''u8''"
| "rust_type TU16 ctx = Some ''u16''"
| "rust_type TU32 ctx = Some ''u32''"
| "rust_type TU64 ctx = Some ''u64''"
| "rust_type TUntypedCapability ctx = Some ''RawCapability''"
| "rust_type TUntypedPointer ctx = Some ''*mut ()''"
| "rust_type TUsize ctx = Some ''usize''"
| "rust_type (TTuple ts) ctx = None"
| "rust_type (TUnknown name) ctx = None"

definition rust_borrow_or_copy :: "dtype \<Rightarrow> string" where
  "rust_borrow_or_copy t = (case t of TText \<Rightarrow> ''&'' | TBytes \<Rightarrow> ''&'' | _ \<Rightarrow> [])"

text \<open>The registers of an argument and of a result.\<close>

definition split_syscall_arg :: "dtype \<Rightarrow> (string \<times> dtype) list" where
  "split_syscall_arg t = (case t of
       TArray inner \<Rightarrow> [(''_ptr'', TPtr inner), (''_size'', TUsize)]
     | TConstArray inner \<Rightarrow> [(''_ptr'', TConstPtr inner), (''_size'', TUsize)]
     | _ \<Rightarrow> [([], t)])"

definition split_syscall_ret :: "dtype \<Rightarrow> dtype list" where
  "split_syscall_ret t = (case t of TTuple inner \<Rightarrow> inner | _ \<Rightarrow> [t])"

end
