(* ===== verification/Drvli_Correct.thy ===== *)
theory Drvli_Correct
  imports Drvli
begin

text \<open>
  The parser of the interface language reads back what a printer writes.  The printer is not in
  the program; it says what the language is.
\<close>

subsection \<open>The printer\<close>

definition intercalate :: "string \<Rightarrow> string list \<Rightarrow> string" where
  "intercalate sep xs = (case xs of [] \<Rightarrow> [] | x # xs \<Rightarrow> x @ concat (map (\<lambda>y. sep @ y) xs))"

fun show_type :: "dtype \<Rightarrow> string" where
  "show_type (TArray t) = ''array '' @ show_type t"
| "show_type TBytes = ''bytes''"
| "show_type (TConstArray t) = ''const_array '' @ show_type t"
| "show_type (TConstPtr t) = ''const_ptr '' @ show_type t"
| "show_type TI8 = ''i8''"
| "show_type TI16 = ''i16''"
| "show_type TI32 = ''i32''"
| "show_type TI64 = ''i64''"
| "show_type TIsize = ''isize''"
| "show_type TNever = ''never''"
| "show_type (TOption t) = ''option '' @ show_type t"
| "show_type TProcessId = ''pid''"
| "show_type (TProcessSpawner name) = ''process_spawner '' @ name"
| "show_type (TPtr t) = ''ptr '' @ show_type t"
| "show_type TSharedMemory = ''shared_memory''"
| "show_type (TStruct name) = name"
| "show_type TText = ''text''"
| "show_type (TTuple ts) = intercalate '', '' (map show_type ts)"
| "show_type (TTypedCapability name) = name"
| "show_type TU8 = ''u8''"
| "show_type TU16 = ''u16''"
| "show_type TU32 = ''u32''"
| "show_type TU64 = ''u64''"
| "show_type (TUnknown name) = name"
| "show_type TUntypedCapability = ''capability''"
| "show_type TUntypedPointer = ''ptr''"
| "show_type TUsize = ''usize''"

definition show_arg :: "string \<times> dtype \<Rightarrow> string" where
  "show_arg a = fst a @ '' '' @ show_type (snd a)"

definition show_args :: "(string \<times> dtype) list \<Rightarrow> string" where
  "show_args args = intercalate '', '' (map show_arg args)"

definition show_return :: "dtype option \<Rightarrow> string" where
  "show_return r = (case r of None \<Rightarrow> [] | Some t \<Rightarrow> '' '' @ show_type t)"

definition show_signature :: "string \<Rightarrow> (string \<times> dtype) list \<Rightarrow> dtype option \<Rightarrow> string" where
  "show_signature name args r = name @ ''('' @ show_args args @ '')'' @ show_return r"

definition method_line :: "method_decl \<Rightarrow> string" where
  "method_line m = ''    func '' @ show_signature (me_name m) (me_args m) (me_return m)"

definition stream_line :: "stream_decl \<Rightarrow> string" where
  "stream_line s = ''    stream '' @ sr_name s @ '' '' @ show_type (sr_type s)"

definition member_line :: "string \<times> dtype \<Rightarrow> string" where
  "member_line a = ''    '' @ show_arg a"

definition head_line :: "interface_decl \<Rightarrow> string" where
  "head_line i = (case if_details i of
       Plain \<Rightarrow> ''interface '' @ if_name i
     | App args implements \<Rightarrow> ''app '' @ if_name i @ ''('' @ show_args args @ '')'' @
         (case implements of None \<Rightarrow> [] | Some e \<Rightarrow> '' implements '' @ e))"

definition interface_lines :: "interface_decl \<Rightarrow> string list" where
  "interface_lines i = head_line i # map method_line (if_methods i) @ map stream_line (if_streams i) @ [[]]"

definition struct_lines :: "struct_decl \<Rightarrow> string list" where
  "struct_lines s = (''struct '' @ st_name s) # map member_line (st_members s)"

definition syscall_line :: "syscall_decl \<Rightarrow> string" where
  "syscall_line s = ''syscall '' @ show_signature (sy_name s) (sy_args s) (sy_return s)"

definition drvli_lines :: "drvli \<Rightarrow> string list" where
  "drvli_lines d = concat (map struct_lines (dr_structs d)) @ concat (map interface_lines (dr_interfaces d)) @
     map syscall_line (dr_syscalls d)"

definition print_drvli :: "drvli \<Rightarrow> string" where
  "print_drvli d = concat (map (\<lambda>l. l @ [newline]) (drvli_lines d))"

subsection \<open>What can be printed\<close>

definition name_ok :: "string \<Rightarrow> bool" where
  "name_ok name \<longleftrightarrow> name \<noteq> [] \<and> (\<forall>c \<in> set name. \<not> is_blank c \<and> c \<notin> {CHR '','', CHR ''('', CHR '')''})"

definition type_words :: "string list" where
  "type_words = [''bytes'', ''capability'', ''i8'', ''i16'', ''i32'', ''i64'', ''isize'', ''never'', ''pid'', ''ptr'',
     ''shared_memory'', ''text'', ''u8'', ''u16'', ''u32'', ''u64'', ''usize'']"

fun plain_ok :: "string list \<Rightarrow> string list \<Rightarrow> dtype \<Rightarrow> bool" where
  "plain_ok is ss (TArray t) = plain_ok is ss t"
| "plain_ok is ss (TConstArray t) = plain_ok is ss t"
| "plain_ok is ss (TConstPtr t) = plain_ok is ss t"
| "plain_ok is ss (TOption t) = plain_ok is ss t"
| "plain_ok is ss (TPtr t) = plain_ok is ss t"
| "plain_ok is ss (TProcessSpawner name) = name_ok name"
| "plain_ok is ss (TStruct name) = (name_ok name \<and> name \<notin> set type_words \<and> name \<in> set ss)"
| "plain_ok is ss (TTypedCapability name) = (name_ok name \<and> name \<notin> set type_words \<and> name \<in> set is \<and> name \<notin> set ss)"
| "plain_ok is ss (TTuple ts) = False"
| "plain_ok is ss (TUnknown name) = False"
| "plain_ok is ss t = True"

definition type_ok :: "string list \<Rightarrow> string list \<Rightarrow> dtype \<Rightarrow> bool" where
  "type_ok is ss t \<longleftrightarrow> (case t of TTuple ts \<Rightarrow> length ts \<ge> 2 \<and> (\<forall>t \<in> set ts. plain_ok is ss t) | _ \<Rightarrow> plain_ok is ss t)"

definition args_ok :: "string list \<Rightarrow> string list \<Rightarrow> (string \<times> dtype) list \<Rightarrow> bool" where
  "args_ok is ss args \<longleftrightarrow> (\<forall>(name, t) \<in> set args. name_ok name \<and> plain_ok is ss t)"

definition return_ok :: "string list \<Rightarrow> string list \<Rightarrow> dtype option \<Rightarrow> bool" where
  "return_ok is ss r \<longleftrightarrow> (\<forall>t. r = Some t \<longrightarrow> type_ok is ss t)"

definition signature_ok :: "string list \<Rightarrow> string list \<Rightarrow> string \<Rightarrow> (string \<times> dtype) list \<Rightarrow> dtype option \<Rightarrow> bool" where
  "signature_ok is ss name args r \<longleftrightarrow> name_ok name \<and> args_ok is ss args \<and> return_ok is ss r"

definition interface_ok :: "string list \<Rightarrow> string list \<Rightarrow> interface_decl \<Rightarrow> bool" where
  "interface_ok is ss i \<longleftrightarrow> name_ok (if_name i) \<and>
     (\<forall>m \<in> set (if_methods i). signature_ok is ss (me_name m) (me_args m) (me_return m)) \<and>
     (\<forall>s \<in> set (if_streams i). name_ok (sr_name s) \<and> type_ok is ss (sr_type s)) \<and>
     (case if_details i of Plain \<Rightarrow> True
      | App args implements \<Rightarrow> args_ok is ss args \<and> (\<forall>e. implements = Some e \<longrightarrow> name_ok e))"

definition struct_ok :: "string list \<Rightarrow> string list \<Rightarrow> struct_decl \<Rightarrow> bool" where
  "struct_ok is ss s \<longleftrightarrow> name_ok (st_name s) \<and> (\<forall>(name, t) \<in> set (st_members s). name_ok name \<and> type_ok is ss t)"

definition drvli_ok :: "drvli \<Rightarrow> bool" where
  "drvli_ok d \<longleftrightarrow> (let is = map if_name (dr_interfaces d); ss = map st_name (dr_structs d) in
     (\<forall>i \<in> set (dr_interfaces d). interface_ok is ss i) \<and> (\<forall>s \<in> set (dr_structs d). struct_ok is ss s) \<and>
     (\<forall>s \<in> set (dr_syscalls d). signature_ok is ss (sy_name s) (sy_args s) (sy_return s)))"

subsection \<open>Reading text\<close>

lemma split_once_append: "c \<notin> set a \<Longrightarrow> split_once c (a @ c # b) = Some (a, b)"
proof -
  assume "c \<notin> set a"
  then have "\<forall>x \<in> set a. x \<noteq> c" by blast
  then have "dropWhile (\<lambda>x. x \<noteq> c) (a @ c # b) = c # b" "takeWhile (\<lambda>x. x \<noteq> c) (a @ c # b) = a"
    by (simp_all add: dropWhile_append2 takeWhile_append2)
  then show ?thesis by (simp add: split_once_def)
qed

lemma split_commas_no_comma: "CHR '','' \<notin> set s \<Longrightarrow> split_commas s = [s]"
  by (induction s rule: split_commas.induct) auto

lemma split_commas_append:
  "CHR '','' \<notin> set a \<Longrightarrow> split_commas (a @ '', '' @ b) = a # split_commas b"
  by (induction a) auto

lemma split_commas_intercalate:
  "xs \<noteq> [] \<Longrightarrow> \<forall>x \<in> set xs. CHR '','' \<notin> set x \<Longrightarrow> split_commas (intercalate '', '' xs) = xs"
proof (induction xs)
  case (Cons x xs)
  show ?case
  proof (cases xs)
    case Nil
    with Cons.prems show ?thesis by (simp add: intercalate_def split_commas_no_comma)
  next
    case (Cons y ys)
    then have "intercalate '', '' (x # xs) = x @ '', '' @ intercalate '', '' xs" by (simp add: intercalate_def)
    with Cons Cons.prems Cons.IH show ?thesis using split_commas_append [of x "intercalate '', '' xs"] by simp
  qed
qed simp

lemma text_lines_print:
  "\<forall>l \<in> set ls. newline \<notin> set l \<and> CHR 0x0D \<notin> set l \<Longrightarrow> text_lines (concat (map (\<lambda>l. l @ [newline]) ls)) = ls"
proof (induction ls)
  case (Cons l ls)
  have "strip_suffix_char (CHR 0x0D) l = l"
    using Cons.prems by (auto simp: strip_suffix_char_def dest: last_in_set)
  then show ?case using Cons
    by (subst text_lines.simps) (simp add: split_once_append)
qed (simp add: text_lines.simps)

subsection \<open>Types\<close>

text \<open>What the parser makes of a type, before names are resolved.\<close>

fun raw_type :: "dtype \<Rightarrow> dtype" where
  "raw_type (TArray t) = TArray (raw_type t)"
| "raw_type (TConstArray t) = TConstArray (raw_type t)"
| "raw_type (TConstPtr t) = TConstPtr (raw_type t)"
| "raw_type (TOption t) = TOption (raw_type t)"
| "raw_type (TPtr t) = TPtr (raw_type t)"
| "raw_type (TTuple ts) = TTuple (map raw_type ts)"
| "raw_type (TStruct name) = TUnknown name"
| "raw_type (TTypedCapability name) = TUnknown name"
| "raw_type t = t"

definition clean :: "string \<Rightarrow> bool" where
  "clean s \<longleftrightarrow> (\<forall>c \<in> set s. c \<notin> {CHR '','', CHR ''('', CHR '')'', newline, CHR 0x0D})"

lemma clean_simps [simp]:
  "clean []" "clean (c # s) \<longleftrightarrow> c \<notin> {CHR '','', CHR ''('', CHR '')'', newline, CHR 0x0D} \<and> clean s"
  "clean (a @ b) \<longleftrightarrow> clean a \<and> clean b"
  by (auto simp: clean_def)

lemma clean_name: "name_ok n \<Longrightarrow> clean n"
  by (auto simp: clean_def name_ok_def is_blank_def)

lemma clean_chars: "clean s \<Longrightarrow> CHR '','' \<notin> set s \<and> CHR ''('' \<notin> set s \<and> CHR '')'' \<notin> set s \<and> newline \<notin> set s \<and> CHR 0x0D \<notin> set s"
  by (auto simp: clean_def)

lemma name_ok_nonempty: "name_ok n \<Longrightarrow> n \<noteq> []"
  by (simp add: name_ok_def)

lemma show_type_clean: "plain_ok is ss t \<Longrightarrow> clean (show_type t) \<and> show_type t \<noteq> []"
proof (induction t)
  case (TProcessSpawner n)
  then show ?case by (simp add: clean_name)
qed (simp_all add: clean_name name_ok_nonempty)

lemma name_no_prefix:
  assumes "name_ok n" "CHR '' '' \<in> set p"
  shows "strip_prefix p n = None"
  using assms by (cases "strip_prefix p n") (auto simp: strip_prefix_Some name_ok_def is_blank_def)

lemma parse_word: "name_ok n \<Longrightarrow> n \<notin> set type_words \<Longrightarrow> parse_type n = Some (TUnknown n)"
  by (subst parse_type.simps)
    (simp add: name_no_prefix clean_chars [OF clean_name] type_words_def)

lemma show_plain_chars: "plain_ok is ss t \<Longrightarrow> CHR '','' \<notin> set (show_type t)"
  using show_type_clean [of "is" ss t] clean_chars by blast

lemma parse_show_plain: "plain_ok is ss t \<Longrightarrow> parse_type (show_type t) = Some (raw_type t)"
proof (induction t)
  case (TProcessSpawner n)
  then show ?case
    by (subst parse_type.simps) (simp add: clean_chars [OF clean_name] strip_prefix_def)
next
  case (TStruct n)
  then show ?case by (simp add: parse_word)
next
  case (TTypedCapability n)
  then show ?case by (simp add: parse_word)
qed (subst parse_type.simps, simp add: strip_prefix_def show_plain_chars)+

lemma those_map_Some: "\<forall>x \<in> set xs. f x = Some (g x) \<Longrightarrow> those (map f xs) = Some (map g xs)"
  by (induction xs) auto

lemma parse_show_type:
  assumes "type_ok is ss t"
  shows "parse_type (show_type t) = Some (raw_type t)"
proof (cases "\<exists>ts. t = TTuple ts")
  case True
  then obtain ts where t: "t = TTuple ts" by blast
  then have ts: "length ts \<ge> 2" "\<forall>t \<in> set ts. plain_ok is ss t" using assms by (auto simp: type_ok_def)
  have sp: "split_commas (show_type t) = map show_type ts"
    unfolding t show_type.simps
    by (rule split_commas_intercalate) (use ts show_type_clean clean_chars in \<open>fastforce+\<close>)
  obtain a b cs where abc: "ts = a # b # cs" using ts(1) by (cases ts; cases "tl ts") auto
  then have "CHR '','' \<in> set (show_type t)" using t by (simp add: intercalate_def)
  moreover have "those (map (\<lambda>t. parse_type (show_type t)) ts) = Some (map raw_type ts)"
    by (rule those_map_Some) (use ts(2) parse_show_plain in blast)
  ultimately show ?thesis using sp ts(1)
    by (subst parse_type.simps) (simp add: t comp_def)
next
  case False
  then have "plain_ok is ss t" using assms by (cases t) (auto simp: type_ok_def)
  then show ?thesis by (rule parse_show_plain)
qed

lemma fix_raw_plain: "plain_ok is ss t \<Longrightarrow> fix_type is ss (raw_type t) = Some t"
  by (induction t) auto

lemma fix_raw_type:
  assumes "type_ok is ss t"
  shows "fix_type is ss (raw_type t) = Some t"
proof (cases "\<exists>ts. t = TTuple ts")
  case True
  then obtain ts where t: "t = TTuple ts" by blast
  then have "those (map (\<lambda>t. fix_type is ss (raw_type t)) ts) = Some (map (\<lambda>t. t) ts)"
    by (intro those_map_Some) (use assms fix_raw_plain in \<open>auto simp: type_ok_def\<close>)
  with t show ?thesis by (simp add: comp_def)
next
  case False
  then have "plain_ok is ss t" using assms by (cases t) (auto simp: type_ok_def)
  then show ?thesis by (rule fix_raw_plain)
qed

subsection \<open>Signatures\<close>

lemma set_intercalate: "set (intercalate sep xs) \<subseteq> set sep \<union> \<Union> (set ` set xs)"
  by (cases xs) (auto simp: intercalate_def)

definition raw_args :: "(string \<times> dtype) list \<Rightarrow> (string \<times> dtype) list" where
  "raw_args args = map (\<lambda>(name, t). (name, raw_type t)) args"

lemma show_arg_clean: "args_ok is ss args \<Longrightarrow> a \<in> set args \<Longrightarrow> clean (show_arg a) \<and> show_arg a \<noteq> []"
  using show_type_clean clean_name by (fastforce simp: args_ok_def show_arg_def)

lemma show_type_chars:
  assumes "type_ok is ss t" "c \<in> {CHR '')'', newline, CHR 0x0D}"
  shows "c \<notin> set (show_type t)"
proof (cases "\<exists>ts. t = TTuple ts")
  case True
  then obtain ts where t: "t = TTuple ts" by blast
  have "c \<notin> set (show_type u)" if "u \<in> set ts" for u
    using that assms show_type_clean [of "is" ss u] t by (auto simp: type_ok_def clean_def)
  moreover have "c \<notin> set '', ''" using assms(2) by auto
  ultimately show ?thesis using set_intercalate [of "'', ''" "map show_type ts"] t by fastforce
next
  case False
  then have "plain_ok is ss t" using assms by (cases t) (auto simp: type_ok_def)
  then show ?thesis using show_type_clean [of "is" ss t] assms(2) by (auto simp: clean_def)
qed

lemma show_args_chars:
  assumes "args_ok is ss args" "c \<in> {CHR '')'', newline, CHR 0x0D}"
  shows "c \<notin> set (show_args args)"
proof -
  have "c \<notin> set (show_arg a)" if "a \<in> set args" for a
    using that assms show_arg_clean [of "is" ss args a] by (auto simp: clean_def)
  moreover have "c \<notin> set '', ''" using assms(2) by auto
  ultimately show ?thesis using set_intercalate [of "'', ''" "map show_arg args"] by (fastforce simp: show_args_def)
qed

lemma show_return_chars:
  "return_ok is ss r \<Longrightarrow> c \<in> {CHR '')'', newline, CHR 0x0D} \<Longrightarrow> c \<notin> set (show_return r)"
  using show_type_chars by (auto simp: show_return_def return_ok_def split: option.splits)

lemma parse_show_arg:
  "name_ok n \<Longrightarrow> type_ok is ss t \<Longrightarrow> split_once (CHR '' '') (show_arg (n, t)) = Some (n, show_type t) \<and>
     parse_type (show_type t) = Some (raw_type t)"
  using split_once_append [of "CHR '' ''" n "show_type t"] parse_show_type
  by (auto simp: show_arg_def name_ok_def is_blank_def)

lemma parse_show_args:
  assumes "args_ok is ss args"
  shows "parse_args (show_args args) = Some (raw_args args)"
proof (cases args)
  case Nil
  then show ?thesis by (simp add: show_args_def intercalate_def parse_args_def raw_args_def)
next
  case (Cons a as)
  have "CHR '','' \<notin> set (show_arg x)" if "x \<in> set args" for x
    using clean_chars [of "show_arg x"] show_arg_clean [OF assms that] by blast
  then have "split_commas (show_args args) = map show_arg args"
    unfolding show_args_def using Cons by (intro split_commas_intercalate) auto
  moreover have "filter (\<lambda>arg. arg \<noteq> []) (map show_arg args) = map show_arg args"
    using show_arg_clean [OF assms] by (auto simp: filter_id_conv)
  moreover have "parse_arg (show_arg x) = Some (case x of (n, t) \<Rightarrow> (n, raw_type t))" if "x \<in> set args" for x
  proof -
    obtain n t where x: "x = (n, t)" by (cases x)
    then have "name_ok n" "plain_ok is ss t" using that assms by (auto simp: args_ok_def)
    moreover from this(2) have "type_ok is ss t" by (cases t) (auto simp: type_ok_def)
    ultimately show ?thesis using parse_show_arg [of n "is" ss t] x by (simp add: parse_arg_def)
  qed
  then have "those (map (\<lambda>x. parse_arg (show_arg x)) args) = Some (map (\<lambda>x. case x of (n, t) \<Rightarrow> (n, raw_type t)) args)"
    by (intro those_map_Some) blast
  ultimately show ?thesis by (simp add: parse_args_def raw_args_def comp_def)
qed

lemma parse_show_return: "return_ok is ss r \<Longrightarrow> parse_return (show_return r) = Some (map_option raw_type r)"
  using parse_show_type by (auto simp: parse_return_def show_return_def return_ok_def strip_prefix_def split: option.splits)

lemma split_signature:
  assumes "signature_ok is ss name args r"
  shows "split_once (CHR ''('') (show_signature name args r) = Some (name, show_args args @ '')'' @ show_return r)"
    "split_once (CHR '')'') (show_args args @ '')'' @ show_return r) = Some (show_args args, show_return r)"
  using assms split_once_append [of "CHR ''(''" name] split_once_append [of "CHR '')''" "show_args args"]
    show_args_chars [of "is" ss args "CHR '')''"]
  by (auto simp: signature_ok_def name_ok_def show_signature_def)

definition raw_method :: "method_decl \<Rightarrow> method_decl" where
  "raw_method m = m\<lparr>me_args := raw_args (me_args m), me_return := map_option raw_type (me_return m)\<rparr>"

definition raw_syscall :: "syscall_decl \<Rightarrow> syscall_decl" where
  "raw_syscall s = s\<lparr>sy_args := raw_args (sy_args s), sy_return := map_option raw_type (sy_return s)\<rparr>"

definition raw_stream :: "stream_decl \<Rightarrow> stream_decl" where
  "raw_stream s = s\<lparr>sr_type := raw_type (sr_type s)\<rparr>"

lemma parse_show_method:
  "signature_ok is ss (me_name m) (me_args m) (me_return m) \<Longrightarrow>
   parse_method (show_signature (me_name m) (me_args m) (me_return m)) = Some (raw_method m)"
  using split_signature [of "is" ss "me_name m" "me_args m" "me_return m"] parse_show_args parse_show_return
  by (auto simp: parse_method_def raw_method_def signature_ok_def)

lemma parse_show_syscall:
  "signature_ok is ss (sy_name s) (sy_args s) (sy_return s) \<Longrightarrow>
   parse_syscall (show_signature (sy_name s) (sy_args s) (sy_return s)) = Some (raw_syscall s)"
  using split_signature [of "is" ss "sy_name s" "sy_args s" "sy_return s"] parse_show_args parse_show_return
  by (auto simp: parse_syscall_def raw_syscall_def signature_ok_def)

lemma parse_show_stream:
  "name_ok (sr_name s) \<Longrightarrow> type_ok is ss (sr_type s) \<Longrightarrow>
   parse_stream (sr_name s @ '' '' @ show_type (sr_type s)) = Some (raw_stream s)"
  using parse_show_arg [of "sr_name s" "is" ss "sr_type s"] by (simp add: parse_stream_def raw_stream_def show_arg_def)

subsection \<open>Blocks\<close>

lemma parse_show_body:
  assumes "\<forall>m \<in> set ms. signature_ok is ss (me_name m) (me_args m) (me_return m)"
    and "\<forall>s \<in> set strs. name_ok (sr_name s) \<and> type_ok is ss (sr_type s)"
  shows "parse_body (map method_line ms @ map stream_line strs @ [] # rest) = Some (map raw_method ms, map raw_stream strs, rest)"
proof -
  have streams: "parse_body (map stream_line strs @ [] # rest) = Some ([], map raw_stream strs, rest)"
    using assms(2)
  proof (induction strs)
    case (Cons s strs)
    then have "parse_stream (sr_name s @ '' '' @ show_type (sr_type s)) = Some (raw_stream s)" using parse_show_stream by auto
    with Cons show ?case by (simp add: stream_line_def strip_prefix_def)
  qed (simp add: strip_prefix_def)
  show ?thesis using assms(1)
  proof (induction ms)
    case (Cons m ms)
    then have "parse_method (show_signature (me_name m) (me_args m) (me_return m)) = Some (raw_method m)"
      using parse_show_method by auto
    with Cons show ?case by (simp add: method_line_def strip_prefix_def)
  qed (simp add: streams)
qed

lemma parse_show_members:
  assumes "\<forall>(name, t) \<in> set members. name_ok name \<and> type_ok is ss t"
    and "rest = [] \<or> strip_prefix ''    '' (hd rest) = None"
  shows "parse_members (map member_line members @ rest) = Some (raw_args members, rest)"
  using assms(1)
proof (induction members)
  case Nil
  then show ?case using assms(2) by (cases rest) (auto simp: raw_args_def)
next
  case (Cons a members)
  obtain n t where a: "a = (n, t)" by (cases a)
  then have "name_ok n" "type_ok is ss t" using Cons.prems by auto
  from parse_show_arg [OF this] a Cons show ?case
    by (simp add: member_line_def strip_prefix_def raw_args_def)
qed

definition raw_details :: "interface_details \<Rightarrow> interface_details" where
  "raw_details d = (case d of Plain \<Rightarrow> Plain | App args implements \<Rightarrow> App (raw_args args) implements)"

definition raw_interface :: "interface_decl \<Rightarrow> interface_decl" where
  "raw_interface i = i\<lparr>if_methods := map raw_method (if_methods i), if_streams := map raw_stream (if_streams i),
     if_details := raw_details (if_details i)\<rparr>"

definition raw_struct :: "struct_decl \<Rightarrow> struct_decl" where
  "raw_struct s = s\<lparr>st_members := raw_args (st_members s)\<rparr>"

lemma drop_blanks_name: "name_ok e \<Longrightarrow> dropWhile is_blank (rev e @ s) = rev e @ s"
  by (cases e rule: rev_cases) (auto simp: name_ok_def)

lemma parse_show_app:
  assumes "name_ok name" "args_ok is ss args" "\<forall>e. implements = Some e \<longrightarrow> name_ok e"
  shows "parse_app (name @ ''('' @ show_args args @ '')'' @ (case implements of None \<Rightarrow> [] | Some e \<Rightarrow> '' implements '' @ e)) =
    Some (name, App (raw_args args) implements)"
proof -
  let ?impl = "case implements of None \<Rightarrow> [] | Some e \<Rightarrow> '' implements '' @ e"
  have "takeWhile (\<lambda>c. c \<noteq> CHR ''('' \<and> c \<noteq> CHR '' '') (name @ CHR ''('' # s) = name" for s
    using assms(1) by (subst takeWhile_append2) (auto simp: name_ok_def is_blank_def)
  moreover have "split_once (CHR '')'') (show_args args @ '')'' @ ?impl) = Some (show_args args, ?impl)"
    using split_once_append [of "CHR '')''" "show_args args"] show_args_chars [OF assms(2), of "CHR '')''"] by simp
  moreover have "strip_prefix ''implements '' (trim ?impl) = implements"
  proof (cases implements)
    case None
    then show ?thesis by (simp add: trim_def strip_prefix_def)
  next
    case (Some e)
    with assms(3) have "trim ?impl = ''implements '' @ e" using drop_blanks_name [of e] by (simp add: trim_def is_blank_def)
    with Some show ?thesis by (simp add: strip_prefix_Some)
  qed
  ultimately show ?thesis using parse_show_args [OF assms(2)]
    by (simp add: parse_app_def Let_def strip_prefix_def)
qed

lemma parse_show_interface:
  assumes "interface_ok is ss i" "parse_items rest = Some d"
  shows "parse_items (interface_lines i @ rest) = Some (d\<lparr>dr_interfaces := raw_interface i # dr_interfaces d\<rparr>)"
proof -
  have body: "parse_interface (if_name i) (map method_line (if_methods i) @ map stream_line (if_streams i) @ [] # rest) details =
      Some (\<lparr>if_name = if_name i, if_methods = map raw_method (if_methods i), if_streams = map raw_stream (if_streams i),
        if_details = details\<rparr>, rest)" for details
    using parse_show_body [of "if_methods i" "is" ss "if_streams i" rest] assms(1) by (simp add: parse_interface_def interface_ok_def)
  show ?thesis
  proof (cases "if_details i")
    case (App args implements)
    then have "parse_app (if_name i @ ''('' @ show_args args @ '')'' @ (case implements of None \<Rightarrow> [] | Some e \<Rightarrow> '' implements '' @ e)) =
        Some (if_name i, App (raw_args args) implements)"
      using assms(1) by (intro parse_show_app) (auto simp: interface_ok_def)
    with App body assms(2) show ?thesis
      by (simp add: interface_lines_def head_line_def strip_prefix_def raw_interface_def raw_details_def)
  next
    case Plain
    with body assms(2) show ?thesis
      by (simp add: interface_lines_def head_line_def strip_prefix_def raw_interface_def raw_details_def)
  qed
qed

lemma parse_show_struct:
  assumes "struct_ok is ss s" "parse_items rest = Some d" "rest = [] \<or> strip_prefix ''    '' (hd rest) = None"
  shows "parse_items (struct_lines s @ rest) = Some (d\<lparr>dr_structs := raw_struct s # dr_structs d\<rparr>)"
  using parse_show_members [of "st_members s" "is" ss rest] assms
  by (simp add: struct_lines_def strip_prefix_def struct_ok_def raw_struct_def)

lemma parse_show_syscalls:
  assumes "\<forall>s \<in> set cs. signature_ok is ss (sy_name s) (sy_args s) (sy_return s)"
  shows "parse_items (map syscall_line cs) = Some \<lparr>dr_interfaces = [], dr_structs = [], dr_syscalls = map raw_syscall cs\<rparr>"
  using assms
proof (induction cs)
  case (Cons s cs)
  then have "parse_syscall (show_signature (sy_name s) (sy_args s) (sy_return s)) = Some (raw_syscall s)"
    using parse_show_syscall by auto
  with Cons show ?case by (simp add: syscall_line_def strip_prefix_def)
qed simp

lemma parse_show_interfaces:
  assumes "\<forall>i \<in> set xs. interface_ok is ss i" "parse_items rest = Some d"
  shows "parse_items (concat (map interface_lines xs) @ rest) = Some (d\<lparr>dr_interfaces := map raw_interface xs @ dr_interfaces d\<rparr>)"
  using assms(1)
proof (induction xs)
  case (Cons i xs)
  then show ?case using parse_show_interface [of "is" ss i, OF _ Cons.IH] by simp
qed (simp add: assms(2))

text \<open>No line that starts a declaration is indented.\<close>

lemma heads_unindented:
  "strip_prefix ''    '' (head_line i @ s) = None" "strip_prefix ''    '' (syscall_line c) = None"
  "strip_prefix ''    '' (''struct '' @ n) = None"
  by (auto simp: head_line_def syscall_line_def strip_prefix_def split: interface_details.splits)

lemma unindented_rest:
  "concat (map struct_lines xs) @ concat (map interface_lines is) @ map syscall_line cs = [] \<or>
   strip_prefix ''    '' (hd (concat (map struct_lines xs) @ concat (map interface_lines is) @ map syscall_line cs)) = None"
  using heads_unindented(1) [of _ "[]"] heads_unindented(2,3)
  by (cases xs; cases "is"; cases cs) (simp_all add: struct_lines_def interface_lines_def)

lemma parse_show_structs:
  assumes "\<forall>s \<in> set xs. struct_ok is ss s" "parse_items (concat (map interface_lines ifs) @ map syscall_line cs) = Some d"
  shows "parse_items (concat (map struct_lines xs) @ concat (map interface_lines ifs) @ map syscall_line cs) =
    Some (d\<lparr>dr_structs := map raw_struct xs @ dr_structs d\<rparr>)"
  using assms(1)
proof (induction xs)
  case (Cons s xs)
  then show ?case using parse_show_struct [of "is" ss s, OF _ Cons.IH unindented_rest] by simp
qed (simp add: assms(2))

definition raw_drvli :: "drvli \<Rightarrow> drvli" where
  "raw_drvli d = \<lparr>dr_interfaces = map raw_interface (dr_interfaces d), dr_structs = map raw_struct (dr_structs d),
     dr_syscalls = map raw_syscall (dr_syscalls d)\<rparr>"

lemma parse_drvli_lines:
  assumes "drvli_ok d"
  shows "parse_items (drvli_lines d) = Some (raw_drvli d)"
proof -
  note ok = assms [unfolded drvli_ok_def Let_def]
  show ?thesis
    using parse_show_structs [OF conjunct1 [OF conjunct2 [OF ok]]
      parse_show_interfaces [OF conjunct1 [OF ok] parse_show_syscalls [OF conjunct2 [OF conjunct2 [OF ok]]]]]
    by (simp add: drvli_lines_def raw_drvli_def)
qed

subsection \<open>Names are resolved\<close>

lemma those_map_self: "\<forall>x \<in> set xs. f (g x) = Some x \<Longrightarrow> those (map f (map g xs)) = Some xs"
  by (induction xs) auto

lemma fix_raw_members: "\<forall>(name, t) \<in> set args. type_ok is ss t \<Longrightarrow> fix_args is ss (raw_args args) = Some args"
  unfolding fix_args_def raw_args_def by (intro those_map_self) (use fix_raw_type in fastforce)

lemma fix_raw_args: "args_ok is ss args \<Longrightarrow> fix_args is ss (raw_args args) = Some args"
  unfolding fix_args_def raw_args_def by (intro those_map_self) (use fix_raw_plain in \<open>fastforce simp: args_ok_def\<close>)

lemma fix_raw_return: "return_ok is ss r \<Longrightarrow> fix_return is ss (map_option raw_type r) = Some r"
  using fix_raw_type by (cases r) (auto simp: fix_return_def return_ok_def)

lemma fix_raw_method: "signature_ok is ss (me_name m) (me_args m) (me_return m) \<Longrightarrow> fix_method is ss (raw_method m) = Some m"
  using fix_raw_args fix_raw_return by (simp add: fix_method_def raw_method_def signature_ok_def)

lemma fix_raw_syscall: "signature_ok is ss (sy_name s) (sy_args s) (sy_return s) \<Longrightarrow> fix_syscall is ss (raw_syscall s) = Some s"
  using fix_raw_args fix_raw_return by (simp add: fix_syscall_def raw_syscall_def signature_ok_def)

lemma fix_raw_stream: "type_ok is ss (sr_type s) \<Longrightarrow> fix_stream is ss (raw_stream s) = Some s"
  using fix_raw_type by (simp add: fix_stream_def raw_stream_def)

lemma fix_raw_struct: "struct_ok is ss s \<Longrightarrow> fix_struct is ss (raw_struct s) = Some s"
  using fix_raw_members [of "st_members s" "is" ss] by (fastforce simp: fix_struct_def raw_struct_def struct_ok_def)

lemma fix_raw_interface:
  assumes "interface_ok is ss i"
  shows "fix_interface is ss (raw_interface i) = Some i"
proof -
  have "those (map (fix_method is ss) (map raw_method (if_methods i))) = Some (if_methods i)"
    by (rule those_map_self) (use assms fix_raw_method in \<open>auto simp: interface_ok_def\<close>)
  moreover have "those (map (fix_stream is ss) (map raw_stream (if_streams i))) = Some (if_streams i)"
    by (rule those_map_self) (use assms fix_raw_stream in \<open>auto simp: interface_ok_def\<close>)
  moreover have "fix_details is ss (raw_details (if_details i)) = Some (if_details i)"
    using assms fix_raw_args by (auto simp: fix_details_def raw_details_def interface_ok_def split: interface_details.splits)
  ultimately show ?thesis by (simp add: fix_interface_def raw_interface_def)
qed

lemma fix_raw_drvli:
  assumes "drvli_ok d"
  shows "fix_drvli (map if_name (dr_interfaces d)) (map st_name (dr_structs d)) (raw_drvli d) = Some d"
proof -
  let ?is = "map if_name (dr_interfaces d)" and ?ss = "map st_name (dr_structs d)"
  note ok = assms [unfolded drvli_ok_def Let_def]
  have "those (map (fix_interface ?is ?ss) (map raw_interface (dr_interfaces d))) = Some (dr_interfaces d)"
    by (rule those_map_self) (use ok fix_raw_interface in blast)
  moreover have "those (map (fix_struct ?is ?ss) (map raw_struct (dr_structs d))) = Some (dr_structs d)"
    by (rule those_map_self) (use ok fix_raw_struct in blast)
  moreover have "those (map (fix_syscall ?is ?ss) (map raw_syscall (dr_syscalls d))) = Some (dr_syscalls d)"
    by (rule those_map_self) (use ok fix_raw_syscall in blast)
  ultimately show ?thesis by (simp add: fix_drvli_def raw_drvli_def)
qed

subsection \<open>The round trip\<close>

definition unbroken :: "string \<Rightarrow> bool" where
  "unbroken s \<longleftrightarrow> newline \<notin> set s \<and> CHR 0x0D \<notin> set s"

lemma unbroken_simps [simp]:
  "unbroken []" "unbroken (c # s) \<longleftrightarrow> c \<noteq> newline \<and> c \<noteq> CHR 0x0D \<and> unbroken s" "unbroken (a @ b) \<longleftrightarrow> unbroken a \<and> unbroken b"
  by (auto simp: unbroken_def)

lemma unbroken_parts:
  "name_ok n \<Longrightarrow> unbroken n" "type_ok is ss t \<Longrightarrow> unbroken (show_type t)" "args_ok is ss args \<Longrightarrow> unbroken (show_args args)"
  "return_ok is ss r \<Longrightarrow> unbroken (show_return r)"
  using clean_chars [OF clean_name] show_type_chars show_args_chars show_return_chars
  by (auto simp: unbroken_def)

lemma unbroken_signature: "signature_ok is ss name args r \<Longrightarrow> unbroken (show_signature name args r)"
  using unbroken_parts by (auto simp: signature_ok_def show_signature_def)

lemma unbroken_interface:
  assumes "interface_ok is ss i" "l \<in> set (interface_lines i)"
  shows "unbroken l"
proof -
  have "unbroken (head_line i)"
    using assms(1) unbroken_parts by (auto simp: head_line_def interface_ok_def split: interface_details.splits option.splits)
  moreover have "unbroken (method_line m)" if "m \<in> set (if_methods i)" for m
    using assms(1) that unbroken_signature by (auto simp: method_line_def interface_ok_def)
  moreover have "unbroken (stream_line s)" if "s \<in> set (if_streams i)" for s
    using assms(1) that unbroken_parts by (auto simp: stream_line_def interface_ok_def)
  ultimately show ?thesis using assms(2) by (auto simp: interface_lines_def)
qed

lemma unbroken_struct: "struct_ok is ss s \<Longrightarrow> l \<in> set (struct_lines s) \<Longrightarrow> unbroken l"
  using unbroken_parts by (fastforce simp: struct_lines_def struct_ok_def member_line_def show_arg_def)

lemma unbroken_lines:
  assumes "drvli_ok d" "l \<in> set (drvli_lines d)"
  shows "unbroken l"
proof -
  note ok = assms(1) [unfolded drvli_ok_def Let_def]
  have "unbroken (syscall_line s)" if "s \<in> set (dr_syscalls d)" for s
    using ok that unbroken_signature by (auto simp: syscall_line_def)
  then show ?thesis using assms(2) ok unbroken_interface unbroken_struct by (auto simp: drvli_lines_def)
qed

text \<open>
  C20: the parser of the interface language inverts printing.  Whatever structs, apps, interfaces
  and system calls a file declares (with names that are words, types in the language and every name
  that a type mentions declared), parsing the printed file gives them back, with every name in a
  type resolved to the struct or the interface it stands for.
\<close>

theorem parse_drvli_roundtrip:
  assumes "drvli_ok d"
  shows "parse_drvli (print_drvli d) = Some d"
proof -
  have "text_lines (print_drvli d) = drvli_lines d"
    unfolding print_drvli_def by (rule text_lines_print) (use unbroken_lines [OF assms] in \<open>auto simp: unbroken_def\<close>)
  moreover have "map if_name (dr_interfaces (raw_drvli d)) = map if_name (dr_interfaces d)"
    "map st_name (dr_structs (raw_drvli d)) = map st_name (dr_structs d)"
    by (simp_all add: raw_drvli_def raw_interface_def raw_struct_def)
  ultimately show ?thesis
    using parse_drvli_lines [OF assms] fix_raw_drvli [OF assms] by (simp add: parse_drvli_def)
qed

text \<open>A part of \<open>interfaces.drvli\<close>: every shape of declaration.\<close>

definition sample_drvli :: drvli where
  "sample_drvli = \<lparr>dr_interfaces =
       [\<lparr>if_name = ''image_viewer'', if_methods = [], if_streams = [],
          if_details = App [(''image'', TSharedMemory), (''windowing'', TTypedCapability ''window'')] (Some ''window'')\<rparr>,
        \<lparr>if_name = ''window'', if_methods = [\<lparr>me_name = ''framebuffer'', me_args = [], me_return = Some TSharedMemory\<rparr>],
          if_streams = [\<lparr>sr_name = ''events'', sr_type = TStruct ''input_event''\<rparr>], if_details = Plain\<rparr>],
     dr_structs = [\<lparr>st_name = ''input_event'', st_members = [(''type'', TU16), (''value'', TU32)]\<rparr>],
     dr_syscalls = [\<lparr>sy_name = ''ipc_receive'', sy_args = [(''args'', TArray TU8)],
          sy_return = Some (TTuple [TOption TUntypedCapability, TUsize, TUsize, TOption TProcessId])\<rparr>]\<rparr>"

theorem parse_drvli_roundtrip_witness:
  "parse_drvli (print_drvli sample_drvli) = Some sample_drvli"
proof (rule parse_drvli_roundtrip)
  show "drvli_ok sample_drvli"
    by (simp add: drvli_ok_def sample_drvli_def interface_ok_def struct_ok_def signature_ok_def args_ok_def return_ok_def
      type_ok_def name_ok_def is_blank_def type_words_def)
qed

end
