(* ===== verification/Drvli_Generate.thy ===== *)
theory Drvli_Generate
  imports Drvli
begin

text \<open>
  The code generators of the build scripts: \<open>kernel/build.rs\<close> (the kernel's side of interfaces and
  of system calls), \<open>kernel-api/build.rs\<close> (the users' side) and \<open>types/build.rs\<close> (the types both
  share).  A generator is the text it writes; what it reads and writes around it is not modelled.
\<close>

subsection \<open>Writing\<close>

text \<open>\<open>writeln!\<close>; and a loop that writes something for each element.\<close>

definition ln :: "string \<Rightarrow> string" where
  "ln s = s @ [newline]"

definition each :: "('a \<Rightarrow> string run) \<Rightarrow> 'a list \<Rightarrow> string run" where
  "each f xs = do { parts \<leftarrow> those (map f xs); Some (concat parts) }"

fun enumerate_from :: "nat \<Rightarrow> 'a list \<Rightarrow> (nat \<times> 'a) list" where
  "enumerate_from n [] = []"
| "enumerate_from n (x # xs) = (n, x) # enumerate_from (Suc n) xs"

fun decimal :: "nat \<Rightarrow> string" where
  "decimal n = (if n < 10 then [char_of (48 + n)] else decimal (n div 10) @ [char_of (48 + n mod 10)])"

declare decimal.simps [simp del]

abbreviation quote :: string where
  "quote \<equiv> [CHR 0x22]"

text \<open>The lists of arguments and the return types that all of them write.\<close>

definition typed_args :: "rust_ctx \<Rightarrow> (string \<times> dtype) list \<Rightarrow> string run" where
  "typed_args ctx args = each (\<lambda>(arg_name, t). do {
     arg_type \<leftarrow> rust_type t ctx;
     Some ('', '' @ arg_name @ '': '' @ arg_type) }) args"

definition arrow :: "rust_ctx \<Rightarrow> dtype option \<Rightarrow> string run" where
  "arrow ctx r = (case r of
       None \<Rightarrow> Some []
     | Some t \<Rightarrow> do { return_type \<leftarrow> rust_type t ctx; Some ('' -> '' @ return_type) })"

definition arg_tuple :: "(string \<times> dtype) list \<Rightarrow> string run" where
  "arg_tuple args = do {
     types \<leftarrow> each (\<lambda>(_, t). do { s \<leftarrow> rust_type t CtxNormalRet; Some (s @ '','') }) args;
     Some (''                let ('' @ concat (map (\<lambda>(n, _). n @ '','') args) @ ''): ('' @ types @
       ln '') = postcard::from_bytes(_args).unwrap();'') }"

definition borrowed_args :: "(string \<times> dtype) list \<Rightarrow> string" where
  "borrowed_args args = concat (map (\<lambda>(n, t). rust_borrow_or_copy t @ n @ '','') args)"

text \<open>The registers of the results: \<open>syscall.return_type.iter().flat_map(split_syscall_ret)\<close>.\<close>

definition ret_types :: "syscall_decl \<Rightarrow> dtype list" where
  "ret_types s = (case sy_return s of None \<Rightarrow> [] | Some t \<Rightarrow> split_syscall_ret t)"

subsection \<open>The kernel\<close>

definition generate_server_trait :: "interface_decl \<Rightarrow> string run" where
  "generate_server_trait i = do {
     name_camel \<leftarrow> camel_case (if_name i);
     methods \<leftarrow> each (\<lambda>m. do {
       args \<leftarrow> typed_args CtxArg (me_args m);
       ret \<leftarrow> arrow CtxNormalRet (me_return m);
       Some (''    fn '' @ me_name m @ ''(&self, sender: ProcessId'' @ args @ '')'' @ ret @ ln '';'') }) (if_methods i);
     streams \<leftarrow> each (\<lambda>s. do {
       t \<leftarrow> rust_type (sr_type s) CtxMember;
       Some (ln (''    fn '' @ sr_name s @ ''(&self) -> &'' @ [CHR 0x27] @ ''static RingBuffer<'' @ t @ ''>;'')) }) (if_streams i);
     Some (ln ''#[allow(dead_code)]'' @ ln (''pub trait '' @ name_camel @ ''Server {'') @ methods @ streams @ ln ''}'') }"

text \<open>One arm of \<open>call_method\<close>.\<close>

definition handler_arm :: "nat \<times> method_decl \<Rightarrow> string run" where
  "handler_arm im = (let (method_index, m) = im in do {
     tuple \<leftarrow> arg_tuple (me_args m);
     Some (ln (''            '' @ decimal method_index @ '' => {'') @ tuple @
       ''                let _result = self.'' @ me_name m @ ''(_sender, '' @ borrowed_args (me_args m) @ ln '');'' @
       (if me_return m \<noteq> Some TNever then
          ln ''                let mut buf = vec![0; 4096];'' @
          ln ''                let buf_len = postcard::to_slice(&_result, &mut buf).unwrap().len();'' @
          ln ''                buf.resize(buf_len, 0);'' @
          ln ''                buf''
        else []) @
       ln ''            }'') })"

definition generate_handler_impl :: "interface_decl \<Rightarrow> string run" where
  "generate_handler_impl i = do {
     name_camel \<leftarrow> camel_case (if_name i);
     arms \<leftarrow> each handler_arm (enumerate_from 0 (if_methods i));
     Some (ln (''impl<T: '' @ name_camel @ ''Server> Handler<'' @ name_camel @ ''> for T {'') @
       ln ''    fn call_method(&self, method: usize, _args: &[u8], _sender: ProcessId) -> Vec<u8> {'' @
       ln ''        match method {'' @ arms @
       ln ''            _ => unreachable!(),'' @ ln ''        }'' @ ln ''    }'' @
       ln (''    fn map_stream(&self, stream: usize) -> &'' @ [CHR 0x27] @ ''static UntypedRingBuffer {'') @
       ln ''        match stream {'' @
       concat (map (\<lambda>(stream_index, s). ln (''            '' @ decimal stream_index @ '' => self.'' @ sr_name s @ ''().untype(),''))
         (enumerate_from 0 (if_streams i))) @
       ln ''            _ => unreachable!(),'' @ ln ''        }'' @ ln ''    }'' @
       ln (''    fn shared_memory_map(&self, _: usize, _: &mut PageTable, _: &mut Vec<(Range<usize>, &'' @ [CHR 0x27] @
         ''static (dyn VirtualMemoryRawMapping + Sync))>) {'') @
       ln ''        unreachable!()'' @ ln ''    }'' @
       ln ''    fn shared_memory_size(&self) -> usize {'' @
       ln ''        unreachable!()'' @ ln ''    }'' @ ln ''}'') }"

definition trait_fn :: "syscall_decl \<Rightarrow> string run" where
  "trait_fn s = do {
     args \<leftarrow> typed_args CtxSyscallKernelArg (sy_args s);
     ret \<leftarrow> (case sy_return s of
         None \<Rightarrow> Some '' -> crate::syscall::Result<()>''
       | Some return_type \<Rightarrow>
           if length (ret_types s) = 1 then do {
             t \<leftarrow> rust_type return_type CtxSyscallRet;
             Some ('' -> crate::syscall::Result<'' @ t @ ''>'') }
           else do {
             ts \<leftarrow> each (\<lambda>t. do { t \<leftarrow> rust_type t CtxSyscallRet; Some (t @ '', '') }) (split_syscall_ret return_type);
             Some ('' -> crate::syscall::Result<('' @ ts @ ln ''            )>'') });
     Some (''    fn '' @ rust_escape_name (sy_name s) @ ''(user: &mut UserCtx'' @ args @ '')'' @ ret @ ln '';'') }"

definition generate_syscall_trait :: "drvli \<Rightarrow> string run" where
  "generate_syscall_trait d = do {
     fns \<leftarrow> each trait_fn (dr_syscalls d);
     Some (ln ''pub trait SyscallHandler {'' @ fns @ ln ''}'') }"

text \<open>
  How the kernel reads an argument: from the register that is next, and, for a slice, from the one
  after it.
\<close>

definition kernel_arg :: "nat \<Rightarrow> dtype \<Rightarrow> string run" where
  "kernel_arg n t = (let reg = ''user.registers.a'' @ decimal n in
     case t of
       TUntypedCapability \<Rightarrow> Some (''RawCapability::try_from('' @ reg @ '' as *const CapabilityCertificate)?'')
     | TSharedMemory \<Rightarrow> Some (''unsafe { Capability::new(RawCapability::try_from('' @ reg @ '' as *const CapabilityCertificate)?) }'')
     | TU64 \<Rightarrow> Some (reg @ '' as u64'')
     | TUsize \<Rightarrow> Some reg
     | TArray TU8 \<Rightarrow> Some (''UserPtr::from_slice('' @ reg @ '' as *mut u8, user.registers.a'' @ decimal (n + 1) @ '')?'')
     | TConstArray TU8 \<Rightarrow> Some (''UserPtr::from_slice('' @ reg @ '' as *mut u8, user.registers.a'' @ decimal (n + 1) @ '')?'')
     | TPtr TU8 \<Rightarrow> Some (''UserPtr::from_ptr('' @ reg @ '' as *mut u8)?'')
     | _ \<Rightarrow> None)"

text \<open>The running count of the registers that are used.\<close>

fun arg_registers :: "nat \<Rightarrow> (string \<times> dtype) list \<Rightarrow> (nat \<times> dtype) list" where
  "arg_registers used [] = []"
| "arg_registers used ((_, t) # args) = (used, t) # arg_registers (used + length (split_syscall_arg t)) args"

definition dispatch_arm :: "nat \<times> syscall_decl \<Rightarrow> string run" where
  "dispatch_arm is = (let (syscall_number, s) = is in do {
     values \<leftarrow> each (\<lambda>(n, t). do { v \<leftarrow> kernel_arg n t; Some ('', '' @ v) }) (arg_registers 0 (sy_args s));
     let results = (case sy_return s of
         None \<Rightarrow> []
       | Some return_type \<Rightarrow>
           if return_type = TNever then []
           else if length (ret_types s) = 1 then
             ln ''            user.registers.a0 = unsafe { to_reg(_result) };''
           else concat (map (\<lambda>(ret_register, _).
             ln (''            user.registers.a'' @ decimal ret_register @ '' = unsafe { to_reg(_result.'' @ decimal ret_register @ '') };''))
             (enumerate_from 0 (split_syscall_ret return_type))));
     Some (ln (''        '' @ decimal syscall_number @ '' => {'') @
       ''            let _result = <() as SyscallHandler>::'' @ rust_escape_name (sy_name s) @ ''(user'' @ values @ ln '')?;'' @
       results @ ln ''        }'') })"

definition generate_syscall_dispatch :: "drvli \<Rightarrow> string run" where
  "generate_syscall_dispatch d = do {
     arms \<leftarrow> each dispatch_arm (enumerate_from 0 (dr_syscalls d));
     Some (ln ''pub fn dispatch_syscall(user: &mut UserCtx) -> crate::syscall::Result<()> {'' @
       ln ''    #![allow(clippy::diverging_sub_expression)]'' @
       ln ''    match user.registers.a6 {'' @ arms @
       ln ''        _ => return Err(UserSyscallError::InvalidSyscallNumber.into()),'' @
       ln ''    }'' @ ln ''    Ok(())'' @ ln ''}'') }"

definition generate_kernel :: "drvli \<Rightarrow> string run" where
  "generate_kernel d = do {
     interfaces \<leftarrow> each (\<lambda>i. do {
       server \<leftarrow> generate_server_trait i;
       handler \<leftarrow> generate_handler_impl i;
       Some (server @ handler) }) (dr_interfaces d);
     syscalls \<leftarrow> generate_syscall_trait d;
     dispatch \<leftarrow> generate_syscall_dispatch d;
     Some (interfaces @ syscalls @ dispatch) }"

end
