(* ===== verification/Drvli_Stubs.thy ===== *)
theory Drvli_Stubs
  imports Drvli_Generate
begin

text \<open>
  The code generators of the users' side (\<open>kernel-api/build.rs\<close>) and of the shared types
  (\<open>types/build.rs\<close>).
\<close>

subsection \<open>Clients\<close>

definition client_method :: "nat \<times> method_decl \<Rightarrow> string run" where
  "client_method im = (let (method_id, m) = im in do {
     args \<leftarrow> typed_args CtxArg (me_args m);
     ret \<leftarrow> arrow CtxNormalRet (me_return m);
     Some (''    fn '' @ me_name m @ ''(self'' @ args @ '')'' @ ret @ ln '' {'' @
       ln ''        let mut data_buf = [0u8; 4096];'' @
       ''        let data_len = postcard::to_slice(&('' @ concat (map (\<lambda>(n, _). n @ '', '') (me_args m)) @
       ln ''), &mut data_buf).unwrap().len();'' @
       ln ''        let mut buf = [0u8; 4096];'' @
       ln (''        let result_len = unsafe { syscall::ipc_call(self.as_raw(), '' @ decimal method_id @
         '', data_buf.as_ptr(), data_len, buf.as_mut_ptr(), buf.len()) };'') @
       ln ''        postcard::from_bytes(&buf[..result_len]).unwrap()'' @ ln ''    }'') })"

definition client_stream :: "nat \<times> stream_decl \<Rightarrow> string run" where
  "client_stream is = (let (stream_id, s) = is in do {
     t \<leftarrow> rust_type (sr_type s) CtxStream;
     Some (ln (''    fn '' @ sr_name s @ ''(self) -> &'' @ [CHR 0x27] @ ''static RingBuffer<'' @ t @ ''> {'') @
       ln (''        let (ring_buffer, byte_count) = unsafe { syscall::ipc_stream(self.as_raw(), '' @ decimal stream_id @ '') };'') @
       ln ''        let ring_buffer = unsafe { &*core::ptr::from_raw_parts::<UntypedRingBuffer>(ring_buffer, byte_count) };'' @
       ln (''        unsafe { ring_buffer.cast::<'' @ t @ ''>() }'') @ ln ''    }'') })"

definition generate_client_impl :: "interface_decl \<Rightarrow> string run" where
  "generate_client_impl i = do {
     name_camel \<leftarrow> camel_case (if_name i);
     methods \<leftarrow> each client_method (enumerate_from 0 (if_methods i));
     streams \<leftarrow> each client_stream (enumerate_from 0 (if_streams i));
     Some (ln (''impl '' @ name_camel @ ''Client for Capability<'' @ name_camel @ ''> {'') @ methods @ streams @ ln ''}'') }"

definition generate_client_trait :: "interface_decl \<Rightarrow> string run" where
  "generate_client_trait i = do {
     name_camel \<leftarrow> camel_case (if_name i);
     methods \<leftarrow> each (\<lambda>m. do {
       args \<leftarrow> typed_args CtxArg (me_args m);
       ret \<leftarrow> arrow CtxNormalRet (me_return m);
       Some (''    fn '' @ me_name m @ ''(self'' @ args @ '')'' @ ret @ ln '';'') }) (if_methods i);
     streams \<leftarrow> each (\<lambda>s. do {
       t \<leftarrow> rust_type (sr_type s) CtxStream;
       Some (ln (''    fn '' @ sr_name s @ ''(self) -> &'' @ [CHR 0x27] @ ''static RingBuffer<'' @ t @ ''>;'')) }) (if_streams i);
     Some (ln (''pub trait '' @ name_camel @ ''Client {'') @ methods @ streams @ ln ''}'') }"

subsection \<open>Servers\<close>

definition api_server_trait :: "interface_decl \<Rightarrow> string run" where
  "api_server_trait i = do {
     name_camel \<leftarrow> camel_case (if_name i);
     methods \<leftarrow> each (\<lambda>m. do {
       args \<leftarrow> typed_args CtxArg (me_args m);
       ret \<leftarrow> arrow CtxGrantableRet (me_return m);
       Some (''    fn '' @ me_name m @ ''(&mut self, ctx: &mut Ctx<Self>, object: O'' @ args @ '')'' @ ret @ ln '';'') }) (if_methods i);
     let streams = concat (map (\<lambda>s.
       ln (''    fn '' @ sr_name s @ ''(&mut self, ctx: &mut Ctx<Self>, object: O) -> (Capability<SharedMemory>, usize);'')) (if_streams i));
     Some (ln (''pub trait '' @ name_camel @ ''Server<O = ()> {'') @ methods @ streams @ ln ''}'') }"

text \<open>The end of every arm: the result is serialised into the buffer that is returned.\<close>

definition result_lines :: string where
  "result_lines = ln ''                let mut result_buf = [0u8; 4096];'' @
     ln ''                let result_len = postcard::to_slice(&result, &mut result_buf).unwrap().len();'' @
     ln ''                (result_buf, result_len)'' @ ln ''            }''"

definition api_method_arm :: "nat \<times> method_decl \<Rightarrow> string run" where
  "api_method_arm im = (let (method_index, m) = im in do {
     tuple \<leftarrow> arg_tuple (me_args m);
     Some (ln (''            '' @ decimal method_index @ '' => {'') @ tuple @
       ''                let result = self.'' @ me_name m @ ''(_ctx, _object, '' @ borrowed_args (me_args m) @ ln '');'' @
       result_lines) })"

text \<open>A stream is asked for as a method with a number of its own.\<close>

definition api_stream_arm :: "nat \<times> stream_decl \<Rightarrow> string" where
  "api_stream_arm is = (let (stream_index, s) = is; pseudo_method_index = stream_index + 1000 in
     ln (''            '' @ decimal pseudo_method_index @ '' => {'') @
     ln (''                let result = self.'' @ sr_name s @ ''(_ctx, _object);'') @ result_lines)"

definition generate_server_handler_impl :: "interface_decl \<Rightarrow> string run" where
  "generate_server_handler_impl i = do {
     name_camel \<leftarrow> camel_case (if_name i);
     methods \<leftarrow> each api_method_arm (enumerate_from 0 (if_methods i));
     Some (ln (''impl<S: '' @ name_camel @ ''Server<O>, O: Copy> Handler<'' @ name_camel @ '', O> for S {'') @
       ln ''    fn call_method(&mut self, _ctx: &mut Ctx<Self>, method: usize, _args: &[u8], _object: O, _sender: ProcessId) -> ([u8; 4096], usize) {'' @
       ln ''        match method {'' @ methods @
       concat (map api_stream_arm (enumerate_from 0 (if_streams i))) @
       ln (''            _ => unreachable!('' @ quote @ ''unknown method {method}'' @ quote @ ''),'') @
       ln ''        }'' @ ln ''    }'' @ ln ''}'') }"

subsection \<open>System calls\<close>

text \<open>
  The parameters of a stub, which its \<open>ecall\<close> puts into the registers from \<open>a0\<close> on:
  \<open>syscall.args.iter().flat_map(split_syscall_arg)\<close>.
\<close>

definition stub_args :: "syscall_decl \<Rightarrow> (string \<times> string \<times> dtype) list" where
  "stub_args s = concat (map (\<lambda>(name, t). map (\<lambda>(suffix, t). (name, suffix, t)) (split_syscall_arg t)) (sy_args s))"

definition syscall_stub :: "nat \<times> syscall_decl \<Rightarrow> string run" where
  "syscall_stub is = (let (syscall_number, s) = is; rets = enumerate_from 0 (ret_types s) in do {
     params \<leftarrow> each (\<lambda>(arg_name, arg_suffix, t). do {
       arg_type \<leftarrow> rust_type t CtxSyscallArg;
       Some (arg_name @ arg_suffix @ '': '' @ arg_type @ '', '') }) (stub_args s);
     ret \<leftarrow> (case sy_return s of
         None \<Rightarrow> Some []
       | Some return_type \<Rightarrow>
           if length (ret_types s) = 1 then do {
             t \<leftarrow> rust_type return_type CtxSyscallRet;
             Some ('' -> '' @ t) }
           else do {
             ts \<leftarrow> each (\<lambda>t. do { t \<leftarrow> rust_type t CtxSyscallRet; Some (t @ '', '') }) (split_syscall_ret return_type);
             Some ('' -> ('' @ ts @ ln ''            )'') });
     Some (''    pub unsafe fn '' @ rust_escape_name (sy_name s) @ ''('' @ params @ '')'' @ ret @ ln '' {'' @
       concat (map (\<lambda>(ret_index, _). ln (''        let a'' @ decimal ret_index @ '': usize;'')) rets) @
       ln ''        unsafe {'' @
       ln ''            core::arch::asm!('' @
       ln (''                '' @ quote @ ''ecall'' @ quote @ '','') @
       concat (map (\<lambda>(arg_index, arg_name, arg_suffix, _).
         ln (''                in('' @ quote @ ''a'' @ decimal arg_index @ quote @ '') to_reg('' @ arg_name @ arg_suffix @ ''),''))
         (enumerate_from 0 (stub_args s))) @
       ln (''                in('' @ quote @ ''a6'' @ quote @ '') '' @ decimal syscall_number @ '','') @
       concat (map (\<lambda>(ret_index, _).
         ln (''                lateout('' @ quote @ ''a'' @ decimal ret_index @ quote @ '') a'' @ decimal ret_index @ '','')) rets) @
       ln ''            );'' @
       (if sy_return s = None then []
        else if length (ret_types s) = 1 then ln ''            from_reg(a0)''
        else ''            ('' @ concat (map (\<lambda>(ret_index, _). ''from_reg(a'' @ decimal ret_index @ ''), '') rets) @ ln ''            )'') @
       ln ''        }'' @ ln ''    }'') })"

definition generate_syscalls :: "drvli \<Rightarrow> string run" where
  "generate_syscalls d = do {
     stubs \<leftarrow> each syscall_stub (enumerate_from 0 (dr_syscalls d));
     Some (ln ''pub mod syscall {'' @
       ln ''    #![allow(clippy::missing_safety_doc)]'' @
       ln ''    use crate::abi::{from_reg, to_reg};'' @
       ln ''    use deravel_types::*;'' @ stubs @ ln ''}'') }"

subsection \<open>Spawners\<close>

definition spawn_signature :: "string \<Rightarrow> (string \<times> dtype) list \<Rightarrow> string option \<Rightarrow> string run" where
  "spawn_signature name_camel args implements = do {
     params \<leftarrow> typed_args CtxArg args;
     export \<leftarrow> (case implements of None \<Rightarrow> Some name_camel | Some implements \<Rightarrow> camel_case implements);
     Some (''    fn spawn(self'' @ params @ '') -> Capability<'' @ export @ ''>'') }"

definition generate_spawner_impl :: "interface_decl \<Rightarrow> string run" where
  "generate_spawner_impl i = do {
     name_camel \<leftarrow> camel_case (if_name i);
     (args, implements) \<leftarrow> (case if_details i of App args implements \<Rightarrow> Some (args, implements) | Plain \<Rightarrow> None);
     signature \<leftarrow> spawn_signature name_camel args implements;
     Some (ln (''impl '' @ name_camel @ ''SpawnerClient for Capability<'' @ name_camel @ ''Spawner> {'') @
       signature @ ln '' {'' @
       ln ''        let mut data_buf = [0u8; 4096];'' @
       ln (''        let data_len = postcard::to_slice(&'' @ name_camel @ ''Args {'') @
       concat (map (\<lambda>(arg_name, _). ln (''            '' @ arg_name @ '','')) args) @
       ln ''        }, &mut data_buf).unwrap().len();'' @
       ln ''        let mut buf = [0u8; 4096];'' @
       ln ''        let result_len = unsafe { syscall::ipc_call(self.as_raw(), 0, data_buf.as_ptr(), data_len, buf.as_mut_ptr(), buf.len()) };'' @
       ln ''        postcard::from_bytes(&buf[..result_len]).unwrap()'' @
       ln ''    }'' @ ln ''}'') }"

definition generate_spawner_trait :: "interface_decl \<Rightarrow> string run" where
  "generate_spawner_trait i = do {
     (args, implements) \<leftarrow> (case if_details i of App args implements \<Rightarrow> Some (args, implements) | Plain \<Rightarrow> None);
     name_camel \<leftarrow> camel_case (if_name i);
     signature \<leftarrow> spawn_signature name_camel args implements;
     Some (ln (''pub trait '' @ name_camel @ ''SpawnerClient {'') @ signature @ ln '';'' @ ln ''}'') }"

definition generate_api :: "drvli \<Rightarrow> string run" where
  "generate_api d = do {
     interfaces \<leftarrow> each (\<lambda>i. do {
       client_trait \<leftarrow> generate_client_trait i;
       client_impl \<leftarrow> generate_client_impl i;
       server_trait \<leftarrow> api_server_trait i;
       server_impl \<leftarrow> generate_server_handler_impl i;
       spawner \<leftarrow> (case if_details i of
           Plain \<Rightarrow> Some []
         | App _ _ \<Rightarrow> do {
             t \<leftarrow> generate_spawner_trait i;
             impl \<leftarrow> generate_spawner_impl i;
             Some (t @ impl) });
       Some (client_trait @ client_impl @ server_trait @ server_impl @ spawner) }) (dr_interfaces d);
     syscalls \<leftarrow> generate_syscalls d;
     Some (interfaces @ syscalls) }"

subsection \<open>Shared types\<close>

definition struct_text :: "struct_decl \<Rightarrow> string run" where
  "struct_text s = do {
     name_camel \<leftarrow> camel_case (st_name s);
     members \<leftarrow> each (\<lambda>(member_name, t). do {
       member_type \<leftarrow> rust_type t CtxMember;
       Some (ln (''    pub '' @ rust_escape_name member_name @ '': '' @ member_type @ '','')) }) (st_members s);
     Some (ln ''#[derive(Clone, Copy, Debug, Default, Deserialize, Serialize)]'' @ ln ''#[repr(C)]'' @
       ln (''pub struct '' @ name_camel @ '' {'') @ members @ ln ''}'') }"

definition name_line :: "string \<Rightarrow> string" where
  "name_line name = ln (''    const NAME: &'' @ [CHR 0x27] @ ''static str = '' @ quote @ name @ quote @ '';'')"

definition generate_spawner :: "interface_decl \<Rightarrow> string run" where
  "generate_spawner i = do {
     camel_name \<leftarrow> camel_case (if_name i);
     Some (ln (''pub struct '' @ camel_name @ ''Spawner;'') @
       ln (''impl Interface for '' @ camel_name @ ''Spawner {'') @
       name_line (''process_spawner '' @ if_name i) @ ln ''}'') }"

definition interface_text :: "interface_decl \<Rightarrow> string run" where
  "interface_text i = do {
     name_camel \<leftarrow> camel_case (if_name i);
     app \<leftarrow> (case if_details i of
         Plain \<Rightarrow> Some []
       | App args implements \<Rightarrow> do {
           members \<leftarrow> each (\<lambda>(arg_name, t). do {
             arg_type \<leftarrow> rust_type t CtxMember;
             Some (ln (''    pub '' @ arg_name @ '': '' @ arg_type @ '','')) }) args;
           export \<leftarrow> (case implements of None \<Rightarrow> Some name_camel | Some implements \<Rightarrow> camel_case implements);
           spawner \<leftarrow> generate_spawner i;
           Some (ln ''#[repr(C)]'' @ ln ''#[derive(Debug, Deserialize, Serialize)]'' @
             ln (''pub struct '' @ name_camel @ ''Args {'') @ members @ ln ''}'' @
             ln (''impl ProcessArgs for '' @ name_camel @ ''Args {'') @
             ln (''    type Process = '' @ name_camel @ '';'') @
             ln ''    fn for_all(&self, mut _f: impl FnMut(RawCapability)) {'' @
             concat (map (\<lambda>(arg_name, _). ln (''        _f(self.'' @ arg_name @ ''.as_raw());'')) args) @
             ln ''    }'' @ ln ''}'' @
             ln (''impl ProcessTag for '' @ name_camel @ '' {'') @
             ln (''    type Args = '' @ name_camel @ ''Args;'') @
             ln (''    type Export = '' @ export @ '';'') @
             ln (''    type Spawner = '' @ name_camel @ ''Spawner;'') @
             name_line (if_name i) @ ln ''}'' @ spawner) });
     Some (ln ''#[derive(Clone, Copy, Debug)]'' @ ln (''pub struct '' @ name_camel @ '';'') @
       ln (''impl Interface for '' @ name_camel @ '' {'') @ name_line (if_name i) @ ln ''}'' @ app) }"

definition generate_types :: "drvli \<Rightarrow> string run" where
  "generate_types d = do {
     structs \<leftarrow> each struct_text (dr_structs d);
     interfaces \<leftarrow> each interface_text (dr_interfaces d);
     Some (structs @ interfaces) }"

end
