(* ===== verification/Drvli_Reader.thy ===== *)
theory Drvli_Reader
  imports Drvli_Correct Drvli_Stubs
begin

text \<open>
  Reading the dispatcher of system calls that the kernel's build script generates.  The part of
  Rust that the generator writes is small: a match over the number of the call, an arm that calls
  the handler with expressions over the registers, and assignments of the results to registers.
  The reader takes the generated text apart line by line, with no reference to the declarations it
  was generated from, so that what the text means depends on nothing but the text; the lemmas say
  what it finds in the text that \<^const>\<open>generate_syscall_dispatch\<close> writes.
\<close>

subsection \<open>What the text says\<close>

text \<open>An expression with the numbers of the registers that it reads.\<close>

datatype arg_expr = CapabilityAt nat | SharedMemoryAt nat | U64At nat | UsizeAt nat | SliceAt nat nat | PtrAt nat

text \<open>The register a result is stored in: all of the result, or one of its components.\<close>

datatype result_put = AllTo nat | PartTo nat nat

datatype arm = Arm (arm_number: nat) (arm_callee: string) (arm_args: "arg_expr list") (arm_puts: "result_put list")

subsection \<open>The reader\<close>

definition digit :: "char \<Rightarrow> bool" where
  "digit c \<longleftrightarrow> 48 \<le> (of_char c :: nat) \<and> (of_char c :: nat) \<le> 57"

definition read_number :: "string \<Rightarrow> (nat \<times> string) option" where
  "read_number s = (let ds = takeWhile digit s in
     if ds = [] then None
     else Some (foldl (\<lambda>n c. 10 * n + (of_char c - 48)) 0 ds, dropWhile digit s))"

definition read_register :: "string \<Rightarrow> (nat \<times> string) option" where
  "read_register s = do { s \<leftarrow> strip_prefix ''user.registers.a'' s; read_number s }"

definition read_expr :: "string \<Rightarrow> (arg_expr \<times> string) option" where
  "read_expr s =
     (case strip_prefix ''RawCapability::try_from('' s of
       Some s \<Rightarrow> do {
         (n, s) \<leftarrow> read_register s;
         s \<leftarrow> strip_prefix '' as *const CapabilityCertificate)?'' s;
         Some (CapabilityAt n, s) }
     | None \<Rightarrow> case strip_prefix ''unsafe { Capability::new(RawCapability::try_from('' s of
       Some s \<Rightarrow> do {
         (n, s) \<leftarrow> read_register s;
         s \<leftarrow> strip_prefix '' as *const CapabilityCertificate)?) }'' s;
         Some (SharedMemoryAt n, s) }
     | None \<Rightarrow> case strip_prefix ''UserPtr::from_slice('' s of
       Some s \<Rightarrow> do {
         (p, s) \<leftarrow> read_register s;
         s \<leftarrow> strip_prefix '' as *mut u8, '' s;
         (l, s) \<leftarrow> read_register s;
         s \<leftarrow> strip_prefix '')?'' s;
         Some (SliceAt p l, s) }
     | None \<Rightarrow> case strip_prefix ''UserPtr::from_ptr('' s of
       Some s \<Rightarrow> do {
         (p, s) \<leftarrow> read_register s;
         s \<leftarrow> strip_prefix '' as *mut u8)?'' s;
         Some (PtrAt p, s) }
     | None \<Rightarrow> do {
         (n, s) \<leftarrow> read_register s;
         Some (case strip_prefix '' as u64'' s of Some s \<Rightarrow> (U64At n, s) | None \<Rightarrow> (UsizeAt n, s)) })"

text \<open>The arguments of a call, up to the end of its line.\<close>

partial_function (option) read_exprs :: "string \<Rightarrow> arg_expr list option" where
  "read_exprs s =
     (if s = '')?;'' then Some []
      else do {
        s \<leftarrow> strip_prefix '', '' s;
        (e, s) \<leftarrow> read_expr s;
        es \<leftarrow> read_exprs s;
        Some (e # es) })"

definition read_call :: "string \<Rightarrow> (string \<times> arg_expr list) option" where
  "read_call l = do {
     s \<leftarrow> strip_prefix ''            let _result = <() as SyscallHandler>::'' l;
     (callee, s) \<leftarrow> split_once (CHR ''('') s;
     s \<leftarrow> strip_prefix ''user'' s;
     es \<leftarrow> read_exprs s;
     Some (callee, es) }"

definition read_put :: "string \<Rightarrow> result_put option" where
  "read_put l = do {
     s \<leftarrow> strip_prefix ''            '' l;
     (r, s) \<leftarrow> read_register s;
     s \<leftarrow> strip_prefix '' = unsafe { to_reg(_result'' s;
     if s = '') };'' then Some (AllTo r)
     else do {
       s \<leftarrow> strip_prefix ''.'' s;
       (i, s) \<leftarrow> read_number s;
       if s = '') };'' then Some (PartTo r i) else None } }"

fun read_puts :: "string list \<Rightarrow> result_put list \<times> string list" where
  "read_puts [] = ([], [])"
| "read_puts (l # ls) = (case read_put l of
     None \<Rightarrow> ([], l # ls)
   | Some p \<Rightarrow> let (ps, ls) = read_puts ls in (p # ps, ls))"

definition read_number_line :: "string \<Rightarrow> nat option" where
  "read_number_line l = do {
     s \<leftarrow> strip_prefix ''        '' l;
     (n, s) \<leftarrow> read_number s;
     if s = '' => {'' then Some n else None }"

definition read_arm :: "string list \<Rightarrow> (arm \<times> string list) option" where
  "read_arm ls = (case ls of
     l # m # ls \<Rightarrow> do {
       n \<leftarrow> read_number_line l;
       (callee, es) \<leftarrow> read_call m;
       let (ps, ls) = read_puts ls;
       case ls of l # ls \<Rightarrow> if l = ''        }'' then Some (Arm n callee es ps, ls) else None
       | [] \<Rightarrow> None }
   | _ \<Rightarrow> None)"

text \<open>The arms, up to the one for all other numbers.\<close>

definition other_arm :: string where
  "other_arm = ''        _ => return Err(UserSyscallError::InvalidSyscallNumber.into()),''"

partial_function (option) read_arms :: "string list \<Rightarrow> (arm list \<times> string list) option" where
  "read_arms ls =
     (case ls of
        [] \<Rightarrow> None
      | l # rest \<Rightarrow>
          if l = other_arm then Some ([], rest)
          else do {
            (a, ls) \<leftarrow> read_arm ls;
            (as, ls) \<leftarrow> read_arms ls;
            Some (a # as, ls) })"

definition dispatch_head :: "string list" where
  "dispatch_head = [''pub fn dispatch_syscall(user: &mut UserCtx) -> crate::syscall::Result<()> {'',
     ''    #![allow(clippy::diverging_sub_expression)]'', ''    match user.registers.a6 {'']"

definition dispatch_foot :: "string list" where
  "dispatch_foot = [''    }'', ''    Ok(())'', ''}'']"

definition read_dispatcher :: "string \<Rightarrow> arm list option" where
  "read_dispatcher code = (let ls = text_lines code in
     if take 3 ls = dispatch_head then do {
       (as, ls) \<leftarrow> read_arms (drop 3 ls);
       if ls = dispatch_foot then Some as else None }
     else None)"

subsection \<open>What the generator says\<close>

fun show_expr :: "arg_expr \<Rightarrow> string" where
  "show_expr (CapabilityAt n) = ''RawCapability::try_from(user.registers.a'' @ decimal n @ '' as *const CapabilityCertificate)?''"
| "show_expr (SharedMemoryAt n) =
     ''unsafe { Capability::new(RawCapability::try_from(user.registers.a'' @ decimal n @ '' as *const CapabilityCertificate)?) }''"
| "show_expr (U64At n) = ''user.registers.a'' @ decimal n @ '' as u64''"
| "show_expr (UsizeAt n) = ''user.registers.a'' @ decimal n"
| "show_expr (SliceAt p l) =
     ''UserPtr::from_slice(user.registers.a'' @ decimal p @ '' as *mut u8, user.registers.a'' @ decimal l @ '')?''"
| "show_expr (PtrAt n) = ''UserPtr::from_ptr(user.registers.a'' @ decimal n @ '' as *mut u8)?''"

fun show_put :: "result_put \<Rightarrow> string" where
  "show_put (AllTo r) = ''            user.registers.a'' @ decimal r @ '' = unsafe { to_reg(_result) };''"
| "show_put (PartTo r i) =
     ''            user.registers.a'' @ decimal r @ '' = unsafe { to_reg(_result.'' @ decimal i @ '') };''"

definition show_call :: "string \<Rightarrow> arg_expr list \<Rightarrow> string" where
  "show_call callee es = ''            let _result = <() as SyscallHandler>::'' @ callee @ ''(user'' @
     concat (map (\<lambda>e. '', '' @ show_expr e) es) @ '')?;''"

definition show_arm :: "arm \<Rightarrow> string list" where
  "show_arm a = [''        '' @ decimal (arm_number a) @ '' => {'', show_call (arm_callee a) (arm_args a)] @
     map show_put (arm_puts a) @ [''        }'']"

definition show_lines :: "string list \<Rightarrow> string" where
  "show_lines ls = concat (map (\<lambda>l. l @ [newline]) ls)"

definition show_dispatcher :: "arm list \<Rightarrow> string list" where
  "show_dispatcher as = dispatch_head @ concat (map show_arm as) @ [other_arm] @ dispatch_foot"

text \<open>The expression that is written for an argument.\<close>

definition expr_of :: "nat \<Rightarrow> dtype \<Rightarrow> arg_expr option" where
  "expr_of n t = (case t of
       TUntypedCapability \<Rightarrow> Some (CapabilityAt n)
     | TSharedMemory \<Rightarrow> Some (SharedMemoryAt n)
     | TU64 \<Rightarrow> Some (U64At n)
     | TUsize \<Rightarrow> Some (UsizeAt n)
     | TArray TU8 \<Rightarrow> Some (SliceAt n (n + 1))
     | TConstArray TU8 \<Rightarrow> Some (SliceAt n (n + 1))
     | TPtr TU8 \<Rightarrow> Some (PtrAt n)
     | _ \<Rightarrow> None)"

lemma kernel_arg_shows: "kernel_arg n t = map_option show_expr (expr_of n t)"
  by (auto simp: kernel_arg_def expr_of_def Let_def split: dtype.splits)

definition puts_of :: "syscall_decl \<Rightarrow> result_put list" where
  "puts_of s = (case sy_return s of
       None \<Rightarrow> []
     | Some return_type \<Rightarrow>
         if return_type = TNever then []
         else if length (ret_types s) = 1 then [AllTo 0]
         else map (\<lambda>(i, _). PartTo i i) (enumerate_from 0 (split_syscall_ret return_type)))"

definition arm_of :: "nat \<times> syscall_decl \<Rightarrow> arm option" where
  "arm_of is = (let (i, s) = is in do {
     es \<leftarrow> those (map (\<lambda>(n, t). expr_of n t) (arg_registers 0 (sy_args s)));
     Some (Arm i (rust_escape_name (sy_name s)) es (puts_of s)) })"

subsection \<open>Reading back\<close>

lemma strip_prefix_simps [simp]:
  "strip_prefix [] s = Some s" "strip_prefix (c # p) [] = None"
  "strip_prefix (c # p) (d # s) = (if c = d then strip_prefix p s else None)"
  by (simp_all add: strip_prefix_def)

lemma decimal_digits_only: "list_all digit (decimal n) \<and> decimal n \<noteq> []"
proof (induction n rule: decimal.induct)
  case (1 n)
  have d: "digit (char_of (48 + k))" if "k < 10" for k :: nat
    using that by (simp add: digit_def)
  show ?case
  proof (cases "n < 10")
    case True
    then show ?thesis using d by (simp add: decimal.simps [of n])
  next
    case False
    then show ?thesis using d [of "n mod 10"] 1 by (simp add: decimal.simps [of n])
  qed
qed

lemma decimal_value: "foldl (\<lambda>n c. 10 * n + (of_char c - 48)) 0 (decimal n) = n"
proof (induction n rule: decimal.induct)
  case (1 n)
  show ?case
  proof (cases "n < 10")
    case True
    then show ?thesis by (simp add: decimal.simps [of n])
  next
    case False
    have "10 * (n div 10) + n mod 10 = n" by presburger
    then show ?thesis using 1 [OF False] False by (simp add: decimal.simps [of n])
  qed
qed

lemma read_number_decimal [simp]:
  assumes "rest = [] \<or> \<not> digit (hd rest)"
  shows "read_number (decimal n @ rest) = Some (n, rest)"
proof -
  have all: "\<forall>c \<in> set (decimal n). digit c" using decimal_digits_only by (simp add: list_all_iff)
  have "takeWhile digit (decimal n @ rest) = decimal n" "dropWhile digit (decimal n @ rest) = rest"
    using all assms by (cases rest; simp add: takeWhile_append2 dropWhile_append2)+
  then show ?thesis using decimal_digits_only decimal_value by (simp add: read_number_def)
qed

lemma not_digits [simp]:
  "\<not> digit (CHR '' '')" "\<not> digit (CHR '','')" "\<not> digit (CHR '')'')" "\<not> digit (CHR ''_'')"
  "\<not> digit newline" "\<not> digit (CHR 0x0D)"
  by (simp_all add: digit_def)

lemma read_register_decimal [simp]:
  "rest = [] \<or> \<not> digit (hd rest) \<Longrightarrow>
   read_register (CHR ''u'' # CHR ''s'' # CHR ''e'' # CHR ''r'' # CHR ''.'' # CHR ''r'' # CHR ''e'' # CHR ''g'' # CHR ''i'' #
     CHR ''s'' # CHR ''t'' # CHR ''e'' # CHR ''r'' # CHR ''s'' # CHR ''.'' # CHR ''a'' # decimal n @ rest) = Some (n, rest)"
  by (simp add: read_register_def)

lemma read_expr_show:
  assumes "rest = [] \<or> hd rest = CHR '','' \<or> hd rest = CHR '')''"
  shows "read_expr (show_expr e @ rest) = Some (e, rest)"
proof -
  have "strip_prefix '' as u64'' rest = None" "rest = [] \<or> \<not> digit (hd rest)"
    using assms by (cases rest; auto)+
  then show ?thesis by (cases e) (simp_all add: read_expr_def)
qed

lemma read_exprs_show: "read_exprs (concat (map (\<lambda>e. '', '' @ show_expr e) es) @ '')?;'') = Some es"
proof (induction es)
  case Nil
  then show ?case by (simp add: read_exprs.simps)
next
  case (Cons e es)
  let ?rest = "concat (map (\<lambda>e. '', '' @ show_expr e) es) @ '')?;''"
  have "read_expr (show_expr e @ ?rest) = Some (e, ?rest)"
    by (rule read_expr_show) (cases es; simp)
  with Cons show ?case by (simp add: read_exprs.simps [of "CHR '','' # _"])
qed

lemma read_call_show:
  assumes "CHR ''('' \<notin> set callee"
  shows "read_call (show_call callee es) = Some (callee, es)"
proof -
  let ?args = "concat (map (\<lambda>e. '', '' @ show_expr e) es) @ '')?;''"
  have "split_once (CHR ''('') (callee @ CHR ''('' # CHR ''u'' # CHR ''s'' # CHR ''e'' # CHR ''r'' # ?args) =
      Some (callee, CHR ''u'' # CHR ''s'' # CHR ''e'' # CHR ''r'' # ?args)"
    using split_once_append [of "CHR ''(''" callee] assms by simp
  then show ?thesis using read_exprs_show [of es] by (simp add: read_call_def show_call_def)
qed

lemma read_put_show: "read_put (show_put p) = Some p"
  by (cases p) (simp_all add: read_put_def)

lemma read_puts_show: "read_puts (map show_put ps @ ''        }'' # ls) = (ps, ''        }'' # ls)"
proof (induction ps)
  case Nil
  then show ?case by (simp add: read_put_def)
qed (simp add: read_put_show)

lemma read_number_line_show: "read_number_line (''        '' @ decimal n @ '' => {'') = Some n"
  by (simp add: read_number_line_def)

lemma read_arm_show:
  assumes "CHR ''('' \<notin> set (arm_callee a)"
  shows "read_arm (show_arm a @ ls) = Some (a, ls)"
  using read_call_show [OF assms] read_number_line_show [of "arm_number a"] read_puts_show [of "arm_puts a" ls]
  by (simp add: read_arm_def show_arm_def)

lemma show_arm_first: "\<exists>l ls. show_arm a = l # ls \<and> l \<noteq> other_arm"
proof -
  obtain d ds where "decimal (arm_number a) = d # ds" "digit d"
    using decimal_digits_only [of "arm_number a"] by (cases "decimal (arm_number a)") auto
  then show ?thesis by (auto simp: show_arm_def other_arm_def)
qed

lemma read_arms_show:
  assumes "\<forall>a \<in> set as. CHR ''('' \<notin> set (arm_callee a)"
  shows "read_arms (concat (map show_arm as) @ other_arm # ls) = Some (as, ls)"
  using assms
proof (induction "as")
  case Nil
  then show ?case by (simp add: read_arms.simps)
next
  case (Cons a as)
  obtain l ls' where "show_arm a = l # ls'" "l \<noteq> other_arm" using show_arm_first by blast
  with Cons read_arm_show [of a "concat (map show_arm as) @ other_arm # ls"] show ?case
    by (simp add: read_arms.simps [of "l # _"])
qed

text \<open>Names that do not disturb the text.\<close>

definition plain_name :: "string \<Rightarrow> bool" where
  "plain_name s \<longleftrightarrow> CHR ''('' \<notin> set s \<and> newline \<notin> set s \<and> CHR 0x0D \<notin> set s"

definition one_line :: "string \<Rightarrow> bool" where
  "one_line l \<longleftrightarrow> newline \<notin> set l \<and> CHR 0x0D \<notin> set l"

lemma one_line_append [simp]: "one_line (a @ b) \<longleftrightarrow> one_line a \<and> one_line b"
  by (auto simp: one_line_def)

lemma one_line_decimal [simp]: "one_line (decimal n)"
  using decimal_digits_only [of n] not_digits unfolding one_line_def list_all_iff by blast

lemma one_line_chars [simp]: "one_line []" "one_line (c # l) \<longleftrightarrow> c \<noteq> newline \<and> c \<noteq> CHR 0x0D \<and> one_line l"
  by (auto simp: one_line_def)

lemma one_line_expr [simp]: "one_line (show_expr e)"
  by (cases e) simp_all

lemma one_line_put [simp]: "one_line (show_put p)"
  by (cases p) simp_all

lemma one_line_concat [simp]: "one_line (concat ls) \<longleftrightarrow> list_all one_line ls"
  by (induction ls) simp_all

lemma one_line_arm: "plain_name (arm_callee a) \<Longrightarrow> list_all one_line (show_arm a)"
proof -
  assume "plain_name (arm_callee a)"
  then have "one_line (arm_callee a)" by (simp add: plain_name_def one_line_def)
  then show ?thesis by (simp add: show_arm_def show_call_def list_all_iff)
qed

lemma text_lines_show: "list_all one_line ls \<Longrightarrow> text_lines (show_lines ls) = ls"
  unfolding show_lines_def by (rule text_lines_print) (simp add: list_all_iff one_line_def)

lemma read_dispatcher_show:
  assumes "\<forall>a \<in> set as. plain_name (arm_callee a)"
  shows "read_dispatcher (show_lines (show_dispatcher as)) = Some as"
proof -
  have "list_all one_line (concat (map show_arm as))"
    using assms one_line_arm by (auto simp: list_all_iff)
  then have "list_all one_line (show_dispatcher as)"
    by (simp add: show_dispatcher_def dispatch_head_def dispatch_foot_def other_arm_def)
  then have lines: "text_lines (show_lines (show_dispatcher as)) = show_dispatcher as" by (rule text_lines_show)
  have "read_arms (concat (map show_arm as) @ other_arm # dispatch_foot) = Some (as, dispatch_foot)"
    using assms by (intro read_arms_show) (simp add: plain_name_def)
  moreover have "take 3 (show_dispatcher as) = dispatch_head"
    "drop 3 (show_dispatcher as) = concat (map show_arm as) @ other_arm # dispatch_foot"
    by (simp_all add: show_dispatcher_def dispatch_head_def)
  ultimately show ?thesis by (simp add: read_dispatcher_def lines)
qed

subsection \<open>The generated text\<close>

lemma show_lines_simps [simp]:
  "show_lines [] = []" "show_lines (l # ls) = ln l @ show_lines ls" "show_lines (ls @ ms) = show_lines ls @ show_lines ms"
  by (simp_all add: show_lines_def ln_def)

lemma show_lines_concat: "show_lines (concat lss) = concat (map show_lines lss)"
  by (induction lss) simp_all

lemma those_map_option: "those (map (\<lambda>x. map_option f (g x)) xs) = map_option (map f) (those (map g xs))"
proof (induction xs)
  case (Cons x xs)
  then show ?case by (cases "g x"; cases "those (map g xs)") simp_all
qed simp

lemma each_shows:
  "each (\<lambda>x. map_option f (g x)) xs = map_option (\<lambda>ys. concat (map f ys)) (those (map g xs))"
  unfolding each_def those_map_option by (cases "those (map g xs)") simp_all

lemma ln_line: "ln (a @ b) = a @ ln b"
  by (simp add: ln_def)

lemma dispatch_arm_shows: "dispatch_arm is = map_option (\<lambda>a. show_lines (show_arm a)) (arm_of is)"
proof -
  obtain i s where s: "is = (i, s)" by fastforce
  have args: "each (\<lambda>(n, t). do { v \<leftarrow> kernel_arg n t; Some ('', '' @ v) }) xs =
      map_option (\<lambda>es. concat (map (\<lambda>e. '', '' @ show_expr e) es)) (those (map (\<lambda>(n, t). expr_of n t) xs))" for xs
  proof -
    have "(\<lambda>(n, t). do { v \<leftarrow> kernel_arg n t; Some ('', '' @ v) }) =
        (\<lambda>x. map_option (\<lambda>e. '', '' @ show_expr e) ((\<lambda>(n, t). expr_of n t) x))"
      by (auto simp: kernel_arg_shows fun_eq_iff map_option_case split: option.splits)
    then show ?thesis by (simp only: each_shows)
  qed
  have puts: "(case sy_return s of
         None \<Rightarrow> []
       | Some return_type \<Rightarrow>
           if return_type = TNever then []
           else if length (ret_types s) = 1 then
             ln ''            user.registers.a0 = unsafe { to_reg(_result) };''
           else concat (map (\<lambda>(ret_register, _).
             ln (''            user.registers.a'' @ decimal ret_register @ '' = unsafe { to_reg(_result.'' @ decimal ret_register @ '') };''))
             (enumerate_from 0 (split_syscall_ret return_type)))) = show_lines (map show_put (puts_of s))"
  proof -
    have "decimal 0 = ''0''" by code_simp
    then have "ln ''            user.registers.a0 = unsafe { to_reg(_result) };'' = ln (show_put (AllTo 0))" by simp
    moreover have "concat (map (\<lambda>(r, _). ln (''            user.registers.a'' @ decimal r @ '' = unsafe { to_reg(_result.'' @
        decimal r @ '') };'')) xs) = show_lines (map show_put (map (\<lambda>(i, _). PartTo i i) xs))" for xs :: "(nat \<times> dtype) list"
      by (induction xs) (auto simp del: append.simps simp add: append_Nil)
    ultimately show ?thesis
      by (auto simp: puts_of_def simp del: append.simps(2) show_put.simps split: option.split)
  qed
  show ?thesis
    by (cases "those (map (\<lambda>(n, t). expr_of n t) (arg_registers 0 (sy_args s)))")
      (simp_all only: s dispatch_arm_def arm_of_def Let_def args puts prod.case option.map bind.simps,
       simp add: show_arm_def show_call_def ln_def)
qed

lemma generate_dispatch_shows:
  "generate_syscall_dispatch d =
     map_option (\<lambda>as. show_lines (show_dispatcher as)) (those (map arm_of (enumerate_from 0 (dr_syscalls d))))"
proof -
  have "each dispatch_arm xs = map_option (\<lambda>as. show_lines (concat (map show_arm as))) (those (map arm_of xs))" for xs
    unfolding show_lines_concat map_map comp_def dispatch_arm_shows [abs_def] by (rule each_shows)
  then show ?thesis
    by (cases "those (map arm_of (enumerate_from 0 (dr_syscalls d)))")
      (simp_all add: generate_syscall_dispatch_def show_dispatcher_def dispatch_head_def dispatch_foot_def other_arm_def)
qed

end
