(* ===== verification/Drvli_Types.thy ===== *)
theory Drvli_Types
  imports Drvli_Stubs Drvli_Correct
begin

text \<open>
  When the code generators succeed: the types that Rust has a name for in each context, and the
  names they make up for interfaces and structs, which never clash.
\<close>

subsection \<open>Names\<close>

definition camel_ok :: "string \<Rightarrow> bool" where
  "camel_ok name \<longleftrightarrow> (\<forall>s \<in> set (split_char (CHR ''_'') name). s \<noteq> [])"

lemma camel_segments_defined: "camel_segments ss \<noteq> None \<longleftrightarrow> (\<forall>s \<in> set ss. s \<noteq> [])"
  by (induction ss rule: camel_segments.induct) (auto simp: run_cases)

lemma camel_case_defined [simp]: "(\<exists>s. camel_case name = Some s) \<longleftrightarrow> camel_ok name"
  using camel_segments_defined by (simp add: camel_case_def camel_ok_def)

fun join_with :: "char \<Rightarrow> string list \<Rightarrow> string" where
  "join_with c [] = []"
| "join_with c [s] = s"
| "join_with c (s # t # ss) = s @ c # join_with c (t # ss)"

lemma split_char_nonempty [simp]: "split_char c s \<noteq> []"
  by (induction s) (auto split: list.splits)

lemma join_split: "join_with c (split_char c s) = s"
proof (induction s)
  case (Cons x xs)
  obtain y ys where "split_char c xs = y # ys" by (cases "split_char c xs") auto
  with Cons show ?case by (cases ys) auto
qed simp

definition upper :: "char \<Rightarrow> bool" where
  "upper c \<longleftrightarrow> (of_char c :: nat) \<in> {65..90}"

definition lower :: "char \<Rightarrow> bool" where
  "lower c \<longleftrightarrow> (of_char c :: nat) \<in> {97..122}"

definition snake_segment :: "string \<Rightarrow> bool" where
  "snake_segment s \<longleftrightarrow> s \<noteq> [] \<and> lower (hd s) \<and> (\<forall>c \<in> set (tl s). \<not> upper c)"

definition snake_case :: "string \<Rightarrow> bool" where
  "snake_case name \<longleftrightarrow> (\<forall>s \<in> set (split_char (CHR ''_'') name). snake_segment s)"

lemma upper_lower: "lower c \<Longrightarrow> upper (to_ascii_uppercase c) \<and> (of_char (to_ascii_uppercase c) :: nat) = of_char c - 32"
  by (auto simp: lower_def upper_def to_ascii_uppercase_def Let_def)

lemma uppercase_inj: "lower c \<Longrightarrow> lower d \<Longrightarrow> to_ascii_uppercase c = to_ascii_uppercase d \<Longrightarrow> c = d"
proof -
  assume l: "lower c" "lower d" "to_ascii_uppercase c = to_ascii_uppercase d"
  then have "(of_char c :: nat) - 32 = of_char d - 32" using upper_lower [of c] upper_lower [of d] by metis
  moreover have "97 \<le> (of_char c :: nat)" "97 \<le> (of_char d :: nat)" using l(1,2) by (simp_all add: lower_def)
  moreover have "a - 32 = b - 32 \<Longrightarrow> 97 \<le> a \<Longrightarrow> 97 \<le> b \<Longrightarrow> a = b" for a b :: nat by linarith
  ultimately have "(of_char c :: nat) = of_char d" by blast
  then show "c = d" by simp
qed

lemma camel_head: "\<forall>s \<in> set ss. snake_segment s \<Longrightarrow> camel_segments ss = Some x \<Longrightarrow> x = [] \<or> upper (hd x)"
  using upper_lower by (cases ss rule: camel_segments.cases) (auto simp: snake_segment_def run_cases)

lemma camel_segments_inj:
  assumes "camel_segments ss = Some x" "camel_segments ts = Some x" "\<forall>s \<in> set ss. snake_segment s" "\<forall>t \<in> set ts. snake_segment t"
  shows "ss = ts"
  using assms
proof (induction ss arbitrary: ts x)
  case Nil
  then show ?case by (cases ts rule: camel_segments.cases) (auto simp: run_cases)
next
  case (Cons s ss)
  obtain c cs where s: "s = c # cs" using Cons.prems(1) by (cases s) auto
  obtain y where y: "camel_segments ss = Some y" "x = to_ascii_uppercase c # cs @ y" using Cons.prems(1) s by (auto simp: run_cases)
  then obtain t us where ts: "ts = t # us" using Cons.prems(2) by (cases ts) auto
  then obtain d ds where t: "t = d # ds" using Cons.prems(2) by (cases t) auto
  obtain z where z: "camel_segments us = Some z" "x = to_ascii_uppercase d # ds @ z" using Cons.prems(2) t ts by (auto simp: run_cases)
  have low: "lower c" "lower d" "\<forall>a \<in> set cs. \<not> upper a" "\<forall>a \<in> set ds. \<not> upper a"
    using Cons.prems(3,4) s t ts by (auto simp: snake_segment_def)
  have hd: "y = [] \<or> upper (hd y)" "z = [] \<or> upper (hd z)"
    using camel_head Cons.prems(3,4) y(1) z(1) ts by auto
  have tw: "takeWhile (\<lambda>a. \<not> upper a) (as @ w) = as \<and> dropWhile (\<lambda>a. \<not> upper a) (as @ w) = w"
    if "\<forall>a \<in> set as. \<not> upper a" "w = [] \<or> upper (hd w)" for as w
    using that by (cases w) (auto simp: takeWhile_append2 dropWhile_append2)
  have e: "cs @ y = ds @ z" using y(2) z(2) by simp
  have "cs = ds \<and> y = z" using tw [OF low(3) hd(1)] tw [OF low(4) hd(2)] e by metis
  moreover from this have "c = d" using y(2) z(2) low uppercase_inj by simp
  moreover have "ss = us" using Cons.IH [OF y(1), of us] z(1) Cons.prems(3,4) ts calculation by auto
  ultimately show ?case using s t ts by simp
qed

text \<open>
  The names that the generators make up do not clash.  Two names in snake case (segments that
  begin with a small letter and have no capital) that become the same camel-case name are the
  same, so different interfaces and structs become different types.
\<close>

theorem camel_case_injective:
  assumes "snake_case a" "snake_case b" "camel_case a = camel_case b"
  shows "a = b"
proof -
  have "\<forall>s \<in> set (split_char (CHR ''_'') a). s \<noteq> []" using assms(1) by (auto simp: snake_case_def snake_segment_def)
  then obtain x where "camel_case a = Some x"
    using camel_segments_defined [of "split_char (CHR ''_'') a"] unfolding camel_case_def by blast
  then have "split_char (CHR ''_'') a = split_char (CHR ''_'') b"
    using camel_segments_inj [of "split_char (CHR ''_'') a" x "split_char (CHR ''_'') b"] assms
    by (simp add: camel_case_def snake_case_def)
  then show "a = b" using join_split by metis
qed

theorem camel_case_injective_witness:
  "camel_case ''fat_fs'' = Some ''FatFs'' \<and> camel_case ''fat_fs'' \<noteq> camel_case ''fatfs''"
proof -
  have s: "snake_case ''fat_fs''" "snake_case ''fatfs''"
    by (simp_all add: snake_case_def snake_segment_def lower_def upper_def)
  have "camel_case ''fat_fs'' = Some ''FatFs''"
    by code_simp
  moreover have "camel_case ''fat_fs'' \<noteq> camel_case ''fatfs''"
    using camel_case_injective [OF s] by auto
  ultimately show ?thesis by simp
qed

subsection \<open>Types\<close>

text \<open>The types that have a name in a context.\<close>

fun renderable :: "rust_ctx \<Rightarrow> dtype \<Rightarrow> bool" where
  "renderable ctx (TArray t) = (ctx = CtxSyscallKernelArg \<and> renderable ctx t)"
| "renderable ctx (TConstArray t) = (ctx = CtxSyscallKernelArg \<and> renderable ctx t)"
| "renderable ctx TBytes = (ctx = CtxArg \<or> is_ret ctx)"
| "renderable ctx TText = (ctx = CtxArg \<or> is_ret ctx)"
| "renderable ctx (TConstPtr t) = renderable ctx t"
| "renderable ctx (TOption t) = renderable ctx t"
| "renderable ctx (TPtr t) = renderable ctx t"
| "renderable ctx TProcessId = (ctx = CtxSyscallRet)"
| "renderable ctx (TProcessSpawner name) = camel_ok name"
| "renderable ctx (TStruct name) = camel_ok name"
| "renderable ctx (TTypedCapability name) = camel_ok name"
| "renderable ctx (TTuple ts) = False"
| "renderable ctx (TUnknown name) = False"
| "renderable ctx t = True"

lemma rust_type_defined: "rust_type t ctx \<noteq> None \<longleftrightarrow> renderable ctx t"
  by (induction ctx t rule: renderable.induct)
    (auto simp: bind_eq_None_conv split: option.splits)

lemma rust_type_some [simp]: "(\<exists>s. rust_type t ctx = Some s) \<longleftrightarrow> renderable ctx t"
  using rust_type_defined [of t ctx] by auto

lemma renderable_ret: "renderable CtxGrantableRet t \<longleftrightarrow> renderable CtxNormalRet t"
  by (induction t) (auto simp: is_ret_def)

lemma renderable_stream: "renderable CtxStream t \<longleftrightarrow> renderable CtxMember t"
  by (induction t) (auto simp: is_ret_def)

subsection \<open>Generators\<close>

lemma those_some: "(\<exists>ys. those xs = Some ys) \<longleftrightarrow> (\<forall>x \<in> set xs. \<exists>y. x = Some y)"
  by (induction xs) (auto split: option.splits)

lemma each_some [simp]: "(\<exists>s. each f xs = Some s) \<longleftrightarrow> (\<forall>x \<in> set xs. \<exists>s. f x = Some s)"
  using those_some [of "map f xs"] by (auto simp: each_def bind_eq_Some_conv)

lemma enumerate_from_all: "(\<forall>x \<in> set (enumerate_from n xs). P (snd x)) \<longleftrightarrow> (\<forall>x \<in> set xs. P x)"
  by (induction xs arbitrary: n) auto

lemma enumerate_from_ball: "(\<forall>(i, x) \<in> set (enumerate_from n xs). P x) \<longleftrightarrow> (\<forall>x \<in> set xs. P x)"
  using enumerate_from_all [of n xs P] by (simp add: case_prod_beta)

definition args_render :: "rust_ctx \<Rightarrow> (string \<times> dtype) list \<Rightarrow> bool" where
  "args_render ctx args \<longleftrightarrow> (\<forall>a \<in> set args. renderable ctx (snd a))"

definition return_renders :: "rust_ctx \<Rightarrow> dtype option \<Rightarrow> bool" where
  "return_renders ctx r \<longleftrightarrow> (case r of None \<Rightarrow> True | Some t \<Rightarrow> renderable ctx t)"

lemma typed_args_some [simp]: "(\<exists>s. typed_args ctx args = Some s) \<longleftrightarrow> args_render ctx args"
  by (auto simp: typed_args_def args_render_def bind_eq_Some_conv case_prod_beta)

lemma arrow_some [simp]: "(\<exists>s. arrow ctx r = Some s) \<longleftrightarrow> return_renders ctx r"
  by (cases r) (auto simp: arrow_def return_renders_def bind_eq_Some_conv)

lemma arg_tuple_some [simp]: "(\<exists>s. arg_tuple args = Some s) \<longleftrightarrow> args_render CtxNormalRet args"
proof -
  have "(\<exists>s. arg_tuple args = Some s) \<longleftrightarrow>
      (\<exists>s. each (\<lambda>(_, t). do { s \<leftarrow> rust_type t CtxNormalRet; Some (s @ '','') }) args = Some s)"
    by (auto simp: arg_tuple_def bind_eq_Some_conv)
  then show ?thesis by (simp add: args_render_def bind_eq_Some_conv case_prod_beta)
qed

text \<open>A computation whose last step cannot fail.\<close>

lemma bind_some: "(\<exists>y. (x \<bind> f) = Some y) \<longleftrightarrow> (\<exists>a. x = Some a \<and> (\<exists>y. f a = Some y))"
  by (auto simp: bind_eq_Some_conv)

definition method_ok :: "method_decl \<Rightarrow> bool" where
  "method_ok m \<longleftrightarrow> args_render CtxArg (me_args m) \<and> args_render CtxNormalRet (me_args m) \<and> return_renders CtxNormalRet (me_return m)"

definition details_ok :: "interface_details \<Rightarrow> bool" where
  "details_ok d \<longleftrightarrow> (case d of Plain \<Rightarrow> True
     | App args implements \<Rightarrow> args_render CtxMember args \<and> args_render CtxArg args \<and>
         (case implements of None \<Rightarrow> True | Some e \<Rightarrow> camel_ok e))"

definition interface_typed :: "interface_decl \<Rightarrow> bool" where
  "interface_typed i \<longleftrightarrow> camel_ok (if_name i) \<and> (\<forall>m \<in> set (if_methods i). method_ok m) \<and>
     (\<forall>s \<in> set (if_streams i). renderable CtxMember (sr_type s)) \<and> details_ok (if_details i)"

definition syscall_arg_ok :: "dtype \<Rightarrow> bool" where
  "syscall_arg_ok t \<longleftrightarrow> t \<in> {TUntypedCapability, TSharedMemory, TU64, TUsize, TArray TU8, TConstArray TU8, TPtr TU8}"

definition syscall_return_ok :: "dtype option \<Rightarrow> bool" where
  "syscall_return_ok r \<longleftrightarrow> (case r of None \<Rightarrow> True
     | Some (TTuple ts) \<Rightarrow> length ts \<noteq> 1 \<and> (\<forall>t \<in> set ts. renderable CtxSyscallRet t)
     | Some t \<Rightarrow> renderable CtxSyscallRet t)"

definition syscall_typed :: "syscall_decl \<Rightarrow> bool" where
  "syscall_typed s \<longleftrightarrow> (\<forall>a \<in> set (sy_args s). syscall_arg_ok (snd a)) \<and> syscall_return_ok (sy_return s)"

definition drvli_typed :: "drvli \<Rightarrow> bool" where
  "drvli_typed d \<longleftrightarrow> (\<forall>s \<in> set (dr_structs d). camel_ok (st_name s) \<and> args_render CtxMember (st_members s)) \<and>
     (\<forall>i \<in> set (dr_interfaces d). interface_typed i) \<and> (\<forall>s \<in> set (dr_syscalls d). syscall_typed s)"

lemmas some_defs = bind_some case_prod_beta Let_def args_render_def return_renders_def

lemma export_some: "(\<exists>x. (case implements of None \<Rightarrow> Some name | Some e \<Rightarrow> camel_case e) = Some x) \<longleftrightarrow>
    (case implements of None \<Rightarrow> True | Some e \<Rightarrow> camel_ok e)"
  by (cases implements) simp_all

lemma struct_text_some: "(\<exists>x. struct_text s = Some x) \<longleftrightarrow> camel_ok (st_name s) \<and> args_render CtxMember (st_members s)"
  by (simp add: struct_text_def some_defs)

lemma interface_text_some: "(\<exists>x. interface_text i = Some x) \<longleftrightarrow> camel_ok (if_name i) \<and>
    (case if_details i of Plain \<Rightarrow> True | App args implements \<Rightarrow> args_render CtxMember args \<and>
       (case implements of None \<Rightarrow> True | Some e \<Rightarrow> camel_ok e))"
proof (cases "if_details i")
  case (App args implements)
  then show ?thesis by (cases implements) (auto simp: interface_text_def generate_spawner_def some_defs)
qed (simp add: interface_text_def some_defs)

lemma generate_server_trait_some: "(\<exists>x. generate_server_trait i = Some x) \<longleftrightarrow> camel_ok (if_name i) \<and>
    (\<forall>m \<in> set (if_methods i). args_render CtxArg (me_args m) \<and> return_renders CtxNormalRet (me_return m)) \<and>
    (\<forall>s \<in> set (if_streams i). renderable CtxMember (sr_type s))"
  by (simp add: generate_server_trait_def bind_some)

lemma handler_arm_some: "(\<exists>x. handler_arm im = Some x) \<longleftrightarrow> args_render CtxNormalRet (me_args (snd im))"
  by (simp add: handler_arm_def bind_some case_prod_beta Let_def)

lemma generate_handler_impl_some: "(\<exists>x. generate_handler_impl i = Some x) \<longleftrightarrow> camel_ok (if_name i) \<and>
    (\<forall>m \<in> set (if_methods i). args_render CtxNormalRet (me_args m))"
  using enumerate_from_all [of 0 "if_methods i" "\<lambda>m. args_render CtxNormalRet (me_args m)"]
  by (simp add: generate_handler_impl_def bind_some handler_arm_some)

lemma generate_client_trait_some: "(\<exists>x. generate_client_trait i = Some x) \<longleftrightarrow> camel_ok (if_name i) \<and>
    (\<forall>m \<in> set (if_methods i). args_render CtxArg (me_args m) \<and> return_renders CtxNormalRet (me_return m)) \<and>
    (\<forall>s \<in> set (if_streams i). renderable CtxMember (sr_type s))"
  by (simp add: generate_client_trait_def bind_some renderable_stream)

lemma client_method_some: "(\<exists>x. client_method im = Some x) \<longleftrightarrow>
    args_render CtxArg (me_args (snd im)) \<and> return_renders CtxNormalRet (me_return (snd im))"
  by (simp add: client_method_def bind_some case_prod_beta Let_def)

lemma client_stream_some: "(\<exists>x. client_stream is = Some x) \<longleftrightarrow> renderable CtxMember (sr_type (snd is))"
  by (simp add: client_stream_def bind_some case_prod_beta Let_def renderable_stream)

lemma generate_client_impl_some: "(\<exists>x. generate_client_impl i = Some x) \<longleftrightarrow> camel_ok (if_name i) \<and>
    (\<forall>m \<in> set (if_methods i). args_render CtxArg (me_args m) \<and> return_renders CtxNormalRet (me_return m)) \<and>
    (\<forall>s \<in> set (if_streams i). renderable CtxMember (sr_type s))"
  using enumerate_from_all [of 0 "if_methods i" "\<lambda>m. args_render CtxArg (me_args m) \<and> return_renders CtxNormalRet (me_return m)"]
    enumerate_from_all [of 0 "if_streams i" "\<lambda>s. renderable CtxMember (sr_type s)"]
  by (simp add: generate_client_impl_def bind_some client_method_some client_stream_some)

lemma return_renders_ret: "return_renders CtxGrantableRet r \<longleftrightarrow> return_renders CtxNormalRet r"
  by (simp add: return_renders_def renderable_ret split: option.split)

lemma api_server_trait_some: "(\<exists>x. api_server_trait i = Some x) \<longleftrightarrow> camel_ok (if_name i) \<and>
    (\<forall>m \<in> set (if_methods i). args_render CtxArg (me_args m) \<and> return_renders CtxNormalRet (me_return m))"
  by (simp add: api_server_trait_def bind_some return_renders_ret Let_def)

lemma api_method_arm_some: "(\<exists>x. api_method_arm im = Some x) \<longleftrightarrow> args_render CtxNormalRet (me_args (snd im))"
  by (simp add: api_method_arm_def bind_some case_prod_beta Let_def)

lemma generate_server_handler_impl_some: "(\<exists>x. generate_server_handler_impl i = Some x) \<longleftrightarrow> camel_ok (if_name i) \<and>
    (\<forall>m \<in> set (if_methods i). args_render CtxNormalRet (me_args m))"
  using enumerate_from_all [of 0 "if_methods i" "\<lambda>m. args_render CtxNormalRet (me_args m)"]
  by (simp add: generate_server_handler_impl_def bind_some api_method_arm_some)

lemma spawners_some:
  assumes "if_details i = App args implements"
  shows "(\<exists>x. generate_spawner_trait i = Some x) \<longleftrightarrow> camel_ok (if_name i) \<and> args_render CtxArg args \<and>
      (case implements of None \<Rightarrow> True | Some e \<Rightarrow> camel_ok e)"
    "(\<exists>x. generate_spawner_impl i = Some x) \<longleftrightarrow> camel_ok (if_name i) \<and> args_render CtxArg args \<and>
      (case implements of None \<Rightarrow> True | Some e \<Rightarrow> camel_ok e)"
  by (cases implements; simp add: assms generate_spawner_trait_def generate_spawner_impl_def spawn_signature_def bind_some)+

lemma kernel_arg_some: "(\<exists>v. kernel_arg n t = Some v) \<longleftrightarrow> syscall_arg_ok t"
  by (cases t) (auto simp: kernel_arg_def syscall_arg_ok_def Let_def split: dtype.splits)

lemma arg_registers_all: "(\<forall>x \<in> set (arg_registers n args). P (snd x)) \<longleftrightarrow> (\<forall>a \<in> set args. P (snd a))"
proof (induction args arbitrary: n)
  case (Cons a args)
  then show ?case by (cases a) simp
qed simp

lemma dispatch_arm_some: "(\<exists>x. dispatch_arm is = Some x) \<longleftrightarrow> (\<forall>a \<in> set (sy_args (snd is)). syscall_arg_ok (snd a))"
  using arg_registers_all [of 0 "sy_args (snd is)" syscall_arg_ok]
  by (simp add: dispatch_arm_def bind_some kernel_arg_some case_prod_beta Let_def)

lemma return_types_some:
  "sy_return s = Some t \<Longrightarrow>
   (if length (ret_types s) = 1 then renderable CtxSyscallRet t else \<forall>t \<in> set (split_syscall_ret t). renderable CtxSyscallRet t) \<longleftrightarrow>
   syscall_return_ok (sy_return s)"
  by (cases t) (auto simp: ret_types_def split_syscall_ret_def syscall_return_ok_def)

lemma trait_fn_some: "(\<exists>x. trait_fn s = Some x) \<longleftrightarrow> args_render CtxSyscallKernelArg (sy_args s) \<and> syscall_return_ok (sy_return s)"
proof (cases "sy_return s")
  case None
  then show ?thesis by (simp add: trait_fn_def bind_some syscall_return_ok_def)
next
  case (Some t)
  then show ?thesis using return_types_some [OF Some] by (simp add: trait_fn_def bind_some split: if_splits)
qed

lemma syscall_stub_some: "(\<exists>x. syscall_stub is = Some x) \<longleftrightarrow>
    (\<forall>a \<in> set (stub_args (snd is)). renderable CtxSyscallArg (snd (snd a))) \<and> syscall_return_ok (sy_return (snd is))"
proof (cases "sy_return (snd is)")
  case None
  then show ?thesis by (simp add: syscall_stub_def bind_some syscall_return_ok_def case_prod_beta Let_def)
next
  case (Some t)
  then show ?thesis using return_types_some [OF Some]
    by (simp add: syscall_stub_def bind_some case_prod_beta Let_def split: if_splits)
qed

lemma syscall_arg_renders:
  assumes "syscall_arg_ok t"
  shows "renderable CtxSyscallKernelArg t" "\<forall>x \<in> set (split_syscall_arg t). renderable CtxSyscallArg (snd x)"
  using assms by (auto simp: syscall_arg_ok_def split_syscall_arg_def)

lemma syscalls_some:
  "(\<exists>x. trait_fn s = Some x) \<and> (\<exists>x. dispatch_arm (n, s) = Some x) \<and> (\<exists>x. syscall_stub (n, s) = Some x) \<longleftrightarrow> syscall_typed s"
  using syscall_arg_renders
  by (auto simp: trait_fn_some dispatch_arm_some syscall_stub_some syscall_typed_def args_render_def stub_args_def) fastforce

text \<open>
  C23: the generators' types.  The three build scripts produce code for a parsed file, instead of
  panicking, exactly when every name has no empty segment between underscores and every type has a
  name in Rust at the places it is used: the type judgement \<open>drvli_typed\<close>.
\<close>

theorem generators_defined:
  "(\<exists>types kernel api. generate_types d = Some types \<and> generate_kernel d = Some kernel \<and> generate_api d = Some api) \<longleftrightarrow> drvli_typed d"
proof -
  let ?app = "\<lambda>i. \<exists>x. (case if_details i of Plain \<Rightarrow> Some [] | App _ _ \<Rightarrow> do {
      t \<leftarrow> generate_spawner_trait i; impl \<leftarrow> generate_spawner_impl i; Some (t @ impl) }) = Some x"
  have app: "?app i \<longleftrightarrow> (case if_details i of Plain \<Rightarrow> True | App args implements \<Rightarrow> camel_ok (if_name i) \<and> args_render CtxArg args \<and>
      (case implements of None \<Rightarrow> True | Some e \<Rightarrow> camel_ok e))" for i
    using spawners_some [of i] by (auto simp: bind_some split: interface_details.split)
  have types: "(\<exists>x. generate_types d = Some x) \<longleftrightarrow>
      (\<forall>s \<in> set (dr_structs d). \<exists>x. struct_text s = Some x) \<and> (\<forall>i \<in> set (dr_interfaces d). \<exists>x. interface_text i = Some x)"
    by (simp add: generate_types_def bind_some)
  have kernel: "(\<exists>x. generate_kernel d = Some x) \<longleftrightarrow>
      (\<forall>i \<in> set (dr_interfaces d). (\<exists>x. generate_server_trait i = Some x) \<and> (\<exists>x. generate_handler_impl i = Some x)) \<and>
      (\<forall>s \<in> set (dr_syscalls d). \<exists>x. trait_fn s = Some x) \<and>
      (\<forall>s \<in> set (dr_syscalls d). \<exists>x. dispatch_arm (0, s) = Some x)"
    using enumerate_from_all [of 0 "dr_syscalls d" "\<lambda>s. \<forall>a \<in> set (sy_args s). syscall_arg_ok (snd a)"]
    by (simp add: generate_kernel_def generate_syscall_trait_def generate_syscall_dispatch_def bind_some dispatch_arm_some)
  have api: "(\<exists>x. generate_api d = Some x) \<longleftrightarrow>
      (\<forall>i \<in> set (dr_interfaces d). (\<exists>x. generate_client_trait i = Some x) \<and> (\<exists>x. generate_client_impl i = Some x) \<and>
        (\<exists>x. api_server_trait i = Some x) \<and> (\<exists>x. generate_server_handler_impl i = Some x) \<and> ?app i) \<and>
      (\<forall>s \<in> set (dr_syscalls d). \<exists>x. syscall_stub (0, s) = Some x)"
    using enumerate_from_all [of 0 "dr_syscalls d" "\<lambda>s. (\<forall>a \<in> set (stub_args s). renderable CtxSyscallArg (snd (snd a))) \<and> syscall_return_ok (sy_return s)"]
    by (simp add: generate_api_def generate_syscalls_def bind_some syscall_stub_some)
  have interface: "(\<exists>x. interface_text i = Some x) \<and> (\<exists>x. generate_server_trait i = Some x) \<and> (\<exists>x. generate_handler_impl i = Some x) \<and>
      (\<exists>x. generate_client_trait i = Some x) \<and> (\<exists>x. generate_client_impl i = Some x) \<and>
      (\<exists>x. api_server_trait i = Some x) \<and> (\<exists>x. generate_server_handler_impl i = Some x) \<and> ?app i \<longleftrightarrow> interface_typed i" for i
    unfolding app interface_text_some generate_server_trait_some generate_handler_impl_some generate_client_trait_some
      generate_client_impl_some api_server_trait_some generate_server_handler_impl_some interface_typed_def method_ok_def details_ok_def
    by (cases "if_details i") auto
  have "(\<exists>x. generate_types d = Some x) \<and> (\<exists>x. generate_kernel d = Some x) \<and> (\<exists>x. generate_api d = Some x) \<longleftrightarrow> drvli_typed d"
    unfolding types kernel api drvli_typed_def struct_text_some
    using interface syscalls_some [of _ 0] by blast
  then show ?thesis by blast
qed

end
