(* ===== verification/Drvli_Dispatch.thy ===== *)
theory Drvli_Dispatch
  imports Scheduler Drvli_Reader Drvli_Types
begin

text \<open>
  The two sides of a system call agree.  The stubs of the users put arguments where the text of the
  kernel's dispatcher reads them; and the text that the kernel's build script generates from
  \<open>interfaces.drvli\<close>, run arm by arm over the registers, is \<^const>\<open>dispatch_syscall\<close>.
\<close>

subsection \<open>Registers\<close>

lemma enumerate_from_append: "enumerate_from n (xs @ ys) = enumerate_from n xs @ enumerate_from (n + length xs) ys"
  by (induction xs arbitrary: n) auto

lemma enumerate_from_map: "enumerate_from n (map f xs) = map (\<lambda>(i, x). (i, f x)) (enumerate_from n xs)"
  by (induction xs arbitrary: n) auto

lemma enumerate_from_shift: "enumerate_from (a + b) xs = map (\<lambda>(i, x). (a + i, x)) (enumerate_from b xs)"
  by (induction xs arbitrary: b) (auto simp flip: add_Suc_right)

text \<open>The parameters of one argument, and the registers of the stub.\<close>

definition arg_params :: "nat \<Rightarrow> string \<times> dtype \<Rightarrow> (nat \<times> string \<times> string \<times> dtype) list" where
  "arg_params n a = map (\<lambda>(j, suffix, t). (n + j, fst a, suffix, t)) (enumerate_from 0 (split_syscall_arg (snd a)))"

lemma stub_registers:
  "enumerate_from n (concat (map (\<lambda>(name, t). map (\<lambda>(suffix, t). (name, suffix, t)) (split_syscall_arg t)) args)) =
     concat (map (\<lambda>((m, _), a). arg_params m a) (zip (arg_registers n args) args))"
proof (induction args arbitrary: n)
  case (Cons a args)
  have "enumerate_from n (map (\<lambda>(suffix, t). (fst a, suffix, t)) (split_syscall_arg (snd a))) = arg_params n a"
    using enumerate_from_shift [of n 0 "split_syscall_arg (snd a)"]
    by (simp add: arg_params_def enumerate_from_map comp_def case_prod_beta)
  with Cons show ?case by (cases a) (simp add: enumerate_from_append case_prod_beta)
qed simp

text \<open>The parameters of a stub that carry an argument, by the expression the kernel reads it with.\<close>

definition expr_params :: "string \<times> dtype \<Rightarrow> arg_expr \<Rightarrow> (nat \<times> string) list" where
  "expr_params a e = (case e of
       SliceAt p l \<Rightarrow> [(p, fst a @ ''_ptr''), (l, fst a @ ''_size'')]
     | CapabilityAt n \<Rightarrow> [(n, fst a)]
     | SharedMemoryAt n \<Rightarrow> [(n, fst a)]
     | U64At n \<Rightarrow> [(n, fst a)]
     | UsizeAt n \<Rightarrow> [(n, fst a)]
     | PtrAt n \<Rightarrow> [(n, fst a)])"

lemma expr_of_params:
  "expr_of n (snd a) = Some e \<Longrightarrow>
   expr_params a e = map (\<lambda>(m, name, suffix, _). (m, name @ suffix)) (arg_params n a)"
  by (auto simp: expr_of_def expr_params_def arg_params_def split_syscall_arg_def split: dtype.splits)

lemma exprs_params:
  "those (map (\<lambda>(n, t). expr_of n t) (arg_registers n args)) = Some es \<Longrightarrow>
   concat (map2 expr_params args es) = map (\<lambda>(m, name, suffix, _). (m, name @ suffix))
     (concat (map (\<lambda>((m, _), a). arg_params m a) (zip (arg_registers n args) args)))"
proof (induction args arbitrary: n es)
  case (Cons a args)
  obtain name t where a: "a = (name, t)" by fastforce
  obtain e es' where "expr_of n t = Some e" "es = e # es'"
    "those (map (\<lambda>(n, t). expr_of n t) (arg_registers (n + length (split_syscall_arg t)) args)) = Some es'"
    using Cons.prems a by (auto split: option.splits)
  with Cons.IH expr_of_params [of n a e] a show ?case by simp
qed simp

text \<open>The operands of the \<open>ecall\<close> in a stub.\<close>

definition stub_input :: "nat \<times> string \<Rightarrow> string" where
  "stub_input p = ln (''                in('' @ quote @ ''a'' @ decimal (fst p) @ quote @ '') to_reg('' @ snd p @ ''),'')"

definition stub_number :: "nat \<Rightarrow> string" where
  "stub_number n = ln (''                in('' @ quote @ ''a6'' @ quote @ '') '' @ decimal n @ '','')"

definition stub_output :: "nat \<Rightarrow> string" where
  "stub_output n = ln (''                lateout('' @ quote @ ''a'' @ decimal n @ quote @ '') a'' @ decimal n @ '','')"

definition put_register :: "result_put \<Rightarrow> nat" where
  "put_register p = (case p of AllTo r \<Rightarrow> r | PartTo r i \<Rightarrow> r)"

lemma plain_escape: "plain_name s \<Longrightarrow> plain_name (rust_escape_name s)"
  by (simp add: rust_escape_name_def plain_name_def)

lemma read_generated_arm:
  assumes "dispatch_arm is = Some code" "plain_name (sy_name (snd is))"
  shows "\<exists>a. arm_of is = Some a \<and> read_arm (text_lines code) = Some (a, [])"
proof -
  obtain a where a: "arm_of is = Some a" "code = show_lines (show_arm a)"
    using assms(1) by (auto simp: dispatch_arm_shows)
  then have "arm_callee a = rust_escape_name (sy_name (snd is))" by (auto simp: arm_of_def run_Some split: prod.splits)
  with assms(2) have plain: "plain_name (arm_callee a)" by (simp add: plain_escape)
  then have "text_lines code = show_arm a" using a(2) by (simp add: text_lines_show one_line_arm)
  with read_arm_show [of a "[]"] plain a(1) show ?thesis by (simp add: plain_name_def)
qed

lemma enumerate_from_fst: "map fst (enumerate_from n xs) = [n..<n + length xs]"
  by (induction xs arbitrary: n) (simp_all add: upt_rec)

lemma generated_outputs:
  "concat (map (\<lambda>(ret_index, _).
       ln (''                lateout('' @ quote @ ''a'' @ decimal ret_index @ quote @ '') a'' @ decimal ret_index @ '',''))
       (enumerate_from 0 (ret_types s))) =
     concat (map stub_output (if sy_return s = Some TNever then [0] else map put_register (puts_of s)))"
proof -
  have "(\<lambda>(ret_index, _). ln (''                lateout('' @ quote @ ''a'' @ decimal ret_index @ quote @ '') a'' @
      decimal ret_index @ '','')) = (\<lambda>x :: nat \<times> dtype. stub_output (fst x))"
    by (auto simp: fun_eq_iff stub_output_def)
  moreover have "map fst (enumerate_from 0 (ret_types s)) =
      (if sy_return s = Some TNever then [0] else map put_register (puts_of s))"
  proof (cases "sy_return s")
    case None
    then show ?thesis by (simp add: ret_types_def puts_of_def)
  next
    case (Some t)
    have parts: "map put_register (map (\<lambda>(i, _). PartTo i i) xs) = map fst xs" for xs :: "(nat \<times> dtype) list"
      by (induction xs) (auto simp: put_register_def)
    consider "t = TNever" | "t \<noteq> TNever" "length (ret_types s) = 1" | "t \<noteq> TNever" "length (ret_types s) \<noteq> 1" by blast
    then show ?thesis
    proof cases
      case 1
      then show ?thesis using Some by (simp add: ret_types_def split_syscall_ret_def)
    next
      case 2
      then show ?thesis using Some by (simp add: enumerate_from_fst puts_of_def put_register_def)
    next
      case 3
      then have "puts_of s = map (\<lambda>(i, _). PartTo i i) (enumerate_from 0 (ret_types s))"
        using Some by (simp add: puts_of_def ret_types_def)
      with 3 Some parts show ?thesis by simp
    qed
  qed
  moreover have "map (\<lambda>x. stub_output (fst x)) xs = map stub_output (map fst xs)" for xs :: "(nat \<times> dtype) list"
    by simp
  ultimately show ?thesis by (simp only:)
qed

lemma before_skip: "\<exists>before. r = before @ x \<Longrightarrow> \<exists>before. a @ r = before @ x"
  by (metis append_assoc)

lemma before_here: "\<exists>before. x = before @ (x :: 'a list)"
  by (metis append_Nil)

lemma bind_twice: "(do { p \<leftarrow> P; r \<leftarrow> R; Some (f p r) }) = Some x \<Longrightarrow> \<exists>p r. x = f p r"
  by (auto simp: run_Some)

lemma exprs_length:
  assumes "those (map (\<lambda>(n, t). expr_of n t) (arg_registers m args)) = Some es"
  shows "length es = length args"
proof -
  have "length ys = length xs" if "those xs = Some ys" for xs :: "arg_expr option list" and ys
    using that by (induction xs arbitrary: ys) (auto split: option.splits)
  moreover have "length (arg_registers n args) = length args" for n args
    by (induction args arbitrary: n) auto
  ultimately show ?thesis using assms by fastforce
qed

lemma stub_inputs:
  assumes "those (map (\<lambda>(n, t). expr_of n t) (arg_registers 0 (sy_args s))) = Some es"
  shows "concat (map (\<lambda>(arg_index, arg_name, arg_suffix, _).
       ln (''                in('' @ quote @ ''a'' @ decimal arg_index @ quote @ '') to_reg('' @ arg_name @ arg_suffix @ ''),''))
       (enumerate_from 0 (stub_args s))) = concat (map stub_input (concat (map2 expr_params (sy_args s) es)))"
proof -
  have "(\<lambda>(arg_index, arg_name, arg_suffix, _). ln (''                in('' @ quote @ ''a'' @ decimal arg_index @ quote @
      '') to_reg('' @ arg_name @ arg_suffix @ ''),'')) =
      (\<lambda>x :: nat \<times> string \<times> string \<times> dtype. stub_input ((\<lambda>(m, name, suffix, _). (m, name @ suffix)) x))"
    by (auto simp: fun_eq_iff stub_input_def)
  then show ?thesis
    unfolding exprs_params [OF assms] stub_args_def stub_registers by (simp only: map_map comp_def)
qed

text \<open>The operands of the \<open>ecall\<close> in the text of a stub.\<close>

lemma stub_operands:
  assumes "syscall_stub (i, s) = Some stub"
    and es: "those (map (\<lambda>(n, t). expr_of n t) (arg_registers 0 (sy_args s))) = Some es"
  shows "\<exists>before after. stub = before @ concat (map stub_input (concat (map2 expr_params (sy_args s) es))) @ stub_number i @
    concat (map stub_output (if sy_return s = Some TNever then [0] else map put_register (puts_of s))) @
    ln ''            );'' @ after"
proof -
  from bind_twice [OF assms(1) [unfolded syscall_stub_def Let_def prod.case stub_inputs [OF es] generated_outputs stub_number_def [symmetric]]]
  obtain params ret where stub: "stub = ''    pub unsafe fn '' @ rust_escape_name (sy_name s) @ ''('' @ params @ '')'' @ ret @ ln '' {'' @
     concat (map (\<lambda>(ret_index, _). ln (''        let a'' @ decimal ret_index @ '': usize;'')) (enumerate_from 0 (ret_types s))) @
     ln ''        unsafe {'' @
     ln ''            core::arch::asm!('' @
     ln (''                '' @ quote @ ''ecall'' @ quote @ '','') @
     concat (map stub_input (concat (map2 expr_params (sy_args s) es))) @ stub_number i @
     concat (map stub_output (if sy_return s = Some TNever then [0] else map put_register (puts_of s))) @
     ln ''            );'' @
     (if sy_return s = None then []
      else if length (ret_types s) = 1 then ln ''            from_reg(a0)''
      else ''            ('' @ concat (map (\<lambda>(ret_index, _). ''from_reg(a'' @ decimal ret_index @ ''), '')
        (enumerate_from 0 (ret_types s))) @ ln ''            )'') @
     ln ''        }'' @ ln ''    }''"
    by blast
  have "\<exists>before. stub = before @ concat (map stub_input (concat (map2 expr_params (sy_args s) es))) @ stub_number i @
     concat (map stub_output (if sy_return s = Some TNever then [0] else map put_register (puts_of s))) @
     ln ''            );'' @
     (if sy_return s = None then []
      else if length (ret_types s) = 1 then ln ''            from_reg(a0)''
      else ''            ('' @ concat (map (\<lambda>(ret_index, _). ''from_reg(a'' @ decimal ret_index @ ''), '')
        (enumerate_from 0 (ret_types s))) @ ln ''            )'') @
     ln ''        }'' @ ln ''    }''"
    unfolding stub by (rule before_here | rule before_skip)+
  then show ?thesis by blast
qed

text \<open>
  C21: the stubs that users call and the dispatcher of the kernel use the same registers, for any
  system call in the language.  Read back from the text of its arm, the dispatcher takes each
  argument out of certain registers, and a slice out of one for its pointer and one for its length;
  the text of the stub has as operands of its \<open>ecall\<close> exactly these registers, each with the
  parameter that the kernel takes it for, then the number of the arm in \<open>a6\<close>, and gets its
  results from exactly the registers in which the dispatcher stores them.
\<close>

theorem abi_registers_agree:
  assumes "dispatch_arm (i, s) = Some arm" "syscall_stub (i, s) = Some stub" "plain_name (sy_name s)"
  shows "\<exists>es puts before after.
    read_arm (text_lines arm) = Some (Arm i (rust_escape_name (sy_name s)) es puts, []) \<and>
    length es = length (sy_args s) \<and>
    stub = before @ concat (map stub_input (concat (map2 expr_params (sy_args s) es))) @ stub_number i @
      concat (map stub_output (if sy_return s = Some TNever then [0] else map put_register puts)) @
      ln ''            );'' @ after"
proof -
  obtain a where a: "arm_of (i, s) = Some a" "read_arm (text_lines arm) = Some (a, [])"
    using read_generated_arm [OF assms(1)] assms(3) by auto
  obtain es where es: "those (map (\<lambda>(n, t). expr_of n t) (arg_registers 0 (sy_args s))) = Some es"
    "a = Arm i (rust_escape_name (sy_name s)) es (puts_of s)"
    using a(1) by (auto simp: arm_of_def run_Some)
  have "length es = length (sy_args s)" by (rule exprs_length [OF es(1)])
  with a(2) es(2) stub_operands [OF assms(2) es(1)] show ?thesis by blast
qed

subsection \<open>Running the text of a dispatcher\<close>

datatype arg_value = VCapability raw_capability | VU64 u64 | VUsize usize | VSlice user_slice | VPtr user_ptr

text \<open>The field \<open>a0\<close>, \<open>a1\<close> and so on of \<open>RiscvRegisters\<close>; there is none after \<open>a7\<close>.\<close>

definition argument_register :: "nat \<Rightarrow> reg option" where
  "argument_register n = (if n < 8 then Some ([A0, A1, A2, A3, A4, A5, A6, A7] ! n) else None)"

text \<open>The value of an expression over the registers, or the error of the operator \<open>?\<close>.\<close>

definition eval_expr :: "registers \<Rightarrow> arg_expr \<Rightarrow> (user_syscall_error + arg_value) run" where
  "eval_expr r e = (case e of
       CapabilityAt n \<Rightarrow> do { x \<leftarrow> argument_register n; Some (map_sum id VCapability (reg_capability r x)) }
     | SharedMemoryAt n \<Rightarrow> do { x \<leftarrow> argument_register n; Some (map_sum id VCapability (reg_capability r x)) }
     | U64At n \<Rightarrow> do { x \<leftarrow> argument_register n; Some (Inr (VU64 (word_of_nat (r x)))) }
     | UsizeAt n \<Rightarrow> do { x \<leftarrow> argument_register n; Some (Inr (VUsize (r x))) }
     | SliceAt p l \<Rightarrow> do {
         x \<leftarrow> argument_register p;
         y \<leftarrow> argument_register l;
         Some (map_sum id VSlice (reg_slice r x y)) }
     | PtrAt n \<Rightarrow> do { x \<leftarrow> argument_register n; Some (map_sum id VPtr (reg_ptr r x)) })"

text \<open>The arguments of a call are evaluated in order; the first error is returned.\<close>

fun eval_exprs :: "registers \<Rightarrow> arg_expr list \<Rightarrow> (user_syscall_error + arg_value list) run" where
  "eval_exprs r [] = Some (Inr [])"
| "eval_exprs r (e # es) = do {
     v \<leftarrow> eval_expr r e;
     case v of
       Inl err \<Rightarrow> Some (Inl err)
     | Inr v \<Rightarrow> do {
         vs \<leftarrow> eval_exprs r es;
         Some (case vs of Inl err \<Rightarrow> Inl err | Inr vs \<Rightarrow> Inr (v # vs)) } }"

fun run_put :: "usize list \<Rightarrow> result_put \<Rightarrow> registers \<Rightarrow> registers run" where
  "run_put results (AllTo n) r = do {
     ensure (length results = 1);
     x \<leftarrow> argument_register n;
     Some (r(x := results ! 0)) }"
| "run_put results (PartTo n i) r = do {
     ensure (i < length results);
     x \<leftarrow> argument_register n;
     Some (r(x := results ! i)) }"

fun run_puts :: "usize list \<Rightarrow> result_put list \<Rightarrow> registers \<Rightarrow> registers run" where
  "run_puts results [] r = Some r"
| "run_puts results (p # ps) r = do { r \<leftarrow> run_put results p r; run_puts results ps r }"

text \<open>The match: the first arm with the number in \<open>a6\<close>, or the error of the arm for all others.\<close>

definition run_dispatcher ::
  "arm list \<Rightarrow> (string \<Rightarrow> arg_value list \<Rightarrow> ('d kernel \<times> (syscall_action + usize list)) run) \<Rightarrow>
     'd kernel \<Rightarrow> registers \<Rightarrow> ('d kernel \<times> registers \<times> (syscall_action + unit)) run" where
  "run_dispatcher arms handler k r =
     (case find (\<lambda>a. arm_number a = r A6) arms of
        None \<Rightarrow> Some (k, r, Inl (UserErr ErrInvalidSyscallNumber))
      | Some a \<Rightarrow> do {
          args \<leftarrow> eval_exprs r (arm_args a);
          case args of
            Inl e \<Rightarrow> Some (k, r, Inl (UserErr e))
          | Inr args \<Rightarrow> do {
              (k, res) \<leftarrow> handler (arm_callee a) args;
              case res of
                Inl action \<Rightarrow> Some (k, r, Inl action)
              | Inr results \<Rightarrow> do { r \<leftarrow> run_puts results (arm_puts a) r; Some (k, r, Inr ()) } } })"

text \<open>The implementation of \<open>SyscallHandler\<close>, by name, with its results as \<open>to_reg\<close> gives them.\<close>

definition results_of :: "('a \<Rightarrow> usize list) \<Rightarrow> ('d kernel \<times> (syscall_action + 'a)) run \<Rightarrow> ('d kernel \<times> (syscall_action + usize list)) run" where
  "results_of f call = do { (k, res) \<leftarrow> call; Some (k, map_sum id f res) }"

definition syscall_handler ::
  "'d env \<Rightarrow> 'd kernel \<Rightarrow> user_ctx \<Rightarrow> string \<Rightarrow> arg_value list \<Rightarrow> ('d kernel \<times> (syscall_action + usize list)) run" where
  "syscall_handler env k u name args = (case args of
       [] \<Rightarrow>
         if name = ''exit'' then results_of (\<lambda>_. []) (sys_exit k u)
         else if name = ''yield_'' then results_of (\<lambda>_. []) (sys_yield k u)
         else None
     | [VUsize n] \<Rightarrow>
         if name = ''alloc'' then results_of (\<lambda>p. [p]) (sys_alloc k u n)
         else if name = ''alloc_shared'' then results_of (\<lambda>(p, c). [p, as_usize c]) (sys_alloc_shared k u n)
         else None
     | [VSlice s] \<Rightarrow>
         if name = ''ipc_receive'' then
           results_of (\<lambda>(c, m, n, p). [capability_reg c, m, n, pid_reg p]) (sys_ipc_receive k u s)
         else if name = ''ipc_reply'' then results_of (\<lambda>_. []) (sys_ipc_reply env k u s)
         else None
     | [VCapability c] \<Rightarrow> if name = ''map_shared'' then results_of (\<lambda>(p, n). [p, n]) (sys_map_shared k u c) else None
     | [VPtr p] \<Rightarrow> if name = ''free'' then results_of (\<lambda>_. []) (sys_free k u p) else None
     | [VCapability c, VUsize n] \<Rightarrow>
         if name = ''ipc_stream'' then results_of (\<lambda>(p, n). [p, n]) (sys_ipc_stream env k u c n) else None
     | [VSlice s, VU64 n] \<Rightarrow> if name = ''log'' then results_of (\<lambda>_. []) (sys_log k u s n) else None
     | [VCapability c, VUsize m, VSlice a, VSlice b] \<Rightarrow>
         if name = ''ipc_call'' then results_of (\<lambda>n. [n]) (sys_ipc_call env k u c m a b) else None
     | _ \<Rightarrow> None)"

text \<open>The file \<open>interfaces.drvli\<close>.\<close>

definition deravel_lines :: "string list" where
  "deravel_lines =
     [''app shell(console console, fs filesystem, image_viewer process_spawner image_viewer, windowing windowing, net network, shutdown shutdown)'',
      [],
      ''app fat_fs(drive drive) implements filesystem'',
      [],
      ''app windowing(display display, keyboard input_device, mouse input_device, fs filesystem, image_viewer process_spawner image_viewer, net network, shutdown shutdown, terminal process_spawner terminal, shell process_spawner shell)'',
      ''    func create_window(width u32, height u32) window'',
      [],
      ''app terminal(windowing windowing) implements console'',
      [],
      ''app image_viewer(image shared_memory, windowing windowing)'',
      [],
      ''interface filesystem'',
      ''    func read(path text) bytes'',
      ''    func read_large(path text) shared_memory'',
      ''    func write(path text, data bytes)'',
      ''    func subcapability(path text) filesystem'',
      [],
      ''interface drive'',
      ''    func read(sector u64) bytes'',
      ''    func read_mapped(first_sector u64, sector_count u64) shared_memory'',
      ''    func write(sector u64, data bytes)'',
      ''    func capacity() u64'',
      [],
      ''interface console'',
      ''    func getchar() u8'',
      ''    func putchar(c u8)'',
      [],
      ''interface display'',
      ''    func width() u32'',
      ''    func height() u32'',
      ''    func framebuffer() shared_memory'',
      ''    func draw()'',
      ''    func cursor_image_buffer() shared_memory'',
      ''    func cursor_image_modified()'',
      ''    func update_cursor(x u32, y u32)'',
      [],
      ''struct input_event'',
      ''    type u16'',
      ''    code u16'',
      ''    value u32'',
      [],
      ''struct input_absinfo'',
      ''    min u32'',
      ''    max u32'',
      ''    fuzz u32'',
      ''    flat u32'',
      ''    res u32'',
      [],
      ''interface input_device'',
      ''    func absinfo(axis u16) input_absinfo'',
      ''    stream events input_event'',
      [],
      ''interface window'',
      ''    func framebuffer() shared_memory'',
      ''    func draw()'',
      ''    stream events input_event'',
      [],
      ''interface network'',
      ''    func dns(domain text) text'',
      [],
      ''interface shutdown'',
      ''    func shutdown() never'',
      [],
      ''syscall exit() never'',
      [],
      ''syscall ipc_call(cap capability, method usize, args const_array u8, result array u8) usize'',
      [],
      ''syscall ipc_receive(args array u8) option capability, usize, usize, option pid'',
      [],
      ''syscall ipc_reply(result const_array u8)'',
      [],
      ''syscall ipc_stream(cap capability, stream_ usize) ptr, usize'',
      [],
      ''syscall alloc(size usize) ptr u8'',
      [],
      ''syscall alloc_shared(size usize) ptr u8, shared_memory'',
      [],
      ''syscall map_shared(cap shared_memory) ptr u8, usize'',
      [],
      ''syscall free(p ptr u8)'',
      [],
      ''syscall yield()'',
      [],
      ''syscall log(message const_array u8, level u64)'']"

definition deravel_text :: string where
  "deravel_text = concat (map (\<lambda>l. l @ [newline]) deravel_lines)"

definition deravel_syscalls :: "syscall_decl list" where
  "deravel_syscalls =
     [\<lparr>sy_name = ''exit'', sy_args = [], sy_return = Some TNever\<rparr>,
      \<lparr>sy_name = ''ipc_call'', sy_args = [(''cap'', TUntypedCapability), (''method'', TUsize), (''args'', TConstArray TU8),
         (''result'', TArray TU8)], sy_return = Some TUsize\<rparr>,
      \<lparr>sy_name = ''ipc_receive'', sy_args = [(''args'', TArray TU8)],
         sy_return = Some (TTuple [TOption TUntypedCapability, TUsize, TUsize, TOption TProcessId])\<rparr>,
      \<lparr>sy_name = ''ipc_reply'', sy_args = [(''result'', TConstArray TU8)], sy_return = None\<rparr>,
      \<lparr>sy_name = ''ipc_stream'', sy_args = [(''cap'', TUntypedCapability), (''stream_'', TUsize)],
         sy_return = Some (TTuple [TUntypedPointer, TUsize])\<rparr>,
      \<lparr>sy_name = ''alloc'', sy_args = [(''size'', TUsize)], sy_return = Some (TPtr TU8)\<rparr>,
      \<lparr>sy_name = ''alloc_shared'', sy_args = [(''size'', TUsize)], sy_return = Some (TTuple [TPtr TU8, TSharedMemory])\<rparr>,
      \<lparr>sy_name = ''map_shared'', sy_args = [(''cap'', TSharedMemory)], sy_return = Some (TTuple [TPtr TU8, TUsize])\<rparr>,
      \<lparr>sy_name = ''free'', sy_args = [(''p'', TPtr TU8)], sy_return = None\<rparr>,
      \<lparr>sy_name = ''yield'', sy_args = [], sy_return = None\<rparr>,
      \<lparr>sy_name = ''log'', sy_args = [(''message'', TConstArray TU8), (''level'', TU64)], sy_return = None\<rparr>]"

lemma deravel_text_lines: "text_lines deravel_text = deravel_lines"
  unfolding deravel_text_def by (rule text_lines_print) (simp add: deravel_lines_def)

lemma parse_deravel: "map_option dr_syscalls (parse_drvli deravel_text) = Some deravel_syscalls"
  unfolding parse_drvli_def deravel_text_lines deravel_lines_def deravel_syscalls_def
  by code_simp

subsection \<open>The dispatcher is the generated one\<close>

definition deravel_arms :: "arm list" where
  "deravel_arms =
     [Arm 0 ''exit'' [] [],
      Arm 1 ''ipc_call'' [CapabilityAt 0, UsizeAt 1, SliceAt 2 3, SliceAt 4 5] [AllTo 0],
      Arm 2 ''ipc_receive'' [SliceAt 0 1] [PartTo 0 0, PartTo 1 1, PartTo 2 2, PartTo 3 3],
      Arm 3 ''ipc_reply'' [SliceAt 0 1] [],
      Arm 4 ''ipc_stream'' [CapabilityAt 0, UsizeAt 1] [PartTo 0 0, PartTo 1 1],
      Arm 5 ''alloc'' [UsizeAt 0] [AllTo 0],
      Arm 6 ''alloc_shared'' [UsizeAt 0] [PartTo 0 0, PartTo 1 1],
      Arm 7 ''map_shared'' [SharedMemoryAt 0] [PartTo 0 0, PartTo 1 1],
      Arm 8 ''free'' [PtrAt 0] [],
      Arm 9 ''yield_'' [] [],
      Arm 10 ''log'' [SliceAt 0 1, U64At 2] []]"

lemma arms_of_deravel: "those (map arm_of (enumerate_from 0 deravel_syscalls)) = Some deravel_arms"
  by code_simp

lemma deravel_arms_plain: "\<forall>a \<in> set deravel_arms. plain_name (arm_callee a)"
  by (simp add: deravel_arms_def plain_name_def)

lemma run_error: "with_result (Some (k, Inl (UserErr e))) put r = Some (k, r, Inl (UserErr e))"
  by (simp add: with_result_def)

lemma run_deravel_arms:
  "run_dispatcher deravel_arms (syscall_handler env k u) k (ctx_registers u) = dispatch_syscall env k u"
proof -
  let ?r = "ctx_registers u"
  note defs = run_dispatcher_def deravel_arms_def eval_expr_def argument_register_def syscall_handler_def
    dispatch_syscall_def with_arg_def run_error Let_def results_of_def with_result_def
  show ?thesis
  proof (cases "?r A6 < 11")
    case True
    then consider "?r A6 = 0" | "?r A6 = 1" | "?r A6 = 2" | "?r A6 = 3" | "?r A6 = 4" | "?r A6 = 5" | "?r A6 = 6" | "?r A6 = 7"
      | "?r A6 = 8" | "?r A6 = 9" | "?r A6 = 10" by (auto simp: less_Suc_eq numeral_eq_Suc)
    then show ?thesis
    proof cases
      case 1
      then show ?thesis by (cases "sys_exit k u") (auto simp: defs split: sum.split)
    next
      case 2
      then show ?thesis by (cases "reg_capability ?r A0"; cases "reg_slice ?r A2 A3"; cases "reg_slice ?r A4 A5")
        (auto simp: defs bind_assoc split: sum.split intro!: Option.bind_cong)
    qed (auto simp: defs bind_assoc split: sum.split intro!: Option.bind_cong)
  next
    case False
    then show ?thesis by (simp add: defs)
  qed
qed

text \<open>
  C22: the kernel's dispatch of system calls is the code that its build script generates.  Parsing
  all of \<open>interfaces.drvli\<close> succeeds, the generator writes a dispatcher for what it declares, and
  running the text of this dispatcher (read back with nothing but the text: the arm of the number
  in \<open>a6\<close>, its arguments out of the registers that it names, in order, the first error returned,
  the handler that it calls, the results into the registers that it assigns) on the implementations
  of the system calls is \<^const>\<open>dispatch_syscall\<close>, for all kernels, users and registers.
\<close>

theorem dispatch_is_generated:
  "\<exists>d code arms. parse_drvli deravel_text = Some d \<and> generate_syscall_dispatch d = Some code \<and>
     read_dispatcher code = Some arms \<and>
     run_dispatcher arms (syscall_handler env k u) k (ctx_registers u) = dispatch_syscall env k u"
proof -
  obtain d where d: "parse_drvli deravel_text = Some d" "dr_syscalls d = deravel_syscalls"
    using parse_deravel by auto
  then have "generate_syscall_dispatch d = Some (show_lines (show_dispatcher deravel_arms))"
    by (simp add: generate_dispatch_shows arms_of_deravel)
  with d(1) read_dispatcher_show [OF deravel_arms_plain] run_deravel_arms show ?thesis by blast
qed

text \<open>The call that needs all six registers.\<close>

definition call_syscall :: syscall_decl where
  "call_syscall = \<lparr>sy_name = ''ipc_call'', sy_args = [(''cap'', TUntypedCapability), (''method'', TUsize),
     (''args'', TConstArray TU8), (''result'', TArray TU8)], sy_return = Some TUsize\<rparr>"

theorem abi_registers_agree_witness:
  "\<exists>arm stub es puts. dispatch_arm (1, call_syscall) = Some arm \<and> syscall_stub (1, call_syscall) = Some stub \<and>
     read_arm (text_lines arm) = Some (Arm 1 ''ipc_call'' es puts, []) \<and> length es = 4"
proof -
  obtain arm where arm: "dispatch_arm (1, call_syscall) = Some arm"
    by (auto simp: dispatch_arm_shows arm_of_def call_syscall_def expr_of_def split_syscall_arg_def)
  obtain stub where stub: "syscall_stub (1, call_syscall) = Some stub"
    using syscall_stub_some [of "(1, call_syscall)"]
    by (auto simp: call_syscall_def stub_args_def split_syscall_arg_def syscall_return_ok_def)
  from abi_registers_agree [OF arm stub] show ?thesis
    using arm stub by (auto simp: call_syscall_def plain_name_def rust_escape_name_def)
qed

end
