(* ===== verification/Bytes.thy ===== *)
theory Bytes
  imports Deravel_Prelude
begin

text \<open>
  Bytes of structures that are shared with devices and disks: fields of packed structures on a
  little-endian machine, and the bytes of a number.  Integers of fields are natural numbers below
  the end of their width; arithmetic on \<open>u32\<close> is checked arithmetic on natural numbers.
\<close>

subsection \<open>Little-endian fields and 32-bit arithmetic\<close>

text \<open>\<open>from_le_bytes\<close>, and what a field of a packed structure reads on a little-endian machine.\<close>

fun le_nat :: "u8 list \<Rightarrow> nat" where
  "le_nat [] = 0"
| "le_nat (b # bs) = unat b + 256 * le_nat bs"

definition field_bytes :: "nat \<Rightarrow> nat \<Rightarrow> u8 list \<Rightarrow> u8 list" where
  "field_bytes offset width bytes = take width (drop offset bytes)"

definition field :: "nat \<Rightarrow> nat \<Rightarrow> u8 list \<Rightarrow> nat" where
  "field offset width bytes = le_nat (field_bytes offset width bytes)"

abbreviation u32_end :: nat where
  "u32_end \<equiv> 4294967296"

definition add32 :: "nat \<Rightarrow> nat \<Rightarrow> nat run" where
  "add32 a b = (if a + b < u32_end then Some (a + b) else None)"

definition sub32 :: "nat \<Rightarrow> nat \<Rightarrow> nat run" where
  "sub32 a b = (if b \<le> a then Some (a - b) else None)"

definition mul32 :: "nat \<Rightarrow> nat \<Rightarrow> nat run" where
  "mul32 a b = (if a * b < u32_end then Some (a * b) else None)"

lemma le_nat_bound: "le_nat bs < 256 ^ length bs"
proof (induction bs)
  case (Cons b bs)
  have "unat b < 256" using unsigned_less [of b] by simp
  moreover have "le_nat bs + 1 \<le> 256 ^ length bs" using Cons by simp
  then have "256 * (le_nat bs + 1) \<le> 256 * 256 ^ length bs" by simp
  ultimately show ?case by simp
qed simp

lemma field_bound: "field offset width bytes < 256 ^ width"
proof -
  have "field offset width bytes < 256 ^ length (field_bytes offset width bytes)"
    unfolding field_def by (rule le_nat_bound)
  also have "\<dots> \<le> 256 ^ width"
    by (rule power_increasing) (simp_all add: field_bytes_def)
  finally show ?thesis .
qed

lemma field_u8: "field offset 1 bytes < 256"
  and field_u16: "field offset 2 bytes < 65536"
  and field_u32: "field offset 4 bytes < u32_end"
  using field_bound [of offset 1 bytes] field_bound [of offset 2 bytes]
    field_bound [of offset 4 bytes] by simp_all

lemma add32_Some [simp]: "add32 a b = Some c \<longleftrightarrow> a + b < u32_end \<and> c = a + b"
  by (auto simp: add32_def)

lemma sub32_Some [simp]: "sub32 a b = Some c \<longleftrightarrow> b \<le> a \<and> c = a - b"
  by (auto simp: sub32_def)

lemma mul32_Some [simp]: "mul32 a b = Some c \<longleftrightarrow> a * b < u32_end \<and> c = a * b"
  by (auto simp: mul32_def)

subsection \<open>The bytes of a number\<close>

primrec nat_bytes :: "nat \<Rightarrow> nat \<Rightarrow> u8 list" where
  "nat_bytes 0 n = []"
| "nat_bytes (Suc k) n = word_of_nat n # nat_bytes k (n div 256)"

lemma length_nat_bytes [simp]: "length (nat_bytes k n) = k"
  by (induction k arbitrary: n) simp_all

lemma unat_u8: "unat (word_of_nat n :: u8) = n mod 256"
  by (simp add: unsigned_of_nat take_bit_eq_mod)

lemma le_nat_bytes: "le_nat (nat_bytes k n) = n mod 256 ^ k"
proof (induction k arbitrary: n)
  case (Suc k)
  have "le_nat (nat_bytes (Suc k) n) = n mod 256 + 256 * (n div 256 mod 256 ^ k)"
    using Suc by (simp add: unat_u8)
  also have "\<dots> = n mod 256 ^ Suc k" by (simp add: mod_mult2_eq)
  finally show ?case .
qed simp

end
