(* ===== verification/Fat_Bpb.thy ===== *)
theory Fat_Bpb
  imports Bytes
begin

text \<open>
  The first sector of a FAT volume (\<open>filesystems/fat/src/bpb.rs\<close>): the union of its layouts, as
  readings of its bytes, and how the server finds out and checks the type of the volume.
\<close>

subsection \<open>The layouts\<close>

datatype fat_type = Fat12 | Fat16 | Fat32

record bpb_common =
  bs_jmp_boot :: "u8 list"
  bs_oem_name :: "u8 list"
  byts_per_sec :: nat
  sec_per_clus :: nat
  rsvd_sec_cnt :: nat
  num_fats :: nat
  root_ent_cnt :: nat
  tot_sec_16 :: nat
  media :: nat
  fat_sz_16 :: nat
  sec_per_trk :: nat
  num_heads :: nat
  hidd_sec :: nat
  tot_sec_32 :: nat

record bpb_extended_12_16 =
  x16_drv_num :: nat
  x16_boot_sig :: nat
  x16_vol_id :: nat
  x16_vol_lab :: "u8 list"
  x16_fil_sys_type :: "u8 list"
  x16_signature_word :: nat

record bpb_extended_32 =
  x32_fat_sz_32 :: nat
  x32_ext_flags :: nat
  x32_fs_ver :: nat
  x32_root_clus :: nat
  x32_fs_info :: nat
  x32_bk_boot_sec :: nat
  x32_drv_num :: nat
  x32_boot_sig :: nat
  x32_vol_id :: nat
  x32_vol_lab :: "u8 list"
  x32_fil_sys_type :: "u8 list"
  x32_signature_word :: nat

text \<open>The union is its bytes; \<open>Deref\<close> and the \<open>as_\<close> methods read them in one of the layouts.\<close>

type_synonym bpb = "u8 list"

definition bpb_deref :: "bpb \<Rightarrow> bpb_common" where
  "bpb_deref b =
     \<lparr>bs_jmp_boot = field_bytes 0 3 b, bs_oem_name = field_bytes 3 8 b,
      byts_per_sec = field 11 2 b, sec_per_clus = field 13 1 b, rsvd_sec_cnt = field 14 2 b,
      num_fats = field 16 1 b, root_ent_cnt = field 17 2 b, tot_sec_16 = field 19 2 b,
      media = field 21 1 b, fat_sz_16 = field 22 2 b, sec_per_trk = field 24 2 b,
      num_heads = field 26 2 b, hidd_sec = field 28 4 b, tot_sec_32 = field 32 4 b\<rparr>"

definition as_extended_12_16 :: "bpb \<Rightarrow> bpb_extended_12_16" where
  "as_extended_12_16 b =
     \<lparr>x16_drv_num = field 36 1 b, x16_boot_sig = field 38 1 b, x16_vol_id = field 39 4 b,
      x16_vol_lab = field_bytes 43 11 b, x16_fil_sys_type = field_bytes 54 8 b,
      x16_signature_word = field 510 2 b\<rparr>"

definition as_extended_32 :: "bpb \<Rightarrow> bpb_extended_32" where
  "as_extended_32 b =
     \<lparr>x32_fat_sz_32 = field 36 4 b, x32_ext_flags = field 40 2 b, x32_fs_ver = field 42 2 b,
      x32_root_clus = field 44 4 b, x32_fs_info = field 48 2 b, x32_bk_boot_sec = field 50 2 b,
      x32_drv_num = field 64 1 b, x32_boot_sig = field 66 1 b, x32_vol_id = field 67 4 b,
      x32_vol_lab = field_bytes 71 11 b, x32_fil_sys_type = field_bytes 82 8 b,
      x32_signature_word = field 510 2 b\<rparr>"

subsection \<open>The type of a volume\<close>

text \<open>
  \<open>validate_bpb\<close>: its assertions in their order.  What the guide to the format leaves open is left
  open here too.
\<close>

definition jmp_boot_ok :: "u8 list \<Rightarrow> bool" where
  "jmp_boot_ok bs \<longleftrightarrow>
     (case bs of [a, b, c] \<Rightarrow> (a = 0xEB \<and> c = 0x90) \<or> a = 0xE9 | _ \<Rightarrow> False)"

definition validate_bpb :: "bpb \<Rightarrow> fat_type \<Rightarrow> unit run" where
  "validate_bpb b type = do {
     let c = bpb_deref b;
     ensure (jmp_boot_ok (bs_jmp_boot c));
     ensure (byts_per_sec c \<in> {512, 1024, 2048, 4096});
     ensure (is_power_of_two (sec_per_clus c) \<and> sec_per_clus c > 0);
     ensure (rsvd_sec_cnt c \<noteq> 0);
     (case type of
        Fat32 \<Rightarrow> ensure (root_ent_cnt c = 0)
      | _ \<Rightarrow> ensure (is_multiple_of (root_ent_cnt c * 32) (byts_per_sec c)));
     (case type of
        Fat32 \<Rightarrow> do { ensure (tot_sec_16 c = 0); ensure (tot_sec_32 c \<noteq> 0) }
      | _ \<Rightarrow> if tot_sec_16 c \<noteq> 0 then ensure (tot_sec_32 c = 0) else ensure (tot_sec_32 c \<ge> 0x10000));
     ensure (media c = 0xF0 \<or> 0xF8 \<le> media c);
     (case type of Fat32 \<Rightarrow> ensure (fat_sz_16 c = 0) | _ \<Rightarrow> Some ()) }"

definition type_of_count :: "nat \<Rightarrow> fat_type" where
  "type_of_count n = (if n < 4085 then Fat12 else if n < 65525 then Fat16 else Fat32)"

definition determine_type :: "bpb \<Rightarrow> fat_type run" where
  "determine_type b = do {
     let c = bpb_deref b;
     entries \<leftarrow> mul32 (root_ent_cnt c) 32;
     root_dir_sectors \<leftarrow> div_ceil entries (byts_per_sec c);
     let fat_sz = (if fat_sz_16 c \<noteq> 0 then fat_sz_16 c else x32_fat_sz_32 (as_extended_32 b));
     let tot_sec = (if tot_sec_16 c \<noteq> 0 then tot_sec_16 c else tot_sec_32 c);
     fats \<leftarrow> mul32 (num_fats c) fat_sz;
     before \<leftarrow> add32 (rsvd_sec_cnt c) fats;
     rest \<leftarrow> sub32 tot_sec before;
     data_sec \<leftarrow> add32 rest root_dir_sectors;
     count_of_clusters \<leftarrow> udiv data_sec (sec_per_clus c);
     let type = type_of_count count_of_clusters;
     validate_bpb b type;
     Some type }"

subsection \<open>What an accepted volume looks like\<close>

lemma bpb_deref_bounds:
  "byts_per_sec (bpb_deref b) < 65536" "sec_per_clus (bpb_deref b) < 256"
  "rsvd_sec_cnt (bpb_deref b) < 65536" "num_fats (bpb_deref b) < 256"
  "root_ent_cnt (bpb_deref b) < 65536" "tot_sec_16 (bpb_deref b) < 65536"
  "fat_sz_16 (bpb_deref b) < 65536" "tot_sec_32 (bpb_deref b) < u32_end"
  by (simp_all add: bpb_deref_def field_u8 [simplified] field_u16 field_u32)

lemma validate_bpb_Some:
  assumes "validate_bpb b type = Some u"
  shows "byts_per_sec (bpb_deref b) \<in> {512, 1024, 2048, 4096}"
    and "0 < sec_per_clus (bpb_deref b)"
    and "0 < rsvd_sec_cnt (bpb_deref b)"
    and "byts_per_sec (bpb_deref b) dvd root_ent_cnt (bpb_deref b) * 32"
    and "type = Fat32 \<Longrightarrow> root_ent_cnt (bpb_deref b) = 0 \<and> fat_sz_16 (bpb_deref b) = 0
           \<and> tot_sec_16 (bpb_deref b) = 0"
  using assms by (cases type; auto simp: validate_bpb_def Let_def run_cases)+

end
