(* ===== verification/Fat_Directory.thy ===== *)
theory Fat_Directory
  imports Fat_Bpb
begin

text \<open>
  Directories of a FAT volume (\<open>filesystems/fat/src/directory.rs\<close>): entries of 32 bytes that hold
  either a short name or a piece of a long one, the iterator that puts long names together, and
  the translation of a path segment to a short name.

  A Rust string is the list of its scalar values; \<open>utf8\<close>, \<open>from_utf16\<close> and \<open>split_once\<close> are those
  of the standard library.
\<close>

subsection \<open>Strings\<close>

type_synonym rust_string = "nat list"

definition utf8_char :: "nat \<Rightarrow> u8 list" where
  "utf8_char c =
     (if c < 0x80 then [word_of_nat c]
      else if c < 0x800 then [word_of_nat (0xC0 + c div 64), word_of_nat (0x80 + c mod 64)]
      else if c < 0x10000 then
        [word_of_nat (0xE0 + c div 4096), word_of_nat (0x80 + c div 64 mod 64),
         word_of_nat (0x80 + c mod 64)]
      else
        [word_of_nat (0xF0 + c div 262144), word_of_nat (0x80 + c div 4096 mod 64),
         word_of_nat (0x80 + c div 64 mod 64), word_of_nat (0x80 + c mod 64)])"

definition utf8 :: "rust_string \<Rightarrow> u8 list" where
  "utf8 s = concat (map utf8_char s)"

fun from_utf16 :: "u16 list \<Rightarrow> rust_string option" where
  "from_utf16 [] = Some []"
| "from_utf16 (u # us) =
     (if u < 0xD800 \<or> 0xE000 \<le> u then map_option (Cons (unat u)) (from_utf16 us)
      else if u < 0xDC00 then
        (case us of
           [] \<Rightarrow> None
         | v # vs \<Rightarrow>
             if 0xDC00 \<le> v \<and> v < 0xE000
             then map_option (Cons (0x10000 + (unat u - 0xD800) * 0x400 + (unat v - 0xDC00)))
                    (from_utf16 vs)
             else None)
      else None)"

fun str_split_once :: "nat \<Rightarrow> rust_string \<Rightarrow> (rust_string \<times> rust_string) option" where
  "str_split_once d [] = None"
| "str_split_once d (c # cs) =
     (if c = d then Some ([], cs) else map_option (\<lambda>(a, b). (c # a, b)) (str_split_once d cs))"

subsection \<open>Entries\<close>

type_synonym directory_entry = "u8 list"

record short_entry =
  se_name :: "u8 list"
  se_attr :: u8
  se_crt_time_tenth :: nat
  se_crt_time :: nat
  se_crt_date :: nat
  se_lst_acc_date :: nat
  se_fst_clus_hi :: u16
  se_wrt_time :: nat
  se_wrt_date :: nat
  se_fst_clus_lo :: u16
  se_file_size :: nat

record long_entry =
  le_ord :: u8
  le_name1 :: "u16 list"
  le_attr :: u8
  le_type :: u8
  le_chksum :: u8
  le_name2 :: "u16 list"
  le_fst_clus_lo :: nat
  le_name3 :: "u16 list"

fun le_u16s :: "u8 list \<Rightarrow> u16 list" where
  "le_u16s (a # b # bs) = word_of_nat (le_nat [a, b]) # le_u16s bs"
| "le_u16s _ = []"

definition as_short :: "directory_entry \<Rightarrow> short_entry" where
  "as_short e =
     \<lparr>se_name = field_bytes 0 11 e, se_attr = word_of_nat (field 11 1 e),
      se_crt_time_tenth = field 13 1 e, se_crt_time = field 14 2 e, se_crt_date = field 16 2 e,
      se_lst_acc_date = field 18 2 e, se_fst_clus_hi = word_of_nat (field 20 2 e),
      se_wrt_time = field 22 2 e, se_wrt_date = field 24 2 e,
      se_fst_clus_lo = word_of_nat (field 26 2 e), se_file_size = field 28 4 e\<rparr>"

definition as_long :: "directory_entry \<Rightarrow> long_entry" where
  "as_long e =
     \<lparr>le_ord = word_of_nat (field 0 1 e), le_name1 = le_u16s (field_bytes 1 10 e),
      le_attr = word_of_nat (field 11 1 e), le_type = word_of_nat (field 12 1 e),
      le_chksum = word_of_nat (field 13 1 e), le_name2 = le_u16s (field_bytes 14 12 e),
      le_fst_clus_lo = field 26 2 e, le_name3 = le_u16s (field_bytes 28 4 e)\<rparr>"

definition ATTR_LONG_NAME :: u8 where
  "ATTR_LONG_NAME = 0x01 OR 0x02 OR 0x04 OR 0x08"

definition ATTR_LONG_NAME_MASK :: u8 where
  "ATTR_LONG_NAME_MASK = 0x01 OR 0x02 OR 0x04 OR 0x08 OR 0x10 OR 0x20"

definition LAST_LONG_ENTRY :: u8 where
  "LAST_LONG_ENTRY = 0x40"

text \<open>255 units in pieces of 13, rounded up.\<close>

definition MAX_LONG_ENTRIES :: nat where
  "MAX_LONG_ENTRIES = 20"

definition fst_clus :: "short_entry \<Rightarrow> u32" where
  "fst_clus e = push_bit 16 (ucast (se_fst_clus_hi e)) OR ucast (se_fst_clus_lo e)"

subsection \<open>Characters of names\<close>

definition is_valid_short_char :: "u8 \<Rightarrow> bool" where
  "is_valid_short_char b \<longleftrightarrow>
     (65 \<le> b \<and> b \<le> 90) \<or> (48 \<le> b \<and> b \<le> 57) \<or> 128 \<le> b \<or>
     b \<in> {36, 37, 39, 45, 95, 64, 126, 96, 33, 40, 41, 123, 125, 94, 35, 38, 32}"

definition is_valid_long_char :: "u16 \<Rightarrow> bool" where
  "is_valid_long_char cp \<longleftrightarrow>
     128 \<le> cp \<or> is_valid_short_char (ucast cp) \<or>
     (97 \<le> (ucast cp :: u8) \<and> (ucast cp :: u8) \<le> 122) \<or>
     (ucast cp :: u8) \<in> {46, 44, 59, 61, 91, 93}"

definition ascii_uppercase :: "u8 \<Rightarrow> u8" where
  "ascii_uppercase b = (if 97 \<le> b \<and> b \<le> 122 then b - 32 else b)"

subsection \<open>Long names\<close>

text \<open>The number of long entries that start here; the assertions panic.\<close>

definition try_as_first_long :: "directory_entry \<Rightarrow> nat option run" where
  "try_as_first_long e =
     (let long = as_long e in
      if le_attr long AND ATTR_LONG_NAME_MASK \<noteq> ATTR_LONG_NAME then Some None
      else do {
        ensure (le_ord long AND LAST_LONG_ENTRY \<noteq> 0);
        let long_count = unat (le_ord long XOR LAST_LONG_ENTRY);
        ensure (1 \<le> long_count \<and> long_count \<le> MAX_LONG_ENTRIES);
        Some (Some long_count) })"

definition compute_checksum :: "u8 list \<Rightarrow> u8" where
  "compute_checksum short_name =
     foldl (\<lambda>sum byte. (if sum AND 1 \<noteq> 0 then 0x80 else 0) + drop_bit 1 sum + byte) 0 short_name"

definition ord_of :: "nat \<Rightarrow> nat \<Rightarrow> u8 run" where
  "ord_of i long_count = do {
     ensure (i mod 256 + 1 < 256);
     let n = (word_of_nat (i mod 256 + 1) :: u8);
     l \<leftarrow> usub long_count 1;
     Some (if i = l then n OR LAST_LONG_ENTRY else n) }"

definition copy_long_chunk :: "long_entry \<Rightarrow> u16 list" where
  "copy_long_chunk long = le_name1 long @ le_name2 long @ le_name3 long"

text \<open>The loop of \<open>copy_long\<close>, over the entries from the last, numbered from \<open>i\<close>.\<close>

fun copy_longs :: "nat \<Rightarrow> nat \<Rightarrow> u8 \<Rightarrow> directory_entry list \<Rightarrow> u16 list run" where
  "copy_longs i n checksum [] = Some []"
| "copy_longs i n checksum (e # es) = do {
     let long = as_long e;
     w \<leftarrow> ord_of i n;
     ensure (le_ord long = w);
     ensure (le_chksum long = checksum);
     units \<leftarrow> copy_longs (Suc i) n checksum es;
     Some (copy_long_chunk long @ units) }"

definition copy_long :: "directory_entry list \<Rightarrow> u8 \<Rightarrow> u16 list run" where
  "copy_long longs checksum = do {
     ensure (length longs * 13 \<le> 13 * MAX_LONG_ENTRIES);
     copy_longs 0 (length longs) checksum (rev longs) }"

definition strip_end :: "u16 list \<Rightarrow> u16 list" where
  "strip_end name = rev (dropWhile (\<lambda>cp. cp = 0x20 \<or> cp = 0x2E) (rev name))"

definition cut_at_null :: "u16 list \<Rightarrow> u16 list run" where
  "cut_at_null name =
     (case dropWhile (\<lambda>cp. cp \<noteq> 0) name of
        [] \<Rightarrow> Some name
      | _ # padding \<Rightarrow> do {
          ensure (list_all (\<lambda>cp. cp = 0xFFFF) padding);
          Some (takeWhile (\<lambda>cp. cp \<noteq> 0) name) })"

definition postprocess_long_name :: "u16 list \<Rightarrow> rust_string run" where
  "postprocess_long_name units = do {
     name \<leftarrow> cut_at_null (dropWhile (\<lambda>cp. cp = 0x20) units);
     let name = strip_end name;
     ensure (list_all is_valid_long_char name);
     ensure (length name \<le> 255);
     from_utf16 name }"

text \<open>
  One turn of the iterator of \<open>coalesce_long_names\<close>: the entry it yields and what is left of the
  slice, which still starts with the short entry after a long name.
\<close>

definition coalesce_next ::
    "directory_entry list \<Rightarrow> ((short_entry \<times> rust_string option) \<times> directory_entry list) run" where
  "coalesce_next entries =
     (case entries of
        [] \<Rightarrow> None
      | first # rest \<Rightarrow> do {
          long \<leftarrow> try_as_first_long first;
          (case long of
             Some long_count \<Rightarrow> do {
               ensure (long_count < length entries);
               let longs = take long_count entries;
               let short = as_short (entries ! long_count);
               let checksum = compute_checksum (se_name short);
               name \<leftarrow> copy_long longs checksum;
               s \<leftarrow> postprocess_long_name name;
               Some ((short, Some s), drop long_count entries) }
           | None \<Rightarrow> Some ((as_short first, None), rest)) })"

subsection \<open>Short names\<close>

definition pad_name :: "nat \<Rightarrow> u8 list \<Rightarrow> u8 list" where
  "pad_name n bs = bs @ replicate (n - length bs) 0x20"

definition to_short_name :: "rust_string \<Rightarrow> u8 list option" where
  "to_short_name s =
     (let (main_part, extension) = (case str_split_once 46 s of Some p \<Rightarrow> p | None \<Rightarrow> (s, []));
          main_bytes = map ascii_uppercase (utf8 main_part);
          extension_bytes = map ascii_uppercase (utf8 extension)
      in if length (utf8 main_part) > 8 \<or> length (utf8 extension) > 3 then None
         else if list_all is_valid_short_char main_bytes \<and> list_all is_valid_short_char extension_bytes
         then Some (pad_name 8 main_bytes @ pad_name 3 extension_bytes)
         else None)"

end
