(* ===== verification/Fat.thy ===== *)
theory Fat
  imports Fat_Directory
begin

text \<open>
  The FAT server (\<open>filesystems/fat/src/main.rs\<close>): the geometry of the volume, chains of clusters,
  files, paths, the operations of the server and its start.

  The drive is a parameter: \<open>fs_drive s\<close> is the sector \<open>s\<close> of 512 bytes, or \<^const>\<open>None\<close> where the call
  does not come back.  Chains may be cyclic, so \<open>read_clusters\<close> is a partial function whose not
  ending is \<^const>\<open>None\<close>.
\<close>

subsection \<open>State\<close>

datatype directory =
  Normal nat
| RootDirectoryRegion

record fat_server =
  fs_type :: fat_type
  fs_drive :: "nat \<Rightarrow> u8 list run"
  fs_bpb :: bpb
  fs_fat :: "u8 list"
  fs_rdr :: "directory_entry list"

definition DISK_SECTOR_SIZE :: nat where
  "DISK_SECTOR_SIZE = 512"

subsection \<open>Geometry\<close>

text \<open>Ranges are pairs of their ends.\<close>

definition fat_sectors :: "fat_server \<Rightarrow> (nat \<times> nat) run" where
  "fat_sectors fs = do {
     let c = bpb_deref (fs_bpb fs);
     let start = rsvd_sec_cnt c;
     let single_size = (case fs_type fs of
                          Fat32 \<Rightarrow> x32_fat_sz_32 (as_extended_32 (fs_bpb fs))
                        | _ \<Rightarrow> fat_sz_16 c);
     total_size \<leftarrow> mul32 (num_fats c) single_size;
     stop \<leftarrow> add32 start total_size;
     Some (start, stop) }"

definition root_directory_sectors :: "fat_server \<Rightarrow> (nat \<times> nat) run" where
  "root_directory_sectors fs = do {
     let c = bpb_deref (fs_bpb fs);
     r \<leftarrow> fat_sectors fs;
     entries \<leftarrow> mul32 (root_ent_cnt c) 32;
     n \<leftarrow> udiv entries (byts_per_sec c);
     stop \<leftarrow> add32 (snd r) n;
     Some (snd r, stop) }"

definition total_sectors_count :: "fat_server \<Rightarrow> nat" where
  "total_sectors_count fs =
     (let c = bpb_deref (fs_bpb fs)
      in case fs_type fs of
           Fat32 \<Rightarrow> tot_sec_32 c
         | _ \<Rightarrow> if tot_sec_16 c \<noteq> 0 then tot_sec_16 c else tot_sec_32 c)"

definition data_sectors :: "fat_server \<Rightarrow> (nat \<times> nat) run" where
  "data_sectors fs = do {
     r \<leftarrow> root_directory_sectors fs;
     Some (snd r, total_sectors_count fs) }"

definition count_of_clusters :: "fat_server \<Rightarrow> nat run" where
  "count_of_clusters fs = do {
     r \<leftarrow> data_sectors fs;
     n \<leftarrow> sub32 (total_sectors_count fs) (fst r);
     udiv n (sec_per_clus (bpb_deref (fs_bpb fs))) }"

definition max_cluster :: "fat_server \<Rightarrow> nat run" where
  "max_cluster fs = do { n \<leftarrow> count_of_clusters fs; add32 n 1 }"

definition sector_of_cluster :: "fat_server \<Rightarrow> nat \<Rightarrow> nat \<Rightarrow> nat run" where
  "sector_of_cluster fs cluster i = do {
     r \<leftarrow> data_sectors fs;
     c \<leftarrow> sub32 cluster 2;
     p \<leftarrow> mul32 c (sec_per_clus (bpb_deref (fs_bpb fs)));
     s \<leftarrow> add32 (fst r) p;
     add32 s i }"

definition sector_ratio :: "fat_server \<Rightarrow> nat" where
  "sector_ratio fs = byts_per_sec (bpb_deref (fs_bpb fs)) div DISK_SECTOR_SIZE"

definition drive_sector_of_sector :: "fat_server \<Rightarrow> nat \<Rightarrow> nat \<Rightarrow> nat run" where
  "drive_sector_of_sector fs sector i = do {
     p \<leftarrow> umul (sector_ratio fs) sector;
     uadd p i }"

subsection \<open>The allocation table\<close>

definition read_fat_entry :: "fat_server \<Rightarrow> nat \<Rightarrow> nat run" where
  "read_fat_entry fs cluster =
     (case fs_type fs of
        Fat12 \<Rightarrow> do {
          i \<leftarrow> add32 cluster (cluster div 2);
          ensure (i + 2 \<le> length (fs_fat fs));
          let value = le_nat (take 2 (drop i (fs_fat fs)));
          Some (if is_multiple_of cluster 2 then value AND 0x0FFF else drop_bit 4 value) }
      | Fat16 \<Rightarrow> do {
          ensure (cluster < length (fs_fat fs) div 2);
          Some (le_nat (take 2 (drop (2 * cluster) (fs_fat fs)))) }
      | Fat32 \<Rightarrow> do {
          ensure (cluster < length (fs_fat fs) div 4);
          Some (le_nat (take 4 (drop (4 * cluster) (fs_fat fs)))) })"

definition is_end_mark :: "fat_type \<Rightarrow> nat \<Rightarrow> bool" where
  "is_end_mark type n =
     (case type of
        Fat12 \<Rightarrow> 0xFF8 \<le> n \<and> n \<le> 0xFFF
      | Fat16 \<Rightarrow> 0xFFF8 \<le> n \<and> n \<le> 0xFFFF
      | Fat32 \<Rightarrow> 0xFFFFFF8 \<le> n \<and> n \<le> 0xFFFFFFF)"

text \<open>The step of \<open>walk_clusters\<close>; the guard asks for the last cluster only when it is reached.\<close>

definition next_cluster :: "fat_server \<Rightarrow> nat \<Rightarrow> nat option run" where
  "next_cluster fs cluster = do {
     fat_entry \<leftarrow> read_fat_entry fs cluster;
     let next = fat_entry AND 0xFFFFFFF;
     follows \<leftarrow> (if 2 \<le> next then do { m \<leftarrow> max_cluster fs; Some (next \<le> m) } else Some False);
     if follows then Some (Some next)
     else if is_end_mark (fs_type fs) next then Some None
     else None }"

subsection \<open>Files\<close>

text \<open>
  The three loops of \<open>read_file\<close>.  The inner ones also say whether they broke out of the walk; the
  walk computes the successor of a cluster before it hands the cluster out.
\<close>

definition long_enough :: "nat option \<Rightarrow> u8 list \<Rightarrow> bool" where
  "long_enough limit data = (case limit of Some n \<Rightarrow> n \<le> length data | None \<Rightarrow> False)"

fun read_drive_sectors ::
    "fat_server \<Rightarrow> nat option \<Rightarrow> nat \<Rightarrow> nat list \<Rightarrow> u8 list \<Rightarrow> (bool \<times> u8 list) run" where
  "read_drive_sectors fs limit sector [] data = Some (False, data)"
| "read_drive_sectors fs limit sector (i # is') data = do {
     s \<leftarrow> drive_sector_of_sector fs sector i;
     bytes \<leftarrow> fs_drive fs s;
     let data = data @ bytes;
     if long_enough limit data then Some (True, data)
     else read_drive_sectors fs limit sector is' data }"

fun read_sectors ::
    "fat_server \<Rightarrow> nat option \<Rightarrow> nat \<Rightarrow> nat list \<Rightarrow> u8 list \<Rightarrow> (bool \<times> u8 list) run" where
  "read_sectors fs limit cluster [] data = Some (False, data)"
| "read_sectors fs limit cluster (i # is') data = do {
     sector \<leftarrow> sector_of_cluster fs cluster i;
     r \<leftarrow> read_drive_sectors fs limit sector [0..<sector_ratio fs] data;
     if fst r then Some r else read_sectors fs limit cluster is' (snd r) }"

partial_function (option) read_clusters ::
    "fat_server \<Rightarrow> nat option \<Rightarrow> nat \<Rightarrow> u8 list \<Rightarrow> u8 list option" where
  "read_clusters fs limit cluster data = do {
     next \<leftarrow> next_cluster fs cluster;
     r \<leftarrow> read_sectors fs limit cluster [0..<sec_per_clus (bpb_deref (fs_bpb fs))] data;
     if fst r then Some (snd r)
     else (case next of
             None \<Rightarrow> Some (snd r)
           | Some c \<Rightarrow> read_clusters fs limit c (snd r)) }"

text \<open>\<open>Vec::resize\<close> with zeros.\<close>

definition resize :: "nat \<Rightarrow> u8 list \<Rightarrow> u8 list" where
  "resize n data = take n data @ replicate (n - length data) 0"

definition read_file :: "fat_server \<Rightarrow> nat \<Rightarrow> nat option \<Rightarrow> u8 list run" where
  "read_file fs cluster limit = do {
     (case limit of Some n \<Rightarrow> next_multiple_of n DISK_SECTOR_SIZE | None \<Rightarrow> Some 0);
     data \<leftarrow> read_clusters fs limit cluster [];
     Some (case limit of Some n \<Rightarrow> resize n data | None \<Rightarrow> data) }"

subsection \<open>Directories and paths\<close>

function split_entries :: "u8 list \<Rightarrow> directory_entry list" where
  "split_entries bytes =
     (if length bytes < 32 then [] else take 32 bytes # split_entries (drop 32 bytes))"
  by auto
termination by (relation "measure length") auto

declare split_entries.simps [simp del]

text \<open>The buffer of a vector grown by whole sectors is as even as its contents.\<close>

definition directory_bytes_to_entries :: "u8 list \<Rightarrow> directory_entry list run" where
  "directory_bytes_to_entries bytes = do {
     ensure (length bytes mod 32 = 0);
     Some (split_entries bytes) }"

definition read_normal_directory :: "fat_server \<Rightarrow> nat \<Rightarrow> directory_entry list run" where
  "read_normal_directory fs cluster = do {
     bytes \<leftarrow> read_file fs cluster None;
     directory_bytes_to_entries bytes }"

definition read_directory :: "fat_server \<Rightarrow> directory \<Rightarrow> directory_entry list run" where
  "read_directory fs dir =
     (case dir of
        Normal cluster \<Rightarrow> read_normal_directory fs cluster
      | RootDirectoryRegion \<Rightarrow> Some (fs_rdr fs))"

lemma coalesce_next_shorter:
  "coalesce_next entries = Some (item, rest) \<Longrightarrow> length rest < length entries"
  by (auto simp: coalesce_next_def try_as_first_long_def run_cases Let_def split: if_splits)

text \<open>The loop over the entries of a directory, which ends without a result at a free entry.\<close>

function find_entry :: "rust_string \<Rightarrow> directory_entry list \<Rightarrow> short_entry option run" where
  "find_entry path_seg entries =
     (case coalesce_next entries of
        None \<Rightarrow> None
      | Some ((de, long_name), rest) \<Rightarrow>
          if hd (se_name de) = 0xE5 then find_entry path_seg rest
          else if hd (se_name de) = 0 then Some None
          else if (case long_name of
                     Some name \<Rightarrow> name = path_seg
                   | None \<Rightarrow> to_short_name path_seg = Some (se_name de))
          then Some (Some de)
          else find_entry path_seg rest)"
  by pat_completeness auto
termination
  by (relation "measure (\<lambda>(_, entries). length entries)") (auto dest: coalesce_next_shorter)

declare find_entry.simps [simp del]

lemma str_split_once_shorter: "str_split_once d s = Some (a, b) \<Longrightarrow> length b < length s"
  by (induction s arbitrary: a) (auto split: if_splits simp: less_Suc_eq)

function traverse_path :: "fat_server \<Rightarrow> directory \<Rightarrow> rust_string \<Rightarrow> (nat \<times> nat) run" where
  "traverse_path fs dir path =
     (let (path_seg, path_tail) = (case str_split_once 47 path of
                                     Some (seg, tail) \<Rightarrow> (seg, Some tail)
                                   | None \<Rightarrow> (path, None))
      in case Option.bind (read_directory fs dir) (find_entry path_seg) of
           Some (Some de) \<Rightarrow>
             (case path_tail of
                None \<Rightarrow> Some (unat (fst_clus de), se_file_size de)
              | Some tail \<Rightarrow> traverse_path fs (Normal (unat (fst_clus de))) tail)
         | _ \<Rightarrow> None)"
  by pat_completeness auto
termination
  by (relation "measure (\<lambda>(_, _, path). length path)")
    (auto dest: str_split_once_shorter split: option.splits)

declare traverse_path.simps [simp del]

subsection \<open>The server\<close>

definition fs_read :: "fat_server \<Rightarrow> directory \<Rightarrow> rust_string \<Rightarrow> u8 list run" where
  "fs_read fs dir path = do {
     (file, file_size) \<leftarrow> traverse_path fs dir path;
     read_file fs file (Some file_size) }"

text \<open>
  \<open>alloc_shared\<close> and \<open>forward_to_sender\<close> are parameters; the result is what the shared memory holds
  and the capability to it.
\<close>

definition fs_read_large ::
    "(nat \<Rightarrow> 'c run) \<Rightarrow> ('c \<Rightarrow> 'c run) \<Rightarrow> fat_server \<Rightarrow> directory \<Rightarrow> rust_string \<Rightarrow> (u8 list \<times> 'c) run" where
  "fs_read_large alloc_shared forward_to_sender fs dir path = do {
     (file, file_size) \<leftarrow> traverse_path fs dir path;
     data \<leftarrow> read_file fs file (Some file_size);
     shared_cap \<leftarrow> alloc_shared file_size;
     ensure (length data = file_size);
     cap \<leftarrow> forward_to_sender shared_cap;
     Some (data, cap) }"

definition fs_write :: "fat_server \<Rightarrow> directory \<Rightarrow> rust_string \<Rightarrow> u8 list \<Rightarrow> unit run" where
  "fs_write fs dir path data = None"

definition fs_subcapability ::
    "(directory \<Rightarrow> 'c run) \<Rightarrow> fat_server \<Rightarrow> directory \<Rightarrow> rust_string \<Rightarrow> 'c run" where
  "fs_subcapability grant_to_sender fs dir path = do {
     r \<leftarrow> traverse_path fs dir path;
     grant_to_sender (Normal (fst r)) }"

subsection \<open>Start\<close>

definition div_exact :: "nat \<Rightarrow> nat \<Rightarrow> nat run" where
  "div_exact a b = (if b \<noteq> 0 \<and> b dvd a then Some (a div b) else None)"

definition mapped_sectors ::
    "(nat \<Rightarrow> nat \<Rightarrow> u8 list run) \<Rightarrow> fat_server \<Rightarrow> nat \<times> nat \<Rightarrow> u8 list run" where
  "mapped_sectors read_mapped fs r = do {
     let bps = byts_per_sec (bpb_deref (fs_bpb fs));
     a \<leftarrow> umul (fst r) bps;
     disk_sector_offset \<leftarrow> div_exact a DISK_SECTOR_SIZE;
     n \<leftarrow> sub32 (snd r) (fst r);
     b \<leftarrow> umul n bps;
     disk_sector_count \<leftarrow> div_exact b DISK_SECTOR_SIZE;
     read_mapped disk_sector_offset disk_sector_count }"

definition volume_label :: "fat_server \<Rightarrow> u8 list option" where
  "volume_label fs =
     (let name = (case fs_type fs of
                    Fat32 \<Rightarrow> x32_vol_lab (as_extended_32 (fs_bpb fs))
                  | _ \<Rightarrow> x16_vol_lab (as_extended_12_16 (fs_bpb fs)))
      in if name = [78, 79, 32, 78, 65, 77, 69, 32, 32, 32, 32] then None else Some name)"

definition run_fat ::
    "fat_type \<Rightarrow> (nat \<Rightarrow> u8 list run) \<Rightarrow> (nat \<Rightarrow> nat \<Rightarrow> u8 list run) \<Rightarrow> bpb \<Rightarrow> (fat_server \<times> directory) run" where
  "run_fat type drive read_mapped b = do {
     let server = \<lparr>fs_type = type, fs_drive = drive, fs_bpb = b, fs_fat = [], fs_rdr = []\<rparr>;
     r \<leftarrow> fat_sectors server;
     fat \<leftarrow> mapped_sectors read_mapped server r;
     let server = server\<lparr>fs_fat := fat\<rparr>;
     server \<leftarrow> (if type = Fat12 \<or> type = Fat16 then do {
                  r \<leftarrow> root_directory_sectors server;
                  rdr \<leftarrow> mapped_sectors read_mapped server r;
                  Some (server\<lparr>fs_rdr := split_entries rdr\<rparr>) }
                else Some server);
     Some (server, case type of
                     Fat32 \<Rightarrow> Normal (x32_root_clus (as_extended_32 b))
                   | _ \<Rightarrow> RootDirectoryRegion) }"

definition fat_main ::
    "(nat \<Rightarrow> u8 list run) \<Rightarrow> (nat \<Rightarrow> nat \<Rightarrow> u8 list run) \<Rightarrow> (fat_server \<times> directory) run" where
  "fat_main drive read_mapped = do {
     b \<leftarrow> drive 0;
     ensure (length b = 512);
     type \<leftarrow> determine_type b;
     run_fat type drive read_mapped b }"

end
