(* ===== verification/Fat_Directory_Correct.thy ===== *)
theory Fat_Directory_Correct
  imports Fat_Directory
begin

text \<open>
  Directories are read as the format defines them: a reference encoder of long names (UTF-16, the
  terminator and its padding, pieces of 13 units in reverse order, their ordinals and checksums) is
  inverted by \<open>coalesce_next\<close>, and names of the 8.3 form are found by \<open>to_short_name\<close>.
\<close>

subsection \<open>UTF-16\<close>

definition scalar :: "nat \<Rightarrow> bool" where
  "scalar c \<longleftrightarrow> c < 0xD800 \<or> (0xE000 \<le> c \<and> c < 0x110000)"

definition utf16_char :: "nat \<Rightarrow> u16 list" where
  "utf16_char c =
     (if c < 0x10000 then [word_of_nat c]
      else [word_of_nat (0xD800 + (c - 0x10000) div 0x400), word_of_nat (0xDC00 + (c - 0x10000) mod 0x400)])"

definition utf16 :: "rust_string \<Rightarrow> u16 list" where
  "utf16 s = concat (map utf16_char s)"

lemma utf16_simps [simp]: "utf16 [] = []" "utf16 (c # s) = utf16_char c @ utf16 s"
  by (simp_all add: utf16_def)

lemma utf16_append [simp]: "utf16 (s @ t) = utf16 s @ utf16 t"
  by (simp add: utf16_def)

lemma unat_u16 [simp]: "c < 65536 \<Longrightarrow> unat (word_of_nat c :: u16) = c"
  by (simp add: unsigned_of_nat take_bit_nat_eq_self)

lemma u16_compare:
  assumes "c < 65536"
  shows "(word_of_nat c :: u16) < 0xD800 \<longleftrightarrow> c < 0xD800" "(0xE000 :: u16) \<le> word_of_nat c \<longleftrightarrow> 0xE000 \<le> c"
    "(word_of_nat c :: u16) < 0xDC00 \<longleftrightarrow> c < 0xDC00" "(0xDC00 :: u16) \<le> word_of_nat c \<longleftrightarrow> 0xDC00 \<le> c"
    "(word_of_nat c :: u16) < 0xE000 \<longleftrightarrow> c < 0xE000"
  using assms by (simp_all add: word_less_nat_alt word_le_nat_alt)

lemma from_utf16_pair:
  assumes "0xD800 \<le> h" "h < 0xDC00" "0xDC00 \<le> l" "l < 0xE000"
  shows "from_utf16 (word_of_nat h # word_of_nat l # us) =
    map_option (Cons (0x10000 + (h - 0xD800) * 0x400 + (l - 0xDC00))) (from_utf16 us)"
  using assms by (simp add: u16_compare)

lemma from_utf16_char:
  assumes "scalar c"
  shows "from_utf16 (utf16_char c @ us) = map_option (Cons c) (from_utf16 us)"
proof (cases "c < 0x10000")
  case True
  with assms show ?thesis
    by (auto simp: utf16_char_def scalar_def u16_compare)
next
  case False
  define d where "d = c - 0x10000"
  have "d < 0x400 * 0x400" using assms False by (auto simp: scalar_def d_def)
  then have hi: "d div 0x400 < 0x400" by (rule less_mult_imp_div_less)
  have "0x10000 + d div 0x400 * 0x400 + d mod 0x400 = c"
    using False div_mult_mod_eq [of d "0x400"] by (simp add: d_def)
  with False hi from_utf16_pair [of "0xD800 + d div 0x400" "0xDC00 + d mod 0x400" us] show ?thesis
    by (simp add: utf16_char_def flip: d_def del: of_nat_add)
qed

lemma from_utf16_utf16:
  "list_all scalar s \<Longrightarrow> from_utf16 (utf16 s) = Some s"
  by (induction s) (simp_all add: from_utf16_char)

subsection \<open>The reference encoder\<close>

definition u16_bytes :: "u16 \<Rightarrow> u8 list" where
  "u16_bytes w = [ucast w, ucast (drop_bit 8 w)]"

definition u16s_bytes :: "u16 list \<Rightarrow> u8 list" where
  "u16s_bytes ws = concat (map u16_bytes ws)"

definition long_entry_bytes :: "u8 \<Rightarrow> u8 \<Rightarrow> u16 list \<Rightarrow> directory_entry" where
  "long_entry_bytes ordinal checksum chunk =
     ordinal # u16s_bytes (take 5 chunk) @ [0x0F, 0, checksum] @
     u16s_bytes (take 6 (drop 5 chunk)) @ [0, 0] @ u16s_bytes (drop 11 chunk)"

definition pad_units :: "u16 list \<Rightarrow> u16 list" where
  "pad_units us =
     (if 13 dvd length us then us
      else us @ 0 # replicate (12 - length us mod 13) 0xFFFF)"

function pieces :: "u16 list \<Rightarrow> u16 list list" where
  "pieces us = (if us = [] then [] else take 13 us # pieces (drop 13 us))"
  by auto
termination by (relation "measure length") auto

declare pieces.simps [simp del]

fun encode_longs :: "nat \<Rightarrow> nat \<Rightarrow> u8 \<Rightarrow> u16 list list \<Rightarrow> directory_entry list" where
  "encode_longs i n checksum [] = []"
| "encode_longs i n checksum (c # cs) =
     long_entry_bytes (if Suc i = n then word_of_nat (Suc i) OR 0x40 else word_of_nat (Suc i)) checksum c #
     encode_longs (Suc i) n checksum cs"

definition long_name_entries :: "rust_string \<Rightarrow> u8 list \<Rightarrow> directory_entry list" where
  "long_name_entries s short_name =
     (let cs = pieces (pad_units (utf16 s))
      in rev (encode_longs 0 (length cs) (compute_checksum short_name) cs))"

definition long_name_ok :: "rust_string \<Rightarrow> bool" where
  "long_name_ok s \<longleftrightarrow>
     s \<noteq> [] \<and> hd s \<noteq> 0x20 \<and> last s \<noteq> 0x20 \<and> last s \<noteq> 0x2E \<and> list_all scalar s \<and>
     list_all is_valid_long_char (utf16 s) \<and> length (utf16 s) \<le> 255"

subsection \<open>Entries are read back\<close>

lemma le_nat_u16_bytes: "le_nat (u16_bytes w) = unat w"
proof -
  have "unat (ucast w :: u8) = unat w mod 256"
    by (simp add: unsigned_ucast_eq take_bit_eq_mod)
  moreover have "unat (ucast (drop_bit 8 w) :: u8) = unat w div 256"
  proof -
    have "unat w < 256 * 256" using unsigned_less [of w] by simp
    then have "unat w div 256 < 256" by (rule less_mult_imp_div_less)
    then show ?thesis
      by (simp add: unsigned_ucast_eq unsigned_drop_bit_eq drop_bit_eq_div take_bit_eq_mod unat_div)
  qed
  ultimately show ?thesis
    using div_mult_mod_eq [of "unat w" 256] by (simp add: u16_bytes_def)
qed

lemma le_u16s_bytes [simp]: "le_u16s (u16s_bytes ws) = ws"
proof (induction ws)
  case (Cons w ws)
  have "word_of_nat (le_nat (u16_bytes w)) = w" unfolding le_nat_u16_bytes by simp
  with Cons show ?case by (simp add: u16s_bytes_def u16_bytes_def)
qed (simp add: u16s_bytes_def)

lemma length_u16s_bytes [simp]: "length (u16s_bytes ws) = 2 * length ws"
  by (induction ws) (simp_all add: u16s_bytes_def u16_bytes_def)

lemma word_field_byte [simp]: "word_of_nat (le_nat [b]) = (b :: u8)"
  by simp

lemma as_long_bytes:
  assumes "length chunk = 13"
  shows "as_long (long_entry_bytes ordinal checksum chunk) =
    \<lparr>le_ord = ordinal, le_name1 = take 5 chunk, le_attr = 0x0F, le_type = 0, le_chksum = checksum,
     le_name2 = take 6 (drop 5 chunk), le_fst_clus_lo = 0, le_name3 = drop 11 chunk\<rparr>"
  using assms
  by (simp add: as_long_def long_entry_bytes_def field_def field_bytes_def)

lemma copy_long_chunk_bytes:
  "length chunk = 13 \<Longrightarrow> copy_long_chunk (as_long (long_entry_bytes ordinal checksum chunk)) = chunk"
  by (simp add: as_long_bytes copy_long_chunk_def flip: append_assoc take_add [of 5 6 chunk, simplified])

lemma ord_of_small:
  assumes "i < n" "n \<le> 20"
  shows "ord_of i n = Some (if Suc i = n then word_of_nat (Suc i) OR 0x40 else word_of_nat (Suc i))"
proof -
  have "i mod 256 = i" using assms by simp
  with assms show ?thesis by (auto simp: ord_of_def LAST_LONG_ENTRY_def Let_def)
qed

lemma copy_longs_encode:
  assumes "i + length cs = n" "n \<le> 20" "list_all (\<lambda>c. length c = 13) cs"
  shows "copy_longs i n checksum (encode_longs i n checksum cs) = Some (concat cs)"
  using assms
proof (induction cs arbitrary: i)
  case (Cons c cs)
  then have "ord_of i n = Some (if Suc i = n then word_of_nat (Suc i) OR 0x40 else word_of_nat (Suc i))"
    by (intro ord_of_small) auto
  with Cons show ?case
    using copy_long_chunk_bytes [of c] by (simp add: as_long_bytes del: of_nat_Suc)
qed simp

lemma length_encode_longs [simp]: "length (encode_longs i n checksum cs) = length cs"
  by (induction cs arbitrary: i) simp_all

lemma encode_longs_append:
  "encode_longs i n checksum (cs @ ds) =
     encode_longs i n checksum cs @ encode_longs (i + length cs) n checksum ds"
  by (induction cs arbitrary: i) simp_all

lemma try_as_first_long_bytes:
  assumes "1 \<le> n" "n \<le> 20" "length chunk = 13"
  shows "try_as_first_long (long_entry_bytes (word_of_nat n OR 0x40) checksum chunk) = Some (Some n)"
proof -
  have "n \<in> {1, 2, 3, 4, 5, 6, 7, 8, 9, 10, 11, 12, 13, 14, 15, 16, 17, 18, 19, 20}"
    using assms(1,2) by (simp only: insert_iff empty_iff) presburger
  then have "(word_of_nat n OR 0x40) AND (0x40 :: u8) \<noteq> 0 \<and> unat ((word_of_nat n OR 0x40) XOR (0x40 :: u8)) = n"
    by (elim insertE emptyE) simp_all
  with assms show ?thesis
    by (simp add: try_as_first_long_def as_long_bytes ATTR_LONG_NAME_def ATTR_LONG_NAME_MASK_def
        LAST_LONG_ENTRY_def MAX_LONG_ENTRIES_def)
qed

subsection \<open>Padding and pieces\<close>

lemma pieces_Nil [simp]: "pieces [] = []"
  by (simp add: pieces.simps)

lemma concat_pieces [simp]: "concat (pieces us) = us"
  by (induction us rule: pieces.induct) (subst pieces.simps, simp)

lemma pieces_13:
  "13 dvd length us \<Longrightarrow> list_all (\<lambda>c. length c = 13) (pieces us) \<and> length (pieces us) * 13 = length us"
proof (induction us rule: pieces.induct)
  case (1 us)
  show ?case
  proof (cases "us = []")
    case False
    have "13 \<le> length us" using 1(2) False by (intro dvd_imp_le) auto
    moreover from this have "13 dvd length (drop 13 us)" using 1(2) by (simp add: dvd_diff_nat)
    ultimately show ?thesis
      using False 1(1) by (subst (1 2) pieces.simps) simp
  qed simp
qed

lemma pad_units_dvd: "13 dvd length (pad_units us)"
proof (cases "13 dvd length us")
  case False
  have "length us mod 13 \<le> 12" by (simp flip: less_Suc_eq_le)
  then have "length us + Suc (12 - length us mod 13) = (length us div 13 + 1) * 13"
    using div_mult_mod_eq [of "length us" 13] by arith
  then have "length (pad_units us) = (length us div 13 + 1) * 13"
    using False by (simp add: pad_units_def)
  then show ?thesis by (metis dvd_triv_right)
qed (simp add: pad_units_def)

lemma pad_units_length: "length us \<le> 255 \<Longrightarrow> length (pad_units us) \<le> 260"
  using pad_units_dvd [of us] by (auto simp: pad_units_def) presburger

lemma cut_at_null_pad:
  assumes "0 \<notin> set us"
  shows "cut_at_null (pad_units us) = Some us"
proof -
  have all: "\<forall>u\<in>set us. u \<noteq> 0" using assms by metis
  then have "dropWhile (\<lambda>u. u \<noteq> 0) us = []" by (simp only: dropWhile_eq_Nil_conv)
  moreover have "takeWhile (\<lambda>u. u \<noteq> 0) (us @ 0 # v) = us" "dropWhile (\<lambda>u. u \<noteq> 0) (us @ 0 # v) = 0 # v" for v
    using all by (simp_all add: takeWhile_append2 dropWhile_append2)
  ultimately show ?thesis
    by (simp add: cut_at_null_def pad_units_def list_all_iff del: dropWhile_eq_Nil_conv)
qed

subsection \<open>Long names\<close>

lemma long_char_nonzero: "is_valid_long_char u \<Longrightarrow> u \<noteq> 0"
  by (auto simp: is_valid_long_char_def is_valid_short_char_def)

lemma utf16_char_ends:
  assumes "scalar c" "n < 0x80"
  shows "utf16_char c \<noteq> [] \<and> (hd (utf16_char c) = word_of_nat n \<longleftrightarrow> c = n)
    \<and> (last (utf16_char c) = word_of_nat n \<longleftrightarrow> c = n)"
proof (cases "c < 0x10000")
  case True
  have "(word_of_nat c :: u16) = word_of_nat n \<longleftrightarrow> c = n"
    using True assms(2) by (simp add: word_unat_eq_iff)
  with True show ?thesis by (simp add: utf16_char_def)
next
  case False
  have "c < 0x110000" using assms(1) by (auto simp: scalar_def)
  then have "c - 0x10000 < 0x400 * 0x400" using False by linarith
  then have "(c - 0x10000) div 0x400 < 0x400" by (rule less_mult_imp_div_less)
  with False assms(2) show ?thesis
    by (auto simp: utf16_char_def word_unat_eq_iff simp del: of_nat_add)
qed

lemma utf16_ends:
  assumes "list_all scalar s" "s \<noteq> []" "n < 0x80"
  shows "utf16 s \<noteq> []" "hd (utf16 s) = word_of_nat n \<longleftrightarrow> hd s = n"
    "last (utf16 s) = word_of_nat n \<longleftrightarrow> last s = n"
proof -
  obtain c t where c: "s = c # t" using assms(2) by (cases s) auto
  obtain t' c' where c': "s = t' @ [c']" using assms(2) by (cases s rule: rev_cases) auto
  have "scalar c" using assms(1) c by simp
  moreover have "scalar c'" using assms(1) c' by simp
  ultimately have "scalar c" "scalar c'" by blast+
  note ends = utf16_char_ends [OF this(1) assms(3)] utf16_char_ends [OF this(2) assms(3)]
  show "utf16 s \<noteq> []" "hd (utf16 s) = word_of_nat n \<longleftrightarrow> hd s = n" using c ends by simp_all
  show "last (utf16 s) = word_of_nat n \<longleftrightarrow> last s = n"
    using ends(2) unfolding c' by simp
qed

lemma postprocess_pad:
  assumes "long_name_ok s"
  shows "postprocess_long_name (pad_units (utf16 s)) = Some s"
proof -
  let ?u = "utf16 s"
  have s: "list_all scalar s" "s \<noteq> []" "hd s \<noteq> 0x20" "last s \<noteq> 0x20" "last s \<noteq> 0x2E"
    and v: "list_all is_valid_long_char ?u" "length ?u \<le> 255"
    using assms by (auto simp: long_name_ok_def)
  have e20: "?u \<noteq> []" "hd ?u = 0x20 \<longleftrightarrow> hd s = 0x20" "last ?u = 0x20 \<longleftrightarrow> last s = 0x20"
    and e2E: "last ?u = 0x2E \<longleftrightarrow> last s = 0x2E"
    using utf16_ends [OF s(1,2), where n = "0x20"] utf16_ends [OF s(1,2), where n = "0x2E"] by simp_all
  obtain a us where u: "?u = a # us" using e20(1) by (cases ?u) auto
  then have "a \<noteq> 0x20" using e20(2) s(3) by simp
  then have "dropWhile (\<lambda>cp. cp = 0x20) (pad_units ?u) = pad_units ?u"
    by (simp add: pad_units_def u)
  moreover have "0 \<notin> set ?u"
    using v(1) long_char_nonzero by (auto simp: list_all_iff)
  then have "cut_at_null (pad_units ?u) = Some ?u" by (rule cut_at_null_pad)
  moreover have "strip_end ?u = ?u"
  proof -
    obtain vs z where z: "?u = vs @ [z]" using e20(1) by (cases ?u rule: rev_cases) auto
    then have "z \<noteq> 0x20 \<and> z \<noteq> 0x2E" using e20(3) e2E s(4,5) by simp
    with z show ?thesis by (simp add: strip_end_def)
  qed
  ultimately show ?thesis
    using v from_utf16_utf16 [OF s(1)] by (simp add: postprocess_long_name_def)
qed

lemma long_name_pieces:
  assumes "long_name_ok s"
  defines "cs \<equiv> pieces (pad_units (utf16 s))"
  shows "list_all (\<lambda>c. length c = 13) cs" "1 \<le> length cs" "length cs \<le> 20"
proof -
  have s: "s \<noteq> []" "list_all scalar s" "length (utf16 s) \<le> 255"
    using assms(1) by (auto simp: long_name_ok_def)
  have cs: "list_all (\<lambda>c. length c = 13) cs \<and> length cs * 13 = length (pad_units (utf16 s))"
    unfolding cs_def by (rule pieces_13 [OF pad_units_dvd])
  then show "list_all (\<lambda>c. length c = 13) cs" ..
  have "pad_units (utf16 s) \<noteq> []" using utf16_ends(1) [OF s(2,1), where n = 0] by (simp add: pad_units_def)
  then show "1 \<le> length cs" using cs by (cases cs) auto
  show "length cs \<le> 20" using cs pad_units_length [OF s(3)] by linarith
qed

lemma long_name_read_back:
  assumes "long_name_ok s"
  shows "coalesce_next (long_name_entries s (se_name (as_short short)) @ short # rest) =
    Some ((as_short short, Some s), short # rest)"
proof -
  let ?check = "compute_checksum (se_name (as_short short))"
  define cs where "cs = pieces (pad_units (utf16 s))"
  define n where "n = length cs"
  define es where "es = long_name_entries s (se_name (as_short short))"
  have es: "es = rev (encode_longs 0 n ?check cs)"
    by (simp add: es_def long_name_entries_def n_def cs_def Let_def)
  note wf = long_name_pieces [OF assms, folded cs_def]
  obtain ds c where c: "cs = ds @ [c]" using wf(2) by (cases cs rule: rev_cases) auto
  have "n = Suc (length ds)" "length c = 13" using c wf(1) by (simp_all add: n_def)
  then have "es = long_entry_bytes (word_of_nat n OR 0x40) ?check c # rev (encode_longs 0 n ?check ds)"
    by (simp add: es c encode_longs_append)
  moreover have "try_as_first_long (long_entry_bytes (word_of_nat n OR 0x40) ?check c) = Some (Some n)"
    by (rule try_as_first_long_bytes) (use wf \<open>length c = 13\<close> in \<open>simp_all add: n_def\<close>)
  ultimately obtain e es' where e: "es = e # es'" "try_as_first_long e = Some (Some n)" by blast
  have len: "length es = n" by (simp add: es n_def)
  have "copy_long es ?check = Some (pad_units (utf16 s))"
    using copy_longs_encode [of 0 cs n ?check] wf
    by (simp add: copy_long_def es n_def MAX_LONG_ENTRIES_def cs_def)
  moreover have "(es @ short # rest) ! n = short" "take n (es @ short # rest) = es"
    "drop n (es @ short # rest) = short # rest"
    using len by (simp_all add: nth_append)
  ultimately have "coalesce_next (es @ short # rest) = Some ((as_short short, Some s), short # rest)"
    using postprocess_pad [OF assms] len e by (simp add: coalesce_next_def)
  then show ?thesis by (simp add: es_def)
qed

text \<open>
  C27: A long name is found again: the entries that the format prescribes for a name (UTF-16, ended
  and padded, 13 units per entry, last piece first, each with its ordinal and the checksum of the
  short name), followed by the entry with the short name, are read as exactly that name and that
  entry.  The iterator then stands on the short entry, not behind it, so the same file is yielded
  once more under its short name.
\<close>
theorem long_name_roundtrip:
  assumes "long_name_ok s"
  shows "coalesce_next (long_name_entries s (se_name (as_short short)) @ short # rest) =
    Some ((as_short short, Some s), short # rest)"
  using assms by (rule long_name_read_back)

text \<open>The name, with four letters outside ASCII, of a file whose short name is \<open>ZAZO~1  TXT\<close>.\<close>

lemma long_name_roundtrip_witness:
  "coalesce_next
     (long_name_entries [90, 97, 380, 243, 322, 263, 46, 116, 120, 116] [90, 65, 90, 79, 126, 49, 32, 32, 84, 88, 84]
       @ [[90, 65, 90, 79, 126, 49, 32, 32, 84, 88, 84] @ replicate 21 0]) =
   Some ((as_short ([90, 65, 90, 79, 126, 49, 32, 32, 84, 88, 84] @ replicate 21 0),
      Some [90, 97, 380, 243, 322, 263, 46, 116, 120, 116]),
     [[90, 65, 90, 79, 126, 49, 32, 32, 84, 88, 84] @ replicate 21 0])"
proof -
  let ?short = "[90, 65, 90, 79, 126, 49, 32, 32, 84, 88, 84] @ replicate 21 0 :: u8 list"
  have "se_name (as_short ?short) = [90, 65, 90, 79, 126, 49, 32, 32, 84, 88, 84]"
    by (simp add: as_short_def field_bytes_def)
  moreover have "long_name_ok [90, 97, 380, 243, 322, 263, 46, 116, 120, 116]"
    by (simp add: long_name_ok_def scalar_def utf16_char_def is_valid_long_char_def is_valid_short_char_def)
  ultimately show ?thesis
    using long_name_roundtrip [of "[90, 97, 380, 243, 322, 263, 46, 116, 120, 116]" ?short "[]"] by simp
qed

subsection \<open>Short names\<close>

definition trim_spaces :: "u8 list \<Rightarrow> u8 list" where
  "trim_spaces bs = rev (dropWhile (\<lambda>b. b = 0x20) (rev bs))"

text \<open>How the eleven bytes of a short name are written as a file name.\<close>

definition short_display :: "u8 list \<Rightarrow> rust_string" where
  "short_display name =
     (let main = map unat (trim_spaces (take 8 name)); extension = map unat (trim_spaces (drop 8 name))
      in if extension = [] then main else main @ 46 # extension)"

definition short_name_ok :: "u8 list \<Rightarrow> bool" where
  "short_name_ok name \<longleftrightarrow> length name = 11 \<and> list_all (\<lambda>b. is_valid_short_char b \<and> b < 128) name"

lemma pad_trim: "length bs = n \<Longrightarrow> pad_name n (trim_spaces bs) = bs"
proof (induction bs arbitrary: n rule: rev_induct)
  case (snoc b bs)
  then have n: "n = Suc (length bs)" and IH: "pad_name (length bs) (trim_spaces bs) = bs" by simp_all
  have "length (trim_spaces bs) \<le> length bs"
    unfolding trim_spaces_def using length_dropWhile_le [of _ "rev bs"] by simp
  then have "pad_name (Suc (length bs)) (trim_spaces bs) = pad_name (length bs) (trim_spaces bs) @ [0x20]"
    by (simp add: pad_name_def Suc_diff_le replicate_append_same)
  with n IH show ?case
    by (cases "b = 0x20") (simp_all add: trim_spaces_def pad_name_def)
qed (simp add: trim_spaces_def pad_name_def)

lemma set_trim: "set (trim_spaces bs) \<subseteq> set bs"
  unfolding trim_spaces_def using set_dropWhileD by fastforce

lemma length_trim: "length (trim_spaces bs) \<le> length bs"
  unfolding trim_spaces_def using length_dropWhile_le [of _ "rev bs"] by simp

lemma utf8_ascii: "list_all (\<lambda>b. b < 128) bs \<Longrightarrow> utf8 (map unat bs) = bs"
  by (induction bs) (simp_all add: utf8_def utf8_char_def word_less_nat_alt)

lemma str_split_once_absent: "d \<notin> set s \<Longrightarrow> str_split_once d s = None"
  by (induction s) auto

lemma str_split_once_append: "d \<notin> set s \<Longrightarrow> str_split_once d (s @ d # t) = Some (s, t)"
  by (induction s) auto

lemma valid_short_char:
  assumes "is_valid_short_char b"
  shows "unat b \<noteq> 46" "ascii_uppercase b = b"
proof -
  show "unat b \<noteq> 46"
  proof
    assume "unat b = 46"
    then have "unat b = unat (46 :: u8)" by simp
    then have "b = 46" by (simp only: unsigned_word_eqI)
    with assms show False by (simp add: is_valid_short_char_def)
  qed
  have "\<not> (97 \<le> b \<and> b \<le> 122)"
    using assms by (auto simp: is_valid_short_char_def word_le_nat_alt)
  then show "ascii_uppercase b = b" by (simp add: ascii_uppercase_def)
qed

lemma trimmed_name:
  assumes "list_all (\<lambda>b. is_valid_short_char b \<and> b < 128) bs"
  shows "utf8 (map unat (trim_spaces bs)) = trim_spaces bs" "46 \<notin> set (map unat (trim_spaces bs))"
    "map ascii_uppercase (trim_spaces bs) = trim_spaces bs"
    "list_all is_valid_short_char (trim_spaces bs)"
proof -
  have all: "\<forall>b\<in>set (trim_spaces bs). is_valid_short_char b \<and> b < 128"
    using assms set_trim [of bs] by (auto simp: list_all_iff)
  then show "utf8 (map unat (trim_spaces bs)) = trim_spaces bs" "46 \<notin> set (map unat (trim_spaces bs))"
    "list_all is_valid_short_char (trim_spaces bs)"
    using valid_short_char(1) by (auto intro: utf8_ascii simp: list_all_iff)
  show "map ascii_uppercase (trim_spaces bs) = trim_spaces bs"
    using all valid_short_char(2) by (auto intro: map_idI)
qed

text \<open>
  Every short name that is made of ASCII characters which the format allows is what
  \<open>to_short_name\<close> makes of its displayed form: the trailing blanks of both parts come back, and the
  dot is neither missing nor kept.
\<close>
theorem short_name_roundtrip:
  assumes "short_name_ok name"
  shows "to_short_name (short_display name) = Some name"
proof -
  let ?m = "trim_spaces (take 8 name)" and ?x = "trim_spaces (drop 8 name)"
  have len: "length name = 11" and all: "list_all (\<lambda>b. is_valid_short_char b \<and> b < 128) (take 8 name @ drop 8 name)"
    using assms by (simp_all add: short_name_ok_def)
  then have m: "list_all (\<lambda>b. is_valid_short_char b \<and> b < 128) (take 8 name)"
    and x: "list_all (\<lambda>b. is_valid_short_char b \<and> b < 128) (drop 8 name)"
    unfolding list_all_append by blast+
  have l: "length ?m \<le> 8" "length ?x \<le> 3"
    using length_trim [of "take 8 name"] length_trim [of "drop 8 name"] len by simp_all
  have pads: "pad_name 8 ?m @ pad_name 3 ?x = name" using len by (simp add: pad_trim)
  show ?thesis
  proof (cases "?x = []")
    case True
    then have "short_display name = map unat ?m" by (simp add: short_display_def)
    moreover have "str_split_once 46 (map unat ?m) = None"
      using trimmed_name(2) [OF m] by (rule str_split_once_absent)
    ultimately show ?thesis
      using True trimmed_name [OF m] l pads by (simp add: to_short_name_def utf8_def)
  next
    case False
    then have "short_display name = map unat ?m @ 46 # map unat ?x" by (simp add: short_display_def)
    moreover have "str_split_once 46 (map unat ?m @ 46 # map unat ?x) = Some (map unat ?m, map unat ?x)"
      using trimmed_name(2) [OF m] by (rule str_split_once_append)
    ultimately show ?thesis
      using trimmed_name [OF m] trimmed_name [OF x] l pads by (simp add: to_short_name_def)
  qed
qed

lemma short_name_roundtrip_witness:
  "to_short_name (short_display [83, 72, 69, 76, 76, 32, 32, 32, 69, 32, 32]) =
     Some [83, 72, 69, 76, 76, 32, 32, 32, 69, 32, 32]"
  by (rule short_name_roundtrip) (simp add: short_name_ok_def is_valid_short_char_def)

subsection \<open>Directories the server cannot read\<close>

text \<open>
  A deleted entry of a long name keeps its attributes and has \<open>0xE5\<close> for its ordinal, which fails
  the assertion; the end of the slice is not looked for; and a plus sign, which long names may
  contain, is taken for an invalid character.
\<close>

lemma deleted_long_entry_panics:
  assumes "le_attr (as_long e) = 0x0F" "le_ord (as_long e) = 0xE5"
  shows "coalesce_next (e # rest) = None"
  using assms
  by (simp add: coalesce_next_def try_as_first_long_def ATTR_LONG_NAME_def ATTR_LONG_NAME_MASK_def
      LAST_LONG_ENTRY_def MAX_LONG_ENTRIES_def)

lemma end_of_slice_panics: "coalesce_next [] = None"
  by (simp add: coalesce_next_def)

lemma plus_sign_panics: "postprocess_long_name [99, 43, 43] = None"
  by (simp add: postprocess_long_name_def cut_at_null_def strip_end_def is_valid_long_char_def
      is_valid_short_char_def)

end
