(* ===== verification/Fat_Correct.thy ===== *)
theory Fat_Correct
  imports Fat Fat_Directory_Correct
begin

text \<open>
  What the FAT server reads: only the data area of the volume, every sector of it for one place of
  one cluster; the allocation table as it was packed; and files as the concatenation of the clusters
  of their chain, from the root directory down.
\<close>

subsection \<open>Geometry\<close>

abbreviation sectors_per_cluster :: "fat_server \<Rightarrow> nat" where
  "sectors_per_cluster fs \<equiv> sec_per_clus (bpb_deref (fs_bpb fs))"

definition disk_sector :: "fat_server \<Rightarrow> nat \<Rightarrow> nat \<Rightarrow> nat \<Rightarrow> nat run" where
  "disk_sector fs cluster i j = do {
     s \<leftarrow> sector_of_cluster fs cluster i;
     drive_sector_of_sector fs s j }"

lemma total_sectors_bound: "total_sectors_count fs < u32_end"
  using bpb_deref_bounds [of "fs_bpb fs"]
  by (auto simp: total_sectors_count_def Let_def split: fat_type.splits)

lemma geometry:
  assumes "validate_bpb (fs_bpb fs) (fs_type fs) = Some u" "max_cluster fs = Some m"
  obtains d where "data_sectors fs = Some (d, total_sectors_count fs)" "d \<le> total_sectors_count fs"
    "m = (total_sectors_count fs - d) div sectors_per_cluster fs + 1" "0 < sectors_per_cluster fs"
    "0 < sector_ratio fs" "sector_ratio fs \<le> 8"
proof -
  obtain d where d: "data_sectors fs = Some (d, total_sectors_count fs)" "d \<le> total_sectors_count fs"
    "m = (total_sectors_count fs - d) div sectors_per_cluster fs + 1"
    using assms(2) by (auto simp: max_cluster_def count_of_clusters_def data_sectors_def run_cases)
  have "0 < sector_ratio fs" "sector_ratio fs \<le> 8"
    using validate_bpb_Some(1) [OF assms(1)] by (auto simp: sector_ratio_def DISK_SECTOR_SIZE_def)
  with that d validate_bpb_Some(2) [OF assms(1)] show thesis by blast
qed

lemma cluster_fits:
  assumes "m = n div k + 1" "2 \<le> c" "c \<le> m" "i < (k :: nat)"
  shows "(c - 2) * k + i < n"
proof -
  have "c - 1 \<le> n div k" using assms(1,3) by linarith
  then have "(c - 1) * k \<le> n div k * k" by simp
  moreover have "n div k * k \<le> n" by simp
  moreover have "(c - 1) * k = (c - 2) * k + k"
    using assms(2) by (metis Suc_diff_le diff_Suc_Suc mult_Suc add.commute numeral_2_eq_2 One_nat_def)
  ultimately show ?thesis using assms(4) by linarith
qed

lemma sector_of_cluster_value:
  assumes "data_sectors fs = Some (d, total_sectors_count fs)" "d \<le> total_sectors_count fs"
    "m = (total_sectors_count fs - d) div sectors_per_cluster fs + 1"
    "2 \<le> c" "c \<le> m" "i < sectors_per_cluster fs"
  shows "sector_of_cluster fs c i = Some (d + (c - 2) * sectors_per_cluster fs + i)"
    and "d + (c - 2) * sectors_per_cluster fs + i < total_sectors_count fs"
proof -
  have "(c - 2) * sectors_per_cluster fs + i < total_sectors_count fs - d"
    by (rule cluster_fits) (use assms in auto)
  with assms total_sectors_bound [of fs]
  show "sector_of_cluster fs c i = Some (d + (c - 2) * sectors_per_cluster fs + i)"
    and "d + (c - 2) * sectors_per_cluster fs + i < total_sectors_count fs"
    by (auto simp: sector_of_cluster_def bind_eq_Some_conv)
qed

lemma drive_sector_value:
  assumes "s < u32_end" "sector_ratio fs \<le> 8" "j < sector_ratio fs"
  shows "drive_sector_of_sector fs s j = Some (sector_ratio fs * s + j)"
proof -
  have "sector_ratio fs * s \<le> 8 * s" using assms(2) by (rule mult_le_mono1)
  with assms have "sector_ratio fs * s + j < usize_end" by linarith
  then show ?thesis by (simp add: drive_sector_of_sector_def bind_eq_Some_conv)
qed

lemma mixed_radix_inj:
  assumes "(a :: nat) * k + i = b * k + j" "i < k" "j < k"
  shows "a = b \<and> i = j"
proof -
  have "(a * k + i) div k = a" "(b * k + j) div k = b" using assms(2,3) by auto
  then have "a = b" using assms(1) by metis
  with assms(1) show ?thesis by simp
qed

lemma fat_addresses:
  assumes "validate_bpb (fs_bpb fs) (fs_type fs) = Some u" "max_cluster fs = Some m"
  shows "\<exists>d. data_sectors fs = Some (d, total_sectors_count fs) \<and>
      (\<forall>c i j. 2 \<le> c \<and> c \<le> m \<and> i < sectors_per_cluster fs \<and> j < sector_ratio fs \<longrightarrow>
         (\<exists>k. disk_sector fs c i j = Some k \<and>
            sector_ratio fs * d \<le> k \<and> k < sector_ratio fs * total_sectors_count fs))"
    and "inj_on (\<lambda>(c, i, j). disk_sector fs c i j)
           ({2..m} \<times> {..<sectors_per_cluster fs} \<times> {..<sector_ratio fs})"
proof -
  obtain d where g: "data_sectors fs = Some (d, total_sectors_count fs)" "d \<le> total_sectors_count fs"
    "m = (total_sectors_count fs - d) div sectors_per_cluster fs + 1" "0 < sectors_per_cluster fs"
    "0 < sector_ratio fs" "sector_ratio fs \<le> 8"
    using geometry [OF assms] by blast
  have addr: "disk_sector fs c i j = Some (sector_ratio fs * (d + (c - 2) * sectors_per_cluster fs + i) + j)"
    and bound: "d + (c - 2) * sectors_per_cluster fs + i < total_sectors_count fs"
    if "2 \<le> c" "c \<le> m" "i < sectors_per_cluster fs" "j < sector_ratio fs" for c i j
    using sector_of_cluster_value [OF g(1-3) that(1-3)] total_sectors_bound [of fs] that(4) g(6)
      drive_sector_value [of "d + (c - 2) * sectors_per_cluster fs + i" fs j]
    by (simp_all add: disk_sector_def)
  have "\<exists>k. disk_sector fs c i j = Some k \<and>
      sector_ratio fs * d \<le> k \<and> k < sector_ratio fs * total_sectors_count fs"
    if p: "2 \<le> c" "c \<le> m" "i < sectors_per_cluster fs" "j < sector_ratio fs" for c i j
  proof -
    have "sector_ratio fs * (d + (c - 2) * sectors_per_cluster fs + i + 1) \<le> sector_ratio fs * total_sectors_count fs"
      using bound [OF p] by (intro mult_le_mono2) simp
    with addr [OF p] p(4) show ?thesis by (auto simp: algebra_simps)
  qed
  with g(1) show "\<exists>d. data_sectors fs = Some (d, total_sectors_count fs) \<and>
      (\<forall>c i j. 2 \<le> c \<and> c \<le> m \<and> i < sectors_per_cluster fs \<and> j < sector_ratio fs \<longrightarrow>
         (\<exists>k. disk_sector fs c i j = Some k \<and>
            sector_ratio fs * d \<le> k \<and> k < sector_ratio fs * total_sectors_count fs))"
    by blast
  show "inj_on (\<lambda>(c, i, j). disk_sector fs c i j)
      ({2..m} \<times> {..<sectors_per_cluster fs} \<times> {..<sector_ratio fs})"
  proof (rule inj_onI, clarsimp)
    fix c i j c' i' j'
    assume p: "2 \<le> c" "c \<le> m" "i < sectors_per_cluster fs" "j < sector_ratio fs"
      and p': "2 \<le> c'" "c' \<le> m" "i' < sectors_per_cluster fs" "j' < sector_ratio fs"
      and eq: "disk_sector fs c i j = disk_sector fs c' i' j'"
    let ?s = "(c - 2) * sectors_per_cluster fs + i" and ?s' = "(c' - 2) * sectors_per_cluster fs + i'"
    have "(d + ?s) * sector_ratio fs + j = (d + ?s') * sector_ratio fs + j'"
      using eq addr [OF p] addr [OF p'] by (simp add: algebra_simps)
    then have "?s = ?s' \<and> j = j'" using mixed_radix_inj p(4) p'(4) by (metis add_left_cancel)
    moreover from this have "c - 2 = c' - 2 \<and> i = i'" using mixed_radix_inj p(3) p'(3) by metis
    ultimately show "c = c' \<and> i = i' \<and> j = j'" using p(1) p'(1) by linarith
  qed
qed

text \<open>
  C26: For every cluster of an accepted volume that a chain may name, every sector of it and every
  512 bytes of that, the server computes an address without an overflow; the address lies in the
  data area (behind the reserved sectors, the tables and the root directory, before the end of the
  volume), and no two places of clusters share one.
\<close>
theorem fat_reads_in_bounds:
  assumes "validate_bpb (fs_bpb fs) (fs_type fs) = Some u" "max_cluster fs = Some m"
  shows "(\<exists>d. data_sectors fs = Some (d, total_sectors_count fs) \<and>
      (\<forall>c i j. 2 \<le> c \<and> c \<le> m \<and> i < sectors_per_cluster fs \<and> j < sector_ratio fs \<longrightarrow>
         (\<exists>k. disk_sector fs c i j = Some k \<and>
            sector_ratio fs * d \<le> k \<and> k < sector_ratio fs * total_sectors_count fs))) \<and>
    inj_on (\<lambda>(c, i, j). disk_sector fs c i j)
      ({2..m} \<times> {..<sectors_per_cluster fs} \<times> {..<sector_ratio fs})"
  using fat_addresses [OF assms] by (rule conjI)

subsection \<open>Clusters are read in order\<close>

text \<open>
  What a loop that may break out has done to the data, of the bytes \<open>x\<close> that it would read to its
  end.
\<close>

definition loop_result :: "nat option \<Rightarrow> u8 list \<Rightarrow> u8 list \<Rightarrow> bool \<times> u8 list \<Rightarrow> bool" where
  "loop_result limit data x r \<longleftrightarrow>
     (if fst r then \<exists>y z. x = y @ z \<and> snd r = data @ y \<and> long_enough limit (snd r)
      else snd r = data @ x)"

lemma loop_result_append:
  assumes "loop_result limit data x (False, d)" "loop_result limit d y r"
  shows "loop_result limit data (x @ y) r"
  using assms unfolding loop_result_def by (auto split: if_splits)

lemma loop_result_stop:
  assumes "loop_result limit data x r" "fst r"
  shows "loop_result limit data (x @ y) r"
  using assms unfolding loop_result_def by auto

lemma read_drive_sectors_result:
  assumes "\<And>i. i \<in> set is' \<Longrightarrow> drive_sector_of_sector fs s i = Some (a i) \<and> fs_drive fs (a i) = Some (disk (a i))"
  shows "\<exists>r. read_drive_sectors fs limit s is' data = Some r \<and>
    loop_result limit data (concat (map (\<lambda>i. disk (a i)) is')) r"
  using assms
proof (induction is' arbitrary: data)
  case (Cons i is')
  show ?case
  proof (cases "long_enough limit (data @ disk (a i))")
    case True
    then show ?thesis using Cons(2) [of i] by (auto simp: loop_result_def)
  next
    case False
    obtain r where "read_drive_sectors fs limit s is' (data @ disk (a i)) = Some r"
      "loop_result limit (data @ disk (a i)) (concat (map (\<lambda>i. disk (a i)) is')) r"
      using Cons.IH [of "data @ disk (a i)"] Cons(2) by auto
    moreover from this(2) have "loop_result limit data (disk (a i) @ concat (map (\<lambda>i. disk (a i)) is')) r"
      by (intro loop_result_append) (auto simp: loop_result_def)
    ultimately show ?thesis using False Cons(2) [of i] by simp
  qed
qed (simp add: loop_result_def)

lemma read_sectors_result:
  assumes "\<And>i data. i \<in> set is' \<Longrightarrow> \<exists>s r. sector_of_cluster fs c i = Some s \<and>
      read_drive_sectors fs limit s [0..<sector_ratio fs] data = Some r \<and> loop_result limit data (x i) r"
  shows "\<exists>r. read_sectors fs limit c is' data = Some r \<and> loop_result limit data (concat (map x is')) r"
  using assms
proof (induction is' arbitrary: data)
  case (Cons i is')
  obtain s r where r: "sector_of_cluster fs c i = Some s"
    "read_drive_sectors fs limit s [0..<sector_ratio fs] data = Some r" "loop_result limit data (x i) r"
    using Cons(2) [of i data] by auto
  show ?case
  proof (cases "fst r")
    case True
    with r show ?thesis by (auto simp: loop_result_stop)
  next
    case False
    obtain r' where "read_sectors fs limit c is' (snd r) = Some r'"
      "loop_result limit (snd r) (concat (map x is')) r'"
      using Cons.IH [of "snd r"] Cons(2) by auto
    moreover from this(2) have "loop_result limit data (x i @ concat (map x is')) r'"
      using r(3) False by (intro loop_result_append [of _ _ _ "snd r"]) (cases r, auto)+
    ultimately show ?thesis using r False by simp
  qed
qed (simp add: loop_result_def)

text \<open>The bytes of a cluster, which lie in consecutive sectors of the drive.\<close>

definition cluster_data :: "fat_server \<Rightarrow> (nat \<Rightarrow> u8 list) \<Rightarrow> nat \<Rightarrow> nat \<Rightarrow> u8 list" where
  "cluster_data fs disk d c =
     concat (map disk [sector_ratio fs * (d + (c - 2) * sectors_per_cluster fs) ..<
       sector_ratio fs * (d + (c - 1) * sectors_per_cluster fs)])"

lemma concat_blocks:
  "concat (map (\<lambda>i. concat (map (\<lambda>j. f (k * (a + i) + j)) [0..<k])) [0..<n]) =
     concat (map f [k * a ..< k * (a + n)])"
proof (induction n)
  case (Suc n)
  have "map f [k * (a + n) ..< k * (a + n) + k] = map (\<lambda>j. f (k * (a + n) + j)) [0..<k]"
    using map_add_upt [of "k * (a + n)" k] by (simp add: add.commute o_def flip: map_add_upt)
  moreover have "[k * a ..< k * (a + Suc n)] = [k * a ..< k * (a + n)] @ [k * (a + n) ..< k * (a + n) + k]"
    using upt_add_eq_append [of "k * a" "k * (a + n)" k] by (simp add: algebra_simps)
  ultimately show ?case using Suc by simp
qed simp

subsection \<open>Files are their chains\<close>

text \<open>
  A volume whose drive answers: \<open>disk\<close> is what its sectors hold, and only those of the data area
  need to come back.
\<close>

definition volume :: "fat_server \<Rightarrow> (nat \<Rightarrow> u8 list) \<Rightarrow> nat \<Rightarrow> nat \<Rightarrow> bool" where
  "volume fs disk d m \<longleftrightarrow>
     validate_bpb (fs_bpb fs) (fs_type fs) = Some () \<and> max_cluster fs = Some m \<and>
     data_sectors fs = Some (d, total_sectors_count fs) \<and>
     (\<forall>k\<in>{sector_ratio fs * d ..< sector_ratio fs * total_sectors_count fs}. fs_drive fs k = Some (disk k))"

fun cluster_chain :: "fat_server \<Rightarrow> nat \<Rightarrow> nat list \<Rightarrow> bool" where
  "cluster_chain fs c [] = False"
| "cluster_chain fs c [a] = (a = c \<and> next_cluster fs c = Some None)"
| "cluster_chain fs c (a # b # cs) =
     (a = c \<and> next_cluster fs c = Some (Some b) \<and> cluster_chain fs b (b # cs))"

lemma read_cluster_result:
  assumes "volume fs disk d m" "2 \<le> c" "c \<le> m"
  shows "\<exists>r. read_sectors fs limit c [0..<sectors_per_cluster fs] data = Some r \<and>
    loop_result limit data (cluster_data fs disk d c) r"
proof -
  let ?k = "sectors_per_cluster fs" and ?r = "sector_ratio fs" and ?n = "total_sectors_count fs"
  let ?s = "\<lambda>i. d + (c - 2) * ?k + i"
  let ?x = "\<lambda>i. concat (map (\<lambda>j. disk (?r * ?s i + j)) [0..<?r])"
  have v: "validate_bpb (fs_bpb fs) (fs_type fs) = Some ()" "max_cluster fs = Some m"
    "data_sectors fs = Some (d, ?n)" "\<forall>k\<in>{?r * d ..< ?r * ?n}. fs_drive fs k = Some (disk k)"
    using assms(1) by (simp_all add: volume_def)
  have g: "d \<le> ?n" "m = (?n - d) div ?k + 1" "?r \<le> 8"
    using geometry [OF v(1,2)] v(3) by auto
  have "\<exists>s r. sector_of_cluster fs c i = Some s \<and>
      read_drive_sectors fs limit s [0..<?r] data = Some r \<and> loop_result limit data (?x i) r"
    if i: "i \<in> set [0..<?k]" for i data
  proof -
    have "i < ?k" using i by simp
    note sec = sector_of_cluster_value [OF v(3) g(1,2) assms(2,3) this]
    have "?r * (?s i + 1) \<le> ?r * ?n" using sec(2) by (intro mult_le_mono2) simp
    moreover have "?r * d \<le> ?r * ?s i" by (intro mult_le_mono2) simp
    ultimately have "drive_sector_of_sector fs (?s i) j = Some (?r * ?s i + j) \<and>
        fs_drive fs (?r * ?s i + j) = Some (disk (?r * ?s i + j))" if "j \<in> set [0..<?r]" for j
      using that drive_sector_value [of "?s i" fs j] sec(2) total_sectors_bound [of fs] g(3) v(4)
      by (simp add: algebra_simps)
    from read_drive_sectors_result [of "[0..<?r]" fs "?s i" "\<lambda>j. ?r * ?s i + j" disk limit data, OF this]
    show ?thesis using sec(1) by blast
  qed
  from read_sectors_result [of "[0..<?k]" fs c limit ?x data, OF this]
  obtain r where "read_sectors fs limit c [0..<?k] data = Some r" "loop_result limit data (concat (map ?x [0..<?k])) r"
    by blast
  moreover have "concat (map ?x [0..<?k]) = cluster_data fs disk d c"
  proof -
    have "d + (c - 2) * ?k + ?k = d + (c - 1) * ?k"
      using assms(2) by (metis Suc_diff_le diff_Suc_Suc mult_Suc add.commute add.assoc numeral_2_eq_2 One_nat_def)
    with concat_blocks [of disk ?r "d + (c - 2) * ?k" ?k] show ?thesis
      unfolding cluster_data_def by metis
  qed
  ultimately show ?thesis by auto
qed

lemma next_cluster_bounds:
  "next_cluster fs c = Some (Some b) \<Longrightarrow> max_cluster fs = Some m \<Longrightarrow> 2 \<le> b \<and> b \<le> m"
  by (auto simp: next_cluster_def run_cases Let_def)

lemma read_clusters_result:
  assumes "volume fs disk d m" "cluster_chain fs c cs" "2 \<le> c" "c \<le> m"
  shows "\<exists>out y z. read_clusters fs limit c data = Some out \<and>
    concat (map (cluster_data fs disk d) cs) = y @ z \<and> out = data @ y \<and> (z \<noteq> [] \<longrightarrow> long_enough limit out)"
  using assms(2-4)
proof (induction cs arbitrary: c data)
  case step: (Cons a cs)
  let ?x = "cluster_data fs disk d"
  obtain r where r: "read_sectors fs limit c [0..<sectors_per_cluster fs] data = Some r"
    "loop_result limit data (?x c) r"
    using read_cluster_result [OF assms(1) step(3,4)] by blast
  show ?case
  proof (cases cs)
    case Nil
    with step r show ?thesis
      by (subst read_clusters.simps) (auto simp: loop_result_def split: if_splits)
  next
    case tail: (Cons b cs')
    have follows: "a = c" "next_cluster fs c = Some (Some b)" "cluster_chain fs b cs"
      using step.prems tail by auto
    show ?thesis
    proof (cases "fst r")
      case True
      with r follows show ?thesis
        by (subst read_clusters.simps) (auto simp: loop_result_def)
    next
      case False
      have "2 \<le> b" "b \<le> m" using next_cluster_bounds [OF follows(2)] assms(1) by (auto simp: volume_def)
      then obtain out y z where "read_clusters fs limit b (snd r) = Some out"
        "concat (map ?x cs) = y @ z" "out = snd r @ y" "z \<noteq> [] \<longrightarrow> long_enough limit out"
        using step.IH [OF follows(3)] by blast
      moreover have "snd r = data @ ?x c" using r(2) False by (simp add: loop_result_def)
      ultimately show ?thesis
        using r(1) follows False by (subst read_clusters.simps) auto
    qed
  qed
qed simp

lemma resize_enough:
  assumes "z \<noteq> [] \<longrightarrow> n \<le> length y"
  shows "resize n y = resize n (y @ z)"
  using assms by (cases "z = []") (auto simp: resize_def)

text \<open>
  C25: On an accepted volume whose drive answers for the data area, reading a file that starts at a
  chain of clusters returns the bytes of these clusters in the order of the chain: all of them
  without a size, and with a size (of 32 bits) exactly that many, filled up with zeros when the
  chain is shorter.  Nothing outside the data area is asked of the drive.
\<close>
theorem file_is_its_chain:
  assumes "volume fs disk d m" "cluster_chain fs c cs" "2 \<le> c" "c \<le> m" "n < u32_end"
  shows "read_file fs c None = Some (concat (map (cluster_data fs disk d) cs)) \<and>
    read_file fs c (Some n) = Some (resize n (concat (map (cluster_data fs disk d) cs)))"
proof -
  note result = read_clusters_result [OF assms(1-4), where data = "[]"]
  have "next_multiple_of n DISK_SECTOR_SIZE \<noteq> None"
    using assms(5) by (auto simp: next_multiple_of_def DISK_SECTOR_SIZE_def uadd_def)
  then obtain k where k: "next_multiple_of n DISK_SECTOR_SIZE = Some k" by auto
  obtain y z where y: "read_clusters fs (Some n) c [] = Some y"
    "concat (map (cluster_data fs disk d) cs) = y @ z" "z \<noteq> [] \<longrightarrow> n \<le> length y"
    using result [where limit = "Some n"] by (auto simp: long_enough_def)
  have "read_clusters fs None c [] = Some (concat (map (cluster_data fs disk d) cs))"
    using result [where limit = None] by (auto simp: long_enough_def)
  with y k show ?thesis by (simp add: read_file_def resize_enough)
qed

subsection \<open>The allocation table\<close>

fun pack_12 :: "nat list \<Rightarrow> u8 list" where
  "pack_12 (a # b # es) =
     [word_of_nat a, word_of_nat (a div 256 + 16 * (b mod 16)), word_of_nat (b div 16)] @ pack_12 es"
| "pack_12 [a] = [word_of_nat a, word_of_nat (a div 256)]"
| "pack_12 [] = []"

text \<open>The table as the format packs it, and the end of its entries' range.\<close>

definition pack_fat :: "fat_type \<Rightarrow> nat list \<Rightarrow> u8 list" where
  "pack_fat type es =
     (case type of
        Fat12 \<Rightarrow> pack_12 es
      | Fat16 \<Rightarrow> concat (map (nat_bytes 2) es)
      | Fat32 \<Rightarrow> concat (map (nat_bytes 4) es))"

definition fat_entry_end :: "fat_type \<Rightarrow> nat" where
  "fat_entry_end type = (case type of Fat12 \<Rightarrow> 0x1000 | Fat16 \<Rightarrow> 0x10000 | Fat32 \<Rightarrow> u32_end)"

lemma take_drop_blocks:
  assumes "\<forall>x. length (f x) = k" "i < length xs"
  shows "take k (drop (k * i) (concat (map f xs) @ ys)) = f (xs ! i)"
    and "k * i + k \<le> length (concat (map f xs) @ ys)"
  using assms(2)
proof (induction xs arbitrary: i)
  case (Cons x xs)
  { case 1 with Cons assms(1) show ?case by (cases i) (simp_all add: algebra_simps) }
  { case 2 with Cons assms(1) show ?case by (cases i) (simp_all add: algebra_simps) }
qed simp_all

lemma packed_entry:
  assumes "bytes = concat (map (nat_bytes k) es) @ ys" "i < length es"
  shows "le_nat (take k (drop (k * i) bytes)) = es ! i mod 256 ^ k" "0 < k \<Longrightarrow> i < length bytes div k"
proof -
  note block = take_drop_blocks [of "nat_bytes k" k i es ys, simplified length_nat_bytes, OF _ assms(2), folded assms(1)]
  show "le_nat (take k (drop (k * i) bytes)) = es ! i mod 256 ^ k"
    using block(1) by (simp add: le_nat_bytes)
  have "(i + 1) * k \<le> length bytes" using block(2) by (simp add: algebra_simps)
  then show "0 < k \<Longrightarrow> i < length bytes div k"
    using div_le_mono [of "(i + 1) * k" "length bytes" k] by simp
qed

lemma fat_low_bits: "n AND 0xFFF = n mod (0x1000 :: nat)" "drop_bit 4 n = n div (16 :: nat)"
  using take_bit_eq_mask [of 12 n] by (simp_all add: take_bit_eq_mod mask_eq_exp_minus_1 drop_bit_eq_div)

lemma unpack_12:
  fixes a b :: nat
  assumes "a < 0x1000" "b < 0x1000"
  shows "(a mod 256 + 256 * ((a div 256 + 16 * (b mod 16)) mod 256)) mod 0x1000 = a"
    and "((a div 256 + 16 * (b mod 16)) mod 256 + 256 * (b div 16 mod 256)) div 16 = b"
    and "(a mod 256 + 256 * (a div 256 mod 256)) mod 0x1000 = a"
proof -
  have a: "a div 256 < 16" using assms(1) by (intro less_mult_imp_div_less) simp
  have b: "b div 16 < 256" using assms(2) by (intro less_mult_imp_div_less) simp
  have m: "(a div 256 + 16 * (b mod 16)) mod 256 = a div 256 + 16 * (b mod 16)" using a by simp
  have "r + 256 * (q + 16 * y) = (q * 256 + r) + 0x1000 * y" for q r y :: nat by simp
  from this [of "a mod 256" "a div 256" "b mod 16"]
  have "a mod 256 + 256 * (a div 256 + 16 * (b mod 16)) = a + 0x1000 * (b mod 16)" by simp
  then show "(a mod 256 + 256 * ((a div 256 + 16 * (b mod 16)) mod 256)) mod 0x1000 = a"
    using assms(1) unfolding m by simp
  have "x + 16 * r + 256 * q = x + (q * 16 + r) * 16" for q r x :: nat by simp
  from this [of "a div 256" "b mod 16" "b div 16"]
  have "a div 256 + 16 * (b mod 16) + 256 * (b div 16) = a div 256 + b * 16" by simp
  then show "((a div 256 + 16 * (b mod 16)) mod 256 + 256 * (b div 16 mod 256)) div 16 = b"
    using a b unfolding m by simp
  have "a mod 256 + 256 * (a div 256 mod 256) = a"
    using a div_mult_mod_eq [of a 256] by simp
  then show "(a mod 256 + 256 * (a div 256 mod 256)) mod 0x1000 = a" using assms(1) by simp
qed

text \<open>What a place of a packed table of 12-bit entries reads.\<close>

lemma pack_12_entry:
  assumes "i < length es" "\<forall>e\<in>set es. e < 0x1000"
  shows "i + i div 2 + 2 \<le> length (pack_12 es @ ys) \<and>
    (let v = le_nat (take 2 (drop (i + i div 2) (pack_12 es @ ys)))
     in (if even i then v mod 0x1000 else v div 16) = es ! i)"
  using assms
proof (induction es arbitrary: i rule: pack_12.induct)
  case (1 a b es)
  have ab: "a < 0x1000" "b < 0x1000" using 1(3) by auto
  consider "i = 0" | "i = 1" | j where "i = Suc (Suc j)" by (metis One_nat_def not0_implies_Suc)
  then show ?case
  proof cases
    case 1
    with unpack_12(1) [OF ab] show ?thesis by (simp add: unat_u8 Let_def numeral_2_eq_2 del: of_nat_add of_nat_mult)
  next
    case 2
    have "b div 16 mod 256 = b div 16" using ab(2) by (simp add: less_mult_imp_div_less)
    with 2 unpack_12(2) [OF ab] show ?thesis by (simp add: unat_u8 Let_def numeral_2_eq_2 del: of_nat_add of_nat_mult)
  next
    case 3
    with 1 show ?thesis by (simp add: Let_def)
  qed
next
  case (2 a)
  then have "a < 0x1000" by simp
  from unpack_12(3) [OF this this] 2 show ?case by (simp add: unat_u8 Let_def numeral_2_eq_2 del: of_nat_add of_nat_mult)
qed simp

text \<open>
  A packed allocation table is read as it was packed, for all three widths of entries: the
  server finds at the place of each cluster the entry that was stored for it, the two nibbles that a
  pair of 12-bit entries shares included.
\<close>
theorem fat_entry_roundtrip:
  assumes "i < length es" "\<forall>e\<in>set es. e < fat_entry_end type" "length es < 0x10000000"
    "fs_type fs = type" "fs_fat fs = pack_fat type es @ ys"
  shows "read_fat_entry fs i = Some (es ! i)"
proof (cases type)
  case Fat12
  have "i + i div 2 < u32_end" using assms(1,3) by linarith
  moreover have "fs_fat fs = pack_12 es @ ys" using assms(5) Fat12 by (simp add: pack_fat_def)
  with pack_12_entry [of i es ys] assms(1,2) Fat12 have "i + i div 2 + 2 \<le> length (fs_fat fs) \<and>
    (let v = le_nat (take 2 (drop (i + i div 2) (fs_fat fs)))
     in (if even i then v mod 0x1000 else v div 16) = es ! i)"
    by (simp only: fat_entry_end_def fat_type.case)
  ultimately show ?thesis
    using assms(4) Fat12 by (auto simp: read_fat_entry_def fat_low_bits Let_def run_cases)
next
  case Fat16
  then have fat: "fs_fat fs = concat (map (nat_bytes 2) es) @ ys" using assms(5) by (simp add: pack_fat_def)
  have "es ! i < 0x10000" using assms(1,2) Fat16 by (simp add: fat_entry_end_def)
  then show ?thesis
    using packed_entry [OF fat assms(1)] assms(4) Fat16 by (simp add: read_fat_entry_def)
next
  case Fat32
  then have fat: "fs_fat fs = concat (map (nat_bytes 4) es) @ ys" using assms(5) by (simp add: pack_fat_def)
  have "es ! i < u32_end" using assms(1,2) Fat32 by (simp add: fat_entry_end_def)
  then show ?thesis
    using packed_entry [OF fat assms(1)] assms(4) Fat32 by (simp add: read_fat_entry_def)
qed

end
