(* ===== verification/Fat_Properties.thy ===== *)
theory Fat_Properties
  imports Fat_Correct
begin

text \<open>
  The FAT server from a path to the bytes of the file, a small volume on which the theorems are
  applied, and the volumes it fails on.
\<close>

subsection \<open>Looking a name up\<close>

text \<open>A directory in which every file has a long name, as other systems write it.\<close>

definition dir_files :: "(rust_string \<times> directory_entry) list \<Rightarrow> directory_entry list" where
  "dir_files files =
     concat (map (\<lambda>(s, e). long_name_entries s (se_name (as_short e)) @ [e]) files)"

definition in_use :: "directory_entry \<Rightarrow> bool" where
  "in_use e \<longleftrightarrow> hd (se_name (as_short e)) \<noteq> 0xE5 \<and> hd (se_name (as_short e)) \<noteq> 0"

text \<open>Files that are not what \<open>s\<close> names, by their long or by their short name.\<close>

definition other_file :: "rust_string \<Rightarrow> rust_string \<times> directory_entry \<Rightarrow> bool" where
  "other_file s f \<longleftrightarrow>
     (case f of (t, e) \<Rightarrow>
        long_name_ok t \<and> in_use e \<and> t \<noteq> s \<and> to_short_name s \<noteq> Some (se_name (as_short e)) \<and>
        le_attr (as_long e) AND ATTR_LONG_NAME_MASK \<noteq> ATTR_LONG_NAME)"

definition listed :: "directory_entry list \<Rightarrow> rust_string \<Rightarrow> directory_entry \<Rightarrow> bool" where
  "listed entries s e \<longleftrightarrow>
     (\<exists>before rest. entries = dir_files (before @ [(s, e)]) @ rest \<and>
        list_all (other_file s) before \<and> long_name_ok s \<and> in_use e)"

lemma find_entry_long:
  assumes "long_name_ok t" "in_use e"
  shows "find_entry s (long_name_entries t (se_name (as_short e)) @ e # rest) =
    (if t = s then Some (Some (as_short e)) else find_entry s (e # rest))"
  using long_name_read_back [OF assms(1), of e rest] assms(2)
  by (subst find_entry.simps) (simp add: in_use_def)

lemma find_entry_other_short:
  assumes "in_use e" "to_short_name s \<noteq> Some (se_name (as_short e))"
    "le_attr (as_long e) AND ATTR_LONG_NAME_MASK \<noteq> ATTR_LONG_NAME"
  shows "find_entry s (e # rest) = find_entry s rest"
  using assms by (subst find_entry.simps) (simp add: in_use_def coalesce_next_def try_as_first_long_def)

lemma find_entry_listed:
  assumes "listed entries s e"
  shows "find_entry s entries = Some (Some (as_short e))"
proof -
  obtain before rest where es: "entries = dir_files (before @ [(s, e)]) @ rest"
    and others: "list_all (other_file s) before" and s: "long_name_ok s" "in_use e"
    using assms by (auto simp: listed_def)
  show ?thesis
    unfolding es using others
  proof (induction before)
    case Nil
    show ?case using find_entry_long [OF s, of s rest] by (simp add: dir_files_def)
  next
    case (Cons f before)
    obtain t e' where f: "f = (t, e')" by (cases f) auto
    with Cons have "find_entry s (dir_files (before @ [(s, e)]) @ rest) = Some (Some (as_short e))"
      and "long_name_ok t" "in_use e'" "t \<noteq> s" "to_short_name s \<noteq> Some (se_name (as_short e'))"
        "le_attr (as_long e') AND ATTR_LONG_NAME_MASK \<noteq> ATTR_LONG_NAME"
      by (auto simp: other_file_def)
    with find_entry_long [of t e' s "dir_files (before @ [(s, e)]) @ rest"] find_entry_other_short [of e' s]
    show ?case by (simp add: f dir_files_def)
  qed
qed

subsection \<open>Paths\<close>

text \<open>The entry that a path leads to, by the directories on its way.\<close>

inductive leads_to :: "fat_server \<Rightarrow> directory \<Rightarrow> rust_string \<Rightarrow> directory_entry \<Rightarrow> bool" for fs where
  leads_file: "read_directory fs dir = Some entries \<Longrightarrow> 47 \<notin> set s \<Longrightarrow> listed entries s e \<Longrightarrow>
    leads_to fs dir s e"
| leads_dir: "read_directory fs dir = Some entries \<Longrightarrow> 47 \<notin> set s \<Longrightarrow> listed entries s e' \<Longrightarrow>
    leads_to fs (Normal (unat (fst_clus (as_short e')))) path e \<Longrightarrow>
    leads_to fs dir (s @ 47 # path) e"

lemma traverse_leads_to:
  "leads_to fs dir path e \<Longrightarrow>
     traverse_path fs dir path = Some (unat (fst_clus (as_short e)), se_file_size (as_short e))"
proof (induction rule: leads_to.induct)
  case (leads_file dir entries s e)
  then show ?case
    by (subst traverse_path.simps) (simp add: str_split_once_absent find_entry_listed)
next
  case (leads_dir dir entries s e' path e)
  then show ?case
    by (subst traverse_path.simps) (simp add: str_split_once_append find_entry_listed)
qed

lemma file_size_bound: "se_file_size (as_short e) < u32_end"
  by (simp add: as_short_def field_u32)

text \<open>
  C24: A path that leads, over directories whose files carry long names, to an entry with a chain of
  clusters is read as exactly the bytes of that file: the server finds every directory on the way by
  its long name, passes over the other files and the short names of those, and returns as many
  bytes as the entry says, from the clusters of the chain in order.
\<close>
theorem path_reads_file:
  assumes "volume fs disk d m" "leads_to fs dir path e"
    "cluster_chain fs (unat (fst_clus (as_short e))) cs"
    "2 \<le> unat (fst_clus (as_short e))" "unat (fst_clus (as_short e)) \<le> m"
  shows "fs_read fs dir path =
    Some (resize (se_file_size (as_short e)) (concat (map (cluster_data fs disk d) cs)))"
  using traverse_leads_to [OF assms(2)] file_is_its_chain [OF assms(1,3,4,5) file_size_bound]
  by (simp add: fs_read_def)

subsection \<open>A small volume\<close>

text \<open>
  Three clusters of one sector behind the reserved sector, eight sectors of table and eight of root
  directory; a file \<open>shell\<close> of 600 bytes in the clusters 2 and 4.
\<close>

definition demo_bpb :: bpb where
  "demo_bpb =
     [0xEB, 0x3C, 0x90] @ replicate 8 0x20 @ [0, 2] @ [1] @ [1, 0] @ [1] @ [128, 0] @ [20, 0] @ [0xF8] @
     [8, 0] @ replicate 488 0"

definition demo_entry :: directory_entry where
  "demo_entry = [83, 72, 69, 76, 76, 32, 32, 32, 32, 32, 32] @ [0x20] @ replicate 14 0 @ [2, 0] @ [88, 2, 0, 0]"

definition demo_name :: rust_string where
  "demo_name = [115, 104, 101, 108, 108]"

definition demo_disk :: "nat \<Rightarrow> u8 list" where
  "demo_disk k = replicate 512 (word_of_nat k)"

definition demo_fat :: fat_server where
  "demo_fat =
     \<lparr>fs_type = Fat12, fs_drive = (\<lambda>k. if k < 20 then Some (demo_disk k) else None), fs_bpb = demo_bpb,
      fs_fat = pack_12 [0xFF8, 0xFFF, 4, 0, 0xFFF], fs_rdr = dir_files [(demo_name, demo_entry)]\<rparr>"

lemma le_nat_zeros: "le_nat (replicate n 0) = 0"
  by (induction n) simp_all

lemma demo_deref:
  "bpb_deref demo_bpb =
     \<lparr>bs_jmp_boot = [0xEB, 0x3C, 0x90], bs_oem_name = replicate 8 0x20, byts_per_sec = 512,
      sec_per_clus = 1, rsvd_sec_cnt = 1, num_fats = 1, root_ent_cnt = 128, tot_sec_16 = 20,
      media = 0xF8, fat_sz_16 = 8, sec_per_trk = 0, num_heads = 0, hidd_sec = 0, tot_sec_32 = 0\<rparr>"
  by (simp add: bpb_deref_def demo_bpb_def field_def field_bytes_def le_nat_zeros)

lemmas demo_sizes = demo_deref fat_sectors_def root_directory_sectors_def data_sectors_def
  total_sectors_count_def count_of_clusters_def max_cluster_def sector_ratio_def DISK_SECTOR_SIZE_def
  add32_def sub32_def mul32_def udiv_def

lemma demo_parts:
  "fs_type demo_fat = Fat12" "fs_bpb demo_fat = demo_bpb"
  "fs_fat demo_fat = pack_12 [0xFF8, 0xFFF, 4, 0, 0xFFF]"
  by (simp_all add: demo_fat_def)

lemma demo_geometry:
  "validate_bpb demo_bpb Fat12 = Some ()" "max_cluster demo_fat = Some 4"
  "data_sectors demo_fat = Some (17, 20)" "total_sectors_count demo_fat = 20"
  "sector_ratio demo_fat = 1" "sectors_per_cluster demo_fat = 1"
  by (simp_all add: demo_sizes demo_parts validate_bpb_def jmp_boot_ok_def is_power_of_two_def)

lemma demo_chain: "cluster_chain demo_fat 2 [2, 4]"
  by (simp add: next_cluster_def read_fat_entry_def demo_parts demo_geometry is_end_mark_def add32_def
      fat_low_bits take_Suc unat_u8)

lemma demo_volume: "volume demo_fat demo_disk 17 4"
  using demo_geometry by (simp add: volume_def) (simp add: demo_fat_def)

lemma demo_short:
  "unat (fst_clus (as_short demo_entry)) = 2" "se_file_size (as_short demo_entry) = 600" "in_use demo_entry"
  by code_simp+

lemma demo_leads: "leads_to demo_fat RootDirectoryRegion demo_name demo_entry"
proof (rule leads_file)
  show "read_directory demo_fat RootDirectoryRegion = Some (dir_files [(demo_name, demo_entry)])"
    by (simp add: read_directory_def demo_fat_def)
  show "47 \<notin> set demo_name" by (simp add: demo_name_def)
  have "long_name_ok demo_name" by code_simp
  then show "listed (dir_files [(demo_name, demo_entry)]) demo_name demo_entry"
    using demo_short(3) by (auto simp: listed_def intro!: exI [of _ "[]"])
qed

lemma path_reads_file_witness:
  "fs_read demo_fat RootDirectoryRegion demo_name = Some (replicate 512 17 @ replicate 88 19)"
proof -
  have "concat (map (cluster_data demo_fat demo_disk 17) [2, 4]) = replicate 512 17 @ replicate 512 19"
    by (simp add: cluster_data_def demo_geometry demo_disk_def)
  then have "resize 600 (concat (map (cluster_data demo_fat demo_disk 17) [2, 4])) = replicate 512 17 @ replicate 88 19"
    by (simp only: resize_def) simp
  with path_reads_file [OF demo_volume demo_leads, of "[2, 4]"] demo_chain show ?thesis
    by (simp only: demo_short)
qed

lemma file_is_its_chain_witness:
  "read_file demo_fat 2 None = Some (demo_disk 17 @ demo_disk 19)"
  using file_is_its_chain [OF demo_volume demo_chain, of 600]
  by (simp add: cluster_data_def demo_geometry)

lemma fat_reads_in_bounds_witness:
  "inj_on (\<lambda>(c, i, j). disk_sector demo_fat c i j) ({2..4} \<times> {..<1} \<times> {..<1})"
  using fat_reads_in_bounds [of demo_fat "()" 4] demo_geometry by (simp add: demo_parts)

lemma fat_entry_roundtrip_witness:
  "read_fat_entry demo_fat 2 = Some 4"
  using fat_entry_roundtrip [of 2 "[0xFF8, 0xFFF, 4, 0, 0xFFF]" Fat12 demo_fat "[]"]
  by (simp add: demo_fat_def pack_fat_def fat_entry_end_def)

subsection \<open>Volumes the server fails on\<close>

text \<open>
  An empty file cannot be read, and the parent directory of a directory in the root cannot be
  entered: both are stored with cluster 0 (and the root of other systems with 1), for which the
  address of the first sector underflows, so the request panics the server.
\<close>
theorem empty_file_panics:
  assumes "validate_bpb (fs_bpb fs) (fs_type fs) = Some u" "c < 2"
  shows "read_file fs c limit = None \<and>
    (\<forall>path. 47 \<notin> set path \<longrightarrow> traverse_path fs (Normal c) path = None)"
proof -
  have "sector_of_cluster fs c i = None" for i
    using assms(2) by (auto simp: sector_of_cluster_def sub32_def bind_eq_None_conv)
  moreover have "0 < sectors_per_cluster fs" by (rule validate_bpb_Some(2) [OF assms(1)])
  ultimately have "read_sectors fs l c [0..<sectors_per_cluster fs] data = None" for l data
    by (simp add: upt_conv_Cons)
  then have "read_clusters fs l c data = None" for l data
    by (subst read_clusters.simps) (simp add: bind_eq_None_conv)
  then have read: "read_file fs c l = None" for l
    by (simp add: read_file_def bind_eq_None_conv)
  then have "read_directory fs (Normal c) = None"
    by (simp add: read_directory_def read_normal_directory_def)
  then have "traverse_path fs (Normal c) path = None" for path
    by (subst traverse_path.simps) (auto simp: Let_def split: option.splits)
  with read show ?thesis by simp
qed

lemma empty_file_panics_witness: "read_file demo_fat 0 (Some 0) = None"
  using empty_file_panics [of demo_fat "()" 0 "Some 0"] demo_geometry(1) by (simp add: demo_parts)

lemma read_drive_sectors_unlimited:
  "read_drive_sectors fs None sector js data = Some r \<Longrightarrow> \<not> fst r"
  by (induction js arbitrary: data) (auto simp: bind_eq_Some_conv long_enough_def)

lemma read_sectors_unlimited:
  "read_sectors fs None c js data = Some r \<Longrightarrow> \<not> fst r"
  by (induction js arbitrary: data)
    (auto simp: bind_eq_Some_conv split: if_splits dest: read_drive_sectors_unlimited)

text \<open>A directory whose chain comes back to a cluster of it is read without an end.\<close>

lemma cyclic_chain_hangs:
  assumes "next_cluster fs c = Some (Some c)"
  shows "read_clusters fs None c data = None"
proof -
  let ?P = "\<lambda>fs (limit :: nat option) c (data :: u8 list) (out :: u8 list). \<not> (next_cluster fs c = Some (Some c) \<and> limit = None)"
  have "?P fs None c data out" if "read_clusters fs None c data = Some out" for out
  proof (rule read_clusters.raw_induct [OF _ that, of ?P])
    fix f fs limit c data out
    assume 1: "\<And>fs limit c data out. f fs limit c data = Some out \<Longrightarrow> ?P fs limit c data out"
      and 2: "do { next \<leftarrow> next_cluster fs c;
        r \<leftarrow> read_sectors fs limit c [0..<sectors_per_cluster fs] data;
        if fst r then Some (snd r)
        else (case next of None \<Rightarrow> Some (snd r) | Some c \<Rightarrow> f fs limit c (snd r)) } = Some out"
    show "?P fs limit c data out"
    proof
      assume loop: "next_cluster fs c = Some (Some c) \<and> limit = None"
      then obtain r where r: "read_sectors fs None c [0..<sectors_per_cluster fs] data = Some r"
        using 2 by (auto simp: bind_eq_Some_conv)
      with 2 loop read_sectors_unlimited [OF r] have "f fs None c (snd r) = Some out" by simp
      from 1 [OF this] loop show False by blast
    qed
  qed
  with assms show ?thesis by (cases "read_clusters fs None c data") auto
qed

text \<open>
  The type of a volume is found with the sectors of the root directory counted twice too many: this
  one has 4060 clusters, hence 12-bit entries, and is mounted with 16-bit ones.
\<close>

definition small_bpb :: bpb where
  "small_bpb =
     [0xEB, 0x3C, 0x90] @ replicate 8 0x20 @ [0, 2] @ [1] @ [1, 0] @ [2] @ [0, 2] @ [21, 16] @ [0xF8] @
     [12, 0] @ replicate 488 0"

lemma wrong_type:
  "determine_type small_bpb = Some Fat16"
  "count_of_clusters \<lparr>fs_type = Fat12, fs_drive = Map.empty, fs_bpb = small_bpb, fs_fat = [], fs_rdr = []\<rparr> = Some 4060"
  "type_of_count 4060 = Fat12"
  by code_simp+

end
