(* ===== verification/Kernel_Heap.thy ===== *)
theory Kernel_Heap
  imports Buddy_Session
begin

text \<open>
  The kernel heap with the memory of its own tree (\<open>kernel/src/heap.rs\<close>,
  \<open>kernel/src/heap/buddy.rs\<close>).  The buddy allocator behind the kernel heap puts every pair of
  child nodes in a box of the early heap, a bump allocator over two megabytes of the kernel
  image.  No pair is ever dropped and the bump allocator takes nothing back, so what the pairs
  take of the early heap only grows, and a box that does not fit aborts the kernel.  The
  operations below are those of \<open>BuddyAllocator\<close> with the allocator \<open>A = EarlyBumpHeap\<close> threaded
  through them; the lemmas say that they are the operations of the tree plus the boxes of the
  pairs these add.
\<close>

subsection \<open>Boxes of the early heap\<close>

text \<open>
  A pair \<open>(Node, Node)\<close> takes two times 24 bytes (two numbers and a box without allocator state).
  \<open>Box::new_in\<close> of an allocator that reports an error is \<open>handle_alloc_error\<close>: the kernel aborts.
\<close>

definition node_pair_layout :: layout where
  "node_pair_layout = \<lparr>lay_size = 48, lay_align = 8\<rparr>"

definition box_new_in :: "bump_allocator \<Rightarrow> layout \<Rightarrow> bump_allocator run" where
  "box_new_in e l = do {
     (e, r) \<leftarrow> bump_alloc e l;
     case r of Inl _ \<Rightarrow> None | Inr _ \<Rightarrow> Some e }"

definition get_children_in ::
  "(node \<times> node) option \<Rightarrow> usize \<Rightarrow> bump_allocator \<Rightarrow> ((node \<times> node) \<times> bump_allocator) run" where
  "get_children_in cs node_size e =
     (case cs of
        Some c \<Rightarrow> Some (c, e)
      | None \<Rightarrow> do {
          e \<leftarrow> box_new_in e node_pair_layout;
          Some ((Node (node_size div 2) 0 None, Node (node_size div 2) 0 None), e) })"

function node_new_in :: "usize \<Rightarrow> usize \<Rightarrow> bump_allocator \<Rightarrow> (node \<times> bump_allocator) run" where
  "node_new_in sz node_size e =
     (if sz = 0 then Some (Node 0 0 None, e)
      else if sz = node_size then Some (Node node_size 0 None, e)
      else if \<not> sz < node_size then None
      else do {
        let left_size = min (node_size div 2) sz;
        let right_size = sz - node_size div 2;
        (l, e) \<leftarrow> node_new_in left_size (node_size div 2) e;
        (r, e) \<leftarrow> node_new_in right_size (node_size div 2) e;
        e \<leftarrow> box_new_in e node_pair_layout;
        Some (update (Node 0 0 (Some (l, r))) node_size, e) })"
  by pat_completeness auto
termination by (relation "measure (\<lambda>(z, s, e). s)") auto

function node_alloc_in ::
  "node \<Rightarrow> usize \<Rightarrow> usize \<Rightarrow> bump_allocator \<Rightarrow> (node \<times> (alloc_error + usize) \<times> bump_allocator) run" where
  "node_alloc_in n req_size node_size e =
     (if req_size > max_available n then Some (n, Inl AllocError, e)
      else if req_size > node_size div 2 then do {
        ensure (max_available n = node_size);
        Some (Node 0 req_size (children n), Inr 0, e) }
      else if node_size = 0 then None
      else do {
        ((left, right), e) \<leftarrow> get_children_in (children n) node_size e;
        if (max_available left \<ge> req_size \<and> max_available left \<le> max_available right)
           \<or> max_available right < req_size
        then do {
          ensure (max_available left \<ge> req_size);
          (left, res, e) \<leftarrow> node_alloc_in left req_size (node_size div 2) e;
          let n' = Node (max_available n) (allocated n) (Some (left, right));
          case res of
            Inl err \<Rightarrow> Some (n', Inl err, e)
          | Inr ptr \<Rightarrow> Some (update n' node_size, Inr ptr, e) }
        else do {
          ensure (max_available right \<ge> req_size);
          (right, res, e) \<leftarrow> node_alloc_in right req_size (node_size div 2) e;
          let n' = Node (max_available n) (allocated n) (Some (left, right));
          case res of
            Inl err \<Rightarrow> Some (n', Inl err, e)
          | Inr ptr \<Rightarrow> do {
              ptr \<leftarrow> uadd ptr (node_size div 2);
              Some (update n' node_size, Inr ptr, e) } } })"
  by pat_completeness auto
termination by (relation "measure (\<lambda>(n, r, s, e). s)") auto

function node_reserve_range_in ::
  "node \<Rightarrow> usize \<Rightarrow> usize \<Rightarrow> usize \<Rightarrow> bump_allocator \<Rightarrow> (node \<times> bump_allocator) run" where
  "node_reserve_range_in n start end' node_size e =
     (if start = 0 \<and> end' = node_size then do {
        ensure (max_available n = node_size);
        Some (Node 0 (allocated n) (children n), e) }
      else if node_size = 0 then None
      else do {
        let half = node_size div 2;
        ((left, right), e) \<leftarrow> get_children_in (children n) node_size e;
        (left, e) \<leftarrow> (if start < half then node_reserve_range_in left start (min end' half) half e
                     else Some (left, e));
        (right, e) \<leftarrow> (if end' > half
                      then node_reserve_range_in right (max start half - half) (end' - half) half e
                      else Some (right, e));
        Some (update (Node (max_available n) (allocated n) (Some (left, right))) node_size, e) })"
  by pat_completeness auto
termination by (relation "measure (\<lambda>(n, a, b, s, e). s)") auto

declare node_new_in.simps [simp del] node_alloc_in.simps [simp del]
  node_reserve_range_in.simps [simp del]

subsection \<open>The kernel heap\<close>

text \<open>\<open>BUDDY\<close> and \<open>EARLY_BUMP\<close>, the two statics of \<open>heap.rs\<close>, once they are set.\<close>

type_synonym kernel_heap = "buddy_allocator \<times> bump_allocator"

definition buddy_new_in :: "usize \<Rightarrow> usize \<Rightarrow> bump_allocator \<Rightarrow> kernel_heap run" where
  "buddy_new_in s e early = do {
     sz \<leftarrow> usub e s;
     node_size \<leftarrow> next_power_of_two sz;
     (root, early) \<leftarrow> node_new_in sz node_size early;
     Some (\<lparr>buddy_root = root, root_node_size = node_size, range_start = s, range_end = e\<rparr>, early) }"

definition buddy_alloc_in ::
  "kernel_heap \<Rightarrow> layout \<Rightarrow> (kernel_heap \<times> (alloc_error + usize)) run" where
  "buddy_alloc_in h l = do {
     let (b, early) = h;
     let req_size = max (lay_size l) (lay_align l);
     (root, res, early) \<leftarrow> node_alloc_in (buddy_root b) req_size (root_node_size b) early;
     let b = b\<lparr>buddy_root := root\<rparr>;
     case res of
       Inl err \<Rightarrow> Some ((b, early), Inl err)
     | Inr unoffset_ptr \<Rightarrow> do {
         ptr \<leftarrow> uadd (range_start b) unoffset_ptr;
         ensure (ptr \<ge> range_start b);
         e \<leftarrow> uadd ptr req_size;
         ensure (e \<le> range_end b);
         Some ((b, early), Inr ptr) } }"

definition buddy_dealloc_in :: "kernel_heap \<Rightarrow> usize \<Rightarrow> layout \<Rightarrow> kernel_heap run" where
  "buddy_dealloc_in h ptr l = do {
     b \<leftarrow> buddy_dealloc (fst h) ptr l;
     Some (b, snd h) }"

definition buddy_reserve_range_in :: "kernel_heap \<Rightarrow> usize \<Rightarrow> usize \<Rightarrow> kernel_heap run" where
  "buddy_reserve_range_in h s e = do {
     let (b, early) = h;
     ensure (s \<ge> range_start b);
     ensure (e \<le> range_end b);
     s' \<leftarrow> usub s (range_start b);
     e' \<leftarrow> usub e (range_start b);
     (root, early) \<leftarrow> node_reserve_range_in (buddy_root b) s' e' (root_node_size b) early;
     Some (b\<lparr>buddy_root := root\<rparr>, early) }"

fun reserve_all_in :: "kernel_heap \<Rightarrow> (usize \<times> usize) list \<Rightarrow> kernel_heap run" where
  "reserve_all_in h [] = Some h"
| "reserve_all_in h ((s, e) # rs) = do { h' \<leftarrow> buddy_reserve_range_in h s e; reserve_all_in h' rs }"

text \<open>
  \<open>initialize_heap\<close> with \<open>initialize_early_heap\<close> first: \<open>ef\<close> and \<open>eu\<close> are the addresses
  \<open>early_heap_start\<close> and \<open>early_heap_end\<close> of the linker script.
\<close>

definition initialize_early_heap :: "usize \<Rightarrow> usize \<Rightarrow> bump_allocator" where
  "initialize_early_heap ef eu = bump_new ef eu"

definition initialize_kernel_heap ::
  "usize \<Rightarrow> usize \<Rightarrow> (usize \<times> usize) list \<Rightarrow> (usize \<times> usize) list \<Rightarrow> kernel_heap run" where
  "initialize_kernel_heap ef eu available reserved =
     (case available of
        [(s, e)] \<Rightarrow> do {
          h \<leftarrow> buddy_new_in s e (initialize_early_heap ef eu);
          reserve_all_in h reserved }
      | _ \<Rightarrow> None)"

text \<open>A run of requests to the kernel heap; one that the heap cannot serve is an answer, not an abort.\<close>

fun kernel_serve :: "kernel_heap \<Rightarrow> heap_op list \<Rightarrow> kernel_heap run" where
  "kernel_serve h [] = Some h"
| "kernel_serve h (Request l # ops) = do { (h', r) \<leftarrow> buddy_alloc_in h l; kernel_serve h' ops }"
| "kernel_serve h (Release p l # ops) = do { h' \<leftarrow> buddy_dealloc_in h p l; kernel_serve h' ops }"

subsection \<open>What the pairs take\<close>

fun node_pairs :: "node \<Rightarrow> nat" where
  "node_pairs (Node m a None) = 0"
| "node_pairs (Node m a (Some (l, r))) = Suc (node_pairs l + node_pairs r)"

abbreviation heap_pairs :: "buddy_allocator \<Rightarrow> nat" where
  "heap_pairs b \<equiv> node_pairs (buddy_root b)"

fun take_boxes :: "nat \<Rightarrow> bump_allocator \<Rightarrow> bump_allocator run" where
  "take_boxes 0 e = Some e"
| "take_boxes (Suc k) e = do { e \<leftarrow> box_new_in e node_pair_layout; take_boxes k e }"

lemma take_boxes_add: "take_boxes (a + b) e = do { e \<leftarrow> take_boxes a e; take_boxes b e }"
proof (induction a arbitrary: e)
  case (Suc a)
  show ?case by (cases "box_new_in e node_pair_layout") (simp_all add: Suc)
qed simp

lemma take_box_last:
  "take_boxes (Suc k) e = do { e \<leftarrow> take_boxes k e; box_new_in e node_pair_layout }"
  using take_boxes_add [of k 1 e]
  by (cases "take_boxes k e"; cases "box_new_in (the (take_boxes k e)) node_pair_layout") simp_all

lemma node_pairs_update [simp]: "node_pairs (update n s) = node_pairs n"
  by (cases "(n, s)" rule: update.cases) auto

lemma node_pairs_Node:
  "node_pairs (Node m a cs) = (case cs of None \<Rightarrow> 0 | Some (l, r) \<Rightarrow> Suc (node_pairs l + node_pairs r))"
  by (cases cs) auto

lemma node_pairs_kids:
  assumes "get_children (children n) s = (l, r)"
  shows "Suc (node_pairs l + node_pairs r) = node_pairs n + (if children n = None then 1 else 0)"
  using assms by (cases n) (auto simp: get_children_def split: option.splits)

lemma get_children_in_boxes:
  "get_children_in cs s e = do {
     e \<leftarrow> take_boxes (if cs = None then 1 else 0) e; Some (get_children cs s, e) }"
  by (cases cs) (simp_all add: get_children_in_def get_children_def Option.bind_assoc)

text \<open>Each operation of the tree with its boxes is the operation without, and then the boxes.\<close>

lemma node_new_in_boxes:
  "node_new_in sz s e = do {
     n \<leftarrow> node_new sz s; e \<leftarrow> take_boxes (node_pairs n) e; Some (n, e) }"
proof (induction sz s e rule: node_new_in.induct)
  case (1 sz s e)
  show ?case
  proof (cases "sz = 0 \<or> sz = s \<or> \<not> sz < s")
    case True
    then show ?thesis by (subst node_new_in.simps, subst node_new.simps) auto
  next
    case False
    let ?l = "node_new (min (s div 2) sz) (s div 2)"
    let ?r = "node_new (sz - s div 2) (s div 2)"
    note ih = "1.IH" [OF _ _ _ refl refl]
    show ?thesis
    proof (cases ?l)
      case None
      then show ?thesis using False ih(1)
        by (subst node_new_in.simps, subst node_new.simps) (simp add: Let_def)
    next
      case l: (Some l)
      show ?thesis
      proof (cases "take_boxes (node_pairs l) e")
        case None
        then show ?thesis using False ih(1) l
          by (subst node_new_in.simps, subst node_new.simps)
            (cases ?r; simp add: Let_def take_boxes_add del: take_boxes.simps
              flip: add_Suc_right)
      next
        case (Some e1)
        then have "node_new_in (min (s div 2) sz) (s div 2) e = Some (l, e1)"
          using ih(1) False l by simp
        with ih(2) [of "(l, e1)" l e1] False l Some show ?thesis
          by (subst node_new_in.simps, subst node_new.simps)
            (cases ?r; simp add: Let_def take_boxes_add take_box_last del: take_boxes.simps(2)
              flip: add_Suc_right)
      qed
    qed
  qed
qed

text \<open>One step of the search, the same for the tree with its boxes and without.\<close>

definition from_child ::
  "node \<Rightarrow> usize \<Rightarrow> node \<times> node \<Rightarrow> usize option \<Rightarrow> alloc_error + usize \<Rightarrow> (node \<times> (alloc_error + usize)) run" where
  "from_child n s kids off res =
     (let n' = Node (max_available n) (allocated n) (Some kids) in
      case res of
        Inl err \<Rightarrow> Some (n', Inl err)
      | Inr ptr \<Rightarrow> do {
          ptr \<leftarrow> (case off of None \<Rightarrow> Some ptr | Some a \<Rightarrow> uadd ptr a);
          Some (update n' s, Inr ptr) })"

lemma from_child_pairs:
  "from_child n s (x, y) off res = Some (n', res') \<Longrightarrow> node_pairs n' = Suc (node_pairs x + node_pairs y)"
  by (auto simp: from_child_def Let_def run_Some split: sum.splits)

definition goes_left :: "node \<Rightarrow> node \<Rightarrow> usize \<Rightarrow> bool" where
  "goes_left x y r \<longleftrightarrow> (max_available x \<ge> r \<and> max_available x \<le> max_available y) \<or> max_available y < r"

lemma node_alloc_at:
  "r > max_available n \<or> r > s div 2 \<or> s = 0 \<Longrightarrow> node_alloc n r s = Some (n', res) \<Longrightarrow>
   node_pairs n' = node_pairs n"
  by (cases n) (auto simp: node_alloc.simps [of _ r s] run_Some node_pairs_Node split: if_splits)

lemma node_alloc_in_at:
  "r > max_available n \<or> r > s div 2 \<or> s = 0 \<Longrightarrow>
   node_alloc_in n r s e = map_option (\<lambda>(n', res). (n', res, e)) (node_alloc n r s)"
  by (subst node_alloc_in.simps, subst node_alloc.simps)
    (cases "max_available n = s"; auto simp: ensure_def)

lemma node_alloc_down:
  assumes "\<not> (r > max_available n \<or> r > s div 2 \<or> s = 0)" "get_children (children n) s = (x, y)"
  shows "node_alloc n r s =
    (if goes_left x y r
     then do { ensure (r \<le> max_available x); (x', res) \<leftarrow> node_alloc x r (s div 2);
               from_child n s (x', y) None res }
     else do { ensure (r \<le> max_available y); (y', res) \<leftarrow> node_alloc y r (s div 2);
               from_child n s (x, y') (Some (s div 2)) res })"
proof -
  have fin: "(case res of Inl err \<Rightarrow> Some (Node (max_available n) (allocated n) (Some (x', y)), Inl err)
       | Inr ptr \<Rightarrow> Some (update (Node (max_available n) (allocated n) (Some (x', y))) s, Inr ptr)) =
      from_child n s (x', y) None res"
    "(case res of Inl err \<Rightarrow> Some (Node (max_available n) (allocated n) (Some (x, y')), Inl err)
       | Inr ptr \<Rightarrow> do { ptr \<leftarrow> uadd ptr (s div 2);
           Some (update (Node (max_available n) (allocated n) (Some (x, y'))) s, Inr ptr) }) =
      from_child n s (x, y') (Some (s div 2)) res" for x' y' res
    by (cases res; simp add: from_child_def)+
  show ?thesis
    using assms
    by (subst node_alloc.simps) (simp add: goes_left_def [symmetric] Let_def fin del: update.simps)
qed

lemma node_alloc_in_down:
  assumes "\<not> (r > max_available n \<or> r > s div 2 \<or> s = 0)" "get_children (children n) s = (x, y)"
  shows "node_alloc_in n r s e = do {
     e \<leftarrow> take_boxes (if children n = None then 1 else 0) e;
     if goes_left x y r
     then do { ensure (r \<le> max_available x); (x', res, e) \<leftarrow> node_alloc_in x r (s div 2) e;
               (n', res) \<leftarrow> from_child n s (x', y) None res; Some (n', res, e) }
     else do { ensure (r \<le> max_available y); (y', res, e) \<leftarrow> node_alloc_in y r (s div 2) e;
               (n', res) \<leftarrow> from_child n s (x, y') (Some (s div 2)) res; Some (n', res, e) } }"
proof -
  have fin: "(case res of Inl err \<Rightarrow> Some (Node (max_available n) (allocated n) (Some (x', y)), Inl err, e)
       | Inr ptr \<Rightarrow> Some (update (Node (max_available n) (allocated n) (Some (x', y))) s, Inr ptr, e)) =
      do { (n', res) \<leftarrow> from_child n s (x', y) None res; Some (n', res, e) }"
    "(case res of Inl err \<Rightarrow> Some (Node (max_available n) (allocated n) (Some (x, y')), Inl err, e)
       | Inr ptr \<Rightarrow> do { ptr \<leftarrow> uadd ptr (s div 2);
           Some (update (Node (max_available n) (allocated n) (Some (x, y'))) s, Inr ptr, e) }) =
      do { (n', res) \<leftarrow> from_child n s (x, y') (Some (s div 2)) res; Some (n', res, e) }"
    for x' y' res and e :: bump_allocator
    by (cases res; simp add: from_child_def Let_def split: bind_splits)+
  show ?thesis
    using assms
    by (subst node_alloc_in.simps) (simp add: get_children_in_boxes goes_left_def [symmetric] Let_def fin)
qed

lemma node_alloc_pairs:
  assumes "node_alloc n r s = Some (n', res)"
  shows "node_pairs n \<le> node_pairs n'"
    and "0 < r \<Longrightarrow> s \<le> 2 ^ k \<Longrightarrow> node_pairs n' \<le> node_pairs n + k"
proof -
  have "node_pairs n \<le> node_pairs n' \<and> (\<forall>k. 0 < r \<longrightarrow> s \<le> 2 ^ k \<longrightarrow> node_pairs n' \<le> node_pairs n + k)"
    using assms
  proof (induction n r s arbitrary: n' res rule: node_alloc.induct)
    case (1 n r s)
    obtain x y where kids: "get_children (children n) s = (x, y)" by fastforce
    note pairs = node_pairs_kids [OF kids]
    show ?case
    proof (cases "r > max_available n \<or> r > s div 2 \<or> s = 0")
      case True
      with "1.prems" show ?thesis by (simp add: node_alloc_at)
    next
      case False
      have half: "\<exists>j. k = Suc j \<and> s div 2 \<le> 2 ^ j" if "0 < r" "s \<le> 2 ^ k" for k
        using that False by (cases k) auto
      note IH = "1.IH" [OF _ _ _ kids [symmetric] refl, folded goes_left_def]
      have down: "node_pairs c \<le> node_pairs c' \<and>
          (\<forall>j. 0 < r \<longrightarrow> s div 2 \<le> 2 ^ j \<longrightarrow> node_pairs c' \<le> node_pairs c + j) \<Longrightarrow>
        node_pairs n' + node_pairs c = node_pairs n + node_pairs c' + (if children n = None then 1 else 0)
          \<Longrightarrow> ?thesis" for c c'
        using half by (fastforce split: if_splits)
      show ?thesis
      proof (cases "goes_left x y r")
        case True
        with "1.prems" node_alloc_down [OF False kids] obtain x' res'
          where x': "r \<le> max_available x" "node_alloc x r (s div 2) = Some (x', res')"
            "from_child n s (x', y) None res' = Some (n', res)"
          by (auto simp: run_Some split: if_splits)
        from down [OF IH(1) [OF _ _ _ True _ x'(2)]] from_child_pairs [OF x'(3)] pairs False x'(1)
        show ?thesis by auto
      next
        case right: False
        with "1.prems" node_alloc_down [OF False kids] obtain y' res'
          where y': "r \<le> max_available y" "node_alloc y r (s div 2) = Some (y', res')"
            "from_child n s (x, y') (Some (s div 2)) res' = Some (n', res)"
          by (auto simp: run_Some split: if_splits)
        from down [OF IH(2) [OF _ _ _ right _ y'(2)]] from_child_pairs [OF y'(3)] pairs False y'(1)
        show ?thesis by auto
      qed
    qed
  qed
  then show "node_pairs n \<le> node_pairs n'"
    "0 < r \<Longrightarrow> s \<le> 2 ^ k \<Longrightarrow> node_pairs n' \<le> node_pairs n + k" by blast+
qed

lemma charged_child:
  assumes ih: "\<And>e. child_in e = do {
      (c', res) \<leftarrow> child; e \<leftarrow> take_boxes (node_pairs c' - node_pairs c) e; Some (c', res, e) }"
    and mono: "\<And>c' res. child = Some (c', res) \<Longrightarrow> node_pairs c \<le> node_pairs c'"
    and fin: "\<And>c' res n' res'. finish c' res = Some (n', res') \<Longrightarrow>
      node_pairs n' + node_pairs c = node_pairs n + new + node_pairs c'"
  shows "do { e \<leftarrow> take_boxes new e; ensure ok; (c', res, e) \<leftarrow> child_in e;
              (n', res) \<leftarrow> finish c' res; Some (n', res, e) } =
    do { (n', res) \<leftarrow> do { ensure ok; (c', res) \<leftarrow> child; finish c' res };
         e \<leftarrow> take_boxes (node_pairs n' - node_pairs n) e; Some (n', res, e) }"
proof (cases child)
  case None
  then show ?thesis using ih by (cases ok; cases "take_boxes new e") simp_all
next
  case (Some p)
  obtain c' res where p: "p = (c', res)" by fastforce
  show ?thesis
  proof (cases "finish c' res")
    case None
    with Some p show ?thesis using ih
      by (cases ok; cases "take_boxes new e";
          cases "take_boxes (node_pairs c' - node_pairs c) (the (take_boxes new e))") simp_all
  next
    case fin': (Some q)
    obtain n' res' where q: "q = (n', res')" by fastforce
    have "node_pairs n' - node_pairs n = new + (node_pairs c' - node_pairs c)"
      using fin [OF fin' [unfolded q]] mono [OF Some [unfolded p]] by simp
    with Some p fin' q show ?thesis using ih
      by (cases ok; cases "take_boxes new e";
          cases "take_boxes (node_pairs c' - node_pairs c) (the (take_boxes new e))")
        (simp_all add: take_boxes_add)
  qed
qed

lemma node_alloc_in_boxes:
  "node_alloc_in n r s e = do {
     (n', res) \<leftarrow> node_alloc n r s;
     e \<leftarrow> take_boxes (node_pairs n' - node_pairs n) e;
     Some (n', res, e) }"
proof (induction s arbitrary: n e rule: less_induct)
  case (less s)
  show ?case
  proof (cases "r > max_available n \<or> r > s div 2 \<or> s = 0")
    case True
    then show ?thesis
      using node_alloc_at [OF True] by (cases "node_alloc n r s") (auto simp: node_alloc_in_at)
  next
    case False
    obtain x y where kids: "get_children (children n) s = (x, y)" by fastforce
    have half: "s div 2 < s" using False by auto
    note pairs = node_pairs_kids [OF kids]
    show ?thesis
    proof (cases "goes_left x y r")
      case True
      have "node_pairs n' + node_pairs x = node_pairs n + (if children n = None then 1 else 0) + node_pairs x'"
        if "from_child n s (x', y) None res = Some (n', res')" for x' res n' res'
        using from_child_pairs [OF that] pairs by linarith
      from charged_child [where child = "node_alloc x r (s div 2)" and finish = "\<lambda>x' res. from_child n s (x', y) None res",
          OF less.IH [OF half] node_alloc_pairs(1) this]
      show ?thesis using True by (simp add: node_alloc_in_down [OF False kids] node_alloc_down [OF False kids])
    next
      case right: False
      have "node_pairs n' + node_pairs y = node_pairs n + (if children n = None then 1 else 0) + node_pairs y'"
        if "from_child n s (x, y') (Some (s div 2)) res = Some (n', res')" for y' res n' res'
        using from_child_pairs [OF that] pairs by linarith
      from charged_child [where child = "node_alloc y r (s div 2)" and
          finish = "\<lambda>y' res. from_child n s (x, y') (Some (s div 2)) res",
          OF less.IH [OF half] node_alloc_pairs(1) this]
      show ?thesis using right by (simp add: node_alloc_in_down [OF False kids] node_alloc_down [OF False kids])
    qed
  qed
qed

lemma node_reserve_pairs:
  "node_reserve_range n a b s = Some n' \<Longrightarrow> node_pairs n \<le> node_pairs n'"
proof (induction s arbitrary: n a b n' rule: less_induct)
  case (less s)
  show ?case
  proof (cases "(a = 0 \<and> b = s) \<or> s = 0")
    case True
    with less.prems show ?thesis
      by (cases n) (auto simp: node_reserve_range.simps [of _ a b s] run_Some node_pairs_Node split: if_splits)
  next
    case False
    obtain x y where kids: "get_children (children n) s = (x, y)" by fastforce
    have half: "s div 2 < s" using False by auto
    obtain x' y' where x': "(if a < s div 2 then node_reserve_range x a (min b (s div 2)) (s div 2) else Some x) = Some x'"
      and y': "(if b > s div 2 then node_reserve_range y (max a (s div 2) - s div 2) (b - s div 2) (s div 2)
        else Some y) = Some y'"
      and n': "n' = update (Node (max_available n) (allocated n) (Some (x', y'))) s"
      using less.prems False kids
      by (auto simp: node_reserve_range.simps [of n a b s] run_Some Let_def simp del: update.simps)
    have "node_pairs x \<le> node_pairs x'" "node_pairs y \<le> node_pairs y'"
      using less.IH [OF half] x' y' by (auto split: if_splits)
    with n' node_pairs_kids [OF kids] show ?thesis by (auto simp del: update.simps split: if_splits)
  qed
qed

lemma charged_half:
  assumes "\<And>e. child_in e = do { c' \<leftarrow> child; e \<leftarrow> take_boxes (node_pairs c' - node_pairs c) e; Some (c', e) }"
  shows "(if ok then child_in e else Some (c, e)) = do {
    c' \<leftarrow> (if ok then child else Some c); e \<leftarrow> take_boxes (node_pairs c' - node_pairs c) e; Some (c', e) }"
  using assms by simp

lemma node_reserve_range_in_boxes:
  "node_reserve_range_in n a b s e = do {
     n' \<leftarrow> node_reserve_range n a b s;
     e \<leftarrow> take_boxes (node_pairs n' - node_pairs n) e;
     Some (n', e) }"
proof (induction s arbitrary: n a b e rule: less_induct)
  case (less s)
  show ?case
  proof (cases "(a = 0 \<and> b = s) \<or> s = 0")
    case True
    then show ?thesis
      by (subst node_reserve_range_in.simps, subst node_reserve_range.simps)
        (cases n; cases "max_available n = s"; auto simp: node_pairs_Node)
  next
    case False
    obtain x y where kids: "get_children (children n) s = (x, y)" by fastforce
    have half: "s div 2 < s" using False by auto
    have part: "(a = 0 \<and> b = s) = False" "(s = 0) = False" using False by auto
    define new where "new = (if children n = None then 1 else (0::nat))"
    define left where "left = (if a < s div 2 then node_reserve_range x a (min b (s div 2)) (s div 2) else Some x)"
    define right where "right = (if b > s div 2
      then node_reserve_range y (max a (s div 2) - s div 2) (b - s div 2) (s div 2) else Some y)"
    have left_in: "(if a < s div 2 then node_reserve_range_in x a (min b (s div 2)) (s div 2) e else Some (x, e)) =
      do { x' \<leftarrow> left; e \<leftarrow> take_boxes (node_pairs x' - node_pairs x) e; Some (x', e) }" for e
      unfolding left_def by (rule charged_half [OF less.IH [OF half]])
    have right_in: "(if b > s div 2
        then node_reserve_range_in y (max a (s div 2) - s div 2) (b - s div 2) (s div 2) e else Some (y, e)) =
      do { y' \<leftarrow> right; e \<leftarrow> take_boxes (node_pairs y' - node_pairs y) e; Some (y', e) }" for e
      unfolding right_def by (rule charged_half [OF less.IH [OF half]])
    have pure: "node_reserve_range n a b s = do { x' \<leftarrow> left; y' \<leftarrow> right;
        Some (update (Node (max_available n) (allocated n) (Some (x', y'))) s) }"
      using kids
      by (subst node_reserve_range.simps) (simp only: part if_False, simp add: Let_def left_def right_def del: update.simps)
    have boxed: "node_reserve_range_in n a b s e = do { e \<leftarrow> take_boxes new e;
        (x', e) \<leftarrow> do { x' \<leftarrow> left; e \<leftarrow> take_boxes (node_pairs x' - node_pairs x) e; Some (x', e) };
        (y', e) \<leftarrow> do { y' \<leftarrow> right; e \<leftarrow> take_boxes (node_pairs y' - node_pairs y) e; Some (y', e) };
        Some (update (Node (max_available n) (allocated n) (Some (x', y'))) s, e) }"
      using kids
      by (subst node_reserve_range_in.simps)
        (simp only: part if_False, simp add: Let_def get_children_in_boxes left_in right_in new_def del: update.simps)
    show ?thesis
    proof (cases left)
      case None
      then show ?thesis by (cases "take_boxes new e") (simp_all add: pure boxed)
    next
      case l: (Some x')
      then have x': "node_pairs x \<le> node_pairs x'"
        using node_reserve_pairs by (auto simp: left_def split: if_splits)
      show ?thesis
      proof (cases right)
        case None
        with l show ?thesis
          by (cases "take_boxes new e"; cases "take_boxes (node_pairs x' - node_pairs x) (the (take_boxes new e))")
            (simp_all add: pure boxed)
      next
        case r: (Some y')
        then have "node_pairs y \<le> node_pairs y'"
          using node_reserve_pairs by (auto simp: right_def split: if_splits)
        with x' node_pairs_kids [OF kids]
        have "Suc (node_pairs x' + node_pairs y') - node_pairs n =
            new + ((node_pairs x' - node_pairs x) + (node_pairs y' - node_pairs y))"
          by (auto simp: new_def)
        with l r show ?thesis
          by (cases "take_boxes new e"; cases "take_boxes (node_pairs x' - node_pairs x) (the (take_boxes new e))")
            (simp_all add: pure boxed take_boxes_add Option.bind_assoc del: update.simps)
      qed
    qed
  qed
qed

subsection \<open>How many pairs the early heap holds\<close>

text \<open>The early heap once \<open>k\<close> pairs have been put in it.\<close>

definition early_with :: "usize \<Rightarrow> usize \<Rightarrow> nat \<Rightarrow> bump_allocator" where
  "early_with ef eu k = \<lparr>bump_start = ef + 48 * k, bump_end = eu, allocated_bytes = 48 * k\<rparr>"

lemma box_new_in_early:
  assumes "8 dvd ef" "eu < usize_end"
  shows "box_new_in (early_with ef eu k) node_pair_layout =
    (if ef + 48 * Suc k \<le> eu then Some (early_with ef eu (Suc k)) else None)"
proof -
  have "next_multiple_of (ef + 48 * k) 8 = Some (ef + 48 * k)"
    using assms(1) by (intro next_multiple_of_id) auto
  with assms(2) show ?thesis
    by (auto simp: box_new_in_def bump_alloc_def early_with_def node_pair_layout_def uadd_def)
qed

lemma take_boxes_early:
  assumes "8 dvd ef" "eu < usize_end" "ef + 48 * j \<le> eu"
  shows "take_boxes k (early_with ef eu j) =
    (if ef + 48 * (j + k) \<le> eu then Some (early_with ef eu (j + k)) else None)"
  using assms(3)
proof (induction k arbitrary: j)
  case (Suc k)
  from Suc.IH [of "Suc j"] show ?case by (simp add: box_new_in_early [OF assms(1,2)])
qed simp

text \<open>The heap whose boxes are exactly the pairs of its tree.\<close>

definition with_boxes :: "usize \<Rightarrow> usize \<Rightarrow> buddy_allocator \<Rightarrow> kernel_heap run" where
  "with_boxes ef eu b =
     (if ef + 48 * heap_pairs b \<le> eu then Some (b, early_with ef eu (heap_pairs b)) else None)"

lemma with_boxes_grow:
  assumes "8 dvd ef" "eu < usize_end" "with_boxes ef eu b = Some (b, e)" "heap_pairs b \<le> heap_pairs b'"
  shows "do { e \<leftarrow> take_boxes (heap_pairs b' - heap_pairs b) e; Some (b', e) } = with_boxes ef eu b'"
  using assms(3,4) take_boxes_early [OF assms(1,2), of "heap_pairs b" "heap_pairs b' - heap_pairs b"]
  by (auto simp: with_boxes_def split: if_splits)

lemma with_boxes_Some: "with_boxes ef eu b = Some (b', e) \<longleftrightarrow> b' = b \<and> with_boxes ef eu b = Some (b, e)"
  by (auto simp: with_boxes_def split: if_splits)

lemma buddy_alloc_in_boxes:
  "buddy_alloc_in (b, e) l = do {
     (b', r) \<leftarrow> buddy_alloc b l;
     e \<leftarrow> take_boxes (heap_pairs b' - heap_pairs b) e;
     Some ((b', e), r) }"
proof (cases "node_alloc (buddy_root b) (max (lay_size l) (lay_align l)) (root_node_size b)")
  case None
  then show ?thesis by (simp add: buddy_alloc_in_def buddy_alloc_def node_alloc_in_boxes)
next
  case (Some p)
  obtain n res where p: "p = (n, res)" by fastforce
  show ?thesis
  proof (cases "take_boxes (node_pairs n - heap_pairs b) e")
    case None
    with Some p show ?thesis
      by (cases res) (auto simp: buddy_alloc_in_def buddy_alloc_def node_alloc_in_boxes Let_def uadd_def ensure_def)
  next
    case boxes: (Some e1)
    with Some p show ?thesis
      by (cases res) (auto simp: buddy_alloc_in_def buddy_alloc_def node_alloc_in_boxes Let_def uadd_def ensure_def)
  qed
qed

lemma buddy_alloc_tree:
  assumes "buddy_alloc b l = Some (b', r)"
  shows "\<exists>n res. node_alloc (buddy_root b) (request l) (root_node_size b) = Some (n, res) \<and>
    b' = b\<lparr>buddy_root := n\<rparr>"
proof (cases "node_alloc (buddy_root b) (request l) (root_node_size b)")
  case None
  with assms show ?thesis by (simp add: buddy_alloc_def request_def)
next
  case (Some p)
  obtain n res where p: "p = (n, res)" by fastforce
  from assms Some p show ?thesis
    by (cases res) (auto simp: buddy_alloc_def request_def run_Some Let_def split: if_splits)
qed

lemma buddy_alloc_pairs:
  assumes "buddy_alloc b l = Some (b', r)"
  shows "heap_pairs b \<le> heap_pairs b'"
    "layout_ok l \<Longrightarrow> buddy_invar b \<Longrightarrow> heap_pairs b' \<le> heap_pairs b + buddy_level b"
proof -
  obtain n res where n: "node_alloc (buddy_root b) (request l) (root_node_size b) = Some (n, res)"
    and b': "buddy_root b' = n"
    using buddy_alloc_tree [OF assms] by auto
  from node_alloc_pairs(1) [OF n] b' show "heap_pairs b \<le> heap_pairs b'" by simp
  assume "layout_ok l" "buddy_invar b"
  with node_alloc_pairs(2) [OF n, of "buddy_level b"] b' show "heap_pairs b' \<le> heap_pairs b + buddy_level b"
    by (simp add: request_pos buddy_invar_def)
qed

lemma node_dealloc_pairs: "node_dealloc n p r s = Some n' \<Longrightarrow> node_pairs n' = node_pairs n"
proof (induction s arbitrary: n p n' rule: less_induct)
  case (less s)
  show ?case
  proof (cases "(p = 0 \<and> r > s div 2) \<or> s = 0")
    case True
    with less.prems show ?thesis
      by (cases n) (auto simp: node_dealloc.simps [of _ p r s] run_Some node_pairs_Node split: if_splits)
  next
    case False
    then have half: "s div 2 < s" by auto
    show ?thesis
    proof (cases "p < s div 2")
      case True
      with less.prems False obtain x y x' where "children n = Some (x, y)"
        "node_dealloc x p r (s div 2) = Some x'"
        "n' = update (Node (max_available n) (allocated n) (Some (x', y))) s"
        by (auto simp: node_dealloc.simps [of n p r s] run_Some simp del: update.simps split: if_splits)
      then show ?thesis using less.IH [OF half]
        by (cases n) (simp add: node_pairs_Node del: update.simps)
    next
      case right: False
      with less.prems False obtain x y y' where "children n = Some (x, y)"
        "node_dealloc y (p - s div 2) r (s div 2) = Some y'"
        "n' = update (Node (max_available n) (allocated n) (Some (x, y'))) s"
        by (auto simp: node_dealloc.simps [of n p r s] run_Some simp del: update.simps split: if_splits)
      then show ?thesis using less.IH [OF half]
        by (cases n) (simp add: node_pairs_Node del: update.simps)
    qed
  qed
qed

lemma buddy_dealloc_pairs:
  "buddy_dealloc b p l = Some b' \<Longrightarrow> heap_pairs b' = heap_pairs b"
  by (auto simp: buddy_dealloc_def run_Some Let_def dest: node_dealloc_pairs)

lemma buddy_reserve_range_in_boxes:
  "buddy_reserve_range_in (b, e) s t = do {
     b' \<leftarrow> buddy_reserve_range b s t;
     e \<leftarrow> take_boxes (heap_pairs b' - heap_pairs b) e;
     Some (b', e) }"
  by (cases "node_reserve_range (buddy_root b) (s - range_start b) (t - range_start b) (root_node_size b)")
    (auto simp: buddy_reserve_range_in_def buddy_reserve_range_def node_reserve_range_in_boxes usub_def ensure_def)

lemma buddy_reserve_pairs:
  "buddy_reserve_range b s t = Some b' \<Longrightarrow> heap_pairs b \<le> heap_pairs b'"
  by (auto simp: buddy_reserve_range_def run_Some dest: node_reserve_pairs split: if_splits)

lemma buddy_new_in_boxes:
  assumes "8 dvd ef" "ef \<le> eu" "eu < usize_end"
  shows "buddy_new_in s t (initialize_early_heap ef eu) = do { b \<leftarrow> buddy_new s t; with_boxes ef eu b }"
proof -
  have "initialize_early_heap ef eu = early_with ef eu 0"
    by (simp add: initialize_early_heap_def bump_new_def early_with_def)
  then have boxes: "take_boxes k (initialize_early_heap ef eu) =
      (if ef + 48 * k \<le> eu then Some (early_with ef eu k) else None)" for k
    using take_boxes_early [of ef eu 0 k] assms by simp
  show ?thesis
  proof (cases "usub t s \<bind> next_power_of_two")
    case None
    then show ?thesis by (cases "usub t s") (simp_all add: buddy_new_in_def buddy_new_def)
  next
    case (Some ns)
    then show ?thesis
      by (cases "node_new (t - s) ns")
        (auto simp: run_Some buddy_new_in_def buddy_new_def node_new_in_boxes boxes with_boxes_def)
  qed
qed

lemma reserve_all_in_boxes:
  assumes "8 dvd ef" "eu < usize_end"
  shows "do { h \<leftarrow> with_boxes ef eu b; reserve_all_in h rs } =
    do { b' \<leftarrow> reserve_all b rs; with_boxes ef eu b' }"
proof (induction rs arbitrary: b)
  case Nil
  then show ?case by (cases "with_boxes ef eu b") simp_all
next
  case (Cons r rs)
  obtain s t where r: "r = (s, t)" by fastforce
  show ?case
  proof (cases "buddy_reserve_range b s t")
    case None
    then show ?thesis
      by (auto simp: r with_boxes_def buddy_reserve_range_in_boxes)
  next
    case (Some b1)
    note grow = buddy_reserve_pairs [OF Some]
    show ?thesis
    proof (cases "with_boxes ef eu b")
      case None
      then have "with_boxes ef eu b1 = None" using grow by (auto simp: with_boxes_def split: if_splits)
      with Cons.IH [of b1] None Some r show ?thesis by simp
    next
      case start: (Some h)
      then obtain e where h: "h = (b, e)" by (auto simp: with_boxes_def split: if_splits)
      from with_boxes_grow [OF assms start [unfolded h] grow] Cons.IH [of b1] start Some r h
      show ?thesis by (simp add: buddy_reserve_range_in_boxes)
    qed
  qed
qed

lemma initialize_kernel_heap_boxes:
  assumes "8 dvd ef" "ef \<le> eu" "eu < usize_end"
  shows "initialize_kernel_heap ef eu available rs =
    do { b \<leftarrow> initialize_heap available rs; with_boxes ef eu b }"
proof -
  have "(do { h \<leftarrow> buddy_new_in s t (initialize_early_heap ef eu); reserve_all_in h rs }) =
      (do { b \<leftarrow> buddy_new s t; b' \<leftarrow> reserve_all b rs; with_boxes ef eu b' })" for s t
    using buddy_new_in_boxes [OF assms, of s t] reserve_all_in_boxes [OF assms(1,3), where rs = rs]
    by (cases "buddy_new s t") simp_all
  then show ?thesis
    by (auto simp: initialize_kernel_heap_def initialize_heap_def split: list.splits)
qed

lemma serve_pairs:
  "buddy_fa.serve b ops = Some b' \<Longrightarrow> heap_pairs b \<le> heap_pairs b'"
proof (induction ops arbitrary: b)
  case (Cons op ops)
  then show ?case
    by (cases op) (fastforce simp: run_Some dest: buddy_alloc_pairs(1) buddy_dealloc_pairs)+
qed simp

lemma with_boxes_None:
  "with_boxes ef eu b = None \<Longrightarrow> heap_pairs b \<le> heap_pairs b' \<Longrightarrow> with_boxes ef eu b' = None"
  by (auto simp: with_boxes_def split: if_splits)

lemma kernel_serve_boxes:
  assumes "8 dvd ef" "eu < usize_end"
  shows "do { h \<leftarrow> with_boxes ef eu b; kernel_serve h ops } =
    do { b' \<leftarrow> buddy_fa.serve b ops; with_boxes ef eu b' }"
proof (cases "with_boxes ef eu b")
  case None
  then show ?thesis
    using serve_pairs [of b ops] with_boxes_None [OF None] by (cases "buddy_fa.serve b ops") simp_all
next
  case (Some h)
  then have "h = (b, snd h)" by (auto simp: with_boxes_def split: if_splits)
  with Some have "with_boxes ef eu b = Some (b, snd h)" by simp
  then have "kernel_serve (b, snd h) ops = do { b' \<leftarrow> buddy_fa.serve b ops; with_boxes ef eu b' }"
  proof (induction ops arbitrary: b h)
    case (Cons op ops)
    note boxes = Cons.prems
    note grow = with_boxes_grow [OF assms boxes]
    show ?case
    proof (cases op)
      case (Request l)
      show ?thesis
      proof (cases "buddy_alloc b l")
        case None
        then show ?thesis by (simp add: Request buddy_alloc_in_boxes)
      next
        case (Some q)
        obtain b1 r where q: "q = (b1, r)" by fastforce
        note more = buddy_alloc_pairs(1) [OF Some [unfolded q]]
        show ?thesis
        proof (cases "with_boxes ef eu b1")
          case None
          with grow [OF more] have "take_boxes (heap_pairs b1 - heap_pairs b) (snd h) = None"
            by (cases "take_boxes (heap_pairs b1 - heap_pairs b) (snd h)") simp_all
          with Some q serve_pairs [of b1 ops] with_boxes_None [OF None] show ?thesis
            by (cases "buddy_fa.serve b1 ops") (simp_all add: Request buddy_alloc_in_boxes)
        next
          case b1: (Some h1)
          with grow [OF more] obtain e1 where "take_boxes (heap_pairs b1 - heap_pairs b) (snd h) = Some e1"
            "h1 = (b1, e1)"
            by (cases "take_boxes (heap_pairs b1 - heap_pairs b) (snd h)") auto
          with Some q b1 Cons.IH [of b1 h1] show ?thesis by (simp add: Request buddy_alloc_in_boxes)
        qed
      qed
    next
      case (Release p l)
      show ?thesis
      proof (cases "buddy_dealloc b p l")
        case None
        then show ?thesis by (simp add: Release buddy_dealloc_in_def)
      next
        case (Some b1)
        with boxes have "with_boxes ef eu b1 = Some (b1, snd h)"
          by (auto simp: with_boxes_def buddy_dealloc_pairs split: if_splits)
        with Some Cons.IH [of b1 "(b1, snd h)"] show ?thesis by (simp add: Release buddy_dealloc_in_def)
      qed
    qed
  qed simp
  with Some \<open>h = (b, snd h)\<close> show ?thesis by (metis bind.bind_lunit)
qed

lemma serve_pairs_bound:
  assumes "buddy_fa.tidy b" "buddy_fa.legal b ops" "buddy_fa.serve b ops = Some b'"
  shows "heap_pairs b' \<le> heap_pairs b + buddy_level b * length ops"
  using assms
proof (induction ops arbitrary: b)
  case (Cons op ops)
  show ?case
  proof (cases op)
    case (Request l)
    with Cons.prems obtain b1 r where a: "buddy_alloc b l = Some (b1, r)"
      by (auto simp: run_Some)
    have ok: "layout_ok l" "buddy_invar b" using Cons.prems Request by (auto simp: buddy_fa.tidy_def)
    have "buddy_level b1 = buddy_level b"
      using buddy_alloc_tree [OF a] by (auto simp: buddy_level_def)
    with buddy_alloc_pairs(2) [OF a ok] buddy_fa.tidy_request [OF Cons.prems(1) ok(1) a]
      Cons.IH [of b1] Cons.prems a Request
    show ?thesis by (simp add: algebra_simps)
  next
    case (Release p l)
    with Cons.prems obtain b1 where a: "buddy_dealloc b p l = Some b1" by (auto simp: run_Some)
    have "buddy_level b1 = buddy_level b"
      using a by (auto simp: buddy_dealloc_def buddy_level_def run_Some Let_def)
    with buddy_dealloc_pairs [OF a] buddy_fa.tidy_release [OF Cons.prems(1), of l p]
      Cons.IH [of b1] Cons.prems a Release
    show ?thesis by simp
  qed
qed simp

text \<open>Every live block but one has a pair of its own.\<close>

lemma live_pairs: "finite (live k n) \<and> card (live k n) \<le> Suc (node_pairs n)"
proof (induction k n rule: live.induct)
  case (1 m a cs)
  then show ?case by simp
next
  case (2 j m a)
  then show ?case by simp
next
  case (3 j m a l r)
  show ?case
  proof (cases "a = 0")
    case True
    have "card (live j l \<union> up2 j (live j r)) \<le> card (live j l) + card (up2 j (live j r))"
      by (rule card_Un_le)
    moreover have "card (up2 j (live j r)) \<le> card (live j r)"
      using 3 True by (simp add: card_image_le)
    ultimately show ?thesis using 3 True by auto
  qed simp
qed

lemma buddy_live_pairs: "card (buddy_live b) \<le> Suc (heap_pairs b)"
  using live_pairs [of "buddy_level b" "buddy_root b"] card_image_le order_trans
  unfolding buddy_live_def by blast

subsection \<open>Properties\<close>

text \<open>
  C1: the kernel heap serves every legal use exactly as long as its tree fits the early heap.
  Take the heap that \<open>initialize_heap\<close> builds over one range of memory with separate reserved
  ranges inside it, its nodes in an early heap from \<open>ef\<close> to \<open>eu\<close>, and any sequence of allocations
  and of deallocations of held memory.  On the tree the sequence runs through: the live blocks
  of its result do not overlap, none of them is still available, and available and live blocks
  together are exactly the memory that is not reserved (nothing leaks and nothing reserved is
  ever handed out).  The kernel itself does the same run, with that result, exactly when the
  48 bytes of every pair of nodes of the resulting tree fit the early heap, and aborts
  otherwise.  Every allocation adds at most one pair for each level of the tree, pairs are never
  given back, and there are at least as many as live blocks but one, so the two megabytes of the
  linker script bound the live allocations of the kernel by 43691 however much memory it has.
\<close>

theorem kernel_heap_session:
  assumes "s \<le> e" "e < usize_end" "e - s \<le> 2 ^ 63" "separate rs" "ranges rs \<subseteq> {s..<e}"
    and "8 dvd ef" "ef \<le> eu" "eu < usize_end"
    and "initialize_kernel_heap ef eu [(s, e)] rs = Some (b, early)" and "buddy_fa.legal b ops"
  shows "\<exists>b'. buddy_fa.serve b ops = Some b' \<and> disjoint_family_on block (buddy_live b') \<and>
    buddy_free b' \<inter> \<Union>(block ` buddy_live b') = {} \<and>
    buddy_free b' \<union> \<Union>(block ` buddy_live b') = {s..<e} - ranges rs \<and>
    kernel_serve (b, early) ops =
      (if ef + 48 * heap_pairs b' \<le> eu then Some (b', early_with ef eu (heap_pairs b')) else None) \<and>
    heap_pairs b' \<le> heap_pairs b + buddy_level b * length ops \<and>
    card (buddy_live b') \<le> Suc (heap_pairs b')"
proof -
  have b: "initialize_heap [(s, e)] rs = Some b" "with_boxes ef eu b = Some (b, early)"
    using assms(9) initialize_kernel_heap_boxes [OF assms(6-8), of "[(s, e)]" rs]
    by (auto simp: run_Some with_boxes_def split: if_splits)
  have tidy: "buddy_fa.tidy b" and owned: "buddy_fa.owned b = {s..<e} - ranges rs"
    using initialize_heap_ok [OF assms(1-5)] b(1)
    by (auto simp: buddy_fa.tidy_def buddy_fa.owned_def disjoint_family_on_def)
  obtain b' where b': "buddy_fa.serve b ops = Some b'" "buddy_fa.tidy b'" "buddy_fa.owned b' = {s..<e} - ranges rs"
    using buddy_fa.serve_legal [OF tidy assms(10)] owned by auto
  have "kernel_serve (b, early) ops = with_boxes ef eu b'"
    using kernel_serve_boxes [OF assms(6,8), of b ops] b(2) b'(1) by simp
  with b' serve_pairs_bound [OF tidy assms(10) b'(1)] buddy_live_pairs [of b'] show ?thesis
    by (auto simp: buddy_fa.tidy_def buddy_fa.owned_def with_boxes_def)
qed

text \<open>
  The heap of sixteen bytes of \<^const>\<open>small_heap\<close> has two pairs, which take the 96 bytes of an
  early heap.  A request for three bytes and its release need no new pair; one for a single byte
  splits the free half three times and aborts, although all of its eight bytes are free.
\<close>

lemma small_kernel_heap:
  "initialize_kernel_heap 8 104 [(64, 80)] [(64, 68)] = Some (small_heap, early_with 8 104 2)"
  by code_simp

theorem kernel_heap_session_witness:
  "\<exists>b'. buddy_fa.serve small_heap
      [Request \<lparr>lay_size = 3, lay_align = 1\<rparr>, Release 68 \<lparr>lay_size = 3, lay_align = 1\<rparr>] = Some b' \<and>
    kernel_serve (small_heap, early_with 8 104 2)
      [Request \<lparr>lay_size = 3, lay_align = 1\<rparr>, Release 68 \<lparr>lay_size = 3, lay_align = 1\<rparr>] =
      (if 8 + 48 * heap_pairs b' \<le> 104 then Some (b', early_with 8 104 (heap_pairs b')) else None) \<and>
    buddy_free b' \<union> \<Union>(block ` buddy_live b') = {64..<80} - ranges [(64, 68)]"
proof -
  have "buddy_fa.legal small_heap
      [Request \<lparr>lay_size = 3, lay_align = 1\<rparr>, Release 68 \<lparr>lay_size = 3, lay_align = 1\<rparr>]"
    using small_live small_alloc_1 small_layout by (simp_all add: small_dealloc_1 [simplified] request_def)
  from kernel_heap_session [OF _ _ _ _ _ _ _ _ small_kernel_heap this] show ?thesis by auto
qed

lemma small_heap_aborts:
  "kernel_serve (small_heap, early_with 8 104 2) [Request \<lparr>lay_size = 1, lay_align = 1\<rparr>] = None"
  by code_simp

lemma small_heap_free: "buddy_free small_heap = {68..<80}"
  using initialize_heap_ok [of 64 80 "[(64, 68)]"] small_heap_eq by auto

end
