(* ===== verification/Page_Hardware.thy ===== *)
theory Page_Hardware
  imports Page_Table_Correct
begin

text \<open>
  Page tables in memory, and what the processor makes of them.  The walk of the processor is
  written down here from the RISC-V privileged architecture (the scheme Sv39), over the raw
  doublewords of physical memory and without any definition of the kernel; a tree of
  \<^const>\<open>PAGE_SIZE\<close> tables is related to memory by what the constructors of
  \<open>kernel/src/page/entry.rs\<close> write there.
\<close>

subsection \<open>The walk of the processor\<close>

text \<open>
  The virtual page number has three fields of nine bits, from bits 30, 21 and 12 on.  An entry is
  looked at in the order the architecture prescribes: bit 0 (valid), bits 1 to 3 (read, write,
  execute; writable without readable is reserved), the reserved bits from 54 on; an entry without
  read and execute permission points to the next table, where bits 4, 6 and 7 are reserved.  The
  page number of the leaf of a larger page must be aligned to it.  The result is the lowest byte
  of the leaf, the permissions, and the physical address; bits 6 and 7 of a leaf (accessed, dirty)
  are taken to be kept by the processor.
\<close>

definition sv39_vpn :: "nat \<Rightarrow> u64 \<Rightarrow> u64" where
  "sv39_vpn level v = take_bit 9 (drop_bit ([12, 21, 30] ! level) v)"

definition sv39_ppn :: "u64 \<Rightarrow> u64" where
  "sv39_ppn pte = take_bit 44 (drop_bit 10 pte)"

definition sv39_leaf :: "nat \<Rightarrow> u64 \<Rightarrow> u64 \<Rightarrow> (u64 \<times> u64) option" where
  "sv39_leaf level pte v =
     (if take_bit ([0, 9, 18] ! level) (sv39_ppn pte) \<noteq> 0 then None
      else Some (take_bit 8 pte, push_bit 12 (sv39_ppn pte) + take_bit ([12, 21, 30] ! level) v))"

primrec sv39_walk :: "nat \<Rightarrow> (u64 \<Rightarrow> u64) \<Rightarrow> u64 \<Rightarrow> u64 \<Rightarrow> (u64 \<times> u64) option" where
  "sv39_walk 0 = (\<lambda>mem a v.
     let pte = mem (a + 8 * sv39_vpn 0 v) in
     if \<not> bit pte 0 \<or> (\<not> bit pte 1 \<and> bit pte 2) \<or> drop_bit 54 pte \<noteq> 0 then None
     else if bit pte 1 \<or> bit pte 3 then sv39_leaf 0 pte v
     else None)"
| "sv39_walk (Suc level) = (\<lambda>mem a v.
     let pte = mem (a + 8 * sv39_vpn (Suc level) v) in
     if \<not> bit pte 0 \<or> (\<not> bit pte 1 \<and> bit pte 2) \<or> drop_bit 54 pte \<noteq> 0 then None
     else if bit pte 1 \<or> bit pte 3 then sv39_leaf (Suc level) pte v
     else if bit pte 4 \<or> bit pte 6 \<or> bit pte 7 then None
     else sv39_walk level mem (push_bit 12 (sv39_ppn pte)) v)"

text \<open>Bits 63 to 39 of a virtual address must be copies of bit 38.\<close>

definition canonical :: "u64 \<Rightarrow> bool" where
  "canonical v \<longleftrightarrow> (\<forall>n \<in> {39..<64}. bit v n = bit v 38)"

definition sv39 :: "(u64 \<Rightarrow> u64) \<Rightarrow> u64 \<Rightarrow> u64 \<Rightarrow> (u64 \<times> u64) option" where
  "sv39 mem root v = (if canonical v then sv39_walk 2 mem root v else None)"

subsection \<open>Tables in memory\<close>

text \<open>
  \<open>stored l mem a t\<close>: at the physical address \<open>a\<close> the memory holds the table \<open>t\<close> of level \<open>l\<close> as
  the kernel writes it, with leaves to physical memory and the kernel's flags, and pointers from
  the direct mapping to the tables of its indirect entries.
\<close>

definition stored_entry ::
  "(usize \<Rightarrow> page_table \<Rightarrow> bool) \<Rightarrow> u64 \<Rightarrow> pt_entry \<Rightarrow> bool" where
  "stored_entry below w e = (case e of
     Invalid \<Rightarrow> w = pte_bits pte_invalid
   | Leaf f p \<Rightarrow> f \<in> kernel_flags \<and> p < snd PHYSICAL_ADDRESSES \<and> w = pte_bits (pte_leaf p f)
   | Indirect t \<Rightarrow> \<exists>a v. phys_to_virt a = Some v \<and> PAGE_SIZE dvd a \<and>
       map_option pte_bits (pte_indirect v) = Some w \<and> below a t)"

primrec stored :: "nat \<Rightarrow> (u64 \<Rightarrow> u64) \<Rightarrow> usize \<Rightarrow> page_table \<Rightarrow> bool" where
  "stored 0 = (\<lambda>mem a t. \<forall>i < 512.
     stored_entry (\<lambda>_ _. False) (mem (word_of_nat (a + 8 * i))) (t ! i))"
| "stored (Suc l) = (\<lambda>mem a t. \<forall>i < 512.
     stored_entry (stored l mem) (mem (word_of_nat (a + 8 * i))) (t ! i))"

subsection \<open>The fields of addresses and entries\<close>

lemma level_bits: "l \<le> 2 \<Longrightarrow> [12, 21, 30] ! l = 12 + 9 * l \<and> [0, 9, 18] ! l = (9 * l :: nat)"
  by (auto simp: le_Suc_eq numeral_2_eq_2)

lemma sv39_vpn_segment:
  assumes "l \<le> 2"
  shows "unat (sv39_vpn l v) = vpn_segment (unat v) l"
proof -
  have "push_bit 9 1 - 1 = (mask 9 :: nat)" by (simp add: mask_eq_exp_minus_1)
  then have seg: "vpn_segment (unat v) l = take_bit 9 (drop_bit (12 + 9 * l) (unat v))"
    by (simp only: vpn_segment_def take_bit_eq_mask)
  have "take_bit LENGTH(64) (unat v) = unat v"
    using unsigned_less [of v] by (intro take_bit_nat_eq_self) simp
  then show ?thesis
    using level_bits [OF assms] by (simp only: sv39_vpn_def seg unsigned_take_bit_eq unsigned_drop_bit_eq)
qed

lemma offset_bits:
  assumes "l \<le> 2"
  shows "take_bit ([12, 21, 30] ! l) (v :: u64) = word_of_nat (unat v mod psize l)"
proof -
  have "unat (take_bit (12 + 9 * l) v) = take_bit (12 + 9 * l) (unat v)"
    by (rule unsigned_take_bit_eq)
  then have "unat (take_bit (12 + 9 * l) v) = unat v mod psize l"
    by (simp only: psize_pow take_bit_eq_mod)
  then have "word_of_nat (unat v mod psize l) = take_bit (12 + 9 * l) v"
    by (metis of_nat_unat ucast_id)
  with level_bits [OF assms] show ?thesis by simp
qed

lemma page_base:
  assumes "4096 dvd p"
  shows "push_bit 12 (word_of_nat (p div 4096) :: u64) = word_of_nat p"
proof -
  have "push_bit 12 (word_of_nat (p div 4096) :: u64) = word_of_nat (p div 4096 * 4096)"
    by (simp only: push_bit_eq_mult of_nat_mult) simp
  with assms show ?thesis by (simp only: dvd_div_mult_self)
qed

lemma page_fields:
  fixes c :: u64
  assumes "p < 274877906944" "take_bit 10 c = c"
  defines "w \<equiv> push_bit 10 (word_of_nat (p div 4096)) OR c"
  shows "n < 10 \<Longrightarrow> bit w n = bit c n" "drop_bit 54 w = 0" "take_bit 8 w = take_bit 8 c"
    "sv39_ppn w = word_of_nat (p div 4096)"
proof -
  let ?q = "word_of_nat (p div 4096) :: u64"
  have q: "unat ?q = p div 4096" by (rule page_word [OF assms(1)])
  have small: "unat ?q < 2 ^ 26" using q assms(1) by (simp add: less_mult_imp_div_less)
  have take: "take_bit 44 ?q = ?q"
    unfolding word_unat_eq_iff unsigned_take_bit_eq using small by (intro take_bit_nat_eq_self) simp
  have high: "drop_bit 10 w = ?q" unfolding w_def using small by (intro high_bits [OF assms(2)]) simp
  show "bit w n = bit c n" if "n < 10" using that by (simp add: w_def bit_simps)
  show "sv39_ppn w = ?q" using take high by (simp add: sv39_ppn_def)
  have "drop_bit 54 w = drop_bit 44 (drop_bit 10 w)" by (simp add: drop_bit_drop_bit)
  also have "\<dots> = drop_bit 44 (take_bit 44 ?q)" by (simp only: high take)
  also have "\<dots> = 0" by (rule bit_word_eqI) (auto simp: bit_simps)
  finally show "drop_bit 54 w = 0" .
  show "take_bit 8 w = take_bit 8 c"
    by (rule bit_word_eqI) (auto simp: w_def bit_simps)
qed

lemma kernel_leaf_bits:
  assumes "p < 274877906944" "f \<in> kernel_flags"
  shows "bit (pte_bits (pte_leaf p f)) 0" "bit (pte_bits (pte_leaf p f)) 1"
    "drop_bit 54 (pte_bits (pte_leaf p f)) = 0" "take_bit 8 (pte_bits (pte_leaf p f)) = flag_bits f OR PAGE_V"
    "sv39_ppn (pte_bits (pte_leaf p f)) = word_of_nat (p div 4096)"
proof -
  define c where "c = (1 :: u64) OR flag_bits f"
  have cs: "c \<in> {3, 7, 11, 15, 19, 23, 27, 31}"
    using kernel_flags_cases [OF assms(2)] by (auto simp: c_def)
  have e: "pte_bits (pte_leaf p f) = push_bit 10 (word_of_nat (p div 4096)) OR c"
    by (simp add: pte_leaf_def c_def or.assoc)
  have c10: "take_bit 10 c = c" "take_bit 8 c = c" using cs by (auto simp: take_bit_eq_mask mask_eq_exp_minus_1)
  have "bit c 0" "bit c 1" using cs by (auto simp: bit_iff_odd)
  with page_fields [OF assms(1) c10(1)] c10(2)
  show "bit (pte_bits (pte_leaf p f)) 0" "bit (pte_bits (pte_leaf p f)) 1"
    "drop_bit 54 (pte_bits (pte_leaf p f)) = 0" "take_bit 8 (pte_bits (pte_leaf p f)) = flag_bits f OR PAGE_V"
    "sv39_ppn (pte_bits (pte_leaf p f)) = word_of_nat (p div 4096)"
    by (simp_all add: e) (simp add: c_def or.commute)
qed

lemma kernel_indirect_bits:
  assumes "phys_to_virt a = Some v" "PAGE_SIZE dvd a" "map_option pte_bits (pte_indirect v) = Some w"
  shows "bit w 0" "0 < n \<Longrightarrow> n < 10 \<Longrightarrow> \<not> bit w n" "drop_bit 54 w = 0"
    "push_bit 12 (sv39_ppn w) = word_of_nat a" "a < 274877906944"
proof -
  show a: "a < 274877906944" using assms(1) by (auto simp: phys_to_virt_eq split: if_splits)
  with assms(1,3) have w: "w = push_bit 10 (word_of_nat (a div 4096)) OR 1"
    by (auto simp: phys_to_virt_eq pte_indirect_def virt_to_phys_upper)
  have one: "take_bit 10 (1 :: u64) = 1" by (simp add: take_bit_eq_mask mask_eq_exp_minus_1)
  note fields = page_fields [OF a one, folded w]
  show "bit w 0" "0 < n \<Longrightarrow> n < 10 \<Longrightarrow> \<not> bit w n" "drop_bit 54 w = 0"
    using fields by (simp_all add: bit_1_iff)
  show "push_bit 12 (sv39_ppn w) = word_of_nat a" using fields(4) page_base assms(2) by simp
qed

subsection \<open>The walk finds what the tree says\<close>

definition seen :: "page_flags \<times> usize \<Rightarrow> u64 \<times> u64" where
  "seen fp = (flag_bits (fst fp) OR PAGE_V, word_of_nat (snd fp))"

lemma sv39_leaf_seen:
  assumes "l \<le> 2" "psize l dvd p" "p < 274877906944" "f \<in> kernel_flags"
  shows "sv39_leaf l (pte_bits (pte_leaf p f)) v = Some (seen (f, p + unat v mod psize l))"
proof -
  let ?q = "word_of_nat (p div 4096) :: u64"
  have p: "4096 dvd p" using assms(2) psize_dvd dvd_trans by blast
  have "p div 4096 = p div psize l * 2 ^ (9 * l)"
  proof -
    have "psize l = 4096 * 2 ^ (9 * l)" by (simp add: psize_pow power_add)
    with assms(2) show ?thesis by (auto elim!: dvdE)
  qed
  then have "take_bit (9 * l) ?q = 0"
    unfolding word_unat_eq_iff unsigned_take_bit_eq page_word [OF assms(3)]
    by (simp add: take_bit_eq_mod)
  then have "sv39_leaf l (pte_bits (pte_leaf p f)) v =
      Some (flag_bits f OR PAGE_V, word_of_nat p + word_of_nat (unat v mod psize l))"
    using kernel_leaf_bits [OF assms(3,4)] level_bits [OF assms(1)] offset_bits [OF assms(1), of v] page_base [OF p]
    by (simp add: sv39_leaf_def)
  then show ?thesis by (simp add: seen_def)
qed

text \<open>One entry, and then all of the table below it.\<close>

lemma sv39_entry:
  assumes "l \<le> 2" "wf_entry l e" "stored_entry below w e"
    and "\<And>a t k. l = Suc k \<Longrightarrow> wf_table k t \<Longrightarrow> below a t \<Longrightarrow> PAGE_SIZE dvd a \<Longrightarrow> a < 274877906944 \<Longrightarrow>
      next k (word_of_nat a) = map_option seen (translate k t (unat v))"
  shows "(if \<not> bit w 0 \<or> (\<not> bit w 1 \<and> bit w 2) \<or> drop_bit 54 w \<noteq> 0 then None
     else if bit w 1 \<or> bit w 3 then sv39_leaf l w v
     else case l of 0 \<Rightarrow> None
     | Suc k \<Rightarrow> if bit w 4 \<or> bit w 6 \<or> bit w 7 then None else next k (push_bit 12 (sv39_ppn w))) =
    map_option seen (etr l e (unat v))"
proof (cases e)
  case Invalid
  with assms(3) show ?thesis by (simp add: stored_entry_def pte_invalid_def)
next
  case (Leaf f p)
  with assms(3) have "f \<in> kernel_flags" "p < 274877906944" "w = pte_bits (pte_leaf p f)"
    by (simp_all add: stored_entry_def)
  with Leaf assms(1,2) kernel_leaf_bits [of p f] sv39_leaf_seen [of l p f v] show ?thesis by simp
next
  case (Indirect t)
  with assms(2) obtain k where k: "l = Suc k" "wf_table k t" by (cases l) auto
  obtain a v' where a: "phys_to_virt a = Some v'" "PAGE_SIZE dvd a" "map_option pte_bits (pte_indirect v') = Some w"
    "below a t" using assms(3) Indirect by (auto simp: stored_entry_def)
  note bits = kernel_indirect_bits [OF a(1-3)]
  from assms(4) [OF k a(4,2) bits(5)] bits Indirect k show ?thesis by simp
qed

lemma entry_address:
  assumes "l \<le> 2"
  shows "word_of_nat a + 8 * sv39_vpn l v = word_of_nat (a + 8 * vpn_segment (unat v) l)"
proof -
  have "word_of_nat (vpn_segment (unat v) l) = sv39_vpn l v"
    unfolding sv39_vpn_segment [OF assms, symmetric] by (simp add: of_nat_unat)
  then show ?thesis by simp
qed

lemma sv39_walk_translate:
  "l \<le> 2 \<Longrightarrow> wf_table l t \<Longrightarrow> stored l mem a t \<Longrightarrow>
   sv39_walk l mem (word_of_nat a) v = map_option seen (translate l t (unat v))"
proof (induction l arbitrary: t a)
  case 0
  let ?i = "vpn_segment (unat v) 0"
  define w where "w = mem (word_of_nat (a + 8 * ?i))"
  have "stored_entry (\<lambda>_ _. False) w (t ! ?i)" using "0.prems" by (simp add: w_def)
  moreover have "wf_entry 0 (t ! ?i)" using "0.prems" by (simp add: wf_table_entries del: wf_table.simps)
  ultimately have "(if \<not> bit w 0 \<or> (\<not> bit w 1 \<and> bit w 2) \<or> drop_bit 54 w \<noteq> 0 then None
      else if bit w 1 \<or> bit w 3 then sv39_leaf 0 w v else None) = map_option seen (etr 0 (t ! ?i) (unat v))"
    using sv39_entry [of 0 "t ! ?i" "\<lambda>_ _. False" w "\<lambda>_ _. None" v, unfolded nat.case] by simp
  then show ?case
    unfolding sv39_walk.simps Let_def entry_address [OF le0] translate_etr w_def .
next
  case (Suc l)
  let ?i = "vpn_segment (unat v) (Suc l)"
  define w where "w = mem (word_of_nat (a + 8 * ?i))"
  have "stored_entry (stored l mem) w (t ! ?i)" using Suc.prems by (simp add: w_def)
  moreover have "wf_entry (Suc l) (t ! ?i)" using Suc.prems by (simp add: wf_table_entries del: wf_table.simps)
  moreover have "sv39_walk l mem (word_of_nat b) v = map_option seen (translate l u (unat v))"
    if "wf_table l u" "stored l mem b u" for b u
    using Suc.IH [OF _ that] Suc.prems(1) by simp
  ultimately have "(if \<not> bit w 0 \<or> (\<not> bit w 1 \<and> bit w 2) \<or> drop_bit 54 w \<noteq> 0 then None
      else if bit w 1 \<or> bit w 3 then sv39_leaf (Suc l) w v
      else if bit w 4 \<or> bit w 6 \<or> bit w 7 then None
      else sv39_walk l mem (push_bit 12 (sv39_ppn w)) v) = map_option seen (etr (Suc l) (t ! ?i) (unat v))"
    using sv39_entry [of "Suc l" "t ! ?i" "stored l mem" w "\<lambda>k b. sv39_walk k mem b v" v, unfolded nat.case] Suc.prems(1)
    by simp
  then show ?case
    unfolding sv39_walk.simps Let_def entry_address [OF Suc.prems(1)] translate_etr w_def .
qed

text \<open>Of an address with wrong upper bits the kernel looks at the one with the right ones.\<close>

definition canonise :: "u64 \<Rightarrow> u64" where
  "canonise v = signed_take_bit 38 v"

lemma canonise_bits:
  "canonical (canonise v)" "canonical v \<Longrightarrow> canonise v = v" "take_bit 39 (canonise v) = take_bit 39 v"
proof -
  have bits: "bit (canonise v) n \<longleftrightarrow> n < 64 \<and> bit v (min 38 n)" for n
    by (auto simp: canonise_def bit_signed_take_bit_iff)
  then show "canonical (canonise v)" by (simp add: canonical_def)
  show "take_bit 39 (canonise v) = take_bit 39 v"
    by (rule bit_word_eqI) (auto simp: bits bit_take_bit_iff min_absorb2)
  assume c: "canonical v"
  show "canonise v = v"
  proof (rule bit_word_eqI)
    fix n :: nat
    assume "n < LENGTH(64)"
    with c show "bit (canonise v) n = bit v n"
      by (cases "n < 39") (auto simp: bits canonical_def min_absorb1 min_absorb2)
  qed
qed

lemma vpn_canonise:
  assumes "l \<le> 2"
  shows "vpn_segment (unat (canonise v)) l = vpn_segment (unat v) l"
proof -
  have "bit (canonise v) n = bit v n" if "n < 39" for n
    using canonise_bits(3) [of v] that by (metis bit_take_bit_iff)
  then have "sv39_vpn l (canonise v) = sv39_vpn l v"
    using level_bits [OF assms] assms
    by (intro bit_word_eqI) (auto simp: sv39_vpn_def bit_simps)
  then show ?thesis using sv39_vpn_segment [OF assms] by metis
qed

lemma is_mapped_canonise:
  "l \<le> 2 \<Longrightarrow> is_mapped_impl l t (unat (canonise v)) = is_mapped_impl l t (unat v)"
  by (induction l arbitrary: t)
    (auto simp: vpn_canonise Let_def intro!: Option.bind_cong split: pt_entry.splits)

subsection \<open>Properties\<close>

text \<open>
  C5: \<open>PageTable::is_mapped\<close> answers what the processor would find, on every well-formed table
  that is stored in memory as the kernel writes it, and never panics.  For a canonical address
  it says that the address is mapped exactly when the walk of the processor over the memory ends
  in a leaf, and the permissions and the physical address of that leaf are those that the tree
  gives.  At an address with wrong upper bits, which the processor never translates, it answers
  for the address with the right ones.
\<close>

theorem page_table_is_mapped:
  assumes "wf_table 2 t" "stored 2 mem root t"
  shows "if canonical v
    then is_mapped t (unat v) = Some (sv39 mem (word_of_nat root) v \<noteq> None) \<and>
      sv39 mem (word_of_nat root) v =
        map_option (\<lambda>(f, p). (flag_bits f OR PAGE_V, word_of_nat p)) (translate 2 t (unat v))
    else sv39 mem (word_of_nat root) v = None \<and> is_mapped t (unat v) = is_mapped t (unat (canonise v))"
proof (cases "canonical v")
  case True
  have "sv39 mem (word_of_nat root) v = map_option seen (translate 2 t (unat v))"
    using sv39_walk_translate [OF _ assms] True by (simp add: sv39_def)
  moreover have "is_mapped t (unat v) = Some (translate 2 t (unat v) \<noteq> None)"
    using is_mapped_impl_translate [OF assms(1)] by (simp add: is_mapped_def)
  ultimately show ?thesis using True by (simp add: seen_def [abs_def] case_prod_unfold)
next
  case False
  then show ?thesis using is_mapped_canonise [of 2 t v] by (simp add: sv39_def is_mapped_def)
qed

text \<open>
  A table at 4096 whose first entry points to a table at 8192, which maps two megabytes for the
  user.  An address in them is mapped; with its upper bits wrong it is not, but the kernel says so.
\<close>

definition small_table :: page_table where
  "small_table = table_new[0 := Indirect (table_new[1 := Leaf (flags_user flags_read_write) 0x80200000])]"

definition small_table_memory :: "u64 \<Rightarrow> u64" where
  "small_table_memory x = (if unat x = 4096 then pte_bits (PageTableEntry 0x801)
     else if unat x = 8200 then pte_bits (pte_leaf 0x80200000 (flags_user flags_read_write)) else 0)"

lemma small_table_wf: "wf_table 2 small_table"
proof -
  let ?t = "table_new[1 := Leaf (flags_user flags_read_write) 0x80200000]"
  have len: "length table_new = 512" by (simp add: table_new_def)
  have "\<not> is_completely_unmapped ?t"
    by (auto simp: unmapped_entries len intro!: exI [of _ 1])
  moreover have "wf_table 1 ?t"
    by (auto simp: wf_table_entries nth_list_update table_new_def psize_pow simp del: wf_table.simps)
  ultimately show ?thesis
    unfolding small_table_def numeral_2_eq_2 wf_table_entries [of "Suc (Suc 0)"]
    by (auto simp: nth_list_update table_new_def simp del: wf_table.simps)
qed

lemma small_table_stored: "stored 2 small_table_memory 4096 small_table"
proof -
  have mem: "small_table_memory (word_of_nat a) = (if a = 4096 then 0x801
      else if a = 8200 then pte_bits (pte_leaf 0x80200000 (flags_user flags_read_write)) else 0)"
    if "a < 16384" for a
    using that by (simp add: small_table_memory_def unat_of_nat)
  let ?t = "table_new[1 := Leaf (flags_user flags_read_write) 0x80200000]"
  have low: "stored 1 small_table_memory 8192 ?t"
    by (auto simp: mem stored_entry_def nth_list_update table_new_def kernel_flags_def pte_invalid_def
      simp del: of_nat_add of_nat_mult)
  have "phys_to_virt 8192 = Some (8192 + upper_half)" by (simp add: phys_to_virt_eq)
  moreover have "map_option pte_bits (pte_indirect (8192 + upper_half)) = Some 0x801"
    by (simp add: pte_indirect_def virt_to_phys_upper)
  moreover have "PAGE_SIZE dvd 8192" by simp
  ultimately have root: "stored_entry (stored 1 small_table_memory) 0x801 (Indirect ?t)"
    unfolding stored_entry_def pt_entry.case using low by blast
  have "stored_entry (stored 1 small_table_memory) (small_table_memory (word_of_nat (4096 + 8 * i))) (small_table ! i)"
    if "i < 512" for i
  proof (cases "i = 0")
    case True
    have "small_table_memory 4096 = 0x801" by (simp add: small_table_memory_def)
    with root True show ?thesis by (simp add: small_table_def table_new_def del: stored.simps)
  next
    case False
    then have "small_table ! i = Invalid" using that by (simp add: small_table_def table_new_def)
    moreover have "small_table_memory (word_of_nat (4096 + 8 * i)) = 0"
      using that False by (simp add: mem del: of_nat_add of_nat_mult)
    ultimately show ?thesis by (simp add: stored_entry_def pte_invalid_def)
  qed
  then show ?thesis by (simp add: numeral_2_eq_2 del: stored.simps(1))
qed

lemma small_table_walk: "translate 2 small_table 0x200123 = Some (flags_user flags_read_write, 0x80200123)"
proof -
  have seg: "vpn_segment 0x200123 2 = 0" "vpn_segment 0x200123 1 = 1" "psize 1 = 0x200000"
    by (code_simp, code_simp, simp add: psize_pow)
  have "small_table ! 0 = Indirect (table_new[1 := Leaf (flags_user flags_read_write) 0x80200000])"
    "table_new[1 := Leaf (flags_user flags_read_write) 0x80200000] ! 1 = Leaf (flags_user flags_read_write) 0x80200000"
    by (simp_all add: small_table_def table_new_def)
  then have "translate 2 small_table 0x200123 =
      translate 1 (table_new[1 := Leaf (flags_user flags_read_write) 0x80200000]) 0x200123"
    unfolding translate_etr [of 2] seg using etr_simps(3) [of 1] by (simp add: numeral_2_eq_2 del: translate.simps)
  also have "\<dots> = Some (flags_user flags_read_write, 0x80200123)"
    unfolding translate_etr [of 1] seg by (simp add: table_new_def psize_pow)
  finally show ?thesis .
qed

lemma lower_half_canonical:
  assumes "unat v < 2 ^ 38"
  shows "canonical v"
proof -
  have "\<not> bit v n" if "38 \<le> n" for n
  proof -
    have "(2::nat) ^ 38 \<le> 2 ^ n" using that by (intro power_increasing) simp_all
    with assms have "unat v div 2 ^ n = 0" by simp
    then have "\<not> bit (unat v) n" by (simp add: bit_iff_odd)
    then show ?thesis by (simp add: bit_unsigned_iff)
  qed
  then show ?thesis by (auto simp: canonical_def)
qed

lemma canonise_eq:
  assumes "canonical w" "take_bit 39 v = take_bit 39 w"
  shows "canonise v = w"
proof -
  have "take_bit 39 (canonise v) = take_bit 39 (canonise w)" using assms(2) canonise_bits(3) by metis
  then have low: "bit (canonise v) n = bit (canonise w) n" if "n < 39" for n
    using that by (metis bit_take_bit_iff)
  have "bit (canonise v) n = bit (canonise w) n" if "n < 64" for n
    using low [of n] low [of 38] canonise_bits(1) [of v] canonise_bits(1) [of w] that
    by (cases "n < 39") (auto simp: canonical_def)
  then have "canonise v = canonise w" by (intro bit_word_eqI) simp
  then show ?thesis using canonise_bits(2) [OF assms(1)] by simp
qed

lemma small_table_canonical: "canonical 0x200123" "canonise 0x8000200123 = 0x200123" "\<not> canonical 0x8000200123"
proof -
  show c: "canonical 0x200123" by (rule lower_half_canonical) simp
  show e: "canonise 0x8000200123 = 0x200123"
    by (rule canonise_eq [OF c]) (simp add: take_bit_eq_mask mask_eq_exp_minus_1)
  show "\<not> canonical 0x8000200123" using canonise_bits(2) [of "0x8000200123"] e by auto
qed

theorem page_table_is_mapped_witness:
  "is_mapped small_table 0x200123 = Some True \<and>
   sv39 small_table_memory 0x1000 0x200123 = Some (0x17, 0x80200123) \<and>
   is_mapped small_table 0x8000200123 = Some True \<and> sv39 small_table_memory 0x1000 0x8000200123 = None"
  using page_table_is_mapped [OF small_table_wf small_table_stored, where v = "0x200123"]
    page_table_is_mapped [OF small_table_wf small_table_stored, where v = "0x8000200123"]
  by (simp add: small_table_walk small_table_canonical flags_user_def flags_read_write_def)

end
