(* ===== verification/Pci.thy ===== *)
theory Pci
  imports Heap Memory_Layout Sync Bytes
begin

text \<open>
  The PCI bus (\<open>kernel/src/pci.rs\<close>, \<open>pci/config.rs\<close>, \<open>pci/capability.rs\<close>): the windows and
  interrupts that the device tree describes, the allocation of base address registers, and the scan
  that initialises the devices; and how a virtio device is found in its capabilities (\<open>virtio.rs\<close>).

  The device tree (crate \<open>fdt\<close>), the registers of a device and the initialisation of each driver are
  parameters.  A base address register is what it reads now and what it reads after a write.
\<close>

subsection \<open>The device tree\<close>

record fdt_node =
  fn_address_cells :: nat
  fn_size_cells :: nat
  fn_interrupt_cells :: "nat option"
  fn_property :: "string \<Rightarrow> u8 list option"

definition be_nat :: "u8 list \<Rightarrow> nat" where
  "be_nat bs = foldl (\<lambda>n b. 256 * n + unat b) 0 bs"

text \<open>The whole chunks of a slice, \<open>as_chunks\<close>, without the rest.\<close>

function chunks_exact :: "nat \<Rightarrow> 'a list \<Rightarrow> 'a list list" where
  "chunks_exact n xs =
     (if n = 0 \<or> length xs < n then [] else take n xs # chunks_exact n (drop n xs))"
  by pat_completeness auto
termination by (relation "measure (\<lambda>(_, xs). length xs)") auto

declare chunks_exact.simps [simp del]

record pci_range =
  pr_soc_base :: usize
  pr_pci_base :: usize
  pr_length :: usize

record pci_ranges =
  pr_io :: pci_range
  pr_mem32 :: pci_range
  pr_mem64 :: pci_range

definition cells_to_usize :: "u8 list list \<Rightarrow> usize run" where
  "cells_to_usize cells = do {
     ensure (length cells = 2);
     Some (be_nat (cells ! 0) * 2 ^ 32 + be_nat (cells ! 1)) }"

text \<open>One turn of the loop over the triplets of the \<open>ranges\<close> property.\<close>

type_synonym range_slots = "pci_range option \<times> pci_range option \<times> pci_range option"

definition add_range :: "nat \<Rightarrow> nat \<Rightarrow> u8 list list \<Rightarrow> range_slots \<Rightarrow> range_slots run" where
  "add_range pci_cells soc_cells triplet slots = do {
     let child = take pci_cells triplet;
     let rest = drop pci_cells triplet;
     let parent = take soc_cells rest;
     pci_base \<leftarrow> cells_to_usize (tl child);
     soc_base \<leftarrow> cells_to_usize parent;
     len \<leftarrow> cells_to_usize (drop soc_cells rest);
     let range = \<lparr>pr_soc_base = soc_base, pr_pci_base = pci_base, pr_length = len\<rparr>;
     (case slots of (io, mem32, mem64) \<Rightarrow>
        if hd child = [1, 0, 0, 0] then do { ensure (io = None); Some (Some range, mem32, mem64) }
        else if hd child = [2, 0, 0, 0] then do { ensure (mem32 = None); Some (io, Some range, mem64) }
        else if hd child = [3, 0, 0, 0] then do { ensure (mem64 = None); Some (io, mem32, Some range) }
        else Some slots) }"

fun add_ranges :: "nat \<Rightarrow> nat \<Rightarrow> u8 list list list \<Rightarrow> range_slots \<Rightarrow> range_slots run" where
  "add_ranges pci_cells soc_cells [] slots = Some slots"
| "add_ranges pci_cells soc_cells (triplet # triplets) slots = do {
     slots \<leftarrow> add_range pci_cells soc_cells triplet slots;
     add_ranges pci_cells soc_cells triplets slots }"

definition find_pci_ranges :: "fdt_node \<Rightarrow> fdt_node \<Rightarrow> pci_ranges run" where
  "find_pci_ranges soc pci = do {
     ensure (fn_address_cells pci = 3);
     ensure (fn_address_cells soc = 2);
     ensure (fn_size_cells pci = 2);
     bytes \<leftarrow> fn_property pci ''ranges'';
     ensure (length bytes mod 4 = 0);
     let cells = chunks_exact 4 bytes;
     let triplet_cells = fn_address_cells pci + fn_address_cells soc + fn_size_cells pci;
     ensure (is_multiple_of (length cells) triplet_cells);
     (io, mem32, mem64) \<leftarrow> add_ranges (fn_address_cells pci) (fn_address_cells soc)
       (chunks_exact triplet_cells cells) (None, None, None);
     i \<leftarrow> io;
     m \<leftarrow> mem32;
     n \<leftarrow> mem64;
     Some \<lparr>pr_io = i, pr_mem32 = m, pr_mem64 = n\<rparr> }"

text \<open>The line of the interrupt controller for a pin of the device at a place in the bus.\<close>

definition pci_interrupt_to_plic :: "fdt_node \<Rightarrow> fdt_node \<Rightarrow> nat \<Rightarrow> u8 \<Rightarrow> u32 run" where
  "pci_interrupt_to_plic pci plic config_index interrupt_pin = do {
     ensure (fn_address_cells pci = 3);
     ensure (fn_interrupt_cells pci = Some 1);
     ensure (fn_address_cells plic = 0);
     ensure (fn_interrupt_cells plic = Some 1);
     mask_bytes \<leftarrow> fn_property pci ''interrupt-map-mask'';
     ensure (4 \<le> length mask_bytes);
     let address_mask = (word_of_nat (be_nat (take 4 mask_bytes)) :: u32);
     let fun_no = config_index mod 8;
     let dev_no = config_index div 8 mod 32;
     let bus = config_index div 256;
     let interrupt_address =
       word_of_nat (push_bit 16 bus OR push_bit 11 dev_no OR push_bit 8 fun_no) AND address_mask;
     map_bytes \<leftarrow> fn_property pci ''interrupt-map'';
     let interrupt_map = chunks_exact 6 (chunks_exact 4 map_bytes);
     interrupt \<leftarrow> List.find (\<lambda>c. word_of_nat (be_nat (c ! 0)) = interrupt_address \<and>
                                be_nat (c ! 3) = unat interrupt_pin) interrupt_map;
     Some (word_of_nat (be_nat (interrupt ! 5))) }"

subsection \<open>The configuration of a device\<close>

text \<open>
  The bytes of the configuration space hold everything that does not change; \<open>cf_bar_write i v\<close> is
  what base address register \<open>i\<close> reads after \<open>v\<close> was written to it.
\<close>

record pci_config =
  cf_bytes :: "u8 list"
  cf_command :: u16
  cf_bars :: "u32 list"
  cf_bar_write :: "nat \<Rightarrow> u32 \<Rightarrow> u32"

definition cf_vendor_id :: "pci_config \<Rightarrow> nat" where
  "cf_vendor_id c = field 0 2 (cf_bytes c)"

definition cf_device_id :: "pci_config \<Rightarrow> nat" where
  "cf_device_id c = field 2 2 (cf_bytes c)"

definition cf_status :: "pci_config \<Rightarrow> u16" where
  "cf_status c = word_of_nat (field 6 2 (cf_bytes c))"

definition cf_header_type :: "pci_config \<Rightarrow> nat" where
  "cf_header_type c = field 14 1 (cf_bytes c)"

definition cf_capabilities_pointer :: "pci_config \<Rightarrow> u8" where
  "cf_capabilities_pointer c = word_of_nat (field 52 1 (cf_bytes c))"

definition cf_interrupt_pin :: "pci_config \<Rightarrow> u8" where
  "cf_interrupt_pin c = word_of_nat (field 61 1 (cf_bytes c))"

definition as_general_device :: "pci_config \<Rightarrow> pci_config option" where
  "as_general_device c = (if cf_header_type c \<noteq> 0 then None else Some c)"

definition write_bar :: "nat \<Rightarrow> u32 \<Rightarrow> pci_config \<Rightarrow> pci_config" where
  "write_bar i v c = c\<lparr>cf_bars := (cf_bars c)[i := cf_bar_write c i v]\<rparr>"

definition write_command_bitor :: "u16 \<Rightarrow> pci_config \<Rightarrow> pci_config" where
  "write_command_bitor v c = c\<lparr>cf_command := cf_command c OR v\<rparr>"

subsection \<open>Base address registers\<close>

record allocated_range =
  ar_soc_offset :: usize
  ar_length :: usize

record pci_bumps =
  pb_io :: bump_allocator
  pb_mem32 :: bump_allocator
  pb_mem64 :: bump_allocator

text \<open>The two's complement of the size bits, an addition that may overflow.\<close>

definition bar_length :: "'a :: len word \<Rightarrow> 'a word \<Rightarrow> nat run" where
  "bar_length readback flag_bits = do {
     let v = NOT (readback AND NOT flag_bits);
     ensure (v \<noteq> -1);
     Some (unat (v + 1)) }"

text \<open>Allocation in one of the spaces: the addresses on the bus and of the processor.\<close>

definition bar_alloc ::
    "bump_allocator \<Rightarrow> pci_range \<Rightarrow> nat \<Rightarrow> (bump_allocator \<times> usize \<times> usize) run" where
  "bar_alloc b r len = do {
     l \<leftarrow> layout_from_size_align len 4096;
     (b, res) \<leftarrow> bump_alloc b l;
     (case res of
        Inl e \<Rightarrow> None
      | Inr offset \<Rightarrow> do {
          pci_offset \<leftarrow> uadd (pr_pci_base r) offset;
          soc_offset \<leftarrow> uadd (pr_soc_base r) offset;
          Some (b, pci_offset, soc_offset) }) }"

type_synonym bars_state = "pci_config \<times> pci_bumps \<times> allocated_range list"

text \<open>One turn of the loop: the register after the ones that were dealt with, and the new state.\<close>

definition allocate_bar :: "pci_ranges \<Rightarrow> nat \<Rightarrow> bars_state \<Rightarrow> (nat \<times> bars_state) run" where
  "allocate_bar rs i st =
     (case st of (config, bumps, allocated) \<Rightarrow> do {
        let flags = cf_bars config ! i;
        let config = write_bar i 0xFFFFFFFF config;
        let readback = cf_bars config ! i;
        if readback = 0 then Some (i + 1, config, bumps, allocated)
        else if flags AND 1 = 1 then do {
          len \<leftarrow> bar_length readback 1;
          (b, pci_offset, soc_offset) \<leftarrow> bar_alloc (pb_io bumps) (pr_io rs) len;
          Some (i + 1, write_bar i (word_of_nat pci_offset OR 1) config, bumps\<lparr>pb_io := b\<rparr>,
            allocated[i := \<lparr>ar_soc_offset = soc_offset, ar_length = len\<rparr>]) }
        else if flags AND 6 = 0 then do {
          len \<leftarrow> bar_length readback 15;
          (b, pci_offset, soc_offset) \<leftarrow> bar_alloc (pb_mem32 bumps) (pr_mem32 rs) len;
          Some (i + 1, write_bar i (word_of_nat pci_offset OR (flags AND 15)) config, bumps\<lparr>pb_mem32 := b\<rparr>,
            allocated[i := \<lparr>ar_soc_offset = soc_offset, ar_length = len\<rparr>]) }
        else if flags AND 6 = 4 then do {
          ensure (i + 1 < length (cf_bars config));
          let config = write_bar (i + 1) 0xFFFFFFFF config;
          let hi_readback = cf_bars config ! (i + 1);
          let readback = (push_bit 32 (ucast hi_readback) OR ucast readback :: u64);
          len \<leftarrow> bar_length readback 15;
          (b, pci_offset, soc_offset) \<leftarrow> bar_alloc (pb_mem64 bumps) (pr_mem64 rs) len;
          let config = write_bar i (word_of_nat pci_offset OR (flags AND 15)) config;
          Some (i + 2, write_bar (i + 1) (word_of_nat (pci_offset div 2 ^ 32)) config, bumps\<lparr>pb_mem64 := b\<rparr>,
            allocated[i := \<lparr>ar_soc_offset = soc_offset, ar_length = len\<rparr>]) }
        else None })"

lemma allocate_bar_advances: "allocate_bar rs i st = Some (j, st') \<Longrightarrow> i < j"
  by (auto simp: allocate_bar_def run_cases Let_def split: prod.splits if_splits)

function allocate_bars :: "pci_ranges \<Rightarrow> nat \<Rightarrow> bars_state \<Rightarrow> bars_state run" where
  "allocate_bars rs i st =
     (if i < 6
      then case allocate_bar rs i st of
             None \<Rightarrow> None
           | Some (j, st') \<Rightarrow> allocate_bars rs j st'
      else Some st)"
  by pat_completeness auto
termination by (relation "measure (\<lambda>(_, i, _). 6 - i)") (auto dest: allocate_bar_advances)

declare allocate_bars.simps [simp del]

definition allocate_all_bars :: "pci_ranges \<Rightarrow> pci_config \<Rightarrow> pci_bumps \<Rightarrow> bars_state run" where
  "allocate_all_bars rs config bumps =
     allocate_bars rs 0 (config, bumps, replicate 6 \<lparr>ar_soc_offset = 0, ar_length = 0\<rparr>)"

subsection \<open>Capabilities of virtio devices\<close>

text \<open>
  The addresses of the four structures of a device (\<open>Capabilities\<close> of \<open>virtio.rs\<close>); that for
  notifications comes with the multiplier of its offsets.
\<close>

record virtio_caps =
  vc_common :: "usize option"
  vc_notify :: "(usize \<times> nat) option"
  vc_isr :: "usize option"
  vc_device :: "usize option"

definition no_caps :: virtio_caps where
  "no_caps = \<lparr>vc_common = None, vc_notify = None, vc_isr = None, vc_device = None\<rparr>"

definition extract_capability ::
    "u8 list \<Rightarrow> allocated_range list \<Rightarrow> nat \<Rightarrow> virtio_caps \<Rightarrow> virtio_caps run" where
  "extract_capability bytes bars p caps =
     (if field p 1 bytes \<noteq> 0x09 then Some caps
      else do {
        let cfg_type = field (p + 3) 1 bytes;
        let bar = field (p + 4) 1 bytes;
        ensure (bar < length bars);
        a \<leftarrow> uadd (ar_soc_offset (bars ! bar)) (field (p + 8) 4 bytes);
        address \<leftarrow> phys_to_virt a;
        if cfg_type = 1 then do {
          ensure (vc_common caps = None);
          Some (caps\<lparr>vc_common := Some address\<rparr>) }
        else if cfg_type = 2 then do {
          ensure (vc_notify caps = None);
          Some (caps\<lparr>vc_notify := Some (address, field (p + 16) 4 bytes)\<rparr>) }
        else if cfg_type = 3 then Some (caps\<lparr>vc_isr := Some address\<rparr>)
        else if cfg_type = 4 then do {
          ensure (vc_device caps = None);
          Some (caps\<lparr>vc_device := Some address\<rparr>) }
        else Some caps })"

text \<open>The list of capabilities may be cyclic; then the walk does not end.\<close>

partial_function (option) walk_capabilities ::
    "u8 list \<Rightarrow> allocated_range list \<Rightarrow> nat \<Rightarrow> virtio_caps \<Rightarrow> virtio_caps option" where
  "walk_capabilities bytes bars pointer caps =
     (if pointer = 0 then Some caps
      else do {
        caps \<leftarrow> extract_capability bytes bars pointer caps;
        walk_capabilities bytes bars (field (pointer + 1) 1 bytes) caps })"

definition extract_capabilities ::
    "pci_config \<Rightarrow> allocated_range list \<Rightarrow> virtio_caps run" where
  "extract_capabilities config bars = do {
     ensure (cf_status config AND 16 \<noteq> 0);
     caps \<leftarrow> walk_capabilities (cf_bytes config) bars
       (unat (cf_capabilities_pointer config AND NOT 3)) no_caps;
     ensure (vc_common caps \<noteq> None \<and> vc_notify caps \<noteq> None \<and> vc_isr caps \<noteq> None \<and> vc_device caps \<noteq> None);
     Some caps }"

text \<open>Where the notification register of the selected queue is.\<close>

definition notify_select :: "usize \<times> nat \<Rightarrow> nat \<Rightarrow> usize run" where
  "notify_select slot queue_notify_off = do {
     offset \<leftarrow> umul queue_notify_off (snd slot);
     uadd (fst slot) offset }"

subsection \<open>The scan\<close>

datatype device_kind = NetDevice | BlkDevice | GpuDevice | InputDevice

definition device_kind_of :: "pci_config \<Rightarrow> device_kind option" where
  "device_kind_of c =
     (if cf_vendor_id c = 0x1AF4 \<and> cf_device_id c = 0x1041 then Some NetDevice
      else if cf_vendor_id c = 0x1AF4 \<and> cf_device_id c = 0x1042 then Some BlkDevice
      else if cf_vendor_id c = 0x1AF4 \<and> cf_device_id c = 0x1050 then Some GpuDevice
      else if cf_vendor_id c = 0x1AF4 \<and> cf_device_id c = 0x1052 then Some InputDevice
      else None)"

record 'd pci_state =
  ps_bumps :: pci_bumps
  ps_interrupts :: "'d interrupts"
  ps_net :: "'d option"
  ps_blk :: "'d option"
  ps_gpu :: "'d option"
  ps_keyboard :: "'d option"
  ps_mouse :: "'d option"

text \<open>What the scan is given: the drivers' initialisation, and what kind of input device one is.\<close>

record 'd drivers =
  dr_init :: "device_kind \<Rightarrow> pci_config \<Rightarrow> allocated_range list \<Rightarrow> 'd run"
  dr_is_keyboard :: "'d \<Rightarrow> bool"
  dr_is_mouse :: "'d \<Rightarrow> bool"

definition keep_device :: "'d drivers \<Rightarrow> device_kind \<Rightarrow> 'd \<Rightarrow> 'd pci_state \<Rightarrow> 'd pci_state" where
  "keep_device dr kind d s =
     (case kind of
        NetDevice \<Rightarrow> s\<lparr>ps_net := Some d\<rparr>
      | BlkDevice \<Rightarrow> s\<lparr>ps_blk := Some d\<rparr>
      | GpuDevice \<Rightarrow> s\<lparr>ps_gpu := Some d\<rparr>
      | InputDevice \<Rightarrow>
          if dr_is_keyboard dr d then s\<lparr>ps_keyboard := Some d\<rparr>
          else if dr_is_mouse dr d then s\<lparr>ps_mouse := Some d\<rparr>
          else s)"

definition initialize_device ::
    "'d drivers \<Rightarrow> fdt_node \<Rightarrow> fdt_node \<Rightarrow> pci_ranges \<Rightarrow> nat \<Rightarrow> pci_config \<Rightarrow> device_kind \<Rightarrow>
     'd pci_state \<Rightarrow> 'd pci_state run" where
  "initialize_device dr pci plic rs config_index c kind s = do {
     config \<leftarrow> as_general_device c;
     (config, bumps, bars) \<leftarrow> allocate_all_bars rs config (ps_bumps s);
     let config = write_command_bitor 7 config;
     d \<leftarrow> dr_init dr kind config bars;
     line \<leftarrow> pci_interrupt_to_plic pci plic config_index (cf_interrupt_pin config);
     interrupts \<leftarrow> register_interrupt (ps_interrupts s) line d;
     Some (keep_device dr kind d (s\<lparr>ps_bumps := bumps, ps_interrupts := interrupts\<rparr>)) }"

fun scan_devices ::
    "'d drivers \<Rightarrow> fdt_node \<Rightarrow> fdt_node \<Rightarrow> pci_ranges \<Rightarrow> nat \<Rightarrow> pci_config list \<Rightarrow>
     'd pci_state \<Rightarrow> 'd pci_state run" where
  "scan_devices dr pci plic rs config_index [] s = Some s"
| "scan_devices dr pci plic rs config_index (c # cs) s = do {
     s \<leftarrow> (if cf_vendor_id c = 0xFFFF then Some s
           else case device_kind_of c of
                  Some kind \<Rightarrow> initialize_device dr pci plic rs config_index c kind s
                | None \<Rightarrow> Some s);
     scan_devices dr pci plic rs (config_index + 1) cs s }"

definition bumps_for :: "pci_ranges \<Rightarrow> pci_bumps" where
  "bumps_for rs =
     \<lparr>pb_io = bump_new 0 (pr_length (pr_io rs)), pb_mem32 = bump_new 0 (pr_length (pr_mem32 rs)),
      pb_mem64 = bump_new 0 (pr_length (pr_mem64 rs))\<rparr>"

definition initialize_all_pci ::
    "'d drivers \<Rightarrow> fdt_node \<Rightarrow> fdt_node \<Rightarrow> fdt_node \<Rightarrow> pci_config list \<Rightarrow> 'd interrupts \<Rightarrow>
     (('d \<times> 'd \<times> 'd \<times> 'd \<times> 'd) \<times> 'd interrupts) run" where
  "initialize_all_pci dr soc pci plic configs interrupts = do {
     rs \<leftarrow> find_pci_ranges soc pci;
     s \<leftarrow> scan_devices dr pci plic rs 0 configs
       \<lparr>ps_bumps = bumps_for rs, ps_interrupts = interrupts, ps_net = None, ps_blk = None,
        ps_gpu = None, ps_keyboard = None, ps_mouse = None\<rparr>;
     blk \<leftarrow> ps_blk s;
     net \<leftarrow> ps_net s;
     gpu \<leftarrow> ps_gpu s;
     keyboard \<leftarrow> ps_keyboard s;
     mouse \<leftarrow> ps_mouse s;
     Some ((blk, net, gpu, keyboard, mouse), ps_interrupts s) }"

end
