(* ===== verification/Pci_Correct.thy ===== *)
theory Pci_Correct
  imports Pci
begin

text \<open>
  The ranges that the scan allocates for base address registers never overlap, over all devices, and
  lie in the windows of the device tree.
\<close>

subsection \<open>Windows and what is used of them\<close>

definition window :: "pci_range \<Rightarrow> usize set" where
  "window r = {pr_soc_base r ..< pr_soc_base r + pr_length r}"

definition windows_apart :: "pci_ranges \<Rightarrow> bool" where
  "windows_apart rs \<longleftrightarrow>
     window (pr_io rs) \<inter> window (pr_mem32 rs) = {} \<and>
     window (pr_io rs) \<inter> window (pr_mem64 rs) = {} \<and>
     window (pr_mem32 rs) \<inter> window (pr_mem64 rs) = {}"

definition bump_ok :: "pci_range \<Rightarrow> bump_allocator \<Rightarrow> bool" where
  "bump_ok r b \<longleftrightarrow> bump_start b \<le> pr_length r \<and> bump_end b = pr_length r"

definition bumps_ok :: "pci_ranges \<Rightarrow> pci_bumps \<Rightarrow> bool" where
  "bumps_ok rs b \<longleftrightarrow>
     bump_ok (pr_io rs) (pb_io b) \<and> bump_ok (pr_mem32 rs) (pb_mem32 b) \<and> bump_ok (pr_mem64 rs) (pb_mem64 b)"

definition used_of :: "pci_range \<Rightarrow> bump_allocator \<Rightarrow> usize set" where
  "used_of r b = {pr_soc_base r ..< pr_soc_base r + bump_start b}"

definition used :: "pci_ranges \<Rightarrow> pci_bumps \<Rightarrow> usize set" where
  "used rs b = used_of (pr_io rs) (pb_io b) \<union> used_of (pr_mem32 rs) (pb_mem32 b) \<union> used_of (pr_mem64 rs) (pb_mem64 b)"

definition range_of :: "allocated_range \<Rightarrow> usize set" where
  "range_of a = {ar_soc_offset a ..< ar_soc_offset a + ar_length a}"

lemma bar_alloc_ok:
  assumes "bar_alloc b r n = Some (b', p, s)" "bump_ok r b"
  shows "bump_ok r b'" "used_of r b \<subseteq> used_of r b'"
    "{s ..< s + n} \<subseteq> used_of r b' - used_of r b" "{s ..< s + n} \<subseteq> window r"
proof -
  obtain l x where l: "layout_from_size_align n 4096 = Some l" "bump_alloc b l = Some (b', Inr x)"
    "s = pr_soc_base r + x"
    using assms(1) by (auto simp: bar_alloc_def run_cases)
  then have n: "lay_size l = n" by (auto simp: layout_from_size_align_def split: if_splits)
  from l(2) have b': "bump_start b \<le> x" "x + n \<le> bump_end b" "bump_start b' = x + n" "bump_end b' = bump_end b"
    by (cases rule: bump_alloc_cases; simp add: n)+
  then show "bump_ok r b'" "used_of r b \<subseteq> used_of r b'"
    "{s ..< s + n} \<subseteq> used_of r b' - used_of r b" "{s ..< s + n} \<subseteq> window r"
    using assms(2) l(3) by (auto simp: bump_ok_def used_of_def window_def)
qed

lemma used_of_window: "bump_ok r b \<Longrightarrow> used_of r b \<subseteq> window r"
  by (auto simp: bump_ok_def used_of_def window_def)

subsection \<open>One register\<close>

text \<open>What a turn of the loop does: nothing is allocated, or a fresh range for this register.\<close>

definition fresh :: "pci_ranges \<Rightarrow> pci_bumps \<Rightarrow> pci_bumps \<Rightarrow> allocated_range \<Rightarrow> bool" where
  "fresh rs b b' a \<longleftrightarrow>
     range_of a \<subseteq> used rs b' - used rs b \<and>
     range_of a \<subseteq> window (pr_io rs) \<union> window (pr_mem32 rs) \<union> window (pr_mem64 rs)"

definition advanced :: "pci_ranges \<Rightarrow> pci_bumps \<Rightarrow> pci_bumps \<Rightarrow> allocated_range \<Rightarrow> bool" where
  "advanced rs b b' a \<longleftrightarrow> bumps_ok rs b' \<and> used rs b \<subseteq> used rs b' \<and> fresh rs b b' a"

lemma fresh_space:
  assumes "windows_apart rs" "bumps_ok rs b"
  shows "bar_alloc (pb_io b) (pr_io rs) n = Some (x, p, s) \<Longrightarrow>
      advanced rs b (b\<lparr>pb_io := x\<rparr>) \<lparr>ar_soc_offset = s, ar_length = n\<rparr>"
    and "bar_alloc (pb_mem32 b) (pr_mem32 rs) n = Some (x, p, s) \<Longrightarrow>
      advanced rs b (b\<lparr>pb_mem32 := x\<rparr>) \<lparr>ar_soc_offset = s, ar_length = n\<rparr>"
    and "bar_alloc (pb_mem64 b) (pr_mem64 rs) n = Some (x, p, s) \<Longrightarrow>
      advanced rs b (b\<lparr>pb_mem64 := x\<rparr>) \<lparr>ar_soc_offset = s, ar_length = n\<rparr>"
proof -
  have ok: "bump_ok (pr_io rs) (pb_io b)" "bump_ok (pr_mem32 rs) (pb_mem32 b)" "bump_ok (pr_mem64 rs) (pb_mem64 b)"
    using assms(2) by (simp_all add: bumps_ok_def)
  note w = ok [THEN used_of_window]
  show "bar_alloc (pb_io b) (pr_io rs) n = Some (x, p, s) \<Longrightarrow>
      advanced rs b (b\<lparr>pb_io := x\<rparr>) \<lparr>ar_soc_offset = s, ar_length = n\<rparr>"
    using bar_alloc_ok [OF _ ok(1), of n x p s] ok w assms(1)
    by (simp add: advanced_def bumps_ok_def used_def fresh_def range_of_def windows_apart_def) blast
  show "bar_alloc (pb_mem32 b) (pr_mem32 rs) n = Some (x, p, s) \<Longrightarrow>
      advanced rs b (b\<lparr>pb_mem32 := x\<rparr>) \<lparr>ar_soc_offset = s, ar_length = n\<rparr>"
    using bar_alloc_ok [OF _ ok(2), of n x p s] ok w assms(1)
    by (simp add: advanced_def bumps_ok_def used_def fresh_def range_of_def windows_apart_def) blast
  show "bar_alloc (pb_mem64 b) (pr_mem64 rs) n = Some (x, p, s) \<Longrightarrow>
      advanced rs b (b\<lparr>pb_mem64 := x\<rparr>) \<lparr>ar_soc_offset = s, ar_length = n\<rparr>"
    using bar_alloc_ok [OF _ ok(3), of n x p s] ok w assms(1)
    by (simp add: advanced_def bumps_ok_def used_def fresh_def range_of_def windows_apart_def) blast
qed

lemma allocate_bar_ok:
  assumes "windows_apart rs" "bumps_ok rs b" "allocate_bar rs i (c, b, as) = Some (j, c', b', as')"
  shows "bumps_ok rs b' \<and> used rs b \<subseteq> used rs b' \<and> i < j \<and>
    (as' = as \<or> (\<exists>a. as' = as[i := a] \<and> fresh rs b b' a))"
proof -
  have "b' = b \<and> as' = as \<or> (\<exists>a. as' = as[i := a] \<and> advanced rs b b' a)"
    using assms(3) fresh_space [OF assms(1,2)]
    by (auto simp: allocate_bar_def Let_def run_cases split: if_splits)
  with assms(2) allocate_bar_advances [OF assms(3)] show ?thesis
    by (auto simp: advanced_def)
qed

subsection \<open>All registers of all devices\<close>

text \<open>
  The ranges of a device so far: disjoint, in the windows, taken since the state \<open>b\<^sub>0\<close>; the registers
  still to come have none.
\<close>

definition bars_ok :: "pci_ranges \<Rightarrow> pci_bumps \<Rightarrow> pci_bumps \<Rightarrow> nat \<Rightarrow> allocated_range list \<Rightarrow> bool" where
  "bars_ok rs b0 b i as \<longleftrightarrow>
     bumps_ok rs b \<and> used rs b0 \<subseteq> used rs b \<and> length as = 6 \<and>
     (\<forall>k<6. fresh rs b0 b (as ! k)) \<and> (\<forall>k<6. i \<le> k \<longrightarrow> range_of (as ! k) = {}) \<and>
     (\<forall>k<6. \<forall>l<6. k \<noteq> l \<longrightarrow> range_of (as ! k) \<inter> range_of (as ! l) = {})"

lemma bars_ok_step:
  assumes "windows_apart rs" "bars_ok rs b0 b i as" "i < 6"
    "allocate_bar rs i (c, b, as) = Some (j, c', b', as')"
  shows "bars_ok rs b0 b' j as'"
proof -
  have inv: "bumps_ok rs b" "used rs b0 \<subseteq> used rs b" "length as = 6"
    and fr: "\<And>k. k < 6 \<Longrightarrow> fresh rs b0 b (as ! k)"
    and empty: "\<And>k. k < 6 \<Longrightarrow> i \<le> k \<Longrightarrow> range_of (as ! k) = {}"
    and dis: "\<And>k l. k < 6 \<Longrightarrow> l < 6 \<Longrightarrow> k \<noteq> l \<Longrightarrow> range_of (as ! k) \<inter> range_of (as ! l) = {}"
    using assms(2) by (auto simp: bars_ok_def)
  have step: "bumps_ok rs b'" "used rs b \<subseteq> used rs b'" "i < j"
    and as': "as' = as \<or> (\<exists>a. as' = as[i := a] \<and> fresh rs b b' a)"
    using allocate_bar_ok [OF assms(1) inv(1) assms(4)] by auto
  have fr': "fresh rs b0 b' (as ! k)" if "k < 6" for k
    using fr [OF that] step(2) by (auto simp: fresh_def)
  from as' show ?thesis
  proof (elim disjE exE conjE)
    assume "as' = as"
    then show ?thesis
      using inv step fr' empty dis by (auto simp: bars_ok_def)
  next
    fix a
    assume a: "as' = as[i := a]" "fresh rs b b' a"
    have new: "fresh rs b0 b' a" using a(2) inv(2) by (auto simp: fresh_def)
    have away: "range_of a \<inter> range_of (as ! k) = {}" if "k < 6" for k
      using a(2) fr [OF that] by (auto simp: fresh_def)
    have nth: "as' ! k = (if k = i then a else as ! k)" for k
      using a(1) assms(3) inv(3) by (simp add: nth_list_update)
    show ?thesis
      unfolding bars_ok_def
    proof (intro conjI allI impI)
      fix k l :: nat
      assume "k < 6" "l < 6" "k \<noteq> l"
      then show "range_of (as' ! k) \<inter> range_of (as' ! l) = {}"
        using away dis nth by (auto simp: Int_commute)
    qed (use inv step fr' empty new nth a(1) in auto)
  qed
qed

lemma allocate_bars_ok:
  assumes "windows_apart rs" "bars_ok rs b0 b i as" "allocate_bars rs i (c, b, as) = Some (c', b', as')"
  shows "\<exists>j. bars_ok rs b0 b' j as'"
  using assms(2,3)
proof (induction "6 - i" arbitrary: i c b as rule: less_induct)
  case less
  show ?case
  proof (cases "i < 6")
    case True
    obtain j c1 b1 as1 where step: "allocate_bar rs i (c, b, as) = Some (j, c1, b1, as1)"
      "allocate_bars rs j (c1, b1, as1) = Some (c', b', as')"
      using less(3) True by (subst (asm) allocate_bars.simps) (auto split: option.splits)
    have "bars_ok rs b0 b1 j as1" by (rule bars_ok_step [OF assms(1) less(2) True step(1)])
    then show ?thesis
      using less(1) [of j] step allocate_bar_advances [OF step(1)] True by auto
  next
    case False
    with less(2,3) show ?thesis by (subst (asm) allocate_bars.simps) auto
  qed
qed

lemma allocate_all_bars_ok:
  assumes "windows_apart rs" "bumps_ok rs b" "allocate_all_bars rs c b = Some (c', b', as)"
  shows "\<exists>j. bars_ok rs b b' j as"
proof -
  have "bars_ok rs b b 0 (replicate 6 \<lparr>ar_soc_offset = 0, ar_length = 0\<rparr>)"
    using assms(2) by (simp add: bars_ok_def fresh_def range_of_def)
  with assms show ?thesis
    unfolding allocate_all_bars_def by (blast intro: allocate_bars_ok)
qed

text \<open>The registers of a list of devices, one after the other: their contents and their ranges.\<close>

fun allocate_devices ::
    "pci_ranges \<Rightarrow> pci_config list \<Rightarrow> pci_bumps \<Rightarrow> (pci_bumps \<times> (pci_config \<times> allocated_range list) list) run" where
  "allocate_devices rs [] b = Some (b, [])"
| "allocate_devices rs (c # cs) b = do {
     (c', b, as) \<leftarrow> allocate_all_bars rs c b;
     (b, ds) \<leftarrow> allocate_devices rs cs b;
     Some (b, (c', as) # ds) }"

definition apart :: "allocated_range \<Rightarrow> allocated_range \<Rightarrow> bool" where
  "apart a a' \<longleftrightarrow> range_of a \<inter> range_of a' = {}"

lemma bars_ok_apart:
  assumes "bars_ok rs b b' j as"
  shows "sorted_wrt apart as" "\<forall>a\<in>set as. fresh rs b b' a" "bumps_ok rs b'" "used rs b \<subseteq> used rs b'"
  using assms by (auto simp: bars_ok_def apart_def sorted_wrt_iff_nth_less in_set_conv_nth)

lemma fresh_mono:
  "fresh rs b b' a \<Longrightarrow> used rs b0 \<subseteq> used rs b \<Longrightarrow> used rs b' \<subseteq> used rs b1 \<Longrightarrow> fresh rs b0 b1 a"
  unfolding fresh_def by blast

lemma allocate_devices_ok:
  assumes "windows_apart rs" "bumps_ok rs b" "allocate_devices rs cs b = Some (b', ds)"
  shows "sorted_wrt apart (concat (map snd ds)) \<and> (\<forall>a\<in>set (concat (map snd ds)). fresh rs b b' a) \<and>
    bumps_ok rs b' \<and> used rs b \<subseteq> used rs b'"
  using assms(2,3)
proof (induction cs arbitrary: b ds)
  case (Cons c cs)
  obtain c' b1 as ds1 where step: "allocate_all_bars rs c b = Some (c', b1, as)"
    "allocate_devices rs cs b1 = Some (b', ds1)" "ds = (c', as) # ds1"
    using Cons.prems(2) by (auto simp: bind_eq_Some_conv)
  obtain j where "bars_ok rs b b1 j as"
    using allocate_all_bars_ok [OF assms(1) Cons.prems(1) step(1)] by blast
  note here = bars_ok_apart [OF this]
  note later = Cons.IH [OF here(3) step(2)]
  have "apart a a'" if "a \<in> set as" "a' \<in> set (concat (map snd ds1))" for a a'
  proof -
    have "range_of a \<subseteq> used rs b1" using here(2) that(1) by (auto simp: fresh_def)
    moreover have "range_of a' \<inter> used rs b1 = {}" using later that(2) by (auto simp: fresh_def)
    ultimately show ?thesis by (auto simp: apart_def)
  qed
  moreover have "fresh rs b b' a" if "a \<in> set as" for a
    using here(2) later that fresh_mono [of rs b b1 a b b'] by blast
  moreover have "fresh rs b b' a" if "a \<in> set (concat (map snd ds1))" for a
    using here(4) later that fresh_mono [of rs b1 b' a b b'] by blast
  ultimately show ?case
    using here(1,4) later step(3) by (simp add: sorted_wrt_append ball_Un) blast
qed simp

definition is_device :: "pci_config \<Rightarrow> bool" where
  "is_device c \<longleftrightarrow> cf_vendor_id c \<noteq> 0xFFFF \<and> device_kind_of c \<noteq> None"

lemma keep_device_bumps [simp]: "ps_bumps (keep_device dr kind d s) = ps_bumps s"
  by (simp add: keep_device_def split: device_kind.split)

lemma scan_allocates:
  "scan_devices dr pci plic rs n cs s = Some s' \<Longrightarrow>
     \<exists>ds. allocate_devices rs (filter is_device cs) (ps_bumps s) = Some (ps_bumps s', ds)"
proof (induction cs arbitrary: n s)
  case (Cons c cs)
  show ?case
  proof (cases "is_device c")
    case True
    then obtain kind where kind: "cf_vendor_id c \<noteq> 0xFFFF" "device_kind_of c = Some kind"
      by (auto simp: is_device_def)
    with Cons.prems obtain s1 where s1: "initialize_device dr pci plic rs n c kind s = Some s1"
      "scan_devices dr pci plic rs (n + 1) cs s1 = Some s'"
      by (auto simp: bind_eq_Some_conv)
    then obtain c' as where "allocate_all_bars rs c (ps_bumps s) = Some (c', ps_bumps s1, as)"
      by (auto simp: initialize_device_def as_general_device_def run_cases Let_def)
    with True Cons.IH [OF s1(2)] show ?thesis by auto
  next
    case False
    with Cons.prems have "scan_devices dr pci plic rs (n + 1) cs s = Some s'"
      by (auto simp: is_device_def split: if_splits)
    with False Cons.IH show ?thesis by auto
  qed
qed simp

end
