(* ===== verification/Pci_Registers.thy ===== *)
theory Pci_Registers
  imports Pci_Correct
begin

unbundle bit_operations_syntax

text \<open>
  What the registers of the devices hold after the scan, for devices that follow the standard: the
  addresses to which each base address register answers, read from its contents, are the range that
  was recorded for it, exactly when that range is aligned to the size of the register.
\<close>

subsection \<open>Devices that follow the standard\<close>

text \<open>
  The six registers of a device: none, ports, memory, or memory with an address of 64 bits that takes
  the next register too.  A register of \<open>2 ^ k\<close> bytes has its size bits hard-wired to zero, and its
  lowest bits to the kind of register.
\<close>

datatype bar_kind = NoBar | IoBar nat | Mem32 nat u32 | Mem64 nat u32 | UpperHalf

fun bar_size :: "bar_kind \<Rightarrow> nat" where
  "bar_size NoBar = 0"
| "bar_size (IoBar k) = 2 ^ k"
| "bar_size (Mem32 k f) = 2 ^ k"
| "bar_size (Mem64 k f) = 2 ^ k"
| "bar_size UpperHalf = 0"

fun standard_bar :: "bar_kind list \<Rightarrow> pci_config \<Rightarrow> nat \<Rightarrow> bar_kind \<Rightarrow> bool" where
  "standard_bar ks c i NoBar \<longleftrightarrow> (\<forall>v. cf_bar_write c i v = 0)"
| "standard_bar ks c i (IoBar k) \<longleftrightarrow> 2 \<le> k \<and> k < 32 \<and> cf_bars c ! i AND 3 = 1 \<and>
     (\<forall>v. cf_bar_write c i v = (v AND NOT (mask k)) OR 1)"
| "standard_bar ks c i (Mem32 k f) \<longleftrightarrow> 4 \<le> k \<and> k < 32 \<and> f \<in> {0, 8} \<and> cf_bars c ! i AND 15 = f \<and>
     (\<forall>v. cf_bar_write c i v = (v AND NOT (mask k)) OR f)"
| "standard_bar ks c i (Mem64 k f) \<longleftrightarrow> 4 \<le> k \<and> k < 64 \<and> f \<in> {4, 12} \<and> cf_bars c ! i AND 15 = f \<and>
     i + 1 < 6 \<and> ks ! (i + 1) = UpperHalf \<and>
     (\<forall>v. cf_bar_write c i v = (v AND NOT (mask k)) OR f) \<and>
     (\<forall>v. cf_bar_write c (i + 1) v = v AND NOT (mask (k - 32)))"
| "standard_bar ks c i UpperHalf \<longleftrightarrow> 0 < i \<and> (\<exists>k f. ks ! (i - 1) = Mem64 k f)"

definition standard_device :: "bar_kind list \<Rightarrow> pci_config \<Rightarrow> bool" where
  "standard_device ks c \<longleftrightarrow>
     length ks = 6 \<and> length (cf_bars c) = 6 \<and> (\<forall>i<6. standard_bar ks c i (ks ! i))"

subsection \<open>What a register answers to\<close>

text \<open>
  The processor reaches the addresses of the bus through a window; a device answers to those from the
  address in its register on, as many as the register has.
\<close>

definition reached :: "pci_range \<Rightarrow> nat \<Rightarrow> nat \<Rightarrow> usize set" where
  "reached r base n =
     {x \<in> window r. base \<le> pr_pci_base r + (x - pr_soc_base r) \<and> pr_pci_base r + (x - pr_soc_base r) < base + n}"

fun answers_to :: "pci_ranges \<Rightarrow> bar_kind \<Rightarrow> u32 list \<Rightarrow> nat \<Rightarrow> usize set" where
  "answers_to rs (IoBar k) bars i = reached (pr_io rs) (unat (bars ! i AND NOT 3)) (2 ^ k)"
| "answers_to rs (Mem32 k f) bars i = reached (pr_mem32 rs) (unat (bars ! i AND NOT 15)) (2 ^ k)"
| "answers_to rs (Mem64 k f) bars i =
     reached (pr_mem64 rs) (unat (bars ! (i + 1)) * 2 ^ 32 + unat (bars ! i AND NOT 15)) (2 ^ k)"
| "answers_to rs _ bars i = {}"

text \<open>The address on the bus of an allocated range, aligned to the size of the register.\<close>

definition bus_address :: "pci_range \<Rightarrow> allocated_range \<Rightarrow> nat" where
  "bus_address r a = pr_pci_base r + (ar_soc_offset a - pr_soc_base r)"

fun naturally_aligned :: "pci_ranges \<Rightarrow> bar_kind \<Rightarrow> allocated_range \<Rightarrow> bool" where
  "naturally_aligned rs (IoBar k) a \<longleftrightarrow> 2 ^ k dvd bus_address (pr_io rs) a"
| "naturally_aligned rs (Mem32 k f) a \<longleftrightarrow> 2 ^ k dvd bus_address (pr_mem32 rs) a"
| "naturally_aligned rs (Mem64 k f) a \<longleftrightarrow> 2 ^ k dvd bus_address (pr_mem64 rs) a"
| "naturally_aligned rs _ a \<longleftrightarrow> True"

text \<open>The windows hold addresses of the bus that fit their registers, in whole pages.\<close>

definition bus_windows :: "pci_ranges \<Rightarrow> bool" where
  "bus_windows rs \<longleftrightarrow>
     4096 dvd pr_pci_base (pr_io rs) \<and> pr_pci_base (pr_io rs) + pr_length (pr_io rs) \<le> 2 ^ 32 \<and>
     4096 dvd pr_pci_base (pr_mem32 rs) \<and> pr_pci_base (pr_mem32 rs) + pr_length (pr_mem32 rs) \<le> 2 ^ 32 \<and>
     4096 dvd pr_pci_base (pr_mem64 rs) \<and> pr_pci_base (pr_mem64 rs) + pr_length (pr_mem64 rs) \<le> 2 ^ 64"

definition register_ok :: "pci_ranges \<Rightarrow> bar_kind \<Rightarrow> u32 list \<Rightarrow> nat \<Rightarrow> allocated_range \<Rightarrow> bool" where
  "register_ok rs kind bars i a \<longleftrightarrow>
     ar_length a = bar_size kind \<and>
     (answers_to rs kind bars i = range_of a \<longleftrightarrow> naturally_aligned rs kind a) \<and>
     (bar_size kind \<le> 4096 \<longrightarrow> answers_to rs kind bars i = range_of a)"

definition registers_ok :: "pci_ranges \<Rightarrow> bar_kind list \<Rightarrow> pci_config \<times> allocated_range list \<Rightarrow> bool" where
  "registers_ok rs ks d \<longleftrightarrow>
     (case d of (c, as) \<Rightarrow> length as = 6 \<and> (\<forall>i<6. register_ok rs (ks ! i) (cf_bars c) i (as ! i)))"

subsection \<open>Words with hard-wired bits\<close>

lemma low_flags:
  assumes "(f :: 'a :: len word) AND NOT (mask m) = 0" "bit f n"
  shows "n < m"
proof (rule ccontr)
  assume "\<not> n < m"
  then have "bit (f AND NOT (mask m)) n"
    using assms(2) by (auto simp: bit_simps dest: bit_imp_le_length)
  then show False using assms(1) by simp
qed

lemma hardwired:
  assumes "(f :: 'a :: len word) AND NOT (mask m) = 0" "m \<le> k"
  shows "(((v OR f) AND NOT (mask k)) OR f) AND NOT (mask m) = v AND NOT (mask k)"
proof (rule bit_word_eqI)
  fix n assume "n < LENGTH('a)"
  then show "bit ((((v OR f) AND NOT (mask k)) OR f) AND NOT (mask m)) n = bit (v AND NOT (mask k)) n"
    using low_flags [OF assms(1), of n] assms(2) by (auto simp: bit_simps)
qed

lemma unat_exp: "k < LENGTH('a) \<Longrightarrow> unat (2 ^ k :: 'a :: len word) = 2 ^ k"
  by transfer (simp add: take_bit_eq_mod power_strict_increasing)

text \<open>The size that is read back is the size of the register.\<close>

lemma bar_length_standard:
  assumes "(f :: 'a :: len word) AND NOT (mask m) = 0" "m \<le> k" "k < LENGTH('a)"
  shows "bar_length (NOT (mask k) OR f) (mask m) = Some (2 ^ k)"
proof -
  have "(NOT (mask k) OR f) AND NOT (mask m) = NOT (mask k :: 'a word)"
    using hardwired [OF assms(1,2), of "-1"] by simp
  moreover have "(mask k :: 'a word) \<noteq> -1"
  proof
    assume "(mask k :: 'a word) = -1"
    then have "bit (mask k :: 'a word) k" using assms(3) by (simp add: bit_simps)
    then show False by (simp add: bit_mask_iff)
  qed
  ultimately show ?thesis
    using assms(3) by (simp add: bar_length_def mask_eq_exp_minus_1 unat_exp)
qed

text \<open>The address that a register holds after it was written: rounded down to its size.\<close>

lemma rounded_le: "p div 2 ^ k * 2 ^ k \<le> (p :: nat)"
  by simp

lemma unat_small: "q < 2 ^ LENGTH('a :: len) \<Longrightarrow> unat (word_of_nat q :: 'a word) = q"
  by (simp add: unsigned_of_nat take_bit_nat_eq_self)

lemma unat_rounded:
  assumes "p < 2 ^ LENGTH('a :: len)"
  shows "unat (word_of_nat p AND NOT (mask k) :: 'a word) = p div 2 ^ k * 2 ^ k"
proof -
  have "word_of_nat p AND NOT (mask k) = (word_of_nat (push_bit k (drop_bit k p)) :: 'a word)"
    by (rule bit_word_eqI) (auto simp: bit_simps)
  moreover have "push_bit k (drop_bit k p) = p div 2 ^ k * 2 ^ k"
    by (simp add: push_bit_eq_mult drop_bit_eq_div)
  moreover have "unat (word_of_nat (p div 2 ^ k * 2 ^ k) :: 'a word) = p div 2 ^ k * 2 ^ k"
    by (rule unat_small) (rule le_less_trans [OF rounded_le assms])
  ultimately show ?thesis by (simp only:)
qed

lemma unat_register:
  assumes "f AND NOT (mask m) = 0" "m \<le> k" "p < 2 ^ 32"
  shows "unat ((((word_of_nat p OR f) AND NOT (mask k)) OR f) AND NOT (mask m) :: u32) = p div 2 ^ k * 2 ^ k"
  unfolding hardwired [OF assms(1,2)] by (rule unat_rounded) (use assms(3) in simp)

text \<open>The two halves of an address of 64 bits.\<close>

lemma unat_halves:
  assumes "unat (lo :: u32) = p mod 2 ^ 32 div 2 ^ k * 2 ^ k" "unat (hi :: u32) = p div 2 ^ 32 div 2 ^ (k - 32) * 2 ^ (k - 32)"
  shows "unat hi * 2 ^ 32 + unat lo = p div 2 ^ k * 2 ^ k"
proof -
  have "unat hi * 2 ^ 32 + unat lo = push_bit 32 (push_bit (k - 32) (drop_bit (k - 32) (drop_bit 32 p))) +
      push_bit k (drop_bit k (take_bit 32 p))"
    unfolding assms by (simp only: push_bit_eq_mult drop_bit_eq_div take_bit_eq_mod)
  also have "\<dots> = push_bit 32 (push_bit (k - 32) (drop_bit (k - 32) (drop_bit 32 p))) OR
      push_bit k (drop_bit k (take_bit 32 p))"
    by (rule disjunctive_add) (auto simp: bit_simps)
  also have "\<dots> = push_bit k (drop_bit k p)"
  proof (rule bit_eqI)
    fix n
    have "\<not> n < 32 \<Longrightarrow> k \<le> n \<Longrightarrow> k - 32 + 32 + (n - (32 + (k - 32))) = n" by simp
    then show "bit (push_bit 32 (push_bit (k - 32) (drop_bit (k - 32) (drop_bit 32 p))) OR
        push_bit k (drop_bit k (take_bit 32 p))) n = bit (push_bit k (drop_bit k p)) n"
      by (cases "n < 32") (auto simp: bit_simps)
  qed
  finally show ?thesis by (simp only: push_bit_eq_mult drop_bit_eq_div)
qed

lemma wide_readback:
  "push_bit 32 (ucast (NOT (mask (k - 32)) :: u32)) OR ucast (NOT (mask k) OR f :: u32) =
     (NOT (mask k) OR ucast f :: u64)"
  by (rule bit_word_eqI) (auto simp: bit_simps)

subsection \<open>One allocation\<close>

lemma bar_alloc_place:
  assumes "bar_alloc b r n = Some (b', p, s)" "bump_ok r b"
  obtains x where "p = pr_pci_base r + x" "s = pr_soc_base r + x" "x + n \<le> pr_length r" "4096 dvd x"
proof -
  obtain l x where l: "layout_from_size_align n 4096 = Some l" "bump_alloc b l = Some (b', Inr x)"
    "p = pr_pci_base r + x" "s = pr_soc_base r + x"
    using assms(1) by (auto simp: bar_alloc_def run_cases)
  then have n: "lay_size l = n" "lay_align l = 4096"
    by (auto simp: layout_from_size_align_def split: if_splits)
  from l(2) have "x + n \<le> bump_end b" "4096 dvd x"
    by (cases rule: bump_alloc_cases; simp add: n)+
  with l assms(2) show thesis by (auto intro: that simp: bump_ok_def)
qed

lemma reached_iff:
  assumes "x + 2 ^ k \<le> pr_length r"
  defines "p \<equiv> pr_pci_base r + x"
  shows "reached r (p div 2 ^ k * 2 ^ k) (2 ^ k) = {pr_soc_base r + x ..< pr_soc_base r + x + 2 ^ k} \<longleftrightarrow> 2 ^ k dvd p"
proof
  assume same: "reached r (p div 2 ^ k * 2 ^ k) (2 ^ k) = {pr_soc_base r + x ..< pr_soc_base r + x + 2 ^ k}"
  have "pr_soc_base r + x + 2 ^ k - 1 \<in> {pr_soc_base r + x ..< pr_soc_base r + x + 2 ^ k}"
    using zero_less_power [of "2 :: nat" k] unfolding atLeastLessThan_iff by linarith
  then have "pr_soc_base r + x + 2 ^ k - 1 \<in> reached r (p div 2 ^ k * 2 ^ k) (2 ^ k)" using same by simp
  then have "pr_pci_base r + (pr_soc_base r + x + 2 ^ k - 1 - pr_soc_base r) < p div 2 ^ k * 2 ^ k + 2 ^ k"
    unfolding reached_def by blast
  moreover have "(1 :: nat) \<le> 2 ^ k" by simp
  ultimately have "p \<le> p div 2 ^ k * 2 ^ k" by (simp add: p_def)
  then have "p div 2 ^ k * 2 ^ k = p" using rounded_le [of p k] by (rule antisym [rotated])
  then show "2 ^ k dvd p" by (metis dvd_triv_right)
next
  assume "2 ^ k dvd p"
  then have "p div 2 ^ k * 2 ^ k = p" by simp
  then show "reached r (p div 2 ^ k * 2 ^ k) (2 ^ k) = {pr_soc_base r + x ..< pr_soc_base r + x + 2 ^ k}"
    using assms(1) by (auto simp: reached_def window_def p_def)
qed

lemma placed:
  assumes "bar_alloc b r (2 ^ k) = Some (b', p, s)" "bump_ok r b"
  defines "a \<equiv> \<lparr>ar_soc_offset = s, ar_length = 2 ^ k\<rparr>"
  shows "reached r (p div 2 ^ k * 2 ^ k) (2 ^ k) = range_of a \<longleftrightarrow> 2 ^ k dvd bus_address r a"
    "4096 dvd pr_pci_base r \<Longrightarrow> k \<le> 12 \<Longrightarrow> 2 ^ k dvd bus_address r a"
    "p < pr_pci_base r + pr_length r"
proof -
  obtain x where x: "p = pr_pci_base r + x" "s = pr_soc_base r + x" "x + 2 ^ k \<le> pr_length r" "4096 dvd x"
    using bar_alloc_place [OF assms(1,2)] by blast
  then have bus: "bus_address r a = p" by (simp add: bus_address_def a_def)
  show "reached r (p div 2 ^ k * 2 ^ k) (2 ^ k) = range_of a \<longleftrightarrow> 2 ^ k dvd bus_address r a"
    unfolding bus using reached_iff [OF x(3)] x(1,2) by (simp add: range_of_def a_def)
  show "p < pr_pci_base r + pr_length r"
    using x(1,3) zero_less_power [of "2 :: nat" k] by linarith
  assume "4096 dvd pr_pci_base r" "k \<le> 12"
  then have "(2 :: nat) ^ 12 dvd p" "(2 :: nat) ^ k dvd 2 ^ 12"
    using x(1,4) by (simp, intro le_imp_power_dvd)
  then show "2 ^ k dvd bus_address r a"
    unfolding bus by (rule dvd_trans [rotated])
qed

lemma small_size: "(2 :: nat) ^ k \<le> 4096 \<longleftrightarrow> k \<le> 12"
  using power_increasing_iff [of "2 :: nat" k 12] by simp

lemma flag_masks: "(3 :: 'a :: len word) = mask 2" "(15 :: 'a word) = mask 4"
  by (simp_all add: mask_eq_exp_minus_1)

lemma all_ones [simp]: "0xFFFFFFFF AND v = (v :: u32)"
proof -
  have "(0xFFFFFFFF :: u32) = -1" by simp
  then show ?thesis by (simp only: and.left_neutral)
qed

lemma cf_bars_write [simp]:
  "cf_bars (write_bar i v c) = (cf_bars c)[i := cf_bar_write c i v]"
  "cf_bar_write (write_bar i v c) = cf_bar_write c"
  by (simp_all add: write_bar_def)

text \<open>What a turn of the loop leaves of the registers, for each kind.\<close>

definition turned ::
    "pci_ranges \<Rightarrow> bar_kind \<Rightarrow> nat \<Rightarrow> bars_state \<Rightarrow> nat \<Rightarrow> bars_state \<Rightarrow> bool" where
  "turned rs kind i st j st' \<longleftrightarrow>
     (case (st, st') of ((c, b, as), (c', b', as')) \<Rightarrow>
        cf_bar_write c' = cf_bar_write c \<and> length (cf_bars c') = 6 \<and>
        (\<forall>l. (l < i \<or> j \<le> l) \<longrightarrow> cf_bars c' ! l = cf_bars c ! l) \<and>
        (\<exists>a. as' = as[i := a] \<and> register_ok rs kind (cf_bars c') i a))"

lemma turn_none:
  assumes "standard_bar ks c i NoBar" "i < 6" "length (cf_bars c) = 6" "length as = 6"
    "as ! i = \<lparr>ar_soc_offset = 0, ar_length = 0\<rparr>" "allocate_bar rs i (c, b, as) = Some (j, c', b', as')"
  shows "j = i + 1 \<and> turned rs NoBar i (c, b, as) j (c', b', as')"
proof -
  have "j = i + 1" "c' = write_bar i 0xFFFFFFFF c" "as' = as"
    using assms by (simp_all add: allocate_bar_def Let_def)
  moreover have "as = as[i := \<lparr>ar_soc_offset = 0, ar_length = 0\<rparr>]"
    using assms(5) by (metis list_update_id)
  ultimately show ?thesis
    using assms(2,3) unfolding turned_def
    by (auto simp: register_ok_def range_of_def intro!: exI [of _ "\<lparr>ar_soc_offset = 0, ar_length = 0\<rparr>"])
qed


lemma turn_io:
  assumes "standard_bar ks c i (IoBar k)" "i < 6" "length (cf_bars c) = 6" "length as = 6"
    "allocate_bar rs i (c, b, as) = Some (j, c', b', as')" "bump_ok (pr_io rs) (pb_io b)" "bus_windows rs"
  shows "j = i + 1 \<and> turned rs (IoBar k) i (c, b, as) j (c', b', as')"
proof -
  have k: "2 \<le> k" "k < 32" and flags: "cf_bars c ! i AND 3 = 1"
    and w: "cf_bar_write c i = (\<lambda>v. (v AND NOT (mask k)) OR 1)"
    using assms(1) by auto
  have "cf_bars c ! i AND 1 = (cf_bars c ! i AND 3) AND 1" by (simp add: and.assoc)
  then have port: "cf_bars c ! i AND 1 = 1" unfolding flags by simp
  have low: "(1 :: u32) AND NOT (mask 1) = 0" "(1 :: u32) AND NOT (mask 2) = 0" by (simp_all add: mask_eq_exp_minus_1)
  have rback: "bar_length (NOT (mask k) OR 1 :: u32) 1 = Some (2 ^ k)"
    using bar_length_standard [OF low(1), of k] k by simp
  have "NOT (mask k) OR 1 \<noteq> (0 :: u32)" by (simp add: or_eq_0_iff)
  then obtain q p s where q: "bar_alloc (pb_io b) (pr_io rs) (2 ^ k) = Some (q, p, s)" and j: "j = i + 1"
    and st: "c' = write_bar i (word_of_nat p OR 1) (write_bar i 0xFFFFFFFF c)"
      "as' = as[i := \<lparr>ar_soc_offset = s, ar_length = 2 ^ k\<rparr>]"
    using assms(2,3,5) by (auto simp: allocate_bar_def Let_def w port rback run_cases)
  note pl = placed [OF q assms(6)]
  have "p < 2 ^ 32" using pl(3) assms(7) by (simp add: bus_windows_def)
  then have "unat ((((word_of_nat p OR 1) AND NOT (mask k)) OR 1) AND NOT 3 :: u32) = p div 2 ^ k * 2 ^ k"
    using unat_register [OF low(2) k(1)] by (simp add: flag_masks)
  then have "register_ok rs (IoBar k) (cf_bars c') i \<lparr>ar_soc_offset = s, ar_length = 2 ^ k\<rparr>"
    using assms(2,3,7) pl(1,2) by (simp add: register_ok_def st w small_size bus_windows_def)
  then show ?thesis
    using assms(2,3) by (auto simp: turned_def st j)
qed


lemma turn_mem32:
  assumes "standard_bar ks c i (Mem32 k f)" "i < 6" "length (cf_bars c) = 6" "length as = 6"
    "allocate_bar rs i (c, b, as) = Some (j, c', b', as')" "bump_ok (pr_mem32 rs) (pb_mem32 b)" "bus_windows rs"
  shows "j = i + 1 \<and> turned rs (Mem32 k f) i (c, b, as) j (c', b', as')"
proof -
  have k: "4 \<le> k" "k < 32" and f: "f \<in> {0, 8}" and flags: "cf_bars c ! i AND 15 = f"
    and w: "cf_bar_write c i = (\<lambda>v. (v AND NOT (mask k)) OR f)"
    using assms(1) by auto
  have "cf_bars c ! i AND 1 = (cf_bars c ! i AND 15) AND 1" "cf_bars c ! i AND 6 = (cf_bars c ! i AND 15) AND 6"
    by (simp_all add: and.assoc)
  then have memory: "cf_bars c ! i AND 1 = 0" "cf_bars c ! i AND 6 = 0"
    unfolding flags using f by auto
  have low: "f AND NOT (mask 4) = 0" using f by (auto simp: mask_eq_exp_minus_1)
  have rback: "bar_length (NOT (mask k) OR f) 15 = Some (2 ^ k)"
    using bar_length_standard [OF low k(1)] k by (simp add: flag_masks)
  have "bit (NOT (mask k) OR f) k" using k by (simp add: bit_simps)
  then have "NOT (mask k) OR f \<noteq> 0" by auto
  then obtain q p s where q: "bar_alloc (pb_mem32 b) (pr_mem32 rs) (2 ^ k) = Some (q, p, s)" and j: "j = i + 1"
    and st: "c' = write_bar i (word_of_nat p OR f) (write_bar i 0xFFFFFFFF c)"
      "as' = as[i := \<lparr>ar_soc_offset = s, ar_length = 2 ^ k\<rparr>]"
    using assms(2,3,5) by (auto simp: allocate_bar_def Let_def w memory flags rback run_cases)
  note pl = placed [OF q assms(6)]
  have "p < 2 ^ 32" using pl(3) assms(7) by (simp add: bus_windows_def)
  then have "unat ((((word_of_nat p OR f) AND NOT (mask k)) OR f) AND NOT 15 :: u32) = p div 2 ^ k * 2 ^ k"
    using unat_register [OF low k(1)] by (simp add: flag_masks)
  then have "register_ok rs (Mem32 k f) (cf_bars c') i \<lparr>ar_soc_offset = s, ar_length = 2 ^ k\<rparr>"
    using assms(2,3,7) pl(1,2) by (simp add: register_ok_def st w small_size bus_windows_def)
  then show ?thesis
    using assms(2,3) by (auto simp: turned_def st j)
qed

lemma turn_mem64:
  assumes "standard_bar ks c i (Mem64 k f)" "length (cf_bars c) = 6" "length as = 6"
    "allocate_bar rs i (c, b, as) = Some (j, c', b', as')" "bump_ok (pr_mem64 rs) (pb_mem64 b)" "bus_windows rs"
  shows "j = i + 2 \<and> turned rs (Mem64 k f) i (c, b, as) j (c', b', as')"
proof -
  have k: "4 \<le> k" "k < 64" and f: "f \<in> {4, 12}" and flags: "cf_bars c ! i AND 15 = f" and i: "i + 1 < 6"
    and w: "cf_bar_write c i = (\<lambda>v. (v AND NOT (mask k)) OR f)"
      "cf_bar_write c (i + 1) = (\<lambda>v. v AND NOT (mask (k - 32)))"
    using assms(1) by auto
  note w' = w(1) w(2) [simplified]
  have "cf_bars c ! i AND 1 = (cf_bars c ! i AND 15) AND 1" "cf_bars c ! i AND 6 = (cf_bars c ! i AND 15) AND 6"
    by (simp_all add: and.assoc)
  then have memory: "cf_bars c ! i AND 1 = 0" "cf_bars c ! i AND 6 = 4"
    unfolding flags using f by auto
  have low: "f AND NOT (mask 4) = 0" "ucast f AND NOT (mask 4) = (0 :: u64)"
    using f by (auto simp: mask_eq_exp_minus_1)
  have rback: "bar_length (push_bit 32 (ucast (NOT (mask (k - 32)) :: u32)) OR ucast (NOT (mask k) OR f) :: u64) 15 =
      Some (2 ^ k)"
    unfolding wide_readback using bar_length_standard [OF low(2) k(1)] k by (simp add: flag_masks)
  have "NOT (mask k) OR f \<noteq> 0" using f by (auto simp: or_eq_0_iff)
  then obtain q p s where q: "bar_alloc (pb_mem64 b) (pr_mem64 rs) (2 ^ k) = Some (q, p, s)" and j: "j = i + 2"
    and st: "c' = write_bar (i + 1) (word_of_nat (p div 2 ^ 32))
        (write_bar i (word_of_nat p OR f) (write_bar (i + 1) 0xFFFFFFFF (write_bar i 0xFFFFFFFF c)))"
      "as' = as[i := \<lparr>ar_soc_offset = s, ar_length = 2 ^ k\<rparr>]"
    using assms(2,4) i by (auto simp: allocate_bar_def Let_def w' memory flags rback run_cases)
  note pl = placed [OF q assms(5)]
  have p: "p < 2 ^ 64" using pl(3) assms(6) by (simp add: bus_windows_def)
  have lo: "unat ((((word_of_nat (p mod 2 ^ 32) OR f) AND NOT (mask k)) OR f) AND NOT (mask 4) :: u32) =
      p mod 2 ^ 32 div 2 ^ k * 2 ^ k"
    by (rule unat_register [OF low(1) k(1)]) simp
  have hi: "unat (word_of_nat (p div 2 ^ 32) AND NOT (mask (k - 32)) :: u32) =
      p div 2 ^ 32 div 2 ^ (k - 32) * 2 ^ (k - 32)"
    by (rule unat_rounded) (use p in simp)
  have "(word_of_nat (p mod 2 ^ 32) :: u32) = word_of_nat p"
    by (rule bit_word_eqI) (simp only: bit_simps flip: take_bit_eq_mod, simp)
  note base = unat_halves [OF lo hi, unfolded this]
  have "answers_to rs (Mem64 k f) (cf_bars c') i = reached (pr_mem64 rs) (p div 2 ^ k * 2 ^ k) (2 ^ k)"
    using assms(2) i base by (simp add: st w' flag_masks)
  then have "register_ok rs (Mem64 k f) (cf_bars c') i \<lparr>ar_soc_offset = s, ar_length = 2 ^ k\<rparr>"
    using assms(6) pl(1,2) by (simp add: register_ok_def small_size bus_windows_def del: answers_to.simps)
  then show ?thesis
    using assms(2) i by (auto simp: turned_def st j)
qed

subsection \<open>All registers of a device\<close>

text \<open>
  The registers before \<open>i\<close> are dealt with; the others are as they were, and none of them is the upper
  half of one before.
\<close>

definition dealt_with ::
    "pci_ranges \<Rightarrow> bar_kind list \<Rightarrow> pci_config \<Rightarrow> nat \<Rightarrow> pci_config \<Rightarrow> allocated_range list \<Rightarrow> bool" where
  "dealt_with rs ks c0 i c as \<longleftrightarrow>
     i \<le> 6 \<and> (i < 6 \<longrightarrow> ks ! i \<noteq> UpperHalf) \<and> cf_bar_write c = cf_bar_write c0 \<and>
     length (cf_bars c) = 6 \<and> length as = 6 \<and>
     (\<forall>l<6. i \<le> l \<longrightarrow> cf_bars c ! l = cf_bars c0 ! l \<and> as ! l = \<lparr>ar_soc_offset = 0, ar_length = 0\<rparr>) \<and>
     (\<forall>l<i. register_ok rs (ks ! l) (cf_bars c) l (as ! l))"

lemma register_ok_frame:
  assumes "register_ok rs kind bars l a" "bars' ! l = bars ! l"
    "\<And>k f. kind = Mem64 k f \<Longrightarrow> bars' ! (l + 1) = bars ! (l + 1)"
  shows "register_ok rs kind bars' l a"
  using assms by (cases kind) (simp_all add: register_ok_def)

lemma standard_bar_now:
  assumes "standard_bar ks c0 i kind" "cf_bar_write c = cf_bar_write c0" "cf_bars c ! i = cf_bars c0 ! i"
  shows "standard_bar ks c i kind"
  using assms by (cases kind) simp_all

lemma turn:
  assumes "standard_device ks c0" "dealt_with rs ks c0 i c as" "i < 6" "bumps_ok rs b" "bus_windows rs"
    "allocate_bar rs i (c, b, as) = Some (j, c', b', as')"
  shows "turned rs (ks ! i) i (c, b, as) j (c', b', as') \<and> j = (case ks ! i of Mem64 k f \<Rightarrow> i + 2 | _ \<Rightarrow> i + 1)"
proof -
  have d: "ks ! i \<noteq> UpperHalf" "cf_bar_write c = cf_bar_write c0" "cf_bars c ! i = cf_bars c0 ! i"
    "as ! i = \<lparr>ar_soc_offset = 0, ar_length = 0\<rparr>" and len: "length (cf_bars c) = 6" "length as = 6"
    using assms(2,3) by (auto simp: dealt_with_def)
  have "standard_bar ks c0 i (ks ! i)" using assms(1,3) by (simp add: standard_device_def)
  note std = standard_bar_now [OF this d(2,3)]
  have ok: "bump_ok (pr_io rs) (pb_io b)" "bump_ok (pr_mem32 rs) (pb_mem32 b)" "bump_ok (pr_mem64 rs) (pb_mem64 b)"
    using assms(4) by (simp_all add: bumps_ok_def)
  show ?thesis
  proof (cases "ks ! i")
    case NoBar
    then show ?thesis using turn_none [OF _ assms(3) len d(4) assms(6)] std by auto
  next
    case (IoBar k)
    then show ?thesis using turn_io [where ks = ks and k = k, OF _ assms(3) len assms(6) ok(1) assms(5)] std by auto
  next
    case (Mem32 k f)
    then show ?thesis using turn_mem32 [where ks = ks and k = k and f = f, OF _ assms(3) len assms(6) ok(2) assms(5)] std by auto
  next
    case (Mem64 k f)
    then show ?thesis using turn_mem64 [where ks = ks and k = k and f = f, OF _ len assms(6) ok(3) assms(5)] std by auto
  next
    case UpperHalf
    with d(1) show ?thesis by simp
  qed
qed

lemma dealt_with_step:
  assumes "standard_device ks c0" "dealt_with rs ks c0 i c as" "i < 6" "bumps_ok rs b" "bus_windows rs"
    "allocate_bar rs i (c, b, as) = Some (j, c', b', as')"
  shows "dealt_with rs ks c0 j c' as'"
proof -
  have std: "\<And>l. l < 6 \<Longrightarrow> standard_bar ks c0 l (ks ! l)" using assms(1) by (simp add: standard_device_def)
  have d: "ks ! i \<noteq> UpperHalf" "cf_bar_write c = cf_bar_write c0" "length as = 6"
    "\<And>l. l < 6 \<Longrightarrow> i \<le> l \<Longrightarrow> cf_bars c ! l = cf_bars c0 ! l \<and> as ! l = \<lparr>ar_soc_offset = 0, ar_length = 0\<rparr>"
    "\<And>l. l < i \<Longrightarrow> register_ok rs (ks ! l) (cf_bars c) l (as ! l)"
    using assms(2,3) by (auto simp: dealt_with_def)
  obtain a where t: "cf_bar_write c' = cf_bar_write c" "length (cf_bars c') = 6"
    "\<And>l. l < i \<or> j \<le> l \<Longrightarrow> cf_bars c' ! l = cf_bars c ! l"
    "as' = as[i := a]" "register_ok rs (ks ! i) (cf_bars c') i a"
    and j: "j = (case ks ! i of Mem64 k f \<Rightarrow> i + 2 | _ \<Rightarrow> i + 1)"
    using turn [OF assms] by (auto simp: turned_def)
  have next_kind: "i < j" "j \<le> 6" "j < 6 \<longrightarrow> ks ! j \<noteq> UpperHalf" "j = i + 2 \<longrightarrow> ks ! (i + 1) = UpperHalf" "j \<le> i + 2"
    using j std [of i] std [of j] assms(3) by (cases "ks ! i"; force)+
  have before: "register_ok rs (ks ! l) (cf_bars c') l (as' ! l)" if "l < i" for l
  proof -
    have "l + 1 < i" if "ks ! l = Mem64 k f" for k f
      using std [of l] that d(1) \<open>l < i\<close> assms(3) by (cases "l + 1 = i") auto
    then show ?thesis
      using register_ok_frame [OF d(5) [OF that], of "cf_bars c'"] t(3,4) that by simp
  qed
  have "register_ok rs (ks ! l) (cf_bars c') l (as' ! l)" if "l < j" for l
  proof (cases l i rule: linorder_cases)
    case greater
    then have "l = i + 1" "j = i + 2" using that next_kind(5) by linarith+
    then show ?thesis
      using next_kind(2,4) d(4) [of l] t(4) by (simp add: register_ok_def range_of_def)
  qed (use before t(4,5) d(3) assms(3) in simp_all)
  then show ?thesis
    using next_kind d t by (simp add: dealt_with_def)
qed

lemma dealt_with_all:
  assumes "standard_device ks c0" "dealt_with rs ks c0 i c as" "windows_apart rs" "bumps_ok rs b" "bus_windows rs"
    "allocate_bars rs i (c, b, as) = Some (c', b', as')"
  shows "dealt_with rs ks c0 6 c' as'"
  using assms(2,4,6)
proof (induction "6 - i" arbitrary: i c b as rule: less_induct)
  case less
  show ?case
  proof (cases "i < 6")
    case True
    obtain j c1 b1 as1 where step: "allocate_bar rs i (c, b, as) = Some (j, c1, b1, as1)"
      "allocate_bars rs j (c1, b1, as1) = Some (c', b', as')"
      using less(4) True by (subst (asm) allocate_bars.simps) (auto split: option.splits)
    have "dealt_with rs ks c0 j c1 as1"
      by (rule dealt_with_step [OF assms(1) less(2) True less(3) assms(5) step(1)])
    moreover have "bumps_ok rs b1" using allocate_bar_ok [OF assms(3) less(3) step(1)] by simp
    ultimately show ?thesis
      using less(1) [of j c1 as1 b1] step allocate_bar_advances [OF step(1)] True by simp
  next
    case False
    moreover have "i \<le> 6" using less(2) by (simp add: dealt_with_def)
    ultimately have "i = 6" by simp
    with less(2,4) show ?thesis by (subst (asm) allocate_bars.simps) auto
  qed
qed

lemma device_registers:
  assumes "standard_device ks c" "windows_apart rs" "bumps_ok rs b" "bus_windows rs"
    "allocate_all_bars rs c b = Some (c', b', as)"
  shows "registers_ok rs ks (c', as)"
proof -
  have "dealt_with rs ks c 0 c (replicate 6 \<lparr>ar_soc_offset = 0, ar_length = 0\<rparr>)"
  proof -
    have "standard_bar ks c 0 (ks ! 0)" using assms(1) by (simp add: standard_device_def)
    then have "ks ! 0 \<noteq> UpperHalf" by auto
    then show ?thesis using assms(1) by (simp add: dealt_with_def standard_device_def)
  qed
  then have "dealt_with rs ks c 6 c' as"
    by (rule dealt_with_all [OF assms(1) _ assms(2-4)]) (use assms(5) in \<open>simp add: allocate_all_bars_def\<close>)
  then show ?thesis by (simp add: registers_ok_def dealt_with_def)
qed

subsection \<open>All devices of the bus\<close>

lemma devices_registers:
  assumes "windows_apart rs" "bus_windows rs" "bumps_ok rs b" "list_all2 standard_device kss cs"
    "allocate_devices rs cs b = Some (b', ds)"
  shows "list_all2 (registers_ok rs) kss ds"
  using assms(4,3,5)
proof (induction kss cs arbitrary: b ds rule: list_all2_induct)
  case (Cons ks kss c cs)
  obtain c' b1 as ds1 where step: "allocate_all_bars rs c b = Some (c', b1, as)"
    "allocate_devices rs cs b1 = Some (b', ds1)" "ds = (c', as) # ds1"
    using Cons.prems(2) by (auto simp: bind_eq_Some_conv)
  have "bumps_ok rs b1"
    using allocate_all_bars_ok [OF assms(1) Cons.prems(1) step(1)] bars_ok_apart(3) by blast
  with Cons.IH [OF _ step(2)] device_registers [OF Cons.hyps(1) assms(1) Cons.prems(1) assms(2) step(1)]
  show ?case by (simp add: step(3))
qed simp

text \<open>
  C29: When the windows of the device tree do not overlap, a scan of the bus gives all base address
  registers of all the devices it initialises address ranges that are pairwise disjoint, lie in the
  windows, and avoid what was in use before the scan.  For devices that follow the standard each range
  has the size of its register; and what was written to the registers makes each of them answer to
  exactly its range, read from the contents of the register through the window of the processor, if
  and only if the range is aligned to its size on the bus, which every register of up to 4 KiB is.
\<close>
theorem device_ranges_disjoint:
  assumes "windows_apart rs" "bus_windows rs" "bumps_ok rs (ps_bumps s)"
    "list_all2 standard_device kss (filter is_device configs)"
    "scan_devices dr pci plic rs n configs s = Some s'"
  shows "\<exists>ds. allocate_devices rs (filter is_device configs) (ps_bumps s) = Some (ps_bumps s', ds) \<and>
    sorted_wrt apart (concat (map snd ds)) \<and>
    (\<forall>a\<in>set (concat (map snd ds)). range_of a \<inter> used rs (ps_bumps s) = {} \<and>
       range_of a \<subseteq> window (pr_io rs) \<union> window (pr_mem32 rs) \<union> window (pr_mem64 rs)) \<and>
    list_all2 (registers_ok rs) kss ds"
proof -
  obtain ds where ds: "allocate_devices rs (filter is_device configs) (ps_bumps s) = Some (ps_bumps s', ds)"
    using scan_allocates [OF assms(5)] by blast
  have "range_of a \<inter> used rs (ps_bumps s) = {}" if "fresh rs (ps_bumps s) (ps_bumps s') a" for a
    using that by (auto simp: fresh_def)
  with allocate_devices_ok [OF assms(1,3) ds] ds devices_registers [OF assms(1-4) ds] show ?thesis
    unfolding fresh_def by blast
qed

subsection \<open>A bus with one device\<close>

text \<open>
  A drive with a register of 4 KiB and, behind it, one of 16 KiB in the same space, and one of 64 bits.  Allocation
  aligns both to 4 KiB, so the second register cannot hold its address: after the scan both
  registers hold the same one.
\<close>

definition demo_ranges :: pci_ranges where
  "demo_ranges =
     \<lparr>pr_io = \<lparr>pr_soc_base = 0x3000000, pr_pci_base = 0, pr_length = 0x10000\<rparr>,
      pr_mem32 = \<lparr>pr_soc_base = 0x40000000, pr_pci_base = 0x40000000, pr_length = 0x40000000\<rparr>,
      pr_mem64 = \<lparr>pr_soc_base = 0x400000000, pr_pci_base = 0x400000000, pr_length = 0x400000000\<rparr>\<rparr>"

definition demo_drive :: pci_config where
  "demo_drive =
     \<lparr>cf_bytes = [0xF4, 0x1A, 0x42, 0x10] @ replicate 57 0 @ [1], cf_command = 0, cf_bars = [0, 0, 0, 0, 12, 0],
      cf_bar_write = (\<lambda>i v.
        if i = 0 then v AND NOT 0xFFF else if i = 1 then v AND NOT 0x3FFF
        else if i = 4 then (v AND NOT 0x3FFF) OR 12 else if i = 5 then v else 0)\<rparr>"

lemma demo_bars:
  "map_option (\<lambda>(c, b, as). (cf_bars c, b, as)) (allocate_all_bars demo_ranges demo_drive (bumps_for demo_ranges)) =
     Some ([0x40000000, 0x40000000, 0, 0, 12, 4],
       (bumps_for demo_ranges)\<lparr>pb_mem32 := \<lparr>bump_start = 0x5000, bump_end = 0x40000000, allocated_bytes = 0x5000\<rparr>,
          pb_mem64 := \<lparr>bump_start = 0x4000, bump_end = 0x400000000, allocated_bytes = 0x4000\<rparr>\<rparr>,
       \<lparr>ar_soc_offset = 0x40000000, ar_length = 0x1000\<rparr> # \<lparr>ar_soc_offset = 0x40001000, ar_length = 0x4000\<rparr> #
         replicate 2 \<lparr>ar_soc_offset = 0, ar_length = 0\<rparr> @
         [\<lparr>ar_soc_offset = 0x400000000, ar_length = 0x4000\<rparr>, \<lparr>ar_soc_offset = 0, ar_length = 0\<rparr>])"
  by code_simp

lemma overlapping_registers:
  assumes "allocate_all_bars demo_ranges demo_drive (bumps_for demo_ranges) = Some (c, b, as)"
  shows "cf_bars c ! 0 = cf_bars c ! 1 \<and> ar_soc_offset (as ! 0) \<noteq> ar_soc_offset (as ! 1)"
  using demo_bars unfolding assms by simp

definition demo_pci :: fdt_node where
  "demo_pci =
     \<lparr>fn_address_cells = 3, fn_size_cells = 2, fn_interrupt_cells = Some 1,
      fn_property = [''interrupt-map-mask'' \<mapsto> [0, 0, 0x18, 0],
        ''interrupt-map'' \<mapsto> replicate 15 0 @ [1] @ replicate 7 0 @ [8]]\<rparr>"

definition demo_plic :: fdt_node where
  "demo_plic = \<lparr>fn_address_cells = 0, fn_size_cells = 0, fn_interrupt_cells = Some 1, fn_property = Map.empty\<rparr>"

definition demo_drivers :: "nat drivers" where
  "demo_drivers = \<lparr>dr_init = (\<lambda>kind c bars. Some 7), dr_is_keyboard = (\<lambda>_. False), dr_is_mouse = (\<lambda>_. False)\<rparr>"

definition demo_state :: "nat pci_state" where
  "demo_state =
     \<lparr>ps_bumps = bumps_for demo_ranges, ps_interrupts = interrupts_new, ps_net = None, ps_blk = None,
      ps_gpu = None, ps_keyboard = None, ps_mouse = None\<rparr>"

lemma demo_scan:
  "map_option ps_blk (scan_devices demo_drivers demo_pci demo_plic demo_ranges 0 [demo_drive] demo_state) = Some (Some 7)"
  by code_simp

definition demo_layout :: "bar_kind list" where
  "demo_layout = [Mem32 12 0, Mem32 14 0, NoBar, NoBar, Mem64 14 12, UpperHalf]"

lemma demo_standard: "standard_device demo_layout demo_drive"
proof -
  have "standard_bar demo_layout demo_drive i (demo_layout ! i)" if "i < 6" for i
  proof -
    have "i \<in> {0, 1, 2, 3, 4, 5}" using that by auto
    moreover have "(0xFFF :: u32) = mask 12" "(0x3FFF :: u32) = mask 14" by (simp_all add: mask_eq_exp_minus_1)
    ultimately show ?thesis by (auto simp: demo_layout_def demo_drive_def)
  qed
  then show ?thesis by (simp add: standard_device_def demo_layout_def demo_drive_def)
qed

lemma device_ranges_disjoint_witness:
  "\<exists>s' ds. scan_devices demo_drivers demo_pci demo_plic demo_ranges 0 [demo_drive] demo_state = Some s' \<and>
     allocate_devices demo_ranges [demo_drive] (bumps_for demo_ranges) = Some (ps_bumps s', ds) \<and>
     sorted_wrt apart (concat (map snd ds)) \<and> list_all2 (registers_ok demo_ranges) [demo_layout] ds"
proof -
  obtain s' where s': "scan_devices demo_drivers demo_pci demo_plic demo_ranges 0 [demo_drive] demo_state = Some s'"
    using demo_scan by auto
  have apart: "windows_apart demo_ranges" "bus_windows demo_ranges"
    by (auto simp: windows_apart_def window_def bus_windows_def demo_ranges_def)
  have ok: "bumps_ok demo_ranges (ps_bumps demo_state)"
    by (simp add: bumps_ok_def bump_ok_def demo_ranges_def bumps_for_def bump_new_def demo_state_def)
  have "is_device demo_drive" by code_simp
  then have dev: "filter is_device [demo_drive] = [demo_drive]" "ps_bumps demo_state = bumps_for demo_ranges"
    by (simp_all add: demo_state_def)
  have "list_all2 standard_device [demo_layout] (filter is_device [demo_drive])"
    unfolding dev by (simp add: demo_standard)
  from device_ranges_disjoint [OF apart ok this s'] s' show ?thesis
    unfolding dev by blast
qed

end
