(* ===== verification/Virtio.thy ===== *)
theory Virtio
  imports Memory_Layout Sync Bytes
begin

text \<open>
  Queues of virtio devices (\<open>kernel/src/virtio/queue.rs\<close>) and the driver of drives
  (\<open>kernel/src/virtio/blk.rs\<close>).

  A queue and the memory that the device reaches are values.  The device is a parameter: what it does
  to itself and to memory when it serves the chain of descriptors with a given head.  Memory is read
  and written by physical addresses, as the device does; objects of the kernel are given by their
  virtual addresses.
\<close>

subsection \<open>Memory\<close>

type_synonym bytes_at = "usize \<Rightarrow> u8"

definition put_bytes :: "usize \<Rightarrow> u8 list \<Rightarrow> bytes_at \<Rightarrow> bytes_at" where
  "put_bytes a bs m = (\<lambda>x. if a \<le> x \<and> x < a + length bs then bs ! (x - a) else m x)"

definition get_bytes :: "usize \<Rightarrow> nat \<Rightarrow> bytes_at \<Rightarrow> u8 list" where
  "get_bytes a n m = map (\<lambda>i. m (a + i)) [0..<n]"

subsection \<open>Queues\<close>

definition QUEUE_SIZE :: usize where
  "QUEUE_SIZE = 16"

record descriptor =
  d_address :: usize
  d_length :: nat
  d_flags :: u16
  d_next :: u16

text \<open>The queue without the index that the device writes.\<close>

record queue =
  q_descriptors :: "descriptor list"
  q_ring :: "u16 list"
  q_available :: u16

text \<open>The registers that a queue is announced with.\<close>

record virtio_common =
  vr_device_status :: u8
  vr_queue_select :: u16
  vr_queue_size :: u16
  vr_queue_desc :: usize
  vr_queue_driver :: usize
  vr_queue_device :: usize
  vr_queue_enable :: u16

definition VIRTQ_DESC_F_NEXT :: u16 where
  "VIRTQ_DESC_F_NEXT = 1"

definition VIRTQ_DESC_F_WRITE :: u16 where
  "VIRTQ_DESC_F_WRITE = 2"

definition descriptor_default :: descriptor where
  "descriptor_default = \<lparr>d_address = 0, d_length = 0, d_flags = 0, d_next = 0\<rparr>"

text \<open>
  \<open>Queue::new\<close>, with the virtual addresses at which its three parts were allocated; the rings are
  zeroed.
\<close>

definition queue_new ::
    "u16 \<Rightarrow> virtio_common \<Rightarrow> usize \<Rightarrow> usize \<Rightarrow> usize \<Rightarrow> usize \<Rightarrow> (queue \<times> virtio_common) run" where
  "queue_new index common sz descriptors_at available_at used_at = do {
     let common = common\<lparr>vr_queue_select := index\<rparr>;
     ensure (sz \<le> unat (vr_queue_size common));
     let common = common\<lparr>vr_queue_size := word_of_nat sz\<rparr>;
     d \<leftarrow> virt_to_phys descriptors_at;
     a \<leftarrow> virt_to_phys available_at;
     u \<leftarrow> virt_to_phys used_at;
     let common = common\<lparr>vr_queue_desc := d, vr_queue_driver := a, vr_queue_device := u, vr_queue_enable := 1\<rparr>;
     Some (\<lparr>q_descriptors = replicate sz descriptor_default, q_ring = replicate sz 0, q_available = 0\<rparr>, common) }"

definition put_descriptor :: "u16 \<Rightarrow> descriptor \<Rightarrow> queue \<Rightarrow> queue run" where
  "put_descriptor index d q = do {
     ensure (unat index < length (q_descriptors q));
     Some (q\<lparr>q_descriptors := (q_descriptors q)[unat index := d]\<rparr>) }"

text \<open>The data is given by its virtual address and its size.\<close>

definition descriptor_readonly :: "u16 \<Rightarrow> usize \<Rightarrow> nat \<Rightarrow> u16 option \<Rightarrow> queue \<Rightarrow> queue run" where
  "descriptor_readonly index data n next q = do {
     phys \<leftarrow> virt_to_phys data;
     put_descriptor index
       \<lparr>d_address = phys, d_length = n, d_flags = (if next \<noteq> None then VIRTQ_DESC_F_NEXT else 0),
        d_next = (case next of Some j \<Rightarrow> j | None \<Rightarrow> 0)\<rparr> q }"

definition descriptor_writeonly :: "u16 \<Rightarrow> usize \<Rightarrow> nat \<Rightarrow> u16 option \<Rightarrow> queue \<Rightarrow> queue run" where
  "descriptor_writeonly index data n next q = do {
     phys \<leftarrow> virt_to_phys data;
     put_descriptor index
       \<lparr>d_address = phys, d_length = n,
        d_flags = VIRTQ_DESC_F_WRITE OR (if next \<noteq> None then VIRTQ_DESC_F_NEXT else 0),
        d_next = (case next of Some j \<Rightarrow> j | None \<Rightarrow> 0)\<rparr> q }"

text \<open>
  The other side: the device, memory and the index of the used ring, which wraps around.  On a
  notification the device serves the entry of the ring that comes next.
\<close>

type_synonym 'd device = "'d \<Rightarrow> bytes_at \<Rightarrow> descriptor list \<Rightarrow> u16 \<Rightarrow> 'd \<times> bytes_at"

record 'd world =
  w_dev :: 'd
  w_mem :: bytes_at
  w_used :: u16

definition notify :: "'d device \<Rightarrow> queue \<Rightarrow> 'd world \<Rightarrow> 'd world" where
  "notify serve q w =
     (let head = q_ring q ! (unat (w_used w) mod length (q_ring q));
          (d, m) = serve (w_dev w) (w_mem w) (q_descriptors q) head
      in w\<lparr>w_dev := d, w_mem := m, w_used := w_used w + 1\<rparr>)"

text \<open>
  \<open>send_and_recv\<close>: the index is checked for overflow when it is advanced.  The loop that waits reads
  the index of the used ring; after the notification nothing changes it any more, so it ends at once
  or never.
\<close>

definition send_and_recv :: "'d device \<Rightarrow> u16 \<Rightarrow> queue \<Rightarrow> 'd world \<Rightarrow> (queue \<times> 'd world) run" where
  "send_and_recv serve descriptor q w = do {
     i \<leftarrow> urem (unat (q_available q)) (length (q_descriptors q));
     ensure (i < length (q_ring q));
     let q = q\<lparr>q_ring := (q_ring q)[i := descriptor]\<rparr>;
     ensure (q_available q \<noteq> -1);
     let q = q\<lparr>q_available := q_available q + 1\<rparr>;
     let w = notify serve q w;
     if w_used w < q_available q then None else Some (q, w) }"

subsection \<open>The driver of drives\<close>

definition SECTOR_SIZE :: usize where
  "SECTOR_SIZE = 512"

definition VIRTIO_BLK_T_IN :: nat where
  "VIRTIO_BLK_T_IN = 0"

definition VIRTIO_BLK_T_OUT :: nat where
  "VIRTIO_BLK_T_OUT = 1"

datatype blk_error = VirtioBlkError

text \<open>Where the header and the status of a request are on the stack.\<close>

record blk_frame =
  bf_header :: usize
  bf_status :: usize

definition header_bytes :: "nat \<Rightarrow> nat \<Rightarrow> u8 list" where
  "header_bytes type sector = nat_bytes 4 type @ nat_bytes 4 0 @ nat_bytes 8 sector"

definition result_from_status :: "u8 \<Rightarrow> (blk_error + unit) run" where
  "result_from_status status =
     (if status = 0 then Some (Inr ())
      else if status = 1 then Some (Inl VirtioBlkError)
      else None)"

definition put_object :: "usize \<Rightarrow> u8 list \<Rightarrow> 'd world \<Rightarrow> 'd world run" where
  "put_object a bs w = do {
     p \<leftarrow> virt_to_phys a;
     Some (w\<lparr>w_mem := put_bytes p bs (w_mem w)\<rparr>) }"

definition get_object :: "usize \<Rightarrow> nat \<Rightarrow> 'd world \<Rightarrow> u8 list run" where
  "get_object a n w = do {
     p \<leftarrow> virt_to_phys a;
     Some (get_bytes p n (w_mem w)) }"

text \<open>\<open>VirtioBlk\<close>: a queue behind a mutex.  \<open>VirtioBlk::new\<close> resets the device, whose capacity in
  bytes is logged, and sets it up.\<close>

definition blk_new ::
    "nat \<Rightarrow> virtio_common \<Rightarrow> usize \<Rightarrow> usize \<Rightarrow> usize \<Rightarrow> (queue mutex \<times> virtio_common) run" where
  "blk_new capacity common descriptors_at available_at used_at = do {
     let common = common\<lparr>vr_device_status := 0\<rparr>;
     let common = common\<lparr>vr_device_status := vr_device_status common OR 1\<rparr>;
     let common = common\<lparr>vr_device_status := vr_device_status common OR 2\<rparr>;
     _ \<leftarrow> umul capacity SECTOR_SIZE;
     (q, common) \<leftarrow> queue_new 0 common QUEUE_SIZE descriptors_at available_at used_at;
     let common = common\<lparr>vr_device_status := vr_device_status common OR 4\<rparr>;
     Some (mutex_new q, common) }"

definition blk_read ::
    "'d device \<Rightarrow> blk_frame \<Rightarrow> nat \<Rightarrow> usize \<Rightarrow> queue mutex \<Rightarrow> 'd world \<Rightarrow>
     ((blk_error + unit) \<times> queue mutex \<times> 'd world) run" where
  "blk_read serve f sector buf blk w = do {
     w \<leftarrow> put_object (bf_header f) (header_bytes VIRTIO_BLK_T_IN sector) w;
     (m, q) \<leftarrow> mutex_lock blk;
     w \<leftarrow> put_object (bf_status f) [0] w;
     q \<leftarrow> descriptor_readonly 0 (bf_header f) 16 (Some 1) q;
     q \<leftarrow> descriptor_writeonly 1 buf SECTOR_SIZE (Some 2) q;
     q \<leftarrow> descriptor_writeonly 2 (bf_status f) 1 None q;
     (q, w) \<leftarrow> send_and_recv serve 0 q w;
     status \<leftarrow> get_object (bf_status f) 1 w;
     r \<leftarrow> result_from_status (hd status);
     Some (r, mutex_unlock m q, w) }"

definition blk_write ::
    "'d device \<Rightarrow> blk_frame \<Rightarrow> nat \<Rightarrow> usize \<Rightarrow> queue mutex \<Rightarrow> 'd world \<Rightarrow>
     ((blk_error + unit) \<times> queue mutex \<times> 'd world) run" where
  "blk_write serve f sector buf blk w = do {
     w \<leftarrow> put_object (bf_header f) (header_bytes VIRTIO_BLK_T_OUT sector) w;
     (m, q) \<leftarrow> mutex_lock blk;
     w \<leftarrow> put_object (bf_status f) [0] w;
     q \<leftarrow> descriptor_readonly 0 (bf_header f) 16 (Some 1) q;
     q \<leftarrow> descriptor_readonly 1 buf SECTOR_SIZE (Some 2) q;
     q \<leftarrow> descriptor_writeonly 2 (bf_status f) 1 None q;
     (q, w) \<leftarrow> send_and_recv serve 0 q w;
     status \<leftarrow> get_object (bf_status f) 1 w;
     r \<leftarrow> result_from_status (hd status);
     Some (r, mutex_unlock m q, w) }"

text \<open>
  The server of the \<open>drive\<close> interface.  The buffer of \<open>read\<close> is allocated, and that of \<open>write\<close> is the
  message; \<open>buf\<close> is where it is.
\<close>

definition drive_read ::
    "'d device \<Rightarrow> blk_frame \<Rightarrow> usize \<Rightarrow> nat \<Rightarrow> queue mutex \<Rightarrow> 'd world \<Rightarrow>
     (u8 list \<times> queue mutex \<times> 'd world) run" where
  "drive_read serve f buf sector blk w = do {
     w \<leftarrow> put_object buf (replicate SECTOR_SIZE 0) w;
     (r, blk, w) \<leftarrow> blk_read serve f sector buf blk w;
     ensure (r = Inr ());
     data \<leftarrow> get_object buf SECTOR_SIZE w;
     Some (data, blk, w) }"

definition drive_write ::
    "'d device \<Rightarrow> blk_frame \<Rightarrow> usize \<Rightarrow> nat \<Rightarrow> u8 list \<Rightarrow> queue mutex \<Rightarrow> 'd world \<Rightarrow>
     (queue mutex \<times> 'd world) run" where
  "drive_write serve f buf sector data blk w = do {
     ensure (length data = SECTOR_SIZE);
     w \<leftarrow> put_object buf data w;
     (r, blk, w) \<leftarrow> blk_write serve f sector buf blk w;
     ensure (r = Inr ());
     Some (blk, w) }"

text \<open>
  \<open>read_mapped\<close> only records the region; its size is checked.  A page of it is read when it is first
  touched, eight sectors into the page at \<open>page_at\<close>.
\<close>

definition drive_read_mapped :: "nat \<Rightarrow> nat \<Rightarrow> (nat \<times> usize) run" where
  "drive_read_mapped first_sector sector_count = do {
     ensure (sector_count < usize_end);
     n \<leftarrow> umul sector_count SECTOR_SIZE;
     ensure (is_multiple_of n PAGE_SIZE);
     Some (first_sector, n) }"

fun load_blocks ::
    "'d device \<Rightarrow> blk_frame \<Rightarrow> nat \<Rightarrow> usize \<Rightarrow> nat list \<Rightarrow> queue mutex \<Rightarrow> 'd world \<Rightarrow>
     (queue mutex \<times> 'd world) run" where
  "load_blocks serve f sector_offset page_at [] blk w = Some (blk, w)"
| "load_blocks serve f sector_offset page_at (i # is') blk w = do {
     s \<leftarrow> uadd sector_offset i;
     (r, blk, w) \<leftarrow> blk_read serve f s (page_at + SECTOR_SIZE * i) blk w;
     ensure (r = Inr ());
     load_blocks serve f sector_offset page_at is' blk w }"

definition region_load_page ::
    "'d device \<Rightarrow> blk_frame \<Rightarrow> nat \<Rightarrow> usize \<Rightarrow> usize \<Rightarrow> queue mutex \<Rightarrow> 'd world \<Rightarrow>
     (queue mutex \<times> 'd world) run" where
  "region_load_page serve f region_offset page_index page_at blk w = do {
     n \<leftarrow> umul page_index PAGE_SIZE;
     sector_offset \<leftarrow> uadd region_offset (n div SECTOR_SIZE);
     w \<leftarrow> put_object page_at (replicate PAGE_SIZE 0) w;
     load_blocks serve f sector_offset page_at [0..<PAGE_SIZE div SECTOR_SIZE] blk w }"

end
