(* ===== verification/Virtio_Correct.thy ===== *)
theory Virtio_Correct
  imports Virtio
begin

text \<open>
  The driver of drives against an abstract disk: over any sequence of reads and writes it returns what
  the disk holds, as long as there are at most 65535 of them.  The next one panics the kernel.

  \<open>serves_drive\<close> is the documented behaviour of a block device on the requests that the driver makes;
  \<open>ideal_serve\<close> is a device that has it.
\<close>

subsection \<open>The device\<close>

definition apart_bytes :: "usize \<Rightarrow> nat \<Rightarrow> usize \<Rightarrow> nat \<Rightarrow> bool" where
  "apart_bytes a n b k \<longleftrightarrow> a + n \<le> b \<or> b + k \<le> a"

definition blk_chain :: "descriptor list \<Rightarrow> usize \<Rightarrow> usize \<Rightarrow> usize \<Rightarrow> u16 \<Rightarrow> bool" where
  "blk_chain ds h b s flags \<longleftrightarrow>
     ds ! 0 = \<lparr>d_address = h, d_length = 16, d_flags = 1, d_next = 1\<rparr> \<and>
     ds ! 1 = \<lparr>d_address = b, d_length = 512, d_flags = flags, d_next = 2\<rparr> \<and>
     ds ! 2 = \<lparr>d_address = s, d_length = 1, d_flags = 2, d_next = 0\<rparr>"

text \<open>
  The answer of the device: a sector of the disk, into memory or out of it, and status 0; or status 1
  when there is no such sector.
\<close>

definition serves_drive ::
    "'d device \<Rightarrow> ('d \<Rightarrow> nat \<Rightarrow> u8 list) \<Rightarrow> ('d \<Rightarrow> nat) \<Rightarrow> bool" where
  "serves_drive serve contents capacity \<longleftrightarrow>
     (\<forall>d m ds h b s sector. apart_bytes b 512 s 1 \<and> sector < usize_end \<longrightarrow>
        (blk_chain ds h b s 3 \<and> get_bytes h 16 m = header_bytes 0 sector \<longrightarrow>
           (let (d', m') = serve d m ds 0
            in contents d' = contents d \<and> capacity d' = capacity d \<and>
               (if sector < capacity d then m' s = 0 \<and> get_bytes b 512 m' = contents d sector
                else m' s = 1))) \<and>
        (blk_chain ds h b s 1 \<and> get_bytes h 16 m = header_bytes 1 sector \<longrightarrow>
           (let (d', m') = serve d m ds 0
            in capacity d' = capacity d \<and>
               (if sector < capacity d
                then m' s = 0 \<and> contents d' = (contents d)(sector := get_bytes b 512 m)
                else m' s = 1 \<and> contents d' = contents d))))"

lemma serves_read:
  assumes "serves_drive serve contents capacity" "apart_bytes b 512 s 1" "sector < usize_end"
    "blk_chain ds h b s 3" "get_bytes h 16 m = header_bytes 0 sector" "serve d m ds 0 = (d', m')"
  shows "contents d' = contents d" "capacity d' = capacity d"
    "if sector < capacity d then m' s = 0 \<and> get_bytes b 512 m' = contents d sector else m' s = 1"
proof -
  have "let (d', m') = serve d m ds 0
    in contents d' = contents d \<and> capacity d' = capacity d \<and>
       (if sector < capacity d then m' s = 0 \<and> get_bytes b 512 m' = contents d sector else m' s = 1)"
    using assms(1-5) unfolding serves_drive_def by blast
  then show "contents d' = contents d" "capacity d' = capacity d"
    "if sector < capacity d then m' s = 0 \<and> get_bytes b 512 m' = contents d sector else m' s = 1"
    using assms(6) by simp_all
qed

lemma serves_write:
  assumes "serves_drive serve contents capacity" "apart_bytes b 512 s 1" "sector < usize_end"
    "blk_chain ds h b s 1" "get_bytes h 16 m = header_bytes 1 sector" "serve d m ds 0 = (d', m')"
  shows "capacity d' = capacity d"
    "if sector < capacity d then m' s = 0 \<and> contents d' = (contents d)(sector := get_bytes b 512 m)
     else m' s = 1 \<and> contents d' = contents d"
proof -
  have "let (d', m') = serve d m ds 0
    in capacity d' = capacity d \<and>
       (if sector < capacity d then m' s = 0 \<and> contents d' = (contents d)(sector := get_bytes b 512 m)
        else m' s = 1 \<and> contents d' = contents d)"
    using assms(1-5) unfolding serves_drive_def by blast
  then show "capacity d' = capacity d"
    "if sector < capacity d then m' s = 0 \<and> contents d' = (contents d)(sector := get_bytes b 512 m)
     else m' s = 1 \<and> contents d' = contents d"
    using assms(6) by simp_all
qed

lemma get_put_same: "length bs = n \<Longrightarrow> get_bytes a n (put_bytes a bs m) = bs"
  by (auto simp: get_bytes_def put_bytes_def intro: nth_equalityI)

lemma get_put_other: "apart_bytes a n b (length bs) \<Longrightarrow> get_bytes a n (put_bytes b bs m) = get_bytes a n m"
  by (auto simp: get_bytes_def put_bytes_def apart_bytes_def)

lemma length_get_bytes [simp]: "length (get_bytes a n m) = n"
  by (simp add: get_bytes_def)

lemma length_header [simp]: "length (header_bytes type sector) = 16"
  by (simp add: header_bytes_def)

subsection \<open>One request\<close>

text \<open>
  Where a request has its parts, and that they do not overlap; the driver and the device agree on the
  number \<open>n\<close> of requests so far.
\<close>

definition frame_at :: "blk_frame \<Rightarrow> usize \<Rightarrow> usize \<Rightarrow> usize \<Rightarrow> usize \<Rightarrow> bool" where
  "frame_at f buf h b s \<longleftrightarrow>
     virt_to_phys (bf_header f) = Some h \<and> virt_to_phys buf = Some b \<and> virt_to_phys (bf_status f) = Some s \<and>
     apart_bytes h 16 b 512 \<and> apart_bytes h 16 s 1 \<and> apart_bytes b 512 s 1"

definition in_step :: "nat \<Rightarrow> queue mutex \<Rightarrow> 'd world \<Rightarrow> bool" where
  "in_step n blk w \<longleftrightarrow>
     n < 65536 \<and> \<not> mx_locked blk \<and> length (q_descriptors (mx_value blk)) = 16 \<and>
     length (q_ring (mx_value blk)) = 16 \<and> q_available (mx_value blk) = word_of_nat n \<and>
     w_used w = word_of_nat n"

lemma unat_u16_small: "n < 65536 \<Longrightarrow> unat (word_of_nat n :: u16) = n"
  by (simp add: unsigned_of_nat take_bit_nat_eq_self)

text \<open>What sending does to a queue whose three descriptors are set up.\<close>

lemma send_in_step:
  assumes "in_step n (mutex_new q) w" "n < 65535" "serve (w_dev w) (w_mem w) (q_descriptors q) 0 = (d, m)"
  shows "\<exists>q'. send_and_recv serve 0 q w = Some (q', w\<lparr>w_dev := d, w_mem := m, w_used := word_of_nat (n + 1)\<rparr>) \<and>
    in_step (n + 1) (mutex_new q') (w\<lparr>w_dev := d, w_mem := m, w_used := word_of_nat (n + 1)\<rparr>)"
proof -
  have q: "length (q_descriptors q) = 16" "length (q_ring q) = 16" "q_available q = word_of_nat n" "w_used w = word_of_nat n"
    using assms(1) by (auto simp: in_step_def mutex_new_def)
  have u: "unat (word_of_nat n :: u16) = n" using assms(2) by (simp add: unat_u16_small)
  have "(word_of_nat n :: u16) \<noteq> -1"
  proof
    assume "(word_of_nat n :: u16) = -1"
    then have "unat (word_of_nat n :: u16) = 65535"
      by (simp add: unsigned_minus_1_eq_mask mask_eq_exp_minus_1)
    with u assms(2) show False by simp
  qed
  then show ?thesis
    using q u assms(2,3)
    by (simp add: send_and_recv_def notify_def in_step_def mutex_new_def bind_eq_Some_conv add.commute)
qed

lemma send_overflows:
  assumes "q_available q = word_of_nat 65535"
  shows "send_and_recv serve 0 q w = None"
  using assms by (auto simp: send_and_recv_def bind_eq_None_conv)

text \<open>The queue as the driver sets it up for a request, and that the device sees its chain.\<close>

definition blk_queue :: "queue \<Rightarrow> usize \<Rightarrow> usize \<Rightarrow> usize \<Rightarrow> u16 \<Rightarrow> queue" where
  "blk_queue q h b s flags =
     q\<lparr>q_descriptors := (q_descriptors q)
       [0 := \<lparr>d_address = h, d_length = 16, d_flags = 1, d_next = 1\<rparr>,
        1 := \<lparr>d_address = b, d_length = 512, d_flags = flags, d_next = 2\<rparr>,
        2 := \<lparr>d_address = s, d_length = 1, d_flags = 2, d_next = 0\<rparr>]\<rparr>"

lemma blk_queue_chain:
  "length (q_descriptors q) = 16 \<Longrightarrow> blk_chain (q_descriptors (blk_queue q h b s flags)) h b s flags"
  by (simp add: blk_queue_def blk_chain_def)

text \<open>Memory when the device is notified.\<close>

definition request_memory :: "usize \<Rightarrow> usize \<Rightarrow> nat \<Rightarrow> nat \<Rightarrow> bytes_at \<Rightarrow> bytes_at" where
  "request_memory h s type sector m = put_bytes s [0] (put_bytes h (header_bytes type sector) m)"

lemma request_memory_header:
  assumes "apart_bytes h 16 s 1"
  shows "get_bytes h 16 (request_memory h s type sector m) = header_bytes type sector"
  using assms by (simp add: request_memory_def get_put_other get_put_same)

lemma request_memory_buffer:
  assumes "apart_bytes h 16 b 512" "apart_bytes b 512 s 1"
  shows "get_bytes b 512 (request_memory h s type sector m) = get_bytes b 512 m"
proof -
  have "apart_bytes b 512 h 16" using assms(1) by (auto simp: apart_bytes_def)
  with assms(2) show ?thesis by (simp add: request_memory_def get_put_other)
qed

text \<open>What is left of both operations of the driver, once their assertions are discharged.\<close>

definition finish_request :: "'d device \<Rightarrow> usize \<Rightarrow> queue \<Rightarrow> 'd world \<Rightarrow> ((blk_error + unit) \<times> queue mutex \<times> 'd world) run" where
  "finish_request serve s q w = do {
     (q, w) \<leftarrow> send_and_recv serve 0 q w;
     r \<leftarrow> result_from_status (w_mem w s);
     Some (r, mutex_new q, w) }"

lemma mutex_new_eq: "\<not> mx_locked blk \<Longrightarrow> mutex_new (mx_value blk) = blk"
  by (cases blk) (simp add: mutex_new_def)

lemma blk_operations:
  assumes "frame_at f buf h b s" "in_step n blk w"
  shows "blk_read serve f sector buf blk w =
      finish_request serve s (blk_queue (mx_value blk) h b s 3) (w\<lparr>w_mem := request_memory h s 0 sector (w_mem w)\<rparr>)"
    and "blk_write serve f sector buf blk w =
      finish_request serve s (blk_queue (mx_value blk) h b s 1) (w\<lparr>w_mem := request_memory h s 1 sector (w_mem w)\<rparr>)"
proof -
  obtain q where blk: "blk = mutex_new q"
    using assms(2) mutex_new_eq [of blk, symmetric] unfolding in_step_def by blast
  have "length (q_descriptors q) = 16" using assms(2) blk by (simp add: in_step_def mutex_new_def)
  moreover from this have "q_descriptors q \<noteq> []" by auto
  ultimately show "blk_read serve f sector buf blk w =
      finish_request serve s (blk_queue (mx_value blk) h b s 3) (w\<lparr>w_mem := request_memory h s 0 sector (w_mem w)\<rparr>)"
    and "blk_write serve f sector buf blk w =
      finish_request serve s (blk_queue (mx_value blk) h b s 1) (w\<lparr>w_mem := request_memory h s 1 sector (w_mem w)\<rparr>)"
    using assms(1) unfolding blk
    by (simp_all add: frame_at_def blk_read_def blk_write_def finish_request_def put_object_def
        get_object_def mutex_lock_def descriptor_readonly_def descriptor_writeonly_def put_descriptor_def
        VIRTQ_DESC_F_NEXT_def VIRTQ_DESC_F_WRITE_def VIRTIO_BLK_T_IN_def VIRTIO_BLK_T_OUT_def SECTOR_SIZE_def
        blk_queue_def request_memory_def mutex_unlock_def mutex_new_def get_bytes_def split_def)
qed

lemma blk_queue_in_step:
  assumes "in_step n blk w"
  shows "in_step n (mutex_new (blk_queue (mx_value blk) h b s flags)) (w\<lparr>w_mem := m\<rparr>)"
    "blk_chain (q_descriptors (blk_queue (mx_value blk) h b s flags)) h b s flags"
  using assms blk_queue_chain [of "mx_value blk"] by (simp_all add: in_step_def blk_queue_def mutex_new_def)

subsection \<open>The drive and the disk\<close>

text \<open>A read gives the sector of the disk and leaves the disk, or panics where there is none.\<close>

lemma drive_read_in_step:
  assumes "serves_drive serve contents capacity" "frame_at f buf h b s" "in_step n blk w" "n < 65535"
    "sector < usize_end"
  shows "if sector < capacity (w_dev w)
    then \<exists>blk' w'. drive_read serve f buf sector blk w = Some (contents (w_dev w) sector, blk', w') \<and>
      in_step (n + 1) blk' w' \<and> contents (w_dev w') = contents (w_dev w) \<and> capacity (w_dev w') = capacity (w_dev w)
    else drive_read serve f buf sector blk w = None"
proof -
  note frame = assms(2) [unfolded frame_at_def]
  let ?w = "w\<lparr>w_mem := put_bytes b (replicate 512 0) (w_mem w)\<rparr>"
  let ?q = "blk_queue (mx_value blk) h b s 3" and ?m = "request_memory h s 0 sector (w_mem ?w)"
  have step: "in_step n blk ?w" using assms(3) by (simp add: in_step_def)
  obtain d m where dm: "serve (w_dev w) ?m (q_descriptors ?q) 0 = (d, m)" by fastforce
  have dev: "contents d = contents (w_dev w)" "capacity d = capacity (w_dev w)"
    "if sector < capacity (w_dev w) then m s = 0 \<and> get_bytes b 512 m = contents (w_dev w) sector else m s = 1"
    using serves_read [OF assms(1) _ assms(5) blk_queue_in_step(2) [OF step] request_memory_header dm] frame by simp_all
  obtain q' where q': "send_and_recv serve 0 ?q (?w\<lparr>w_mem := ?m\<rparr>) =
      Some (q', ?w\<lparr>w_dev := d, w_mem := m, w_used := word_of_nat (n + 1)\<rparr>)"
    "in_step (n + 1) (mutex_new q') (?w\<lparr>w_dev := d, w_mem := m, w_used := word_of_nat (n + 1)\<rparr>)"
    using send_in_step [OF blk_queue_in_step(1) [OF step, of h b s 3 ?m] assms(4), of serve d m] dm by auto
  have "drive_read serve f buf sector blk w = do {
      (r, blk, w) \<leftarrow> finish_request serve s ?q (?w\<lparr>w_mem := ?m\<rparr>);
      ensure (r = Inr ());
      Some (get_bytes b 512 (w_mem w), blk, w) }"
    using frame blk_operations(1) [OF assms(2) step]
    by (simp add: drive_read_def put_object_def get_object_def SECTOR_SIZE_def)
  with q' dev show ?thesis
    by (auto simp: finish_request_def result_from_status_def)
qed

text \<open>A write stores the data in the sector, or panics.\<close>

lemma drive_write_in_step:
  assumes "serves_drive serve contents capacity" "frame_at f buf h b s" "in_step n blk w" "n < 65535"
    "sector < usize_end"
  shows "if sector < capacity (w_dev w) \<and> length data = 512
    then \<exists>blk' w'. drive_write serve f buf sector data blk w = Some (blk', w') \<and> in_step (n + 1) blk' w' \<and>
      contents (w_dev w') = (contents (w_dev w))(sector := data) \<and> capacity (w_dev w') = capacity (w_dev w)
    else drive_write serve f buf sector data blk w = None"
proof (cases "length data = 512")
  case True
  note frame = assms(2) [unfolded frame_at_def]
  let ?w = "w\<lparr>w_mem := put_bytes b data (w_mem w)\<rparr>"
  let ?q = "blk_queue (mx_value blk) h b s 1" and ?m = "request_memory h s 1 sector (w_mem ?w)"
  have step: "in_step n blk ?w" using assms(3) by (simp add: in_step_def)
  obtain d m where dm: "serve (w_dev w) ?m (q_descriptors ?q) 0 = (d, m)" by fastforce
  have data: "get_bytes b 512 ?m = data"
    using frame True by (simp add: request_memory_buffer get_put_same)
  have dev: "capacity d = capacity (w_dev w)"
    "if sector < capacity (w_dev w) then m s = 0 \<and> contents d = (contents (w_dev w))(sector := data) else m s = 1"
    using serves_write [OF assms(1) _ assms(5) blk_queue_in_step(2) [OF step] request_memory_header dm] frame
    unfolding data by (auto split: if_splits)
  obtain q' where q': "send_and_recv serve 0 ?q (?w\<lparr>w_mem := ?m\<rparr>) =
      Some (q', ?w\<lparr>w_dev := d, w_mem := m, w_used := word_of_nat (n + 1)\<rparr>)"
    "in_step (n + 1) (mutex_new q') (?w\<lparr>w_dev := d, w_mem := m, w_used := word_of_nat (n + 1)\<rparr>)"
    using send_in_step [OF blk_queue_in_step(1) [OF step, of h b s 1 ?m] assms(4), of serve d m] dm by auto
  have "drive_write serve f buf sector data blk w = do {
      (r, blk, w) \<leftarrow> finish_request serve s ?q (?w\<lparr>w_mem := ?m\<rparr>);
      ensure (r = Inr ());
      Some (blk, w) }"
    using frame blk_operations(2) [OF assms(2) step] True
    by (simp add: drive_write_def put_object_def SECTOR_SIZE_def)
  with q' dev True show ?thesis
    by (auto simp: finish_request_def result_from_status_def)
qed (simp add: drive_write_def SECTOR_SIZE_def)

text \<open>After 65535 requests the next one panics.\<close>

lemma drive_overflows:
  assumes "frame_at f buf h b s" "in_step 65535 blk w"
  shows "drive_read serve f buf sector blk w = None" "drive_write serve f buf sector data blk w = None"
proof -
  have step: "in_step 65535 blk (w\<lparr>w_mem := m\<rparr>)" for m using assms(2) by (simp add: in_step_def)
  have none: "finish_request serve s (blk_queue (mx_value blk) h b s flags) w' = None" for flags w'
    using assms(2) send_overflows [of "blk_queue (mx_value blk) h b s flags" serve]
    by (simp add: finish_request_def in_step_def blk_queue_def)
  show "drive_read serve f buf sector blk w = None" "drive_write serve f buf sector data blk w = None"
    using assms(1) blk_operations [OF assms(1) step] none
    by (simp_all add: drive_read_def drive_write_def put_object_def frame_at_def SECTOR_SIZE_def bind_eq_None_conv)
qed

subsection \<open>Sequences of requests\<close>

datatype drive_request =
  DriveRead nat
| DriveWrite nat "u8 list"

fun request_sector :: "drive_request \<Rightarrow> nat" where
  "request_sector (DriveRead sector) = sector"
| "request_sector (DriveWrite sector data) = sector"

text \<open>Each request with the addresses of its parts; the results of the reads.\<close>

fun drive_run ::
    "'d device \<Rightarrow> (blk_frame \<times> usize \<times> drive_request) list \<Rightarrow> queue mutex \<Rightarrow> 'd world \<Rightarrow> u8 list list run" where
  "drive_run serve [] blk w = Some []"
| "drive_run serve ((f, buf, DriveRead sector) # rs) blk w = do {
     (data, blk, w) \<leftarrow> drive_read serve f buf sector blk w;
     out \<leftarrow> drive_run serve rs blk w;
     Some (data # out) }"
| "drive_run serve ((f, buf, DriveWrite sector data) # rs) blk w = do {
     (blk, w) \<leftarrow> drive_write serve f buf sector data blk w;
     drive_run serve rs blk w }"

text \<open>The specification: a disk is an array of sectors.\<close>

fun disk_run :: "nat \<Rightarrow> (nat \<Rightarrow> u8 list) \<Rightarrow> drive_request list \<Rightarrow> u8 list list option" where
  "disk_run capacity disk [] = Some []"
| "disk_run capacity disk (DriveRead sector # rs) =
     (if sector < capacity then map_option (Cons (disk sector)) (disk_run capacity disk rs) else None)"
| "disk_run capacity disk (DriveWrite sector data # rs) =
     (if sector < capacity \<and> length data = 512 then disk_run capacity (disk(sector := data)) rs else None)"

definition drive_request_ok :: "blk_frame \<times> usize \<times> drive_request \<Rightarrow> bool" where
  "drive_request_ok r \<longleftrightarrow>
     (case r of (f, buf, req) \<Rightarrow> (\<exists>h b s. frame_at f buf h b s) \<and> request_sector req < usize_end)"

lemma drive_run_in_step:
  assumes "serves_drive serve contents capacity" "in_step n blk w" "list_all drive_request_ok rs" "n \<le> 65535"
  shows "drive_run serve rs blk w =
    (if n + length rs \<le> 65535
     then disk_run (capacity (w_dev w)) (contents (w_dev w)) (map (\<lambda>r. snd (snd r)) rs) else None)"
  using assms(2-4)
proof (induction rs arbitrary: n blk w)
  case (Cons r rs)
  obtain f buf req where r: "r = (f, buf, req)" by (cases r) auto
  have "drive_request_ok (f, buf, req)" and rs: "list_all drive_request_ok rs" using Cons.prems(2) r by simp_all
  then obtain h b s where f: "frame_at f buf h b s" "request_sector req < usize_end"
    by (auto simp: drive_request_ok_def)
  show ?case
  proof (cases "n = 65535")
    case True
    with Cons.prems(1) drive_overflows [OF f(1), of blk w serve] show ?thesis
      unfolding r by (cases req) simp_all
  next
    case False
    then have n: "n < 65535" using Cons.prems(3) by simp
    note IH = Cons.IH [OF _ rs, of "n + 1"]
    show ?thesis
    proof (cases req)
      case (DriveRead sector)
      with drive_read_in_step [OF assms(1) f(1) Cons.prems(1) n, of sector] f(2) n IH
      show ?thesis unfolding r by (auto simp: split_def map_conv_bind_option comp_def split: if_splits)
    next
      case (DriveWrite sector data)
      with drive_write_in_step [OF assms(1) f(1) Cons.prems(1) n, of sector data] f(2) n IH
      show ?thesis unfolding r by (auto simp: split_def split: if_splits)
    qed
  qed
qed simp

lemma blk_new_in_step:
  assumes "blk_new n common da aa ua = Some (blk, common')" "w_used w = 0"
  shows "in_step 0 blk w"
  using assms by (auto simp: blk_new_def queue_new_def QUEUE_SIZE_def in_step_def mutex_new_def run_cases Let_def)

text \<open>
  C28: With a device that behaves as documented, a newly set up driver implements a disk: over any
  sequence of at most 65535 reads and writes, each with its own buffers, the reads return what the
  disk holds after the writes before them, and a request for a sector that does not exist panics.
  With one request more the kernel panics in any case, since the 16-bit index of the queue is advanced
  with an overflow check.
\<close>
theorem drive_is_disk:
  assumes "serves_drive serve contents capacity" "blk_new (capacity (w_dev w)) common da aa ua = Some (blk, common')"
    "w_used w = 0" "list_all drive_request_ok rs"
  shows "drive_run serve rs blk w =
    (if length rs \<le> 65535
     then disk_run (capacity (w_dev w)) (contents (w_dev w)) (map (\<lambda>r. snd (snd r)) rs) else None)"
  using drive_run_in_step [OF assms(1) blk_new_in_step [OF assms(2,3)] assms(4)] by simp

subsection \<open>A device\<close>

type_synonym ideal = "(nat \<Rightarrow> u8 list) \<times> nat"

definition ideal_contents :: "ideal \<Rightarrow> nat \<Rightarrow> u8 list" where
  "ideal_contents d sector = take 512 (fst d sector @ replicate 512 0)"

definition ideal_serve :: "ideal device" where
  "ideal_serve d m ds head =
     (let d0 = ds ! unat head; d1 = ds ! unat (d_next d0); d2 = ds ! unat (d_next d1);
          header = get_bytes (d_address d0) 16 m;
          type = le_nat (take 4 header); sector = le_nat (drop 8 header)
      in if sector \<ge> snd d then (d, put_bytes (d_address d2) [1] m)
         else if type = 0
         then (d, put_bytes (d_address d2) [0] (put_bytes (d_address d1) (ideal_contents d sector) m))
         else (((fst d)(sector := get_bytes (d_address d1) (d_length d1) m), snd d),
               put_bytes (d_address d2) [0] m))"

lemma ideal_length [simp]: "length (ideal_contents d sector) = 512"
  by (simp add: ideal_contents_def)

lemma header_parts:
  assumes "sector < usize_end" "type < 256"
  shows "le_nat (take 4 (header_bytes type sector)) = type" "le_nat (drop 8 (header_bytes type sector)) = sector"
  using assms by (simp_all add: header_bytes_def le_nat_bytes)

lemma put_status: "put_bytes s [x] m s = x"
  by (simp add: put_bytes_def)

lemma ideal_serves: "serves_drive ideal_serve ideal_contents snd"
  unfolding serves_drive_def
proof (intro allI impI conjI; elim conjE)
  fix d :: ideal and m ds h b s sector
  assume a: "apart_bytes b 512 s 1" "sector < usize_end"
  {
    assume c: "blk_chain ds h b s 3" "get_bytes h 16 m = header_bytes 0 sector"
    then show "let (d', m') = ideal_serve d m ds 0
      in ideal_contents d' = ideal_contents d \<and> snd d' = snd d \<and>
         (if sector < snd d then m' s = 0 \<and> get_bytes b 512 m' = ideal_contents d sector else m' s = 1)"
      using a header_parts [OF a(2), of 0]
      by (auto simp: ideal_serve_def blk_chain_def put_status get_put_other get_put_same Let_def)
  }
  {
    assume c: "blk_chain ds h b s 1" "get_bytes h 16 m = header_bytes 1 sector"
    then show "let (d', m') = ideal_serve d m ds 0
      in snd d' = snd d \<and>
         (if sector < snd d
          then m' s = 0 \<and> ideal_contents d' = (ideal_contents d)(sector := get_bytes b 512 m)
          else m' s = 1 \<and> ideal_contents d' = ideal_contents d)"
      using a header_parts [OF a(2), of 1]
      by (auto simp: ideal_serve_def blk_chain_def put_status Let_def ideal_contents_def fun_eq_iff)
  }
qed

definition demo_frame :: blk_frame where
  "demo_frame = \<lparr>bf_header = upper_half + 0x1000, bf_status = upper_half + 0x1010\<rparr>"

definition demo_requests :: "(blk_frame \<times> usize \<times> drive_request) list" where
  "demo_requests =
     [(demo_frame, upper_half + 0x2000, DriveWrite 3 (replicate 512 7)),
      (demo_frame, upper_half + 0x3000, DriveRead 3), (demo_frame, upper_half + 0x2000, DriveRead 5)]"

definition demo_common :: virtio_common where
  "demo_common =
     \<lparr>vr_device_status = 0, vr_queue_select = 0, vr_queue_size = 256, vr_queue_desc = 0,
      vr_queue_driver = 0, vr_queue_device = 0, vr_queue_enable = 0\<rparr>"

lemma drive_is_disk_witness:
  "\<exists>blk common'. blk_new 8 demo_common upper_half (upper_half + 0x100) (upper_half + 0x200) = Some (blk, common') \<and>
     drive_run ideal_serve demo_requests blk \<lparr>w_dev = (\<lambda>_. [], 8), w_mem = (\<lambda>_. 0), w_used = 0\<rparr> =
       Some [replicate 512 7, replicate 512 0]"
proof -
  have phys: "virt_to_phys (upper_half + p) = Some p" if "p < 0x10000" for p
    using virt_to_phys_upper [of p] that by (simp add: add.commute)
  obtain blk common' where new: "blk_new 8 demo_common upper_half (upper_half + 0x100) (upper_half + 0x200) = Some (blk, common')"
    using phys [of 0] phys [of "0x100"] phys [of "0x200"]
    by (simp add: blk_new_def queue_new_def demo_common_def QUEUE_SIZE_def SECTOR_SIZE_def)
  have "drive_request_ok (demo_frame, upper_half + a, r)" if "a = 0x2000 \<or> a = 0x3000" "request_sector r < usize_end" for a r
  proof -
    have "frame_at demo_frame (upper_half + a) 0x1000 a 0x1010"
      using that(1) phys [of "0x1000"] phys [of "0x1010"] phys [of a]
      by (auto simp: frame_at_def demo_frame_def apart_bytes_def)
    with that(2) show ?thesis by (auto simp: drive_request_ok_def)
  qed
  then have reqs: "list_all drive_request_ok demo_requests" by (simp add: demo_requests_def)
  have "blk_new (snd (w_dev \<lparr>w_dev = (\<lambda>_. [] :: u8 list, 8), w_mem = (\<lambda>_. 0), w_used = 0\<rparr>)) demo_common upper_half
      (upper_half + 0x100) (upper_half + 0x200) = Some (blk, common')"
    using new by simp
  from drive_is_disk [OF ideal_serves this _ reqs] new
  show ?thesis by (auto simp: demo_requests_def ideal_contents_def)
qed

end
