(* ===== verification/Dispatch.thy ===== *)
theory Dispatch
  imports Capability_Correct Ring_Buffer
begin

text \<open>
  The servers' half of the runtime (\<open>kernel-api/src/dispatch.rs\<close>): the table of handlers that a
  program's own capabilities lead to, the contexts through which a server grants new ones while it
  serves a call or an event, and the loops over calls and observed rings.  The code of the server,
  with the generated match over its methods, is a parameter; its contract is the locale
  \<open>capability_server\<close>, which programs interpret.
\<close>

subsection \<open>Contexts\<close>

text \<open>
  What a context gives access to: the counter and the pages of the certificates, and the handlers
  for what has been granted so far, as their indices and objects.
\<close>

record 'o ctx =
  ctx_user :: user_caps
  ctx_certs :: certificates
  ctx_new :: "(usize \<times> 'o) list"

definition grant_object :: "'o ctx \<Rightarrow> actor \<Rightarrow> 'o \<Rightarrow> ('o ctx \<times> raw_capability) run" where
  "grant_object ctx grantee object = do {
     (u, certs, cap) \<leftarrow> grant_unhandled (ctx_user ctx) (ctx_certs ctx) grantee;
     Some (\<lparr>ctx_user = u, ctx_certs = certs, ctx_new = ctx_new ctx @ [(local_index cap, object)]\<rparr>, cap) }"

definition grant_to_sender :: "process_id \<Rightarrow> 'o ctx \<Rightarrow> 'o \<Rightarrow> ('o ctx \<times> raw_capability) run" where
  "grant_to_sender sender ctx object = grant_object ctx (Userspace sender) object"

definition grant_to_kernel :: "'o ctx \<Rightarrow> 'o \<Rightarrow> ('o ctx \<times> raw_capability) run" where
  "grant_to_kernel ctx object = grant_object ctx Kernel object"

text \<open>\<open>forward\<close> works on the same counter and pages.\<close>

definition ctx_forward :: "'o ctx \<Rightarrow> raw_capability \<Rightarrow> actor \<Rightarrow> ('o ctx \<times> raw_capability) run" where
  "ctx_forward ctx cap forwardee = do {
     (u, certs, forwarded) \<leftarrow> forward (ctx_user ctx) (ctx_certs ctx) cap forwardee;
     Some (ctx\<lparr>ctx_user := u, ctx_certs := certs\<rparr>, forwarded) }"

definition forward_to_sender :: "process_id \<Rightarrow> 'o ctx \<Rightarrow> raw_capability \<Rightarrow> ('o ctx \<times> raw_capability) run" where
  "forward_to_sender sender ctx cap = ctx_forward ctx cap (Userspace sender)"

subsection \<open>The dispatcher\<close>

record ('s, 'o, 't, 'e) dispatch =
  d_server :: 's
  d_handlers :: "'o option list"
  d_observers :: "('t \<times> 'e ring) list"

text \<open>\<open>new\<close> is \<open>new_object\<close> with the object \<open>()\<close>.\<close>

definition dispatch_new :: "'s \<Rightarrow> 'o \<Rightarrow> ('s, 'o, 't, 'e) dispatch" where
  "dispatch_new server object = \<lparr>d_server = server, d_handlers = [Some object], d_observers = []\<rparr>"

definition dispatch_observe :: "('s, 'o, 't, 'e) dispatch \<Rightarrow> 't \<Rightarrow> 'e ring \<Rightarrow> ('s, 'o, 't, 'e) dispatch" where
  "dispatch_observe d object ring = d\<lparr>d_observers := d_observers d @ [(object, ring)]\<rparr>"

text \<open>\<open>resize_with\<close> and the loop that stores the new handlers.\<close>

definition resize_with :: "usize \<Rightarrow> 'o option list \<Rightarrow> 'o option list" where
  "resize_with n hs = take n hs @ replicate (n - length hs) None"

fun store_handlers :: "(usize \<times> 'o) list \<Rightarrow> 'o option list \<Rightarrow> 'o option list run" where
  "store_handlers [] hs = Some hs"
| "store_handlers ((i, object) # new) hs = do {
     ensure (i < length hs);
     store_handlers new (hs[i := Some object]) }"

definition install :: "'o ctx \<Rightarrow> 'o option list \<Rightarrow> 'o option list run" where
  "install ctx hs = store_handlers (ctx_new ctx) (resize_with (unat (uc_allocated (ctx_user ctx))) hs)"

type_synonym ('s, 'o, 'r) call_method =
  "'s \<Rightarrow> 'o ctx \<Rightarrow> usize \<Rightarrow> u8 list \<Rightarrow> 'o \<Rightarrow> process_id \<Rightarrow> ('s \<times> 'o ctx \<times> 'r) run"

text \<open>\<open>TypedHandler\<close> runs the server with a context that has no new handlers yet.\<close>

definition typed_call_method ::
    "('s, 'o, 'r) call_method \<Rightarrow> 's \<Rightarrow> 'o ctx \<Rightarrow> usize \<Rightarrow> u8 list \<Rightarrow> 'o \<Rightarrow> process_id \<Rightarrow> ('s \<times> 'o ctx \<times> 'r) run" where
  "typed_call_method call server ctx method args object sender =
     call server (ctx\<lparr>ctx_new := []\<rparr>) method args object sender"

definition run_call ::
    "('s, 'o, 'r) call_method \<Rightarrow> ('s, 'o, 't, 'e) dispatch \<Rightarrow> 'o ctx \<Rightarrow> raw_capability \<Rightarrow> usize \<Rightarrow> u8 list \<Rightarrow>
       process_id \<Rightarrow> (('s, 'o, 't, 'e) dispatch \<times> 'o ctx \<times> 'r) run" where
  "run_call call d ctx cap method args sender = do {
     ensure (local_index cap < length (d_handlers d));
     object \<leftarrow> d_handlers d ! local_index cap;
     (server, ctx, result) \<leftarrow> typed_call_method call (d_server d) ctx method args object sender;
     handlers \<leftarrow> install ctx (d_handlers d);
     Some (d\<lparr>d_server := server, d_handlers := handlers\<rparr>, ctx, result) }"

text \<open>\<open>run_calls\<close> over the calls that \<open>ipc_receive\<close> returns until there is none; its replies.\<close>

fun run_calls ::
    "('s, 'o, 'r) call_method \<Rightarrow> ('s, 'o, 't, 'e) dispatch \<Rightarrow> 'o ctx \<Rightarrow>
       (raw_capability \<times> usize \<times> u8 list \<times> process_id) list \<Rightarrow> (('s, 'o, 't, 'e) dispatch \<times> 'o ctx \<times> 'r list) run" where
  "run_calls call d ctx [] = Some (d, ctx, [])"
| "run_calls call d ctx ((cap, method, args, sender) # calls) = do {
     (d, ctx, result) \<leftarrow> run_call call d ctx cap method args sender;
     (d, ctx, results) \<leftarrow> run_calls call d ctx calls;
     Some (d, ctx, result # results) }"

text \<open>
  \<open>TypedObserver\<close> polls its ring until it is empty.  What the writer adds meanwhile is here part of
  the ring at the start, or of the next round.
\<close>

type_synonym ('s, 'o, 't, 'e) observe_event = "'s \<Rightarrow> 'o ctx \<Rightarrow> 'e \<Rightarrow> 't \<Rightarrow> ('s \<times> 'o ctx) run"

declare Option.bind_cong [fundef_cong]

function observe_ring ::
    "('s, 'o, 't, 'e) observe_event \<Rightarrow> 's \<Rightarrow> 'o ctx \<Rightarrow> 't \<Rightarrow> 'e ring \<Rightarrow> ('s \<times> 'o ctx \<times> 'e ring) run" where
  "observe_ring observe server ctx object ring =
     (case ring_poll ring of
        None \<Rightarrow> None
      | Some (ring', None) \<Rightarrow> Some (server, ctx, ring')
      | Some (ring', Some v) \<Rightarrow> do {
          (server, ctx) \<leftarrow> observe server ctx v object;
          observe_ring observe server ctx object ring' })"
  by pat_completeness auto

termination observe_ring
  by (relation "measure (\<lambda>(_, _, _, _, ring). ring_written ring - ring_read ring)")
    (auto simp: ring_poll_def Let_def run_Some split: if_splits)

declare observe_ring.simps [simp del]

fun observe_all ::
    "('s, 'o, 't, 'e) observe_event \<Rightarrow> 's \<Rightarrow> 'o ctx \<Rightarrow> ('t \<times> 'e ring) list \<Rightarrow>
       ('s \<times> 'o ctx \<times> ('t \<times> 'e ring) list) run" where
  "observe_all observe server ctx [] = Some (server, ctx, [])"
| "observe_all observe server ctx ((object, ring) # rest) = do {
     (server, ctx, ring) \<leftarrow> observe_ring observe server ctx object ring;
     (server, ctx, rest) \<leftarrow> observe_all observe server ctx rest;
     Some (server, ctx, (object, ring) # rest) }"

definition run_observables ::
    "('s, 'o, 't, 'e) observe_event \<Rightarrow> ('s, 'o, 't, 'e) dispatch \<Rightarrow> 'o ctx \<Rightarrow> (('s, 'o, 't, 'e) dispatch \<times> 'o ctx) run" where
  "run_observables observe d ctx = do {
     (server, ctx, observers) \<leftarrow> observe_all observe (d_server d) (ctx\<lparr>ctx_new := []\<rparr>) (d_observers d);
     handlers \<leftarrow> install ctx (d_handlers d);
     Some (d\<lparr>d_server := server, d_handlers := handlers, d_observers := observers\<rparr>, ctx) }"

subsection \<open>How a context grows\<close>

text \<open>What a server does to a context: it grants objects and forwards capabilities.\<close>

inductive ctx_grows :: "'o ctx \<Rightarrow> 'o ctx \<Rightarrow> bool" for ctx0 where
  ctx_same: "ctx_grows ctx0 ctx0"
| ctx_grants: "ctx_grows ctx0 ctx \<Longrightarrow> actor_ok grantee \<Longrightarrow>
    grant_object ctx grantee object = Some (ctx', cap) \<Longrightarrow> ctx_grows ctx0 ctx'"
| ctx_forwards: "ctx_grows ctx0 ctx \<Longrightarrow> actor_ok forwardee \<Longrightarrow> is_ptr_valid (as_usize c) \<Longrightarrow>
    ctx_forward ctx c forwardee = Some (ctx', cap) \<Longrightarrow> ctx_grows ctx0 ctx'"

lemma ctx_grows_trans: "ctx_grows b c \<Longrightarrow> ctx_grows a b \<Longrightarrow> ctx_grows a c"
  by (induction rule: ctx_grows.induct) (blast intro: ctx_grows.intros)+

abbreviation ctx_pid :: "'o ctx \<Rightarrow> process_id" where
  "ctx_pid ctx \<equiv> uc_pid (ctx_user ctx)"

abbreviation ctx_next :: "'o ctx \<Rightarrow> nat" where
  "ctx_next ctx \<equiv> unat (uc_allocated (ctx_user ctx))"

text \<open>The words of the process's own page of certificates.\<close>

definition own_word :: "'o ctx \<Rightarrow> usize \<Rightarrow> u64" where
  "own_word ctx i = ctx_certs ctx (actor_offset (Userspace (ctx_pid ctx))) i"

lemma slot_taken:
  assumes "allocate_certificate u = Some (u', page, i)"
  shows "unat (uc_allocated u') = Suc (unat (uc_allocated u))"
proof -
  have "i < 512" "i = unat (uc_allocated u)" using user_slot [OF assms] by simp_all
  then have "unat (uc_allocated u + 1) = Suc (unat (uc_allocated u))" by (simp add: unat_word_ariths)
  with assms show ?thesis by (auto simp: allocate_certificate_def run_Some Let_def split: if_splits)
qed

lemma grant_object_effect:
  assumes "grant_object ctx who x = Some (ctx', cap)"
  shows "ctx_next ctx < 512" "ctx_next ctx' = Suc (ctx_next ctx)" "ctx_pid ctx' = ctx_pid ctx"
    "cap = cap_at (Userspace (ctx_pid ctx)) (ctx_next ctx)"
    "own_word ctx' = (own_word ctx)(ctx_next ctx := value_to_bits (value_granted who))"
    "ctx_new ctx' = ctx_new ctx @ [(ctx_next ctx, x)]"
proof -
  let ?u = "ctx_user ctx"
  obtain u' page i where a: "allocate_certificate ?u = Some (u', page, i)"
    and cap: "cap = RawCapability (page + i * 8)"
    and ctx': "ctx' = \<lparr>ctx_user = u', ctx_certs = cert_store (ctx_certs ctx) (actor_offset (Userspace (uc_pid u'))) i
      (value_granted who), ctx_new = ctx_new ctx @ [(local_index cap, x)]\<rparr>"
    using assms by (auto simp: grant_object_def grant_unhandled_def run_Some raw_from_ref_def Let_def split: if_split_asm)
  note slot = user_slot [OF a]
  show cap_eq: "cap = cap_at (Userspace (ctx_pid ctx)) (ctx_next ctx)"
    using cap slot by (simp add: raw_capability.expand)
  with slot show "ctx_next ctx < 512" "ctx_pid ctx' = ctx_pid ctx" by (simp_all add: ctx')
  with slot slot_taken [OF a] show "ctx_next ctx' = Suc (ctx_next ctx)"
    "ctx_new ctx' = ctx_new ctx @ [(ctx_next ctx, x)]"
    "own_word ctx' = (own_word ctx)(ctx_next ctx := value_to_bits (value_granted who))"
    by (simp_all add: ctx' cap_eq local_index_cap_at fun_eq_iff own_word_def cert_store_def)
qed

lemma ctx_forward_effect:
  assumes "ctx_forward ctx c who = Some (ctx', cap)"
  shows "ctx_next ctx < 512" "ctx_next ctx' = Suc (ctx_next ctx)" "ctx_pid ctx' = ctx_pid ctx"
    "own_word ctx' = (own_word ctx)(ctx_next ctx := value_to_bits (value_forwarded who c))"
    "ctx_new ctx' = ctx_new ctx"
proof -
  let ?u = "ctx_user ctx"
  obtain u' page i where a: "allocate_certificate ?u = Some (u', page, i)"
    and ctx': "ctx' = ctx\<lparr>ctx_user := u', ctx_certs := cert_store (ctx_certs ctx) (actor_offset (Userspace (uc_pid u'))) i
      (value_forwarded who c)\<rparr>"
    using assms by (auto simp: ctx_forward_def forward_def run_Some raw_from_ref_def Let_def split: if_split_asm)
  note slot = user_slot [OF a]
  show "ctx_next ctx < 512" "ctx_pid ctx' = ctx_pid ctx" using slot by (simp_all add: ctx')
  with slot slot_taken [OF a] show "ctx_next ctx' = Suc (ctx_next ctx)" "ctx_new ctx' = ctx_new ctx"
    "own_word ctx' = (own_word ctx)(ctx_next ctx := value_to_bits (value_forwarded who c))"
    by (simp_all add: ctx' fun_eq_iff own_word_def cert_store_def)
qed

text \<open>What the growth of a context amounts to.\<close>

definition ctx_extends :: "'o ctx \<Rightarrow> 'o ctx \<Rightarrow> bool" where
  "ctx_extends a b \<longleftrightarrow>
     ctx_pid b = ctx_pid a \<and> ctx_next a \<le> ctx_next b \<and> (ctx_next a < ctx_next b \<longrightarrow> ctx_next b \<le> 512) \<and>
     (\<forall>i. i < ctx_next a \<or> ctx_next b \<le> i \<longrightarrow> own_word b i = own_word a i)"

definition forwarded_word :: "u64 \<Rightarrow> bool" where
  "forwarded_word w \<longleftrightarrow>
     (\<exists>q c. actor_ok q \<and> is_ptr_valid (as_usize c) \<and> w = value_to_bits (value_forwarded q c))"

lemma forwarded_wordI [intro]:
  "actor_ok q \<Longrightarrow> is_ptr_valid (as_usize c) \<Longrightarrow> forwarded_word (value_to_bits (value_forwarded q c))"
  by (auto simp: forwarded_word_def)

definition slot_kinds :: "nat \<Rightarrow> 'o ctx \<Rightarrow> bool" where
  "slot_kinds n ctx \<longleftrightarrow>
     distinct (map fst (ctx_new ctx)) \<and> fst ` set (ctx_new ctx) \<subseteq> {n..<ctx_next ctx} \<and>
     (\<forall>i\<in>{n..<ctx_next ctx} - fst ` set (ctx_new ctx).
        forwarded_word (own_word ctx i))"

lemma ctx_grows_extends:
  assumes "ctx_grows a b"
  shows "ctx_extends a b \<and> (n \<le> ctx_next a \<longrightarrow> slot_kinds n a \<longrightarrow> slot_kinds n b)"
  using assms
proof induction
  case ctx_same
  then show ?case by (simp add: ctx_extends_def)
next
  case (ctx_grants ctx who x ctx' cap)
  note e = grant_object_effect [OF ctx_grants.hyps(3)]
  have "slot_kinds n ctx'" if "n \<le> ctx_next ctx" "slot_kinds n ctx"
    using that by (auto simp: slot_kinds_def e less_Suc_eq)
  then show ?case using ctx_grants.IH Suc_leI [OF e(1)] by (auto simp: ctx_extends_def e(2-))
next
  case (ctx_forwards ctx who c ctx' cap)
  note e = ctx_forward_effect [OF ctx_forwards.hyps(4)]
  have "slot_kinds n ctx'" if "n \<le> ctx_next ctx" "slot_kinds n ctx"
    using that ctx_forwards.hyps(2,3) by (auto simp: slot_kinds_def e less_Suc_eq)
  then show ?case using ctx_forwards.IH Suc_leI [OF e(1)] by (auto simp: ctx_extends_def e(2-))
qed

subsection \<open>The table of handlers\<close>

lemma store_handlers_spec:
  assumes "distinct (map fst new)" "fst ` set new \<subseteq> {..<length hs}"
  shows "\<exists>hs'. store_handlers new hs = Some hs' \<and> length hs' = length hs \<and>
    (\<forall>i<length hs. hs' ! i = (case map_of new i of Some x \<Rightarrow> Some x | None \<Rightarrow> hs ! i))"
  using assms
proof (induction new hs rule: store_handlers.induct)
  case (2 i x new hs)
  then obtain hs' where hs': "store_handlers new (hs[i := Some x]) = Some hs'" "length hs' = length hs"
    "\<forall>j<length hs. hs' ! j = (case map_of new j of Some x \<Rightarrow> Some x | None \<Rightarrow> hs[i := Some x] ! j)"
    by auto
  have "map_of new i = None" using 2(2) by (simp add: map_of_eq_None_iff)
  with hs' 2(3) show ?case by (auto simp: nth_list_update split: option.splits)
qed simp

text \<open>
  The table fits the certificates: the own slots that are still free are empty, and every own
  certificate that grants something to a user, other than the first one, has a handler.
\<close>

definition table_ok :: "'o option list \<Rightarrow> 'o ctx \<Rightarrow> bool" where
  "table_ok hs ctx \<longleftrightarrow>
     pid_runs (ctx_pid ctx) \<and> 1 \<le> ctx_next ctx \<and> 1 \<le> length hs \<and> length hs \<le> ctx_next ctx \<and>
     hs ! 0 \<noteq> None \<and> (\<forall>i\<ge>ctx_next ctx. own_word ctx i = 0) \<and>
     (\<forall>i q. 1 \<le> i \<longrightarrow> i < ctx_next ctx \<longrightarrow>
        value_unpack (value_of_bits (own_word ctx i)) = Some (Granted (Userspace q)) \<longrightarrow>
        i < length hs \<and> hs ! i \<noteq> None)"

lemma forwarded_word_not_granted: "forwarded_word w \<Longrightarrow> value_unpack (value_of_bits w) \<noteq> Some (Granted a)"
  by (auto simp: forwarded_word_def value_bits_roundtrip unpack_forwarded)

text \<open>Installing what a context has granted keeps the table fitting, and every handler in place.\<close>

lemma install_ok:
  assumes "table_ok hs ctx" "ctx_grows (ctx\<lparr>ctx_new := []\<rparr>) ctx'"
  shows "\<exists>hs'. install ctx' hs = Some hs' \<and> table_ok hs' ctx' \<and>
    (\<forall>i<length hs. hs ! i \<noteq> None \<longrightarrow> i < length hs' \<and> hs' ! i = hs ! i) \<and>
    (\<forall>(i, x)\<in>set (ctx_new ctx'). i < length hs' \<and> hs' ! i = Some x) \<and>
    (\<forall>x. Some x \<in> set hs' \<longrightarrow> Some x \<in> set hs \<or> x \<in> snd ` set (ctx_new ctx'))"
proof -
  let ?a = "ctx_next ctx" and ?b = "ctx_next ctx'" and ?new = "ctx_new ctx'"
  have "slot_kinds ?a (ctx\<lparr>ctx_new := []\<rparr>)" by (simp add: slot_kinds_def)
  with ctx_grows_extends [OF assms(2), of ?a]
  have ext: "ctx_extends (ctx\<lparr>ctx_new := []\<rparr>) ctx'" and kinds: "slot_kinds ?a ctx'" by simp_all
  have same: "own_word (ctx\<lparr>ctx_new := []\<rparr>) = own_word ctx" by (simp add: own_word_def fun_eq_iff)
  have len: "1 \<le> ?a" "1 \<le> length hs" "length hs \<le> ?a" using assms(1) by (simp_all add: table_ok_def)
  have ab: "?a \<le> ?b" using ext by (simp add: ctx_extends_def)
  let ?hs = "resize_with ?b hs"
  have hs: "length ?hs = ?b" "\<And>i. i < ?b \<Longrightarrow> ?hs ! i = (if i < length hs then hs ! i else None)"
    using len ab by (auto simp: resize_with_def nth_append)
  have new: "distinct (map fst ?new)" "fst ` set ?new \<subseteq> {?a..<?b}" using kinds by (simp_all add: slot_kinds_def)
  obtain hs' where hs': "install ctx' hs = Some hs'" "length hs' = ?b"
    "\<forall>i<?b. hs' ! i = (case map_of ?new i of Some x \<Rightarrow> Some x | None \<Rightarrow> if i < length hs then hs ! i else None)"
  proof -
    have "fst ` set ?new \<subseteq> {..<length ?hs}" using new(2) hs(1) by auto
    from store_handlers_spec [OF new(1) this] show thesis
      using that hs by (force simp: install_def split: option.splits)
  qed
  have old: "hs' ! i = hs ! i" if "i < length hs" for i
  proof -
    have "map_of ?new i = None" using new(2) that len by (force simp: map_of_eq_None_iff)
    with hs'(3) that len ab show ?thesis by simp
  qed
  have fresh: "i < ?b \<and> hs' ! i = Some x" if "(i, x) \<in> set ?new" for i x
    using that new hs'(3) map_of_is_SomeI [OF new(1) that] by (auto simp: image_subset_iff)
  have table: "table_ok hs' ctx'"
    unfolding table_ok_def
  proof (intro conjI allI impI)
    fix i q assume i: "1 \<le> i" "i < ?b" "value_unpack (value_of_bits (own_word ctx' i)) = Some (Granted (Userspace q))"
    have "hs' ! i \<noteq> None"
    proof (cases "i < ?a")
      case True
      then have "own_word ctx' i = own_word ctx i" using ext by (simp add: ctx_extends_def same)
      with i True assms(1) have "i < length hs \<and> hs ! i \<noteq> None" by (simp add: table_ok_def)
      with old show ?thesis by simp
    next
      case False
      show ?thesis
      proof (cases "i \<in> fst ` set ?new")
        case False
        with kinds \<open>\<not> i < ?a\<close> i(2) have "forwarded_word (own_word ctx' i)" by (simp add: slot_kinds_def)
        with i(3) forwarded_word_not_granted show ?thesis by blast
      qed (use fresh in auto)
    qed
    then show "i < length hs'" "hs' ! i \<noteq> None" using i(2) hs'(2) by simp_all
  next
    fix i assume "?b \<le> i"
    then have "own_word ctx' i = own_word ctx i" "?a \<le> i" using ext ab by (simp_all add: ctx_extends_def same)
    with assms(1) show "own_word ctx' i = 0" by (simp add: table_ok_def)
  next
    have "hs' ! 0 = hs ! 0" by (intro old) (use len(2) in linarith)
    then show "pid_runs (ctx_pid ctx')" "hs' ! 0 \<noteq> None"
      using assms(1) ext by (simp_all add: table_ok_def ctx_extends_def)
  qed (use hs'(2) len ab in simp_all)
  have "Some x \<in> set hs \<or> x \<in> snd ` set ?new" if "Some x \<in> set hs'" for x
  proof -
    from that obtain i where i: "i < ?b" "hs' ! i = Some x" using hs'(2) by (auto simp: in_set_conv_nth)
    show ?thesis
    proof (cases "map_of ?new i")
      case None
      with i hs'(3) have "i < length hs" "hs ! i = Some x" by (auto split: if_splits)
      then show ?thesis by (metis nth_mem)
    next
      case (Some y)
      with i hs'(3) have "(i, x) \<in> set ?new" by (auto dest: map_of_SomeD)
      then show ?thesis by force
    qed
  qed
  with hs'(1,2) table old fresh len ab show ?thesis by (intro exI [of _ hs']) auto
qed

subsection \<open>Servers\<close>

text \<open>
  What the dispatcher needs of a server: on objects it serves, with its own invariant, it uses its
  context only to grant and to forward, and what it grants are objects it goes on serving.
\<close>

abbreviation serves_new :: "('o \<Rightarrow> bool) \<Rightarrow> 'o ctx \<Rightarrow> bool" where
  "serves_new serves ctx \<equiv> \<forall>x\<in>snd ` set (ctx_new ctx). serves x"

definition server_step :: "('s \<Rightarrow> bool) \<Rightarrow> ('s \<Rightarrow> 'o \<Rightarrow> bool) \<Rightarrow> 's \<Rightarrow> 'o ctx \<Rightarrow> 's \<Rightarrow> 'o ctx \<Rightarrow> bool" where
  "server_step good serves s ctx s' ctx' \<longleftrightarrow>
     good s' \<and> ctx_grows ctx ctx' \<and> (\<forall>x. serves s x \<longrightarrow> serves s' x) \<and> serves_new (serves s') ctx'"

lemma server_step_trans:
  "server_step good serves s ctx s' ctx' \<Longrightarrow> server_step good serves s' ctx' s'' ctx'' \<Longrightarrow> server_step good serves s ctx s'' ctx''"
  by (auto simp: server_step_def intro: ctx_grows_trans)

lemma server_step_refl: "good s \<Longrightarrow> serves_new (serves s) ctx \<Longrightarrow> server_step good serves s ctx s ctx"
  by (simp add: server_step_def ctx_same)

text \<open>The steps a server is made of.\<close>

lemma server_step_grant:
  assumes "server_step good serves s0 ctx0 s ctx" "grant_object ctx grantee x = Some (ctx', cap)" "actor_ok grantee" "serves s x"
  shows "server_step good serves s0 ctx0 s ctx'"
  using assms grant_object_effect(6) [OF assms(2)] ctx_grants [OF _ assms(3,2)] by (auto simp: server_step_def)

lemma server_step_forward:
  assumes "server_step good serves s0 ctx0 s ctx" "ctx_forward ctx c forwardee = Some (ctx', cap)" "actor_ok forwardee"
    "is_ptr_valid (as_usize c)"
  shows "server_step good serves s0 ctx0 s ctx'"
  using assms ctx_forward_effect(5) [OF assms(2)] ctx_forwards [OF _ assms(3,4,2)] by (auto simp: server_step_def)

lemma server_step_update:
  "server_step good serves s0 ctx0 s ctx \<Longrightarrow> good s' \<Longrightarrow> (\<And>x. serves s x \<Longrightarrow> serves s' x) \<Longrightarrow>
   server_step good serves s0 ctx0 s' ctx"
  by (auto simp: server_step_def)

text \<open>Granting and forwarding only fail when there is no certificate left.\<close>

lemma slot_left:
  assumes "ctx_next ctx < 512" "pid_runs (ctx_pid ctx)"
  shows "\<exists>u page. allocate_certificate (ctx_user ctx) = Some (u, page, ctx_next ctx) \<and>
    uc_pid u = ctx_pid ctx \<and> is_ptr_valid (page + ctx_next ctx * 8)"
proof -
  let ?p = "Userspace (ctx_pid ctx)"
  have "actor_offset ?p < MAX_PROCESSES + 1"
    using assms(2) actor_offset_bound [of ?p] by (simp add: MAX_PROCESSES_def pid_runs_def)
  then have "allocate_certificate (ctx_user ctx) =
      Some ((ctx_user ctx)\<lparr>uc_allocated := uc_allocated (ctx_user ctx) + 1\<rparr>, 33554432 + actor_offset ?p * PAGE_SIZE, ctx_next ctx)"
    using assms by (simp add: allocate_certificate_def get_capability_certificate_page_def Let_def)
  moreover have "is_ptr_valid (33554432 + actor_offset ?p * PAGE_SIZE + ctx_next ctx * 8)"
    using cap_at_valid [of ?p "ctx_next ctx"] assms by (simp add: cap_at_def pid_runs_def)
  ultimately show ?thesis by simp
qed

lemma grant_object_returns:
  assumes "ctx_next ctx < 512" "pid_runs (ctx_pid ctx)"
  shows "\<exists>ctx' cap. grant_object ctx grantee x = Some (ctx', cap)"
  using slot_left [OF assms] assms(2) by (auto simp: pid_runs_def grant_object_def grant_unhandled_def raw_from_ref_def Let_def)

lemma ctx_forward_returns:
  assumes "ctx_next ctx < 512" "pid_runs (ctx_pid ctx)"
  shows "\<exists>ctx' cap. ctx_forward ctx c forwardee = Some (ctx', cap)"
  using slot_left [OF assms] assms(2) by (auto simp: pid_runs_def ctx_forward_def forward_def raw_from_ref_def Let_def)

text \<open>
  The states of a program that serves, and what may happen between its own turns: others rewrite
  their own certificates, or the memory they share with the server, and the kernel its rings.
\<close>

abbreviation rings_ok :: "('t \<Rightarrow> 'e \<Rightarrow> bool) \<Rightarrow> ('t \<times> 'e ring) list \<Rightarrow> bool" where
  "rings_ok event_ok rings \<equiv>
     \<forall>(t, ring)\<in>set rings. ring_data ring \<noteq> [] \<and> (\<forall>e\<in>set (ring_data ring). event_ok t e)"

inductive dispatch_step ::
    "('s, 'o, 'r) call_method \<Rightarrow> ('s, 'o, 't, 'e) observe_event \<Rightarrow> ('s \<Rightarrow> 's \<Rightarrow> bool) \<Rightarrow> ('t \<Rightarrow> 'e \<Rightarrow> bool) \<Rightarrow>
       (('s, 'o, 't, 'e) dispatch \<times> 'o ctx) \<Rightarrow> (('s, 'o, 't, 'e) dispatch \<times> 'o ctx) \<Rightarrow> bool"
  for call observe shared event_ok where
  step_call: "pid_ok sender \<Longrightarrow> run_call call d ctx cap method args sender = Some (d', ctx', r) \<Longrightarrow>
    dispatch_step call observe shared event_ok (d, ctx) (d', ctx')"
| step_observe: "run_observables observe d ctx = Some (d', ctx') \<Longrightarrow>
    dispatch_step call observe shared event_ok (d, ctx) (d', ctx')"
| step_others: "(\<And>i. certs (actor_offset (Userspace (ctx_pid ctx))) i = ctx_certs ctx (actor_offset (Userspace (ctx_pid ctx))) i) \<Longrightarrow>
    dispatch_step call observe shared event_ok (d, ctx) (d, ctx\<lparr>ctx_certs := certs\<rparr>)"
| step_shared: "shared (d_server d) s' \<Longrightarrow>
    dispatch_step call observe shared event_ok (d, ctx) (d\<lparr>d_server := s'\<rparr>, ctx)"
| step_writer: "rings_ok event_ok rings \<Longrightarrow>
    dispatch_step call observe shared event_ok (d, ctx) (d\<lparr>d_observers := rings\<rparr>, ctx)"

definition dispatch_ok ::
    "('s \<Rightarrow> bool) \<Rightarrow> ('s \<Rightarrow> 'o \<Rightarrow> bool) \<Rightarrow> ('t \<Rightarrow> 'e \<Rightarrow> bool) \<Rightarrow> ('s, 'o, 't, 'e) dispatch \<times> 'o ctx \<Rightarrow> bool" where
  "dispatch_ok good serves event_ok st \<longleftrightarrow>
     good (d_server (fst st)) \<and> table_ok (d_handlers (fst st)) (snd st) \<and>
     rings_ok event_ok (d_observers (fst st)) \<and>
     (\<forall>x. Some x \<in> set (d_handlers (fst st)) \<longrightarrow> serves (d_server (fst st)) x)"

text \<open>Handlers and the certificates that lead to them stay.\<close>

definition keeps_handlers ::
    "('s, 'o, 't, 'e) dispatch \<times> 'o ctx \<Rightarrow> ('s, 'o, 't, 'e) dispatch \<times> 'o ctx \<Rightarrow> bool" where
  "keeps_handlers st st' \<longleftrightarrow>
     ctx_pid (snd st') = ctx_pid (snd st) \<and> ctx_next (snd st) \<le> ctx_next (snd st') \<and>
     (\<forall>i<ctx_next (snd st). own_word (snd st') i = own_word (snd st) i) \<and>
     (\<forall>i<length (d_handlers (fst st)). d_handlers (fst st) ! i \<noteq> None \<longrightarrow>
        i < length (d_handlers (fst st')) \<and> d_handlers (fst st') ! i = d_handlers (fst st) ! i)"

lemma keeps_handlers_trans: "keeps_handlers a b \<Longrightarrow> keeps_handlers b c \<Longrightarrow> keeps_handlers a c"
  unfolding keeps_handlers_def by (metis (no_types, lifting) le_trans less_le_trans)

lemma install_server_step:
  assumes "dispatch_ok good serves event_ok (d, ctx)" "server_step good serves (d_server d) (ctx\<lparr>ctx_new := []\<rparr>) s' ctx'"
  shows "\<exists>hs'. install ctx' (d_handlers d) = Some hs' \<and>
    (\<forall>d'. d_server d' = s' \<longrightarrow> d_handlers d' = hs' \<longrightarrow> rings_ok event_ok (d_observers d') \<longrightarrow>
       dispatch_ok good serves event_ok (d', ctx') \<and> keeps_handlers (d, ctx) (d', ctx') \<and>
       (\<forall>(i, x)\<in>set (ctx_new ctx'). i < length hs' \<and> hs' ! i = Some x))"
proof -
  have ok: "table_ok (d_handlers d) ctx" "\<And>x. Some x \<in> set (d_handlers d) \<Longrightarrow> serves (d_server d) x"
    using assms(1) by (simp_all add: dispatch_ok_def)
  have step: "good s'" "ctx_grows (ctx\<lparr>ctx_new := []\<rparr>) ctx'" "\<And>x. serves (d_server d) x \<Longrightarrow> serves s' x"
    "serves_new (serves s') ctx'" using assms(2) by (simp_all add: server_step_def)
  obtain hs' where hs': "install ctx' (d_handlers d) = Some hs'" "table_ok hs' ctx'"
    "\<forall>i<length (d_handlers d). d_handlers d ! i \<noteq> None \<longrightarrow> i < length hs' \<and> hs' ! i = d_handlers d ! i"
    "\<forall>(i, x)\<in>set (ctx_new ctx'). i < length hs' \<and> hs' ! i = Some x"
    "\<And>x. Some x \<in> set hs' \<Longrightarrow> Some x \<in> set (d_handlers d) \<or> x \<in> snd ` set (ctx_new ctx')"
    using install_ok [OF ok(1) step(2)] by blast
  have "ctx_extends (ctx\<lparr>ctx_new := []\<rparr>) ctx'" using ctx_grows_extends [OF step(2)] by blast
  then have "ctx_pid ctx' = ctx_pid ctx" "ctx_next ctx \<le> ctx_next ctx'"
    "\<forall>i<ctx_next ctx. own_word ctx' i = own_word ctx i"
    unfolding ctx_extends_def own_word_def by auto
  moreover have "serves s' x" if "Some x \<in> set hs'" for x
    using hs'(5) [OF that] ok(2) step(3,4) by auto
  ultimately show ?thesis using hs' step(1) by (auto simp: dispatch_ok_def keeps_handlers_def)
qed

locale capability_server =
  fixes call :: "('s, 'o, 'r) call_method"
    and observe :: "('s, 'o, 't, 'e) observe_event"
    and good :: "'s \<Rightarrow> bool"
    and serves :: "'s \<Rightarrow> 'o \<Rightarrow> bool"
    and shared :: "'s \<Rightarrow> 's \<Rightarrow> bool"
    and event_ok :: "'t \<Rightarrow> 'e \<Rightarrow> bool"
  assumes call_step: "good s \<Longrightarrow> serves s x \<Longrightarrow> pid_ok sender \<Longrightarrow> serves_new (serves s) ctx \<Longrightarrow>
      call s ctx method args x sender = Some (s', ctx', r) \<Longrightarrow> server_step good serves s ctx s' ctx'"
    and observe_step: "good s \<Longrightarrow> serves_new (serves s) ctx \<Longrightarrow> event_ok t e \<Longrightarrow>
      observe s ctx e t = Some (s', ctx') \<Longrightarrow> server_step good serves s ctx s' ctx'"
    and shared_step: "good s \<Longrightarrow> shared s s' \<Longrightarrow> good s' \<and> (\<forall>x. serves s x \<longrightarrow> serves s' x)"
begin

lemma run_call_keeps:
  assumes ok: "dispatch_ok good serves event_ok (d, ctx)" and sender: "pid_ok sender"
    and run: "run_call call d ctx cap method args sender = Some (d', ctx', r)"
  shows "dispatch_ok good serves event_ok (d', ctx') \<and> keeps_handlers (d, ctx) (d', ctx') \<and>
    (\<forall>(i, x)\<in>set (ctx_new ctx'). i < length (d_handlers d') \<and> d_handlers d' ! i = Some x)"
proof -
  have rings: "rings_ok event_ok (d_observers d)" using ok by (simp add: dispatch_ok_def)
  obtain x s' where call: "call (d_server d) (ctx\<lparr>ctx_new := []\<rparr>) method args x sender = Some (s', ctx', r)"
    and x: "local_index cap < length (d_handlers d)" "d_handlers d ! local_index cap = Some x"
    and d': "d_server d' = s'" "install ctx' (d_handlers d) = Some (d_handlers d')" "d_observers d' = d_observers d"
    using run by (auto simp: run_call_def typed_call_method_def run_Some split: if_splits)
  have "good (d_server d)" "serves (d_server d) x"
    using ok x by (auto simp: dispatch_ok_def in_set_conv_nth)
  then have "server_step good serves (d_server d) (ctx\<lparr>ctx_new := []\<rparr>) s' ctx'"
    using call_step sender call by simp
  from install_server_step [OF ok this] d' rings show ?thesis by auto
qed

lemma run_call_returns:
  assumes ok: "dispatch_ok good serves event_ok (d, ctx)" and sender: "pid_ok sender"
    and x: "local_index cap < length (d_handlers d)" "d_handlers d ! local_index cap = Some x"
    and run: "call (d_server d) (ctx\<lparr>ctx_new := []\<rparr>) method args x sender = Some (s', ctx', r)"
  shows "\<exists>d'. run_call call d ctx cap method args sender = Some (d', ctx', r) \<and> d_server d' = s'"
proof -
  have "good (d_server d)" "serves (d_server d) x"
    using ok x by (auto simp: dispatch_ok_def in_set_conv_nth)
  then have "server_step good serves (d_server d) (ctx\<lparr>ctx_new := []\<rparr>) s' ctx'"
    using call_step sender run by simp
  from install_server_step [OF ok this] x run show ?thesis
    by (auto simp: run_call_def typed_call_method_def)
qed

lemma poll_keeps_ok:
  assumes "ring_poll ring = Some (ring', v)" "rings_ok event_ok [(t, ring)]"
  shows "rings_ok event_ok [(t, ring')] \<and> (\<forall>e. v = Some e \<longrightarrow> event_ok t e)"
  using assms by (auto simp: ring_poll_def Let_def run_Some split: if_splits)

lemma observe_ring_keeps:
  "observe_ring ob s ctx t ring = Some (s', ctx', ring') \<Longrightarrow> ob = observe \<Longrightarrow> good s \<Longrightarrow> serves_new (serves s) ctx \<Longrightarrow>
   rings_ok event_ok [(t, ring)] \<Longrightarrow> server_step good serves s ctx s' ctx' \<and> rings_ok event_ok [(t, ring')]"
proof (induction ob s ctx t ring rule: observe_ring.induct)
  case (1 ob s ctx t ring)
  show ?case
  proof (cases "ring_poll ring")
    case (Some p)
    then obtain ring1 v where p: "ring_poll ring = Some (ring1, v)" by (cases p) simp
    note polled = poll_keeps_ok [OF p 1(6)]
    show ?thesis
    proof (cases v)
      case None
      with 1(2) p have "s' = s" "ctx' = ctx" "ring' = ring1" by (subst (asm) observe_ring.simps, simp)+
      with 1(4,5) polled show ?thesis by (blast intro: server_step_refl)
    next
      case (Some e)
      with 1(2) p obtain s1 ctx1 where one: "ob s ctx e t = Some (s1, ctx1)"
        and rest: "observe_ring ob s1 ctx1 t ring1 = Some (s', ctx', ring')"
        by (subst (asm) observe_ring.simps) (auto simp: run_Some)
      have step: "server_step good serves s ctx s1 ctx1"
        using observe_step [OF 1(4,5) _ one [unfolded 1(3)]] polled Some by blast
      then have "good s1" "serves_new (serves s1) ctx1" by (simp_all add: server_step_def)
      note ih = 1(1) [OF p refl Some one refl rest 1(3) this conjunct1 [OF polled]]
      show ?thesis by (rule conjI [OF server_step_trans [OF step conjunct1 [OF ih]] conjunct2 [OF ih]])
    qed
  qed (use 1(2) in \<open>subst (asm) observe_ring.simps, simp\<close>)
qed

lemma observe_all_keeps:
  "observe_all observe s ctx obs = Some (s', ctx', obs') \<Longrightarrow> good s \<Longrightarrow> serves_new (serves s) ctx \<Longrightarrow>
   rings_ok event_ok obs \<Longrightarrow> server_step good serves s ctx s' ctx' \<and> rings_ok event_ok obs'"
proof (induction obs arbitrary: s ctx obs')
  case (Cons a obs)
  obtain t ring where a: "a = (t, ring)" by (cases a)
  from Cons.prems(1) obtain s1 ctx1 ring1 obs1 where one: "observe_ring observe s ctx t ring = Some (s1, ctx1, ring1)"
    and rest: "observe_all observe s1 ctx1 obs = Some (s', ctx', obs1)" and obs': "obs' = (t, ring1) # obs1"
    by (auto simp: a run_Some)
  have rings: "rings_ok event_ok [(t, ring)]" "rings_ok event_ok obs" using Cons.prems(4) a by simp_all
  note step = observe_ring_keeps [OF one refl Cons.prems(2,3) rings(1)]
  then have "good s1" "serves_new (serves s1) ctx1" by (simp_all add: server_step_def)
  from Cons.IH [OF rest this rings(2)] step obs' show ?case using server_step_trans by auto
qed (auto intro: server_step_refl)

lemma run_observables_keeps:
  assumes ok: "dispatch_ok good serves event_ok (d, ctx)" and run: "run_observables observe d ctx = Some (d', ctx')"
  shows "dispatch_ok good serves event_ok (d', ctx') \<and> keeps_handlers (d, ctx) (d', ctx')"
proof -
  obtain s' obs' where all: "observe_all observe (d_server d) (ctx\<lparr>ctx_new := []\<rparr>) (d_observers d) = Some (s', ctx', obs')"
    and d': "d_server d' = s'" "install ctx' (d_handlers d) = Some (d_handlers d')" "d_observers d' = obs'"
    using run by (auto simp: run_observables_def run_Some)
  have "server_step good serves (d_server d) (ctx\<lparr>ctx_new := []\<rparr>) s' ctx'" "rings_ok event_ok obs'"
    using observe_all_keeps [OF all] ok by (simp_all add: dispatch_ok_def)
  from install_server_step [OF ok this(1)] this(2) d' show ?thesis by auto
qed

lemma step_keeps:
  "dispatch_step call observe shared event_ok st st' \<Longrightarrow> dispatch_ok good serves event_ok st \<Longrightarrow>
   dispatch_ok good serves event_ok st' \<and> keeps_handlers st st'"
proof (induction rule: dispatch_step.induct)
  case step_call
  then show ?case using run_call_keeps by blast
next
  case step_observe
  then show ?case using run_observables_keeps by blast
next
  case (step_others certs ctx d)
  then show ?case by (auto simp: dispatch_ok_def keeps_handlers_def table_ok_def own_word_def)
next
  case (step_shared d s' ctx)
  with shared_step show ?case by (auto simp: dispatch_ok_def keeps_handlers_def)
qed (auto simp: dispatch_ok_def keeps_handlers_def)

lemma steps_keep:
  "(dispatch_step call observe shared event_ok)\<^sup>*\<^sup>* st st' \<Longrightarrow> dispatch_ok good serves event_ok st \<Longrightarrow>
   dispatch_ok good serves event_ok st' \<and> keeps_handlers st st'"
proof (induction rule: rtranclp_induct)
  case (step st1 st2)
  then show ?case using step_keeps keeps_handlers_trans by blast
qed (simp add: keeps_handlers_def)

end

end
