(* ===== verification/Framebuffer.thy ===== *)
theory Framebuffer
  imports Deravel_Prelude
begin

text \<open>
  Framebuffers (\<open>kernel-api/src/framebuffer.rs\<close>): pixels of 32 bits in rows, the operations that
  fill and copy them, and the specification of a copy by coordinates.  The memory may be longer than
  the picture, since shared memory is mapped in whole pages.

  \<open>isize\<close> values are integers with checked operations.
\<close>

subsection \<open>Signed arithmetic and slices\<close>

definition isize_ok :: "int \<Rightarrow> bool" where
  "isize_ok x \<longleftrightarrow> - 9223372036854775808 \<le> x \<and> x < 9223372036854775808"

definition iadd :: "int \<Rightarrow> int \<Rightarrow> int run" where
  "iadd a b = (if isize_ok (a + b) then Some (a + b) else None)"

definition isub :: "int \<Rightarrow> int \<Rightarrow> int run" where
  "isub a b = (if isize_ok (a - b) then Some (a - b) else None)"

text \<open>The casts between \<open>isize\<close> and \<open>usize\<close> wrap.\<close>

definition isize_as_usize :: "int \<Rightarrow> usize" where
  "isize_as_usize x = nat (x mod 18446744073709551616)"

definition usize_as_isize :: "usize \<Rightarrow> int" where
  "usize_as_isize n = (if n < 9223372036854775808 then int n else int n - 18446744073709551616)"

text \<open>Taking a slice \<open>[a..b]\<close> and writing one back in its place.\<close>

definition slice :: "usize \<Rightarrow> usize \<Rightarrow> 'a list \<Rightarrow> 'a list run" where
  "slice a b xs = (if a \<le> b \<and> b \<le> length xs then Some (take (b - a) (drop a xs)) else None)"

definition put_slice :: "usize \<Rightarrow> 'a list \<Rightarrow> 'a list \<Rightarrow> 'a list" where
  "put_slice a ys xs = take a xs @ ys @ drop (a + length ys) xs"

subsection \<open>Framebuffers\<close>

record framebuffer =
  fb_pixels :: "u32 list"
  fb_width :: usize
  fb_height :: usize

definition bgra :: "u8 \<Rightarrow> u8 \<Rightarrow> u8 \<Rightarrow> u8 \<Rightarrow> u32" where
  "bgra r g b a = ucast b OR push_bit 8 (ucast g) OR push_bit 16 (ucast r) OR push_bit 24 (ucast a)"

text \<open>
  \<open>alloc\<close> and \<open>map\<close>, with the memory that \<open>alloc_shared\<close> and \<open>map_shared\<close> return as pixels.
\<close>

definition fb_alloc :: "(usize \<Rightarrow> (u32 list \<times> 'c) run) \<Rightarrow> usize \<Rightarrow> usize \<Rightarrow> (framebuffer \<times> 'c) run" where
  "fb_alloc alloc_pixels width height = do {
     a \<leftarrow> umul 4 width;
     n \<leftarrow> umul a height;
     (ptr, cap) \<leftarrow> alloc_pixels n;
     Some (\<lparr>fb_pixels = ptr, fb_width = width, fb_height = height\<rparr>, cap) }"

definition fb_map :: "usize \<Rightarrow> usize \<Rightarrow> u32 list \<Rightarrow> framebuffer" where
  "fb_map width height ptr = \<lparr>fb_pixels = ptr, fb_width = width, fb_height = height\<rparr>"

text \<open>Where a row is in memory, for \<open>row\<close> and \<open>row_mut\<close>.\<close>

definition row_start :: "framebuffer \<Rightarrow> usize \<Rightarrow> usize run" where
  "row_start fb y = do {
     ensure (y < fb_height fb);
     a \<leftarrow> umul y (fb_width fb);
     ensure (a \<le> length (fb_pixels fb) \<and> fb_width fb \<le> length (fb_pixels fb) - a);
     Some a }"

definition fb_row :: "framebuffer \<Rightarrow> usize \<Rightarrow> u32 list run" where
  "fb_row fb y = do {
     a \<leftarrow> row_start fb y;
     Some (take (fb_width fb) (drop a (fb_pixels fb))) }"

definition set_pixel :: "framebuffer \<Rightarrow> usize \<Rightarrow> usize \<Rightarrow> u8 \<Rightarrow> u8 \<Rightarrow> u8 \<Rightarrow> u8 \<Rightarrow> framebuffer run" where
  "set_pixel fb x y r g b a = do {
     ensure (x < fb_width fb);
     ensure (y < fb_height fb);
     s \<leftarrow> row_start fb y;
     Some (fb\<lparr>fb_pixels := (fb_pixels fb)[s + x := bgra r g b a]\<rparr>) }"

definition fb_fill :: "framebuffer \<Rightarrow> u8 \<Rightarrow> u8 \<Rightarrow> u8 \<Rightarrow> u8 \<Rightarrow> framebuffer" where
  "fb_fill fb r g b a = fb\<lparr>fb_pixels := replicate (length (fb_pixels fb)) (bgra r g b a)\<rparr>"

text \<open>The range of pixels of \<open>rows\<close>.\<close>

definition rows_range :: "framebuffer \<Rightarrow> usize \<Rightarrow> usize \<Rightarrow> (usize \<times> usize) run" where
  "rows_range fb y_start y_end = do {
     ensure (y_start \<le> y_end);
     ensure (y_end \<le> fb_height fb);
     a \<leftarrow> umul y_start (fb_width fb);
     b \<leftarrow> umul y_end (fb_width fb);
     ensure (b \<le> length (fb_pixels fb));
     Some (a, b) }"

definition fill_rows :: "framebuffer \<Rightarrow> usize \<Rightarrow> usize \<Rightarrow> u8 \<Rightarrow> u8 \<Rightarrow> u8 \<Rightarrow> u8 \<Rightarrow> framebuffer run" where
  "fill_rows fb y_start y_end r g b a = do {
     ensure (y_start \<le> y_end);
     ensure (y_end \<le> fb_height fb);
     (s, e) \<leftarrow> rows_range fb y_start y_end;
     Some (fb\<lparr>fb_pixels := put_slice s (replicate (e - s) (bgra r g b a)) (fb_pixels fb)\<rparr>) }"

text \<open>\<open>rect\<close>: the chunks of the rows, each cut to the columns; chunks of width 0 panic.\<close>

fun fill_chunks :: "usize list \<Rightarrow> usize \<Rightarrow> usize \<Rightarrow> usize \<Rightarrow> u32 \<Rightarrow> u32 list \<Rightarrow> u32 list" where
  "fill_chunks [] width x_start x_end c ptr = ptr"
| "fill_chunks (y # ys) width x_start x_end c ptr =
     fill_chunks ys width x_start x_end c (put_slice (y * width + x_start) (replicate (x_end - x_start) c) ptr)"

definition fill_rect ::
    "framebuffer \<Rightarrow> usize \<Rightarrow> usize \<Rightarrow> usize \<Rightarrow> usize \<Rightarrow> u8 \<Rightarrow> u8 \<Rightarrow> u8 \<Rightarrow> u8 \<Rightarrow> framebuffer run" where
  "fill_rect fb x_start y_start x_end y_end r g b a = do {
     ensure (x_start \<le> x_end);
     ensure (x_end \<le> fb_width fb);
     ensure (y_start \<le> y_end);
     ensure (y_end \<le> fb_height fb);
     rows_range fb y_start y_end;
     ensure (fb_width fb \<noteq> 0);
     Some (fb\<lparr>fb_pixels :=
       fill_chunks [y_start..<y_end] (fb_width fb) x_start x_end (bgra r g b a) (fb_pixels fb)\<rparr>) }"

definition shift_rows :: "framebuffer \<Rightarrow> usize \<Rightarrow> usize \<Rightarrow> usize \<Rightarrow> framebuffer run" where
  "shift_rows fb y_from y_to n = do {
     f \<leftarrow> uadd y_from n;
     ensure (f \<le> fb_height fb);
     t \<leftarrow> uadd y_to n;
     ensure (t \<le> fb_height fb);
     a \<leftarrow> umul y_from (fb_width fb);
     b \<leftarrow> umul f (fb_width fb);
     d \<leftarrow> umul y_to (fb_width fb);
     src \<leftarrow> slice a b (fb_pixels fb);
     ensure (d \<le> length (fb_pixels fb) - length src);
     Some (fb\<lparr>fb_pixels := put_slice d src (fb_pixels fb)\<rparr>) }"

text \<open>The turns of \<open>copy_from_rect\<close>, one row of the rectangle each.\<close>

definition copy_row ::
    "int \<Rightarrow> int \<Rightarrow> int \<Rightarrow> int \<Rightarrow> framebuffer \<Rightarrow> int \<Rightarrow> framebuffer \<Rightarrow> framebuffer run" where
  "copy_row offset_x offset_y min_rect_x max_rect_x rect rect_y fb = do {
     y \<leftarrow> iadd offset_y rect_y;
     s \<leftarrow> row_start fb (isize_as_usize y);
     from \<leftarrow> iadd offset_x min_rect_x;
     to \<leftarrow> iadd offset_x max_rect_x;
     ensure (isize_as_usize from \<le> isize_as_usize to \<and> isize_as_usize to \<le> fb_width fb);
     row \<leftarrow> fb_row rect (isize_as_usize rect_y);
     src \<leftarrow> slice (isize_as_usize min_rect_x) (isize_as_usize max_rect_x) row;
     ensure (length src = isize_as_usize to - isize_as_usize from);
     Some (fb\<lparr>fb_pixels := put_slice (s + isize_as_usize from) src (fb_pixels fb)\<rparr>) }"

fun copy_rows ::
    "int \<Rightarrow> int \<Rightarrow> int \<Rightarrow> int \<Rightarrow> framebuffer \<Rightarrow> int list \<Rightarrow> framebuffer \<Rightarrow> framebuffer run" where
  "copy_rows offset_x offset_y min_rect_x max_rect_x rect [] fb = Some fb"
| "copy_rows offset_x offset_y min_rect_x max_rect_x rect (y # ys) fb = do {
     fb \<leftarrow> copy_row offset_x offset_y min_rect_x max_rect_x rect y fb;
     copy_rows offset_x offset_y min_rect_x max_rect_x rect ys fb }"

definition copy_from_rect :: "framebuffer \<Rightarrow> int \<Rightarrow> int \<Rightarrow> framebuffer \<Rightarrow> framebuffer run" where
  "copy_from_rect fb offset_x offset_y rect = do {
     nx \<leftarrow> isub 0 offset_x;
     let min_rect_x = max nx 0;
     ny \<leftarrow> isub 0 offset_y;
     let min_rect_y = max ny 0;
     mx \<leftarrow> isub (usize_as_isize (fb_width fb)) offset_x;
     let max_rect_x = min mx (usize_as_isize (fb_width rect));
     my \<leftarrow> isub (usize_as_isize (fb_height fb)) offset_y;
     let max_rect_y = min my (usize_as_isize (fb_height rect));
     copy_rows offset_x offset_y min_rect_x max_rect_x rect [min_rect_y..max_rect_y - 1] fb }"

subsection \<open>Pixels by coordinates\<close>

text \<open>A framebuffer that can hold its picture, with sides that fit 32 bits.\<close>

definition fb_ok :: "framebuffer \<Rightarrow> bool" where
  "fb_ok fb \<longleftrightarrow>
     fb_width fb * fb_height fb \<le> length (fb_pixels fb) \<and> fb_width fb < 4294967296 \<and> fb_height fb < 4294967296"

definition pixel :: "framebuffer \<Rightarrow> nat \<Rightarrow> nat \<Rightarrow> u32" where
  "pixel fb x y = fb_pixels fb ! (y * fb_width fb + x)"

definition same_size :: "framebuffer \<Rightarrow> framebuffer \<Rightarrow> bool" where
  "same_size fb fb' \<longleftrightarrow>
     fb_width fb' = fb_width fb \<and> fb_height fb' = fb_height fb \<and>
     length (fb_pixels fb') = length (fb_pixels fb)"

lemma isize_as_usize_nonneg: "0 \<le> x \<Longrightarrow> x < 18446744073709551616 \<Longrightarrow> isize_as_usize x = nat x"
  by (simp add: isize_as_usize_def)

lemma isize_as_usize_negative:
  assumes "x < 0" "- 9223372036854775808 \<le> x"
  shows "9223372036854775808 \<le> isize_as_usize x"
proof -
  have "x mod 18446744073709551616 = (x + 18446744073709551616) mod 18446744073709551616" by simp
  also have "\<dots> = x + 18446744073709551616" using assms by (intro mod_pos_pos_trivial) auto
  finally show ?thesis using assms by (simp add: isize_as_usize_def)
qed

lemma length_put_slice: "a + length ys \<le> length xs \<Longrightarrow> length (put_slice a ys xs) = length xs"
  by (simp add: put_slice_def)

lemma nth_put_slice:
  assumes "a + length ys \<le> length xs" "i < length xs"
  shows "put_slice a ys xs ! i = (if a \<le> i \<and> i < a + length ys then ys ! (i - a) else xs ! i)"
  using assms by (auto simp: put_slice_def nth_append min_def)

lemma row_fits:
  assumes "fb_ok fb" "y < fb_height fb"
  shows "y * fb_width fb + fb_width fb \<le> length (fb_pixels fb)" "y * fb_width fb + fb_width fb < usize_end"
proof -
  have "(y + 1) * fb_width fb \<le> fb_height fb * fb_width fb" using assms(2) by (intro mult_le_mono1) simp
  moreover have "fb_height fb * fb_width fb \<le> 4294967295 * 4294967295"
    using assms(1) by (intro mult_le_mono) (auto simp: fb_ok_def)
  ultimately show "y * fb_width fb + fb_width fb \<le> length (fb_pixels fb)" "y * fb_width fb + fb_width fb < usize_end"
    using assms(1) by (simp_all add: fb_ok_def algebra_simps)
qed

lemma row_start_ok: "fb_ok fb \<Longrightarrow> y < fb_height fb \<Longrightarrow> row_start fb y = Some (y * fb_width fb)"
  using row_fits [of fb y] by (simp add: row_start_def)

subsection \<open>Copying a rectangle\<close>

lemma in_row_iff:
  assumes "x < w" "from \<le> to" "to \<le> (w :: nat)"
  shows "y0 * w + from \<le> y * w + x \<and> y * w + x < y0 * w + to \<longleftrightarrow> y = y0 \<and> from \<le> x \<and> x < to"
proof (cases y y0 rule: linorder_cases)
  case less
  then have "(y + 1) * w \<le> y0 * w" by (intro mult_le_mono1) simp
  with assms less show ?thesis by auto
next
  case greater
  then have "(y0 + 1) * w \<le> y * w" by (intro mult_le_mono1) simp
  with assms greater show ?thesis by auto
qed auto

text \<open>The columns that are copied; with them a row of the rectangle always fits.\<close>

definition columns_ok :: "framebuffer \<Rightarrow> framebuffer \<Rightarrow> int \<Rightarrow> int \<Rightarrow> int \<Rightarrow> bool" where
  "columns_ok fb rect offset_x left right \<longleftrightarrow>
     fb_ok fb \<and> fb_ok rect \<and> 0 \<le> left \<and> 0 \<le> offset_x + left \<and> left \<le> right \<and>
     right \<le> int (fb_width rect) \<and> offset_x + right \<le> int (fb_width fb)"

lemma copy_row_pixels:
  assumes "same_size fb cur" "0 \<le> ry" "ry < int (fb_height rect)" "0 \<le> offset_y + ry" "offset_y + ry < int (fb_height fb)"
    and columns: "columns_ok fb rect offset_x left right"
  shows "\<exists>fb'. copy_row offset_x offset_y left right rect ry cur = Some fb' \<and> same_size fb fb' \<and>
    (\<forall>x<fb_width fb. \<forall>y<fb_height fb.
       pixel fb' x y =
         (if int y = offset_y + ry \<and> offset_x + left \<le> int x \<and> int x < offset_x + right
          then pixel rect (nat (int x - offset_x)) (nat ry) else pixel cur x y))"
proof -
  have fb: "fb_ok fb" and rect: "fb_ok rect" and left: "0 \<le> left" "0 \<le> offset_x + left" "left \<le> right"
    and right: "right \<le> int (fb_width rect)" "offset_x + right \<le> int (fb_width fb)"
    using columns by (simp_all add: columns_ok_def)
  have columns_bounds: "left < 4294967296" "right < 4294967296" "offset_x + left < 4294967296" "offset_x + right < 4294967296"
    using fb rect left right unfolding fb_ok_def by linarith+
  let ?y = "nat (offset_y + ry)" and ?w = "fb_width fb" and ?rw = "fb_width rect"
  let ?from = "nat (offset_x + left)" and ?to = "nat (offset_x + right)"
  have cur: "fb_width cur = ?w" "fb_height cur = fb_height fb" "length (fb_pixels cur) = length (fb_pixels fb)" "fb_ok cur"
    using assms(1) fb by (auto simp: same_size_def fb_ok_def)
  have y: "?y < fb_height fb" "offset_y + ry < 4294967296" "nat ry < fb_height rect" "ry < 4294967296"
    using assms(2-5) fb rect by (auto simp: fb_ok_def)
  have u: "isize_as_usize (offset_y + ry) = ?y" "isize_as_usize (offset_x + left) = ?from" "isize_as_usize (offset_x + right) = ?to"
    "isize_as_usize ry = nat ry" "isize_as_usize left = nat left" "isize_as_usize right = nat right"
    using y assms(2,4) columns_bounds left right by (simp_all add: isize_as_usize_nonneg)
  have ok: "isize_ok (offset_y + ry)" "isize_ok (offset_x + left)" "isize_ok (offset_x + right)"
    using y assms(4) columns_bounds left by (simp_all add: isize_ok_def)
  have ft: "?from \<le> ?to" "?to \<le> ?w" "nat left \<le> nat right" "nat right \<le> ?rw" "?to - ?from = nat right - nat left"
    using left right by auto
  define row where "row = take ?rw (drop (nat ry * ?rw) (fb_pixels rect))"
  have row: "fb_row rect (nat ry) = Some row" "length row = ?rw"
    using row_start_ok [OF rect y(3)] row_fits(1) [OF rect y(3)] by (simp_all add: fb_row_def row_def)
  define src where "src = take (nat right - nat left) (drop (nat left) row)"
  have src: "slice (nat left) (nat right) row = Some src" "length src = ?to - ?from"
    using row(2) ft(3,4) by (simp_all add: slice_def src_def ft(5))
  define fb' where "fb' = cur\<lparr>fb_pixels := put_slice (?y * ?w + ?from) src (fb_pixels cur)\<rparr>"
  have step: "copy_row offset_x offset_y left right rect ry cur = Some fb'"
    using row_start_ok [OF cur(4), of ?y] cur(1,2) y(1) ft row(1) src
    by (simp add: copy_row_def iadd_def ok u fb'_def)
  have fits: "?y * ?w + ?from + length src \<le> length (fb_pixels cur)"
    using row_fits(1) [OF fb y(1)] ft src(2) cur(3) by linarith
  have same: "same_size fb fb'" using fits cur by (simp add: same_size_def fb'_def length_put_slice)
  have "pixel fb' x z = (if int z = offset_y + ry \<and> offset_x + left \<le> int x \<and> int x < offset_x + right
      then pixel rect (nat (int x - offset_x)) (nat ry) else pixel cur x z)"
    if x: "x < ?w" and z: "z < fb_height fb" for x z
  proof -
    have "z * ?w + x < length (fb_pixels cur)" using row_fits(1) [OF fb z] x cur(3) by linarith
    then have p: "pixel fb' x z = (if z = ?y \<and> ?from \<le> x \<and> x < ?to then src ! (x - ?from) else pixel cur x z)"
      using in_row_iff [OF x ft(1,2), of ?y z] fits src(2) ft(1) cur(1)
      by (auto simp: pixel_def fb'_def nth_put_slice)
    have "src ! (x - ?from) = pixel rect (nat (int x - offset_x)) (nat ry)" if "?from \<le> x" "x < ?to"
    proof -
      have i: "nat left + (x - ?from) = nat (int x - offset_x)" "nat (int x - offset_x) < ?rw"
        using that left right by linarith+
      have "src ! (x - ?from) = row ! nat (int x - offset_x)"
        unfolding src_def i(1) [symmetric] using row(2) ft by (subst nth_take) (use that in linarith, simp add: nth_drop)
      with i(2) row_fits(1) [OF rect y(3)] show ?thesis by (simp add: row_def pixel_def)
    qed
    moreover have "z = ?y \<and> ?from \<le> x \<and> x < ?to \<longleftrightarrow>
        int z = offset_y + ry \<and> offset_x + left \<le> int x \<and> int x < offset_x + right"
      using assms(4) left by auto
    ultimately show ?thesis using p by auto
  qed
  with step same show ?thesis by blast
qed

lemma copy_rows_pixels:
  assumes columns: "columns_ok fb rect offset_x left right"
    and "\<And>ry. ry \<in> set rys \<Longrightarrow> 0 \<le> ry \<and> ry < int (fb_height rect) \<and> 0 \<le> offset_y + ry \<and> offset_y + ry < int (fb_height fb)"
    and "same_size fb cur"
  shows "\<exists>fb'. copy_rows offset_x offset_y left right rect rys cur = Some fb' \<and> same_size fb fb' \<and>
    (\<forall>x<fb_width fb. \<forall>y<fb_height fb.
       pixel fb' x y =
         (if int y - offset_y \<in> set rys \<and> offset_x + left \<le> int x \<and> int x < offset_x + right
          then pixel rect (nat (int x - offset_x)) (nat (int y - offset_y)) else pixel cur x y))"
  using assms(2,3)
proof (induction rys arbitrary: cur)
  case (Cons ry rys)
  have ry: "0 \<le> ry" "ry < int (fb_height rect)" "0 \<le> offset_y + ry" "offset_y + ry < int (fb_height fb)"
    using Cons.prems(1) [of ry] by simp_all
  obtain mid where mid: "copy_row offset_x offset_y left right rect ry cur = Some mid" "same_size fb mid"
    "\<forall>x<fb_width fb. \<forall>y<fb_height fb.
       pixel mid x y =
         (if int y = offset_y + ry \<and> offset_x + left \<le> int x \<and> int x < offset_x + right
          then pixel rect (nat (int x - offset_x)) (nat ry) else pixel cur x y)"
    using copy_row_pixels [OF Cons.prems(2) ry columns] by blast
  obtain fb' where fb': "copy_rows offset_x offset_y left right rect rys mid = Some fb'" "same_size fb fb'"
    "\<forall>x<fb_width fb. \<forall>y<fb_height fb.
       pixel fb' x y =
         (if int y - offset_y \<in> set rys \<and> offset_x + left \<le> int x \<and> int x < offset_x + right
          then pixel rect (nat (int x - offset_x)) (nat (int y - offset_y)) else pixel mid x y)"
    using Cons.IH [OF _ mid(2)] Cons.prems(1) by auto
  show ?case
  proof (intro exI [of _ fb'] conjI allI impI)
    fix x y assume x: "x < fb_width fb" and y: "y < fb_height fb"
    have "int y = offset_y + ry \<longleftrightarrow> int y - offset_y = ry" by auto
    then show "pixel fb' x y =
         (if int y - offset_y \<in> set (ry # rys) \<and> offset_x + left \<le> int x \<and> int x < offset_x + right
          then pixel rect (nat (int x - offset_x)) (nat (int y - offset_y)) else pixel cur x y)"
      using fb'(3) [rule_format, OF x y] mid(3) [rule_format, OF x y] by auto
  qed (use mid(1) fb'(1,2) in simp_all)
qed simp

text \<open>The pixels of the framebuffer that a rectangle at an offset rect_covers.\<close>

definition rect_covers :: "framebuffer \<Rightarrow> int \<Rightarrow> int \<Rightarrow> nat \<Rightarrow> nat \<Rightarrow> bool" where
  "rect_covers rect offset_x offset_y x y \<longleftrightarrow>
     offset_x \<le> int x \<and> int x < offset_x + int (fb_width rect) \<and>
     offset_y \<le> int y \<and> int y < offset_y + int (fb_height rect)"

text \<open>Whether the rows, or the columns, of both ever meet.\<close>

definition rows_meet :: "framebuffer \<Rightarrow> int \<Rightarrow> framebuffer \<Rightarrow> bool" where
  "rows_meet fb offset_y rect \<longleftrightarrow>
     offset_y < int (fb_height fb) \<and> 0 < offset_y + int (fb_height rect) \<and>
     fb_height fb \<noteq> 0 \<and> fb_height rect \<noteq> 0"

definition columns_touch :: "framebuffer \<Rightarrow> int \<Rightarrow> framebuffer \<Rightarrow> bool" where
  "columns_touch fb offset_x rect \<longleftrightarrow> - int (fb_width rect) \<le> offset_x \<and> offset_x \<le> int (fb_width fb)"

lemma copy_from_rect_rows:
  assumes "fb_ok fb" "fb_ok rect"
    and "\<bar>offset_x\<bar> < 4611686018427387904" "\<bar>offset_y\<bar> < 4611686018427387904"
  shows "copy_from_rect fb offset_x offset_y rect =
    copy_rows offset_x offset_y (max (- offset_x) 0) (min (int (fb_width fb) - offset_x) (int (fb_width rect))) rect
      [max (- offset_y) 0..min (int (fb_height fb) - offset_y) (int (fb_height rect)) - 1] fb"
proof -
  have "usize_as_isize (fb_width fb) = int (fb_width fb)" "usize_as_isize (fb_height fb) = int (fb_height fb)"
    "usize_as_isize (fb_width rect) = int (fb_width rect)" "usize_as_isize (fb_height rect) = int (fb_height rect)"
    using assms(1,2) by (simp_all add: fb_ok_def usize_as_isize_def)
  moreover have "isize_ok (- offset_x)" "isize_ok (- offset_y)"
    "isize_ok (int (fb_width fb) - offset_x)" "isize_ok (int (fb_height fb) - offset_y)"
    using assms unfolding isize_ok_def fb_ok_def by linarith+
  ultimately show ?thesis by (simp add: copy_from_rect_def isub_def Let_def)
qed

lemma copy_row_panics:
  assumes "fb_ok fb" "fb_ok rect" "\<bar>offset_x\<bar> < 4611686018427387904" "\<not> columns_touch fb offset_x rect"
  shows "copy_row offset_x offset_y (max (- offset_x) 0) (min (int (fb_width fb) - offset_x) (int (fb_width rect)))
    rect ry fb = None"
proof -
  let ?from = "offset_x + max (- offset_x) 0"
  let ?to = "offset_x + min (int (fb_width fb) - offset_x) (int (fb_width rect))"
  have "\<not> (isize_as_usize ?from \<le> isize_as_usize ?to \<and> isize_as_usize ?to \<le> fb_width fb)"
  proof (cases "int (fb_width fb) < offset_x")
    case True
    then have "?from = offset_x" "?to = int (fb_width fb)" by auto
    with True assms(3) show ?thesis by (simp add: isize_as_usize_nonneg)
  next
    case False
    then have "?to = offset_x + int (fb_width rect)" "offset_x + int (fb_width rect) < 0"
      using assms(4) by (auto simp: columns_touch_def)
    then have "9223372036854775808 \<le> isize_as_usize ?to" using assms(3) by (intro isize_as_usize_negative) simp_all
    moreover have "fb_width fb < 4294967296" using assms(1) by (simp add: fb_ok_def)
    ultimately show ?thesis by linarith
  qed
  then show ?thesis by (auto simp: copy_row_def iadd_def bind_eq_None_conv)
qed

lemma copy_from_rect_spec:
  assumes "fb_ok fb" "fb_ok rect"
    and "\<bar>offset_x\<bar> < 4611686018427387904" "\<bar>offset_y\<bar> < 4611686018427387904"
  shows "(copy_from_rect fb offset_x offset_y rect = None \<longleftrightarrow>
      rows_meet fb offset_y rect \<and> \<not> columns_touch fb offset_x rect) \<and>
    (\<forall>fb'. copy_from_rect fb offset_x offset_y rect = Some fb' \<longrightarrow>
      same_size fb fb' \<and>
      (\<forall>x<fb_width fb. \<forall>y<fb_height fb.
         pixel fb' x y =
           (if rect_covers rect offset_x offset_y x y
            then pixel rect (nat (int x - offset_x)) (nat (int y - offset_y)) else pixel fb x y)))"
proof (cases "rows_meet fb offset_y rect \<and> \<not> columns_touch fb offset_x rect")
  case True
  then have "max (- offset_y) 0 \<le> min (int (fb_height fb) - offset_y) (int (fb_height rect)) - 1"
    by (auto simp: rows_meet_def)
  with True show ?thesis
    using copy_row_panics [OF assms(1-3)] by (simp add: copy_from_rect_rows [OF assms] upto.simps)
next
  case False
  let ?top = "max (- offset_y) 0" and ?bottom = "min (int (fb_height fb) - offset_y) (int (fb_height rect))"
  let ?left = "max (- offset_x) 0" and ?right = "min (int (fb_width fb) - offset_x) (int (fb_width rect))"
  have same: "same_size fb fb" by (simp add: same_size_def)
  show ?thesis
  proof (cases "columns_touch fb offset_x rect")
    case True
    then have "columns_ok fb rect offset_x ?left ?right"
      using assms(1,2) by (auto simp: columns_ok_def columns_touch_def)
    from copy_rows_pixels [OF this _ same, of "[?top..?bottom - 1]" offset_y]
    obtain fb' where "copy_rows offset_x offset_y ?left ?right rect [?top..?bottom - 1] fb = Some fb'" "same_size fb fb'"
      "\<forall>x<fb_width fb. \<forall>y<fb_height fb.
       pixel fb' x y =
         (if int y - offset_y \<in> set [?top..?bottom - 1] \<and> offset_x + ?left \<le> int x \<and> int x < offset_x + ?right
          then pixel rect (nat (int x - offset_x)) (nat (int y - offset_y)) else pixel fb x y)"
      by auto
    moreover have "int y - offset_y \<in> set [?top..?bottom - 1] \<and> offset_x + ?left \<le> int x \<and> int x < offset_x + ?right
      \<longleftrightarrow> rect_covers rect offset_x offset_y x y" if "x < fb_width fb" "y < fb_height fb" for x y
      using that by (auto simp: rect_covers_def)
    ultimately show ?thesis using False by (simp add: copy_from_rect_rows [OF assms])
  next
    case no_touch: False
    then have "[?top..?bottom - 1] = []" using False by (auto simp: rows_meet_def)
    moreover have "\<not> rect_covers rect offset_x offset_y x y" if "x < fb_width fb" for x y
      using no_touch that by (auto simp: rect_covers_def columns_touch_def)
    ultimately show ?thesis using False same by (simp add: copy_from_rect_rows [OF assms])
  qed
qed

subsection \<open>Filling a rectangle\<close>

lemma fill_chunk_fits:
  assumes "x_start \<le> x_end" "x_end \<le> w" "z * w + w \<le> n"
  shows "z * w + x_start + length (replicate (x_end - x_start) c) \<le> (n :: nat)"
  using assms by simp

lemma fill_chunks_length:
  assumes "x_start \<le> x_end" "x_end \<le> w" "\<And>y. y \<in> set ys \<Longrightarrow> y * w + w \<le> length ptr"
  shows "length (fill_chunks ys w x_start x_end c ptr) = length ptr"
  using assms
proof (induction ys w x_start x_end c ptr rule: fill_chunks.induct)
  case (2 z ys w x_start x_end c ptr)
  have "z * w + w \<le> length ptr" using 2(4) by simp
  note len = length_put_slice [OF fill_chunk_fits [OF 2(2,3) this]]
  with 2 show ?case by simp
qed simp

lemma fill_chunks_pixels:
  assumes "x_start \<le> x_end" "x_end \<le> w" "\<And>y. y \<in> set ys \<Longrightarrow> y * w + w \<le> length ptr" "x < w" "y * w + x < length ptr"
  shows "fill_chunks ys w x_start x_end c ptr ! (y * w + x) =
    (if y \<in> set ys \<and> x_start \<le> x \<and> x < x_end then c else ptr ! (y * w + x))"
  using assms
proof (induction ys w x_start x_end c ptr rule: fill_chunks.induct)
  case (2 z ys w x_start x_end c ptr)
  let ?put = "put_slice (z * w + x_start) (replicate (x_end - x_start) c) ptr"
  have "z * w + w \<le> length ptr" using 2(4) by simp
  note fits = fill_chunk_fits [OF 2(2,3) this, of c]
  have len: "length ?put = length ptr" by (rule length_put_slice [OF fits])
  have "?put ! (y * w + x) = (if y = z \<and> x_start \<le> x \<and> x < x_end then c else ptr ! (y * w + x))"
    using nth_put_slice [OF fits 2(6)] in_row_iff [OF 2(5,2,3), of z y] 2(2) by auto
  moreover have "fill_chunks ys w x_start x_end c ?put ! (y * w + x) =
      (if y \<in> set ys \<and> x_start \<le> x \<and> x < x_end then c else ?put ! (y * w + x))"
    using 2(2-6) len by (intro "2.IH") auto
  ultimately show ?case by auto
qed simp

lemma fill_rect_pixels:
  assumes "fb_ok fb" "x_start \<le> x_end" "x_end \<le> fb_width fb" "y_start \<le> y_end" "y_end \<le> fb_height fb" "0 < fb_width fb"
  shows "\<exists>fb'. fill_rect fb x_start y_start x_end y_end r g b a = Some fb' \<and> same_size fb fb' \<and>
    (\<forall>x<fb_width fb. \<forall>y<fb_height fb.
       pixel fb' x y = (if x_start \<le> x \<and> x < x_end \<and> y_start \<le> y \<and> y < y_end then bgra r g b a else pixel fb x y))"
proof -
  let ?w = "fb_width fb" and ?h = "fb_height fb"
  have total: "?h * ?w \<le> length (fb_pixels fb)" "?h * ?w < usize_end"
  proof -
    have "?h * ?w \<le> 4294967295 * 4294967295" using assms(1) by (intro mult_le_mono) (auto simp: fb_ok_def)
    then show "?h * ?w < usize_end" by simp
    show "?h * ?w \<le> length (fb_pixels fb)" using assms(1) by (simp add: fb_ok_def mult.commute)
  qed
  have "y_start * ?w \<le> ?h * ?w" "y_end * ?w \<le> ?h * ?w" using assms(4,5) by (simp_all add: mult_le_mono1)
  then have "y_start * ?w < usize_end" "y_end * ?w < usize_end" "y_end * ?w \<le> length (fb_pixels fb)"
    using total by linarith+
  then have run: "fill_rect fb x_start y_start x_end y_end r g b a =
      Some (fb\<lparr>fb_pixels := fill_chunks [y_start..<y_end] ?w x_start x_end (bgra r g b a) (fb_pixels fb)\<rparr>)"
    using assms total by (simp add: fill_rect_def rows_range_def)
  have rows: "y * ?w + ?w \<le> length (fb_pixels fb)" if "y \<in> set [y_start..<y_end]" for y
    using row_fits(1) [OF assms(1), of y] that assms(5) by simp
  have at: "y * ?w + x < length (fb_pixels fb)" if "x < ?w" "y < ?h" for x y
    using row_fits(1) [OF assms(1) that(2)] that(1) by simp
  have "length (fill_chunks [y_start..<y_end] ?w x_start x_end (bgra r g b a) (fb_pixels fb)) = length (fb_pixels fb)"
    by (rule fill_chunks_length [OF assms(2,3) rows])
  moreover have "fill_chunks [y_start..<y_end] ?w x_start x_end (bgra r g b a) (fb_pixels fb) ! (y * ?w + x) =
      (if x_start \<le> x \<and> x < x_end \<and> y_start \<le> y \<and> y < y_end then bgra r g b a else fb_pixels fb ! (y * ?w + x))"
    if "x < ?w" "y < ?h" for x y
    using fill_chunks_pixels [of x_start x_end ?w "[y_start..<y_end]" "fb_pixels fb" x y "bgra r g b a"]
      assms(2,3) rows that(1) at [OF that] by auto
  ultimately show ?thesis by (simp add: run same_size_def pixel_def)
qed

subsection \<open>Properties\<close>

text \<open>
  C33: \<open>copy_from_rect\<close> draws a rectangle anywhere: it gives exactly the picture whose covered pixels
  come from the rectangle and whose other pixels, and size, are unchanged, with whatever part hangs
  over an edge clipped.  It panics exactly when rows of both meet but the rectangle lies strictly
  left or right of the framebuffer.
\<close>

theorem framebuffer_blit:
  assumes "fb_ok fb" "fb_ok rect"
    and "\<bar>offset_x\<bar> < 4611686018427387904" "\<bar>offset_y\<bar> < 4611686018427387904"
  shows "(copy_from_rect fb offset_x offset_y rect = None \<longleftrightarrow>
      rows_meet fb offset_y rect \<and> \<not> columns_touch fb offset_x rect) \<and>
    (\<forall>fb'. copy_from_rect fb offset_x offset_y rect = Some fb' \<longrightarrow>
      same_size fb fb' \<and>
      (\<forall>x<fb_width fb. \<forall>y<fb_height fb.
         pixel fb' x y =
           (if rect_covers rect offset_x offset_y x y
            then pixel rect (nat (int x - offset_x)) (nat (int y - offset_y)) else pixel fb x y)))"
  by (rule copy_from_rect_spec [OF assms])

theorem framebuffer_blit_witness:
  "copy_from_rect \<lparr>fb_pixels = [0, 0, 0, 0], fb_width = 2, fb_height = 2\<rparr> 3 0
     \<lparr>fb_pixels = [7], fb_width = 1, fb_height = 1\<rparr> = None"
  by (subst framebuffer_blit [THEN conjunct1])
    (simp_all add: fb_ok_def rows_meet_def columns_touch_def)

end
