(* ===== verification/Input_Events.thy ===== *)
theory Input_Events
  imports Deravel_Prelude
begin

text \<open>
  Input events (the structs of \<open>interfaces.drvli\<close>) and the codes of \<open>types/src/input.rs\<close> that the
  programs look at.
\<close>

record input_event =
  ev_type :: u16
  ev_code :: u16
  ev_value :: u32

record input_absinfo =
  abs_min :: u32
  abs_max :: u32
  abs_fuzz :: u32
  abs_flat :: u32
  abs_res :: u32

definition EV_SYN :: u16 where "EV_SYN = 0x00"
definition EV_KEY :: u16 where "EV_KEY = 0x01"
definition EV_REL :: u16 where "EV_REL = 0x02"
definition EV_ABS :: u16 where "EV_ABS = 0x03"

definition KEY_ESC :: u16 where "KEY_ESC = 1"
definition KEY_Q :: u16 where "KEY_Q = 16"
definition KEY_T :: u16 where "KEY_T = 20"
definition KEY_A :: u16 where "KEY_A = 30"
definition KEY_B :: u16 where "KEY_B = 48"
definition KEY_C :: u16 where "KEY_C = 46"
definition KEY_D :: u16 where "KEY_D = 32"
definition KEY_E :: u16 where "KEY_E = 18"
definition KEY_F :: u16 where "KEY_F = 33"
definition KEY_G :: u16 where "KEY_G = 34"
definition KEY_H :: u16 where "KEY_H = 35"
definition KEY_I :: u16 where "KEY_I = 23"
definition KEY_J :: u16 where "KEY_J = 36"
definition KEY_K :: u16 where "KEY_K = 37"
definition KEY_L :: u16 where "KEY_L = 38"
definition KEY_M :: u16 where "KEY_M = 50"
definition KEY_N :: u16 where "KEY_N = 49"
definition KEY_O :: u16 where "KEY_O = 24"
definition KEY_P :: u16 where "KEY_P = 25"
definition KEY_R :: u16 where "KEY_R = 19"
definition KEY_S :: u16 where "KEY_S = 31"
definition KEY_U :: u16 where "KEY_U = 22"
definition KEY_V :: u16 where "KEY_V = 47"
definition KEY_W :: u16 where "KEY_W = 17"
definition KEY_X :: u16 where "KEY_X = 45"
definition KEY_Y :: u16 where "KEY_Y = 21"
definition KEY_Z :: u16 where "KEY_Z = 44"
definition KEY_ENTER :: u16 where "KEY_ENTER = 28"
definition KEY_DOT :: u16 where "KEY_DOT = 52"
definition KEY_SPACE :: u16 where "KEY_SPACE = 57"
definition KEY_LEFTALT :: u16 where "KEY_LEFTALT = 56"

definition BTN_LEFT :: u16 where "BTN_LEFT = 0x110"

definition REL_X :: u16 where "REL_X = 0x00"
definition REL_Y :: u16 where "REL_Y = 0x01"

definition ABS_X :: u16 where "ABS_X = 0x00"
definition ABS_Y :: u16 where "ABS_Y = 0x01"

subsection \<open>Signed integers of 32 bits\<close>

definition i32_ok :: "int \<Rightarrow> bool" where
  "i32_ok x \<longleftrightarrow> - 2147483648 \<le> x \<and> x < 2147483648"

definition i32_add :: "int \<Rightarrow> int \<Rightarrow> int run" where
  "i32_add a b = (if i32_ok (a + b) then Some (a + b) else None)"

definition i32_sub :: "int \<Rightarrow> int \<Rightarrow> int run" where
  "i32_sub a b = (if i32_ok (a - b) then Some (a - b) else None)"

text \<open>The cast from \<open>u64\<close> keeps the low 32 bits.\<close>

definition as_i32 :: "nat \<Rightarrow> int" where
  "as_i32 n = signed_take_bit 31 (int n)"

lemma as_i32_small: "n < 2147483648 \<Longrightarrow> as_i32 n = int n"
  by (simp add: as_i32_def signed_take_bit_int_eq_self)

lemma sint_bounds: "- 2147483648 \<le> sint (w :: u32)" "sint (w :: u32) < 2147483648"
  using sint_greater_eq [of w] sint_less [of w] by simp_all

lemma sint_small: "unat (w :: u32) < 2147483648 \<Longrightarrow> sint w = int (unat w)"
  using as_i32_small [of "unat w"] unfolding as_i32_def by (simp add: sint_uint)

end
