(* ===== verification/Windowing.thy ===== *)
theory Windowing
  imports Dispatch Framebuffer Input_Events "HOL-Library.Signed_Division"
begin

text \<open>
  The windowing server (\<open>apps/src/bin/windowing.rs\<close>): the windows, what is on the display, the
  cursor and the shortcuts, and the operations that clients and input devices start.

  Calls to other servers and to the kernel are recorded, newest last, in the field \<open>requests\<close> of
  the state; what they answer is a function of them, in the environment.
\<close>

subsection \<open>State\<close>

datatype shortcut = NotStarted | Alt

datatype window_status = Open | Closed

record window_data =
  win_x :: int
  win_y :: int
  win_width :: u32
  win_height :: u32
  win_status :: window_status
  win_framebuffer :: framebuffer
  win_memory :: raw_capability
  win_event_ring :: "input_event ring option"

datatype ui_request =
    Display_draw
  | Display_update_cursor u32 u32
  | Display_cursor_image_modified
  | Alloc_shared usize
  | Spawn_terminal raw_capability
  | Spawn_shell raw_capability raw_capability raw_capability raw_capability raw_capability raw_capability
  | Shutdown_shutdown

record server =
  display_width :: u32
  display_height :: u32
  display_framebuffer :: framebuffer
  windows :: "window_data list"
  active_window :: "usize option"
  cursor_x :: int
  cursor_y :: int
  cap_fs :: raw_capability
  cap_image_viewer :: raw_capability
  cap_net :: raw_capability
  cap_shutdown :: raw_capability
  global_shortcut :: shortcut
  abs_x_info :: input_absinfo
  abs_y_info :: input_absinfo
  requests :: "ui_request list"

text \<open>
  The environment: the memory, as 32-bit pixels, and the capability that \<open>alloc_shared\<close> returns,
  the console that spawning a terminal returns, and the decoding of the arguments.
\<close>

record environment =
  answer_alloc :: "ui_request list \<Rightarrow> usize \<Rightarrow> (u32 list \<times> raw_capability) run"
  answer_terminal :: "ui_request list \<Rightarrow> raw_capability"
  decode_size :: "u8 list \<Rightarrow> (u32 \<times> u32) run"

text \<open>The objects of the server's capabilities: \<open>()\<close> for windowing itself, or a window.\<close>

datatype windowing_object = Windowing | Window usize

datatype windowing_result = Nothing | Capability raw_capability | Stream raw_capability usize

definition ask :: "ui_request \<Rightarrow> server \<Rightarrow> server" where
  "ask r s = s\<lparr>requests := requests s @ [r]\<rparr>"

definition alloc_shared :: "environment \<Rightarrow> server \<Rightarrow> usize \<Rightarrow> (server \<times> u32 list \<times> raw_capability) run" where
  "alloc_shared env s n = do {
     (ptr, cap) \<leftarrow> answer_alloc env (requests s) n;
     Some (ask (Alloc_shared n) s, ptr, cap) }"

subsection \<open>Windows\<close>

definition draw_window :: "server \<Rightarrow> usize \<Rightarrow> server run" where
  "draw_window s window_id = do {
     ensure (window_id < length (windows s));
     let window = windows s ! window_id;
     fb \<leftarrow> copy_from_rect (display_framebuffer s) (win_x window) (win_y window) (win_framebuffer window);
     Some (s\<lparr>display_framebuffer := fb\<rparr>) }"

definition create_window ::
    "environment \<Rightarrow> server \<Rightarrow> windowing_object ctx \<Rightarrow> process_id \<Rightarrow> u32 \<Rightarrow> u32 \<Rightarrow>
       (server \<times> windowing_object ctx \<times> raw_capability) run" where
  "create_window env s ctx sender width height = do {
     let window_id = length (windows s);
     (framebuffer, s, memory) \<leftarrow>
       fb_alloc (\<lambda>n. do { (s, ptr, cap) \<leftarrow> alloc_shared env s n; Some (ptr, s, cap) }) (unat width) (unat height);
     x \<leftarrow> i32_sub (cursor_x s) (sint width sdiv 2);
     y \<leftarrow> i32_sub (cursor_y s) (sint height sdiv 2);
     let s = s\<lparr>windows := windows s @ [\<lparr>win_x = x, win_y = y, win_width = width, win_height = height,
         win_status = Open, win_framebuffer = framebuffer, win_memory = memory, win_event_ring = None\<rparr>],
       active_window := Some window_id\<rparr>;
     (ctx, cap) \<leftarrow> grant_to_sender sender ctx (Window window_id);
     Some (s, ctx, cap) }"

definition window_framebuffer ::
    "server \<Rightarrow> windowing_object ctx \<Rightarrow> process_id \<Rightarrow> usize \<Rightarrow> (windowing_object ctx \<times> raw_capability) run" where
  "window_framebuffer s ctx sender window_id = do {
     ensure (window_id < length (windows s));
     forward_to_sender sender ctx (win_memory (windows s ! window_id)) }"

definition window_draw :: "server \<Rightarrow> usize \<Rightarrow> server run" where
  "window_draw s window_id = do {
     s \<leftarrow> draw_window s window_id;
     s \<leftarrow> (case active_window s of
            Some active \<Rightarrow> if active \<noteq> window_id then draw_window s active else Some s
          | None \<Rightarrow> Some s);
     Some (ask Display_draw s) }"

definition no_event :: input_event where
  "no_event = \<lparr>ev_type = 0, ev_code = 0, ev_value = 0\<rparr>"

definition window_events ::
    "environment \<Rightarrow> server \<Rightarrow> windowing_object ctx \<Rightarrow> process_id \<Rightarrow> usize \<Rightarrow>
       (server \<times> windowing_object ctx \<times> raw_capability \<times> usize) run" where
  "window_events env s ctx sender window_id = do {
     (s, memory, cap) \<leftarrow> alloc_shared env s PAGE_SIZE;
     ring \<leftarrow> ring_new_in_single_page 8 no_event PAGE_SIZE;
     ensure (window_id < length (windows s));
     let s = s\<lparr>windows := (windows s)[window_id := (windows s ! window_id)\<lparr>win_event_ring := Some ring\<rparr>]\<rparr>;
     (ctx, forwarded) \<leftarrow> forward_to_sender sender ctx cap;
     len \<leftarrow> ring_untype 8 (length (ring_data ring));
     Some (s, ctx, forwarded, len) }"

text \<open>
  The methods as the interface numbers them; the generated match panics on any other, and window
  methods have no arguments to decode.
\<close>

definition windowing_call :: "environment \<Rightarrow> (server, windowing_object, windowing_result) call_method" where
  "windowing_call env s ctx method args object sender =
     (case object of
        Windowing \<Rightarrow>
          if method = 0 then do {
            (width, height) \<leftarrow> decode_size env args;
            (s, ctx, cap) \<leftarrow> create_window env s ctx sender width height;
            Some (s, ctx, Capability cap) }
          else None
      | Window window_id \<Rightarrow>
          if method = 0 then do {
            (ctx, cap) \<leftarrow> window_framebuffer s ctx sender window_id;
            Some (s, ctx, Capability cap) }
          else if method = 1 then do { s \<leftarrow> window_draw s window_id; Some (s, ctx, Nothing) }
          else if method = 1000 then do {
            (s, ctx, cap, len) \<leftarrow> window_events env s ctx sender window_id;
            Some (s, ctx, Stream cap len) }
          else None)"

subsection \<open>The keyboard\<close>

text \<open>Alt and T: a terminal, and a shell in it, with all that it needs granted or forwarded.\<close>

definition spawn_shell ::
    "environment \<Rightarrow> server \<Rightarrow> windowing_object ctx \<Rightarrow> (server \<times> windowing_object ctx) run" where
  "spawn_shell env s ctx = do {
     (ctx, granted) \<leftarrow> grant_to_kernel ctx Windowing;
     let term = answer_terminal env (requests s);
     let s = ask (Spawn_terminal granted) s;
     (ctx, term) \<leftarrow> ctx_forward ctx term Kernel;
     (ctx, fs) \<leftarrow> ctx_forward ctx (cap_fs s) Kernel;
     (ctx, image_viewer) \<leftarrow> ctx_forward ctx (cap_image_viewer s) Kernel;
     (ctx, windowing) \<leftarrow> grant_to_kernel ctx Windowing;
     (ctx, net) \<leftarrow> ctx_forward ctx (cap_net s) Kernel;
     (ctx, shutdown) \<leftarrow> ctx_forward ctx (cap_shutdown s) Kernel;
     let s = ask (Spawn_shell term fs image_viewer windowing net shutdown) s;
     Some (s\<lparr>active_window := None, global_shortcut := NotStarted\<rparr>, ctx) }"

text \<open>Alt and Q: the active window is closed, and its area of the display filled.\<close>

definition clamp :: "int \<Rightarrow> u32 \<Rightarrow> usize" where
  "clamp x limit = isize_as_usize (min (max x 0) (sint limit))"

definition close_active :: "server \<Rightarrow> server run" where
  "close_active s = (case active_window s of
     None \<Rightarrow> Some s
   | Some window_id \<Rightarrow> do {
       let s = s\<lparr>active_window := None\<rparr>;
       ensure (window_id < length (windows s));
       let window = windows s ! window_id;
       let s = s\<lparr>windows := (windows s)[window_id := window\<lparr>win_status := Closed\<rparr>]\<rparr>;
       right \<leftarrow> i32_add (win_x window) (sint (win_width window));
       bottom \<leftarrow> i32_add (win_y window) (sint (win_height window));
       fb \<leftarrow> fill_rect (display_framebuffer s)
         (clamp (win_x window) (display_width s)) (clamp (win_y window) (display_height s))
         (clamp right (display_width s)) (clamp bottom (display_height s)) 191 215 234 255;
       Some (ask Display_draw (s\<lparr>display_framebuffer := fb\<rparr>)) })"

text \<open>\<open>shutdown\<close> never returns: what follows it here has no counterpart.\<close>

definition handle_shortcut ::
    "environment \<Rightarrow> server \<Rightarrow> windowing_object ctx \<Rightarrow> u16 \<Rightarrow> u32 \<Rightarrow> (server \<times> windowing_object ctx) run" where
  "handle_shortcut env s ctx code value = (case global_shortcut s of
     NotStarted \<Rightarrow>
       Some (if code = KEY_LEFTALT \<and> value = 1 then s\<lparr>global_shortcut := Alt\<rparr> else s, ctx)
   | Alt \<Rightarrow>
       if code = KEY_ESC \<and> value = 1 then Some (ask Shutdown_shutdown s, ctx)
       else if code = KEY_T \<and> value = 1 then spawn_shell env s ctx
       else if code = KEY_Q \<and> value = 1 then do { s \<leftarrow> close_active s; Some (s, ctx) }
       else if code = KEY_LEFTALT \<and> value = 0 then Some (s\<lparr>global_shortcut := NotStarted\<rparr>, ctx)
       else if value = 1 then Some (s\<lparr>global_shortcut := NotStarted\<rparr>, ctx)
       else Some (s, ctx))"

definition push_to_active :: "server \<Rightarrow> input_event \<Rightarrow> server run" where
  "push_to_active s event = (case active_window s of
     None \<Rightarrow> Some s
   | Some window_id \<Rightarrow> do {
       ensure (window_id < length (windows s));
       let window = windows s ! window_id;
       case win_event_ring window of
         None \<Rightarrow> Some s
       | Some event_ring \<Rightarrow> do {
           ring \<leftarrow> ring_push event_ring event;
           Some (s\<lparr>windows := (windows s)[window_id := window\<lparr>win_event_ring := Some ring\<rparr>]\<rparr>) } })"

definition observe_keyboard ::
    "environment \<Rightarrow> server \<Rightarrow> windowing_object ctx \<Rightarrow> input_event \<Rightarrow> (server \<times> windowing_object ctx) run" where
  "observe_keyboard env s ctx event = do {
     (s, ctx) \<leftarrow> (if ev_type event = EV_KEY then handle_shortcut env s ctx (ev_code event) (ev_value event)
                   else Some (s, ctx));
     s \<leftarrow> push_to_active s event;
     Some (s, ctx) }"

subsection \<open>The mouse\<close>

text \<open>Whether the cursor is on a window; the sums are only computed when they are needed.\<close>

definition on_window :: "int \<Rightarrow> int \<Rightarrow> window_data \<Rightarrow> bool run" where
  "on_window cx cy window =
     (if cx < win_x window then Some False
      else do {
        right \<leftarrow> i32_add (win_x window) (sint (win_width window));
        if \<not> cx < right \<or> cy < win_y window then Some False
        else do {
          bottom \<leftarrow> i32_add (win_y window) (sint (win_height window));
          Some (cy < bottom \<and> win_status window = Open) } })"

fun pick_window :: "int \<Rightarrow> int \<Rightarrow> usize \<Rightarrow> window_data list \<Rightarrow> usize option \<Rightarrow> usize option run" where
  "pick_window cx cy window_index [] active = Some active"
| "pick_window cx cy window_index (window # rest) active = do {
     hit \<leftarrow> on_window cx cy window;
     pick_window cx cy (Suc window_index) rest (if hit then Some window_index else active) }"

definition move_cursor :: "int \<Rightarrow> u32 \<Rightarrow> u32 \<Rightarrow> int run" where
  "move_cursor c value limit = do {
     c \<leftarrow> i32_add c (sint value);
     Some (min (max c 0) (sint limit)) }"

definition from_abs :: "u32 \<Rightarrow> input_absinfo \<Rightarrow> u32 \<Rightarrow> int run" where
  "from_abs value info res = do {
     v \<leftarrow> usub (unat value) (unat (abs_min info));
     n \<leftarrow> umul v (unat res);
     range \<leftarrow> usub (unat (abs_max info)) (unat (abs_min info));
     q \<leftarrow> udiv n range;
     Some (as_i32 q) }"

definition observe_mouse :: "server \<Rightarrow> input_event \<Rightarrow> server run" where
  "observe_mouse s event =
     (if ev_type event = EV_KEY then
        if ev_code event = BTN_LEFT \<and> ev_value event = 1 then do {
          active \<leftarrow> pick_window (cursor_x s) (cursor_y s) 0 (windows s) (active_window s);
          Some (s\<lparr>active_window := active\<rparr>) }
        else Some s
      else if ev_type event = EV_REL then
        if ev_code event = REL_X then do {
          x \<leftarrow> move_cursor (cursor_x s) (ev_value event) (display_width s);
          Some (s\<lparr>cursor_x := x\<rparr>) }
        else if ev_code event = REL_Y then do {
          y \<leftarrow> move_cursor (cursor_y s) (ev_value event) (display_height s);
          Some (s\<lparr>cursor_y := y\<rparr>) }
        else Some s
      else if ev_type event = EV_ABS then
        if ev_code event = ABS_X then do {
          x \<leftarrow> from_abs (ev_value event) (abs_x_info s) (display_width s);
          Some (s\<lparr>cursor_x := x\<rparr>) }
        else if ev_code event = ABS_Y then do {
          y \<leftarrow> from_abs (ev_value event) (abs_y_info s) (display_height s);
          Some (s\<lparr>cursor_y := y\<rparr>) }
        else Some s
      else if ev_type event = EV_SYN then
        Some (ask (Display_update_cursor (word_of_int (cursor_x s)) (word_of_int (cursor_y s))) s)
      else Some s)"

datatype device = KeyboardTag | MouseTag

definition windowing_observe :: "environment \<Rightarrow> (server, windowing_object, device, input_event) observe_event" where
  "windowing_observe env s ctx event tag = (case tag of
     KeyboardTag \<Rightarrow> observe_keyboard env s ctx event
   | MouseTag \<Rightarrow> do { s \<leftarrow> observe_mouse s event; Some (s, ctx) })"

subsection \<open>Starting\<close>

text \<open>What the arguments and the first calls to the display and the mouse answer.\<close>

record windowing_args =
  arg_width :: u32
  arg_height :: u32
  arg_framebuffer :: "u32 list"
  arg_cursor_image :: "u32 list"
  arg_caps :: "raw_capability \<times> raw_capability \<times> raw_capability \<times> raw_capability"
  arg_abs_x :: input_absinfo
  arg_abs_y :: input_absinfo
  arg_keyboard :: "input_event ring"
  arg_mouse :: "input_event ring"

definition initialize_cursor :: "u8 \<Rightarrow> u8 \<Rightarrow> u8 \<Rightarrow> usize \<Rightarrow> u32 list \<Rightarrow> u32 list run" where
  "initialize_cursor red green blue side cursor_image_buffer = do {
     image \<leftarrow> fill_rect (fb_map 64 64 cursor_image_buffer) 0 0 side side red green blue 255;
     Some (fb_pixels image) }"

definition windowing_main :: "windowing_args \<Rightarrow> (server, windowing_object, device, input_event) dispatch run" where
  "windowing_main args = do {
     let width = arg_width args;
     let height = arg_height args;
     let framebuffer = fb_fill (fb_map (unat width) (unat height) (arg_framebuffer args)) 191 215 234 255;
     _ \<leftarrow> initialize_cursor 255 255 255 16 (arg_cursor_image args);
     let (fs, image_viewer, net, shutdown) = arg_caps args;
     let s = \<lparr>display_width = width, display_height = height, display_framebuffer = framebuffer, windows = [],
       active_window = None, cursor_x = sint width sdiv 2, cursor_y = sint height sdiv 2, cap_fs = fs,
       cap_image_viewer = image_viewer, cap_net = net, cap_shutdown = shutdown, global_shortcut = NotStarted,
       abs_x_info = arg_abs_x args, abs_y_info = arg_abs_y args,
       requests = [Display_draw, Display_cursor_image_modified]\<rparr>;
     let d = dispatch_new s Windowing;
     let d = dispatch_observe d KeyboardTag (arg_keyboard args);
     Some (dispatch_observe d MouseTag (arg_mouse args)) }"

end
