(* ===== verification/Windowing_Correct.thy ===== *)
theory Windowing_Correct
  imports Windowing
begin

text \<open>
  What keeps the windowing server from panicking: an invariant of its state, preserved by every
  operation, under which every window touches the display and every index is one of a window; the
  interpretation of the contract of servers; and what is on the display after a window is drawn.
\<close>

subsection \<open>The invariant\<close>

definition valid_cap :: "raw_capability \<Rightarrow> bool" where
  "valid_cap c \<longleftrightarrow> is_ptr_valid (as_usize c)"

text \<open>
  Allocations are not empty, they have the size asked for and less than 8 GiB, and what comes from
  outside as a capability is one.
\<close>

definition env_ok :: "environment \<Rightarrow> bool" where
  "env_ok env \<longleftrightarrow>
     (\<forall>rs n ptr cap. answer_alloc env rs n = Some (ptr, cap) \<longrightarrow>
        0 < n \<and> n < 8589934592 \<and> length ptr = n div 4 \<and> valid_cap cap) \<and>
     (\<forall>rs. valid_cap (answer_terminal env rs))"

definition window_ok :: "nat \<Rightarrow> nat \<Rightarrow> window_data \<Rightarrow> bool" where
  "window_ok W H w \<longleftrightarrow>
     fb_ok (win_framebuffer w) \<and> valid_cap (win_memory w) \<and>
     fb_width (win_framebuffer w) = unat (win_width w) \<and> fb_height (win_framebuffer w) = unat (win_height w) \<and>
     unat (win_width w) < 2147483648 \<and> unat (win_height w) < 2147483648 \<and>
     - int (unat (win_width w)) \<le> win_x w \<and> win_x w \<le> int W \<and> win_x w + int (unat (win_width w)) < 2147483648 \<and>
     - int (unat (win_height w)) \<le> win_y w \<and> win_y w \<le> int H \<and> win_y w + int (unat (win_height w)) < 2147483648"

definition display_ok :: "server \<Rightarrow> bool" where
  "display_ok s \<longleftrightarrow>
     0 < unat (display_width s) \<and> unat (display_width s) < 1073741824 \<and>
     0 < unat (display_height s) \<and> unat (display_height s) < 1073741824 \<and>
     fb_ok (display_framebuffer s) \<and>
     fb_width (display_framebuffer s) = unat (display_width s) \<and>
     fb_height (display_framebuffer s) = unat (display_height s)"

definition good_server :: "environment \<Rightarrow> input_absinfo \<Rightarrow> input_absinfo \<Rightarrow> server \<Rightarrow> bool" where
  "good_server env ax ay s \<longleftrightarrow>
     env_ok env \<and> display_ok s \<and> abs_x_info s = ax \<and> abs_y_info s = ay \<and>
     0 \<le> cursor_x s \<and> cursor_x s \<le> int (unat (display_width s)) \<and>
     0 \<le> cursor_y s \<and> cursor_y s \<le> int (unat (display_height s)) \<and>
     (\<forall>a. active_window s = Some a \<longrightarrow> a < length (windows s)) \<and>
     (\<forall>w\<in>set (windows s). window_ok (unat (display_width s)) (unat (display_height s)) w) \<and>
     valid_cap (cap_fs s) \<and> valid_cap (cap_image_viewer s) \<and> valid_cap (cap_net s) \<and> valid_cap (cap_shutdown s)"

fun serves_object :: "server \<Rightarrow> windowing_object \<Rightarrow> bool" where
  "serves_object s Windowing = True"
| "serves_object s (Window window_id) \<longleftrightarrow> window_id < length (windows s)"

text \<open>What the devices report: moves of at most 2^30, and absolute positions in the announced range.\<close>

definition abs_ok :: "u32 \<Rightarrow> input_absinfo \<Rightarrow> bool" where
  "abs_ok value info \<longleftrightarrow> abs_min info \<le> value \<and> value \<le> abs_max info \<and> abs_min info < abs_max info"

definition event_ok :: "input_absinfo \<Rightarrow> input_absinfo \<Rightarrow> device \<Rightarrow> input_event \<Rightarrow> bool" where
  "event_ok ax ay tag e \<longleftrightarrow>
     (tag = MouseTag \<longrightarrow>
        (ev_type e = EV_REL \<longrightarrow> \<bar>sint (ev_value e)\<bar> \<le> 1073741824) \<and>
        (ev_type e = EV_ABS \<and> ev_code e = ABS_X \<longrightarrow> abs_ok (ev_value e) ax) \<and>
        (ev_type e = EV_ABS \<and> ev_code e = ABS_Y \<longrightarrow> abs_ok (ev_value e) ay))"

text \<open>What clients do to the memory they share: the pixels of windows, and rings of events.\<close>

definition client_writes :: "window_data \<Rightarrow> window_data \<Rightarrow> bool" where
  "client_writes w w' \<longleftrightarrow>
     same_size (win_framebuffer w) (win_framebuffer w') \<and>
     (\<exists>ring. w' = w\<lparr>win_framebuffer := win_framebuffer w', win_event_ring := ring\<rparr> \<and>
        map_option (\<lambda>r. length (ring_data r)) ring = map_option (\<lambda>r. length (ring_data r)) (win_event_ring w))"

definition clients_write :: "server \<Rightarrow> server \<Rightarrow> bool" where
  "clients_write s s' \<longleftrightarrow> (\<exists>ws. list_all2 client_writes (windows s) ws \<and> s' = s\<lparr>windows := ws\<rparr>)"

lemma good_updates:
  assumes "good_server env ax ay s"
  shows "good_server env ax ay (ask r s)" "good_server env ax ay (s\<lparr>global_shortcut := k\<rparr>)"
    "good_server env ax ay (s\<lparr>active_window := None\<rparr>)"
    "a < length (windows s) \<Longrightarrow> good_server env ax ay (s\<lparr>active_window := Some a\<rparr>)"
    "0 \<le> c \<Longrightarrow> c \<le> int (unat (display_width s)) \<Longrightarrow> good_server env ax ay (s\<lparr>cursor_x := c\<rparr>)"
    "0 \<le> c \<Longrightarrow> c \<le> int (unat (display_height s)) \<Longrightarrow> good_server env ax ay (s\<lparr>cursor_y := c\<rparr>)"
    "same_size (display_framebuffer s) fb \<Longrightarrow> good_server env ax ay (s\<lparr>display_framebuffer := fb\<rparr>)"
    "length (windows s) \<le> length ws \<Longrightarrow>
       \<forall>w\<in>set ws. window_ok (unat (display_width s)) (unat (display_height s)) w \<Longrightarrow>
       good_server env ax ay (s\<lparr>windows := ws\<rparr>)"
  using assms by (auto simp: good_server_def display_ok_def ask_def same_size_def fb_ok_def dest: less_le_trans)

lemma good_window:
  "good_server env ax ay s \<Longrightarrow> i < length (windows s) \<Longrightarrow>
   window_ok (unat (display_width s)) (unat (display_height s)) (windows s ! i)"
  by (simp add: good_server_def)

lemma ask_simps [simp]:
  "windows (ask r s) = windows s" "active_window (ask r s) = active_window s" "cursor_x (ask r s) = cursor_x s"
  "cursor_y (ask r s) = cursor_y s" "display_width (ask r s) = display_width s" "display_height (ask r s) = display_height s"
  "display_framebuffer (ask r s) = display_framebuffer s"
  "cap_fs (ask r s) = cap_fs s" "cap_image_viewer (ask r s) = cap_image_viewer s" "cap_net (ask r s) = cap_net s"
  "cap_shutdown (ask r s) = cap_shutdown s"
  by (simp_all add: ask_def)

subsection \<open>Drawing\<close>

lemma draw_window_ok:
  assumes good: "good_server env ax ay s" and i: "i < length (windows s)"
  defines "w \<equiv> windows s ! i"
  shows "\<exists>fb. draw_window s i = Some (s\<lparr>display_framebuffer := fb\<rparr>) \<and> same_size (display_framebuffer s) fb \<and>
    (\<forall>x<unat (display_width s). \<forall>y<unat (display_height s).
       pixel fb x y = (if rect_covers (win_framebuffer w) (win_x w) (win_y w) x y
         then pixel (win_framebuffer w) (nat (int x - win_x w)) (nat (int y - win_y w))
         else pixel (display_framebuffer s) x y))"
proof -
  have w: "window_ok (unat (display_width s)) (unat (display_height s)) w" unfolding w_def by (rule good_window [OF good i])
  have d: "display_ok s" using good by (simp add: good_server_def)
  have fbs: "fb_ok (display_framebuffer s)" "fb_ok (win_framebuffer w)"
    and off: "\<bar>win_x w\<bar> < 4611686018427387904" "\<bar>win_y w\<bar> < 4611686018427387904"
    and touch: "columns_touch (display_framebuffer s) (win_x w) (win_framebuffer w)"
    using w d unfolding window_ok_def display_ok_def columns_touch_def by linarith+
  note spec = copy_from_rect_spec [OF fbs off]
  obtain fb where fb: "copy_from_rect (display_framebuffer s) (win_x w) (win_y w) (win_framebuffer w) = Some fb"
    using spec touch by blast
  have dims: "fb_width (display_framebuffer s) = unat (display_width s)" "fb_height (display_framebuffer s) = unat (display_height s)"
    using d by (simp_all add: display_ok_def)
  show ?thesis
    using conjunct2 [OF spec, rule_format, OF fb] i unfolding dims
    by (intro exI [of _ fb]) (simp add: draw_window_def w_def [symmetric] fb)
qed

lemma window_draw_ok:
  assumes good: "good_server env ax ay s" and i: "i < length (windows s)"
  shows "\<exists>fb. window_draw s i = Some (ask Display_draw (s\<lparr>display_framebuffer := fb\<rparr>)) \<and>
    same_size (display_framebuffer s) fb"
proof -
  obtain fb where fb: "draw_window s i = Some (s\<lparr>display_framebuffer := fb\<rparr>)" "same_size (display_framebuffer s) fb"
    using draw_window_ok [OF good i] by blast
  let ?s = "s\<lparr>display_framebuffer := fb\<rparr>"
  have good': "good_server env ax ay ?s" by (rule good_updates(7) [OF good fb(2)])
  show ?thesis
  proof (cases "active_window s")
    case (Some a)
    then have "a < length (windows ?s)" using good by (simp add: good_server_def)
    from draw_window_ok [OF good' this] obtain fb2 where
      "draw_window ?s a = Some (?s\<lparr>display_framebuffer := fb2\<rparr>)" "same_size fb fb2" by auto
    with fb Some show ?thesis by (auto simp: window_draw_def same_size_def)
  qed (use fb in \<open>auto simp: window_draw_def\<close>)
qed

subsection \<open>Creating windows\<close>

lemma half_size:
  assumes "unat (v :: u32) < 2147483648"
  shows "sint v sdiv 2 = int (unat v div 2)"
  using sint_small [OF assms] by (simp add: signed_divide_int_def zdiv_int sgn_if)

lemma window_position:
  assumes "unat (v :: u32) < 2147483648" "0 \<le> c" "c \<le> int lim" "lim < 1073741824"
  shows "i32_sub c (sint v sdiv 2) = Some (c - int (unat v div 2))"
    "- int (unat v) \<le> c - int (unat v div 2)" "c - int (unat v div 2) \<le> int lim"
    "c - int (unat v div 2) + int (unat v) < 2147483648"
proof -
  have "2 * (unat v div 2) \<le> unat v" "unat v \<le> 2 * (unat v div 2) + 1" by linarith+
  with assms show pos: "- int (unat v) \<le> c - int (unat v div 2)" "c - int (unat v div 2) \<le> int lim"
    "c - int (unat v div 2) + int (unat v) < 2147483648"
    by linarith+
  from assms pos have "i32_ok (c - int (unat v div 2))" unfolding i32_ok_def by linarith
  then show "i32_sub c (sint v sdiv 2) = Some (c - int (unat v div 2))"
    by (simp add: i32_sub_def half_size [OF assms(1)])
qed

lemma alloc_size:
  assumes "0 < 4 * a * (b :: nat)" "4 * a * b < 8589934592"
  shows "a < 2147483648" "b < 2147483648" "a * b = 4 * a * b div 4"
proof -
  have "a \<le> a * b" "b \<le> a * b" using assms(1) by auto
  with assms(2) show "a < 2147483648" "b < 2147483648" by linarith+
qed simp

text \<open>The window that is created, from the memory that was allocated for it.\<close>

definition new_window :: "server \<Rightarrow> u32 \<Rightarrow> u32 \<Rightarrow> u32 list \<Rightarrow> raw_capability \<Rightarrow> window_data" where
  "new_window s width height ptr memory =
     \<lparr>win_x = cursor_x s - int (unat width div 2), win_y = cursor_y s - int (unat height div 2), win_width = width,
      win_height = height, win_status = Open,
      win_framebuffer = \<lparr>fb_pixels = ptr, fb_width = unat width, fb_height = unat height\<rparr>,
      win_memory = memory, win_event_ring = None\<rparr>"

definition with_window :: "server \<Rightarrow> window_data \<Rightarrow> server" where
  "with_window s w = s\<lparr>windows := windows s @ [w], active_window := Some (length (windows s))\<rparr>"

lemma create_window_eq:
  assumes good: "good_server env ax ay s"
    and alloc: "answer_alloc env (requests s) (4 * unat width * unat height) = Some (ptr, memory)"
  defines "s' \<equiv> with_window (ask (Alloc_shared (4 * unat width * unat height)) s) (new_window s width height ptr memory)"
  shows "good_server env ax ay s'"
    "create_window env s ctx sender width height =
       do { (ctx, cap) \<leftarrow> grant_to_sender sender ctx (Window (length (windows s))); Some (s', ctx, cap) }"
proof -
  let ?n = "4 * unat width * unat height" and ?w = "new_window s width height ptr memory"
  have n: "0 < ?n" "?n < 8589934592" "length ptr = ?n div 4" "valid_cap memory"
    using good alloc unfolding good_server_def env_ok_def by blast+
  note size = alloc_size [OF n(1,2)]
  have cursor: "0 \<le> cursor_x s" "cursor_x s \<le> int (unat (display_width s))" "0 \<le> cursor_y s"
    "cursor_y s \<le> int (unat (display_height s))" "unat (display_width s) < 1073741824" "unat (display_height s) < 1073741824"
    using good by (simp_all add: good_server_def display_ok_def)
  note px = window_position [OF size(1) cursor(1,2,5)] and py = window_position [OF size(2) cursor(3,4,6)]
  have "window_ok (unat (display_width s)) (unat (display_height s)) ?w"
    using size n px(2-4) py(2-4) by (simp add: window_ok_def new_window_def fb_ok_def)
  with good good_updates(1) [OF good, of "Alloc_shared ?n"]
  have "good_server env ax ay ((ask (Alloc_shared ?n) s)\<lparr>windows := windows s @ [?w]\<rparr>)"
    by (intro good_updates(8)) (auto simp: good_server_def)
  from good_updates(4) [OF this, of "length (windows s)"] show "good_server env ax ay s'"
    by (simp add: s'_def with_window_def)
  have "4 * unat width < usize_end" "?n < usize_end" using size n(2) by linarith+
  then show "create_window env s ctx sender width height =
       do { (ctx, cap) \<leftarrow> grant_to_sender sender ctx (Window (length (windows s))); Some (s', ctx, cap) }"
    using alloc px(1) py(1)
    by (simp add: create_window_def fb_alloc_def alloc_shared_def s'_def with_window_def new_window_def ask_def Let_def)
qed

lemma create_window_steps:
  assumes good: "good_server env ax ay s" and run: "create_window env s ctx sender width height = Some (s', ctx', cap)"
  shows "\<exists>ptr memory. answer_alloc env (requests s) (4 * unat width * unat height) = Some (ptr, memory) \<and>
    s' = with_window (ask (Alloc_shared (4 * unat width * unat height)) s) (new_window s width height ptr memory) \<and>
    grant_to_sender sender ctx (Window (length (windows s))) = Some (ctx', cap)"
proof -
  from run obtain ptr memory where "answer_alloc env (requests s) (4 * unat width * unat height) = Some (ptr, memory)"
    by (auto simp: create_window_def fb_alloc_def alloc_shared_def run_Some Let_def)
  with create_window_eq(2) [OF good this] run show ?thesis by (auto simp: run_Some)
qed

subsection \<open>The other operations\<close>

lemma serves_windows: "windows s' = windows s \<Longrightarrow> serves_object s x \<Longrightarrow> serves_object s' x"
  by (cases x) simp_all

lemma good_set_window:
  assumes good: "good_server env ax ay s" and i: "i < length (windows s)"
    and w: "window_ok (unat (display_width s)) (unat (display_height s)) w"
  shows "good_server env ax ay (s\<lparr>windows := (windows s)[i := w]\<rparr>)"
  using good w by (intro good_updates(8)) (auto simp: good_server_def dest: set_update_subset_insert [THEN subsetD])

lemma window_ok_updates [simp]:
  "window_ok W H (w\<lparr>win_event_ring := r\<rparr>) = window_ok W H w" "window_ok W H (w\<lparr>win_status := st\<rparr>) = window_ok W H w"
  by (simp_all add: window_ok_def)

lemma window_draw_keeps:
  assumes "good_server env ax ay s" "window_draw s i = Some s'"
  shows "good_server env ax ay s' \<and> windows s' = windows s"
proof -
  have "i < length (windows s)" using assms(2) by (auto simp: window_draw_def draw_window_def run_Some Let_def split: if_splits)
  from window_draw_ok [OF assms(1) this] assms(2) good_updates(1,7) [OF assms(1)] show ?thesis
    using good_updates(1) good_updates(7) [OF assms(1)] by auto
qed

lemma window_events_steps:
  assumes good: "good_server env ax ay s" and run: "window_events env s ctx sender i = Some (s', ctx', cap, len)"
  shows "\<exists>memory. good_server env ax ay s' \<and> length (windows s') = length (windows s) \<and> valid_cap memory \<and>
    forward_to_sender sender ctx memory = Some (ctx', cap)"
proof -
  obtain ptr memory ring where alloc: "answer_alloc env (requests s) PAGE_SIZE = Some (ptr, memory)"
    and i: "i < length (windows s)"
    and s': "s' = (ask (Alloc_shared PAGE_SIZE) s)\<lparr>windows := (windows s)[i := (windows s ! i)\<lparr>win_event_ring := Some ring\<rparr>]\<rparr>"
    and fwd: "forward_to_sender sender ctx memory = Some (ctx', cap)"
    using run by (auto simp: window_events_def alloc_shared_def run_Some Let_def split: if_splits)
  have "good_server env ax ay s'"
    unfolding s' using good_set_window [OF good_updates(1) [OF good], of i] good_window [OF good i] i by simp
  moreover have "valid_cap memory" using good alloc unfolding good_server_def env_ok_def by blast
  ultimately show ?thesis using fwd s' by auto
qed

lemma windowing_call_keeps:
  assumes good: "good_server env ax ay s" and x: "serves_object s x" and sender: "pid_ok sender"
    and new: "serves_new (serves_object s) ctx" and run: "windowing_call env s ctx method args x sender = Some (s', ctx', r)"
  shows "server_step (good_server env ax ay) serves_object s ctx s' ctx'"
proof -
  let ?step = "server_step (good_server env ax ay) serves_object s ctx"
  have refl: "?step s ctx" using good new by (intro server_step_refl)
  have who: "actor_ok (Userspace sender)" using sender by simp
  show ?thesis
  proof (cases x)
    case Windowing
    with run obtain w h cap where create: "create_window env s ctx sender w h = Some (s', ctx', cap)"
      by (auto simp: windowing_call_def run_Some split: if_splits)
    from create_window_steps [OF good this] obtain ptr memory where
      a: "answer_alloc env (requests s) (4 * unat w * unat h) = Some (ptr, memory)"
      and s': "s' = with_window (ask (Alloc_shared (4 * unat w * unat h)) s) (new_window s w h ptr memory)"
      and grant: "grant_to_sender sender ctx (Window (length (windows s))) = Some (ctx', cap)" by blast
    have "serves_object s' y" if "serves_object s y" for y
      using that by (cases y) (simp_all add: s' with_window_def)
    from server_step_update [OF refl create_window_eq(1) [OF good a, folded s'] this]
    have "?step s' ctx" .
    from server_step_grant [OF this grant [unfolded grant_to_sender_def] who]
    show ?thesis by (simp add: s' with_window_def)
  next
    case (Window i)
    then have i: "i < length (windows s)" using x by simp
    from run Window consider
        (fb) cap where "window_framebuffer s ctx sender i = Some (ctx', cap)" "s' = s"
      | (draw) "window_draw s i = Some s'" "ctx' = ctx"
      | (events) cap len where "window_events env s ctx sender i = Some (s', ctx', cap, len)"
      by (auto simp: windowing_call_def run_Some split: if_splits)
    then show ?thesis
    proof cases
      case fb
      then have "forward_to_sender sender ctx (win_memory (windows s ! i)) = Some (ctx', cap)"
        by (simp add: window_framebuffer_def i)
      moreover have "valid_cap (win_memory (windows s ! i))" using good_window [OF good i] by (simp add: window_ok_def)
      ultimately show ?thesis
        using server_step_forward [OF refl _ who] fb(2) by (auto simp: forward_to_sender_def valid_cap_def)
    next
      case draw
      with window_draw_keeps [OF good draw(1)] refl show ?thesis
        by (auto intro: server_step_update serves_windows)
    next
      case events
      from window_events_steps [OF good this] obtain memory where
        m: "good_server env ax ay s'" "length (windows s') = length (windows s)" "valid_cap memory"
        "forward_to_sender sender ctx memory = Some (ctx', cap)" by blast
      have "serves_object s' y" if "serves_object s y" for y using that m(2) by (cases y) simp_all
      from server_step_forward [OF server_step_update [OF refl m(1) this] m(4) [unfolded forward_to_sender_def] who] m(3)
      show ?thesis by (simp add: valid_cap_def)
    qed
  qed
qed

subsection \<open>The keyboard\<close>

lemma clamp_eq:
  assumes "unat limit < 1073741824"
  shows "clamp x limit = min (nat x) (unat limit)"
proof -
  have s: "sint limit = int (unat limit)" using assms by (intro sint_small) simp
  obtain n where n: "unat limit = n" by simp
  have m: "min (max x 0) (int n) = int (min (nat x) n)" by (simp add: min_def max_def) linarith
  have "min (nat x) n < 18446744073709551616" using assms n by linarith
  then show ?thesis unfolding clamp_def s n m by (subst isize_as_usize_nonneg) simp_all
qed

lemma clamp_bounds:
  assumes "unat limit < 1073741824"
  shows "clamp x limit \<le> unat limit" "x \<le> y \<Longrightarrow> clamp x limit \<le> clamp y limit"
  by (auto simp: clamp_eq [OF assms] nat_mono intro: min.mono)

lemma close_active_ok:
  assumes good: "good_server env ax ay s"
  shows "\<exists>s'. close_active s = Some s' \<and> good_server env ax ay s' \<and> length (windows s') = length (windows s)"
proof (cases "active_window s")
  case (Some i)
  let ?w = "windows s ! i"
  let ?s = "s\<lparr>active_window := None, windows := (windows s)[i := ?w\<lparr>win_status := Closed\<rparr>]\<rparr>"
  have i: "i < length (windows s)" using good Some by (simp add: good_server_def)
  note w = good_window [OF good i]
  have good1: "good_server env ax ay ?s"
    using good_set_window [OF good_updates(3) [OF good], of i "?w\<lparr>win_status := Closed\<rparr>"] i w by simp
  have d: "display_ok s" using good by (simp add: good_server_def)
  have size: "sint (win_width ?w) = int (unat (win_width ?w))" "sint (win_height ?w) = int (unat (win_height ?w))"
    using w by (simp_all add: window_ok_def sint_small)
  have "i32_ok (win_x ?w + int (unat (win_width ?w)))" "i32_ok (win_y ?w + int (unat (win_height ?w)))"
    using w unfolding window_ok_def i32_ok_def by linarith+
  then have ends: "i32_add (win_x ?w) (sint (win_width ?w)) = Some (win_x ?w + int (unat (win_width ?w)))"
    "i32_add (win_y ?w) (sint (win_height ?w)) = Some (win_y ?w + int (unat (win_height ?w)))"
    by (simp_all add: i32_add_def size)
  have lim: "unat (display_width s) < 1073741824" "unat (display_height s) < 1073741824"
    using d by (simp_all add: display_ok_def)
  obtain fb where fb: "fill_rect (display_framebuffer s)
      (clamp (win_x ?w) (display_width s)) (clamp (win_y ?w) (display_height s))
      (clamp (win_x ?w + int (unat (win_width ?w))) (display_width s))
      (clamp (win_y ?w + int (unat (win_height ?w))) (display_height s)) 191 215 234 255 = Some fb"
    "same_size (display_framebuffer s) fb"
    using fill_rect_pixels [of "display_framebuffer s"
        "clamp (win_x ?w) (display_width s)" "clamp (win_x ?w + int (unat (win_width ?w))) (display_width s)"
        "clamp (win_y ?w) (display_height s)" "clamp (win_y ?w + int (unat (win_height ?w))) (display_height s)" 191 215 234 255]
      clamp_bounds [OF lim(1)] clamp_bounds [OF lim(2)] d by (auto simp: display_ok_def)
  have "close_active s = Some (ask Display_draw (?s\<lparr>display_framebuffer := fb\<rparr>))"
    using i ends fb(1) by (simp add: close_active_def Some Let_def)
  moreover have "good_server env ax ay (ask Display_draw (?s\<lparr>display_framebuffer := fb\<rparr>))"
    using good_updates(1) [OF good_updates(7) [OF good1, of fb]] fb(2) by simp
  ultimately show ?thesis by simp
qed (use good in \<open>simp add: close_active_def\<close>)

lemma spawn_shell_keeps:
  assumes step: "server_step (good_server env ax ay) serves_object s0 ctx0 s ctx"
    and run: "spawn_shell env s ctx = Some (s', ctx')"
  shows "server_step (good_server env ax ay) serves_object s0 ctx0 s' ctx'"
proof -
  let ?step = "server_step (good_server env ax ay) serves_object s0 ctx0"
  have good: "good_server env ax ay s" using step by (simp add: server_step_def)
  have kernel: "actor_ok Kernel" by simp
  have caps: "is_ptr_valid (as_usize (cap_fs s))" "is_ptr_valid (as_usize (cap_image_viewer s))"
    "is_ptr_valid (as_usize (cap_net s))" "is_ptr_valid (as_usize (cap_shutdown s))"
    "\<And>rs. is_ptr_valid (as_usize (answer_terminal env rs))"
    using good by (simp_all add: good_server_def valid_cap_def env_ok_def)
  obtain ctx1 granted ctx2 tm ctx3 fs ctx4 iv ctx5 wn ctx6 net shut where run':
    "grant_object ctx Kernel Windowing = Some (ctx1, granted)"
    "ctx_forward ctx1 (answer_terminal env (requests s)) Kernel = Some (ctx2, tm)"
    "ctx_forward ctx2 (cap_fs s) Kernel = Some (ctx3, fs)"
    "ctx_forward ctx3 (cap_image_viewer s) Kernel = Some (ctx4, iv)"
    "grant_object ctx4 Kernel Windowing = Some (ctx5, wn)"
    "ctx_forward ctx5 (cap_net s) Kernel = Some (ctx6, net)"
    "ctx_forward ctx6 (cap_shutdown s) Kernel = Some (ctx', shut)"
    and s': "s' = (ask (Spawn_shell tm fs iv wn net shut) (ask (Spawn_terminal granted) s))
      \<lparr>active_window := None, global_shortcut := NotStarted\<rparr>"
    using run by (auto simp: spawn_shell_def grant_to_kernel_def run_Some Let_def)
  have "?step s ctx1" by (rule server_step_grant [OF step run'(1) kernel]) simp
  from server_step_forward [OF this run'(2) kernel caps(5)] have "?step s ctx2" .
  from server_step_forward [OF this run'(3) kernel caps(1)] have "?step s ctx3" .
  from server_step_forward [OF this run'(4) kernel caps(2)] have "?step s ctx4" .
  from server_step_grant [OF this run'(5) kernel] have "?step s ctx5" by simp
  from server_step_forward [OF this run'(6) kernel caps(3)] have "?step s ctx6" .
  from server_step_forward [OF this run'(7) kernel caps(4)] have last: "?step s ctx'" .
  have "good_server env ax ay s'"
    unfolding s' by (intro good_updates(1,2,3) good)
  then show ?thesis by (rule server_step_update [OF last]) (simp add: s' serves_windows)
qed

lemma push_to_active_keeps:
  assumes good: "good_server env ax ay s" and run: "push_to_active s e = Some s'"
  shows "good_server env ax ay s' \<and> length (windows s') = length (windows s)"
proof (cases "active_window s")
  case (Some i)
  then have i: "i < length (windows s)" using good by (simp add: good_server_def)
  show ?thesis
    using run good good_set_window [OF good i] good_window [OF good i] i
    by (auto simp: push_to_active_def Some Let_def run_Some split: option.splits)
qed (use run good in \<open>simp add: push_to_active_def\<close>)

lemma handle_shortcut_keeps:
  assumes good: "good_server env ax ay s" and new: "serves_new (serves_object s) ctx"
    and run: "handle_shortcut env s ctx code value = Some (s', ctx')"
  shows "server_step (good_server env ax ay) serves_object s ctx s' ctx'"
proof -
  let ?step = "server_step (good_server env ax ay) serves_object s ctx"
  have refl: "?step s ctx" using good new by (intro server_step_refl)
  have update: "?step s1 ctx" if "good_server env ax ay s1" "windows s1 = windows s" for s1
    using server_step_update [OF refl that(1)] serves_windows [OF that(2)] by blast
  have "(\<exists>k. s' = s\<lparr>global_shortcut := k\<rparr> \<and> ctx' = ctx) \<or> (s' = s \<and> ctx' = ctx) \<or>
      (s' = ask Shutdown_shutdown s \<and> ctx' = ctx) \<or> spawn_shell env s ctx = Some (s', ctx') \<or>
      (close_active s = Some s' \<and> ctx' = ctx)"
  proof (cases "global_shortcut s")
    case Alt
    show ?thesis
      using run unfolding handle_shortcut_def Alt shortcut.case if_Some run_Some by auto
  next
    case NotStarted
    then have "s' = (if code = KEY_LEFTALT \<and> value = 1 then s\<lparr>global_shortcut := Alt\<rparr> else s)" "ctx' = ctx"
      using run by (simp_all add: handle_shortcut_def)
    then show ?thesis by (cases "code = KEY_LEFTALT \<and> value = 1") auto
  qed
  then consider
      (shortcut) k where "s' = s\<lparr>global_shortcut := k\<rparr>" "ctx' = ctx"
    | (same) "s' = s" "ctx' = ctx"
    | (shutdown) "s' = ask Shutdown_shutdown s" "ctx' = ctx"
    | (shell) "spawn_shell env s ctx = Some (s', ctx')"
    | (close) "close_active s = Some s'" "ctx' = ctx"
    by blast
  then show ?thesis
  proof cases
    case shortcut
    then show ?thesis using update [OF good_updates(2) [OF good]] by simp
  next
    case shutdown
    then show ?thesis using update [OF good_updates(1) [OF good]] by simp
  next
    case shell
    then show ?thesis by (rule spawn_shell_keeps [OF refl])
  next
    case close
    obtain s1 where s1: "close_active s = Some s1" "good_server env ax ay s1" "length (windows s1) = length (windows s)"
      using close_active_ok [OF good] by blast
    have "serves_object s1 x" if "serves_object s x" for x using that s1(3) by (cases x) simp_all
    with server_step_update [OF refl s1(2)] close s1(1) show ?thesis by simp
  qed (use refl in simp)
qed

subsection \<open>The mouse\<close>

lemma on_window_ok:
  assumes "window_ok W H w"
  shows "on_window cx cy w = Some (win_x w \<le> cx \<and> cx < win_x w + int (unat (win_width w)) \<and>
    win_y w \<le> cy \<and> cy < win_y w + int (unat (win_height w)) \<and> win_status w = Open)"
proof -
  have "sint (win_width w) = int (unat (win_width w))" "sint (win_height w) = int (unat (win_height w))"
    using assms by (simp_all add: window_ok_def sint_small)
  moreover have "i32_ok (win_x w + int (unat (win_width w)))" "i32_ok (win_y w + int (unat (win_height w)))"
    using assms unfolding window_ok_def i32_ok_def by linarith+
  ultimately show ?thesis by (auto simp: on_window_def i32_add_def)
qed

lemma pick_window_ok:
  "\<forall>w\<in>set ws. window_ok W H w \<Longrightarrow>
   \<exists>a. pick_window cx cy i ws active = Some a \<and> (a = active \<or> (\<exists>j. a = Some j \<and> i \<le> j \<and> j < i + length ws))"
proof (induction ws arbitrary: i active)
  case (Cons w ws)
  obtain hit where hit: "on_window cx cy w = Some hit" using Cons.prems on_window_ok [of W H w cx cy] by auto
  obtain a where "pick_window cx cy (Suc i) ws (if hit then Some i else active) = Some a"
    "a = (if hit then Some i else active) \<or> (\<exists>j. a = Some j \<and> Suc i \<le> j \<and> j < Suc i + length ws)"
    using Cons.IH [of "Suc i" "if hit then Some i else active"] Cons.prems by auto
  with hit show ?case by (cases hit) auto
qed simp

lemma move_cursor_ok:
  assumes "0 \<le> c" "c \<le> int (unat limit)" "unat limit < 1073741824" "\<bar>sint val\<bar> \<le> 1073741824"
  shows "\<exists>c'. move_cursor c val limit = Some c' \<and> 0 \<le> c' \<and> c' \<le> int (unat limit)"
proof -
  have "i32_ok (c + sint val)" using assms unfolding i32_ok_def by linarith
  moreover have "sint limit = int (unat limit)" using assms(3) by (intro sint_small) simp
  ultimately show ?thesis unfolding move_cursor_def i32_add_def by simp
qed

lemma from_abs_ok:
  assumes "abs_ok val info" "unat res < 1073741824"
  shows "\<exists>c. from_abs val info res = Some c \<and> 0 \<le> c \<and> c \<le> int (unat res)"
proof -
  let ?v = "unat val - unat (abs_min info)" and ?r = "unat (abs_max info) - unat (abs_min info)"
  have le: "unat (abs_min info) \<le> unat val" "unat val \<le> unat (abs_max info)" "unat (abs_min info) < unat (abs_max info)"
    using assms(1) by (simp_all add: abs_ok_def word_le_nat_alt word_less_nat_alt)
  have "unat val < 4294967296" using unsigned_less [of val] by simp
  then have "?v * unat res \<le> 4294967296 * 1073741824" using assms(2) by (intro mult_le_mono) simp_all
  then have fits: "?v * unat res < usize_end" by simp
  have "?v * unat res \<le> ?r * unat res" using le by (intro mult_le_mono1) simp
  then have "?v * unat res div ?r \<le> ?r * unat res div ?r" by (rule div_le_mono)
  then have q: "?v * unat res div ?r \<le> unat res" using le(3) by simp
  with assms(2) have "as_i32 (?v * unat res div ?r) = int (?v * unat res div ?r)" by (intro as_i32_small) simp
  with q have "0 \<le> as_i32 (?v * unat res div ?r)" "as_i32 (?v * unat res div ?r) \<le> int (unat res)" by linarith+
  moreover have "from_abs val info res = Some (as_i32 (?v * unat res div ?r))"
    using le fits unfolding from_abs_def by simp
  ultimately show ?thesis by blast
qed

lemma observe_mouse_ok:
  assumes good: "good_server env ax ay s" and e: "event_ok ax ay MouseTag e"
  shows "\<exists>s'. observe_mouse s e = Some s' \<and> good_server env ax ay s' \<and> windows s' = windows s"
proof -
  have c: "0 \<le> cursor_x s" "cursor_x s \<le> int (unat (display_width s))" "0 \<le> cursor_y s"
    "cursor_y s \<le> int (unat (display_height s))" "unat (display_width s) < 1073741824" "unat (display_height s) < 1073741824"
    and abs: "abs_x_info s = ax" "abs_y_info s = ay"
    and ws: "\<forall>w\<in>set (windows s). window_ok (unat (display_width s)) (unat (display_height s)) w"
    and active: "\<And>a. active_window s = Some a \<Longrightarrow> a < length (windows s)"
    using good by (simp_all add: good_server_def display_ok_def)
  note up = good_updates [OF good]
  consider (key) "ev_type e = EV_KEY" | (rel) "ev_type e = EV_REL" | (absolute) "ev_type e = EV_ABS" | (syn) "ev_type e = EV_SYN"
    | (other) "ev_type e \<notin> {EV_KEY, EV_REL, EV_ABS, EV_SYN}" by auto
  then show ?thesis
  proof cases
    case key
    obtain a where a: "pick_window (cursor_x s) (cursor_y s) 0 (windows s) (active_window s) = Some a"
      "a = active_window s \<or> (\<exists>j. a = Some j \<and> j < length (windows s))"
      using pick_window_ok [OF ws, of "cursor_x s" "cursor_y s" 0 "active_window s"] by auto
    have "good_server env ax ay (s\<lparr>active_window := a\<rparr>)"
      using a(2) up(3,4) active good by (cases a) auto
    with key a(1) good show ?thesis by (simp add: observe_mouse_def)
  next
    case rel
    then have v: "\<bar>sint (ev_value e)\<bar> \<le> 1073741824" using e by (simp add: event_ok_def)
    show ?thesis
      using rel move_cursor_ok [OF c(1,2,5) v] move_cursor_ok [OF c(3,4,6) v] good up(5,6)
      by (auto simp: observe_mouse_def EV_KEY_def EV_REL_def)
  next
    case absolute
    then have "ev_code e = ABS_X \<Longrightarrow> abs_ok (ev_value e) ax" "ev_code e = ABS_Y \<Longrightarrow> abs_ok (ev_value e) ay"
      using e by (simp_all add: event_ok_def)
    with absolute from_abs_ok [OF _ c(5), of "ev_value e" ax] from_abs_ok [OF _ c(6), of "ev_value e" ay] good up(5,6) abs
    show ?thesis by (auto simp: observe_mouse_def EV_KEY_def EV_REL_def EV_ABS_def)
  next
    case syn
    then show ?thesis using up(1) by (simp add: observe_mouse_def EV_KEY_def EV_REL_def EV_ABS_def EV_SYN_def)
  qed (use good in \<open>simp add: observe_mouse_def\<close>)
qed

subsection \<open>The contract of servers\<close>

lemma windowing_observe_keeps:
  assumes good: "good_server env ax ay s" and new: "serves_new (serves_object s) ctx" and e: "event_ok ax ay tag e"
    and run: "windowing_observe env s ctx e tag = Some (s', ctx')"
  shows "server_step (good_server env ax ay) serves_object s ctx s' ctx'"
proof -
  let ?step = "server_step (good_server env ax ay) serves_object s ctx"
  have refl: "?step s ctx" using good new by (intro server_step_refl)
  show ?thesis
  proof (cases tag)
    case MouseTag
    with run obtain s1 where "observe_mouse s e = Some s1" "s' = s1" "ctx' = ctx"
      by (auto simp: windowing_observe_def run_Some)
    with observe_mouse_ok [OF good e [unfolded MouseTag]] have "good_server env ax ay s'" "windows s' = windows s" "ctx' = ctx"
      by auto
    with server_step_update [OF refl this(1)] serves_windows show ?thesis by blast
  next
    case KeyboardTag
    with run obtain s1 where s1: "s1 = s \<and> ctx' = ctx \<or> handle_shortcut env s ctx (ev_code e) (ev_value e) = Some (s1, ctx')"
      and push: "push_to_active s1 e = Some s'"
      by (auto simp: windowing_observe_def observe_keyboard_def run_Some split: if_splits)
    have step: "?step s1 ctx'" using s1 refl handle_shortcut_keeps [OF good new] by blast
    then have "good_server env ax ay s1" by (simp add: server_step_def)
    from push_to_active_keeps [OF this push] have p: "good_server env ax ay s'" "length (windows s') = length (windows s1)" by simp_all
    have "serves_object s' x" if "serves_object s1 x" for x using that p(2) by (cases x) simp_all
    with server_step_update [OF step p(1)] show ?thesis by blast
  qed
qed

lemma client_writes_ok: "client_writes w w' \<Longrightarrow> window_ok W H w \<Longrightarrow> window_ok W H w'"
proof -
  assume c: "client_writes w w'" and w: "window_ok W H w"
  then obtain ring where w': "w' = w\<lparr>win_framebuffer := win_framebuffer w', win_event_ring := ring\<rparr>"
    and same: "same_size (win_framebuffer w) (win_framebuffer w')" by (auto simp: client_writes_def)
  have "fb_ok (win_framebuffer w')"
    using w same unfolding window_ok_def same_size_def fb_ok_def by metis
  then show "window_ok W H w'"
    using w same by (subst w') (simp add: window_ok_def same_size_def)
qed

lemma clients_write_keeps:
  assumes "good_server env ax ay s" "clients_write s s'"
  shows "good_server env ax ay s' \<and> (\<forall>x. serves_object s x \<longrightarrow> serves_object s' x)"
proof -
  obtain ws where ws: "list_all2 client_writes (windows s) ws" "s' = s\<lparr>windows := ws\<rparr>"
    using assms(2) by (auto simp: clients_write_def)
  have len: "length ws = length (windows s)" using ws(1) by (simp add: list_all2_lengthD)
  have "window_ok (unat (display_width s)) (unat (display_height s)) w" if "w \<in> set ws" for w
  proof -
    from that obtain i where i: "i < length ws" "w = ws ! i" by (auto simp: in_set_conv_nth)
    with ws(1) len have "client_writes (windows s ! i) w" by (auto dest: list_all2_nthD)
    from client_writes_ok [OF this] good_window [OF assms(1)] i len show ?thesis by simp
  qed
  then have "good_server env ax ay s'"
    using good_updates(8) [OF assms(1), of ws] len ws(2) by simp
  moreover have "serves_object s' x" if "serves_object s x" for x
    using that len by (cases x) (simp_all add: ws(2))
  ultimately show ?thesis by blast
qed

interpretation windowing: capability_server "windowing_call env" "windowing_observe env" "good_server env ax ay"
  serves_object clients_write "event_ok ax ay"
  for env ax ay
proof unfold_locales
  show "server_step (good_server env ax ay) serves_object s ctx s' ctx'"
    if "good_server env ax ay s" "serves_object s x" "pid_ok sender" "serves_new (serves_object s) ctx"
      "windowing_call env s ctx meth args x sender = Some (s', ctx', r)"
    for s x sender and ctx :: "windowing_object ctx" and meth args s' ctx' r
    using windowing_call_keeps [OF that] .
  show "server_step (good_server env ax ay) serves_object s ctx s' ctx'"
    if "good_server env ax ay s" "serves_new (serves_object s) ctx" "event_ok ax ay t e"
      "windowing_observe env s ctx e t = Some (s', ctx')"
    for s and ctx :: "windowing_object ctx" and t e s' ctx'
    using windowing_observe_keeps [OF that] .
  show "good_server env ax ay s' \<and> (\<forall>x. serves_object s x \<longrightarrow> serves_object s' x)"
    if "good_server env ax ay s" "clients_write s s'" for s s'
    using clients_write_keeps [OF that] .
qed

end
