(* ===== verification/Windowing_Properties.thy ===== *)
theory Windowing_Properties
  imports Windowing_Correct
begin

text \<open>
  The windowing server from its start: it does not panic, what it grants leads back to its windows,
  and drawing shows the active window on top.
\<close>

subsection \<open>Starting and not panicking\<close>

definition windowing_args_ok :: "windowing_args \<Rightarrow> bool" where
  "windowing_args_ok args \<longleftrightarrow>
     0 < unat (arg_width args) \<and> unat (arg_width args) < 1073741824 \<and>
     0 < unat (arg_height args) \<and> unat (arg_height args) < 1073741824 \<and>
     unat (arg_width args) * unat (arg_height args) \<le> length (arg_framebuffer args) \<and>
     64 * 64 \<le> length (arg_cursor_image args) \<and>
     (case arg_caps args of (fs, image_viewer, net, shutdown) \<Rightarrow>
        valid_cap fs \<and> valid_cap image_viewer \<and> valid_cap net \<and> valid_cap shutdown) \<and>
     rings_ok (event_ok (arg_abs_x args) (arg_abs_y args)) [(KeyboardTag, arg_keyboard args), (MouseTag, arg_mouse args)]"

text \<open>A process that has granted nothing yet.\<close>

definition fresh_ctx :: "process_id \<Rightarrow> 'o ctx \<Rightarrow> bool" where
  "fresh_ctx pid ctx \<longleftrightarrow> pid_runs pid \<and> ctx_user ctx = user_caps_start pid \<and> (\<forall>i\<ge>1. own_word ctx i = 0)"

lemma main_starts:
  assumes "env_ok env" "windowing_args_ok args" "fresh_ctx pid ctx"
  shows "\<exists>d. windowing_main args = Some d \<and>
    dispatch_ok (good_server env (arg_abs_x args) (arg_abs_y args)) serves_object (event_ok (arg_abs_x args) (arg_abs_y args)) (d, ctx)"
proof -
  have "fb_ok (fb_map 64 64 (arg_cursor_image args))" using assms(2) by (simp add: windowing_args_ok_def fb_map_def fb_ok_def)
  from fill_rect_pixels [OF this, of 0 16 0 16 255 255 255 255] obtain image where
    image: "initialize_cursor 255 255 255 16 (arg_cursor_image args) = Some image"
    by (auto simp: initialize_cursor_def fb_map_def)
  have width: "unat (arg_width args) < 2147483648" "unat (arg_height args) < 2147483648"
    using assms(2) by (simp_all add: windowing_args_ok_def)
  obtain fs iv net shut where caps: "arg_caps args = (fs, iv, net, shut)" by (cases "arg_caps args")
  define s where "s = \<lparr>display_width = arg_width args, display_height = arg_height args,
       display_framebuffer = fb_fill (fb_map (unat (arg_width args)) (unat (arg_height args)) (arg_framebuffer args)) 191 215 234 255,
       windows = [], active_window = None, cursor_x = sint (arg_width args) sdiv 2, cursor_y = sint (arg_height args) sdiv 2,
       cap_fs = fs, cap_image_viewer = iv, cap_net = net, cap_shutdown = shut, global_shortcut = NotStarted,
       abs_x_info = arg_abs_x args, abs_y_info = arg_abs_y args, requests = [Display_draw, Display_cursor_image_modified]\<rparr>"
  have display: "display_ok s"
    using assms(2) by (simp add: s_def display_ok_def windowing_args_ok_def fb_ok_def fb_fill_def fb_map_def)
  have half: "int (unat v div 2) \<le> int (unat v)" for v :: u32 by linarith
  have "cursor_x s = int (unat (arg_width args) div 2)" "cursor_y s = int (unat (arg_height args) div 2)"
    unfolding s_def server.select_convs half_size [OF width(1)] half_size [OF width(2)] by simp_all
  then have "0 \<le> cursor_x s" "cursor_x s \<le> int (unat (display_width s))" "0 \<le> cursor_y s" "cursor_y s \<le> int (unat (display_height s))"
    using half [of "arg_width args"] half [of "arg_height args"] unfolding s_def by simp_all
  then have good: "good_server env (arg_abs_x args) (arg_abs_y args) s"
    using assms(1,2) display caps unfolding good_server_def by (simp add: s_def windowing_args_ok_def)
  define d :: "(server, windowing_object, device, input_event) dispatch" where
    "d = \<lparr>d_server = s, d_handlers = [Some Windowing], d_observers = [(KeyboardTag, arg_keyboard args), (MouseTag, arg_mouse args)]\<rparr>"
  have "windowing_main args = Some d"
    by (simp add: windowing_main_def image caps s_def d_def dispatch_new_def dispatch_observe_def Let_def)
  moreover have "table_ok [Some Windowing] ctx"
    using assms(3) by (auto simp: table_ok_def fresh_ctx_def user_caps_start_def)
  moreover have "rings_ok (event_ok (arg_abs_x args) (arg_abs_y args)) (d_observers d)"
    using assms(2) by (simp add: windowing_args_ok_def d_def)
  ultimately show ?thesis using good by (auto simp: dispatch_ok_def d_def)
qed

text \<open>The ring that the next keyboard event goes to.\<close>

definition active_ring :: "server \<Rightarrow> input_event ring option" where
  "active_ring s = (case active_window s of None \<Rightarrow> None | Some i \<Rightarrow> win_event_ring (windows s ! i))"

lemma spawn_shell_returns:
  assumes "ctx_next ctx + 7 \<le> 512" "pid_runs (ctx_pid ctx)"
  shows "\<exists>s' ctx'. spawn_shell env s ctx = Some (s', ctx') \<and> active_window s' = None"
proof -
  have slots: "ctx_next ctx + 6 < 512" using assms(1) by linarith
  obtain c1 g1 where 1: "grant_object ctx Kernel Windowing = Some (c1, g1)"
    using grant_object_returns [OF _ assms(2)] slots by (metis add_lessD1)
  note e1 = grant_object_effect(2,3) [OF 1]
  obtain c2 g2 where 2: "ctx_forward c1 (answer_terminal env (requests s)) Kernel = Some (c2, g2)"
    using ctx_forward_returns [of c1] e1 slots assms(2) by fastforce
  note e2 = ctx_forward_effect(2,3) [OF 2]
  obtain c3 g3 where 3: "ctx_forward c2 (cap_fs s) Kernel = Some (c3, g3)"
    using ctx_forward_returns [of c2] e1 e2 slots assms(2) by fastforce
  note e3 = ctx_forward_effect(2,3) [OF 3]
  obtain c4 g4 where 4: "ctx_forward c3 (cap_image_viewer s) Kernel = Some (c4, g4)"
    using ctx_forward_returns [of c3] e1 e2 e3 slots assms(2) by fastforce
  note e4 = ctx_forward_effect(2,3) [OF 4]
  obtain c5 g5 where 5: "grant_object c4 Kernel Windowing = Some (c5, g5)"
    using grant_object_returns [of c4] e1 e2 e3 e4 slots assms(2) by fastforce
  note e5 = grant_object_effect(2,3) [OF 5]
  obtain c6 g6 where 6: "ctx_forward c5 (cap_net s) Kernel = Some (c6, g6)"
    using ctx_forward_returns [of c5] e1 e2 e3 e4 e5 slots assms(2) by fastforce
  note e6 = ctx_forward_effect(2,3) [OF 6]
  obtain c7 g7 where 7: "ctx_forward c6 (cap_shutdown s) Kernel = Some (c7, g7)"
    using ctx_forward_returns [of c6] e1 e2 e3 e4 e5 e6 slots assms(2) by fastforce
  show ?thesis by (simp add: spawn_shell_def grant_to_kernel_def 1 2 3 4 5 6 7 Let_def)
qed

lemma close_active_inactive: "close_active s = Some s' \<Longrightarrow> active_window s' = None"
  by (auto simp: close_active_def run_Some Let_def split: option.splits if_splits)

lemma handle_shortcut_returns:
  assumes good: "good_server env ax ay s" and slots: "ctx_next ctx + 7 \<le> 512" "pid_runs (ctx_pid ctx)"
  shows "\<exists>s' ctx'. handle_shortcut env s ctx code val = Some (s', ctx') \<and>
    (active_window s' = None \<or> active_window s' = active_window s \<and> windows s' = windows s)"
proof -
  obtain s1 ctx1 where 1: "spawn_shell env s ctx = Some (s1, ctx1)" "active_window s1 = None"
    using spawn_shell_returns [OF slots] by blast
  obtain s2 where 2: "close_active s = Some s2" using close_active_ok [OF good] by blast
  from 2 have "active_window s2 = None" by (rule close_active_inactive)
  with 1 2 show ?thesis by (auto simp: handle_shortcut_def split: shortcut.splits)
qed

lemma observe_keyboard_returns:
  assumes good: "good_server env ax ay s" and slots: "ctx_next ctx + 7 \<le> 512" "pid_runs (ctx_pid ctx)"
    and room: "\<And>r. active_ring s = Some r \<Longrightarrow> ring_push r e \<noteq> None"
  shows "windowing_observe env s ctx e KeyboardTag \<noteq> None"
proof -
  obtain s1 ctx1 where 1: "(if ev_type e = EV_KEY then handle_shortcut env s ctx (ev_code e) (ev_value e) else Some (s, ctx)) = Some (s1, ctx1)"
    "active_window s1 = None \<or> active_window s1 = active_window s \<and> windows s1 = windows s"
    using handle_shortcut_returns [OF good slots, of "ev_code e" "ev_value e"] by (cases "ev_type e = EV_KEY") auto
  have "push_to_active s1 e \<noteq> None"
  proof (cases "active_window s1")
    case (Some i)
    with 1(2) have same: "active_window s = Some i" "windows s1 = windows s" by simp_all
    then have "i < length (windows s)" using good by (simp add: good_server_def)
    with same Some room show ?thesis
      by (auto simp: push_to_active_def active_ring_def Let_def split: option.splits)
  qed (simp add: push_to_active_def)
  with 1(1) show ?thesis by (auto simp: windowing_observe_def observe_keyboard_def)
qed

lemma create_window_returns:
  assumes good: "good_server env ax ay s" and slots: "ctx_next ctx < 512" "pid_runs (ctx_pid ctx)"
    and alloc: "answer_alloc env (requests s) (4 * unat width * unat height) \<noteq> None"
  shows "create_window env s ctx sender width height \<noteq> None"
proof -
  obtain ptr memory where a: "answer_alloc env (requests s) (4 * unat width * unat height) = Some (ptr, memory)"
    using alloc by auto
  obtain ctx' cap where "grant_to_sender sender ctx (Window (length (windows s))) = Some (ctx', cap)"
    using grant_object_returns [OF slots] unfolding grant_to_sender_def by blast
  then show ?thesis by (simp add: create_window_eq(2) [OF good a])
qed

text \<open>A client that does not read its events: the server panics when its ring is full.\<close>

lemma full_event_ring_panics:
  assumes "active_ring s = Some r" "ring_written r = ring_read r + length (ring_data r)" "ev_type e \<noteq> EV_KEY"
  shows "windowing_observe env s ctx e KeyboardTag = None"
proof -
  have "ring_push r e = None" using assms(2) by (cases "ring_read r + length (ring_data r) < usize_end") (simp_all add: ring_push_def uadd_def)
  with assms(1,3) show ?thesis
    by (auto simp: windowing_observe_def observe_keyboard_def push_to_active_def active_ring_def Let_def split: option.splits)
qed

text \<open>A small display for the examples.\<close>

definition demo_cap :: raw_capability where
  "demo_cap = RawCapability 33554440"

definition ui_demo_env :: environment where
  "ui_demo_env = \<lparr>
     answer_alloc = (\<lambda>_ n. if 0 < n \<and> n < 8589934592 then Some (replicate (n div 4) 0, demo_cap) else None),
     answer_terminal = (\<lambda>_. demo_cap), decode_size = (\<lambda>_. Some (1, 1))\<rparr>"

definition demo_info :: input_absinfo where
  "demo_info = \<lparr>abs_min = 0, abs_max = 100, abs_fuzz = 0, abs_flat = 0, abs_res = 0\<rparr>"

definition demo_args :: windowing_args where
  "demo_args = \<lparr>arg_width = 2, arg_height = 1, arg_framebuffer = [0, 0], arg_cursor_image = replicate 4096 0,
     arg_caps = (demo_cap, demo_cap, demo_cap, demo_cap), arg_abs_x = demo_info, arg_abs_y = demo_info,
     arg_keyboard = \<lparr>ring_read = 0, ring_written = 0, ring_data = [no_event]\<rparr>,
     arg_mouse = \<lparr>ring_read = 0, ring_written = 0, ring_data = [no_event]\<rparr>\<rparr>"

definition demo_ctx :: "windowing_object ctx" where
  "demo_ctx = \<lparr>ctx_user = user_caps_start (ProcessId 1), ctx_certs = (\<lambda>_ _. 0), ctx_new = []\<rparr>"

lemma demo_event: "event_ok a b t no_event"
  by (simp add: event_ok_def no_event_def EV_REL_def EV_ABS_def)

lemma demo_ok: "env_ok ui_demo_env" "windowing_args_ok demo_args" "fresh_ctx (ProcessId 1) demo_ctx"
proof -
  have cap: "valid_cap demo_cap" by (simp add: valid_cap_def demo_cap_def is_ptr_valid_def in_range_def)
  then show "env_ok ui_demo_env" by (simp add: env_ok_def ui_demo_env_def)
  show "windowing_args_ok demo_args" using cap by (simp add: windowing_args_ok_def demo_args_def demo_event)
  show "fresh_ctx (ProcessId 1) demo_ctx" by (simp add: fresh_ctx_def demo_ctx_def own_word_def pid_runs_def user_mapped pid_ok_iff)
qed

text \<open>
  C30: the windowing server does not panic.  From its start, and whatever calls, input in the announced
  ranges, writes of clients to their windows and rings, and certificates of others come in between: a
  mouse event is always handled and any window can be drawn; a keyboard event is handled when seven
  certificates are left and the ring of the active window takes it; and a window is created when its
  memory and a certificate are to be had.
\<close>

theorem windowing_never_panics:
  assumes "env_ok env" "windowing_args_ok args" "fresh_ctx pid ctx0"
  shows "\<exists>d0. windowing_main args = Some d0 \<and>
    (\<forall>d ctx. (dispatch_step (windowing_call env) (windowing_observe env) clients_write
        (event_ok (arg_abs_x args) (arg_abs_y args)))\<^sup>*\<^sup>* (d0, ctx0) (d, ctx) \<longrightarrow>
      (\<forall>i<length (windows (d_server d)). window_draw (d_server d) i \<noteq> None) \<and>
      (\<forall>e. event_ok (arg_abs_x args) (arg_abs_y args) MouseTag e \<longrightarrow>
         windowing_observe env (d_server d) ctx e MouseTag \<noteq> None) \<and>
      (ctx_next ctx + 7 \<le> 512 \<longrightarrow>
         (\<forall>e. (\<forall>r. active_ring (d_server d) = Some r \<longrightarrow> ring_push r e \<noteq> None) \<longrightarrow>
            windowing_observe env (d_server d) ctx e KeyboardTag \<noteq> None)) \<and>
      (ctx_next ctx < 512 \<longrightarrow>
         (\<forall>sender width height. answer_alloc env (requests (d_server d)) (4 * unat width * unat height) \<noteq> None \<longrightarrow>
            create_window env (d_server d) ctx sender width height \<noteq> None)))"
proof -
  obtain d0 where start: "windowing_main args = Some d0"
    "dispatch_ok (good_server env (arg_abs_x args) (arg_abs_y args)) serves_object (event_ok (arg_abs_x args) (arg_abs_y args)) (d0, ctx0)"
    using main_starts [OF assms] by blast
  show ?thesis
  proof (intro exI [of _ d0] conjI [OF start(1)] allI impI conjI)
    fix d and ctx :: "windowing_object ctx"
    assume "(dispatch_step (windowing_call env) (windowing_observe env) clients_write
        (event_ok (arg_abs_x args) (arg_abs_y args)))\<^sup>*\<^sup>* (d0, ctx0) (d, ctx)"
    from windowing.steps_keep [OF this start(2)]
    have good: "good_server env (arg_abs_x args) (arg_abs_y args) (d_server d)" and pid: "pid_runs (ctx_pid ctx)"
      by (simp_all add: dispatch_ok_def table_ok_def)
    show "window_draw (d_server d) i \<noteq> None" if "i < length (windows (d_server d))" for i
      using window_draw_ok [OF good that] by auto
    show "windowing_observe env (d_server d) ctx e MouseTag \<noteq> None" if "event_ok (arg_abs_x args) (arg_abs_y args) MouseTag e" for e
      using observe_mouse_ok [OF good that] by (auto simp: windowing_observe_def)
    show "windowing_observe env (d_server d) ctx e KeyboardTag \<noteq> None"
      if "ctx_next ctx + 7 \<le> 512" "\<forall>r. active_ring (d_server d) = Some r \<longrightarrow> ring_push r e \<noteq> None" for e
      using observe_keyboard_returns [OF good that(1) pid] that(2) by blast
    show "create_window env (d_server d) ctx sender width height \<noteq> None"
      if "ctx_next ctx < 512" "answer_alloc env (requests (d_server d)) (4 * unat width * unat height) \<noteq> None" for sender width height
      by (rule create_window_returns [OF good that(1) pid that(2)])
  qed
qed

theorem windowing_never_panics_witness:
  "\<exists>d0. windowing_main demo_args = Some d0 \<and> windowing_observe ui_demo_env (d_server d0) demo_ctx no_event MouseTag \<noteq> None"
  using windowing_never_panics [OF demo_ok] demo_event by blast

subsection \<open>What is granted is served\<close>

lemma created_window:
  assumes ok: "dispatch_ok (good_server env ax ay) serves_object (event_ok ax ay) (d, ctx)" and sender: "pid_ok sender"
    and object: "d_handlers d ! local_index cap = Some Windowing"
    and run: "run_call (windowing_call env) d ctx cap 0 args sender = Some (d', ctx', Capability wcap)"
  shows "wcap = cap_at (Userspace (ctx_pid ctx)) (ctx_next ctx)" "ctx_next ctx < 512" "ctx_next ctx < ctx_next ctx'"
    "own_word ctx' (ctx_next ctx) = value_to_bits (value_granted (Userspace sender))"
    "(ctx_next ctx, Window (length (windows (d_server d)))) \<in> set (ctx_new ctx')"
proof -
  let ?ctx = "ctx\<lparr>ctx_new := []\<rparr>"
  obtain w h s' where create: "create_window env (d_server d) ?ctx sender w h = Some (s', ctx', wcap)"
    using run object by (auto simp: run_call_def typed_call_method_def windowing_call_def run_Some split: if_splits)
  have "good_server env ax ay (d_server d)" using ok by (simp add: dispatch_ok_def)
  from create_window_steps [OF this create] have
    "grant_object ?ctx (Userspace sender) (Window (length (windows (d_server d)))) = Some (ctx', wcap)"
    by (auto simp: grant_to_sender_def)
  note e = grant_object_effect [OF this]
  show "wcap = cap_at (Userspace (ctx_pid ctx)) (ctx_next ctx)" "ctx_next ctx < 512" "ctx_next ctx < ctx_next ctx'"
    "own_word ctx' (ctx_next ctx) = value_to_bits (value_granted (Userspace sender))"
    "(ctx_next ctx, Window (length (windows (d_server d)))) \<in> set (ctx_new ctx')"
    using e by simp_all
qed

text \<open>
  C31: the capability to a new window works for its creator for ever.  After the windowing server has
  answered \<open>create_window\<close>, and whatever happens then, the kernel accepts the capability from the
  process that asked for it, as one that the server itself has certified, and the server's table
  leads from it to the window that was created.
\<close>

theorem created_window_is_served:
  assumes "dispatch_ok (good_server env ax ay) serves_object (event_ok ax ay) (d, ctx)" "pid_ok sender"
    and "d_handlers d ! local_index cap = Some Windowing"
    and "run_call (windowing_call env) d ctx cap 0 args sender = Some (d', ctx', Capability wcap)"
    and "(dispatch_step (windowing_call env) (windowing_observe env) clients_write (event_ok ax ay))\<^sup>*\<^sup>* (d', ctx') (d'', ctx'')"
  shows "validate (ctx_certs ctx'') wcap sender = Some (Returned (Inr wcap)) \<and>
    certifier wcap = Some (Userspace (ctx_pid ctx)) \<and> local_index wcap < length (d_handlers d'') \<and>
    d_handlers d'' ! local_index wcap = Some (Window (length (windows (d_server d))))"
proof -
  let ?i = "ctx_next ctx" and ?p = "Userspace (ctx_pid ctx)" and ?w = "Window (length (windows (d_server d)))"
  note new = created_window [OF assms(1-4)]
  note first = windowing.run_call_keeps [OF assms(1,2,4)]
  note rest = windowing.steps_keep [OF assms(5) conjunct1 [OF first]]
  have pid: "pid_runs (ctx_pid ctx)" "ctx_pid ctx'' = ctx_pid ctx"
    using assms(1) first rest by (simp_all add: dispatch_ok_def table_ok_def keeps_handlers_def)
  have index: "local_index wcap = ?i" using new(1,2) by (simp add: local_index_cap_at)
  have "?i < length (d_handlers d') \<and> d_handlers d' ! ?i = Some ?w" using first new(5) by blast
  with rest have handler: "?i < length (d_handlers d'') \<and> d_handlers d'' ! ?i = Some ?w"
    by (simp add: keeps_handlers_def)
  have "own_word ctx'' ?i = value_to_bits (value_granted (Userspace sender))"
    using rest new(3,4) by (simp add: keeps_handlers_def)
  then have "read_certificate (ctx_certs ctx'') wcap = Some (?p, Granted (Userspace sender))"
    unfolding new(1) using pid new(2) assms(2)
    by (simp add: read_certificate_at pid_runs_def cert_load_def own_word_def value_bits_roundtrip unpack_granted)
  then have "validate (ctx_certs ctx'') wcap sender = Some (Returned (Inr wcap))"
    by (auto simp: validate_entitles intro: entitles.granted)
  with handler index pid new(1,2) show ?thesis by (simp add: certifier_cap_at pid_runs_def)
qed

theorem created_window_is_served_witness:
  "\<exists>d0 d' ctx' wcap. windowing_main demo_args = Some d0 \<and>
     run_call (windowing_call ui_demo_env) d0 demo_ctx (RawCapability 0) 0 [] (ProcessId 2) = Some (d', ctx', Capability wcap) \<and>
     validate (ctx_certs ctx') wcap (ProcessId 2) = Some (Returned (Inr wcap))"
proof -
  obtain d0 where d0: "windowing_main demo_args = Some d0" and
    ok: "dispatch_ok (good_server ui_demo_env demo_info demo_info) serves_object (event_ok demo_info demo_info) (d0, demo_ctx)"
    using main_starts [OF demo_ok] by (auto simp: demo_args_def)
  have handler: "d_handlers d0 = [Some Windowing]"
    using d0 by (auto simp: windowing_main_def dispatch_new_def dispatch_observe_def run_Some Let_def split: prod.splits)
  have zero: "local_index (RawCapability 0) = 0" by (simp add: local_index_def)
  have good: "good_server ui_demo_env demo_info demo_info (d_server d0)" using ok by (simp add: dispatch_ok_def)
  have sender: "pid_ok (ProcessId 2)" by (simp add: pid_ok_iff)
  obtain s' ctx' wcap where create: "create_window ui_demo_env (d_server d0) (demo_ctx\<lparr>ctx_new := []\<rparr>) (ProcessId 2) 1 1 = Some (s', ctx', wcap)"
    using create_window_returns [OF good, of "demo_ctx\<lparr>ctx_new := []\<rparr>" 1 1 "ProcessId 2"]
    by (auto simp: demo_ctx_def user_caps_start_def pid_runs_def user_mapped pid_ok_iff ui_demo_env_def)
  have "windowing_call ui_demo_env (d_server d0) (demo_ctx\<lparr>ctx_new := []\<rparr>) 0 [] Windowing (ProcessId 2) = Some (s', ctx', Capability wcap)"
    using create by (simp add: windowing_call_def ui_demo_env_def)
  from windowing.run_call_returns [OF ok sender _ _ this, of "RawCapability 0"] obtain d' where
    run: "run_call (windowing_call ui_demo_env) d0 demo_ctx (RawCapability 0) 0 [] (ProcessId 2) = Some (d', ctx', Capability wcap)"
    by (auto simp: handler zero)
  have "d_handlers d0 ! local_index (RawCapability 0) = Some Windowing" by (simp add: handler zero)
  from created_window_is_served [OF ok sender this run rtranclp.rtrancl_refl] d0 run show ?thesis by blast
qed

subsection \<open>The display\<close>

text \<open>The pixel that a window shows at a point of the display that it covers.\<close>

definition shows_at :: "window_data \<Rightarrow> nat \<Rightarrow> nat \<Rightarrow> u32 option" where
  "shows_at w x y =
     (if rect_covers (win_framebuffer w) (win_x w) (win_y w) x y
      then Some (pixel (win_framebuffer w) (nat (int x - win_x w)) (nat (int y - win_y w))) else None)"

text \<open>
  C32: drawing a window puts the active one on top.  After any window is drawn, each point of the display
  that the active window covers shows it, each other point that the drawn window covers shows that
  one, and the rest of the display is as it was.
\<close>

theorem active_window_on_top:
  assumes "good_server env ax ay s" "i < length (windows s)"
  shows "\<exists>s'. window_draw s i = Some s' \<and> windows s' = windows s \<and>
    (\<forall>x<unat (display_width s). \<forall>y<unat (display_height s).
       pixel (display_framebuffer s') x y =
         (case (case active_window s of Some a \<Rightarrow> shows_at (windows s ! a) x y | None \<Rightarrow> None) of
            Some p \<Rightarrow> p
          | None \<Rightarrow> (case shows_at (windows s ! i) x y of Some p \<Rightarrow> p | None \<Rightarrow> pixel (display_framebuffer s) x y)))"
proof -
  obtain fb where fb: "draw_window s i = Some (s\<lparr>display_framebuffer := fb\<rparr>)" "same_size (display_framebuffer s) fb"
    "\<forall>x<unat (display_width s). \<forall>y<unat (display_height s).
       pixel fb x y = (case shows_at (windows s ! i) x y of Some p \<Rightarrow> p | None \<Rightarrow> pixel (display_framebuffer s) x y)"
    using draw_window_ok [OF assms] by (auto simp: shows_at_def)
  let ?s = "s\<lparr>display_framebuffer := fb\<rparr>"
  consider (none) "active_window s = None" | (same) "active_window s = Some i"
    | (other) a where "active_window s = Some a" "a \<noteq> i" by (cases "active_window s") auto
  then show ?thesis
  proof cases
    case other
    have a: "a < length (windows ?s)" using assms(1) other(1) by (simp add: good_server_def)
    obtain fb2 where fb2: "draw_window ?s a = Some (?s\<lparr>display_framebuffer := fb2\<rparr>)"
      "\<forall>x<unat (display_width s). \<forall>y<unat (display_height s).
         pixel fb2 x y = (case shows_at (windows s ! a) x y of Some p \<Rightarrow> p | None \<Rightarrow> pixel fb x y)"
      using draw_window_ok [OF good_updates(7) [OF assms(1) fb(2)] a] by (auto simp: shows_at_def)
    have "window_draw s i = Some (ask Display_draw (s\<lparr>display_framebuffer := fb2\<rparr>))"
      using fb(1) fb2(1) other by (simp add: window_draw_def)
    with fb(3) fb2(2) other show ?thesis by (auto split: option.splits)
  qed (use fb in \<open>auto simp: window_draw_def split: option.splits\<close>)
qed

definition demo_server :: server where
  "demo_server = \<lparr>display_width = 2, display_height = 1, display_framebuffer = \<lparr>fb_pixels = [0, 0], fb_width = 2, fb_height = 1\<rparr>,
     windows = [\<lparr>win_x = 0, win_y = 0, win_width = 1, win_height = 1, win_status = Open,
       win_framebuffer = \<lparr>fb_pixels = [7], fb_width = 1, fb_height = 1\<rparr>, win_memory = demo_cap, win_event_ring = None\<rparr>],
     active_window = Some 0, cursor_x = 0, cursor_y = 0, cap_fs = demo_cap, cap_image_viewer = demo_cap,
     cap_net = demo_cap, cap_shutdown = demo_cap, global_shortcut = NotStarted,
     abs_x_info = demo_info, abs_y_info = demo_info, requests = []\<rparr>"

theorem active_window_on_top_witness:
  "\<exists>s'. window_draw demo_server 0 = Some s' \<and> pixel (display_framebuffer s') 0 0 = 7 \<and>
     pixel (display_framebuffer s') 1 0 = 0"
proof -
  have "valid_cap demo_cap" by (simp add: valid_cap_def demo_cap_def is_ptr_valid_def in_range_def)
  then have "good_server ui_demo_env demo_info demo_info demo_server"
    using demo_ok(1) by (simp add: good_server_def display_ok_def demo_server_def window_ok_def fb_ok_def)
  from active_window_on_top [OF this, of 0] show ?thesis
    by (auto simp: demo_server_def shows_at_def rect_covers_def pixel_def)
qed

end
