(* ===== verification/Painting.thy ===== *)
theory Painting
  imports Framebuffer
begin

text \<open>
  Programs that paint a framebuffer pixel by pixel in nested \<open>for\<close> loops, and how to read off the
  picture: each statement paints some points in the colours of one picture, and a loop over such
  statements paints the points of all of them.
\<close>

subsection \<open>Loops\<close>

fun paint_each :: "'a list \<Rightarrow> ('a \<Rightarrow> 's \<Rightarrow> 's run) \<Rightarrow> 's \<Rightarrow> 's run" where
  "paint_each [] body s = Some s"
| "paint_each (x # xs) body s = do { s \<leftarrow> body x s; paint_each xs body s }"

subsection \<open>Statements that paint\<close>

lemma same_size_refl [simp]: "same_size fb fb"
  by (simp add: same_size_def)

lemma same_size_trans: "same_size a b \<Longrightarrow> same_size b c \<Longrightarrow> same_size a c"
  by (simp add: same_size_def)

text \<open>On every framebuffer of the size, the points \<open>P\<close> get their colour in \<open>C\<close>, and no other changes.\<close>

definition paints ::
    "framebuffer \<Rightarrow> (nat \<Rightarrow> nat \<Rightarrow> u32) \<Rightarrow> (framebuffer \<Rightarrow> framebuffer run) \<Rightarrow> (nat \<Rightarrow> nat \<Rightarrow> bool) \<Rightarrow> bool" where
  "paints fb0 C stmt P \<longleftrightarrow>
     (\<forall>fb. same_size fb0 fb \<longrightarrow>
        (\<exists>fb'. stmt fb = Some fb' \<and> same_size fb0 fb' \<and>
           (\<forall>x<fb_width fb0. \<forall>y<fb_height fb0. pixel fb' x y = (if P x y then C x y else pixel fb x y))))"

lemma paintsE:
  assumes "paints fb0 C stmt P" "same_size fb0 fb"
  obtains fb' where "stmt fb = Some fb'" "same_size fb0 fb'"
    "\<And>x y. x < fb_width fb0 \<Longrightarrow> y < fb_height fb0 \<Longrightarrow> pixel fb' x y = (if P x y then C x y else pixel fb x y)"
  using assms unfolding paints_def by blast

lemma paints_cong: "paints fb0 C stmt P \<Longrightarrow> (\<And>x y. x < fb_width fb0 \<Longrightarrow> y < fb_height fb0 \<Longrightarrow> P x y = Q x y) \<Longrightarrow>
    paints fb0 C stmt Q"
  by (simp add: paints_def)

lemma paints_nothing: "paints fb0 C Some (\<lambda>x y. False)"
  by (simp add: paints_def)

lemma paints_then:
  assumes "paints fb0 C first P" "paints fb0 C second Q"
  shows "paints fb0 C (\<lambda>fb. first fb \<bind> second) (\<lambda>x y. P x y \<or> Q x y)"
  unfolding paints_def
proof (intro allI impI)
  fix fb assume "same_size fb0 fb"
  then obtain fb1 where 1: "first fb = Some fb1" "same_size fb0 fb1"
    "\<And>x y. x < fb_width fb0 \<Longrightarrow> y < fb_height fb0 \<Longrightarrow> pixel fb1 x y = (if P x y then C x y else pixel fb x y)"
    using paintsE [OF assms(1)] by metis
  obtain fb2 where "second fb1 = Some fb2" "same_size fb0 fb2"
    "\<And>x y. x < fb_width fb0 \<Longrightarrow> y < fb_height fb0 \<Longrightarrow> pixel fb2 x y = (if Q x y then C x y else pixel fb1 x y)"
    using paintsE [OF assms(2) 1(2)] by metis
  with 1 show "\<exists>fb'. (first fb \<bind> second) = Some fb' \<and> same_size fb0 fb' \<and>
      (\<forall>x<fb_width fb0. \<forall>y<fb_height fb0. pixel fb' x y = (if P x y \<or> Q x y then C x y else pixel fb x y))"
    by auto
qed

lemma paints_each:
  "(\<And>i. i \<in> set xs \<Longrightarrow> paints fb0 C (body i) (P i)) \<Longrightarrow>
   paints fb0 C (paint_each xs body) (\<lambda>x y. \<exists>i\<in>set xs. P i x y)"
proof (induction xs)
  case Nil
  have "paint_each [] body = Some" by (simp add: fun_eq_iff)
  then show ?case by (simp add: paints_nothing)
next
  case (Cons i xs)
  have "paints fb0 C (\<lambda>fb. body i fb \<bind> paint_each xs body) (\<lambda>x y. P i x y \<or> (\<exists>i\<in>set xs. P i x y))"
    using Cons by (intro paints_then) simp_all
  moreover have "paint_each (i # xs) body = (\<lambda>fb. body i fb \<bind> paint_each xs body)" by (simp add: fun_eq_iff)
  ultimately show ?case by simp
qed

lemma paints_set_pixel:
  assumes "fb_ok fb0" "px < fb_width fb0" "py < fb_height fb0" "C px py = bgra r g b a"
  shows "paints fb0 C (\<lambda>fb. set_pixel fb px py r g b a) (\<lambda>x y. x = px \<and> y = py)"
  unfolding paints_def
proof (intro allI impI)
  fix fb assume same: "same_size fb0 fb"
  let ?w = "fb_width fb0"
  have ok: "fb_ok fb" "fb_width fb = ?w" "fb_height fb = fb_height fb0" using same assms(1) by (auto simp: same_size_def fb_ok_def)
  have at: "py * ?w + px < length (fb_pixels fb)" using row_fits(1) [OF ok(1), of py] ok(2,3) assms(2,3) by simp
  let ?fb = "fb\<lparr>fb_pixels := (fb_pixels fb)[py * ?w + px := bgra r g b a]\<rparr>"
  have "set_pixel fb px py r g b a = Some ?fb"
    using row_start_ok [OF ok(1), of py] ok(2,3) assms(2,3) by (simp add: set_pixel_def)
  moreover have "pixel ?fb x y = (if x = px \<and> y = py then C x y else pixel fb x y)" if "x < ?w" "y < fb_height fb0" for x y
  proof -
    have "y * ?w + x = py * ?w + px \<longleftrightarrow> x = px \<and> y = py"
      using in_row_iff [OF that(1), of px "Suc px" py y] assms(2) by auto
    then show ?thesis using at assms(4) ok(2) by (auto simp: pixel_def nth_list_update)
  qed
  ultimately show "\<exists>fb'. set_pixel fb px py r g b a = Some fb' \<and> same_size fb0 fb' \<and>
      (\<forall>x<?w. \<forall>y<fb_height fb0. pixel fb' x y = (if x = px \<and> y = py then C x y else pixel fb x y))"
    using same by (intro exI [of _ ?fb]) (simp add: same_size_def)
qed

subsection \<open>Moving and filling rows\<close>

lemma rows_total:
  assumes "fb_ok fb" "y \<le> fb_height fb"
  shows "y * fb_width fb \<le> length (fb_pixels fb)" "y * fb_width fb < usize_end"
proof -
  have "y * fb_width fb \<le> fb_height fb * fb_width fb" using assms(2) by (rule mult_le_mono1)
  moreover have "fb_height fb * fb_width fb \<le> 4294967295 * 4294967295"
    using assms(1) by (intro mult_le_mono) (auto simp: fb_ok_def)
  ultimately show "y * fb_width fb \<le> length (fb_pixels fb)" "y * fb_width fb < usize_end"
    using assms(1) unfolding fb_ok_def mult.commute [of "fb_width fb"] by linarith+
qed

lemma in_rows_iff:
  assumes "x < (w :: nat)"
  shows "a * w \<le> y * w + x \<and> y * w + x < (a + n) * w \<longleftrightarrow> a \<le> y \<and> y < a + n"
proof -
  have "a * w \<le> y * w + x \<longleftrightarrow> a \<le> y" for a
  proof
    assume "a * w \<le> y * w + x"
    then have "a * w < Suc y * w" using assms by simp
    then show "a \<le> y" using mult_less_cancel2 [of a w "Suc y"] by simp
  next
    assume "a \<le> y"
    then have "a * w \<le> y * w" by (rule mult_le_mono1)
    then show "a * w \<le> y * w + x" by (rule trans_le_add1)
  qed
  from this [of a] this [of "a + n"] show ?thesis by linarith
qed

lemma shift_rows_pixels:
  assumes ok: "fb_ok fb" and rows: "y_from + n \<le> fb_height fb" "y_to + n \<le> fb_height fb"
  shows "\<exists>fb'. shift_rows fb y_from y_to n = Some fb' \<and> same_size fb fb' \<and>
    (\<forall>x<fb_width fb. \<forall>y<fb_height fb.
       pixel fb' x y = (if y_to \<le> y \<and> y < y_to + n then pixel fb x (y - y_to + y_from) else pixel fb x y))"
proof -
  let ?w = "fb_width fb" and ?px = "fb_pixels fb"
  note lo = rows_total [OF ok rows(1)] and hi = rows_total [OF ok rows(2)]
  have parts: "(y_from + n) * ?w = y_from * ?w + n * ?w" "(y_to + n) * ?w = y_to * ?w + n * ?w"
    by (simp_all add: add_mult_distrib)
  have h: "fb_height fb < usize_end" using ok by (simp add: fb_ok_def)
  define src where "src = take (n * ?w) (drop (y_from * ?w) ?px)"
  have src: "slice (y_from * ?w) ((y_from + n) * ?w) ?px = Some src" "length src = n * ?w"
  proof -
    have "y_from * ?w \<le> (y_from + n) * ?w" "(y_from + n) * ?w - y_from * ?w = n * ?w"
      "n * ?w \<le> length ?px - y_from * ?w"
      using lo(1) parts(1) by linarith+
    then show "slice (y_from * ?w) ((y_from + n) * ?w) ?px = Some src" "length src = n * ?w"
      using lo(1) unfolding slice_def src_def by simp_all
  qed
  let ?fb = "fb\<lparr>fb_pixels := put_slice (y_to * ?w) src ?px\<rparr>"
  have fits: "y_to * ?w + length src \<le> length ?px" unfolding src(2) using hi(1) parts(2) by linarith
  have "uadd y_from n = Some (y_from + n)" "uadd y_to n = Some (y_to + n)" using rows h by simp_all
  moreover have "umul y_from ?w = Some (y_from * ?w)" "umul (y_from + n) ?w = Some ((y_from + n) * ?w)"
    "umul y_to ?w = Some (y_to * ?w)"
  proof -
    have "y_from * ?w < usize_end" "y_to * ?w < usize_end" using lo(2) hi(2) parts by linarith+
    then show "umul y_from ?w = Some (y_from * ?w)" "umul (y_from + n) ?w = Some ((y_from + n) * ?w)"
      "umul y_to ?w = Some (y_to * ?w)"
      using lo(2) by (simp_all only: umul_ok)
  qed
  ultimately have run: "shift_rows fb y_from y_to n = Some ?fb"
    using rows src(1) fits by (simp add: shift_rows_def)
  have "pixel ?fb x y = (if y_to \<le> y \<and> y < y_to + n then pixel fb x (y - y_to + y_from) else pixel fb x y)"
    if x: "x < ?w" and y: "y < fb_height fb" for x y
  proof -
    have at: "y * ?w + x < length ?px" using row_fits(1) [OF ok y] x by simp
    show ?thesis
    proof (cases "y_to \<le> y \<and> y < y_to + n")
      case True
      then have in_src: "y_to * ?w \<le> y * ?w + x" "y * ?w + x < y_to * ?w + length src"
        using in_rows_iff [OF x, of y_to y n] True unfolding src(2) parts(2) by blast+
      obtain k where k: "y = y_to + k" "k < n" using True by (metis le_Suc_ex nat_add_left_cancel_less)
      have "k * ?w + x < n * ?w" using in_rows_iff [OF x, of 0 k n] k(2) by simp
      have "y * ?w + x - y_to * ?w = k * ?w + x" by (simp add: k(1) add_mult_distrib)
      have "src ! (y * ?w + x - y_to * ?w) = ?px ! (y_from * ?w + (k * ?w + x))"
      proof -
        have "y_from * ?w \<le> length ?px" using lo(1) parts(1) by linarith
        with \<open>k * ?w + x < n * ?w\<close> show ?thesis
          unfolding \<open>y * ?w + x - y_to * ?w = k * ?w + x\<close> by (simp add: src_def)
      qed
      also have "y_from * ?w + (k * ?w + x) = (y - y_to + y_from) * ?w + x" by (simp add: k(1) add_mult_distrib)
      finally show ?thesis using True in_src nth_put_slice [OF fits at] by (simp add: pixel_def)
    next
      case False
      then have "\<not> (y_to * ?w \<le> y * ?w + x \<and> y * ?w + x < y_to * ?w + length src)"
        using in_rows_iff [OF x, of y_to y n] False unfolding src(2) parts(2) by blast
      with False show ?thesis using nth_put_slice [OF fits at] by (auto simp: pixel_def)
    qed
  qed
  with run fits show ?thesis by (intro exI [of _ ?fb]) (simp add: same_size_def length_put_slice)
qed

lemma fill_rows_pixels:
  assumes ok: "fb_ok fb" and rows: "y_start \<le> y_end" "y_end \<le> fb_height fb"
  shows "\<exists>fb'. fill_rows fb y_start y_end r g b a = Some fb' \<and> same_size fb fb' \<and>
    (\<forall>x<fb_width fb. \<forall>y<fb_height fb.
       pixel fb' x y = (if y_start \<le> y \<and> y < y_end then bgra r g b a else pixel fb x y))"
proof -
  let ?w = "fb_width fb" and ?px = "fb_pixels fb"
  have start: "y_start \<le> fb_height fb" using rows by simp
  note lo = rows_total [OF ok start] and hi = rows_total [OF ok rows(2)]
  let ?new = "replicate (y_end * ?w - y_start * ?w) (bgra r g b a)"
  let ?fb = "fb\<lparr>fb_pixels := put_slice (y_start * ?w) ?new ?px\<rparr>"
  have le: "y_start * ?w \<le> y_end * ?w" using rows(1) by (rule mult_le_mono1)
  then have fits: "y_start * ?w + length ?new \<le> length ?px" using hi(1) by simp
  have run: "fill_rows fb y_start y_end r g b a = Some ?fb"
    using rows lo hi by (simp add: fill_rows_def rows_range_def)
  have "pixel ?fb x y = (if y_start \<le> y \<and> y < y_end then bgra r g b a else pixel fb x y)"
    if x: "x < ?w" and y: "y < fb_height fb" for x y
  proof -
    have at: "y * ?w + x < length ?px" using row_fits(1) [OF ok y] x by simp
    have "y_start * ?w \<le> y * ?w + x \<and> y * ?w + x < y_start * ?w + length ?new \<longleftrightarrow> y_start \<le> y \<and> y < y_end"
      using in_rows_iff [OF x, of y_start y "y_end - y_start"] rows(1) le by simp
    then show ?thesis using nth_put_slice [OF fits at] le by (auto simp: pixel_def)
  qed
  with run fits show ?thesis by (intro exI [of _ ?fb]) (simp add: same_size_def length_put_slice)
qed

end
