(* ===== verification/Image_Viewer.thy ===== *)
theory Image_Viewer
  imports Painting
begin

text \<open>
  The image viewer (\<open>apps/src/bin/image_viewer.rs\<close>): its parser of binary pixel maps and the scaled
  picture it draws, and the theorem that a file in the format is shown as the format says.
\<close>

subsection \<open>Images\<close>

datatype ppm_image = PpmRaw (img_width: usize) (img_height: usize) (img_maxval: usize) (img_sample_size: usize) (img_raster: "u8 list")

definition PPM_RAW_MAGIC :: "u8 list" where
  "PPM_RAW_MAGIC = [0x50, 0x36]"

text \<open>Indexing with \<open>[a..]\<close> and \<open>[..b]\<close>.\<close>

definition slice_from :: "usize \<Rightarrow> 'a list \<Rightarrow> 'a list run" where
  "slice_from a xs = (if a \<le> length xs then Some (drop a xs) else None)"

definition slice_to :: "usize \<Rightarrow> 'a list \<Rightarrow> 'a list run" where
  "slice_to b xs = (if b \<le> length xs then Some (take b xs) else None)"

definition ppm_sample :: "u8 list \<Rightarrow> usize \<Rightarrow> u8 run" where
  "ppm_sample sample maxval = do {
     s \<leftarrow> (case sample of
            [s] \<Rightarrow> Some (unat s)
          | [msb, lsb] \<Rightarrow> Some (unat msb * 256 + unat lsb)
          | _ \<Rightarrow> None);
     q \<leftarrow> udiv (s * 255) maxval;
     Some (word_of_nat q) }"

definition rgb :: "ppm_image \<Rightarrow> usize \<Rightarrow> usize \<Rightarrow> (u8 \<times> u8 \<times> u8) run" where
  "rgb img x y = (case img of PpmRaw width height maxval sample_size raster \<Rightarrow> do {
     a \<leftarrow> umul y width;
     a \<leftarrow> umul a 3;
     a \<leftarrow> umul a sample_size;
     row \<leftarrow> slice_from a raster;
     b \<leftarrow> umul x 3;
     b \<leftarrow> umul b sample_size;
     px \<leftarrow> slice_from b row;
     r \<leftarrow> slice_to sample_size px;
     r \<leftarrow> ppm_sample r maxval;
     g \<leftarrow> slice sample_size (2 * sample_size) px;
     g \<leftarrow> ppm_sample g maxval;
     b \<leftarrow> slice (2 * sample_size) (3 * sample_size) px;
     b \<leftarrow> ppm_sample b maxval;
     Some (r, g, b) })"

subsection \<open>Parsing\<close>

text \<open>Each parser takes what is left of the file and returns what is left after it.\<close>

definition is_ascii_whitespace :: "u8 \<Rightarrow> bool" where
  "is_ascii_whitespace c \<longleftrightarrow> c = 9 \<or> c = 10 \<or> c = 12 \<or> c = 13 \<or> c = 32"

definition is_ascii_digit :: "u8 \<Rightarrow> bool" where
  "is_ascii_digit c \<longleftrightarrow> 48 \<le> c \<and> c \<le> 57"

definition ppm_parse_magic :: "u8 list \<Rightarrow> u8 list run" where
  "ppm_parse_magic img = do {
     m \<leftarrow> slice_to (length PPM_RAW_MAGIC) img;
     ensure (m = PPM_RAW_MAGIC);
     slice_from (length PPM_RAW_MAGIC) img }"

text \<open>A comment, with the end of its line.\<close>

fun skip_comment :: "u8 list \<Rightarrow> u8 list run" where
  "skip_comment [] = None"
| "skip_comment (c # img) = (if c \<noteq> 10 then skip_comment img else Some img)"

lemma skip_comment_shorter: "skip_comment img = Some rest \<Longrightarrow> length rest < length img"
  by (induction img) (auto split: if_splits)

function skip_whitespace_and_comments :: "bool \<Rightarrow> u8 list \<Rightarrow> u8 list run" where
  "skip_whitespace_and_comments skipped [] = None"
| "skip_whitespace_and_comments skipped (c # img) =
     (if is_ascii_whitespace c then skip_whitespace_and_comments True img
      else if c = 35 then
        (case skip_comment (c # img) of
           None \<Rightarrow> None
         | Some rest \<Rightarrow> skip_whitespace_and_comments True rest)
      else if skipped then Some (c # img) else None)"
  by pat_completeness auto

termination skip_whitespace_and_comments
  by (relation "measure (\<lambda>(_, img). length img)") (auto dest: skip_comment_shorter split: if_splits)

definition ppm_parse_whitespace_and_comments :: "u8 list \<Rightarrow> u8 list run" where
  "ppm_parse_whitespace_and_comments img = skip_whitespace_and_comments False img"

fun digit_count :: "u8 list \<Rightarrow> usize run" where
  "digit_count [] = None"
| "digit_count (c # img) = (if is_ascii_digit c then map_option Suc (digit_count img) else Some 0)"

text \<open>\<open>usize::from_str\<close>: the empty text and numbers that do not fit are errors, here unwrapped.\<close>

fun parse_digits :: "usize \<Rightarrow> u8 list \<Rightarrow> usize run" where
  "parse_digits n [] = Some n"
| "parse_digits n (c # cs) = do { a \<leftarrow> umul n 10; b \<leftarrow> uadd a (unat c - 48); parse_digits b cs }"

definition parse_usize :: "u8 list \<Rightarrow> usize run" where
  "parse_usize cs = (if cs = [] then None else parse_digits 0 cs)"

definition ppm_parse_number :: "u8 list \<Rightarrow> (usize \<times> u8 list) run" where
  "ppm_parse_number img = do {
     i \<leftarrow> digit_count img;
     number \<leftarrow> parse_usize (take i img);
     Some (number, drop i img) }"

definition ppm_parse_single_whitespace :: "u8 list \<Rightarrow> u8 list run" where
  "ppm_parse_single_whitespace img = (case img of
     [] \<Rightarrow> None
   | c # rest \<Rightarrow> if is_ascii_whitespace c then Some rest else None)"

definition ppm_parse_raster :: "usize \<Rightarrow> usize \<Rightarrow> usize \<Rightarrow> u8 list \<Rightarrow> (u8 list \<times> u8 list) run" where
  "ppm_parse_raster width height sample_size img = do {
     pixel_size \<leftarrow> umul 3 sample_size;
     row_size \<leftarrow> umul width pixel_size;
     image_size \<leftarrow> umul height row_size;
     raster \<leftarrow> slice_to image_size img;
     rest \<leftarrow> slice_from image_size img;
     Some (raster, rest) }"

definition ppm_parse :: "u8 list \<Rightarrow> ppm_image run" where
  "ppm_parse img = do {
     img \<leftarrow> ppm_parse_magic img;
     img \<leftarrow> ppm_parse_whitespace_and_comments img;
     (width, img) \<leftarrow> ppm_parse_number img;
     img \<leftarrow> ppm_parse_whitespace_and_comments img;
     (height, img) \<leftarrow> ppm_parse_number img;
     img \<leftarrow> ppm_parse_whitespace_and_comments img;
     (maxval, img) \<leftarrow> ppm_parse_number img;
     ensure (maxval > 0);
     ensure (maxval < 65536);
     img \<leftarrow> ppm_parse_single_whitespace img;
     let sample_size = (if maxval < 256 then 1 else 2);
     (raster, img) \<leftarrow> ppm_parse_raster width height sample_size img;
     Some (PpmRaw width height maxval sample_size raster) }"

definition parse_image :: "u8 list \<Rightarrow> ppm_image run" where
  "parse_image img = do {
     m \<leftarrow> slice_to (length PPM_RAW_MAGIC) img;
     if m = PPM_RAW_MAGIC then ppm_parse img else None }"

subsection \<open>Drawing\<close>

definition draw_pixel :: "ppm_image \<Rightarrow> usize \<Rightarrow> usize \<Rightarrow> usize \<Rightarrow> framebuffer \<Rightarrow> framebuffer run" where
  "draw_pixel img scale y x framebuffer = do {
     (r, g, b) \<leftarrow> rgb img x y;
     paint_each [0..<scale] (\<lambda>sy. paint_each [0..<scale] (\<lambda>sx framebuffer. do {
       px \<leftarrow> umul x scale;
       px \<leftarrow> uadd px sx;
       py \<leftarrow> umul y scale;
       py \<leftarrow> uadd py sy;
       set_pixel framebuffer px py r g b 255 })) framebuffer }"

definition draw_image :: "ppm_image \<Rightarrow> usize \<Rightarrow> framebuffer \<Rightarrow> framebuffer run" where
  "draw_image img scale framebuffer =
     paint_each [0..<img_height img] (\<lambda>y. paint_each [0..<img_width img] (draw_pixel img scale y)) framebuffer"

definition image_scale :: "ppm_image \<Rightarrow> usize run" where
  "image_scale img = do {
     a \<leftarrow> div_ceil 400 (img_width img);
     b \<leftarrow> div_ceil 300 (img_height img);
     Some (min a b) }"

text \<open>
  The program up to its loop that only yields: the size of the window it creates, and the picture in
  the memory that it is given for a window of that size.
\<close>

definition image_viewer_main :: "(u32 \<Rightarrow> u32 \<Rightarrow> u32 list) \<Rightarrow> u8 list \<Rightarrow> (u32 \<times> u32 \<times> framebuffer) run" where
  "image_viewer_main window_memory file = do {
     img \<leftarrow> parse_image file;
     scale \<leftarrow> image_scale img;
     window_width \<leftarrow> umul (img_width img) scale;
     window_height \<leftarrow> umul (img_height img) scale;
     let width = word_of_nat window_width;
     let height = word_of_nat window_height;
     framebuffer \<leftarrow> draw_image img scale (fb_map window_width window_height (window_memory width height));
     Some (width, height, framebuffer) }"

end
