(* ===== verification/Image_Viewer_Correct.thy ===== *)
theory Image_Viewer_Correct
  imports Image_Viewer
begin

text \<open>
  Files as the format of binary pixel maps prescribes them, and the picture that the image viewer
  makes of such a file.
\<close>

subsection \<open>The format\<close>

text \<open>What may stand between the numbers: white space, and comments to the end of a line.\<close>

definition separator :: "u8 list \<Rightarrow> bool" where
  "separator s \<longleftrightarrow> (\<exists>c. s = [c] \<and> is_ascii_whitespace c) \<or> (\<exists>t. s = 35 # t @ [10] \<and> 10 \<notin> set t)"

definition gap :: "u8 list list \<Rightarrow> bool" where
  "gap ss \<longleftrightarrow> ss \<noteq> [] \<and> (\<forall>s\<in>set ss. separator s)"

fun decimal_text :: "nat \<Rightarrow> u8 list" where
  "decimal_text n = (if n < 10 then [word_of_nat (48 + n)] else decimal_text (n div 10) @ [word_of_nat (48 + n mod 10)])"

declare decimal_text.simps [simp del]

definition ppm_file ::
    "u8 list list \<Rightarrow> u8 list list \<Rightarrow> u8 list list \<Rightarrow> nat \<Rightarrow> nat \<Rightarrow> nat \<Rightarrow> u8 \<Rightarrow> u8 list \<Rightarrow> u8 list \<Rightarrow> u8 list" where
  "ppm_file g1 g2 g3 width height maxval c raster rest =
     PPM_RAW_MAGIC @ concat g1 @ decimal_text width @ concat g2 @ decimal_text height @ concat g3 @ decimal_text maxval @
     c # raster @ rest"

subsection \<open>The parser\<close>

lemma skip_comment_line: "10 \<notin> set t \<Longrightarrow> skip_comment (t @ 10 # rest) = Some rest"
  by (induction t) auto

lemma skip_separator:
  assumes "separator s"
  shows "skip_whitespace_and_comments b (s @ rest) = skip_whitespace_and_comments True rest"
proof -
  from assms consider (white) c where "s = [c]" "is_ascii_whitespace c" | (comment) t where "s = 35 # t @ [10]" "10 \<notin> set t"
    unfolding separator_def by blast
  then show ?thesis
  proof cases
    case comment
    then show ?thesis by (simp add: is_ascii_whitespace_def skip_comment_line)
  qed simp
qed

lemma skip_gap:
  assumes "gap ss" "\<not> is_ascii_whitespace c" "c \<noteq> 35"
  shows "ppm_parse_whitespace_and_comments (concat ss @ c # rest) = Some (c # rest)"
proof -
  have "skip_whitespace_and_comments b (concat ss @ c # rest) = skip_whitespace_and_comments (b \<or> ss \<noteq> []) (c # rest)"
    if "\<forall>s\<in>set ss. separator s" for b
    using that by (induction ss arbitrary: b) (simp_all add: skip_separator)
  with assms show ?thesis by (simp add: ppm_parse_whitespace_and_comments_def gap_def)
qed

lemma digit_char:
  assumes "d < 10"
  shows "is_ascii_digit (word_of_nat (48 + d))" "unat (word_of_nat (48 + d) :: u8) = 48 + d"
proof -
  show u: "unat (word_of_nat (48 + d) :: u8) = 48 + d"
    using assms by (subst unat_of_nat) simp
  then show "is_ascii_digit (word_of_nat (48 + d))" using assms by (simp add: is_ascii_digit_def word_le_nat_alt)
qed

lemma decimal_digits: "c \<in> set (decimal_text n) \<Longrightarrow> is_ascii_digit c"
proof (induction n rule: decimal_text.induct)
  case (1 n)
  then show ?case
    using digit_char(1) [of n] digit_char(1) [of "n mod 10"]
    by (subst (asm) (2) decimal_text.simps) (auto split: if_splits)
qed

lemma decimal_starts: "\<exists>c cs. decimal_text n = c # cs \<and> is_ascii_digit c"
proof -
  have "decimal_text n \<noteq> []" by (subst decimal_text.simps) simp
  then show ?thesis using decimal_digits [of _ n] by (cases "decimal_text n") auto
qed

lemma digit_not_white: "is_ascii_digit c \<Longrightarrow> \<not> is_ascii_whitespace c \<and> c \<noteq> 35"
  by (auto simp: is_ascii_digit_def is_ascii_whitespace_def)

lemma count_digits:
  "(\<And>c. c \<in> set ds \<Longrightarrow> is_ascii_digit c) \<Longrightarrow> \<not> is_ascii_digit c \<Longrightarrow> digit_count (ds @ c # rest) = Some (length ds)"
  by (induction ds) auto

lemma parse_digits_append:
  "parse_digits a (ds @ es) = parse_digits a ds \<bind> (\<lambda>b. parse_digits b es)"
  by (induction ds arbitrary: a) (auto simp: bind_assoc)

lemma parse_decimal: "n < usize_end \<Longrightarrow> parse_digits 0 (decimal_text n) = Some n"
proof (induction n rule: decimal_text.induct)
  case (1 n)
  show ?case
  proof (cases "n < 10")
    case True
    then show ?thesis using digit_char(2) [of n] by (simp add: decimal_text.simps)
  next
    case False
    then have "parse_digits 0 (decimal_text (n div 10)) = Some (n div 10)" using 1 by simp
    moreover have "n div 10 * 10 < usize_end" "n div 10 * 10 + n mod 10 < usize_end" using 1(2) by simp_all
    ultimately show ?thesis
      using False digit_char(2) [of "n mod 10"] by (subst decimal_text.simps) (simp add: parse_digits_append)
  qed
qed

lemma parse_number:
  assumes "n < usize_end" "\<not> is_ascii_digit c"
  shows "ppm_parse_number (decimal_text n @ c # rest) = Some (n, c # rest)"
proof -
  have "digit_count (decimal_text n @ c # rest) = Some (length (decimal_text n))"
    by (rule count_digits [OF decimal_digits assms(2)])
  then show ?thesis
    using parse_decimal [OF assms(1)] decimal_starts [of n] by (auto simp: ppm_parse_number_def parse_usize_def)
qed

lemma gap_starts:
  assumes "gap ss"
  shows "\<exists>c cs. concat ss = c # cs \<and> \<not> is_ascii_digit c"
proof -
  obtain s ss' where ss: "ss = s # ss'" "separator s" using assms by (cases ss) (auto simp: gap_def)
  then obtain c cs where "s = c # cs" "is_ascii_whitespace c \<or> c = 35" by (auto simp: separator_def)
  with ss digit_not_white show ?thesis by auto
qed

lemma parse_number_gap:
  assumes "n < usize_end" "gap g" "is_ascii_digit c"
  shows "ppm_parse_number (decimal_text n @ concat g @ c # rest) \<bind>
      (\<lambda>(n, img). ppm_parse_whitespace_and_comments img \<bind> (\<lambda>img. f n img)) = f n (c # rest)"
proof -
  obtain d ds where g: "concat g = d # ds" "\<not> is_ascii_digit d" using gap_starts [OF assms(2)] by blast
  have "ppm_parse_number (decimal_text n @ concat g @ c # rest) = Some (n, concat g @ c # rest)"
    using parse_number [OF assms(1) g(2), of "ds @ c # rest"] g(1) by simp
  with skip_gap [OF assms(2)] digit_not_white [OF assms(3)] show ?thesis by simp
qed

text \<open>A well-formed file, with samples of one or two bytes each.\<close>

definition ppm_ok ::
    "u8 list list \<Rightarrow> u8 list list \<Rightarrow> u8 list list \<Rightarrow> nat \<Rightarrow> nat \<Rightarrow> nat \<Rightarrow> u8 \<Rightarrow> u8 list \<Rightarrow> bool" where
  "ppm_ok g1 g2 g3 width height maxval c raster \<longleftrightarrow>
     gap g1 \<and> gap g2 \<and> gap g3 \<and> 0 < width \<and> 0 < height \<and> width < 2147483648 \<and> height < 2147483648 \<and>
     0 < maxval \<and> maxval < 65536 \<and> is_ascii_whitespace c \<and>
     length raster = height * (width * (3 * (if maxval < 256 then 1 else 2))) \<and> length raster < usize_end"

lemma parse_image_file:
  assumes "ppm_ok g1 g2 g3 width height maxval c raster"
  shows "parse_image (ppm_file g1 g2 g3 width height maxval c raster rest) =
    Some (PpmRaw width height maxval (if maxval < 256 then 1 else 2) raster)"
proof -
  obtain ss :: nat where ss: "(if maxval < 256 then 1 else 2) = ss" by simp
  have ok: "gap g1" "gap g2" "gap g3" "0 < width" "0 < height" "width < usize_end" "height < usize_end" "0 < maxval" "maxval < 65536"
    "is_ascii_whitespace c" "length raster = height * (width * (3 * ss))" "length raster < usize_end"
    using assms unfolding ppm_ok_def ss by simp_all
  have small: "maxval < usize_end" using ok(9) by simp
  have not_digit: "\<not> is_ascii_digit c" using ok(10) digit_not_white by blast
  let ?r4 = "c # raster @ rest"
  obtain m ms where m: "decimal_text maxval = m # ms" "is_ascii_digit m" using decimal_starts by blast
  obtain n ns where n: "decimal_text height = n # ns" "is_ascii_digit n" using decimal_starts by blast
  obtain k ks where k: "decimal_text width = k # ks" "is_ascii_digit k" using decimal_starts by blast
  have first: "ppm_parse_whitespace_and_comments (concat g1 @ decimal_text width @ r) = Some (decimal_text width @ r)" for r
    using skip_gap [OF ok(1)] digit_not_white [OF k(2)] k(1) by simp
  have second: "ppm_parse_number (decimal_text width @ concat g2 @ decimal_text height @ r) \<bind>
      (\<lambda>(w, img). ppm_parse_whitespace_and_comments img \<bind> (\<lambda>img. f w img)) = f width (decimal_text height @ r)" for r f
    using parse_number_gap [OF ok(6,2) n(2)] n(1) by simp
  have third: "ppm_parse_number (decimal_text height @ concat g3 @ decimal_text maxval @ r) \<bind>
      (\<lambda>(h, img). ppm_parse_whitespace_and_comments img \<bind> (\<lambda>img. f h img)) = f height (decimal_text maxval @ r)" for r f
    using parse_number_gap [OF ok(7,3) m(2)] m(1) by simp
  have fourth: "ppm_parse_number (decimal_text maxval @ ?r4) = Some (maxval, ?r4)" by (rule parse_number [OF small not_digit])
  have "width * (3 * ss) \<le> length raster" using ok(5,11) by simp
  then have "width * (3 * ss) < usize_end" using ok(12) by (rule le_less_trans)
  then have "umul width (3 * ss) = Some (width * (3 * ss))" "umul height (width * (3 * ss)) = Some (length raster)"
    using ok(11,12) by (simp_all only: umul_ok)
  then have raster: "ppm_parse_raster width height ss (raster @ rest) = Some (raster, rest)"
    using ss unfolding ppm_parse_raster_def by (auto simp: slice_to_def slice_from_def)
  have single: "ppm_parse_single_whitespace ?r4 = Some (raster @ rest)" using ok(10) by (simp add: ppm_parse_single_whitespace_def)
  have magic: "ppm_parse_magic (PPM_RAW_MAGIC @ r) = Some r" "slice_to (length PPM_RAW_MAGIC) (PPM_RAW_MAGIC @ r) = Some PPM_RAW_MAGIC" for r
    by (simp_all add: ppm_parse_magic_def slice_to_def slice_from_def)
  show ?thesis
    unfolding parse_image_def ppm_file_def magic(2) ppm_parse_def ss
    using ok(8,9) raster ss by (auto simp: magic(1) first second third fourth single Let_def)
qed

subsection \<open>Pixels\<close>

text \<open>Sample number \<open>i\<close> of the raster, scaled to 8 bits.\<close>

definition sample_at :: "u8 list \<Rightarrow> nat \<Rightarrow> nat \<Rightarrow> u8" where
  "sample_at raster maxval i =
     word_of_nat ((if maxval < 256 then unat (raster ! i) else unat (raster ! (2 * i)) * 256 + unat (raster ! (2 * i + 1)))
       * 255 div maxval)"

definition picture_colour :: "nat \<Rightarrow> nat \<Rightarrow> u8 list \<Rightarrow> nat \<Rightarrow> nat \<Rightarrow> u32" where
  "picture_colour width maxval raster x y =
     bgra (sample_at raster maxval ((y * width + x) * 3)) (sample_at raster maxval ((y * width + x) * 3 + 1))
       (sample_at raster maxval ((y * width + x) * 3 + 2)) 255"

lemma take_two: "Suc n < length xs \<Longrightarrow> take 2 (drop n xs) = [xs ! n, xs ! Suc n]"
  by (simp add: numeral_2_eq_2 take_Suc_conv_app_nth)

lemma take_one: "n < length xs \<Longrightarrow> take (Suc 0) (drop n xs) = [xs ! n]"
  by (simp add: take_Suc_conv_app_nth)

lemma sample_slice:
  assumes "0 < maxval" "ss = (if maxval < 256 then 1 else 2)" "(i + 1) * ss \<le> length raster"
  shows "ppm_sample (take ss (drop (i * ss) raster)) maxval = Some (sample_at raster maxval i)"
proof (cases "maxval < 256")
  case True
  then show ?thesis using assms by (simp add: ppm_sample_def take_one sample_at_def)
next
  case False
  then have "take 2 (drop (i * 2) raster) = [raster ! (i * 2), raster ! Suc (i * 2)]"
    using assms by (intro take_two) simp
  with False assms show ?thesis by (simp add: ppm_sample_def sample_at_def mult.commute)
qed

lemma rgb_picture:
  assumes "0 < maxval" "x < width" "y < height" and ss: "ss = (if maxval < 256 then 1 else 2)"
    and raster: "length raster = height * (width * (3 * ss))" "length raster < usize_end"
  defines "i \<equiv> (y * width + x) * 3"
  shows "rgb (PpmRaw width height maxval ss raster) x y =
    Some (sample_at raster maxval i, sample_at raster maxval (i + 1), sample_at raster maxval (i + 2))"
proof -
  have "(y * width + x + 1) * (3 * ss) \<le> height * width * (3 * ss)"
  proof (rule mult_le_mono1)
    have "y * width + width \<le> height * width" using mult_le_mono1 [of "Suc y" height width] assms(3) by simp
    then show "y * width + x + 1 \<le> height * width" using assms(2) by linarith
  qed
  then have last: "(i + 3) * ss \<le> length raster" using raster(1) by (simp add: i_def algebra_simps)
  have y: "y * width * 3 * ss + x * 3 * ss = i * ss" by (simp add: i_def algebra_simps)
  have pos: "1 \<le> ss" using ss by simp
  have upto: "i * ss + 3 * ss \<le> length raster" using last by (simp add: algebra_simps)
  have le: "y * width * 3 * ss \<le> length raster" using upto y by linarith
  have chain: "y * width \<le> y * width * 3 * ss" "y * width * 3 \<le> y * width * 3 * ss" "x * 3 \<le> x * 3 * ss"
    using pos by (auto intro: order_trans)
  have fits: "umul y width = Some (y * width)" "umul (y * width) 3 = Some (y * width * 3)"
    "umul (y * width * 3) ss = Some (y * width * 3 * ss)" "umul x 3 = Some (x * 3)" "umul (x * 3) ss = Some (x * 3 * ss)"
    using chain le upto y raster(2) by (simp_all only: umul_Some) linarith+
  have row: "slice_from (y * width * 3 * ss) raster = Some (drop (y * width * 3 * ss) raster)" using le by (simp add: slice_from_def)
  have "x * 3 * ss \<le> length (drop (y * width * 3 * ss) raster)" using upto y by simp
  then have px: "slice_from (x * 3 * ss) (drop (y * width * 3 * ss) raster) = Some (drop (i * ss) raster)"
    using y by (simp add: slice_from_def add.commute)
  have slices: "slice_to ss (drop (i * ss) raster) = Some (take ss (drop (i * ss) raster))"
    "slice ss (2 * ss) (drop (i * ss) raster) = Some (take ss (drop ((i + 1) * ss) raster))"
    "slice (2 * ss) (3 * ss) (drop (i * ss) raster) = Some (take ss (drop ((i + 2) * ss) raster))"
  proof -
    have at: "(i + 1) * ss = ss + i * ss" "(i + 2) * ss = 2 * ss + i * ss" "2 * ss - ss = ss" "3 * ss - 2 * ss = ss"
      by (simp_all add: algebra_simps)
    have "ss \<le> length raster - i * ss" "2 * ss \<le> length raster - i * ss" "3 * ss \<le> length raster - i * ss"
      using upto by linarith+
    then show "slice_to ss (drop (i * ss) raster) = Some (take ss (drop (i * ss) raster))"
      "slice ss (2 * ss) (drop (i * ss) raster) = Some (take ss (drop ((i + 1) * ss) raster))"
      "slice (2 * ss) (3 * ss) (drop (i * ss) raster) = Some (take ss (drop ((i + 2) * ss) raster))"
      unfolding slice_to_def slice_def at by simp_all
  qed
  have samples: "ppm_sample (take ss (drop (j * ss) raster)) maxval = Some (sample_at raster maxval j)" if "j \<le> i + 2" for j
  proof (rule sample_slice [OF assms(1) ss])
    have "(j + 1) * ss \<le> (i + 3) * ss" using that by (intro mult_le_mono1) simp
    with last show "(j + 1) * ss \<le> length raster" by simp
  qed
  have "ppm_sample (take ss (drop (i * ss) raster)) maxval = Some (sample_at raster maxval i)"
    "ppm_sample (take ss (drop ((i + 1) * ss) raster)) maxval = Some (sample_at raster maxval (i + 1))"
    "ppm_sample (take ss (drop ((i + 2) * ss) raster)) maxval = Some (sample_at raster maxval (i + 2))"
    by (intro samples, simp)+
  then show ?thesis by (simp only: rgb_def ppm_image.case fits row px slices Option.bind.simps)
qed

subsection \<open>The picture in the window\<close>

text \<open>Every point of the scaled picture is a pixel's square and an offset in it.\<close>

lemma scaled_point:
  assumes "X < w * (s :: nat)"
  shows "\<exists>x<w. \<exists>sx < s. X = x * s + sx"
proof -
  have "0 < s" using assms by (cases s) simp_all
  moreover have "X div s < w" using assms by (simp add: less_mult_imp_div_less)
  ultimately show ?thesis by (intro exI [of _ "X div s"]) (auto intro!: exI [of _ "X mod s"])
qed

lemma draw_image_paints:
  assumes image: "0 < maxval" "ss = (if maxval < 256 then 1 else 2)" "length raster = height * (width * (3 * ss))" "length raster < usize_end"
    and fb: "fb_ok fb0" "fb_width fb0 = width * s" "fb_height fb0 = height * s"
  shows "paints fb0 (\<lambda>X Y. picture_colour width maxval raster (X div s) (Y div s))
    (draw_image (PpmRaw width height maxval ss raster) s) (\<lambda>X Y. True)"
proof -
  let ?img = "PpmRaw width height maxval ss raster" and ?C = "\<lambda>X Y. picture_colour width maxval raster (X div s) (Y div s)"
  have fits: "width * s < usize_end" "height * s < usize_end" using fb by (simp_all add: fb_ok_def)
  have pixel: "paints fb0 ?C (draw_pixel ?img s y x) (\<lambda>X Y. \<exists>sy\<in>set [0..<s]. \<exists>sx\<in>set [0..<s]. X = x * s + sx \<and> Y = y * s + sy)"
    if x: "x < width" and y: "y < height" for x y
  proof -
    obtain r g b where rgb: "rgb ?img x y = Some (r, g, b)" "picture_colour width maxval raster x y = bgra r g b 255"
      using rgb_picture [OF image(1) x y image(2-4)] by (simp add: picture_colour_def)
    have sq: "paints fb0 ?C (\<lambda>fb. umul x s \<bind> (\<lambda>px. uadd px sx \<bind> (\<lambda>px. umul y s \<bind> (\<lambda>py. uadd py sy \<bind>
        (\<lambda>py. set_pixel fb px py r g b 255))))) (\<lambda>X Y. X = x * s + sx \<and> Y = y * s + sy)" if "sx < s" "sy < s" for sx sy
    proof -
      have "Suc x * s \<le> width * s" "Suc y * s \<le> height * s" using x y by (intro mult_le_mono1, simp)+
      then have lt: "x * s + sx < width * s" "y * s + sy < height * s" using that by simp_all
      have "x * s < usize_end" "y * s < usize_end" "x * s + sx < usize_end" "y * s + sy < usize_end"
        using lt fits by linarith+
      moreover have "(x * s + sx) div s = x" "(y * s + sy) div s = y" using that by simp_all
      ultimately show ?thesis
        using paints_set_pixel [OF fb(1), of "x * s + sx" "y * s + sy" ?C r g b 255] lt fb(2,3) rgb(2) by simp
    qed
    have "paints fb0 ?C (paint_each [0..<s] (\<lambda>sy. paint_each [0..<s] (\<lambda>sx fb. umul x s \<bind> (\<lambda>px. uadd px sx \<bind> (\<lambda>px.
        umul y s \<bind> (\<lambda>py. uadd py sy \<bind> (\<lambda>py. set_pixel fb px py r g b 255)))))))
        (\<lambda>X Y. \<exists>sy\<in>set [0..<s]. \<exists>sx\<in>set [0..<s]. X = x * s + sx \<and> Y = y * s + sy)"
      by (intro paints_each sq) simp_all
    then show ?thesis by (simp add: paints_def draw_pixel_def rgb(1))
  qed
  have "paints fb0 ?C (draw_image ?img s) (\<lambda>X Y. \<exists>y\<in>set [0..<height]. \<exists>x\<in>set [0..<width].
      \<exists>sy\<in>set [0..<s]. \<exists>sx\<in>set [0..<s]. X = x * s + sx \<and> Y = y * s + sy)"
    unfolding draw_image_def ppm_image.sel by (intro paints_each pixel) simp_all
  then show ?thesis
  proof (rule paints_cong)
    fix X Y assume "X < fb_width fb0" "Y < fb_height fb0"
    with scaled_point [of X width s] scaled_point [of Y height s]
    show "(\<exists>y\<in>set [0..<height]. \<exists>x\<in>set [0..<width]. \<exists>sy\<in>set [0..<s]. \<exists>sx\<in>set [0..<s].
        X = x * s + sx \<and> Y = y * s + sy) = True" using fb(2,3) by fastforce
  qed
qed

text \<open>The factor by which pictures are enlarged to about 400 by 300 points.\<close>

definition fitting_scale :: "nat \<Rightarrow> nat \<Rightarrow> nat" where
  "fitting_scale width height = min ((399 + width) div width) ((299 + height) div height)"

lemma div_ceil_eq:
  assumes "0 < b" "0 < a" "a < 1000"
  shows "div_ceil a b = Some ((a - 1 + b) div b)"
proof -
  have "(a - 1 + b) div b = (if a mod b = 0 then a div b else a div b + 1)"
  proof (cases "a mod b = 0")
    case True
    then obtain k where k: "a = b * k" by auto
    then obtain k' where k': "k = Suc k'" using assms(2) by (cases k) auto
    have "a - 1 + b = (b - 1) + b * k" using assms(1,2) k by simp
    then have "(a - 1 + b) div b = k + (b - 1) div b" using div_mult_self2 [of b "b - 1" k] assms(1) by (simp only:)
    with k assms(1) show ?thesis by simp
  next
    case False
    then have "a - 1 + b = (a mod b - 1) + b * (a div b + 1)"
      using mult_div_mod_eq [of b a] assms(1) by (simp add: algebra_simps)
    moreover have "(a mod b - 1) div b = 0" using mod_less_divisor [OF assms(1), of a] by simp
    ultimately show ?thesis
      using False assms(1) div_mult_self2 [of b "a mod b - 1" "a div b + 1"] by (simp only:) simp
  qed
  moreover have "a div b + 1 < usize_end" using div_le_dividend [of a b] assms(3) by linarith
  ultimately show ?thesis using assms(1) by (simp add: div_ceil_def uadd_def)
qed

lemma scale_bounds:
  assumes "0 < width" "0 < height"
  shows "fitting_scale width height * width \<le> 399 + width" "fitting_scale width height * height \<le> 299 + height"
    "0 < fitting_scale width height"
proof -
  have "fitting_scale width height * width \<le> (399 + width) div width * width" by (intro mult_le_mono1) (simp add: fitting_scale_def)
  also have "\<dots> \<le> 399 + width" by simp
  finally show "fitting_scale width height * width \<le> 399 + width" .
  have "fitting_scale width height * height \<le> (299 + height) div height * height" by (intro mult_le_mono1) (simp add: fitting_scale_def)
  also have "\<dots> \<le> 299 + height" by simp
  finally show "fitting_scale width height * height \<le> 299 + height" .
  show "0 < fitting_scale width height" using assms by (simp add: fitting_scale_def div_greater_zero_iff)
qed

text \<open>
  C35: the image viewer shows what the file holds.  For every file in the binary pixel map format, with
  any white space and comments between its numbers, samples of one or two bytes and anything behind
  the picture, the program asks for a window of the enlarged size, and every point of the window gets
  the colour of the pixel that covers it, scaled to 8 bits; nothing panics on the way.
\<close>

theorem viewer_shows_picture:
  assumes "ppm_ok g1 g2 g3 width height maxval c raster"
    and "width * fitting_scale width height * (height * fitting_scale width height) \<le>
      length (window_memory (word_of_nat (width * fitting_scale width height)) (word_of_nat (height * fitting_scale width height)))"
  shows "\<exists>fb. image_viewer_main window_memory (ppm_file g1 g2 g3 width height maxval c raster rest) =
      Some (word_of_nat (width * fitting_scale width height), word_of_nat (height * fitting_scale width height), fb) \<and>
    (\<forall>X<width * fitting_scale width height. \<forall>Y<height * fitting_scale width height.
       pixel fb X Y = picture_colour width maxval raster (X div fitting_scale width height) (Y div fitting_scale width height))"
proof -
  obtain s where s: "fitting_scale width height = s" by simp
  obtain ss :: nat where ss: "ss = (if maxval < 256 then 1 else 2)" by simp
  have ok: "0 < width" "0 < height" "width < 2147483648" "height < 2147483648" "0 < maxval"
    "length raster = height * (width * (3 * ss))" "length raster < usize_end"
    using assms(1) unfolding ppm_ok_def ss by simp_all
  have bounds: "width * s < 4294967296" "height * s < 4294967296"
    using scale_bounds [OF ok(1,2)] ok(3,4) s by (simp_all add: mult.commute)
  let ?memory = "window_memory (word_of_nat (width * s)) (word_of_nat (height * s))"
  define fb0 where "fb0 = fb_map (width * s) (height * s) ?memory"
  have fb0: "fb_ok fb0" "fb_width fb0 = width * s" "fb_height fb0 = height * s"
    using assms(2) bounds by (simp_all add: fb0_def fb_map_def fb_ok_def s)
  have scale: "image_scale (PpmRaw width height maxval ss raster) = Some s"
    using div_ceil_eq [OF ok(1), of 400] div_ceil_eq [OF ok(2), of 300] s
    by (simp add: image_scale_def fitting_scale_def)
  obtain fb where fb: "draw_image (PpmRaw width height maxval ss raster) s fb0 = Some fb"
    "\<And>X Y. X < width * s \<Longrightarrow> Y < height * s \<Longrightarrow> pixel fb X Y = picture_colour width maxval raster (X div s) (Y div s)"
    using paintsE [OF draw_image_paints [OF ok(5) ss ok(6,7) fb0] same_size_refl] fb0(2,3) by metis
  have "image_viewer_main window_memory (ppm_file g1 g2 g3 width height maxval c raster rest) =
      Some (word_of_nat (width * s), word_of_nat (height * s), fb)"
    using bounds fb(1) scale
    by (simp add: image_viewer_main_def parse_image_file [OF assms(1), folded ss] fb0_def Let_def)
  with fb(2) show ?thesis unfolding s by blast
qed

theorem viewer_shows_picture_witness:
  "\<exists>fb. image_viewer_main (\<lambda>w h. replicate 90000 0)
     (ppm_file [[32]] [[35, 65, 10]] [[10]] 1 1 255 10 [255, 0, 128] []) = Some (300, 300, fb) \<and>
     pixel fb 7 5 = bgra 255 0 128 255"
proof -
  have scale: "fitting_scale 1 1 = 300" by (simp add: fitting_scale_def)
  have "separator [35, 65, 10]" unfolding separator_def by (intro disjI2 exI [of _ "[65]"]) simp
  then have "ppm_ok [[32]] [[35, 65, 10]] [[10]] 1 1 255 10 [255, 0, 128]"
    by (auto simp: ppm_ok_def gap_def separator_def is_ascii_whitespace_def)
  from viewer_shows_picture [OF this, of "\<lambda>w h. replicate 90000 0" "[]"]
  obtain fb where "image_viewer_main (\<lambda>w h. replicate 90000 0)
      (ppm_file [[32]] [[35, 65, 10]] [[10]] 1 1 255 10 [255, 0, 128] []) = Some (300, 300, fb)"
    "pixel fb 7 5 = picture_colour 1 255 [255, 0, 128] (7 div 300) (5 div 300)"
    unfolding scale by auto
  then show ?thesis by (auto simp: picture_colour_def sample_at_def)
qed

end
