(* ===== verification/Font.thy ===== *)
theory Font
  imports Painting Input_Events
begin

text \<open>
  The font of the terminal, which the build script of the programs (\<open>apps/build.rs\<close>) generates: the
  structures, and the measures of a font from the rasterized characters.  The rasterizer, which gives
  the metrics of a character and its bitmap, is a parameter.
\<close>

record glyph =
  gl_ascii :: u8
  gl_xmin :: int
  gl_ymin :: int
  gl_width :: usize
  gl_height :: usize
  gl_bitmap :: "u8 list"

record font =
  font_width :: usize
  font_height :: usize
  font_leftpad :: usize
  font_glyphs :: "glyph list"

definition find_glyph :: "font \<Rightarrow> u8 \<Rightarrow> glyph option" where
  "find_glyph font c = find (\<lambda>g. gl_ascii g = c) (font_glyphs font)"

text \<open>The metrics of a character: where it starts, its width and its height, with its bitmap.\<close>

type_synonym metrics = "int \<times> int \<times> usize \<times> usize \<times> u8 list"

record extents =
  min_xmin :: int
  min_ymin :: int
  max_xmax :: int
  max_ymax :: int

definition is_ascii_graphic :: "u8 \<Rightarrow> bool" where
  "is_ascii_graphic c \<longleftrightarrow> 33 \<le> c \<and> c \<le> 126"

definition all_chars :: "u8 list" where
  "all_chars = map word_of_nat [0..<256]"

definition add_glyph :: "(u8 \<Rightarrow> metrics) \<Rightarrow> u8 \<Rightarrow> glyph list \<times> extents \<Rightarrow> (glyph list \<times> extents) run" where
  "add_glyph rasterize c s = (case s of (glyphs, e) \<Rightarrow>
     if is_ascii_graphic c then
       (case rasterize c of (xmin, ymin, width, height, bitmap) \<Rightarrow> do {
          right \<leftarrow> i32_add xmin (as_i32 width);
          top \<leftarrow> i32_add ymin (as_i32 height);
          Some (glyphs @ [\<lparr>gl_ascii = c, gl_xmin = xmin, gl_ymin = ymin, gl_width = width, gl_height = height,
                   gl_bitmap = bitmap\<rparr>],
            \<lparr>min_xmin = min (min_xmin e) xmin, min_ymin = min (min_ymin e) ymin,
             max_xmax = max (max_xmax e) right, max_ymax = max (max_ymax e) top\<rparr>) })
     else Some (glyphs, e))"

definition build_font :: "(u8 \<Rightarrow> metrics) \<Rightarrow> font run" where
  "build_font rasterize = do {
     (glyphs, e) \<leftarrow> paint_each all_chars (add_glyph rasterize)
       ([], \<lparr>min_xmin = 0, min_ymin = 0, max_xmax = 0, max_ymax = 0\<rparr>);
     left \<leftarrow> i32_sub 0 (min_xmin e);
     below \<leftarrow> i32_sub 0 (min_ymin e);
     max_width \<leftarrow> i32_add (max left 0) (max_xmax e);
     max_height \<leftarrow> i32_add (max below 0) (max_ymax e);
     Some \<lparr>font_width = nat max_width, font_height = nat max_height, font_leftpad = nat (max left 0),
       font_glyphs = glyphs\<rparr> }"

end
