(* ===== verification/Terminal.thy ===== *)
theory Terminal
  imports Font Ring_Buffer
begin

text \<open>
  The terminal (\<open>apps/src/bin/terminal.rs\<close>): a window of text that is written from left to right and
  scrolled up, and the characters of the keyboard.  The font that the build script generates is a
  parameter.
\<close>

subsection \<open>State\<close>

text \<open>The number of times the window was asked to draw stands for the capability to it.\<close>

record renderer =
  pen_x :: int
  pen_y :: int
  window_width :: int
  window_height :: int
  term_framebuffer :: framebuffer
  window_draws :: nat

subsection \<open>Writing\<close>

definition render_dot :: "font \<Rightarrow> renderer \<Rightarrow> glyph \<Rightarrow> usize \<Rightarrow> usize \<Rightarrow> framebuffer \<Rightarrow> framebuffer run" where
  "render_dot font r g bitmap_y bitmap_x fb = do {
     x \<leftarrow> i32_add (pen_x r) (int bitmap_x);
     fb_x \<leftarrow> i32_add x (gl_xmin g);
     y \<leftarrow> i32_add (pen_y r) (as_i32 (font_height font));
     y \<leftarrow> i32_sub y (as_i32 (gl_height g));
     y \<leftarrow> i32_add y (int bitmap_y);
     fb_y \<leftarrow> i32_sub y (gl_ymin g);
     if 0 \<le> fb_x \<and> fb_x < window_width r \<and> 0 \<le> fb_y \<and> fb_y < window_height r then do {
       i \<leftarrow> umul bitmap_y (gl_width g);
       i \<leftarrow> uadd i bitmap_x;
       ensure (i < length (gl_bitmap g));
       let color = gl_bitmap g ! i;
       set_pixel fb (nat fb_x) (nat fb_y) 0 color 0 255 }
     else Some fb }"

text \<open>The ranges \<open>0..n as i32\<close> are empty when the cast is negative.\<close>

definition render_glyph :: "font \<Rightarrow> renderer \<Rightarrow> glyph \<Rightarrow> renderer run" where
  "render_glyph font r g = do {
     fb \<leftarrow> paint_each [0..<nat (as_i32 (gl_height g))] (\<lambda>bitmap_y.
       paint_each [0..<nat (as_i32 (gl_width g))] (render_dot font r g bitmap_y)) (term_framebuffer r);
     Some (r\<lparr>term_framebuffer := fb\<rparr>) }"

definition scroll_up :: "font \<Rightarrow> renderer \<Rightarrow> renderer run" where
  "scroll_up font r = do {
     empty_start \<leftarrow> usub (isize_as_usize (window_height r)) (font_height font);
     fb \<leftarrow> shift_rows (term_framebuffer r) (font_height font) 0 empty_start;
     fb \<leftarrow> fill_rows fb empty_start (isize_as_usize (window_height r)) 0 0 0 255;
     Some (r\<lparr>term_framebuffer := fb\<rparr>) }"

definition clear_screen :: "renderer \<Rightarrow> renderer" where
  "clear_screen r = r\<lparr>term_framebuffer := fb_fill (term_framebuffer r) 0 0 0 255\<rparr>"

definition new_line :: "font \<Rightarrow> renderer \<Rightarrow> renderer run" where
  "new_line font r = do {
     y \<leftarrow> i32_add (pen_y r) (as_i32 (font_height font));
     Some (r\<lparr>pen_x := as_i32 (font_leftpad font), pen_y := y\<rparr>) }"

definition advance :: "font \<Rightarrow> renderer \<Rightarrow> renderer run" where
  "advance font r = do {
     x \<leftarrow> i32_add (pen_x r) (as_i32 (font_width font));
     Some (r\<lparr>pen_x := x\<rparr>) }"

definition render_char :: "font \<Rightarrow> renderer \<Rightarrow> u8 \<Rightarrow> renderer run" where
  "render_char font r c = do {
     r \<leftarrow> (if c = 32 then advance font r
           else if c = 10 then new_line font r
           else case find_glyph font c of
             Some g \<Rightarrow> do { r \<leftarrow> render_glyph font r g; advance font r }
           | None \<Rightarrow> Some r);
     right \<leftarrow> i32_add (pen_x r) (as_i32 (font_width font));
     r \<leftarrow> (if right > window_width r then new_line font r else Some r);
     bottom \<leftarrow> i32_add (pen_y r) (as_i32 (font_height font));
     r \<leftarrow> (if bottom > window_height r then do {
             r \<leftarrow> scroll_up font r;
             y \<leftarrow> i32_sub (pen_y r) (as_i32 (font_height font));
             Some (r\<lparr>pen_x := as_i32 (font_leftpad font), pen_y := y\<rparr>) }
           else Some r);
     Some (r\<lparr>window_draws := window_draws r + 1\<rparr>) }"

definition putchar :: "font \<Rightarrow> renderer \<Rightarrow> u8 \<Rightarrow> renderer run" where
  "putchar font r c = render_char font r c"

definition terminal_main :: "font \<Rightarrow> u32 list \<Rightarrow> renderer" where
  "terminal_main font window_framebuffer =
     clear_screen \<lparr>pen_x = as_i32 (font_leftpad font), pen_y = 0, window_width = 400, window_height = 300,
       term_framebuffer = fb_map 400 300 window_framebuffer, window_draws = 0\<rparr>"

subsection \<open>Reading\<close>

definition key_char :: "u16 \<Rightarrow> u8 option" where
  "key_char code =
     map_of [(KEY_A, 97), (KEY_B, 98), (KEY_C, 99), (KEY_D, 100), (KEY_E, 101), (KEY_F, 102), (KEY_G, 103),
       (KEY_H, 104), (KEY_I, 105), (KEY_J, 106), (KEY_K, 107), (KEY_L, 108), (KEY_M, 109), (KEY_N, 110),
       (KEY_O, 111), (KEY_P, 112), (KEY_Q, 113), (KEY_R, 114), (KEY_S, 115), (KEY_T, 116), (KEY_U, 117),
       (KEY_V, 118), (KEY_W, 119), (KEY_X, 120), (KEY_Y, 121), (KEY_Z, 122), (KEY_ENTER, 13), (KEY_DOT, 46),
       (KEY_SPACE, 32)] code"

text \<open>
  The loops poll the ring of events; what the writer adds meanwhile is part of the ring at the start.
  When the ring is empty, \<open>getchar\<close> yields and goes on polling: no character yet.
\<close>

function skip_sequence :: "input_event ring \<Rightarrow> input_event ring run" where
  "skip_sequence ring = (case ring_poll ring of
     None \<Rightarrow> None
   | Some (ring', None) \<Rightarrow> Some ring'
   | Some (ring', Some e) \<Rightarrow> if ev_type e = 0 then Some ring' else skip_sequence ring')"
  by pat_completeness auto

lemma poll_advances: "ring_poll ring = Some (ring', Some e) \<Longrightarrow> ring_written ring' - ring_read ring' < ring_written ring - ring_read ring"
  by (auto simp: ring_poll_def Let_def run_Some split: if_splits)

termination skip_sequence
  by (relation "measure (\<lambda>ring. ring_written ring - ring_read ring)") (auto dest: poll_advances)

declare skip_sequence.simps [simp del]

lemma skip_sequence_advances: "skip_sequence ring = Some ring' \<Longrightarrow>
    ring_written ring' - ring_read ring' \<le> ring_written ring - ring_read ring"
proof (induction ring rule: skip_sequence.induct)
  case (1 ring)
  show ?case
  proof (cases "ring_poll ring")
    case (Some p)
    then obtain ring1 v where p: "ring_poll ring = Some (ring1, v)" by (cases p) simp
    show ?thesis
    proof (cases v)
      case None
      with p 1(2) show ?thesis
        by (subst (asm) skip_sequence.simps) (auto simp: ring_poll_def Let_def run_Some split: if_splits)
    next
      case (Some e)
      note less = poll_advances [OF p [unfolded Some]]
      show ?thesis
      proof (cases "ev_type e = 0")
        case True
        with p Some 1(2) less show ?thesis by (subst (asm) skip_sequence.simps) auto
      next
        case False
        with p Some 1(2) have "skip_sequence ring1 = Some ring'" by (subst (asm) skip_sequence.simps) simp
        with 1(1) [OF p refl Some False] less show ?thesis by simp
      qed
    qed
  qed (use 1(2) in \<open>subst (asm) skip_sequence.simps, simp\<close>)
qed

function getchar :: "input_event ring \<Rightarrow> (input_event ring \<times> u8 option) run" where
  "getchar ring = (case ring_poll ring of
     None \<Rightarrow> None
   | Some (ring, None) \<Rightarrow> Some (ring, None)
   | Some (ring, Some event) \<Rightarrow>
       (case skip_sequence ring of
          None \<Rightarrow> None
        | Some ring \<Rightarrow>
            if ev_value event = 1 then
              (case key_char (ev_code event) of
                 Some c \<Rightarrow> Some (ring, Some c)
               | None \<Rightarrow> getchar ring)
            else getchar ring))"
  by pat_completeness auto

termination getchar
  by (relation "measure (\<lambda>ring. ring_written ring - ring_read ring)")
    (auto intro: le_less_trans [OF skip_sequence_advances poll_advances])

declare getchar.simps [simp del]

end
