(* ===== verification/Font_Correct.thy ===== *)
theory Font_Correct
  imports Font
begin

text \<open>
  The generated font: its glyphs have bitmaps of their size, every printable character has its glyph,
  and glyphs drawn at the places of a grid do not overlap.
\<close>

subsection \<open>Fonts\<close>

text \<open>What a glyph shows at a point when it is drawn at a cursor: its grey value, if it is there.\<close>

definition glyph_at :: "font \<Rightarrow> glyph \<Rightarrow> int \<Rightarrow> int \<Rightarrow> nat \<Rightarrow> nat \<Rightarrow> u8 option" where
  "glyph_at font g x y X Y =
     (let bx = int X - x - gl_xmin g; by = int Y - y - int (font_height font) + int (gl_height g) + gl_ymin g in
      if 0 \<le> bx \<and> bx < int (gl_width g) \<and> 0 \<le> by \<and> by < int (gl_height g)
      then Some (gl_bitmap g ! (nat by * gl_width g + nat bx)) else None)"

text \<open>A font as the rasterizer makes it: glyphs of moderate size with a bitmap of their own size.\<close>

definition glyph_ok :: "glyph \<Rightarrow> bool" where
  "glyph_ok g \<longleftrightarrow>
     \<bar>gl_xmin g\<bar> < 1000000 \<and> \<bar>gl_ymin g\<bar> < 1000000 \<and> gl_width g < 1000000 \<and> gl_height g < 1000000 \<and>
     length (gl_bitmap g) = gl_width g * gl_height g"

definition font_ok :: "font \<Rightarrow> bool" where
  "font_ok font \<longleftrightarrow>
     0 < font_height font \<and> font_height font < 1000000 \<and> font_width font < 1000000 \<and> font_leftpad font < 1000000 \<and>
     (\<forall>g\<in>set (font_glyphs font). glyph_ok g)"

lemma casts:
  assumes "font_ok font"
  shows "as_i32 (font_height font) = int (font_height font)" "as_i32 (font_width font) = int (font_width font)"
    "as_i32 (font_leftpad font) = int (font_leftpad font)"
  using assms by (simp_all add: font_ok_def as_i32_small)

lemma found_glyph:
  assumes "font_ok font" "find_glyph font c = Some g"
  shows "glyph_ok g" "as_i32 (gl_height g) = int (gl_height g)" "as_i32 (gl_width g) = int (gl_width g)"
proof -
  have "g \<in> set (font_glyphs font)" using assms(2) by (auto simp: find_glyph_def find_Some_iff)
  with assms(1) show "glyph_ok g" by (simp add: font_ok_def)
  then show "as_i32 (gl_height g) = int (gl_height g)" "as_i32 (gl_width g) = int (gl_width g)"
    by (simp_all add: glyph_ok_def as_i32_small)
qed


subsection \<open>Measuring the characters\<close>

text \<open>Metrics of moderate size, and bitmaps of the size the metrics say.\<close>

definition metrics_ok :: "(u8 \<Rightarrow> metrics) \<Rightarrow> bool" where
  "metrics_ok rasterize \<longleftrightarrow> (\<forall>c xmin ymin width height bitmap. rasterize c = (xmin, ymin, width, height, bitmap) \<longrightarrow>
     \<bar>xmin\<bar> < 300000 \<and> \<bar>ymin\<bar> < 300000 \<and> width < 300000 \<and> height < 300000 \<and> length bitmap = width * height)"

lemma metrics_okD:
  assumes "metrics_ok rasterize" "rasterize c = (xmin, ymin, width, height, bitmap)"
  shows "\<bar>xmin\<bar> < 300000" "\<bar>ymin\<bar> < 300000" "width < 300000" "height < 300000" "length bitmap = width * height"
  using assms unfolding metrics_ok_def by blast+

definition glyph_of :: "(u8 \<Rightarrow> metrics) \<Rightarrow> u8 \<Rightarrow> glyph" where
  "glyph_of rasterize c = (case rasterize c of (xmin, ymin, width, height, bitmap) \<Rightarrow>
     \<lparr>gl_ascii = c, gl_xmin = xmin, gl_ymin = ymin, gl_width = width, gl_height = height, gl_bitmap = bitmap\<rparr>)"

text \<open>A glyph lies within extents.\<close>

definition within :: "extents \<Rightarrow> glyph \<Rightarrow> bool" where
  "within e g \<longleftrightarrow> min_xmin e \<le> gl_xmin g \<and> gl_xmin g + int (gl_width g) \<le> max_xmax e \<and>
     min_ymin e \<le> gl_ymin g \<and> gl_ymin g + int (gl_height g) \<le> max_ymax e"

definition extents_ok :: "extents \<Rightarrow> bool" where
  "extents_ok e \<longleftrightarrow> - 300000 < min_xmin e \<and> min_xmin e \<le> 0 \<and> - 300000 < min_ymin e \<and> min_ymin e \<le> 0 \<and>
     0 \<le> max_xmax e \<and> max_xmax e < 600000 \<and> 0 \<le> max_ymax e \<and> max_ymax e < 600000"

lemma add_glyph_ok:
  assumes "metrics_ok rasterize" "extents_ok e" "\<forall>g\<in>set glyphs. within e g"
  shows "\<exists>e'. add_glyph rasterize c (glyphs, e) =
      Some (glyphs @ map (glyph_of rasterize) (filter is_ascii_graphic [c]), e') \<and> extents_ok e' \<and>
    (\<forall>g\<in>set (glyphs @ map (glyph_of rasterize) (filter is_ascii_graphic [c])). within e' g)"
proof (cases "is_ascii_graphic c")
  case True
  obtain xmin ymin width height bitmap where m: "rasterize c = (xmin, ymin, width, height, bitmap)" by (metis prod_cases5)
  note ok = metrics_okD(1-4) [OF assms(1) m]
  have adds: "as_i32 width = int width" "as_i32 height = int height"
    "i32_add xmin (int width) = Some (xmin + int width)" "i32_add ymin (int height) = Some (ymin + int height)"
    using ok by (simp_all add: as_i32_small i32_add_def i32_ok_def abs_less_iff)
  show ?thesis
    using True assms(2,3) ok
    by (auto simp: add_glyph_def m adds glyph_of_def extents_ok_def within_def)
qed (use assms in \<open>auto simp: add_glyph_def\<close>)

lemma add_glyphs_ok:
  assumes "metrics_ok rasterize" "extents_ok e" "\<forall>g\<in>set glyphs. within e g"
  shows "\<exists>e'. paint_each cs (add_glyph rasterize) (glyphs, e) =
      Some (glyphs @ map (glyph_of rasterize) (filter is_ascii_graphic cs), e') \<and> extents_ok e' \<and>
    (\<forall>g\<in>set (glyphs @ map (glyph_of rasterize) (filter is_ascii_graphic cs)). within e' g)"
  using assms(2,3)
proof (induction cs arbitrary: glyphs e)
  case (Cons c cs)
  let ?glyphs = "glyphs @ map (glyph_of rasterize) (filter is_ascii_graphic [c])"
  obtain e1 where e1: "add_glyph rasterize c (glyphs, e) = Some (?glyphs, e1)" "extents_ok e1" "\<forall>g\<in>set ?glyphs. within e1 g"
    using add_glyph_ok [OF assms(1) Cons.prems] by blast
  from Cons.IH [OF e1(2,3)] obtain e2 where "paint_each cs (add_glyph rasterize) (?glyphs, e1) =
      Some (?glyphs @ map (glyph_of rasterize) (filter is_ascii_graphic cs), e2)" "extents_ok e2"
    "\<forall>g\<in>set (?glyphs @ map (glyph_of rasterize) (filter is_ascii_graphic cs)). within e2 g" by blast
  then show ?case by (intro exI [of _ e2]) (auto simp: e1(1))
qed auto

lemma char_listed: "(c :: u8) \<in> set all_chars"
proof -
  have "unat c < 256" using unsigned_less [of c] by simp
  then show ?thesis by (auto simp: all_chars_def image_iff intro!: bexI [of _ "unat c"])
qed

lemma graphic_count: "length (filter is_ascii_graphic all_chars) = 94"
  by code_simp

lemma find_glyph_of:
  assumes "font_glyphs font = map (glyph_of rasterize) (filter is_ascii_graphic all_chars)"
  shows "find_glyph font c = (if is_ascii_graphic c then Some (glyph_of rasterize c) else None)"
proof -
  have ascii: "gl_ascii (glyph_of rasterize a) = a" for a by (simp add: glyph_of_def split: prod.splits)
  have "find (\<lambda>g. gl_ascii g = c) (map (glyph_of rasterize) as) = (if c \<in> set as then Some (glyph_of rasterize c) else None)" for as
    by (induction as) (auto simp: ascii)
  with assms char_listed [of c] show ?thesis by (simp add: find_glyph_def)
qed

lemma built_font:
  assumes "metrics_ok rasterize"
  shows "\<exists>e. extents_ok e \<and> (\<forall>c. is_ascii_graphic c \<longrightarrow> within e (glyph_of rasterize c)) \<and>
    build_font rasterize = Some \<lparr>font_width = nat (max_xmax e - min_xmin e), font_height = nat (max_ymax e - min_ymin e),
      font_leftpad = nat (- min_xmin e), font_glyphs = map (glyph_of rasterize) (filter is_ascii_graphic all_chars)\<rparr>"
proof -
  let ?e = "\<lparr>min_xmin = 0, min_ymin = 0, max_xmax = 0, max_ymax = 0\<rparr>"
  have start: "extents_ok ?e" by (simp add: extents_ok_def)
  obtain e where e: "paint_each all_chars (add_glyph rasterize) ([], ?e) =
      Some (map (glyph_of rasterize) (filter is_ascii_graphic all_chars), e)" "extents_ok e"
    "\<forall>g\<in>set (map (glyph_of rasterize) (filter is_ascii_graphic all_chars)). within e g"
    using add_glyphs_ok [OF assms start, of "[]" all_chars] by auto
  have "build_font rasterize = Some \<lparr>font_width = nat (max_xmax e - min_xmin e), font_height = nat (max_ymax e - min_ymin e),
      font_leftpad = nat (- min_xmin e), font_glyphs = map (glyph_of rasterize) (filter is_ascii_graphic all_chars)\<rparr>"
  proof -
    have "max (- min_xmin e) 0 = - min_xmin e" "max (- min_ymin e) 0 = - min_ymin e"
      "max_xmax e - min_xmin e = - min_xmin e + max_xmax e" "max_ymax e - min_ymin e = - min_ymin e + max_ymax e"
      using e(2) by (simp_all add: extents_ok_def)
    with e(2) show ?thesis by (simp add: build_font_def e(1) i32_sub_def i32_add_def i32_ok_def extents_ok_def)
  qed
  with e(2,3) char_listed show ?thesis by auto
qed


text \<open>
  C36: the characters of the generated font never overlap.  From any metrics of moderate size the build
  script makes a font in which the 94 printable characters, and no others, have a glyph, with the
  metrics and the bitmap of that character; the terminal can use it; and there is one offset below the line such that a glyph
  drawn at a cursor only touches the cell of that cursor, of the width and height of the font, so that
  characters at cursors a width or a height apart stay apart.
\<close>

theorem font_cells:
  assumes "metrics_ok rasterize"
  shows "\<exists>font below. build_font rasterize = Some font \<and> length (font_glyphs font) = 94 \<and>
    (0 < font_height font \<longrightarrow> font_ok font) \<and>
    (\<forall>c. find_glyph font c = (if is_ascii_graphic c then Some (glyph_of rasterize c) else None)) \<and>
    (\<forall>c g x y X Y. find_glyph font c = Some g \<longrightarrow> glyph_at font g x y X Y \<noteq> None \<longrightarrow>
       x - int (font_leftpad font) \<le> int X \<and> int X < x - int (font_leftpad font) + int (font_width font) \<and>
       y + below \<le> int Y \<and> int Y < y + below + int (font_height font))"
proof -
  obtain e font where e: "extents_ok e" "\<And>c. is_ascii_graphic c \<Longrightarrow> within e (glyph_of rasterize c)"
    "build_font rasterize = Some font" "font_width font = nat (max_xmax e - min_xmin e)"
    "font_height font = nat (max_ymax e - min_ymin e)" "font_leftpad font = nat (- min_xmin e)"
    "font_glyphs font = map (glyph_of rasterize) (filter is_ascii_graphic all_chars)"
    using built_font [OF assms] by fastforce
  have glyph: "find_glyph font c = (if is_ascii_graphic c then Some (glyph_of rasterize c) else None)" for c
    using find_glyph_of [of font rasterize] e(7) by blast
  have "x - int (font_leftpad font) \<le> int X \<and> int X < x - int (font_leftpad font) + int (font_width font) \<and>
       y - min_ymin e \<le> int Y \<and> int Y < y - min_ymin e + int (font_height font)"
    if g: "find_glyph font c = Some g" "glyph_at font g x y X Y \<noteq> None" for c g x y X Y
  proof -
    have "within e g" using g(1) e(2) by (auto simp: glyph split: if_splits)
    with g(2) e(1) show ?thesis
      by (auto simp: within_def extents_ok_def glyph_at_def e(4,5,6) Let_def split: if_splits)
  qed
  moreover have "font_ok font" if "0 < font_height font"
  proof -
    have "glyph_ok (glyph_of rasterize c)" for c
    proof (cases "rasterize c" rule: prod_cases5)
      case (fields xmin ymin width height bitmap)
      from metrics_okD [OF assms this] show ?thesis by (simp add: glyph_ok_def glyph_of_def fields)
    qed
    with that e(1) show ?thesis by (auto simp: font_ok_def e(4,5,6,7) extents_ok_def)
  qed
  ultimately show ?thesis using e(3,7) glyph graphic_count by (intro exI [of _ font] exI [of _ "- min_ymin e"]) simp
qed

theorem font_cells_witness:
  "\<exists>font. build_font (\<lambda>c. (0, - 4, 1, 2, [c, c])) = Some font \<and> find_glyph font 97 \<noteq> None"
proof -
  have "metrics_ok (\<lambda>c. (0, - 4, 1, 2, [c, c]))" by (simp add: metrics_ok_def)
  from font_cells [OF this] show ?thesis by (auto simp: is_ascii_graphic_def)
qed

end
