(* ===== verification/Terminal_Correct.thy ===== *)
theory Terminal_Correct
  imports Terminal Font_Correct
begin

text \<open>
  The terminal implements a screen: a cursor and a picture, on which each character is drawn at the
  cursor, lines wrap and the picture scrolls.
\<close>

subsection \<open>The screen\<close>

type_synonym screen = "int \<times> int \<times> (nat \<Rightarrow> nat \<Rightarrow> u32)"

definition visible_glyph :: "font \<Rightarrow> u8 \<Rightarrow> glyph option" where
  "visible_glyph font c = (if c = 32 \<or> c = 10 then None else find_glyph font c)"

definition draw_char :: "font \<Rightarrow> u8 \<Rightarrow> int \<Rightarrow> int \<Rightarrow> (nat \<Rightarrow> nat \<Rightarrow> u32) \<Rightarrow> nat \<Rightarrow> nat \<Rightarrow> u32" where
  "draw_char font c x y pic X Y =
     (case visible_glyph font c of
        None \<Rightarrow> pic X Y
      | Some g \<Rightarrow> (case glyph_at font g x y X Y of None \<Rightarrow> pic X Y | Some color \<Rightarrow> bgra 0 color 0 255))"

text \<open>Where the cursor goes before the line is wrapped, and after.\<close>

definition move_pen :: "font \<Rightarrow> nat \<Rightarrow> u8 \<Rightarrow> int \<times> int \<Rightarrow> int \<times> int" where
  "move_pen font w c p = (case p of (x, y) \<Rightarrow>
     let (x, y) = (if c = 10 then (int (font_leftpad font), y + int (font_height font))
                   else if c = 32 \<or> find_glyph font c \<noteq> None then (x + int (font_width font), y) else (x, y)) in
     if int w < x + int (font_width font) then (int (font_leftpad font), y + int (font_height font)) else (x, y))"

definition type_char :: "font \<Rightarrow> nat \<Rightarrow> nat \<Rightarrow> screen \<Rightarrow> u8 \<Rightarrow> screen" where
  "type_char font w h sc c = (case sc of (x, y, pic) \<Rightarrow>
     let (x', y') = move_pen font w c (x, y);
         pic' = (\<lambda>X Y. if X < w \<and> Y < h then draw_char font c x y pic X Y else 0) in
     if int h < y' + int (font_height font)
     then (int (font_leftpad font), y' - int (font_height font),
       (\<lambda>X Y. if X < w \<and> Y < h
          then if Y < h - font_height font then pic' X (Y + font_height font) else bgra 0 0 0 255 else 0))
     else (x', y', pic'))"

text \<open>The screen of a terminal.\<close>

definition screen_of :: "renderer \<Rightarrow> screen" where
  "screen_of r = (pen_x r, pen_y r, (\<lambda>X Y.
     if X < fb_width (term_framebuffer r) \<and> Y < fb_height (term_framebuffer r) then pixel (term_framebuffer r) X Y else 0))"

subsection \<open>Terminals\<close>

definition term_ok :: "font \<Rightarrow> renderer \<Rightarrow> bool" where
  "term_ok font r \<longleftrightarrow>
     (let w = fb_width (term_framebuffer r); h = fb_height (term_framebuffer r) in
      fb_ok (term_framebuffer r) \<and> w < 1000000 \<and> h < 1000000 \<and> window_width r = int w \<and> window_height r = int h \<and>
      font_leftpad font + font_width font \<le> w \<and> font_height font \<le> h \<and>
      0 \<le> pen_x r \<and> pen_x r + int (font_width font) \<le> int w \<and>
      0 \<le> pen_y r \<and> pen_y r + int (font_height font) \<le> int h)"

subsection \<open>Drawing a glyph\<close>

lemma bitmap_index:
  assumes "bx < w" "by < (h :: nat)"
  shows "by * w + bx < w * h"
proof -
  have "Suc by * w \<le> h * w" using assms(2) by (intro mult_le_mono1) simp
  with assms(1) show ?thesis by (simp add: mult.commute)
qed

lemma render_dot_paints:
  assumes font: "font_ok font" and r: "term_ok font r" and g: "find_glyph font c = Some g"
    and dot: "bx < gl_width g" "by < gl_height g"
  shows "paints (term_framebuffer r) (\<lambda>X Y. bgra 0 (the (glyph_at font g (pen_x r) (pen_y r) X Y)) 0 255)
    (render_dot font r g by bx)
    (\<lambda>X Y. int X = pen_x r + int bx + gl_xmin g \<and> int Y = pen_y r + int (font_height font) - int (gl_height g) + int by - gl_ymin g)"
proof -
  note gl = found_glyph [OF font g]
  let ?x = "pen_x r + int bx + gl_xmin g" and ?y = "pen_y r + int (font_height font) - int (gl_height g) + int by - gl_ymin g"
  let ?w = "fb_width (term_framebuffer r)" and ?h = "fb_height (term_framebuffer r)"
  let ?C = "\<lambda>X Y. bgra 0 (the (glyph_at font g (pen_x r) (pen_y r) X Y)) 0 255"
  have size: "\<bar>gl_xmin g\<bar> < 1000000" "\<bar>gl_ymin g\<bar> < 1000000" "gl_width g < 1000000" "gl_height g < 1000000"
    "length (gl_bitmap g) = gl_width g * gl_height g" using gl(1) by (simp_all add: glyph_ok_def)
  have win: "window_width r = int ?w" "window_height r = int ?h" "fb_ok (term_framebuffer r)" "?w < 1000000" "?h < 1000000"
    "0 \<le> pen_x r" "pen_x r \<le> int ?w" "0 \<le> pen_y r" "pen_y r \<le> int ?h"
    using r by (auto simp: term_ok_def Let_def)
  have fh: "font_height font < 1000000" using font by (simp add: font_ok_def)
  have ok: "i32_ok (pen_x r + int bx)" "i32_ok ?x" "i32_ok (pen_y r + int (font_height font))"
    "i32_ok (pen_y r + int (font_height font) - int (gl_height g))"
    "i32_ok (pen_y r + int (font_height font) - int (gl_height g) + int by)" "i32_ok ?y"
    using size win fh dot unfolding i32_ok_def by linarith+
  have index: "by * gl_width g + bx < gl_width g * gl_height g" by (rule bitmap_index [OF dot])
  also have "\<dots> \<le> 1000000 * 1000000" using size by (intro mult_le_mono) simp_all
  finally have "by * gl_width g < usize_end" "by * gl_width g + bx < usize_end" by simp_all
  then have run: "render_dot font r g by bx fb =
      (if 0 \<le> ?x \<and> ?x < int ?w \<and> 0 \<le> ?y \<and> ?y < int ?h
       then set_pixel fb (nat ?x) (nat ?y) 0 (gl_bitmap g ! (by * gl_width g + bx)) 0 255 else Some fb)" for fb
    using ok index size(5) by (simp add: render_dot_def i32_add_def i32_sub_def casts [OF font] gl(2) win(1,2))
  show ?thesis
  proof (cases "0 \<le> ?x \<and> ?x < int ?w \<and> 0 \<le> ?y \<and> ?y < int ?h")
    case True
    then have "?C (nat ?x) (nat ?y) = bgra 0 (gl_bitmap g ! (by * gl_width g + bx)) 0 255"
      using dot by (simp add: glyph_at_def Let_def)
    moreover have "render_dot font r g by bx = (\<lambda>fb. set_pixel fb (nat ?x) (nat ?y) 0 (gl_bitmap g ! (by * gl_width g + bx)) 0 255)"
      using True by (simp only: run fun_eq_iff if_True) simp
    moreover have "nat ?x < ?w" "nat ?y < ?h" using True by linarith+
    ultimately have "paints (term_framebuffer r) ?C (render_dot font r g by bx) (\<lambda>X Y. X = nat ?x \<and> Y = nat ?y)"
      using paints_set_pixel [OF win(3), of "nat ?x" "nat ?y" ?C 0 "gl_bitmap g ! (by * gl_width g + bx)" 0 255]
      by simp
    then show ?thesis by (rule paints_cong) (use True in auto)
  next
    case False
    then have "render_dot font r g by bx = Some" by (simp only: run fun_eq_iff if_False) simp
    then have "paints (term_framebuffer r) ?C (render_dot font r g by bx) (\<lambda>X Y. False)" by (simp add: paints_nothing)
    then show ?thesis by (rule paints_cong) (use False in auto)
  qed
qed

lemma glyph_at_iff:
  "(\<exists>by\<in>set [0..<gl_height g]. \<exists>bx\<in>set [0..<gl_width g]. int X = x + int bx + gl_xmin g \<and>
      int Y = y + int (font_height font) - int (gl_height g) + int by - gl_ymin g) \<longleftrightarrow> glyph_at font g x y X Y \<noteq> None"
proof
  assume "glyph_at font g x y X Y \<noteq> None"
  then have "0 \<le> int X - x - gl_xmin g" "int X - x - gl_xmin g < int (gl_width g)"
    "0 \<le> int Y - y - int (font_height font) + int (gl_height g) + gl_ymin g"
    "int Y - y - int (font_height font) + int (gl_height g) + gl_ymin g < int (gl_height g)"
    by (auto simp: glyph_at_def Let_def split: if_splits)
  then show "\<exists>by\<in>set [0..<gl_height g]. \<exists>bx\<in>set [0..<gl_width g]. int X = x + int bx + gl_xmin g \<and>
      int Y = y + int (font_height font) - int (gl_height g) + int by - gl_ymin g"
    by (intro bexI [of _ "nat (int Y - y - int (font_height font) + int (gl_height g) + gl_ymin g)"]
        bexI [of _ "nat (int X - x - gl_xmin g)"]) auto
qed (auto simp: glyph_at_def Let_def)

lemma render_glyph_pixels:
  assumes font: "font_ok font" and r: "term_ok font r" and g: "find_glyph font c = Some g"
  shows "\<exists>fb. render_glyph font r g = Some (r\<lparr>term_framebuffer := fb\<rparr>) \<and> same_size (term_framebuffer r) fb \<and>
    (\<forall>X<fb_width (term_framebuffer r). \<forall>Y<fb_height (term_framebuffer r).
       pixel fb X Y = (case glyph_at font g (pen_x r) (pen_y r) X Y of
         None \<Rightarrow> pixel (term_framebuffer r) X Y | Some color \<Rightarrow> bgra 0 color 0 255))"
proof -
  have "paints (term_framebuffer r) (\<lambda>X Y. bgra 0 (the (glyph_at font g (pen_x r) (pen_y r) X Y)) 0 255)
    (paint_each [0..<gl_height g] (\<lambda>by. paint_each [0..<gl_width g] (render_dot font r g by)))
    (\<lambda>X Y. \<exists>by\<in>set [0..<gl_height g]. \<exists>bx\<in>set [0..<gl_width g]. int X = pen_x r + int bx + gl_xmin g \<and>
      int Y = pen_y r + int (font_height font) - int (gl_height g) + int by - gl_ymin g)"
    by (intro paints_each render_dot_paints [OF font r g]) simp_all
  then have P: "paints (term_framebuffer r) (\<lambda>X Y. bgra 0 (the (glyph_at font g (pen_x r) (pen_y r) X Y)) 0 255)
    (paint_each [0..<gl_height g] (\<lambda>by. paint_each [0..<gl_width g] (render_dot font r g by)))
    (\<lambda>X Y. glyph_at font g (pen_x r) (pen_y r) X Y \<noteq> None)"
    by (simp only: glyph_at_iff)
  obtain fb where fb:
    "paint_each [0..<gl_height g] (\<lambda>by. paint_each [0..<gl_width g] (render_dot font r g by)) (term_framebuffer r) = Some fb"
    "same_size (term_framebuffer r) fb"
    "\<And>X Y. X < fb_width (term_framebuffer r) \<Longrightarrow> Y < fb_height (term_framebuffer r) \<Longrightarrow>
       pixel fb X Y = (if glyph_at font g (pen_x r) (pen_y r) X Y \<noteq> None
         then bgra 0 (the (glyph_at font g (pen_x r) (pen_y r) X Y)) 0 255 else pixel (term_framebuffer r) X Y)"
    by (rule paintsE [OF P same_size_refl]) (rule that)
  have run: "render_glyph font r g = Some (r\<lparr>term_framebuffer := fb\<rparr>)"
    unfolding render_glyph_def found_glyph(2,3) [OF font g] nat_int fb(1) by simp
  have "pixel fb X Y = (case glyph_at font g (pen_x r) (pen_y r) X Y of
         None \<Rightarrow> pixel (term_framebuffer r) X Y | Some color \<Rightarrow> bgra 0 color 0 255)"
    if "X < fb_width (term_framebuffer r)" "Y < fb_height (term_framebuffer r)" for X Y
    using fb(3) [OF that] by (cases "glyph_at font g (pen_x r) (pen_y r) X Y") simp_all
  with run fb(2) show ?thesis by blast
qed

subsection \<open>Typing a character\<close>

lemma scroll_up_pixels:
  assumes font: "font_ok font" and ok: "fb_ok (term_framebuffer r)" "window_height r = int (fb_height (term_framebuffer r))"
    "font_height font \<le> fb_height (term_framebuffer r)"
  defines "h \<equiv> fb_height (term_framebuffer r)"
  shows "\<exists>fb. scroll_up font r = Some (r\<lparr>term_framebuffer := fb\<rparr>) \<and> same_size (term_framebuffer r) fb \<and>
    (\<forall>X<fb_width (term_framebuffer r). \<forall>Y<h. pixel fb X Y =
       (if Y < h - font_height font then pixel (term_framebuffer r) X (Y + font_height font) else bgra 0 0 0 255))"
proof -
  have h: "isize_as_usize (window_height r) = h"
    using ok(1,2) by (simp add: isize_as_usize_nonneg h_def fb_ok_def)
  have le: "font_height font \<le> h" using ok(3) by (simp add: h_def)
  obtain fb1 where fb1: "shift_rows (term_framebuffer r) (font_height font) 0 (h - font_height font) = Some fb1"
    "same_size (term_framebuffer r) fb1"
    "\<And>X Y. X < fb_width (term_framebuffer r) \<Longrightarrow> Y < h \<Longrightarrow> pixel fb1 X Y =
       (if Y < h - font_height font then pixel (term_framebuffer r) X (Y + font_height font) else pixel (term_framebuffer r) X Y)"
    using shift_rows_pixels [OF ok(1), of "font_height font" "h - font_height font" 0] le by (auto simp: h_def)
  have same: "fb_ok fb1" "fb_height fb1 = h" "fb_width fb1 = fb_width (term_framebuffer r)"
    using fb1(2) ok(1) by (auto simp: same_size_def fb_ok_def h_def)
  obtain fb2 where fb2: "fill_rows fb1 (h - font_height font) h 0 0 0 255 = Some fb2" "same_size fb1 fb2"
    "\<And>X Y. X < fb_width (term_framebuffer r) \<Longrightarrow> Y < h \<Longrightarrow>
       pixel fb2 X Y = (if h - font_height font \<le> Y then bgra 0 0 0 255 else pixel fb1 X Y)"
    using fill_rows_pixels [OF same(1), of "h - font_height font" h 0 0 0 255] same(2,3) by auto
  have run: "scroll_up font r = Some (r\<lparr>term_framebuffer := fb2\<rparr>)"
    using le by (simp add: scroll_up_def h fb1(1) fb2(1))
  have "pixel fb2 X Y = (if Y < h - font_height font then pixel (term_framebuffer r) X (Y + font_height font) else bgra 0 0 0 255)"
    if "X < fb_width (term_framebuffer r)" "Y < h" for X Y
    using fb1(3) [OF that] fb2(3) [OF that] by auto
  with run same_size_trans [OF fb1(2) fb2(2)] show ?thesis by blast
qed

lemma i32_add_int: "0 \<le> x \<Longrightarrow> x < 1000000000 \<Longrightarrow> n < 1000000000 \<Longrightarrow> i32_add x (int n) = Some (x + int n)"
  by (simp add: i32_add_def i32_ok_def)

text \<open>The first half: drawing the character and moving the cursor.\<close>

definition place_char :: "font \<Rightarrow> renderer \<Rightarrow> u8 \<Rightarrow> renderer run" where
  "place_char font r c = do {
     r \<leftarrow> (if c = 32 then advance font r
           else if c = 10 then new_line font r
           else case find_glyph font c of
             Some g \<Rightarrow> do { r \<leftarrow> render_glyph font r g; advance font r }
           | None \<Rightarrow> Some r);
     right \<leftarrow> i32_add (pen_x r) (as_i32 (font_width font));
     if right > window_width r then new_line font r else Some r }"

lemma place_char_ok:
  assumes font: "font_ok font" and r: "term_ok font r"
  defines "w \<equiv> fb_width (term_framebuffer r)" and "h \<equiv> fb_height (term_framebuffer r)"
  shows "\<exists>fb. place_char font r c = Some (r\<lparr>term_framebuffer := fb, pen_x := fst (move_pen font w c (pen_x r, pen_y r)),
      pen_y := snd (move_pen font w c (pen_x r, pen_y r))\<rparr>) \<and> same_size (term_framebuffer r) fb \<and>
    (\<forall>X<w. \<forall>Y<h. pixel fb X Y = draw_char font c (pen_x r) (pen_y r) (pixel (term_framebuffer r)) X Y)"
proof -
  let ?fb = "term_framebuffer r"
  have size: "font_height font < 1000000" "font_width font < 1000000" "font_leftpad font < 1000000" "w < 1000000" "h < 1000000"
    "0 \<le> pen_x r" "pen_x r + int (font_width font) \<le> int w" "0 \<le> pen_y r" "pen_y r + int (font_height font) \<le> int h"
    "window_width r = int w" "font_leftpad font + font_width font \<le> w"
    using font r unfolding font_ok_def term_ok_def Let_def w_def h_def by blast+
  note cast = casts [OF font]
  have adds: "i32_add (pen_x r) (int (font_width font)) = Some (pen_x r + int (font_width font))"
    "i32_add (pen_x r + int (font_width font)) (int (font_width font)) = Some (pen_x r + int (font_width font) + int (font_width font))"
    "i32_add (int (font_leftpad font)) (int (font_width font)) = Some (int (font_leftpad font) + int (font_width font))"
    "i32_add (pen_y r) (int (font_height font)) = Some (pen_y r + int (font_height font))"
    using size by (intro i32_add_int; linarith)+
  have pad: "\<not> int w < int (font_leftpad font) + int (font_width font)" using size(11) by linarith
  have stay: "\<not> int w < pen_x r + int (font_width font)" using size(7) by linarith
  show ?thesis
  proof (cases "visible_glyph font c")
    case None
    then have pic: "draw_char font c (pen_x r) (pen_y r) (pixel ?fb) X Y = pixel ?fb X Y" for X Y by (simp add: draw_char_def)
    have "place_char font r c = Some (r\<lparr>term_framebuffer := ?fb, pen_x := fst (move_pen font w c (pen_x r, pen_y r)),
        pen_y := snd (move_pen font w c (pen_x r, pen_y r))\<rparr>)"
    proof (cases "c = 32")
      case True
      then show ?thesis by (simp add: place_char_def advance_def new_line_def move_pen_def cast adds size(10))
    next
      case False
      with None show ?thesis
        by (cases "c = 10") (simp_all add: place_char_def new_line_def move_pen_def visible_glyph_def cast adds size(10) pad stay)
    qed
    with pic show ?thesis by (intro exI [of _ ?fb]) simp
  next
    case (Some g)
    then have g: "find_glyph font c = Some g" "c \<noteq> 32" "c \<noteq> 10" by (auto simp: visible_glyph_def split: if_splits)
    obtain fb where fb: "render_glyph font r g = Some (r\<lparr>term_framebuffer := fb\<rparr>)" "same_size ?fb fb"
      "\<And>X Y. X < w \<Longrightarrow> Y < h \<Longrightarrow> pixel fb X Y = (case glyph_at font g (pen_x r) (pen_y r) X Y of
         None \<Rightarrow> pixel ?fb X Y | Some color \<Rightarrow> bgra 0 color 0 255)"
      using render_glyph_pixels [OF font r g(1)] unfolding w_def h_def by blast
    have "place_char font r c = Some (r\<lparr>term_framebuffer := fb, pen_x := fst (move_pen font w c (pen_x r, pen_y r)),
        pen_y := snd (move_pen font w c (pen_x r, pen_y r))\<rparr>)"
      using g by (simp add: place_char_def fb(1) advance_def new_line_def move_pen_def cast adds size(10))
    moreover have "pixel fb X Y = draw_char font c (pen_x r) (pen_y r) (pixel ?fb) X Y" if "X < w" "Y < h" for X Y
      using fb(3) [OF that] by (simp add: draw_char_def Some)
    ultimately show ?thesis using fb(2) by blast
  qed
qed

definition finish_char :: "font \<Rightarrow> renderer \<Rightarrow> renderer run" where
  "finish_char font r = do {
     bottom \<leftarrow> i32_add (pen_y r) (as_i32 (font_height font));
     r \<leftarrow> (if bottom > window_height r then do {
             r \<leftarrow> scroll_up font r;
             y \<leftarrow> i32_sub (pen_y r) (as_i32 (font_height font));
             Some (r\<lparr>pen_x := as_i32 (font_leftpad font), pen_y := y\<rparr>) }
           else Some r);
     Some (r\<lparr>window_draws := window_draws r + 1\<rparr>) }"

lemma render_char_split: "render_char font r c = place_char font r c \<bind> finish_char font"
  by (simp add: render_char_def place_char_def finish_char_def [abs_def] bind_assoc cong: option.case_cong)

lemma move_pen_bounds:
  assumes "0 \<le> x" "x + int (font_width font) \<le> int w" "0 \<le> y" "font_leftpad font + font_width font \<le> w" "move_pen font w c (x, y) = (x', y')"
  shows "0 \<le> x'" "x' + int (font_width font) \<le> int w" "y' = y \<or> y' = y + int (font_height font)"
proof -
  have pad: "int (font_leftpad font) + int (font_width font) \<le> int w" using assms(4) by linarith
  consider "c = 10" | "c \<noteq> 10" "c = 32 \<or> find_glyph font c \<noteq> None" | "c \<noteq> 10" "\<not> (c = 32 \<or> find_glyph font c \<noteq> None)" by blast
  then have "0 \<le> x' \<and> x' + int (font_width font) \<le> int w \<and> (y' = y \<or> y' = y + int (font_height font))"
    using assms pad by cases (auto simp: move_pen_def Let_def split: if_splits)
  then show "0 \<le> x'" "x' + int (font_width font) \<le> int w" "y' = y \<or> y' = y + int (font_height font)" by simp_all
qed

lemma render_char_refines:
  assumes font: "font_ok font" and r: "term_ok font r"
  defines "w \<equiv> fb_width (term_framebuffer r)" and "h \<equiv> fb_height (term_framebuffer r)"
  shows "\<exists>r'. render_char font r c = Some r' \<and> term_ok font r' \<and> same_size (term_framebuffer r) (term_framebuffer r') \<and>
    screen_of r' = type_char font w h (screen_of r) c"
proof -
  have size: "fb_ok (term_framebuffer r)" "font_height font < 1000000" "h < 1000000" "w < 1000000" "0 \<le> pen_x r"
    "pen_x r + int (font_width font) \<le> int w" "0 \<le> pen_y r" "pen_y r + int (font_height font) \<le> int h"
    "window_width r = int w" "window_height r = int h" "font_leftpad font + font_width font \<le> w" "font_height font \<le> h"
    using font r unfolding font_ok_def term_ok_def Let_def w_def h_def by blast+
  note cast = casts [OF font]
  obtain x y where pen: "move_pen font w c (pen_x r, pen_y r) = (x, y)" by (cases "move_pen font w c (pen_x r, pen_y r)")
  note b' = move_pen_bounds [OF size(5,6,7,11) pen]
  then have b: "0 \<le> x" "x + int (font_width font) \<le> int w" "pen_y r \<le> y" "y \<le> pen_y r + int (font_height font)" by auto
  obtain fb where placed: "place_char font r c = Some (r\<lparr>term_framebuffer := fb, pen_x := x, pen_y := y\<rparr>)"
    "same_size (term_framebuffer r) fb"
    "\<And>X Y. X < w \<Longrightarrow> Y < h \<Longrightarrow> pixel fb X Y = draw_char font c (pen_x r) (pen_y r) (pixel (term_framebuffer r)) X Y"
    using place_char_ok [OF font r, of c, folded w_def h_def] unfolding pen fst_conv snd_conv by blast
  let ?r1 = "r\<lparr>term_framebuffer := fb, pen_x := x, pen_y := y\<rparr>"
  have fb: "fb_ok fb" "fb_width fb = w" "fb_height fb = h"
    using placed(2) size(1) by (auto simp: same_size_def fb_ok_def w_def h_def)
  have pic: "draw_char font c (pen_x r) (pen_y r) (\<lambda>X Y. if X < w \<and> Y < h then pixel (term_framebuffer r) X Y else 0) X Y
      = pixel fb X Y" if "X < w" "Y < h" for X Y
    using placed(3) [OF that] that by (simp add: draw_char_def split: option.splits)
  have bottom: "i32_add y (int (font_height font)) = Some (y + int (font_height font))"
    using b size by (intro i32_add_int) linarith+
  show ?thesis
  proof (cases "int h < y + int (font_height font)")
    case False
    let ?r2 = "?r1\<lparr>window_draws := window_draws r + 1\<rparr>"
    have "render_char font r c = Some ?r2"
      using False bottom by (simp add: render_char_split placed(1) finish_char_def cast size(10))
    moreover have "term_ok font ?r2" using False b size fb by (simp add: term_ok_def Let_def)
    moreover have "screen_of ?r2 = type_char font w h (screen_of r) c"
      using False pic by (auto simp: screen_of_def type_char_def pen fb w_def [symmetric] h_def [symmetric] fun_eq_iff Let_def)
    ultimately show ?thesis using placed(2) by (intro exI [of _ ?r2]) simp
  next
    case True
    obtain fb2 where fb2: "scroll_up font ?r1 = Some (?r1\<lparr>term_framebuffer := fb2\<rparr>)" "same_size fb fb2"
      "\<And>X Y. X < w \<Longrightarrow> Y < h \<Longrightarrow> pixel fb2 X Y =
         (if Y < h - font_height font then pixel fb X (Y + font_height font) else bgra 0 0 0 255)"
      using scroll_up_pixels [OF font, of ?r1] fb size(10,12) by auto
    have up: "i32_sub y (int (font_height font)) = Some (y - int (font_height font))"
      using b size unfolding i32_sub_def i32_ok_def by (simp add: algebra_simps)
    let ?r2 = "r\<lparr>term_framebuffer := fb2, pen_x := int (font_leftpad font), pen_y := y - int (font_height font),
      window_draws := window_draws r + 1\<rparr>"
    have run: "render_char font r c = Some ?r2"
      using True bottom up fb2(1) by (simp add: render_char_split placed(1) finish_char_def cast size(10))
    have same: "fb_ok fb2" "fb_width fb2 = w" "fb_height fb2 = h" using fb2(2) fb by (auto simp: same_size_def fb_ok_def)
    have "y = pen_y r + int (font_height font)" using True b'(3) size(8) by linarith
    then have ok: "term_ok font ?r2" using True b size same by (simp add: term_ok_def Let_def)
    have "(if X < w \<and> Y < h then pixel fb2 X Y else 0) =
      (if X < w \<and> Y < h then if Y < h - font_height font
         then (if X < w \<and> Y + font_height font < h
               then draw_char font c (pen_x r) (pen_y r) (\<lambda>X Y. if X < w \<and> Y < h then pixel (term_framebuffer r) X Y else 0) X (Y + font_height font)
               else 0)
         else bgra 0 0 0 255 else 0)" for X Y
      using fb2(3) [of X Y] pic [of X "Y + font_height font"] by auto
    note pic2 = this
    have "screen_of ?r2 = type_char font w h (screen_of r) c"
      using True by (simp add: screen_of_def type_char_def pen same w_def [symmetric] h_def [symmetric] Let_def pic2 split del: if_split cong: if_cong)
    with run ok same_size_trans [OF placed(2) fb2(2)] show ?thesis by (intro exI [of _ ?r2]) simp
  qed
qed

subsection \<open>Typing text\<close>

lemma text_refines:
  assumes "font_ok font" "term_ok font r"
  shows "\<exists>r'. paint_each cs (\<lambda>c r. putchar font r c) r = Some r' \<and> term_ok font r' \<and>
    screen_of r' = foldl (type_char font (fb_width (term_framebuffer r)) (fb_height (term_framebuffer r))) (screen_of r) cs"
  using assms(2)
proof (induction cs arbitrary: r)
  case (Cons c cs)
  obtain r1 where r1: "render_char font r c = Some r1" "term_ok font r1" "same_size (term_framebuffer r) (term_framebuffer r1)"
    "screen_of r1 = type_char font (fb_width (term_framebuffer r)) (fb_height (term_framebuffer r)) (screen_of r) c"
    using render_char_refines [OF assms(1) Cons.prems] by blast
  from Cons.IH [OF r1(2)] r1(3) show ?case
    by (simp add: putchar_def [abs_def] r1(1,4) same_size_def)
qed simp

text \<open>
  C34: the terminal is a screen of text.  From its start, with any font of moderate size that fits the
  window, it writes any text without a panic, and what its window then shows, and where its cursor is,
  is what typing the text on the abstract screen gives: every character is drawn at the cursor over
  what was there, lines wrap before they leave the window, and the picture scrolls up by one line, with
  a black line below, whenever the cursor would leave it.
\<close>

theorem terminal_is_screen:
  assumes "font_ok font" "font_leftpad font + font_width font \<le> 400" "font_height font \<le> 300" "120000 \<le> length memory"
  shows "\<exists>r. paint_each cs (\<lambda>c r. putchar font r c) (terminal_main font memory) = Some r \<and>
    screen_of r = foldl (type_char font 400 300)
      (int (font_leftpad font), 0, (\<lambda>X Y. if X < 400 \<and> Y < 300 then bgra 0 0 0 255 else 0)) cs"
proof -
  let ?r = "terminal_main font memory"
  have fb: "term_framebuffer ?r = \<lparr>fb_pixels = replicate (length memory) (bgra 0 0 0 255), fb_width = 400, fb_height = 300\<rparr>"
    by (simp add: terminal_main_def clear_screen_def fb_fill_def fb_map_def)
  have "term_ok font ?r"
    using assms unfolding term_ok_def Let_def fb
    by (simp add: terminal_main_def clear_screen_def casts [OF assms(1)] fb_ok_def)
  from text_refines [OF assms(1) this, of cs] obtain r where
    "paint_each cs (\<lambda>c r. putchar font r c) ?r = Some r" "screen_of r = foldl (type_char font 400 300) (screen_of ?r) cs"
    by (auto simp: fb)
  moreover have "screen_of ?r = (int (font_leftpad font), 0, (\<lambda>X Y. if X < 400 \<and> Y < 300 then bgra 0 0 0 255 else 0))"
  proof -
    have pen: "pen_x ?r = int (font_leftpad font)" "pen_y ?r = 0"
      by (simp_all add: terminal_main_def clear_screen_def casts [OF assms(1)])
    have "Y * 400 + X < length memory" if "X < 400" "Y < 300" for X Y using assms(4) that by linarith
    then show ?thesis by (simp add: screen_of_def fb pen pixel_def fun_eq_iff)
  qed
  ultimately show ?thesis by auto
qed

definition demo_font :: font where
  "demo_font = \<lparr>font_width = 200, font_height = 150, font_leftpad = 1,
     font_glyphs = [\<lparr>gl_ascii = 97, gl_xmin = 0, gl_ymin = 0, gl_width = 1, gl_height = 1, gl_bitmap = [9]\<rparr>]\<rparr>"

theorem terminal_is_screen_witness:
  "\<exists>r. paint_each [97] (\<lambda>c r. putchar demo_font r c) (terminal_main demo_font (replicate 120000 0)) = Some r \<and>
     pixel (term_framebuffer r) 1 149 = bgra 0 9 0 255"
proof -
  have "font_ok demo_font" by (simp add: font_ok_def demo_font_def glyph_ok_def)
  from terminal_is_screen [OF this, of "replicate 120000 0" "[97]"] obtain r where
    r: "paint_each [97] (\<lambda>c r. putchar demo_font r c) (terminal_main demo_font (replicate 120000 0)) = Some r"
    "screen_of r = type_char demo_font 400 300 (1, 0, (\<lambda>X Y. if X < 400 \<and> Y < 300 then bgra 0 0 0 255 else 0)) 97"
    by (auto simp: demo_font_def)
  have "snd (snd (screen_of r)) 1 149 = bgra 0 9 0 255"
    unfolding r(2)
    by (simp add: type_char_def move_pen_def demo_font_def find_glyph_def Let_def draw_char_def visible_glyph_def glyph_at_def)
  moreover have "bgra 0 9 0 255 \<noteq> 0" by (simp add: bgra_def)
  ultimately have "pixel (term_framebuffer r) 1 149 = bgra 0 9 0 255" by (auto simp: screen_of_def split: if_splits)
  with r(1) show ?thesis by blast
qed

text \<open>
  A glyph that reaches below the line is drawn below its cell, so on the last line of the window it is
  cut off: here a character of which nothing shows.
\<close>

lemma descender_cut:
  assumes "gl_xmin g = 0" "gl_ymin g = - 4" "gl_width g = 1" "gl_height g = 2" "font_height font = 4"
    "pen_x r = 0" "pen_y r = 296" "window_height r = 300"
  shows "render_glyph font r g = Some r"
proof -
  have "render_dot font r g 0 0 fb = Some fb" "render_dot font r g 1 0 fb = Some fb" for fb
    by (simp_all add: render_dot_def assms i32_add_def i32_sub_def i32_ok_def as_i32_small)
  then show ?thesis by (simp add: render_glyph_def assms as_i32_small upt_rec)
qed

end
