(* ===== verification/Gpu.thy ===== *)
theory Gpu
  imports Virtio Kernel_State
begin

text \<open>
  The driver of displays (\<open>kernel/src/virtio/gpu.rs\<close>, \<open>kernel/src/virtio/gpu/types.rs\<close>): the layout
  of its commands, the set-up of the display and of the cursor, and the server of the \<open>display\<close>
  interface.

  The device has two queues, and with it two functions that say what it does with their chains.  The
  index of the used ring in the world is that of the control queue; that of the cursor queue is kept
  beside the cursor queue.
\<close>

subsection \<open>Structures of the device\<close>

datatype ctrl_type =
    CmdGetDisplayInfo | CmdResourceCreate2D | CmdResourceUnref | CmdSetScanout
  | CmdResourceFlush | CmdTransferToHost2D | CmdResourceAttachBacking | CmdResourceDetachBacking
  | CmdGetCapsetInfo | CmdGetCapset | CmdGetEdid | CmdResourceAssignUuid
  | CmdResourceCreateBlob | CmdSetScanoutBlob | CmdCtxCreate | CmdCtxDestroy
  | CmdCtxAttachResource | CmdCtxDetachResource | CmdResourceCreate3D | CmdTransferToHost3D
  | CmdTransferFromHost3D | CmdSubmit3D | CmdResourceMapBlob | CmdResourceUnmapBlob
  | CmdUpdateCursor | CmdMoveCursor | RespOkNodata | RespOkDisplayInfo
  | RespOkCapsetInfo | RespOkCapset | RespOkEdid | RespOkResourceUuid
  | RespOkMapInfo | RespErrUnspec | RespErrOutOfMemory | RespErrInvalidScanoutId
  | RespErrInvalidResourceId | RespErrInvalidContextId | RespErrInvalidParameter

primrec ctrl_code :: "ctrl_type \<Rightarrow> u32" where
  "ctrl_code CmdGetDisplayInfo = 0x0100"
| "ctrl_code CmdResourceCreate2D = 0x0101"
| "ctrl_code CmdResourceUnref = 0x0102"
| "ctrl_code CmdSetScanout = 0x0103"
| "ctrl_code CmdResourceFlush = 0x0104"
| "ctrl_code CmdTransferToHost2D = 0x0105"
| "ctrl_code CmdResourceAttachBacking = 0x0106"
| "ctrl_code CmdResourceDetachBacking = 0x0107"
| "ctrl_code CmdGetCapsetInfo = 0x0108"
| "ctrl_code CmdGetCapset = 0x0109"
| "ctrl_code CmdGetEdid = 0x010a"
| "ctrl_code CmdResourceAssignUuid = 0x010b"
| "ctrl_code CmdResourceCreateBlob = 0x010c"
| "ctrl_code CmdSetScanoutBlob = 0x010d"
| "ctrl_code CmdCtxCreate = 0x0200"
| "ctrl_code CmdCtxDestroy = 0x0201"
| "ctrl_code CmdCtxAttachResource = 0x0202"
| "ctrl_code CmdCtxDetachResource = 0x0203"
| "ctrl_code CmdResourceCreate3D = 0x0204"
| "ctrl_code CmdTransferToHost3D = 0x0205"
| "ctrl_code CmdTransferFromHost3D = 0x0206"
| "ctrl_code CmdSubmit3D = 0x0207"
| "ctrl_code CmdResourceMapBlob = 0x0208"
| "ctrl_code CmdResourceUnmapBlob = 0x0209"
| "ctrl_code CmdUpdateCursor = 0x0300"
| "ctrl_code CmdMoveCursor = 0x0301"
| "ctrl_code RespOkNodata = 0x1100"
| "ctrl_code RespOkDisplayInfo = 0x1101"
| "ctrl_code RespOkCapsetInfo = 0x1102"
| "ctrl_code RespOkCapset = 0x1103"
| "ctrl_code RespOkEdid = 0x1104"
| "ctrl_code RespOkResourceUuid = 0x1105"
| "ctrl_code RespOkMapInfo = 0x1106"
| "ctrl_code RespErrUnspec = 0x1200"
| "ctrl_code RespErrOutOfMemory = 0x1201"
| "ctrl_code RespErrInvalidScanoutId = 0x1202"
| "ctrl_code RespErrInvalidResourceId = 0x1203"
| "ctrl_code RespErrInvalidContextId = 0x1204"
| "ctrl_code RespErrInvalidParameter = 0x1205"

datatype gpu_error = ErrUnspec | ErrOutOfMemory | ErrInvalidScanoutId | ErrInvalidResourceId | ErrInvalidContextId | ErrInvalidParameter

text \<open>\<open>transmute\<close> to the enumeration of errors, which is undefined for other codes.\<close>

definition error_of_code :: "u32 \<Rightarrow> gpu_error option" where
  "error_of_code code = map_of [(0x1200, ErrUnspec), (0x1201, ErrOutOfMemory), (0x1202, ErrInvalidScanoutId), (0x1203, ErrInvalidResourceId), (0x1204, ErrInvalidContextId), (0x1205, ErrInvalidParameter)] code"

definition B8G8R8A8Unorm :: u32 where "B8G8R8A8Unorm = 1"

definition EVENT_DISPLAY :: u32 where "EVENT_DISPLAY = 1"

definition FLAG_FENCE :: u32 where "FLAG_FENCE = 1"

definition MAX_SCANOUTS :: usize where "MAX_SCANOUTS = 16"

text \<open>Structures are the bytes of their fields, in order; the fields \<open>padding\<close> are zero.\<close>

definition u32_bytes :: "u32 \<Rightarrow> u8 list" where
  "u32_bytes w = nat_bytes 4 (unat w)"

definition u64_bytes :: "nat \<Rightarrow> u8 list" where
  "u64_bytes n = nat_bytes 8 n"

record ctrl_hdr =
  hdr_type :: u32
  hdr_flags :: u32
  hdr_fence_id :: nat
  hdr_ctx_id :: u32
  hdr_ring_idx :: u8

definition ctrl_hdr_bytes :: "ctrl_hdr \<Rightarrow> u8 list" where
  "ctrl_hdr_bytes h = u32_bytes (hdr_type h) @ u32_bytes (hdr_flags h) @ u64_bytes (hdr_fence_id h) @
     u32_bytes (hdr_ctx_id h) @ [hdr_ring_idx h] @ [0, 0, 0]"

definition ctrl_header :: "ctrl_type \<Rightarrow> ctrl_hdr" where
  "ctrl_header t = \<lparr>hdr_type = ctrl_code t, hdr_flags = 0, hdr_fence_id = 0, hdr_ctx_id = 0, hdr_ring_idx = 0\<rparr>"

record rect =
  rect_x :: u32
  rect_y :: u32
  rect_width :: u32
  rect_height :: u32

definition rect_bytes :: "rect \<Rightarrow> u8 list" where
  "rect_bytes r = u32_bytes (rect_x r) @ u32_bytes (rect_y r) @ u32_bytes (rect_width r) @ u32_bytes (rect_height r)"

record cursor_pos =
  cp_scanout_id :: u32
  cp_x :: u32
  cp_y :: u32

definition cursor_pos_bytes :: "cursor_pos \<Rightarrow> u8 list" where
  "cursor_pos_bytes p = u32_bytes (cp_scanout_id p) @ u32_bytes (cp_x p) @ u32_bytes (cp_y p) @ u32_bytes 0"

definition mem_entry_bytes :: "usize \<Rightarrow> u32 \<Rightarrow> u8 list" where
  "mem_entry_bytes addr len = u64_bytes addr @ u32_bytes len @ u32_bytes 0"

definition resource_create_2d_bytes :: "ctrl_hdr \<Rightarrow> u32 \<Rightarrow> u32 \<Rightarrow> u32 \<Rightarrow> u32 \<Rightarrow> u8 list" where
  "resource_create_2d_bytes hdr resource_id format width height =
     ctrl_hdr_bytes hdr @ u32_bytes resource_id @ u32_bytes format @ u32_bytes width @ u32_bytes height"

definition resource_attach_backing_bytes :: "ctrl_hdr \<Rightarrow> u32 \<Rightarrow> u32 \<Rightarrow> u8 list" where
  "resource_attach_backing_bytes hdr resource_id nr_entries =
     ctrl_hdr_bytes hdr @ u32_bytes resource_id @ u32_bytes nr_entries"

definition set_scanout_bytes :: "ctrl_hdr \<Rightarrow> rect \<Rightarrow> u32 \<Rightarrow> u32 \<Rightarrow> u8 list" where
  "set_scanout_bytes hdr r scanout_id resource_id =
     ctrl_hdr_bytes hdr @ rect_bytes r @ u32_bytes scanout_id @ u32_bytes resource_id"

definition transfer_to_host_2d_bytes :: "ctrl_hdr \<Rightarrow> rect \<Rightarrow> nat \<Rightarrow> u32 \<Rightarrow> u8 list" where
  "transfer_to_host_2d_bytes hdr r offset resource_id =
     ctrl_hdr_bytes hdr @ rect_bytes r @ u64_bytes offset @ u32_bytes resource_id @ u32_bytes 0"

definition resource_flush_bytes :: "ctrl_hdr \<Rightarrow> rect \<Rightarrow> u32 \<Rightarrow> u8 list" where
  "resource_flush_bytes hdr r resource_id = ctrl_hdr_bytes hdr @ rect_bytes r @ u32_bytes resource_id @ u32_bytes 0"

definition update_cursor_bytes :: "ctrl_hdr \<Rightarrow> cursor_pos \<Rightarrow> u32 \<Rightarrow> u32 \<Rightarrow> u32 \<Rightarrow> u8 list" where
  "update_cursor_bytes hdr pos resource_id hot_x hot_y =
     ctrl_hdr_bytes hdr @ cursor_pos_bytes pos @ u32_bytes resource_id @ u32_bytes hot_x @ u32_bytes hot_y @ u32_bytes 0"

text \<open>The sizes of the two responses, and the fields of the first display mode.\<close>

definition response_size :: "ctrl_type \<Rightarrow> nat" where
  "response_size t = (if t = RespOkDisplayInfo then 24 + MAX_SCANOUTS * 24 else 24)"

definition u32_field :: "nat \<Rightarrow> u8 list \<Rightarrow> u32" where
  "u32_field offset bytes = word_of_nat (field offset 4 bytes)"

definition display_rect :: "u8 list \<Rightarrow> rect" where
  "display_rect resp = \<lparr>rect_x = u32_field 24 resp, rect_y = u32_field 28 resp,
     rect_width = u32_field 32 resp, rect_height = u32_field 36 resp\<rparr>"

definition display_enabled :: "u8 list \<Rightarrow> u32" where
  "display_enabled resp = u32_field 40 resp"

subsection \<open>The driver\<close>

record virtio_gpu =
  gpu_controlq :: queue
  gpu_cursorq :: queue
  gpu_cursor_used :: u16
  gpu_width :: u32
  gpu_height :: u32
  gpu_framebuffer :: "untyped_box option"
  gpu_cursor_image :: untyped_box
  gpu_cursor_updated :: bool

text \<open>Where the parts of a command are on the stack.\<close>

record gpu_frame =
  gf_request :: usize
  gf_entry :: usize
  gf_response :: usize

definition gpu_command ::
    "'d device \<Rightarrow> gpu_frame \<Rightarrow> ctrl_type \<Rightarrow> nat \<Rightarrow> queue \<Rightarrow> 'd world \<Rightarrow> ((gpu_error + u8 list) \<times> queue \<times> 'd world) run" where
  "gpu_command serve f type input_descriptors q w = do {
     w \<leftarrow> put_object (gf_response f) (replicate (response_size type) 0) w;
     q \<leftarrow> descriptor_writeonly (word_of_nat input_descriptors) (gf_response f) (response_size type) None q;
     (q, w) \<leftarrow> send_and_recv serve 0 q w;
     response \<leftarrow> get_object (gf_response f) (response_size type) w;
     let code = u32_field 0 response;
     if code AND 0xFF00 = 0x1200
     then do { e \<leftarrow> error_of_code code; Some (Inl e, q, w) }
     else do { ensure (code = ctrl_code type); Some (Inr response, q, w) } }"

text \<open>A command with one request and no data in the response, unwrapped.\<close>

definition submit :: "'d device \<Rightarrow> gpu_frame \<Rightarrow> u8 list \<Rightarrow> queue \<Rightarrow> 'd world \<Rightarrow> (queue \<times> 'd world) run" where
  "submit serve f req q w = do {
     w \<leftarrow> put_object (gf_request f) req w;
     q \<leftarrow> descriptor_readonly 0 (gf_request f) (length req) (Some 1) q;
     (r, q, w) \<leftarrow> gpu_command serve f RespOkNodata 1 q w;
     case r of Inl _ \<Rightarrow> None | Inr _ \<Rightarrow> Some (q, w) }"

text \<open>A command with a request and one entry of memory.\<close>

definition submit_backing ::
    "'d device \<Rightarrow> gpu_frame \<Rightarrow> u8 list \<Rightarrow> u8 list \<Rightarrow> queue \<Rightarrow> 'd world \<Rightarrow> (queue \<times> 'd world) run" where
  "submit_backing serve f req mem_entry q w = do {
     w \<leftarrow> put_object (gf_request f) req w;
     w \<leftarrow> put_object (gf_entry f) mem_entry w;
     q \<leftarrow> descriptor_readonly 0 (gf_request f) (length req) (Some 1) q;
     q \<leftarrow> descriptor_readonly 1 (gf_entry f) (length mem_entry) (Some 2) q;
     (r, q, w) \<leftarrow> gpu_command serve f RespOkNodata 2 q w;
     case r of Inl _ \<Rightarrow> None | Inr _ \<Rightarrow> Some (q, w) }"

definition get_resolution :: "'d device \<Rightarrow> gpu_frame \<Rightarrow> queue \<Rightarrow> 'd world \<Rightarrow> (u32 \<times> u32 \<times> queue \<times> 'd world) run" where
  "get_resolution serve f q w = do {
     let req = ctrl_hdr_bytes (ctrl_header CmdGetDisplayInfo);
     w \<leftarrow> put_object (gf_request f) req w;
     q \<leftarrow> descriptor_readonly 0 (gf_request f) (length req) (Some 1) q;
     (r, q, w) \<leftarrow> gpu_command serve f RespOkDisplayInfo 1 q w;
     case r of
       Inl _ \<Rightarrow> None
     | Inr resp \<Rightarrow> do {
         ensure (display_enabled resp = 1);
         let r = display_rect resp;
         ensure (rect_x r = 0);
         ensure (rect_y r = 0);
         Some (rect_width r, rect_height r, q, w) } }"

text \<open>A zeroed boxed slice in pages, at an address that the heap gave.\<close>

definition zeroed_box :: "usize \<Rightarrow> nat \<Rightarrow> 'd world \<Rightarrow> (untyped_box \<times> 'd world) run" where
  "zeroed_box at n w = do {
     w \<leftarrow> put_object at (replicate n 0) w;
     Some (\<lparr>ub_ptr = at, ub_layout = \<lparr>lay_size = n, lay_align = 1\<rparr>\<rparr>, w) }"

definition create_resource ::
    "'d device \<Rightarrow> (nat \<Rightarrow> gpu_frame) \<Rightarrow> u32 \<Rightarrow> u32 \<Rightarrow> u32 \<Rightarrow> usize \<Rightarrow> u32 \<Rightarrow> queue \<Rightarrow> 'd world \<Rightarrow> (queue \<times> 'd world) run" where
  "create_resource serve f resource_id width height ptr len q w = do {
     (q, w) \<leftarrow> submit serve (f 0)
       (resource_create_2d_bytes (ctrl_header CmdResourceCreate2D) resource_id B8G8R8A8Unorm width height) q w;
     addr \<leftarrow> virt_to_phys ptr;
     submit_backing serve (f 1)
       (resource_attach_backing_bytes (ctrl_header CmdResourceAttachBacking) resource_id 1) (mem_entry_bytes addr len) q w }"

definition initialize_cursor_memory ::
    "'d device \<Rightarrow> (nat \<Rightarrow> gpu_frame) \<Rightarrow> virtio_gpu \<Rightarrow> 'd world \<Rightarrow> (virtio_gpu \<times> 'd world) run" where
  "initialize_cursor_memory serve f gpu w = do {
     (q, w) \<leftarrow> create_resource serve f 2 64 64 (ub_ptr (gpu_cursor_image gpu)) (64 * 64 * 4) (gpu_controlq gpu) w;
     Some (gpu\<lparr>gpu_controlq := q\<rparr>, w) }"

text \<open>
  \<open>VirtioGpu::new\<close>, with the addresses of the parts of both queues and of the memory of the cursor
  and of the picture.
\<close>

definition gpu_new ::
    "'d device \<Rightarrow> (nat \<Rightarrow> gpu_frame) \<Rightarrow> (nat \<Rightarrow> usize \<times> usize \<times> usize) \<Rightarrow> usize \<Rightarrow> usize \<Rightarrow> virtio_common \<Rightarrow> 'd world \<Rightarrow>
     (virtio_gpu \<times> virtio_common \<times> 'd world) run" where
  "gpu_new serve f queue_at cursor_at framebuffer_at common w = do {
     let common = common\<lparr>vr_device_status := 0\<rparr>;
     let common = common\<lparr>vr_device_status := vr_device_status common OR 1\<rparr>;
     let common = common\<lparr>vr_device_status := vr_device_status common OR 2\<rparr>;
     (controlq, common) \<leftarrow> (case queue_at 0 of (d, a, u) \<Rightarrow> queue_new 0 common 4 d a u);
     (cursorq, common) \<leftarrow> (case queue_at 1 of (d, a, u) \<Rightarrow> queue_new 1 common 4 d a u);
     let common = common\<lparr>vr_device_status := vr_device_status common OR 4\<rparr>;
     (cursor_image, w) \<leftarrow> zeroed_box cursor_at (64 * 64 * 4) w;
     (width, height, controlq, w) \<leftarrow> get_resolution serve (f 0) controlq w;
     n \<leftarrow> umul (unat width) (unat height);
     n \<leftarrow> umul n 4;
     (framebuffer, w) \<leftarrow> zeroed_box framebuffer_at n w;
     (controlq, w) \<leftarrow> create_resource serve (\<lambda>i. f (1 + i)) 1 width height (ub_ptr framebuffer)
       (word_of_nat (byte_size framebuffer)) controlq w;
     (controlq, w) \<leftarrow> submit serve (f 3) (set_scanout_bytes (ctrl_header CmdSetScanout)
       \<lparr>rect_x = 0, rect_y = 0, rect_width = width, rect_height = height\<rparr> 0 1) controlq w;
     (gpu, w) \<leftarrow> initialize_cursor_memory serve (\<lambda>i. f (4 + i))
       \<lparr>gpu_controlq = controlq, gpu_cursorq = cursorq, gpu_cursor_used = 0, gpu_width = width, gpu_height = height,
        gpu_framebuffer = Some framebuffer, gpu_cursor_image = cursor_image, gpu_cursor_updated = True\<rparr> w;
     Some (gpu, common, w) }"

text \<open>
  The handler of interrupts, with the values of the registers it reads; it returns what it writes to
  the register that clears events.
\<close>

definition has_device_configuration_interrupt :: "u8 \<Rightarrow> bool" where
  "has_device_configuration_interrupt isr \<longleftrightarrow> isr AND 2 \<noteq> 0"

definition gpu_handle ::
    "'d device \<Rightarrow> gpu_frame \<Rightarrow> u8 \<Rightarrow> u32 \<Rightarrow> virtio_gpu mutex \<Rightarrow> 'd world \<Rightarrow>
     (u32 option \<times> virtio_gpu mutex \<times> 'd world) run" where
  "gpu_handle serve f isr events_read gpu w = do {
     (m, g) \<leftarrow> mutex_lock gpu;
     if has_device_configuration_interrupt isr \<and> events_read AND EVENT_DISPLAY \<noteq> 0 then do {
       (width, height, q, w) \<leftarrow> get_resolution serve f (gpu_controlq g) w;
       Some (Some EVENT_DISPLAY, mutex_unlock m (g\<lparr>gpu_controlq := q\<rparr>), w) }
     else Some (None, mutex_unlock m g, w) }"

subsection \<open>The server of displays\<close>

definition display_width :: "virtio_gpu mutex \<Rightarrow> u32 run" where
  "display_width gpu = do { (m, g) \<leftarrow> mutex_lock gpu; Some (gpu_width g) }"

definition display_height :: "virtio_gpu mutex \<Rightarrow> u32 run" where
  "display_height gpu = do { (m, g) \<leftarrow> mutex_lock gpu; Some (gpu_height g) }"

definition display_framebuffer :: "process_id \<Rightarrow> virtio_gpu mutex \<Rightarrow> 'h store \<Rightarrow> ('h store \<times> raw_capability) run" where
  "display_framebuffer sender gpu st = do {
     (m, g) \<leftarrow> mutex_lock gpu;
     b \<leftarrow> gpu_framebuffer g;
     store_grant st sender (HShared b) }"

definition display_cursor_image_buffer :: "process_id \<Rightarrow> virtio_gpu mutex \<Rightarrow> 'h store \<Rightarrow> ('h store \<times> raw_capability) run" where
  "display_cursor_image_buffer sender gpu st = do {
     (m, g) \<leftarrow> mutex_lock gpu;
     store_grant st sender (HShared (gpu_cursor_image g)) }"

definition display_draw ::
    "'d device \<Rightarrow> (nat \<Rightarrow> gpu_frame) \<Rightarrow> virtio_gpu mutex \<Rightarrow> 'd world \<Rightarrow> (virtio_gpu mutex \<times> 'd world) run" where
  "display_draw serve f gpu w = do {
     (m, g) \<leftarrow> mutex_lock gpu;
     let r = \<lparr>rect_x = 0, rect_y = 0, rect_width = gpu_width g, rect_height = gpu_height g\<rparr>;
     (q, w) \<leftarrow> submit serve (f 0) (transfer_to_host_2d_bytes (ctrl_header CmdTransferToHost2D) r 0 1) (gpu_controlq g) w;
     (q, w) \<leftarrow> submit serve (f 1) (resource_flush_bytes (ctrl_header CmdResourceFlush) r 1) q w;
     Some (mutex_unlock m (g\<lparr>gpu_controlq := q\<rparr>), w) }"

definition display_cursor_image_modified ::
    "'d device \<Rightarrow> gpu_frame \<Rightarrow> virtio_gpu mutex \<Rightarrow> 'd world \<Rightarrow> (virtio_gpu mutex \<times> 'd world) run" where
  "display_cursor_image_modified serve f gpu w = do {
     (m, g) \<leftarrow> mutex_lock gpu;
     (q, w) \<leftarrow> submit serve f
       (transfer_to_host_2d_bytes ((ctrl_header CmdTransferToHost2D)\<lparr>hdr_flags := FLAG_FENCE\<rparr>)
          \<lparr>rect_x = 0, rect_y = 0, rect_width = 64, rect_height = 64\<rparr> 0 2) (gpu_controlq g) w;
     Some (mutex_unlock m (g\<lparr>gpu_controlq := q, gpu_cursor_updated := True\<rparr>), w) }"

definition display_update_cursor ::
    "'d device \<Rightarrow> gpu_frame \<Rightarrow> u32 \<Rightarrow> u32 \<Rightarrow> virtio_gpu mutex \<Rightarrow> 'd world \<Rightarrow> (virtio_gpu mutex \<times> 'd world) run" where
  "display_update_cursor serve f x y gpu w = do {
     (m, g) \<leftarrow> mutex_lock gpu;
     let (type, g) = (if gpu_cursor_updated g then (CmdUpdateCursor, g\<lparr>gpu_cursor_updated := False\<rparr>)
                      else (CmdMoveCursor, g));
     let req = update_cursor_bytes (ctrl_header type) \<lparr>cp_scanout_id = 0, cp_x = x, cp_y = y\<rparr> 2 0 0;
     w \<leftarrow> put_object (gf_request f) req w;
     q \<leftarrow> descriptor_readonly 0 (gf_request f) (length req) None (gpu_cursorq g);
     (q, w') \<leftarrow> send_and_recv serve 0 q (w\<lparr>w_used := gpu_cursor_used g\<rparr>);
     Some (mutex_unlock m (g\<lparr>gpu_cursorq := q, gpu_cursor_used := w_used w'\<rparr>), w'\<lparr>w_used := w_used w\<rparr>) }"

end
