(* ===== verification/Gpu_Correct.thy ===== *)
theory Gpu_Correct
  imports Gpu Virtio_Correct
begin

text \<open>
  The driver of displays against a display: a device that behaves as documented on the driver's
  commands shows what the memory of the picture held at the last drawing, and a cursor with the image
  of the last modification at the last place.

  \<open>serves_display\<close> is that documented behaviour; \<open>ideal_control\<close> and \<open>ideal_cursor\<close> are a device that has it.
\<close>

subsection \<open>The host\<close>

record host_resource =
  hr_width :: u32
  hr_height :: u32
  hr_backing :: "(nat \<times> nat) option"
  hr_data :: "u8 list"

text \<open>The device: the size it offers, its resources, what is scanned out and shown, and the cursor.\<close>

record host =
  ho_width :: u32
  ho_height :: u32
  ho_resource :: "u32 \<Rightarrow> host_resource option"
  ho_scanout :: "u32 option"
  ho_screen :: "u8 list"
  ho_cursor_image :: "u8 list"
  ho_cursor_at :: "u32 \<times> u32"

datatype gpu_request =
    GetDisplayInfo
  | CreateResource u32 u32 u32
  | AttachBacking u32 nat u32
  | Scanout u32 u32 u32
  | Transfer u32 u32 u32 u32
  | Flush u32 u32 u32

datatype cursor_request = UpdateCursor u32 u32 u32 | MoveCursor u32 u32 u32

abbreviation full_rect :: "u32 \<Rightarrow> u32 \<Rightarrow> rect" where
  "full_rect width height \<equiv> \<lparr>rect_x = 0, rect_y = 0, rect_width = width, rect_height = height\<rparr>"

primrec request_bytes :: "gpu_request \<Rightarrow> u8 list" where
  "request_bytes GetDisplayInfo = ctrl_hdr_bytes (ctrl_header CmdGetDisplayInfo)"
| "request_bytes (CreateResource i width height) =
     resource_create_2d_bytes (ctrl_header CmdResourceCreate2D) i B8G8R8A8Unorm width height"
| "request_bytes (AttachBacking i addr len) =
     resource_attach_backing_bytes (ctrl_header CmdResourceAttachBacking) i 1"
| "request_bytes (Scanout width height i) =
     set_scanout_bytes (ctrl_header CmdSetScanout) (full_rect width height) 0 i"
| "request_bytes (Transfer flags width height i) =
     transfer_to_host_2d_bytes ((ctrl_header CmdTransferToHost2D)\<lparr>hdr_flags := flags\<rparr>) (full_rect width height) 0 i"
| "request_bytes (Flush width height i) =
     resource_flush_bytes (ctrl_header CmdResourceFlush) (full_rect width height) i"

primrec cursor_bytes :: "cursor_request \<Rightarrow> u8 list" where
  "cursor_bytes (UpdateCursor i x y) =
     update_cursor_bytes (ctrl_header CmdUpdateCursor) \<lparr>cp_scanout_id = 0, cp_x = x, cp_y = y\<rparr> i 0 0"
| "cursor_bytes (MoveCursor i x y) =
     update_cursor_bytes (ctrl_header CmdMoveCursor) \<lparr>cp_scanout_id = 0, cp_x = x, cp_y = y\<rparr> i 0 0"

abbreviation response_type :: "gpu_request \<Rightarrow> ctrl_type" where
  "response_type r \<equiv> (if r = GetDisplayInfo then RespOkDisplayInfo else RespOkNodata)"

definition resource_bytes :: "host_resource \<Rightarrow> nat" where
  "resource_bytes res = unat (hr_width res) * unat (hr_height res) * 4"

text \<open>
  What a device does with each request, given memory; nothing is said where a request is not one that
  the driver should make.
\<close>

fun host_step :: "gpu_request \<Rightarrow> bytes_at \<Rightarrow> host \<Rightarrow> host option" where
  "host_step GetDisplayInfo m h = Some h"
| "host_step (CreateResource i width height) m h =
     (if i \<noteq> 0 \<and> ho_resource h i = None
      then Some (h\<lparr>ho_resource := (ho_resource h)(i \<mapsto>
        \<lparr>hr_width = width, hr_height = height, hr_backing = None,
         hr_data = replicate (unat width * unat height * 4) 0\<rparr>)\<rparr>)
      else None)"
| "host_step (AttachBacking i addr len) m h =
     (case ho_resource h i of
        None \<Rightarrow> None
      | Some res \<Rightarrow>
          if hr_backing res = None
          then Some (h\<lparr>ho_resource := (ho_resource h)(i \<mapsto> res\<lparr>hr_backing := Some (addr, unat len)\<rparr>)\<rparr>)
          else None)"
| "host_step (Scanout width height i) m h =
     (case ho_resource h i of
        None \<Rightarrow> None
      | Some res \<Rightarrow>
          if hr_width res = width \<and> hr_height res = height then Some (h\<lparr>ho_scanout := Some i\<rparr>) else None)"
| "host_step (Transfer flags width height i) m h =
     (case ho_resource h i of
        None \<Rightarrow> None
      | Some res \<Rightarrow>
          (case hr_backing res of
             None \<Rightarrow> None
           | Some (addr, len) \<Rightarrow>
               if hr_width res = width \<and> hr_height res = height \<and> resource_bytes res \<le> len
               then Some (h\<lparr>ho_resource := (ho_resource h)(i \<mapsto> res\<lparr>hr_data := get_bytes addr (resource_bytes res) m\<rparr>)\<rparr>)
               else None))"
| "host_step (Flush width height i) m h =
     (case ho_resource h i of
        None \<Rightarrow> None
      | Some res \<Rightarrow>
          if hr_width res = width \<and> hr_height res = height \<and> ho_scanout h = Some i
          then Some (h\<lparr>ho_screen := hr_data res\<rparr>)
          else None)"

text \<open>A cursor is 64 pixels wide and high.\<close>

fun cursor_step :: "cursor_request \<Rightarrow> host \<Rightarrow> host option" where
  "cursor_step (UpdateCursor i x y) h =
     (case ho_resource h i of
        None \<Rightarrow> None
      | Some res \<Rightarrow>
          if hr_width res = 64 \<and> hr_height res = 64
          then Some (h\<lparr>ho_cursor_image := hr_data res, ho_cursor_at := (x, y)\<rparr>) else None)"
| "cursor_step (MoveCursor i x y) h = Some (h\<lparr>ho_cursor_at := (x, y)\<rparr>)"

definition answers :: "gpu_request \<Rightarrow> host \<Rightarrow> u8 list \<Rightarrow> bool" where
  "answers r h resp \<longleftrightarrow>
     u32_field 0 resp = ctrl_code (response_type r) \<and>
     (r = GetDisplayInfo \<longrightarrow> display_enabled resp = 1 \<and> display_rect resp = full_rect (ho_width h) (ho_height h))"

definition request_chain :: "gpu_request \<Rightarrow> descriptor list \<Rightarrow> usize \<Rightarrow> bytes_at \<Rightarrow> bool" where
  "request_chain r ds s m \<longleftrightarrow>
     (\<exists>a. ds ! 0 = \<lparr>d_address = a, d_length = length (request_bytes r), d_flags = 1, d_next = 1\<rparr> \<and>
       get_bytes a (length (request_bytes r)) m = request_bytes r) \<and>
     (case r of
        AttachBacking i addr len \<Rightarrow>
          addr < usize_end \<and> (\<exists>e. ds ! 1 = \<lparr>d_address = e, d_length = 16, d_flags = 1, d_next = 2\<rparr> \<and>
            get_bytes e 16 m = mem_entry_bytes addr len) \<and>
          ds ! 2 = \<lparr>d_address = s, d_length = response_size (response_type r), d_flags = 2, d_next = 0\<rparr>
      | _ \<Rightarrow> ds ! 1 = \<lparr>d_address = s, d_length = response_size (response_type r), d_flags = 2, d_next = 0\<rparr>)"

text \<open>
  The documented behaviour: the request is carried out, an answer of success is written to the
  response, and no other memory is written.
\<close>

definition serves_display :: "'d device \<Rightarrow> 'd device \<Rightarrow> ('d \<Rightarrow> host) \<Rightarrow> bool" where
  "serves_display control cursor view \<longleftrightarrow>
     (\<forall>d m ds r s h'. request_chain r ds s m \<longrightarrow> host_step r m (view d) = Some h' \<longrightarrow>
        (case control d m ds 0 of (d', m') \<Rightarrow>
           view d' = h' \<and> answers r h' (get_bytes s (response_size (response_type r)) m') \<and>
           (\<forall>x. x < s \<or> s + response_size (response_type r) \<le> x \<longrightarrow> m' x = m x))) \<and>
     (\<forall>d m ds a r h'.
        ds ! 0 = \<lparr>d_address = a, d_length = length (cursor_bytes r), d_flags = 0, d_next = 0\<rparr> \<longrightarrow>
        get_bytes a (length (cursor_bytes r)) m = cursor_bytes r \<longrightarrow> cursor_step r (view d) = Some h' \<longrightarrow>
        (case cursor d m ds 0 of (d', m') \<Rightarrow> view d' = h' \<and> m' = m))"

lemma serves_control:
  assumes "serves_display control cursor view" "request_chain r ds s m" "host_step r m (view d) = Some h'"
  obtains d' m' where "control d m ds 0 = (d', m')" "view d' = h'"
    "answers r h' (get_bytes s (response_size (response_type r)) m')"
    "\<And>x. x < s \<or> s + response_size (response_type r) \<le> x \<Longrightarrow> m' x = m x"
  using assms(1) [unfolded serves_display_def, THEN conjunct1, rule_format, OF assms(2,3)] that by (auto split: prod.splits)

lemma serves_cursor:
  assumes "serves_display control cursor view"
    "ds ! 0 = \<lparr>d_address = a, d_length = length (cursor_bytes r), d_flags = 0, d_next = 0\<rparr>"
    "get_bytes a (length (cursor_bytes r)) m = cursor_bytes r" "cursor_step r (view d) = Some h'"
  obtains d' where "cursor d m ds 0 = (d', m)" "view d' = h'"
  using assms(1) [unfolded serves_display_def, THEN conjunct2, rule_format, OF assms(2,3,4)] that by (auto split: prod.splits)

subsection \<open>Queues of four\<close>

definition queue_step :: "nat \<Rightarrow> queue \<Rightarrow> u16 \<Rightarrow> bool" where
  "queue_step n q used \<longleftrightarrow> n < 65536 \<and> length (q_descriptors q) = 4 \<and> length (q_ring q) = 4 \<and>
     q_available q = word_of_nat n \<and> used = word_of_nat n"

lemma word_of_nat_not_last: "n < 65535 \<Longrightarrow> (word_of_nat n :: u16) \<noteq> -1"
proof
  assume n: "n < 65535" and "(word_of_nat n :: u16) = -1"
  then have "unat (word_of_nat n :: u16) = 65535"
    by (simp add: unsigned_minus_1_eq_mask mask_eq_exp_minus_1)
  with n unat_u16_small [of n] show False by simp
qed

lemma send_step:
  assumes "queue_step n q (w_used w)" "n < 65535" "serve (w_dev w) (w_mem w) (q_descriptors q) 0 = (d, m)"
  shows "\<exists>q'. send_and_recv serve 0 q w = Some (q', w\<lparr>w_dev := d, w_mem := m, w_used := word_of_nat (n + 1)\<rparr>) \<and>
    queue_step (n + 1) q' (word_of_nat (n + 1)) \<and> q_descriptors q' = q_descriptors q"
proof -
  have q: "length (q_descriptors q) = 4" "length (q_ring q) = 4" "q_available q = word_of_nat n" "w_used w = word_of_nat n"
    using assms(1) by (auto simp: queue_step_def)
  have u: "unat (word_of_nat n :: u16) = n" using assms(2) by (simp add: unat_u16_small)
  show ?thesis
    using q u assms(2,3) word_of_nat_not_last [OF assms(2)]
    by (simp add: send_and_recv_def notify_def queue_step_def bind_eq_Some_conv add.commute)
qed

text \<open>An index of 16 bits that has been advanced 65535 times cannot be advanced again.\<close>

lemma last_step_overflows: "queue_step 65535 q used \<Longrightarrow> send_and_recv serve 0 q w = None"
  by (auto simp: queue_step_def intro: send_overflows)

subsection \<open>Commands\<close>

definition phys :: "usize \<Rightarrow> usize" where
  "phys a = the (virt_to_phys a)"

text \<open>The parts of a command are mapped and apart; the memory they take.\<close>

definition gpu_frame_ok :: "gpu_frame \<Rightarrow> bool" where
  "gpu_frame_ok f \<longleftrightarrow>
     virt_to_phys (gf_request f) = Some (phys (gf_request f)) \<and> virt_to_phys (gf_entry f) = Some (phys (gf_entry f)) \<and>
     virt_to_phys (gf_response f) = Some (phys (gf_response f)) \<and>
     apart_bytes (phys (gf_request f)) 56 (phys (gf_entry f)) 16 \<and>
     apart_bytes (phys (gf_request f)) 56 (phys (gf_response f)) 408 \<and>
     apart_bytes (phys (gf_entry f)) 16 (phys (gf_response f)) 408"

definition frame_region :: "gpu_frame \<Rightarrow> nat set" where
  "frame_region f = {phys (gf_request f)..<phys (gf_request f) + 56} \<union> {phys (gf_entry f)..<phys (gf_entry f) + 16} \<union>
     {phys (gf_response f)..<phys (gf_response f) + 408}"

definition same_outside :: "nat set \<Rightarrow> bytes_at \<Rightarrow> bytes_at \<Rightarrow> bool" where
  "same_outside A m m' \<longleftrightarrow> (\<forall>x. x \<notin> A \<longrightarrow> m' x = m x)"

lemma same_outside_refl [simp]: "same_outside A m m"
  by (simp add: same_outside_def)

lemma same_outside_trans: "same_outside A m m' \<Longrightarrow> same_outside A m' m'' \<Longrightarrow> same_outside A m m''"
  by (simp add: same_outside_def)

lemma same_outside_get:
  assumes "same_outside A m m'" "{a..<a + n} \<inter> A = {}"
  shows "get_bytes a n m' = get_bytes a n m"
proof -
  have "m' (a + i) = m (a + i)" if "i < n" for i
  proof -
    from that have "a + i \<in> {a..<a + n}" by simp
    with assms(2) have "a + i \<notin> A" by blast
    with assms(1) show ?thesis by (simp add: same_outside_def)
  qed
  then show ?thesis by (simp add: get_bytes_def)
qed

lemma put_bytes_outside: "{a..<a + length bs} \<subseteq> A \<Longrightarrow> same_outside A m (put_bytes a bs m)"
  by (auto simp: same_outside_def put_bytes_def)

lemma length_u32_bytes [simp]: "length (u32_bytes w) = 4"
  by (simp add: u32_bytes_def)

lemma length_u64_bytes [simp]: "length (u64_bytes w) = 8"
  by (simp add: u64_bytes_def)

lemma length_hdr_bytes [simp]: "length (ctrl_hdr_bytes h) = 24"
  by (simp add: ctrl_hdr_bytes_def)

lemma length_mem_entry [simp]: "length (mem_entry_bytes addr len) = 16"
  by (simp add: mem_entry_bytes_def)

lemma length_request: "length (request_bytes r) \<le> 56"
  by (cases r) (simp_all add: resource_create_2d_bytes_def resource_attach_backing_bytes_def set_scanout_bytes_def
    transfer_to_host_2d_bytes_def resource_flush_bytes_def rect_bytes_def)

lemma length_update_cursor [simp]: "length (update_cursor_bytes h p i x y) = 56"
  by (simp add: update_cursor_bytes_def cursor_pos_bytes_def)

lemma length_cursor_request [simp]: "length (cursor_bytes r) = 56"
  by (cases r) simp_all

lemma response_size_cases: "response_size t = 24 \<or> response_size t = 408"
  by (simp add: response_size_def MAX_SCANOUTS_def)

lemma take_field: "4 + off \<le> n \<Longrightarrow> u32_field off (get_bytes a n m) = u32_field off (get_bytes a (off + 4) m)"
  by (simp add: u32_field_def field_def field_bytes_def get_bytes_def take_map drop_map take_upt drop_upt min_def)

lemma command_ok:
  assumes serves: "serves_display control cursor view" and s: "virt_to_phys (gf_response f) = Some s"
    and q: "queue_step n q (w_used w)" "n < 65535" and i: "unat (word_of_nat i :: u16) < 4"
    and chain: "request_chain r ((q_descriptors q)[unat (word_of_nat i :: u16) :=
        \<lparr>d_address = s, d_length = response_size (response_type r), d_flags = 2, d_next = 0\<rparr>]) s
        (put_bytes s (replicate (response_size (response_type r)) 0) (w_mem w))"
    and step: "host_step r (put_bytes s (replicate (response_size (response_type r)) 0) (w_mem w)) (view (w_dev w)) = Some h'"
  shows "\<exists>q' w' resp. gpu_command control f (response_type r) i q w = Some (Inr resp, q', w') \<and>
    queue_step (n + 1) q' (w_used w') \<and> view (w_dev w') = h' \<and> answers r h' resp \<and>
    same_outside {s..<s + response_size (response_type r)} (w_mem w) (w_mem w')"
proof -
  let ?size = "response_size (response_type r)"
  let ?m = "put_bytes s (replicate ?size 0) (w_mem w)"
  let ?ds = "(q_descriptors q)[unat (word_of_nat i :: u16) := \<lparr>d_address = s, d_length = ?size, d_flags = 2, d_next = 0\<rparr>]"
  let ?q = "q\<lparr>q_descriptors := ?ds\<rparr>" and ?w = "w\<lparr>w_mem := ?m\<rparr>"
  obtain d' m' where d': "control (w_dev w) ?m ?ds 0 = (d', m')" "view d' = h'" "answers r h' (get_bytes s ?size m')"
    "\<And>x. x < s \<or> s + ?size \<le> x \<Longrightarrow> m' x = ?m x"
    using serves_control [OF serves chain step] by blast
  have qs: "queue_step n ?q (w_used ?w)" using q(1) by (simp add: queue_step_def)
  obtain q' where q': "send_and_recv control 0 ?q ?w = Some (q', ?w\<lparr>w_dev := d', w_mem := m', w_used := word_of_nat (n + 1)\<rparr>)"
    "queue_step (n + 1) q' (word_of_nat (n + 1))"
    using send_step [OF qs q(2), of control d' m'] d'(1) by auto
  have put: "descriptor_writeonly (word_of_nat i) (gf_response f) ?size None q = Some ?q"
    using s i q(1) by (simp add: descriptor_writeonly_def put_descriptor_def queue_step_def VIRTQ_DESC_F_WRITE_def)
  have code: "u32_field 0 (get_bytes s ?size m') = ctrl_code (response_type r)"
    using d'(3) by (simp add: answers_def)
  have good: "ctrl_code (response_type r) AND 0xFF00 \<noteq> 0x1200" by simp
  have "gpu_command control f (response_type r) i q w = Some (Inr (get_bytes s ?size m'), q',
      ?w\<lparr>w_dev := d', w_mem := m', w_used := word_of_nat (n + 1)\<rparr>)"
    using s put q'(1) code good by (simp add: gpu_command_def put_object_def get_object_def Let_def)
  moreover have "same_outside {s..<s + ?size} (w_mem w) m'"
    using d'(4) by (auto simp: same_outside_def put_bytes_def)
  ultimately show ?thesis using q'(2) d'(2,3) by auto
qed

text \<open>
  A command as the driver issues it: what the host does must not depend on the memory of the command
  itself.
\<close>

definition carries_out :: "('d \<Rightarrow> host) \<Rightarrow> gpu_frame \<Rightarrow> gpu_request \<Rightarrow> 'd world \<Rightarrow> host \<Rightarrow> bool" where
  "carries_out view f r w h' \<longleftrightarrow> (\<forall>m. same_outside (frame_region f) (w_mem w) m \<longrightarrow> host_step r m (view (w_dev w)) = Some h')"

definition after_command :: "('d \<Rightarrow> host) \<Rightarrow> gpu_frame \<Rightarrow> nat \<Rightarrow> host \<Rightarrow> 'd world \<Rightarrow> queue \<Rightarrow> 'd world \<Rightarrow> bool" where
  "after_command view f n h' w q' w' \<longleftrightarrow> queue_step (n + 1) q' (w_used w') \<and> view (w_dev w') = h' \<and>
     same_outside (frame_region f) (w_mem w) (w_mem w')"

lemma same_outside_mono: "same_outside A m m' \<Longrightarrow> A \<subseteq> B \<Longrightarrow> same_outside B m m'"
  by (auto simp: same_outside_def)

lemma frame_parts:
  "{phys (gf_request f)..<phys (gf_request f) + 56} \<subseteq> frame_region f"
  "{phys (gf_entry f)..<phys (gf_entry f) + 16} \<subseteq> frame_region f"
  "{phys (gf_response f)..<phys (gf_response f) + response_size t} \<subseteq> frame_region f"
  using response_size_cases [of t] by (auto simp: frame_region_def)

lemma apart_shorter: "apart_bytes a n b k \<Longrightarrow> n' \<le> n \<Longrightarrow> k' \<le> k \<Longrightarrow> apart_bytes a n' b k'"
  by (auto simp: apart_bytes_def)

lemma request_command_ok:
  assumes serves: "serves_display control cursor view" and f: "gpu_frame_ok f"
    and q: "queue_step n q (w_used w)" "n < 65535"
    and r: "\<And>i addr len. r \<noteq> AttachBacking i addr len" and out: "carries_out view f r w h'"
  shows "\<exists>q1 q' w' resp.
    put_object (gf_request f) (request_bytes r) w = Some (w\<lparr>w_mem := put_bytes (phys (gf_request f)) (request_bytes r) (w_mem w)\<rparr>) \<and>
    descriptor_readonly 0 (gf_request f) (length (request_bytes r)) (Some 1) q = Some q1 \<and>
    gpu_command control f (response_type r) 1 q1 (w\<lparr>w_mem := put_bytes (phys (gf_request f)) (request_bytes r) (w_mem w)\<rparr>) =
      Some (Inr resp, q', w') \<and> answers r h' resp \<and> after_command view f n h' w q' w'"
proof -
  let ?a = "phys (gf_request f)" and ?s = "phys (gf_response f)" and ?size = "response_size (response_type r)"
  let ?m1 = "put_bytes ?a (request_bytes r) (w_mem w)"
  let ?d0 = "\<lparr>d_address = ?a, d_length = length (request_bytes r), d_flags = 1, d_next = 1\<rparr>"
  let ?q1 = "q\<lparr>q_descriptors := (q_descriptors q)[0 := ?d0]\<rparr>" and ?w1 = "w\<lparr>w_mem := ?m1\<rparr>"
  have v: "virt_to_phys (gf_request f) = Some ?a" "virt_to_phys (gf_response f) = Some ?s"
    and apart: "apart_bytes ?a 56 ?s 408" using f by (simp_all add: gpu_frame_ok_def)
  have len: "length (q_descriptors q) = 4" using q(1) by (simp add: queue_step_def)
  then have ne: "q_descriptors q \<noteq> []" by auto
  have q1: "descriptor_readonly 0 (gf_request f) (length (request_bytes r)) (Some 1) q = Some ?q1"
    using v len ne by (simp add: descriptor_readonly_def put_descriptor_def VIRTQ_DESC_F_NEXT_def)
  have qs: "queue_step n ?q1 (w_used ?w1)" using q(1) by (simp add: queue_step_def)
  let ?m2 = "put_bytes ?s (replicate ?size 0) ?m1"
  have m1: "same_outside (frame_region f) (w_mem w) ?m1"
    using frame_parts(1) [of f] length_request [of r] by (intro put_bytes_outside) force
  moreover have "same_outside (frame_region f) ?m1 ?m2"
    using frame_parts(3) [of f "response_type r"] by (intro put_bytes_outside) simp
  ultimately have "same_outside (frame_region f) (w_mem w) ?m2" by (rule same_outside_trans)
  then have step: "host_step r ?m2 (view (w_dev ?w1)) = Some h'" using out by (simp add: carries_out_def)
  have "apart_bytes ?a (length (request_bytes r)) ?s ?size"
    using apart length_request [of r] response_size_cases [of "response_type r"] by (auto simp: apart_bytes_def)
  then have "get_bytes ?a (length (request_bytes r)) ?m2 = request_bytes r"
    by (simp add: get_put_other get_put_same)
  then have chain: "request_chain r ((q_descriptors ?q1)[unat (word_of_nat 1 :: u16) :=
        \<lparr>d_address = ?s, d_length = ?size, d_flags = 2, d_next = 0\<rparr>]) ?s (put_bytes ?s (replicate ?size 0) (w_mem ?w1))"
    using r len by (auto simp: request_chain_def split: gpu_request.split)
  obtain q' w' resp where c: "gpu_command control f (response_type r) 1 ?q1 ?w1 = Some (Inr resp, q', w')"
    "queue_step (n + 1) q' (w_used w')" "view (w_dev w') = h'" "answers r h' resp"
    "same_outside {?s..<?s + ?size} ?m1 (w_mem w')"
    using command_ok [OF serves v(2) qs q(2) _ chain] step by auto
  have "same_outside (frame_region f) (w_mem w) (w_mem w')"
    using same_outside_trans [OF m1 same_outside_mono [OF c(5) frame_parts(3)]] .
  with c q1 v(1) show ?thesis by (auto simp: after_command_def put_object_def)
qed

lemma submit_ok:
  assumes "serves_display control cursor view" "gpu_frame_ok f" "queue_step n q (w_used w)" "n < 65535"
    "\<And>i addr len. r \<noteq> AttachBacking i addr len" "r \<noteq> GetDisplayInfo" "carries_out view f r w h'"
  shows "\<exists>q' w'. submit control f (request_bytes r) q w = Some (q', w') \<and> after_command view f n h' w q' w'"
  using request_command_ok [OF assms(1-5) assms(7)] assms(6) by (auto simp: submit_def)

lemma get_resolution_ok:
  assumes "serves_display control cursor view" "gpu_frame_ok f" "queue_step n q (w_used w)" "n < 65535"
  shows "\<exists>q' w'. get_resolution control f q w =
      Some (ho_width (view (w_dev w)), ho_height (view (w_dev w)), q', w') \<and> after_command view f n (view (w_dev w)) w q' w'"
proof -
  have "carries_out view f GetDisplayInfo w (view (w_dev w))" by (simp add: carries_out_def)
  from request_command_ok [OF assms _ this] show ?thesis
    by (auto simp: get_resolution_def answers_def Let_def)
qed

lemma submit_backing_ok:
  assumes serves: "serves_display control cursor view" and f: "gpu_frame_ok f"
    and q: "queue_step n q (w_used w)" "n < 65535" and out: "carries_out view f (AttachBacking i addr len) w h'" and addr: "addr < usize_end"
  shows "\<exists>q' w'. submit_backing control f (request_bytes (AttachBacking i addr len)) (mem_entry_bytes addr len) q w = Some (q', w') \<and>
    after_command view f n h' w q' w'"
proof -
  let ?r = "AttachBacking i addr len"
  let ?a = "phys (gf_request f)" and ?e = "phys (gf_entry f)" and ?s = "phys (gf_response f)"
  let ?m1 = "put_bytes ?e (mem_entry_bytes addr len) (put_bytes ?a (request_bytes ?r) (w_mem w))"
  let ?d0 = "\<lparr>d_address = ?a, d_length = length (request_bytes ?r), d_flags = 1, d_next = 1\<rparr>"
  let ?d1 = "\<lparr>d_address = ?e, d_length = 16, d_flags = 1, d_next = 2\<rparr>"
  let ?q1 = "q\<lparr>q_descriptors := (q_descriptors q)[0 := ?d0, 1 := ?d1]\<rparr>" and ?w1 = "w\<lparr>w_mem := ?m1\<rparr>"
  have v: "virt_to_phys (gf_request f) = Some ?a" "virt_to_phys (gf_entry f) = Some ?e" "virt_to_phys (gf_response f) = Some ?s"
    and apart: "apart_bytes ?a 56 ?s 408" "apart_bytes ?a 56 ?e 16" "apart_bytes ?e 16 ?s 408"
    using f by (simp_all add: gpu_frame_ok_def)
  have len: "length (q_descriptors q) = 4" using q(1) by (simp add: queue_step_def)
  then have ne: "q_descriptors q \<noteq> []" by auto
  have rlen: "length (request_bytes ?r) = 32" by (simp add: resource_attach_backing_bytes_def)
  have put: "put_object (gf_request f) (request_bytes ?r) w \<bind> put_object (gf_entry f) (mem_entry_bytes addr len) = Some ?w1"
    using v by (simp add: put_object_def)
  have q1: "descriptor_readonly 0 (gf_request f) (length (request_bytes ?r)) (Some 1) q \<bind>
      descriptor_readonly 1 (gf_entry f) (length (mem_entry_bytes addr len)) (Some 2) = Some ?q1"
    using v len ne by (simp add: descriptor_readonly_def put_descriptor_def VIRTQ_DESC_F_NEXT_def)
  have qs: "queue_step n ?q1 (w_used ?w1)" using q(1) by (simp add: queue_step_def)
  let ?m2 = "put_bytes ?s (replicate 24 0) ?m1"
  have 1: "same_outside (frame_region f) (w_mem w) (put_bytes ?a (request_bytes ?r) (w_mem w))"
    using frame_parts(1) [of f] rlen by (intro put_bytes_outside) force
  have 2: "same_outside (frame_region f) (put_bytes ?a (request_bytes ?r) (w_mem w)) ?m1"
    using frame_parts(2) [of f] by (intro put_bytes_outside) simp
  have 3: "same_outside (frame_region f) ?m1 ?m2"
    using frame_parts(3) [of f RespOkNodata] by (intro put_bytes_outside) (simp add: response_size_def)
  note m1 = same_outside_trans [OF 1 2]
  have step: "host_step ?r ?m2 (view (w_dev ?w1)) = Some h'"
    using out [unfolded carries_out_def, rule_format, OF same_outside_trans [OF m1 3]] by simp
  have "get_bytes ?a 32 ?m2 = request_bytes ?r"
    using apart_shorter [OF apart(1), of 32 24] apart_shorter [OF apart(2), of 32 16] rlen
    by (simp add: get_put_other get_put_same del: request_bytes.simps)
  moreover have "get_bytes ?e 16 ?m2 = mem_entry_bytes addr len"
    using apart_shorter [OF apart(3), of 16 24] by (simp add: get_put_other get_put_same)
  ultimately have chain: "request_chain ?r ((q_descriptors ?q1)[unat (word_of_nat 2 :: u16) :=
        \<lparr>d_address = ?s, d_length = response_size (response_type ?r), d_flags = 2, d_next = 0\<rparr>]) ?s
        (put_bytes ?s (replicate (response_size (response_type ?r)) 0) (w_mem ?w1))"
    using len rlen addr by (simp add: request_chain_def response_size_def del: request_bytes.simps)
  obtain q' w' resp where c: "gpu_command control f (response_type ?r) 2 ?q1 ?w1 = Some (Inr resp, q', w')"
    "queue_step (n + 1) q' (w_used w')" "view (w_dev w') = h'"
    "same_outside {?s..<?s + response_size (response_type ?r)} ?m1 (w_mem w')"
    using command_ok [OF serves v(3) qs q(2) _ chain] step by (auto simp: response_size_def)
  have "submit_backing control f (request_bytes ?r) (mem_entry_bytes addr len) q w = Some (q', w')"
    using put q1 c(1) by (simp add: submit_backing_def del: request_bytes.simps) (auto simp: bind_eq_Some_conv)
  moreover have "same_outside (frame_region f) (w_mem w) (w_mem w')"
    using same_outside_trans [OF m1 same_outside_mono [OF _ frame_parts(3)]] c(4) by simp
  ultimately show ?thesis using c by (auto simp: after_command_def)
qed

subsection \<open>The set-up\<close>

definition frames_ok :: "(nat \<Rightarrow> gpu_frame) \<Rightarrow> nat set \<Rightarrow> bool" where
  "frames_ok f A \<longleftrightarrow> (\<forall>i. gpu_frame_ok (f i) \<and> frame_region (f i) \<inter> A = {})"

lemma same_inside:
  assumes "frames_ok f A" "same_outside (frame_region (f i)) m m'" "{a..<a + n} \<subseteq> A"
  shows "get_bytes a n m' = get_bytes a n m"
  using assms by (intro same_outside_get [OF assms(2)]) (auto simp: frames_ok_def)

lemma frames_ok_shift: "frames_ok f A \<Longrightarrow> frames_ok (\<lambda>i. f (c + i)) A"
  by (simp add: frames_ok_def)

lemma phys_bound: "virt_to_phys a = Some p \<Longrightarrow> p < usize_end"
  by (auto simp: virt_to_phys_def run_Some Let_def in_range_def split: if_splits)

lemma create_resource_ok:
  assumes serves: "serves_display control cursor view" and f: "frames_ok f A"
    and q: "queue_step n q (w_used w)" "n < 65534" and ptr: "virt_to_phys ptr = Some (phys ptr)"
    and fresh: "ho_resource (view (w_dev w)) i = None" "i \<noteq> 0"
  shows "\<exists>q' w'. create_resource control f i width height ptr len q w = Some (q', w') \<and>
    queue_step (n + 2) q' (w_used w') \<and>
    view (w_dev w') = (view (w_dev w))\<lparr>ho_resource := (ho_resource (view (w_dev w)))(i \<mapsto>
      \<lparr>hr_width = width, hr_height = height, hr_backing = Some (phys ptr, unat len),
       hr_data = replicate (unat width * unat height * 4) 0\<rparr>)\<rparr> \<and>
    (\<forall>a k. {a..<a + k} \<subseteq> A \<longrightarrow> get_bytes a k (w_mem w') = get_bytes a k (w_mem w))"
proof -
  have ok: "gpu_frame_ok (f 0)" "gpu_frame_ok (f 1)" using f by (simp_all add: frames_ok_def)
  let ?h = "view (w_dev w)"
  let ?h1 = "?h\<lparr>ho_resource := (ho_resource ?h)(i \<mapsto>
    \<lparr>hr_width = width, hr_height = height, hr_backing = None, hr_data = replicate (unat width * unat height * 4) 0\<rparr>)\<rparr>"
  have "carries_out view (f 0) (CreateResource i width height) w ?h1"
    using fresh by (simp add: carries_out_def)
  from submit_ok [OF serves ok(1) q(1) _ _ _ this] q(2) obtain q1 w1 where
    1: "submit control (f 0) (request_bytes (CreateResource i width height)) q w = Some (q1, w1)"
    "after_command view (f 0) n ?h1 w q1 w1" by auto
  then have q1: "queue_step (n + 1) q1 (w_used w1)" "view (w_dev w1) = ?h1" by (simp_all add: after_command_def)
  let ?h2 = "?h1\<lparr>ho_resource := (ho_resource ?h1)(i \<mapsto>
    \<lparr>hr_width = width, hr_height = height, hr_backing = Some (phys ptr, unat len),
     hr_data = replicate (unat width * unat height * 4) 0\<rparr>)\<rparr>"
  have "carries_out view (f 1) (AttachBacking i (phys ptr) len) w1 ?h2"
    by (simp add: carries_out_def q1(2))
  from submit_backing_ok [OF serves ok(2) q1(1) _ this phys_bound [OF ptr]] q(2) obtain q2 w2 where
    2: "submit_backing control (f 1) (request_bytes (AttachBacking i (phys ptr) len)) (mem_entry_bytes (phys ptr) len) q1 w1 = Some (q2, w2)"
    "after_command view (f 1) (n + 1) ?h2 w1 q2 w2" by auto
  have "create_resource control f i width height ptr len q w = Some (q2, w2)"
    using 1(1) 2(1) ptr by (simp add: create_resource_def)
  moreover have "get_bytes a k (w_mem w2) = get_bytes a k (w_mem w)" if "{a..<a + k} \<subseteq> A" for a k
  proof -
    have s: "same_outside (frame_region (f 0)) (w_mem w) (w_mem w1)" "same_outside (frame_region (f 1)) (w_mem w1) (w_mem w2)"
      using 1(2) 2(2) by (simp_all add: after_command_def)
    show ?thesis using same_inside [OF f s(1) that] same_inside [OF f s(2) that] by simp
  qed
  ultimately show ?thesis using 2(2) by (auto simp: after_command_def)
qed

text \<open>What the screen shows, and the memory of the picture and of the cursor.\<close>

record screen_state =
  sc_picture :: "u8 list"
  sc_cursor_picture :: "u8 list"
  sc_shown :: "u8 list"
  sc_image :: "u8 list"
  sc_cursor_image :: "u8 list"
  sc_cursor_at :: "u32 \<times> u32"

definition gpu_ok ::
    "('d \<Rightarrow> host) \<Rightarrow> usize \<Rightarrow> usize \<Rightarrow> nat \<Rightarrow> nat \<Rightarrow> virtio_gpu \<Rightarrow> 'd world \<Rightarrow> screen_state \<Rightarrow> bool" where
  "gpu_ok view fb cp n k g w s \<longleftrightarrow>
     (let h = view (w_dev w); len = unat (gpu_width g) * unat (gpu_height g) * 4 in
      queue_step n (gpu_controlq g) (w_used w) \<and> queue_step k (gpu_cursorq g) (gpu_cursor_used g) \<and>
      (\<exists>data. ho_resource h 1 = Some \<lparr>hr_width = gpu_width g, hr_height = gpu_height g, hr_backing = Some (fb, len), hr_data = data\<rparr>) \<and>
      ho_resource h 2 = Some \<lparr>hr_width = 64, hr_height = 64, hr_backing = Some (cp, 16384), hr_data = sc_image s\<rparr> \<and>
      ho_scanout h = Some 1 \<and> ho_screen h = sc_shown s \<and>
      ho_cursor_image h = sc_cursor_image s \<and> ho_cursor_at h = sc_cursor_at s \<and>
      (\<not> gpu_cursor_updated g \<longrightarrow> sc_cursor_image s = sc_image s) \<and>
      get_bytes fb len (w_mem w) = sc_picture s \<and> get_bytes cp 16384 (w_mem w) = sc_cursor_picture s)"

text \<open>The queues and the memory that the driver sets up.\<close>

definition setup_ok :: "(nat \<Rightarrow> usize \<times> usize \<times> usize) \<Rightarrow> usize \<Rightarrow> usize \<Rightarrow> virtio_common \<Rightarrow> nat \<Rightarrow> bool" where
  "setup_ok queue_at cursor_at framebuffer_at common len \<longleftrightarrow>
     (\<forall>i<2. case queue_at i of (d, a, u) \<Rightarrow> virt_to_phys d \<noteq> None \<and> virt_to_phys a \<noteq> None \<and> virt_to_phys u \<noteq> None) \<and>
     4 \<le> unat (vr_queue_size common) \<and> len < 4294967296 \<and>
     virt_to_phys cursor_at = Some (phys cursor_at) \<and> virt_to_phys framebuffer_at = Some (phys framebuffer_at) \<and>
     apart_bytes (phys framebuffer_at) len (phys cursor_at) 16384"

definition gpu_memory :: "usize \<Rightarrow> nat \<Rightarrow> usize \<Rightarrow> nat set" where
  "gpu_memory fb len cp = {fb..<fb + len} \<union> {cp..<cp + 16384}"

lemma queue_new_step:
  assumes "case x of (d, a, u) \<Rightarrow> virt_to_phys d \<noteq> None \<and> virt_to_phys a \<noteq> None \<and> virt_to_phys u \<noteq> None"
    "4 \<le> unat (vr_queue_size common)"
  shows "\<exists>q common'. (case x of (d, a, u) \<Rightarrow> queue_new i common 4 d a u) = Some (q, common') \<and> queue_step 0 q 0 \<and>
    4 \<le> unat (vr_queue_size common')"
  using assms by (auto simp: queue_new_def queue_step_def split: prod.splits)

lemma setup_commands:
  fixes view :: "'d \<Rightarrow> host"
  assumes serves: "serves_display control cursor view" and f: "frames_ok f A" and q: "queue_step 1 q (w_used w)"
    and ptrs: "virt_to_phys fb = Some (phys fb)" "virt_to_phys cur = Some (phys cur)"
    and fresh: "ho_resource (view (w_dev w)) 1 = None" "ho_resource (view (w_dev w)) 2 = None"
  shows "\<exists>q1 w1 q2 w2 q3 w3.
    create_resource control (\<lambda>i. f (1 + i)) 1 width height fb len q w = Some (q1, w1) \<and>
    submit control (f 3) (set_scanout_bytes (ctrl_header CmdSetScanout) (full_rect width height) 0 1) q1 w1 = Some (q2, w2) \<and>
    create_resource control (\<lambda>i. f (4 + i)) 2 64 64 cur 16384 q2 w2 = Some (q3, w3) \<and>
    queue_step 6 q3 (w_used w3) \<and>
    view (w_dev w3) = (view (w_dev w))\<lparr>ho_resource := (ho_resource (view (w_dev w)))
      (1 \<mapsto> \<lparr>hr_width = width, hr_height = height, hr_backing = Some (phys fb, unat len),
         hr_data = replicate (unat width * unat height * 4) 0\<rparr>,
       2 \<mapsto> \<lparr>hr_width = 64, hr_height = 64, hr_backing = Some (phys cur, 16384), hr_data = replicate 16384 0\<rparr>),
      ho_scanout := Some 1\<rparr> \<and>
    (\<forall>a k. {a..<a + k} \<subseteq> A \<longrightarrow> get_bytes a k (w_mem w3) = get_bytes a k (w_mem w))"
proof -
  let ?h = "view (w_dev w)"
  let ?r1 = "\<lparr>hr_width = width, hr_height = height, hr_backing = Some (phys fb, unat len),
     hr_data = replicate (unat width * unat height * 4) 0\<rparr>"
  obtain q1 w1 where 1: "create_resource control (\<lambda>i. f (1 + i)) 1 width height fb len q w = Some (q1, w1)"
    "queue_step 3 q1 (w_used w1)" "view (w_dev w1) = ?h\<lparr>ho_resource := (ho_resource ?h)(1 \<mapsto> ?r1)\<rparr>"
    "\<And>a k. {a..<a + k} \<subseteq> A \<Longrightarrow> get_bytes a k (w_mem w1) = get_bytes a k (w_mem w)"
    using create_resource_ok [OF serves frames_ok_shift [OF f] q _ ptrs(1) fresh(1), of 1 width height len] by (auto simp: numeral_3_eq_3)
  let ?h2 = "?h\<lparr>ho_resource := (ho_resource ?h)(1 \<mapsto> ?r1), ho_scanout := Some 1\<rparr>"
  have ok: "gpu_frame_ok (f 3)" using f by (simp add: frames_ok_def)
  have "carries_out view (f 3) (Scanout width height 1) w1 ?h2" by (simp add: carries_out_def 1(3))
  from submit_ok [OF serves ok 1(2) _ _ _ this] obtain q2 w2 where
    2: "submit control (f 3) (request_bytes (Scanout width height 1)) q1 w1 = Some (q2, w2)"
    "after_command view (f 3) 3 ?h2 w1 q2 w2" by auto
  then have q2: "queue_step 4 q2 (w_used w2)" "view (w_dev w2) = ?h2" "same_outside (frame_region (f 3)) (w_mem w1) (w_mem w2)"
    by (simp_all add: after_command_def)
  let ?r2 = "\<lparr>hr_width = 64, hr_height = 64, hr_backing = Some (phys cur, 16384), hr_data = replicate 16384 0\<rparr>"
  have none: "ho_resource (view (w_dev w2)) 2 = None" by (simp add: q2(2) fresh(2))
  obtain q3 w3 where 3: "create_resource control (\<lambda>i. f (4 + i)) 2 64 64 cur 16384 q2 w2 = Some (q3, w3)"
    "queue_step 6 q3 (w_used w3)" "view (w_dev w3) = ?h2\<lparr>ho_resource := (ho_resource ?h2)(2 \<mapsto> ?r2)\<rparr>"
    "\<And>a k. {a..<a + k} \<subseteq> A \<Longrightarrow> get_bytes a k (w_mem w3) = get_bytes a k (w_mem w2)"
    using create_resource_ok [OF serves frames_ok_shift [OF f] q2(1) _ ptrs(2) none, of 4 64 64 16384] q2(2) by auto
  have "get_bytes a k (w_mem w3) = get_bytes a k (w_mem w)" if "{a..<a + k} \<subseteq> A" for a k
    using 1(4) [OF that] 3(4) [OF that] same_inside [OF f q2(3) that] by simp
  with 1(1) 2(1) 3(1-3) show ?thesis by (intro exI conjI) auto
qed

lemma gpu_new_ok:
  fixes view :: "'d \<Rightarrow> host"
  defines "blank n \<equiv> replicate n (0 :: u8)"
  assumes serves: "serves_display control cursor view" and f: "frames_ok f (gpu_memory (phys framebuffer_at) len (phys cursor_at))"
    and set: "setup_ok queue_at cursor_at framebuffer_at common len" and w: "w_used w = 0"
    and fresh: "\<And>i. ho_resource (view (w_dev w)) i = None"
    and len: "len = unat (ho_width (view (w_dev w))) * unat (ho_height (view (w_dev w))) * 4"
  shows "\<exists>g common' w'. gpu_new control f queue_at cursor_at framebuffer_at common w = Some (g, common', w') \<and>
    gpu_ok view (phys framebuffer_at) (phys cursor_at) 6 0 g w'
      \<lparr>sc_picture = blank len, sc_cursor_picture = blank 16384, sc_shown = ho_screen (view (w_dev w)), sc_image = blank 16384,
       sc_cursor_image = ho_cursor_image (view (w_dev w)), sc_cursor_at = ho_cursor_at (view (w_dev w))\<rparr> \<and>
    gpu_width g = ho_width (view (w_dev w)) \<and> gpu_height g = ho_height (view (w_dev w))"
proof -
  let ?W = "ho_width (view (w_dev w))" and ?H = "ho_height (view (w_dev w))"
  let ?fb = "phys framebuffer_at" and ?cp = "phys cursor_at"
  let ?A = "gpu_memory ?fb len ?cp"
  have ptrs: "virt_to_phys framebuffer_at = Some ?fb" "virt_to_phys cursor_at = Some ?cp"
    and apart: "apart_bytes ?fb len ?cp 16384" and small: "len < 4294967296" and sz: "4 \<le> unat (vr_queue_size common)"
    using set by (simp_all add: setup_ok_def)
  have at: "case queue_at i of (d, a, u) \<Rightarrow> virt_to_phys d \<noteq> None \<and> virt_to_phys a \<noteq> None \<and> virt_to_phys u \<noteq> None" if "i < 2" for i
    using set [unfolded setup_ok_def, THEN conjunct1, rule_format, OF that] .
  let ?common = "common\<lparr>vr_device_status := 0 OR 1 OR 2\<rparr>"
  obtain q0 common1 where q0: "(case queue_at 0 of (d, a, u) \<Rightarrow> queue_new 0 ?common 4 d a u) = Some (q0, common1)"
    "queue_step 0 q0 0" "4 \<le> unat (vr_queue_size common1)"
    using queue_new_step [OF at [of 0], of ?common 0] sz by auto
  obtain c0 common2 where c0: "(case queue_at 1 of (d, a, u) \<Rightarrow> queue_new 1 common1 4 d a u) = Some (c0, common2)" "queue_step 0 c0 0"
    using queue_new_step [OF at [of 1] q0(3), of 1] by auto
  let ?w1 = "w\<lparr>w_mem := put_bytes ?cp (blank 16384) (w_mem w)\<rparr>"
  have ok: "gpu_frame_ok (f 0)" using f by (simp add: frames_ok_def)
  obtain q2 w2 where 2: "get_resolution control (f 0) q0 ?w1 = Some (?W, ?H, q2, w2)"
    "queue_step 1 q2 (w_used w2)" "view (w_dev w2) = view (w_dev w)" "same_outside (frame_region (f 0)) (w_mem ?w1) (w_mem w2)"
    using get_resolution_ok [OF serves ok, of 0 q0 ?w1] q0(2) w by (auto simp: after_command_def)
  have "unat ?W * unat ?H < usize_end" "unat ?W * unat ?H * 4 < usize_end" using small len by linarith+
  then have area: "umul (unat ?W) (unat ?H) = Some (unat ?W * unat ?H)" "umul (unat ?W * unat ?H) 4 = Some len"
    unfolding len by (simp_all only: umul_def if_True)
  let ?w3 = "w2\<lparr>w_mem := put_bytes ?fb (blank len) (w_mem w2)\<rparr>"
  have q3: "queue_step 1 q2 (w_used ?w3)" and none: "ho_resource (view (w_dev ?w3)) 1 = None" "ho_resource (view (w_dev ?w3)) 2 = None"
    using 2 fresh by simp_all
  obtain q4 w4 q5 w5 q6 w6 where 6:
    "create_resource control (\<lambda>i. f (1 + i)) 1 ?W ?H framebuffer_at (word_of_nat len) q2 ?w3 = Some (q4, w4)"
    "submit control (f 3) (set_scanout_bytes (ctrl_header CmdSetScanout) (full_rect ?W ?H) 0 1) q4 w4 = Some (q5, w5)"
    "create_resource control (\<lambda>i. f (4 + i)) 2 64 64 cursor_at 16384 q5 w5 = Some (q6, w6)" "queue_step 6 q6 (w_used w6)"
    "view (w_dev w6) = (view (w_dev ?w3))\<lparr>ho_resource := (ho_resource (view (w_dev ?w3)))
      (1 \<mapsto> \<lparr>hr_width = ?W, hr_height = ?H, hr_backing = Some (?fb, unat (word_of_nat len :: u32)),
         hr_data = replicate (unat ?W * unat ?H * 4) 0\<rparr>,
       2 \<mapsto> \<lparr>hr_width = 64, hr_height = 64, hr_backing = Some (?cp, 16384), hr_data = replicate 16384 0\<rparr>),
      ho_scanout := Some 1\<rparr>"
    "\<And>a k. {a..<a + k} \<subseteq> ?A \<Longrightarrow> get_bytes a k (w_mem w6) = get_bytes a k (w_mem ?w3)"
    using setup_commands [OF serves f q3 ptrs none, of ?W ?H "word_of_nat len"] by blast
  have u: "unat (word_of_nat len :: u32) = len" using small by (simp add: unsigned_of_nat take_bit_nat_eq_self)
  have picture: "get_bytes ?fb len (w_mem w6) = blank len"
    using 6(6) [of ?fb len] by (simp add: gpu_memory_def get_put_same blank_def)
  have "apart_bytes ?cp 16384 ?fb len" using apart by (auto simp: apart_bytes_def)
  then have "get_bytes ?cp 16384 (w_mem ?w3) = get_bytes ?cp 16384 (w_mem w2)" by (simp add: get_put_other blank_def)
  also have "\<dots> = blank 16384" using same_inside [OF f 2(4), of ?cp 16384] by (simp add: gpu_memory_def get_put_same blank_def)
  finally have cursor_picture: "get_bytes ?cp 16384 (w_mem w6) = blank 16384"
    using 6(6) [of ?cp 16384] by (simp add: gpu_memory_def)
  let ?g = "\<lparr>gpu_controlq = q6, gpu_cursorq = c0, gpu_cursor_used = 0, gpu_width = ?W, gpu_height = ?H,
    gpu_framebuffer = Some \<lparr>ub_ptr = framebuffer_at, ub_layout = \<lparr>lay_size = len, lay_align = 1\<rparr>\<rparr>,
    gpu_cursor_image = \<lparr>ub_ptr = cursor_at, ub_layout = \<lparr>lay_size = 16384, lay_align = 1\<rparr>\<rparr>, gpu_cursor_updated = True\<rparr>"
  have "\<exists>common'. gpu_new control f queue_at cursor_at framebuffer_at common w = Some (?g, common', w6)"
    using q0(1) c0(1) ptrs 2(1) area 6(1-3)
    by (simp add: gpu_new_def zeroed_box_def put_object_def blank_def initialize_cursor_memory_def byte_size_def Let_def)
  moreover have "gpu_ok view ?fb ?cp 6 0 ?g w6
      \<lparr>sc_picture = blank len, sc_cursor_picture = blank 16384, sc_shown = ho_screen (view (w_dev w)), sc_image = blank 16384,
       sc_cursor_image = ho_cursor_image (view (w_dev w)), sc_cursor_at = ho_cursor_at (view (w_dev w))\<rparr>"
    using 6(4,5) c0(2) picture cursor_picture 2(3) u len by (simp add: gpu_ok_def blank_def)
  ultimately show ?thesis by auto
qed

subsection \<open>Sessions\<close>

text \<open>
  What happens to a display: calls of its clients, what they write to the memory of the picture and of
  the cursor, and interrupts with what the registers then read.
\<close>

datatype display_event =
    DrawPicture
  | CursorModified
  | CursorTo u32 u32
  | PaintPicture "u8 list"
  | PaintCursor "u8 list"
  | DisplayInterrupt u8 u32

primrec display_step ::
    "'d device \<Rightarrow> 'd device \<Rightarrow> usize \<Rightarrow> usize \<Rightarrow> (nat \<Rightarrow> gpu_frame) \<Rightarrow> display_event \<Rightarrow> virtio_gpu mutex \<Rightarrow> 'd world \<Rightarrow>
     (virtio_gpu mutex \<times> 'd world) run" where
  "display_step control cursor fb cp f DrawPicture gpu w = display_draw control f gpu w"
| "display_step control cursor fb cp f CursorModified gpu w = display_cursor_image_modified control (f 0) gpu w"
| "display_step control cursor fb cp f (CursorTo x y) gpu w = display_update_cursor cursor (f 0) x y gpu w"
| "display_step control cursor fb cp f (PaintPicture ps) gpu w = Some (gpu, w\<lparr>w_mem := put_bytes fb ps (w_mem w)\<rparr>)"
| "display_step control cursor fb cp f (PaintCursor ps) gpu w = Some (gpu, w\<lparr>w_mem := put_bytes cp ps (w_mem w)\<rparr>)"
| "display_step control cursor fb cp f (DisplayInterrupt isr events) gpu w = do {
     (clear, gpu, w) \<leftarrow> gpu_handle control (f 0) isr events gpu w;
     Some (gpu, w) }"

fun display_run ::
    "'d device \<Rightarrow> 'd device \<Rightarrow> usize \<Rightarrow> usize \<Rightarrow> ((nat \<Rightarrow> gpu_frame) \<times> display_event) list \<Rightarrow> virtio_gpu mutex \<Rightarrow> 'd world \<Rightarrow>
     (virtio_gpu mutex \<times> 'd world) run" where
  "display_run control cursor fb cp [] gpu w = Some (gpu, w)"
| "display_run control cursor fb cp ((f, e) # es) gpu w = do {
     (gpu, w) \<leftarrow> display_step control cursor fb cp f e gpu w;
     display_run control cursor fb cp es gpu w }"

text \<open>The specification.\<close>

primrec screen_step :: "display_event \<Rightarrow> screen_state \<Rightarrow> screen_state" where
  "screen_step DrawPicture s = s\<lparr>sc_shown := sc_picture s\<rparr>"
| "screen_step CursorModified s = s\<lparr>sc_image := sc_cursor_picture s\<rparr>"
| "screen_step (CursorTo x y) s = s\<lparr>sc_cursor_image := sc_image s, sc_cursor_at := (x, y)\<rparr>"
| "screen_step (PaintPicture ps) s = s\<lparr>sc_picture := ps\<rparr>"
| "screen_step (PaintCursor ps) s = s\<lparr>sc_cursor_picture := ps\<rparr>"
| "screen_step (DisplayInterrupt isr events) s = s"

text \<open>The entries that an event takes in the two queues.\<close>

primrec control_cost :: "display_event \<Rightarrow> nat" where
  "control_cost DrawPicture = 2"
| "control_cost CursorModified = 1"
| "control_cost (CursorTo x y) = 0"
| "control_cost (PaintPicture ps) = 0"
| "control_cost (PaintCursor ps) = 0"
| "control_cost (DisplayInterrupt isr events) =
     (if has_device_configuration_interrupt isr \<and> events AND EVENT_DISPLAY \<noteq> 0 then 1 else 0)"

definition cursor_cost :: "display_event \<Rightarrow> nat" where
  "cursor_cost e = (case e of CursorTo x y \<Rightarrow> 1 | _ \<Rightarrow> 0)"

definition display_event_ok :: "usize \<Rightarrow> nat \<Rightarrow> usize \<Rightarrow> (nat \<Rightarrow> gpu_frame) \<times> display_event \<Rightarrow> bool" where
  "display_event_ok fb len cp fe \<longleftrightarrow>
     (case fe of (f, e) \<Rightarrow> frames_ok f (gpu_memory fb len cp) \<and>
       (case e of PaintPicture ps \<Rightarrow> length ps = len | PaintCursor ps \<Rightarrow> length ps = 16384 | _ \<Rightarrow> True))"

text \<open>The driver between two events.\<close>

definition gpu_session_ok ::
    "('d \<Rightarrow> host) \<Rightarrow> usize \<Rightarrow> nat \<Rightarrow> usize \<Rightarrow> nat \<Rightarrow> nat \<Rightarrow> virtio_gpu mutex \<Rightarrow> 'd world \<Rightarrow> screen_state \<Rightarrow> bool" where
  "gpu_session_ok view fb len cp n k gpu w s \<longleftrightarrow>
     gpu = mutex_new (mx_value gpu) \<and> gpu_ok view fb cp n k (mx_value gpu) w s \<and>
     len = unat (gpu_width (mx_value gpu)) * unat (gpu_height (mx_value gpu)) * 4 \<and> apart_bytes fb len cp 16384"

lemma gpu_session_okD:
  assumes "gpu_session_ok view fb len cp n k gpu w s"
  obtains g data where "gpu = mutex_new g" "queue_step n (gpu_controlq g) (w_used w)" "queue_step k (gpu_cursorq g) (gpu_cursor_used g)"
    "ho_resource (view (w_dev w)) 1 = Some \<lparr>hr_width = gpu_width g, hr_height = gpu_height g, hr_backing = Some (fb, len), hr_data = data\<rparr>"
    "ho_resource (view (w_dev w)) 2 = Some \<lparr>hr_width = 64, hr_height = 64, hr_backing = Some (cp, 16384), hr_data = sc_image s\<rparr>"
    "ho_scanout (view (w_dev w)) = Some 1" "ho_screen (view (w_dev w)) = sc_shown s"
    "ho_cursor_image (view (w_dev w)) = sc_cursor_image s" "ho_cursor_at (view (w_dev w)) = sc_cursor_at s"
    "\<not> gpu_cursor_updated g \<Longrightarrow> sc_cursor_image s = sc_image s"
    "get_bytes fb len (w_mem w) = sc_picture s" "get_bytes cp 16384 (w_mem w) = sc_cursor_picture s"
    "len = unat (gpu_width g) * unat (gpu_height g) * 4" "apart_bytes fb len cp 16384"
  using assms unfolding gpu_session_ok_def gpu_ok_def Let_def by blast

lemma gpu_session_okI:
  assumes "queue_step n (gpu_controlq g) (w_used w)" "queue_step k (gpu_cursorq g) (gpu_cursor_used g)"
    "ho_resource (view (w_dev w)) 1 = Some \<lparr>hr_width = gpu_width g, hr_height = gpu_height g, hr_backing = Some (fb, len), hr_data = data\<rparr>"
    "ho_resource (view (w_dev w)) 2 = Some \<lparr>hr_width = 64, hr_height = 64, hr_backing = Some (cp, 16384), hr_data = sc_image s\<rparr>"
    "ho_scanout (view (w_dev w)) = Some 1" "ho_screen (view (w_dev w)) = sc_shown s"
    "ho_cursor_image (view (w_dev w)) = sc_cursor_image s" "ho_cursor_at (view (w_dev w)) = sc_cursor_at s"
    "\<not> gpu_cursor_updated g \<Longrightarrow> sc_cursor_image s = sc_image s"
    "get_bytes fb len (w_mem w) = sc_picture s" "get_bytes cp 16384 (w_mem w) = sc_cursor_picture s"
    "len = unat (gpu_width g) * unat (gpu_height g) * 4" "apart_bytes fb len cp 16384"
  shows "gpu_session_ok view fb len cp n k (mutex_new g) w s"
proof -
  have "gpu_ok view fb cp n k g w s"
    using assms(1-11) unfolding assms(12) gpu_ok_def Let_def by (intro conjI exI [of _ data]) simp_all
  with assms(12,13) show ?thesis by (simp add: gpu_session_ok_def mutex_new_def)
qed

lemma in_gpu_memory: "{fb..<fb + len} \<subseteq> gpu_memory fb len cp" "{cp..<cp + 16384} \<subseteq> gpu_memory fb len cp"
  by (auto simp: gpu_memory_def)

lemma transfer_carries_out:
  assumes f: "frames_ok f A" and mem: "{a..<a + len} \<subseteq> A"
    and res: "ho_resource (view (w_dev w)) i = Some \<lparr>hr_width = width, hr_height = height, hr_backing = Some (a, len), hr_data = data\<rparr>"
    and len: "len = unat width * unat height * 4"
  shows "carries_out view (f j) (Transfer flags width height i) w
    ((view (w_dev w))\<lparr>ho_resource := (ho_resource (view (w_dev w)))(i \<mapsto>
      \<lparr>hr_width = width, hr_height = height, hr_backing = Some (a, len), hr_data = get_bytes a len (w_mem w)\<rparr>)\<rparr>)"
  unfolding carries_out_def
proof (intro allI impI)
  fix m assume "same_outside (frame_region (f j)) (w_mem w) m"
  from same_inside [OF f this mem]
  show "host_step (Transfer flags width height i) m (view (w_dev w)) = Some ((view (w_dev w))\<lparr>ho_resource :=
      (ho_resource (view (w_dev w)))(i \<mapsto>
        \<lparr>hr_width = width, hr_height = height, hr_backing = Some (a, len), hr_data = get_bytes a len (w_mem w)\<rparr>)\<rparr>)"
    by (simp add: res resource_bytes_def len)
qed

lemma header_no_flags: "(ctrl_header t)\<lparr>hdr_flags := 0\<rparr> = ctrl_header t"
  by (simp add: ctrl_header_def)

lemma draw_ok:
  assumes serves: "serves_display control cursor view" and ok: "gpu_session_ok view fb len cp n k gpu w s"
    and f: "frames_ok f (gpu_memory fb len cp)" and n: "n + 2 \<le> 65535"
  shows "\<exists>gpu' w'. display_draw control f gpu w = Some (gpu', w') \<and>
    gpu_session_ok view fb len cp (n + 2) k gpu' w' (s\<lparr>sc_shown := sc_picture s\<rparr>)"
  using ok
proof (cases rule: gpu_session_okD)
  case (1 g data)
  let ?h = "view (w_dev w)" and ?W = "gpu_width g" and ?H = "gpu_height g"
  let ?h1 = "?h\<lparr>ho_resource := (ho_resource ?h)(1 \<mapsto>
    \<lparr>hr_width = ?W, hr_height = ?H, hr_backing = Some (fb, len), hr_data = sc_picture s\<rparr>)\<rparr>"
  have fr: "gpu_frame_ok (f 0)" "gpu_frame_ok (f 1)" using f by (simp_all add: frames_ok_def)
  have "carries_out view (f 0) (Transfer 0 ?W ?H 1) w ?h1"
    using transfer_carries_out [where view = view, OF f in_gpu_memory(1) 1(4) 1(13)] 1(11) by simp
  from submit_ok [OF serves fr(1) 1(2) _ _ _ this] n obtain q1 w1 where
    s1: "submit control (f 0) (request_bytes (Transfer 0 ?W ?H 1)) (gpu_controlq g) w = Some (q1, w1)"
    "after_command view (f 0) n ?h1 w q1 w1" by auto
  then have a1: "queue_step (n + 1) q1 (w_used w1)" "view (w_dev w1) = ?h1" "same_outside (frame_region (f 0)) (w_mem w) (w_mem w1)"
    by (simp_all add: after_command_def)
  let ?h2 = "?h1\<lparr>ho_screen := sc_picture s\<rparr>"
  have "carries_out view (f 1) (Flush ?W ?H 1) w1 ?h2" using 1(6) by (simp add: carries_out_def a1(2))
  from submit_ok [OF serves fr(2) a1(1) _ _ _ this] n obtain q2 w2 where
    s2: "submit control (f 1) (request_bytes (Flush ?W ?H 1)) q1 w1 = Some (q2, w2)"
    "after_command view (f 1) (n + 1) ?h2 w1 q2 w2" by auto
  then have a2: "queue_step (n + 2) q2 (w_used w2)" "view (w_dev w2) = ?h2" "same_outside (frame_region (f 1)) (w_mem w1) (w_mem w2)"
    by (simp_all add: after_command_def)
  have "display_draw control f gpu w = Some (mutex_new (g\<lparr>gpu_controlq := q2\<rparr>), w2)"
    using s1(1) s2(1) unfolding 1(1)
    by (simp add: display_draw_def mutex_lock_def mutex_new_def mutex_unlock_def header_no_flags Let_def)
  moreover have "gpu_session_ok view fb len cp (n + 2) k (mutex_new (g\<lparr>gpu_controlq := q2\<rparr>)) w2 (s\<lparr>sc_shown := sc_picture s\<rparr>)"
    using 1 a2(1,2) same_inside [OF f a1(3) in_gpu_memory(1)] same_inside [OF f a2(3) in_gpu_memory(1)]
      same_inside [OF f a1(3) in_gpu_memory(2)] same_inside [OF f a2(3) in_gpu_memory(2)]
    by (intro gpu_session_okI [where data = "sc_picture s"]) simp_all
  ultimately show ?thesis by blast
qed

lemma cursor_modified_ok:
  assumes serves: "serves_display control cursor view" and ok: "gpu_session_ok view fb len cp n k gpu w s"
    and f: "frames_ok f (gpu_memory fb len cp)" and n: "n + 1 \<le> 65535"
  shows "\<exists>gpu' w'. display_cursor_image_modified control (f 0) gpu w = Some (gpu', w') \<and>
    gpu_session_ok view fb len cp (n + 1) k gpu' w' (s\<lparr>sc_image := sc_cursor_picture s\<rparr>)"
  using ok
proof (cases rule: gpu_session_okD)
  case (1 g data)
  let ?h = "view (w_dev w)"
  let ?h1 = "?h\<lparr>ho_resource := (ho_resource ?h)(2 \<mapsto>
    \<lparr>hr_width = 64, hr_height = 64, hr_backing = Some (cp, 16384), hr_data = sc_cursor_picture s\<rparr>)\<rparr>"
  have fr: "gpu_frame_ok (f 0)" using f by (simp add: frames_ok_def)
  have "carries_out view (f 0) (Transfer FLAG_FENCE 64 64 2) w ?h1"
    using transfer_carries_out [where view = view, OF f in_gpu_memory(2) 1(5)] 1(12) by simp
  from submit_ok [OF serves fr 1(2) _ _ _ this] n obtain q1 w1 where
    s1: "submit control (f 0) (request_bytes (Transfer FLAG_FENCE 64 64 2)) (gpu_controlq g) w = Some (q1, w1)"
    "after_command view (f 0) n ?h1 w q1 w1" by auto
  then have a1: "queue_step (n + 1) q1 (w_used w1)" "view (w_dev w1) = ?h1" "same_outside (frame_region (f 0)) (w_mem w) (w_mem w1)"
    by (simp_all add: after_command_def)
  have "display_cursor_image_modified control (f 0) gpu w =
      Some (mutex_new (g\<lparr>gpu_controlq := q1, gpu_cursor_updated := True\<rparr>), w1)"
    using s1(1) unfolding 1(1)
    by (simp add: display_cursor_image_modified_def mutex_lock_def mutex_new_def mutex_unlock_def)
  moreover have "gpu_session_ok view fb len cp (n + 1) k (mutex_new (g\<lparr>gpu_controlq := q1, gpu_cursor_updated := True\<rparr>)) w1
      (s\<lparr>sc_image := sc_cursor_picture s\<rparr>)"
    using 1 a1(1,2) same_inside [OF f a1(3) in_gpu_memory(1)] same_inside [OF f a1(3) in_gpu_memory(2)]
    by (intro gpu_session_okI [where data = data]) simp_all
  ultimately show ?thesis by blast
qed

lemma interrupt_ok:
  assumes serves: "serves_display control cursor view" and ok: "gpu_session_ok view fb len cp n k gpu w s"
    and f: "frames_ok f (gpu_memory fb len cp)" and n: "n + control_cost (DisplayInterrupt isr events) \<le> 65535"
  shows "\<exists>clear gpu' w'. gpu_handle control (f 0) isr events gpu w = Some (clear, gpu', w') \<and>
    gpu_session_ok view fb len cp (n + control_cost (DisplayInterrupt isr events)) k gpu' w' s"
proof (cases "has_device_configuration_interrupt isr \<and> events AND EVENT_DISPLAY \<noteq> 0")
  case True
  show ?thesis
    using ok
  proof (cases rule: gpu_session_okD)
    case (1 g data)
    have fr: "gpu_frame_ok (f 0)" using f by (simp add: frames_ok_def)
    obtain q1 w1 where s1: "get_resolution control (f 0) (gpu_controlq g) w =
        Some (ho_width (view (w_dev w)), ho_height (view (w_dev w)), q1, w1)"
      "queue_step (n + 1) q1 (w_used w1)" "view (w_dev w1) = view (w_dev w)"
      "same_outside (frame_region (f 0)) (w_mem w) (w_mem w1)"
      using get_resolution_ok [OF serves fr 1(2)] n True by (auto simp: after_command_def)
    have "gpu_handle control (f 0) isr events gpu w = Some (Some EVENT_DISPLAY, mutex_new (g\<lparr>gpu_controlq := q1\<rparr>), w1)"
      using True s1(1) unfolding 1(1) by (simp add: gpu_handle_def mutex_lock_def mutex_new_def mutex_unlock_def)
    moreover have "gpu_session_ok view fb len cp (n + 1) k (mutex_new (g\<lparr>gpu_controlq := q1\<rparr>)) w1 s"
      using 1 s1(2,3) same_inside [OF f s1(4) in_gpu_memory(1)] same_inside [OF f s1(4) in_gpu_memory(2)]
      by (intro gpu_session_okI [where data = data]) simp_all
    ultimately show ?thesis using True by auto
  qed
next
  case False
  have "gpu = mutex_new (mx_value gpu)" using ok by (simp add: gpu_session_ok_def)
  then have "mutex_lock gpu = Some (gpu\<lparr>mx_locked := True\<rparr>, mx_value gpu)" "mutex_unlock (gpu\<lparr>mx_locked := True\<rparr>) (mx_value gpu) = gpu"
    by (cases gpu; simp add: mutex_lock_def mutex_new_def mutex_unlock_def)+
  then have "gpu_handle control (f 0) isr events gpu w = Some (None, gpu, w)" using False by (auto simp: gpu_handle_def)
  with False ok show ?thesis by auto
qed

lemma update_cursor_ok:
  assumes serves: "serves_display control cursor view" and ok: "gpu_session_ok view fb len cp n k gpu w s"
    and f: "frames_ok f (gpu_memory fb len cp)" and k: "k + 1 \<le> 65535"
  shows "\<exists>gpu' w'. display_update_cursor cursor (f 0) x y gpu w = Some (gpu', w') \<and>
    gpu_session_ok view fb len cp n (k + 1) gpu' w' (s\<lparr>sc_cursor_image := sc_image s, sc_cursor_at := (x, y)\<rparr>)"
  using ok
proof (cases rule: gpu_session_okD)
  case (1 g data)
  let ?h = "view (w_dev w)" and ?a = "phys (gf_request (f 0))"
  let ?g = "g\<lparr>gpu_cursor_updated := False\<rparr>"
  let ?r = "if gpu_cursor_updated g then UpdateCursor 2 x y else MoveCursor 2 x y"
  let ?h1 = "?h\<lparr>ho_cursor_image := sc_image s, ho_cursor_at := (x, y)\<rparr>"
  have step: "cursor_step ?r ?h = Some ?h1"
  proof -
    have "?h\<lparr>ho_cursor_image := ho_cursor_image ?h\<rparr> = ?h" by simp
    then show ?thesis using 1(5,8,10) by auto
  qed
  have fr: "gpu_frame_ok (f 0)" using f by (simp add: frames_ok_def)
  then have v: "virt_to_phys (gf_request (f 0)) = Some ?a" by (simp add: gpu_frame_ok_def)
  have len: "length (q_descriptors (gpu_cursorq g)) = 4" using 1(3) by (simp add: queue_step_def)
  then have ne: "q_descriptors (gpu_cursorq g) \<noteq> []" by auto
  let ?m = "put_bytes ?a (cursor_bytes ?r) (w_mem w)"
  let ?q = "(gpu_cursorq g)\<lparr>q_descriptors := (q_descriptors (gpu_cursorq g))[0 :=
    \<lparr>d_address = ?a, d_length = 56, d_flags = 0, d_next = 0\<rparr>]\<rparr>"
  have put: "descriptor_readonly 0 (gf_request (f 0)) 56 None (gpu_cursorq g) = Some ?q"
    using v ne by (simp add: descriptor_readonly_def put_descriptor_def)
  have d0: "q_descriptors ?q ! 0 = \<lparr>d_address = ?a, d_length = length (cursor_bytes ?r), d_flags = 0, d_next = 0\<rparr>"
    using ne by simp
  have bytes: "get_bytes ?a (length (cursor_bytes ?r)) ?m = cursor_bytes ?r" by (rule get_put_same) simp
  obtain d' where d': "cursor (w_dev w) ?m (q_descriptors ?q) 0 = (d', ?m)" "view d' = ?h1"
    using serves_cursor [OF serves d0 bytes step] by blast
  let ?w = "w\<lparr>w_mem := ?m, w_used := gpu_cursor_used g\<rparr>"
  have qs: "queue_step k ?q (w_used ?w)" using 1(3) by (simp add: queue_step_def)
  obtain q' where q': "send_and_recv cursor 0 ?q ?w = Some (q', ?w\<lparr>w_dev := d', w_mem := ?m, w_used := word_of_nat (k + 1)\<rparr>)"
    "queue_step (k + 1) q' (word_of_nat (k + 1))"
    using send_step [OF qs, of cursor d' ?m] d'(1) k by auto
  let ?g' = "?g\<lparr>gpu_cursorq := q', gpu_cursor_used := word_of_nat (k + 1)\<rparr>"
  let ?w' = "w\<lparr>w_dev := d', w_mem := ?m\<rparr>"
  have g: "g\<lparr>gpu_cursor_updated := False\<rparr> = g" if "\<not> gpu_cursor_updated g" using that by (cases g) simp
  have "display_update_cursor cursor (f 0) x y gpu w = Some (mutex_new ?g', ?w')"
    using v put q'(1) g length_cursor_request [of ?r] unfolding 1(1)
    by (auto simp: display_update_cursor_def mutex_lock_def mutex_new_def mutex_unlock_def put_object_def Let_def split: if_splits)
  moreover have same: "same_outside (frame_region (f 0)) (w_mem w) ?m"
    using frame_parts(1) [of "f 0"] by (intro put_bytes_outside) simp
  have "gpu_session_ok view fb len cp n (k + 1) (mutex_new ?g') ?w' (s\<lparr>sc_cursor_image := sc_image s, sc_cursor_at := (x, y)\<rparr>)"
    using 1 d'(2) q'(2) same_inside [OF f same in_gpu_memory(1)] same_inside [OF f same in_gpu_memory(2)]
    by (intro gpu_session_okI [where data = data]) simp_all
  ultimately show ?thesis by blast
qed

lemma display_step_ok:
  assumes serves: "serves_display control cursor view" and ok: "gpu_session_ok view fb len cp n k gpu w s"
    and e: "display_event_ok fb len cp (f, e)" and n: "n + control_cost e \<le> 65535" and k: "k + cursor_cost e \<le> 65535"
  shows "\<exists>gpu' w'. display_step control cursor fb cp f e gpu w = Some (gpu', w') \<and>
    gpu_session_ok view fb len cp (n + control_cost e) (k + cursor_cost e) gpu' w' (screen_step e s)"
proof -
  have f: "frames_ok f (gpu_memory fb len cp)" using e by (simp add: display_event_ok_def)
  show ?thesis
  proof (cases e)
    case (PaintPicture ps)
    then have ps: "length ps = len" using e by (simp add: display_event_ok_def)
    show ?thesis using ok
    proof (cases rule: gpu_session_okD)
      case (1 g data)
      have "apart_bytes cp 16384 fb len" using 1(14) by (auto simp: apart_bytes_def)
      then show ?thesis unfolding 1(1)
        using 1 ps PaintPicture by (auto intro!: gpu_session_okI [where data = data] simp: cursor_cost_def get_put_same get_put_other)
    qed
  next
    case (PaintCursor ps)
    then have ps: "length ps = 16384" using e by (simp add: display_event_ok_def)
    show ?thesis using ok
    proof (cases rule: gpu_session_okD)
      case (1 g data)
      then show ?thesis unfolding 1(1)
        using ps PaintCursor by (auto intro!: gpu_session_okI [where data = data] simp: cursor_cost_def get_put_same get_put_other)
    qed
  next
    case (DisplayInterrupt isr events)
    with interrupt_ok [OF serves ok f, of isr events] n show ?thesis
      by (auto simp: cursor_cost_def simp del: control_cost.simps)
  qed (use n k draw_ok [OF serves ok f] cursor_modified_ok [OF serves ok f] update_cursor_ok [OF serves ok f]
      in \<open>auto simp: cursor_cost_def\<close>)
qed

lemma display_run_ok:
  assumes serves: "serves_display control cursor view"
  shows "gpu_session_ok view fb len cp n k gpu w s \<Longrightarrow> list_all (display_event_ok fb len cp) es \<Longrightarrow>
    n + sum_list (map (control_cost \<circ> snd) es) \<le> 65535 \<Longrightarrow> k + sum_list (map (cursor_cost \<circ> snd) es) \<le> 65535 \<Longrightarrow>
    \<exists>gpu' w' n' k'. display_run control cursor fb cp es gpu w = Some (gpu', w') \<and>
      gpu_session_ok view fb len cp n' k' gpu' w' (fold screen_step (map snd es) s)"
proof (induction es arbitrary: n k gpu w s)
  case (Cons fe es)
  obtain f e where fe: "fe = (f, e)" by (cases fe)
  have "display_event_ok fb len cp (f, e)" "n + control_cost e \<le> 65535" "k + cursor_cost e \<le> 65535"
    using Cons.prems fe by simp_all
  from display_step_ok [OF serves Cons.prems(1) this] obtain gpu1 w1 where
    1: "display_step control cursor fb cp f e gpu w = Some (gpu1, w1)"
    "gpu_session_ok view fb len cp (n + control_cost e) (k + cursor_cost e) gpu1 w1 (screen_step e s)" by blast
  from Cons.IH [OF 1(2)] Cons.prems fe 1(1) show ?case by simp
qed auto

text \<open>The driver cannot do more than 65535 commands, and not more than 65535 movements of the cursor.\<close>

lemma cursor_overflows:
  assumes "gpu_session_ok view fb len cp n 65535 gpu w s" "frames_ok f (gpu_memory fb len cp)"
  shows "display_update_cursor cursor (f 0) x y gpu w = None"
  using assms(1)
proof (cases rule: gpu_session_okD)
  case (1 g data)
  have "queue_step 65535 q (gpu_cursor_used g)" if "descriptor_readonly i a l nx (gpu_cursorq g) = Some q" for i a l nx q
    using that 1(3) by (auto simp: descriptor_readonly_def put_descriptor_def queue_step_def run_Some split: if_splits)
  note none = last_step_overflows [OF this]
  then show ?thesis unfolding 1(1)
    by (auto simp: display_update_cursor_def mutex_lock_def mutex_new_def bind_eq_None_conv Let_def intro: none split: if_splits)
qed

text \<open>
  C37: the driver of displays implements a screen.  With a device that behaves as documented, the set-up
  succeeds, and over any session of drawings, changes and movements of the cursor, interrupts and
  writes of clients to the memory of the picture and of the cursor, the device then shows the picture
  that was in memory at the last drawing, and the cursor at its last place with the image of its last
  modification before that; as long as there are at most 65529 commands and 65535 movements of the
  cursor, since the indices of the queues do not wrap around.
\<close>

theorem display_is_screen:
  assumes "serves_display control cursor view" "frames_ok f (gpu_memory (phys framebuffer_at) len (phys cursor_at))"
    and "setup_ok queue_at cursor_at framebuffer_at common len" "w_used w = 0" "\<forall>i. ho_resource (view (w_dev w)) i = None"
    and "len = unat (ho_width (view (w_dev w))) * unat (ho_height (view (w_dev w))) * 4"
    and "list_all (display_event_ok (phys framebuffer_at) len (phys cursor_at)) es"
    and "sum_list (map (control_cost \<circ> snd) es) \<le> 65529" "sum_list (map (cursor_cost \<circ> snd) es) \<le> 65535"
    and "s = fold screen_step (map snd es)
      \<lparr>sc_picture = replicate len 0, sc_cursor_picture = replicate 16384 0, sc_shown = ho_screen (view (w_dev w)),
       sc_image = replicate 16384 0, sc_cursor_image = ho_cursor_image (view (w_dev w)), sc_cursor_at = ho_cursor_at (view (w_dev w))\<rparr>"
  shows "\<exists>g common' w' gpu w''. gpu_new control f queue_at cursor_at framebuffer_at common w = Some (g, common', w') \<and>
    display_run control cursor (phys framebuffer_at) (phys cursor_at) es (mutex_new g) w' = Some (gpu, w'') \<and>
    ho_screen (view (w_dev w'')) = sc_shown s \<and> ho_cursor_image (view (w_dev w'')) = sc_cursor_image s \<and>
    ho_cursor_at (view (w_dev w'')) = sc_cursor_at s"
proof -
  obtain g common' w' where new: "gpu_new control f queue_at cursor_at framebuffer_at common w = Some (g, common', w')"
    "gpu_ok view (phys framebuffer_at) (phys cursor_at) 6 0 g w'
      \<lparr>sc_picture = replicate len 0, sc_cursor_picture = replicate 16384 0, sc_shown = ho_screen (view (w_dev w)),
       sc_image = replicate 16384 0, sc_cursor_image = ho_cursor_image (view (w_dev w)), sc_cursor_at = ho_cursor_at (view (w_dev w))\<rparr>"
    "gpu_width g = ho_width (view (w_dev w))" "gpu_height g = ho_height (view (w_dev w))"
    using gpu_new_ok [OF assms(1-4) assms(5) [rule_format] assms(6)] by blast
  then have ok: "gpu_session_ok view (phys framebuffer_at) len (phys cursor_at) 6 0 (mutex_new g) w'
      \<lparr>sc_picture = replicate len 0, sc_cursor_picture = replicate 16384 0, sc_shown = ho_screen (view (w_dev w)),
       sc_image = replicate 16384 0, sc_cursor_image = ho_cursor_image (view (w_dev w)), sc_cursor_at = ho_cursor_at (view (w_dev w))\<rparr>"
    using assms(3,6) by (simp add: gpu_session_ok_def mutex_new_def setup_ok_def)
  from display_run_ok [OF assms(1) ok assms(7)] assms(8,9) obtain gpu w'' n' k' where
    run: "display_run control cursor (phys framebuffer_at) (phys cursor_at) es (mutex_new g) w' = Some (gpu, w'')"
    "gpu_session_ok view (phys framebuffer_at) len (phys cursor_at) n' k' gpu w'' s" unfolding assms(10) by auto
  from run(2) show ?thesis by (cases rule: gpu_session_okD) (use new(1) run(1) in blast)
qed

text \<open>
  The memory of the picture has exactly the bytes of its pixels, so on a display whose size is not a
  multiple of a page in bytes, the first client that maps it stops the kernel.
\<close>

lemma odd_display_panics:
  assumes "gpu_framebuffer g = Some b" "byte_size b mod 4096 \<noteq> 0"
  shows "shared_memory_map st (HShared (the (gpu_framebuffer g))) virt table vmms = None"
proof -
  have "check_mapping virt phys (byte_size b) = None" for phys
    using assms(2) by (auto simp: check_mapping_def PAGE_SIZE_def is_multiple_of_def bind_eq_None_conv)
  then show ?thesis using assms(1) by (auto simp: shared_memory_map_def backing_map_def table_map_def bind_eq_None_conv)
qed

subsection \<open>A device\<close>

definition response_bytes :: "gpu_request \<Rightarrow> host \<Rightarrow> u8 list" where
  "response_bytes r h =
     (if r = GetDisplayInfo
      then u32_bytes (ctrl_code RespOkDisplayInfo) @ replicate 20 0 @ rect_bytes (full_rect (ho_width h) (ho_height h)) @
        u32_bytes 1 @ replicate 364 0
      else u32_bytes (ctrl_code RespOkNodata) @ replicate 20 0)"

text \<open>The request that the bytes of a request and of an entry of memory stand for.\<close>

definition decode_request :: "u8 list \<Rightarrow> u8 list \<Rightarrow> gpu_request option" where
  "decode_request req entry =
     (let type = u32_field 0 req; f = (\<lambda>i. u32_field i req) in
      if type = ctrl_code CmdGetDisplayInfo then Some GetDisplayInfo
      else if type = ctrl_code CmdResourceCreate2D then Some (CreateResource (f 24) (f 32) (f 36))
      else if type = ctrl_code CmdResourceAttachBacking then Some (AttachBacking (f 24) (field 0 8 entry) (u32_field 8 entry))
      else if type = ctrl_code CmdSetScanout then Some (Scanout (f 32) (f 36) (f 44))
      else if type = ctrl_code CmdTransferToHost2D then Some (Transfer (f 4) (f 32) (f 36) (f 48))
      else if type = ctrl_code CmdResourceFlush then Some (Flush (f 32) (f 36) (f 40))
      else None)"

definition decode_cursor :: "u8 list \<Rightarrow> cursor_request" where
  "decode_cursor req =
     (if u32_field 0 req = ctrl_code CmdUpdateCursor then UpdateCursor (u32_field 40 req) (u32_field 28 req) (u32_field 32 req)
      else MoveCursor (u32_field 40 req) (u32_field 28 req) (u32_field 32 req))"

definition ideal_control :: "host device" where
  "ideal_control h m ds head =
     (let d0 = ds ! unat head; d1 = ds ! unat (d_next d0);
          response = (if d_flags d1 = 1 then ds ! unat (d_next d1) else d1) in
      case decode_request (get_bytes (d_address d0) (d_length d0) m) (get_bytes (d_address d1) (d_length d1) m) of
        None \<Rightarrow> (h, put_bytes (d_address response) (u32_bytes (ctrl_code RespErrUnspec)) m)
      | Some r \<Rightarrow>
          (case host_step r m h of
             None \<Rightarrow> (h, put_bytes (d_address response) (u32_bytes (ctrl_code RespErrUnspec)) m)
           | Some h' \<Rightarrow> (h', put_bytes (d_address response) (response_bytes r h') m)))"

definition ideal_cursor :: "host device" where
  "ideal_cursor h m ds head =
     (let d0 = ds ! unat head in
      case cursor_step (decode_cursor (get_bytes (d_address d0) (d_length d0) m)) h of
        None \<Rightarrow> (h, m)
      | Some h' \<Rightarrow> (h', m))"

lemma u32_field_bytes: "u32_field 0 (u32_bytes w @ rest) = w"
proof -
  have "unat w < 4294967296" using unsigned_less [of w] by simp
  then show ?thesis by (simp add: u32_field_def field_def field_bytes_def u32_bytes_def le_nat_bytes)
qed

lemma u32_field_skip: "length xs \<le> i \<Longrightarrow> u32_field i (xs @ rest) = u32_field (i - length xs) rest"
  by (simp add: u32_field_def field_def field_bytes_def)

lemma field_u64: "n < usize_end \<Longrightarrow> field 0 8 (u64_bytes n @ rest) = n"
  by (simp add: field_def field_bytes_def u64_bytes_def le_nat_bytes)

lemma u32_field_Cons: "0 < i \<Longrightarrow> u32_field i (x # rest) = u32_field (i - 1) rest"
  using u32_field_skip [of "[x]" i rest] by simp

lemmas field_simps = u32_field_bytes u32_field_bytes [where rest = "[]", simplified] u32_field_skip u32_field_Cons

lemma decode_encode:
  assumes "\<And>i addr len. r = AttachBacking i addr len \<Longrightarrow> entry = mem_entry_bytes addr len \<and> addr < usize_end"
  shows "decode_request (request_bytes r) entry = Some r"
proof (cases r)
  case (AttachBacking i addr len)
  then have "entry = mem_entry_bytes addr len" "addr < usize_end" using assms by blast+
  then show ?thesis
    using AttachBacking field_u64 [of addr]
    by (simp add: decode_request_def Let_def ctrl_hdr_bytes_def ctrl_header_def resource_attach_backing_bytes_def
        mem_entry_bytes_def field_simps)
qed (simp_all add: decode_request_def Let_def ctrl_hdr_bytes_def ctrl_header_def resource_create_2d_bytes_def
    set_scanout_bytes_def transfer_to_host_2d_bytes_def resource_flush_bytes_def rect_bytes_def field_simps)

lemma decode_cursor_bytes: "decode_cursor (cursor_bytes r) = r"
  by (cases r) (simp_all add: decode_cursor_def update_cursor_bytes_def ctrl_hdr_bytes_def ctrl_header_def
    cursor_pos_bytes_def field_simps)

lemma response_answers: "answers r h (response_bytes r h)"
  by (simp add: answers_def response_bytes_def display_enabled_def display_rect_def rect_bytes_def field_simps)

lemma length_response: "length (response_bytes r h) = response_size (response_type r)"
  by (simp add: response_bytes_def response_size_def MAX_SCANOUTS_def rect_bytes_def)

lemma ideal_serves_display: "serves_display ideal_control ideal_cursor (\<lambda>h. h)"
  unfolding serves_display_def
proof (intro conjI allI impI)
  fix h :: host and m ds r s h'
  assume c: "request_chain r ds s m" and step: "host_step r m h = Some h'"
  have "ideal_control h m ds 0 = (h', put_bytes s (response_bytes r h') m)"
  proof (cases "\<exists>i addr len. r = AttachBacking i addr len")
    case True
    then obtain i addr len where r: "r = AttachBacking i addr len" by blast
    with c obtain e a where ch: "ds ! 0 = \<lparr>d_address = a, d_length = length (request_bytes r), d_flags = 1, d_next = 1\<rparr>"
      "get_bytes a (length (request_bytes r)) m = request_bytes r"
      "ds ! 1 = \<lparr>d_address = e, d_length = 16, d_flags = 1, d_next = 2\<rparr>" "get_bytes e 16 m = mem_entry_bytes addr len"
      "addr < usize_end" "d_address (ds ! 2) = s"
      by (auto simp: request_chain_def)
    have "decode_request (request_bytes r) (mem_entry_bytes addr len) = Some r"
      by (rule decode_encode) (use r ch(5) in auto)
    with ch(1-4,6) step show ?thesis by (simp add: ideal_control_def)
  next
    case False
    with c obtain a where ch: "ds ! 0 = \<lparr>d_address = a, d_length = length (request_bytes r), d_flags = 1, d_next = 1\<rparr>"
      "get_bytes a (length (request_bytes r)) m = request_bytes r"
      "ds ! 1 = \<lparr>d_address = s, d_length = response_size (response_type r), d_flags = 2, d_next = 0\<rparr>"
      by (auto simp: request_chain_def split: gpu_request.splits)
    have "decode_request (request_bytes r) entry = Some r" for entry
      by (rule decode_encode) (use False in auto)
    with ch step show ?thesis by (simp add: ideal_control_def)
  qed
  moreover have "get_bytes s (response_size (response_type r)) (put_bytes s (response_bytes r h') m) = response_bytes r h'"
    by (rule get_put_same) (rule length_response)
  ultimately show "case ideal_control h m ds 0 of (d', m') \<Rightarrow>
      d' = h' \<and> answers r h' (get_bytes s (response_size (response_type r)) m') \<and>
      (\<forall>x. x < s \<or> s + response_size (response_type r) \<le> x \<longrightarrow> m' x = m x)"
    by (auto simp: response_answers put_bytes_def length_response)
next
  fix h :: host and m ds a r h'
  assume "ds ! 0 = \<lparr>d_address = a, d_length = length (cursor_bytes r), d_flags = 0, d_next = 0\<rparr>"
    "get_bytes a (length (cursor_bytes r)) m = cursor_bytes r" "cursor_step r h = Some h'"
  then show "case ideal_cursor h m ds 0 of (d', m') \<Rightarrow> d' = h' \<and> m' = m"
    by (simp add: ideal_cursor_def decode_cursor_bytes)
qed

definition demo_gpu_frame :: "nat \<Rightarrow> gpu_frame" where
  "demo_gpu_frame i = \<lparr>gf_request = 0x10000 + upper_half, gf_entry = 0x10040 + upper_half, gf_response = 0x10100 + upper_half\<rparr>"

definition demo_host :: host where
  "demo_host = \<lparr>ho_width = 2, ho_height = 1, ho_resource = Map.empty, ho_scanout = None, ho_screen = [],
     ho_cursor_image = [], ho_cursor_at = (0, 0)\<rparr>"

definition demo_display_events :: "((nat \<Rightarrow> gpu_frame) \<times> display_event) list" where
  "demo_display_events = map (Pair demo_gpu_frame)
     [PaintPicture [1, 2, 3, 4, 5, 6, 7, 8], DrawPicture, PaintPicture [0, 0, 0, 0, 0, 0, 0, 0], CursorTo 5 6]"

theorem display_is_screen_witness:
  "\<exists>g common' w' gpu w''.
     gpu_new ideal_control demo_gpu_frame (\<lambda>i. (upper_half, upper_half, upper_half)) (0x8000 + upper_half) (0x4000 + upper_half)
       demo_common \<lparr>w_dev = demo_host, w_mem = \<lambda>_. 0, w_used = 0\<rparr> = Some (g, common', w') \<and>
     display_run ideal_control ideal_cursor 0x4000 0x8000 demo_display_events (mutex_new g) w' = Some (gpu, w'') \<and>
     ho_screen (w_dev w'') = [1, 2, 3, 4, 5, 6, 7, 8] \<and> ho_cursor_at (w_dev w'') = (5, 6)"
proof -
  have v: "virt_to_phys (p + upper_half) = Some p" "phys (p + upper_half) = p" if "p < 0x20000" for p
    using virt_to_phys_upper [of p] that by (simp_all add: phys_def)
  note at = v [of 0] v [of "0x4000"] v [of "0x8000"] v [of "0x10000"] v [of "0x10040"] v [of "0x10100"]
  have f: "frames_ok demo_gpu_frame (gpu_memory 0x4000 8 0x8000)"
    using at by (auto simp: frames_ok_def gpu_frame_ok_def demo_gpu_frame_def apart_bytes_def frame_region_def gpu_memory_def)
  have set: "setup_ok (\<lambda>i. (upper_half, upper_half, upper_half)) (0x8000 + upper_half) (0x4000 + upper_half) demo_common 8"
    using at by (simp add: setup_ok_def demo_common_def apart_bytes_def)
  let ?w = "\<lparr>w_dev = demo_host, w_mem = \<lambda>_. 0, w_used = 0\<rparr>"
  have es: "list_all (display_event_ok 0x4000 8 0x8000) demo_display_events"
    using f by (simp add: demo_display_events_def display_event_ok_def)
  have costs: "sum_list (map (control_cost \<circ> snd) demo_display_events) \<le> 65529"
    "sum_list (map (cursor_cost \<circ> snd) demo_display_events) \<le> 65535"
    by (simp_all add: demo_display_events_def cursor_cost_def)
  have phys: "phys (0x4000 + upper_half) = 0x4000" "phys (0x8000 + upper_half) = 0x8000" using at by simp_all
  have fresh: "\<forall>i. ho_resource (w_dev ?w) i = None" and eight: "8 = unat (ho_width (w_dev ?w)) * unat (ho_height (w_dev ?w)) * 4"
    and used: "w_used ?w = 0" by (simp_all add: demo_host_def)
  obtain s where s: "s = fold screen_step (map snd demo_display_events)
    \<lparr>sc_picture = replicate 8 0, sc_cursor_picture = replicate 16384 0, sc_shown = ho_screen (w_dev ?w),
     sc_image = replicate 16384 0, sc_cursor_image = ho_cursor_image (w_dev ?w), sc_cursor_at = ho_cursor_at (w_dev ?w)\<rparr>" by blast
  then have shown: "sc_shown s = [1, 2, 3, 4, 5, 6, 7, 8]" "sc_cursor_at s = (5, 6)"
    unfolding demo_display_events_def by simp_all
  show ?thesis
    using display_is_screen [OF ideal_serves_display _ set used fresh eight _ costs s, unfolded phys, OF f es]
    unfolding shown by metis
qed

end
