(* ===== verification/Input_Driver.thy ===== *)
theory Input_Driver
  imports Virtio Page_Table Ring_Buffer Input_Events
begin

text \<open>
  The driver of input devices (\<open>kernel/src/virtio/input.rs\<close>, \<open>kernel/src/virtio/input/\<close>): the set-up
  of its queue, its interrupts, and the server of the \<open>input_device\<close> interface.

  The buffers that the device fills are a list of events.  The configuration of the device is a
  parameter: the size and the 128 bytes that can be read for a selector and a sub-selector.
\<close>

subsection \<open>Text\<close>

text \<open>
  \<open>str::from_utf8\<close> of the standard library: what is left of a character, and the range of its next
  byte.
\<close>

definition utf8_start :: "u8 \<Rightarrow> (nat \<times> u8 \<times> u8) option" where
  "utf8_start b =
     (if b < 0x80 then Some (0, 0x80, 0xBF)
      else if b < 0xC2 then None
      else if b < 0xE0 then Some (1, 0x80, 0xBF)
      else if b = 0xE0 then Some (2, 0xA0, 0xBF)
      else if b = 0xED then Some (2, 0x80, 0x9F)
      else if b < 0xF0 then Some (2, 0x80, 0xBF)
      else if b = 0xF0 then Some (3, 0x90, 0xBF)
      else if b < 0xF4 then Some (3, 0x80, 0xBF)
      else if b = 0xF4 then Some (3, 0x80, 0x8F)
      else None)"

fun utf8_rest :: "nat \<times> u8 \<times> u8 \<Rightarrow> u8 list \<Rightarrow> bool" where
  "utf8_rest (n, lo, hi) [] \<longleftrightarrow> n = 0"
| "utf8_rest (n, lo, hi) (b # bs) \<longleftrightarrow>
     (if n = 0 then (case utf8_start b of None \<Rightarrow> False | Some st \<Rightarrow> utf8_rest st bs)
      else lo \<le> b \<and> b \<le> hi \<and> utf8_rest (n - 1, 0x80, 0xBF) bs)"

definition str_from_utf8 :: "u8 list \<Rightarrow> u8 list run" where
  "str_from_utf8 bs = (if utf8_rest (0, 0x80, 0xBF) bs then Some bs else None)"

subsection \<open>The configuration of the device\<close>

datatype config_select = CfgUnset | CfgIdName | CfgIdSerial | CfgIdDevids | CfgPropBits | CfgEvBits | CfgAbsInfo

primrec config_select_code :: "config_select \<Rightarrow> u8" where
  "config_select_code CfgUnset = 0x00"
| "config_select_code CfgIdName = 0x01"
| "config_select_code CfgIdSerial = 0x02"
| "config_select_code CfgIdDevids = 0x03"
| "config_select_code CfgPropBits = 0x10"
| "config_select_code CfgEvBits = 0x11"
| "config_select_code CfgAbsInfo = 0x12"

type_synonym input_config = "u8 \<Rightarrow> u8 \<Rightarrow> u8 \<times> u8 list"

definition config_str :: "input_config \<Rightarrow> config_select \<Rightarrow> u8 \<Rightarrow> u8 list run" where
  "config_str dev select subsel = do {
     let (len, string) = dev (config_select_code select) subsel;
     n \<leftarrow> usub (unat len) 1;
     ensure (n \<le> length string);
     str_from_utf8 (take n string) }"

definition config_u32 :: "nat \<Rightarrow> u8 list \<Rightarrow> u32" where
  "config_u32 offset bytes = word_of_nat (field offset 4 bytes)"

definition config_absinfo :: "input_config \<Rightarrow> u16 \<Rightarrow> input_absinfo" where
  "config_absinfo dev axis =
     (let (len, bytes) = dev (config_select_code CfgAbsInfo) (ucast axis) in
      \<lparr>abs_min = config_u32 0 bytes, abs_max = config_u32 4 bytes, abs_fuzz = config_u32 8 bytes,
       abs_flat = config_u32 12 bytes, abs_res = config_u32 16 bytes\<rparr>)"

subsection \<open>The driver\<close>

text \<open>The queue of this driver has its own size.\<close>

definition INPUT_QUEUE_SIZE :: usize where
  "INPUT_QUEUE_SIZE = 64"

record input_state =
  is_eventq :: queue
  is_buffers :: "input_event list"

record virtio_input =
  vi_ring :: "input_event ring"
  vi_state :: "input_state mutex"

definition zero_event :: input_event where
  "zero_event = \<lparr>ev_type = 0, ev_code = 0, ev_value = 0\<rparr>"

definition offer_buffer :: "usize \<Rightarrow> nat \<Rightarrow> queue \<Rightarrow> queue run" where
  "offer_buffer buffers_at i q = do {
     q \<leftarrow> descriptor_writeonly (word_of_nat i) (buffers_at + 8 * i) 8 None q;
     ensure (i < length (q_ring q));
     Some (q\<lparr>q_ring := (q_ring q)[i := word_of_nat i]\<rparr>) }"

text \<open>\<open>VirtioInput::new\<close>, with the addresses of the queue and of the buffers.\<close>

definition input_new ::
    "input_config \<Rightarrow> virtio_common \<Rightarrow> usize \<Rightarrow> usize \<Rightarrow> usize \<Rightarrow> usize \<Rightarrow> (virtio_input \<times> virtio_common) run" where
  "input_new dev common descriptors_at available_at used_at buffers_at = do {
     let common = common\<lparr>vr_device_status := 0\<rparr>;
     let common = common\<lparr>vr_device_status := vr_device_status common OR 1\<rparr>;
     let common = common\<lparr>vr_device_status := vr_device_status common OR 2\<rparr>;
     let buffers = replicate INPUT_QUEUE_SIZE zero_event;
     (eventq, common) \<leftarrow> queue_new 0 common INPUT_QUEUE_SIZE descriptors_at available_at used_at;
     eventq \<leftarrow> for_each (offer_buffer buffers_at) [0..<INPUT_QUEUE_SIZE] eventq;
     let eventq = eventq\<lparr>q_available := word_of_nat INPUT_QUEUE_SIZE\<rparr>;
     name \<leftarrow> config_str dev CfgIdName 0;
     ring \<leftarrow> ring_new_single_page 8 4 zero_event;
     let common = common\<lparr>vr_device_status := vr_device_status common OR 4\<rparr>;
     Some (\<lparr>vi_ring = ring, vi_state = mutex_new \<lparr>is_eventq = eventq, is_buffers = buffers\<rparr>\<rparr>, common) }"

definition name_bytes :: "string \<Rightarrow> u8 list" where
  "name_bytes s = map (\<lambda>c. word_of_nat (of_char c)) s"

definition is_keyboard :: "input_config \<Rightarrow> virtio_input \<Rightarrow> bool run" where
  "is_keyboard dev v = do {
     (m, s) \<leftarrow> mutex_lock (vi_state v);
     name \<leftarrow> config_str dev CfgIdName 0;
     Some (name = name_bytes ''QEMU Virtio Keyboard'') }"

definition is_mouse :: "input_config \<Rightarrow> virtio_input \<Rightarrow> bool run" where
  "is_mouse dev v = do {
     (m, s) \<leftarrow> mutex_lock (vi_state v);
     name \<leftarrow> config_str dev CfgIdName 0;
     Some (name = name_bytes ''QEMU Virtio Mouse'' \<or> name = name_bytes ''QEMU Virtio Tablet'') }"

text \<open>
  The handler of interrupts, with the index of the used ring that it reads.  Reading the interrupt
  status clears it in the device.
\<close>

definition input_handle :: "u16 \<Rightarrow> virtio_input \<Rightarrow> virtio_input run" where
  "input_handle used_end v = do {
     (m, s) \<leftarrow> mutex_lock (vi_state v);
     used_start \<leftarrow> usub (unat (q_available (is_eventq s))) INPUT_QUEUE_SIZE;
     ring \<leftarrow> for_each (\<lambda>used_index ring. do {
         i \<leftarrow> urem used_index INPUT_QUEUE_SIZE;
         ensure (i < length (is_buffers s));
         ring_push ring (is_buffers s ! i) }) [used_start..<unat used_end] (vi_ring v);
     let available = unat used_end + INPUT_QUEUE_SIZE;
     ensure (available < 65536);
     let s = s\<lparr>is_eventq := (is_eventq s)\<lparr>q_available := word_of_nat available\<rparr>\<rparr>;
     Some (v\<lparr>vi_ring := ring, vi_state := mutex_unlock m s\<rparr>) }"

definition input_absinfo_call :: "input_config \<Rightarrow> u16 \<Rightarrow> virtio_input \<Rightarrow> input_absinfo run" where
  "input_absinfo_call dev axis v = do {
     (m, s) \<leftarrow> mutex_lock (vi_state v);
     Some (config_absinfo dev axis) }"

definition input_events :: "virtio_input \<Rightarrow> input_event ring" where
  "input_events v = vi_ring v"

end
