(* ===== verification/Input_Driver_Correct.thy ===== *)
theory Input_Driver_Correct
  imports Input_Driver Virtio_Correct Page_Table_Correct
begin

text \<open>
  The driver of input devices between a device that fills its buffers, interrupts, and a client that
  reads its stream: no event is lost, duplicated or reordered, and an interrupt panics exactly when
  the events do not fit into the stream or the indices would wrap around.
\<close>

subsection \<open>Pushing several elements\<close>

context bounded_queue
begin

lemma push_all:
  "invar (n + length xs) q \<Longrightarrow> length (contents q) \<le> capacity q \<Longrightarrow>
   if length (contents q) + length xs \<le> capacity q
   then \<exists>q'. for_each (\<lambda>x q. push q x) xs q = Some q' \<and> invar n q' \<and> contents q' = contents q @ xs \<and> capacity q' = capacity q
   else for_each (\<lambda>x q. push q x) xs q = None"
proof (induction xs arbitrary: q)
  case (Cons x xs)
  have inv: "invar (Suc (n + length xs)) q" using Cons.prems by simp
  show ?case
  proof (cases "length (contents q) < capacity q")
    case True
    obtain q' where q': "push q x = Some q'" "invar (n + length xs) q'" "contents q' = contents q @ [x]" "capacity q' = capacity q"
      using push_room [OF inv True] by blast
    from Cons.IH [OF q'(2)] True show ?thesis by (auto simp: q')
  qed (use push_full [OF inv] in simp)
qed simp

end

subsection \<open>The device and the client\<close>

text \<open>
  The driver, the number of events the device has delivered, and, for the specification, the events
  that it delivered and that the client has read.
\<close>

record input_world =
  iw_driver :: virtio_input
  iw_used :: nat
  iw_produced :: "input_event list"
  iw_polled :: "input_event list"

abbreviation iw_state :: "input_world \<Rightarrow> input_state" where
  "iw_state w \<equiv> mx_value (vi_state (iw_driver w))"

text \<open>
  A step: the device fills the buffer of the next entry of the ring, if the driver has offered one,
  and keeps the event to itself otherwise; an interrupt, at any time; the client polls its stream.
  A device that fills the buffers in another order, and says so in its used ring, is not one of
  these: the driver does not read the used ring (\<open>out_of_order_buffer\<close> below).
  The buffers are at the physical address \<open>p\<close>, eight bytes each.
\<close>

inductive input_step :: "usize \<Rightarrow> input_world \<Rightarrow> input_world \<Rightarrow> bool" for p where
  deliver: "iw_used w < unat (q_available (is_eventq (iw_state w))) \<Longrightarrow>
    d_address (q_descriptors (is_eventq (iw_state w)) ! unat (q_ring (is_eventq (iw_state w)) ! (iw_used w mod 64))) = p + 8 * j \<Longrightarrow>
    input_step p w (w\<lparr>iw_driver := (iw_driver w)\<lparr>vi_state := (vi_state (iw_driver w))\<lparr>mx_value :=
        (iw_state w)\<lparr>is_buffers := (is_buffers (iw_state w))[j := e]\<rparr>\<rparr>\<rparr>,
      iw_used := iw_used w + 1, iw_produced := iw_produced w @ [e]\<rparr>)"
| interrupt: "input_handle (word_of_nat (iw_used w)) (iw_driver w) = Some v \<Longrightarrow> input_step p w (w\<lparr>iw_driver := v\<rparr>)"
| poll: "ring_poll (vi_ring (iw_driver w)) = Some (ring, e) \<Longrightarrow>
    input_step p w (w\<lparr>iw_driver := (iw_driver w)\<lparr>vi_ring := ring\<rparr>,
      iw_polled := iw_polled w @ (case e of None \<Rightarrow> [] | Some e \<Rightarrow> [e])\<rparr>)"

text \<open>The events in the buffers that the driver has not yet seen.\<close>

definition pending :: "input_world \<Rightarrow> input_event list" where
  "pending w = map (\<lambda>i. is_buffers (iw_state w) ! (i mod 64)) [unat (q_available (is_eventq (iw_state w))) - 64..<iw_used w]"

text \<open>
  The driver hands on the buffer whose turn it is, whichever buffer the device has filled: an event in
  another one is not what arrives.
\<close>

lemma out_of_order_buffer:
  assumes "j \<noteq> iw_used w mod 64" "unat (q_available (is_eventq (iw_state w))) - 64 \<le> iw_used w"
    and "w' = w\<lparr>iw_driver := (iw_driver w)\<lparr>vi_state := (vi_state (iw_driver w))\<lparr>mx_value :=
      (iw_state w)\<lparr>is_buffers := (is_buffers (iw_state w))[j := e]\<rparr>\<rparr>\<rparr>\<rparr>"
  shows "pending (w'\<lparr>iw_used := iw_used w + 1\<rparr>) = pending w' @ [is_buffers (iw_state w) ! (iw_used w mod 64)]"
  using assms by (simp add: pending_def)

definition offers_buffers :: "usize \<Rightarrow> queue \<Rightarrow> bool" where
  "offers_buffers p q \<longleftrightarrow> length (q_ring q) = 64 \<and> length (q_descriptors q) = 64 \<and>
     (\<forall>i<64. q_ring q ! i = word_of_nat i \<and> d_address (q_descriptors q ! i) = p + 8 * i)"

definition input_inv :: "usize \<Rightarrow> input_world \<Rightarrow> bool" where
  "input_inv p w \<longleftrightarrow>
     (let q = is_eventq (iw_state w); ring = vi_ring (iw_driver w); available = unat (q_available q) in
      \<not> mx_locked (vi_state (iw_driver w)) \<and> offers_buffers p q \<and> length (is_buffers (iw_state w)) = 64 \<and>
      64 \<le> available \<and> available - 64 \<le> iw_used w \<and> iw_used w \<le> available \<and>
      ring_invar (131072 - available) ring \<and> ring_capacity ring = 496 \<and>
      iw_produced w = iw_polled w @ ring_contents ring @ pending w)"

lemma mutex_relock: "mutex_unlock (m\<lparr>mx_locked := True\<rparr>) v = mutex_new v"
  by (cases m) (simp add: mutex_unlock_def mutex_new_def)

lemma input_handle_eq:
  assumes "input_inv p w"
  defines "available \<equiv> unat (q_available (is_eventq (iw_state w)))"
  shows "input_handle (word_of_nat (iw_used w)) (iw_driver w) = do {
    ring \<leftarrow> for_each (\<lambda>x ring. ring_push ring x) (pending w) (vi_ring (iw_driver w));
    ensure (iw_used w + 64 < 65536);
    Some ((iw_driver w)\<lparr>vi_ring := ring, vi_state := mutex_new ((iw_state w)\<lparr>is_eventq :=
      (is_eventq (iw_state w))\<lparr>q_available := word_of_nat (iw_used w + 64)\<rparr>\<rparr>)\<rparr>) }"
proof -
  have len: "length (is_buffers (iw_state w)) = 64" and unlocked: "\<not> mx_locked (vi_state (iw_driver w))"
    and av: "64 \<le> available" "iw_used w \<le> available"
    using assms(1) by (simp_all add: input_inv_def available_def Let_def)
  have "available < 65536" using unsigned_less [of "q_available (is_eventq (iw_state w))"] by (simp add: available_def)
  then have used: "unat (word_of_nat (iw_used w) :: u16) = iw_used w" using av by (intro unat_u16_small) simp
  have loop: "for_each (\<lambda>i ring. do { i \<leftarrow> urem i INPUT_QUEUE_SIZE; ensure (i < length (is_buffers s)); ring_push ring (is_buffers s ! i) }) xs r =
      for_each (\<lambda>x ring. ring_push ring x) (map (\<lambda>i. is_buffers s ! (i mod 64)) xs) r"
    if "length (is_buffers s) = 64" for s xs r
    by (induction xs arbitrary: r) (use that in \<open>simp_all add: INPUT_QUEUE_SIZE_def cong: Option.bind_cong\<close>)
  show ?thesis
    using unlocked av used loop [OF len]
    by (simp add: input_handle_def mutex_lock_def mutex_relock pending_def available_def [symmetric]
        INPUT_QUEUE_SIZE_def Let_def del: of_nat_add cong: if_cong)
qed

lemma ring_invar_contents: "ring_invar n q \<Longrightarrow> length (ring_contents q) \<le> ring_capacity q"
  by (auto simp: ring_invar_def ring_contents_def)

text \<open>What an interrupt does, and when it panics.\<close>

lemma input_handle_cases:
  assumes inv: "input_inv p w"
  shows "if length (ring_contents (vi_ring (iw_driver w))) + length (pending w) \<le> 496 \<and> iw_used w < 65472
    then \<exists>v. input_handle (word_of_nat (iw_used w)) (iw_driver w) = Some v \<and> input_inv p (w\<lparr>iw_driver := v\<rparr>)
    else input_handle (word_of_nat (iw_used w)) (iw_driver w) = None"
proof -
  let ?ring = "vi_ring (iw_driver w)" and ?q = "is_eventq (iw_state w)"
  let ?av = "unat (q_available ?q)"
  have i: "offers_buffers p ?q" "length (is_buffers (iw_state w)) = 64" "64 \<le> ?av" "?av - 64 \<le> iw_used w" "iw_used w \<le> ?av"
    "ring_invar (131072 - ?av) ?ring" "ring_capacity ?ring = 496" "iw_produced w = iw_polled w @ ring_contents ?ring @ pending w"
    using inv by (simp_all add: input_inv_def Let_def)
  have av: "?av < 65536" using unsigned_less [of "q_available ?q"] by simp
  have len: "length (pending w) = iw_used w + 64 - ?av" using i(3,4) by (simp add: pending_def)
  then have "131072 - ?av = (131072 - (iw_used w + 64)) + length (pending w)" using i(3-5) av by linarith
  with i(6) have "ring_invar ((131072 - (iw_used w + 64)) + length (pending w)) ?ring" by simp
  from ring_queue.push_all [OF this ring_invar_contents [OF i(6)]]
  have pushed: "if length (ring_contents ?ring) + length (pending w) \<le> 496
    then \<exists>r. for_each (\<lambda>x ring. ring_push ring x) (pending w) ?ring = Some r \<and> ring_invar (131072 - (iw_used w + 64)) r \<and>
      ring_contents r = ring_contents ?ring @ pending w \<and> ring_capacity r = 496
    else for_each (\<lambda>x ring. ring_push ring x) (pending w) ?ring = None"
    unfolding i(7) .
  show ?thesis
  proof (cases "length (ring_contents ?ring) + length (pending w) \<le> 496 \<and> iw_used w < 65472")
    case True
    with pushed obtain r where r: "for_each (\<lambda>x ring. ring_push ring x) (pending w) ?ring = Some r"
      "ring_invar (131072 - (iw_used w + 64)) r" "ring_contents r = ring_contents ?ring @ pending w" "ring_capacity r = 496" by auto
    let ?v = "(iw_driver w)\<lparr>vi_ring := r, vi_state := mutex_new ((iw_state w)\<lparr>is_eventq :=
      ?q\<lparr>q_available := word_of_nat (iw_used w + 64)\<rparr>\<rparr>)\<rparr>"
    have "input_handle (word_of_nat (iw_used w)) (iw_driver w) = Some ?v"
      using True by (simp add: input_handle_eq [OF inv] r(1))
    moreover have u: "unat (word_of_nat (iw_used w + 64) :: u16) = iw_used w + 64" using True by (intro unat_u16_small) simp
    have "pending (w\<lparr>iw_driver := ?v\<rparr>) = []" by (simp add: pending_def mutex_new_def u del: of_nat_add)
    then have "input_inv p (w\<lparr>iw_driver := ?v\<rparr>)"
      using i(1,2,8) r(2-4) by (simp add: input_inv_def mutex_new_def u offers_buffers_def Let_def del: of_nat_add)
    ultimately show ?thesis using True by auto
  next
    case False
    with pushed show ?thesis by (auto simp: input_handle_eq [OF inv] split: if_splits)
  qed
qed

lemma input_inv_step:
  assumes "input_step p w w'" "input_inv p w"
  shows "input_inv p w'"
  using assms(1)
proof cases
  case (deliver j e)
  let ?q = "is_eventq (iw_state w)" and ?used = "iw_used w"
  have i: "offers_buffers p ?q" "length (is_buffers (iw_state w)) = 64" "64 \<le> unat (q_available ?q)"
    "unat (q_available ?q) - 64 \<le> ?used" "iw_produced w = iw_polled w @ ring_contents (vi_ring (iw_driver w)) @ pending w"
    using assms(2) by (simp_all add: input_inv_def Let_def)
  have "unat (word_of_nat (?used mod 64) :: u16) = ?used mod 64" by (rule unat_u16_small) (use mod_less_divisor [of 64 ?used] in linarith)
  then have j: "j = ?used mod 64" using deliver(3) i(1) by (simp add: offers_buffers_def)
  have other: "(is_buffers (iw_state w))[?used mod 64 := e] ! (k mod 64) = is_buffers (iw_state w) ! (k mod 64)"
    if "unat (q_available ?q) - 64 \<le> k" "k < ?used" for k
    using mod_window_neq [of "unat (q_available ?q) - 64" k ?used 64] that deliver(2) i(3) by simp
  have "pending w' = pending w @ [e]"
    using i(2-4) other by (simp add: deliver(1) pending_def j)
  then show ?thesis
    using assms(2) deliver(2) by (simp add: deliver(1) input_inv_def Let_def j)
next
  case (interrupt v)
  with input_handle_cases [OF assms(2)] show ?thesis by (auto split: if_splits)
next
  case (poll ring e)
  let ?ring = "vi_ring (iw_driver w)"
  have inv: "ring_invar (131072 - unat (q_available (is_eventq (iw_state w)))) ?ring" using assms(2) by (simp add: input_inv_def Let_def)
  obtain r where r: "ring_poll ?ring = Some (r, case ring_contents ?ring of [] \<Rightarrow> None | x # _ \<Rightarrow> Some x)"
    "ring_invar (131072 - unat (q_available (is_eventq (iw_state w)))) r" "ring_contents r = tl (ring_contents ?ring)"
    "ring_capacity r = ring_capacity ?ring"
    using ring_queue.poll_next [OF inv] by blast
  with poll(2) have e: "ring = r" "e = (case ring_contents ?ring of [] \<Rightarrow> None | x # _ \<Rightarrow> Some x)" by simp_all
  have "pending w' = pending w" by (simp add: poll(1) pending_def)
  with assms(2) r(2-4) show ?thesis
    by (cases "ring_contents ?ring") (simp_all add: poll(1) input_inv_def Let_def e)
qed

subsection \<open>From the set-up on\<close>

definition input_start :: "virtio_input \<Rightarrow> input_world" where
  "input_start v = \<lparr>iw_driver = v, iw_used = 0, iw_produced = [], iw_polled = []\<rparr>"

lemma offer_all:
  assumes at: "\<forall>i<64. virt_to_phys (buffers_at + 8 * i) = Some (p + 8 * i)"
  shows "n \<le> 64 \<Longrightarrow> length (q_ring q) = 64 \<Longrightarrow> length (q_descriptors q) = 64 \<Longrightarrow>
    \<exists>q'. for_each (offer_buffer buffers_at) [0..<n] q = Some q' \<and> length (q_ring q') = 64 \<and> length (q_descriptors q') = 64 \<and>
      (\<forall>i<n. q_ring q' ! i = word_of_nat i \<and> d_address (q_descriptors q' ! i) = p + 8 * i)"
proof (induction n)
  case (Suc n)
  then obtain q' where q': "for_each (offer_buffer buffers_at) [0..<n] q = Some q'" "length (q_ring q') = 64"
    "length (q_descriptors q') = 64" "\<forall>i<n. q_ring q' ! i = word_of_nat i \<and> d_address (q_descriptors q' ! i) = p + 8 * i"
    by auto
  have u: "unat (word_of_nat n :: u16) = n" using Suc.prems by (intro unat_u16_small) simp
  have "virt_to_phys (buffers_at + 8 * n) = Some (p + 8 * n)" using at Suc.prems by simp
  then have "\<exists>q''. offer_buffer buffers_at n q' = Some q'' \<and> length (q_ring q'') = 64 \<and> length (q_descriptors q'') = 64 \<and>
      (\<forall>i<Suc n. q_ring q'' ! i = word_of_nat i \<and> d_address (q_descriptors q'' ! i) = p + 8 * i)"
    using q'(2-4) Suc.prems u
    by (auto simp: offer_buffer_def descriptor_writeonly_def put_descriptor_def less_Suc_eq nth_list_update)
  then show ?case by (auto simp: for_each_append q'(1))
qed auto

lemma input_new_inv:
  assumes "input_new dev common da aa ua buffers_at = Some (v, common')"
    and "\<forall>i<64. virt_to_phys (buffers_at + 8 * i) = Some (p + 8 * i)"
  shows "input_inv p (input_start v)"
proof -
  obtain q0 common1 q name ring where new:
    "queue_new 0 (common\<lparr>vr_device_status := 0 OR 1 OR 2\<rparr>) 64 da aa ua = Some (q0, common1)"
    "for_each (offer_buffer buffers_at) [0..<64] q0 = Some q" "ring_new_single_page 8 4 zero_event = Some ring"
    "v = \<lparr>vi_ring = ring, vi_state = mutex_new \<lparr>is_eventq = q\<lparr>q_available := 64\<rparr>, is_buffers = replicate 64 zero_event\<rparr>\<rparr>"
    using assms(1) by (auto simp: input_new_def run_Some INPUT_QUEUE_SIZE_def Let_def)
  have q0: "length (q_ring q0) = 64" "length (q_descriptors q0) = 64" using new(1) by (auto simp: queue_new_def run_Some Let_def split: if_splits)
  have ring: "ring_new 8 4 zero_event 496 = Some ring"
    using new(3) by (simp add: ring_new_single_page_def PAGE_SIZE_def CACHE_LINE_SIZE_def)
  note r = ring_new_invar [OF ring, of "131072 - 64"]
  have "offers_buffers p q" using offer_all [OF assms(2) _ q0, of 64] new(2) by (auto simp: offers_buffers_def)
  then show ?thesis
    using r by (simp add: input_inv_def input_start_def new(4) mutex_new_def pending_def offers_buffers_def Let_def)
qed

text \<open>
  C38: the driver of input devices hands on every event, once and in order.  In every state that it can
  reach with a device that fills its buffers in the order of the ring, interrupts and a client of its stream, what the client has read, then what is
  in the stream, and then what the driver has not yet seen, is what the device has delivered; and an
  interrupt panics exactly when the stream has no room for the new events, or when more than 65471
  events have been delivered since the start.
\<close>

theorem input_events_in_order:
  assumes "input_new dev common da aa ua buffers_at = Some (v, common')"
    and "\<forall>i<64. virt_to_phys (buffers_at + 8 * i) = Some (p + 8 * i)"
    and "(input_step p)\<^sup>*\<^sup>* (input_start v) w"
  shows "iw_produced w = iw_polled w @ ring_contents (input_events (iw_driver w)) @ pending w \<and>
    (input_handle (word_of_nat (iw_used w)) (iw_driver w) = None \<longleftrightarrow>
      496 < length (ring_contents (input_events (iw_driver w))) + length (pending w) \<or> 65471 < iw_used w)"
proof -
  have inv: "input_inv p w"
    using assms(3) input_new_inv [OF assms(1,2)] by (induction rule: rtranclp_induct) (auto intro: input_inv_step)
  then have "iw_produced w = iw_polled w @ ring_contents (input_events (iw_driver w)) @ pending w"
    by (simp add: input_inv_def input_events_def Let_def)
  with input_handle_cases [OF inv] show ?thesis by (auto simp: input_events_def split: if_splits)
qed

definition demo_mouse :: input_config where
  "demo_mouse select subsel = (18, name_bytes ''QEMU Virtio Mouse'' @ replicate 111 0)"

theorem input_events_in_order_witness:
  "\<exists>v common' w. input_new demo_mouse demo_common upper_half upper_half upper_half (0x4000 + upper_half) = Some (v, common') \<and>
     (input_step 0x4000)\<^sup>*\<^sup>* (input_start v) w \<and> iw_produced w = [zero_event\<lparr>ev_code := 3\<rparr>] \<and>
     iw_polled w @ ring_contents (input_events (iw_driver w)) @ pending w = [zero_event\<lparr>ev_code := 3\<rparr>]"
proof -
  have at: "\<forall>i<64. virt_to_phys (0x4000 + upper_half + 8 * i) = Some (0x4000 + 8 * i)"
  proof (intro allI impI)
    fix i :: nat assume "i < 64"
    with virt_to_phys_upper [of "0x4000 + 8 * i"]
    show "virt_to_phys (0x4000 + upper_half + 8 * i) = Some (0x4000 + 8 * i)" by (simp add: add_ac)
  qed
  have zero: "virt_to_phys upper_half = Some 0" using virt_to_phys_upper [of 0] by simp
  obtain q common1 where q: "queue_new 0 (demo_common\<lparr>vr_device_status := 3\<rparr>) 64 upper_half upper_half upper_half = Some (q, common1)"
    "length (q_ring q) = 64" "length (q_descriptors q) = 64"
    by (auto simp: queue_new_def demo_common_def zero)
  obtain q' where q': "for_each (offer_buffer (0x4000 + upper_half)) [0..<64] q = Some q'"
    using offer_all [OF at _ q(2,3), of 64] by auto
  have name: "config_str demo_mouse CfgIdName 0 \<noteq> None" by code_simp
  have "is_power_of_two 4096" by code_simp
  then obtain ring where ring: "ring_new_single_page 8 4 zero_event = Some ring"
    by (simp add: ring_new_single_page_def ring_new_def ring_new_in_def layout_from_size_align_def PAGE_SIZE_def CACHE_LINE_SIZE_def)
  have "input_new demo_mouse demo_common upper_half upper_half upper_half (0x4000 + upper_half) \<noteq> None"
    using name by (auto simp: input_new_def INPUT_QUEUE_SIZE_def q(1) q' ring)
  then obtain v common' where new: "input_new demo_mouse demo_common upper_half upper_half upper_half (0x4000 + upper_half) = Some (v, common')"
    by auto
  have "input_inv 0x4000 (input_start v)" by (rule input_new_inv [OF new at])
  then have "64 \<le> unat (q_available (is_eventq (iw_state (input_start v))))" "offers_buffers 0x4000 (is_eventq (iw_state (input_start v)))"
    by (simp_all add: input_inv_def Let_def)
  then have d: "iw_used (input_start v) < unat (q_available (is_eventq (iw_state (input_start v))))"
    "d_address (q_descriptors (is_eventq (iw_state (input_start v))) !
      unat (q_ring (is_eventq (iw_state (input_start v))) ! (iw_used (input_start v) mod 64))) = 0x4000 + 8 * 0"
    by (simp_all add: input_start_def offers_buffers_def)
  from input_step.deliver [OF d, of "zero_event\<lparr>ev_code := 3\<rparr>"] obtain w where
    w: "input_step 0x4000 (input_start v) w" "iw_produced w = [zero_event\<lparr>ev_code := 3\<rparr>]"
    by (auto simp: input_start_def)
  have reach: "(input_step 0x4000)\<^sup>*\<^sup>* (input_start v) w" using w(1) by (rule r_into_rtranclp)
  from input_events_in_order [OF new at reach, THEN conjunct1]
  have "iw_polled w @ ring_contents (input_events (iw_driver w)) @ pending w = [zero_event\<lparr>ev_code := 3\<rparr>]"
    unfolding w(2) by (rule sym)
  with new reach w(2) show ?thesis by blast
qed

end
