(* ===== verification/Machine.thy ===== *)
theory Machine
  imports Page_Entry Process
begin

text \<open>
  The assembly of \<open>kernel/src/arch.rs\<close>: a machine for the instructions it uses, the entry of the
  kernel, the entry of traps from users and the return to them, written as in the source.

  The memory of the machine is a map from physical addresses to doublewords.  Every access and every
  instruction fetch goes through the translation of addresses, which is a parameter of a step.  An
  instruction has an address where it was loaded and is run there or at an offset from it, which is
  the same for all instructions.  Functions that are called, the addresses of instructions and
  symbols are given by an environment.
\<close>

subsection \<open>Instructions\<close>

datatype label = Map_lower_half | Map_higher_half | Apply_relocations | Apply_relocations_end | Clear_bss

datatype asm_symbol = Sym_bss_start | Sym_bss_end | Sym_early_stack_top | Sym_main | Sym_enable_kernel_trap | Sym_on_user_trap

datatype csr = Satp | Sscratch | Stvec | Sepc

text \<open>The register \<open>x0\<close> is \<open>None\<close>; the operands are in the order of the source.\<close>

datatype instr =
    Ld reg u64 reg
  | Sd "reg option" u64 reg
  | Add reg reg reg
  | Addi reg reg u64
  | Andi reg reg u64
  | Or reg reg reg
  | Srli reg reg nat
  | Li reg u64
  | Mv reg reg
  | La reg asm_symbol
  | Auipc reg u64
  | Csrw csr reg
  | Csrr reg csr
  | Csrrw reg csr reg
  | Call asm_symbol
  | Label label
  | Bnez reg label
  | Beqz reg label
  | Bne reg reg label
  | Jump label
  | Jr reg u64
  | Tail asm_symbol
  | Sret

subsection \<open>The machine\<close>

datatype exit = To asm_symbol | ToUser

record machine =
  mc_regs :: "reg \<Rightarrow> u64"
  mc_mem :: "u64 \<Rightarrow> u64"
  mc_csr :: "csr \<Rightarrow> u64"
  mc_pc :: nat
  mc_base :: u64
  mc_exit :: "exit option"

record asm_env =
  en_at :: "nat \<Rightarrow> u64"
  en_symbol :: "asm_symbol \<Rightarrow> u64"
  en_call :: "asm_symbol \<Rightarrow> machine \<Rightarrow> machine"

type_synonym translation = "machine \<Rightarrow> u64 \<Rightarrow> u64 option"

definition set_reg :: "reg \<Rightarrow> u64 \<Rightarrow> machine \<Rightarrow> machine" where
  "set_reg r v m = m\<lparr>mc_regs := (mc_regs m)(r := v)\<rparr>"

definition set_csr :: "csr \<Rightarrow> u64 \<Rightarrow> machine \<Rightarrow> machine" where
  "set_csr c v m = m\<lparr>mc_csr := (mc_csr m)(c := v)\<rparr>"

definition load :: "translation \<Rightarrow> machine \<Rightarrow> u64 \<Rightarrow> u64 option" where
  "load tr m v = (if v AND 7 = 0 then map_option (mc_mem m) (tr m v) else None)"

definition store :: "translation \<Rightarrow> u64 \<Rightarrow> u64 \<Rightarrow> machine \<Rightarrow> machine option" where
  "store tr v x m =
     (if v AND 7 = 0 then map_option (\<lambda>p. m\<lparr>mc_mem := (mc_mem m)(p := x)\<rparr>) (tr m v) else None)"

fun label_index :: "instr list \<Rightarrow> label \<Rightarrow> nat" where
  "label_index [] l = 0"
| "label_index (i # prog) l = (if i = Label l then 0 else Suc (label_index prog l))"

definition next_pc :: "machine \<Rightarrow> machine" where
  "next_pc m = m\<lparr>mc_pc := Suc (mc_pc m)\<rparr>"

definition jump_if :: "bool \<Rightarrow> instr list \<Rightarrow> label \<Rightarrow> machine \<Rightarrow> machine" where
  "jump_if c prog l m = (if c then m\<lparr>mc_pc := label_index prog l\<rparr> else next_pc m)"

fun exec :: "instr list \<Rightarrow> translation \<Rightarrow> asm_env \<Rightarrow> instr \<Rightarrow> machine \<Rightarrow> machine option" where
  "exec prog tr env (Ld rd off rs) m = map_option (\<lambda>x. next_pc (set_reg rd x m)) (load tr m (mc_regs m rs + off))"
| "exec prog tr env (Sd src off rs) m =
     map_option next_pc (store tr (mc_regs m rs + off) (case src of None \<Rightarrow> 0 | Some r \<Rightarrow> mc_regs m r) m)"
| "exec prog tr env (Add rd a b) m = Some (next_pc (set_reg rd (mc_regs m a + mc_regs m b) m))"
| "exec prog tr env (Addi rd a imm) m = Some (next_pc (set_reg rd (mc_regs m a + imm) m))"
| "exec prog tr env (Andi rd a imm) m = Some (next_pc (set_reg rd (mc_regs m a AND imm) m))"
| "exec prog tr env (Or rd a b) m = Some (next_pc (set_reg rd (mc_regs m a OR mc_regs m b) m))"
| "exec prog tr env (Srli rd a n) m = Some (next_pc (set_reg rd (drop_bit n (mc_regs m a)) m))"
| "exec prog tr env (Li rd imm) m = Some (next_pc (set_reg rd imm m))"
| "exec prog tr env (Mv rd a) m = Some (next_pc (set_reg rd (mc_regs m a) m))"
| "exec prog tr env (La rd s) m = Some (next_pc (set_reg rd (mc_base m + en_symbol env s) m))"
| "exec prog tr env (Auipc rd imm) m =
     Some (next_pc (set_reg rd (mc_base m + en_at env (mc_pc m) + push_bit 12 imm) m))"
| "exec prog tr env (Csrw c rs) m = Some (next_pc (set_csr c (mc_regs m rs) m))"
| "exec prog tr env (Csrr rd c) m = Some (next_pc (set_reg rd (mc_csr m c) m))"
| "exec prog tr env (Csrrw rd c rs) m = Some (next_pc (set_reg rd (mc_csr m c) (set_csr c (mc_regs m rs) m)))"
| "exec prog tr env (Call s) m = Some (next_pc (en_call env s m))"
| "exec prog tr env (Label l) m = Some (next_pc m)"
| "exec prog tr env (Bnez r l) m = Some (jump_if (mc_regs m r \<noteq> 0) prog l m)"
| "exec prog tr env (Beqz r l) m = Some (jump_if (mc_regs m r = 0) prog l m)"
| "exec prog tr env (Bne a b l) m = Some (jump_if (mc_regs m a \<noteq> mc_regs m b) prog l m)"
| "exec prog tr env (Jump l) m = Some (jump_if True prog l m)"
| "exec prog tr env (Jr rs off) m =
     (let target = mc_regs m rs + off; after = en_at env (Suc (mc_pc m)) in
      if tr m target = Some after then Some (next_pc (m\<lparr>mc_base := target - after\<rparr>)) else None)"
| "exec prog tr env (Tail s) m = Some (m\<lparr>mc_exit := Some (To s)\<rparr>)"
| "exec prog tr env Sret m = Some (m\<lparr>mc_exit := Some ToUser\<rparr>)"

text \<open>
  A step fetches through the translation: the instruction must be where it was loaded.  A jump by
  register may only go to the instruction after it, from which the new offset follows.
\<close>

definition step :: "instr list \<Rightarrow> translation \<Rightarrow> asm_env \<Rightarrow> machine \<Rightarrow> machine option" where
  "step prog tr env m =
     (if mc_exit m = None \<and> mc_pc m < length prog \<and>
         tr m (mc_base m + en_at env (mc_pc m)) = Some (en_at env (mc_pc m))
      then exec prog tr env (prog ! mc_pc m) m else None)"

fun steps :: "nat \<Rightarrow> instr list \<Rightarrow> translation \<Rightarrow> asm_env \<Rightarrow> machine \<Rightarrow> machine option" where
  "steps 0 prog tr env m = Some m"
| "steps (Suc n) prog tr env m = step prog tr env m \<bind> steps n prog tr env"

subsection \<open>Translation of addresses\<close>

text \<open>
  The tables of the kernel's entry have leaves at the first level only: gigabytes.  The processor
  is assumed to manage the bits for accessed and dirty pages.
\<close>

definition walk :: translation where
  "walk m v =
     (if mc_csr m Satp = 0 then Some v
      else if drop_bit 60 (mc_csr m Satp) \<noteq> 8 then None
      else if drop_bit 38 v \<noteq> 0 \<and> drop_bit 38 v \<noteq> 0x3FFFFFF then None
      else
        let root = push_bit 12 (take_bit 44 (mc_csr m Satp));
            e = mc_mem m (root + 8 * (drop_bit 30 v AND 511)) in
        if e AND PAGE_V = 0 \<or> e AND (PAGE_R OR PAGE_W OR PAGE_X) = 0 \<or> take_bit 18 (drop_bit 10 e) \<noteq> 0 then None
        else Some (push_bit 30 (take_bit 26 (drop_bit 28 e)) OR take_bit 30 v))"

subsection \<open>The entry of the kernel\<close>

definition pte_first :: u64 where
  "pte_first = pte_bits (pte_leaf 0 flags_read_write_execute)"

definition pte_diff :: u64 where
  "pte_diff = pte_bits (pte_leaf LEVEL_2_PAGE_SIZE flags_read_write_execute) - pte_bits (pte_leaf 0 flags_read_write_execute)"

definition direct_mapping_addend :: u64 where
  "direct_mapping_addend = (case sign_extend (fst DIRECT_MAPPING) of Some a \<Rightarrow> word_of_nat a | None \<Rightarrow> 0)"

definition boot_code :: "instr list" where
  "boot_code = [
     Auipc T0 1,
     Li T1 pte_first,
     Li T2 pte_diff,
     Label Map_lower_half,
     Sd (Some T1) 0 T0,
     Addi T0 T0 8,
     Add T1 T1 T2,
     Andi T3 T0 2047,
     Bnez T3 Map_lower_half,
     Li T1 pte_first,
     Label Map_higher_half,
     Sd (Some T1) 0 T0,
     Addi T0 T0 8,
     Add T1 T1 T2,
     Andi T3 T0 2047,
     Bnez T3 Map_higher_half,
     Li T1 (push_bit 60 8),
     Srli T2 T0 12,
     Addi T2 T2 (-1),
     Or T1 T1 T2,
     Csrw Satp T1,
     Li T4 direct_mapping_addend,
     Add A1 A1 T4,
     Add T0 T0 T4,
     Auipc T1 0,
     Add T1 T1 T4,
     Jr T1 10,
     Label Apply_relocations,
     Ld T1 0 T0,
     Ld T2 8 T0,
     Ld T3 16 T0,
     Beqz T2 Apply_relocations_end,
     Add T1 T1 T4,
     Add T3 T3 T4,
     Sd (Some T3) 0 T1,
     Addi T0 T0 24,
     Jump Apply_relocations,
     Label Apply_relocations_end,
     La T0 Sym_bss_start,
     La T1 Sym_bss_end,
     Label Clear_bss,
     Sd None 0 T0,
     Addi T0 T0 8,
     Bne T0 T1 Clear_bss,
     La SP Sym_early_stack_top,
     Tail Sym_main]"

subsection \<open>Traps of users\<close>

definition user_trap_code :: "instr list" where
  "user_trap_code = [
     Csrrw SP Sscratch SP,
     Addi SP SP (-8 * 32),
     Sd (Some RA) (8 * 0) SP,
     Csrr RA Sscratch,
     Sd (Some RA) (8 * 1) SP,
     Sd (Some GP) (8 * 2) SP,
     Sd (Some TP) (8 * 3) SP,
     Sd (Some T0) (8 * 4) SP,
     Sd (Some T1) (8 * 5) SP,
     Sd (Some T2) (8 * 6) SP,
     Sd (Some S0) (8 * 7) SP,
     Sd (Some S1) (8 * 8) SP,
     Sd (Some A0) (8 * 9) SP,
     Sd (Some A1) (8 * 10) SP,
     Sd (Some A2) (8 * 11) SP,
     Sd (Some A3) (8 * 12) SP,
     Sd (Some A4) (8 * 13) SP,
     Sd (Some A5) (8 * 14) SP,
     Sd (Some A6) (8 * 15) SP,
     Sd (Some A7) (8 * 16) SP,
     Sd (Some S2) (8 * 17) SP,
     Sd (Some S3) (8 * 18) SP,
     Sd (Some S4) (8 * 19) SP,
     Sd (Some S5) (8 * 20) SP,
     Sd (Some S6) (8 * 21) SP,
     Sd (Some S7) (8 * 22) SP,
     Sd (Some S8) (8 * 23) SP,
     Sd (Some S9) (8 * 24) SP,
     Sd (Some S10) (8 * 25) SP,
     Sd (Some S11) (8 * 26) SP,
     Sd (Some T3) (8 * 27) SP,
     Sd (Some T4) (8 * 28) SP,
     Sd (Some T5) (8 * 29) SP,
     Sd (Some T6) (8 * 30) SP,
     Addi RA SP (8 * 32),
     Csrw Sscratch RA,
     Call Sym_enable_kernel_trap,
     Mv A0 SP,
     Tail Sym_on_user_trap]"

text \<open>
  The handler of traps, with the mode in its two low bits; and the start of a return, where the
  registers to load are in \<open>t6\<close>.
\<close>

definition enable_kernel_trap :: "u64 \<Rightarrow> machine \<Rightarrow> machine" where
  "enable_kernel_trap on_kernel_trap m = set_csr Stvec (on_kernel_trap AND NOT 3) m"

definition enable_user_trap :: "u64 \<Rightarrow> machine \<Rightarrow> machine" where
  "enable_user_trap user_trap m = set_csr Stvec (user_trap AND NOT 3) m"

definition return_to_userspace :: "u64 \<Rightarrow> u64 \<Rightarrow> machine \<Rightarrow> machine" where
  "return_to_userspace user_trap registers m =
     (set_reg T6 registers (enable_user_trap user_trap m))\<lparr>mc_pc := 0, mc_base := 0, mc_exit := None\<rparr>"

definition return_code :: "instr list" where
  "return_code = [
     Ld RA (8 * 0) T6,
     Ld SP (8 * 1) T6,
     Ld GP (8 * 2) T6,
     Ld TP (8 * 3) T6,
     Ld T0 (8 * 4) T6,
     Ld T1 (8 * 5) T6,
     Ld T2 (8 * 6) T6,
     Ld S0 (8 * 7) T6,
     Ld S1 (8 * 8) T6,
     Ld A0 (8 * 9) T6,
     Ld A1 (8 * 10) T6,
     Ld A2 (8 * 11) T6,
     Ld A3 (8 * 12) T6,
     Ld A4 (8 * 13) T6,
     Ld A5 (8 * 14) T6,
     Ld A6 (8 * 15) T6,
     Ld A7 (8 * 16) T6,
     Ld S2 (8 * 17) T6,
     Ld S3 (8 * 18) T6,
     Ld S4 (8 * 19) T6,
     Ld S5 (8 * 20) T6,
     Ld S6 (8 * 21) T6,
     Ld S7 (8 * 22) T6,
     Ld S8 (8 * 23) T6,
     Ld S9 (8 * 24) T6,
     Ld S10 (8 * 25) T6,
     Ld S11 (8 * 26) T6,
     Ld T3 (8 * 27) T6,
     Ld T4 (8 * 28) T6,
     Ld T5 (8 * 29) T6,
     Ld T6 (8 * 30) T6,
     Sret]"

text \<open>The fields of \<open>RiscvRegisters\<close>, in order.\<close>

definition riscv_registers :: "reg list" where
  "riscv_registers = [RA, SP, GP, TP, T0, T1, T2, S0, S1, A0, A1, A2, A3, A4, A5, A6, A7,
     S2, S3, S4, S5, S6, S7, S8, S9, S10, S11, T3, T4, T5, T6]"

end
