(* ===== verification/Machine_Correct.thy ===== *)
theory Machine_Correct
  imports Machine
begin

text \<open>
  Proofs about programs of the machine: straight-line code, one block at a time, the alignment of
  addresses and storing values one after the other.
\<close>

subsection \<open>Straight-line code\<close>

primrec straight :: "instr \<Rightarrow> bool" where
  "straight (Ld a b c) = True"
| "straight (Sd a b c) = True"
| "straight (Add a b c) = True"
| "straight (Addi a b c) = True"
| "straight (Andi a b c) = True"
| "straight (Or a b c) = True"
| "straight (Srli a b c) = True"
| "straight (Li a b) = True"
| "straight (Mv a b) = True"
| "straight (La a b) = True"
| "straight (Auipc a b) = True"
| "straight (Csrw a b) = True"
| "straight (Csrr a b) = True"
| "straight (Csrrw a b c) = True"
| "straight (Call a) = False"
| "straight (Label a) = True"
| "straight (Bnez a b) = False"
| "straight (Beqz a b) = False"
| "straight (Bne a b c) = False"
| "straight (Jump a) = False"
| "straight (Jr a b) = False"
| "straight (Tail a) = False"
| "straight Sret = False"

fun run_block :: "instr list \<Rightarrow> translation \<Rightarrow> asm_env \<Rightarrow> instr list \<Rightarrow> machine \<Rightarrow> machine option" where
  "run_block prog tr env [] m = Some m"
| "run_block prog tr env (i # blk) m =
     (if tr m (mc_base m + en_at env (mc_pc m)) = Some (en_at env (mc_pc m))
      then exec prog tr env i m \<bind> run_block prog tr env blk else None)"

lemma straight_pc:
  assumes "straight i" "exec prog tr env i m = Some m'"
  shows "mc_pc m' = Suc (mc_pc m)" "mc_exit m' = mc_exit m"
  using assms by (cases i; auto simp: next_pc_def set_reg_def set_csr_def load_def store_def split: if_splits)+

lemma steps_block:
  assumes "list_all straight blk"
  shows "mc_exit m = None \<Longrightarrow> mc_pc m = length pre \<Longrightarrow> prog = pre @ blk @ post \<Longrightarrow>
    steps (length blk) prog tr env m = run_block prog tr env blk m"
  using assms
proof (induction blk arbitrary: pre m)
  case (Cons i blk)
  have fetch: "step prog tr env m = (if tr m (mc_base m + en_at env (mc_pc m)) = Some (en_at env (mc_pc m))
      then exec prog tr env i m else None)"
    using Cons.prems by (simp add: step_def nth_append)
  have rest: "steps (length blk) prog tr env m' = run_block prog tr env blk m'" if "exec prog tr env i m = Some m'" for m'
    by (rule Cons.IH [of m' "pre @ [i]"]) (use Cons.prems straight_pc [OF _ that] in auto)
  show ?case
    by (cases "exec prog tr env i m") (auto simp: fetch rest)
qed simp

lemma steps_add: "steps (a + b) prog tr env m = steps a prog tr env m \<bind> steps b prog tr env"
  by (induction a arbitrary: m) (auto simp: bind_assoc cong: Option.bind_cong)

lemma block_pc:
  "list_all straight blk \<Longrightarrow> run_block prog tr env blk m = Some m' \<Longrightarrow>
   mc_pc m' = mc_pc m + length blk \<and> mc_exit m' = mc_exit m"
proof (induction blk arbitrary: m)
  case (Cons i blk)
  from Cons.prems obtain m1 where "exec prog tr env i m = Some m1" "run_block prog tr env blk m1 = Some m'"
    by (auto simp: bind_eq_Some_conv split: if_splits)
  with Cons.IH [of m1] straight_pc [of i prog tr env m m1] Cons.prems(1) show ?case by simp
qed simp

text \<open>Alignment of addresses.\<close>

lemma aligned_bits: "(a :: u64) AND 7 = 0 \<longleftrightarrow> take_bit 3 a = 0"
proof -
  have seven: "(7 :: u64) = mask 3" by (simp only: mask_eq_exp_minus_1) simp
  show ?thesis by (simp only: seven take_bit_eq_mask)
qed

lemma aligned_dvd: "(a :: u64) AND 7 = 0 \<longleftrightarrow> 8 dvd unat a"
proof -
  have "take_bit 3 a = 0 \<longleftrightarrow> unat (take_bit 3 a) = 0" by (simp only: unat_eq_zero)
  also have "unat (take_bit 3 a) = take_bit 3 (unat a)" by (rule unsigned_take_bit_eq)
  also have "take_bit 3 (unat a) = unat a mod 8" by (simp only: take_bit_eq_mod) simp
  finally show ?thesis unfolding aligned_bits by (simp only: dvd_eq_mod_eq_0)
qed

lemma aligned_add: "(a :: u64) AND 7 = 0 \<Longrightarrow> b AND 7 = 0 \<Longrightarrow> (a + b) AND 7 = 0"
  unfolding aligned_dvd by (simp add: unat_word_ariths dvd_mod)

text \<open>Runs of any length.\<close>

definition runs_to :: "instr list \<Rightarrow> translation \<Rightarrow> asm_env \<Rightarrow> machine \<Rightarrow> machine \<Rightarrow> bool" where
  "runs_to prog tr env m m' \<longleftrightarrow> (\<exists>n. steps n prog tr env m = Some m')"

lemma runs_to_steps: "steps n prog tr env m = Some m' \<Longrightarrow> runs_to prog tr env m m'"
  by (auto simp: runs_to_def)

lemma runs_to_trans:
  assumes "runs_to prog tr env m1 m2" "runs_to prog tr env m2 m3"
  shows "runs_to prog tr env m1 m3"
proof -
  obtain a b where "steps a prog tr env m1 = Some m2" "steps b prog tr env m2 = Some m3"
    using assms by (auto simp: runs_to_def)
  then show ?thesis using steps_add [of a b prog tr env m1] by (auto intro: runs_to_steps)
qed

text \<open>Storing values one after the other.\<close>

fun store_all :: "u64 \<Rightarrow> u64 list \<Rightarrow> (u64 \<Rightarrow> u64) \<Rightarrow> u64 \<Rightarrow> u64" where
  "store_all a [] mem = mem"
| "store_all a (x # xs) mem = store_all (a + 8) xs (mem(a := x))"

lemma store_all_other: "(\<And>i. i < length xs \<Longrightarrow> x \<noteq> a + 8 * word_of_nat i) \<Longrightarrow> store_all a xs mem x = mem x"
proof (induction a xs mem rule: store_all.induct)
  case (2 a v xs mem)
  have "x \<noteq> a" using "2.prems" [of 0] by simp
  moreover have "x \<noteq> a + 8 + 8 * word_of_nat i" if "i < length xs" for i
    using "2.prems" [of "Suc i"] that by (simp add: algebra_simps)
  ultimately show ?case using "2.IH" by (simp add: fun_upd_def)
qed simp

lemma eight_times: "8 * n < 2 ^ 64 \<Longrightarrow> unat (8 * word_of_nat n :: u64) = 8 * n"
proof -
  assume n: "8 * n < 2 ^ 64"
  have "(8 * word_of_nat n :: u64) = word_of_nat (8 * n)" by simp
  then show ?thesis using n by (simp only: unsigned_of_nat) (simp add: take_bit_nat_eq_self)
qed

lemma store_all_at: "8 * length xs < 2 ^ 64 \<Longrightarrow> i < length xs \<Longrightarrow> store_all a xs mem (a + 8 * word_of_nat i) = xs ! i"
proof (induction a xs mem arbitrary: i rule: store_all.induct)
  case (2 a x xs mem)
  show ?case
  proof (cases i)
    case 0
    have "a \<noteq> a + 8 + 8 * word_of_nat j" if "j < length xs" for j
    proof
      assume "a = a + 8 + 8 * word_of_nat j"
      then have "8 * word_of_nat (Suc j) = (0 :: u64)" by (simp add: algebra_simps)
      with eight_times [of "Suc j"] that "2.prems"(1) show False by simp
    qed
    with 0 show ?thesis by (simp add: store_all_other)
  next
    case (Suc k)
    with "2.IH" [of k] "2.prems" show ?thesis by (simp add: algebra_simps fun_upd_def)
  qed
qed simp

lemma store_all_append: "store_all a (xs @ ys) mem = store_all (a + 8 * word_of_nat (length xs)) ys (store_all a xs mem)"
  by (induction a xs mem rule: store_all.induct) (simp_all add: algebra_simps fun_upd_def)

end
