(* ===== verification/Trap_Entry.thy ===== *)
theory Trap_Entry
  imports Machine_Correct
begin

text \<open>
  The entry of traps saves the registers of the user and the return restores them.
\<close>

subsection \<open>The memory of the kernel\<close>

text \<open>Addresses as the kernel uses them, in a mapping that does not change.\<close>

definition kernel_view :: translation where
  "kernel_view m v = Some v"

text \<open>
  What a called function keeps by the calling convention: the stack pointer and the memory above it;
  and that this one does not touch the register for the kernel's stack.
\<close>

definition keeps_frame :: "(machine \<Rightarrow> machine) \<Rightarrow> bool" where
  "keeps_frame f \<longleftrightarrow> (\<forall>m. mc_regs (f m) SP = mc_regs m SP \<and> mc_csr (f m) Sscratch = mc_csr m Sscratch \<and>
     mc_pc (f m) = mc_pc m \<and> mc_base (f m) = mc_base m \<and> mc_exit (f m) = mc_exit m \<and>
     (\<forall>a \<ge> mc_regs m SP. mc_mem (f m) a = mc_mem m a))"

text \<open>The registers at an address.\<close>

definition saved_at :: "u64 \<Rightarrow> (u64 \<Rightarrow> u64) \<Rightarrow> (reg \<Rightarrow> u64) \<Rightarrow> bool" where
  "saved_at a mem u \<longleftrightarrow> (\<forall>i<31. mem (a + 8 * word_of_nat i) = u (riscv_registers ! i))"

definition save_code :: "instr list" where
  "save_code = take 36 user_trap_code"

lemma riscv_length: "length riscv_registers = 31"
  by (simp add: riscv_registers_def)

lemma steps_three:
  "steps 3 prog tr env m = step prog tr env m \<bind> (\<lambda>m. step prog tr env m \<bind> step prog tr env)"
proof -
  have "steps 0 prog tr env = Some"
    "\<And>n. steps (Suc n) prog tr env = (\<lambda>m. step prog tr env m \<bind> steps n prog tr env)"
    by (simp_all add: fun_eq_iff)
  then show ?thesis by (simp add: numeral_3_eq_3)
qed

lemma trap_code_split: "user_trap_code = [] @ save_code @ [Call Sym_enable_kernel_trap, Mv A0 SP, Tail Sym_on_user_trap]"
  by (simp add: save_code_def user_trap_code_def)

lemma save_block:
  assumes "mc_csr m Sscratch = s + 256" "s AND 7 = 0" "mc_pc m = 0" "mc_base m = 0" "mc_exit m = None"
  shows "\<exists>m'. run_block user_trap_code kernel_view env save_code m = Some m' \<and> mc_regs m' SP = s \<and>
    mc_csr m' Sscratch = s + 256 \<and> mc_base m' = 0 \<and> mc_pc m' = 36 \<and>
    mc_mem m' = store_all s (map (mc_regs m) riscv_registers) (mc_mem m)"
  using assms
  by (simp add: save_code_def user_trap_code_def kernel_view_def store_def set_reg_def set_csr_def next_pc_def aligned_add
      riscv_registers_def add_ac)

text \<open>The rest of the entry: the call and the jump to the handler.\<close>

lemma trap_tail:
  assumes "mc_pc m = 36" "mc_base m = 0" "mc_exit m = None" "keeps_frame (en_call env Sym_enable_kernel_trap)"
  shows "\<exists>m'. steps 3 user_trap_code kernel_view env m = Some m' \<and> mc_exit m' = Some (To Sym_on_user_trap) \<and>
    mc_regs m' A0 = mc_regs m SP \<and> mc_regs m' SP = mc_regs m SP \<and> mc_csr m' Sscratch = mc_csr m Sscratch \<and>
    (\<forall>a \<ge> mc_regs m SP. mc_mem m' a = mc_mem m a)"
proof -
  define f where "f = en_call env Sym_enable_kernel_trap"
  have f: "mc_regs (f m) SP = mc_regs m SP" "mc_csr (f m) Sscratch = mc_csr m Sscratch" "mc_pc (f m) = 36"
    "mc_base (f m) = 0" "mc_exit (f m) = None" "\<forall>a \<ge> mc_regs m SP. mc_mem (f m) a = mc_mem m a"
    using assms unfolding f_def keeps_frame_def by auto
  have code: "user_trap_code ! 36 = Call Sym_enable_kernel_trap" "user_trap_code ! 37 = Mv A0 SP"
    "user_trap_code ! 38 = Tail Sym_on_user_trap" "length user_trap_code = 39"
    by (simp_all add: user_trap_code_def)
  show ?thesis
    using f by (simp add: steps_three step_def code kernel_view_def assms f_def [symmetric] next_pc_def set_reg_def)
qed

text \<open>The frame holds the registers.\<close>

lemma frame_saved:
  assumes "unat s + 256 < 2 ^ 64" "\<forall>a \<ge> s. mem' a = store_all s (map u riscv_registers) mem a"
  shows "saved_at s mem' u"
  unfolding saved_at_def
proof (intro allI impI)
  fix i :: nat
  assume i: "i < 31"
  have "s \<le> s + 8 * word_of_nat i"
    using assms(1) i eight_times [of i] by (simp add: word_le_nat_alt unat_word_ariths)
  then show "mem' (s + 8 * word_of_nat i) = u (riscv_registers ! i)"
    using assms(2) i by (simp add: store_all_at riscv_length)
qed

text \<open>Returning loads them.\<close>

lemma saved_loads: "saved_at s mem u \<Longrightarrow> map (\<lambda>i. mem (s + 8 * word_of_nat i)) [0..<31] = map u riscv_registers"
  by (auto simp: saved_at_def riscv_length intro!: nth_equalityI)

lemma return_block:
  assumes "saved_at s (mc_mem k) u" "mc_regs k T6 = s" "s AND 7 = 0" "mc_pc k = 0" "mc_base k = 0" "mc_exit k = None"
  shows "\<exists>k'. run_block return_code kernel_view env (take 31 return_code) k = Some k' \<and> mc_regs k' = u \<and>
    mc_csr k' = mc_csr k \<and> mc_mem k' = mc_mem k \<and> mc_base k' = 0 \<and> mc_pc k' = 31 \<and> mc_exit k' = None"
proof -
  have all: "f = u" if "map f riscv_registers = map u riscv_registers" for f
  proof
    fix r
    show "f r = u r" using that by (cases r) (simp_all add: riscv_registers_def)
  qed
  show ?thesis
    using assms(2-) saved_loads [OF assms(1)]
    by (simp add: return_code_def kernel_view_def load_def set_reg_def next_pc_def aligned_add)
      (rule all, simp add: riscv_registers_def upt_rec)
qed

lemma return_returns:
  assumes "saved_at s (mc_mem k) u" "mc_regs k T6 = s" "s AND 7 = 0" "mc_pc k = 0" "mc_base k = 0" "mc_exit k = None"
  shows "\<exists>k'. steps 32 return_code kernel_view env k = Some k' \<and> mc_exit k' = Some ToUser \<and> mc_regs k' = u \<and>
    mc_csr k' = mc_csr k \<and> mc_mem k' = mc_mem k"
proof -
  obtain k1 where k1: "run_block return_code kernel_view env (take 31 return_code) k = Some k1" "mc_regs k1 = u"
    "mc_csr k1 = mc_csr k" "mc_mem k1 = mc_mem k" "mc_base k1 = 0" "mc_pc k1 = 31" "mc_exit k1 = None"
    using return_block [OF assms] by blast
  have split: "return_code = [] @ take 31 return_code @ [Sret]" by (simp add: return_code_def)
  have straight: "list_all straight (take 31 return_code)" "length (take 31 return_code) = 31"
    by (simp_all add: return_code_def)
  have block: "steps 31 return_code kernel_view env k = Some k1"
    using steps_block [OF straight(1) assms(6) _ split, of kernel_view env] assms(4) k1(1) by (simp only: straight(2) list.size(3))
  have code: "return_code ! 31 = Sret" "length return_code = 32" by (simp_all add: return_code_def)
  show ?thesis
    using steps_add [of 31 1 return_code kernel_view env k] k1 by (simp add: block step_def code kernel_view_def)
qed

lemma trap_enters:
  assumes "keeps_frame (en_call env Sym_enable_kernel_trap)" "s AND 7 = 0" "unat s + 256 < 2 ^ 64"
    "mc_csr m Sscratch = s + 256" "mc_pc m = 0" "mc_base m = 0" "mc_exit m = None"
  shows "\<exists>m'. steps 39 user_trap_code kernel_view env m = Some m' \<and> mc_exit m' = Some (To Sym_on_user_trap) \<and>
    mc_regs m' A0 = s \<and> mc_regs m' SP = s \<and> mc_csr m' Sscratch = s + 256 \<and> saved_at s (mc_mem m') (mc_regs m)"
proof -
  obtain m1 where m1: "run_block user_trap_code kernel_view env save_code m = Some m1" "mc_regs m1 SP = s"
    "mc_csr m1 Sscratch = s + 256" "mc_base m1 = 0" "mc_pc m1 = 36"
    "mc_mem m1 = store_all s (map (mc_regs m) riscv_registers) (mc_mem m)"
    using save_block [OF assms(4,2,5-7)] by blast
  have straight: "list_all straight save_code" "length save_code = 36"
    by (simp_all add: save_code_def user_trap_code_def)
  have exit: "mc_exit m1 = None" using block_pc [OF straight(1) m1(1)] assms(7) by simp
  have block: "steps 36 user_trap_code kernel_view env m = Some m1"
    using steps_block [OF straight(1) assms(7) _ trap_code_split, of kernel_view env] assms(5) m1(1)
    by (simp add: straight(2))
  obtain m' where m': "steps 3 user_trap_code kernel_view env m1 = Some m'" "mc_exit m' = Some (To Sym_on_user_trap)"
    "mc_regs m' A0 = s" "mc_regs m' SP = s" "mc_csr m' Sscratch = s + 256" "\<forall>a \<ge> s. mc_mem m' a = mc_mem m1 a"
    using trap_tail [OF m1(5,4) exit assms(1)] m1(2,3) by auto
  have "saved_at s (mc_mem m') (mc_regs m)"
    by (rule frame_saved [OF assms(3) m'(6) [unfolded m1(6)]])
  moreover have "steps 39 user_trap_code kernel_view env m = Some m'"
    using steps_add [of 36 3 user_trap_code kernel_view env m] by (simp add: block m'(1))
  ultimately show ?thesis using m' by blast
qed

lemma enable_kernel_trap_keeps: "keeps_frame (enable_kernel_trap a)"
  by (simp add: keeps_frame_def enable_kernel_trap_def set_csr_def)

text \<open>
  C39: A trap saves the user and the return restores it.  When a trap comes from a user, with the
  register \<open>sscratch\<close> at the end of a frame of 256 bytes on the kernel's stack, the entry runs to
  \<open>on_user_trap\<close> with the frame as its argument, in which all 31 registers of the user are in the
  order of \<open>RiscvRegisters\<close>, the one used for the stack pointer included, and \<open>sscratch\<close> is ready
  for the next trap.  Returning with a frame, as it was saved or as the kernel has changed it, runs to
  the user with exactly the registers of the frame and with the entry of traps in place.
\<close>

theorem context_switch:
  assumes "keeps_frame (en_call env Sym_enable_kernel_trap)" "s AND 7 = 0" "unat s + 256 < 2 ^ 64"
    "mc_csr m Sscratch = s + 256" "mc_pc m = 0" "mc_base m = 0" "mc_exit m = None"
  shows "(\<exists>m'. steps 39 user_trap_code kernel_view env m = Some m' \<and> mc_exit m' = Some (To Sym_on_user_trap) \<and>
      mc_regs m' A0 = s \<and> mc_regs m' SP = s \<and> mc_csr m' Sscratch = s + 256 \<and> saved_at s (mc_mem m') (mc_regs m)) \<and>
    (\<forall>k u user_trap. saved_at s (mc_mem k) u \<longrightarrow>
      (\<exists>k'. steps 32 return_code kernel_view env (return_to_userspace user_trap s k) = Some k' \<and>
        mc_exit k' = Some ToUser \<and> mc_regs k' = u \<and> mc_csr k' = (mc_csr k)(Stvec := user_trap AND NOT 3) \<and>
        mc_mem k' = mc_mem k))"
proof -
  have "\<exists>k'. steps 32 return_code kernel_view env (return_to_userspace user_trap s k) = Some k' \<and>
        mc_exit k' = Some ToUser \<and> mc_regs k' = u \<and> mc_csr k' = (mc_csr k)(Stvec := user_trap AND NOT 3) \<and>
        mc_mem k' = mc_mem k" if "saved_at s (mc_mem k) u" for k u user_trap
    using return_returns [of s "return_to_userspace user_trap s k" u env] that assms(2)
    by (simp add: return_to_userspace_def enable_user_trap_def set_reg_def set_csr_def)
  with trap_enters [OF assms] show ?thesis by blast
qed

text \<open>A user with the same number in all its registers, and a handler installed by the call.\<close>

definition demo_trap_env :: asm_env where
  "demo_trap_env = \<lparr>en_at = (\<lambda>i. 0x80000000 + 4 * word_of_nat i), en_symbol = (\<lambda>_. 0x80001000),
     en_call = (\<lambda>_. enable_kernel_trap 0x80002000)\<rparr>"

definition demo_trapped :: machine where
  "demo_trapped = \<lparr>mc_regs = (\<lambda>r. if r = SP then 0x10000 else 77), mc_mem = (\<lambda>_. 0),
     mc_csr = (\<lambda>_. 0x80010000), mc_pc = 0, mc_base = 0, mc_exit = None\<rparr>"

theorem context_switch_witness:
  "\<exists>m'. steps 39 user_trap_code kernel_view demo_trap_env demo_trapped = Some m' \<and>
     mc_regs m' A0 = 0x8000FF00 \<and> saved_at 0x8000FF00 (mc_mem m') (mc_regs demo_trapped)"
proof -
  have "keeps_frame (en_call demo_trap_env Sym_enable_kernel_trap)"
    by (simp add: demo_trap_env_def enable_kernel_trap_keeps)
  from context_switch [OF this, of "0x8000FF00" demo_trapped] show ?thesis by (auto simp: demo_trapped_def)
qed

end
