(* ===== verification/Boot_Table.thy ===== *)
theory Boot_Table
  imports Machine_Correct
begin

text \<open>
  The page table that the entry of the kernel builds: what its entries are and what the processor
  translates with it.
\<close>

subsection \<open>Constants\<close>

lemma boot_constants: "pte_first = 15" "pte_diff = 2 ^ 28" "direct_mapping_addend = 0xFFFFFFC000000000"
proof -
  have flags: "(1 :: u64) OR (2 OR 4 OR 8) = 15" by simp
  then show first: "pte_first = 15"
    by (simp add: pte_first_def pte_leaf_def flags_read_write_execute_def or.assoc)
  have "push_bit 10 (word_of_nat (LEVEL_2_PAGE_SIZE div PAGE_SIZE)) OR 1 OR (2 OR 4 OR 8) = (0x1000000F :: u64)"
    by (simp add: PAGE_SIZE_def)
  with first show "pte_diff = 2 ^ 28"
    unfolding pte_diff_def pte_first_def by (simp add: pte_leaf_def flags_read_write_execute_def)
  show "direct_mapping_addend = 0xFFFFFFC000000000"
    using sign_extend_upper [of 0] by (simp add: direct_mapping_addend_def upper_half_def)
qed

subsection \<open>The table\<close>

definition boot_entry :: "nat \<Rightarrow> u64" where
  "boot_entry i = word_of_nat (15 + i mod 256 * 2 ^ 28)"

definition boot_table_at :: "u64 \<Rightarrow> (u64 \<Rightarrow> u64) \<Rightarrow> bool" where
  "boot_table_at pt mem \<longleftrightarrow> (\<forall>i<512. mem (pt + 8 * word_of_nat i) = boot_entry i)"

lemma boot_entry_fields:
  shows "boot_entry i AND PAGE_V \<noteq> 0" "boot_entry i AND (PAGE_R OR PAGE_W OR PAGE_X) \<noteq> 0"
    "take_bit 18 (drop_bit 10 (boot_entry i)) = 0" "take_bit 26 (drop_bit 28 (boot_entry i)) = word_of_nat (i mod 256)"
proof -
  define j where "j = i mod 256"
  have j: "j < 256" by (simp add: j_def)
  have u: "unat (boot_entry i) = 15 + j * 2 ^ 28"
    unfolding boot_entry_def j_def [symmetric] unfolding unat_of_nat using j by simp
  have "bit (boot_entry i) n = bit (unat (boot_entry i)) n" for n
    by (simp add: bit_unsigned_iff)
  moreover have "(15 + j * 2 ^ 28) div 2 = 7 + j * 2 ^ 27" by simp
  then have "bit (15 + j * 2 ^ 28) 0" "bit (15 + j * 2 ^ 28) 1" by (simp_all add: bit_iff_odd)
  ultimately have bits: "bit (boot_entry i) 0" "bit (boot_entry i) 1" by (simp_all only: u)
  show "boot_entry i AND PAGE_V \<noteq> 0"
  proof
    assume "boot_entry i AND PAGE_V = 0"
    then have "\<not> bit (boot_entry i AND 1) 0" by simp
    then show False using bits by (simp add: bit_simps)
  qed
  show "boot_entry i AND (PAGE_R OR PAGE_W OR PAGE_X) \<noteq> 0"
  proof
    assume "boot_entry i AND (PAGE_R OR PAGE_W OR PAGE_X) = 0"
    then have "\<not> bit (boot_entry i AND (2 OR 4 OR 8)) 1" by (simp add: or.assoc)
    then show False using bits by (simp add: bit_simps)
  qed
  have field: "unat (take_bit n (drop_bit k (boot_entry i))) = (15 + j * 2 ^ 28) div 2 ^ k mod 2 ^ n" if "k \<le> 64" for n k
    using that j by (simp only: unsigned_take_bit_eq unsigned_drop_bit_eq u)
      (simp add: take_bit_eq_mod drop_bit_eq_div min_def)
  show "take_bit 18 (drop_bit 10 (boot_entry i)) = 0"
  proof -
    have "(15 + j * 2 ^ 28) div 2 ^ 10 = j * 2 ^ 18" by simp
    then show ?thesis by (intro word_unat_eq_iff [THEN iffD2]) (simp add: field)
  qed
  show "take_bit 26 (drop_bit 28 (boot_entry i)) = word_of_nat (i mod 256)"
    unfolding j_def [symmetric]
    by (rule word_unat_eq_iff [THEN iffD2], subst field) (use j in \<open>simp_all add: unat_of_nat\<close>)
qed

subsection \<open>The translation\<close>

definition boot_satp :: "u64 \<Rightarrow> u64" where
  "boot_satp pt = push_bit 60 8 OR drop_bit 12 pt"

lemma boot_satp_fields:
  assumes "unat pt < 2 ^ 38" "unat pt mod 4096 = 0"
  shows "boot_satp pt \<noteq> 0" "drop_bit 60 (boot_satp pt) = 8" "push_bit 12 (take_bit 44 (boot_satp pt)) = pt"
proof -
  have high: "\<not> bit pt n" if "38 \<le> n" for n
  proof -
    have "take_bit 38 (unat pt) = unat pt" using assms(1) by (simp only: take_bit_nat_eq_self)
    then have "take_bit 38 pt = pt" by (simp only: unsigned_take_bit_eq [symmetric] word_unat_eq_iff)
    then have "bit pt n \<longleftrightarrow> bit (take_bit 38 pt) n" by simp
    then show ?thesis using that by (simp add: bit_take_bit_iff)
  qed
  have "take_bit 12 (unat pt) = 0" using assms(2) by (simp only: take_bit_eq_mod) simp
  then have "take_bit 12 pt = 0" by (simp only: unsigned_take_bit_eq [symmetric] unat_eq_zero)
  then have low: "\<not> bit pt n" if "n < 12" for n
    using that by (metis bit_take_bit_iff bit_0_eq bot_apply bot_bool_def)
  show "drop_bit 60 (boot_satp pt) = 8"
    by (rule bit_word_eqI) (auto simp: boot_satp_def bit_simps high)
  then show "boot_satp pt \<noteq> 0" by auto
  show "push_bit 12 (take_bit 44 (boot_satp pt)) = pt"
  proof (rule bit_word_eqI)
    fix n
    assume "n < LENGTH(64)"
    have "bit pt n \<Longrightarrow> 12 \<le> n \<and> n < 38" using low high by (meson not_le)
    then show "bit (push_bit 12 (take_bit 44 (boot_satp pt))) n = bit pt n"
      using \<open>n < LENGTH(64)\<close> by (auto simp: boot_satp_def bit_simps)
  qed
qed

text \<open>The processor's view: the table maps every gigabyte of both halves.\<close>

definition boot_mapped :: "u64 \<Rightarrow> machine \<Rightarrow> bool" where
  "boot_mapped pt m \<longleftrightarrow> unat pt + 4096 \<le> 2 ^ 38 \<and> unat pt mod 4096 = 0 \<and>
     mc_csr m Satp = boot_satp pt \<and> boot_table_at pt (mc_mem m)"

lemma unat_drop: "unat (drop_bit n (v :: u64)) = unat v div 2 ^ n"
  by (rule trans [OF unat_drop_bit_eq drop_bit_eq_div])

lemma boot_walk:
  assumes "boot_mapped pt m" "unat v div 2 ^ 38 = 0 \<or> unat v div 2 ^ 38 = 2 ^ 26 - 1"
  shows "walk m v = Some (word_of_nat (unat v div 2 ^ 30 mod 256 * 2 ^ 30 + unat v mod 2 ^ 30))"
proof -
  define i where "i = unat v div 2 ^ 30 mod 512"
  have i: "i < 512" "i mod 256 = unat v div 2 ^ 30 mod 256" by (simp_all add: i_def mod_mod_cancel)
  have satp: "mc_csr m Satp = boot_satp pt" "mc_mem m (pt + 8 * word_of_nat i) = boot_entry i"
    using assms(1) i by (auto simp: boot_mapped_def boot_table_at_def)
  have fields: "boot_satp pt \<noteq> 0" "drop_bit 60 (boot_satp pt) = 8" "push_bit 12 (take_bit 44 (boot_satp pt)) = pt"
    using assms(1) boot_satp_fields [of pt] by (simp_all add: boot_mapped_def)
  have "unat (drop_bit 38 v) = 0 \<or> unat (drop_bit 38 v) = 2 ^ 26 - 1"
    using assms(2) by (simp only: unat_drop)
  then have canonical: "drop_bit 38 v = 0 \<or> drop_bit 38 v = 0x3FFFFFF"
  proof
    assume "unat (drop_bit 38 v) = 0"
    then show ?thesis by (auto simp only: unat_eq_zero)
  next
    assume "unat (drop_bit 38 v) = 2 ^ 26 - 1"
    moreover have "unat (0x3FFFFFF :: u64) = 2 ^ 26 - 1" by simp
    ultimately show ?thesis by (auto simp only: word_unat_eq_iff)
  qed
  have index: "drop_bit 30 v AND 511 = word_of_nat i"
  proof -
    have m: "(511 :: u64) = mask 9" by (simp only: mask_eq_exp_minus_1) simp
    have "unat (drop_bit 30 v AND 511) = unat v div 2 ^ 30 mod 2 ^ 9"
      by (simp only: m take_bit_eq_mask [symmetric] unsigned_take_bit_eq unat_drop) (simp only: take_bit_eq_mod)
    then show ?thesis using i by (simp add: word_unat_eq_iff i_def unat_of_nat)
  qed
  have result: "push_bit 30 (word_of_nat (i mod 256)) OR take_bit 30 v =
      (word_of_nat (unat v div 2 ^ 30 mod 256 * 2 ^ 30 + unat v mod 2 ^ 30) :: u64)"
  proof -
    have "take_bit 30 v = (word_of_nat (unat v mod 2 ^ 30) :: u64)"
      by (simp only: word_unat_eq_iff unsigned_take_bit_eq) (simp add: take_bit_eq_mod unat_of_nat)
    moreover have "push_bit 30 (word_of_nat (i mod 256)) OR take_bit 30 v = push_bit 30 (word_of_nat (i mod 256)) + take_bit 30 v"
      by (rule disjunctive_add [symmetric]) (simp add: bit_simps)
    ultimately show ?thesis by (simp add: push_bit_eq_mult i(2))
  qed
  show ?thesis
    using fields boot_entry_fields [of i] canonical
    by (simp only: walk_def satp(1) fields index satp(2) Let_def boot_entry_fields result) auto
qed

lemma boot_lower:
  assumes "boot_mapped pt m" "unat v < 2 ^ 38"
  shows "walk m v = Some v"
proof -
  have "unat v div 2 ^ 30 < 256" using assms(2) by (simp add: less_mult_imp_div_less)
  then have "unat v div 2 ^ 30 mod 256 * 2 ^ 30 + unat v mod 2 ^ 30 = unat v" by simp
  moreover have "unat v div 2 ^ 38 = 0" using assms(2) by (rule div_less)
  moreover have inv_unat: "word_of_nat (unat v) = v" by simp
  ultimately show ?thesis using boot_walk [OF assms(1), of v] by (simp only: inv_unat) simp
qed

lemma unat_upper:
  assumes "unat v < 2 ^ 38"
  shows "unat (direct_mapping_addend + v) = unat v + (2 ^ 26 - 1) * 2 ^ 38"
  using assms by (simp add: unat_word_ariths boot_constants)

lemma boot_upper:
  assumes "boot_mapped pt m" "unat v < 2 ^ 38"
  shows "walk m (direct_mapping_addend + v) = Some v"
proof -
  note u = unat_upper [OF assms(2)]
  have small: "unat v div 2 ^ 30 < 256" using assms(2) by (simp add: less_mult_imp_div_less)
  have "unat (direct_mapping_addend + v) div 2 ^ 38 = 2 ^ 26 - 1" using assms(2) unfolding u by simp
  moreover have "unat (direct_mapping_addend + v) div 2 ^ 30 = (2 ^ 26 - 1) * 256 + unat v div 2 ^ 30" unfolding u by simp
  then have "unat (direct_mapping_addend + v) div 2 ^ 30 mod 256 = unat v div 2 ^ 30"
    using small by (simp only: mod_mult_self3 mod_less)
  moreover have "unat v + (2 ^ 26 - 1) * 2 ^ 38 = unat v + (2 ^ 26 - 1) * 2 ^ 8 * 2 ^ 30" by simp
  then have "unat (direct_mapping_addend + v) mod 2 ^ 30 = unat v mod 2 ^ 30" by (simp only: u mod_mult_self1)
  moreover have inv_unat: "word_of_nat (unat v) = v" by simp
  moreover have "unat v div 2 ^ 30 * 2 ^ 30 + unat v mod 2 ^ 30 = unat v" by simp
  ultimately show ?thesis
    using boot_walk [OF assms(1), of "direct_mapping_addend + v"] by (simp only: inv_unat) simp
qed

text \<open>What a machine does not need the same of.\<close>

lemma walk_updates [simp]:
  "walk (m\<lparr>mc_regs := r\<rparr>) v = walk m v" "walk (m\<lparr>mc_pc := p\<rparr>) v = walk m v" "walk (m\<lparr>mc_base := b\<rparr>) v = walk m v"
  by (simp_all add: walk_def)

lemma boot_mapped_updates [simp]:
  "boot_mapped pt (m\<lparr>mc_regs := r\<rparr>) = boot_mapped pt m" "boot_mapped pt (m\<lparr>mc_pc := p\<rparr>) = boot_mapped pt m"
  "boot_mapped pt (m\<lparr>mc_base := b\<rparr>) = boot_mapped pt m"
  by (simp_all add: boot_mapped_def)

lemma walk_bare: "mc_csr m Satp = 0 \<Longrightarrow> walk m v = Some v"
  by (simp add: walk_def)

text \<open>Stores beside the table keep it.\<close>

definition in_table :: "u64 \<Rightarrow> u64 \<Rightarrow> bool" where
  "in_table pt x \<longleftrightarrow> unat pt \<le> unat x \<and> unat x < unat pt + 4096"

lemma table_cell:
  assumes "unat pt + 4096 \<le> 2 ^ 38" "i < 512"
  shows "in_table pt (pt + 8 * word_of_nat i)"
proof -
  have "unat (8 * word_of_nat i :: u64) = 8 * i" by (rule eight_times) (use assms in simp)
  then show ?thesis using assms by (simp add: in_table_def unat_word_ariths)
qed

lemma boot_mapped_store:
  "boot_mapped pt m \<Longrightarrow> \<not> in_table pt x \<Longrightarrow> boot_mapped pt (m\<lparr>mc_mem := (mc_mem m)(x := y)\<rparr>)"
  unfolding boot_mapped_def boot_table_at_def using table_cell by auto

end
