(* ===== verification/Boot.thy ===== *)
theory Boot
  imports Boot_Table
begin

text \<open>
  The run of the kernel's entry: it builds the page table, turns the translation on, goes to the
  upper half, applies the relocations, clears the section of zeros and jumps to \<open>main\<close>.
\<close>

subsection \<open>The code by position\<close>

lemma boot_nth:
  shows "boot_code ! 0 = Auipc T0 1" "boot_code ! Suc 0 = Li T1 pte_first" "boot_code ! Suc (Suc 0) = Li T2 pte_diff"
    "boot_code ! 3 = Label Map_lower_half" "boot_code ! 4 = Sd (Some T1) 0 T0" "boot_code ! 5 = Addi T0 T0 8"
    "boot_code ! 6 = Add T1 T1 T2" "boot_code ! 7 = Andi T3 T0 2047" "boot_code ! 8 = Bnez T3 Map_lower_half"
    "boot_code ! 9 = Li T1 pte_first" "boot_code ! 10 = Label Map_higher_half" "boot_code ! 11 = Sd (Some T1) 0 T0"
    "boot_code ! 12 = Addi T0 T0 8" "boot_code ! 13 = Add T1 T1 T2" "boot_code ! 14 = Andi T3 T0 2047"
    "boot_code ! 15 = Bnez T3 Map_higher_half" "boot_code ! 16 = Li T1 (push_bit 60 8)" "boot_code ! 17 = Srli T2 T0 12"
    "boot_code ! 18 = Addi T2 T2 (-1)" "boot_code ! 19 = Or T1 T1 T2" "boot_code ! 20 = Csrw Satp T1"
    "boot_code ! 21 = Li T4 direct_mapping_addend" "boot_code ! 22 = Add A1 A1 T4" "boot_code ! 23 = Add T0 T0 T4"
    "boot_code ! 24 = Auipc T1 0" "boot_code ! 25 = Add T1 T1 T4" "boot_code ! 26 = Jr T1 10"
    "boot_code ! 27 = Label Apply_relocations" "boot_code ! 28 = Ld T1 0 T0" "boot_code ! 29 = Ld T2 8 T0"
    "boot_code ! 30 = Ld T3 16 T0" "boot_code ! 31 = Beqz T2 Apply_relocations_end" "boot_code ! 32 = Add T1 T1 T4"
    "boot_code ! 33 = Add T3 T3 T4" "boot_code ! 34 = Sd (Some T3) 0 T1" "boot_code ! 35 = Addi T0 T0 24"
    "boot_code ! 36 = Jump Apply_relocations" "boot_code ! 37 = Label Apply_relocations_end" "boot_code ! 38 = La T0 Sym_bss_start"
    "boot_code ! 39 = La T1 Sym_bss_end" "boot_code ! 40 = Label Clear_bss" "boot_code ! 41 = Sd None 0 T0"
    "boot_code ! 42 = Addi T0 T0 8" "boot_code ! 43 = Bne T0 T1 Clear_bss" "boot_code ! 44 = La SP Sym_early_stack_top"
    "boot_code ! 45 = Tail Sym_main"
  by (simp_all add: boot_code_def)

lemma boot_length: "length boot_code = 46"
  by (simp add: boot_code_def)

lemma boot_labels:
  "label_index boot_code Map_lower_half = 3" "label_index boot_code Map_higher_half = 10"
  "label_index boot_code Apply_relocations = 27" "label_index boot_code Apply_relocations_end = 37"
  "label_index boot_code Clear_bss = 40"
  by (simp_all add: boot_code_def)

lemma steps_numeral:
  "steps (numeral k) prog tr env m = step prog tr env m \<bind> steps (pred_numeral k) prog tr env"
  by (simp add: numeral_eq_Suc)

lemmas boot_run = steps_numeral step_def boot_length boot_nth boot_labels next_pc_def set_reg_def set_csr_def store_def
  load_def jump_if_def

subsection \<open>The loops of the table\<close>

lemma map_body:
  assumes "p = 3 \<or> p = 10" "mc_pc m = p" "mc_base m = 0" "mc_csr m Satp = 0" "mc_exit m = None"
    "mc_regs m T0 AND 7 = 0"
  shows "steps 6 boot_code walk env m = Some (m\<lparr>
    mc_regs := (mc_regs m)(T0 := mc_regs m T0 + 8, T1 := mc_regs m T1 + mc_regs m T2, T3 := (mc_regs m T0 + 8) AND 2047),
    mc_mem := (mc_mem m)(mc_regs m T0 := mc_regs m T1),
    mc_pc := if (mc_regs m T0 + 8) AND 2047 \<noteq> 0 then p else p + 6\<rparr>)"
  using assms by (auto simp: boot_run walk_bare)

definition kept :: "reg list \<Rightarrow> machine \<Rightarrow> machine \<Rightarrow> bool" where
  "kept rs m m' \<longleftrightarrow> (\<forall>r. r \<notin> set rs \<longrightarrow> mc_regs m' r = mc_regs m r) \<and> mc_csr m' = mc_csr m \<and> mc_base m' = mc_base m \<and>
     mc_exit m' = mc_exit m"

lemma kept_trans: "kept rs m1 m2 \<Longrightarrow> kept rs m2 m3 \<Longrightarrow> kept rs m1 m3"
  by (simp add: kept_def)

lemma and_2047: "(a :: u64) AND 2047 = 0 \<longleftrightarrow> unat a mod 2048 = 0"
proof -
  have m: "(2047 :: u64) = mask 11" by (simp only: mask_eq_exp_minus_1) simp
  have "unat (a AND 2047) = unat a mod 2048"
    by (simp only: m take_bit_eq_mask [symmetric] unsigned_take_bit_eq) (simp only: take_bit_eq_mod, simp)
  moreover have "a AND 2047 = 0 \<longleftrightarrow> unat (a AND 2047) = 0" by (simp only: unat_eq_zero)
  ultimately show ?thesis by (simp only:)
qed

lemma map_loop:
  assumes "p = 3 \<or> p = 10"
  shows "mc_pc m = p \<Longrightarrow> mc_base m = 0 \<Longrightarrow> mc_csr m Satp = 0 \<Longrightarrow> mc_exit m = None \<Longrightarrow>
    unat (mc_regs m T0) + 8 * n = e \<Longrightarrow> e mod 2048 = 0 \<Longrightarrow> e < 2 ^ 64 \<Longrightarrow> 0 < n \<Longrightarrow> n \<le> 256 \<Longrightarrow>
    \<exists>m'. runs_to boot_code walk env m m' \<and> mc_pc m' = p + 6 \<and> kept [T0, T1, T3] m m' \<and>
      mc_regs m' T0 = mc_regs m T0 + 8 * word_of_nat n \<and>
      mc_mem m' = store_all (mc_regs m T0) (map (\<lambda>i. mc_regs m T1 + word_of_nat i * mc_regs m T2) [0..<n]) (mc_mem m)"
proof (induction n arbitrary: m)
  case (Suc n)
  define m1 where "m1 = m\<lparr>
    mc_regs := (mc_regs m)(T0 := mc_regs m T0 + 8, T1 := mc_regs m T1 + mc_regs m T2, T3 := (mc_regs m T0 + 8) AND 2047),
    mc_mem := (mc_mem m)(mc_regs m T0 := mc_regs m T1),
    mc_pc := if (mc_regs m T0 + 8) AND 2047 \<noteq> 0 then p else p + 6\<rparr>"
  have u: "unat (mc_regs m T0 + 8) = unat (mc_regs m T0) + 8" using Suc.prems(5,7) by (simp add: unat_word_ariths)
  have "8 dvd (2048 :: nat)" by simp
  then have "8 dvd e" using mod_0_imp_dvd [OF Suc.prems(6)] by (rule dvd_trans)
  then have "8 dvd unat (mc_regs m T0) + 8 * Suc n" by (simp only: Suc.prems(5))
  then have "8 dvd unat (mc_regs m T0)" by (simp only: dvd_add_left_iff [OF dvd_triv_left])
  then have "mc_regs m T0 AND 7 = 0" by (simp only: aligned_dvd)
  then have body: "runs_to boot_code walk env m m1"
    using map_body [OF assms Suc.prems(1-4)] unfolding m1_def by (intro runs_to_steps)
  have k1: "kept [T0, T1, T3] m m1" by (simp add: kept_def m1_def)
  show ?case
  proof (cases "n = 0")
    case True
    then have "(mc_regs m T0 + 8) AND 2047 = 0" using Suc.prems(5,6) u by (simp add: and_2047)
    then have "mc_pc m1 = p + 6" by (simp add: m1_def)
    then show ?thesis using body k1 True by (intro exI [of _ m1]) (simp add: m1_def)
  next
    case False
    have "\<not> (unat (mc_regs m T0) + 8) mod 2048 = 0"
    proof
      assume "(unat (mc_regs m T0) + 8) mod 2048 = 0"
      then have d: "2048 dvd unat (mc_regs m T0) + 8" by (rule mod_0_imp_dvd)
      have "2048 dvd unat (mc_regs m T0) + 8 + 8 * n" using Suc.prems(5) mod_0_imp_dvd [OF Suc.prems(6)] by (simp add: add.assoc)
      then have "2048 dvd 8 * n" using d by (simp only: dvd_add_right_iff)
      then show False using nat_dvd_not_less [of "8 * n" 2048] False Suc.prems(9) by simp
    qed
    then have "(mc_regs m T0 + 8) AND 2047 \<noteq> 0" by (simp only: and_2047 u not_False_eq_True)
    then have "mc_pc m1 = p" by (simp add: m1_def)
    moreover have same: "mc_base m1 = 0" "mc_csr m1 Satp = 0" "mc_exit m1 = None"
      using Suc.prems(2-4) by (simp_all add: m1_def)
    moreover have left: "unat (mc_regs m1 T0) + 8 * n = e"
      using Suc.prems(5) u by (simp add: m1_def)
    moreover have n: "0 < n" "n \<le> 256" using False Suc.prems(9) by simp_all
    ultimately obtain m' where m': "runs_to boot_code walk env m1 m'" "mc_pc m' = p + 6" "kept [T0, T1, T3] m1 m'"
      "mc_regs m' T0 = mc_regs m1 T0 + 8 * word_of_nat n"
      "mc_mem m' = store_all (mc_regs m1 T0) (map (\<lambda>i. mc_regs m1 T1 + word_of_nat i * mc_regs m1 T2) [0..<n]) (mc_mem m1)"
      using Suc.IH [OF \<open>mc_pc m1 = p\<close> same left Suc.prems(6,7) n] by blast
    have "map (\<lambda>i. mc_regs m T1 + word_of_nat i * mc_regs m T2) [0..<Suc n] =
        mc_regs m T1 # map (\<lambda>i. mc_regs m1 T1 + word_of_nat i * mc_regs m1 T2) [0..<n]"
      by (simp only: upt_conv_Cons [OF zero_less_Suc] map_Suc_upt [symmetric] list.map map_map)
        (simp add: m1_def algebra_simps)
    then have "mc_mem m' = store_all (mc_regs m T0) (map (\<lambda>i. mc_regs m T1 + word_of_nat i * mc_regs m T2) [0..<Suc n]) (mc_mem m)"
      unfolding m'(5) by (simp add: m1_def)
    moreover have "mc_regs m' T0 = mc_regs m T0 + 8 * word_of_nat (Suc n)"
      unfolding m'(4) by (simp add: m1_def algebra_simps)
    ultimately show ?thesis
      using runs_to_trans [OF body m'(1)] kept_trans [OF k1 m'(3)] m'(2) by blast
  qed
qed simp

subsection \<open>From the start to the upper half\<close>

text \<open>Where the linker places the code and the table that follows its page.\<close>

definition boot_table_of :: "asm_env \<Rightarrow> u64" where
  "boot_table_of env = en_at env 0 + 4096"

definition code_placed :: "asm_env \<Rightarrow> bool" where
  "code_placed env \<longleftrightarrow> unat (en_at env 0) mod 4096 = 0 \<and> unat (en_at env 0) + 8192 \<le> 2 ^ 38 \<and>
     (\<forall>k<46. unat (en_at env k) < 2 ^ 38) \<and> en_at env 27 = en_at env 24 + 10"

lemma kept_mono: "kept rs m m' \<Longrightarrow> set rs \<subseteq> set ss \<Longrightarrow> kept ss m m'"
  by (auto simp: kept_def)

lemma boot_entries:
  "map (\<lambda>i. pte_first + word_of_nat i * pte_diff) [0..<256] = map boot_entry [0..<256]"
  "map (\<lambda>i. pte_first + word_of_nat i * pte_diff) [0..<256] = map boot_entry [256..<512]"
proof -
  have e: "pte_first + word_of_nat i * pte_diff = boot_entry i" if "i < 256" for i
    using that by (simp add: boot_constants boot_entry_def)
  then show low: "map (\<lambda>i. pte_first + word_of_nat i * pte_diff) [0..<256] = map boot_entry [0..<256]"
    by (intro map_cong) auto
  have "map boot_entry [256..<512] = map (\<lambda>i. boot_entry (i + 256)) [0..<256]"
    using map_add_upt [of 256 256, symmetric] by (simp del: upt_rec_numeral add: map_map o_def [symmetric])
  also have "\<dots> = map boot_entry [0..<256]" by (simp add: boot_entry_def)
  finally show "map (\<lambda>i. pte_first + word_of_nat i * pte_diff) [0..<256] = map boot_entry [256..<512]"
    using low by simp
qed

lemma table_built:
  assumes "code_placed env" "mc_pc m = 0" "mc_base m = 0" "mc_csr m Satp = 0" "mc_exit m = None"
  shows "\<exists>m'. runs_to boot_code walk env m m' \<and> mc_pc m' = 16 \<and> kept [T0, T1, T2, T3] m m' \<and>
    mc_regs m' T0 = boot_table_of env + 4096 \<and>
    mc_mem m' = store_all (boot_table_of env) (map boot_entry [0..<512]) (mc_mem m)"
proof -
  define pt where "pt = boot_table_of env"
  have pt: "unat pt mod 4096 = 0" "unat pt + 4096 \<le> 2 ^ 38"
    using assms(1) by (simp_all add: pt_def boot_table_of_def code_placed_def unat_word_ariths)
  define m1 where "m1 = m\<lparr>mc_regs := (mc_regs m)(T0 := pt, T1 := pte_first, T2 := pte_diff), mc_pc := 3\<rparr>"
  have "steps 3 boot_code walk env m = Some m1"
    using assms(2-) by (simp add: boot_run walk_bare m1_def pt_def boot_table_of_def add.commute)
  then have r1: "runs_to boot_code walk env m m1" by (rule runs_to_steps)
  have "(2048 :: nat) dvd 4096" by simp
  then have "2048 dvd unat pt" using mod_0_imp_dvd [OF pt(1)] by (rule dvd_trans)
  then have half: "unat pt mod 2048 = 0" by (rule dvd_imp_mod_0)
  obtain m2 where m2: "runs_to boot_code walk env m1 m2" "mc_pc m2 = 9" "kept [T0, T1, T3] m1 m2"
    "mc_regs m2 T0 = pt + 2048" "mc_mem m2 = store_all pt (map boot_entry [0..<256]) (mc_mem m)"
    using map_loop [of 3 m1 256 "unat pt + 2048" env] half pt(2) assms(3-5)
    by (auto simp: m1_def boot_entries(1) simp del: upt_rec_numeral)
  define m3 where "m3 = m2\<lparr>mc_regs := (mc_regs m2)(T1 := pte_first), mc_pc := 10\<rparr>"
  have same2: "mc_base m2 = 0" "mc_csr m2 Satp = 0" "mc_exit m2 = None" "mc_regs m2 T2 = pte_diff"
    using m2(3) assms(3-5) by (simp_all add: kept_def m1_def)
  have "steps 1 boot_code walk env m2 = Some m3"
    using m2(2) same2 by (simp add: boot_run walk_bare m3_def)
  then have r3: "runs_to boot_code walk env m2 m3" by (rule runs_to_steps)
  have u: "unat (pt + 2048) = unat pt + 2048" using pt(2) by (simp add: unat_word_ariths)
  obtain m4 where m4: "runs_to boot_code walk env m3 m4" "mc_pc m4 = 16" "kept [T0, T1, T3] m3 m4"
    "mc_regs m4 T0 = pt + 4096" "mc_mem m4 = store_all (pt + 2048) (map boot_entry [256..<512]) (mc_mem m2)"
    using map_loop [of 10 m3 256 "unat pt + 4096" env] half pt(2) u same2 m2(4)
    by (auto simp: m3_def boot_entries(2) mod_add_eq [of "unat pt", symmetric] add.commute [of 4096] simp del: upt_rec_numeral)
  have split: "[0..<512] = [0..<256] @ [256..<512]"
    using upt_add_eq_append [of 0 256 256] by (simp del: upt_rec_numeral)
  have "mc_mem m4 = store_all pt (map boot_entry [0..<512]) (mc_mem m)"
    unfolding m4(5) m2(5) split map_append by (simp add: store_all_append del: upt_rec_numeral)
  moreover have "kept [T0, T1, T2, T3] m m1" "kept [T0, T1, T2, T3] m2 m3"
    by (simp_all add: kept_def m1_def m3_def)
  then have "kept [T0, T1, T2, T3] m m4"
    using kept_mono [OF m2(3), of "[T0, T1, T2, T3]"] kept_mono [OF m4(3), of "[T0, T1, T2, T3]"]
    by simp (metis kept_trans)
  moreover have "runs_to boot_code walk env m m4"
    using r1 m2(1) r3 m4(1) by (blast intro: runs_to_trans)
  ultimately show ?thesis using m4(2,4) unfolding pt_def by blast
qed

text \<open>The memory that was stored is the table.\<close>

lemma stored_table: "boot_table_at pt (store_all pt (map boot_entry [0..<512]) mem)"
  unfolding boot_table_at_def
proof (intro allI impI)
  fix i :: nat
  assume "i < 512"
  then show "store_all pt (map boot_entry [0..<512]) mem (pt + 8 * word_of_nat i) = boot_entry i"
    using store_all_at [of "map boot_entry [0..<512]" i pt mem] by (simp del: upt_rec_numeral)
qed

lemma satp_value:
  assumes "unat pt + 4096 \<le> 2 ^ 38"
  shows "push_bit 60 8 OR (drop_bit 12 (pt + 4096) + (-1)) = boot_satp pt"
proof -
  have "unat (pt + 4096) = unat pt + 4096" using assms by (simp add: unat_word_ariths)
  then have "unat (drop_bit 12 (pt + 4096)) = unat (drop_bit 12 pt) + 1"
    by (simp only: unat_drop) simp
  moreover have "unat (drop_bit 12 pt) < 2 ^ 38" unfolding unat_drop using assms by (simp add: less_mult_imp_div_less)
  then have "unat (drop_bit 12 pt + 1) = unat (drop_bit 12 pt) + 1" by (simp add: unat_word_ariths)
  ultimately have "drop_bit 12 (pt + 4096) = drop_bit 12 pt + 1" by (simp only: word_unat_eq_iff)
  then show ?thesis by (simp add: boot_satp_def)
qed

lemma paging_on:
  assumes "code_placed env" "mc_pc m = 16" "mc_base m = 0" "mc_csr m Satp = 0" "mc_exit m = None"
    "mc_regs m T0 = boot_table_of env + 4096" "boot_table_at (boot_table_of env) (mc_mem m)"
  shows "\<exists>m'. runs_to boot_code walk env m m' \<and> mc_pc m' = 27 \<and> mc_base m' = direct_mapping_addend \<and> mc_exit m' = None \<and>
    mc_regs m' T0 = direct_mapping_addend + (boot_table_of env + 4096) \<and> mc_regs m' T4 = direct_mapping_addend \<and>
    mc_regs m' A0 = mc_regs m A0 \<and> mc_regs m' A1 = direct_mapping_addend + mc_regs m A1 \<and>
    boot_mapped (boot_table_of env) m' \<and> mc_mem m' = mc_mem m"
proof -
  define pt where "pt = boot_table_of env"
  have pt: "unat pt mod 4096 = 0" "unat pt + 4096 \<le> 2 ^ 38"
    using assms(1) by (simp_all add: pt_def boot_table_of_def code_placed_def unat_word_ariths)
  have at: "unat (en_at env k) < 2 ^ 38" if "k < 46" for k using that assms(1) by (simp add: code_placed_def)
  define m1 where "m1 = m\<lparr>mc_regs := (mc_regs m)(T2 := drop_bit 12 (pt + 4096) + (-1), T1 := boot_satp pt),
    mc_csr := (mc_csr m)(Satp := boot_satp pt), mc_pc := 21\<rparr>"
  have "steps 5 boot_code walk env m = Some m1"
    using assms(2-6) satp_value [OF pt(2)] by (simp add: boot_run walk_bare m1_def pt_def [symmetric])
  then have r1: "runs_to boot_code walk env m m1" by (rule runs_to_steps)
  have mapped: "boot_mapped pt m1"
    using pt assms(7) by (simp add: boot_mapped_def m1_def pt_def [symmetric])
  have m1: "mc_pc m1 = 21" "mc_base m1 = 0" "mc_exit m1 = None" using assms(3,5) by (simp_all add: m1_def)
  have fetch: "walk m1 (en_at env k) = Some (en_at env k)" if "k < 46" for k
    by (rule boot_lower [OF mapped at [OF that]])
  have jump: "walk m1 (direct_mapping_addend + en_at env 27) = Some (en_at env 27)"
    by (rule boot_upper [OF mapped]) (rule at, simp)
  have target: "en_at env 24 + direct_mapping_addend + 10 = direct_mapping_addend + en_at env 27"
    using assms(1) by (simp add: code_placed_def add_ac)
  define m2 where "m2 = m1\<lparr>mc_regs := (mc_regs m1)(T4 := direct_mapping_addend, A1 := mc_regs m1 A1 + direct_mapping_addend,
    T0 := mc_regs m1 T0 + direct_mapping_addend, T1 := en_at env 24 + direct_mapping_addend),
    mc_pc := 27, mc_base := direct_mapping_addend\<rparr>"
  have "steps 6 boot_code walk env m1 = Some m2"
    using m1 by (simp add: boot_run fetch target jump m2_def)
  then have "runs_to boot_code walk env m m2" using r1 by (blast intro: runs_to_steps runs_to_trans)
  moreover have "boot_mapped pt m2" using mapped by (simp add: m2_def)
  ultimately show ?thesis
    using assms(5,6) by (intro exI [of _ m2]) (simp add: m2_def m1_def pt_def add_ac)
qed

subsection \<open>Relocations\<close>

text \<open>
  The section of relocations at an address: its entries are an offset, an information that is not
  zero, and an addend; it ends with an entry whose information is zero.
\<close>

type_synonym relocation = "u64 \<times> u64 \<times> u64"

fun relocations_at :: "u64 \<Rightarrow> relocation list \<Rightarrow> (u64 \<Rightarrow> u64) \<Rightarrow> bool" where
  "relocations_at a [] mem \<longleftrightarrow> mem (a + 8) = 0"
| "relocations_at a ((off, info, addend) # rels) mem \<longleftrightarrow>
     mem a = off \<and> mem (a + 8) = info \<and> mem (a + 16) = addend \<and> info \<noteq> 0 \<and> relocations_at (a + 24) rels mem"

fun relocate :: "relocation list \<Rightarrow> (u64 \<Rightarrow> u64) \<Rightarrow> u64 \<Rightarrow> u64" where
  "relocate [] mem = mem"
| "relocate ((off, info, addend) # rels) mem = relocate rels (mem(off := direct_mapping_addend + addend))"

lemma relocations_at_store:
  assumes "unat a + 24 * (length rels + 1) \<le> 2 ^ 38" "unat x < unat a \<or> unat a + 24 * (length rels + 1) \<le> unat x"
  shows "relocations_at a rels (mem(x := y)) = relocations_at a rels mem"
  using assms
proof (induction a rels mem rule: relocations_at.induct)
  case (1 a mem)
  then have "x \<noteq> a + 8" by (auto simp: unat_word_ariths)
  then show ?case by simp
next
  case (2 a off info addend rels mem)
  have u: "unat (a + 8) = unat a + 8" "unat (a + 16) = unat a + 16" "unat (a + 24) = unat a + 24"
    using "2.prems"(1) by (simp_all add: unat_word_ariths)
  have "x \<noteq> a" "x \<noteq> a + 8" "x \<noteq> a + 16" using "2.prems"(2) u by auto
  moreover have "relocations_at (a + 24) rels (mem(x := y)) = relocations_at (a + 24) rels mem"
    using "2.IH" "2.prems" u by (auto simp: fun_upd_def)
  ultimately show ?case by (simp add: fun_upd_def)
qed

definition upper_ready :: "asm_env \<Rightarrow> machine \<Rightarrow> bool" where
  "upper_ready env m \<longleftrightarrow> mc_base m = direct_mapping_addend \<and> mc_exit m = None \<and> boot_mapped (boot_table_of env) m \<and>
     mc_regs m T4 = direct_mapping_addend"

lemma upper_fetch:
  assumes "code_placed env" "upper_ready env m" "k < 46"
  shows "walk m (direct_mapping_addend + en_at env k) = Some (en_at env k)"
  by (rule boot_upper [of "boot_table_of env"]) (use assms in \<open>simp_all add: upper_ready_def code_placed_def\<close>)

lemma upper_aligned: "direct_mapping_addend AND 7 = 0"
  by (simp add: boot_constants)

lemma relocation_body:
  assumes "code_placed env" "upper_ready env m" "mc_pc m = 27" "mc_regs m T0 = direct_mapping_addend + a"
    "a AND 7 = 0" "unat a + 24 < 2 ^ 38" "mc_mem m a = off" "mc_mem m (a + 8) = info" "mc_mem m (a + 16) = addend"
    "info \<noteq> 0" "off AND 7 = 0" "unat off < 2 ^ 38" "\<not> in_table (boot_table_of env) off"
  shows "\<exists>m'. runs_to boot_code walk env m m' \<and> mc_pc m' = 27 \<and> upper_ready env m' \<and>
    mc_regs m' T0 = direct_mapping_addend + (a + 24) \<and> mc_regs m' A0 = mc_regs m A0 \<and> mc_regs m' A1 = mc_regs m A1 \<and>
    mc_mem m' = (mc_mem m)(off := direct_mapping_addend + addend)"
proof -
  have m: "mc_base m = direct_mapping_addend" "mc_exit m = None" "boot_mapped (boot_table_of env) m"
    "mc_regs m T4 = direct_mapping_addend"
    using assms(2) by (simp_all add: upper_ready_def)
  note fetch = upper_fetch [OF assms(1,2)]
  have "unat (a + 8) < 2 ^ 38" "unat (a + 16) < 2 ^ 38" "unat a < 2 ^ 38"
    using assms(6) by (simp_all add: unat_word_ariths)
  then have tr: "walk m (direct_mapping_addend + a) = Some a" "walk m (direct_mapping_addend + (a + 8)) = Some (a + 8)"
    "walk m (direct_mapping_addend + (a + 16)) = Some (a + 16)" "walk m (direct_mapping_addend + off) = Some off"
    using boot_upper [OF m(3)] assms(12) by blast+
  have al: "(direct_mapping_addend + a) AND 7 = 0" "(direct_mapping_addend + (a + 8)) AND 7 = 0"
    "(direct_mapping_addend + (a + 16)) AND 7 = 0" "(direct_mapping_addend + off) AND 7 = 0"
    by (intro aligned_add; simp add: upper_aligned assms)+
  define m1 where "m1 = m\<lparr>mc_regs := (mc_regs m)(T2 := info, T1 := off + direct_mapping_addend,
      T3 := addend + direct_mapping_addend), mc_mem := (mc_mem m)(off := addend + direct_mapping_addend), mc_pc := 35\<rparr>"
  have "steps 8 boot_code walk env m = Some m1"
    using m assms(3,4,7-10) by (simp add: boot_run fetch tr al m1_def add.assoc add.commute [of _ direct_mapping_addend])
  then have r1: "runs_to boot_code walk env m m1" by (rule runs_to_steps)
  have ready: "upper_ready env m1"
    using boot_mapped_store [OF m(3) assms(13)] m by (simp add: upper_ready_def m1_def boot_mapped_def)
  define m2 where "m2 = m1\<lparr>mc_regs := (mc_regs m1)(T0 := direct_mapping_addend + (a + 24)), mc_pc := 27\<rparr>"
  have m1: "mc_pc m1 = 35" "mc_base m1 = direct_mapping_addend" "mc_exit m1 = None"
    "mc_regs m1 T0 = direct_mapping_addend + a"
    using m assms(4) by (simp_all add: m1_def)
  have "steps 2 boot_code walk env m1 = Some m2"
    using m1 by (simp add: boot_run upper_fetch [OF assms(1) ready] m2_def add.assoc)
  then have "runs_to boot_code walk env m m2" using r1 by (blast intro: runs_to_steps runs_to_trans)
  moreover have "upper_ready env m2" using ready by (simp add: upper_ready_def m2_def)
  ultimately show ?thesis by (intro exI [of _ m2]) (simp add: m2_def m1_def add.commute)
qed

text \<open>A relocation may change neither the table nor the section itself.\<close>

definition relocation_ok :: "asm_env \<Rightarrow> nat \<Rightarrow> nat \<Rightarrow> relocation \<Rightarrow> bool" where
  "relocation_ok env lo hi r \<longleftrightarrow> fst r AND 7 = 0 \<and> unat (fst r) < 2 ^ 38 \<and> \<not> in_table (boot_table_of env) (fst r) \<and>
     (unat (fst r) < lo \<or> hi \<le> unat (fst r))"

lemma relocations_end:
  assumes "code_placed env" "upper_ready env m" "mc_pc m = 27" "mc_regs m T0 = direct_mapping_addend + a"
    "a AND 7 = 0" "unat a + 24 \<le> 2 ^ 38" "mc_mem m (a + 8) = 0"
  shows "\<exists>m'. runs_to boot_code walk env m m' \<and> mc_pc m' = 40 \<and> upper_ready env m' \<and>
    mc_regs m' T0 = direct_mapping_addend + en_symbol env Sym_bss_start \<and>
    mc_regs m' T1 = direct_mapping_addend + en_symbol env Sym_bss_end \<and>
    mc_regs m' A0 = mc_regs m A0 \<and> mc_regs m' A1 = mc_regs m A1 \<and> mc_mem m' = mc_mem m"
proof -
  have m: "mc_base m = direct_mapping_addend" "mc_exit m = None" "boot_mapped (boot_table_of env) m"
    using assms(2) by (simp_all add: upper_ready_def)
  note fetch = upper_fetch [OF assms(1,2)]
  have "unat (a + 8) < 2 ^ 38" "unat (a + 16) < 2 ^ 38" "unat a < 2 ^ 38"
    using assms(6) by (simp_all add: unat_word_ariths)
  then have tr: "walk m (direct_mapping_addend + a) = Some a" "walk m (direct_mapping_addend + (a + 8)) = Some (a + 8)"
    "walk m (direct_mapping_addend + (a + 16)) = Some (a + 16)"
    using boot_upper [OF m(3)] by blast+
  have al: "(direct_mapping_addend + a) AND 7 = 0" "(direct_mapping_addend + (a + 8)) AND 7 = 0"
    "(direct_mapping_addend + (a + 16)) AND 7 = 0"
    by (intro aligned_add; simp add: upper_aligned assms)+
  define m1 where "m1 = m\<lparr>mc_regs := (mc_regs m)(T2 := 0, T3 := mc_mem m (a + 16),
      T0 := direct_mapping_addend + en_symbol env Sym_bss_start,
      T1 := direct_mapping_addend + en_symbol env Sym_bss_end), mc_pc := 40\<rparr>"
  have "steps 8 boot_code walk env m = Some m1"
    using m assms(3,4,7) by (simp add: boot_run fetch tr al m1_def add.assoc fun_upd_twist)
  moreover have "upper_ready env m1" using assms(2) by (simp add: upper_ready_def m1_def)
  ultimately show ?thesis by (intro exI [of _ m1]) (simp add: runs_to_steps m1_def)
qed

lemma relocations_loop:
  assumes "code_placed env"
  shows "upper_ready env m \<Longrightarrow> mc_pc m = 27 \<Longrightarrow> mc_regs m T0 = direct_mapping_addend + a \<Longrightarrow>
    a AND 7 = 0 \<Longrightarrow> unat a + 24 * (length rels + 1) \<le> 2 ^ 38 \<Longrightarrow> relocations_at a rels (mc_mem m) \<Longrightarrow>
    list_all (relocation_ok env (unat a) (unat a + 24 * (length rels + 1))) rels \<Longrightarrow>
    \<exists>m'. runs_to boot_code walk env m m' \<and> mc_pc m' = 40 \<and> upper_ready env m' \<and>
      mc_regs m' T0 = direct_mapping_addend + en_symbol env Sym_bss_start \<and>
      mc_regs m' T1 = direct_mapping_addend + en_symbol env Sym_bss_end \<and>
      mc_regs m' A0 = mc_regs m A0 \<and> mc_regs m' A1 = mc_regs m A1 \<and> mc_mem m' = relocate rels (mc_mem m)"
proof (induction rels arbitrary: a m)
  case Nil
  then show ?case using relocations_end [OF assms Nil.prems(1-4)] by simp
next
  case (Cons r rels)
  obtain off info addend where r: "r = (off, info, addend)" by (cases r)
  have entry: "mc_mem m a = off" "mc_mem m (a + 8) = info" "mc_mem m (a + 16) = addend" "info \<noteq> 0"
    "relocations_at (a + 24) rels (mc_mem m)"
    using Cons.prems(6) by (simp_all add: r)
  have ok: "off AND 7 = 0" "unat off < 2 ^ 38" "\<not> in_table (boot_table_of env) off"
    "unat off < unat a \<or> unat a + 24 * (length rels + 2) \<le> unat off"
    using Cons.prems(7) by (simp_all add: r relocation_ok_def)
  have u: "unat (a + 24) = unat a + 24" using Cons.prems(5) by (simp add: unat_word_ariths)
  have bound: "unat (a + 24) + 24 * (length rels + 1) \<le> 2 ^ 38" using Cons.prems(5) u by simp
  have "unat a + 24 < 2 ^ 38" using Cons.prems(5) by simp
  from relocation_body [OF assms Cons.prems(1-4) this entry(1-4) ok(1-3)]
  obtain m1 where m1: "runs_to boot_code walk env m m1" "mc_pc m1 = 27" "upper_ready env m1"
    "mc_regs m1 T0 = direct_mapping_addend + (a + 24)" "mc_regs m1 A0 = mc_regs m A0" "mc_regs m1 A1 = mc_regs m A1"
    "mc_mem m1 = (mc_mem m)(off := direct_mapping_addend + addend)" by blast
  have "relocations_at (a + 24) rels (mc_mem m1)"
    unfolding m1(7) by (subst relocations_at_store [OF bound]) (use ok(4) u entry(5) in auto)
  moreover have "(a + 24) AND 7 = 0" by (rule aligned_add [OF Cons.prems(4)]) simp
  moreover have "list_all (relocation_ok env (unat (a + 24)) (unat (a + 24) + 24 * (length rels + 1))) rels"
    using Cons.prems(7) u by (auto simp: list_all_iff relocation_ok_def)
  ultimately obtain m' where m': "runs_to boot_code walk env m1 m'" "mc_pc m' = 40" "upper_ready env m'"
      "mc_regs m' T0 = direct_mapping_addend + en_symbol env Sym_bss_start"
      "mc_regs m' T1 = direct_mapping_addend + en_symbol env Sym_bss_end"
      "mc_regs m' A0 = mc_regs m1 A0" "mc_regs m' A1 = mc_regs m1 A1" "mc_mem m' = relocate rels (mc_mem m1)"
    using Cons.IH [OF m1(3,2,4) _ bound] by blast
  have "mc_mem m' = relocate (r # rels) (mc_mem m)" unfolding m'(8) m1(7) r by simp
  with m' m1(5,6) runs_to_trans [OF m1(1) m'(1)] show ?case by auto
qed

subsection \<open>The section of zeros\<close>

lemma clear_body:
  assumes "code_placed env" "upper_ready env m" "mc_pc m = 40" "mc_regs m T0 = direct_mapping_addend + s"
    "s AND 7 = 0" "unat s < 2 ^ 38" "\<not> in_table (boot_table_of env) s" "mc_regs m T1 = direct_mapping_addend + e"
  shows "\<exists>m'. runs_to boot_code walk env m m' \<and> mc_pc m' = (if s + 8 = e then 44 else 40) \<and> upper_ready env m' \<and>
    mc_regs m' T0 = direct_mapping_addend + (s + 8) \<and> mc_regs m' T1 = mc_regs m T1 \<and>
    mc_regs m' A0 = mc_regs m A0 \<and> mc_regs m' A1 = mc_regs m A1 \<and> mc_mem m' = (mc_mem m)(s := 0)"
proof -
  have m: "mc_base m = direct_mapping_addend" "mc_exit m = None" "boot_mapped (boot_table_of env) m"
    "mc_regs m T4 = direct_mapping_addend"
    using assms(2) by (simp_all add: upper_ready_def)
  have tr: "walk m (direct_mapping_addend + s) = Some s" by (rule boot_upper [OF m(3) assms(6)])
  have al: "(direct_mapping_addend + s) AND 7 = 0" by (rule aligned_add [OF upper_aligned assms(5)])
  define m1 where "m1 = m\<lparr>mc_mem := (mc_mem m)(s := 0), mc_pc := 42\<rparr>"
  have "steps 2 boot_code walk env m = Some m1"
    using m assms(3,4) by (simp add: boot_run upper_fetch [OF assms(1,2)] tr al m1_def)
  then have r1: "runs_to boot_code walk env m m1" by (rule runs_to_steps)
  have ready: "upper_ready env m1"
    using boot_mapped_store [OF m(3) assms(7)] m by (simp add: upper_ready_def m1_def)
  have m1: "mc_pc m1 = 42" "mc_base m1 = direct_mapping_addend" "mc_exit m1 = None"
    "mc_regs m1 T0 = direct_mapping_addend + s" "mc_regs m1 T1 = direct_mapping_addend + e"
    using m assms(4,8) by (simp_all add: m1_def)
  define m2 where "m2 = m1\<lparr>mc_regs := (mc_regs m1)(T0 := direct_mapping_addend + (s + 8)),
    mc_pc := if s + 8 = e then 44 else 40\<rparr>"
  have "steps 2 boot_code walk env m1 = Some m2"
    using m1 by (simp add: boot_run upper_fetch [OF assms(1) ready] m2_def add.assoc)
  then have "runs_to boot_code walk env m m2" using r1 by (blast intro: runs_to_steps runs_to_trans)
  moreover have "upper_ready env m2" using ready by (simp add: upper_ready_def m2_def)
  ultimately show ?thesis by (intro exI [of _ m2]) (simp add: m2_def m1_def)
qed

lemma clear_loop:
  assumes "code_placed env"
  shows "upper_ready env m \<Longrightarrow> mc_pc m = 40 \<Longrightarrow> mc_regs m T0 = direct_mapping_addend + s \<Longrightarrow>
    mc_regs m T1 = direct_mapping_addend + (s + 8 * word_of_nat (Suc n)) \<Longrightarrow> s AND 7 = 0 \<Longrightarrow> unat s + 8 * Suc n \<le> 2 ^ 38 \<Longrightarrow>
    unat s + 8 * Suc n \<le> unat (boot_table_of env) \<or> unat (boot_table_of env) + 4096 \<le> unat s \<Longrightarrow>
    \<exists>m'. runs_to boot_code walk env m m' \<and> mc_pc m' = 44 \<and> upper_ready env m' \<and>
      mc_regs m' A0 = mc_regs m A0 \<and> mc_regs m' A1 = mc_regs m A1 \<and>
      mc_mem m' = store_all s (replicate (Suc n) 0) (mc_mem m)"
proof (induction n arbitrary: s m)
  case 0
  have "unat s < 2 ^ 38" "\<not> in_table (boot_table_of env) s" using 0(6,7) by (auto simp: in_table_def)
  from clear_body [OF assms 0(1-3) 0(5) this, of "s + 8"] 0(4) show ?case by auto
next
  case (Suc n)
  have "unat s < 2 ^ 38" "\<not> in_table (boot_table_of env) s" using Suc.prems(6,7) by (auto simp: in_table_def)
  from clear_body [OF assms Suc.prems(1-3,5) this Suc.prems(4)]
  obtain m1 where m1: "runs_to boot_code walk env m m1"
    "mc_pc m1 = (if s + 8 = s + 8 * word_of_nat (Suc (Suc n)) then 44 else 40)" "upper_ready env m1"
    "mc_regs m1 T0 = direct_mapping_addend + (s + 8)" "mc_regs m1 T1 = mc_regs m T1"
    "mc_regs m1 A0 = mc_regs m A0" "mc_regs m1 A1 = mc_regs m A1" "mc_mem m1 = (mc_mem m)(s := 0)" by blast
  have "unat (8 * word_of_nat (Suc (Suc n)) :: u64) = 8 * Suc (Suc n)"
    by (rule eight_times) (use Suc.prems(6) in simp)
  moreover have "unat (8 :: u64) \<noteq> 8 * Suc (Suc n)" by simp
  ultimately have "8 * word_of_nat (Suc (Suc n)) \<noteq> (8 :: u64)" by metis
  then have pc: "mc_pc m1 = 40" using m1(2) by (metis add_left_imp_eq)
  have u: "unat (s + 8) = unat s + 8" using Suc.prems(6) by (simp add: unat_word_ariths)
  have bound: "unat (s + 8) + 8 * Suc n \<le> 2 ^ 38" using Suc.prems(6) u by simp
  have al: "(s + 8) AND 7 = 0" by (rule aligned_add [OF Suc.prems(5)]) simp
  have last: "mc_regs m1 T1 = direct_mapping_addend + (s + 8 + 8 * word_of_nat (Suc n))"
    using Suc.prems(4) m1(5) by (simp add: algebra_simps)
  have "unat (s + 8) + 8 * Suc n \<le> unat (boot_table_of env) \<or> unat (boot_table_of env) + 4096 \<le> unat (s + 8)"
    using Suc.prems(7) u by auto
  from Suc.IH [OF m1(3) pc m1(4) last al bound this]
  obtain m' where m': "runs_to boot_code walk env m1 m'" "mc_pc m' = 44" "upper_ready env m'"
    "mc_regs m' A0 = mc_regs m1 A0" "mc_regs m' A1 = mc_regs m1 A1"
    "mc_mem m' = store_all (s + 8) (replicate (Suc n) 0) (mc_mem m1)" by blast
  have "mc_mem m' = store_all s (replicate (Suc (Suc n)) 0) (mc_mem m)" unfolding m'(6) m1(8) by simp
  with m' m1(6,7) runs_to_trans [OF m1(1) m'(1)] show ?case by auto
qed

subsection \<open>The whole entry\<close>

text \<open>
  What the linker script places after the table: the relocations, and the section of zeros, which is
  not empty.
\<close>

definition image_placed :: "asm_env \<Rightarrow> relocation list \<Rightarrow> nat \<Rightarrow> (u64 \<Rightarrow> u64) \<Rightarrow> bool" where
  "image_placed env rels zeros mem \<longleftrightarrow> code_placed env \<and>
     (let pt = boot_table_of env; rela = pt + 4096; hi = unat pt + 4096 + 24 * (length rels + 1);
          start = en_symbol env Sym_bss_start in
      hi \<le> 2 ^ 38 \<and> relocations_at rela rels mem \<and>
      list_all (relocation_ok env (unat pt + 4096) hi) rels \<and>
      start AND 7 = 0 \<and> 0 < zeros \<and> unat start + 8 * zeros \<le> 2 ^ 38 \<and> hi \<le> unat start \<and>
      en_symbol env Sym_bss_end = start + 8 * word_of_nat zeros)"

definition boot_memory :: "asm_env \<Rightarrow> relocation list \<Rightarrow> nat \<Rightarrow> (u64 \<Rightarrow> u64) \<Rightarrow> u64 \<Rightarrow> u64" where
  "boot_memory env rels zeros mem =
     store_all (en_symbol env Sym_bss_start) (replicate zeros 0)
       (relocate rels (store_all (boot_table_of env) (map boot_entry [0..<512]) mem))"

lemma relocations_at_cong:
  assumes "unat a + 24 * (length rels + 1) \<le> 2 ^ 38" "\<forall>x. unat a \<le> unat x \<longrightarrow> mem' x = mem x"
  shows "relocations_at a rels mem' = relocations_at a rels mem"
  using assms
proof (induction a rels mem rule: relocations_at.induct)
  case (1 a mem)
  then show ?case by (simp add: unat_word_ariths)
next
  case (2 a off info addend rels mem)
  have u: "unat (a + 8) = unat a + 8" "unat (a + 16) = unat a + 16" "unat (a + 24) = unat a + 24"
    using "2.prems"(1) by (simp_all add: unat_word_ariths)
  then have "relocations_at (a + 24) rels mem' = relocations_at (a + 24) rels mem"
    using "2.IH" "2.prems" by simp
  with u "2.prems"(2) show ?case by simp
qed

lemma boot_exit:
  assumes "code_placed env" "upper_ready env m" "mc_pc m = 44"
  shows "\<exists>m'. runs_to boot_code walk env m m' \<and> mc_exit m' = Some (To Sym_main) \<and> mc_base m' = direct_mapping_addend \<and>
    boot_mapped (boot_table_of env) m' \<and> mc_regs m' A0 = mc_regs m A0 \<and> mc_regs m' A1 = mc_regs m A1 \<and>
    mc_regs m' SP = direct_mapping_addend + en_symbol env Sym_early_stack_top \<and> mc_mem m' = mc_mem m"
proof -
  have m: "mc_base m = direct_mapping_addend" "mc_exit m = None" "boot_mapped (boot_table_of env) m"
    using assms(2) by (simp_all add: upper_ready_def)
  define m1 where "m1 = m\<lparr>mc_regs := (mc_regs m)(SP := direct_mapping_addend + en_symbol env Sym_early_stack_top),
    mc_pc := 45, mc_exit := Some (To Sym_main)\<rparr>"
  have "steps 2 boot_code walk env m = Some m1"
    using m assms(3) by (simp add: boot_run upper_fetch [OF assms(1,2)] m1_def)
  then have "runs_to boot_code walk env m m1" by (rule runs_to_steps)
  then show ?thesis using m by (intro exI [of _ m1]) (simp add: m1_def boot_mapped_def)
qed

lemma boot_runs:
  assumes "image_placed env rels zeros (mc_mem m)" "mc_pc m = 0" "mc_base m = 0" "mc_csr m Satp = 0" "mc_exit m = None"
  shows "\<exists>m'. runs_to boot_code walk env m m' \<and> mc_exit m' = Some (To Sym_main) \<and>
    mc_base m' = direct_mapping_addend \<and> boot_mapped (boot_table_of env) m' \<and>
    mc_regs m' A0 = mc_regs m A0 \<and> mc_regs m' A1 = direct_mapping_addend + mc_regs m A1 \<and>
    mc_regs m' SP = direct_mapping_addend + en_symbol env Sym_early_stack_top \<and>
    mc_mem m' = boot_memory env rels zeros (mc_mem m)"
proof -
  define pt where "pt = boot_table_of env"
  have code: "code_placed env" using assms(1) by (simp add: image_placed_def)
  have pt: "unat pt mod 4096 = 0" "unat pt + 4096 \<le> 2 ^ 38"
    using code by (simp_all add: pt_def boot_table_of_def code_placed_def unat_word_ariths)
  have placed: "unat pt + 4096 + 24 * (length rels + 1) \<le> 2 ^ 38" "relocations_at (pt + 4096) rels (mc_mem m)"
    "list_all (relocation_ok env (unat pt + 4096) (unat pt + 4096 + 24 * (length rels + 1))) rels"
    "en_symbol env Sym_bss_start AND 7 = 0" "0 < zeros" "unat (en_symbol env Sym_bss_start) + 8 * zeros \<le> 2 ^ 38"
    "unat pt + 4096 + 24 * (length rels + 1) \<le> unat (en_symbol env Sym_bss_start)"
    "en_symbol env Sym_bss_end = en_symbol env Sym_bss_start + 8 * word_of_nat zeros"
    using assms(1) by (simp_all add: image_placed_def Let_def pt_def)
  obtain m1 where m1: "runs_to boot_code walk env m m1" "mc_pc m1 = 16" "kept [T0, T1, T2, T3] m m1"
    "mc_regs m1 T0 = pt + 4096" "mc_mem m1 = store_all pt (map boot_entry [0..<512]) (mc_mem m)"
    using table_built [OF code assms(2-5)] unfolding pt_def by blast
  have same: "mc_base m1 = 0" "mc_csr m1 Satp = 0" "mc_exit m1 = None" "mc_regs m1 A0 = mc_regs m A0" "mc_regs m1 A1 = mc_regs m A1"
    using m1(3) assms(3-5) by (simp_all add: kept_def)
  have "boot_table_at pt (mc_mem m1)" unfolding m1(5) by (rule stored_table)
  from paging_on [OF code m1(2) same(1-3) m1(4) [unfolded pt_def] this [unfolded pt_def]]
  obtain m2 where m2: "runs_to boot_code walk env m1 m2" "mc_pc m2 = 27" "upper_ready env m2"
    "mc_regs m2 T0 = direct_mapping_addend + (pt + 4096)" "mc_regs m2 A0 = mc_regs m A0"
    "mc_regs m2 A1 = direct_mapping_addend + mc_regs m A1" "mc_mem m2 = mc_mem m1"
    unfolding pt_def upper_ready_def using same by auto
  have upt: "unat (pt + 4096) = unat pt + 4096" using pt(2) by (simp add: unat_word_ariths)
  have "mc_mem m2 x = mc_mem m x" if "unat (pt + 4096) \<le> unat x" for x
    unfolding m2(7) m1(5)
  proof (rule store_all_other)
    fix i
    assume "i < length (map boot_entry [0..<512])"
    then have "in_table pt (pt + 8 * word_of_nat i)" using table_cell [OF pt(2), of i] by (simp del: upt_rec_numeral)
    then show "x \<noteq> pt + 8 * word_of_nat i" using that upt by (auto simp: in_table_def)
  qed
  then have rels: "relocations_at (pt + 4096) rels (mc_mem m2)"
    by (subst relocations_at_cong [where mem = "mc_mem m"]) (use placed(1,2) upt in simp_all)
  have "(pt + 4096) AND 7 = 0"
  proof -
    have "8 dvd (4096 :: nat)" by simp
    then have "8 dvd unat pt" using mod_0_imp_dvd [OF pt(1)] by (rule dvd_trans)
    then show ?thesis unfolding aligned_dvd upt by simp
  qed
  from relocations_loop [OF code m2(3,2,4) this _ rels] placed(1,3)
  obtain m3 where m3: "runs_to boot_code walk env m2 m3" "mc_pc m3 = 40" "upper_ready env m3"
      "mc_regs m3 T0 = direct_mapping_addend + en_symbol env Sym_bss_start"
      "mc_regs m3 T1 = direct_mapping_addend + en_symbol env Sym_bss_end"
      "mc_regs m3 A0 = mc_regs m2 A0" "mc_regs m3 A1 = mc_regs m2 A1" "mc_mem m3 = relocate rels (mc_mem m2)"
    by (auto simp: upt)
  obtain n where n: "zeros = Suc n" using placed(5) gr0_conv_Suc by auto
  have "unat (boot_table_of env) + 4096 \<le> unat (en_symbol env Sym_bss_start)" using placed(7) by (simp add: pt_def)
  with clear_loop [OF code m3(3,2,4), of n] m3(5) placed(4,6,8)
  obtain m4 where m4: "runs_to boot_code walk env m3 m4" "mc_pc m4 = 44" "upper_ready env m4"
      "mc_regs m4 A0 = mc_regs m3 A0" "mc_regs m4 A1 = mc_regs m3 A1"
      "mc_mem m4 = store_all (en_symbol env Sym_bss_start) (replicate zeros 0) (mc_mem m3)"
    by (auto simp: n)
  obtain m5 where m5: "runs_to boot_code walk env m4 m5" "mc_exit m5 = Some (To Sym_main)"
    "mc_base m5 = direct_mapping_addend" "boot_mapped (boot_table_of env) m5" "mc_regs m5 A0 = mc_regs m4 A0"
    "mc_regs m5 A1 = mc_regs m4 A1" "mc_regs m5 SP = direct_mapping_addend + en_symbol env Sym_early_stack_top"
    "mc_mem m5 = mc_mem m4"
    using boot_exit [OF code m4(3,2)] by blast
  have "mc_mem m5 = boot_memory env rels zeros (mc_mem m)"
    unfolding m5(8) m4(6) m3(8) m2(7) m1(5) boot_memory_def pt_def ..
  moreover have "runs_to boot_code walk env m m5"
    by (rule runs_to_trans [OF m1(1)], rule runs_to_trans [OF m2(1)], rule runs_to_trans [OF m3(1)],
        rule runs_to_trans [OF m4(1) m5(1)])
  ultimately show ?thesis using m5 m4(4,5) m3(6,7) m2(5,6) by auto
qed

text \<open>What the memory holds then.\<close>

lemma relocate_other: "x \<notin> fst ` set rels \<Longrightarrow> relocate rels mem x = mem x"
  by (induction rels mem rule: relocate.induct) (auto simp: fun_upd_def)

lemma relocate_at:
  "distinct (map fst rels) \<Longrightarrow> (off, info, addend) \<in> set rels \<Longrightarrow> relocate rels mem off = direct_mapping_addend + addend"
proof (induction rels mem rule: relocate.induct)
  case (2 o' i' a' rels mem)
  show ?case
  proof (cases "(off, info, addend) \<in> set rels")
    case True
    then show ?thesis using "2.IH" "2.prems"(1) by (simp add: fun_upd_def)
  next
    case False
    then have "off = o'" "addend = a'" "off \<notin> fst ` set rels" using "2.prems" by auto
    then show ?thesis using relocate_other [of off rels] by simp
  qed
qed simp

lemma store_all_outside:
  assumes "unat a + 8 * length xs \<le> 2 ^ 38" "unat x < unat a \<or> unat a + 8 * length xs \<le> unat x"
  shows "store_all a xs mem x = mem x"
proof (rule store_all_other)
  fix i
  assume i: "i < length xs"
  have "unat (8 * word_of_nat i :: u64) = 8 * i" by (rule eight_times) (use i assms(1) in simp)
  then have "unat (a + 8 * word_of_nat i) = unat a + 8 * i" using i assms(1) by (simp add: unat_word_ariths)
  then show "x \<noteq> a + 8 * word_of_nat i" using i assms(2) by auto
qed

lemma boot_zeros:
  assumes "image_placed env rels zeros mem" "i < zeros"
  shows "boot_memory env rels zeros mem (en_symbol env Sym_bss_start + 8 * word_of_nat i) = 0"
  using store_all_at [of "replicate zeros 0" i] assms by (simp add: boot_memory_def image_placed_def Let_def)

lemma boot_relocated:
  assumes "image_placed env rels zeros mem" "distinct (map fst rels)" "(off, info, addend) \<in> set rels"
    "unat off < unat (en_symbol env Sym_bss_start)"
  shows "boot_memory env rels zeros mem off = direct_mapping_addend + addend"
  unfolding boot_memory_def
  by (subst store_all_outside) (use assms relocate_at [OF assms(2,3)] in \<open>auto simp: image_placed_def Let_def\<close>)

lemma boot_elsewhere:
  assumes "image_placed env rels zeros mem" "\<not> in_table (boot_table_of env) x" "x \<notin> fst ` set rels"
    "unat x < unat (en_symbol env Sym_bss_start) \<or> unat (en_symbol env Sym_bss_end) \<le> unat x"
  shows "boot_memory env rels zeros mem x = mem x"
proof -
  have placed: "unat (boot_table_of env) + 4096 \<le> 2 ^ 38" "unat (en_symbol env Sym_bss_start) + 8 * zeros \<le> 2 ^ 38"
    "en_symbol env Sym_bss_end = en_symbol env Sym_bss_start + 8 * word_of_nat zeros"
    using assms(1) by (simp_all add: image_placed_def Let_def)
  have "unat (8 * word_of_nat zeros :: u64) = 8 * zeros" by (rule eight_times) (use placed(2) in simp)
  then have "unat (en_symbol env Sym_bss_end) = unat (en_symbol env Sym_bss_start) + 8 * zeros"
    unfolding placed(3) using placed(2) by (simp add: unat_word_ariths)
  then have "store_all (en_symbol env Sym_bss_start) (replicate zeros 0) f x = f x" for f
    by (intro store_all_outside) (use placed(2) assms(4) in auto)
  moreover have "store_all (boot_table_of env) (map boot_entry [0..<512]) mem x = mem x"
    by (rule store_all_outside) (use placed(1) assms(2) in \<open>auto simp: in_table_def simp del: upt_rec_numeral\<close>)
  ultimately show ?thesis unfolding boot_memory_def by (simp only: relocate_other [OF assms(3)])
qed

text \<open>
  C40: The entry of the kernel starts it in the upper half.  From the first instruction, with address
  translation off, the code of \<open>_start\<close> runs to \<open>main\<close>: it ends.  Then the processor translates every
  address of the lower half and of the direct mapping to the physical address it stands for; the
  arguments are the hart and the device tree's address in the direct mapping; the stack is the early
  stack's top; the section of zeros is zero; every relocation is applied for the upper half; and no
  other memory has changed but the table's.
\<close>

theorem kernel_boots:
  assumes "image_placed env rels zeros (mc_mem m)" "mc_pc m = 0" "mc_base m = 0" "mc_csr m Satp = 0" "mc_exit m = None"
    "distinct (map fst rels)" "\<forall>r\<in>set rels. unat (fst r) < unat (en_symbol env Sym_bss_start)"
  shows "\<exists>n m'. steps n boot_code walk env m = Some m' \<and> mc_exit m' = Some (To Sym_main) \<and>
    mc_base m' = direct_mapping_addend \<and>
    (\<forall>v. unat v < 2 ^ 38 \<longrightarrow> walk m' v = Some v \<and> walk m' (direct_mapping_addend + v) = Some v) \<and>
    mc_regs m' A0 = mc_regs m A0 \<and> mc_regs m' A1 = direct_mapping_addend + mc_regs m A1 \<and>
    mc_regs m' SP = direct_mapping_addend + en_symbol env Sym_early_stack_top \<and>
    (\<forall>i<zeros. mc_mem m' (en_symbol env Sym_bss_start + 8 * word_of_nat i) = 0) \<and>
    (\<forall>(off, info, addend)\<in>set rels. mc_mem m' off = direct_mapping_addend + addend) \<and>
    (\<forall>x. \<not> in_table (boot_table_of env) x \<longrightarrow> x \<notin> fst ` set rels \<longrightarrow>
      (unat x < unat (en_symbol env Sym_bss_start) \<or> unat (en_symbol env Sym_bss_end) \<le> unat x) \<longrightarrow> mc_mem m' x = mc_mem m x)"
proof -
  obtain m' where m': "runs_to boot_code walk env m m'" "mc_exit m' = Some (To Sym_main)"
    "mc_base m' = direct_mapping_addend" "boot_mapped (boot_table_of env) m'" "mc_regs m' A0 = mc_regs m A0"
    "mc_regs m' A1 = direct_mapping_addend + mc_regs m A1"
    "mc_regs m' SP = direct_mapping_addend + en_symbol env Sym_early_stack_top"
    "mc_mem m' = boot_memory env rels zeros (mc_mem m)"
    using boot_runs [OF assms(1-5)] by blast
  obtain n where "steps n boot_code walk env m = Some m'" using m'(1) by (auto simp: runs_to_def)
  moreover have "\<forall>v. unat v < 2 ^ 38 \<longrightarrow> walk m' v = Some v \<and> walk m' (direct_mapping_addend + v) = Some v"
    using boot_lower [OF m'(4)] boot_upper [OF m'(4)] by blast
  moreover have "\<forall>(off, info, addend)\<in>set rels. mc_mem m' off = direct_mapping_addend + addend"
    unfolding m'(8) using boot_relocated [OF assms(1,6)] assms(7) by fastforce
  ultimately show ?thesis
    using m' boot_zeros [OF assms(1)] boot_elsewhere [OF assms(1)] by (intro exI [of _ n] exI [of _ m']) simp
qed

text \<open>An image with one relocation and two doublewords of zeros.\<close>

definition demo_image_env :: asm_env where
  "demo_image_env = \<lparr>en_at = (\<lambda>k. word_of_nat (0x80200000 + (if k \<le> 24 then 4 * k else 4 * k - 2))),
     en_symbol = (\<lambda>s. case s of Sym_bss_start \<Rightarrow> 0x80204000 | Sym_bss_end \<Rightarrow> 0x80204010 | _ \<Rightarrow> 0x80290000),
     en_call = (\<lambda>_ m. m)\<rparr>"

definition demo_image :: machine where
  "demo_image = \<lparr>mc_regs = (\<lambda>r. if r = A1 then 0x87000000 else 0),
     mc_mem = (\<lambda>x. if x = 0x80202000 then 0x80203000 else if x = 0x80202008 then 3
       else if x = 0x80202010 then 0x80203100 else if x = 0x80202020 then 0 else 7),
     mc_csr = (\<lambda>_. 0), mc_pc = 0, mc_base = 0, mc_exit = None\<rparr>"

lemma demo_code_placed: "code_placed demo_image_env"
proof -
  have "unat (en_at demo_image_env k) < 2 ^ 38" if "k < 46" for k
  proof -
    define j where "j = 0x80200000 + (if k \<le> 24 then 4 * k else 4 * k - 2)"
    have "unat (word_of_nat j :: u64) \<le> j" unfolding unat_of_nat by (rule mod_less_eq_dividend)
    moreover have "j \<le> 0x80200000 + 4 * k" by (simp add: j_def)
    then have "j < 2 ^ 38" using that by simp
    ultimately show ?thesis unfolding demo_image_env_def asm_env.simps j_def [symmetric] by simp
  qed
  then show ?thesis by (simp add: code_placed_def) (simp add: demo_image_env_def)
qed

lemma demo_image_placed: "image_placed demo_image_env [(0x80203000, 3, 0x80203100)] 2 (mc_mem demo_image)"
proof -
  have pt: "boot_table_of demo_image_env = 0x80201000" by (simp add: boot_table_of_def demo_image_env_def)
  show ?thesis
    unfolding image_placed_def pt using demo_code_placed
    by (simp add: pt Let_def relocation_ok_def in_table_def) (simp add: demo_image_def demo_image_env_def)
qed

theorem kernel_boots_witness:
  "\<exists>n m'. steps n boot_code walk demo_image_env demo_image = Some m' \<and> mc_exit m' = Some (To Sym_main) \<and>
     mc_mem m' 0x80203000 = 0xFFFFFFC080203100 \<and> mc_mem m' 0x80204008 = 0"
proof -
  obtain n m' where m': "steps n boot_code walk demo_image_env demo_image = Some m'" "mc_exit m' = Some (To Sym_main)"
    "\<forall>i<2. mc_mem m' (en_symbol demo_image_env Sym_bss_start + 8 * word_of_nat i) = 0"
    "\<forall>(off, info, addend)\<in>set [(0x80203000, 3 :: u64, 0x80203100)]. mc_mem m' off = direct_mapping_addend + addend"
    using kernel_boots [OF demo_image_placed] by (fastforce simp: demo_image_def demo_image_env_def)
  have "mc_mem m' 0x80204008 = 0" using m'(3) [rule_format, of 1] by (simp add: demo_image_env_def)
  moreover have "mc_mem m' 0x80203000 = 0xFFFFFFC080203100" using m'(4) by (simp add: boot_constants)
  ultimately show ?thesis using m'(1,2) by blast
qed

end
