(* ===== verification/Spec2Isabelle.thy ===== *)
theory Spec2Isabelle
  imports Ring_Buffer Kernel_Messages Drvli_Dispatch Drvli_Types Fat_Properties Kernel_Heap
    Page_Hardware Pci_Registers Virtio_Correct Windowing_Properties Image_Viewer_Correct Terminal_Correct
    Gpu_Correct Input_Driver_Correct Trap_Entry Boot
begin

text \<open>
  Deravel OS, a capability-based operating system for RISC-V in Rust: a verification development
  for its kernel (\<open>kernel/\<close>), the crate of types that kernel and programs share (\<open>types/\<close>), the
  users' side of capabilities (\<open>kernel-api/\<close>), the code generators of its interface language
  (\<open>codegen/\<close> and the build scripts) and the server of its file system (\<open>filesystems/fat/\<close>).

  \<^bold>\<open>The program.\<close>  The kernel starts with a heap of physical memory, creates the first processes and
  then only runs in traps: a trap of a user (\<open>main.rs\<close>) is a system call (\<open>syscall.rs\<close>), a page
  fault or an interrupt, and it ends with a return to that user or to another one that the
  scheduler (\<open>process.rs\<close>) chose.  Processes talk by messages, which they may send only with a
  capability: an address in a read-only array of certificates, one page per process, in which each
  process writes its own page (\<open>types/src/capability\<close>).  Streams of data go through ring buffers in
  shared memory.  The file system server is a process that reads sectors from the kernel's drive.

  \<^bold>\<open>Conventions.\<close>  A panic is \<^const>\<open>None\<close> (\<open>Deravel_Prelude\<close>): overflow checks are on in the
  profile the program is built with, so every \<open>usize\<close> operation is a checked one on \<^typ>\<open>nat\<close>;
  registers, certificates and page-table entries are words.  A Rust \<open>Result\<close> is a sum with the error
  on the left.  State is passed: the heap, a table or a process is a value, and the kernel is a
  record with the table of processes (each behind its mutex), memory, and the kernel's capabilities.

  \<^bold>\<open>The theories, and the code they model.\<close>
  \<^item> \<open>Heap\<close>, \<open>Buddy\<close>: \<open>kernel/src/heap*\<close>, the bump and the buddy allocator and the start of the kernel
    heap.  \<open>Buddy_Correct\<close>, \<open>Buddy_Session\<close>: the tree invariant and the set of free bytes; allocation
    succeeds exactly when it can; any legal session is safe.  \<open>Kernel_Heap\<close>: the same allocator with the
    early heap that its nodes come from (the definitions with the suffix \<open>_in\<close>), which is never given
    back: the session of the kernel ends exactly when that is used up.
  \<^item> \<open>Memory_Layout\<close>, \<open>Page_Entry\<close>, \<open>Page_Table\<close>: \<open>types/src/memory.rs\<close>, \<open>types/src/align.rs\<close>,
    \<open>kernel/src/page*\<close>.  \<open>Page_Table_Correct\<close>, \<open>Page_Table_Commute\<close>: mapping and unmapping against a walk of
    the table; disjoint mappings commute.  \<open>Page_Hardware\<close>: the walk of the processor (Sv39) over the words
    of memory, and what \<open>is_mapped\<close> has to do with it.
  \<^item> \<open>Ring_Buffer\<close>: \<open>types/src/ring_buffer.rs\<close>, with the locale of bounded queues it implements and the
    interleavings of one writer and one reader.
  \<^item> \<open>Capability\<close>: \<open>types/src/capability\<close>, \<open>kernel/src/capability.rs\<close>, \<open>kernel-api/src/capability.rs\<close>.
    \<open>Capability_Correct\<close>: validation is what chains of certificates entitle to, and gives no process more
    than it was given.
  \<^item> \<open>Process\<close>, \<open>Elf\<close>: a process, its memory, its creation and its program (\<open>process.rs\<close>, \<open>elf.rs\<close>,
    \<open>user.rs\<close>); \<open>Process_Correct\<close>, \<open>Process_Memory\<close>, \<open>Process_Created\<close>, \<open>User_Memory\<close>: sessions of
    allocations, and which requests stop the kernel; isolation of a new process; copies between the kernel and users.
  \<^item> \<open>Sync\<close>, \<open>Kernel_State\<close>, \<open>Syscall\<close>, \<open>Scheduler\<close>: \<open>sync.rs\<close>, \<open>interrupt.rs\<close>, \<open>shared_memory.rs\<close>,
    \<open>virtual_memory.rs\<close>, \<open>stack.rs\<close>, \<open>process/spawner.rs\<close>, \<open>syscall.rs\<close>, the second half of
    \<open>process.rs\<close> and the traps of \<open>main.rs\<close>.  \<open>Kernel_Correct\<close>, \<open>Kernel_Safe\<close>: the invariant of the
    table of processes, and that every system call, trap and turn of the scheduler keeps it.
    \<open>Kernel_Properties\<close>, \<open>Kernel_Messages\<close>: the scheduler is fair; who can be sent a message; a
    call from end to end; where a process can stop the kernel.
  \<^item> \<open>Machine\<close>: the assembly of \<open>arch.rs\<close>, on a machine with the instructions it uses and the
    translation of addresses.  \<open>Machine_Correct\<close>, \<open>Trap_Entry\<close>: a trap saves a user and the return
    restores it.  \<open>Boot_Table\<close>, \<open>Boot\<close>: the entry of the kernel builds the direct mapping, relocates
    the kernel to it and ends in \<open>main\<close>.
  \<^item> \<open>Drvli\<close>, \<open>Drvli_Generate\<close>, \<open>Drvli_Stubs\<close>: \<open>codegen/src\<close> and the build scripts of \<open>kernel\<close>,
    \<open>kernel-api\<close> and \<open>types\<close>, with generated code as text.  \<open>Drvli_Correct\<close>, \<open>Drvli_Types\<close>: the
    parser inverts printing; when the generators succeed.  \<open>Drvli_Reader\<close> reads the text of a generated
    dispatcher back, line by line, as arms of expressions over registers.  \<open>Drvli_Dispatch\<close>: the text of
    the dispatcher takes every argument from where the text of the stub passes it, and running the text
    generated from \<open>interfaces.drvli\<close> is the dispatcher of \<open>Scheduler\<close>.

  \<^item> \<open>Fat_Bpb\<close>, \<open>Fat_Directory\<close>, \<open>Fat\<close>: the file system server \<open>filesystems/fat/src\<close>.
    \<open>Fat_Directory_Correct\<close>, \<open>Fat_Correct\<close>, \<open>Fat_Properties\<close>: names and the allocation table are read as
    the format writes them; a path is read as the bytes of its file, from the data area only; and the
    volumes on which the server panics or does not end.

  \<^item> \<open>Pci\<close>: \<open>kernel/src/pci*\<close> and the capabilities of \<open>virtio.rs\<close>: the scan of the bus.
    \<open>Pci_Correct\<close>: the ranges of all devices are disjoint.  \<open>Pci_Registers\<close>: to which addresses a device
    answers after the scan, from the contents of its registers; two registers with the same address.
  \<^item> \<open>Virtio\<close>: \<open>kernel/src/virtio/queue.rs\<close> and \<open>blk.rs\<close>, queues and the driver of drives.
    \<open>Virtio_Correct\<close>: the driver is a disk for 65535 requests.
  \<^item> \<open>Gpu\<close>, \<open>Input_Driver\<close>: \<open>kernel/src/virtio/gpu*\<close> and \<open>input*\<close>, the drivers of displays and of input
    devices.  \<open>Gpu_Correct\<close>: the driver is a screen with a cursor.  \<open>Input_Driver_Correct\<close>: events arrive
    once and in order; when an interrupt panics.

  \<^item> \<open>Framebuffer\<close>: \<open>kernel-api/src/framebuffer.rs\<close>, and the picture that each operation gives.
  \<^item> \<open>Dispatch\<close>: \<open>kernel-api/src/dispatch.rs\<close>, the runtime of servers: its table of handlers always fits
    the certificates that the server has granted, for every server that keeps the contract
    \<open>capability_server\<close>.
  \<^item> \<open>Input_Events\<close>, \<open>Windowing\<close>: \<open>types/src/input.rs\<close> and \<open>apps/src/bin/windowing.rs\<close>.
    \<open>Windowing_Correct\<close>, \<open>Windowing_Properties\<close>: the invariant of the windowing server and its
    interpretation of that contract; it does not panic, its windows stay reachable for the processes
    that created them, and the active window is drawn on top.
  \<^item> \<open>Font\<close>, \<open>Terminal\<close>: \<open>apps/build.rs\<close>, the generated font, and \<open>apps/src/bin/terminal.rs\<close>.
    \<open>Font_Correct\<close>, \<open>Terminal_Correct\<close>: glyphs stay in their cells; the terminal is a screen on which
    text is typed.
  \<^item> \<open>Painting\<close>, \<open>Image_Viewer\<close>: \<open>for\<close> loops that paint, and \<open>apps/src/bin/image_viewer.rs\<close>.
    \<open>Image_Viewer_Correct\<close>: every file in the binary pixel map format is shown as it says.

  \<^bold>\<open>Bounds and fuel.\<close>  \<^const>\<open>schedule_userspace\<close> has fuel 9: every turn but the last kills one of at
  most 8 processes, and \<open>scheduler_fair\<close> shows that it does not run out.  \<^const>\<open>validate\<close> and
  \<^const>\<open>read_clusters\<close> may not end, so they are partial functions whose not ending is \<^const>\<open>None\<close>;
  this and a panic both stop the kernel, or the server.

  \<^bold>\<open>Parameters.\<close>  The devices behind the kernel's own capabilities, the loaders of demand-paged
  memory, the ELF parser, the serialisation by \<open>postcard\<close> and the answers of the kernel's page
  allocator are parameters of the model, with no hypotheses about them.  So are the device tree, the
  registers of PCI devices and the drive: the drive and the display are assumed to serve
  requests as documented (\<^const>\<open>serves_drive\<close>, \<^const>\<open>serves_display\<close>), and devices that do are defined and
  shown to; an input device fills its buffers in the order in which they are offered, and a PCI device
  has registers that follow the standard (\<^const>\<open>standard_device\<close>).  What the kernel and other
  servers answer to the windowing server is a function of the requests so far; it is assumed that
  they hand out capabilities that are ones, and memory of the size that was asked for, less than 8
  GiB (\<^const>\<open>env_ok\<close>), and that input devices keep to the ranges they announce.  A user is any change of
  its registers and of the memory that its page table lets it write.

  \<^bold>\<open>Not modelled.\<close>  The firmware interface (\<open>sbi.rs\<close>), the log and the formatting of what is printed;
  the reading of the device tree outside the PCI bus; the encoding of instructions; stale entries of
  the translation caches; the driver of the network and the shell; that the kernel heap, which the
  tables and the heaps of processes take their nodes from, is used up there.
\<close>

end
